(* ===== verification/Gopher_Prelude.thy ===== *)
theory Gopher_Prelude
  imports Main "HOL-Library.Word"
begin

text \<open>
  Shared vocabulary of the development: the machine types of the C code, the outcome of a
  C computation (a value, undefined behaviour, or a loop that never returns), reads and
  writes of byte buffers with their bounds, little- and big-endian integers as byte lists,
  C strings inside buffers, and the generic list lemmas the component theories use.
\<close>

section \<open>Machine types\<close>

type_synonym byte = "8 word"
type_synonym u16 = "16 word"
type_synonym u32 = "32 word"
type_synonym u64 = "64 word"

text \<open>Collections of rules that carry the component proofs.\<close>

named_theorems outc_simps \<open>evaluation rules for outcomes\<close>
named_theorems mem_simps \<open>reads and writes of byte buffers\<close>

section \<open>Outcomes of a C computation\<close>

text \<open>
  \<open>Ok x\<close>: the call returned \<open>x\<close>. \<open>UB\<close>: it read or wrote outside an object, or did something
  else C leaves undefined. \<open>NoRet\<close>: it loops forever.
\<close>

datatype 'a outc = Ok 'a | UB | NoRet

definition bnd :: "'a outc \<Rightarrow> ('a \<Rightarrow> 'b outc) \<Rightarrow> 'b outc" where
  "bnd m f = (case m of Ok x \<Rightarrow> f x | UB \<Rightarrow> UB | NoRet \<Rightarrow> NoRet)"

text \<open>A loop defined by \<^theory_text>\<open>partial_function (option)\<close>: no value means that it does not stop.\<close>

definition loop_result :: "'a outc option \<Rightarrow> 'a outc" where
  "loop_result r = (case r of None \<Rightarrow> NoRet | Some x \<Rightarrow> x)"

text \<open>
  A \<open>do { ... } while\<close> loop: the body maps the loop state to the new state and says whether
  the loop is left.
\<close>

partial_function (option) c_loop :: "('s \<Rightarrow> (bool \<times> 's) outc) \<Rightarrow> 's \<Rightarrow> 's outc option" where
  "c_loop body s = (case body s of
      UB \<Rightarrow> Some UB
    | NoRet \<Rightarrow> Some NoRet
    | Ok (stop, s') \<Rightarrow> if stop then Some (Ok s') else c_loop body s')"

declare c_loop.simps [code]

section \<open>Byte buffers\<close>

definition rd :: "byte list \<Rightarrow> nat \<Rightarrow> nat \<Rightarrow> byte list outc" where
  "rd m a n = (if a + n \<le> length m then Ok (take n (drop a m)) else UB)"

definition wr :: "byte list \<Rightarrow> nat \<Rightarrow> byte list \<Rightarrow> byte list outc" where
  "wr m a bs = (if a + length bs \<le> length m
                then Ok (take a m @ bs @ drop (a + length bs) m) else UB)"

text \<open>The buffer after \<open>bs\<close> has been stored at \<open>a\<close>; consecutive stores extend \<open>bs\<close>.\<close>

definition fill :: "byte list \<Rightarrow> nat \<Rightarrow> byte list \<Rightarrow> byte list" where
  "fill m a bs = take a m @ bs @ drop (a + length bs) m"

text \<open>Little-endian integers: the byte order of the x86-64 and aarch64 hosts the program runs on.\<close>

fun le_bytes :: "nat \<Rightarrow> nat \<Rightarrow> byte list" where
  "le_bytes 0 x = []"
| "le_bytes (Suc n) x = of_nat (x mod 256) # le_bytes n (x div 256)"

fun le_val :: "byte list \<Rightarrow> nat" where
  "le_val [] = 0"
| "le_val (b # bs) = unat b + 256 * le_val bs"

definition wr16 :: "byte list \<Rightarrow> nat \<Rightarrow> u16 \<Rightarrow> byte list outc" where
  "wr16 m a w = wr m a (le_bytes 2 (unat w))"

definition wr32 :: "byte list \<Rightarrow> nat \<Rightarrow> u32 \<Rightarrow> byte list outc" where
  "wr32 m a w = wr m a (le_bytes 4 (unat w))"

definition rd16 :: "byte list \<Rightarrow> nat \<Rightarrow> u16 outc" where
  "rd16 m a = bnd (rd m a 2) (\<lambda>bs. Ok (of_nat (le_val bs)))"

definition rd32 :: "byte list \<Rightarrow> nat \<Rightarrow> u32 outc" where
  "rd32 m a = bnd (rd m a 4) (\<lambda>bs. Ok (of_nat (le_val bs)))"

text \<open>Network byte order, used by the protocol parsers.\<close>

definition be_bytes :: "nat \<Rightarrow> nat \<Rightarrow> byte list" where
  "be_bytes n x = rev (le_bytes n x)"

text \<open>
  C strings. A \<open>char *\<close> that owns a heap block is the list of the block's bytes; \<open>strlen\<close>
  stops at the first zero byte and runs out of the block when there is none.
\<close>

definition strlen :: "byte list \<Rightarrow> nat outc" where
  "strlen s = (if 0 \<in> set s then Ok (length (takeWhile (\<lambda>b. b \<noteq> 0) s)) else UB)"

text \<open>A block that holds exactly one string: its characters, none of them zero, and the terminator.\<close>

definition cstr :: "byte list \<Rightarrow> bool" where
  "cstr s \<longleftrightarrow> s \<noteq> [] \<and> last s = 0 \<and> 0 \<notin> set (butlast s)"

section \<open>Rules for outcomes\<close>

lemma bnd_simps [simp, outc_simps]:
  "bnd (Ok x) f = f x" "bnd UB f = UB" "bnd NoRet f = NoRet"
  by (simp_all add: bnd_def)

lemma bnd_assoc: "bnd (bnd m f) g = bnd m (\<lambda>x. bnd (f x) g)"
  by (cases m) simp_all

lemma bnd_eq_OkD: "bnd m f = Ok y \<Longrightarrow> \<exists>x. m = Ok x \<and> f x = Ok y"
  by (cases m) simp_all

lemma bnd_cong_Ok: "m = Ok x \<Longrightarrow> bnd m f = f x"
  by simp

lemma loop_result_simps [simp, outc_simps]:
  "loop_result None = NoRet" "loop_result (Some x) = x"
  by (simp_all add: loop_result_def)

text \<open>Unfolding the loop once, and a loop whose states stay in a set it cannot leave.\<close>

lemma c_loop_stop: "body s = Ok (True, s') \<Longrightarrow> c_loop body s = Some (Ok s')"
  by (simp add: c_loop.simps)

lemma c_loop_step: "body s = Ok (False, s') \<Longrightarrow> c_loop body s = c_loop body s'"
  by (subst c_loop.simps) simp

lemma c_loop_stuck:
  assumes "P s" and step: "\<And>s. P s \<Longrightarrow> \<exists>s'. body s = Ok (False, s') \<and> P s'"
  shows "c_loop body s = None"
proof (rule ccontr)
  assume "c_loop body s \<noteq> None"
  then obtain y where "c_loop body s = Some y" by blast
  then have "\<not> (body = body \<and> P s)"
  proof (rule c_loop.raw_induct [where P = "\<lambda>bd s y. \<not> (bd = body \<and> P s)", rotated])
    fix loop bd s y
    assume IH: "\<And>bd s y. loop bd s = Some y \<Longrightarrow> \<not> (bd = body \<and> P s)"
      and run: "(case bd s of Ok (stop, s') \<Rightarrow> if stop then Some (Ok s') else loop bd s'
                 | UB \<Rightarrow> Some UB | NoRet \<Rightarrow> Some NoRet) = Some y"
    show "\<not> (bd = body \<and> P s)"
    proof
      assume bd: "bd = body \<and> P s"
      then obtain s' where "body s = Ok (False, s')" "P s'" using step by blast
      with bd run IH show False by auto
    qed
  qed
  with assms(1) show False by simp
qed

text \<open>A loop that keeps an invariant and descends in a well-founded relation returns.\<close>

lemma c_loop_total:
  assumes "wf R" and step: "\<And>s. I s \<Longrightarrow> \<exists>stop s'. body s = Ok (stop, s') \<and> (if stop then Q s' else I s' \<and> (s', s) \<in> R)"
  shows "I s \<Longrightarrow> \<exists>s'. c_loop body s = Some (Ok s') \<and> Q s'"
  using assms(1)
proof (induction s rule: wf_induct_rule)
  case (less s)
  obtain stop s' where b: "body s = Ok (stop, s')" "if stop then Q s' else I s' \<and> (s', s) \<in> R"
    using step [OF less.prems] by blast
  show ?case
  proof (cases stop)
    case True
    then show ?thesis using b c_loop_stop [of body s s'] by auto
  next
    case False
    then show ?thesis using b c_loop_step [of body s s'] less.IH [of s'] by auto
  qed
qed

section \<open>Rules for buffers\<close>

lemma unat_byte_bound: "unat (b :: byte) < 256"
  using unsigned_less [of b, where 'a = nat] by simp

lemma unat_u16_bound: "unat (w :: u16) < 65536"
  using unsigned_less [of w, where 'a = nat] by simp

lemma unat_u32_bound: "unat (w :: u32) < 4294967296"
  using unsigned_less [of w, where 'a = nat] by simp

lemma unat_exp_u32: "k < 32 \<Longrightarrow> unat (2 ^ k :: u32) = 2 ^ k"
proof -
  assume k: "k < 32"
  have "unat (of_nat (2 ^ k) :: u32) = 2 ^ k mod 2 ^ 32" by (subst unat_of_nat) simp
  also have "\<dots> = 2 ^ k" using k by (intro mod_less power_strict_increasing) auto
  finally show ?thesis by simp
qed

lemma unat_add_of_nat_u32: "unat (a + of_nat i :: u32) = (unat a + i) mod 2 ^ 32"
  by (simp add: unat_word_ariths unat_of_nat mod_simps)

lemma unat_diff_Suc_u32: "unat (a - b :: u32) + 1 < 2 ^ 32 \<Longrightarrow> unat (a + 1 - b) = unat (a - b) + 1"
proof -
  assume *: "unat (a - b) + 1 < 2 ^ 32"
  have "a + 1 - b = (a - b) + of_nat 1" by simp
  then have "unat (a + 1 - b) = (unat (a - b) + 1) mod 2 ^ 32"
    by (simp only: unat_add_of_nat_u32)
  with * show ?thesis by (simp only: mod_less)
qed

lemma unat_diff_pred_u32: "a \<noteq> b \<Longrightarrow> unat (a - (b + 1) :: u32) = unat (a - b) - 1"
proof -
  assume "a \<noteq> b"
  then have "a - b \<noteq> 0" by simp
  then have "unat ((a - b) - 1) = unat (a - b) - 1" by (rule unat_minus_one)
  then show ?thesis by (simp add: diff_diff_eq)
qed

lemma unat_eq_Suc_0_u32: "unat (x :: u32) = Suc 0 \<longleftrightarrow> x = 1"
proof
  assume "unat x = Suc 0"
  from arg_cong [OF this, of "of_nat :: nat \<Rightarrow> u32"] show "x = 1" by simp
qed simp

lemmas unat_bounds = unat_byte_bound unat_u16_bound unat_u32_bound

lemma length_le_bytes [simp]: "length (le_bytes n x) = n"
  by (induction n x rule: le_bytes.induct) simp_all

lemma unat_of_nat_byte [simp]: "unat (of_nat (x mod 256) :: byte) = x mod 256"
  by (simp add: unat_of_nat)

lemma le_val_le_bytes: "le_val (le_bytes n x) = x mod 256 ^ n"
proof (induction n x rule: le_bytes.induct)
  case (2 n x)
  then show ?case by (simp add: mod_mult2_eq)
qed simp

lemma le_val_bound: "le_val bs < 256 ^ length bs"
proof (induction bs)
  case (Cons b bs)
  have "unat b < 256" using unat_byte_bound [of b] by simp
  with Cons show ?case by simp
qed simp

lemma wr_append [mem_simps]:
  "length xs = a \<Longrightarrow> length ys = length bs \<Longrightarrow> wr (xs @ ys @ zs) a bs = Ok (xs @ bs @ zs)"
  by (auto simp: wr_def)

lemma rd_append [mem_simps]:
  "length xs = a \<Longrightarrow> length ys = n \<Longrightarrow> rd (xs @ ys @ zs) a n = Ok ys"
  by (auto simp: rd_def)

lemma length_wr: "wr m a bs = Ok m' \<Longrightarrow> length m' = length m"
  by (auto simp: wr_def split: if_splits)

lemma rd_all: "n = length s \<Longrightarrow> rd s 0 n = Ok s"
  by (simp add: rd_def)

lemma fill_Nil [simp]: "fill m a [] = m"
  by (simp add: fill_def)

lemma length_fill: "a + length bs \<le> length m \<Longrightarrow> length (fill m a bs) = length m"
  by (simp add: fill_def)

lemma wr_fill: "a + length bs \<le> length m \<Longrightarrow> wr m a bs = Ok (fill m a bs)"
  by (simp add: wr_def fill_def)

lemma wr_fill_next:
  assumes "c = a + length bs" "a + length bs + length cs \<le> length m"
  shows "wr (fill m a bs) c cs = Ok (fill m a (bs @ cs))"
proof -
  from assms have "a \<le> length m" by simp
  with assms show ?thesis by (simp add: wr_def fill_def min_absorb2 add_ac)
qed

lemma wr_fill_gap:
  assumes "c = a + length bs + n" "a + length bs + n + length cs \<le> length m"
  shows "wr (fill m a bs) c cs = Ok (fill m a (bs @ take n (drop (a + length bs) m) @ cs))"
proof -
  from assms have "a \<le> length m" "n \<le> length m - (a + length bs)" by simp_all
  with assms show ?thesis by (simp add: wr_def fill_def min_absorb2 add_ac)
qed

lemma wr_fill_inner:
  assumes "c = a + length bs" "length gp = length cs" "a + length bs + length gp + length ds \<le> length m"
  shows "wr (fill m a (bs @ gp @ ds)) c cs = Ok (fill m a (bs @ cs @ ds))"
proof -
  from assms have "a \<le> length m" by simp
  with assms show ?thesis by (simp add: wr_def fill_def min_absorb2 add_ac)
qed

lemma unat_of_nat_u16: "n < 65536 \<Longrightarrow> unat (of_nat n :: u16) = n"
  by (simp add: unat_of_nat)

lemma uint_of_nat_u16: "n < 65536 \<Longrightarrow> uint (of_nat n :: u16) = int n"
  using unat_of_nat_u16 [of n] by (metis uint_nat)

lemma wr_fill_gapE:
  assumes "c = a + length bs + n" "a + length bs + n + length cs \<le> length m"
  obtains gp where "length gp = n" "wr (fill m a bs) c cs = Ok (fill m a (bs @ gp @ cs))"
  using assms wr_fill_gap [OF assms] by (intro that [of "take n (drop (a + length bs) m)"]) simp_all

lemma rd16_append [mem_simps]:
  "length xs = a \<Longrightarrow> rd16 (xs @ le_bytes 2 (unat w) @ zs) a = Ok w"
proof -
  assume "length xs = a"
  then have "rd (xs @ le_bytes 2 (unat w) @ zs) a 2 = Ok (le_bytes 2 (unat w))"
    by (simp add: rd_append del: le_bytes.simps)
  moreover have "of_nat (le_val (le_bytes 2 (unat w))) = w"
    using unat_u16_bound [of w] by (simp add: le_val_le_bytes del: le_bytes.simps)
  ultimately show ?thesis by (simp add: rd16_def)
qed

lemma rd32_append [mem_simps]:
  "length xs = a \<Longrightarrow> rd32 (xs @ le_bytes 4 (unat w) @ zs) a = Ok w"
proof -
  assume "length xs = a"
  then have "rd (xs @ le_bytes 4 (unat w) @ zs) a 4 = Ok (le_bytes 4 (unat w))"
    by (simp add: rd_append del: le_bytes.simps)
  moreover have "of_nat (le_val (le_bytes 4 (unat w))) = w"
    using unat_u32_bound [of w] by (simp add: le_val_le_bytes del: le_bytes.simps)
  ultimately show ?thesis by (simp add: rd32_def)
qed

section \<open>Strings\<close>

lemma cstr_iff: "cstr s \<longleftrightarrow> (\<exists>t. s = t @ [0] \<and> 0 \<notin> set t)"
  by (cases s rule: rev_cases) (auto simp: cstr_def)

lemma strlen_cstr: "cstr s \<Longrightarrow> strlen s = Ok (length s - 1)"
proof -
  assume "cstr s"
  then obtain t where t: "s = t @ [0]" "0 \<notin> set t" by (auto simp: cstr_iff)
  then have "takeWhile (\<lambda>b. b \<noteq> 0) (t @ [0]) = t"
    by (subst takeWhile_append2) auto
  with t show ?thesis by (simp add: strlen_def)
qed

lemma cstr_nonempty: "cstr s \<Longrightarrow> 0 < length s"
  by (auto simp: cstr_def)

end
