(* ===== verification/Uthash.thy ===== *)
theory Uthash
  imports Gopher_Prelude
begin

text \<open>
  The hash tables of uthash, a library that is not part of the repository. Its operations are an
  argument of the definitions that use a table (\<open>'h\<close> is the table), and \<open>uthash_ok\<close> states the
  documented behaviour the code relies on; \<open>alist_ops\<close> is an instance for the concrete examples.
\<close>

section \<open>uthash\<close>

record ('k, 'v, 'h) uthash =
  ut_empty :: 'h
  ut_find :: "'k \<Rightarrow> 'h \<Rightarrow> 'v option"
  ut_add :: "'k \<Rightarrow> 'v \<Rightarrow> 'h \<Rightarrow> 'h"
  ut_del :: "'k \<Rightarrow> 'h \<Rightarrow> 'h"
  ut_iter :: "'h \<Rightarrow> ('k \<times> 'v) list"
  ut_count :: "'h \<Rightarrow> nat"
  ut_write :: "'k \<Rightarrow> 'v \<Rightarrow> 'h \<Rightarrow> 'h"

text \<open>
  The documented behaviour: an item added under a fresh key goes to the end of the iteration
  order, deletion removes the item and keeps the order of the others, lookup finds the item of a key.
  The items are the user's own structures: \<open>ut_write\<close> is an assignment through the pointer to the item
  of a key, which the table is not told about.
\<close>

definition uthash_ok :: "('k, 'v, 'h) uthash \<Rightarrow> bool" where
  "uthash_ok ops \<longleftrightarrow> ut_iter ops (ut_empty ops) = []
     \<and> (\<forall>h k. distinct (map fst (ut_iter ops h)) \<longrightarrow> ut_find ops k h = map_of (ut_iter ops h) k)
     \<and> (\<forall>h k v. k \<notin> fst ` set (ut_iter ops h) \<longrightarrow> ut_iter ops (ut_add ops k v h) = ut_iter ops h @ [(k, v)])
     \<and> (\<forall>h k. distinct (map fst (ut_iter ops h)) \<and> k \<in> fst ` set (ut_iter ops h)
          \<longrightarrow> ut_iter ops (ut_del ops k h) = filter (\<lambda>x. fst x \<noteq> k) (ut_iter ops h))
     \<and> (\<forall>h. ut_count ops h = length (ut_iter ops h))
     \<and> (\<forall>h k v. distinct (map fst (ut_iter ops h)) \<and> k \<in> fst ` set (ut_iter ops h)
          \<longrightarrow> ut_iter ops (ut_write ops k v h) = map (\<lambda>x. if fst x = k then (k, v) else x) (ut_iter ops h))"

definition alist_ops :: "('k, 'v, ('k \<times> 'v) list) uthash" where
  "alist_ops = \<lparr>ut_empty = [], ut_find = (\<lambda>k h. map_of h k), ut_add = (\<lambda>k v h. h @ [(k, v)]),
     ut_del = (\<lambda>k h. filter (\<lambda>x. fst x \<noteq> k) h), ut_iter = (\<lambda>h. h), ut_count = length,
     ut_write = (\<lambda>k v h. map (\<lambda>x. if fst x = k then (k, v) else x) h)\<rparr>"

text \<open>A table as a finite map: its keys are distinct, and what it stores under a key.\<close>

definition keyed :: "('k, 'v, 'h) uthash \<Rightarrow> 'h \<Rightarrow> bool" where
  "keyed ops h \<longleftrightarrow> distinct (map fst (ut_iter ops h))"

definition tbl :: "('k, 'v, 'h) uthash \<Rightarrow> 'h \<Rightarrow> 'k \<Rightarrow> 'v option" where
  "tbl ops h = map_of (ut_iter ops h)"

section \<open>An instance of the hash table\<close>

lemma alist_ops_simps [simp]:
  "ut_empty alist_ops = []" "ut_find alist_ops k h = map_of h k" "ut_add alist_ops k v h = h @ [(k, v)]"
  "ut_del alist_ops k h = filter (\<lambda>x. fst x \<noteq> k) h" "ut_iter alist_ops h = h" "ut_count alist_ops h = length h"
  "ut_write alist_ops k v h = map (\<lambda>x. if fst x = k then (k, v) else x) h"
  by (simp_all add: alist_ops_def)

lemma alist_ops_ok: "uthash_ok alist_ops"
  by (simp add: uthash_ok_def)

lemma uthash_okD:
  assumes "uthash_ok ops"
  shows ut_iter_empty: "ut_iter ops (ut_empty ops) = []"
    and ut_find_map_of: "distinct (map fst (ut_iter ops h)) \<Longrightarrow> ut_find ops k h = map_of (ut_iter ops h) k"
    and ut_iter_add: "k \<notin> fst ` set (ut_iter ops h) \<Longrightarrow> ut_iter ops (ut_add ops k v h) = ut_iter ops h @ [(k, v)]"
    and ut_iter_del: "distinct (map fst (ut_iter ops h)) \<Longrightarrow> k \<in> fst ` set (ut_iter ops h) \<Longrightarrow>
        ut_iter ops (ut_del ops k h) = filter (\<lambda>x. fst x \<noteq> k) (ut_iter ops h)"
    and ut_count_length: "ut_count ops h = length (ut_iter ops h)"
    and ut_iter_write: "distinct (map fst (ut_iter ops h)) \<Longrightarrow> k \<in> fst ` set (ut_iter ops h) \<Longrightarrow>
        ut_iter ops (ut_write ops k v h) = map (\<lambda>x. if fst x = k then (k, v) else x) (ut_iter ops h)"
  using assms by (simp_all add: uthash_ok_def)

section \<open>The table as a map\<close>

lemma tbl_domI: "tbl ops h k \<noteq> None \<longleftrightarrow> k \<in> fst ` set (ut_iter ops h)"
  by (simp add: tbl_def map_of_eq_None_iff)

lemma map_of_overwrite:
  "k \<in> fst ` set xs \<Longrightarrow> map_of (map (\<lambda>x. if fst x = k then (k, v) else x) xs) = (map_of xs)(k \<mapsto> v)"
proof (induction xs)
  case (Cons x xs)
  show ?case
  proof (cases "k \<in> fst ` set xs")
    case True
    with Cons show ?thesis by (cases x) (auto simp: fun_eq_iff)
  next
    case False
    then have "map (\<lambda>x. if fst x = k then (k, v) else x) xs = xs" by (intro map_idI) (auto simp: image_iff)
    with Cons.prems False show ?thesis by (cases x) (auto simp: fun_eq_iff)
  qed
qed simp

lemma map_of_filter_key: "map_of (filter (\<lambda>x. fst x \<noteq> k) xs) = (map_of xs)(k := None)"
  by (induction xs) (auto simp: fun_eq_iff)

lemma keyed_facts:
  assumes "uthash_ok ops"
  shows keyed_empty: "keyed ops (ut_empty ops)"
    and tbl_empty: "tbl ops (ut_empty ops) = Map.empty"
    and find_tbl: "keyed ops h \<Longrightarrow> ut_find ops k h = tbl ops h k"
    and keyed_add: "keyed ops h \<Longrightarrow> tbl ops h k = None \<Longrightarrow> keyed ops (ut_add ops k v h)"
    and tbl_add: "keyed ops h \<Longrightarrow> tbl ops h k = None \<Longrightarrow> tbl ops (ut_add ops k v h) = (tbl ops h)(k \<mapsto> v)"
  using assms
proof -
  note u = uthash_okD [OF assms]
  show "keyed ops (ut_empty ops)" "tbl ops (ut_empty ops) = Map.empty" by (simp_all add: keyed_def tbl_def u)
  show "keyed ops h \<Longrightarrow> ut_find ops k h = tbl ops h k" by (simp add: keyed_def tbl_def u)
  assume a: "keyed ops h" "tbl ops h k = None"
  then have "k \<notin> fst ` set (ut_iter ops h)" by (simp add: tbl_def map_of_eq_None_iff)
  with a show "keyed ops (ut_add ops k v h)" "tbl ops (ut_add ops k v h) = (tbl ops h)(k \<mapsto> v)"
    by (auto simp: keyed_def tbl_def u map_add_def fun_eq_iff split: option.split)
qed

lemma keyed_write:
  assumes "uthash_ok ops" "keyed ops h" "tbl ops h k \<noteq> None"
  shows "keyed ops (ut_write ops k v h) \<and> tbl ops (ut_write ops k v h) = (tbl ops h)(k \<mapsto> v)"
proof -
  have k: "k \<in> fst ` set (ut_iter ops h)" using assms(3) by (simp only: tbl_domI)
  then have i: "ut_iter ops (ut_write ops k v h) = map (\<lambda>x. if fst x = k then (k, v) else x) (ut_iter ops h)"
    using assms(1,2) by (simp add: ut_iter_write keyed_def)
  moreover have "map fst (map (\<lambda>x. if fst x = k then (k, v) else x) (ut_iter ops h)) = map fst (ut_iter ops h)"
    by simp
  ultimately have "map fst (ut_iter ops (ut_write ops k v h)) = map fst (ut_iter ops h)" by metis
  with assms(2) show ?thesis by (simp only: keyed_def tbl_def i map_of_overwrite [OF k] simp_thms)
qed

lemma keyed_del:
  assumes "uthash_ok ops" "keyed ops h" "tbl ops h k \<noteq> None"
  shows "keyed ops (ut_del ops k h) \<and> tbl ops (ut_del ops k h) = (tbl ops h)(k := None)"
proof -
  have k: "k \<in> fst ` set (ut_iter ops h)" using assms(3) by (simp only: tbl_domI)
  then have "ut_iter ops (ut_del ops k h) = filter (\<lambda>x. fst x \<noteq> k) (ut_iter ops h)"
    using assms(1,2) by (simp add: ut_iter_del keyed_def)
  with assms(2) show ?thesis by (simp add: keyed_def tbl_def map_of_filter_key distinct_map_filter)
qed

lemma tbl_iter: "keyed ops h \<Longrightarrow> (k, v) \<in> set (ut_iter ops h) \<longleftrightarrow> tbl ops h k = Some v"
  by (simp add: keyed_def tbl_def)

end
