(* ===== verification/C_Strings.thy ===== *)
theory C_Strings
  imports Gopher_Prelude
begin

text \<open>
  The string functions of the C library the code uses, on strings without their terminator.
\<close>

definition tolower_c :: "char \<Rightarrow> char" where
  "tolower_c c = (if 65 \<le> (of_char c :: nat) \<and> (of_char c :: nat) \<le> 90
                  then char_of (of_char c + (32 :: nat)) else c)"

text \<open>True where \<open>strcasecmp\<close> returns 0.\<close>

definition strcaseeq :: "string \<Rightarrow> string \<Rightarrow> bool" where
  "strcaseeq a b \<longleftrightarrow> map tolower_c a = map tolower_c b"

text \<open>\<open>snprintf(dst, n, "%s", s)\<close>: at most \<open>n - 1\<close> characters.\<close>

definition snprintf_s :: "nat \<Rightarrow> string \<Rightarrow> string" where
  "snprintf_s n s = take (n - 1) s"

text \<open>\<open>strtok\<close> with the single delimiter \<open>d\<close>, called until it returns \<open>NULL\<close>: the maximal runs of
  other characters.\<close>

fun strtok_all :: "char \<Rightarrow> string \<Rightarrow> string \<Rightarrow> string list" where
  "strtok_all d acc [] = (if acc = [] then [] else [rev acc])"
| "strtok_all d acc (c # cs) =
     (if c = d then (if acc = [] then strtok_all d [] cs else rev acc # strtok_all d [] cs)
      else strtok_all d (c # acc) cs)"

text \<open>\<open>strstr(s, pat) - s\<close>, no value for \<open>NULL\<close>.\<close>

fun strstr :: "string \<Rightarrow> string \<Rightarrow> nat option" where
  "strstr [] pat = (if pat = [] then Some 0 else None)"
| "strstr (c # s) pat = (if take (length pat) (c # s) = pat then Some 0
     else map_option Suc (strstr s pat))"

text \<open>An array of \<open>char\<close> with its terminator: an indexed write, and the string it holds.\<close>

definition put_char :: "string \<Rightarrow> nat \<Rightarrow> char \<Rightarrow> string outc" where
  "put_char buf i c = (if i < length buf then Ok (buf[i := c]) else UB)"

definition chars :: "string \<Rightarrow> string" where
  "chars buf = takeWhile (\<lambda>c. c \<noteq> CHR 0x00) buf"

lemma length_snprintf_s: "0 < n \<Longrightarrow> length (snprintf_s n s) < n"
  by (simp add: snprintf_s_def)

end
