(* ===== verification/Fifo.thy ===== *)
theory Fifo
  imports Gopher_Prelude
begin

unbundle bit_operations_syntax

text \<open>
  The lock-free queue of \<open>src/lib/fifo/fifo.c\<close> between a probe thread and the ingress
  thread: a ring of pointers indexed by two free-running 32-bit counters. The operations are
  modelled on words, so the counters wrap; the theory shows that a queue behaves like a
  bounded list, also when the producer and the consumer run at the same time.
\<close>

section \<open>State and operations\<close>

text \<open>\<open>typedef struct Fifo\<close>; a slot is a pointer, \<^term>\<open>None\<close> the NULL that \<open>memset\<close> wrote.\<close>

record 'e Fifo =
  fifo_buffer :: "'e option list"
  fifo_size :: u32
  fifo_in :: u32
  fifo_out :: u32
  triggerFd :: int

definition IS_POWER_OF_TWO :: "u32 \<Rightarrow> bool" where
  "IS_POWER_OF_TWO n \<longleftrightarrow> n \<noteq> 0 \<and> n AND (n - 1) = 0"

definition FifoMin :: "u32 \<Rightarrow> u32 \<Rightarrow> u32" where
  "FifoMin x1 x2 = (if x1 < x2 then x1 else x2)"

text \<open>
  The results of the two allocations and of \<open>eventfd\<close> come from the system and are arguments.
\<close>

definition FifoCreate :: "bool \<Rightarrow> bool \<Rightarrow> int \<Rightarrow> u32 \<Rightarrow> 'e Fifo option" where
  "FifoCreate malloc_fifo malloc_buffer efd sz =
     (if \<not> IS_POWER_OF_TWO sz then None
      else if \<not> malloc_fifo then None
      else if \<not> malloc_buffer then None
      else if efd = -1 then None
      else Some \<lparr>fifo_buffer = replicate (unat sz) None, fifo_size = sz,
                 fifo_in = 0, fifo_out = 0, triggerFd = efd\<rparr>)"

text \<open>What \<open>FifoDestroy\<close> gives back to the system, in order.\<close>

datatype fifo_release = FreeBuffer | CloseFd int | FreeFifo

definition FifoDestroy :: "'e Fifo option \<Rightarrow> fifo_release list" where
  "FifoDestroy fifo =
     (case fifo of None \<Rightarrow> []
      | Some f \<Rightarrow> [FreeBuffer] @ (if triggerFd f \<noteq> 0 then [CloseFd (triggerFd f)] else []) @ [FreeFifo])"

text \<open>\<open>memcpy\<close> of \<open>n\<close> slots from the single variable \<open>element\<close>: \<open>n\<close> is 0 or 1.\<close>

definition put_slots :: "'e option list \<Rightarrow> nat \<Rightarrow> 'e \<Rightarrow> u32 \<Rightarrow> 'e option list" where
  "put_slots buf i e n = (if n = 0 then buf else buf[i := Some e])"

definition get_slots :: "'e option list \<Rightarrow> nat \<Rightarrow> u32 \<Rightarrow> 'e option \<Rightarrow> 'e option" where
  "get_slots buf i n old = (if n = 0 then old else buf ! i)"

definition FifoPut :: "'e Fifo \<Rightarrow> 'e \<Rightarrow> 'e Fifo \<times> u32" where
  "FifoPut f element =
     (let len = FifoMin 1 (fifo_size f - fifo_in f + fifo_out f);
          idx = fifo_in f AND (fifo_size f - 1);
          len2 = FifoMin len (fifo_size f - idx);
          buf = put_slots (fifo_buffer f) (unat idx) element len2;
          buf = put_slots buf 0 element (len - len2)
      in (f\<lparr>fifo_buffer := buf, fifo_in := fifo_in f + len\<rparr>, if len = 0 then -1 else 0))"

text \<open>\<open>elements\<close> is the caller's variable, returned with its new value.\<close>

definition FifoGet :: "'e Fifo \<Rightarrow> 'e option \<Rightarrow> 'e Fifo \<times> 'e option \<times> u32" where
  "FifoGet f elements =
     (let len = FifoMin 1 (fifo_in f - fifo_out f);
          idx = fifo_out f AND (fifo_size f - 1);
          len2 = FifoMin len (fifo_size f - idx);
          v = get_slots (fifo_buffer f) (unat idx) len2 elements;
          v = get_slots (fifo_buffer f) 0 (len - len2) v
      in (f\<lparr>fifo_out := fifo_out f + len\<rparr>, v, if len = 0 then -1 else 0))"

text \<open>The manager of all queues: an array of \<open>mgr_size\<close> queue pointers, \<open>fifoNum\<close> of them used.\<close>

record 'q FifoMgr =
  mgr_size :: u32
  fifoNum :: u32
  fifos :: "'q option list"

definition FifoMgrCreate :: "bool \<Rightarrow> bool \<Rightarrow> u32 \<Rightarrow> 'q FifoMgr option" where
  "FifoMgrCreate malloc_mgr malloc_fifos sz =
     (if \<not> malloc_mgr then None
      else if \<not> malloc_fifos then None
      else Some \<lparr>mgr_size = sz, fifoNum = 0, fifos = replicate (unat sz) None\<rparr>)"

definition FifoMgrAdd :: "'q FifoMgr \<Rightarrow> 'q \<Rightarrow> 'q FifoMgr \<times> int" where
  "FifoMgrAdd mgr fifo =
     (if fifoNum mgr = mgr_size mgr then (mgr, -1)
      else (mgr\<lparr>fifos := (fifos mgr)[unat (fifoNum mgr) := Some fifo],
                fifoNum := fifoNum mgr + 1\<rparr>, 0))"

section \<open>Producer and consumer as interleaved steps\<close>

text \<open>
  \<open>FifoPut\<close> and \<open>FifoGet\<close> run in different threads without a lock; the two
  \<open>__sync_synchronize\<close> calls split each of them into three parts: read the other side's
  counter, copy the slot, publish the own counter. Each part is one step.
\<close>

datatype 'e put_pc = PutIdle | PutLen 'e u32 | PutCopied 'e u32
datatype 'e get_pc = GetIdle | GetLen u32 | GetCopied u32 "'e option"

text \<open>\<open>sent\<close> and \<open>received\<close> record the elements whose put or get has published its counter.\<close>

record 'e spsc =
  queue :: "'e Fifo"
  producer :: "'e put_pc"
  consumer :: "'e get_pc"
  sent :: "'e list"
  received :: "'e option list"

definition slot :: "u32 \<Rightarrow> 'e Fifo \<Rightarrow> nat" where
  "slot c f = unat (c AND (fifo_size f - 1))"

inductive spsc_step :: "'e spsc \<Rightarrow> 'e spsc \<Rightarrow> bool" where
  put_len: "producer s = PutIdle \<Longrightarrow>
     spsc_step s (s\<lparr>producer := PutLen e (FifoMin 1 (fifo_size (queue s) - fifo_in (queue s) + fifo_out (queue s)))\<rparr>)"
| put_copy: "producer s = PutLen e n \<Longrightarrow>
     spsc_step s (s\<lparr>queue := (queue s)\<lparr>fifo_buffer :=
                       put_slots (fifo_buffer (queue s)) (slot (fifo_in (queue s)) (queue s)) e n\<rparr>,
                    producer := PutCopied e n\<rparr>)"
| put_publish: "producer s = PutCopied e n \<Longrightarrow>
     spsc_step s (s\<lparr>queue := (queue s)\<lparr>fifo_in := fifo_in (queue s) + n\<rparr>,
                    producer := PutIdle,
                    sent := sent s @ (if n = 0 then [] else [e])\<rparr>)"
| get_len: "consumer s = GetIdle \<Longrightarrow>
     spsc_step s (s\<lparr>consumer := GetLen (FifoMin 1 (fifo_in (queue s) - fifo_out (queue s)))\<rparr>)"
| get_copy: "consumer s = GetLen n \<Longrightarrow>
     spsc_step s (s\<lparr>consumer := GetCopied n
                       (get_slots (fifo_buffer (queue s)) (slot (fifo_out (queue s)) (queue s)) n None)\<rparr>)"
| get_publish: "consumer s = GetCopied n v \<Longrightarrow>
     spsc_step s (s\<lparr>queue := (queue s)\<lparr>fifo_out := fifo_out (queue s) + n\<rparr>,
                    consumer := GetIdle,
                    received := received s @ (if n = 0 then [] else [v])\<rparr>)"

inductive spsc_reachable :: "'e Fifo \<Rightarrow> 'e spsc \<Rightarrow> bool" for f where
  spsc_start: "spsc_reachable f \<lparr>queue = f, producer = PutIdle, consumer = GetIdle, sent = [], received = []\<rparr>"
| spsc_next: "spsc_reachable f s \<Longrightarrow> spsc_step s t \<Longrightarrow> spsc_reachable f t"

section \<open>Abstraction to a bounded list\<close>

definition fifo_count :: "'e Fifo \<Rightarrow> nat" where
  "fifo_count f = unat (fifo_in f - fifo_out f)"

definition fifo_ok :: "'e Fifo \<Rightarrow> bool" where
  "fifo_ok f \<longleftrightarrow> IS_POWER_OF_TWO (fifo_size f) \<and> length (fifo_buffer f) = unat (fifo_size f)
     \<and> fifo_count f \<le> unat (fifo_size f)"

definition fifo_list :: "'e Fifo \<Rightarrow> 'e option list" where
  "fifo_list f = map (\<lambda>i. fifo_buffer f ! (slot (fifo_out f + of_nat i) f)) [0..<fifo_count f]"

text \<open>The queue without its NULL slots: every slot between the counters was written by a put.\<close>

definition fifo_wf :: "'e Fifo \<Rightarrow> bool" where
  "fifo_wf f \<longleftrightarrow> fifo_ok f \<and> None \<notin> set (fifo_list f)"

definition fifo_contents :: "'e Fifo \<Rightarrow> 'e list" where
  "fifo_contents f = map the (fifo_list f)"

text \<open>A queue operation and a run of operations, for the interface below.\<close>

datatype 'a qop = QPut 'a | QGet

fun qrun :: "('q \<Rightarrow> 'a \<Rightarrow> 'q \<times> bool) \<Rightarrow> ('q \<Rightarrow> 'q \<times> 'a option) \<Rightarrow> 'q \<Rightarrow> 'a qop list
     \<Rightarrow> 'q \<times> 'a list \<times> 'a list" where
  "qrun put get q [] = (q, [], [])"
| "qrun put get q (QPut x # ops) =
     (let (q', ok) = put q x; (q'', acc, got) = qrun put get q' ops
      in (q'', (if ok then x # acc else acc), got))"
| "qrun put get q (QGet # ops) =
     (let (q', r) = get q; (q'', acc, got) = qrun put get q' ops
      in (q'', acc, (case r of None \<Rightarrow> got | Some x \<Rightarrow> x # got)))"

text \<open>The two calls with their status codes read as the callers read them.\<close>

definition fifo_put :: "'e Fifo \<Rightarrow> 'e \<Rightarrow> 'e Fifo \<times> bool" where
  "fifo_put f e = (let (f', r) = FifoPut f e in (f', r = 0))"

definition fifo_get :: "'e Fifo \<Rightarrow> 'e Fifo \<times> 'e option" where
  "fifo_get f = (let (f', v, r) = FifoGet f None in (f', if r = 0 then v else None))"

text \<open>The two effects a successful call has on the ring.\<close>

definition fifo_push :: "'e Fifo \<Rightarrow> 'e \<Rightarrow> 'e Fifo" where
  "fifo_push f e = f\<lparr>fifo_buffer := (fifo_buffer f)[slot (fifo_in f) f := Some e], fifo_in := fifo_in f + 1\<rparr>"

definition fifo_pop :: "'e Fifo \<Rightarrow> 'e Fifo" where
  "fifo_pop f = f\<lparr>fifo_out := fifo_out f + 1\<rparr>"

text \<open>
  What holds between the steps of the two threads: a thread that has read the other side's
  counter keeps its room (the producer) or its element (the consumer) until it publishes.
\<close>

fun put_ok :: "'e Fifo \<Rightarrow> 'e put_pc \<Rightarrow> bool" where
  "put_ok q PutIdle = True"
| "put_ok q (PutLen e n) = (n = 0 \<or> n = 1 \<and> fifo_count q < unat (fifo_size q))"
| "put_ok q (PutCopied e n) = (n = 0 \<or> n = 1 \<and> fifo_count q < unat (fifo_size q)
     \<and> fifo_buffer q ! slot (fifo_in q) q = Some e)"

fun get_ok :: "'e Fifo \<Rightarrow> 'e get_pc \<Rightarrow> bool" where
  "get_ok q GetIdle = True"
| "get_ok q (GetLen n) = (n = 0 \<or> n = 1 \<and> fifo_count q \<noteq> 0)"
| "get_ok q (GetCopied n v) = (n = 0 \<or> n = 1 \<and> fifo_count q \<noteq> 0
     \<and> v = fifo_buffer q ! slot (fifo_out q) q)"

definition spsc_inv :: "'e Fifo \<Rightarrow> 'e spsc \<Rightarrow> bool" where
  "spsc_inv f s \<longleftrightarrow> fifo_ok (queue s)
     \<and> received s @ fifo_list (queue s) = fifo_list f @ map Some (sent s)
     \<and> put_ok (queue s) (producer s) \<and> get_ok (queue s) (consumer s)"

text \<open>A queue of two slots whose counters are about to wrap, for the concrete instances below.\<close>

definition fifo_demo :: "nat Fifo" where
  "fifo_demo = \<lparr>fifo_buffer = [None, None], fifo_size = 2, fifo_in = -1, fifo_out = -1, triggerFd = 3\<rparr>"

section \<open>Counter arithmetic\<close>

lemma nat_and_pred_zero: "0 < n \<Longrightarrow> n AND (n - 1) = 0 \<Longrightarrow> \<exists>k. n = 2 ^ k" for n :: nat
proof (induction n rule: less_induct)
  case (less n)
  show ?case
  proof (cases "even n")
    case True
    then obtain m where m: "n = 2 * m" by blast
    with less.prems have pos: "0 < m" by simp
    from pos have half: "(2 * m - Suc 0) div 2 = m - Suc 0" by presburger
    have "(2 * m) AND (2 * m - 1) = 2 * (m AND (m - 1))"
      using pos by (subst and_rec) (simp add: half)
    with less.prems m have "m AND (m - 1) = 0" by simp
    with less.IH [of m] pos m obtain k where "m = 2 ^ k" by auto
    with m have "n = 2 ^ Suc k" by simp
    then show ?thesis ..
  next
    case False
    then obtain m where m: "n = 2 * m + 1" by (blast elim: oddE)
    have "(2 * m + 1) AND (2 * m) = 2 * (m AND m)"
      by (subst and_rec) simp
    with less.prems m have "m = 0" by simp
    with m have "n = 2 ^ 0" by simp
    then show ?thesis ..
  qed
qed

lemma unat_minus_1: "n \<noteq> 0 \<Longrightarrow> unat (n - 1) = unat n - 1" for n :: u32
  by (simp add: unat_minus_one)

lemma IS_POWER_OF_TWO_iff: "IS_POWER_OF_TWO n \<longleftrightarrow> (\<exists>k<32. n = 2 ^ k)"
proof
  assume *: "IS_POWER_OF_TWO n"
  then have pos: "0 < unat n" by (simp add: IS_POWER_OF_TWO_def unat_gt_0)
  from * have "unat (n AND (n - 1)) = 0" and "n \<noteq> 0" by (simp_all add: IS_POWER_OF_TWO_def)
  then have "unat n AND (unat n - 1) = 0"
    by (metis unsigned_and_eq unat_minus_1)
  with pos obtain k where k: "unat n = 2 ^ k" using nat_and_pred_zero by blast
  with unat_u32_bound [of n] have "2 ^ k < (2 ^ 32 :: nat)" by simp
  then have "k < 32" by (rule power_less_imp_less_exp [rotated]) simp
  moreover from arg_cong [OF k, of "of_nat :: nat \<Rightarrow> u32"] have "n = 2 ^ k"
    by simp
  ultimately show "\<exists>k<32. n = 2 ^ k" by blast
next
  assume "\<exists>k<32. n = 2 ^ k"
  then obtain k where k: "k < 32" "n = 2 ^ k" by blast
  then have "n \<noteq> 0" by simp
  moreover have "n AND (n - 1) = 0"
    using k by (auto intro!: bit_eqI simp: mask_eq_exp_minus_1 [symmetric] bit_simps)
  ultimately show "IS_POWER_OF_TWO n" by (simp add: IS_POWER_OF_TWO_def)
qed


lemma slot_mod: "IS_POWER_OF_TWO (fifo_size f) \<Longrightarrow> slot c f = unat c mod unat (fifo_size f)"
proof -
  assume "IS_POWER_OF_TWO (fifo_size f)"
  then obtain k where k: "k < 32" "fifo_size f = 2 ^ k" by (auto simp: IS_POWER_OF_TWO_iff)
  then have "c AND (fifo_size f - 1) = take_bit k c"
    by (simp add: mask_eq_exp_minus_1 [symmetric] take_bit_eq_mask)
  then have "slot c f = take_bit k (unat c)"
    by (simp add: slot_def unsigned_take_bit_eq)
  moreover from k have "unat (fifo_size f) = 2 ^ k" by (simp add: unat_exp_u32)
  ultimately show ?thesis by (simp add: take_bit_eq_mod)
qed

lemma size_dvd: "IS_POWER_OF_TWO n \<Longrightarrow> unat n dvd 2 ^ 32"
proof -
  assume "IS_POWER_OF_TWO n"
  then obtain k where k: "k < 32" "n = 2 ^ k" by (auto simp: IS_POWER_OF_TWO_iff)
  then have "(2 :: nat) ^ k dvd 2 ^ 32" by (intro le_imp_power_dvd) simp
  with k show ?thesis by (simp only: unat_exp_u32)
qed

lemma size_bound: "IS_POWER_OF_TWO n \<Longrightarrow> 0 < unat n \<and> unat n \<le> 2 ^ 31"
proof -
  assume "IS_POWER_OF_TWO n"
  then obtain k where k: "k < 32" "n = 2 ^ k" by (auto simp: IS_POWER_OF_TWO_iff)
  then have "(2 :: nat) ^ k \<le> 2 ^ 31" by (intro power_increasing) simp_all
  with k show ?thesis by (simp only: unat_exp_u32) simp
qed

lemma slot_add: "IS_POWER_OF_TWO (fifo_size f) \<Longrightarrow>
    slot (c + of_nat i) f = (unat c + i) mod unat (fifo_size f)"
  using size_dvd [of "fifo_size f"]
  by (simp add: slot_mod unat_add_of_nat_u32 mod_mod_cancel del: of_nat_add)

lemma mod_add_distinct: "i < j \<Longrightarrow> j < s + i \<Longrightarrow> (a + i) mod s \<noteq> (a + j) mod s" for a :: nat
proof
  assume ij: "i < j" "j < s + i" and eq: "(a + i) mod s = (a + j) mod s"
  then have "s dvd (a + j) - (a + i)" by (metis mod_eq_dvd_iff_nat add_le_mono le_refl less_imp_le)
  then have "s dvd j - i" by simp
  with ij show False by (auto dest: dvd_imp_le)
qed

lemma slot_in: "slot (fifo_out f + of_nat (fifo_count f)) f = slot (fifo_in f) f"
  by (simp add: fifo_count_def)

lemma slot_less: "fifo_ok f \<Longrightarrow> slot c f < length (fifo_buffer f)"
  by (simp add: fifo_ok_def slot_mod size_bound)

lemma slot_distinct:
  "fifo_ok f \<Longrightarrow> i < fifo_count f \<Longrightarrow> fifo_count f < unat (fifo_size f) \<Longrightarrow>
   slot (fifo_out f + of_nat i) f \<noteq> slot (fifo_in f) f"
  by (simp add: slot_add fifo_ok_def mod_add_distinct flip: slot_in del: of_nat_add)

section \<open>One put or get on the list\<close>

lemma fifo_room: "IS_POWER_OF_TWO (fifo_size f) \<Longrightarrow> fifo_count f \<le> unat (fifo_size f) \<Longrightarrow>
    unat (fifo_size f - fifo_in f + fifo_out f) = unat (fifo_size f) - fifo_count f"
proof -
  assume "fifo_count f \<le> unat (fifo_size f)"
  then have "unat (fifo_size f - (fifo_in f - fifo_out f)) = unat (fifo_size f) - fifo_count f"
    by (simp add: fifo_count_def unat_sub word_le_nat_alt)
  then show ?thesis by (simp add: algebra_simps)
qed

lemma FifoMin_1: "FifoMin 1 x = (if x = 0 then 0 else 1)"
  by (auto simp: FifoMin_def word_less_nat_alt unat_eq_0 le_Suc_eq not_less unat_eq_Suc_0_u32)

lemma FifoMin_room: "x = 0 \<or> x = 1 \<Longrightarrow> y \<noteq> 0 \<Longrightarrow> FifoMin x y = x"
  by (auto simp: FifoMin_def word_less_nat_alt not_less le_Suc_eq unat_eq_0 unat_eq_Suc_0_u32
      simp flip: unat_gt_0)

lemma slot_room: "fifo_ok f \<Longrightarrow> x = 0 \<or> x = 1 \<Longrightarrow>
    FifoMin x (fifo_size f - (c AND (fifo_size f - 1))) = x"
  using slot_less [of f c] by (intro FifoMin_room) (auto simp: slot_def fifo_ok_def)

lemma fifo_len_put: "fifo_ok f \<Longrightarrow>
    FifoMin 1 (fifo_size f - fifo_in f + fifo_out f) = (if fifo_count f < unat (fifo_size f) then 1 else 0)"
  using fifo_room [of f] by (auto simp: FifoMin_1 fifo_ok_def simp flip: unat_eq_0)

lemma fifo_len_get: "FifoMin 1 (fifo_in f - fifo_out f) = (if fifo_count f = 0 then 0 else 1)"
  by (auto simp: FifoMin_1 fifo_count_def unat_eq_0)

lemma FifoPut_eq: "fifo_ok f \<Longrightarrow>
    FifoPut f e = (if fifo_count f < unat (fifo_size f) then (fifo_push f e, 0) else (f, -1))"
  by (simp add: FifoPut_def Let_def fifo_len_put slot_room put_slots_def fifo_push_def slot_def)

lemma FifoGet_eq: "fifo_ok f \<Longrightarrow>
    FifoGet f v = (if fifo_count f = 0 then (f, v, -1)
                   else (fifo_pop f, fifo_buffer f ! slot (fifo_out f) f, 0))"
  by (simp add: FifoGet_def Let_def fifo_len_get slot_room get_slots_def fifo_pop_def slot_def)

lemma count_push: "fifo_ok f \<Longrightarrow> fifo_count f < unat (fifo_size f) \<Longrightarrow>
    fifo_count (fifo_push f e) = Suc (fifo_count f)"
  using size_bound [of "fifo_size f"]
  by (simp add: fifo_count_def fifo_push_def fifo_ok_def unat_diff_Suc_u32)

lemma count_pop: "fifo_count f \<noteq> 0 \<Longrightarrow> fifo_count (fifo_pop f) = fifo_count f - 1"
proof -
  assume "fifo_count f \<noteq> 0"
  then have "fifo_in f \<noteq> fifo_out f" by (auto simp: fifo_count_def)
  then show ?thesis by (simp add: fifo_count_def fifo_pop_def unat_diff_pred_u32)
qed

lemma slot_push [simp]: "slot c (fifo_push f e) = slot c f"
  by (simp add: slot_def fifo_push_def)

lemma slot_pop [simp]: "slot c (fifo_pop f) = slot c f"
  by (simp add: slot_def fifo_pop_def)

lemma ok_push: "fifo_ok f \<Longrightarrow> fifo_count f < unat (fifo_size f) \<Longrightarrow> fifo_ok (fifo_push f e)"
  by (simp add: fifo_ok_def count_push) (simp add: fifo_push_def)

lemma ok_pop: "fifo_ok f \<Longrightarrow> fifo_count f \<noteq> 0 \<Longrightarrow> fifo_ok (fifo_pop f)"
  by (auto simp: fifo_ok_def count_pop) (simp_all add: fifo_pop_def)

lemma list_push: "fifo_ok f \<Longrightarrow> fifo_count f < unat (fifo_size f) \<Longrightarrow>
    fifo_list (fifo_push f e) = fifo_list f @ [Some e]"
proof -
  assume *: "fifo_ok f" "fifo_count f < unat (fifo_size f)"
  have "fifo_buffer (fifo_push f e) ! slot (fifo_out f + of_nat i) f
      = fifo_buffer f ! slot (fifo_out f + of_nat i) f" if "i < fifo_count f" for i
    using * that slot_distinct [of f i] by (simp add: fifo_push_def)
  moreover have "fifo_buffer (fifo_push f e) ! slot (fifo_in f) f = Some e"
    using * by (simp add: fifo_push_def slot_less)
  moreover have "fifo_out (fifo_push f e) = fifo_out f" by (simp add: fifo_push_def)
  ultimately show ?thesis using * by (simp add: fifo_list_def count_push slot_in)
qed

lemma list_pop: "fifo_count f \<noteq> 0 \<Longrightarrow>
    fifo_list f = fifo_buffer f ! slot (fifo_out f) f # fifo_list (fifo_pop f)"
proof -
  assume *: "fifo_count f \<noteq> 0"
  then have "[0..<fifo_count f] = 0 # map Suc [0..<fifo_count f - 1]"
    by (cases "fifo_count f") (simp_all add: upt_conv_Cons map_Suc_upt del: upt_Suc)
  with * show ?thesis
    by (simp add: fifo_list_def count_pop) (simp add: fifo_pop_def add.assoc)
qed

lemma length_fifo_list [simp]: "length (fifo_list f) = fifo_count f"
  by (simp add: fifo_list_def)

section \<open>The queue interface\<close>

text \<open>
  What the ingress and egress threads rely on: a bounded queue that refuses a put when full
  and a get when empty, and otherwise appends and takes from the front.
\<close>

locale bounded_queue =
  fixes wf :: "'q \<Rightarrow> bool"
    and cap :: "'q \<Rightarrow> nat"
    and contents :: "'q \<Rightarrow> 'a list"
    and put :: "'q \<Rightarrow> 'a \<Rightarrow> 'q \<times> bool"
    and get :: "'q \<Rightarrow> 'q \<times> 'a option"
  assumes bounded: "wf q \<Longrightarrow> length (contents q) \<le> cap q"
    and put_wf: "wf q \<Longrightarrow> wf (fst (put q x)) \<and> cap (fst (put q x)) = cap q"
    and get_wf: "wf q \<Longrightarrow> wf (fst (get q)) \<and> cap (fst (get q)) = cap q"
    and put_contents: "wf q \<Longrightarrow> contents (fst (put q x)) =
          (if snd (put q x) then contents q @ [x] else contents q)"
    and put_accepts: "wf q \<Longrightarrow> snd (put q x) \<longleftrightarrow> length (contents q) < cap q"
    and get_empty: "wf q \<Longrightarrow> contents q = [] \<Longrightarrow> get q = (q, None)"
    and get_front: "wf q \<Longrightarrow> contents q = x # xs \<Longrightarrow> snd (get q) = Some x \<and> contents (fst (get q)) = xs"
begin

lemma get_contents: "wf q \<Longrightarrow> contents q = (case snd (get q) of None \<Rightarrow> [] | Some x \<Rightarrow> [x]) @ contents (fst (get q))"
  by (cases "contents q") (auto simp: get_empty get_front)

text \<open>Over any sequence of calls nothing is lost, duplicated or reordered, and the bound holds.\<close>

lemma run_order:
  "wf q \<Longrightarrow> qrun put get q ops = (q', acc, got) \<Longrightarrow>
   wf q' \<and> cap q' = cap q \<and> contents q @ acc = got @ contents q'"
proof (induction ops arbitrary: q q' acc got)
  case Nil
  then show ?case by simp
next
  case (Cons oper ops)
  show ?case
  proof (cases oper)
    case (QPut x)
    obtain q1 ok where 1: "put q x = (q1, ok)" by force
    obtain q2 acc' got' where 2: "qrun put get q1 ops = (q2, acc', got')" using prod_cases3 by blast
    from put_wf [OF Cons.prems(1), of x] 1 have "wf q1" "cap q1 = cap q" by simp_all
    with Cons.IH [OF _ 2] have "wf q2" "cap q2 = cap q" "contents q1 @ acc' = got' @ contents q2"
      by simp_all
    moreover have "contents q1 = (if ok then contents q @ [x] else contents q)"
      using put_contents [OF Cons.prems(1), of x] 1 by simp
    ultimately show ?thesis using Cons.prems(2) QPut 1 2 by (auto split: if_splits)
  next
    case QGet
    obtain q1 r where 1: "get q = (q1, r)" by force
    obtain q2 acc' got' where 2: "qrun put get q1 ops = (q2, acc', got')" using prod_cases3 by blast
    from get_wf [OF Cons.prems(1)] 1 have "wf q1" "cap q1 = cap q" by simp_all
    with Cons.IH [OF _ 2] have "wf q2" "cap q2 = cap q" "contents q1 @ acc' = got' @ contents q2"
      by simp_all
    then show ?thesis using Cons.prems QGet 1 2 get_contents [OF Cons.prems(1)]
      by (auto split: option.splits)
  qed
qed

end

lemma fifo_put_eq: "fifo_ok f \<Longrightarrow>
    fifo_put f e = (if fifo_count f < unat (fifo_size f) then (fifo_push f e, True) else (f, False))"
  by (simp add: fifo_put_def FifoPut_eq)

lemma fifo_get_eq: "fifo_ok f \<Longrightarrow>
    fifo_get f = (if fifo_count f = 0 then (f, None)
                  else (fifo_pop f, fifo_buffer f ! slot (fifo_out f) f))"
  by (simp add: fifo_get_def FifoGet_eq)

lemma wf_push: "fifo_wf f \<Longrightarrow> fifo_count f < unat (fifo_size f) \<Longrightarrow> fifo_wf (fifo_push f e)"
  by (simp add: fifo_wf_def ok_push list_push)

lemma wf_pop: "fifo_wf f \<Longrightarrow> fifo_count f \<noteq> 0 \<Longrightarrow> fifo_wf (fifo_pop f)"
  using list_pop [of f] by (simp add: fifo_wf_def ok_pop)

lemma size_push_pop [simp]: "fifo_size (fifo_push f e) = fifo_size f" "fifo_size (fifo_pop f) = fifo_size f"
  by (simp_all add: fifo_push_def fifo_pop_def)

interpretation ring: bounded_queue fifo_wf "\<lambda>f. unat (fifo_size f)" fifo_contents fifo_put fifo_get
proof
  fix q :: "'a Fifo" and x :: 'a
  assume wf: "fifo_wf q"
  then have ok: "fifo_ok q" by (simp add: fifo_wf_def)
  show "length (fifo_contents q) \<le> unat (fifo_size q)"
    using ok by (simp add: fifo_contents_def fifo_ok_def)
  show "fifo_wf (fst (fifo_put q x)) \<and> unat (fifo_size (fst (fifo_put q x))) = unat (fifo_size q)"
    using wf ok by (simp add: fifo_put_eq wf_push)
  show "fifo_wf (fst (fifo_get q)) \<and> unat (fifo_size (fst (fifo_get q))) = unat (fifo_size q)"
    using wf ok by (simp add: fifo_get_eq wf_pop)
  show "fifo_contents (fst (fifo_put q x)) =
      (if snd (fifo_put q x) then fifo_contents q @ [x] else fifo_contents q)"
    using ok by (simp add: fifo_put_eq fifo_contents_def list_push)
  show "snd (fifo_put q x) \<longleftrightarrow> length (fifo_contents q) < unat (fifo_size q)"
    using ok by (simp add: fifo_put_eq fifo_contents_def)
  show "fifo_contents q = [] \<Longrightarrow> fifo_get q = (q, None)"
    using ok by (simp add: fifo_get_eq fifo_contents_def flip: length_fifo_list)
  fix xs
  assume *: "fifo_contents q = x # xs"
  then have "fifo_count q \<noteq> 0" by (auto simp: fifo_contents_def simp flip: length_fifo_list)
  with * wf show "snd (fifo_get q) = Some x \<and> fifo_contents (fst (fifo_get q)) = xs"
    using list_pop [of q] by (auto simp: fifo_get_eq [OF ok] fifo_contents_def fifo_wf_def)
qed

section \<open>The two threads\<close>

lemma publish_push: "fifo_buffer q ! slot (fifo_in q) q = Some e \<Longrightarrow>
    q\<lparr>fifo_in := fifo_in q + 1\<rparr> = fifo_push q e"
proof -
  assume *: "fifo_buffer q ! slot (fifo_in q) q = Some e"
  have "(fifo_buffer q)[slot (fifo_in q) q := Some e] = fifo_buffer q"
    by (simp flip: *)
  then show ?thesis by (simp add: fifo_push_def)
qed

text \<open>Copying into the free slot changes neither the queued elements nor the one being read.\<close>

lemma copy_slot:
  assumes "fifo_ok q" "fifo_count q < unat (fifo_size q)"
    and q'_def: "q' = q\<lparr>fifo_buffer := (fifo_buffer q)[slot (fifo_in q) q := Some e]\<rparr>"
  shows "fifo_ok q'" "fifo_list q' = fifo_list q" "fifo_count q' = fifo_count q"
    "fifo_buffer q' ! slot (fifo_in q) q = Some e"
    "fifo_count q \<noteq> 0 \<Longrightarrow> fifo_buffer q' ! slot (fifo_out q) q = fifo_buffer q ! slot (fifo_out q) q"
    "slot c q' = slot c q"
proof -
  show cnt: "fifo_count q' = fifo_count q" by (simp add: q'_def fifo_count_def)
  show sl: "slot c q' = slot c q" for c by (simp add: q'_def slot_def)
  show "fifo_ok q'" using assms(1) cnt by (simp add: fifo_ok_def q'_def)
  have keep: "fifo_buffer q' ! slot (fifo_out q + of_nat i) q = fifo_buffer q ! slot (fifo_out q + of_nat i) q"
    if "i < fifo_count q" for i
    using slot_distinct [OF assms(1) that assms(2)] by (simp add: q'_def)
  then show "fifo_list q' = fifo_list q" using cnt sl by (simp add: fifo_list_def) (simp add: q'_def)
  show "fifo_buffer q' ! slot (fifo_in q) q = Some e"
    using assms(1) by (simp add: q'_def slot_less)
  show "fifo_buffer q' ! slot (fifo_out q) q = fifo_buffer q ! slot (fifo_out q) q" if "fifo_count q \<noteq> 0"
    using keep [of 0] that by simp
qed

lemma get_ok_push: "fifo_ok q \<Longrightarrow> fifo_count q < unat (fifo_size q) \<Longrightarrow>
    fifo_buffer q ! slot (fifo_in q) q = Some e \<Longrightarrow> get_ok q pc \<Longrightarrow> get_ok (fifo_push q e) pc"
proof -
  assume *: "fifo_ok q" "fifo_count q < unat (fifo_size q)" "fifo_buffer q ! slot (fifo_in q) q = Some e"
    "get_ok q pc"
  from arg_cong [OF publish_push [OF *(3)], of fifo_buffer]
  have "fifo_buffer (fifo_push q e) = fifo_buffer q" by simp
  moreover have "fifo_out (fifo_push q e) = fifo_out q" by (simp add: fifo_push_def)
  ultimately show ?thesis using * by (cases pc) (auto simp: count_push)
qed

lemma put_ok_pop: "fifo_count q \<noteq> 0 \<Longrightarrow> put_ok q pc \<Longrightarrow> put_ok (fifo_pop q) pc"
  by (cases pc) (auto simp: count_pop, auto simp: fifo_pop_def)

lemma spsc_step_inv: "spsc_step s t \<Longrightarrow> spsc_inv f s \<Longrightarrow> spsc_inv f t"
proof (induction rule: spsc_step.induct)
  case (put_len s e)
  then show ?case by (auto simp: spsc_inv_def fifo_len_put)
next
  case (put_copy s e n)
  show ?case
  proof (cases "n = 0")
    case True
    with put_copy show ?thesis by (auto simp: spsc_inv_def put_slots_def)
  next
    case False
    with put_copy have n: "n = 1" "fifo_ok (queue s)" "fifo_count (queue s) < unat (fifo_size (queue s))"
      by (auto simp: spsc_inv_def)
    note c = copy_slot [OF n(2,3) refl, where e = e]
    have "get_ok ((queue s)\<lparr>fifo_buffer := (fifo_buffer (queue s))[slot (fifo_in (queue s)) (queue s) := Some e]\<rparr>) (consumer s)"
      using put_copy by (cases "consumer s") (auto simp: spsc_inv_def c c(4-6) [simplified])
    with put_copy False show ?thesis
      by (auto simp: spsc_inv_def put_slots_def c n c(4-6) [simplified])
  qed
next
  case (put_publish s e n)
  show ?case
  proof (cases "n = 0")
    case True
    with put_publish show ?thesis by (auto simp: spsc_inv_def)
  next
    case False
    with put_publish have n: "n = 1" "fifo_ok (queue s)" "fifo_count (queue s) < unat (fifo_size (queue s))"
      "fifo_buffer (queue s) ! slot (fifo_in (queue s)) (queue s) = Some e"
      by (auto simp: spsc_inv_def)
    with put_publish get_ok_push [OF n(2-4)] show ?thesis
      by (auto simp: spsc_inv_def publish_push [OF n(4)] ok_push list_push)
  qed
next
  case (get_len s)
  then show ?case by (auto simp: spsc_inv_def fifo_len_get)
next
  case (get_copy s n)
  then show ?case by (auto simp: spsc_inv_def get_slots_def)
next
  case (get_publish s n v)
  show ?case
  proof (cases "n = 0")
    case True
    with get_publish show ?thesis by (auto simp: spsc_inv_def)
  next
    case False
    with get_publish have n: "n = 1" "fifo_ok (queue s)" "fifo_count (queue s) \<noteq> 0"
      "v = fifo_buffer (queue s) ! slot (fifo_out (queue s)) (queue s)"
      by (auto simp: spsc_inv_def)
    have pop: "(queue s)\<lparr>fifo_out := fifo_out (queue s) + 1\<rparr> = fifo_pop (queue s)"
      by (simp add: fifo_pop_def)
    from get_publish False n(2,3) list_pop [OF n(3)] put_ok_pop [OF n(3)] show ?thesis
      by (simp add: spsc_inv_def pop ok_pop n(4))
  qed
qed

lemma spsc_reachable_inv: "spsc_reachable f s \<Longrightarrow> fifo_ok f \<Longrightarrow> spsc_inv f s"
proof (induction rule: spsc_reachable.induct)
  case spsc_start
  then show ?case by (simp add: spsc_inv_def)
next
  case (spsc_next s t)
  then show ?case by (blast intro: spsc_step_inv)
qed

section \<open>Properties\<close>

lemma fifo_wf_create: "FifoCreate mf mb efd sz = Some f \<Longrightarrow>
    fifo_wf f \<and> fifo_contents f = [] \<and> fifo_size f = sz"
  by (auto simp: FifoCreate_def fifo_wf_def fifo_ok_def fifo_count_def fifo_contents_def
      fifo_list_def split: if_splits)

text \<open>
  C1. However the steps of \<open>FifoPut\<close> in the probe thread and of \<open>FifoGet\<close> in the ingress
  thread interleave, the elements received are exactly the elements sent, in the order they
  were sent: what was received, followed by what is still queued, is what was queued at the
  start followed by what was sent. This holds also when the 32-bit counters wrap.
\<close>

theorem fifo_threads_fifo_order:
  assumes "spsc_reachable f s" and "fifo_ok f"
  shows "received s @ fifo_list (queue s) = fifo_list f @ map Some (sent s)
     \<and> fifo_count (queue s) \<le> unat (fifo_size (queue s))"
  using spsc_reachable_inv [OF assms] by (simp add: spsc_inv_def fifo_ok_def)

theorem fifo_threads_fifo_order_witness:
  "\<exists>s. spsc_reachable fifo_demo s \<and> producer s = PutLen 7 1
     \<and> received s @ fifo_list (queue s) = fifo_list fifo_demo @ map Some (sent s)
     \<and> fifo_count (queue s) \<le> unat (fifo_size (queue s))"
proof -
  let ?s0 = "\<lparr>queue = fifo_demo, producer = PutIdle, consumer = GetIdle, sent = [], received = []\<rparr>"
  have ok: "fifo_ok fifo_demo"
    by (simp add: fifo_ok_def fifo_demo_def fifo_count_def IS_POWER_OF_TWO_def)
  have "spsc_step ?s0 (?s0\<lparr>producer := PutLen 7 (FifoMin 1 (fifo_size (queue ?s0) - fifo_in (queue ?s0) + fifo_out (queue ?s0)))\<rparr>)"
    by (rule spsc_step.put_len) simp
  then have r: "spsc_reachable fifo_demo (?s0\<lparr>producer := PutLen 7 1\<rparr>)"
    using spsc_reachable.spsc_next [OF spsc_reachable.spsc_start]
    by (simp add: fifo_demo_def FifoMin_def)
  show ?thesis using r fifo_threads_fifo_order [OF r ok] by (intro exI conjI) auto
qed

text \<open>
  Any sequence of \<open>FifoPut\<close> and \<open>FifoGet\<close> calls on a queue made by \<open>FifoCreate\<close> delivers
  the accepted elements in order without loss or duplication, and never holds more than the
  size of the ring; a put is refused exactly when the ring is full.
\<close>

theorem fifo_run_bounded_queue:
  assumes "FifoCreate mf mb efd sz = Some f"
    and "qrun fifo_put fifo_get f ops = (f', acc, got)"
  shows "acc = got @ fifo_contents f' \<and> length (fifo_contents f') \<le> unat sz
     \<and> (snd (fifo_put f' e) \<longleftrightarrow> length (fifo_contents f') < unat sz)"
proof -
  note c = fifo_wf_create [OF assms(1)]
  have "fifo_wf f' \<and> unat (fifo_size f') = unat sz \<and> acc = got @ fifo_contents f'"
    using ring.run_order [OF _ assms(2)] c by simp
  then show ?thesis using ring.bounded [of f'] ring.put_accepts [of f' e] by simp
qed

theorem fifo_run_bounded_queue_witness:
  "\<exists>f f'. FifoCreate True True 3 2 = Some f
     \<and> qrun fifo_put fifo_get f [QPut 1, QPut 2, QPut (3::nat), QGet] = (f', [1, 2], [1])
     \<and> [1, 2] = [1] @ fifo_contents f' \<and> length (fifo_contents f') \<le> unat (2 :: u32)"
proof -
  let ?f = "\<lparr>fifo_buffer = [None, None], fifo_size = 2, fifo_in = 0, fifo_out = 0, triggerFd = 3\<rparr> :: nat Fifo"
  let ?f' = "?f\<lparr>fifo_buffer := [Some 1, Some 2], fifo_in := 2, fifo_out := 1\<rparr>"
  have f: "FifoCreate True True 3 2 = Some ?f" by code_simp
  have r: "qrun fifo_put fifo_get ?f [QPut 1, QPut 2, QPut 3, QGet] = (?f', [1, 2], [1])"
    by code_simp
  show ?thesis using f r fifo_run_bounded_queue [OF f r, of 0] by blast
qed

text \<open>
  A put on a queue with room stores the element at the back and returns 0, a put on a
  full queue returns -1 (as an unsigned value) and changes nothing; a get on a non-empty
  queue returns 0 and the oldest element, a get on an empty one returns -1 and leaves the
  caller's variable and the queue as they were. Counters are 32-bit and may have wrapped.
\<close>

theorem fifo_put_get_effect:
  assumes "fifo_ok f"
  shows "(case FifoPut f e of (f', r) \<Rightarrow> fifo_ok f' \<and>
      (if fifo_count f < unat (fifo_size f)
       then r = 0 \<and> fifo_list f' = fifo_list f @ [Some e] else r = -1 \<and> f' = f))
    \<and> (case FifoGet f v of (f', w, r) \<Rightarrow> fifo_ok f' \<and>
      (if fifo_count f = 0 then r = -1 \<and> w = v \<and> f' = f
       else r = 0 \<and> fifo_list f = w # fifo_list f'))"
  using assms list_pop [of f] by (simp add: FifoPut_eq FifoGet_eq ok_push ok_pop list_push)

theorem fifo_put_get_effect_witness:
  "fifo_ok fifo_demo \<and> FifoPut fifo_demo 7 = (fifo_demo\<lparr>fifo_buffer := [None, Some 7], fifo_in := 0\<rparr>, 0)
     \<and> fifo_list (fst (FifoPut fifo_demo 7)) = [Some 7] \<and> snd (snd (FifoGet fifo_demo None)) = -1"
proof -
  have ok: "fifo_ok fifo_demo"
    by (simp add: fifo_ok_def fifo_demo_def fifo_count_def IS_POWER_OF_TWO_def)
  have p: "FifoPut fifo_demo 7 = (fifo_demo\<lparr>fifo_buffer := [None, Some 7], fifo_in := 0\<rparr>, 0)"
    by (simp add: FifoPut_def fifo_demo_def FifoMin_def put_slots_def Let_def)
  have "fifo_count fifo_demo = 0" "fifo_list fifo_demo = []" "unat (fifo_size fifo_demo) = 2"
    by (simp_all add: fifo_count_def fifo_list_def fifo_demo_def)
  with fifo_put_get_effect [OF ok, of 7 None] ok p show ?thesis
    by (auto split: prod.splits)
qed

end
