(* ===== verification/Ipc_Msg.thy ===== *)
theory Ipc_Msg
  imports Gopher_Prelude
begin

text \<open>
  The sending half of \<open>src/common/ipc.c\<close>: the manager process turns a probe's configuration
  (\<open>struct ipc_body_s\<close>) into a message of type-length-value units and puts it on a System V
  message queue. The buffer is a byte list and every store is checked against its bounds; the
  theory shows that the message is exactly the documented encoding of the body.
  Lengths are natural numbers: a message is far smaller than \<open>2 ^ 31\<close>. The 16-bit length
  fields are kept at their width.
\<close>

section \<open>Data\<close>

text \<open>Sizes of the C structures: \<open>struct ipc_tlv_s\<close>, \<open>struct probe_params\<close>, \<open>struct ipc_msg_s\<close>.\<close>

abbreviation (input) TLV_HDR :: nat where "TLV_HDR \<equiv> 4"
abbreviation (input) PARAMS_SIZE :: nat where "PARAMS_SIZE \<equiv> 3152"
abbreviation (input) IPC_MSG_HDR :: nat where "IPC_MSG_HDR \<equiv> 16"

text \<open>\<open>sizeof(struct ipc_msg_s)\<close> is 16 while \<open>msg\<close> starts at offset 12: four bytes of slack.\<close>

abbreviation (input) IPC_MSG_SLACK :: nat where "IPC_MSG_SLACK \<equiv> 4"

definition SNOOPER_MAX :: nat where "SNOOPER_MAX = 100"

definition IPC_TLV_LEN_DEFAULT :: nat where
  "IPC_TLV_LEN_DEFAULT = 3 * (TLV_HDR + 4) + (TLV_HDR + PARAMS_SIZE)"

definition IPCT_PROBE_RANGE :: u16 where "IPCT_PROBE_RANGE = 100"
definition IPCT_PROBE_PARAMS :: u16 where "IPCT_PROBE_PARAMS = 101"
definition IPCT_PROBE_FLAGS :: u16 where "IPCT_PROBE_FLAGS = 102"
definition IPCT_SNOOPER_NUM :: u16 where "IPCT_SNOOPER_NUM = 103"

definition IPCT_GAUSSDB_IP :: u16 where "IPCT_GAUSSDB_IP = 1000"
definition IPCT_GAUSSDB_DBNAME :: u16 where "IPCT_GAUSSDB_DBNAME = 1001"
definition IPCT_GAUSSDB_USR :: u16 where "IPCT_GAUSSDB_USR = 1002"
definition IPCT_GAUSSDB_PASS :: u16 where "IPCT_GAUSSDB_PASS = 1003"
definition IPCT_CONTAINER_ID :: u16 where "IPCT_CONTAINER_ID = 1004"
definition IPCT_CONTAINER_NAME :: u16 where "IPCT_CONTAINER_NAME = 1005"
definition IPCT_LIBC_PATH :: u16 where "IPCT_LIBC_PATH = 1006"
definition IPCT_LIBSSL_PATH :: u16 where "IPCT_LIBSSL_PATH = 1007"
definition IPCT_POD_ID :: u16 where "IPCT_POD_ID = 1008"
definition IPCT_POD_NAME :: u16 where "IPCT_POD_NAME = 1009"
definition IPCT_POD_IP :: u16 where "IPCT_POD_IP = 1010"

lemmas ipct_defs = IPCT_PROBE_RANGE_def IPCT_PROBE_PARAMS_def IPCT_PROBE_FLAGS_def IPCT_SNOOPER_NUM_def
  IPCT_GAUSSDB_IP_def IPCT_GAUSSDB_DBNAME_def IPCT_GAUSSDB_USR_def IPCT_GAUSSDB_PASS_def
  IPCT_CONTAINER_ID_def IPCT_CONTAINER_NAME_def IPCT_LIBC_PATH_def IPCT_LIBSSL_PATH_def
  IPCT_POD_ID_def IPCT_POD_NAME_def IPCT_POD_IP_def

definition SNOOPER_OBJ_PROC :: u16 where "SNOOPER_OBJ_PROC = 0"
definition SNOOPER_OBJ_CON :: u16 where "SNOOPER_OBJ_CON = 1"
definition SNOOPER_OBJ_GAUSSDB :: u16 where "SNOOPER_OBJ_GAUSSDB = 2"
definition SNOOPER_OBJ_MAX :: u16 where "SNOOPER_OBJ_MAX = 3"

lemmas snooper_obj_defs = SNOOPER_OBJ_PROC_def SNOOPER_OBJ_CON_def SNOOPER_OBJ_GAUSSDB_def SNOOPER_OBJ_MAX_def

text \<open>A \<open>char *\<close> field: NULL or the heap block it points to.\<close>

type_synonym cptr = "byte list option"

record snooper_gaussdb_s =
  port :: u32
  db_ip :: cptr
  dbname :: cptr
  usr :: cptr
  pass :: cptr

record snooper_con_info_s =
  con_flags :: u32
  cpucg_inode :: u32
  con_id :: cptr
  container_name :: cptr
  libc_path :: cptr
  libssl_path :: cptr
  pod_id :: cptr
  pod_ip_str :: cptr

text \<open>\<open>struct snooper_obj_s\<close>: the tag and the union it selects.\<close>

datatype snooper_obj_s =
    OBJ_PROC u32
  | OBJ_CON snooper_con_info_s
  | OBJ_GAUSSDB snooper_gaussdb_s
  | OBJ_MAX

text \<open>
  \<open>probe_param\<close> is the object representation of \<open>struct probe_params\<close>, which the code only
  copies with \<open>memcpy\<close>; \<open>snooper_objs\<close> is the array of \<open>SNOOPER_MAX\<close> objects.
\<close>

record ipc_body_s =
  probe_range_flags :: u32
  snooper_obj_num :: u32
  probe_flags :: u32
  probe_param :: "byte list"
  snooper_objs :: "snooper_obj_s list"

text \<open>The objects the loops \<open>for (i = 0; i < snooper_obj_num && i < SNOOPER_MAX; i++)\<close> visit.\<close>

definition live_objs :: "ipc_body_s \<Rightarrow> snooper_obj_s list" where
  "live_objs b = take (min (unat (snooper_obj_num b)) SNOOPER_MAX) (snooper_objs b)"

text \<open>The optional strings of an object with their sub-types, in the order they are written.\<close>

definition con_subs :: "snooper_con_info_s \<Rightarrow> (u16 \<times> cptr) list" where
  "con_subs c = [(IPCT_CONTAINER_ID, con_id c), (IPCT_CONTAINER_NAME, container_name c),
     (IPCT_LIBC_PATH, libc_path c), (IPCT_LIBSSL_PATH, libssl_path c),
     (IPCT_POD_ID, pod_id c), (IPCT_POD_IP, pod_ip_str c)]"

definition db_subs :: "snooper_gaussdb_s \<Rightarrow> (u16 \<times> cptr) list" where
  "db_subs g = [(IPCT_GAUSSDB_IP, db_ip g), (IPCT_GAUSSDB_DBNAME, dbname g),
     (IPCT_GAUSSDB_USR, usr g), (IPCT_GAUSSDB_PASS, pass g)]"

section \<open>Message length\<close>

text \<open>One \<open>if (container->field) tlv_len += ...\<close> per string.\<close>

fun add_sub_lens :: "nat \<Rightarrow> (u16 \<times> cptr) list \<Rightarrow> nat outc" where
  "add_sub_lens tlv_len [] = Ok tlv_len"
| "add_sub_lens tlv_len ((ty, None) # ps) = add_sub_lens tlv_len ps"
| "add_sub_lens tlv_len ((ty, Some s) # ps) =
     bnd (strlen s) (\<lambda>n. add_sub_lens (tlv_len + (TLV_HDR + n + 1)) ps)"

fun get_tlv_len_proc :: "snooper_obj_s \<Rightarrow> nat outc" where
  "get_tlv_len_proc (OBJ_PROC _) = Ok (TLV_HDR + 4)"
| "get_tlv_len_proc _ = Ok 0"

fun get_tlv_len_container :: "snooper_obj_s \<Rightarrow> nat outc" where
  "get_tlv_len_container (OBJ_CON c) = add_sub_lens (TLV_HDR + (4 + 4)) (con_subs c)"
| "get_tlv_len_container _ = Ok 0"

fun get_tlv_len_gaussdb :: "snooper_obj_s \<Rightarrow> nat outc" where
  "get_tlv_len_gaussdb (OBJ_GAUSSDB g) = add_sub_lens (TLV_HDR + 4) (db_subs g)"
| "get_tlv_len_gaussdb _ = Ok 0"

text \<open>\<open>ipc_operators[obj.type].get_tlv_len\<close>; the type \<open>SNOOPER_OBJ_MAX\<close> is past the end of the table.\<close>

fun get_tlv_len :: "snooper_obj_s \<Rightarrow> nat outc" where
  "get_tlv_len (OBJ_PROC p) = get_tlv_len_proc (OBJ_PROC p)"
| "get_tlv_len (OBJ_CON c) = get_tlv_len_container (OBJ_CON c)"
| "get_tlv_len (OBJ_GAUSSDB g) = get_tlv_len_gaussdb (OBJ_GAUSSDB g)"
| "get_tlv_len OBJ_MAX = UB"

fun add_obj_lens :: "nat \<Rightarrow> snooper_obj_s list \<Rightarrow> nat outc" where
  "add_obj_lens msg_len [] = Ok msg_len"
| "add_obj_lens msg_len (ob # obs) = bnd (get_tlv_len ob) (\<lambda>n. add_obj_lens (msg_len + n) obs)"

definition calc_ipc_msg_len :: "ipc_body_s \<Rightarrow> nat outc" where
  "calc_ipc_msg_len b = add_obj_lens IPC_TLV_LEN_DEFAULT (live_objs b)"

section \<open>Building the message\<close>

text \<open>A unit whose value is one \<open>u32\<close>, at offset \<open>cur\<close>.\<close>

definition put_u32_tlv :: "byte list \<Rightarrow> nat \<Rightarrow> u16 \<Rightarrow> u32 \<Rightarrow> byte list outc" where
  "put_u32_tlv buf cur ty v =
     bnd (wr16 buf cur ty) (\<lambda>buf.
     bnd (wr16 buf (cur + 2) 4) (\<lambda>buf.
     wr32 buf (cur + TLV_HDR) v))"

fun build_tlv_proc :: "byte list \<Rightarrow> nat \<Rightarrow> nat \<Rightarrow> snooper_obj_s \<Rightarrow> (byte list \<times> int) outc" where
  "build_tlv_proc buf cur sz (OBJ_PROC proc_id) =
     (if sz < 4 + TLV_HDR then Ok (buf, -1)
      else bnd (put_u32_tlv buf cur SNOOPER_OBJ_PROC proc_id) (\<lambda>buf. Ok (buf, 4 + int TLV_HDR)))"
| "build_tlv_proc buf cur sz _ = Ok (buf, -1)"

text \<open>
  The string units that follow the fixed part of an object. \<open>start\<close> is the offset of the
  object's value, \<open>l1\<close> is \<open>tlv_len_1st\<close>. The result is \<open>Inl\<close> when the code returns -1.
\<close>

fun build_subs :: "byte list \<Rightarrow> nat \<Rightarrow> int \<Rightarrow> nat \<Rightarrow> (u16 \<times> cptr) list
     \<Rightarrow> (byte list + byte list \<times> nat) outc" where
  "build_subs buf start max_len l1 [] = Ok (Inr (buf, l1))"
| "build_subs buf start max_len l1 ((ty, None) # ps) = build_subs buf start max_len l1 ps"
| "build_subs buf start max_len l1 ((ty, Some s) # ps) =
     bnd (strlen s) (\<lambda>n.
       let l2 = n + 1 + TLV_HDR; max_len' = max_len - int l2; len2 = (of_nat (l2 - TLV_HDR) :: u16)
       in if max_len' < 0 then Ok (Inl buf)
          else bnd (wr16 buf (start + l1) ty) (\<lambda>buf.
               bnd (wr16 buf (start + l1 + 2) len2) (\<lambda>buf.
               bnd (rd s 0 (unat len2)) (\<lambda>v.
               bnd (wr buf (start + l1 + TLV_HDR) v) (\<lambda>buf.
               build_subs buf start max_len' (l1 + l2) ps)))))"

text \<open>\<open>tlv_1st->len = tlv_len_1st\<close> and the returned length, which is read back from the 16-bit field.\<close>

definition finish_tlv :: "nat \<Rightarrow> byte list + byte list \<times> nat \<Rightarrow> (byte list \<times> int) outc" where
  "finish_tlv cur r = (case r of Inl buf \<Rightarrow> Ok (buf, -1)
     | Inr (buf, l1) \<Rightarrow> bnd (wr16 buf (cur + 2) (of_nat l1))
         (\<lambda>buf. Ok (buf, int (unat (of_nat l1 :: u16)) + int TLV_HDR)))"

fun build_tlv_container :: "byte list \<Rightarrow> nat \<Rightarrow> nat \<Rightarrow> snooper_obj_s \<Rightarrow> (byte list \<times> int) outc" where
  "build_tlv_container buf cur sz (OBJ_CON c) =
     bnd (wr16 buf cur SNOOPER_OBJ_CON) (\<lambda>buf.
     bnd (wr32 buf (cur + TLV_HDR) (con_flags c)) (\<lambda>buf.
     bnd (wr32 buf (cur + TLV_HDR + 4) (cpucg_inode c)) (\<lambda>buf.
     bnd (build_subs buf (cur + TLV_HDR) (int sz - 4 - 8) 8 (con_subs c)) (finish_tlv cur))))"
| "build_tlv_container buf cur sz _ = Ok (buf, -1)"

fun build_tlv_gaussdb :: "byte list \<Rightarrow> nat \<Rightarrow> nat \<Rightarrow> snooper_obj_s \<Rightarrow> (byte list \<times> int) outc" where
  "build_tlv_gaussdb buf cur sz (OBJ_GAUSSDB g) =
     bnd (wr16 buf cur SNOOPER_OBJ_GAUSSDB) (\<lambda>buf.
     bnd (wr32 buf (cur + TLV_HDR) (port g)) (\<lambda>buf.
     bnd (build_subs buf (cur + TLV_HDR) (int sz - 4) 4 (db_subs g)) (finish_tlv cur)))"
| "build_tlv_gaussdb buf cur sz _ = Ok (buf, -1)"

fun build_tlv :: "byte list \<Rightarrow> nat \<Rightarrow> nat \<Rightarrow> snooper_obj_s \<Rightarrow> (byte list \<times> int) outc" where
  "build_tlv buf cur sz (OBJ_PROC p) = build_tlv_proc buf cur sz (OBJ_PROC p)"
| "build_tlv buf cur sz (OBJ_CON c) = build_tlv_container buf cur sz (OBJ_CON c)"
| "build_tlv buf cur sz (OBJ_GAUSSDB g) = build_tlv_gaussdb buf cur sz (OBJ_GAUSSDB g)"
| "build_tlv buf cur sz OBJ_MAX = UB"

definition build_probe_range_tlv :: "byte list \<Rightarrow> nat \<Rightarrow> ipc_body_s \<Rightarrow> (byte list \<times> int) outc" where
  "build_probe_range_tlv buf cur b =
     bnd (put_u32_tlv buf cur IPCT_PROBE_RANGE (probe_range_flags b)) (\<lambda>buf. Ok (buf, int TLV_HDR + 4))"

definition build_probe_flags_tlv :: "byte list \<Rightarrow> nat \<Rightarrow> ipc_body_s \<Rightarrow> (byte list \<times> int) outc" where
  "build_probe_flags_tlv buf cur b =
     bnd (put_u32_tlv buf cur IPCT_PROBE_FLAGS (probe_flags b)) (\<lambda>buf. Ok (buf, int TLV_HDR + 4))"

definition build_snooper_num_tlv :: "byte list \<Rightarrow> nat \<Rightarrow> ipc_body_s \<Rightarrow> (byte list \<times> int) outc" where
  "build_snooper_num_tlv buf cur b =
     bnd (put_u32_tlv buf cur IPCT_SNOOPER_NUM (snooper_obj_num b)) (\<lambda>buf. Ok (buf, int TLV_HDR + 4))"

definition build_probe_params_tlv :: "byte list \<Rightarrow> nat \<Rightarrow> ipc_body_s \<Rightarrow> (byte list \<times> int) outc" where
  "build_probe_params_tlv buf cur b =
     bnd (wr16 buf cur IPCT_PROBE_PARAMS) (\<lambda>buf.
     bnd (wr16 buf (cur + 2) (of_nat PARAMS_SIZE)) (\<lambda>buf.
     bnd (wr buf (cur + TLV_HDR) (probe_param b)) (\<lambda>buf.
     Ok (buf, int TLV_HDR + int PARAMS_SIZE))))"

fun build_objs :: "byte list \<Rightarrow> nat \<Rightarrow> int \<Rightarrow> int \<Rightarrow> snooper_obj_s list \<Rightarrow> (byte list \<times> int) outc" where
  "build_objs buf cur max_len fill_len [] = Ok (buf, fill_len)"
| "build_objs buf cur max_len fill_len (ob # obs) =
     bnd (build_tlv buf cur (nat max_len) ob) (\<lambda>(buf, build_len).
       if build_len < 0 then Ok (buf, -1)
       else if max_len - build_len < 0 then Ok (buf, -1)
       else build_objs buf (cur + nat build_len) (max_len - build_len) (fill_len + build_len) obs)"

definition build_snooper_tlv :: "byte list \<Rightarrow> nat \<Rightarrow> int \<Rightarrow> ipc_body_s \<Rightarrow> (byte list \<times> int) outc" where
  "build_snooper_tlv buf cur max_len b = build_objs buf cur max_len 0 (live_objs b)"

text \<open>The four fixed units and then the objects; \<open>ret\<close> is 0 or -1.\<close>

definition build_ipc_msg :: "byte list \<Rightarrow> nat \<Rightarrow> ipc_body_s \<Rightarrow> (byte list \<times> int) outc" where
  "build_ipc_msg buf sz b =
     bnd (build_probe_range_tlv buf 0 b) (\<lambda>(buf, n1).
     if int sz - n1 \<le> 0 then Ok (buf, -1) else
     bnd (build_probe_params_tlv buf (nat n1) b) (\<lambda>(buf, n2).
     if int sz - n1 - n2 \<le> 0 then Ok (buf, -1) else
     bnd (build_probe_flags_tlv buf (nat (n1 + n2)) b) (\<lambda>(buf, n3).
     if int sz - n1 - n2 - n3 \<le> 0 then Ok (buf, -1) else
     bnd (build_snooper_num_tlv buf (nat (n1 + n2 + n3)) b) (\<lambda>(buf, n4).
     if int sz - n1 - n2 - n3 - n4 < 0 then Ok (buf, -1) else
     bnd (build_snooper_tlv buf (nat (n1 + n2 + n3 + n4)) (int sz - n1 - n2 - n3 - n4) b) (\<lambda>(buf, n5).
     if n5 < 0 then Ok (buf, -1)
     else if n1 + n2 + n3 + n4 + n5 \<noteq> int sz then Ok (buf, -1)
     else Ok (buf, 0))))))"

text \<open>\<open>malloc_ok n\<close> says whether an allocation of \<open>n\<close> bytes succeeds.\<close>

definition malloc_ipc_msg :: "(nat \<Rightarrow> bool) \<Rightarrow> ipc_body_s \<Rightarrow> (nat \<times> byte list) option outc" where
  "malloc_ipc_msg malloc_ok b =
     bnd (calc_ipc_msg_len b) (\<lambda>msg_len.
       if malloc_ok (IPC_MSG_HDR + msg_len)
       then Ok (Some (msg_len, replicate (msg_len + IPC_MSG_SLACK) 0)) else Ok None)"

text \<open>The message length and the bytes of \<open>msg\<close>, or NULL.\<close>

definition create_ipc_msg :: "(nat \<Rightarrow> bool) \<Rightarrow> ipc_body_s \<Rightarrow> (nat \<times> byte list) option outc" where
  "create_ipc_msg malloc_ok b =
     bnd (malloc_ipc_msg malloc_ok b) (\<lambda>r. case r of None \<Rightarrow> Ok None
       | Some (msg_len, buf) \<Rightarrow>
           bnd (build_ipc_msg buf msg_len b) (\<lambda>(buf, ret).
             if ret \<noteq> 0 then Ok None else Ok (Some (msg_len, buf))))"

section \<open>The message format\<close>

text \<open>
  The encoding drawn in the comment of \<open>ipc.c\<close>, written as one expression over the body.
\<close>

definition enc_u32_tlv :: "u16 \<Rightarrow> u32 \<Rightarrow> byte list" where
  "enc_u32_tlv ty v = le_bytes 2 (unat ty) @ le_bytes 2 4 @ le_bytes 4 (unat v)"

fun enc_subs :: "(u16 \<times> cptr) list \<Rightarrow> byte list" where
  "enc_subs [] = []"
| "enc_subs ((ty, None) # ps) = enc_subs ps"
| "enc_subs ((ty, Some s) # ps) = le_bytes 2 (unat ty) @ le_bytes 2 (length s) @ s @ enc_subs ps"

definition enc_tlv :: "u16 \<Rightarrow> byte list \<Rightarrow> byte list" where
  "enc_tlv ty v = le_bytes 2 (unat ty) @ le_bytes 2 (length v) @ v"

fun enc_obj :: "snooper_obj_s \<Rightarrow> byte list" where
  "enc_obj (OBJ_PROC p) = enc_u32_tlv SNOOPER_OBJ_PROC p"
| "enc_obj (OBJ_CON c) = enc_tlv SNOOPER_OBJ_CON
     (le_bytes 4 (unat (con_flags c)) @ le_bytes 4 (unat (cpucg_inode c)) @ enc_subs (con_subs c))"
| "enc_obj (OBJ_GAUSSDB g) = enc_tlv SNOOPER_OBJ_GAUSSDB
     (le_bytes 4 (unat (port g)) @ enc_subs (db_subs g))"
| "enc_obj OBJ_MAX = []"

definition enc_fixed :: "ipc_body_s \<Rightarrow> byte list" where
  "enc_fixed b = enc_u32_tlv IPCT_PROBE_RANGE (probe_range_flags b)
     @ enc_tlv IPCT_PROBE_PARAMS (probe_param b)
     @ enc_u32_tlv IPCT_PROBE_FLAGS (probe_flags b)
     @ enc_u32_tlv IPCT_SNOOPER_NUM (snooper_obj_num b)"

definition enc_body :: "ipc_body_s \<Rightarrow> byte list" where
  "enc_body b = enc_fixed b @ concat (map enc_obj (live_objs b))"

text \<open>A body as the manager makes it: a full array, terminated strings, values that fit a 16-bit length.\<close>

fun subs_ok :: "(u16 \<times> cptr) list \<Rightarrow> bool" where
  "subs_ok [] = True"
| "subs_ok ((ty, None) # ps) = subs_ok ps"
| "subs_ok ((ty, Some s) # ps) = (cstr s \<and> subs_ok ps)"

fun obj_ok :: "snooper_obj_s \<Rightarrow> bool" where
  "obj_ok (OBJ_PROC p) = True"
| "obj_ok (OBJ_CON c) = (subs_ok (con_subs c) \<and> 8 + length (enc_subs (con_subs c)) < 65536)"
| "obj_ok (OBJ_GAUSSDB g) = (subs_ok (db_subs g) \<and> 4 + length (enc_subs (db_subs g)) < 65536)"
| "obj_ok OBJ_MAX = False"

definition body_ok :: "ipc_body_s \<Rightarrow> bool" where
  "body_ok b \<longleftrightarrow> length (probe_param b) = PARAMS_SIZE \<and> length (snooper_objs b) = SNOOPER_MAX
     \<and> (\<forall>ob \<in> set (live_objs b). obj_ok ob)"

text \<open>A body with one object of each kind.\<close>

definition sample_body :: ipc_body_s where
  "sample_body = \<lparr>probe_range_flags = 3, snooper_obj_num = 3, probe_flags = 1,
     probe_param = replicate PARAMS_SIZE 7,
     snooper_objs = [OBJ_PROC 4242,
       OBJ_CON \<lparr>con_flags = 0, cpucg_inode = 99, con_id = Some [97, 98, 0], container_name = None,
         libc_path = Some [47, 0], libssl_path = None, pod_id = None, pod_ip_str = Some [0]\<rparr>,
       OBJ_GAUSSDB \<lparr>port = 5432, db_ip = Some [49, 0], dbname = None, usr = None, pass = Some [120, 0]\<rparr>]
       @ replicate 97 OBJ_MAX\<rparr>"

section \<open>The builders write the encoding\<close>

lemma enc_u32_tlv_length [simp]: "length (enc_u32_tlv ty v) = 8"
  by (simp add: enc_u32_tlv_def)

lemma enc_tlv_length [simp]: "length (enc_tlv ty v) = 4 + length v"
  by (simp add: enc_tlv_def)

lemma put_u32_tlv_fill:
  assumes "c = a + length bs" "a + length bs + 8 \<le> length m"
  shows "put_u32_tlv (fill m a bs) c ty v = Ok (fill m a (bs @ enc_u32_tlv ty v))"
  using assms by (simp add: put_u32_tlv_def wr16_def wr32_def wr_fill_next enc_u32_tlv_def del: le_bytes.simps)

lemma build_subs_fill:
  assumes "subs_ok ps" "start + l1 = a + length bs" "a + length bs + length (enc_subs ps) \<le> length m"
    "int (length (enc_subs ps)) \<le> max_len" "length (enc_subs ps) < 65536"
  shows "build_subs (fill m a bs) start max_len l1 ps
       = Ok (Inr (fill m a (bs @ enc_subs ps), l1 + length (enc_subs ps)))"
  using assms
proof (induction ps arbitrary: bs max_len l1 rule: enc_subs.induct)
  case (3 ty s ps)
  from "3.prems" have s: "cstr s" "subs_ok ps" by auto
  have n: "strlen s = Ok (length s - 1)" "0 < length s" using s(1) strlen_cstr cstr_nonempty by blast+
  let ?bs = "bs @ le_bytes 2 (unat ty) @ le_bytes 2 (length s) @ s"
  have IH: "build_subs (fill m a ?bs) start (max_len - (int (length s) + 4)) (l1 + (length s + 4)) ps
      = Ok (Inr (fill m a (?bs @ enc_subs ps), l1 + (length s + 4) + length (enc_subs ps)))"
    using "3.prems" by (intro "3.IH") (auto simp del: le_bytes.simps)
  have "unat (of_nat (length s) :: u16) = length s" using "3.prems" by (simp add: unat_of_nat_u16)
  moreover obtain k where "length s = Suc k" using n(2) by (cases "length s") auto
  ultimately show ?case using "3.prems" n IH
    by (simp add: add_ac wr16_def wr_fill_next rd_all Let_def del: le_bytes.simps)
qed simp_all

text \<open>The length field is written last, into the gap left between the type and the value.\<close>

lemma finish_tlv_fill:
  assumes "length gp = 2" "cur = a + length bs" "cur + 4 + length v \<le> length m" "length v < 65536"
  shows "finish_tlv cur (Inr (fill m a ((bs @ le_bytes 2 (unat ty)) @ gp @ v), length v))
       = Ok (fill m a (bs @ enc_tlv ty v), int (length (enc_tlv ty v)))"
proof -
  have "wr (fill m a ((bs @ le_bytes 2 (unat ty)) @ gp @ v)) (cur + 2) (le_bytes 2 (length v))
     = Ok (fill m a ((bs @ le_bytes 2 (unat ty)) @ le_bytes 2 (length v) @ v))"
    using assms by (intro wr_fill_inner) (auto simp del: le_bytes.simps)
  with assms show ?thesis
    by (simp add: finish_tlv_def wr16_def unat_of_nat_u16 uint_of_nat_u16 enc_tlv_def del: le_bytes.simps)
qed

lemma build_tlv_container_fill:
  assumes "obj_ok (OBJ_CON c)" "cur = a + length bs"
    "cur + length (enc_obj (OBJ_CON c)) \<le> length m" "length (enc_obj (OBJ_CON c)) \<le> sz"
  shows "build_tlv (fill m a bs) cur sz (OBJ_CON c)
       = Ok (fill m a (bs @ enc_obj (OBJ_CON c)), int (length (enc_obj (OBJ_CON c))))"
proof -
  let ?bs1 = "bs @ le_bytes 2 (unat SNOOPER_OBJ_CON)"
  let ?f = "le_bytes 4 (unat (con_flags c))" and ?i = "le_bytes 4 (unat (cpucg_inode c))"
  let ?subs = "enc_subs (con_subs c)"
  have w1: "wr (fill m a bs) cur (le_bytes 2 (unat SNOOPER_OBJ_CON)) = Ok (fill m a ?bs1)"
    using assms by (intro wr_fill_next) (auto simp del: le_bytes.simps)
  obtain gp where gp: "length gp = 2" and
    w2: "wr (fill m a ?bs1) (cur + 4) ?f = Ok (fill m a (?bs1 @ gp @ ?f))"
    using assms by (elim wr_fill_gapE [of "cur + 4" a ?bs1 2 ?f m, rotated 2]) (auto simp del: le_bytes.simps)
  have w3: "wr (fill m a (?bs1 @ gp @ ?f)) (cur + 4 + 4) ?i = Ok (fill m a ((?bs1 @ gp @ ?f) @ ?i))"
    using assms gp by (intro wr_fill_next) (auto simp del: le_bytes.simps)
  have w4: "build_subs (fill m a ((?bs1 @ gp @ ?f) @ ?i)) (cur + 4) (int sz - 4 - 8) 8 (con_subs c)
     = Ok (Inr (fill m a (((?bs1 @ gp @ ?f) @ ?i) @ ?subs), 8 + length ?subs))"
    using assms gp by (intro build_subs_fill) (auto simp del: le_bytes.simps)
  have w5: "finish_tlv cur (Inr (fill m a (((?bs1 @ gp @ ?f) @ ?i) @ ?subs), 8 + length ?subs))
     = Ok (fill m a (bs @ enc_obj (OBJ_CON c)), int (length (enc_obj (OBJ_CON c))))"
    using finish_tlv_fill [of gp cur a bs "?f @ ?i @ ?subs" m SNOOPER_OBJ_CON] assms gp
    by (simp del: le_bytes.simps)
  show ?thesis
    unfolding build_tlv.simps build_tlv_container.simps wr16_def wr32_def w1 w2 w3 w4 bnd_simps w5 ..
qed

lemma build_tlv_gaussdb_fill:
  assumes "obj_ok (OBJ_GAUSSDB g)" "cur = a + length bs"
    "cur + length (enc_obj (OBJ_GAUSSDB g)) \<le> length m" "length (enc_obj (OBJ_GAUSSDB g)) \<le> sz"
  shows "build_tlv (fill m a bs) cur sz (OBJ_GAUSSDB g)
       = Ok (fill m a (bs @ enc_obj (OBJ_GAUSSDB g)), int (length (enc_obj (OBJ_GAUSSDB g))))"
proof -
  let ?bs1 = "bs @ le_bytes 2 (unat SNOOPER_OBJ_GAUSSDB)"
  let ?f = "le_bytes 4 (unat (port g))" and ?subs = "enc_subs (db_subs g)"
  have w1: "wr (fill m a bs) cur (le_bytes 2 (unat SNOOPER_OBJ_GAUSSDB)) = Ok (fill m a ?bs1)"
    using assms by (intro wr_fill_next) (auto simp del: le_bytes.simps)
  obtain gp where gp: "length gp = 2" and
    w2: "wr (fill m a ?bs1) (cur + 4) ?f = Ok (fill m a (?bs1 @ gp @ ?f))"
    using assms by (elim wr_fill_gapE [of "cur + 4" a ?bs1 2 ?f m, rotated 2]) (auto simp del: le_bytes.simps)
  have w4: "build_subs (fill m a (?bs1 @ gp @ ?f)) (cur + 4) (int sz - 4) 4 (db_subs g)
     = Ok (Inr (fill m a ((?bs1 @ gp @ ?f) @ ?subs), 4 + length ?subs))"
    using assms gp by (intro build_subs_fill) (auto simp del: le_bytes.simps)
  have w5: "finish_tlv cur (Inr (fill m a ((?bs1 @ gp @ ?f) @ ?subs), 4 + length ?subs))
     = Ok (fill m a (bs @ enc_obj (OBJ_GAUSSDB g)), int (length (enc_obj (OBJ_GAUSSDB g))))"
    using finish_tlv_fill [of gp cur a bs "?f @ ?subs" m SNOOPER_OBJ_GAUSSDB] assms gp
    by (simp del: le_bytes.simps)
  show ?thesis
    unfolding build_tlv.simps build_tlv_gaussdb.simps wr16_def wr32_def w1 w2 w4 bnd_simps w5 ..
qed

lemma build_tlv_fill:
  assumes "obj_ok ob" "cur = a + length bs" "cur + length (enc_obj ob) \<le> length m" "length (enc_obj ob) \<le> sz"
  shows "build_tlv (fill m a bs) cur sz ob = Ok (fill m a (bs @ enc_obj ob), int (length (enc_obj ob)))"
proof (cases ob)
  case (OBJ_PROC p)
  with assms show ?thesis by (simp add: put_u32_tlv_fill)
next
  case (OBJ_CON c)
  with assms show ?thesis by (simp only: build_tlv_container_fill)
next
  case (OBJ_GAUSSDB g)
  with assms show ?thesis by (simp only: build_tlv_gaussdb_fill)
qed (use assms in simp)

lemma build_objs_fill:
  assumes "\<forall>ob \<in> set obs. obj_ok ob" "cur = a + length bs"
    "cur + length (concat (map enc_obj obs)) \<le> length m" "int (length (concat (map enc_obj obs))) \<le> max_len"
  shows "build_objs (fill m a bs) cur max_len fill_len obs
       = Ok (fill m a (bs @ concat (map enc_obj obs)), fill_len + int (length (concat (map enc_obj obs))))"
  using assms
proof (induction obs arbitrary: bs cur max_len fill_len)
  case (Cons ob obs)
  have "build_tlv (fill m a bs) cur (nat max_len) ob = Ok (fill m a (bs @ enc_obj ob), int (length (enc_obj ob)))"
    using Cons.prems by (intro build_tlv_fill) auto
  moreover have "build_objs (fill m a (bs @ enc_obj ob)) (cur + length (enc_obj ob))
      (max_len - int (length (enc_obj ob))) (fill_len + int (length (enc_obj ob))) obs
    = Ok (fill m a ((bs @ enc_obj ob) @ concat (map enc_obj obs)),
        fill_len + int (length (enc_obj ob)) + int (length (concat (map enc_obj obs))))"
    using Cons.prems by (intro Cons.IH) auto
  ultimately show ?case using Cons.prems by (simp del: enc_obj.simps)
qed simp

lemma add_sub_lens_enc: "subs_ok ps \<Longrightarrow> add_sub_lens n ps = Ok (n + length (enc_subs ps))"
proof (induction ps arbitrary: n rule: enc_subs.induct)
  case (3 ty s ps)
  then have "strlen s = Ok (length s - 1)" "0 < length s" using strlen_cstr cstr_nonempty by simp_all
  with 3 show ?case by (simp del: le_bytes.simps)
qed simp_all

lemma get_tlv_len_enc: "obj_ok ob \<Longrightarrow> get_tlv_len ob = Ok (length (enc_obj ob))"
  by (cases ob) (simp_all add: add_sub_lens_enc)

lemma add_obj_lens_enc:
  "\<forall>ob \<in> set obs. obj_ok ob \<Longrightarrow> add_obj_lens n obs = Ok (n + length (concat (map enc_obj obs)))"
  by (induction obs arbitrary: n) (simp_all add: get_tlv_len_enc)

lemma calc_ipc_msg_len_enc: "body_ok b \<Longrightarrow> calc_ipc_msg_len b = Ok (length (enc_body b))"
  by (simp add: calc_ipc_msg_len_def body_ok_def add_obj_lens_enc enc_body_def enc_fixed_def IPC_TLV_LEN_DEFAULT_def)

lemma build_probe_params_tlv_fill:
  assumes "length (probe_param b) = PARAMS_SIZE" "c = a + length bs" "a + length bs + 4 + PARAMS_SIZE \<le> length m"
  shows "build_probe_params_tlv (fill m a bs) c b
       = Ok (fill m a (bs @ enc_tlv IPCT_PROBE_PARAMS (probe_param b)), 4 + int PARAMS_SIZE)"
  using assms by (simp add: build_probe_params_tlv_def wr16_def wr_fill_next enc_tlv_def del: le_bytes.simps)

lemma build_ipc_msg_fill:
  assumes ok: "body_ok b" and m: "length (enc_body b) \<le> length m"
  shows "build_ipc_msg m (length (enc_body b)) b = Ok (fill m 0 (enc_body b), 0)"
proof -
  let ?r = "enc_u32_tlv IPCT_PROBE_RANGE (probe_range_flags b)"
  let ?p = "enc_tlv IPCT_PROBE_PARAMS (probe_param b)"
  let ?f = "enc_u32_tlv IPCT_PROBE_FLAGS (probe_flags b)"
  let ?s = "enc_u32_tlv IPCT_SNOOPER_NUM (snooper_obj_num b)"
  let ?o = "concat (map enc_obj (live_objs b))"
  have len: "length (probe_param b) = PARAMS_SIZE" "length (enc_body b) = 3180 + length ?o"
    using ok by (simp_all add: body_ok_def enc_body_def enc_fixed_def)
  note m' = m [unfolded len]
  have w1: "put_u32_tlv m 0 IPCT_PROBE_RANGE (probe_range_flags b) = Ok (fill m 0 ?r)"
    using put_u32_tlv_fill [of 0 0 "[]" m] m' by simp
  have w2: "build_probe_params_tlv (fill m 0 ?r) 8 b = Ok (fill m 0 (?r @ ?p), 3156)"
    using m' len(1) by (simp add: build_probe_params_tlv_fill)
  have w3: "put_u32_tlv (fill m 0 (?r @ ?p)) 3164 IPCT_PROBE_FLAGS (probe_flags b) = Ok (fill m 0 ((?r @ ?p) @ ?f))"
    using m' len(1) by (intro put_u32_tlv_fill) simp_all
  have w4: "put_u32_tlv (fill m 0 ((?r @ ?p) @ ?f)) 3172 IPCT_SNOOPER_NUM (snooper_obj_num b)
      = Ok (fill m 0 (((?r @ ?p) @ ?f) @ ?s))"
    using m' len(1) by (intro put_u32_tlv_fill) simp_all
  have w5: "build_objs (fill m 0 (((?r @ ?p) @ ?f) @ ?s)) 3180 (int (length ?o)) 0 (live_objs b)
      = Ok (fill m 0 ((((?r @ ?p) @ ?f) @ ?s) @ ?o), 0 + int (length ?o))"
    using m' len(1) ok by (intro build_objs_fill) (auto simp: body_ok_def)
  have "enc_body b = (((?r @ ?p) @ ?f) @ ?s) @ ?o" by (simp add: enc_body_def enc_fixed_def)
  then show ?thesis using w1 w2 w3 w4 w5
    by (simp add: build_ipc_msg_def build_probe_range_tlv_def build_probe_flags_tlv_def
        build_snooper_num_tlv_def build_snooper_tlv_def len)
qed

lemma sample_live_objs: "live_objs sample_body = take 3 (snooper_objs sample_body)"
  by (simp add: live_objs_def sample_body_def SNOOPER_MAX_def)

lemma sample_body_ok: "body_ok sample_body"
  by (simp add: body_ok_def sample_live_objs) (simp add: sample_body_def SNOOPER_MAX_def con_subs_def db_subs_def cstr_def)

lemma sample_body_length: "length (enc_body sample_body) = 3238"
  by (simp add: enc_body_def enc_fixed_def sample_live_objs) (simp add: sample_body_def con_subs_def db_subs_def del: le_bytes.simps)

text \<open>C33. \<open>create_ipc_msg\<close> refines the encoding \<open>enc_body\<close>, the sequence of units that the code writes and reads (with the flags of the probe between the parameters and the
  number of snoopers, which the comment \<open>IPC msg format\<close> of \<open>ipc.c\<close> leaves out): for every body with terminated strings
  that the 16-bit lengths can describe, whatever mix of process, container and GaussDB objects it
  has, the length computed in advance is the length of the encoding, every store stays inside the
  allocated block, and the block holds exactly the encoding (then the structure's four slack bytes).\<close>

theorem ipc_build_encodes:
  assumes "body_ok b" "malloc_ok (IPC_MSG_HDR + length (enc_body b))"
  shows "create_ipc_msg malloc_ok b = Ok (Some (length (enc_body b), enc_body b @ replicate IPC_MSG_SLACK 0))"
  using assms by (simp add: create_ipc_msg_def malloc_ipc_msg_def calc_ipc_msg_len_enc build_ipc_msg_fill fill_def)

theorem ipc_build_encodes_witness:
  "body_ok sample_body \<and> length (enc_body sample_body) = 3238
   \<and> create_ipc_msg (\<lambda>n. n < 4000) sample_body
     = Ok (Some (3238, enc_body sample_body @ replicate IPC_MSG_SLACK 0))"
  using ipc_build_encodes [of sample_body "\<lambda>n. n < 4000"] sample_body_ok sample_body_length by simp

end
