(* ===== verification/Ipc_Recv.thy ===== *)
theory Ipc_Recv
  imports Ipc_Msg
begin

text \<open>
  The queue and the receiving half of \<open>src/common/ipc.c\<close>: a probe drains its messages from the
  System V queue into a static buffer, keeps the last one and deserializes it into a zeroed
  \<open>struct ipc_body_s\<close>. The \<open>do ... while\<close> loops over the strings of a container or GaussDB
  object are partial functions, because on an unknown sub-type they do not advance.
\<close>

section \<open>Zeroed objects\<close>

definition zero_con :: snooper_con_info_s where
  "zero_con = \<lparr>con_flags = 0, cpucg_inode = 0, con_id = None, container_name = None,
     libc_path = None, libssl_path = None, pod_id = None, pod_ip_str = None\<rparr>"

definition zero_db :: snooper_gaussdb_s where
  "zero_db = \<lparr>port = 0, db_ip = None, dbname = None, usr = None, pass = None\<rparr>"

text \<open>\<open>memset(ipc_body, 0, sizeof(struct ipc_body_s))\<close>; type 0 is \<open>SNOOPER_OBJ_PROC\<close>.\<close>

definition zero_body :: ipc_body_s where
  "zero_body = \<lparr>probe_range_flags = 0, snooper_obj_num = 0, probe_flags = 0,
     probe_param = replicate PARAMS_SIZE 0, snooper_objs = replicate SNOOPER_MAX (OBJ_PROC 0)\<rparr>"

text \<open>The union read as a container or a database; the receiver only does so on zeroed objects.\<close>

fun as_con :: "snooper_obj_s \<Rightarrow> snooper_con_info_s" where
  "as_con (OBJ_CON c) = c" | "as_con _ = zero_con"

fun as_db :: "snooper_obj_s \<Rightarrow> snooper_gaussdb_s" where
  "as_db (OBJ_GAUSSDB g) = g" | "as_db _ = zero_db"

section \<open>Releasing objects\<close>

definition free_container_obj :: "snooper_con_info_s \<Rightarrow> snooper_con_info_s" where
  "free_container_obj c = c\<lparr>con_id := None, container_name := None, libc_path := None,
     libssl_path := None, pod_id := None, pod_ip_str := None\<rparr>"

definition free_gaussdb_obj :: "snooper_gaussdb_s \<Rightarrow> snooper_gaussdb_s" where
  "free_gaussdb_obj g = g\<lparr>db_ip := None, dbname := None, usr := None, pass := None\<rparr>"

fun free_obj :: "snooper_obj_s \<Rightarrow> snooper_obj_s" where
  "free_obj (OBJ_CON c) = OBJ_CON (free_container_obj c)"
| "free_obj (OBJ_GAUSSDB g) = OBJ_GAUSSDB (free_gaussdb_obj g)"
| "free_obj ob = ob"

definition destroy_ipc_body :: "ipc_body_s \<Rightarrow> ipc_body_s" where
  "destroy_ipc_body b =
     (let n = min (unat (snooper_obj_num b)) SNOOPER_MAX
      in b\<lparr>snooper_objs := map free_obj (take n (snooper_objs b)) @ drop n (snooper_objs b),
           snooper_obj_num := 0, probe_range_flags := 0, probe_flags := 0\<rparr>)"

section \<open>Deserializing objects\<close>

text \<open>All functions read the receive buffer \<open>m\<close>; \<open>cur\<close> is the offset the C code calls \<open>buf\<close>.\<close>

definition deserialize_tlv_proc :: "byte list \<Rightarrow> nat \<Rightarrow> nat \<Rightarrow> snooper_obj_s \<Rightarrow> (int \<times> snooper_obj_s) outc" where
  "deserialize_tlv_proc m cur sz ob =
     (if sz < TLV_HDR + 4 then Ok (-1, ob)
      else bnd (rd16 m (cur + 2)) (\<lambda>len.
        if len \<noteq> 4 then Ok (-1, ob)
        else bnd (rd16 m cur) (\<lambda>ty.
          if ty \<noteq> SNOOPER_OBJ_PROC then Ok (-1, ob)
          else bnd (rd32 m (cur + TLV_HDR)) (\<lambda>v. Ok (int TLV_HDR + 4, OBJ_PROC v)))))"

text \<open>
  One \<open>switch (tlv_2nd->type)\<close>: the member a sub-type names, or none for \<open>default\<close>.
\<close>

definition con_sub_set :: "u16 \<Rightarrow> (cptr \<Rightarrow> snooper_con_info_s \<Rightarrow> snooper_con_info_s) option" where
  "con_sub_set ty =
     (if ty = IPCT_CONTAINER_ID then Some (\<lambda>v c. c\<lparr>con_id := v\<rparr>)
      else if ty = IPCT_CONTAINER_NAME then Some (\<lambda>v c. c\<lparr>container_name := v\<rparr>)
      else if ty = IPCT_LIBC_PATH then Some (\<lambda>v c. c\<lparr>libc_path := v\<rparr>)
      else if ty = IPCT_LIBSSL_PATH then Some (\<lambda>v c. c\<lparr>libssl_path := v\<rparr>)
      else if ty = IPCT_POD_ID then Some (\<lambda>v c. c\<lparr>pod_id := v\<rparr>)
      else if ty = IPCT_POD_IP then Some (\<lambda>v c. c\<lparr>pod_ip_str := v\<rparr>)
      else None)"

definition db_sub_set :: "u16 \<Rightarrow> (cptr \<Rightarrow> snooper_gaussdb_s \<Rightarrow> snooper_gaussdb_s) option" where
  "db_sub_set ty =
     (if ty = IPCT_GAUSSDB_IP then Some (\<lambda>v g. g\<lparr>db_ip := v\<rparr>)
      else if ty = IPCT_GAUSSDB_DBNAME then Some (\<lambda>v g. g\<lparr>dbname := v\<rparr>)
      else if ty = IPCT_GAUSSDB_USR then Some (\<lambda>v g. g\<lparr>usr := v\<rparr>)
      else if ty = IPCT_GAUSSDB_PASS then Some (\<lambda>v g. g\<lparr>pass := v\<rparr>)
      else None)"

text \<open>
  The body of the loop at offset \<open>off\<close> of the value that starts at \<open>start\<close>. The result says
  whether \<open>goto end\<close> was taken, and gives the new \<open>offset\<close>, \<open>err\<close> and object.
\<close>

definition sub_step :: "(u16 \<Rightarrow> (cptr \<Rightarrow> 'x \<Rightarrow> 'x) option) \<Rightarrow> (nat \<Rightarrow> bool) \<Rightarrow> byte list \<Rightarrow> nat
     \<Rightarrow> nat \<Rightarrow> bool \<Rightarrow> 'x \<Rightarrow> (bool \<times> nat \<times> bool \<times> 'x) outc" where
  "sub_step sub_set malloc_ok m start off err x =
     bnd (rd16 m (start + off)) (\<lambda>ty.
       case sub_set ty of
         None \<Rightarrow> Ok (False, off, True, x)
       | Some put \<Rightarrow>
           bnd (rd16 m (start + off + 2)) (\<lambda>len.
             if \<not> malloc_ok (unat len) then Ok (True, off, True, put None x)
             else bnd (rd m (start + off + TLV_HDR) (unat len)) (\<lambda>v.
               Ok (False, off + unat len + TLV_HDR, err, put (Some v) x))))"

definition sub_loop :: "(u16 \<Rightarrow> (cptr \<Rightarrow> 'x \<Rightarrow> 'x) option) \<Rightarrow> (nat \<Rightarrow> bool) \<Rightarrow> byte list
     \<Rightarrow> nat \<Rightarrow> nat \<Rightarrow> nat \<Rightarrow> bool \<Rightarrow> 'x \<Rightarrow> (nat \<times> bool \<times> 'x) outc" where
  "sub_loop sub_set malloc_ok m start sz off err x =
     loop_result (c_loop (\<lambda>(off, err, x). bnd (sub_step sub_set malloc_ok m start off err x)
       (\<lambda>(stop, off', err', x'). Ok (stop \<or> \<not> off' < sz, (off', err', x')))) (off, err, x))"

definition deserialize_tlv_container :: "(nat \<Rightarrow> bool) \<Rightarrow> byte list \<Rightarrow> nat \<Rightarrow> nat \<Rightarrow> snooper_obj_s
     \<Rightarrow> (int \<times> snooper_obj_s) outc" where
  "deserialize_tlv_container malloc_ok m cur sz ob =
     bnd (rd16 m cur) (\<lambda>ty. if ty \<noteq> SNOOPER_OBJ_CON then Ok (-1, ob) else
     bnd (rd16 m (cur + 2)) (\<lambda>len. if unat len < 4 + 4 then Ok (-1, ob) else
     bnd (rd32 m (cur + TLV_HDR)) (\<lambda>fl.
     bnd (rd32 m (cur + TLV_HDR + 4)) (\<lambda>ino.
     let c = (as_con ob)\<lparr>con_flags := fl, cpucg_inode := ino\<rparr>
     in bnd (if 8 \<ge> sz then Ok (8, False, c)
             else sub_loop con_sub_set malloc_ok m (cur + TLV_HDR) sz 8 False c)
        (\<lambda>(off, err, c). if err then Ok (-1, OBJ_MAX) else Ok (int off + int TLV_HDR, OBJ_CON c))))))"

definition deserialize_tlv_gaussdb :: "(nat \<Rightarrow> bool) \<Rightarrow> byte list \<Rightarrow> nat \<Rightarrow> nat \<Rightarrow> snooper_obj_s
     \<Rightarrow> (int \<times> snooper_obj_s) outc" where
  "deserialize_tlv_gaussdb malloc_ok m cur sz ob =
     bnd (rd16 m cur) (\<lambda>ty. if ty \<noteq> SNOOPER_OBJ_GAUSSDB then Ok (-1, ob) else
     bnd (rd16 m (cur + 2)) (\<lambda>len. if unat len < 4 then Ok (-1, ob) else
     bnd (rd32 m (cur + TLV_HDR)) (\<lambda>pt.
     let g = (as_db ob)\<lparr>port := pt\<rparr>
     in bnd (if 4 \<ge> sz then Ok (4, False, g)
             else sub_loop db_sub_set malloc_ok m (cur + TLV_HDR) sz 4 False g)
        (\<lambda>(off, err, g). if err then Ok (-1, OBJ_MAX) else Ok (int off + int TLV_HDR, OBJ_GAUSSDB g)))))"

text \<open>\<open>ipc_operators[tlv->type].deserialize_tlv\<close>.\<close>

definition deserialize_tlv :: "(nat \<Rightarrow> bool) \<Rightarrow> u16 \<Rightarrow> byte list \<Rightarrow> nat \<Rightarrow> nat \<Rightarrow> snooper_obj_s
     \<Rightarrow> (int \<times> snooper_obj_s) outc" where
  "deserialize_tlv malloc_ok ty m cur sz ob =
     (if ty = SNOOPER_OBJ_PROC then deserialize_tlv_proc m cur sz ob
      else if ty = SNOOPER_OBJ_CON then deserialize_tlv_container malloc_ok m cur sz ob
      else if ty = SNOOPER_OBJ_GAUSSDB then deserialize_tlv_gaussdb malloc_ok m cur sz ob
      else UB)"

section \<open>Deserializing the message\<close>

text \<open>A fixed unit holding one \<open>u32\<close>: the checks of its type and length, then the value.\<close>

definition deser_u32_tlv :: "u16 \<Rightarrow> byte list \<Rightarrow> nat \<Rightarrow> u32 option outc" where
  "deser_u32_tlv want m cur =
     bnd (rd16 m cur) (\<lambda>ty. if ty \<noteq> want then Ok None else
     bnd (rd16 m (cur + 2)) (\<lambda>len. if len \<noteq> 4 then Ok None else
     bnd (rd32 m (cur + TLV_HDR)) (\<lambda>v. Ok (Some v))))"

definition deserialize_probe_range_tlv :: "byte list \<Rightarrow> nat \<Rightarrow> ipc_body_s \<Rightarrow> (int \<times> ipc_body_s) outc" where
  "deserialize_probe_range_tlv m cur b = bnd (deser_u32_tlv IPCT_PROBE_RANGE m cur) (\<lambda>r. case r of
     None \<Rightarrow> Ok (-1, b) | Some v \<Rightarrow> Ok (8, b\<lparr>probe_range_flags := v\<rparr>))"

definition deserialize_probe_flags_tlv :: "byte list \<Rightarrow> nat \<Rightarrow> ipc_body_s \<Rightarrow> (int \<times> ipc_body_s) outc" where
  "deserialize_probe_flags_tlv m cur b = bnd (deser_u32_tlv IPCT_PROBE_FLAGS m cur) (\<lambda>r. case r of
     None \<Rightarrow> Ok (-1, b) | Some v \<Rightarrow> Ok (8, b\<lparr>probe_flags := v\<rparr>))"

definition deserialize_snooper_num_tlv :: "byte list \<Rightarrow> nat \<Rightarrow> ipc_body_s \<Rightarrow> (int \<times> ipc_body_s) outc" where
  "deserialize_snooper_num_tlv m cur b = bnd (deser_u32_tlv IPCT_SNOOPER_NUM m cur) (\<lambda>r. case r of
     None \<Rightarrow> Ok (-1, b) | Some v \<Rightarrow> Ok (8, b\<lparr>snooper_obj_num := v\<rparr>))"

definition deserialize_probe_params_tlv :: "byte list \<Rightarrow> nat \<Rightarrow> ipc_body_s \<Rightarrow> (int \<times> ipc_body_s) outc" where
  "deserialize_probe_params_tlv m cur b =
     bnd (rd16 m cur) (\<lambda>ty. if ty \<noteq> IPCT_PROBE_PARAMS then Ok (-1, b) else
     bnd (rd16 m (cur + 2)) (\<lambda>len. if len \<noteq> of_nat PARAMS_SIZE then Ok (-1, b) else
     bnd (rd m (cur + TLV_HDR) PARAMS_SIZE) (\<lambda>v.
     Ok (int PARAMS_SIZE + int TLV_HDR, b\<lparr>probe_param := v\<rparr>))))"

text \<open>The loop of \<open>__deserialize_snooper_tlv\<close>; it returns \<open>offset_len\<close> or -1.\<close>

function deser_objs :: "(nat \<Rightarrow> bool) \<Rightarrow> byte list \<Rightarrow> nat \<Rightarrow> int \<Rightarrow> int \<Rightarrow> nat \<Rightarrow> ipc_body_s
     \<Rightarrow> (int \<times> ipc_body_s) outc" where
  "deser_objs malloc_ok m start offset_len max_len idx b =
     bnd (rd16 m (start + nat offset_len)) (\<lambda>ty.
       if SNOOPER_OBJ_MAX \<le> ty then Ok (-1, b)
       else if SNOOPER_MAX \<le> idx then Ok (-1, b)
       else bnd (deserialize_tlv malloc_ok ty m (start + nat offset_len) (nat max_len) (snooper_objs b ! idx))
         (\<lambda>(n, ob). let b' = b\<lparr>snooper_objs := (snooper_objs b)[idx := ob]\<rparr> in
           if n < 0 then Ok (-1, b')
           else if max_len - n > 0
           then deser_objs malloc_ok m start (offset_len + n) (max_len - n) (idx + 1) b'
           else Ok (offset_len + n, b')))"
  by pat_completeness auto
termination
  by (relation "measure (\<lambda>(_, _, _, _, _, idx, _). SNOOPER_MAX - idx)") auto

declare deser_objs.simps [simp del]

definition deserialize_snooper_tlv :: "(nat \<Rightarrow> bool) \<Rightarrow> byte list \<Rightarrow> nat \<Rightarrow> int \<Rightarrow> ipc_body_s
     \<Rightarrow> (int \<times> ipc_body_s) outc" where
  "deserialize_snooper_tlv malloc_ok m cur max_len b = deser_objs malloc_ok m cur 0 max_len 0 b"

text \<open>
  One step of \<open>__deserialize_ipc_msg\<close>: call a deserializer at \<open>offset\<close>, check its result and
  the remaining length, and go on. \<open>start\<close> is the offset of \<open>msg\<close> in the buffer.
\<close>

definition deser_next :: "(int \<times> ipc_body_s) outc \<Rightarrow> int \<Rightarrow> int \<Rightarrow> (int \<Rightarrow> int \<Rightarrow> ipc_body_s \<Rightarrow> (int \<times> ipc_body_s) outc)
     \<Rightarrow> (int \<times> ipc_body_s) outc" where
  "deser_next r offset max_len k = bnd r (\<lambda>(n, b).
     if n < 0 then Ok (-1, b) else if max_len - n < 0 then Ok (-1, b) else k (offset + n) (max_len - n) b)"

definition deserialize_ipc_msg :: "(nat \<Rightarrow> bool) \<Rightarrow> byte list \<Rightarrow> nat \<Rightarrow> int \<Rightarrow> ipc_body_s
     \<Rightarrow> (int \<times> ipc_body_s) outc" where
  "deserialize_ipc_msg malloc_ok m start msg_len b =
     deser_next (deserialize_probe_range_tlv m start b) 0 msg_len (\<lambda>off len b.
     deser_next (deserialize_probe_params_tlv m (start + nat off) b) off len (\<lambda>off len b.
     deser_next (deserialize_probe_flags_tlv m (start + nat off) b) off len (\<lambda>off len b.
     deser_next (deserialize_snooper_num_tlv m (start + nat off) b) off len (\<lambda>off len b.
     if len = 0 then Ok (off, b)
     else deser_next (deserialize_snooper_tlv malloc_ok m (start + nat off) len b) off len
            (\<lambda>off len b. Ok (off, b))))))"

section \<open>The message queue\<close>

text \<open>
  A System V message: its type and its text. \<open>msgrcv\<close> takes the first message of the type
  asked for (the first of all for type 0, the first of the lowest type not above \<open>-t\<close> for a
  negative type) and fails without removing it when it is longer than the buffer.
\<close>

type_synonym sysv_msg = "int \<times> byte list"

definition msg_wanted :: "int \<Rightarrow> sysv_msg list \<Rightarrow> sysv_msg \<Rightarrow> bool" where
  "msg_wanted t q x = (if t > 0 then fst x = t else if t = 0 then True
     else fst x \<le> - t \<and> list_all (\<lambda>y. fst y \<le> - t \<longrightarrow> fst x \<le> fst y) q)"

fun take_first :: "('a \<Rightarrow> bool) \<Rightarrow> 'a list \<Rightarrow> ('a \<times> 'a list) option" where
  "take_first p [] = None"
| "take_first p (x # xs) = (if p x then Some (x, xs)
     else (case take_first p xs of None \<Rightarrow> None | Some (y, ys) \<Rightarrow> Some (y, x # ys)))"

definition msgrcv :: "nat \<Rightarrow> int \<Rightarrow> sysv_msg list \<Rightarrow> (byte list \<times> sysv_msg list) option" where
  "msgrcv msgsz t q = (case take_first (msg_wanted t q) q of None \<Rightarrow> None
     | Some (x, q') \<Rightarrow> if length (snd x) > msgsz then None else Some (snd x, q'))"

lemma take_first_length: "take_first p xs = Some (y, ys) \<Longrightarrow> length xs = Suc (length ys)"
  by (induction xs arbitrary: ys) (auto split: if_splits option.splits)

definition GOPHER_IPC_MSG_LEN :: nat where "GOPHER_IPC_MSG_LEN = 4 * 1024"

text \<open>
  \<open>g_rcv_ipc_msg_buffer\<close> from \<open>msg_len\<close> on: four bytes of \<open>msg_len\<close>, then \<open>msg\<close>.
\<close>

abbreviation (input) RCV_BUF_SIZE :: nat where "RCV_BUF_SIZE \<equiv> 4104"
abbreviation (input) MSG_OFF :: nat where "MSG_OFF \<equiv> 4"

definition get_raw_ipc_msg :: "byte list \<Rightarrow> byte list outc" where
  "get_raw_ipc_msg m =
     bnd (wr32 m 0 (of_nat GOPHER_IPC_MSG_LEN)) (\<lambda>m.
     bnd (wr16 m MSG_OFF SNOOPER_OBJ_MAX) (\<lambda>m.
     wr16 m (MSG_OFF + 2) 0))"

text \<open>\<open>while (msgrcv(...) != -1) msg_rcvd = 1;\<close>\<close>

function drain_msgs :: "nat \<Rightarrow> int \<Rightarrow> sysv_msg list \<Rightarrow> byte list \<Rightarrow> bool \<Rightarrow> (bool \<times> sysv_msg list \<times> byte list) outc" where
  "drain_msgs msgsz t q m rcvd = (case msgrcv msgsz t q of
      None \<Rightarrow> Ok (rcvd, q, m)
    | Some (txt, q') \<Rightarrow> bnd (wr m 0 txt) (\<lambda>m. drain_msgs msgsz t q' m True))"
  by pat_completeness auto
termination
  by (relation "measure (\<lambda>(_, _, q, _, _). length q)")
     (auto simp: msgrcv_def split: option.splits if_splits dest: take_first_length)

declare drain_msgs.simps [simp del]

definition PROBE_BASEINFO :: int where "PROBE_BASEINFO = 1"
definition PROBE_TYPE_MAX :: int where "PROBE_TYPE_MAX = 22"

text \<open>\<open>msgsnd_ok n\<close> says whether the system accepts a text of \<open>n\<close> bytes.\<close>

definition send_ipc_msg :: "(nat \<Rightarrow> bool) \<Rightarrow> (nat \<Rightarrow> bool) \<Rightarrow> int \<Rightarrow> int \<Rightarrow> ipc_body_s \<Rightarrow> sysv_msg list
     \<Rightarrow> (int \<times> sysv_msg list) outc" where
  "send_ipc_msg malloc_ok msgsnd_ok msqid msg_type b q =
     (if msqid < 0 then Ok (-1, q)
      else if msg_type < PROBE_BASEINFO \<or> msg_type \<ge> PROBE_TYPE_MAX then Ok (-1, q)
      else bnd (create_ipc_msg malloc_ok b) (\<lambda>r. case r of None \<Rightarrow> Ok (-1, q)
        | Some (msg_len, buf) \<Rightarrow>
            bnd (rd buf 0 msg_len) (\<lambda>txt.
              if msgsnd_ok (msg_len + 4) then Ok (0, q @ [(msg_type, le_bytes 4 msg_len @ txt)])
              else Ok (-1, q))))"

text \<open>The error code, the caller's body, the queue and the static buffer afterwards.\<close>

definition recv_ipc_msg :: "(nat \<Rightarrow> bool) \<Rightarrow> int \<Rightarrow> int \<Rightarrow> ipc_body_s \<Rightarrow> sysv_msg list \<Rightarrow> byte list
     \<Rightarrow> (int \<times> ipc_body_s \<times> sysv_msg list \<times> byte list) outc" where
  "recv_ipc_msg malloc_ok msqid msg_type b q m =
     (if msqid < 0 then Ok (-1, b, q, m)
      else bnd (get_raw_ipc_msg m) (\<lambda>m.
        bnd (drain_msgs (GOPHER_IPC_MSG_LEN + 4) msg_type q m False) (\<lambda>(msg_rcvd, q, m).
          if \<not> msg_rcvd then Ok (-1, b, q, m)
          else bnd (rd32 m 0) (\<lambda>msg_len.
            if unat msg_len > GOPHER_IPC_MSG_LEN then Ok (-1, destroy_ipc_body b, q, m)
            else bnd (deserialize_ipc_msg malloc_ok m MSG_OFF (int (unat msg_len)) zero_body) (\<lambda>(n, b).
              if n < 0 then Ok (-1, destroy_ipc_body b, q, m) else Ok (0, b, q, m))))))"

text \<open>\<open>msqid\<close> is the result of \<open>create_ipc_msg_queue(IPC_EXCL)\<close>.\<close>

definition clear_ipc_msg :: "int \<Rightarrow> int \<Rightarrow> sysv_msg list \<Rightarrow> byte list \<Rightarrow> (sysv_msg list \<times> byte list) outc" where
  "clear_ipc_msg msqid msg_type q m =
     (if msqid < 0 then Ok (q, m)
      else bnd (get_raw_ipc_msg m) (\<lambda>m.
        bnd (drain_msgs (GOPHER_IPC_MSG_LEN + 4) msg_type q m False) (\<lambda>(_, q, m). Ok (q, m))))"

fun is_proc :: "snooper_obj_s \<Rightarrow> bool" where
  "is_proc (OBJ_PROC _) = True" | "is_proc _ = False"

text \<open>The fixed units of a well-formed message are read back and the objects come next.\<close>

definition fixed_body :: "ipc_body_s \<Rightarrow> ipc_body_s" where
  "fixed_body b = zero_body\<lparr>probe_range_flags := probe_range_flags b, probe_param := probe_param b,
     probe_flags := probe_flags b, snooper_obj_num := snooper_obj_num b\<rparr>"

text \<open>The text of the message that carries a body.\<close>

definition msg_text :: "ipc_body_s \<Rightarrow> byte list" where
  "msg_text b = le_bytes 4 (length (enc_body b)) @ enc_body b"

definition proc_body :: ipc_body_s where
  "proc_body = \<lparr>probe_range_flags = 5, snooper_obj_num = 2, probe_flags = 1,
     probe_param = replicate PARAMS_SIZE 7,
     snooper_objs = [OBJ_PROC 17, OBJ_PROC 4242] @ replicate 98 OBJ_MAX\<rparr>"

section \<open>Draining the queue\<close>

lemma take_first_filter:
  "take_first p q = None \<Longrightarrow> filter p q = [] \<and> filter (\<lambda>x. \<not> p x) q = q"
  "take_first p q = Some (y, ys) \<Longrightarrow> filter p q = y # filter p ys
     \<and> filter (\<lambda>x. \<not> p x) q = filter (\<lambda>x. \<not> p x) ys"
  by (induction q arbitrary: ys) (auto split: if_splits option.splits)

lemma msg_wanted_pos: "0 < t \<Longrightarrow> msg_wanted t q = (\<lambda>x. fst x = t)"
  by (auto simp: msg_wanted_def)

lemma drain_msgs_all:
  assumes "0 < t" "\<forall>x \<in> set q. fst x = t \<longrightarrow> length (snd x) \<le> msgsz" "msgsz \<le> length m"
  shows "drain_msgs msgsz t q m rcvd = Ok (rcvd \<or> filter (\<lambda>x. fst x = t) q \<noteq> [],
           filter (\<lambda>x. fst x \<noteq> t) q, foldl (\<lambda>m x. fill m 0 (snd x)) m (filter (\<lambda>x. fst x = t) q))"
  using assms
proof (induction "length q" arbitrary: q m rcvd rule: less_induct)
  case less
  show ?case
  proof (cases "take_first (\<lambda>x. fst x = t) q")
    case None
    from take_first_filter(1) [OF this] less.prems(1) None show ?thesis
      by (simp add: drain_msgs.simps [of msgsz] msgrcv_def msg_wanted_pos)
  next
    case (Some r)
    obtain y ys where r: "r = (y, ys)" by (cases r)
    note tf = Some [unfolded r]
    have f: "filter (\<lambda>x. fst x = t) q = y # filter (\<lambda>x. fst x = t) ys"
        "filter (\<lambda>x. fst x \<noteq> t) q = filter (\<lambda>x. fst x \<noteq> t) ys"
      using take_first_filter(2) [OF tf] by simp_all
    have ys: "set (filter (\<lambda>x. fst x = t) ys) \<subseteq> set (filter (\<lambda>x. fst x = t) q)" by (simp only: f(1)) auto
    have "y \<in> set (filter (\<lambda>x. fst x = t) q)" by (simp only: f(1)) simp
    then have y: "y \<in> set q" "fst y = t" by simp_all
    have len: "length (snd y) \<le> msgsz" using less.prems(2) y by blast
    have "drain_msgs msgsz t ys (fill m 0 (snd y)) True
        = Ok (True \<or> filter (\<lambda>x. fst x = t) ys \<noteq> [], filter (\<lambda>x. fst x \<noteq> t) ys,
            foldl (\<lambda>m x. fill m 0 (snd x)) (fill m 0 (snd y)) (filter (\<lambda>x. fst x = t) ys))"
      using less.prems take_first_length [OF tf] ys len
      by (intro less.hyps) (auto simp: length_fill)
    moreover have "wr m 0 (snd y) = Ok (fill m 0 (snd y))"
      using less.prems(3) len by (intro wr_fill) simp
    ultimately show ?thesis using len less.prems(1) f tf
      by (simp add: drain_msgs.simps [of msgsz _ q] msgrcv_def msg_wanted_pos)
  qed
qed

lemma length_foldl_fill:
  "\<forall>x \<in> set xs. length (snd x) \<le> length m \<Longrightarrow> length (foldl (\<lambda>m x. fill m 0 (snd x)) m xs) = length m"
  by (induction xs arbitrary: m) (auto simp: length_fill)

section \<open>Reading the units back\<close>

lemma deser_u32_tlv_enc:
  assumes "length pre = cur"
  shows "deser_u32_tlv ty (pre @ enc_u32_tlv ty v @ post) cur = Ok (Some v)"
proof -
  let ?m = "pre @ enc_u32_tlv ty v @ post"
  have "rd16 ?m cur = Ok ty"
    using rd16_append [of pre cur ty] assms by (simp add: enc_u32_tlv_def del: le_bytes.simps)
  moreover have "rd16 ?m (cur + 2) = Ok 4"
    using rd16_append [of "pre @ le_bytes 2 (unat ty)" "cur + 2" 4] assms by (simp add: enc_u32_tlv_def del: le_bytes.simps)
  moreover have "rd32 ?m (cur + 4) = Ok v"
    using rd32_append [of "pre @ le_bytes 2 (unat ty) @ le_bytes 2 4" "cur + 4" v] assms
    by (simp add: enc_u32_tlv_def del: le_bytes.simps)
  ultimately show ?thesis by (simp add: deser_u32_tlv_def)
qed

lemma rd_enc_tlv:
  assumes "length pre = cur" "length v < 65536"
  shows "rd16 (pre @ enc_tlv ty v @ post) cur = Ok ty"
    "rd16 (pre @ enc_tlv ty v @ post) (cur + 2) = Ok (of_nat (length v))"
    "rd (pre @ enc_tlv ty v @ post) (cur + 4) (length v) = Ok v"
proof -
  show "rd16 (pre @ enc_tlv ty v @ post) cur = Ok ty"
    using rd16_append [of pre cur ty] assms by (simp add: enc_tlv_def del: le_bytes.simps)
  show "rd16 (pre @ enc_tlv ty v @ post) (cur + 2) = Ok (of_nat (length v))"
    using rd16_append [of "pre @ le_bytes 2 (unat ty)" "cur + 2" "of_nat (length v)"] assms
    by (simp add: enc_tlv_def unat_of_nat_u16 del: le_bytes.simps)
  show "rd (pre @ enc_tlv ty v @ post) (cur + 4) (length v) = Ok v"
    using rd_append [of "pre @ le_bytes 2 (unat ty) @ le_bytes 2 (length v)" "cur + 4" v "length v" post] assms
    by (simp add: enc_tlv_def del: le_bytes.simps)
qed

lemma deserialize_probe_params_enc:
  assumes "length pre = cur" "length v = PARAMS_SIZE"
  shows "deserialize_probe_params_tlv (pre @ enc_tlv IPCT_PROBE_PARAMS v @ post) cur b
     = Ok (3156, b\<lparr>probe_param := v\<rparr>)"
  using rd_enc_tlv [of pre cur v IPCT_PROBE_PARAMS post] assms
  by (simp add: deserialize_probe_params_tlv_def)

lemma deserialize_tlv_proc_enc:
  assumes "length pre = cur" "8 \<le> sz"
  shows "deserialize_tlv_proc (pre @ enc_u32_tlv SNOOPER_OBJ_PROC p @ post) cur sz ob = Ok (8, OBJ_PROC p)"
proof -
  let ?m = "pre @ enc_u32_tlv SNOOPER_OBJ_PROC p @ post"
  have "rd16 ?m cur = Ok SNOOPER_OBJ_PROC" "rd16 ?m (cur + 2) = Ok 4" "rd32 ?m (cur + 4) = Ok p"
    using deser_u32_tlv_enc [OF assms(1), of SNOOPER_OBJ_PROC p post]
    by (auto simp: deser_u32_tlv_def dest!: bnd_eq_OkD split: if_splits)
  with assms show ?thesis by (simp add: deserialize_tlv_proc_def)
qed

lemma deserialize_ipc_msg_fixed:
  assumes "length (probe_param b) = PARAMS_SIZE" "length pre = start"
  shows "deserialize_ipc_msg malloc_ok (pre @ enc_fixed b @ post) start (int (3180 + n)) zero_body
    = (if n = 0 then Ok (3180, fixed_body b)
       else deser_next (deserialize_snooper_tlv malloc_ok (pre @ enc_fixed b @ post) (start + 3180) (int n)
                          (fixed_body b)) 3180 (int n) (\<lambda>off len b. Ok (off, b)))"
proof -
  let ?r = "enc_u32_tlv IPCT_PROBE_RANGE (probe_range_flags b)"
  let ?p = "enc_tlv IPCT_PROBE_PARAMS (probe_param b)"
  let ?f = "enc_u32_tlv IPCT_PROBE_FLAGS (probe_flags b)"
  let ?s = "enc_u32_tlv IPCT_SNOOPER_NUM (snooper_obj_num b)"
  let ?m = "pre @ enc_fixed b @ post"
  have u1: "deser_u32_tlv IPCT_PROBE_RANGE ?m start = Ok (Some (probe_range_flags b))"
    using deser_u32_tlv_enc [of pre start] assms by (simp add: enc_fixed_def)
  have u2: "deserialize_probe_params_tlv ?m (start + 8) x = Ok (3156, x\<lparr>probe_param := probe_param b\<rparr>)" for x
    using deserialize_probe_params_enc [of "pre @ ?r" "start + 8"] assms by (simp add: enc_fixed_def)
  have u3: "deser_u32_tlv IPCT_PROBE_FLAGS ?m (start + 3164) = Ok (Some (probe_flags b))"
    using deser_u32_tlv_enc [of "pre @ ?r @ ?p" "start + 3164"] assms by (simp add: enc_fixed_def)
  have u4: "deser_u32_tlv IPCT_SNOOPER_NUM ?m (start + 3172) = Ok (Some (snooper_obj_num b))"
    using deser_u32_tlv_enc [of "pre @ ?r @ ?p @ ?f" "start + 3172"] assms by (simp add: enc_fixed_def)
  show ?thesis
    by (simp add: deserialize_ipc_msg_def deserialize_probe_range_tlv_def deserialize_probe_flags_tlv_def
        deserialize_snooper_num_tlv_def u1 u2 u3 u4 deser_next_def fixed_body_def)
qed

section \<open>Process objects\<close>

lemma rd16_enc_u32_tlv: "length pre = cur \<Longrightarrow> rd16 (pre @ enc_u32_tlv ty v @ post) cur = Ok ty"
  using rd16_append [of pre cur ty] by (simp add: enc_u32_tlv_def del: le_bytes.simps)

text \<open>One turn of the loop at a process object.\<close>

lemma deser_objs_proc_step:
  assumes m: "m = pre @ enc_obj (OBJ_PROC p) @ post" and "length pre = start + nat offset_len"
    and "0 \<le> offset_len" "8 \<le> max_len" "idx < SNOOPER_MAX"
  shows "deser_objs malloc_ok m start offset_len max_len idx b =
    (let b' = b\<lparr>snooper_objs := (snooper_objs b)[idx := OBJ_PROC p]\<rparr> in
     if max_len > 8 then deser_objs malloc_ok m start (offset_len + 8) (max_len - 8) (idx + 1) b'
     else Ok (offset_len + 8, b'))"
proof -
  have "rd16 m (start + nat offset_len) = Ok SNOOPER_OBJ_PROC"
    using assms by (simp add: rd16_enc_u32_tlv)
  moreover have "deserialize_tlv_proc m (start + nat offset_len) (nat max_len) ob = Ok (8, OBJ_PROC p)" for ob
    using assms by (simp add: deserialize_tlv_proc_enc)
  ultimately show ?thesis using assms(5)
    by (subst deser_objs.simps) (simp add: deserialize_tlv_def snooper_obj_defs Let_def)
qed

lemma deser_objs_procs:
  assumes "\<forall>ob \<in> set obs. is_proc ob" "obs \<noteq> []" "m = pre @ concat (map enc_obj obs) @ post"
    "length pre = start + nat offset_len" "0 \<le> offset_len" "idx + length obs \<le> SNOOPER_MAX"
    "length (snooper_objs b) = SNOOPER_MAX"
  shows "deser_objs malloc_ok m start offset_len (int (8 * length obs)) idx b
    = Ok (offset_len + int (8 * length obs),
        b\<lparr>snooper_objs := take idx (snooper_objs b) @ obs @ drop (idx + length obs) (snooper_objs b)\<rparr>)"
  using assms
proof (induction obs arbitrary: pre offset_len idx b)
  case (Cons ob obs)
  from Cons.prems(1) obtain p where p: "ob = OBJ_PROC p" by (cases ob) auto
  let ?b = "b\<lparr>snooper_objs := (snooper_objs b)[idx := OBJ_PROC p]\<rparr>"
  have idx: "idx < length (snooper_objs b)" using Cons.prems by simp
  have step: "deser_objs malloc_ok m start offset_len (int (8 * length (ob # obs))) idx b =
     (if obs \<noteq> [] then deser_objs malloc_ok m start (offset_len + 8) (int (8 * length obs)) (idx + 1) ?b
      else Ok (offset_len + 8, ?b))"
    using Cons.prems p
    by (subst deser_objs_proc_step [of m pre p "concat (map enc_obj obs) @ post"]) (auto simp: Let_def)
  have upd: "take (idx + 1) (snooper_objs ?b) = take idx (snooper_objs b) @ [OBJ_PROC p]"
    using idx by (simp add: upd_conv_take_nth_drop)
  show ?case
  proof (cases "obs = []")
    case True
    then show ?thesis using step p idx by (simp add: upd_conv_take_nth_drop)
  next
    case False
    have "deser_objs malloc_ok m start (offset_len + 8) (int (8 * length obs)) (idx + 1) ?b
      = Ok (offset_len + 8 + int (8 * length obs), ?b\<lparr>snooper_objs := take (idx + 1) (snooper_objs ?b) @ obs
          @ drop (idx + 1 + length obs) (snooper_objs ?b)\<rparr>)"
      using Cons.prems False p
      by (intro Cons.IH [of "pre @ enc_obj ob"]) (auto simp: nat_add_distrib)
    with step False p upd show ?thesis by simp
  qed
qed simp

lemma length_enc_procs: "\<forall>ob \<in> set obs. is_proc ob \<Longrightarrow> length (concat (map enc_obj obs)) = 8 * length obs"
proof (induction obs)
  case (Cons ob obs)
  then show ?case by (cases ob) auto
qed simp

section \<open>Sending and receiving\<close>

lemma send_ipc_msg_text:
  assumes "body_ok b" "malloc_ok (IPC_MSG_HDR + length (enc_body b))" "msgsnd_ok (length (enc_body b) + 4)"
    "0 \<le> msqid" "PROBE_BASEINFO \<le> t" "t < PROBE_TYPE_MAX"
  shows "send_ipc_msg malloc_ok msgsnd_ok msqid t b q = Ok (0, q @ [(t, msg_text b)])"
proof -
  have "create_ipc_msg malloc_ok b = Ok (Some (length (enc_body b), enc_body b @ replicate IPC_MSG_SLACK 0))"
    using assms(1,2) by (simp add: create_ipc_msg_def malloc_ipc_msg_def calc_ipc_msg_len_enc build_ipc_msg_fill fill_def)
  moreover have "rd (enc_body b @ replicate IPC_MSG_SLACK 0) 0 (length (enc_body b)) = Ok (enc_body b)"
    by (simp add: rd_def)
  ultimately show ?thesis using assms by (simp add: send_ipc_msg_def msg_text_def)
qed

lemma get_raw_ipc_msg_Ok:
  assumes "length m = RCV_BUF_SIZE"
  obtains m' where "get_raw_ipc_msg m = Ok m'" "length m' = RCV_BUF_SIZE" "drop 8 m' = drop 8 m"
proof -
  let ?bs = "le_bytes 4 4096 @ le_bytes 2 (unat SNOOPER_OBJ_MAX) @ le_bytes 2 0"
  have "get_raw_ipc_msg (fill m 0 []) = Ok (fill m 0 ?bs)"
    unfolding get_raw_ipc_msg_def wr16_def wr32_def GOPHER_IPC_MSG_LEN_def
    using assms by (simp add: wr_fill_next del: fill_Nil le_bytes.simps)
  moreover have "length (fill m 0 ?bs) = RCV_BUF_SIZE" "drop 8 (fill m 0 ?bs) = drop 8 m"
    using assms by (simp_all add: fill_def del: le_bytes.simps)
  ultimately show ?thesis using that [of "fill m 0 ?bs"] by simp
qed

text \<open>
  What the receiver sees: after a successful drain whose last message is \<open>msg_text b\<close>, the result
  is that of the deserializer on that message followed by whatever the buffer held before.
\<close>

lemma recv_ipc_msg_last:
  assumes ok: "body_ok b" and len: "length (enc_body b) \<le> GOPHER_IPC_MSG_LEN"
    and t: "0 < t" "0 \<le> msqid" and m: "length m = RCV_BUF_SIZE"
    and q: "\<forall>x \<in> set q. fst x = t \<longrightarrow> length (snd x) \<le> GOPHER_IPC_MSG_LEN + 4"
  obtains rest where "length rest = RCV_BUF_SIZE - length (msg_text b)"
    "\<forall>x \<in> set q. fst x \<noteq> t \<Longrightarrow> rest = drop (length (msg_text b)) m"
    "recv_ipc_msg malloc_ok msqid t b0 (q @ [(t, msg_text b)]) m
      = bnd (deserialize_ipc_msg malloc_ok (msg_text b @ rest) MSG_OFF (int (length (enc_body b))) zero_body) (\<lambda>(n, b').
          if n < 0 then Ok (-1, destroy_ipc_body b', filter (\<lambda>x. fst x \<noteq> t) q, msg_text b @ rest)
          else Ok (0, b', filter (\<lambda>x. fst x \<noteq> t) q, msg_text b @ rest))"
proof -
  obtain m1 where m1: "get_raw_ipc_msg m = Ok m1" "length m1 = RCV_BUF_SIZE" "drop 8 m1 = drop 8 m"
    using m by (rule get_raw_ipc_msg_Ok)
  define M where "M = foldl (\<lambda>m x. fill m 0 (snd x)) m1 (filter (\<lambda>x. fst x = t) q)"
  define rest where "rest = drop (length (msg_text b)) M"
  have lt: "length (msg_text b) = length (enc_body b) + 4" by (simp add: msg_text_def del: le_bytes.simps)
  have lM: "length M = RCV_BUF_SIZE"
    unfolding M_def using q m1(2) by (subst length_foldl_fill) (auto simp: GOPHER_IPC_MSG_LEN_def)
  have dr: "drain_msgs (GOPHER_IPC_MSG_LEN + 4) t (q @ [(t, msg_text b)]) m1 False
      = Ok (True, filter (\<lambda>x. fst x \<noteq> t) q, msg_text b @ rest)"
    using q t len m1(2) lt
    by (subst drain_msgs_all) (auto simp: GOPHER_IPC_MSG_LEN_def M_def rest_def fill_def)
  have "length (enc_body b) \<le> 4096" using len by (simp add: GOPHER_IPC_MSG_LEN_def)
  then have u: "unat (of_nat (length (enc_body b)) :: u32) = length (enc_body b)" by (simp add: unat_of_nat)
  then have rl: "rd32 (msg_text b @ rest) 0 = Ok (of_nat (length (enc_body b)))"
    using rd32_append [of "[]" 0 "of_nat (length (enc_body b))" "enc_body b @ rest"]
    by (simp add: msg_text_def del: le_bytes.simps)
  show ?thesis
  proof (rule that [of rest])
    show "length rest = RCV_BUF_SIZE - length (msg_text b)" using lM by (simp add: rest_def)
    show "rest = drop (length (msg_text b)) m" if "\<forall>x \<in> set q. fst x \<noteq> t"
    proof -
      have "filter (\<lambda>x. fst x = t) q = []" using that by (auto simp: filter_empty_conv)
      then have "M = m1" by (simp add: M_def)
      moreover have "length (enc_body b) \<ge> 4" using ok by (simp add: body_ok_def enc_body_def enc_fixed_def)
      then have "length (msg_text b) = (length (msg_text b) - 8) + 8" using lt by simp
      ultimately show ?thesis using m1(3) by (metis drop_drop rest_def)
    qed
    show "recv_ipc_msg malloc_ok msqid t b0 (q @ [(t, msg_text b)]) m
      = bnd (deserialize_ipc_msg malloc_ok (msg_text b @ rest) MSG_OFF (int (length (enc_body b))) zero_body) (\<lambda>(n, b').
          if n < 0 then Ok (-1, destroy_ipc_body b', filter (\<lambda>x. fst x \<noteq> t) q, msg_text b @ rest)
          else Ok (0, b', filter (\<lambda>x. fst x \<noteq> t) q, msg_text b @ rest))"
      using t len u dr rl by (simp add: recv_ipc_msg_def m1(1))
  qed
qed

lemma live_objs_length: "length (live_objs b) \<le> SNOOPER_MAX"
  by (simp add: live_objs_def)

lemma fixed_body_eq: "fixed_body b = b\<lparr>snooper_objs := replicate SNOOPER_MAX (OBJ_PROC 0)\<rparr>"
  by (simp add: fixed_body_def zero_body_def)

text \<open>The objects of a message start behind \<open>msg_len\<close> and the fixed units.\<close>

lemma msg_text_split:
  assumes "body_ok b"
  obtains pre where "msg_text b @ rest = pre @ concat (map enc_obj (live_objs b)) @ rest" "length pre = 3184"
proof
  show "msg_text b @ rest = (le_bytes 4 (length (enc_body b)) @ enc_fixed b) @ concat (map enc_obj (live_objs b)) @ rest"
    by (simp add: msg_text_def enc_body_def)
  show "length (le_bytes 4 (length (enc_body b)) @ enc_fixed b) = 3184"
    using assms by (simp add: enc_fixed_def body_ok_def del: le_bytes.simps)
qed

lemma deserialize_ipc_msg_text:
  assumes "body_ok b" and n: "n = length (concat (map enc_obj (live_objs b)))"
  shows "deserialize_ipc_msg malloc_ok (msg_text b @ rest) MSG_OFF (int (length (enc_body b))) zero_body
    = (if n = 0 then Ok (3180, fixed_body b)
       else deser_next (deser_objs malloc_ok (msg_text b @ rest) 3184 0 (int n) 0 (fixed_body b))
              3180 (int n) (\<lambda>off len b. Ok (off, b)))"
proof -
  let ?pre = "le_bytes 4 (length (enc_body b))"
  have l: "length (probe_param b) = PARAMS_SIZE" using assms(1) by (simp add: body_ok_def)
  then have lb: "length (enc_body b) = 3180 + n" using n by (simp add: enc_body_def enc_fixed_def)
  have m: "msg_text b @ rest = ?pre @ enc_fixed b @ (concat (map enc_obj (live_objs b)) @ rest)"
    by (simp add: msg_text_def enc_body_def)
  have "deserialize_ipc_msg malloc_ok (msg_text b @ rest) 4 (int (3180 + n)) zero_body
    = (if n = 0 then Ok (3180, fixed_body b)
       else deser_next (deserialize_snooper_tlv malloc_ok (msg_text b @ rest) (4 + 3180) (int n) (fixed_body b))
              3180 (int n) (\<lambda>off len b. Ok (off, b)))"
    unfolding m by (rule deserialize_ipc_msg_fixed [OF l]) simp
  then show ?thesis by (simp add: lb deserialize_snooper_tlv_def)
qed

lemma deserialize_ipc_msg_procs:
  assumes ok: "body_ok b" and procs: "\<forall>ob \<in> set (live_objs b). is_proc ob"
  shows "deserialize_ipc_msg malloc_ok (msg_text b @ rest) MSG_OFF (int (length (enc_body b))) zero_body
    = Ok (int (length (enc_body b)), b\<lparr>snooper_objs := live_objs b
        @ replicate (SNOOPER_MAX - length (live_objs b)) (OBJ_PROC 0)\<rparr>)"
proof -
  let ?os = "live_objs b"
  have l: "length (concat (map enc_obj ?os)) = 8 * length ?os" "length (enc_body b) = 3180 + 8 * length ?os"
    using ok length_enc_procs [OF procs] by (simp_all add: body_ok_def enc_body_def enc_fixed_def)
  obtain pre where pre: "msg_text b @ rest = pre @ concat (map enc_obj ?os) @ rest" "length pre = 3184"
    using ok by (rule msg_text_split)
  have objs: "deser_objs malloc_ok (msg_text b @ rest) 3184 0 (int (8 * length ?os)) 0 (fixed_body b)
    = Ok (int (8 * length ?os), b\<lparr>snooper_objs := ?os @ replicate (SNOOPER_MAX - length ?os) (OBJ_PROC 0)\<rparr>)"
    if "?os \<noteq> []"
    using procs that l pre live_objs_length [of b]
    by (subst deser_objs_procs [of ?os _ pre rest]) (simp_all add: fixed_body_eq)
  show ?thesis
    using deserialize_ipc_msg_text [OF ok refl, of malloc_ok rest] objs l
    by (cases "?os = []") (simp_all add: deser_next_def fixed_body_eq)
qed

lemma enc_body_procs_le:
  assumes "body_ok b" "\<forall>ob \<in> set (live_objs b). is_proc ob"
  shows "length (enc_body b) \<le> GOPHER_IPC_MSG_LEN"
  using assms(1) length_enc_procs [OF assms(2)] live_objs_length [of b]
  by (simp add: enc_body_def enc_fixed_def body_ok_def GOPHER_IPC_MSG_LEN_def SNOOPER_MAX_def)

lemma recv_procs:
  assumes "body_ok b" "\<forall>ob \<in> set (live_objs b). is_proc ob" "0 \<le> msqid" "0 < t" "length m = RCV_BUF_SIZE"
    and "\<forall>x \<in> set q. fst x = t \<longrightarrow> length (snd x) \<le> GOPHER_IPC_MSG_LEN + 4"
  shows "\<exists>m'. length m' = RCV_BUF_SIZE \<and> recv_ipc_msg malloc_ok' msqid t b0 (q @ [(t, msg_text b)]) m
      = Ok (0, b\<lparr>snooper_objs := live_objs b @ replicate (SNOOPER_MAX - length (live_objs b)) (OBJ_PROC 0)\<rparr>,
            filter (\<lambda>x. fst x \<noteq> t) q, m')"
proof -
  note len = enc_body_procs_le [OF assms(1,2)]
  from assms(1) len assms(4,3,5,6) obtain rest where rest: "length rest = RCV_BUF_SIZE - length (msg_text b)"
    "recv_ipc_msg malloc_ok' msqid t b0 (q @ [(t, msg_text b)]) m
      = bnd (deserialize_ipc_msg malloc_ok' (msg_text b @ rest) MSG_OFF (int (length (enc_body b))) zero_body) (\<lambda>(n, b').
          if n < 0 then Ok (-1, destroy_ipc_body b', filter (\<lambda>x. fst x \<noteq> t) q, msg_text b @ rest)
          else Ok (0, b', filter (\<lambda>x. fst x \<noteq> t) q, msg_text b @ rest))"
    by (rule recv_ipc_msg_last [where malloc_ok = malloc_ok' and ?b0.0 = b0]) (rule that)
  moreover have "length (msg_text b) \<le> RCV_BUF_SIZE"
    using len by (simp add: msg_text_def GOPHER_IPC_MSG_LEN_def del: le_bytes.simps)
  ultimately show ?thesis
    using assms by (intro exI [of _ "msg_text b @ rest"]) (simp add: deserialize_ipc_msg_procs)
qed

text \<open>A message that has been sent is the encoding of the body, at the end of the queue.\<close>

lemma send_ipc_msg_sent:
  assumes "send_ipc_msg malloc_ok msgsnd_ok msqid t b q = Ok (0, q1)" "body_ok b"
  shows "0 \<le> msqid \<and> PROBE_BASEINFO \<le> t \<and> t < PROBE_TYPE_MAX \<and> q1 = q @ [(t, msg_text b)]"
proof -
  from assms(1) have r: "0 \<le> msqid" "PROBE_BASEINFO \<le> t" "t < PROBE_TYPE_MAX"
    by (auto simp: send_ipc_msg_def split: if_split_asm)
  moreover have "malloc_ok (IPC_MSG_HDR + length (enc_body b))"
    using assms r by (auto simp: send_ipc_msg_def create_ipc_msg_def malloc_ipc_msg_def calc_ipc_msg_len_enc split: if_split_asm)
  moreover have "msgsnd_ok (length (enc_body b) + 4)"
    using assms r calculation(4) by (auto simp: send_ipc_msg_def create_ipc_msg_def malloc_ipc_msg_def calc_ipc_msg_len_enc
        build_ipc_msg_fill fill_def rd_def split: if_split_asm)
  ultimately show ?thesis using send_ipc_msg_text [of b malloc_ok msgsnd_ok msqid t q] assms by simp
qed

text \<open>C11. Round trip through the queue: a body that names processes only is sent and received
  unchanged. Whatever older messages of that type are still queued, the receiver drains them all
  and returns the last body, the messages of other probes stay queued in order, and the objects
  beyond those in use are zeroed. The stale bytes of earlier messages in the static receive buffer
  have no influence.\<close>

theorem ipc_proc_roundtrip:
  assumes "body_ok b" "\<forall>ob \<in> set (live_objs b). is_proc ob"
    and "malloc_ok (IPC_MSG_HDR + length (enc_body b))" "msgsnd_ok (length (enc_body b) + 4)"
    and "0 \<le> msqid" "PROBE_BASEINFO \<le> t" "t < PROBE_TYPE_MAX" "length m = RCV_BUF_SIZE"
    and "\<forall>x \<in> set q. fst x = t \<longrightarrow> length (snd x) \<le> GOPHER_IPC_MSG_LEN + 4"
  shows "\<exists>q1 m'. send_ipc_msg malloc_ok msgsnd_ok msqid t b q = Ok (0, q1)
    \<and> length m' = RCV_BUF_SIZE
    \<and> recv_ipc_msg malloc_ok' msqid t b0 q1 m
      = Ok (0, b\<lparr>snooper_objs := live_objs b @ replicate (SNOOPER_MAX - length (live_objs b)) (OBJ_PROC 0)\<rparr>,
            filter (\<lambda>x. fst x \<noteq> t) q, m')"
proof -
  have "0 < t" using assms(6) by (simp add: PROBE_BASEINFO_def)
  then show ?thesis
    using send_ipc_msg_text [of b malloc_ok msgsnd_ok msqid t q]
      recv_procs [of b msqid t m q malloc_ok' b0] assms by simp
qed

lemma proc_body_live: "live_objs proc_body = [OBJ_PROC 17, OBJ_PROC 4242]"
  by (simp add: live_objs_def proc_body_def SNOOPER_MAX_def)

lemma proc_body_ok: "body_ok proc_body"
  by (simp add: body_ok_def proc_body_live) (simp add: proc_body_def SNOOPER_MAX_def)

theorem ipc_proc_roundtrip_witness:
  "\<exists>q1 m'. send_ipc_msg (\<lambda>_. True) (\<lambda>n. n \<le> 8192) 0 4 proc_body [(4, [1]), (5, [9])] = Ok (0, q1)
    \<and> length m' = RCV_BUF_SIZE
    \<and> recv_ipc_msg (\<lambda>_. False) 0 4 zero_body q1 (replicate RCV_BUF_SIZE 0)
      = Ok (0, proc_body\<lparr>snooper_objs := [OBJ_PROC 17, OBJ_PROC 4242] @ replicate 98 (OBJ_PROC 0)\<rparr>, [(5, [9])], m')"
proof -
  have "length (enc_body proc_body) = 3196"
    by (simp add: enc_body_def enc_fixed_def proc_body_live) (simp add: proc_body_def)
  then show ?thesis
    using ipc_proc_roundtrip [of proc_body "\<lambda>_. True" "\<lambda>n. n \<le> 8192" 0 4 "replicate RCV_BUF_SIZE 0"
        "[(4, [1]), (5, [9])]" "\<lambda>_. False" zero_body]
    by (simp add: proc_body_ok proc_body_live PROBE_BASEINFO_def PROBE_TYPE_MAX_def GOPHER_IPC_MSG_LEN_def SNOOPER_MAX_def)
qed

section \<open>Objects with strings\<close>

text \<open>
  The contract between the loop over sub-units and the two switches it is used with: the tags of
  whole objects are not sub-types.
\<close>

locale tlv_strings =
  fixes sub_set :: "u16 \<Rightarrow> (cptr \<Rightarrow> 'x \<Rightarrow> 'x) option"
  assumes tags_unknown: "unat ty < 100 \<Longrightarrow> sub_set ty = None"
begin

text \<open>At a unit it does not know the loop makes no progress.\<close>

lemma sub_loop_stuck:
  assumes "rd16 m (start + off) = Ok ty" "unat ty < 100" "off < sz"
  shows "sub_loop sub_set malloc_ok m start sz off err x = NoRet"
proof -
  have "c_loop (\<lambda>(off, err, x). bnd (sub_step sub_set malloc_ok m start off err x)
       (\<lambda>(stop, off', err', x'). Ok (stop \<or> \<not> off' < sz, (off', err', x')))) (off, err, x) = None"
    by (rule c_loop_stuck [where P = "\<lambda>s. fst s = off"])
       (use assms in \<open>auto simp: sub_step_def tags_unknown\<close>)
  then show ?thesis by (simp add: sub_loop_def)
qed

lemma sub_loop_next:
  "sub_step sub_set malloc_ok m start off err x = Ok (False, off', err', x') \<Longrightarrow> off' < sz \<Longrightarrow>
   sub_loop sub_set malloc_ok m start sz off err x = sub_loop sub_set malloc_ok m start sz off' err' x'"
  by (simp add: sub_loop_def c_loop_step)

text \<open>Every well-formed string unit is read and skipped.\<close>

lemma sub_loop_strings_stuck:
  assumes "subs_ok ps" "\<forall>p \<in> set ps. sub_set (fst p) \<noteq> None"
    and "m = pre @ enc_subs ps @ le_bytes 2 (unat (ty :: u16)) @ post" "unat ty < 100"
    and "length pre = start + off" "off + length (enc_subs ps) < sz" "length (enc_subs ps) < 65536"
    and "\<forall>n. malloc_ok n"
  shows "sub_loop sub_set malloc_ok m start sz off err x = NoRet"
  using assms
proof (induction ps arbitrary: pre off err x rule: enc_subs.induct)
  case 1
  have "rd16 m (start + off) = Ok ty" using 1 by (simp add: rd16_append del: le_bytes.simps)
  with 1 show ?case by (auto intro: sub_loop_stuck)
next
  case (3 sty s ps)
  obtain put where put: "sub_set sty = Some put" using "3.prems"(2) by auto
  let ?rest = "enc_subs ps @ le_bytes 2 (unat ty) @ post"
  have m: "m = pre @ enc_tlv sty s @ ?rest" using "3.prems"(3) by (simp add: enc_tlv_def)
  have len: "length s < 65536" using "3.prems"(7) by simp
  have "sub_step sub_set malloc_ok m start off err x = Ok (False, off + length s + 4, err, put (Some s) x)"
    using rd_enc_tlv [of pre "start + off" s sty ?rest] "3.prems"(5,8) len put
    by (simp add: sub_step_def m unat_of_nat_u16)
  moreover have "sub_loop sub_set malloc_ok m start sz (off + length s + 4) err (put (Some s) x) = NoRet"
    using "3.prems" by (intro "3.IH" [of "pre @ enc_tlv sty s"]) (auto simp: enc_tlv_def simp del: le_bytes.simps)
  moreover have "off + length s + 4 < sz" using "3.prems"(6) by (simp del: le_bytes.simps)
  ultimately show ?case by (simp add: sub_loop_next)
qed auto

end

interpretation con: tlv_strings con_sub_set
  by unfold_locales (auto simp: con_sub_set_def ipct_defs)

interpretation db: tlv_strings db_sub_set
  by unfold_locales (auto simp: db_sub_set_def ipct_defs)

text \<open>What follows an object in a zeroed buffer: the tag of the next object, or zero.\<close>

lemma next_tag:
  assumes "\<forall>ob \<in> set obs. obj_ok ob"
  shows "\<exists>(ty :: u16) post. concat (map enc_obj obs) @ [0, 0] @ rest = le_bytes 2 (unat ty) @ post \<and> unat ty < 100"
proof (cases obs)
  case Nil
  then show ?thesis by (intro exI [of _ 0] exI [of _ rest]) (simp add: numeral_2_eq_2)
next
  case (Cons ob obs')
  define t where "t = (case ob of OBJ_PROC _ \<Rightarrow> SNOOPER_OBJ_PROC | OBJ_CON _ \<Rightarrow> SNOOPER_OBJ_CON
     | OBJ_GAUSSDB _ \<Rightarrow> SNOOPER_OBJ_GAUSSDB | OBJ_MAX \<Rightarrow> SNOOPER_OBJ_MAX)"
  have "unat t < 100" by (cases ob) (simp_all add: t_def snooper_obj_defs)
  moreover have "\<exists>post. concat (map enc_obj obs) @ [0, 0] @ rest = le_bytes 2 (unat t) @ post"
    using assms Cons by (cases ob) (simp_all add: t_def enc_u32_tlv_def enc_tlv_def del: le_bytes.simps)
  ultimately show ?thesis by blast
qed

lemma deserialize_container_stuck:
  assumes m: "m = pre @ enc_obj (OBJ_CON c) @ le_bytes 2 (unat (ty :: u16)) @ post" and ty: "unat ty < 100"
    and pre: "length pre = cur" and ok: "obj_ok (OBJ_CON c)" and sz: "length (enc_obj (OBJ_CON c)) \<le> sz"
    and mo: "\<forall>n. malloc_ok n"
  shows "deserialize_tlv_container malloc_ok m cur sz ob = NoRet"
proof -
  let ?f = "le_bytes 4 (unat (con_flags c))" and ?i = "le_bytes 4 (unat (cpucg_inode c))"
  let ?subs = "enc_subs (con_subs c)" and ?rest = "le_bytes 2 (unat ty) @ post"
  let ?h = "le_bytes 2 (unat SNOOPER_OBJ_CON) @ le_bytes 2 (length (?f @ ?i @ ?subs))"
  have m': "m = pre @ enc_tlv SNOOPER_OBJ_CON (?f @ ?i @ ?subs) @ ?rest" using m by simp
  have len: "length (?f @ ?i @ ?subs) < 65536" using ok by (simp del: le_bytes.simps)
  note r = rd_enc_tlv(1,2) [OF pre len, of SNOOPER_OBJ_CON ?rest, folded m']
  have f: "rd32 m (cur + 4) = Ok (con_flags c)"
    using rd32_append [of "pre @ ?h" "cur + 4"] pre by (simp add: m' enc_tlv_def del: le_bytes.simps)
  have i: "rd32 m (cur + 4 + 4) = Ok (cpucg_inode c)"
    using rd32_append [of "pre @ ?h @ ?f" "cur + 4 + 4"] pre by (simp add: m' enc_tlv_def del: le_bytes.simps)
  have loop: "sub_loop con_sub_set malloc_ok m (cur + 4) sz 8 False x = NoRet" for x
    using ok ty pre sz mo m
    by (intro con.sub_loop_strings_stuck [of "con_subs c" m "pre @ ?h @ ?f @ ?i" ty post])
       (auto simp: con_subs_def con_sub_set_def ipct_defs enc_tlv_def simp del: le_bytes.simps)
  have "\<not> unat (of_nat (length (?f @ ?i @ ?subs)) :: u16) < 4 + 4" "\<not> 8 \<ge> sz"
    using len sz by (simp_all only: unat_of_nat_u16) (simp_all del: le_bytes.simps)
  with r f i loop show ?thesis by (simp add: deserialize_tlv_container_def Let_def del: le_bytes.simps)
qed

lemma deserialize_gaussdb_stuck:
  assumes m: "m = pre @ enc_obj (OBJ_GAUSSDB g) @ le_bytes 2 (unat (ty :: u16)) @ post" and ty: "unat ty < 100"
    and pre: "length pre = cur" and ok: "obj_ok (OBJ_GAUSSDB g)" and sz: "length (enc_obj (OBJ_GAUSSDB g)) \<le> sz"
    and mo: "\<forall>n. malloc_ok n"
  shows "deserialize_tlv_gaussdb malloc_ok m cur sz ob = NoRet"
proof -
  let ?f = "le_bytes 4 (unat (port g))"
  let ?subs = "enc_subs (db_subs g)" and ?rest = "le_bytes 2 (unat ty) @ post"
  let ?h = "le_bytes 2 (unat SNOOPER_OBJ_GAUSSDB) @ le_bytes 2 (length (?f @ ?subs))"
  have m': "m = pre @ enc_tlv SNOOPER_OBJ_GAUSSDB (?f @ ?subs) @ ?rest" using m by simp
  have len: "length (?f @ ?subs) < 65536" using ok by (simp del: le_bytes.simps)
  note r = rd_enc_tlv(1,2) [OF pre len, of SNOOPER_OBJ_GAUSSDB ?rest, folded m']
  have f: "rd32 m (cur + 4) = Ok (port g)"
    using rd32_append [of "pre @ ?h" "cur + 4"] pre by (simp add: m' enc_tlv_def del: le_bytes.simps)
  have loop: "sub_loop db_sub_set malloc_ok m (cur + 4) sz 4 False x = NoRet" for x
    using ok ty pre sz mo m
    by (intro db.sub_loop_strings_stuck [of "db_subs g" m "pre @ ?h @ ?f" ty post])
       (auto simp: db_subs_def db_sub_set_def ipct_defs enc_tlv_def simp del: le_bytes.simps)
  have "\<not> unat (of_nat (length (?f @ ?subs)) :: u16) < 4" "\<not> 4 \<ge> sz"
    using len sz by (simp_all only: unat_of_nat_u16) (simp_all del: le_bytes.simps)
  with r f loop show ?thesis by (simp add: deserialize_tlv_gaussdb_def Let_def del: le_bytes.simps)
qed

lemma enc_obj_nonempty: "obj_ok ob \<Longrightarrow> 0 < length (enc_obj ob)"
  by (cases ob) auto

lemma deser_objs_stuck:
  assumes "\<forall>ob \<in> set obs. obj_ok ob" "\<exists>ob \<in> set obs. \<not> is_proc ob"
    and "m = pre @ concat (map enc_obj obs) @ [0, 0] @ post" "length pre = start + nat offset_len"
    and "0 \<le> offset_len" "idx + length obs \<le> SNOOPER_MAX" "\<forall>n. malloc_ok n"
  shows "deser_objs malloc_ok m start offset_len (int (length (concat (map enc_obj obs)))) idx b = NoRet"
  using assms
proof (induction obs arbitrary: pre offset_len idx b)
  case (Cons ob obs)
  obtain ty :: u16 and post' where nt: "concat (map enc_obj obs) @ [0, 0] @ post = le_bytes 2 (unat ty) @ post'" "unat ty < 100"
    using next_tag [of obs post] Cons.prems(1) by auto
  have m: "m = pre @ enc_obj ob @ le_bytes 2 (unat ty) @ post'"
    using Cons.prems(3) nt(1) by simp
  let ?n = "nat (int (length (concat (map enc_obj (ob # obs)))))"
  have n: "length (enc_obj ob) \<le> ?n" by simp
  show ?case
  proof (cases ob)
    case (OBJ_PROC p)
    with Cons.prems(2) obtain o' where o': "o' \<in> set obs" by auto
    moreover have "0 < length (enc_obj o')" using Cons.prems(1) o' by (intro enc_obj_nonempty) simp
    ultimately have ne: "0 < length (concat (map enc_obj obs))" by auto
    have "deser_objs malloc_ok m start (offset_len + 8) (int (length (concat (map enc_obj obs)))) (idx + 1) b' = NoRet" for b'
      using Cons.prems OBJ_PROC by (intro Cons.IH [of "pre @ enc_obj ob"]) (auto simp: nat_add_distrib)
    with Cons.prems OBJ_PROC ne show ?thesis
      by (subst deser_objs_proc_step [of m pre p "le_bytes 2 (unat ty) @ post'"]) (use m in \<open>simp_all add: Let_def\<close>)
  next
    case (OBJ_CON c)
    have "rd16 m (start + nat offset_len) = Ok SNOOPER_OBJ_CON"
      using rd_enc_tlv(1) [of pre] Cons.prems(1,4) m OBJ_CON by (simp del: le_bytes.simps)
    moreover have "deserialize_tlv_container malloc_ok m (start + nat offset_len) ?n x = NoRet" for x
      using deserialize_container_stuck [of m pre c ty post'] m n OBJ_CON nt Cons.prems(1,4,7) by simp
    ultimately show ?thesis using Cons.prems(6)
      by (subst deser_objs.simps) (simp add: deserialize_tlv_def snooper_obj_defs word_le_nat_alt)
  next
    case (OBJ_GAUSSDB g)
    have "rd16 m (start + nat offset_len) = Ok SNOOPER_OBJ_GAUSSDB"
      using rd_enc_tlv(1) [of pre] Cons.prems(1,4) m OBJ_GAUSSDB by (simp del: le_bytes.simps)
    moreover have "deserialize_tlv_gaussdb malloc_ok m (start + nat offset_len) ?n x = NoRet" for x
      using deserialize_gaussdb_stuck [of m pre g ty post'] m n OBJ_GAUSSDB nt Cons.prems(1,4,7) by simp
    ultimately show ?thesis using Cons.prems(6)
      by (subst deser_objs.simps) (simp add: deserialize_tlv_def snooper_obj_defs word_le_nat_alt)
  qed (use Cons.prems in simp)
qed simp

text \<open>The receiver never returns from a message that carries a container or GaussDB object.
  \<open>deserialize_tlv_container\<close> and \<open>deserialize_tlv_gaussdb\<close> get the number of bytes left in the
  message, the unit's own header included, as the size of the value; after the last string the loop
  condition still holds, the next two bytes are no sub-type, and \<open>default:\<close> leaves \<open>offset\<close> as it is.
  This is for a buffer that holds no earlier message, as on the first receive.\<close>

theorem ipc_string_objects_hang:
  assumes "body_ok b" "\<exists>ob \<in> set (live_objs b). \<not> is_proc ob" "length (enc_body b) < GOPHER_IPC_MSG_LEN"
    and "malloc_ok (IPC_MSG_HDR + length (enc_body b))" "msgsnd_ok (length (enc_body b) + 4)"
    and "0 \<le> msqid" "PROBE_BASEINFO \<le> t" "t < PROBE_TYPE_MAX"
    and "\<forall>x \<in> set q. fst x \<noteq> t" "\<forall>n. malloc_ok' n"
  shows "\<exists>q1. send_ipc_msg malloc_ok msgsnd_ok msqid t b q = Ok (0, q1)
    \<and> recv_ipc_msg malloc_ok' msqid t b0 q1 (replicate RCV_BUF_SIZE 0) = NoRet"
proof -
  let ?m0 = "replicate RCV_BUF_SIZE 0 :: byte list" and ?n = "length (msg_text b)"
  let ?enc = "concat (map enc_obj (live_objs b))"
  have len: "length (enc_body b) \<le> GOPHER_IPC_MSG_LEN" "?n < 4100"
    using assms(3) by (simp_all add: msg_text_def GOPHER_IPC_MSG_LEN_def del: le_bytes.simps)
  obtain ob where ob: "ob \<in> set (live_objs b)" "obj_ok ob" using assms(1,2) by (auto simp: body_ok_def)
  then have ne: "?enc \<noteq> []" using enc_obj_nonempty by auto
  have t0: "0 < t" using assms(7) by (simp add: PROBE_BASEINFO_def)
  have rest: "drop ?n ?m0 = [0, 0] @ replicate (RCV_BUF_SIZE - ?n - 2) 0"
  proof -
    have "RCV_BUF_SIZE - ?n = Suc (Suc (RCV_BUF_SIZE - ?n - 2))" using len(2) by simp
    then have "replicate (RCV_BUF_SIZE - ?n) (0 :: byte) = [0, 0] @ replicate (RCV_BUF_SIZE - ?n - 2) 0"
      by (metis append_Cons append_Nil replicate_Suc)
    then show ?thesis by (simp only: drop_replicate)
  qed
  obtain pre where pre: "msg_text b @ drop ?n ?m0 = pre @ ?enc @ drop ?n ?m0" "length pre = 3184"
    using assms(1) by (rule msg_text_split)
  have "deser_objs malloc_ok' (msg_text b @ drop ?n ?m0) 3184 0 (int (length ?enc)) 0 (fixed_body b) = NoRet"
    using assms(1,2,10) live_objs_length [of b] pre rest
    by (intro deser_objs_stuck [of _ _ pre "replicate (RCV_BUF_SIZE - ?n - 2) 0"]) (auto simp: body_ok_def)
  then have "deserialize_ipc_msg malloc_ok' (msg_text b @ drop ?n ?m0) MSG_OFF (int (length (enc_body b))) zero_body = NoRet"
    using deserialize_ipc_msg_text [OF assms(1) refl, of malloc_ok' "drop ?n ?m0"] ne by (simp add: deser_next_def)
  moreover obtain r where "r = drop ?n ?m0"
    "recv_ipc_msg malloc_ok' msqid t b0 (q @ [(t, msg_text b)]) ?m0
      = bnd (deserialize_ipc_msg malloc_ok' (msg_text b @ r) MSG_OFF (int (length (enc_body b))) zero_body) (\<lambda>(n, b').
          if n < 0 then Ok (-1, destroy_ipc_body b', filter (\<lambda>x. fst x \<noteq> t) q, msg_text b @ r)
          else Ok (0, b', filter (\<lambda>x. fst x \<noteq> t) q, msg_text b @ r))"
    by (rule recv_ipc_msg_last [of b t msqid ?m0 q malloc_ok' b0])
       (use assms len t0 in \<open>auto intro: that\<close>)
  ultimately show ?thesis using send_ipc_msg_text [of b malloc_ok msgsnd_ok msqid t q] assms by simp
qed

theorem ipc_string_objects_hang_witness:
  "\<exists>q1. send_ipc_msg (\<lambda>_. True) (\<lambda>n. n \<le> 8192) 0 4 sample_body [] = Ok (0, q1)
    \<and> recv_ipc_msg (\<lambda>_. True) 0 4 zero_body q1 (replicate RCV_BUF_SIZE 0) = NoRet"
  using ipc_string_objects_hang [of sample_body "\<lambda>_. True" "\<lambda>n. n \<le> 8192" 0 4 "[]" "\<lambda>_. True" zero_body]
  by (simp add: sample_body_ok sample_body_length sample_live_objs PROBE_BASEINFO_def PROBE_TYPE_MAX_def GOPHER_IPC_MSG_LEN_def)
     (simp add: sample_body_def)

end
