(* ===== verification/Imdb.thy ===== *)
theory Imdb
  imports Uthash C_Strings
begin

text \<open>
  The in-memory metric database, \<open>src/lib/imdb/imdb.c\<close>: metrics, records with a composite key,
  tables of records, and the database manager that parses the \<open>name|value|...\<close> lines the probes
  send. A \<open>char[n]\<close> member is the string it holds, at most \<open>n - 1\<close> characters, none of them NUL.
  uthash is not part of the repository: its operations are an argument of the definitions that use a hash table
  (\<open>'h\<close> is the table), and \<open>uthash_ok\<close> states the documented behaviour the code relies on.
  \<open>malloc_ok\<close> says which allocations succeed.
\<close>

section \<open>Library functions\<close>

datatype asite = AMetric nat | ARecord | AMetrics | AKey | ABuffer | ATable | ATableRecords
  | AMgr | AMgrTables | AMgrTgids | ATgid

text \<open>
  \<open>snprintf(dst, n, s)\<close> takes the data as the format:
  \<open>%%\<close> prints a percent sign and any other conversion has no argument.
\<close>

fun format_text :: "string \<Rightarrow> string outc" where
  "format_text [] = Ok []"
| "format_text (c # s) =
     (if c \<noteq> CHR ''%'' then bnd (format_text s) (\<lambda>t. Ok (c # t))
      else case s of d # s' \<Rightarrow> if d = CHR ''%'' then bnd (format_text s') (\<lambda>t. Ok (CHR ''%'' # t)) else UB
                   | [] \<Rightarrow> UB)"

definition snprintf_fmt :: "nat \<Rightarrow> string \<Rightarrow> string outc" where
  "snprintf_fmt n s = bnd (format_text s) (\<lambda>t. Ok (take (n - 1) t))"

text \<open>The tokens that repeated \<open>strsep(&buffer, "|")\<close> returns: empty ones included, at least one.\<close>

fun strsep_all :: "string \<Rightarrow> string list" where
  "strsep_all [] = [[]]"
| "strsep_all (c # s) = (if c = CHR ''|'' then [] # strsep_all s
     else (case strsep_all s of t # ts \<Rightarrow> (c # t) # ts | [] \<Rightarrow> [[c]]))"

section \<open>Metrics\<close>

definition MAX_IMDB_METRIC_DESC_LEN :: nat where "MAX_IMDB_METRIC_DESC_LEN = 1024"
definition MAX_IMDB_METRIC_TYPE_LEN :: nat where "MAX_IMDB_METRIC_TYPE_LEN = 32"
definition MAX_IMDB_METRIC_NAME_LEN :: nat where "MAX_IMDB_METRIC_NAME_LEN = 32"
definition MAX_IMDB_METRIC_VAL_LEN :: nat where "MAX_IMDB_METRIC_VAL_LEN = 128"
definition MAX_IMDB_TABLE_NAME_LEN :: nat where "MAX_IMDB_TABLE_NAME_LEN = 32"

lemmas imdb_len_defs = MAX_IMDB_METRIC_DESC_LEN_def MAX_IMDB_METRIC_TYPE_LEN_def
  MAX_IMDB_METRIC_NAME_LEN_def MAX_IMDB_METRIC_VAL_LEN_def MAX_IMDB_TABLE_NAME_LEN_def

definition METRIC_TYPE_KEY :: string where "METRIC_TYPE_KEY = ''key''"
definition METRIC_TYPE_LABEL :: string where "METRIC_TYPE_LABEL = ''label''"
definition INVALID_METRIC_VALUE :: string where "INVALID_METRIC_VALUE = ''(null)''"

record IMDB_Metric =
  mdescription :: string
  mtype :: string
  mname :: string
  mval :: string

text \<open>\<open>snprintf\<close> fails only on text of more than \<open>INT_MAX\<close> characters, so \<open>ret < 0\<close> does not occur.\<close>

definition IMDB_MetricCreate :: "bool \<Rightarrow> string \<Rightarrow> string \<Rightarrow> string \<Rightarrow> IMDB_Metric option outc" where
  "IMDB_MetricCreate alloc name desc type =
     (if \<not> alloc then Ok None
      else bnd (snprintf_fmt MAX_IMDB_METRIC_NAME_LEN name) (\<lambda>n.
           bnd (snprintf_fmt MAX_IMDB_METRIC_DESC_LEN desc) (\<lambda>d.
           bnd (snprintf_fmt MAX_IMDB_METRIC_TYPE_LEN type) (\<lambda>t.
           Ok (Some \<lparr>mdescription = d, mtype = t, mname = n, mval = []\<rparr>)))))"

definition IMDB_MetricSetValue :: "IMDB_Metric \<Rightarrow> string \<Rightarrow> (IMDB_Metric \<times> int) outc" where
  "IMDB_MetricSetValue m val =
     bnd (snprintf_fmt MAX_IMDB_METRIC_VAL_LEN val) (\<lambda>v. Ok (m\<lparr>mval := v\<rparr>, 0))"

section \<open>Records\<close>

text \<open>
  \<open>metrics\<close> is the used part of the array, so \<open>metricsNum\<close> is its length; \<open>rkey\<close> is the key block of
  \<open>keySize\<close> bytes.
\<close>

record IMDB_Record =
  keySize :: u32
  rkey :: string
  updateTime :: int
  metricsCapacity :: u32
  metrics :: "IMDB_Metric list"

definition metricsNum :: "IMDB_Record \<Rightarrow> nat" where
  "metricsNum r = length (metrics r)"

definition IMDB_RecordCreate :: "(asite \<Rightarrow> bool) \<Rightarrow> u32 \<Rightarrow> IMDB_Record option" where
  "IMDB_RecordCreate malloc_ok capacity =
     (if capacity = 0 then None
      else if \<not> malloc_ok ARecord then None
      else if \<not> malloc_ok AMetrics then None
      else Some \<lparr>keySize = 0, rkey = [], updateTime = 0, metricsCapacity = capacity, metrics = []\<rparr>)"

definition IMDB_RecordCreateWithKey :: "(asite \<Rightarrow> bool) \<Rightarrow> u32 \<Rightarrow> u32 \<Rightarrow> IMDB_Record option" where
  "IMDB_RecordCreateWithKey malloc_ok capacity ksz =
     (if ksz = 0 then None
      else case IMDB_RecordCreate malloc_ok capacity of None \<Rightarrow> None
        | Some r \<Rightarrow> if \<not> malloc_ok AKey then None
                    else Some (r\<lparr>rkey := replicate (unat ksz) (CHR 0x00), keySize := ksz\<rparr>))"

definition IMDB_RecordAddMetric :: "IMDB_Record \<Rightarrow> IMDB_Metric \<Rightarrow> IMDB_Record \<times> int" where
  "IMDB_RecordAddMetric r m =
     (if (of_nat (metricsNum r) :: u32) = metricsCapacity r then (r, -1)
      else (r\<lparr>metrics := metrics r @ [m]\<rparr>, 0))"

text \<open>The text and its terminator at \<open>key + offset\<close>; the bounds test is in 32-bit arithmetic.\<close>

definition IMDB_RecordAppendKey :: "IMDB_Record \<Rightarrow> u32 \<Rightarrow> string \<Rightarrow> (IMDB_Record \<times> int) outc" where
  "IMDB_RecordAppendKey r keyIdx val =
     (let offset = keyIdx * of_nat MAX_IMDB_METRIC_VAL_LEN in
      if offset + of_nat MAX_IMDB_METRIC_VAL_LEN > keySize r then Ok (r, -1)
      else bnd (snprintf_fmt MAX_IMDB_METRIC_VAL_LEN val) (\<lambda>t.
        let bs = t @ [CHR 0x00]; a = unat offset in
        if a + length bs \<le> length (rkey r)
        then Ok (r\<lparr>rkey := take a (rkey r) @ bs @ drop (a + length bs) (rkey r)\<rparr>, 0)
        else UB))"

definition IMDB_RecordUpdateTime :: "IMDB_Record \<Rightarrow> int \<Rightarrow> IMDB_Record" where
  "IMDB_RecordUpdateTime r seconds = r\<lparr>updateTime := seconds\<rparr>"

section \<open>Tables\<close>

record 'h IMDB_Table =
  tname :: string
  entity_name :: string
  meta :: "IMDB_Record option"
  weighting :: byte
  recordsCapability :: u32
  recordKeySize :: u32
  records :: 'h

type_synonym 'h rec_ops = "(string, IMDB_Record, 'h) uthash"

definition HASH_findRecord :: "'h rec_ops \<Rightarrow> 'h \<Rightarrow> IMDB_Record \<Rightarrow> IMDB_Record option" where
  "HASH_findRecord ops h r = ut_find ops (rkey r) h"

definition HASH_addRecord :: "'h rec_ops \<Rightarrow> 'h \<Rightarrow> IMDB_Record \<Rightarrow> 'h" where
  "HASH_addRecord ops h r = ut_add ops (rkey r) r h"

definition HASH_deleteRecord :: "'h rec_ops \<Rightarrow> 'h \<Rightarrow> IMDB_Record \<Rightarrow> 'h" where
  "HASH_deleteRecord ops h r = ut_del ops (rkey r) h"

definition HASH_recordCount :: "'h rec_ops \<Rightarrow> 'h \<Rightarrow> u32" where
  "HASH_recordCount ops h = of_nat (ut_count ops h)"

definition HASH_deleteAndFreeRecords :: "'h rec_ops \<Rightarrow> 'h \<Rightarrow> 'h" where
  "HASH_deleteAndFreeRecords ops h = foldl (\<lambda>h x. HASH_deleteRecord ops h (snd x)) h (ut_iter ops h)"

definition IMDB_TableCreate :: "'h rec_ops \<Rightarrow> (asite \<Rightarrow> bool) \<Rightarrow> string \<Rightarrow> u32 \<Rightarrow> 'h IMDB_Table option" where
  "IMDB_TableCreate ops malloc_ok name capacity =
     (if \<not> malloc_ok ATable then None
      else if \<not> malloc_ok ATableRecords then None
      else Some \<lparr>tname = snprintf_s MAX_IMDB_TABLE_NAME_LEN name, entity_name = [], meta = None,
             weighting = 0, recordsCapability = capacity, recordKeySize = 0, records = ut_empty ops\<rparr>)"

definition IMDB_TableSetEntityName :: "'h IMDB_Table \<Rightarrow> string \<Rightarrow> 'h IMDB_Table" where
  "IMDB_TableSetEntityName t n = t\<lparr>entity_name := snprintf_s MAX_IMDB_TABLE_NAME_LEN n\<rparr>"

definition IMDB_TableSetMeta :: "'h IMDB_Table \<Rightarrow> IMDB_Record option \<Rightarrow> 'h IMDB_Table" where
  "IMDB_TableSetMeta t m = t\<lparr>meta := m\<rparr>"

definition IMDB_TableSetRecordKeySize :: "'h IMDB_Table \<Rightarrow> u32 \<Rightarrow> 'h IMDB_Table" where
  "IMDB_TableSetRecordKeySize t keyNum = t\<lparr>recordKeySize := keyNum * of_nat MAX_IMDB_METRIC_VAL_LEN\<rparr>"

definition IMDB_TableAddRecord :: "'h rec_ops \<Rightarrow> int \<Rightarrow> 'h IMDB_Table \<Rightarrow> IMDB_Record \<Rightarrow> 'h IMDB_Table \<times> int" where
  "IMDB_TableAddRecord ops now t r =
     (let h = (case HASH_findRecord ops (records t) r of None \<Rightarrow> records t
               | Some old \<Rightarrow> HASH_deleteRecord ops (records t) old);
          t1 = t\<lparr>records := h\<rparr>
      in if HASH_recordCount ops h \<ge> recordsCapability t then (t1, -1)
         else (t1\<lparr>records := HASH_addRecord ops h (IMDB_RecordUpdateTime r now)\<rparr>, 0))"

section \<open>The database manager\<close>

record ('h, 'g) IMDB_DataBaseMgr =
  tblsCapability :: u32
  tables :: "'h IMDB_Table list"
  systemUuid :: string
  hostIP :: string
  tgids :: 'g

definition tablesNum :: "('h, 'g) IMDB_DataBaseMgr \<Rightarrow> nat" where
  "tablesNum mgr = length (tables mgr)"

text \<open>
  \<open>uuid\<close> is the result of \<open>get_system_uuid\<close>, \<open>ip\<close> that of \<open>get_system_ip\<close>, \<open>lock_ok\<close> that of
  \<open>pthread_rwlock_init\<close>.
\<close>

definition IMDB_DataBaseMgrCreate :: "'g \<Rightarrow> (asite \<Rightarrow> bool) \<Rightarrow> string option \<Rightarrow> string option \<Rightarrow> bool \<Rightarrow> u32
     \<Rightarrow> ('h, 'g) IMDB_DataBaseMgr option" where
  "IMDB_DataBaseMgrCreate no_tgids malloc_ok uuid ip lock_ok capacity =
     (if \<not> malloc_ok AMgr then None
      else case uuid of None \<Rightarrow> None
      | Some u \<Rightarrow>
          if \<not> malloc_ok AMgrTables \<or> \<not> malloc_ok AMgrTgids \<or> \<not> lock_ok then None
          else Some \<lparr>tblsCapability = capacity, tables = [], systemUuid = u,
                 hostIP = (case ip of None \<Rightarrow> [] | Some a \<Rightarrow> a), tgids = no_tgids\<rparr>)"

definition IMDB_DataBaseMgrSetRecordTimeout :: "u32 \<Rightarrow> u32 \<Rightarrow> u32" where
  "IMDB_DataBaseMgrSetRecordTimeout g_recordTimeout timeout = (if timeout > 0 then timeout else g_recordTimeout)"

definition IMDB_DataBaseMgrAddTable :: "('h, 'g) IMDB_DataBaseMgr \<Rightarrow> 'h IMDB_Table
     \<Rightarrow> ('h, 'g) IMDB_DataBaseMgr \<times> int" where
  "IMDB_DataBaseMgrAddTable mgr t =
     (if (of_nat (tablesNum mgr) :: u32) = tblsCapability mgr then (mgr, -1)
      else if list_ex (\<lambda>t'. tname t' = tname t) (tables mgr) then (mgr, -1)
      else (mgr\<lparr>tables := tables mgr @ [t]\<rparr>, 0))"

text \<open>The index of the first table of that name.\<close>

fun find_table :: "nat \<Rightarrow> 'h IMDB_Table list \<Rightarrow> string \<Rightarrow> nat option" where
  "find_table i [] name = None"
| "find_table i (t # ts) name = (if tname t = name then Some i else find_table (i + 1) ts name)"

definition IMDB_DataBaseMgrFindTable :: "('h, 'g) IMDB_DataBaseMgr \<Rightarrow> string \<Rightarrow> nat option" where
  "IMDB_DataBaseMgrFindTable mgr name = find_table 0 (tables mgr) name"

section \<open>Parsing a line\<close>

text \<open>
  What both parsers do with one value: create the metric after the table's meta record, set its value, add it, and
  append it to the key when its type is \<open>key\<close>. \<open>Inl\<close> is \<open>goto ERR\<close>.
\<close>

definition fill_metric :: "(asite \<Rightarrow> bool) \<Rightarrow> IMDB_Record \<Rightarrow> bool \<Rightarrow> IMDB_Record \<Rightarrow> u32 \<Rightarrow> nat \<Rightarrow> string
     \<Rightarrow> (IMDB_Record + IMDB_Record \<times> u32) outc" where
  "fill_metric malloc_ok mt needKey r keyIdx index token =
     (let mm = metrics mt ! index in
      bnd (IMDB_MetricCreate (malloc_ok (AMetric index)) (mname mm) (mdescription mm) (mtype mm)) (\<lambda>mo.
        case mo of None \<Rightarrow> Ok (Inl r)
        | Some m \<Rightarrow>
            bnd (IMDB_MetricSetValue m token) (\<lambda>(m, ret).
              if ret \<noteq> 0 then Ok (Inl r)
              else (case IMDB_RecordAddMetric r m of (r, ret) \<Rightarrow>
                if ret \<noteq> 0 then Ok (Inl r)
                else if needKey \<and> mtype mm = METRIC_TYPE_KEY
                then bnd (IMDB_RecordAppendKey r keyIdx token) (\<lambda>(r, ret).
                  if ret < 0 then Ok (Inl r) else Ok (Inr (r, keyIdx + 1)))
                else Ok (Inr (r, keyIdx))))))"

text \<open>\<open>IMDB_DataBaseMgrParseContent\<close>: the loop over the tokens, from the first metric on.\<close>

fun parse_tokens :: "(asite \<Rightarrow> bool) \<Rightarrow> IMDB_Record \<Rightarrow> bool \<Rightarrow> IMDB_Record \<Rightarrow> u32 \<Rightarrow> nat \<Rightarrow> string list
     \<Rightarrow> (IMDB_Record \<times> int) outc" where
  "parse_tokens malloc_ok mt needKey r keyIdx index [] = Ok (r, 0)"
| "parse_tokens malloc_ok mt needKey r keyIdx index (token # ts) =
     (if token = ''\<newline>'' then Ok (r, 0)
      else if token = [] \<and> index = 0 then parse_tokens malloc_ok mt needKey r keyIdx index ts
      else if index \<ge> metricsNum mt then Ok (r, 0)
      else bnd (fill_metric malloc_ok mt needKey r keyIdx index
                  (if token = [] then INVALID_METRIC_VALUE else token)) (\<lambda>x.
             case x of Inl r \<Rightarrow> Ok (r, -1)
             | Inr (r, keyIdx) \<Rightarrow> parse_tokens malloc_ok mt needKey r keyIdx (index + 1) ts))"

definition IMDB_DataBaseMgrParseContent :: "(asite \<Rightarrow> bool) \<Rightarrow> 'h IMDB_Table \<Rightarrow> IMDB_Record \<Rightarrow> string \<Rightarrow> bool
     \<Rightarrow> (IMDB_Record \<times> int) outc" where
  "IMDB_DataBaseMgrParseContent malloc_ok t r content needKey =
     (if \<not> malloc_ok ABuffer then Ok (r, -1)
      else case meta t of None \<Rightarrow> UB
        | Some mt \<Rightarrow> parse_tokens malloc_ok mt needKey r 0 0 (strsep_all content))"

text \<open>The new record stays in the table and is returned.\<close>

definition IMDB_DataBaseMgrCreateRec :: "'h rec_ops \<Rightarrow> (asite \<Rightarrow> bool) \<Rightarrow> int \<Rightarrow> 'h IMDB_Table \<Rightarrow> string
     \<Rightarrow> ('h IMDB_Table \<times> IMDB_Record option) outc" where
  "IMDB_DataBaseMgrCreateRec ops malloc_ok now t content =
     (case meta t of None \<Rightarrow> UB
      | Some mt \<Rightarrow>
        (case IMDB_RecordCreateWithKey malloc_ok (metricsCapacity mt) (recordKeySize t) of None \<Rightarrow> Ok (t, None)
         | Some r \<Rightarrow>
             bnd (IMDB_DataBaseMgrParseContent malloc_ok t r content True) (\<lambda>(r, ret).
               if ret \<noteq> 0 then Ok (t, None)
               else (case IMDB_TableAddRecord ops now t r of (t, ret) \<Rightarrow>
                 if ret \<noteq> 0 then Ok (t, None) else Ok (t, Some (IMDB_RecordUpdateTime r now))))))"

text \<open>
  \<open>IMDB_DataBaseMgrAddRecord\<close>: \<open>cur\<close> is the table found by the first non-empty token (its index in the
  manager) with the record built so far; before that \<open>index\<close> is -1 in the code.
\<close>

fun add_tokens :: "(asite \<Rightarrow> bool) \<Rightarrow> ('h, 'g) IMDB_DataBaseMgr \<Rightarrow> (nat \<times> IMDB_Record \<times> u32 \<times> nat) option \<Rightarrow> string list
     \<Rightarrow> (nat \<times> IMDB_Record) option option outc" where
  "add_tokens malloc_ok mgr cur [] =
     Ok (Some (case cur of None \<Rightarrow> None | Some (ti, r, _, _) \<Rightarrow> Some (ti, r)))"
| "add_tokens malloc_ok mgr None (token # ts) =
     (if token = [] \<or> token = ''\<newline>'' then add_tokens malloc_ok mgr None ts
      else case IMDB_DataBaseMgrFindTable mgr token of None \<Rightarrow> Ok None
        | Some ti \<Rightarrow>
            let t = tables mgr ! ti in
            if recordKeySize t = 0 then Ok None
            else case meta t of None \<Rightarrow> UB
              | Some mt \<Rightarrow>
                (case IMDB_RecordCreateWithKey malloc_ok (metricsCapacity mt) (recordKeySize t) of None \<Rightarrow> Ok None
                 | Some r \<Rightarrow> add_tokens malloc_ok mgr (Some (ti, r, 0, 0)) ts))"
| "add_tokens malloc_ok mgr (Some (ti, r, keyIdx, index)) (token # ts) =
     (if token = ''\<newline>'' then add_tokens malloc_ok mgr (Some (ti, r, keyIdx, index)) ts
      else case meta (tables mgr ! ti) of None \<Rightarrow> UB
        | Some mt \<Rightarrow>
            if index \<ge> metricsNum mt then Ok (Some (Some (ti, r)))
            else bnd (fill_metric malloc_ok mt True r keyIdx index
                        (if token = [] then INVALID_METRIC_VALUE else token)) (\<lambda>x.
                   case x of Inl r \<Rightarrow> Ok None
                   | Inr (r, keyIdx) \<Rightarrow> add_tokens malloc_ok mgr (Some (ti, r, keyIdx, index + 1)) ts))"

text \<open>
  After the loop the code calls \<open>IMDB_TableAddRecord(table, record)\<close>, also when no token named a
  table and both pointers are NULL.
\<close>

definition IMDB_DataBaseMgrAddRecord :: "'h rec_ops \<Rightarrow> (asite \<Rightarrow> bool) \<Rightarrow> int \<Rightarrow> ('h, 'g) IMDB_DataBaseMgr \<Rightarrow> string
     \<Rightarrow> (('h, 'g) IMDB_DataBaseMgr \<times> int) outc" where
  "IMDB_DataBaseMgrAddRecord ops malloc_ok now mgr recordStr =
     (if \<not> malloc_ok ABuffer then Ok (mgr, -1)
      else bnd (add_tokens malloc_ok mgr None (strsep_all recordStr)) (\<lambda>x.
        case x of None \<Rightarrow> Ok (mgr, -1)
        | Some None \<Rightarrow> UB
        | Some (Some (ti, r)) \<Rightarrow>
            (case IMDB_TableAddRecord ops now (tables mgr ! ti) r of (t, ret) \<Rightarrow>
              Ok (mgr\<lparr>tables := (tables mgr)[ti := t]\<rparr>, if ret \<noteq> 0 then -1 else 0))))"

section \<open>Invariants and the meaning of a line\<close>

text \<open>A table holds each key once, under the record's own key, and never more records than its capacity.\<close>

definition recs :: "'h rec_ops \<Rightarrow> 'h IMDB_Table \<Rightarrow> (string \<times> IMDB_Record) list" where
  "recs ops t = ut_iter ops (records t)"

definition table_ok :: "'h rec_ops \<Rightarrow> 'h IMDB_Table \<Rightarrow> bool" where
  "table_ok ops t \<longleftrightarrow> distinct (map fst (recs ops t)) \<and> list_all (\<lambda>(k, r). k = rkey r) (recs ops t)
     \<and> length (recs ops t) \<le> unat (recordsCapability t)"

text \<open>Table names are distinct and every table is well formed.\<close>

definition mgr_ok :: "'h rec_ops \<Rightarrow> ('h, 'g) IMDB_DataBaseMgr \<Rightarrow> bool" where
  "mgr_ok ops mgr \<longleftrightarrow> distinct (map tname (tables mgr)) \<and> list_all (table_ok ops) (tables mgr)
     \<and> length (tables mgr) \<le> unat (tblsCapability mgr)"

text \<open>A plain text: no format directive and no separator.\<close>

definition plain :: "string \<Rightarrow> bool" where
  "plain s \<longleftrightarrow> CHR ''%'' \<notin> set s"

definition token_ok :: "string \<Rightarrow> bool" where
  "token_ok s \<longleftrightarrow> plain s \<and> CHR ''|'' \<notin> set s \<and> s \<noteq> ''\<newline>''"

text \<open>The line of a probe: every field after a bar, then the closing bar and newline.\<close>

definition bar_line :: "string list \<Rightarrow> string" where
  "bar_line fs = concat (map (\<lambda>f. CHR ''|'' # f) fs) @ ''|\<newline>''"

text \<open>A meta record whose texts survive being used as formats again.\<close>

definition metric_ok :: "IMDB_Metric \<Rightarrow> bool" where
  "metric_ok m \<longleftrightarrow> plain (mname m) \<and> plain (mdescription m) \<and> plain (mtype m) \<and> mval m = []
     \<and> length (mname m) < MAX_IMDB_METRIC_NAME_LEN \<and> length (mdescription m) < MAX_IMDB_METRIC_DESC_LEN
     \<and> length (mtype m) < MAX_IMDB_METRIC_TYPE_LEN"

text \<open>What a line means: the value of a field, the metrics of the record and its key block.\<close>

definition field_value :: "string \<Rightarrow> string" where
  "field_value v = (if v = [] then INVALID_METRIC_VALUE else take 127 v)"

definition line_metrics :: "IMDB_Metric list \<Rightarrow> string list \<Rightarrow> IMDB_Metric list" where
  "line_metrics ms vs = map (\<lambda>(m, v). m\<lparr>mval := field_value v\<rparr>) (zip ms vs)"

definition key_values :: "IMDB_Metric list \<Rightarrow> string list \<Rightarrow> string list" where
  "key_values ms vs = map (\<lambda>(m, v). field_value v) (filter (\<lambda>(m, v). mtype m = METRIC_TYPE_KEY) (zip ms vs))"

definition pad_to :: "nat \<Rightarrow> string \<Rightarrow> string" where
  "pad_to n s = s @ replicate (n - length s) (CHR 0x00)"

definition key_block :: "nat \<Rightarrow> string list \<Rightarrow> string" where
  "key_block ksz ks = pad_to ksz (concat (map (pad_to 128) ks))"

definition line_rec :: "IMDB_Record \<Rightarrow> IMDB_Metric list \<Rightarrow> string list \<Rightarrow> IMDB_Record" where
  "line_rec r0 ms vs = r0\<lparr>metrics := line_metrics ms vs, rkey := key_block (unat (keySize r0)) (key_values ms vs)\<rparr>"

definition num_keys :: "IMDB_Metric list \<Rightarrow> nat" where
  "num_keys ms = length (filter (\<lambda>m. mtype m = METRIC_TYPE_KEY) ms)"

text \<open>A meta record that fits its table: enough room for the metrics and the key.\<close>

definition meta_ok :: "IMDB_Record \<Rightarrow> u32 \<Rightarrow> bool" where
  "meta_ok mt ksz \<longleftrightarrow> list_all metric_ok (metrics mt) \<and> length (metrics mt) \<le> unat (metricsCapacity mt)
     \<and> metricsCapacity mt \<noteq> 0 \<and> ksz \<noteq> 0 \<and> 128 * num_keys (metrics mt) \<le> unat ksz"

text \<open>The record a line gives in a table.\<close>

definition line_record :: "'h IMDB_Table \<Rightarrow> IMDB_Record \<Rightarrow> string list \<Rightarrow> IMDB_Record" where
  "line_record t mt vs = \<lparr>keySize = recordKeySize t, rkey = key_block (unat (recordKeySize t)) (key_values (metrics mt) vs),
     updateTime = 0, metricsCapacity = metricsCapacity mt, metrics = line_metrics (metrics mt) vs\<rparr>"

text \<open>A table with a key metric and a gauge.\<close>

definition demo_meta :: IMDB_Record where
  "demo_meta = \<lparr>keySize = 0, rkey = [], updateTime = 0, metricsCapacity = 2,
     metrics = [\<lparr>mdescription = ''process id'', mtype = ''key'', mname = ''tgid'', mval = []\<rparr>,
                \<lparr>mdescription = ''bytes'', mtype = ''gauge'', mname = ''rx'', mval = []\<rparr>]\<rparr>"

definition demo_table :: "(string \<times> IMDB_Record) list IMDB_Table" where
  "demo_table = \<lparr>tname = ''tcp'', entity_name = ''tcp'', meta = Some demo_meta, weighting = 0,
     recordsCapability = 1, recordKeySize = 128, records = []\<rparr>"

definition demo_mgr :: "'g \<Rightarrow> ((string \<times> IMDB_Record) list, 'g) IMDB_DataBaseMgr" where
  "demo_mgr g = \<lparr>tblsCapability = 4, tables = [demo_table], systemUuid = ''u'', hostIP = ''h'', tgids = g\<rparr>"

section \<open>Adding a record to a table\<close>

lemma map_of_table_key:
  "list_all (\<lambda>(k, r). k = rkey r) xs \<Longrightarrow> map_of xs k = Some r \<Longrightarrow> rkey r = k \<and> k \<in> fst ` set xs"
  by (auto dest!: map_of_SomeD simp: list_all_iff rev_image_eqI)

lemma filter_fst_absent: "k \<notin> fst ` set xs \<Longrightarrow> filter (\<lambda>x. fst x \<noteq> k) xs = xs"
  by (induction xs) auto

text \<open>The state after the old record of that key has been dropped.\<close>

lemma drop_old_record:
  assumes "uthash_ok ops" "table_ok ops t"
  shows "ut_iter ops (case HASH_findRecord ops (records t) r of None \<Rightarrow> records t
      | Some old \<Rightarrow> HASH_deleteRecord ops (records t) old) = filter (\<lambda>x. fst x \<noteq> rkey r) (recs ops t)"
proof -
  let ?h = "records t"
  have d: "distinct (map fst (ut_iter ops ?h))" and k: "list_all (\<lambda>(k, r). k = rkey r) (ut_iter ops ?h)"
    using assms(2) by (simp_all add: table_ok_def recs_def)
  have f: "HASH_findRecord ops ?h r = map_of (ut_iter ops ?h) (rkey r)"
    using ut_find_map_of [OF assms(1) d] by (simp add: HASH_findRecord_def)
  show ?thesis
  proof (cases "HASH_findRecord ops ?h r")
    case None
    then have "rkey r \<notin> fst ` set (ut_iter ops ?h)" using f by (simp add: map_of_eq_None_iff)
    with None show ?thesis by (simp add: recs_def filter_fst_absent)
  next
    case (Some old)
    then have "rkey old = rkey r" "rkey r \<in> fst ` set (ut_iter ops ?h)"
      using f map_of_table_key [OF k] by auto
    with Some show ?thesis using ut_iter_del [OF assms(1) d] by (simp add: HASH_deleteRecord_def recs_def)
  qed
qed

lemma kept_capacity: "table_ok ops t \<Longrightarrow> length (filter P (recs ops t)) \<le> unat (recordsCapability t)"
  by (rule order_trans [OF length_filter_le]) (simp add: table_ok_def)

lemma map_of_filter_fst: "k \<noteq> k' \<Longrightarrow> map_of (filter (\<lambda>x. fst x \<noteq> k') xs) k = map_of xs k"
  by (induction xs) auto

lemma table_add_record_result:
  assumes "uthash_ok ops" "table_ok ops t"
    and kept: "kept = filter (\<lambda>x. fst x \<noteq> rkey r) (recs ops t)"
  obtains h where "ut_iter ops h = (if length kept < unat (recordsCapability t)
         then kept @ [(rkey r, r\<lparr>updateTime := now\<rparr>)] else kept)"
    "IMDB_TableAddRecord ops now t r
       = (t\<lparr>records := h\<rparr>, if length kept < unat (recordsCapability t) then 0 else -1)"
proof -
  define h1 where "h1 = (case HASH_findRecord ops (records t) r of None \<Rightarrow> records t
      | Some old \<Rightarrow> HASH_deleteRecord ops (records t) old)"
  have it: "ut_iter ops h1 = kept" using drop_old_record [OF assms(1,2)] by (simp add: h1_def kept)
  have "length kept \<le> unat (recordsCapability t)"
    using kept_capacity [OF assms(2)] by (simp add: kept)
  then have "length kept < 2 ^ 32" using unat_u32_bound [of "recordsCapability t"] by simp
  then have "unat (of_nat (length kept) :: u32) = length kept" by (simp add: unat_of_nat)
  then have full: "HASH_recordCount ops h1 \<ge> recordsCapability t \<longleftrightarrow> \<not> length kept < unat (recordsCapability t)"
    by (simp add: HASH_recordCount_def ut_count_length [OF assms(1)] it word_le_nat_alt not_less)
  have "rkey r \<notin> fst ` set (ut_iter ops h1)" by (auto simp: it kept)
  then have add: "ut_iter ops (HASH_addRecord ops h1 (IMDB_RecordUpdateTime r now)) = kept @ [(rkey r, r\<lparr>updateTime := now\<rparr>)]"
    using ut_iter_add [OF assms(1)] by (simp add: HASH_addRecord_def IMDB_RecordUpdateTime_def it)
  have res: "IMDB_TableAddRecord ops now t r =
      (if length kept < unat (recordsCapability t)
       then (t\<lparr>records := HASH_addRecord ops h1 (IMDB_RecordUpdateTime r now)\<rparr>, 0) else (t\<lparr>records := h1\<rparr>, -1))"
    by (simp add: IMDB_TableAddRecord_def h1_def [symmetric] full)
  show ?thesis
  proof (cases "length kept < unat (recordsCapability t)")
    case True
    with res add show ?thesis by (intro that) auto
  next
    case False
    with res it show ?thesis by (intro that) auto
  qed
qed

lemma table_ok_add:
  assumes "uthash_ok ops" "table_ok ops t"
  shows "table_ok ops (fst (IMDB_TableAddRecord ops now t r))"
proof -
  let ?kept = "filter (\<lambda>x. fst x \<noteq> rkey r) (recs ops t)"
  obtain h where h: "ut_iter ops h = (if length ?kept < unat (recordsCapability t)
         then ?kept @ [(rkey r, r\<lparr>updateTime := now\<rparr>)] else ?kept)"
    "IMDB_TableAddRecord ops now t r = (t\<lparr>records := h\<rparr>, if length ?kept < unat (recordsCapability t) then 0 else -1)"
    using table_add_record_result [OF assms refl] by blast
  have "distinct (map fst ?kept)" "list_all (\<lambda>(k, r). k = rkey r) ?kept"
    using assms(2) by (auto simp: table_ok_def list_all_iff intro: distinct_map_filter)
  moreover have "length ?kept \<le> unat (recordsCapability t)"
    by (rule kept_capacity [OF assms(2)])
  ultimately show ?thesis using h by (auto simp: table_ok_def recs_def)
qed

text \<open>Adding a record replaces the record of the same key, keeps every other record in insertion
  order, stamps the new one with the current time and puts it last, and a lookup of its key then
  returns it; it fails, with the old record already gone, exactly when the other records fill the table.
  Keys stay unique and the capacity is never exceeded.\<close>

theorem imdb_table_add_record:
  assumes "uthash_ok ops" "table_ok ops t"
    and "kept = filter (\<lambda>x. fst x \<noteq> rkey r) (recs ops t)"
    and "IMDB_TableAddRecord ops now t r = (t', ret)"
  shows "table_ok ops t'
    \<and> ret = (if length kept < unat (recordsCapability t) then 0 else -1)
    \<and> recs ops t' = (if ret = 0 then kept @ [(rkey r, r\<lparr>updateTime := now\<rparr>)] else kept)
    \<and> HASH_findRecord ops (records t') r = (if ret = 0 then Some (r\<lparr>updateTime := now\<rparr>) else None)
    \<and> (\<forall>r'. rkey r' \<noteq> rkey r \<longrightarrow> HASH_findRecord ops (records t') r' = HASH_findRecord ops (records t) r')"
proof -
  obtain h where h: "ut_iter ops h = (if length kept < unat (recordsCapability t)
         then kept @ [(rkey r, r\<lparr>updateTime := now\<rparr>)] else kept)"
    "(t', ret) = (t\<lparr>records := h\<rparr>, if length kept < unat (recordsCapability t) then 0 else -1)"
    using table_add_record_result [OF assms(1-3)] assms(4) by metis
  have ok: "table_ok ops t'" using table_ok_add [OF assms(1,2), of now r] assms(4) by simp
  then have find': "HASH_findRecord ops (records t') r' = map_of (recs ops t') (rkey r')" for r'
    using ut_find_map_of [OF assms(1)] by (simp add: HASH_findRecord_def table_ok_def recs_def)
  have find: "HASH_findRecord ops (records t) r' = map_of (recs ops t) (rkey r')" for r'
    using assms(2) ut_find_map_of [OF assms(1)] by (simp add: HASH_findRecord_def table_ok_def recs_def)
  have other: "map_of kept k = map_of (recs ops t) k" if "k \<noteq> rkey r" for k
    using that by (simp add: assms(3) map_of_filter_fst)
  have "map_of kept (rkey r) = None" by (auto simp: assms(3) map_of_eq_None_iff)
  with h ok find find' other show ?thesis by (auto simp: recs_def map_add_def split: option.split)
qed

section \<open>Parsing lines\<close>

lemma format_text_plain: "plain s \<Longrightarrow> format_text s = Ok s"
  by (induction s) (auto simp: plain_def)

lemma snprintf_fmt_plain: "plain s \<Longrightarrow> snprintf_fmt n s = Ok (take (n - 1) s)"
  by (simp add: snprintf_fmt_def format_text_plain)

lemma strsep_all_nonempty: "strsep_all s \<noteq> []"
  by (induction s) (auto split: list.splits)

lemma strsep_all_append:
  "CHR ''|'' \<notin> set f \<Longrightarrow> strsep_all (f @ CHR ''|'' # s) = f # strsep_all s"
  by (induction f) auto

lemma strsep_all_fields:
  "\<forall>f \<in> set fs. CHR ''|'' \<notin> set f \<Longrightarrow> CHR ''|'' \<notin> set f0 \<Longrightarrow> strsep_all (f0 @ bar_line fs) = f0 # fs @ [''\<newline>'']"
proof (induction fs arbitrary: f0)
  case Nil
  then show ?case by (simp add: bar_line_def strsep_all_append)
next
  case (Cons f fs)
  have "bar_line (f # fs) = CHR ''|'' # f @ bar_line fs" by (simp add: bar_line_def)
  with Cons show ?case by (simp add: strsep_all_append)
qed

lemma strsep_bar_line:
  "\<forall>f \<in> set fs. token_ok f \<Longrightarrow> strsep_all (bar_line fs) = [] # fs @ [''\<newline>'']"
  using strsep_all_fields [of fs "[]"] by (auto simp: token_ok_def)

lemma metric_create_ok:
  "metric_ok m \<Longrightarrow> IMDB_MetricCreate True (mname m) (mdescription m) (mtype m) = Ok (Some m)"
  by (simp add: IMDB_MetricCreate_def snprintf_fmt_plain metric_ok_def imdb_len_defs)

lemma plain_value: "plain v \<Longrightarrow> plain (if v = [] then INVALID_METRIC_VALUE else v)"
  by (simp add: plain_def INVALID_METRIC_VALUE_def)

lemma take_value: "take 127 (if v = [] then INVALID_METRIC_VALUE else v) = field_value v"
  by (simp add: field_value_def INVALID_METRIC_VALUE_def)

lemma length_field_value: "length (field_value v) \<le> 127"
  by (simp add: field_value_def INVALID_METRIC_VALUE_def)

lemma length_key_concat: "\<forall>k \<in> set ks. length k \<le> 127 \<Longrightarrow> length (concat (map (pad_to 128) ks)) = 128 * length ks"
  by (induction ks) (auto simp: pad_to_def)

text \<open>Appending one key to a key block.\<close>

lemma append_key_block:
  assumes ks: "\<forall>k \<in> set ks. length k \<le> 127" and v: "plain v"
    and r: "rkey r = key_block (unat (keySize r)) ks" and sz: "128 * (length ks + 1) \<le> unat (keySize r)"
  shows "IMDB_RecordAppendKey r (of_nat (length ks)) v
       = Ok (r\<lparr>rkey := key_block (unat (keySize r)) (ks @ [take 127 v])\<rparr>, 0)"
proof -
  let ?n = "length ks" and ?N = "unat (keySize r)"
  have N: "?N < 2 ^ 32" using unat_u32_bound [of "keySize r"] by simp
  have off: "of_nat ?n * 128 = (of_nat (128 * ?n) :: u32)" by (simp add: mult.commute)
  have u1: "unat (of_nat ?n * 128 :: u32) = 128 * ?n" unfolding off using N sz by (subst unat_of_nat) simp
  have u2: "unat (of_nat ?n * 128 + 128 :: u32) = 128 * ?n + 128"
    using unat_add_of_nat_u32 [of "of_nat ?n * 128" 128] u1 N sz by (simp add: mod_less)
  have fits: "\<not> keySize r < of_nat ?n * 128 + 128" using u2 sz by (simp add: word_less_nat_alt)
  have blk: "rkey r = concat (map (pad_to 128) ks) @ replicate (?N - 128 * ?n) (CHR 0x00)"
    using r length_key_concat [OF ks] by (simp add: key_block_def pad_to_def)
  let ?t = "take 127 v"
  have len: "length (concat (map (pad_to 128) ks)) = 128 * ?n" by (rule length_key_concat [OF ks])
  have new: "take (128 * ?n) (rkey r) @ (?t @ [CHR 0x00]) @ drop (128 * ?n + length (?t @ [CHR 0x00])) (rkey r)
      = key_block ?N (ks @ [?t])"
  proof -
    have "replicate (?N - (128 * ?n + (length ?t + 1))) (CHR 0x00)
        = replicate (127 - length ?t) (CHR 0x00) @ replicate (?N - 128 * (?n + 1)) (CHR 0x00)"
      using sz by (simp add: replicate_add [symmetric])
    moreover have "128 - min (length v) 127 = Suc (127 - min (length v) 127)" by simp
    ultimately show ?thesis using len sz
      by (simp add: blk key_block_def pad_to_def add.commute)
  qed
  have "length (rkey r) = ?N" using blk len sz by simp
  then show ?thesis
    using new v fits u1 sz
    by (simp add: IMDB_RecordAppendKey_def snprintf_fmt_plain imdb_len_defs Let_def)
qed

text \<open>The record after the values \<open>vs\<close> of a line have been parsed into \<open>r0\<close>.\<close>

lemma zip_snoc: "length us < length ms \<Longrightarrow> zip ms (us @ [v]) = zip ms us @ [(ms ! length us, v)]"
proof (induction us arbitrary: ms)
  case Nil
  then show ?case by (cases ms) auto
next
  case (Cons u us)
  then show ?case by (cases ms) auto
qed

lemma length_key_values: "length (key_values ms vs) = length (filter (\<lambda>m. mtype m = METRIC_TYPE_KEY) (take (length vs) ms))"
proof (induction ms arbitrary: vs)
  case (Cons m ms)
  then show ?case by (cases vs) (auto simp: key_values_def)
qed (simp add: key_values_def)

lemma key_values_bound:
  assumes "i < length ms" "mtype (ms ! i) = METRIC_TYPE_KEY" "length us = i"
  shows "length (key_values ms us) + 1 \<le> num_keys ms"
proof -
  have "ms = take i ms @ ms ! i # drop (Suc i) ms" using assms(1) by (simp add: id_take_nth_drop)
  then have "num_keys ms = num_keys (take i ms) + (1 + num_keys (drop (Suc i) ms))"
    using assms(2) by (metis (mono_tags, lifting) filter.simps(2) filter_append length_Cons length_append num_keys_def plus_1_eq_Suc)
  then show ?thesis using assms(3) by (simp add: length_key_values num_keys_def)
qed

lemma key_values_len: "\<forall>k \<in> set (key_values ms us). length k \<le> 127"
  by (auto simp: key_values_def length_field_value)

text \<open>One value parsed.\<close>

lemma fill_metric_line:
  assumes ok: "meta_ok mt (keySize r0)" and i: "length us < length (metrics mt)" and v: "plain v"
    and al: "malloc_ok (AMetric (length us))" and cap: "metricsCapacity r0 = metricsCapacity mt"
  shows "fill_metric malloc_ok mt True (line_rec r0 (metrics mt) us) (of_nat (length (key_values (metrics mt) us)))
      (length us) (if v = [] then INVALID_METRIC_VALUE else v)
    = Ok (Inr (line_rec r0 (metrics mt) (us @ [v]), of_nat (length (key_values (metrics mt) (us @ [v])))))"
proof -
  let ?ms = "metrics mt" and ?v = "if v = [] then INVALID_METRIC_VALUE else v"
  let ?m = "?ms ! length us" and ?r = "line_rec r0 ?ms us" and ?ks = "key_values ?ms us"
  have m: "metric_ok ?m" using ok i by (simp add: meta_ok_def list_all_length)
  have set: "IMDB_MetricSetValue ?m ?v = Ok (?m\<lparr>mval := field_value v\<rparr>, 0)"
    using snprintf_fmt_plain [OF plain_value [OF v]] take_value [of v]
    by (simp add: IMDB_MetricSetValue_def MAX_IMDB_METRIC_VAL_LEN_def)
  have n: "metricsNum ?r = length us" using i by (simp add: metricsNum_def line_rec_def line_metrics_def)
  have "length us < unat (metricsCapacity mt)" using ok i by (simp add: meta_ok_def)
  then have "unat (of_nat (length us) :: u32) \<noteq> unat (metricsCapacity mt)"
    using unat_u32_bound [of "metricsCapacity mt"] by (simp add: unat_of_nat)
  then have "(of_nat (length us) :: u32) \<noteq> metricsCapacity ?r" using cap by (auto simp: line_rec_def)
  then have add: "IMDB_RecordAddMetric ?r (?m\<lparr>mval := field_value v\<rparr>)
      = (?r\<lparr>metrics := line_metrics ?ms (us @ [v])\<rparr>, 0)"
    using i n by (simp add: IMDB_RecordAddMetric_def line_rec_def line_metrics_def zip_snoc)
  let ?r' = "?r\<lparr>metrics := line_metrics ?ms (us @ [v])\<rparr>"
  have key: "IMDB_RecordAppendKey ?r' (of_nat (length ?ks)) ?v
      = Ok (?r'\<lparr>rkey := key_block (unat (keySize r0)) (?ks @ [field_value v])\<rparr>, 0)"
    if "mtype ?m = METRIC_TYPE_KEY"
    using append_key_block [of ?ks ?v ?r'] key_values_bound [OF i that refl] key_values_len ok plain_value [OF v]
    by (simp add: meta_ok_def line_rec_def take_value)
  have ks: "key_values ?ms (us @ [v]) = ?ks @ (if mtype ?m = METRIC_TYPE_KEY then [field_value v] else [])"
    using i by (simp add: key_values_def zip_snoc)
  show ?thesis
    using al metric_create_ok [OF m] set add key ks
    by (auto simp: fill_metric_def Let_def line_rec_def add.commute)
qed

lemma line_rec_full: "length ms \<le> length us \<Longrightarrow> line_rec r0 ms (us @ vs) = line_rec r0 ms us"
  by (simp add: line_rec_def line_metrics_def key_values_def zip_append2)

lemma add_tokens_line:
  assumes "meta (tables mgr ! ti) = Some mt" "meta_ok mt (keySize r0)" "metricsCapacity r0 = metricsCapacity mt"
    and "\<forall>i. malloc_ok (AMetric i)" "\<forall>v \<in> set vs. token_ok v" "length us \<le> length (metrics mt)"
  shows "add_tokens malloc_ok mgr (Some (ti, line_rec r0 (metrics mt) us,
           of_nat (length (key_values (metrics mt) us)), length us)) (vs @ [''\<newline>''])
       = Ok (Some (Some (ti, line_rec r0 (metrics mt) (us @ vs))))"
  using assms(5,6)
proof (induction vs arbitrary: us)
  case (Cons v vs)
  show ?case
  proof (cases "length us = length (metrics mt)")
    case True
    with Cons.prems assms(1) show ?thesis by (simp add: metricsNum_def line_rec_full token_ok_def)
  next
    case False
    then have i: "length us < length (metrics mt)" using Cons.prems by simp
    have "plain v" "v \<noteq> ''\<newline>''" using Cons.prems by (simp_all add: token_ok_def)
    with fill_metric_line [OF assms(2) i, of v malloc_ok] Cons.IH [of "us @ [v]"] Cons.prems i assms(1,3,4)
    show ?thesis by (simp add: metricsNum_def)
  qed
qed simp

lemma parse_tokens_line:
  assumes "meta_ok mt (keySize r0)" "metricsCapacity r0 = metricsCapacity mt"
    and "\<forall>i. malloc_ok (AMetric i)" "\<forall>v \<in> set vs. token_ok v" "length us \<le> length (metrics mt)"
    and "us = [] \<longrightarrow> vs = [] \<or> hd vs \<noteq> []"
  shows "parse_tokens malloc_ok mt True (line_rec r0 (metrics mt) us)
           (of_nat (length (key_values (metrics mt) us))) (length us) (vs @ [''\<newline>''])
       = Ok (line_rec r0 (metrics mt) (us @ vs), 0)"
  using assms(4-6)
proof (induction vs arbitrary: us)
  case (Cons v vs)
  show ?case
  proof (cases "length us = length (metrics mt)")
    case True
    with Cons.prems show ?thesis by (auto simp: metricsNum_def line_rec_full token_ok_def)
  next
    case False
    then have i: "length us < length (metrics mt)" using Cons.prems by simp
    have "plain v" "v \<noteq> ''\<newline>''" using Cons.prems by (simp_all add: token_ok_def)
    with fill_metric_line [OF assms(1) i, of v malloc_ok] Cons.IH [of "us @ [v]"] Cons.prems i assms(2,3)
    show ?thesis by (auto simp: metricsNum_def)
  qed
qed simp

lemma line_record_alt: "line_record t mt vs
    = line_rec \<lparr>keySize = recordKeySize t, rkey = [], updateTime = 0, metricsCapacity = metricsCapacity mt, metrics = []\<rparr> (metrics mt) vs"
  by (simp add: line_record_def line_rec_def)

lemma record_create_line:
  "meta_ok mt (recordKeySize t) \<Longrightarrow> malloc_ok ARecord \<Longrightarrow> malloc_ok AMetrics \<Longrightarrow> malloc_ok AKey \<Longrightarrow>
   IMDB_RecordCreateWithKey malloc_ok (metricsCapacity mt) (recordKeySize t) = Some (line_record t mt [])"
  by (simp add: IMDB_RecordCreateWithKey_def IMDB_RecordCreate_def meta_ok_def line_record_def key_values_def
      key_block_def pad_to_def line_metrics_def)

lemma find_table_index:
  "distinct (map tname ts) \<Longrightarrow> i < length ts \<Longrightarrow> find_table n ts (tname (ts ! i)) = Some (n + i)"
proof (induction ts arbitrary: n i)
  case (Cons t ts)
  then show ?case by (cases i) (auto simp: nth_mem)
qed simp

lemma find_table_None: "find_table n ts name = None \<longleftrightarrow> name \<notin> tname ` set ts"
  by (induction ts arbitrary: n) auto

lemma map_tname_update:
  "ti < length ts \<Longrightarrow> tname t' = tname (ts ! ti) \<Longrightarrow> map tname (ts[ti := t']) = map tname ts"
  by (metis list_update_id map_update)

lemma mgr_ok_update:
  assumes "mgr_ok ops mgr" "ti < length (tables mgr)" "table_ok ops t'" "tname t' = tname (tables mgr ! ti)"
  shows "mgr_ok ops (mgr\<lparr>tables := (tables mgr)[ti := t']\<rparr>)"
proof -
  have "set ((tables mgr)[ti := t']) \<subseteq> insert t' (set (tables mgr))" by (rule set_update_subset_insert)
  then show ?thesis using assms map_tname_update [OF assms(2,4)] by (auto simp: mgr_ok_def list_all_iff)
qed

lemma add_record_line:
  assumes "mgr_ok ops mgr" "ti < length (tables mgr)" "t = tables mgr ! ti"
    and "meta t = Some mt" "meta_ok mt (recordKeySize t)" "\<forall>a. malloc_ok a"
    and "tname t \<noteq> []" "token_ok (tname t)" "\<forall>v \<in> set vs. token_ok v"
  shows "IMDB_DataBaseMgrAddRecord ops malloc_ok now mgr (bar_line (tname t # vs))
    = (case IMDB_TableAddRecord ops now t (line_record t mt vs) of (t', ret) \<Rightarrow>
        Ok (mgr\<lparr>tables := (tables mgr)[ti := t']\<rparr>, if ret \<noteq> 0 then -1 else 0))"
proof -
  let ?r0 = "\<lparr>keySize = recordKeySize t, rkey = [], updateTime = 0, metricsCapacity = metricsCapacity mt, metrics = []\<rparr>"
  have sep: "strsep_all (bar_line (tname t # vs)) = [] # tname t # vs @ [''\<newline>'']"
    using strsep_bar_line [of "tname t # vs"] assms(8,9) by simp
  have find: "IMDB_DataBaseMgrFindTable mgr (tname t) = Some ti"
    using find_table_index [of "tables mgr" ti 0] assms(1-3) by (simp add: IMDB_DataBaseMgrFindTable_def mgr_ok_def)
  have "add_tokens malloc_ok mgr (Some (ti, line_record t mt [], 0, 0)) (vs @ [''\<newline>'']) = Ok (Some (Some (ti, line_record t mt vs)))"
    using add_tokens_line [of mgr ti mt ?r0 malloc_ok vs "[]"] assms
    by (simp add: line_record_alt key_values_def)
  moreover have "tname t \<noteq> ''\<newline>''" "recordKeySize t \<noteq> 0" using assms(5,8) by (auto simp: token_ok_def meta_ok_def)
  ultimately have "add_tokens malloc_ok mgr None (strsep_all (bar_line (tname t # vs))) = Ok (Some (Some (ti, line_record t mt vs)))"
    unfolding sep using find assms(4,6,7) record_create_line [OF assms(5)] by (simp add: assms(3) [symmetric])
  then show ?thesis using assms(3,6) by (simp add: IMDB_DataBaseMgrAddRecord_def)
qed

text \<open>A line \<open>|table|v1|...|vn|\<close> that a probe sends ends up as a record of that table: its metrics
  carry the names and types of the table's meta record with the values of the line (an empty field as
  \<open>(null)\<close>, long values cut to 127 characters), its key is the block of the values of the key metrics, it
  replaces the record of the same key, and a lookup finds it. The other tables and the invariant are kept.\<close>

theorem imdb_add_line:
  assumes "uthash_ok ops" "mgr_ok ops mgr" "ti < length (tables mgr)" "t = tables mgr ! ti"
    and "meta t = Some mt" "meta_ok mt (recordKeySize t)" "\<forall>a. malloc_ok a"
    and "tname t \<noteq> []" "token_ok (tname t)" "\<forall>v \<in> set vs. token_ok v"
    and "r = line_record t mt vs" "kept = filter (\<lambda>x. fst x \<noteq> rkey r) (recs ops t)"
    and "length kept < unat (recordsCapability t)"
  shows "\<exists>h. IMDB_DataBaseMgrAddRecord ops malloc_ok now mgr (bar_line (tname t # vs))
        = Ok (mgr\<lparr>tables := (tables mgr)[ti := t\<lparr>records := h\<rparr>]\<rparr>, 0)
      \<and> ut_iter ops h = kept @ [(rkey r, r\<lparr>updateTime := now\<rparr>)]
      \<and> ut_find ops (key_block (unat (recordKeySize t)) (key_values (metrics mt) vs)) h
        = Some (r\<lparr>updateTime := now\<rparr>)
      \<and> mgr_ok ops (mgr\<lparr>tables := (tables mgr)[ti := t\<lparr>records := h\<rparr>]\<rparr>)"
proof -
  have tok: "table_ok ops t" using assms(2-4) by (auto simp: mgr_ok_def list_all_length)
  obtain h where h: "ut_iter ops h = kept @ [(rkey r, r\<lparr>updateTime := now\<rparr>)]"
      "IMDB_TableAddRecord ops now t r = (t\<lparr>records := h\<rparr>, 0)"
    by (rule table_add_record_result [OF assms(1) tok assms(12), where now = now]) (use assms(13) in simp)
  have ok: "table_ok ops (t\<lparr>records := h\<rparr>)" using table_ok_add [OF assms(1) tok, of now r] h(2) by simp
  then have "ut_find ops (rkey r) h = map_of (ut_iter ops h) (rkey r)"
    using ut_find_map_of [OF assms(1)] by (simp add: table_ok_def recs_def)
  moreover have "map_of kept (rkey r) = None" by (auto simp: assms(12) map_of_eq_None_iff)
  ultimately have "ut_find ops (rkey r) h = Some (r\<lparr>updateTime := now\<rparr>)" using h(1) by (simp add: map_add_def)
  then show ?thesis
    using add_record_line [OF assms(2-10), of now] h mgr_ok_update [OF assms(2,3) ok] assms(4,11)
    by (auto simp: line_record_def)
qed

lemma demo_meta_ok: "meta_ok demo_meta 128"
  by (simp add: meta_ok_def demo_meta_def metric_ok_def plain_def imdb_len_defs num_keys_def METRIC_TYPE_KEY_def)

lemma demo_mgr_ok: "mgr_ok alist_ops (demo_mgr g)"
  by (simp add: mgr_ok_def demo_mgr_def demo_table_def table_ok_def recs_def)

lemma demo_bar_line: "bar_line [''tcp'', ''42'', ''7''] = ''|tcp|42|7|\<newline>''"
  by (simp add: bar_line_def)

theorem imdb_table_add_record_witness:
  "\<exists>t'. IMDB_TableAddRecord alist_ops 5 demo_table (line_record demo_table demo_meta [''42'', ''7'']) = (t', 0)
     \<and> table_ok alist_ops t' \<and> length (recs alist_ops t') = 1"
proof -
  let ?r = "line_record demo_table demo_meta [''42'', ''7'']"
  obtain t' ret where t': "IMDB_TableAddRecord alist_ops 5 demo_table ?r = (t', ret)" by fastforce
  have "table_ok alist_ops demo_table" using demo_mgr_ok by (simp add: mgr_ok_def demo_mgr_def)
  from imdb_table_add_record [OF alist_ops_ok this refl t'] t'
  show ?thesis by (auto simp: demo_table_def recs_def)
qed

theorem imdb_add_line_witness:
  "\<exists>h. IMDB_DataBaseMgrAddRecord alist_ops (\<lambda>_. True) 5 (demo_mgr ()) ''|tcp|42|7|\<newline>''
       = Ok ((demo_mgr ())\<lparr>tables := [demo_table\<lparr>records := h\<rparr>]\<rparr>, 0)
     \<and> length h = 1 \<and> map mval (metrics (snd (h ! 0))) = [''42'', ''7'']
     \<and> take 3 (fst (h ! 0)) = [CHR ''4'', CHR ''2'', CHR 0x00]"
proof -
  let ?r = "line_record demo_table demo_meta [''42'', ''7'']"
  have tok: "token_ok ''tcp''" "\<forall>v \<in> set [''42'', ''7'']. token_ok v" by (simp_all add: token_ok_def plain_def)
  have "\<exists>h. IMDB_DataBaseMgrAddRecord alist_ops (\<lambda>_. True) 5 (demo_mgr ()) (bar_line (tname demo_table # [''42'', ''7'']))
        = Ok ((demo_mgr ())\<lparr>tables := (tables (demo_mgr ()))[0 := demo_table\<lparr>records := h\<rparr>]\<rparr>, 0)
      \<and> ut_iter alist_ops h = [] @ [(rkey ?r, ?r\<lparr>updateTime := 5\<rparr>)]"
    using imdb_add_line [OF alist_ops_ok demo_mgr_ok [of "()"], of 0 demo_table demo_meta "\<lambda>_. True" "[''42'', ''7'']" ?r "[]" 5]
      demo_meta_ok tok by (simp add: demo_mgr_def demo_table_def recs_def)
  then obtain h where h: "IMDB_DataBaseMgrAddRecord alist_ops (\<lambda>_. True) 5 (demo_mgr ()) (bar_line (tname demo_table # [''42'', ''7'']))
        = Ok ((demo_mgr ())\<lparr>tables := (tables (demo_mgr ()))[0 := demo_table\<lparr>records := h\<rparr>]\<rparr>, 0)"
      "h = [(rkey ?r, ?r\<lparr>updateTime := 5\<rparr>)]" by auto
  have "take 3 (rkey ?r) = [CHR ''4'', CHR ''2'', CHR 0x00]"
    by (simp add: line_record_def demo_table_def demo_meta_def key_values_def key_block_def pad_to_def
        METRIC_TYPE_KEY_def field_value_def numeral_3_eq_3)
  moreover have "map mval (metrics ?r) = [''42'', ''7'']"
    by (simp add: line_record_def demo_meta_def line_metrics_def field_value_def)
  ultimately show ?thesis using h demo_bar_line by (auto simp: demo_mgr_def demo_table_def)
qed

text \<open>\<open>IMDB_DataBaseMgrCreateRec\<close> parses the values of one table the same way, provided the first field is
  not empty, and returns the stored record.\<close>

theorem imdb_create_rec:
  assumes "uthash_ok ops" "table_ok ops t" "meta t = Some mt" "meta_ok mt (recordKeySize t)" "\<forall>a. malloc_ok a"
    and "\<forall>v \<in> set vs. token_ok v" "vs \<noteq> []" "hd vs \<noteq> []"
    and "r = line_record t mt vs" "kept = filter (\<lambda>x. fst x \<noteq> rkey r) (recs ops t)"
    and "length kept < unat (recordsCapability t)"
  shows "\<exists>h. IMDB_DataBaseMgrCreateRec ops malloc_ok now t (bar_line vs)
        = Ok (t\<lparr>records := h\<rparr>, Some (r\<lparr>updateTime := now\<rparr>))
      \<and> ut_iter ops h = kept @ [(rkey r, r\<lparr>updateTime := now\<rparr>)] \<and> table_ok ops (t\<lparr>records := h\<rparr>)"
proof -
  let ?r0 = "\<lparr>keySize = recordKeySize t, rkey = [], updateTime = 0, metricsCapacity = metricsCapacity mt, metrics = []\<rparr>"
  obtain h where h: "ut_iter ops h = kept @ [(rkey r, r\<lparr>updateTime := now\<rparr>)]"
      "IMDB_TableAddRecord ops now t r = (t\<lparr>records := h\<rparr>, 0)"
    by (rule table_add_record_result [OF assms(1,2,10), where now = now]) (use assms(11) in simp)
  have "parse_tokens malloc_ok mt True (line_record t mt []) 0 0 (vs @ [''\<newline>'']) = Ok (r, 0)"
    using parse_tokens_line [of mt ?r0 malloc_ok vs "[]"] assms by (simp add: line_record_alt key_values_def)
  then have "IMDB_DataBaseMgrParseContent malloc_ok t (line_record t mt []) (bar_line vs) True = Ok (r, 0)"
    using strsep_bar_line [OF assms(6)] assms(3,5) by (simp add: IMDB_DataBaseMgrParseContent_def)
  then show ?thesis
    using h assms(3,5) record_create_line [OF assms(4)] table_ok_add [OF assms(1,2), of now r]
    by (intro exI [of _ h]) (simp add: IMDB_DataBaseMgrCreateRec_def IMDB_RecordUpdateTime_def)
qed

theorem imdb_create_rec_witness:
  "\<exists>h. IMDB_DataBaseMgrCreateRec alist_ops (\<lambda>_. True) 5 demo_table (bar_line [''42'', ''7''])
     = Ok (demo_table\<lparr>records := h\<rparr>, Some ((line_record demo_table demo_meta [''42'', ''7''])\<lparr>updateTime := 5\<rparr>))
     \<and> length h = 1"
proof -
  have "table_ok alist_ops demo_table" using demo_mgr_ok by (simp add: mgr_ok_def demo_mgr_def)
  from imdb_create_rec [OF alist_ops_ok this, of demo_meta "\<lambda>_. True" "[''42'', ''7'']" _ "[]" 5] demo_meta_ok
  show ?thesis by (auto simp: demo_table_def recs_def token_ok_def plain_def)
qed

text \<open>An empty first field is dropped instead of being stored as \<open>(null)\<close>: the values that follow it
  are read one metric too early, whatever they are.\<close>

theorem imdb_empty_first_field_dropped:
  "IMDB_DataBaseMgrCreateRec ops malloc_ok now t (''||'' @ s) = IMDB_DataBaseMgrCreateRec ops malloc_ok now t (''|'' @ s)"
proof -
  have "IMDB_DataBaseMgrParseContent malloc_ok t r (''||'' @ s) True
      = IMDB_DataBaseMgrParseContent malloc_ok t r (''|'' @ s) True" for r
    by (simp add: IMDB_DataBaseMgrParseContent_def split: option.splits)
  then show ?thesis by (simp add: IMDB_DataBaseMgrCreateRec_def split: option.splits)
qed

lemma add_tokens_blank:
  "list_all (\<lambda>t. t = [] \<or> t = ''\<newline>'') ts \<Longrightarrow> add_tokens malloc_ok mgr None ts = Ok (Some None)"
  by (induction ts) auto

text \<open>A line without any field, such as an empty line, makes \<open>IMDB_DataBaseMgrAddRecord\<close> add a NULL record to
  a NULL table: it dereferences a null pointer instead of returning an error.\<close>

theorem imdb_blank_line_crashes:
  assumes "list_all (\<lambda>t. t = [] \<or> t = ''\<newline>'') (strsep_all s)" "malloc_ok ABuffer"
  shows "IMDB_DataBaseMgrAddRecord ops malloc_ok now mgr s = UB"
  using assms by (simp add: IMDB_DataBaseMgrAddRecord_def add_tokens_blank)

theorem imdb_blank_line_crashes_witness:
  "IMDB_DataBaseMgrAddRecord alist_ops (\<lambda>_. True) 5 (demo_mgr ()) ''|\<newline>'' = UB"
  by (rule imdb_blank_line_crashes) simp_all

text \<open>A table is added exactly when there is room and its name is new; it is then found under its
  name, and every other name is looked up as before.\<close>

theorem imdb_add_table:
  assumes "mgr_ok ops mgr" "table_ok ops t" "IMDB_DataBaseMgrAddTable mgr t = (mgr', ret)"
  shows "mgr_ok ops mgr'
    \<and> (ret = 0 \<longleftrightarrow> length (tables mgr) < unat (tblsCapability mgr) \<and> IMDB_DataBaseMgrFindTable mgr (tname t) = None)
    \<and> (if ret = 0 then IMDB_DataBaseMgrFindTable mgr' (tname t) = Some (length (tables mgr))
          \<and> tables mgr' = tables mgr @ [t] else ret = -1 \<and> mgr' = mgr)
    \<and> (\<forall>name. name \<noteq> tname t \<longrightarrow> IMDB_DataBaseMgrFindTable mgr' name = IMDB_DataBaseMgrFindTable mgr name)"
proof -
  have app: "find_table n (ts @ [t]) name = (case find_table n ts name of Some i \<Rightarrow> Some i
      | None \<Rightarrow> if tname t = name then Some (n + length ts) else None)" for n ts name
    by (induction ts arbitrary: n) (auto split: option.split)
  have "length (tables mgr) \<le> unat (tblsCapability mgr)" using assms(1) by (simp add: mgr_ok_def)
  moreover from this have "unat (of_nat (length (tables mgr)) :: u32) = length (tables mgr)"
    using unat_u32_bound [of "tblsCapability mgr"] by (simp add: unat_of_nat)
  ultimately have full: "(of_nat (tablesNum mgr) :: u32) = tblsCapability mgr \<longleftrightarrow> \<not> length (tables mgr) < unat (tblsCapability mgr)"
    by (metis tablesNum_def leD le_neq_implies_less unsigned_word_eqI)
  have fresh: "list_ex (\<lambda>t'. tname t' = tname t) (tables mgr) \<longleftrightarrow> find_table 0 (tables mgr) (tname t) \<noteq> None"
    unfolding find_table_None by (auto simp: list_ex_iff intro: rev_image_eqI)
  show ?thesis
    using assms full fresh find_table_None [of 0 "tables mgr" "tname t"]
    by (auto simp: IMDB_DataBaseMgrAddTable_def IMDB_DataBaseMgrFindTable_def app mgr_ok_def list_all_iff
        split: if_splits option.splits)
qed

theorem imdb_add_table_witness:
  "mgr_ok alist_ops (fst (IMDB_DataBaseMgrAddTable (demo_mgr ()) (demo_table\<lparr>tname := ''udp''\<rparr>)))"
proof -
  have t: "table_ok alist_ops (demo_table\<lparr>tname := ''udp''\<rparr>)" by (simp add: demo_table_def table_ok_def recs_def)
  obtain mgr' ret where "IMDB_DataBaseMgrAddTable (demo_mgr ()) (demo_table\<lparr>tname := ''udp''\<rparr>) = (mgr', ret)" by fastforce
  with imdb_add_table [OF demo_mgr_ok t this] show ?thesis by simp
qed

end
