(* ===== verification/Imdb_Export.thy ===== *)
theory Imdb_Export
  imports Imdb
begin

text \<open>
  The exporter of \<open>src/lib/imdb/imdb.c\<close>: the records of every table are printed as Prometheus text into a buffer of
  bounded size, printed and expired records are removed, and the order of the tables is adjusted so
  that a table that has been served goes to the back. A partly filled buffer is the text written so far and the
  \<open>int\<close> that counts the bytes left; lengths stay below \<open>2 ^ 31\<close> (the caller passes one megabyte). The clock
  and the facts about processes that the code reads from the system are a record of functions, fixed during one export.
\<close>

section \<open>Printing\<close>

text \<open>\<open>__snprintf\<close> of \<open>common/util.c\<close> on the formatted text: it fails when the text and its terminator do not fit.\<close>

definition snprintf_app :: "string \<times> int \<Rightarrow> string \<Rightarrow> (string \<times> int) option" where
  "snprintf_app b txt = (if snd b \<le> 0 then None
     else if int (length txt) \<ge> snd b then None
     else Some (fst b @ txt, snd b - int (length txt)))"

fun digits :: "nat \<Rightarrow> nat \<Rightarrow> string" where
  "digits 0 n = []"
| "digits (Suc fuel) n = (if n < 10 then [char_of (48 + n)] else digits fuel (n div 10) @ [char_of (48 + n mod 10)])"

text \<open>\<open>%lld\<close>: 20 digits are enough for 64 bits.\<close>

definition show_lld :: "int \<Rightarrow> string" where
  "show_lld i = (if i < 0 then CHR ''-'' # digits 20 (nat (- i)) else digits 20 (nat i))"

definition to_lower :: "char \<Rightarrow> char" where
  "to_lower c = (if 65 \<le> (of_char c :: nat) \<and> (of_char c :: nat) \<le> 90 then char_of ((of_char c :: nat) + 32) else c)"

text \<open>\<open>atoi\<close>: white space, an optional sign, then digits.\<close>

definition is_space :: "char \<Rightarrow> bool" where
  "is_space c \<longleftrightarrow> c = CHR '' '' \<or> (9 \<le> (of_char c :: nat) \<and> (of_char c :: nat) \<le> 13)"

definition is_digit :: "char \<Rightarrow> bool" where
  "is_digit c \<longleftrightarrow> 48 \<le> (of_char c :: nat) \<and> (of_char c :: nat) \<le> 57"

definition atoi :: "string \<Rightarrow> int" where
  "atoi s = (let s = dropWhile is_space s;
       (neg, ds) = (case s of c # cs \<Rightarrow> if c = CHR ''-'' then (True, cs) else if c = CHR ''+'' then (False, cs) else (False, s)
                            | [] \<Rightarrow> (False, []));
       n = foldl (\<lambda>a c. 10 * a + (int (of_char c) - 48)) 0 (takeWhile is_digit ds)
     in if neg then - n else n)"

section \<open>The system\<close>

text \<open>
  \<open>get_proc_comm\<close>, \<open>get_proc_startup_ts\<close>, \<open>get_container_id_by_pid_cpuset\<close>, \<open>get_container_pod_id\<close>,
  \<open>get_system_ip\<close> and \<open>time\<close>; None is an error return. The texts fit the buffers they are read into.
\<close>

record sys_env =
  env_comm :: "int \<Rightarrow> string option"
  env_startup :: "int \<Rightarrow> int"
  env_container :: "string \<Rightarrow> string option"
  env_pod :: "string \<Rightarrow> string"
  env_ip :: "string option"
  env_now :: int

section \<open>The cache of process labels\<close>

record TGID_Record =
  tg_key :: "string \<times> int"
  container_id :: string
  pod_id :: string
  comm :: string

type_synonym 'g tgid_ops = "(string \<times> int, TGID_Record, 'g) uthash"

definition INT_LEN :: nat where "INT_LEN = 32"
definition IMDB_TGID_CACHE_SIZE :: nat where "IMDB_TGID_CACHE_SIZE = 1024"

definition IMDB_TgidAddRecord :: "'g tgid_ops \<Rightarrow> ('h, 'g) IMDB_DataBaseMgr \<Rightarrow> TGID_Record \<Rightarrow> ('h, 'g) IMDB_DataBaseMgr" where
  "IMDB_TgidAddRecord gops mgr r =
     (let g = (if ut_count gops (tgids mgr) > IMDB_TGID_CACHE_SIZE
               then (case ut_iter gops (tgids mgr) of [] \<Rightarrow> tgids mgr | (k, _) # _ \<Rightarrow> ut_del gops k (tgids mgr))
               else tgids mgr)
      in mgr\<lparr>tgids := ut_add gops (tg_key r) r g\<rparr>)"

definition IMDB_TgidLkupRecord :: "'g tgid_ops \<Rightarrow> sys_env \<Rightarrow> ('h, 'g) IMDB_DataBaseMgr \<Rightarrow> string \<Rightarrow> TGID_Record option" where
  "IMDB_TgidLkupRecord gops env mgr tgid = ut_find gops (take INT_LEN tgid, env_startup env (atoi tgid)) (tgids mgr)"

definition IMDB_TgidCreateRecord :: "'g tgid_ops \<Rightarrow> (asite \<Rightarrow> bool) \<Rightarrow> sys_env \<Rightarrow> ('h, 'g) IMDB_DataBaseMgr \<Rightarrow> string
     \<Rightarrow> ('h, 'g) IMDB_DataBaseMgr \<times> TGID_Record option" where
  "IMDB_TgidCreateRecord gops malloc_ok env mgr tgid =
     (let pid = atoi tgid in
      case env_comm env pid of None \<Rightarrow> (mgr, None)
      | Some cm \<Rightarrow>
          if env_startup env pid < 0 then (mgr, None)
          else (case env_container env tgid of None \<Rightarrow> (mgr, None)
            | Some cid \<Rightarrow>
                let pod = (if cid \<noteq> [] then env_pod env cid else []) in
                if \<not> malloc_ok ATgid then (mgr, None)
                else let r = \<lparr>tg_key = (take INT_LEN tgid, env_startup env pid), container_id = take 12 cid,
                              pod_id = take 36 pod, comm = take 16 cm\<rparr>
                     in (IMDB_TgidAddRecord gops mgr r, Some r)))"

section \<open>Labels\<close>

definition prometheusTypes :: "string list" where
  "prometheusTypes = [''counter'', ''gauge'', ''histogram'', ''summary'']"

definition MetricTypeSatisfyPrometheus :: "IMDB_Metric \<Rightarrow> int" where
  "MetricTypeSatisfyPrometheus m = (if mtype m \<in> set prometheusTypes then 0 else -1)"

definition MetricTypeIsLabel :: "IMDB_Metric \<Rightarrow> bool" where
  "MetricTypeIsLabel m \<longleftrightarrow> mtype m \<in> set [METRIC_TYPE_LABEL, METRIC_TYPE_KEY]"

definition MetricNameIsTgid :: "IMDB_Metric \<Rightarrow> bool" where
  "MetricNameIsTgid m \<longleftrightarrow> map to_lower (mname m) = ''tgid''"

text \<open>The loop over the metrics: the buffer, \<open>first_flag\<close> and the value at \<open>tgid_idx\<close>.\<close>

fun label_loop :: "IMDB_Metric list \<Rightarrow> string \<times> int \<Rightarrow> bool \<Rightarrow> string option \<Rightarrow> ((string \<times> int) \<times> string option) option" where
  "label_loop [] b first tg = Some (b, tg)"
| "label_loop (m # ms) b first tg =
     (let tg = (if MetricNameIsTgid m then Some (mval m) else tg) in
      if \<not> MetricTypeIsLabel m then label_loop ms b first tg
      else if mval m = INVALID_METRIC_VALUE then label_loop ms b first tg
      else case snprintf_app b ((if first then [] else '','') @ mname m @ ''=\"'' @ mval m @ ''\"'') of
             None \<Rightarrow> None | Some b \<Rightarrow> label_loop ms b False tg)"

text \<open>\<open>if (field[0] != 0) __snprintf(..., ",name=\"%s\"", field)\<close>\<close>

definition app_field :: "string \<Rightarrow> string \<Rightarrow> string \<times> int \<Rightarrow> (string \<times> int) option" where
  "app_field name v b = (if v = [] then Some b else snprintf_app b ('','' @ name @ ''=\"'' @ v @ ''\"''))"

definition proc_labels :: "TGID_Record \<Rightarrow> string \<times> int \<Rightarrow> (string \<times> int) option" where
  "proc_labels tr b = Option.bind (app_field ''comm'' (comm tr) b) (\<lambda>b.
     Option.bind (app_field ''container_id'' (container_id tr) b) (\<lambda>b.
     app_field ''pod_id'' (pod_id tr) b))"

text \<open>The labels of a record, or None on an error; the manager's cache and host address may change.\<close>

definition IMDB_BuildPrometheusLabel :: "'g tgid_ops \<Rightarrow> (asite \<Rightarrow> bool) \<Rightarrow> sys_env \<Rightarrow> ('h, 'g) IMDB_DataBaseMgr \<Rightarrow> IMDB_Record
     \<Rightarrow> nat \<Rightarrow> ('h, 'g) IMDB_DataBaseMgr \<times> string option" where
  "IMDB_BuildPrometheusLabel gops malloc_ok env mgr r maxLen =
     (case snprintf_app ([], int maxLen) ''{'' of None \<Rightarrow> (mgr, None)
      | Some b \<Rightarrow>
     (case label_loop (metrics r) b True None of None \<Rightarrow> (mgr, None)
      | Some (b, tg) \<Rightarrow>
     (let (mgr, ob) = (case tg of None \<Rightarrow> (mgr, Some b)
            | Some v \<Rightarrow>
                let (mgr, tr) = (case IMDB_TgidLkupRecord gops env mgr v of Some tr \<Rightarrow> (mgr, Some tr)
                      | None \<Rightarrow> IMDB_TgidCreateRecord gops malloc_ok env mgr v)
                in (mgr, case tr of None \<Rightarrow> Some b | Some tr \<Rightarrow> proc_labels tr b))
      in case ob of None \<Rightarrow> (mgr, None)
      | Some b \<Rightarrow>
     (let omgr = (if hostIP mgr = [] then (case env_ip env of None \<Rightarrow> None | Some ip \<Rightarrow> Some (mgr\<lparr>hostIP := ip\<rparr>)) else Some mgr)
      in case omgr of None \<Rightarrow> (mgr, None)
      | Some mgr \<Rightarrow>
         (mgr, Option.bind (snprintf_app b ('',machine_id=\"'' @ systemUuid mgr @ ''-'' @ hostIP mgr @ ''\"''))
                 (\<lambda>b. map_option fst (snprintf_app b ''}'')))))))"

section \<open>Metrics and records\<close>

definition THOUSAND :: int where "THOUSAND = 1000"
definition MAX_LABELS_BUFFER_SIZE :: nat where "MAX_LABELS_BUFFER_SIZE = 512"
definition DEFAULT_PERIOD_RECORD_NUM :: nat where "DEFAULT_PERIOD_RECORD_NUM = 100"

definition IMDB_BuildMetrics :: "string \<Rightarrow> string \<Rightarrow> nat \<Rightarrow> (string \<times> int) option" where
  "IMDB_BuildMetrics entity metricsName maxLen =
     snprintf_app ([], int maxLen) (''gala_gopher_'' @ entity @ ''_'' @ metricsName)"

text \<open>The text of one metric; the number of characters printed is its length.\<close>

definition IMDB_BuildPrometheusMetrics :: "sys_env \<Rightarrow> IMDB_Metric \<Rightarrow> nat \<Rightarrow> string \<Rightarrow> string \<Rightarrow> string option" where
  "IMDB_BuildPrometheusMetrics env m maxLen entity labels =
     Option.bind (IMDB_BuildMetrics entity (mname m) maxLen) (\<lambda>(t, _).
       map_option fst (snprintf_app (t, int maxLen - int (length t))
         (labels @ '' '' @ mval m @ '' '' @ show_lld (env_now env * THOUSAND) @ ''\<newline>'')))"

fun rec_loop :: "sys_env \<Rightarrow> string \<Rightarrow> string \<Rightarrow> nat \<Rightarrow> IMDB_Metric list \<Rightarrow> string" where
  "rec_loop env entity labels curMaxLen [] = []"
| "rec_loop env entity labels curMaxLen (m # ms) =
     (if MetricTypeSatisfyPrometheus m \<noteq> 0 then rec_loop env entity labels curMaxLen ms
      else if mval m = INVALID_METRIC_VALUE then rec_loop env entity labels curMaxLen ms
      else case IMDB_BuildPrometheusMetrics env m curMaxLen entity labels of None \<Rightarrow> []
        | Some t \<Rightarrow> t @ rec_loop env entity labels (curMaxLen - length t) ms)"

text \<open>The text put into the buffer; the code returns its length.\<close>

definition IMDB_Rec2Prometheus :: "'g tgid_ops \<Rightarrow> (asite \<Rightarrow> bool) \<Rightarrow> sys_env \<Rightarrow> ('h, 'g) IMDB_DataBaseMgr \<Rightarrow> IMDB_Record
     \<Rightarrow> string \<Rightarrow> nat \<Rightarrow> ('h, 'g) IMDB_DataBaseMgr \<times> string" where
  "IMDB_Rec2Prometheus gops malloc_ok env mgr r entity maxLen =
     (case IMDB_BuildPrometheusLabel gops malloc_ok env mgr r MAX_LABELS_BUFFER_SIZE of
        (mgr, None) \<Rightarrow> (mgr, [])
      | (mgr, Some labels) \<Rightarrow> (mgr, rec_loop env entity labels maxLen (metrics r)))"

section \<open>Tables\<close>

text \<open>
  The \<open>HASH_ITER\<close> loop: \<open>rs\<close> are the items still to visit, \<open>h\<close> the table, \<open>index\<close> the number printed. The
  iteration saves the successor before the body runs, so deleting the current item does not disturb it.
\<close>

fun tbl_loop :: "'h rec_ops \<Rightarrow> 'g tgid_ops \<Rightarrow> (asite \<Rightarrow> bool) \<Rightarrow> sys_env \<Rightarrow> u32 \<Rightarrow> string \<Rightarrow> ('h, 'g) IMDB_DataBaseMgr \<Rightarrow> 'h
     \<Rightarrow> nat \<Rightarrow> nat \<Rightarrow> (string \<times> IMDB_Record) list \<Rightarrow> ('h, 'g) IMDB_DataBaseMgr \<times> 'h \<times> string" where
  "tbl_loop ops gops malloc_ok env timeout entity mgr h index curMaxLen [] = (mgr, h, [])"
| "tbl_loop ops gops malloc_ok env timeout entity mgr h index curMaxLen ((k, r) # rs) =
     (if index \<ge> DEFAULT_PERIOD_RECORD_NUM then (mgr, h, [])
      else if updateTime r + int (unat timeout) < env_now env
      then tbl_loop ops gops malloc_ok env timeout entity mgr (HASH_deleteRecord ops h r) index curMaxLen rs
      else case IMDB_Rec2Prometheus gops malloc_ok env mgr r entity curMaxLen of (mgr, t) \<Rightarrow>
        if t = [] then (mgr, h, [])
        else case tbl_loop ops gops malloc_ok env timeout entity mgr (HASH_deleteRecord ops h r) (index + 1)
                    (curMaxLen - length t) rs of (mgr, h, ts) \<Rightarrow> (mgr, h, t @ ts))"

text \<open>
  The text of a table, its newline included; empty for an empty table. With a single byte left the newline is not
  stored, and with none its position is past the end, but then the caller fails.
\<close>

definition IMDB_Tbl2Prometheus :: "'h rec_ops \<Rightarrow> 'g tgid_ops \<Rightarrow> (asite \<Rightarrow> bool) \<Rightarrow> sys_env \<Rightarrow> u32 \<Rightarrow> ('h, 'g) IMDB_DataBaseMgr
     \<Rightarrow> 'h IMDB_Table \<Rightarrow> nat \<Rightarrow> ('h, 'g) IMDB_DataBaseMgr \<times> 'h IMDB_Table \<times> string" where
  "IMDB_Tbl2Prometheus ops gops malloc_ok env timeout mgr t maxLen =
     (if HASH_recordCount ops (records t) = 0 then (mgr, t, [])
      else case tbl_loop ops gops malloc_ok env timeout (entity_name t) mgr (records t) 0 maxLen (ut_iter ops (records t)) of
        (mgr, h, txt) \<Rightarrow> (mgr, t\<lparr>records := h\<rparr>, txt @ ''\<newline>''))"

text \<open>The loop over the tables: the tables afterwards and the text, or None for \<open>goto ERR\<close>.\<close>

fun db_loop :: "'h rec_ops \<Rightarrow> 'g tgid_ops \<Rightarrow> (asite \<Rightarrow> bool) \<Rightarrow> sys_env \<Rightarrow> u32 \<Rightarrow> ('h, 'g) IMDB_DataBaseMgr \<Rightarrow> nat
     \<Rightarrow> 'h IMDB_Table list \<Rightarrow> ('h, 'g) IMDB_DataBaseMgr \<times> 'h IMDB_Table list \<times> string option" where
  "db_loop ops gops malloc_ok env timeout mgr curMaxLen [] = (mgr, [], Some [])"
| "db_loop ops gops malloc_ok env timeout mgr curMaxLen (t # ts) =
     (case IMDB_Tbl2Prometheus ops gops malloc_ok env timeout mgr t curMaxLen of (mgr, t, txt) \<Rightarrow>
        if length txt \<ge> curMaxLen then (mgr, t # ts, None)
        else let t = (if txt \<noteq> [] then t\<lparr>weighting := weighting t + 1\<rparr> else t) in
          case db_loop ops gops malloc_ok env timeout mgr (curMaxLen - length txt) ts of
            (mgr, ts, r) \<Rightarrow> (mgr, t # ts, map_option (\<lambda>x. txt @ x) r))"

section \<open>Table priorities\<close>

definition RequeueTable :: "'h IMDB_Table list \<Rightarrow> 'h IMDB_Table list" where
  "RequeueTable ts = (case ts of [] \<Rightarrow> [] | t # ts' \<Rightarrow> ts' @ [t\<lparr>weighting := 0\<rparr>])"

text \<open>The \<open>do ... while (1)\<close> loop after \<open>num_adjust\<close> turns; the last test bounds it by the number of tables.\<close>

function adjust_loop :: "string \<Rightarrow> nat \<Rightarrow> 'h IMDB_Table list \<Rightarrow> 'h IMDB_Table list" where
  "adjust_loop tblName num_adjust ts =
     (let ts' = RequeueTable ts in
      if ts' = [] \<or> weighting (hd ts') = 0 then ts'
      else if tname (hd ts') = tblName then ts'
      else if num_adjust + 1 \<ge> length ts' then ts'
      else adjust_loop tblName (num_adjust + 1) ts')"
  by pat_completeness auto
termination
  by (relation "measure (\<lambda>(_, n, ts). length ts - n)") (auto simp: RequeueTable_def split: list.splits)

declare adjust_loop.simps [simp del]

text \<open>\<open>mgr->tables[0]\<close> is read without a look at \<open>tablesNum\<close>.\<close>

definition IMDB_AdjustTblPrio :: "'h IMDB_Table list \<Rightarrow> 'h IMDB_Table list outc" where
  "IMDB_AdjustTblPrio ts = (case ts of [] \<Rightarrow> UB
     | t # _ \<Rightarrow> if weighting t = 0 then Ok ts else Ok (adjust_loop (tname t) 0 ts))"

text \<open>The manager afterwards, the buffer's text (of length \<open>*buf_len\<close>) and the return value.\<close>

definition IMDB_DataBase2Prometheus :: "'h rec_ops \<Rightarrow> 'g tgid_ops \<Rightarrow> (asite \<Rightarrow> bool) \<Rightarrow> sys_env \<Rightarrow> u32
     \<Rightarrow> ('h, 'g) IMDB_DataBaseMgr \<Rightarrow> nat \<Rightarrow> (('h, 'g) IMDB_DataBaseMgr \<times> string option) outc" where
  "IMDB_DataBase2Prometheus ops gops malloc_ok env timeout mgr maxLen =
     (case db_loop ops gops malloc_ok env timeout mgr maxLen (tables mgr) of
        (mgr, ts, None) \<Rightarrow> Ok (mgr\<lparr>tables := ts\<rparr>, None)
      | (mgr, ts, Some txt) \<Rightarrow> bnd (IMDB_AdjustTblPrio ts) (\<lambda>ts. Ok (mgr\<lparr>tables := ts\<rparr>, Some txt)))"

section \<open>JSON\<close>

text \<open>
  \<open>snprintf\<close> with the buffer check of \<open>IMDB_Record2Json\<close>: a text that does not fit is cut, and only a
  negative remainder is an error, so the last piece may lose its end silently.
\<close>

definition json_app :: "string \<times> int \<Rightarrow> string \<Rightarrow> (string \<times> int) option" where
  "json_app b txt = (let left = snd b - int (length txt) in if left < 0 then None else Some (fst b @ txt, left))"

fun json_metrics :: "IMDB_Metric list \<Rightarrow> string \<times> int \<Rightarrow> (string \<times> int) option" where
  "json_metrics [] b = Some b"
| "json_metrics (m # ms) b =
     Option.bind (json_app b ('', \"'' @ mname m @ ''\": \"'' @ mval m @ ''\"'')) (json_metrics ms)"

text \<open>The string in \<open>jsonStr\<close> when the call returns 0: what the pieces wrote, cut to the buffer.\<close>

definition IMDB_Record2Json :: "sys_env \<Rightarrow> ('h, 'g) IMDB_DataBaseMgr \<Rightarrow> 'h IMDB_Table \<Rightarrow> IMDB_Record \<Rightarrow> nat \<Rightarrow> string option" where
  "IMDB_Record2Json env mgr t r jsonStrLen =
     Option.bind (json_app ([], int jsonStrLen) (''{\"timestamp\": '' @ show_lld (env_now env * THOUSAND))) (\<lambda>b.
     Option.bind (json_app b ('', \"machine_id\": \"'' @ systemUuid mgr @ ''\"'')) (\<lambda>b.
     Option.bind (json_app b ('', \"entity_name\": \"'' @ entity_name t @ ''\"'')) (\<lambda>b.
     Option.bind (json_metrics (metrics r) b) (\<lambda>(txt, left).
     Some (take (jsonStrLen - 1) (txt @ ''}''))))))"

definition served :: "'h IMDB_Table \<Rightarrow> bool" where
  "served t \<longleftrightarrow> weighting t \<noteq> 0"

definition unserve :: "'h IMDB_Table \<Rightarrow> 'h IMDB_Table" where
  "unserve t = t\<lparr>weighting := 0\<rparr>"

text \<open>A record that has not timed out.\<close>

definition live :: "sys_env \<Rightarrow> u32 \<Rightarrow> string \<times> IMDB_Record \<Rightarrow> bool" where
  "live env timeout x \<longleftrightarrow> env_now env \<le> updateTime (snd x) + int (unat timeout)"

definition printed_as :: "sys_env \<Rightarrow> string \<Rightarrow> string \<times> IMDB_Record \<Rightarrow> string \<Rightarrow> bool" where
  "printed_as env entity x s \<longleftrightarrow> s \<noteq> [] \<and> (\<exists>labels l. s = rec_loop env entity labels l (metrics (snd x)))"

definition pass_result :: "'g tgid_ops \<Rightarrow> (asite \<Rightarrow> bool) \<Rightarrow> sys_env \<Rightarrow> u32 \<Rightarrow> string \<Rightarrow> 'h itself \<Rightarrow> nat
     \<Rightarrow> (string \<times> IMDB_Record) list \<Rightarrow> (string \<times> IMDB_Record) list \<Rightarrow> nat \<Rightarrow> string list \<Rightarrow> bool" where
  "pass_result gops malloc_ok env timeout entity (_ :: 'h itself) idx rs rs' n ss \<longleftrightarrow>
     n \<le> length rs \<and> rs' = drop n rs \<and> list_all2 (printed_as env entity) (filter (live env timeout) (take n rs)) ss
     \<and> (idx \<le> DEFAULT_PERIOD_RECORD_NUM \<longrightarrow> idx + length ss \<le> DEFAULT_PERIOD_RECORD_NUM)
     \<and> (n < length rs \<longrightarrow> DEFAULT_PERIOD_RECORD_NUM \<le> idx + length ss \<or> live env timeout (rs ! n)
          \<and> (\<exists>(mgr :: ('h, 'g) IMDB_DataBaseMgr) l. snd (IMDB_Rec2Prometheus gops malloc_ok env mgr (snd (rs ! n)) entity l) = []))"

text \<open>Printing changes neither the tables nor their capacity, only the cache and the host address.\<close>

definition same_frame :: "('h, 'g) IMDB_DataBaseMgr \<Rightarrow> ('h, 'g) IMDB_DataBaseMgr \<Rightarrow> bool" where
  "same_frame m m' \<longleftrightarrow> tables m' = tables m \<and> tblsCapability m' = tblsCapability m"

text \<open>No metric of the record is a Prometheus metric with a value.\<close>

definition unprintable :: "IMDB_Record \<Rightarrow> bool" where
  "unprintable r \<longleftrightarrow> list_all (\<lambda>m. mtype m \<notin> set prometheusTypes \<or> mval m = INVALID_METRIC_VALUE) (metrics r)"

text \<open>The JSON object of a record without its closing brace.\<close>

definition json_body :: "sys_env \<Rightarrow> ('h, 'g) IMDB_DataBaseMgr \<Rightarrow> 'h IMDB_Table \<Rightarrow> IMDB_Record \<Rightarrow> string" where
  "json_body env mgr t r = ''{\"timestamp\": '' @ show_lld (env_now env * THOUSAND)
     @ '', \"machine_id\": \"'' @ systemUuid mgr @ ''\", \"entity_name\": \"'' @ entity_name t @ ''\"''
     @ concat (map (\<lambda>m. '', \"'' @ mname m @ ''\": \"'' @ mval m @ ''\"'') (metrics r))"

text \<open>Each key once, at most one entry more than the nominal size.\<close>

definition cache_ok :: "'g tgid_ops \<Rightarrow> 'g \<Rightarrow> bool" where
  "cache_ok gops g \<longleftrightarrow> distinct (map fst (ut_iter gops g)) \<and> length (ut_iter gops g) \<le> IMDB_TGID_CACHE_SIZE + 1"

definition demo_env :: sys_env where
  "demo_env = \<lparr>env_comm = (\<lambda>_. Some ''sh''), env_startup = (\<lambda>_. 7), env_container = (\<lambda>_. Some []),
     env_pod = (\<lambda>_. []), env_ip = None, env_now = 10\<rparr>"

definition demo_rec :: IMDB_Record where
  "demo_rec = \<lparr>keySize = 1, rkey = ''k'', updateTime = 8, metricsCapacity = 2,
     metrics = [\<lparr>mdescription = [], mtype = ''gauge'', mname = ''rx'', mval = ''(null)''\<rparr>]\<rparr>"

definition demo_full :: "(string \<times> IMDB_Record) list IMDB_Table" where
  "demo_full = demo_table\<lparr>records := [(''k'', demo_rec)]\<rparr>"

lemma demo_full_ok: "table_ok alist_ops demo_full"
  by (simp add: demo_full_def demo_rec_def demo_table_def table_ok_def recs_def)

section \<open>Adjusting the table order\<close>

lemma adjust_loop_rotates:
  assumes "us \<noteq> []" "list_all served us" "ts' = [] \<or> \<not> served (hd ts')" "distinct (map tname (us @ ts'))"
    and "tblName = tname (hd (ms @ us))" "ms = [] \<or> tblName \<notin> tname ` set us"
    and "tblName \<notin> tname ` set (tl us)" "n = length ms"
  shows "adjust_loop tblName n (us @ ts' @ map unserve ms) = ts' @ map unserve (ms @ us)"
  using assms
proof (induction us arbitrary: ms n)
  case (Cons u us)
  let ?ts = "us @ ts' @ map unserve (ms @ [u])"
  have rq: "RequeueTable ((u # us) @ ts' @ map unserve ms) = ?ts"
    by (simp add: RequeueTable_def unserve_def)
  show ?case
  proof (cases "us = []")
    case True
    have "weighting (hd ?ts) = 0"
      using Cons.prems(3) True by (cases ts'; cases ms) (auto simp: served_def unserve_def)
    then show ?thesis using True rq by (subst adjust_loop.simps) (simp add: Let_def)
  next
    case False
    have "served (hd us)" using Cons.prems(2) False by (cases us) auto
    moreover have "tname (hd us) \<noteq> tblName" using Cons.prems(7) False by (cases us) auto
    moreover have "n + 1 < length ?ts" using Cons.prems(8) False by (cases us) auto
    moreover have "adjust_loop tblName (n + 1) (us @ ts' @ map unserve (ms @ [u])) = ts' @ map unserve ((ms @ [u]) @ us)"
      using Cons.prems False by (intro Cons.IH) (cases us; auto)+
    ultimately show ?thesis using rq False
      by (subst adjust_loop.simps) (simp add: Let_def served_def)
  qed
qed simp

lemma adjust_prio_rotates:
  assumes "ts \<noteq> []" "distinct (map tname ts)"
  shows "IMDB_AdjustTblPrio ts = Ok (dropWhile served ts @ map unserve (takeWhile served ts))"
proof (cases "served (hd ts)")
  case False
  with assms(1) show ?thesis by (cases ts) (auto simp: IMDB_AdjustTblPrio_def served_def)
next
  case True
  obtain t ts1 where ts: "ts = t # ts1" using assms(1) by (cases ts) auto
  let ?us = "takeWhile served ts" and ?rest = "dropWhile served ts"
  have us: "?us = t # takeWhile served ts1" using True ts by simp
  have "adjust_loop (tname t) 0 (?us @ ?rest @ map unserve []) = ?rest @ map unserve ([] @ ?us)"
  proof (rule adjust_loop_rotates)
    show "?rest = [] \<or> \<not> served (hd ?rest)" using hd_dropWhile [of served ts] by blast
    show "list_all served ?us" by (auto simp: list_all_iff dest: set_takeWhileD)
    show "distinct (map tname (?us @ ?rest))" using assms(2) by (simp only: takeWhile_dropWhile_id)
    show "tname t \<notin> tname ` set (tl ?us)" using assms(2) ts us by (auto dest: set_takeWhileD)
  qed (use assms us in auto)
  then have "adjust_loop (tname t) 0 ts = ?rest @ map unserve ?us" by simp
  then show ?thesis using True ts by (simp add: IMDB_AdjustTblPrio_def served_def)
qed

text \<open>\<open>IMDB_AdjustTblPrio\<close>, whose loop moves one table at a time and has three exits, amounts to this: the tables in
  front that have been served go to the back with their priority reset, in the order they had, and a table
  that has not been served comes first. No table is lost.\<close>

theorem imdb_adjust_prio:
  assumes "ts \<noteq> []" "distinct (map tname ts)"
  shows "IMDB_AdjustTblPrio ts = Ok (dropWhile served ts @ map unserve (takeWhile served ts))"
  using assms by (rule adjust_prio_rotates)

theorem imdb_adjust_prio_witness:
  "let a = demo_table\<lparr>tname := ''a'', weighting := 3\<rparr>; b = demo_table\<lparr>tname := ''b'', weighting := 1\<rparr>;
       c = demo_table\<lparr>tname := ''c''\<rparr>
   in IMDB_AdjustTblPrio [a, b, c] = Ok [c, unserve a, unserve b]"
  using imdb_adjust_prio [of "[demo_table\<lparr>tname := ''a'', weighting := 3\<rparr>, demo_table\<lparr>tname := ''b'', weighting := 1\<rparr>,
      demo_table\<lparr>tname := ''c''\<rparr>]"]
  by (simp add: demo_table_def served_def Let_def)

section \<open>Sizes\<close>

lemma snprintf_app_Some:
  "snprintf_app b out = Some b' \<Longrightarrow> fst b' = fst b @ out \<and> snd b' = snd b - int (length out) \<and> 0 < snd b'"
  by (auto simp: snprintf_app_def split: if_splits)

lemma build_metrics_bound:
  "IMDB_BuildPrometheusMetrics env m maxLen entity labels = Some t \<Longrightarrow> length t < maxLen \<and> t \<noteq> []"
  by (auto simp: IMDB_BuildPrometheusMetrics_def IMDB_BuildMetrics_def Option.bind_eq_Some_conv dest!: snprintf_app_Some)

lemma rec_loop_bound: "rec_loop env entity labels n ms \<noteq> [] \<Longrightarrow> length (rec_loop env entity labels n ms) < n"
proof (induction ms arbitrary: n)
  case (Cons m ms)
  show ?case
  proof (cases "IMDB_BuildPrometheusMetrics env m n entity labels")
    case None
    with Cons show ?thesis by (auto split: if_splits)
  next
    case (Some t)
    with build_metrics_bound [OF Some] Cons.IH [of "n - length t"] Cons.IH [of n] Cons.prems show ?thesis
      by (cases "rec_loop env entity labels (n - length t) ms = []") (auto split: if_splits)
  qed
qed simp

lemma rec2_bound:
  "IMDB_Rec2Prometheus gops malloc_ok env mgr r entity n = (mgr', t) \<Longrightarrow> t \<noteq> [] \<Longrightarrow> length t < n"
  by (auto simp: IMDB_Rec2Prometheus_def split: prod.splits option.splits dest: rec_loop_bound)

section \<open>Printing a table\<close>

text \<open>\<open>s\<close> is a non-empty text of the metrics of record \<open>x\<close>.\<close>

text \<open>What one pass over a table does: the first \<open>n\<close> records leave it, those of them that are alive are printed in order.\<close>

lemma same_frame_refl [simp]: "same_frame m m"
  by (simp add: same_frame_def)

lemma same_frame_trans: "same_frame m m1 \<Longrightarrow> same_frame m1 m2 \<Longrightarrow> same_frame m m2"
  by (simp add: same_frame_def)

lemma tgid_create_frame: "IMDB_TgidCreateRecord gops malloc_ok env mgr v = (mgr', tr) \<Longrightarrow> same_frame mgr mgr'"
  by (auto simp: same_frame_def IMDB_TgidCreateRecord_def IMDB_TgidAddRecord_def Let_def split: option.splits if_splits)

lemma same_frame_hostIP [simp]: "same_frame m (m'\<lparr>hostIP := ip\<rparr>) = same_frame m m'"
  by (simp add: same_frame_def)

lemma label_tables: "same_frame mgr (fst (IMDB_BuildPrometheusLabel gops malloc_ok env mgr r n))"
  by (simp add: IMDB_BuildPrometheusLabel_def Let_def split: option.split prod.split)
     (blast dest: tgid_create_frame)

lemma rec2_tables: "IMDB_Rec2Prometheus gops malloc_ok env mgr r entity n = (mgr', t) \<Longrightarrow> same_frame mgr mgr'"
  using label_tables [of mgr gops malloc_ok env r MAX_LABELS_BUFFER_SIZE]
  by (auto simp: IMDB_Rec2Prometheus_def split: prod.splits option.splits)

lemma rec2_printed:
  "IMDB_Rec2Prometheus gops malloc_ok env mgr r entity n = (mgr', t) \<Longrightarrow> t \<noteq> [] \<Longrightarrow> printed_as env entity (k, r) t"
  by (auto simp: IMDB_Rec2Prometheus_def printed_as_def split: prod.splits option.splits)

lemma delete_head:
  assumes "uthash_ok ops" "ut_iter ops h = (k, r) # rs" "distinct (map fst ((k, r) # rs))" "k = rkey r"
  shows "ut_iter ops (HASH_deleteRecord ops h r) = rs"
proof -
  have "ut_iter ops (ut_del ops k h) = filter (\<lambda>x. fst x \<noteq> k) ((k, r) # rs)"
    using ut_iter_del [OF assms(1), of h k] assms(2,3) by simp
  moreover have "k \<notin> fst ` set rs" using assms(3) by simp
  ultimately show ?thesis using assms(4) by (simp add: HASH_deleteRecord_def filter_fst_absent)
qed

lemma tbl_loop_pass:
  assumes "uthash_ok ops" "distinct (map fst rs)" "list_all (\<lambda>(k, r). k = rkey r) rs" "ut_iter ops h = rs"
    and "tbl_loop ops gops malloc_ok env timeout entity mgr h idx l rs = (mgr', h', out)"
  shows "\<exists>n ss. pass_result gops malloc_ok env timeout entity TYPE('h) idx rs (ut_iter ops (h' :: 'h)) n ss
    \<and> out = concat ss \<and> (out \<noteq> [] \<longrightarrow> length out < l) \<and> same_frame mgr mgr'"
  using assms(2-5)
proof (induction rs arbitrary: mgr h idx l out)
  case Nil
  then show ?case by (intro exI [of _ 0] exI [of _ "[]"]) (auto simp: pass_result_def)
next
  case (Cons x rs)
  obtain k r where x: "x = (k, r)" by (cases x)
  have hd: "ut_iter ops (HASH_deleteRecord ops h r) = rs"
    using delete_head [OF assms(1)] Cons.prems x by simp
  have rs: "distinct (map fst rs)" "list_all (\<lambda>(k, r). k = rkey r) rs" using Cons.prems by simp_all
  note IH = Cons.IH [OF rs hd]
  consider (tblfull) "idx \<ge> DEFAULT_PERIOD_RECORD_NUM"
    | (tbldead) "idx < DEFAULT_PERIOD_RECORD_NUM" "\<not> live env timeout x"
    | (tblalive) "idx < DEFAULT_PERIOD_RECORD_NUM" "live env timeout x" by linarith
  then show ?case
  proof cases
    case tblfull
    with Cons.prems x show ?thesis by (intro exI [of _ 0] exI [of _ "[]"]) (auto simp: pass_result_def)
  next
    case tbldead
    then have "tbl_loop ops gops malloc_ok env timeout entity mgr (HASH_deleteRecord ops h r) idx l rs = (mgr', h', out)"
      using Cons.prems(4) x by (simp add: live_def)
    from IH [OF this] obtain n ss where "pass_result gops malloc_ok env timeout entity TYPE('h) idx rs (ut_iter ops h') n ss"
      "out = concat ss" "out \<noteq> [] \<longrightarrow> length out < l" "same_frame mgr mgr'" by blast
    with tbldead show ?thesis by (intro exI [of _ "Suc n"] exI [of _ ss]) (auto simp: pass_result_def)
  next
    case tblalive
    obtain mgr1 t where t: "IMDB_Rec2Prometheus gops malloc_ok env mgr r entity l = (mgr1, t)" by fastforce
    show ?thesis
    proof (cases "t = []")
      case True
      with tblalive t Cons.prems x have "h' = h" "out = []" "mgr' = mgr1" by (auto simp: live_def)
      with True tblalive t Cons.prems x rec2_tables [OF t] show ?thesis
        by (intro exI [of _ 0] exI [of _ "[]"])
           (auto simp: pass_result_def intro!: exI [of _ mgr] exI [of _ l])
    next
      case False
      obtain mgr2 h2 ts where l2: "tbl_loop ops gops malloc_ok env timeout entity mgr1 (HASH_deleteRecord ops h r)
          (idx + 1) (l - length t) rs = (mgr2, h2, ts)" by (metis prod_cases3)
      with tblalive t False Cons.prems x have e: "mgr' = mgr2" "h' = h2" "out = t @ ts" by (auto simp: live_def)
      from IH [OF l2 [folded e(1,2)]] obtain n ss where n: "pass_result gops malloc_ok env timeout entity TYPE('h) (idx + 1) rs (ut_iter ops h') n ss"
        "ts = concat ss" "ts \<noteq> [] \<longrightarrow> length ts < l - length t" "same_frame mgr1 mgr'" by blast
      have "length (t @ ts) < l" using n(3) rec2_bound [OF t False] by (cases "ts = []") auto
      with n(1,2) same_frame_trans [OF rec2_tables [OF t] n(4)] tblalive e x rec2_printed [OF t False, of k]
      show ?thesis by (intro exI [of _ "Suc n"] exI [of _ "t # ss"]) (auto simp: pass_result_def)
    qed
  qed
qed

lemma record_count_zero:
  assumes "uthash_ok ops" "table_ok ops t"
  shows "HASH_recordCount ops (records t) = 0 \<longleftrightarrow> recs ops t = []"
proof
  assume "HASH_recordCount ops (records t) = 0"
  then have "unat (of_nat (length (recs ops t)) :: u32) = 0"
    by (simp add: HASH_recordCount_def ut_count_length [OF assms(1)] recs_def)
  moreover have "length (recs ops t) < 2 ^ 32"
    using assms(2) unat_u32_bound [of "recordsCapability t"] by (simp add: table_ok_def)
  ultimately show "recs ops t = []" by (simp add: unat_of_nat)
qed (simp add: HASH_recordCount_def ut_count_length [OF assms(1)] recs_def)

text \<open>The table afterwards is the old one with another set of records.\<close>

lemma tbl2_pass:
  assumes "uthash_ok ops" "table_ok ops (t :: 'h IMDB_Table)"
    and "IMDB_Tbl2Prometheus ops gops malloc_ok env timeout mgr t l = (mgr', t', out)"
  shows "\<exists>n ss h. t' = t\<lparr>records := h\<rparr> \<and> same_frame mgr mgr'
    \<and> pass_result gops malloc_ok env timeout (entity_name t) TYPE('h) 0 (recs ops t) (recs ops t') n ss
    \<and> out = (if recs ops t = [] then [] else concat ss @ ''\<newline>'')
    \<and> (concat ss \<noteq> [] \<longrightarrow> length (concat ss) < l)"
proof -
  note zero = record_count_zero [OF assms(1,2)]
  show ?thesis
  proof (cases "recs ops t = []")
    case True
    with zero assms(3) have "mgr' = mgr" "t' = t" "out = []" by (auto simp: IMDB_Tbl2Prometheus_def)
    with True show ?thesis
      by (intro exI [of _ 0] exI [of _ "[]"] exI [of _ "records t"]) (simp add: pass_result_def)
  next
    case False
    obtain mgr1 h o1 where l: "tbl_loop ops gops malloc_ok env timeout (entity_name t) mgr (records t) 0 l (ut_iter ops (records t))
        = (mgr1, h, o1)" by (metis prod_cases3)
    with False zero assms(3) have e: "mgr' = mgr1" "t' = t\<lparr>records := h\<rparr>" "out = o1 @ ''\<newline>''"
      by (auto simp: IMDB_Tbl2Prometheus_def)
    have "distinct (map fst (ut_iter ops (records t)))" "list_all (\<lambda>(k, r). k = rkey r) (ut_iter ops (records t))"
      using assms(2) by (simp_all add: table_ok_def recs_def)
    from tbl_loop_pass [OF assms(1) this refl l] obtain n ss where
      "pass_result gops malloc_ok env timeout (entity_name t) TYPE('h) 0 (ut_iter ops (records t)) (ut_iter ops h) n ss"
      "o1 = concat ss" "o1 \<noteq> [] \<longrightarrow> length o1 < l" "same_frame mgr mgr1" by blast
    with e False show ?thesis by (intro exI [of _ n] exI [of _ ss] exI [of _ h]) (simp add: recs_def)
  qed
qed

lemma table_ok_drop:
  assumes "table_ok ops t" "recs ops t' = drop n (recs ops t)" "recordsCapability t' = recordsCapability t"
  shows "table_ok ops t'"
proof -
  have "distinct (map fst (drop n (recs ops t)))" using assms(1) by (simp add: table_ok_def flip: drop_map)
  then show ?thesis using assms by (auto simp: table_ok_def list_all_iff dest: in_set_dropD)
qed

text \<open>C29. One pass of the exporter over a table. The records leave the table from the front, in the order they were
  added: the expired ones silently, each live one after its text has been written, so that no record is
  printed twice and none is skipped. At most 100 are printed; a pass that stops early stops at a live record for
  which nothing could be printed. What is printed fits the buffer.\<close>

theorem imdb_table_pass:
  assumes "uthash_ok ops" "table_ok ops (t :: 'h IMDB_Table)"
    and "IMDB_Tbl2Prometheus ops gops malloc_ok env timeout mgr t l = (mgr', t', out)"
  shows "\<exists>n ss. n \<le> length (recs ops t) \<and> recs ops t' = drop n (recs ops t) \<and> table_ok ops t'
    \<and> out = (if recs ops t = [] then [] else concat ss @ ''\<newline>'')
    \<and> list_all2 (printed_as env (entity_name t)) (filter (live env timeout) (take n (recs ops t))) ss
    \<and> length ss \<le> DEFAULT_PERIOD_RECORD_NUM
    \<and> (n < length (recs ops t) \<longrightarrow> length ss = DEFAULT_PERIOD_RECORD_NUM \<or> live env timeout (recs ops t ! n)
         \<and> (\<exists>(m :: ('h, 'g) IMDB_DataBaseMgr) k. snd (IMDB_Rec2Prometheus gops malloc_ok env m
               (snd (recs ops t ! n)) (entity_name t) k) = []))
    \<and> length out \<le> max l 1"
proof -
  from tbl2_pass [OF assms] obtain n ss h where p: "t' = t\<lparr>records := h\<rparr>"
    "pass_result gops malloc_ok env timeout (entity_name t) TYPE('h) 0 (recs ops t) (recs ops t') n ss"
    "out = (if recs ops t = [] then [] else concat ss @ ''\<newline>'')" "concat ss \<noteq> [] \<longrightarrow> length (concat ss) < l" by blast
  have "table_ok ops t'" using p(1,2) by (intro table_ok_drop [OF assms(2), of _ n]) (auto simp: pass_result_def)
  moreover have "length out \<le> max l 1" using p(3,4) by (cases "concat ss = []") (auto simp del: concat_eq_Nil_conv)
  ultimately show ?thesis using p(2,3) by (intro exI [of _ n] exI [of _ ss]) (auto simp: pass_result_def)
qed

theorem imdb_table_pass_witness:
  "\<exists>mgr' t' out. IMDB_Tbl2Prometheus alist_ops alist_ops (\<lambda>_. True) demo_env 60 (demo_mgr []) demo_full 100 = (mgr', t', out)
     \<and> table_ok alist_ops t' \<and> length out \<le> 100"
proof -
  obtain mgr' t' out where r: "IMDB_Tbl2Prometheus alist_ops alist_ops (\<lambda>_. True) demo_env 60 (demo_mgr []) demo_full 100 = (mgr', t', out)"
    by (metis prod_cases3)
  from imdb_table_pass [OF alist_ops_ok demo_full_ok r] r show ?thesis by auto
qed

section \<open>Printing the database\<close>

text \<open>What the exporter keeps of a list of tables: the names in order, and every table well formed.\<close>

lemma db_loop_tables:
  assumes "uthash_ok ops" "list_all (table_ok ops) ts"
    and "db_loop ops gops malloc_ok env timeout mgr l ts = (mgr', ts', res)"
  shows "list_all (table_ok ops) ts' \<and> map tname ts' = map tname ts \<and> same_frame mgr mgr'
    \<and> (\<forall>out. res = Some out \<longrightarrow> (ts = [] \<longrightarrow> out = []) \<and> (ts \<noteq> [] \<longrightarrow> length out < l))"
  using assms(2,3)
proof (induction ts arbitrary: mgr l mgr' ts' res)
  case (Cons t ts)
  obtain mgr1 t1 out1 where t1: "IMDB_Tbl2Prometheus ops gops malloc_ok env timeout mgr t l = (mgr1, t1, out1)"
    by (metis prod_cases3)
  have tok: "table_ok ops t" "list_all (table_ok ops) ts" using Cons.prems(1) by simp_all
  from tbl2_pass [OF assms(1) tok(1) t1] obtain n ss h where p: "t1 = t\<lparr>records := h\<rparr>" "same_frame mgr mgr1"
    "pass_result gops malloc_ok env timeout (entity_name t) TYPE('a) 0 (recs ops t) (recs ops t1) n ss" by blast
  have ok1: "table_ok ops t1" using p(1,3) by (intro table_ok_drop [OF tok(1), of _ n]) (auto simp: pass_result_def)
  show ?case
  proof (cases "l \<le> length out1")
    case True
    then have "mgr' = mgr1" "ts' = t1 # ts" "res = None" using Cons.prems(2) t1 by simp_all
    with p(1,2) ok1 tok show ?thesis by simp
  next
    case False
    let ?t2 = "if out1 \<noteq> [] then t1\<lparr>weighting := weighting t1 + 1\<rparr> else t1"
    obtain mgr2 ts2 res2 where l2: "db_loop ops gops malloc_ok env timeout mgr1 (l - length out1) ts = (mgr2, ts2, res2)"
      by (metis prod_cases3)
    have e: "mgr' = mgr2" "ts' = ?t2 # ts2" "res = map_option (\<lambda>x. out1 @ x) res2"
      using Cons.prems(2) t1 False l2 by (simp_all add: Let_def split: if_splits)
    have "table_ok ops ?t2" using ok1 by (simp add: table_ok_def recs_def)
    moreover have "tname ?t2 = tname t" using p(1) by simp
    moreover from Cons.IH [OF tok(2) l2] have "list_all (table_ok ops) ts2" "map tname ts2 = map tname ts"
      "same_frame mgr mgr2" "\<forall>out. res2 = Some out \<longrightarrow> (ts = [] \<longrightarrow> out = []) \<and> (ts \<noteq> [] \<longrightarrow> length out < l - length out1)"
      using same_frame_trans [OF p(2)] by simp_all
    ultimately show ?thesis using False unfolding e by (cases res2; cases "ts = []") simp_all
  qed
qed simp

lemma table_ok_unserve [simp]: "table_ok ops (unserve t) = table_ok ops t"
  by (simp add: table_ok_def recs_def unserve_def)

lemma adjust_names:
  assumes "ts \<noteq> []" "distinct (map tname ts)" "list_all (table_ok ops) ts"
  obtains ts' where "IMDB_AdjustTblPrio ts = Ok ts'" "\<exists>k. map tname ts' = rotate k (map tname ts)"
    "list_all (table_ok ops) ts'" "ts' \<noteq> []" "weighting (hd ts') = 0"
proof -
  let ?n = "length (takeWhile served ts)" and ?ts' = "dropWhile served ts @ map unserve (takeWhile served ts)"
  have "tname (unserve t) = tname t" for t :: "'a IMDB_Table" by (simp add: unserve_def)
  then have "map tname ?ts' = map tname (dropWhile served ts) @ map tname (takeWhile served ts)" by simp
  moreover have "map tname (dropWhile served ts) = drop ?n (map tname ts)"
    using dropWhile_eq_drop [of served ts] by (metis drop_map)
  moreover have "map tname (takeWhile served ts) = take ?n (map tname ts)"
    using takeWhile_eq_take [of served ts] by (metis take_map)
  moreover have "drop ?n (map tname ts) @ take ?n (map tname ts) = rotate ?n (map tname ts)"
  proof (cases "?n = length ts")
    case True
    then show ?thesis by (simp add: rotate_drop_take)
  next
    case False
    then have "?n < length ts" using length_takeWhile_le [of served ts] by linarith
    then show ?thesis by (simp add: rotate_drop_take)
  qed
  ultimately have rot: "\<exists>k. map tname ?ts' = rotate k (map tname ts)" by metis
  have ok: "list_all (table_ok ops) ?ts'"
    using assms(3) by (auto simp: list_all_iff dest: set_takeWhileD set_dropWhileD)
  have ne: "?ts' \<noteq> []" using assms(1) by (metis Nil_is_append_conv list.map_disc_iff takeWhile_dropWhile_id append_Nil2)
  have "weighting (hd ?ts') = 0"
  proof (cases "dropWhile served ts = []")
    case True
    with ne obtain a as where "takeWhile served ts = a # as" by (cases "takeWhile served ts") auto
    then show ?thesis by (simp only: True) (simp add: unserve_def)
  next
    case False
    with hd_dropWhile [OF False] show ?thesis by (simp add: served_def)
  qed
  with that [of ?ts'] adjust_prio_rotates [OF assms(1,2)] rot ok ne show ?thesis by blast
qed

text \<open>The export as a whole, on a database with at least one table.\<close>

lemma database2prometheus_result:
  assumes "uthash_ok ops" "mgr_ok ops mgr" "tables mgr \<noteq> []"
  obtains mgr' res where "IMDB_DataBase2Prometheus ops gops malloc_ok env timeout mgr maxLen = Ok (mgr', res)"
    "mgr_ok ops mgr'" "\<exists>k. map tname (tables mgr') = rotate k (map tname (tables mgr))"
    "\<And>out. res = Some out \<Longrightarrow> length out < maxLen \<and> weighting (hd (tables mgr')) = 0"
proof -
  obtain mgr1 ts res where l: "db_loop ops gops malloc_ok env timeout mgr maxLen (tables mgr) = (mgr1, ts, res)"
    by (metis prod_cases3)
  have "list_all (table_ok ops) (tables mgr)" using assms(2) by (simp add: mgr_ok_def)
  from db_loop_tables [OF assms(1) this l] have d: "list_all (table_ok ops) ts" "map tname ts = map tname (tables mgr)"
    "same_frame mgr mgr1" "\<forall>out. res = Some out \<longrightarrow> length out < maxLen" using assms(3) by auto
  have len: "length ts = length (tables mgr)" using d(2) by (metis length_map)
  then have ne: "ts \<noteq> []" using assms(3) by auto
  have dist: "distinct (map tname ts)" using assms(2) d(2) by (simp add: mgr_ok_def)
  have cap: "length ts \<le> unat (tblsCapability mgr1)" using assms(2) len d(3) by (simp add: mgr_ok_def same_frame_def)
  show ?thesis
  proof (cases res)
    case None
    have "\<exists>k. map tname ts = rotate k (map tname (tables mgr))" using d(2) by (intro exI [of _ 0]) simp
    with that [of "mgr1\<lparr>tables := ts\<rparr>" None] None l d(1) dist cap show ?thesis
      by (simp add: IMDB_DataBase2Prometheus_def mgr_ok_def)
  next
    case (Some out)
    obtain ts' where ts': "IMDB_AdjustTblPrio ts = Ok ts'" "\<exists>k. map tname ts' = rotate k (map tname ts)"
      "list_all (table_ok ops) ts'" "ts' \<noteq> []" "weighting (hd ts') = 0"
      using adjust_names [OF ne dist d(1)] by blast
    have "length ts' = length ts" "distinct (map tname ts')"
      using ts'(2) dist by (metis length_map length_rotate, metis distinct_rotate)
    with that [of "mgr1\<lparr>tables := ts'\<rparr>" "Some out"] Some l ts' d(2,4) cap show ?thesis
      by (simp add: IMDB_DataBase2Prometheus_def mgr_ok_def)
  qed
qed

text \<open>C35. The export of the whole database never writes past the buffer: on success the text is shorter than the
  buffer. It always returns when there is a table, keeps the invariant, keeps every table (the list is rotated), and
  leaves a table that has not been served in front.\<close>

theorem imdb_export_database:
  assumes "uthash_ok ops" "mgr_ok ops mgr" "tables mgr \<noteq> []"
  shows "\<exists>mgr' res. IMDB_DataBase2Prometheus ops gops malloc_ok env timeout mgr maxLen = Ok (mgr', res)
    \<and> mgr_ok ops mgr' \<and> (\<exists>k. map tname (tables mgr') = rotate k (map tname (tables mgr)))
    \<and> (\<forall>out. res = Some out \<longrightarrow> length out < maxLen \<and> weighting (hd (tables mgr')) = 0)"
  by (rule database2prometheus_result [OF assms, of gops malloc_ok env timeout maxLen]) blast

theorem imdb_export_database_witness:
  "\<exists>mgr' res. IMDB_DataBase2Prometheus alist_ops alist_ops (\<lambda>_. True) demo_env 60 (demo_mgr []) 100 = Ok (mgr', res)
     \<and> mgr_ok alist_ops mgr' \<and> map tname (tables mgr') = [''tcp'']"
proof -
  have "tables (demo_mgr []) \<noteq> []" by (simp add: demo_mgr_def)
  from imdb_export_database [OF alist_ops_ok demo_mgr_ok this, of alist_ops "\<lambda>_. True" demo_env 60 100]
  show ?thesis by (auto simp: demo_mgr_def demo_table_def)
qed

section \<open>Records that print nothing\<close>

lemma rec_loop_unprintable:
  "list_all (\<lambda>m. mtype m \<notin> set prometheusTypes \<or> mval m = INVALID_METRIC_VALUE) ms \<Longrightarrow> rec_loop env entity labels l ms = []"
  by (induction ms) (auto simp: MetricTypeSatisfyPrometheus_def)

text \<open>A live record without a printable metric blocks its table: the pass takes the empty text for a full buffer and
  stops, so nothing of the table is printed or removed, however many records wait behind it, until it times out.\<close>

theorem imdb_unprintable_record_blocks:
  assumes "uthash_ok ops" "table_ok ops t" "recs ops t = (k, r) # rs" "live env timeout (k, r)" "unprintable r"
  shows "\<exists>mgr'. IMDB_Tbl2Prometheus ops gops malloc_ok env timeout mgr t l = (mgr', t, ''\<newline>'')"
proof -
  obtain mgr' s where s: "IMDB_Rec2Prometheus gops malloc_ok env mgr r (entity_name t) l = (mgr', s)" by fastforce
  have "s = []"
    using s assms(5) by (auto simp: IMDB_Rec2Prometheus_def unprintable_def rec_loop_unprintable split: prod.splits option.splits)
  then have "tbl_loop ops gops malloc_ok env timeout (entity_name t) mgr (records t) 0 l ((k, r) # rs) = (mgr', records t, [])"
    using assms(4) s by (simp add: live_def DEFAULT_PERIOD_RECORD_NUM_def)
  moreover have "HASH_recordCount ops (records t) \<noteq> 0" using record_count_zero [OF assms(1,2)] assms(3) by simp
  ultimately show ?thesis using assms(3) by (simp add: IMDB_Tbl2Prometheus_def recs_def)
qed

theorem imdb_unprintable_record_blocks_witness:
  "\<exists>mgr'. IMDB_Tbl2Prometheus alist_ops alist_ops (\<lambda>_. True) demo_env 60 (demo_mgr []) demo_full 100 = (mgr', demo_full, ''\<newline>'')"
  by (rule imdb_unprintable_record_blocks [OF alist_ops_ok demo_full_ok, of "''k''" demo_rec "[]"])
     (simp_all add: demo_full_def recs_def live_def demo_rec_def demo_env_def unprintable_def INVALID_METRIC_VALUE_def)

section \<open>Labels without a label metric\<close>

lemma label_loop_none:
  "list_all (\<lambda>m. \<not> MetricTypeIsLabel m \<or> mval m = INVALID_METRIC_VALUE) ms \<Longrightarrow> list_all (\<lambda>m. \<not> MetricNameIsTgid m) ms
   \<Longrightarrow> label_loop ms b first tg = Some (b, tg)"
  by (induction ms arbitrary: first) auto

text \<open>When a record has no label with a value, the separator of the machine label is written all the same and the
  label set starts with a comma, which is not Prometheus text format.\<close>

theorem imdb_labels_leading_comma:
  assumes "list_all (\<lambda>m. \<not> MetricTypeIsLabel m \<or> mval m = INVALID_METRIC_VALUE) (metrics r)"
    and "list_all (\<lambda>m. \<not> MetricNameIsTgid m) (metrics r)" "hostIP mgr \<noteq> []"
    and "length (systemUuid mgr) < 40" "length (hostIP mgr) < 64"
  shows "IMDB_BuildPrometheusLabel gops malloc_ok env mgr r MAX_LABELS_BUFFER_SIZE
    = (mgr, Some (''{,machine_id=\"'' @ systemUuid mgr @ ''-'' @ hostIP mgr @ ''\"}''))"
  using assms
  by (simp add: IMDB_BuildPrometheusLabel_def label_loop_none snprintf_app_def MAX_LABELS_BUFFER_SIZE_def Let_def)

theorem imdb_labels_leading_comma_witness:
  "IMDB_BuildPrometheusLabel alist_ops (\<lambda>_. True) demo_env (demo_mgr []) demo_rec MAX_LABELS_BUFFER_SIZE
     = (demo_mgr [], Some ''{,machine_id=\"u-h\"}'')"
  using imdb_labels_leading_comma [of demo_rec "demo_mgr []" alist_ops "\<lambda>_. True" demo_env]
  by (simp add: demo_rec_def demo_mgr_def MetricTypeIsLabel_def METRIC_TYPE_LABEL_def METRIC_TYPE_KEY_def
      MetricNameIsTgid_def)

section \<open>JSON\<close>

lemma json_metrics_text:
  "json_metrics ms (s, l) = (let x = concat (map (\<lambda>m. '', \"'' @ mname m @ ''\": \"'' @ mval m @ ''\"'') ms) in
     if ms = [] \<or> int (length x) \<le> l then Some (s @ x, l - int (length x)) else None)"
proof (induction ms arbitrary: s l)
  case (Cons m ms)
  show ?case
  proof (cases "ms = []")
    case True
    then show ?thesis by (simp add: json_app_def Let_def)
  next
    case False
    then show ?thesis by (auto simp: json_app_def Let_def Cons.IH)
  qed
qed simp

lemma json_chain:
  "Option.bind (json_app ([], int n) a) (\<lambda>b0. Option.bind (json_app b0 b) (\<lambda>b1. Option.bind (json_app b1 c) (\<lambda>b2.
     Option.bind (json_metrics ms b2) (\<lambda>(s, left). Some (take (n - 1) (s @ ''}'')))))) =
   (let x = a @ b @ c @ concat (map (\<lambda>m. '', \"'' @ mname m @ ''\": \"'' @ mval m @ ''\"'') ms) in
    if length x \<le> n then Some (take (n - 1) (x @ ''}'')) else None)"
  by (auto simp: json_app_def Let_def json_metrics_text add.assoc)

text \<open>\<open>IMDB_Record2Json\<close> succeeds exactly when the object without its closing brace fits the buffer, and then holds the object cut to
  the buffer: with no room for the brace and the terminator it returns success and a text that is not JSON.\<close>

theorem imdb_record2json:
  "IMDB_Record2Json env mgr t r n =
     (if length (json_body env mgr t r) \<le> n then Some (take (n - 1) (json_body env mgr t r @ ''}'')) else None)"
  unfolding IMDB_Record2Json_def json_chain json_body_def Let_def by simp

section \<open>The cache of process labels\<close>

text \<open>After the labels of a process have been read, a lookup in the same state of the system returns them without
  reading them again; the oldest entry makes room, the cache never holds more than 1025 entries and each once.\<close>

theorem imdb_tgid_cache:
  assumes "uthash_ok gops" "cache_ok gops (tgids mgr)" "IMDB_TgidLkupRecord gops env mgr v = None"
    and "IMDB_TgidCreateRecord gops malloc_ok env mgr v = (mgr', Some tr)"
  shows "IMDB_TgidLkupRecord gops env mgr' v = Some tr \<and> cache_ok gops (tgids mgr')
    \<and> (\<exists>n \<le> 1. ut_iter gops (tgids mgr') = drop n (ut_iter gops (tgids mgr)) @ [(tg_key tr, tr)])"
proof -
  let ?it = "ut_iter gops (tgids mgr)" and ?k = "(take INT_LEN v, env_startup env (atoi v))"
  have tr: "tg_key tr = ?k" "mgr' = IMDB_TgidAddRecord gops mgr tr"
    using assms(4) by (auto simp: IMDB_TgidCreateRecord_def Let_def split: option.splits if_splits)
  have d: "distinct (map fst ?it)" "length ?it \<le> 1025" using assms(2) by (simp_all add: cache_ok_def IMDB_TGID_CACHE_SIZE_def)
  have fresh: "?k \<notin> fst ` set ?it"
    using assms(3) ut_find_map_of [OF assms(1) d(1)] by (simp add: IMDB_TgidLkupRecord_def map_of_eq_None_iff)
  define g where "g = (if ut_count gops (tgids mgr) > IMDB_TGID_CACHE_SIZE
      then (case ?it of [] \<Rightarrow> tgids mgr | (k, _) # _ \<Rightarrow> ut_del gops k (tgids mgr)) else tgids mgr)"
  have "\<exists>n \<le> 1. ut_iter gops g = drop n ?it \<and> length (drop n ?it) \<le> 1024"
  proof (cases "length ?it > 1024")
    case True
    then obtain k x rest where it: "?it = (k, x) # rest" by (cases ?it) auto
    then have "ut_iter gops g = filter (\<lambda>y. fst y \<noteq> k) ((k, x) # rest)"
      using True ut_iter_del [OF assms(1) d(1), of k] ut_count_length [OF assms(1)]
      by (simp add: g_def IMDB_TGID_CACHE_SIZE_def)
    moreover have "k \<notin> fst ` set rest" using d(1) it by simp
    ultimately show ?thesis using it d(2) by (intro exI [of _ 1]) (simp add: filter_fst_absent)
  next
    case False
    then show ?thesis using ut_count_length [OF assms(1)]
      by (intro exI [of _ 0]) (simp add: g_def IMDB_TGID_CACHE_SIZE_def)
  qed
  then obtain n where n: "n \<le> 1" "ut_iter gops g = drop n ?it" "length (drop n ?it) \<le> 1024" by blast
  have "?k \<notin> fst ` set (ut_iter gops g)" using fresh n(2) by (auto dest: in_set_dropD)
  then have it': "ut_iter gops (tgids mgr') = drop n ?it @ [(?k, tr)]"
    using ut_iter_add [OF assms(1)] n(2) tr by (simp add: IMDB_TgidAddRecord_def g_def [symmetric] Let_def)
  have "distinct (map fst (drop n ?it @ [(?k, tr)]))"
    using d(1) fresh by (auto simp flip: drop_map dest: in_set_dropD)
  then have ok: "cache_ok gops (tgids mgr')" using it' n(3) by (simp add: cache_ok_def IMDB_TGID_CACHE_SIZE_def)
  have "?k \<notin> fst ` set (drop n ?it)" using fresh by (auto dest: in_set_dropD)
  then have "map_of (ut_iter gops (tgids mgr')) ?k = Some tr"
    by (simp add: it' map_add_def map_of_eq_None_iff [THEN iffD2] del: set_drop_subset)
  then have "IMDB_TgidLkupRecord gops env mgr' v = Some tr"
    using ut_find_map_of [OF assms(1)] ok by (simp add: IMDB_TgidLkupRecord_def cache_ok_def)
  with ok it' n(1) tr(1) show ?thesis by auto
qed

theorem imdb_tgid_cache_witness:
  "\<exists>mgr' tr. IMDB_TgidCreateRecord alist_ops (\<lambda>_. True) demo_env (demo_mgr []) ''42'' = (mgr', Some tr)
     \<and> IMDB_TgidLkupRecord alist_ops demo_env mgr' ''42'' = Some tr \<and> comm tr = ''sh''"
proof -
  obtain mgr' tr where r: "IMDB_TgidCreateRecord alist_ops (\<lambda>_. True) demo_env (demo_mgr []) ''42'' = (mgr', Some tr)"
    and c: "comm tr = ''sh''"
    by (simp add: IMDB_TgidCreateRecord_def demo_env_def Let_def)
  have "cache_ok alist_ops (tgids (demo_mgr []))" "IMDB_TgidLkupRecord alist_ops demo_env (demo_mgr []) ''42'' = None"
    by (simp_all add: cache_ok_def demo_mgr_def IMDB_TgidLkupRecord_def)
  from imdb_tgid_cache [OF alist_ops_ok this r] r c show ?thesis by blast
qed

section \<open>Every reachable database\<close>

text \<open>The states of a database: created, given tables, fed with lines, and exported, in any order.\<close>

inductive imdb_reachable :: "'h rec_ops \<Rightarrow> 'g tgid_ops \<Rightarrow> ('h, 'g) IMDB_DataBaseMgr \<Rightarrow> bool"
  for ops :: "'h rec_ops" and gops :: "'g tgid_ops" where
  create: "IMDB_DataBaseMgrCreate (ut_empty gops) malloc_ok uuid ip lock_ok capacity = Some mgr \<Longrightarrow> imdb_reachable ops gops mgr"
| table: "imdb_reachable ops gops mgr \<Longrightarrow> IMDB_TableCreate ops malloc_ok name capacity = Some t \<Longrightarrow>
    imdb_reachable ops gops (fst (IMDB_DataBaseMgrAddTable mgr
      (IMDB_TableSetRecordKeySize (IMDB_TableSetMeta (IMDB_TableSetEntityName t ename) mt) keyNum)))"
| line: "imdb_reachable ops gops mgr \<Longrightarrow> IMDB_DataBaseMgrAddRecord ops malloc_ok now mgr s = Ok (mgr', ret) \<Longrightarrow>
    imdb_reachable ops gops mgr'"
| rec: "imdb_reachable ops gops mgr \<Longrightarrow> ti < length (tables mgr) \<Longrightarrow>
    IMDB_DataBaseMgrCreateRec ops malloc_ok now (tables mgr ! ti) s = Ok (t', r) \<Longrightarrow>
    imdb_reachable ops gops (mgr\<lparr>tables := (tables mgr)[ti := t']\<rparr>)"
| export: "imdb_reachable ops gops mgr \<Longrightarrow>
    IMDB_DataBase2Prometheus ops gops malloc_ok env timeout mgr maxLen = Ok (mgr', res) \<Longrightarrow> imdb_reachable ops gops mgr'"

lemma find_table_less: "find_table n ts name = Some i \<Longrightarrow> i < n + length ts"
  by (induction ts arbitrary: n) (fastforce split: if_splits)+

lemma add_tokens_less:
  assumes "add_tokens malloc_ok mgr cur ts = Ok (Some (Some (ti, r)))"
    and "\<forall>i r k j. cur = Some (i, r, k, j) \<longrightarrow> i < length (tables mgr)"
  shows "ti < length (tables mgr)"
  using assms
proof (induction ts arbitrary: cur)
  case Nil
  then show ?case by (auto split: option.splits)
next
  case (Cons token ts)
  show ?case
  proof (cases cur)
    case None
    note run = Cons.prems(1) [unfolded None add_tokens.simps]
    show ?thesis
    proof (cases "token = [] \<or> token = ''\<newline>''")
      case True
      with run have "add_tokens malloc_ok mgr None ts = Ok (Some (Some (ti, r)))" by (simp only: if_True)
      from Cons.IH [OF this] show ?thesis by simp
    next
      case False
      then obtain i where i: "IMDB_DataBaseMgrFindTable mgr token = Some i"
        using run by (cases "IMDB_DataBaseMgrFindTable mgr token") simp_all
      obtain r' where "add_tokens malloc_ok mgr (Some (i, r', 0, 0)) ts = Ok (Some (Some (ti, r)))"
        using run False i by (auto simp only: if_False option.case Let_def split: if_splits option.splits)
      from Cons.IH [OF this] find_table_less [OF i [unfolded IMDB_DataBaseMgrFindTable_def]] show ?thesis by simp
    qed
  next
    case (Some c)
    obtain i r' k j where c: "c = (i, r', k, j)" by (cases c)
    have step: "add_tokens malloc_ok mgr (Some (i, r', k, j)) (token # ts) = Ok (Some (Some (ti, r)))"
      using Cons.prems(1) Some c by simp
    have "ti = i \<or> (\<exists>r' k j. add_tokens malloc_ok mgr (Some (i, r', k, j)) ts = Ok (Some (Some (ti, r))))"
      using step by (simp split: if_splits option.splits) (blast, auto dest!: bnd_eq_OkD split: sum.splits)
    moreover have "i < length (tables mgr)" using Cons.prems(2) Some c by simp
    ultimately show ?thesis using Cons.IH by blast
  qed
qed

lemma table_add_frame:
  assumes "uthash_ok ops" "table_ok ops t" "IMDB_TableAddRecord ops now t r = (t', ret)"
  shows "table_ok ops t' \<and> tname t' = tname t"
proof -
  have "tname t' = tname t"
    using assms(3) by (auto simp: IMDB_TableAddRecord_def Let_def split: if_splits)
  then show ?thesis using table_ok_add [OF assms(1,2), of now r] assms(3) by simp
qed

lemma create_rec_frame:
  assumes "uthash_ok ops" "table_ok ops t" "IMDB_DataBaseMgrCreateRec ops malloc_ok now t s = Ok (t', r)"
  shows "table_ok ops t' \<and> tname t' = tname t"
  using assms(3) assms(2) table_add_frame [OF assms(1,2)]
  by (auto simp: IMDB_DataBaseMgrCreateRec_def dest!: bnd_eq_OkD split: option.splits prod.splits if_splits)

lemma add_record_frame:
  assumes "uthash_ok ops" "mgr_ok ops mgr" "IMDB_DataBaseMgrAddRecord ops malloc_ok now mgr s = Ok (mgr', ret)"
  shows "mgr_ok ops mgr'"
proof -
  show ?thesis
  proof (cases "malloc_ok ABuffer")
    case False
    with assms(2,3) show ?thesis by (simp add: IMDB_DataBaseMgrAddRecord_def)
  next
    case True
    with assms(3) obtain x where x: "add_tokens malloc_ok mgr None (strsep_all s) = Ok x"
      by (cases "add_tokens malloc_ok mgr None (strsep_all s)") (simp_all add: IMDB_DataBaseMgrAddRecord_def)
    note run = assms(3) [unfolded IMDB_DataBaseMgrAddRecord_def x bnd_simps]
    show ?thesis
    proof (cases x)
      case None
      with run True assms(2) show ?thesis by simp
    next
      case (Some y)
      then obtain ti r where y: "y = Some (ti, r)" using run True by (cases y) auto
      obtain t rt where t: "IMDB_TableAddRecord ops now (tables mgr ! ti) r = (t, rt)" by fastforce
      have "ti < length (tables mgr)" using add_tokens_less [of malloc_ok mgr None] x Some y by simp
      moreover from this have "table_ok ops (tables mgr ! ti)" using assms(2) by (simp add: mgr_ok_def list_all_length)
      moreover have "mgr' = mgr\<lparr>tables := (tables mgr)[ti := t]\<rparr>" using run True Some y t by simp
      ultimately show ?thesis using mgr_ok_update [OF assms(2)] table_add_frame [OF assms(1) _ t] by simp
    qed
  qed
qed

lemma add_table_frame:
  assumes "mgr_ok ops mgr" "table_ok ops t"
  shows "mgr_ok ops (fst (IMDB_DataBaseMgrAddTable mgr t))"
proof -
  have "length (tables mgr) < unat (tblsCapability mgr)" if "(of_nat (tablesNum mgr) :: u32) \<noteq> tblsCapability mgr"
  proof (rule ccontr)
    assume "\<not> length (tables mgr) < unat (tblsCapability mgr)"
    then have "length (tables mgr) = unat (tblsCapability mgr)" using assms(1) by (simp add: mgr_ok_def)
    with that show False by (simp add: tablesNum_def)
  qed
  then show ?thesis using assms
    by (auto simp: IMDB_DataBaseMgrAddTable_def mgr_ok_def list_all_iff list_ex_iff)
qed

text \<open>C13. In every state the database can reach, by any sequence of creating it, adding tables, feeding lines well
  formed or not, and exporting, table names are unique, every table holds each key once and under the record's own
  key, and neither the tables nor the records exceed their capacity.\<close>

theorem imdb_invariant:
  assumes "uthash_ok ops" "imdb_reachable ops gops mgr"
  shows "mgr_ok ops mgr"
  using assms(2)
proof induction
  case (create malloc_ok uuid ip lock_ok capacity mgr)
  then show ?case by (auto simp: IMDB_DataBaseMgrCreate_def mgr_ok_def split: if_splits option.splits)
next
  case (table mgr malloc_ok name capacity t ename mt keyNum)
  then have "recs ops t = []"
    using ut_iter_empty [OF assms(1)] by (auto simp: IMDB_TableCreate_def recs_def split: if_splits)
  with table.IH show ?case
    by (intro add_table_frame) (simp_all add: table_ok_def recs_def IMDB_TableSetRecordKeySize_def
        IMDB_TableSetMeta_def IMDB_TableSetEntityName_def)
next
  case (line mgr malloc_ok now s mgr' ret)
  then show ?case using add_record_frame [OF assms(1)] by blast
next
  case (rec mgr ti malloc_ok now s t' r)
  then have "table_ok ops (tables mgr ! ti)" by (simp add: mgr_ok_def list_all_length)
  with rec create_rec_frame [OF assms(1)] show ?case by (blast intro: mgr_ok_update)
next
  case (export mgr malloc_ok env timeout maxLen mgr' res)
  show ?case
  proof (cases "tables mgr = []")
    case True
    with export.hyps show ?thesis by (simp add: IMDB_DataBase2Prometheus_def IMDB_AdjustTblPrio_def)
  next
    case False
    with export.hyps show ?thesis
      by (auto elim!: database2prometheus_result [OF assms(1) export.IH, of gops malloc_ok env timeout maxLen])
  qed
qed

theorem imdb_invariant_witness:
  "\<exists>mgr :: ((string \<times> IMDB_Record) list, ((string \<times> int) \<times> TGID_Record) list) IMDB_DataBaseMgr.
     imdb_reachable alist_ops alist_ops mgr \<and> mgr_ok alist_ops mgr \<and> map tname (tables mgr) = [''tcp'']"
proof -
  let ?m0 = "\<lparr>tblsCapability = 4, tables = [], systemUuid = ''u'', hostIP = [], tgids = []\<rparr>
      :: ((string \<times> IMDB_Record) list, ((string \<times> int) \<times> TGID_Record) list) IMDB_DataBaseMgr"
  let ?t = "\<lparr>tname = ''tcp'', entity_name = [], meta = None, weighting = 0, recordsCapability = 9, recordKeySize = 0, records = []\<rparr>
      :: (string \<times> IMDB_Record) list IMDB_Table"
  let ?m1 = "fst (IMDB_DataBaseMgrAddTable ?m0
      (IMDB_TableSetRecordKeySize (IMDB_TableSetMeta (IMDB_TableSetEntityName ?t ''tcp'') (Some demo_meta)) 1))"
  have "imdb_reachable alist_ops alist_ops ?m0"
    by (rule imdb_reachable.create [of alist_ops "\<lambda>_. True" "Some ''u''" None True 4]) (simp add: IMDB_DataBaseMgrCreate_def)
  then have r: "imdb_reachable alist_ops alist_ops ?m1"
    by (rule imdb_reachable.table [of _ _ _ "\<lambda>_. True" "''tcp''" 9])
       (simp add: IMDB_TableCreate_def snprintf_s_def imdb_len_defs)
  have n: "map tname (tables ?m1) = [''tcp'']"
    by (simp add: IMDB_DataBaseMgrAddTable_def tablesNum_def IMDB_TableSetRecordKeySize_def
        IMDB_TableSetMeta_def IMDB_TableSetEntityName_def)
  show ?thesis using r imdb_invariant [OF alist_ops_ok r] n by (intro exI [of _ ?m1] conjI)
qed

section \<open>Decimal numbers\<close>

lemma digits_numeral: "digits (numeral k) n = (if n < 10 then [char_of (48 + n)] else digits (pred_numeral k) (n div 10) @ [char_of (48 + n mod 10)])"
  by (simp add: numeral_eq_Suc)

lemma digit_chars: "d < 10 \<Longrightarrow> char_of (48 + d :: nat) \<in> set ''0123456789''"
proof -
  have "list_all (\<lambda>d. char_of (48 + d :: nat) \<in> set ''0123456789'') [0..<10]" by code_simp
  then show "d < 10 \<Longrightarrow> char_of (48 + d :: nat) \<in> set ''0123456789''" by (simp add: list_all_iff del: list.set)
qed

lemma digits_set: "set (digits f n) \<subseteq> set ''0123456789''"
proof (induction f arbitrary: n)
  case (Suc f)
  show ?case
  proof (cases "n < 10")
    case True
    then show ?thesis using digit_chars [of n] by simp
  next
    case False
    then show ?thesis using Suc [of "n div 10"] digit_chars [of "n mod 10"] by simp
  qed
qed simp

lemma digits_length: "length (digits f n) \<le> f"
  by (induction f arbitrary: n) (auto intro: le_trans)

lemma digits_nonempty: "0 < f \<Longrightarrow> digits f n \<noteq> []"
  by (cases f) simp_all

lemma show_lld_nonneg: "0 \<le> n \<Longrightarrow> hd (show_lld n) \<noteq> CHR ''-'' \<and> set (show_lld n) \<subseteq> set ''0123456789'' \<and> length (show_lld n) \<le> 20"
proof -
  assume "0 \<le> n"
  then have e: "show_lld n = digits 20 (nat n)" by (simp add: show_lld_def)
  have "hd (digits 20 (nat n)) \<in> set ''0123456789''" using subsetD [OF digits_set hd_in_set [OF digits_nonempty]] by simp
  then have "hd (digits 20 (nat n)) \<noteq> CHR ''-''" by auto
  then show ?thesis using digits_set [of 20 "nat n"] digits_length [of 20 "nat n"] unfolding e by blast
qed

lemma show_lld_minus_one: "show_lld (- 1) = ''-1''"
  by code_simp

end
