(* ===== verification/Raw_Data.thy ===== *)
theory Raw_Data
  imports Gopher_Prelude
begin

unbundle bit_operations_syntax

text \<open>
  The buffers of the layer-7 probe and the primitives its protocol parsers are built from:
  \<open>protocol/common/protocol_common.c\<close> and \<open>protocol/utils/binary_decoder.c\<close>. A \<open>struct raw_data_s\<close> is its bytes and a
  read position. Every read is checked against the block, so that the model says where the code leaves it.
\<close>

section \<open>Buffers\<close>

datatype parse_state_t = STATE_SUCCESS | STATE_INVALID | STATE_NEEDS_MORE_DATA | STATE_IGNORE
  | STATE_EOS | STATE_NOT_FOUND | STATE_UNKNOWN

text \<open>
  \<open>data_len\<close> is the length of \<open>data\<close>. Members the code leaves uninitialised, \<open>flags\<close> and \<open>timestamp_ns\<close> of copies and
  sub-buffers, are 0 here; they are not read there.
\<close>

record raw_data_s =
  flags :: u32
  timestamp_ns :: u64
  current_pos :: nat
  data :: "byte list"

definition data_len :: "raw_data_s \<Rightarrow> nat" where
  "data_len r = length (data r)"

definition raw_ok :: "raw_data_s \<Rightarrow> bool" where
  "raw_ok r \<longleftrightarrow> current_pos r \<le> data_len r"

text \<open>\<open>data_len - current_pos\<close> as a \<open>size_t\<close>.\<close>

definition unconsumed :: "raw_data_s \<Rightarrow> nat" where
  "unconsumed r = (if current_pos r \<le> data_len r then data_len r - current_pos r
     else 2 ^ 64 + data_len r - current_pos r)"

text \<open>The bytes that are left.\<close>

definition rest_bytes :: "raw_data_s \<Rightarrow> byte list" where
  "rest_bytes r = drop (current_pos r) (data r)"

definition parser_copy_raw_data :: "(nat \<Rightarrow> bool) \<Rightarrow> raw_data_s \<Rightarrow> raw_data_s option" where
  "parser_copy_raw_data malloc_ok r =
     (if malloc_ok (data_len r) then Some (r\<lparr>flags := 0\<rparr>) else None)"

definition init_raw_data_with_str :: "(nat \<Rightarrow> bool) \<Rightarrow> byte list \<Rightarrow> nat \<Rightarrow> raw_data_s option outc" where
  "init_raw_data_with_str malloc_ok str str_len =
     (if malloc_ok str_len
      then bnd (rd str 0 str_len) (\<lambda>bs. Ok (Some \<lparr>flags = 0, timestamp_ns = 0, current_pos = 0, data = bs\<rparr>))
      else Ok None)"

definition parser_raw_data_offset :: "raw_data_s \<Rightarrow> nat \<Rightarrow> raw_data_s" where
  "parser_raw_data_offset r offset = r\<lparr>current_pos := current_pos r + min offset (unconsumed r)\<rparr>"

section \<open>Decoders\<close>

text \<open>Each gives the state, the value it stored through its result pointer if it did, and the buffer.\<close>

type_synonym 'a decode = "(parse_state_t \<times> 'a option \<times> raw_data_s) outc"

definition decoder_extract_char :: "raw_data_s \<Rightarrow> byte decode" where
  "decoder_extract_char r =
     (if unconsumed r < 1 then Ok (STATE_NEEDS_MORE_DATA, None, r)
      else bnd (rd (data r) (current_pos r) 1) (\<lambda>bs.
        Ok (STATE_SUCCESS, Some (hd bs), parser_raw_data_offset r 1)))"

text \<open>\<open>big_endian_bytes_to_INT_TYPE\<close>: the loop at the width of the type.\<close>

definition big_endian_bytes_to :: "byte list \<Rightarrow> 'a::len word" where
  "big_endian_bytes_to bs = foldl (\<lambda>res b. ucast b OR push_bit 8 res) 0 bs"

text \<open>\<open>decoder_extract_INT_TYPE\<close> for a type of \<open>n\<close> bytes; the signed types read the word with \<open>sint\<close>.\<close>

definition decoder_extract_int :: "nat \<Rightarrow> raw_data_s \<Rightarrow> 'a::len word decode" where
  "decoder_extract_int n r =
     (if unconsumed r < n then Ok (STATE_NEEDS_MORE_DATA, None, r)
      else bnd (rd (data r) (current_pos r) n) (\<lambda>bs.
        Ok (STATE_SUCCESS, Some (big_endian_bytes_to bs), parser_raw_data_offset r n)))"

definition decoder_extract_int8_t :: "raw_data_s \<Rightarrow> 8 word decode" where
  "decoder_extract_int8_t = decoder_extract_int 1"
definition decoder_extract_int16_t :: "raw_data_s \<Rightarrow> 16 word decode" where
  "decoder_extract_int16_t = decoder_extract_int 2"
definition decoder_extract_int32_t :: "raw_data_s \<Rightarrow> 32 word decode" where
  "decoder_extract_int32_t = decoder_extract_int 4"

text \<open>The new string with its terminator, or None when \<open>malloc\<close> fails.\<close>

definition extract_prefix_bytes_string :: "(nat \<Rightarrow> bool) \<Rightarrow> raw_data_s \<Rightarrow> nat \<Rightarrow> nat \<Rightarrow> (byte list option \<times> raw_data_s) outc" where
  "extract_prefix_bytes_string malloc_ok r decode_len data_stream_offset =
     (if \<not> malloc_ok (decode_len + 1) then Ok (None, r)
      else bnd (rd (data r) (current_pos r) decode_len) (\<lambda>bs.
        Ok (Some (bs @ [0]), parser_raw_data_offset r data_stream_offset)))"

definition decoder_extract_raw_data_with_len :: "(nat \<Rightarrow> bool) \<Rightarrow> raw_data_s \<Rightarrow> nat \<Rightarrow> raw_data_s decode" where
  "decoder_extract_raw_data_with_len malloc_ok r decode_len =
     (if unconsumed r < decode_len then Ok (STATE_NEEDS_MORE_DATA, None, r)
      else if \<not> malloc_ok decode_len then Ok (STATE_INVALID, None, r)
      else bnd (rd (data r) (current_pos r) decode_len) (\<lambda>bs.
        Ok (STATE_SUCCESS, Some \<lparr>flags = 0, timestamp_ns = 0, current_pos = 0, data = bs\<rparr>,
            parser_raw_data_offset r decode_len)))"

definition string_result :: "(byte list option \<times> raw_data_s) outc \<Rightarrow> byte list decode" where
  "string_result x = bnd x (\<lambda>(s, r). case s of None \<Rightarrow> Ok (STATE_INVALID, None, r) | Some s \<Rightarrow> Ok (STATE_SUCCESS, Some s, r))"

definition decoder_extract_string :: "(nat \<Rightarrow> bool) \<Rightarrow> raw_data_s \<Rightarrow> nat \<Rightarrow> byte list decode" where
  "decoder_extract_string malloc_ok r decode_len =
     (if unconsumed r < decode_len then Ok (STATE_NEEDS_MORE_DATA, None, r)
      else string_result (extract_prefix_bytes_string malloc_ok r decode_len decode_len))"

text \<open>The position of the first \<open>search_char\<close> from the read position on.\<close>

fun find_char :: "nat \<Rightarrow> byte list \<Rightarrow> byte \<Rightarrow> nat option" where
  "find_char i [] c = None"
| "find_char i (b # bs) c = (if b = c then Some i else find_char (i + 1) bs c)"

definition decoder_extract_str_until_char :: "(nat \<Rightarrow> bool) \<Rightarrow> raw_data_s \<Rightarrow> byte \<Rightarrow> byte list decode" where
  "decoder_extract_str_until_char malloc_ok r c =
     (case find_char (current_pos r) (rest_bytes r) c of
        None \<Rightarrow> Ok (STATE_NOT_FOUND, None, r)
      | Some p \<Rightarrow> string_result (extract_prefix_bytes_string malloc_ok r (p - current_pos r) (p - current_pos r + 1)))"

text \<open>
  \<open>memmem_custom\<close> from index \<open>i\<close> of the \<open>hlen\<close> bytes at \<open>start\<close> of \<open>m\<close>; the bound \<open>haystack_len - needle_len\<close> is a \<open>size_t\<close> and
  wraps when the needle is the longer one. The loop ends at the bound or when a comparison leaves the block.
\<close>

function memmem_loop :: "byte list \<Rightarrow> nat \<Rightarrow> nat \<Rightarrow> byte list \<Rightarrow> nat \<Rightarrow> nat option outc" where
  "memmem_loop m start hlen needle i =
     (let bound = (if length needle \<le> hlen then hlen - length needle else 2 ^ 64 + hlen - length needle) in
      if bound < i then Ok None
      else case rd m (start + i) (length needle) of
        Ok bs \<Rightarrow> if bs = needle then Ok (Some i) else memmem_loop m start hlen needle (i + 1)
      | UB \<Rightarrow> UB | NoRet \<Rightarrow> NoRet)"
  by pat_completeness auto
termination
  by (relation "measure (\<lambda>(m, start, hlen, needle, i). Suc (2 ^ 64 + hlen) - i)") (auto split: if_splits)

declare memmem_loop.simps [simp del]

definition memmem_custom :: "byte list \<Rightarrow> nat \<Rightarrow> nat \<Rightarrow> byte list \<Rightarrow> nat option outc" where
  "memmem_custom m start hlen needle = (if needle = [] then Ok (Some 0) else memmem_loop m start hlen needle 0)"

text \<open>\<open>search_str\<close> without its terminator.\<close>

definition decoder_extract_str_until_str :: "(nat \<Rightarrow> bool) \<Rightarrow> raw_data_s \<Rightarrow> byte list \<Rightarrow> byte list decode" where
  "decoder_extract_str_until_str malloc_ok r search_str =
     bnd (memmem_custom (data r) (current_pos r) (unconsumed r) search_str) (\<lambda>p.
       case p of None \<Rightarrow> Ok (STATE_NOT_FOUND, None, r)
       | Some str_pos \<Rightarrow> string_result (extract_prefix_bytes_string malloc_ok r str_pos (str_pos + length search_str)))"

definition decoder_extract_prefix_ignore :: "raw_data_s \<Rightarrow> nat \<Rightarrow> (parse_state_t \<times> raw_data_s) outc" where
  "decoder_extract_prefix_ignore r prefix_len =
     (if unconsumed r < prefix_len then Ok (STATE_NEEDS_MORE_DATA, r)
      else Ok (STATE_SUCCESS, parser_raw_data_offset r prefix_len))"

text \<open>Running a decoder and returning early unless it succeeds; the state it failed with goes to \<open>err\<close>.\<close>

definition dec :: "'a decode \<Rightarrow> (parse_state_t \<Rightarrow> raw_data_s \<Rightarrow> 'b outc) \<Rightarrow> ('a \<Rightarrow> raw_data_s \<Rightarrow> 'b outc) \<Rightarrow> 'b outc" where
  "dec x err f = bnd x (\<lambda>(st, v, r). if st = STATE_SUCCESS then (case v of Some a \<Rightarrow> f a r | None \<Rightarrow> UB) else err st r)"

definition be_val :: "byte list \<Rightarrow> nat" where
  "be_val bs = foldl (\<lambda>a b. 256 * a + unat b) 0 bs"

definition advance :: "raw_data_s \<Rightarrow> nat \<Rightarrow> raw_data_s" where
  "advance r n = r\<lparr>current_pos := current_pos r + n\<rparr>"

text \<open>What a decoder may do to a buffer: read forward inside it, and leave it alone unless it succeeds.\<close>

definition decode_safe :: "raw_data_s \<Rightarrow> 'a decode \<Rightarrow> bool" where
  "decode_safe r x = (case x of Ok (st, v, r') \<Rightarrow> raw_ok r' \<and> r' = r\<lparr>current_pos := current_pos r'\<rparr> \<and> current_pos r \<le> current_pos r'
       \<and> (st \<noteq> STATE_SUCCESS \<longrightarrow> v = None \<and> r' = r) \<and> (st = STATE_SUCCESS \<longrightarrow> v \<noteq> None)
     | _ \<Rightarrow> False)"

definition moved :: "raw_data_s \<Rightarrow> raw_data_s \<Rightarrow> bool" where
  "moved r s \<longleftrightarrow> raw_ok s \<and> s = r\<lparr>current_pos := current_pos s\<rparr> \<and> current_pos r \<le> current_pos s"

text \<open>The code returns, and with a result that has the property.\<close>

definition yields :: "('a \<Rightarrow> bool) \<Rightarrow> 'a outc \<Rightarrow> bool" where
  "yields Q y = (case y of Ok x \<Rightarrow> Q x | _ \<Rightarrow> False)"

text \<open>A new buffer that holds \<open>bs\<close>.\<close>

definition raw_of :: "byte list \<Rightarrow> raw_data_s" where
  "raw_of bs = \<lparr>flags = 0, timestamp_ns = 0, current_pos = 0, data = bs\<rparr>"

definition demo_raw :: raw_data_s where
  "demo_raw = \<lparr>flags = 0, timestamp_ns = 0, current_pos = 1, data = [9, 0, 0, 1, 2, 65, 0, 66]\<rparr>"

section \<open>Reading integers\<close>

lemma or_shift_byte: "(ucast (b :: byte) OR push_bit 8 (res :: 'a::len word)) = of_nat (256 * unat res + unat b)"
proof -
  have "ucast b AND push_bit 8 res = 0"
    by (rule bit_word_eqI) (auto simp: bit_simps dest: bit_imp_le_length)
  then have e: "ucast b OR push_bit 8 res = ucast b + push_bit 8 res" by (rule disjunctive_add_eq_or [symmetric])
  have p: "push_bit 8 res = of_nat 256 * res" by (simp add: push_bit_eq_mult)
  show ?thesis unfolding e by (simp add: p add.commute)
qed

lemma big_endian_be_val: "big_endian_bytes_to bs = (of_nat (be_val bs) :: 'a::len word)"
proof -
  have "foldl (\<lambda>res b. ucast b OR push_bit 8 res) (of_nat a :: 'a word) bs = of_nat (foldl (\<lambda>a b. 256 * a + unat b) a bs)" for a
  proof (induction bs arbitrary: a)
    case (Cons b bs)
    have e: "(ucast b OR push_bit 8 (of_nat a) :: 'a word) = of_nat (256 * a + unat b)"
      unfolding or_shift_byte by simp
    show ?case unfolding foldl_Cons e by (rule Cons.IH)
  qed simp
  from this [of 0] show ?thesis by (simp add: big_endian_bytes_to_def be_val_def)
qed

lemma be_val_rev: "be_val (rev bs) = le_val bs"
  by (induction bs) (simp_all add: be_val_def add.commute)

lemma be_val_be_bytes: "be_val (be_bytes n x) = x mod 256 ^ n"
  by (simp add: be_bytes_def be_val_rev le_val_le_bytes)

lemma length_be_bytes [simp]: "length (be_bytes n x) = n"
  by (simp add: be_bytes_def)

section \<open>Positions\<close>

lemma unconsumed_rest: "raw_ok r \<Longrightarrow> unconsumed r = length (rest_bytes r)"
  by (simp add: raw_ok_def unconsumed_def rest_bytes_def data_len_def)

lemma rd_rest: "raw_ok r \<Longrightarrow> n \<le> length (rest_bytes r) \<Longrightarrow> rd (data r) (current_pos r) n = Ok (take n (rest_bytes r))"
  by (auto simp: rd_def raw_ok_def rest_bytes_def data_len_def)

lemma offset_advance: "raw_ok r \<Longrightarrow> n \<le> length (rest_bytes r) \<Longrightarrow> parser_raw_data_offset r n = advance r n"
  by (simp add: parser_raw_data_offset_def unconsumed_rest advance_def min_absorb1)

lemma advance_ok: "raw_ok r \<Longrightarrow> n \<le> length (rest_bytes r) \<Longrightarrow> raw_ok (advance r n)"
  by (auto simp: raw_ok_def advance_def rest_bytes_def data_len_def)

lemma rest_advance: "rest_bytes (advance r n) = drop n (rest_bytes r)"
  by (simp add: rest_bytes_def advance_def add.commute)

lemma offset_ok: "raw_ok r \<Longrightarrow> raw_ok (parser_raw_data_offset r n)"
  by (simp add: raw_ok_def parser_raw_data_offset_def unconsumed_def data_len_def)

lemmas decode_simps = unconsumed_rest rd_rest offset_advance

lemma extract_prefix_string:
  "raw_ok r \<Longrightarrow> n \<le> length (rest_bytes r) \<Longrightarrow> malloc_ok (n + 1) \<Longrightarrow>
   extract_prefix_bytes_string malloc_ok r n k = Ok (Some (take n (rest_bytes r) @ [0]), parser_raw_data_offset r k)"
  by (simp add: extract_prefix_bytes_string_def rd_rest)

lemma find_char_Some: "find_char i bs c = Some p \<Longrightarrow> i \<le> p \<and> p < i + length bs"
  by (induction bs arbitrary: i) (fastforce split: if_splits)+

lemma find_char_first: "c \<notin> set s \<Longrightarrow> find_char i (s @ c # post) c = Some (i + length s)"
  by (induction s arbitrary: i) auto

lemma find_char_None: "find_char i bs c = None \<longleftrightarrow> c \<notin> set bs"
  by (induction bs arbitrary: i) auto

lemma offset_same: "parser_raw_data_offset r n = r\<lparr>current_pos := current_pos (parser_raw_data_offset r n)\<rparr>"
    "current_pos r \<le> current_pos (parser_raw_data_offset r n)"
  by (simp_all add: parser_raw_data_offset_def)

lemma decode_safe_string:
  assumes "raw_ok r" "n \<le> length (rest_bytes r)"
  shows "decode_safe r (string_result (extract_prefix_bytes_string malloc_ok r n k))"
  using assms extract_prefix_string [OF assms, of malloc_ok k] offset_ok [OF assms(1), of k] offset_same [of r k]
  by (cases "malloc_ok (n + 1)") (simp_all add: decode_safe_def string_result_def extract_prefix_bytes_string_def)

lemma rd_unconsumed: "raw_ok r \<Longrightarrow> \<not> unconsumed r < k \<Longrightarrow> rd (data r) (current_pos r) k = Ok (take k (rest_bytes r))"
  by (simp add: rd_rest unconsumed_rest)

lemma decode_safe_int: "raw_ok r \<Longrightarrow> decode_safe r (decoder_extract_int k r :: 'a::len word decode)"
  using offset_ok [of r k] offset_same [of r k] by (auto simp: decode_safe_def decoder_extract_int_def rd_unconsumed)

lemma decode_safe_char: "raw_ok r \<Longrightarrow> decode_safe r (decoder_extract_char r)"
  using offset_ok [of r 1] offset_same [of r 1] by (auto simp: decode_safe_def decoder_extract_char_def rd_unconsumed)

lemma decode_safe_raw: "raw_ok r \<Longrightarrow> decode_safe r (decoder_extract_raw_data_with_len malloc_ok r n)"
  using offset_ok [of r n] offset_same [of r n]
  by (auto simp: decode_safe_def decoder_extract_raw_data_with_len_def rd_unconsumed)

lemma decode_safe_str: "raw_ok r \<Longrightarrow> decode_safe r (decoder_extract_string malloc_ok r n)"
  using decode_safe_string [of r n malloc_ok n]
  by (auto simp: decoder_extract_string_def decode_safe_def unconsumed_rest)

lemma decode_safe_until: "raw_ok r \<Longrightarrow> decode_safe r (decoder_extract_str_until_char malloc_ok r c)"
proof (cases "find_char (current_pos r) (rest_bytes r) c")
  case None
  moreover assume "raw_ok r"
  ultimately show ?thesis by (simp add: decoder_extract_str_until_char_def decode_safe_def)
next
  case (Some p)
  moreover assume "raw_ok r"
  moreover have "p - current_pos r \<le> length (rest_bytes r)" using find_char_Some [OF Some] by arith
  ultimately show ?thesis using decode_safe_string [of r] by (simp add: decoder_extract_str_until_char_def)
qed

lemma decode_safe_ints:
  "raw_ok r \<Longrightarrow> decode_safe r (decoder_extract_int8_t r)" "raw_ok r \<Longrightarrow> decode_safe r (decoder_extract_int16_t r)"
  "raw_ok r \<Longrightarrow> decode_safe r (decoder_extract_int32_t r)"
  by (simp_all add: decoder_extract_int8_t_def decoder_extract_int16_t_def decoder_extract_int32_t_def decode_safe_int)

lemmas decoder_safe = decode_safe_char decode_safe_raw decode_safe_str decode_safe_until decode_safe_ints

text \<open>Integers in network byte order are read back: after the bytes of \<open>x\<close> the decoders of one, two and four bytes
  return \<open>x\<close> and stand behind them, and with fewer bytes left they ask for more data and consume nothing.\<close>

theorem decoder_int_roundtrip:
  assumes "raw_ok r" "k = length pre" "rest_bytes r = pre @ be_bytes n x @ post" "x < 256 ^ n" "8 * n = LENGTH('a)"
  shows "decoder_extract_int n (advance r k) = Ok (STATE_SUCCESS, Some (of_nat x :: 'a::len word), advance r (k + n))
    \<and> rest_bytes (advance r (k + n)) = post
    \<and> (\<forall>m < n. decoder_extract_int n (r\<lparr>data := take (current_pos r + m) (data r)\<rparr>)
         = (Ok (STATE_NEEDS_MORE_DATA, None, r\<lparr>data := take (current_pos r + m) (data r)\<rparr>) :: 'a word decode))"
proof -
  let ?r = "advance r k"
  have len: "k + n \<le> length (rest_bytes r)" using assms(2,3) by simp
  have ok: "raw_ok ?r" "rest_bytes ?r = be_bytes n x @ post"
    using advance_ok [OF assms(1), of k] len assms(2,3) by (simp_all add: rest_advance)
  have "take n (rest_bytes ?r) = be_bytes n x" using ok(2) by simp
  moreover have "(big_endian_bytes_to (be_bytes n x) :: 'a word) = of_nat x"
    using assms(4) by (simp add: big_endian_be_val be_val_be_bytes)
  moreover have "advance ?r n = advance r (k + n)" by (simp add: advance_def)
  ultimately have "decoder_extract_int n ?r = Ok (STATE_SUCCESS, Some (of_nat x :: 'a word), advance r (k + n))"
    using ok by (simp add: decoder_extract_int_def decode_simps)
  moreover have "rest_bytes (advance r (k + n)) = post" using assms(2,3) by (simp add: rest_advance)
  moreover have "unconsumed (r\<lparr>data := take (current_pos r + m) (data r)\<rparr>) < n" if "m < n" for m
    using that assms(1) by (auto simp: unconsumed_def raw_ok_def data_len_def)
  ultimately show ?thesis by (simp add: decoder_extract_int_def)
qed

theorem decoder_int_roundtrip_witness:
  "decoder_extract_int 4 demo_raw = Ok (STATE_SUCCESS, Some (258 :: 32 word), advance demo_raw 4)"
proof -
  have r: "rest_bytes demo_raw = [] @ be_bytes 4 258 @ [65, 0, 66]"
    by code_simp
  have ok: "raw_ok demo_raw" by (simp add: raw_ok_def demo_raw_def data_len_def)
  have "advance demo_raw 0 = demo_raw" by (simp add: advance_def)
  then show ?thesis using decoder_int_roundtrip [OF ok, of 0 "[]" 4 258 "[65, 0, 66]", where 'a = 32] r by simp
qed

text \<open>A string up to a delimiter: the decoder returns the bytes before the first delimiter, terminated, and stands
  behind the delimiter; without a delimiter it consumes nothing.\<close>

theorem decoder_until_char:
  assumes "raw_ok r" "rest_bytes r = s @ c # post" "c \<notin> set s" "malloc_ok (length s + 1)"
  shows "decoder_extract_str_until_char malloc_ok r c = Ok (STATE_SUCCESS, Some (s @ [0]), advance r (length s + 1))
    \<and> rest_bytes (advance r (length s + 1)) = post
    \<and> (\<forall>d. d \<notin> set (rest_bytes r) \<longrightarrow> decoder_extract_str_until_char malloc_ok r d = Ok (STATE_NOT_FOUND, None, r))"
proof -
  have "find_char (current_pos r) (rest_bytes r) c = Some (current_pos r + length s)"
    using find_char_first [OF assms(3)] assms(2) by simp
  moreover have "extract_prefix_bytes_string malloc_ok r (length s) (length s + 1) = Ok (Some (s @ [0]), advance r (length s + 1))"
    using extract_prefix_string [OF assms(1), of "length s"] assms(2,4) by (simp add: offset_advance [OF assms(1)])
  moreover have "find_char (current_pos r) (rest_bytes r) d = None" if "d \<notin> set (rest_bytes r)" for d
    using that by (simp add: find_char_None)
  ultimately show ?thesis using assms(2)
    by (simp add: decoder_extract_str_until_char_def string_result_def rest_advance)
qed

theorem decoder_until_char_witness:
  "decoder_extract_str_until_char (\<lambda>_. True) demo_raw 65 = Ok (STATE_SUCCESS, Some [0, 0, 1, 2, 0], advance demo_raw 5)"
  using decoder_until_char [of demo_raw "[0, 0, 1, 2]" 65 "[0, 66]" "\<lambda>_. True"]
  by (simp add: demo_raw_def raw_ok_def data_len_def rest_bytes_def advance_def)

section \<open>Searching a string\<close>

lemma memmem_loop_find:
  assumes "length needle \<le> hlen" "start + hlen \<le> length m"
  shows "memmem_loop m start hlen needle i
    = Ok (find (\<lambda>j. take (length needle) (drop (start + j) m) = needle) [i..<hlen - length needle + 1])"
proof (induction "hlen + 1 - i" arbitrary: i rule: less_induct)
  case less
  show ?case
  proof (cases "hlen - length needle < i")
    case True
    then show ?thesis using assms(1) by (subst memmem_loop.simps) (simp add: Let_def)
  next
    case False
    then have up: "[i..<hlen - length needle + 1] = i # [i + 1..<hlen - length needle + 1]" by (simp add: upt_rec)
    have rd: "rd m (start + i) (length needle) = Ok (take (length needle) (drop (start + i) m))"
      using assms False by (simp add: rd_def)
    have IH: "memmem_loop m start hlen needle (i + 1)
        = Ok (find (\<lambda>j. take (length needle) (drop (start + j) m) = needle) [i + 1..<hlen - length needle + 1])"
      using False by (intro less.hyps) simp
    show ?thesis using False assms(1) IH unfolding up
      by (subst memmem_loop.simps) (simp add: Let_def rd)
  qed
qed

text \<open>A search for a string that still fits into the buffer is the search for its first occurrence and stays inside the
  buffer; when fewer bytes are left than the string has, the bound of the search wraps around and the first comparison reads
  past the end of the buffer.\<close>

theorem decoder_until_str:
  assumes "raw_ok r" "needle \<noteq> []" "length needle < 2 ^ 64"
  shows "if length needle \<le> length (rest_bytes r)
    then memmem_custom (data r) (current_pos r) (unconsumed r) needle
       = Ok (find (\<lambda>j. take (length needle) (drop j (rest_bytes r)) = needle) [0..<length (rest_bytes r) - length needle + 1])
    else decoder_extract_str_until_str malloc_ok r needle = UB"
proof (cases "length needle \<le> length (rest_bytes r)")
  case True
  moreover have "current_pos r + unconsumed r \<le> length (data r)"
    using assms(1) by (simp add: unconsumed_rest rest_bytes_def raw_ok_def data_len_def)
  ultimately show ?thesis
    using memmem_loop_find [of needle "unconsumed r" "current_pos r" "data r" 0] assms(1,2)
    by (simp add: memmem_custom_def unconsumed_rest rest_bytes_def add.commute)
next
  case False
  then have "rd (data r) (current_pos r) (length needle) = UB"
    using assms(1) by (simp add: rd_def rest_bytes_def raw_ok_def data_len_def)
  then have "memmem_loop (data r) (current_pos r) (unconsumed r) needle 0 = UB"
    using False assms(1,3) by (subst memmem_loop.simps) (simp add: Let_def unconsumed_rest)
  with False assms(2) show ?thesis by (simp add: decoder_extract_str_until_str_def memmem_custom_def)
qed

theorem decoder_until_str_witness:
  "decoder_extract_str_until_str (\<lambda>_. True) demo_raw (replicate 8 7) = UB"
  using decoder_until_str [of demo_raw "replicate 8 7" "\<lambda>_. True"]
  by (simp add: demo_raw_def raw_ok_def data_len_def rest_bytes_def)

lemma until_str_safe:
  assumes "raw_ok r" "needle \<noteq> []" "length needle < 2 ^ 64" "length needle \<le> length (rest_bytes r)"
  shows "decode_safe r (decoder_extract_str_until_str malloc_ok r needle)"
proof -
  let ?P = "\<lambda>j. take (length needle) (drop j (rest_bytes r)) = needle"
  have m: "memmem_custom (data r) (current_pos r) (unconsumed r) needle = Ok (find ?P [0..<length (rest_bytes r) - length needle + 1])"
    using decoder_until_str [OF assms(1-3)] assms(4) by simp
  show ?thesis
  proof (cases "find ?P [0..<length (rest_bytes r) - length needle + 1]")
    case None
    then show ?thesis using assms(1) by (simp add: decoder_extract_str_until_str_def m decode_safe_def)
  next
    case (Some j)
    then have "j \<in> set [0..<length (rest_bytes r) - length needle + 1]" unfolding find_Some_iff by (metis nth_mem)
    then have "j \<le> length (rest_bytes r)" unfolding set_upt by simp
    then show ?thesis using Some decode_safe_string [OF assms(1)] by (simp add: decoder_extract_str_until_str_def m)
  qed
qed



section \<open>Sequences of decoders\<close>

lemma dec_cong [fundef_cong]:
  assumes "x = x'" "\<And>st r. x' \<noteq> UB \<Longrightarrow> err st r = err' st r" "\<And>a r. x' = Ok (STATE_SUCCESS, Some a, r) \<Longrightarrow> f a r = f' a r"
  shows "dec x err f = dec x' err' f'"
  using assms by (cases x') (auto simp: dec_def split: option.splits)

lemma bnd_cong [fundef_cong]: "m = m' \<Longrightarrow> (\<And>x. m' = Ok x \<Longrightarrow> f x = f' x) \<Longrightarrow> bnd m f = bnd m' f'"
  by (cases m') simp_all

text \<open>A string that was found has moved the position forward inside the same bytes.\<close>

lemma until_char_moves:
  assumes "decoder_extract_str_until_char malloc_ok r c = Ok (STATE_SUCCESS, v, r')"
  shows "data_len r' = data_len r \<and> current_pos r < current_pos r' \<and> current_pos r' \<le> data_len r"
proof -
  obtain p where p: "find_char (current_pos r) (rest_bytes r) c = Some p"
    using assms by (auto simp: decoder_extract_str_until_char_def split: option.splits)
  then have lt: "current_pos r < data_len r" "p < data_len r" "current_pos r \<le> p"
    using find_char_Some [OF p] by (auto simp: rest_bytes_def data_len_def)
  have "r' = parser_raw_data_offset r (p - current_pos r + 1)"
    using assms p by (auto simp: decoder_extract_str_until_char_def string_result_def extract_prefix_bytes_string_def
        dest!: bnd_eq_OkD split: if_splits option.splits)
  then show ?thesis using lt by (simp add: parser_raw_data_offset_def unconsumed_def data_len_def min_def)
qed

lemma char_moves:
  assumes "decoder_extract_char r = Ok (STATE_SUCCESS, v, r')" "current_pos r < data_len r"
  shows "data_len r' = data_len r \<and> current_pos r < current_pos r' \<and> current_pos r' \<le> data_len r"
  using assms by (auto simp: decoder_extract_char_def parser_raw_data_offset_def unconsumed_def data_len_def min_def
      dest!: bnd_eq_OkD split: if_splits)

text \<open>What a parser may do to a buffer: move its position forward inside the same bytes.\<close>

lemma moved_refl [simp]: "moved r r \<longleftrightarrow> raw_ok r"
  by (auto simp: moved_def)

lemma moved_trans [trans]: "moved r s \<Longrightarrow> moved s t \<Longrightarrow> moved r t"
  by (cases r; cases s; cases t) (auto simp: moved_def)

lemma moved_ok: "moved r s \<Longrightarrow> raw_ok s"
  by (simp add: moved_def)

lemma moved_rest: "moved r s \<Longrightarrow> \<exists>k. s = advance r k \<and> k \<le> length (rest_bytes r)"
  by (rule exI [of _ "current_pos s - current_pos r"])
    (cases r; cases s; auto simp: moved_def advance_def raw_ok_def data_len_def rest_bytes_def)

lemma moved_advance: "raw_ok r \<Longrightarrow> n \<le> length (rest_bytes r) \<Longrightarrow> moved r (advance r n)"
  using advance_ok by (simp add: moved_def advance_def)

lemma yields_simps [simp]: "yields Q (Ok x) \<longleftrightarrow> Q x" "\<not> yields Q UB" "\<not> yields Q NoRet"
  by (simp_all add: yields_def)

lemma yields_bnd: "yields (\<lambda>x. yields Q (f x)) m \<Longrightarrow> yields Q (bnd m f)"
  by (cases m) simp_all

lemma yields_mono: "yields Q y \<Longrightarrow> (\<And>x. y = Ok x \<Longrightarrow> Q x \<Longrightarrow> Q' x) \<Longrightarrow> yields Q' y"
  by (cases y) simp_all

lemma yields_dec:
  assumes "decode_safe r x" "raw_ok r" "\<And>st. st \<noteq> STATE_SUCCESS \<Longrightarrow> x = Ok (st, None, r) \<Longrightarrow> yields Q (err st r)"
    "\<And>a s. moved r s \<Longrightarrow> raw_ok s \<Longrightarrow> x = Ok (STATE_SUCCESS, Some a, s) \<Longrightarrow> yields Q (f a s)"
  shows "yields Q (dec x err f)"
proof (cases x)
  case (Ok y)
  obtain st v s where y: "y = (st, v, s)" by (cases y)
  show ?thesis using assms Ok y by (cases "st = STATE_SUCCESS") (auto simp: dec_def decode_safe_def moved_def)
qed (use assms in \<open>auto simp: decode_safe_def\<close>)

text \<open>Each decoder on a buffer whose next bytes are known; used as rewrite rules they run a parser.\<close>

lemma run_char: "raw_ok r \<Longrightarrow> rest_bytes r = b # bs \<Longrightarrow> dec (decoder_extract_char r) err f = f b (advance r 1)"
  by (simp add: dec_def decoder_extract_char_def decode_simps)

lemma run_int:
  "raw_ok r \<Longrightarrow> rest_bytes r = be_bytes n x @ bs \<Longrightarrow> x < 256 ^ n \<Longrightarrow>
   dec (decoder_extract_int n r) err f = f (of_nat x) (advance r n)"
  by (simp add: dec_def decoder_extract_int_def decode_simps big_endian_be_val be_val_be_bytes)

lemma run_int16:
  "raw_ok r \<Longrightarrow> rest_bytes r = be_bytes 2 x @ bs \<Longrightarrow> x < 65536 \<Longrightarrow> dec (decoder_extract_int16_t r) err f = f (of_nat x) (advance r 2)"
  using run_int [of r 2 x bs err f] by (simp add: decoder_extract_int16_t_def)

lemma run_int32:
  "raw_ok r \<Longrightarrow> rest_bytes r = be_bytes 4 x @ bs \<Longrightarrow> x < 4294967296 \<Longrightarrow> dec (decoder_extract_int32_t r) err f = f (of_nat x) (advance r 4)"
  using run_int [of r 4 x bs err f] by (simp add: decoder_extract_int32_t_def)

lemma run_short:
  "raw_ok r \<Longrightarrow> length (rest_bytes r) < 2 \<Longrightarrow> dec (decoder_extract_int16_t r) err f = err STATE_NEEDS_MORE_DATA r"
  "raw_ok r \<Longrightarrow> length (rest_bytes r) < 4 \<Longrightarrow> dec (decoder_extract_int32_t r) err g = err STATE_NEEDS_MORE_DATA r"
  "raw_ok r \<Longrightarrow> length (rest_bytes r) < n \<Longrightarrow> dec (decoder_extract_raw_data_with_len m r n) err h = err STATE_NEEDS_MORE_DATA r"
  by (simp_all add: dec_def decoder_extract_int16_t_def decoder_extract_int32_t_def decoder_extract_int_def
      decoder_extract_raw_data_with_len_def unconsumed_rest)

lemma run_until:
  "raw_ok r \<Longrightarrow> rest_bytes r = s @ c # bs \<Longrightarrow> c \<notin> set s \<Longrightarrow> malloc_ok (Suc (length s)) \<Longrightarrow>
   dec (decoder_extract_str_until_char malloc_ok r c) err f = f (s @ [0]) (advance r (length s + 1))"
  using find_char_first [of c s "current_pos r" bs] extract_prefix_string [of r "length s" malloc_ok "length s + 1"]
  by (simp add: dec_def decoder_extract_str_until_char_def string_result_def offset_advance)

lemma run_raw:
  "raw_ok r \<Longrightarrow> n \<le> length (rest_bytes r) \<Longrightarrow> malloc_ok n \<Longrightarrow>
   dec (decoder_extract_raw_data_with_len malloc_ok r n) err f = f (raw_of (take n (rest_bytes r))) (advance r n)"
  by (simp add: dec_def decoder_extract_raw_data_with_len_def decode_simps raw_of_def)

lemma run_string:
  "raw_ok r \<Longrightarrow> n \<le> length (rest_bytes r) \<Longrightarrow> malloc_ok (Suc n) \<Longrightarrow>
   dec (decoder_extract_string malloc_ok r n) err f = f (take n (rest_bytes r) @ [0]) (advance r n)"
  using extract_prefix_string [of r n malloc_ok n]
  by (simp add: dec_def decoder_extract_string_def string_result_def decode_simps)

lemmas run_simps = run_char run_int16 run_int32 run_until run_raw run_string advance_ok rest_advance

end
