(* ===== verification/Pgsql_Parser.thy ===== *)
theory Pgsql_Parser
  imports Raw_Data
begin

text \<open>
  The PostgreSQL parser of the layer-7 probe: \<open>protocol/pgsql/pgsql_parser.c\<close> with the tags and structures of
  \<open>pgsql_msg_format.h\<close> and \<open>pgsql_msg_format.c\<close>. What \<open>malloc\<close> leaves in a structure the code does not initialise is an argument.
  A pointer is an option, None for NULL; a string is the bytes of its block.
\<close>

section \<open>Structures\<close>

text \<open>\<open>pgsql_tag_enum_values\<close>: 32 of its 64 entries are initialised, the other 32 hold the character 0.\<close>

definition pgsql_tag_enum_values :: "(bool \<times> byte) list" where
  "pgsql_tag_enum_values =
     [(True, 100), (True, 99), (True, 81), (True, 80), (True, 66), (True, 69), (True, 70), (True, 67), (True, 68), (True, 83),
      (True, 72), (True, 88), (True, 102),
      (False, 100), (False, 99), (False, 67), (False, 69), (False, 90), (False, 73), (False, 49), (False, 50), (False, 51),
      (False, 83), (False, 75), (False, 84), (False, 110), (False, 116), (False, 68), (False, 71), (False, 72), (False, 87),
      (False, 82)] @ replicate 32 (False, 0)"

definition contains_pgsql_tag :: "byte \<Rightarrow> bool" where
  "contains_pgsql_tag t = list_ex (\<lambda>v. snd v = t) pgsql_tag_enum_values"

definition PGSQL_CODE :: byte where "PGSQL_CODE = 67"
definition REGULAR_MSG_MIN_LEN :: int where "REGULAR_MSG_MIN_LEN = 4"
definition PGSQL_MSG_HEADER_SIZE :: u64 where "PGSQL_MSG_HEADER_SIZE = 8"
definition PGSQL_ROW_DESC_SIZE :: nat where "PGSQL_ROW_DESC_SIZE = 1024"
definition PGSQL_DATA_ROW_SIZE :: nat where "PGSQL_DATA_ROW_SIZE = 1024"

record pgsql_startup_msg_s =
  start_len :: u32
  major_version :: u16
  minor_version :: u16
  name_value_pair_len :: u64

record pgsql_regular_msg_s =
  msg_timestamp_ns :: u64
  tag :: byte
  msg_len :: u32
  payload_data :: "raw_data_s option"
  consumed :: bool

record pgsql_row_desc_field_s =
  field_name :: "byte list option"
  table_oid :: u32
  attr_num :: u16
  type_oid :: u32
  type_size :: u16
  type_modifier :: u32
  fmt_code :: u32

record pgsql_row_description_s =
  row_timestamp_ns :: u64
  row_desc_fields :: "pgsql_row_desc_field_s option list"
  row_desc_field_size :: u64

record pgsql_data_row_s =
  data_timestamp_ns :: u64
  colum_values :: "byte list option list"
  colum_values_len :: u64

record pgsql_cmd_complete_s =
  cmd_timestamp_ns :: u64
  cmd_tag :: "byte list option"

record pgsql_err_resp_s =
  err_timestamp_ns :: u64
  pgsql_err_code :: "byte list option"

record pgsql_parse_req_s =
  parse_timestamp_ns :: u64
  stmt_name :: "byte list option"
  query :: "byte list option"

record pgsql_bind_req_s =
  bind_timestamp_ns :: u64
  dest_portal_name :: "byte list option"
  src_prepared_stat_name :: "byte list option"

record pgsql_describe_req_s =
  desc_timestamp_ns :: u64
  desc_type :: byte
  desc_name :: "byte list option"

record pgsql_param_description_s =
  param_timestamp_ns :: u64

text \<open>\<open>struct frame_data_s\<close> around a message; \<open>msg_type\<close> and \<open>timestamp_ns\<close> are never set by this parser.\<close>

record pgsql_frame_data_s =
  frame :: pgsql_regular_msg_s

section \<open>Parsers\<close>

definition CHECK_RAW_DATA_LEN :: "raw_data_s \<Rightarrow> bool" where
  "CHECK_RAW_DATA_LEN r \<longleftrightarrow> data_len r = 0 \<or> current_pos r = data_len r"

definition pgsql_parse_regular_msg ::
    "(nat \<Rightarrow> bool) \<Rightarrow> raw_data_s \<Rightarrow> pgsql_regular_msg_s \<Rightarrow> (parse_state_t \<times> pgsql_regular_msg_s \<times> raw_data_s) outc" where
  "pgsql_parse_regular_msg malloc_ok raw msg =
     (if CHECK_RAW_DATA_LEN raw then Ok (STATE_NEEDS_MORE_DATA, msg, raw)
      else dec (decoder_extract_char raw) (\<lambda>st r. Ok (STATE_NEEDS_MORE_DATA, msg, r)) (\<lambda>t r1.
        dec (decoder_extract_int32_t r1) (\<lambda>st r. Ok (STATE_NEEDS_MORE_DATA, msg\<lparr>tag := t\<rparr>, r)) (\<lambda>l r2.
          if sint l < REGULAR_MSG_MIN_LEN then Ok (STATE_INVALID, msg\<lparr>tag := t, msg_len := l\<rparr>, r2)
          else dec (decoder_extract_raw_data_with_len malloc_ok r2 (nat (sint l - REGULAR_MSG_MIN_LEN)))
            (\<lambda>st r. Ok (STATE_NEEDS_MORE_DATA, msg\<lparr>tag := t, msg_len := l\<rparr>, r)) (\<lambda>p r3.
              Ok (STATE_SUCCESS, msg\<lparr>tag := t, msg_len := l, payload_data := Some p\<rparr>, r3)))))"

function pgsql_parse_startup_name_value :: "(nat \<Rightarrow> bool) \<Rightarrow> raw_data_s \<Rightarrow> (parse_state_t \<times> raw_data_s) outc" where
  "pgsql_parse_startup_name_value malloc_ok r =
     (if current_pos r < data_len r then
        dec (decoder_extract_str_until_char malloc_ok r 0) (\<lambda>st r. Ok (st, r)) (\<lambda>name r1.
          bnd (strlen name) (\<lambda>n.
            if n = 0 then Ok (STATE_SUCCESS, r1)
            else dec (decoder_extract_str_until_char malloc_ok r1 0) (\<lambda>st r. Ok (st, r)) (\<lambda>val r2.
              bnd (strlen val) (\<lambda>k.
                if k = 0 then Ok (STATE_INVALID, r2) else pgsql_parse_startup_name_value malloc_ok r2))))
      else Ok (STATE_SUCCESS, r))"
  by pat_completeness auto
termination
  by (relation "measure (\<lambda>(m, r). data_len r - current_pos r)") (auto dest!: until_char_moves)

declare pgsql_parse_startup_name_value.simps [simp del]

definition pgsql_parse_startup_msg ::
    "(nat \<Rightarrow> bool) \<Rightarrow> raw_data_s \<Rightarrow> pgsql_startup_msg_s \<Rightarrow> (parse_state_t \<times> pgsql_startup_msg_s \<times> raw_data_s) outc" where
  "pgsql_parse_startup_msg malloc_ok raw msg =
     (if CHECK_RAW_DATA_LEN raw then Ok (STATE_NEEDS_MORE_DATA, msg, raw)
      else dec (decoder_extract_int32_t raw) (\<lambda>st r. Ok (st, msg, r)) (\<lambda>l r1.
        dec (decoder_extract_int16_t r1) (\<lambda>st r. Ok (st, msg\<lparr>start_len := l\<rparr>, r)) (\<lambda>ma r2.
          dec (decoder_extract_int16_t r2) (\<lambda>st r. Ok (st, msg\<lparr>start_len := l, major_version := ma\<rparr>, r)) (\<lambda>mi r3.
            let msg = msg\<lparr>start_len := l, major_version := ma, minor_version := mi\<rparr> in
            if (of_nat (unconsumed r3) :: u64) < scast l - PGSQL_MSG_HEADER_SIZE then Ok (STATE_INVALID, msg, r3)
            else bnd (pgsql_parse_startup_name_value malloc_ok r3) (\<lambda>(st, r4).
              if st \<noteq> STATE_SUCCESS then Ok (st, msg, r4)
              else Ok (STATE_SUCCESS, msg, parser_raw_data_offset r4 (current_pos r4 - current_pos r4)))))))"

definition pgsql_parse_cmd_complete ::
    "(nat \<Rightarrow> bool) \<Rightarrow> pgsql_regular_msg_s \<Rightarrow> pgsql_cmd_complete_s \<Rightarrow> (parse_state_t \<times> pgsql_cmd_complete_s) outc" where
  "pgsql_parse_cmd_complete malloc_ok msg cmd =
     (case payload_data msg of
        None \<Rightarrow> UB
      | Some p \<Rightarrow> bnd (strlen (data p)) (\<lambda>n.
          if malloc_ok n
          then Ok (STATE_SUCCESS, cmd\<lparr>cmd_timestamp_ns := msg_timestamp_ns msg, cmd_tag := Some (take n (data p))\<rparr>)
          else UB))"

text \<open>\<open>fmt_code\<close> is an enum of four bytes of which the two low ones are written.\<close>

definition pgsql_extract_row_desc_field ::
    "(nat \<Rightarrow> bool) \<Rightarrow> raw_data_s \<Rightarrow> pgsql_row_desc_field_s \<Rightarrow> (parse_state_t \<times> pgsql_row_desc_field_s \<times> raw_data_s) outc" where
  "pgsql_extract_row_desc_field malloc_ok raw f =
     dec (decoder_extract_str_until_char malloc_ok raw 0) (\<lambda>st r. Ok (st, f, r)) (\<lambda>nm r1. let f = f\<lparr>field_name := Some nm\<rparr> in
     dec (decoder_extract_int32_t r1) (\<lambda>st r. Ok (st, f, r)) (\<lambda>to r2. let f = f\<lparr>table_oid := to\<rparr> in
     dec (decoder_extract_int16_t r2) (\<lambda>st r. Ok (st, f, r)) (\<lambda>an r3. let f = f\<lparr>attr_num := an\<rparr> in
     dec (decoder_extract_int32_t r3) (\<lambda>st r. Ok (st, f, r)) (\<lambda>ty r4. let f = f\<lparr>type_oid := ty\<rparr> in
     dec (decoder_extract_int16_t r4) (\<lambda>st r. Ok (st, f, r)) (\<lambda>sz r5. let f = f\<lparr>type_size := sz\<rparr> in
     dec (decoder_extract_int32_t r5) (\<lambda>st r. Ok (st, f, r)) (\<lambda>tm r6. let f = f\<lparr>type_modifier := tm\<rparr> in
     dec (decoder_extract_int16_t r6) (\<lambda>st r. Ok (st, f, r)) (\<lambda>fc r7.
       Ok (STATE_SUCCESS, f\<lparr>fmt_code := ucast fc OR push_bit 16 (drop_bit 16 (fmt_code f))\<rparr>, r7))))))))"

text \<open>The check every message parser starts with, and its return.\<close>

definition with_payload ::
    "pgsql_regular_msg_s \<Rightarrow> 'a \<Rightarrow> (raw_data_s \<Rightarrow> (parse_state_t \<times> 'a \<times> pgsql_regular_msg_s) outc) \<Rightarrow> (parse_state_t \<times> 'a \<times> pgsql_regular_msg_s) outc" where
  "with_payload msg out f =
     (case payload_data msg of
        None \<Rightarrow> Ok (STATE_INVALID, out, msg)
      | Some p \<Rightarrow> if data_len p = 0 then Ok (STATE_INVALID, out, msg) else f (p\<lparr>current_pos := 0\<rparr>))"

definition returns :: "pgsql_regular_msg_s \<Rightarrow> parse_state_t \<Rightarrow> 'a \<Rightarrow> raw_data_s \<Rightarrow> (parse_state_t \<times> 'a \<times> pgsql_regular_msg_s) outc" where
  "returns msg st out p = Ok (st, out, msg\<lparr>payload_data := Some p\<rparr>)"

text \<open>The loops over \<open>field_count\<close> and the like: the index and how many rounds are left. \<open>f0\<close> is the new field as \<open>malloc\<close> gives it.\<close>

fun row_desc_loop ::
    "(nat \<Rightarrow> bool) \<Rightarrow> pgsql_row_desc_field_s \<Rightarrow> pgsql_regular_msg_s \<Rightarrow> nat \<Rightarrow> nat \<Rightarrow> pgsql_row_description_s \<Rightarrow> raw_data_s
     \<Rightarrow> (parse_state_t \<times> pgsql_row_description_s \<times> pgsql_regular_msg_s) outc" where
  "row_desc_loop malloc_ok f0 msg 0 i desc p = returns msg STATE_SUCCESS desc (p\<lparr>current_pos := 0\<rparr>)"
| "row_desc_loop malloc_ok f0 msg (Suc n) i desc p =
     (if \<not> malloc_ok 40 then returns msg STATE_INVALID desc p
      else bnd (pgsql_extract_row_desc_field malloc_ok p (f0\<lparr>field_name := None\<rparr>)) (\<lambda>(st, f, p1).
        if st \<noteq> STATE_SUCCESS then returns msg st desc p1
        else if i < PGSQL_ROW_DESC_SIZE
        then row_desc_loop malloc_ok f0 msg n (i + 1)
          (desc\<lparr>row_desc_fields := (row_desc_fields desc)[i := Some f], row_desc_field_size := row_desc_field_size desc + 1\<rparr>) p1
        else UB))"

definition pgsql_parse_row_desc ::
    "(nat \<Rightarrow> bool) \<Rightarrow> pgsql_row_desc_field_s \<Rightarrow> pgsql_regular_msg_s \<Rightarrow> pgsql_row_description_s
     \<Rightarrow> (parse_state_t \<times> pgsql_row_description_s \<times> pgsql_regular_msg_s) outc" where
  "pgsql_parse_row_desc malloc_ok f0 msg desc =
     (let desc = desc\<lparr>row_timestamp_ns := msg_timestamp_ns msg\<rparr> in
      with_payload msg desc (\<lambda>p.
        dec (decoder_extract_int16_t p) (\<lambda>st p. returns msg st desc p) (\<lambda>c p1.
          row_desc_loop malloc_ok f0 msg (nat (sint c)) 0 desc p1)))"

text \<open>A string decoder frees what its result pointer held, so the columns passed in are NULL or own a block.\<close>

fun data_row_loop ::
    "(nat \<Rightarrow> bool) \<Rightarrow> pgsql_regular_msg_s \<Rightarrow> nat \<Rightarrow> nat \<Rightarrow> pgsql_data_row_s \<Rightarrow> raw_data_s
     \<Rightarrow> (parse_state_t \<times> pgsql_data_row_s \<times> pgsql_regular_msg_s) outc" where
  "data_row_loop malloc_ok msg 0 i row p = returns msg STATE_SUCCESS row (p\<lparr>current_pos := 0\<rparr>)"
| "data_row_loop malloc_ok msg (Suc n) i row p =
     dec (decoder_extract_int32_t p) (\<lambda>st p. returns msg st row p) (\<lambda>value_len p1.
       if value_len = - 1 \<or> value_len = 0
       then if i < PGSQL_DATA_ROW_SIZE
         then data_row_loop malloc_ok msg n (i + 1)
           (row\<lparr>colum_values := (colum_values row)[i := None], colum_values_len := colum_values_len row + 1\<rparr>) p1
         else UB
       else dec (decoder_extract_string malloc_ok p1 (unat (scast value_len :: u64))) (\<lambda>st p. returns msg st row p) (\<lambda>v p2.
         if i < PGSQL_DATA_ROW_SIZE
         then data_row_loop malloc_ok msg n (i + 1)
           (row\<lparr>colum_values := (colum_values row)[i := Some v], colum_values_len := colum_values_len row + 1\<rparr>) p2
         else UB))"

definition pgsql_parse_data_row ::
    "(nat \<Rightarrow> bool) \<Rightarrow> pgsql_regular_msg_s \<Rightarrow> pgsql_data_row_s \<Rightarrow> (parse_state_t \<times> pgsql_data_row_s \<times> pgsql_regular_msg_s) outc" where
  "pgsql_parse_data_row malloc_ok msg row =
     (let row = row\<lparr>data_timestamp_ns := msg_timestamp_ns msg, colum_values_len := 0\<rparr> in
      with_payload msg row (\<lambda>p.
        dec (decoder_extract_int16_t p) (\<lambda>st p. returns msg st row p) (\<lambda>c p1.
          data_row_loop malloc_ok msg (nat (sint c)) 0 row p1)))"

text \<open>The loops that read and drop \<open>n\<close> integers of two bytes (format codes) and of four bytes (type oids).\<close>

fun skip_int16 :: "nat \<Rightarrow> raw_data_s \<Rightarrow> (parse_state_t \<times> raw_data_s) outc" where
  "skip_int16 0 p = Ok (STATE_SUCCESS, p)"
| "skip_int16 (Suc n) p = dec (decoder_extract_int16_t p) (\<lambda>st p. Ok (st, p)) (\<lambda>_ p. skip_int16 n p)"

fun skip_int32 :: "nat \<Rightarrow> raw_data_s \<Rightarrow> (parse_state_t \<times> raw_data_s) outc" where
  "skip_int32 0 p = Ok (STATE_SUCCESS, p)"
| "skip_int32 (Suc n) p = dec (decoder_extract_int32_t p) (\<lambda>st p. Ok (st, p)) (\<lambda>_ p. skip_int32 n p)"

definition after_skip :: "pgsql_regular_msg_s \<Rightarrow> 'a \<Rightarrow> (parse_state_t \<times> raw_data_s) outc \<Rightarrow> (parse_state_t \<times> 'a \<times> pgsql_regular_msg_s) outc" where
  "after_skip msg out x = bnd x (\<lambda>(st, p).
     if st \<noteq> STATE_SUCCESS then returns msg st out p else returns msg STATE_SUCCESS out (p\<lparr>current_pos := 0\<rparr>))"

definition pgsql_parse_bind_req ::
    "(nat \<Rightarrow> bool) \<Rightarrow> pgsql_regular_msg_s \<Rightarrow> pgsql_bind_req_s \<Rightarrow> (parse_state_t \<times> pgsql_bind_req_s \<times> pgsql_regular_msg_s) outc" where
  "pgsql_parse_bind_req malloc_ok msg b =
     (let b = b\<lparr>bind_timestamp_ns := msg_timestamp_ns msg\<rparr> in
      with_payload msg b (\<lambda>p.
        dec (decoder_extract_str_until_char malloc_ok p 0) (\<lambda>st p. returns msg st b p) (\<lambda>portal p1.
        let b = b\<lparr>dest_portal_name := Some portal\<rparr> in
        dec (decoder_extract_str_until_char malloc_ok p1 0) (\<lambda>st p. returns msg st b p) (\<lambda>stat p2.
        let b = b\<lparr>src_prepared_stat_name := Some stat\<rparr> in
        dec (decoder_extract_int16_t p2) (\<lambda>st p. returns msg st b p) (\<lambda>c p3.
          after_skip msg b (skip_int16 (nat (sint c)) p3))))))"

definition pgsql_parse_param_desc ::
    "pgsql_regular_msg_s \<Rightarrow> pgsql_param_description_s \<Rightarrow> (parse_state_t \<times> pgsql_param_description_s \<times> pgsql_regular_msg_s) outc" where
  "pgsql_parse_param_desc msg d =
     (let d = d\<lparr>param_timestamp_ns := msg_timestamp_ns msg\<rparr> in
      with_payload msg d (\<lambda>p.
        dec (decoder_extract_int16_t p) (\<lambda>st p. returns msg st d p) (\<lambda>c p1.
          after_skip msg d (skip_int32 (nat (sint c)) p1))))"

definition pgsql_parse_parse_msg ::
    "(nat \<Rightarrow> bool) \<Rightarrow> pgsql_regular_msg_s \<Rightarrow> pgsql_parse_req_s \<Rightarrow> (parse_state_t \<times> pgsql_parse_req_s \<times> pgsql_regular_msg_s) outc" where
  "pgsql_parse_parse_msg malloc_ok msg q =
     (let q = q\<lparr>parse_timestamp_ns := msg_timestamp_ns msg\<rparr> in
      with_payload msg q (\<lambda>p.
        dec (decoder_extract_str_until_char malloc_ok p 0) (\<lambda>st p. returns msg st q p) (\<lambda>stmt p1.
        let q = q\<lparr>stmt_name := Some stmt\<rparr> in
        dec (decoder_extract_str_until_char malloc_ok p1 0) (\<lambda>st p. returns msg st q p) (\<lambda>sql p2.
        let q = q\<lparr>query := Some sql\<rparr> in
        dec (decoder_extract_int16_t p2) (\<lambda>st p. returns msg st q p) (\<lambda>c p3.
          after_skip msg q (skip_int32 (nat (sint c)) p3))))))"

function err_fields ::
    "(nat \<Rightarrow> bool) \<Rightarrow> pgsql_regular_msg_s \<Rightarrow> pgsql_err_resp_s \<Rightarrow> raw_data_s \<Rightarrow> (parse_state_t \<times> pgsql_err_resp_s \<times> pgsql_regular_msg_s) outc" where
  "err_fields malloc_ok msg e p =
     (if current_pos p < data_len p then
        dec (decoder_extract_char p) (\<lambda>st p. returns msg st e p) (\<lambda>code p1.
          if code = 0 then
            returns msg (if current_pos p1 = data_len p1 then STATE_SUCCESS else STATE_INVALID) e (p1\<lparr>current_pos := 0\<rparr>)
          else dec (decoder_extract_str_until_char malloc_ok p1 0) (\<lambda>st p. returns msg st e p) (\<lambda>val p2.
            err_fields malloc_ok msg (if code = PGSQL_CODE then e\<lparr>pgsql_err_code := Some val\<rparr> else e) p2))
      else returns msg STATE_SUCCESS e (p\<lparr>current_pos := 0\<rparr>))"
  by pat_completeness auto
termination
  by (relation "measure (\<lambda>(m, msg, e, r). data_len r - current_pos r)") (auto dest!: until_char_moves char_moves)

declare err_fields.simps [simp del]

definition pgsql_parse_err_resp ::
    "(nat \<Rightarrow> bool) \<Rightarrow> pgsql_regular_msg_s \<Rightarrow> pgsql_err_resp_s \<Rightarrow> (parse_state_t \<times> pgsql_err_resp_s \<times> pgsql_regular_msg_s) outc" where
  "pgsql_parse_err_resp malloc_ok msg e =
     (let e = e\<lparr>err_timestamp_ns := msg_timestamp_ns msg\<rparr> in with_payload msg e (\<lambda>p. err_fields malloc_ok msg e p))"

definition pgsql_parse_describe ::
    "(nat \<Rightarrow> bool) \<Rightarrow> pgsql_regular_msg_s \<Rightarrow> pgsql_describe_req_s \<Rightarrow> (parse_state_t \<times> pgsql_describe_req_s \<times> pgsql_regular_msg_s) outc" where
  "pgsql_parse_describe malloc_ok msg d =
     (let d = d\<lparr>desc_timestamp_ns := msg_timestamp_ns msg\<rparr> in
      with_payload msg d (\<lambda>p.
        dec (decoder_extract_char p) (\<lambda>st p. returns msg st d p) (\<lambda>ty p1.
        let d = d\<lparr>desc_type := ty\<rparr> in
        dec (decoder_extract_str_until_char malloc_ok p1 0) (\<lambda>st p. returns msg st d p) (\<lambda>nm p2.
          returns msg STATE_SUCCESS (d\<lparr>desc_name := Some nm\<rparr>) (p2\<lparr>current_pos := 0\<rparr>)))))"

text \<open>The first position with a tag; None is \<open>PARSER_INVALID_BOUNDARY_INDEX\<close>.\<close>

fun boundary_from :: "nat \<Rightarrow> byte list \<Rightarrow> nat option" where
  "boundary_from i [] = None"
| "boundary_from i (b # bs) = (if contains_pgsql_tag b then Some i else boundary_from (i + 1) bs)"

definition pgsql_find_frame_boundary :: "raw_data_s \<Rightarrow> nat option" where
  "pgsql_find_frame_boundary r = boundary_from (current_pos r) (rest_bytes r)"

text \<open>
  \<open>pgsql_parse_frame\<close>. \<open>start0\<close> and \<open>msg0\<close> are the two structures as \<open>malloc\<close> gives them: \<open>init_pgsql_startup_msg\<close> and
  \<open>init_pgsql_regular_msg\<close> set none of the members. The sizes are those of the structures on a 64-bit host.
\<close>

definition pgsql_parse_frame ::
    "(nat \<Rightarrow> bool) \<Rightarrow> pgsql_startup_msg_s \<Rightarrow> pgsql_regular_msg_s \<Rightarrow> raw_data_s
     \<Rightarrow> (parse_state_t \<times> pgsql_frame_data_s option \<times> raw_data_s) outc" where
  "pgsql_parse_frame malloc_ok start0 msg0 raw =
     (if CHECK_RAW_DATA_LEN raw then Ok (STATE_NEEDS_MORE_DATA, None, raw)
      else if \<not> malloc_ok 24 then Ok (STATE_INVALID, None, raw)
      else let frame0 = Some \<lparr>frame = msg0\<rparr> in
        if \<not> (malloc_ok 424 \<and> malloc_ok 4) then Ok (STATE_INVALID, frame0, raw)
        else bnd (pgsql_parse_startup_msg malloc_ok raw start0) (\<lambda>(st, start_msg, r1).
          if st = STATE_SUCCESS \<and> name_value_pair_len start_msg \<noteq> 0 \<and> current_pos r1 = data_len r1
          then Ok (STATE_INVALID, frame0, r1)
          else if \<not> malloc_ok 32 then Ok (STATE_INVALID, frame0, r1)
          else bnd (pgsql_parse_regular_msg malloc_ok r1 (msg0\<lparr>msg_timestamp_ns := timestamp_ns raw\<rparr>)) (\<lambda>(st, msg, r2).
            Ok (st, Some \<lparr>frame = msg\<rparr>, r2))))"

text \<open>A message as a PostgreSQL peer writes it: the tag, the length of the rest in network byte order, the payload.\<close>

definition pgsql_regular :: "byte \<Rightarrow> byte list \<Rightarrow> byte list" where
  "pgsql_regular t payload = t # be_bytes 4 (length payload + 4) @ payload"

definition demo_msg :: pgsql_regular_msg_s where
  "demo_msg = \<lparr>msg_timestamp_ns = 7, tag = 0, msg_len = 0, payload_data = None, consumed = False\<rparr>"

definition demo_start :: pgsql_startup_msg_s where
  "demo_start = \<lparr>start_len = 0, major_version = 0, minor_version = 0, name_value_pair_len = 1\<rparr>"

text \<open>The payload of a data row: the number of columns, then each column with its length, -1 for NULL.\<close>

fun col_bytes :: "byte list option \<Rightarrow> byte list" where
  "col_bytes None = be_bytes 4 (2 ^ 32 - 1)"
| "col_bytes (Some v) = be_bytes 4 (length v) @ v"

definition data_row_bytes :: "byte list option list \<Rightarrow> byte list" where
  "data_row_bytes cols = be_bytes 2 (length cols) @ concat (map col_bytes cols)"

text \<open>What is kept of a column: NULL also for the empty string.\<close>

definition col_value :: "byte list option \<Rightarrow> byte list option" where
  "col_value c = (case c of None \<Rightarrow> None | Some v \<Rightarrow> if v = [] then None else Some (v @ [0]))"

definition demo_row :: pgsql_data_row_s where
  "demo_row = \<lparr>data_timestamp_ns = 0, colum_values = replicate 1024 None, colum_values_len = 9\<rparr>"

text \<open>The payload of an error response: fields of a code and a string, and a terminator.\<close>

definition err_bytes :: "(byte \<times> byte list) list \<Rightarrow> byte list" where
  "err_bytes fs = concat (map (\<lambda>(c, s). c # s @ [0]) fs)"

definition err_field_ok :: "(nat \<Rightarrow> bool) \<Rightarrow> byte \<times> byte list \<Rightarrow> bool" where
  "err_field_ok malloc_ok f \<longleftrightarrow> fst f \<noteq> 0 \<and> 0 \<notin> set (snd f) \<and> malloc_ok (Suc (length (snd f)))"

text \<open>The error code kept: that of the last field \<open>C\<close>.\<close>

definition err_code :: "byte list option \<Rightarrow> (byte \<times> byte list) list \<Rightarrow> byte list option" where
  "err_code old fs = foldl (\<lambda>v (c, s). if c = PGSQL_CODE then Some (s @ [0]) else v) old fs"

section \<open>Regular messages\<close>

lemma not_check: "raw_ok r \<Longrightarrow> rest_bytes r \<noteq> [] \<Longrightarrow> \<not> CHECK_RAW_DATA_LEN r"
  by (auto simp: CHECK_RAW_DATA_LEN_def raw_ok_def rest_bytes_def data_len_def)

lemma sint_of_nat32: "n < 2 ^ 31 \<Longrightarrow> sint (of_nat n :: 32 word) = int n"
  by (simp add: signed_of_nat signed_take_bit_int_eq_self)

lemma length_pgsql_regular [simp]: "length (pgsql_regular t payload) = length payload + 5"
  by (simp add: pgsql_regular_def)

text \<open>The header of a message: the tag and the length are read, and the payload is next.\<close>

lemma parse_regular_header:
  assumes "raw_ok r" "rest_bytes r = t # be_bytes 4 (n + 4) @ bs" "n + 4 < 2 ^ 31"
  shows "pgsql_parse_regular_msg malloc_ok r msg
    = dec (decoder_extract_raw_data_with_len malloc_ok (advance r 5) n)
        (\<lambda>st r. Ok (STATE_NEEDS_MORE_DATA, msg\<lparr>tag := t, msg_len := of_nat (n + 4)\<rparr>, r))
        (\<lambda>p r3. Ok (STATE_SUCCESS, msg\<lparr>tag := t, msg_len := of_nat (n + 4), payload_data := Some p\<rparr>, r3))"
proof -
  have s: "sint (of_nat (n + 4) :: 32 word) = int n + 4" using sint_of_nat32 [OF assms(3)] by simp
  have ok: "raw_ok (advance r 1)" "rest_bytes (advance r 1) = be_bytes 4 (n + 4) @ bs"
    using advance_ok [OF assms(1), of 1] by (simp_all add: rest_advance assms(2))
  have a: "advance (advance r 1) 4 = advance r 5" by (simp add: advance_def)
  have c: "\<not> CHECK_RAW_DATA_LEN r" using not_check assms(1,2) by simp
  have len: "n + 4 < 4294967296" using assms(3) by simp
  have n: "\<not> int n + 4 < 4" "nat (int n + 4 - 4) = n" by simp_all
  show ?thesis
    by (simp only: pgsql_parse_regular_msg_def c if_False run_char [OF assms(1,2)] run_int32 [OF ok len] s a n REGULAR_MSG_MIN_LEN_def)
qed

lemma parse_regular_whole:
  assumes "raw_ok r" "rest_bytes r = pgsql_regular t payload @ post" "length payload + 4 < 2 ^ 31" "malloc_ok (length payload)"
  shows "pgsql_parse_regular_msg malloc_ok r msg
    = Ok (STATE_SUCCESS, msg\<lparr>tag := t, msg_len := of_nat (length payload + 4), payload_data := Some (raw_of payload)\<rparr>,
          advance r (length payload + 5))"
proof -
  have rest: "rest_bytes r = t # be_bytes 4 (length payload + 4) @ payload @ post"
    using assms(2) by (simp add: pgsql_regular_def)
  have ok: "raw_ok (advance r 5)" "rest_bytes (advance r 5) = payload @ post"
    using advance_ok [OF assms(1), of 5] rest by (simp_all add: rest_advance)
  have "advance (advance r 5) (length payload) = advance r (length payload + 5)" by (simp add: advance_def)
  then show ?thesis using ok assms(4)
    by (simp add: parse_regular_header [OF assms(1) rest assms(3)] run_raw [where malloc_ok = malloc_ok])
qed

lemma parse_regular_part:
  assumes "raw_ok r" "rest_bytes r = take k (pgsql_regular t payload)" "k < length payload + 5" "length payload + 4 < 2 ^ 31"
  shows "\<exists>m r'. pgsql_parse_regular_msg malloc_ok r msg = Ok (STATE_NEEDS_MORE_DATA, m, r')"
proof (cases k)
  case 0
  then show ?thesis using assms(1,2)
    by (auto simp: pgsql_parse_regular_msg_def CHECK_RAW_DATA_LEN_def raw_ok_def rest_bytes_def data_len_def)
next
  case (Suc j)
  then have rest: "rest_bytes r = t # take j (be_bytes 4 (length payload + 4) @ payload)"
    using assms(2) by (simp add: pgsql_regular_def)
  show ?thesis
  proof (cases "j < 4")
    case True
    then have "raw_ok (advance r 1)" "length (rest_bytes (advance r 1)) < 4"
      using advance_ok [OF assms(1), of 1] by (simp_all add: rest_advance rest)
    note sh = run_short(2) [OF this]
    have c: "\<not> CHECK_RAW_DATA_LEN r" using not_check assms(1) rest by simp
    show ?thesis by (simp only: pgsql_parse_regular_msg_def c if_False run_char [OF assms(1) rest] sh) blast
  next
    case False
    then have rest: "rest_bytes r = t # be_bytes 4 (length payload + 4) @ take (j - 4) payload" using rest by simp
    have "raw_ok (advance r 5)" "length (rest_bytes (advance r 5)) < length payload"
      using advance_ok [OF assms(1), of 5] Suc assms(3) False by (simp_all add: rest_advance rest)
    then show ?thesis
      by (simp add: parse_regular_header [OF assms(1) rest assms(4)] run_short(3))
  qed
qed

text \<open>C32. A regular message is read back whatever follows it: tag, length and payload are those that were written and the
  position stands behind them; from every proper prefix of it the parser asks for more data.\<close>

theorem pgsql_regular_roundtrip:
  assumes "raw_ok r" "rest_bytes r = pgsql_regular t payload @ post" "length payload + 4 < 2 ^ 31" "malloc_ok (length payload)"
  shows "pgsql_parse_regular_msg malloc_ok r msg
      = Ok (STATE_SUCCESS, msg\<lparr>tag := t, msg_len := of_nat (length payload + 4), payload_data := Some (raw_of payload)\<rparr>,
            advance r (length payload + 5))
    \<and> (\<forall>k < length payload + 5. \<exists>m r'. pgsql_parse_regular_msg malloc_ok (r\<lparr>data := take (current_pos r + k) (data r)\<rparr>) msg
         = Ok (STATE_NEEDS_MORE_DATA, m, r'))"
proof (intro conjI allI impI)
  fix k assume k: "k < length payload + 5"
  let ?r = "r\<lparr>data := take (current_pos r + k) (data r)\<rparr>"
  have "raw_ok ?r" using assms(1) by (auto simp: raw_ok_def data_len_def)
  moreover have "rest_bytes ?r = take k (rest_bytes r)" by (simp add: rest_bytes_def take_drop add.commute)
  moreover have "take k (rest_bytes r) = take k (pgsql_regular t payload)" using k assms(2) by simp
  ultimately show "\<exists>m r'. pgsql_parse_regular_msg malloc_ok ?r msg = Ok (STATE_NEEDS_MORE_DATA, m, r')"
    using parse_regular_part k assms(3) by simp
qed (use parse_regular_whole assms in blast)

theorem pgsql_regular_roundtrip_witness:
  "pgsql_parse_regular_msg (\<lambda>_. True) (raw_of (pgsql_regular 81 [49, 0] @ [5])) demo_msg
    = Ok (STATE_SUCCESS, demo_msg\<lparr>tag := 81, msg_len := 6, payload_data := Some (raw_of [49, 0])\<rparr>,
          advance (raw_of (pgsql_regular 81 [49, 0] @ [5])) 7)"
  using pgsql_regular_roundtrip [of "raw_of (pgsql_regular 81 [49, 0] @ [5])" 81 "[49, 0]" "[5]" "\<lambda>_. True" demo_msg]
  by (simp add: raw_of_def raw_ok_def rest_bytes_def data_len_def)

section \<open>Frame boundaries\<close>

lemma boundary_from_None: "boundary_from i bs = None \<longleftrightarrow> (\<forall>b \<in> set bs. \<not> contains_pgsql_tag b)"
  by (induction bs arbitrary: i) auto

lemma boundary_from_Some:
  "boundary_from i bs = Some p \<longleftrightarrow> (\<exists>j < length bs. p = i + j \<and> contains_pgsql_tag (bs ! j) \<and> (\<forall>l < j. \<not> contains_pgsql_tag (bs ! l)))"
proof (induction bs arbitrary: i)
  case (Cons b bs)
  show ?case
  proof (cases "contains_pgsql_tag b")
    case True
    show ?thesis
    proof
      assume "boundary_from i (b # bs) = Some p"
      then show "\<exists>j<length (b # bs). p = i + j \<and> contains_pgsql_tag ((b # bs) ! j) \<and> (\<forall>l<j. \<not> contains_pgsql_tag ((b # bs) ! l))"
        using True by (intro exI [of _ 0]) simp
    next
      assume "\<exists>j<length (b # bs). p = i + j \<and> contains_pgsql_tag ((b # bs) ! j) \<and> (\<forall>l<j. \<not> contains_pgsql_tag ((b # bs) ! l))"
      then obtain j where j: "p = i + j" "\<forall>l<j. \<not> contains_pgsql_tag ((b # bs) ! l)" by blast
      then have "j = 0" using True by (cases j) auto
      then show "boundary_from i (b # bs) = Some p" using True j by simp
    qed
  next
    case False
    then have "(\<exists>j<length (b # bs). p = i + j \<and> contains_pgsql_tag ((b # bs) ! j) \<and> (\<forall>l<j. \<not> contains_pgsql_tag ((b # bs) ! l)))
      = (\<exists>j<length bs. p = i + 1 + j \<and> contains_pgsql_tag (bs ! j) \<and> (\<forall>l<j. \<not> contains_pgsql_tag (bs ! l)))"
      by (simp add: Ex_less_Suc2 All_less_Suc2 nth_Cons')
    then show ?thesis using False Cons.IH [of "i + 1"] by simp
  qed
qed simp

lemma boundary_moves:
  assumes "raw_ok r" "pgsql_find_frame_boundary r = Some p"
  shows "current_pos r \<le> p" "p < data_len r" "contains_pgsql_tag (data r ! p)"
  using assms by (auto simp: pgsql_find_frame_boundary_def boundary_from_Some rest_bytes_def data_len_def)

text \<open>The frame boundary is the first position from the read position on whose byte is a tag, if there is one. Every byte of
  the tag list is found, and so is the byte 0 that fills the unused half of the table although it is not a tag of the
  protocol; the tag \<open>p\<close> of a password message is missing in it.\<close>

theorem pgsql_boundary:
  assumes "raw_ok r"
  shows "(pgsql_find_frame_boundary r = None \<longleftrightarrow> (\<forall>b \<in> set (rest_bytes r). \<not> contains_pgsql_tag b))
    \<and> (pgsql_find_frame_boundary r = Some p \<longleftrightarrow> current_pos r \<le> p \<and> p < data_len r \<and> contains_pgsql_tag (data r ! p)
         \<and> (\<forall>i. current_pos r \<le> i \<and> i < p \<longrightarrow> \<not> contains_pgsql_tag (data r ! i)))
    \<and> contains_pgsql_tag 0 \<and> contains_pgsql_tag 81 \<and> \<not> contains_pgsql_tag 112"
proof (intro conjI)
  let ?c = "current_pos r"
  have nth: "rest_bytes r ! j = data r ! (?c + j)" for j using assms by (simp add: rest_bytes_def raw_ok_def data_len_def)
  show "pgsql_find_frame_boundary r = None \<longleftrightarrow> (\<forall>b \<in> set (rest_bytes r). \<not> contains_pgsql_tag b)"
    by (simp add: pgsql_find_frame_boundary_def boundary_from_None)
  show "pgsql_find_frame_boundary r = Some p \<longleftrightarrow> ?c \<le> p \<and> p < data_len r \<and> contains_pgsql_tag (data r ! p)
         \<and> (\<forall>i. ?c \<le> i \<and> i < p \<longrightarrow> \<not> contains_pgsql_tag (data r ! i))"
  proof
    assume "pgsql_find_frame_boundary r = Some p"
    then obtain j where j: "j < length (rest_bytes r)" "p = ?c + j" "contains_pgsql_tag (data r ! (?c + j))"
      "\<forall>l < j. \<not> contains_pgsql_tag (data r ! (?c + l))"
      by (auto simp: pgsql_find_frame_boundary_def boundary_from_Some nth)
    have "\<not> contains_pgsql_tag (data r ! i)" if "?c \<le> i" "i < p" for i
      using j(4) [rule_format, of "i - ?c"] that j(2) by simp
    then show "?c \<le> p \<and> p < data_len r \<and> contains_pgsql_tag (data r ! p) \<and> (\<forall>i. ?c \<le> i \<and> i < p \<longrightarrow> \<not> contains_pgsql_tag (data r ! i))"
      using j by (auto simp: rest_bytes_def data_len_def)
  next
    assume a: "?c \<le> p \<and> p < data_len r \<and> contains_pgsql_tag (data r ! p) \<and> (\<forall>i. ?c \<le> i \<and> i < p \<longrightarrow> \<not> contains_pgsql_tag (data r ! i))"
    then have "p - ?c < length (rest_bytes r)" "?c + (p - ?c) = p" by (auto simp: rest_bytes_def data_len_def)
    then show "pgsql_find_frame_boundary r = Some p" using a
      unfolding pgsql_find_frame_boundary_def boundary_from_Some nth by (intro exI [of _ "p - ?c"]) auto
  qed
qed (simp_all add: contains_pgsql_tag_def pgsql_tag_enum_values_def list_ex_iff)

theorem pgsql_boundary_witness:
  "raw_ok (raw_of [1, 1, 81, 0]) \<and> pgsql_find_frame_boundary (raw_of [1, 1, 81, 0]) = Some 2"
proof -
  have ok: "raw_ok (raw_of [1, 1, 81, 0])" by (simp add: raw_of_def raw_ok_def data_len_def)
  moreover have "\<forall>i. 0 \<le> i \<and> i < 2 \<longrightarrow> \<not> contains_pgsql_tag ([1, 1, 81, 0] ! i)"
    by (auto simp: less_2_cases_iff contains_pgsql_tag_def pgsql_tag_enum_values_def list_ex_iff)
  ultimately show ?thesis using pgsql_boundary [OF ok, of 2] by (simp add: raw_of_def data_len_def)
qed

section \<open>Frames\<close>

lemma until_char_terminated:
  "decoder_extract_str_until_char malloc_ok r c = Ok (STATE_SUCCESS, Some v, s) \<Longrightarrow> 0 \<in> set v"
  by (auto simp: decoder_extract_str_until_char_def string_result_def extract_prefix_bytes_string_def
      dest!: bnd_eq_OkD split: if_splits option.splits)

lemma strlen_until:
  "decoder_extract_str_until_char malloc_ok r c = Ok (STATE_SUCCESS, Some v, s) \<Longrightarrow> bnd (strlen v) f = f (length (takeWhile (\<lambda>b. b \<noteq> 0) v))"
  using until_char_terminated by (fastforce simp: strlen_def)

lemma int_moves:
  "decoder_extract_int n r = Ok (STATE_SUCCESS, v, s) \<Longrightarrow> raw_ok r \<Longrightarrow> current_pos s = current_pos r + n"
  by (auto simp: decoder_extract_int_def parser_raw_data_offset_def dest!: bnd_eq_OkD split: if_splits)

lemma int32_moves: "decoder_extract_int32_t r = Ok (STATE_SUCCESS, v, s) \<Longrightarrow> raw_ok r \<Longrightarrow> current_pos s = current_pos r + 4"
  by (simp add: decoder_extract_int32_t_def int_moves)

lemma raw_moves:
  "decoder_extract_raw_data_with_len malloc_ok r n = Ok (STATE_SUCCESS, Some p, s) \<Longrightarrow> raw_ok r \<Longrightarrow>
   current_pos s = current_pos r + n \<and> length (data p) = n"
  by (auto simp: decoder_extract_raw_data_with_len_def rd_unconsumed unconsumed_rest offset_advance advance_def split: if_splits)

lemma name_value_moved: "raw_ok r \<Longrightarrow> yields (\<lambda>(st, s). moved r s) (pgsql_parse_startup_name_value malloc_ok r)"
proof (induction malloc_ok r rule: pgsql_parse_startup_name_value.induct)
  case (1 malloc_ok r)
  let ?Q = "\<lambda>(st, s). moved r s"
  let ?until = "\<lambda>r. decoder_extract_str_until_char malloc_ok r 0"
  show ?case
  proof (cases "current_pos r < data_len r")
    case True
    have "yields ?Q (dec (?until r) (\<lambda>st r. Ok (st, r)) (\<lambda>name r1. bnd (strlen name) (\<lambda>n.
        if n = 0 then Ok (STATE_SUCCESS, r1) else dec (?until r1) (\<lambda>st r. Ok (st, r)) (\<lambda>val r2.
          bnd (strlen val) (\<lambda>k. if k = 0 then Ok (STATE_INVALID, r2) else pgsql_parse_startup_name_value malloc_ok r2)))))"
    proof (rule yields_dec [OF decode_safe_until [OF "1.prems"] "1.prems"])
      fix name r1 assume r1: "moved r r1" "raw_ok r1" "?until r = Ok (STATE_SUCCESS, Some name, r1)"
      show "yields ?Q (bnd (strlen name) (\<lambda>n. if n = 0 then Ok (STATE_SUCCESS, r1) else dec (?until r1) (\<lambda>st r. Ok (st, r)) (\<lambda>val r2.
          bnd (strlen val) (\<lambda>k. if k = 0 then Ok (STATE_INVALID, r2) else pgsql_parse_startup_name_value malloc_ok r2))))"
      proof (cases "length (takeWhile (\<lambda>b. b \<noteq> 0) name) = 0")
        case nz: False
        have "yields ?Q (dec (?until r1) (\<lambda>st r. Ok (st, r)) (\<lambda>val r2.
          bnd (strlen val) (\<lambda>k. if k = 0 then Ok (STATE_INVALID, r2) else pgsql_parse_startup_name_value malloc_ok r2)))"
        proof (rule yields_dec [OF decode_safe_until [OF r1(2)] r1(2)])
          fix val r2 assume r2: "moved r1 r2" "raw_ok r2" "?until r1 = Ok (STATE_SUCCESS, Some val, r2)"
          have n: "strlen name = Ok (length (takeWhile (\<lambda>b. b \<noteq> 0) name))" and v: "strlen val = Ok (length (takeWhile (\<lambda>b. b \<noteq> 0) val))"
            using until_char_terminated r1(3) r2(3) by (auto simp: strlen_def)
          have m: "moved r r2" using r1(1) r2(1) by (rule moved_trans)
          show "yields ?Q (bnd (strlen val) (\<lambda>k. if k = 0 then Ok (STATE_INVALID, r2) else pgsql_parse_startup_name_value malloc_ok r2))"
            using "1.IH" [OF True r1(3) n nz r2(3) v _ r2(2)] m by (auto simp: v intro: moved_trans elim!: yields_mono)
        qed (use r1 in simp)
        then show ?thesis using nz by (simp add: strlen_until [OF r1(3)])
      qed (use r1(1) in \<open>simp add: strlen_until [OF r1(3)]\<close>)
    qed (use "1.prems" in simp)
    then show ?thesis using True by (subst pgsql_parse_startup_name_value.simps) simp
  next
    case False
    then show ?thesis using "1.prems" by (subst pgsql_parse_startup_name_value.simps) simp
  qed
qed

lemma char_moves1: "decoder_extract_char r = Ok (STATE_SUCCESS, v, s) \<Longrightarrow> raw_ok r \<Longrightarrow> current_pos s = current_pos r + 1"
  by (auto simp: decoder_extract_char_def parser_raw_data_offset_def dest!: bnd_eq_OkD split: if_splits)

lemma int32_short: "decoder_extract_int32_t r = Ok (st, None, s) \<Longrightarrow> raw_ok r \<Longrightarrow> length (rest_bytes r) < 4"
  by (auto simp: decoder_extract_int32_t_def decoder_extract_int_def unconsumed_rest dest!: bnd_eq_OkD split: if_splits)

lemma offset_0 [simp]: "parser_raw_data_offset r 0 = r"
  by (simp add: parser_raw_data_offset_def)

lemma startup_moved:
  assumes "raw_ok r"
  shows "yields (\<lambda>(st, m, s). moved r s \<and> (4 \<le> length (rest_bytes r) \<longrightarrow> current_pos r + 4 \<le> current_pos s))
    (pgsql_parse_startup_msg malloc_ok r msg)" (is "yields ?Q _")
proof (cases "CHECK_RAW_DATA_LEN r")
  case True
  then show ?thesis using assms by (auto simp: pgsql_parse_startup_msg_def CHECK_RAW_DATA_LEN_def rest_bytes_def data_len_def)
next
  case False
  have Q: "moved r s \<and> current_pos r + 4 \<le> current_pos s" if "moved r s1" "current_pos s1 = current_pos r + 4" "moved s1 s" for s1 s
    using that moved_trans [OF that(1,3)] by (auto simp: moved_def)
  show ?thesis unfolding pgsql_parse_startup_msg_def if_not_P [OF False] Let_def
  proof (rule yields_dec [OF decode_safe_ints(3) [OF assms] assms], goal_cases err32 int32)
    case err32
    then show ?case using assms int32_short [OF err32(2) assms] by simp
  next
    case (int32 l r1)
    note r1 = int32(1) int32_moves [OF int32(3) assms]
    show ?case
    proof (rule yields_dec [OF decode_safe_ints(2) [OF int32(2)] int32(2)], goal_cases err major)
      case (major ma r2)
      note r2 = major(1)
      show ?case
      proof (rule yields_dec [OF decode_safe_ints(2) [OF major(2)] major(2)], goal_cases err minor)
        case (minor mi r3)
        have r3: "moved r1 r3" using r2 minor(1) by (rule moved_trans)
        have "yields (\<lambda>(st, s). moved r s \<and> current_pos r + 4 \<le> current_pos s) (pgsql_parse_startup_name_value malloc_ok r3)"
          using name_value_moved [OF minor(2)] by (rule yields_mono) (use Q [OF r1] moved_trans [OF r3] in auto)
        then show ?case using Q [OF r1 r3] by (auto intro!: yields_bnd elim!: yields_mono)
      qed (use Q [OF r1 r2] in simp)
    qed (use Q [OF r1] int32(2) in simp)
  qed
qed

lemma regular_moved:
  assumes "raw_ok r"
  shows "yields (\<lambda>(st, m, s). moved r s \<and> (st = STATE_SUCCESS \<longrightarrow> (\<exists>p. payload_data m = Some p \<and> current_pos s = current_pos r + 5 + length (data p))))
    (pgsql_parse_regular_msg malloc_ok r msg)" (is "yields ?Q _")
proof (cases "CHECK_RAW_DATA_LEN r")
  case False
  show ?thesis unfolding pgsql_parse_regular_msg_def if_not_P [OF False]
  proof (rule yields_dec [OF decode_safe_char [OF assms] assms], goal_cases err char)
    case (char t r1)
    show ?case
    proof (rule yields_dec [OF decode_safe_ints(3) [OF char(2)] char(2)], goal_cases err int32)
      case (int32 l r2)
      have r2: "moved r r2" "current_pos r2 = current_pos r + 5"
        using moved_trans [OF char(1) int32(1)] char_moves1 [OF char(3) assms] int32_moves [OF int32(3) char(2)] by simp_all
      have "yields ?Q (dec (decoder_extract_raw_data_with_len malloc_ok r2 (nat (sint l - REGULAR_MSG_MIN_LEN)))
            (\<lambda>st r. Ok (STATE_NEEDS_MORE_DATA, msg\<lparr>tag := t, msg_len := l\<rparr>, r)) (\<lambda>p r3.
              Ok (STATE_SUCCESS, msg\<lparr>tag := t, msg_len := l, payload_data := Some p\<rparr>, r3)))"
        using r2 moved_trans [OF r2(1)] raw_moves [OF _ int32(2)]
        by (intro yields_dec [OF decode_safe_raw [OF int32(2)] int32(2)]) auto
      then show ?case using r2 by simp
    qed (use char in simp)
  qed (use assms in simp)
qed (use assms in \<open>simp add: pgsql_parse_regular_msg_def\<close>)

lemma frame_moved:
  assumes "raw_ok r"
  shows "yields (\<lambda>(st, f, s). moved r s \<and> (st = STATE_SUCCESS \<longrightarrow> (\<exists>m p. f = Some \<lparr>frame = m\<rparr> \<and> payload_data m = Some p
       \<and> current_pos r + 5 + length (data p) \<le> current_pos s
       \<and> (4 \<le> length (rest_bytes r) \<longrightarrow> current_pos r + 9 + length (data p) \<le> current_pos s))))
    (pgsql_parse_frame malloc_ok start0 msg0 r)" (is "yields ?Q _")
proof (cases "CHECK_RAW_DATA_LEN r \<or> \<not> malloc_ok 24 \<or> \<not> (malloc_ok 424 \<and> malloc_ok 4)")
  case True
  then show ?thesis using assms by (auto simp: pgsql_parse_frame_def)
next
  case False
  let ?msg = "msg0\<lparr>msg_timestamp_ns := timestamp_ns r\<rparr>"
  have "yields ?Q (bnd (pgsql_parse_startup_msg malloc_ok r start0) (\<lambda>(st, start_msg, r1).
          if st = STATE_SUCCESS \<and> name_value_pair_len start_msg \<noteq> 0 \<and> current_pos r1 = data_len r1
          then Ok (STATE_INVALID, Some \<lparr>frame = msg0\<rparr>, r1)
          else if \<not> malloc_ok 32 then Ok (STATE_INVALID, Some \<lparr>frame = msg0\<rparr>, r1)
          else bnd (pgsql_parse_regular_msg malloc_ok r1 ?msg) (\<lambda>(st, msg, r2). Ok (st, Some \<lparr>frame = msg\<rparr>, r2))))"
  proof (rule yields_bnd, rule yields_mono [OF startup_moved [OF assms]], goal_cases)
    case (1 x)
    obtain st sm r1 where x: "x = (st, sm, r1)" by (cases x)
    have r1: "moved r r1" "4 \<le> length (rest_bytes r) \<longrightarrow> current_pos r + 4 \<le> current_pos r1" "current_pos r \<le> current_pos r1"
      using 1(2) by (auto simp: x moved_def)
    have "yields ?Q (bnd (pgsql_parse_regular_msg malloc_ok r1 ?msg) (\<lambda>(st, msg, r2). Ok (st, Some \<lparr>frame = msg\<rparr>, r2)))"
      by (rule yields_bnd, rule yields_mono [OF regular_moved [OF moved_ok [OF r1(1)]]])
        (use r1 in \<open>auto intro: moved_trans [OF r1(1)]\<close>)
    then show ?case using r1(1) by (simp add: x)
  qed
  then show ?thesis using False by (simp add: pgsql_parse_frame_def Let_def)
qed

text \<open>Whatever bytes a connection carries, parsing a frame returns without leaving the buffer, changes nothing of it but the
  position, which only moves forward and stays inside, and when it succeeds it gives a frame with a payload and has consumed
  at least its header.\<close>

theorem pgsql_frame_safe:
  assumes "raw_ok r"
  shows "\<exists>st f s. pgsql_parse_frame malloc_ok start0 msg0 r = Ok (st, f, s) \<and> moved r s
    \<and> (st = STATE_SUCCESS \<longrightarrow> (\<exists>m p. f = Some \<lparr>frame = m\<rparr> \<and> payload_data m = Some p
         \<and> current_pos r + 5 + length (data p) \<le> current_pos s))"
  using frame_moved [OF assms, of malloc_ok start0 msg0]
  by (cases "pgsql_parse_frame malloc_ok start0 msg0 r") auto

theorem pgsql_frame_safe_witness:
  "\<exists>st f s. pgsql_parse_frame (\<lambda>_. True) demo_start demo_msg demo_raw = Ok (st, f, s) \<and> moved demo_raw s"
  using pgsql_frame_safe [of demo_raw "\<lambda>_. True" demo_start demo_msg] by (auto simp: demo_raw_def raw_ok_def data_len_def)

text \<open>The test for a startup message consumes the buffer and is not undone, so a regular message that stands at the read
  position, which every complete message of at least five bytes does after the boundary search, is never the one that is returned:
  whatever is returned lies at least four bytes further and has a shorter payload.\<close>

theorem pgsql_frame_loses_message:
  assumes "raw_ok r" "rest_bytes r = pgsql_regular t payload"
  shows "\<exists>st f s. pgsql_parse_frame malloc_ok start0 msg0 r = Ok (st, f, s)
    \<and> (st = STATE_SUCCESS \<longrightarrow> (\<exists>m p. f = Some \<lparr>frame = m\<rparr> \<and> payload_data m = Some p \<and> length (data p) + 4 \<le> length payload))"
proof -
  have len: "length (rest_bytes r) = length payload + 5" using assms(2) by simp
  have "length (data p) + 4 \<le> length payload" if "moved r s" "current_pos r + 9 + length (data p) \<le> current_pos s" for s p
    using that len moved_rest [OF that(1)] by (auto simp: advance_def)
  then have "yields (\<lambda>(st, f, s). st = STATE_SUCCESS \<longrightarrow> (\<exists>m p. f = Some \<lparr>frame = m\<rparr> \<and> payload_data m = Some p \<and> length (data p) + 4 \<le> length payload))
      (pgsql_parse_frame malloc_ok start0 msg0 r)"
    using len by (intro yields_mono [OF frame_moved [OF assms(1)]]) fastforce
  then show ?thesis by (cases "pgsql_parse_frame malloc_ok start0 msg0 r") auto
qed

theorem pgsql_frame_loses_message_witness:
  "\<exists>st f s. pgsql_parse_frame (\<lambda>_. True) demo_start demo_msg
       (raw_of (pgsql_regular 81 [49, 0])) = Ok (st, f, s)
    \<and> (st = STATE_SUCCESS \<longrightarrow> (\<exists>m p. f = Some \<lparr>frame = m\<rparr> \<and> payload_data m = Some p \<and> length (data p) + 4 \<le> 2))"
  using pgsql_frame_loses_message [of "raw_of (pgsql_regular 81 [49, 0])" 81 "[49, 0]" "\<lambda>_. True"
      demo_start demo_msg]
  by (simp add: raw_of_def raw_ok_def rest_bytes_def)

section \<open>Data rows\<close>

lemma raw_of_0: "raw_of bs\<lparr>current_pos := 0\<rparr> = raw_of bs"
  by (simp add: raw_of_def)

lemma word_max: "(of_nat (2 ^ 32 - 1) :: 32 word) = - 1"
  by simp

lemma of_nat_word_zero: "n < 2 ^ 31 \<Longrightarrow> (of_nat n :: 32 word) = 0 \<longleftrightarrow> n = 0"
  using sint_of_nat32 [of n] by (cases "n = 0") auto

lemma of_nat_word_minus: "n < 2 ^ 31 \<Longrightarrow> (of_nat n :: 32 word) \<noteq> - 1"
proof
  assume "n < 2 ^ 31" and "(of_nat n :: 32 word) = - 1"
  then have "int n = sint (- 1 :: 32 word)" using sint_of_nat32 [of n] by simp
  then show False by simp
qed

lemma unat_scast:
  assumes "n < 2 ^ 31"
  shows "unat (scast (of_nat n :: 32 word) :: u64) = n"
proof -
  have "(scast (of_nat n :: 32 word) :: u64) = of_int (sint (of_nat n :: 32 word))" by simp
  also have "\<dots> = of_nat n" using sint_of_nat32 [OF assms] by simp
  finally have e: "(scast (of_nat n :: 32 word) :: u64) = of_nat n" .
  show ?thesis unfolding e using assms by (simp add: unat_of_nat)
qed


lemma data_row_step:
  assumes "raw_ok p" "rest_bytes p = col_bytes c @ bs" "i < PGSQL_DATA_ROW_SIZE" "case c of None \<Rightarrow> True | Some v \<Rightarrow> length v < 2 ^ 31 \<and> malloc_ok (Suc (length v))"
  shows "data_row_loop malloc_ok msg (Suc n) i row p = data_row_loop malloc_ok msg n (i + 1)
    (row\<lparr>colum_values := (colum_values row)[i := col_value c], colum_values_len := colum_values_len row + 1\<rparr>) (advance p (length (col_bytes c)))"
proof (cases c)
  case None
  have "(2::nat) ^ 32 - 1 < 4294967296" by simp
  note run = run_int32 [OF assms(1) assms(2) [unfolded None col_bytes.simps] this]
  show ?thesis using assms(3) by (simp only: data_row_loop.simps run word_max None) (simp add: col_value_def)
next
  case (Some v)
  then have rest: "rest_bytes p = be_bytes 4 (length v) @ v @ bs" and len: "length v < 2 ^ 31" "malloc_ok (Suc (length v))"
    using assms(2,4) by simp_all
  have ok: "raw_ok (advance p 4)" "rest_bytes (advance p 4) = v @ bs"
    using advance_ok [OF assms(1), of 4] rest by (simp_all add: rest_advance)
  have a: "advance (advance p 4) (length v) = advance p (4 + length v)" by (simp add: advance_def)
  have "length v < 4294967296" using len(1) by simp
  note run = run_int32 [OF assms(1) rest this]
  show ?thesis
  proof (cases "v = []")
    case True
    then show ?thesis using Some assms(3) by (simp only: data_row_loop.simps run) (simp add: col_value_def)
  next
    case False
    then have nz: "\<not> ((of_nat (length v) :: 32 word) = - 1 \<or> (of_nat (length v) :: 32 word) = 0)"
      using of_nat_word_zero [OF len(1)] of_nat_word_minus [OF len(1)] by simp
    have "dec (decoder_extract_string malloc_ok (advance p 4) (length v)) err f = f (v @ [0]) (advance p (4 + length v))" for err and f :: "byte list \<Rightarrow> raw_data_s \<Rightarrow> 'b outc"
      using run_string [OF ok(1), of "length v" malloc_ok err f] ok(2) len(2) a by simp
    then show ?thesis using False Some assms(3) by (simp only: data_row_loop.simps run nz if_False unat_scast [OF len(1)]) (simp add: col_value_def)
  qed
qed

lemma data_row_loop_cols:
  assumes "raw_ok p" "rest_bytes p = concat (map col_bytes cols) @ bs" "i + length cols \<le> PGSQL_DATA_ROW_SIZE"
    "\<forall>v. Some v \<in> set cols \<longrightarrow> length v < 2 ^ 31 \<and> malloc_ok (Suc (length v))" "length (colum_values row) = PGSQL_DATA_ROW_SIZE"
  shows "data_row_loop malloc_ok msg (length cols + n) i row p = data_row_loop malloc_ok msg n (i + length cols)
    (row\<lparr>colum_values := take i (colum_values row) @ map col_value cols @ drop (i + length cols) (colum_values row),
       colum_values_len := colum_values_len row + of_nat (length cols)\<rparr>) (advance p (length (concat (map col_bytes cols))))"
  using assms
proof (induction cols arbitrary: i row p)
  case Nil
  then show ?case by (simp add: advance_def)
next
  case (Cons c cols)
  let ?row = "row\<lparr>colum_values := (colum_values row)[i := col_value c], colum_values_len := colum_values_len row + 1\<rparr>"
  let ?p = "advance p (length (col_bytes c))"
  have rest: "rest_bytes p = col_bytes c @ concat (map col_bytes cols) @ bs" using Cons.prems(2) by simp
  have "data_row_loop malloc_ok msg (Suc (length cols + n)) i row p = data_row_loop malloc_ok msg (length cols + n) (i + 1) ?row ?p"
    using Cons.prems by (intro data_row_step [OF Cons.prems(1) rest]) (auto split: option.splits)
  also have "\<dots> = data_row_loop malloc_ok msg n (i + 1 + length cols)
      (?row\<lparr>colum_values := take (i + 1) (colum_values ?row) @ map col_value cols @ drop (i + 1 + length cols) (colum_values ?row),
        colum_values_len := colum_values_len ?row + of_nat (length cols)\<rparr>) (advance ?p (length (concat (map col_bytes cols))))"
    using Cons.prems rest advance_ok [OF Cons.prems(1), of "length (col_bytes c)"] by (intro Cons.IH) (auto simp: rest_advance)
  also have "take (i + 1) (colum_values ?row) = take i (colum_values row) @ [col_value c]"
    using Cons.prems(3,5) by (simp add: take_Suc_conv_app_nth)
  finally show ?case by (simp add: advance_def add.assoc)
qed

lemma data_row_start:
  assumes "payload_data msg = Some (raw_of (data_row_bytes cols))" "length cols < 2 ^ 15"
  defines "p \<equiv> advance (raw_of (data_row_bytes cols)) 2"
  shows "raw_ok p" "rest_bytes p = concat (map col_bytes cols)"
    "pgsql_parse_data_row malloc_ok msg row
      = data_row_loop malloc_ok msg (length cols) 0 (row\<lparr>data_timestamp_ns := msg_timestamp_ns msg, colum_values_len := 0\<rparr>) p"
proof -
  let ?p = "raw_of (data_row_bytes cols)"
  have ok: "raw_ok ?p" by (simp add: raw_of_def raw_ok_def)
  have rest: "rest_bytes ?p = be_bytes 2 (length cols) @ concat (map col_bytes cols)"
    by (simp add: raw_of_def rest_bytes_def data_row_bytes_def)
  show "raw_ok p" "rest_bytes p = concat (map col_bytes cols)"
    unfolding p_def using advance_ok [OF ok, of 2] rest by (simp_all add: rest_advance)
  have n: "sint (of_nat (length cols) :: 16 word) = int (length cols)"
    using assms(2) by (simp add: signed_of_nat signed_take_bit_int_eq_self)
  have "length cols < 65536" using assms(2) by simp
  note run = run_int16 [OF ok rest this]
  have z: "?p\<lparr>current_pos := 0\<rparr> = ?p" "data_len ?p \<noteq> 0" by (simp_all add: raw_of_def data_len_def data_row_bytes_def)
  show "pgsql_parse_data_row malloc_ok msg row
      = data_row_loop malloc_ok msg (length cols) 0 (row\<lparr>data_timestamp_ns := msg_timestamp_ns msg, colum_values_len := 0\<rparr>) p"
    by (simp add: pgsql_parse_data_row_def with_payload_def assms(1) Let_def z run n p_def)
qed

lemma data_row_overflow:
  assumes "raw_ok p" "rest_bytes p = concat (map col_bytes cols)" "PGSQL_DATA_ROW_SIZE < length cols" "cols ! PGSQL_DATA_ROW_SIZE = None"
    "\<forall>v. Some v \<in> set cols \<longrightarrow> length v < 2 ^ 31 \<and> malloc_ok (Suc (length v))" "length (colum_values row) = PGSQL_DATA_ROW_SIZE"
  shows "data_row_loop malloc_ok msg (length cols) 0 row p = UB"
proof -
  let ?cs = "take PGSQL_DATA_ROW_SIZE cols" and ?post = "concat (map col_bytes (drop (Suc PGSQL_DATA_ROW_SIZE) cols))"
  have split: "cols = ?cs @ None # drop (Suc PGSQL_DATA_ROW_SIZE) cols" using assms(3,4) id_take_nth_drop [of PGSQL_DATA_ROW_SIZE cols] by simp
  have len: "length cols = length ?cs + Suc (length cols - PGSQL_DATA_ROW_SIZE - 1)" using assms(3) by (simp add: min_def)
  have rest: "rest_bytes p = concat (map col_bytes ?cs) @ col_bytes None @ ?post" by (subst assms(2), subst split) simp
  let ?q = "advance p (length (concat (map col_bytes ?cs)))"
  have q: "raw_ok ?q" "rest_bytes ?q = be_bytes 4 (2 ^ 32 - 1) @ ?post"
    by (rule advance_ok [OF assms(1)], simp add: rest, subst rest_advance, simp add: rest)
  have vals: "\<forall>v. Some v \<in> set ?cs \<longrightarrow> length v < 2 ^ 31 \<and> malloc_ok (Suc (length v))" using assms(5) by (meson in_set_takeD)
  have "(2::nat) ^ 32 - 1 < 4294967296" by simp
  note last = run_int32 [OF q this]
  have "data_row_loop malloc_ok msg (length cols) 0 row p
      = data_row_loop malloc_ok msg (length ?cs + Suc (length cols - PGSQL_DATA_ROW_SIZE - 1)) 0 row p"
    by (simp only: len [symmetric])
  also have "\<dots> = data_row_loop malloc_ok msg (Suc (length cols - PGSQL_DATA_ROW_SIZE - 1)) (0 + length ?cs)
      (row\<lparr>colum_values := take 0 (colum_values row) @ map col_value ?cs @ drop (0 + length ?cs) (colum_values row),
        colum_values_len := colum_values_len row + of_nat (length ?cs)\<rparr>) ?q"
    using assms(6) by (intro data_row_loop_cols [OF assms(1) rest _ vals]) simp_all
  also have "\<dots> = UB" using assms(3) by (simp only: data_row_loop.simps last word_max) simp
  finally show ?thesis .
qed

text \<open>A data row of up to 1024 columns is read back column by column, the empty string as NULL; a row with more NULL columns than
  the array has entries is written past its end.\<close>

theorem pgsql_data_row:
  assumes "payload_data msg = Some (raw_of (data_row_bytes cols))" "length cols < 2 ^ 15"
    "\<forall>v. Some v \<in> set cols \<longrightarrow> length v < 2 ^ 31 \<and> malloc_ok (Suc (length v))" "length (colum_values row) = PGSQL_DATA_ROW_SIZE"
  shows "(length cols \<le> PGSQL_DATA_ROW_SIZE \<longrightarrow> pgsql_parse_data_row malloc_ok msg row
      = Ok (STATE_SUCCESS, \<lparr>data_timestamp_ns = msg_timestamp_ns msg, colum_values = map col_value cols @ drop (length cols) (colum_values row),
          colum_values_len = of_nat (length cols)\<rparr>, msg))
    \<and> (PGSQL_DATA_ROW_SIZE < length cols \<and> cols ! PGSQL_DATA_ROW_SIZE = None \<longrightarrow> pgsql_parse_data_row malloc_ok msg row = UB)"
proof (intro conjI impI)
  note start = data_row_start [OF assms(1,2)]
  have m: "msg\<lparr>payload_data := Some (raw_of (data_row_bytes cols))\<rparr> = msg" using assms(1) by (cases msg) simp
  assume "length cols \<le> PGSQL_DATA_ROW_SIZE"
  then show "pgsql_parse_data_row malloc_ok msg row
    = Ok (STATE_SUCCESS, \<lparr>data_timestamp_ns = msg_timestamp_ns msg, colum_values = map col_value cols @ drop (length cols) (colum_values row),
        colum_values_len = of_nat (length cols)\<rparr>, msg)"
    unfolding start(3) using data_row_loop_cols [OF start(1), of cols "[]" 0 malloc_ok "row\<lparr>data_timestamp_ns := msg_timestamp_ns msg, colum_values_len := 0\<rparr>" msg 0]
      assms(3,4) start(2)
    by (cases row) (simp add: returns_def advance_def m raw_of_0)
next
  assume "PGSQL_DATA_ROW_SIZE < length cols \<and> cols ! PGSQL_DATA_ROW_SIZE = None"
  then show "pgsql_parse_data_row malloc_ok msg row = UB"
    using data_row_start [OF assms(1,2)] data_row_overflow assms(3,4) by simp
qed

theorem pgsql_data_row_witness:
  "pgsql_parse_data_row (\<lambda>_. True) (demo_msg\<lparr>payload_data := Some (raw_of (data_row_bytes [Some [49], None, Some []]))\<rparr>) demo_row
    = Ok (STATE_SUCCESS, \<lparr>data_timestamp_ns = 7, colum_values = [Some [49, 0], None, None] @ replicate 1021 None, colum_values_len = 3\<rparr>,
        demo_msg\<lparr>payload_data := Some (raw_of (data_row_bytes [Some [49], None, Some []]))\<rparr>)"
  using pgsql_data_row [of "demo_msg\<lparr>payload_data := Some (raw_of (data_row_bytes [Some [49], None, Some []]))\<rparr>" "[Some [49], None, Some []]"
      "\<lambda>_. True" demo_row]
  by (auto simp: demo_row_def demo_msg_def PGSQL_DATA_ROW_SIZE_def col_value_def)

section \<open>Error responses\<close>

lemma lt_data_len: "raw_ok p \<Longrightarrow> current_pos p < data_len p \<longleftrightarrow> rest_bytes p \<noteq> []"
  by (auto simp: rest_bytes_def raw_ok_def data_len_def)

lemma err_fields_step:
  assumes "raw_ok p" "rest_bytes p = c # s @ 0 # bs" "err_field_ok malloc_ok (c, s)"
  shows "err_fields malloc_ok msg e p
    = err_fields malloc_ok msg (if c = PGSQL_CODE then e\<lparr>pgsql_err_code := Some (s @ [0])\<rparr> else e) (advance p (length s + 2))"
proof -
  have lt: "current_pos p < data_len p" using lt_data_len [OF assms(1)] assms(2) by simp
  have ok: "raw_ok (advance p 1)" "rest_bytes (advance p 1) = s @ 0 # bs"
    using advance_ok [OF assms(1), of 1] assms(2) by (simp_all add: rest_advance)
  have c: "c \<noteq> 0" "0 \<notin> set s" "malloc_ok (Suc (length s))" using assms(3) by (simp_all add: err_field_ok_def)
  have a: "advance (advance p 1) (length s + 1) = advance p (length s + 2)" by (simp add: advance_def)
  show ?thesis
    by (subst err_fields.simps)
      (simp only: lt if_True run_char [OF assms(1,2)] c(1) if_False run_until [where malloc_ok = malloc_ok, OF ok c(2,3)] a)
qed

lemma err_fields_all:
  assumes "raw_ok p" "rest_bytes p = err_bytes fs @ bs" "list_all (err_field_ok malloc_ok) fs"
  shows "err_fields malloc_ok msg e p
    = err_fields malloc_ok msg (e\<lparr>pgsql_err_code := err_code (pgsql_err_code e) fs\<rparr>) (advance p (length (err_bytes fs)))"
  using assms
proof (induction fs arbitrary: e p)
  case Nil
  then show ?case by (simp add: err_bytes_def err_code_def advance_def)
next
  case (Cons f fs)
  obtain c s where f: "f = (c, s)" by (cases f)
  have rest: "rest_bytes p = c # s @ 0 # err_bytes fs @ bs" using Cons.prems(2) by (simp add: f err_bytes_def)
  have ok: "raw_ok (advance p (length s + 2))" "rest_bytes (advance p (length s + 2)) = err_bytes fs @ bs"
    using advance_ok [OF Cons.prems(1), of "length s + 2"] rest by (simp_all add: rest_advance)
  let ?e = "if c = PGSQL_CODE then e\<lparr>pgsql_err_code := Some (s @ [0])\<rparr> else e"
  have "err_fields malloc_ok msg e p = err_fields malloc_ok msg ?e (advance p (length s + 2))"
    using Cons.prems(1,3) rest by (intro err_fields_step) (simp_all add: f)
  also have "\<dots> = err_fields malloc_ok msg (?e\<lparr>pgsql_err_code := err_code (pgsql_err_code ?e) fs\<rparr>)
      (advance (advance p (length s + 2)) (length (err_bytes fs)))"
    using Cons.prems(3) by (intro Cons.IH [OF ok]) simp
  also have "?e\<lparr>pgsql_err_code := err_code (pgsql_err_code ?e) fs\<rparr> = e\<lparr>pgsql_err_code := err_code (pgsql_err_code e) (f # fs)\<rparr>"
    by (simp add: err_code_def f)
  finally show ?case by (simp add: f err_bytes_def advance_def add.assoc)
qed

text \<open>An error response is accepted when its fields end with the terminator as the last byte, and its code is the string of
  the last field \<open>C\<close>; bytes after the terminator make it invalid; in both cases the code is kept and the position is reset.\<close>

theorem pgsql_err_resp:
  assumes "payload_data msg = Some (raw_of (err_bytes fs @ 0 # post))" "list_all (err_field_ok malloc_ok) fs"
  shows "pgsql_parse_err_resp malloc_ok msg e
    = Ok (if post = [] then STATE_SUCCESS else STATE_INVALID,
          \<lparr>err_timestamp_ns = msg_timestamp_ns msg, pgsql_err_code = err_code (pgsql_err_code e) fs\<rparr>, msg)"
proof -
  let ?p = "raw_of (err_bytes fs @ 0 # post)" and ?n = "length (err_bytes fs)"
  let ?q = "advance ?p ?n"
  have ok: "raw_ok ?p" "rest_bytes ?p = err_bytes fs @ 0 # post" by (simp_all add: raw_of_def raw_ok_def rest_bytes_def)
  have q: "raw_ok ?q" "rest_bytes ?q = 0 # post" using advance_ok [OF ok(1), of ?n] ok(2) by (simp_all add: rest_advance)
  have lt: "current_pos ?q < data_len ?q" using lt_data_len [OF q(1)] q(2) by simp
  have last: "current_pos (advance ?q 1) = data_len (advance ?q 1) \<longleftrightarrow> post = []"
    by (simp add: raw_of_def advance_def data_len_def)
  have m: "msg\<lparr>payload_data := Some ?p\<rparr> = msg" using assms(1) by (cases msg) simp
  have r: "(advance ?q 1)\<lparr>current_pos := 0\<rparr> = ?p" by (simp add: raw_of_def advance_def)
  have z: "data_len ?p \<noteq> 0" by (simp add: raw_of_def data_len_def)
  have "err_fields malloc_ok msg e' ?q = Ok (if post = [] then STATE_SUCCESS else STATE_INVALID, e', msg)" for e'
    by (subst err_fields.simps) (simp only: lt if_True run_char [OF q] last returns_def r m refl)
  then show ?thesis using err_fields_all [OF ok assms(2), of msg "e\<lparr>err_timestamp_ns := msg_timestamp_ns msg\<rparr>"]
    by (cases e) (simp add: pgsql_parse_err_resp_def with_payload_def assms(1) z raw_of_0)
qed

theorem pgsql_err_resp_witness:
  "pgsql_parse_err_resp (\<lambda>_. True) (demo_msg\<lparr>payload_data := Some (raw_of (err_bytes [(83, [70]), (67, [52, 50])] @ [0]))\<rparr>)
      \<lparr>err_timestamp_ns = 0, pgsql_err_code = None\<rparr>
    = Ok (STATE_SUCCESS, \<lparr>err_timestamp_ns = 7, pgsql_err_code = Some [52, 50, 0]\<rparr>,
        demo_msg\<lparr>payload_data := Some (raw_of (err_bytes [(83, [70]), (67, [52, 50])] @ [0]))\<rparr>)"
  using pgsql_err_resp [of "demo_msg\<lparr>payload_data := Some (raw_of (err_bytes [(83, [70]), (67, [52, 50])] @ [0]))\<rparr>"
      "[(83, [70]), (67, [52, 50])]" "[]" "\<lambda>_. True" "\<lparr>err_timestamp_ns = 0, pgsql_err_code = None\<rparr>"]
  by (simp add: err_field_ok_def err_code_def PGSQL_CODE_def demo_msg_def)

section \<open>Requests\<close>

lemma skip_int16_all:
  "raw_ok p \<Longrightarrow> rest_bytes p = concat (map (be_bytes 2) xs) @ bs \<Longrightarrow> list_all (\<lambda>x. x < 65536) xs \<Longrightarrow>
   skip_int16 (length xs) p = Ok (STATE_SUCCESS, advance p (2 * length xs))"
proof (induction xs arbitrary: p)
  case (Cons x xs)
  have rest: "rest_bytes p = be_bytes 2 x @ concat (map (be_bytes 2) xs) @ bs" using Cons.prems(2) by simp
  have "raw_ok (advance p 2)" "rest_bytes (advance p 2) = concat (map (be_bytes 2) xs) @ bs"
    using advance_ok [OF Cons.prems(1), of 2] rest by (simp_all add: rest_advance)
  then have "skip_int16 (length xs) (advance p 2) = Ok (STATE_SUCCESS, advance (advance p 2) (2 * length xs))"
    using Cons.prems(3) by (intro Cons.IH) simp_all
  moreover have "x < 65536" using Cons.prems(3) by simp
  ultimately show ?case using run_int16 [OF Cons.prems(1) rest, where f = "\<lambda>_ p. skip_int16 (length xs) p"]
    by (simp add: advance_def)
qed (simp add: advance_def)

lemma skip_int32_all:
  "raw_ok p \<Longrightarrow> rest_bytes p = concat (map (be_bytes 4) xs) @ bs \<Longrightarrow> list_all (\<lambda>x. x < 4294967296) xs \<Longrightarrow>
   skip_int32 (length xs) p = Ok (STATE_SUCCESS, advance p (4 * length xs))"
proof (induction xs arbitrary: p)
  case (Cons x xs)
  have rest: "rest_bytes p = be_bytes 4 x @ concat (map (be_bytes 4) xs) @ bs" using Cons.prems(2) by simp
  have "raw_ok (advance p 4)" "rest_bytes (advance p 4) = concat (map (be_bytes 4) xs) @ bs"
    using advance_ok [OF Cons.prems(1), of 4] rest by (simp_all add: rest_advance)
  then have "skip_int32 (length xs) (advance p 4) = Ok (STATE_SUCCESS, advance (advance p 4) (4 * length xs))"
    using Cons.prems(3) by (intro Cons.IH) simp_all
  moreover have "x < 4294967296" using Cons.prems(3) by simp
  ultimately show ?case using run_int32 [OF Cons.prems(1) rest, where f = "\<lambda>_ p. skip_int32 (length xs) p"]
    by (simp add: advance_def)
qed (simp add: advance_def)

lemma sint_count: "n < 2 ^ 15 \<Longrightarrow> nat (sint (of_nat n :: 16 word)) = n"
  by (simp add: signed_of_nat signed_take_bit_int_eq_self)

text \<open>Two strings and a count at the start of a payload, as in the parse and the bind request.\<close>

lemma two_strings:
  fixes bs :: "byte list"
  assumes "0 \<notin> set a" "0 \<notin> set b" "malloc_ok (Suc (length a))" "malloc_ok (Suc (length b))" "n < 2 ^ 15"
  defines "p \<equiv> raw_of (a @ 0 # b @ 0 # be_bytes 2 n @ bs)" and "q \<equiv> advance (raw_of (a @ 0 # b @ 0 # be_bytes 2 n @ bs)) (length a + length b + 4)"
  shows "raw_ok q" "rest_bytes q = bs" "q\<lparr>current_pos := 0\<rparr> = p" "data_len p \<noteq> 0"
    "dec (decoder_extract_str_until_char malloc_ok p 0) err1 (\<lambda>x p1.
       dec (decoder_extract_str_until_char malloc_ok p1 0) (err2 x) (\<lambda>y p2. dec (decoder_extract_int16_t p2) (err3 x y) (f x y)))
     = f (a @ [0]) (b @ [0]) (of_nat n) q"
proof -
  have ok: "raw_ok p" "rest_bytes p = a @ 0 # b @ 0 # be_bytes 2 n @ bs" by (simp_all add: p_def raw_of_def raw_ok_def rest_bytes_def)
  let ?p1 = "advance p (length a + 1)"
  have ok1: "raw_ok ?p1" "rest_bytes ?p1 = b @ 0 # be_bytes 2 n @ bs"
    using advance_ok [OF ok(1), of "length a + 1"] ok(2) by (simp_all add: rest_advance)
  let ?p2 = "advance ?p1 (length b + 1)"
  have ok2: "raw_ok ?p2" "rest_bytes ?p2 = be_bytes 2 n @ bs"
    by (rule advance_ok [OF ok1(1)], unfold ok1(2), simp, subst rest_advance, unfold ok1(2), simp)
  have q: "q = advance ?p2 2" by (simp add: p_def q_def advance_def)
  show "raw_ok q" "rest_bytes q = bs" unfolding q
    by (rule advance_ok [OF ok2(1)], unfold ok2(2), simp, subst rest_advance, unfold ok2(2), simp)
  show "q\<lparr>current_pos := 0\<rparr> = p" "data_len p \<noteq> 0" by (simp_all add: p_def q_def advance_def raw_of_def data_len_def)
  have n: "n < 65536" using assms(5) by simp
  show "dec (decoder_extract_str_until_char malloc_ok p 0) err1 (\<lambda>x p1.
       dec (decoder_extract_str_until_char malloc_ok p1 0) (err2 x) (\<lambda>y p2. dec (decoder_extract_int16_t p2) (err3 x y) (f x y)))
     = f (a @ [0]) (b @ [0]) (of_nat n) q"
    by (simp only: run_until [where malloc_ok = malloc_ok, OF ok assms(1,3)] run_until [where malloc_ok = malloc_ok, OF ok1 assms(2,4)]
        run_int16 [OF ok2 n] q)
qed

text \<open>The parse request gives its statement name and query, the bind request its portal and statement name, the describe
  request its kind and name, whatever type oids or format codes follow; each resets the payload's position.\<close>

theorem pgsql_requests:
  assumes "0 \<notin> set a" "0 \<notin> set b" "malloc_ok (Suc (length a))" "malloc_ok (Suc (length b))" "length xs < 2 ^ 15"
  shows "(payload_data msg = Some (raw_of (a @ 0 # b @ 0 # be_bytes 2 (length xs) @ concat (map (be_bytes 4) xs) @ post))
      \<and> list_all (\<lambda>x. x < 2 ^ 32) xs \<longrightarrow>
      pgsql_parse_parse_msg malloc_ok msg q = Ok (STATE_SUCCESS,
        \<lparr>parse_timestamp_ns = msg_timestamp_ns msg, stmt_name = Some (a @ [0]), query = Some (b @ [0])\<rparr>, msg))
    \<and> (payload_data msg = Some (raw_of (a @ 0 # b @ 0 # be_bytes 2 (length xs) @ concat (map (be_bytes 2) xs) @ post))
      \<and> list_all (\<lambda>x. x < 2 ^ 16) xs \<longrightarrow>
      pgsql_parse_bind_req malloc_ok msg r = Ok (STATE_SUCCESS,
        \<lparr>bind_timestamp_ns = msg_timestamp_ns msg, dest_portal_name = Some (a @ [0]), src_prepared_stat_name = Some (b @ [0])\<rparr>, msg))
    \<and> (payload_data msg = Some (raw_of (ty # a @ 0 # post)) \<longrightarrow>
      pgsql_parse_describe malloc_ok msg d = Ok (STATE_SUCCESS,
        \<lparr>desc_timestamp_ns = msg_timestamp_ns msg, desc_type = ty, desc_name = Some (a @ [0])\<rparr>, msg))"
proof (intro conjI impI)
  note ts = two_strings [where malloc_ok = malloc_ok, OF assms]
  let ?p = "raw_of (a @ 0 # b @ 0 # be_bytes 2 (length xs) @ concat (map (be_bytes 4) xs) @ post)"
  assume p: "payload_data msg = Some ?p \<and> list_all (\<lambda>x. x < 2 ^ 32) xs"
  then have m: "msg\<lparr>payload_data := Some ?p\<rparr> = msg" by (cases msg) simp
  have "q\<lparr>parse_timestamp_ns := msg_timestamp_ns msg, stmt_name := x, query := y\<rparr> = \<lparr>parse_timestamp_ns = msg_timestamp_ns msg, stmt_name = x, query = y\<rparr>" for x y
    by (cases q) simp
  then show "pgsql_parse_parse_msg malloc_ok msg q = Ok (STATE_SUCCESS,
      \<lparr>parse_timestamp_ns = msg_timestamp_ns msg, stmt_name = Some (a @ [0]), query = Some (b @ [0])\<rparr>, msg)"
    using p skip_int32_all [OF ts(1,2), of xs post] ts(3,4) [of "concat (map (be_bytes 4) xs) @ post"] m
    by (simp add: pgsql_parse_parse_msg_def with_payload_def Let_def raw_of_0 ts(5) sint_count [OF assms(5)] after_skip_def returns_def advance_def)
next
  note ts = two_strings [where malloc_ok = malloc_ok, OF assms]
  let ?p = "raw_of (a @ 0 # b @ 0 # be_bytes 2 (length xs) @ concat (map (be_bytes 2) xs) @ post)"
  assume p: "payload_data msg = Some ?p \<and> list_all (\<lambda>x. x < 2 ^ 16) xs"
  then have m: "msg\<lparr>payload_data := Some ?p\<rparr> = msg" by (cases msg) simp
  have "r\<lparr>bind_timestamp_ns := msg_timestamp_ns msg, dest_portal_name := x, src_prepared_stat_name := y\<rparr>
      = \<lparr>bind_timestamp_ns = msg_timestamp_ns msg, dest_portal_name = x, src_prepared_stat_name = y\<rparr>" for x y
    by (cases r) simp
  then show "pgsql_parse_bind_req malloc_ok msg r = Ok (STATE_SUCCESS,
      \<lparr>bind_timestamp_ns = msg_timestamp_ns msg, dest_portal_name = Some (a @ [0]), src_prepared_stat_name = Some (b @ [0])\<rparr>, msg)"
    using p skip_int16_all [OF ts(1,2), of xs post] ts(3,4) [of "concat (map (be_bytes 2) xs) @ post"] m
    by (simp add: pgsql_parse_bind_req_def with_payload_def Let_def raw_of_0 ts(5) sint_count [OF assms(5)] after_skip_def returns_def advance_def)
next
  let ?p = "raw_of (ty # a @ 0 # post)"
  assume p: "payload_data msg = Some ?p"
  then have m: "msg\<lparr>payload_data := Some ?p\<rparr> = msg" by (cases msg) simp
  have ok: "raw_ok ?p" "rest_bytes ?p = ty # a @ 0 # post" by (simp_all add: raw_of_def raw_ok_def rest_bytes_def)
  have ok1: "raw_ok (advance ?p 1)" "rest_bytes (advance ?p 1) = a @ 0 # post"
    using advance_ok [OF ok(1), of 1] ok(2) by (simp_all add: rest_advance)
  have z: "data_len ?p \<noteq> 0" "advance (advance ?p 1) (length a + 1)\<lparr>current_pos := 0\<rparr> = ?p"
    by (simp_all add: raw_of_def advance_def data_len_def)
  have d: "d\<lparr>desc_timestamp_ns := msg_timestamp_ns msg, desc_type := ty, desc_name := x\<rparr>
      = \<lparr>desc_timestamp_ns = msg_timestamp_ns msg, desc_type = ty, desc_name = x\<rparr>" for x by (cases d) simp
  show "pgsql_parse_describe malloc_ok msg d = Ok (STATE_SUCCESS,
      \<lparr>desc_timestamp_ns = msg_timestamp_ns msg, desc_type = ty, desc_name = Some (a @ [0])\<rparr>, msg)"
    by (simp only: pgsql_parse_describe_def with_payload_def Let_def p option.case z(1) if_False raw_of_0 run_char [OF ok]
        run_until [where malloc_ok = malloc_ok, OF ok1 assms(1,3)] returns_def z(2) m d)
qed

theorem pgsql_requests_witness:
  "pgsql_parse_describe (\<lambda>_. True) (demo_msg\<lparr>payload_data := Some (raw_of [83, 115, 0])\<rparr>) \<lparr>desc_timestamp_ns = 0, desc_type = 0, desc_name = None\<rparr>
    = Ok (STATE_SUCCESS, \<lparr>desc_timestamp_ns = 7, desc_type = 83, desc_name = Some [115, 0]\<rparr>, demo_msg\<lparr>payload_data := Some (raw_of [83, 115, 0])\<rparr>)"
  using pgsql_requests [of "[115]" "[]" "\<lambda>_. True" "[]" "demo_msg\<lparr>payload_data := Some (raw_of [83, 115, 0])\<rparr>" "[]" undefined undefined 83
      "\<lparr>desc_timestamp_ns = 0, desc_type = 0, desc_name = None\<rparr>"]
  by (simp add: demo_msg_def)

text \<open>The tag of a command completion is the payload up to its first zero byte; a payload without a zero byte, or no payload,
  makes the code read outside.\<close>

theorem pgsql_cmd_complete:
  assumes "\<forall>n. malloc_ok n"
  shows "(payload_data msg = Some p \<and> data p = s @ 0 # post \<and> 0 \<notin> set s \<longrightarrow> pgsql_parse_cmd_complete malloc_ok msg cmd
        = Ok (STATE_SUCCESS, \<lparr>cmd_timestamp_ns = msg_timestamp_ns msg, cmd_tag = Some s\<rparr>))
    \<and> (payload_data msg = Some p \<and> 0 \<notin> set (data p) \<or> payload_data msg = None \<longrightarrow> pgsql_parse_cmd_complete malloc_ok msg cmd = UB)"
proof -
  have "takeWhile (\<lambda>b. b \<noteq> 0) (s @ 0 # post) = s" if "0 \<notin> set s" using that by (induction s) auto
  then show ?thesis using assms
    by (cases cmd) (auto simp: pgsql_parse_cmd_complete_def strlen_def)
qed

theorem pgsql_cmd_complete_witness:
  "pgsql_parse_cmd_complete (\<lambda>_. True) (demo_msg\<lparr>payload_data := Some (raw_of [83, 69])\<rparr>) \<lparr>cmd_timestamp_ns = 0, cmd_tag = None\<rparr> = UB"
  using pgsql_cmd_complete [of "\<lambda>_. True" "demo_msg\<lparr>payload_data := Some (raw_of [83, 69])\<rparr>" "raw_of [83, 69]" "[]" "[]" "\<lparr>cmd_timestamp_ns = 0, cmd_tag = None\<rparr>"]
  by (simp add: raw_of_def)

end
