(* ===== verification/Data_Stream.thy ===== *)
theory Data_Stream
  imports Pgsql_Parser
begin

text \<open>
  The streams of the layer-7 probe, \<open>data_stream.c\<close>, and the dispatch to the protocol parsers, \<open>protocol/expose/protocol_parser.c\<close>.
  A stream queues the captured buffers of one direction of a connection and the frames parsed from them. The parser of a protocol
  is an argument of the loop that drives it; the locale \<open>frame_parser\<close> states what the loop relies on.
\<close>

section \<open>Streams\<close>

definition RAW_BUF_SIZE :: nat where "RAW_BUF_SIZE = 50"
definition FRAME_BUF_SIZE :: nat where "FRAME_BUF_SIZE = 1024"
definition RAW_DATA_FLAGS_INVALID :: u32 where "RAW_DATA_FLAGS_INVALID = 1"

datatype proto_type_t = PROTO_UNKNOW | PROTO_HTTP | PROTO_HTTP2 | PROTO_MYSQL | PROTO_PGSQL | PROTO_DNS | PROTO_REDIS
  | PROTO_NATS | PROTO_CQL | PROTO_MONGO | PROTO_KAFKA

datatype message_type_t = MESSAGE_UNKNOW | MESSAGE_REQUEST | MESSAGE_RESPONSE

text \<open>Both arrays are lists of their full length, an entry None when it is NULL. A frame stands for the pointer to it.\<close>

record raw_buf_s =
  raw_buf_size :: nat
  raw_datas :: "raw_data_s option list"

record 'f frame_buf_s =
  frames :: "'f option list"
  frame_buf_size :: nat
  frame_current_pos :: nat

record 'f data_stream_s =
  raw_bufs :: raw_buf_s
  frame_bufs :: "'f frame_buf_s"
  stream_type :: proto_type_t

definition push_frame_data :: "'f data_stream_s \<Rightarrow> 'f \<Rightarrow> int \<times> 'f data_stream_s" where
  "push_frame_data ds f =
     (let b = frame_bufs ds in
      if FRAME_BUF_SIZE \<le> frame_buf_size b then (- 1, ds)
      else (0, ds\<lparr>frame_bufs := b\<lparr>frames := (frames b)[frame_buf_size b := Some f], frame_buf_size := frame_buf_size b + 1\<rparr>\<rparr>))"

definition push_raw_data :: "'f data_stream_s \<Rightarrow> raw_data_s \<Rightarrow> int \<times> 'f data_stream_s" where
  "push_raw_data ds r =
     (let b = raw_bufs ds in
      if RAW_BUF_SIZE \<le> raw_buf_size b then (- 1, ds)
      else (0, ds\<lparr>raw_bufs := b\<lparr>raw_datas := (raw_datas b)[raw_buf_size b := Some r], raw_buf_size := raw_buf_size b + 1\<rparr>\<rparr>))"

definition replace_top_raw_data :: "'f data_stream_s \<Rightarrow> raw_data_s \<Rightarrow> raw_data_s option \<times> 'f data_stream_s" where
  "replace_top_raw_data ds r =
     (let b = raw_bufs ds in
      if raw_buf_size b = 0 then (None, ds)
      else case raw_datas b ! 0 of
        None \<Rightarrow> (None, ds)
      | Some old \<Rightarrow> (Some old, ds\<lparr>raw_bufs := b\<lparr>raw_datas := (raw_datas b)[0 := Some r]\<rparr>\<rparr>))"

text \<open>The loop that moves the entries from 1 to \<open>n - 1\<close> down by one.\<close>

definition shift_down :: "nat \<Rightarrow> 'a list \<Rightarrow> 'a list" where
  "shift_down n xs = foldl (\<lambda>xs i. xs[i - 1 := xs ! i]) xs [1..<n]"

definition pop_raw_data :: "'f data_stream_s \<Rightarrow> raw_data_s option \<times> 'f data_stream_s" where
  "pop_raw_data ds =
     (let b = raw_bufs ds in
      if raw_buf_size b = 0 then (None, ds)
      else case raw_datas b ! 0 of
        None \<Rightarrow> (None, ds)
      | Some r \<Rightarrow> (Some r, ds\<lparr>raw_bufs := b\<lparr>raw_datas := shift_down (min (raw_buf_size b) RAW_BUF_SIZE) (raw_datas b),
          raw_buf_size := raw_buf_size b - 1\<rparr>\<rparr>))"

definition peek_raw_data :: "'f data_stream_s \<Rightarrow> raw_data_s option" where
  "peek_raw_data ds = (if raw_buf_size (raw_bufs ds) = 0 then None else raw_datas (raw_bufs ds) ! 0)"

definition do_overlay_raw_data :: "(nat \<Rightarrow> bool) \<Rightarrow> raw_data_s \<Rightarrow> raw_data_s \<Rightarrow> raw_data_s option" where
  "do_overlay_raw_data malloc_ok dst src =
     (if malloc_ok (data_len dst + data_len src)
      then Some \<lparr>flags = 0, timestamp_ns = timestamp_ns dst, current_pos = current_pos dst, data = data dst @ data src\<rparr>
      else None)"

definition overlay_raw_data :: "(nat \<Rightarrow> bool) \<Rightarrow> 'f data_stream_s \<Rightarrow> int \<times> 'f data_stream_s" where
  "overlay_raw_data malloc_ok ds =
     (let b = raw_bufs ds in
      if raw_buf_size b < 2 then (- 1, ds)
      else case (raw_datas b ! 0, raw_datas b ! 1) of
        (Some x, Some y) \<Rightarrow>
          (case do_overlay_raw_data malloc_ok x y of
             None \<Rightarrow> (- 1, ds)
           | Some z \<Rightarrow> (0, snd (replace_top_raw_data (snd (pop_raw_data ds)) z)))
      | _ \<Rightarrow> (- 1, ds))"

text \<open>The frames destroyed, in order, and the frame buffer after \<open>__do_pop_frames\<close>; \<open>frame_buf_size\<close> is not changed.\<close>

definition clear_frames :: "nat \<Rightarrow> 'f option list \<Rightarrow> 'f option list" where
  "clear_frames n xs = foldl (\<lambda>xs i. xs[i := None]) xs [0..<n]"

definition move_frames :: "nat \<Rightarrow> nat \<Rightarrow> 'f option list \<Rightarrow> 'f option list" where
  "move_frames pos n xs = foldl (\<lambda>xs i. xs[i - pos := xs ! i]) xs [pos..<n]"

definition do_pop_frames :: "'f frame_buf_s \<Rightarrow> 'f list \<times> 'f frame_buf_s" where
  "do_pop_frames b =
     (if frame_current_pos b = 0 then ([], b)
      else let n = min (frame_current_pos b) FRAME_BUF_SIZE;
               cleared = clear_frames n (frames b);
               moved = move_frames (frame_current_pos b) (min (frame_buf_size b) FRAME_BUF_SIZE) cleared
        in (List.map_filter id (take n (frames b)), b\<lparr>frames := moved, frame_current_pos := 0\<rparr>))"

definition data_stream_pop_frames :: "'f data_stream_s \<Rightarrow> 'f list \<times> 'f data_stream_s" where
  "data_stream_pop_frames ds = (case do_pop_frames (frame_bufs ds) of (destroyed, b) \<Rightarrow> (destroyed, ds\<lparr>frame_bufs := b\<rparr>))"

definition init_data_stream :: "'f data_stream_s" where
  "init_data_stream = \<lparr>raw_bufs = \<lparr>raw_buf_size = 0, raw_datas = replicate RAW_BUF_SIZE None\<rparr>,
     frame_bufs = \<lparr>frames = replicate FRAME_BUF_SIZE None, frame_buf_size = 0, frame_current_pos = 0\<rparr>, stream_type = PROTO_UNKNOW\<rparr>"

text \<open>The buffers and the frames that are freed, in order, and the stream afterwards.\<close>

definition deinit_data_stream :: "'f data_stream_s \<Rightarrow> raw_data_s list \<times> 'f list \<times> 'f data_stream_s" where
  "deinit_data_stream ds =
     (let rb = raw_bufs ds; fb = frame_bufs ds; rn = min (raw_buf_size rb) RAW_BUF_SIZE; fn = min (frame_buf_size fb) FRAME_BUF_SIZE in
      (List.map_filter id (take rn (raw_datas rb)), List.map_filter id (take fn (frames fb)),
       ds\<lparr>raw_bufs := rb\<lparr>raw_datas := clear_frames rn (raw_datas rb), raw_buf_size := 0\<rparr>,
          frame_bufs := fb\<lparr>frames := clear_frames fn (frames fb), frame_buf_size := 0\<rparr>\<rparr>))"

definition data_stream_add_raw_data :: "(nat \<Rightarrow> bool) \<Rightarrow> 'f data_stream_s \<Rightarrow> byte list \<Rightarrow> nat \<Rightarrow> u64 \<Rightarrow> (int \<times> 'f data_stream_s) outc" where
  "data_stream_add_raw_data malloc_ok ds bytes n ts =
     (if \<not> malloc_ok n then Ok (- 1, ds)
      else bnd (rd bytes 0 n) (\<lambda>bs.
        Ok (push_raw_data ds \<lparr>flags = 0, timestamp_ns = ts, current_pos = 0, data = bs\<rparr>)))"

section \<open>Parsing the frames of a stream\<close>

datatype parse_rslt_e = PARSE_NEXT | PARSE_REBOUND | PARSE_REPEAT | PARSE_OVERLAY | PARSE_STOP | PARSE_ERROR

type_synonym 'f frame_parse = "raw_data_s \<Rightarrow> (parse_state_t \<times> 'f option \<times> raw_data_s) outc"

text \<open>The buffer \<open>raw_data\<close> points to is the first of the queue; \<open>set_top\<close> is an assignment through that pointer.\<close>

definition set_top :: "raw_data_s \<Rightarrow> 'f data_stream_s \<Rightarrow> 'f data_stream_s" where
  "set_top r ds = ds\<lparr>raw_bufs := (raw_bufs ds)\<lparr>raw_datas := (raw_datas (raw_bufs ds))[0 := Some r]\<rparr>\<rparr>"

definition do_parse_frames :: "(nat \<Rightarrow> bool) \<Rightarrow> 'f frame_parse \<Rightarrow> 'f data_stream_s \<Rightarrow> raw_data_s \<Rightarrow> (parse_rslt_e \<times> 'f data_stream_s) outc" where
  "do_parse_frames malloc_ok parse ds raw =
     bnd (parse raw) (\<lambda>(st, f, r). let ds1 = set_top r ds in
       case st of
         STATE_SUCCESS \<Rightarrow>
           (case f of
              None \<Rightarrow> Ok (PARSE_ERROR, ds1)
            | Some fr \<Rightarrow> (case push_frame_data ds1 fr of (ret, ds2) \<Rightarrow>
                Ok (if ret \<noteq> 0 then PARSE_STOP else if current_pos r = data_len r then PARSE_NEXT else PARSE_REPEAT, ds2)))
       | STATE_IGNORE \<Rightarrow> Ok (PARSE_NEXT, ds1)
       | STATE_INVALID \<Rightarrow>
           if flags r AND RAW_DATA_FLAGS_INVALID \<noteq> 0 then Ok (PARSE_NEXT, ds1)
           else Ok (PARSE_REBOUND, set_top (r\<lparr>flags := flags r OR RAW_DATA_FLAGS_INVALID\<rparr>) ds1)
       | STATE_NEEDS_MORE_DATA \<Rightarrow>
           (case overlay_raw_data malloc_ok ds1 of (ret, ds2) \<Rightarrow> Ok (if ret \<noteq> 0 then PARSE_STOP else PARSE_OVERLAY, ds2))
       | _ \<Rightarrow> Ok (PARSE_ERROR, ds1))"

text \<open>The labels of \<open>data_stream_parse_frames\<close>; a step runs from one label to the next jump or to the end.\<close>

datatype label = LNext | LRebound | LRepeat

fun parse_step :: "(nat \<Rightarrow> bool) \<Rightarrow> (raw_data_s \<Rightarrow> nat option) \<Rightarrow> 'f frame_parse \<Rightarrow> label \<times> 'f data_stream_s
    \<Rightarrow> (bool \<times> label \<times> 'f data_stream_s) outc" where
  "parse_step malloc_ok bound parse (LNext, ds) =
     (case peek_raw_data ds of None \<Rightarrow> Ok (True, LNext, ds) | Some _ \<Rightarrow> Ok (False, LRebound, ds))"
| "parse_step malloc_ok bound parse (LRebound, ds) =
     (case peek_raw_data ds of
        None \<Rightarrow> UB
      | Some raw \<Rightarrow> (case bound raw of
          None \<Rightarrow> Ok (False, LNext, snd (pop_raw_data ds))
        | Some new_pos \<Rightarrow> Ok (False, LRepeat, set_top (raw\<lparr>current_pos := new_pos\<rparr>) ds)))"
| "parse_step malloc_ok bound parse (LRepeat, ds) =
     (case peek_raw_data ds of
        None \<Rightarrow> UB
      | Some raw \<Rightarrow> bnd (do_parse_frames malloc_ok parse ds raw) (\<lambda>(rslt, ds1).
          case rslt of
            PARSE_NEXT \<Rightarrow> Ok (False, LNext, snd (pop_raw_data ds1))
          | PARSE_OVERLAY \<Rightarrow> Ok (False, LNext, ds1)
          | PARSE_REBOUND \<Rightarrow> Ok (False, LRebound, ds1)
          | PARSE_REPEAT \<Rightarrow> Ok (False, LRepeat, ds1)
          | PARSE_STOP \<Rightarrow> (case peek_raw_data ds1 of None \<Rightarrow> UB
              | Some r \<Rightarrow> Ok (True, LNext, set_top (r\<lparr>current_pos := current_pos raw\<rparr>) ds1))
          | PARSE_ERROR \<Rightarrow> Ok (True, LNext, ds1)))"

definition parse_stream :: "(nat \<Rightarrow> bool) \<Rightarrow> (raw_data_s \<Rightarrow> nat option) \<Rightarrow> 'f frame_parse \<Rightarrow> 'f data_stream_s \<Rightarrow> 'f data_stream_s outc" where
  "parse_stream malloc_ok bound parse ds = bnd (loop_result (c_loop (parse_step malloc_ok bound parse) (LNext, ds))) (\<lambda>(l, ds'). Ok ds')"

section \<open>Dispatch\<close>

text \<open>
  The parsers of a stream whose frames are of type \<open>'f\<close>: those of HTTP are arguments, that of PostgreSQL is the one modelled,
  with \<open>wrap\<close> making a frame of it. The other protocols have none.
\<close>

record 'f l7_env =
  env_malloc :: "nat \<Rightarrow> bool"
  env_startup :: pgsql_startup_msg_s
  env_regular :: pgsql_regular_msg_s
  env_wrap :: "pgsql_frame_data_s \<Rightarrow> 'f"
  http_boundary :: "message_type_t \<Rightarrow> raw_data_s \<Rightarrow> nat option"
  http_parse :: "message_type_t \<Rightarrow> 'f frame_parse"

definition proto_find_frame_boundary :: "'f l7_env \<Rightarrow> proto_type_t \<Rightarrow> message_type_t \<Rightarrow> raw_data_s \<Rightarrow> nat option" where
  "proto_find_frame_boundary env ty mt r =
     (case ty of PROTO_PGSQL \<Rightarrow> pgsql_find_frame_boundary r | PROTO_HTTP \<Rightarrow> http_boundary env mt r | _ \<Rightarrow> Some 0)"

definition proto_parse_frame :: "'f l7_env \<Rightarrow> proto_type_t \<Rightarrow> message_type_t \<Rightarrow> 'f frame_parse" where
  "proto_parse_frame env ty mt r =
     (case ty of
        PROTO_PGSQL \<Rightarrow> bnd (pgsql_parse_frame (env_malloc env) (env_startup env) (env_regular env) r)
          (\<lambda>(st, f, s). Ok (st, map_option (env_wrap env) f, s))
      | PROTO_HTTP \<Rightarrow> http_parse env mt r
      | _ \<Rightarrow> Ok (STATE_UNKNOWN, None, r))"

definition data_stream_parse_frames :: "'f l7_env \<Rightarrow> message_type_t \<Rightarrow> 'f data_stream_s \<Rightarrow> 'f data_stream_s outc" where
  "data_stream_parse_frames env mt ds =
     parse_stream (env_malloc env) (proto_find_frame_boundary env (stream_type ds) mt) (proto_parse_frame env (stream_type ds) mt) ds"

section \<open>Well-formed streams\<close>

text \<open>The buffers that are queued, and the frames that are held, in order.\<close>

definition queue :: "'f data_stream_s \<Rightarrow> raw_data_s option list" where
  "queue ds = take (raw_buf_size (raw_bufs ds)) (raw_datas (raw_bufs ds))"

definition held :: "'f data_stream_s \<Rightarrow> 'f option list" where
  "held ds = take (frame_buf_size (frame_bufs ds)) (frames (frame_bufs ds))"

definition buffer_ok :: "raw_data_s option \<Rightarrow> bool" where
  "buffer_ok x = (case x of None \<Rightarrow> False | Some r \<Rightarrow> raw_ok r)"

definition stream_ok :: "'f data_stream_s \<Rightarrow> bool" where
  "stream_ok ds \<longleftrightarrow> length (raw_datas (raw_bufs ds)) = RAW_BUF_SIZE \<and> raw_buf_size (raw_bufs ds) \<le> RAW_BUF_SIZE
     \<and> list_all buffer_ok (queue ds)
     \<and> length (frames (frame_bufs ds)) = FRAME_BUF_SIZE \<and> frame_buf_size (frame_bufs ds) \<le> FRAME_BUF_SIZE
     \<and> frame_current_pos (frame_bufs ds) \<le> frame_buf_size (frame_bufs ds)"

text \<open>
  What the loop relies on: the boundary search stays inside a buffer and the parser returns, moving only the position and only
  forward. Under this it ends for every stream: each round shortens the queue, or marks its first buffer as invalid,
  or fills an entry of the frame buffer, or goes on to the next label.
\<close>

definition stream_rank :: "label \<times> 'f data_stream_s \<Rightarrow> nat \<times> nat \<times> nat \<times> nat" where
  "stream_rank s = (case s of (l, ds) \<Rightarrow>
     (length (queue ds),
      case queue ds of Some r # _ \<Rightarrow> if flags r AND RAW_DATA_FLAGS_INVALID = 0 then 1 else 0 | _ \<Rightarrow> 0,
      FRAME_BUF_SIZE - frame_buf_size (frame_bufs ds),
      case l of LNext \<Rightarrow> 2 | LRebound \<Rightarrow> 1 | LRepeat \<Rightarrow> 0))"

definition stream_inv :: "'f data_stream_s \<Rightarrow> label \<times> 'f data_stream_s \<Rightarrow> bool" where
  "stream_inv ds0 s = (case s of (l, ds) \<Rightarrow> stream_ok ds \<and> (l \<noteq> LNext \<longrightarrow> queue ds \<noteq> [])
     \<and> length (queue ds) \<le> length (queue ds0) \<and> take (length (held ds0)) (held ds) = held ds0)"

definition rank_rel :: "((label \<times> 'f data_stream_s) \<times> (label \<times> 'f data_stream_s)) set" where
  "rank_rel = inv_image (less_than <*lex*> less_than <*lex*> less_than <*lex*> less_than) stream_rank"

text \<open>The outcome of a step of the loop from a state that satisfies the invariant.\<close>

definition good_step :: "'f data_stream_s \<Rightarrow> label \<times> 'f data_stream_s \<Rightarrow> (bool \<times> label \<times> 'f data_stream_s) outc \<Rightarrow> bool" where
  "good_step ds0 s y = yields (\<lambda>(stop, s'). stream_inv ds0 s' \<and> (\<not> stop \<longrightarrow> (s', s) \<in> rank_rel)) y"

definition demo_env :: "pgsql_frame_data_s l7_env" where
  "demo_env = \<lparr>env_malloc = (\<lambda>_. True), env_startup = demo_start, env_regular = demo_msg, env_wrap = id,
     http_boundary = (\<lambda>_ r. Some (current_pos r)), http_parse = (\<lambda>_ r. Ok (STATE_NEEDS_MORE_DATA, None, r))\<rparr>"

definition demo_stream :: "pgsql_frame_data_s data_stream_s" where
  "demo_stream = snd (push_raw_data (init_data_stream\<lparr>stream_type := PROTO_PGSQL\<rparr>) (raw_of [81, 0, 0, 0, 6, 49, 0]))"

definition frames_stream :: "nat list \<Rightarrow> nat \<Rightarrow> nat data_stream_s" where
  "frames_stream fs pos = init_data_stream\<lparr>frame_bufs := \<lparr>frames = map Some fs @ replicate (FRAME_BUF_SIZE - length fs) None,
     frame_buf_size = length fs, frame_current_pos = pos\<rparr>\<rparr>"

section \<open>The queue of buffers\<close>

lemma length_move_frames [simp]: "length (move_frames pos n xs) = length xs"
proof -
  have "length (foldl (\<lambda>xs i. xs[i - pos := xs ! i]) xs is) = length xs" for "is" by (induction "is" arbitrary: xs) simp_all
  then show ?thesis by (simp add: move_frames_def)
qed

lemma move_frames_nth:
  assumes "0 < pos" "n \<le> length xs" "j < length xs"
  shows "move_frames pos n xs ! j = (if j + pos < n then xs ! (j + pos) else xs ! j)"
proof (cases "pos \<le> n")
  case True
  then show ?thesis using assms(2,3)
  proof (induction n arbitrary: j rule: dec_induct)
    case base
    then show ?case by (simp add: move_frames_def)
  next
    case (step n)
    have e: "move_frames pos (Suc n) xs = (move_frames pos n xs)[n - pos := move_frames pos n xs ! n]"
      using step.hyps by (simp add: move_frames_def)
    have "move_frames pos n xs ! n = xs ! n" using step.IH [of n] step.prems assms(1) by simp
    then show ?case using step.IH [of j] step.prems step.hyps by (auto simp: e nth_list_update)
  qed
next
  case False
  then show ?thesis by (simp add: move_frames_def)
qed

lemma shift_down_move: "shift_down n = move_frames 1 n"
  by (simp add: shift_down_def move_frames_def fun_eq_iff)

lemma push_ok: "stream_ok ds \<Longrightarrow> raw_ok r \<Longrightarrow> stream_ok (snd (push_raw_data ds r))"
  by (auto simp: push_raw_data_def Let_def stream_ok_def queue_def take_Suc_conv_app_nth buffer_ok_def)

lemma queue_push:
  "stream_ok ds \<Longrightarrow> raw_buf_size (raw_bufs ds) < RAW_BUF_SIZE \<Longrightarrow> queue (snd (push_raw_data ds r)) = queue ds @ [Some r]"
  by (simp add: stream_ok_def queue_def push_raw_data_def Let_def take_Suc_conv_app_nth)

lemma queue_length: "stream_ok ds \<Longrightarrow> length (queue ds) = raw_buf_size (raw_bufs ds)"
  by (simp add: stream_ok_def queue_def)

lemma queue_Cons:
  "stream_ok ds \<Longrightarrow> queue ds = x # q \<Longrightarrow> raw_buf_size (raw_bufs ds) \<noteq> 0 \<and> raw_datas (raw_bufs ds) ! 0 = x \<and> (\<exists>r. x = Some r \<and> raw_ok r)"
  by (cases "raw_datas (raw_bufs ds)"; cases "raw_buf_size (raw_bufs ds)")
    (auto simp: queue_def stream_ok_def buffer_ok_def split: option.splits)

lemma peek_queue: "stream_ok ds \<Longrightarrow> peek_raw_data ds = (case queue ds of [] \<Rightarrow> None | x # q \<Rightarrow> x)"
  using queue_Cons [of ds] queue_length [of ds] by (cases "queue ds") (auto simp: peek_raw_data_def)

lemma stream_ok_queue:
  assumes "stream_ok ds" "length (raw_datas rb) = RAW_BUF_SIZE" "raw_buf_size rb \<le> RAW_BUF_SIZE"
    "list_all buffer_ok (take (raw_buf_size rb) (raw_datas rb))"
  shows "stream_ok (ds\<lparr>raw_bufs := rb\<rparr>)"
  using assms by (simp add: stream_ok_def queue_def)

lemma pop_queue:
  assumes "stream_ok ds" "queue ds = x # q"
  shows "fst (pop_raw_data ds) = x" "queue (snd (pop_raw_data ds)) = q" "stream_ok (snd (pop_raw_data ds))"
    "frame_bufs (snd (pop_raw_data ds)) = frame_bufs ds"
proof -
  let ?b = "raw_bufs ds"
  obtain r where r: "raw_buf_size ?b \<noteq> 0" "raw_datas ?b ! 0 = Some r" "x = Some r" using queue_Cons [OF assms] by auto
  have len: "length (raw_datas ?b) = RAW_BUF_SIZE" "raw_buf_size ?b \<le> RAW_BUF_SIZE" using assms(1) by (simp_all add: stream_ok_def)
  let ?rb = "?b\<lparr>raw_datas := shift_down (min (raw_buf_size ?b) RAW_BUF_SIZE) (raw_datas ?b), raw_buf_size := raw_buf_size ?b - 1\<rparr>"
  have pop: "pop_raw_data ds = (Some r, ds\<lparr>raw_bufs := ?rb\<rparr>)" using r by (simp add: pop_raw_data_def Let_def)
  have q: "take (raw_buf_size ?b - 1) (shift_down (min (raw_buf_size ?b) RAW_BUF_SIZE) (raw_datas ?b)) = q"
  proof (rule nth_equalityI)
    show l: "length (take (raw_buf_size ?b - 1) (shift_down (min (raw_buf_size ?b) RAW_BUF_SIZE) (raw_datas ?b))) = length q"
      using len queue_length [OF assms(1)] assms(2) by (simp add: shift_down_move)
    fix i assume a: "i < length (take (raw_buf_size ?b - 1) (shift_down (min (raw_buf_size ?b) RAW_BUF_SIZE) (raw_datas ?b)))"
    have i: "i < raw_buf_size ?b - 1" "i < length q" using a by (simp, simp only: l)
    have "q ! i = queue ds ! Suc i" using assms(2) by simp
    also have "\<dots> = raw_datas ?b ! Suc i" using i by (simp add: queue_def)
    finally show "take (raw_buf_size ?b - 1) (shift_down (min (raw_buf_size ?b) RAW_BUF_SIZE) (raw_datas ?b)) ! i = q ! i"
      using i len less_diff_conv [of i "raw_buf_size ?b" 1] by (simp add: shift_down_move move_frames_nth)
  qed
  have "list_all buffer_ok q" using assms by (simp add: stream_ok_def)
  then show "fst (pop_raw_data ds) = x" "queue (snd (pop_raw_data ds)) = q" "stream_ok (snd (pop_raw_data ds))"
      "frame_bufs (snd (pop_raw_data ds)) = frame_bufs ds"
    using r q len stream_ok_queue [OF assms(1), of ?rb] by (simp_all add: pop queue_def shift_down_move)
qed

lemma set_top_queue:
  assumes "stream_ok ds" "queue ds = x # q" "raw_ok r"
  shows "queue (set_top r ds) = Some r # q" "stream_ok (set_top r ds)" "frame_bufs (set_top r ds) = frame_bufs ds"
proof -
  let ?b = "raw_bufs ds"
  have n: "raw_buf_size ?b \<noteq> 0" using queue_Cons [OF assms(1,2)] by simp
  have "take (raw_buf_size ?b) ((raw_datas ?b)[0 := Some r]) = (queue ds)[0 := Some r]"
    by (simp add: queue_def take_update_swap)
  then have q: "take (raw_buf_size ?b) ((raw_datas ?b)[0 := Some r]) = Some r # q" using assms(2) by simp
  have "list_all buffer_ok (Some r # q)" using assms by (simp add: stream_ok_def buffer_ok_def)
  then show "queue (set_top r ds) = Some r # q" "stream_ok (set_top r ds)" "frame_bufs (set_top r ds) = frame_bufs ds"
    using q stream_ok_queue [OF assms(1), of "?b\<lparr>raw_datas := (raw_datas ?b)[0 := Some r]\<rparr>"] assms(1)
    by (simp_all add: set_top_def queue_def stream_ok_def)
qed

lemma replace_top_queue:
  assumes "stream_ok ds" "queue ds = x # q"
  shows "replace_top_raw_data ds r = (x, set_top r ds)"
  using queue_Cons [OF assms] by (auto simp: replace_top_raw_data_def set_top_def Let_def)

lemma overlay_queue:
  assumes "stream_ok ds" "queue ds = Some x # Some y # q" "malloc_ok (data_len x + data_len y)"
  shows "fst (overlay_raw_data malloc_ok ds) = 0"
    "queue (snd (overlay_raw_data malloc_ok ds))
      = Some \<lparr>flags = 0, timestamp_ns = timestamp_ns x, current_pos = current_pos x, data = data x @ data y\<rparr> # q"
    "stream_ok (snd (overlay_raw_data malloc_ok ds))" "frame_bufs (snd (overlay_raw_data malloc_ok ds)) = frame_bufs ds"
proof -
  let ?b = "raw_bufs ds" and ?z = "\<lparr>flags = 0, timestamp_ns = timestamp_ns x, current_pos = current_pos x, data = data x @ data y\<rparr>"
  have n: "\<not> raw_buf_size ?b < 2" using queue_length [OF assms(1)] assms(2) by simp
  have "raw_datas ?b ! i = queue ds ! i" if "i < 2" for i using n that by (simp add: queue_def)
  then have d: "raw_datas ?b ! 0 = Some x" "raw_datas ?b ! 1 = Some y" using assms(2) by simp_all
  note pop = pop_queue [OF assms(1,2)]
  have ok: "raw_ok ?z" using assms(1,2) by (simp add: stream_ok_def buffer_ok_def raw_ok_def data_len_def)
  note top = set_top_queue [OF pop(3,2) ok]
  have "overlay_raw_data malloc_ok ds = (0, set_top ?z (snd (pop_raw_data ds)))"
    using n d assms(3) replace_top_queue [OF pop(3,2), of ?z] by (simp add: overlay_raw_data_def Let_def do_overlay_raw_data_def)
  then show "fst (overlay_raw_data malloc_ok ds) = 0" "queue (snd (overlay_raw_data malloc_ok ds)) = Some ?z # q"
    "stream_ok (snd (overlay_raw_data malloc_ok ds))" "frame_bufs (snd (overlay_raw_data malloc_ok ds)) = frame_bufs ds"
    using top pop(4) by simp_all
qed

lemma overlay_success:
  assumes "stream_ok ds" "queue ds = Some x # q" "fst (overlay_raw_data malloc_ok ds) = 0"
  shows "\<exists>y q'. q = Some y # q' \<and> malloc_ok (data_len x + data_len y)"
proof (cases q)
  case Nil
  then have "raw_buf_size (raw_bufs ds) = 1" using queue_length [OF assms(1)] assms(2) by simp
  then show ?thesis using assms(3) by (simp add: overlay_raw_data_def Let_def)
next
  case (Cons y q')
  have n: "\<not> raw_buf_size (raw_bufs ds) < 2" using queue_length [OF assms(1)] assms(2) Cons by simp
  have "raw_datas (raw_bufs ds) ! i = queue ds ! i" if "i < 2" for i using n that by (simp add: queue_def)
  then have d: "raw_datas (raw_bufs ds) ! 0 = Some x" "raw_datas (raw_bufs ds) ! 1 = y" using assms(2) Cons by simp_all
  then show ?thesis using assms(3) n Cons by (auto simp: overlay_raw_data_def do_overlay_raw_data_def Let_def split: option.splits if_splits)
qed

lemma overlay_fails:
  assumes "stream_ok ds" "fst (overlay_raw_data malloc_ok ds) \<noteq> 0"
  shows "overlay_raw_data malloc_ok ds = (- 1, ds)"
  using assms by (auto simp: overlay_raw_data_def Let_def split: option.splits if_splits)


section \<open>The loop over the frames\<close>

lemma push_frame_cases:
  assumes "stream_ok ds"
  shows "(fst (push_frame_data ds f) \<noteq> 0 \<and> snd (push_frame_data ds f) = ds)
    \<or> (fst (push_frame_data ds f) = 0 \<and> stream_ok (snd (push_frame_data ds f)) \<and> held (snd (push_frame_data ds f)) = held ds @ [Some f]
       \<and> queue (snd (push_frame_data ds f)) = queue ds
       \<and> frame_buf_size (frame_bufs (snd (push_frame_data ds f))) = Suc (frame_buf_size (frame_bufs ds))
       \<and> frame_buf_size (frame_bufs ds) < FRAME_BUF_SIZE)"
  using assms by (auto simp: push_frame_data_def Let_def stream_ok_def held_def queue_def take_Suc_conv_app_nth)

lemma held_length: "stream_ok ds \<Longrightarrow> length (held ds) = frame_buf_size (frame_bufs ds)"
  by (simp add: stream_ok_def held_def)

lemma held_frames: "frame_bufs ds = frame_bufs ds' \<Longrightarrow> held ds = held ds'"
  by (simp add: held_def)

text \<open>The states of the loop started at \<open>ds0\<close>.\<close>

lemma wf_rank_rel: "wf rank_rel"
  by (auto simp: rank_rel_def intro!: wf_inv_image wf_lex_prod)

lemma take_held_app:
  assumes "take (length ys) xs = ys"
  shows "take (length ys) (xs @ zs) = ys"
proof -
  have "length ys \<le> length xs" using arg_cong [OF assms, of length] by simp
  then show ?thesis using assms by simp
qed

lemma stream_inv_top:
  assumes "stream_inv ds0 (l, ds)" "l \<noteq> LNext"
  obtains r q where "stream_ok ds" "queue ds = Some r # q" "raw_ok r" "peek_raw_data ds = Some r"
proof -
  obtain x q where q: "queue ds = x # q" and ok: "stream_ok ds" using assms by (cases "queue ds") (auto simp: stream_inv_def)
  then obtain r where "x = Some r" "raw_ok r" using queue_Cons by blast
  then show ?thesis using that q ok peek_queue [OF ok] by simp
qed

lemma good_next:
  assumes "stream_inv ds0 (LNext, ds)"
  shows "good_step ds0 (LNext, ds) (parse_step malloc_ok bound parse (LNext, ds))"
proof (cases "queue ds")
  case Nil
  then show ?thesis using assms by (simp add: good_step_def stream_inv_def peek_queue)
next
  case (Cons x q)
  then obtain r where "x = Some r" using queue_Cons [OF _ Cons] assms by (auto simp: stream_inv_def)
  then show ?thesis using assms Cons by (simp add: good_step_def stream_inv_def peek_queue rank_rel_def stream_rank_def)
qed

text \<open>Dropping the first buffer, and replacing it without a new frame.\<close>

lemma good_pop:
  assumes "stream_inv ds0 (l, ds)" "stream_ok ds'" "queue ds' = x # q" "length (queue ds') = length (queue ds)"
    "take (length (held ds0)) (held ds') = held ds0"
  shows "good_step ds0 (l, ds) (Ok (False, LNext, snd (pop_raw_data ds')))"
  using assms pop_queue [OF assms(2,3)] held_frames [OF pop_queue(4) [OF assms(2,3)]]
  by (simp add: good_step_def stream_inv_def rank_rel_def stream_rank_def)

lemma inv_set_top:
  assumes "stream_inv ds0 (l, ds)" "queue ds = x # q" "raw_ok r"
  shows "stream_inv ds0 (l', set_top r ds)"
proof -
  have ok: "stream_ok ds" using assms(1) by (simp add: stream_inv_def)
  note top = set_top_queue [OF ok assms(2,3)]
  show ?thesis using assms(1,2) top held_frames [OF top(3)] by (simp add: stream_inv_def)
qed

lemma good_stop: "stream_inv ds0 s' \<Longrightarrow> good_step ds0 s (Ok (True, s'))"
  by (cases s') (simp add: good_step_def)

lemma rank_set_top:
  assumes "stream_ok ds" "queue ds = Some r # q" "raw_ok r'"
    "flags r' = flags r \<and> l = LRebound \<and> l' = LRepeat \<or> flags r AND RAW_DATA_FLAGS_INVALID = 0 \<and> flags r' AND RAW_DATA_FLAGS_INVALID \<noteq> 0"
  shows "((l', set_top r' ds), (l, ds)) \<in> rank_rel"
  using set_top_queue [OF assms(1,2,3)] assms(2,4) by (auto simp: rank_rel_def stream_rank_def)

lemma flags_set: "(f OR RAW_DATA_FLAGS_INVALID) AND RAW_DATA_FLAGS_INVALID \<noteq> 0"
proof
  assume "(f OR RAW_DATA_FLAGS_INVALID) AND RAW_DATA_FLAGS_INVALID = 0"
  then have "bit ((f OR RAW_DATA_FLAGS_INVALID) AND RAW_DATA_FLAGS_INVALID) 0 = bit (0 :: u32) 0" by simp
  then show False by (simp add: RAW_DATA_FLAGS_INVALID_def bit_simps)
qed

lemma moved_same: "moved r s \<Longrightarrow> flags s = flags r \<and> data s = data r \<and> timestamp_ns s = timestamp_ns r"
  by (cases r; cases s) (auto simp: moved_def)

lemma set_top_twice: "set_top r (set_top s ds) = set_top r ds"
  by (simp add: set_top_def)

text \<open>The contract of a protocol's boundary search and parser, and what the loop then gives.\<close>

locale frame_parser =
  fixes bound :: "raw_data_s \<Rightarrow> nat option" and parse :: "raw_data_s \<Rightarrow> (parse_state_t \<times> 'f option \<times> raw_data_s) outc"
  assumes bound_in: "raw_ok r \<Longrightarrow> bound r = Some p \<Longrightarrow> p \<le> data_len r"
    and parse_moves: "raw_ok r \<Longrightarrow> yields (\<lambda>(st, f, s). moved r s) (parse r)"
begin

lemma good_rebound:
  assumes "stream_inv ds0 (LRebound, ds)"
  shows "good_step ds0 (LRebound, ds) (parse_step malloc_ok bound parse (LRebound, ds))"
proof -
  obtain r q where q: "stream_ok ds" "queue ds = Some r # q" "raw_ok r" "peek_raw_data ds = Some r"
    using stream_inv_top [OF assms] by blast
  show ?thesis
  proof (cases "bound r")
    case None
    then show ?thesis using good_pop [OF assms q(1,2)] assms q(4) by (simp add: stream_inv_def)
  next
    case (Some p)
    have ok: "raw_ok (r\<lparr>current_pos := p\<rparr>)" using bound_in [OF q(3) Some] by (simp add: raw_ok_def data_len_def)
    have "((LRepeat, set_top (r\<lparr>current_pos := p\<rparr>) ds), (LRebound, ds)) \<in> rank_rel" by (rule rank_set_top [OF q(1,2) ok]) simp
    then show ?thesis using Some q(4) inv_set_top [OF assms q(2) ok] by (simp add: good_step_def)
  qed
qed

text \<open>The second half of a round, per result of the parser.\<close>

lemma good_success:
  assumes "stream_inv ds0 (LRepeat, ds)" "stream_ok ds" "queue ds = Some r # q" "raw_ok r" "moved r s" "parse r = Ok (STATE_SUCCESS, f, s)"
  shows "good_step ds0 (LRepeat, ds) (parse_step malloc_ok bound parse (LRepeat, ds))"
proof -
  have s: "raw_ok s" "flags s = flags r" using moved_ok [OF assms(5)] moved_same [OF assms(5)] by simp_all
  have peek: "peek_raw_data ds = Some r" using peek_queue [OF assms(2)] assms(3) by simp
  let ?ds1 = "set_top s ds"
  note top = set_top_queue [OF assms(2,3) s(1)] and inv = inv_set_top [OF assms(1,3) s(1)]
  show ?thesis
  proof (cases f)
    case None
    then show ?thesis using inv [of LNext] peek assms(6) by (simp add: do_parse_frames_def Let_def good_stop)
  next
    case (Some fr)
    let ?ds2 = "snd (push_frame_data ?ds1 fr)"
    have d: "do_parse_frames malloc_ok parse ds r
        = Ok (if fst (push_frame_data ?ds1 fr) \<noteq> 0 then PARSE_STOP else if current_pos s = data_len s then PARSE_NEXT else PARSE_REPEAT, ?ds2)"
      using assms(6) Some by (simp add: do_parse_frames_def Let_def split: prod.splits)
    from push_frame_cases [OF top(2), of fr] show ?thesis
    proof
      assume p: "fst (push_frame_data ?ds1 fr) \<noteq> 0 \<and> ?ds2 = ?ds1"
      have "raw_ok (s\<lparr>current_pos := current_pos r\<rparr>)" using assms(4,5) by (auto simp: raw_ok_def data_len_def moved_def)
      then have "stream_inv ds0 (LNext, set_top (s\<lparr>current_pos := current_pos r\<rparr>) ?ds1)" using inv_set_top [OF inv top(1)] by blast
      then show ?thesis using p peek peek_queue [OF top(2)] top(1) by (simp add: d good_stop)
    next
      assume p: "fst (push_frame_data ?ds1 fr) = 0 \<and> stream_ok ?ds2 \<and> held ?ds2 = held ?ds1 @ [Some fr] \<and> queue ?ds2 = queue ?ds1
        \<and> frame_buf_size (frame_bufs ?ds2) = Suc (frame_buf_size (frame_bufs ?ds1)) \<and> frame_buf_size (frame_bufs ?ds1) < FRAME_BUF_SIZE"
      have h: "take (length (held ds0)) (held ?ds2) = held ds0"
        using p inv [of LNext] take_held_app [of "held ds0" "held ?ds1" "[Some fr]"] by (simp add: stream_inv_def)
      have sz: "frame_buf_size (frame_bufs ?ds2) = Suc (frame_buf_size (frame_bufs ?ds1))" "frame_buf_size (frame_bufs ?ds1) < FRAME_BUF_SIZE"
        using p by simp_all
      have ok2: "stream_ok ?ds2" and z: "fst (push_frame_data ?ds1 fr) = 0" using p by simp_all
      have q2: "queue ?ds2 = Some s # q" "length (queue ?ds2) = length (queue ds)" using p top(1) assms(3) by simp_all
      show ?thesis
      proof (cases "current_pos s = data_len s")
        case True
        then show ?thesis using p peek good_pop [OF assms(1) _ q2 h] by (simp add: d)
      next
        case False
        have "((LRepeat, ?ds2), (LRepeat, ds)) \<in> rank_rel"
          using sz q2(1) assms(3) s(2) top(3) by (auto simp: rank_rel_def stream_rank_def)
        moreover have "stream_inv ds0 (LRepeat, ?ds2)" using ok2 h q2 assms(1,3) by (simp add: stream_inv_def del: take_append)
        ultimately show ?thesis using False z peek by (simp add: d good_step_def)
      qed
    qed
  qed
qed

lemma good_needs_more:
  assumes "stream_inv ds0 (LRepeat, ds)" "stream_ok ds" "queue ds = Some r # q" "raw_ok r" "moved r s" "parse r = Ok (STATE_NEEDS_MORE_DATA, f, s)"
  shows "good_step ds0 (LRepeat, ds) (parse_step malloc_ok bound parse (LRepeat, ds))"
proof -
  have s: "raw_ok s" using assms(5) by (rule moved_ok)
  have peek: "peek_raw_data ds = Some r" using peek_queue [OF assms(2)] assms(3) by simp
  let ?ds1 = "set_top s ds" and ?ds2 = "snd (overlay_raw_data malloc_ok (set_top s ds))"
  note top = set_top_queue [OF assms(2,3) s] and inv = inv_set_top [OF assms(1,3) s]
  have d: "do_parse_frames malloc_ok parse ds r
      = Ok (if fst (overlay_raw_data malloc_ok ?ds1) \<noteq> 0 then PARSE_STOP else PARSE_OVERLAY, ?ds2)"
    using assms(6) by (simp add: do_parse_frames_def Let_def split: prod.splits)
  show ?thesis
  proof (cases "fst (overlay_raw_data malloc_ok ?ds1) = 0")
    case False
    note e = overlay_fails [OF top(2) False]
    have "raw_ok (s\<lparr>current_pos := current_pos r\<rparr>)" using assms(4,5) by (auto simp: raw_ok_def data_len_def moved_def)
    then have "stream_inv ds0 (LNext, set_top (s\<lparr>current_pos := current_pos r\<rparr>) ?ds1)" using inv_set_top [OF inv top(1)] by blast
    then show ?thesis using e peek peek_queue [OF top(2)] top(1) by (simp add: d good_stop)
  next
    case True
    obtain y q' where q': "q = Some y # q'" and m: "malloc_ok (data_len s + data_len y)"
      using True overlay_success [OF top(2,1)] by blast
    note o = overlay_queue [where malloc_ok = malloc_ok, OF top(2) top(1) [unfolded q'] m]
    have "stream_inv ds0 (LNext, ?ds2)" "((LNext, ?ds2), (LRepeat, ds)) \<in> rank_rel"
      using o assms(1,3) q' inv [of LNext] held_frames [OF o(4)] top(1)
      by (simp_all add: stream_inv_def rank_rel_def stream_rank_def)
    then show ?thesis using True peek by (simp add: d good_step_def)
  qed
qed

lemma good_other:
  assumes "stream_inv ds0 (LRepeat, ds)" "stream_ok ds" "queue ds = Some r # q" "raw_ok r" "moved r s" "parse r = Ok (st, f, s)"
    "st \<noteq> STATE_SUCCESS" "st \<noteq> STATE_NEEDS_MORE_DATA"
  shows "good_step ds0 (LRepeat, ds) (parse_step malloc_ok bound parse (LRepeat, ds))"
proof -
  have s: "raw_ok s" "flags s = flags r" using moved_ok [OF assms(5)] moved_same [OF assms(5)] by simp_all
  have peek: "peek_raw_data ds = Some r" using peek_queue [OF assms(2)] assms(3) by simp
  note top = set_top_queue [OF assms(2,3) s(1)] and inv = inv_set_top [OF assms(1,3) s(1)]
  have len: "length (queue (set_top s ds)) = length (queue ds)" using top(1) assms(3) by simp
  have "good_step ds0 (LRepeat, ds) (Ok (False, LNext, snd (pop_raw_data (set_top s ds))))"
    by (rule good_pop [OF assms(1) top(2,1) len]) (use inv [of LNext] in \<open>simp add: stream_inv_def\<close>)
  moreover have "good_step ds0 (LRepeat, ds) (Ok (True, LNext, set_top s ds))" using inv [of LNext] by (rule good_stop)
  moreover have "good_step ds0 (LRepeat, ds) (Ok (False, LRebound, set_top (s\<lparr>flags := flags s OR RAW_DATA_FLAGS_INVALID\<rparr>) (set_top s ds)))"
    if "flags s AND RAW_DATA_FLAGS_INVALID = 0"
  proof -
    let ?s = "s\<lparr>flags := flags s OR RAW_DATA_FLAGS_INVALID\<rparr>"
    have ok: "raw_ok ?s" using s(1) by (simp add: raw_ok_def data_len_def)
    have "((LRebound, set_top ?s ds), (LRepeat, ds)) \<in> rank_rel"
      by (rule rank_set_top [OF assms(2,3) ok]) (use that s(2) flags_set in simp)
    then show ?thesis using inv_set_top [OF assms(1,3) ok] by (simp add: good_step_def set_top_twice)
  qed
  ultimately show ?thesis using assms(6,7,8) peek by (cases st) (simp_all add: do_parse_frames_def Let_def)
qed

lemma good_repeat:
  assumes "stream_inv ds0 (LRepeat, ds)"
  shows "good_step ds0 (LRepeat, ds) (parse_step malloc_ok bound parse (LRepeat, ds))"
proof -
  obtain r q where q: "stream_ok ds" "queue ds = Some r # q" "raw_ok r"
    using stream_inv_top [OF assms] by blast
  obtain st f s where p: "parse r = Ok (st, f, s)" "moved r s" using parse_moves [OF q(3)] by (cases "parse r") auto
  show ?thesis
    using good_success [OF assms q p(2)] good_needs_more [OF assms q p(2)] good_other [OF assms q p(2,1)] p(1) by (cases st) auto
qed

lemma parse_stream_total:
  assumes "stream_ok ds"
  shows "\<exists>ds'. parse_stream malloc_ok bound parse ds = Ok ds' \<and> stream_ok ds'
    \<and> length (queue ds') \<le> length (queue ds) \<and> take (length (held ds)) (held ds') = held ds"
proof -
  have "good_step ds s (parse_step malloc_ok bound parse s)" if "stream_inv ds s" for s
    using that good_next good_rebound good_repeat by (cases s; cases "fst s") auto
  then have step: "\<exists>stop s'. parse_step malloc_ok bound parse s = Ok (stop, s')
      \<and> (if stop then stream_inv ds s' else stream_inv ds s' \<and> (s', s) \<in> rank_rel)" if "stream_inv ds s" for s
    using that by (cases "parse_step malloc_ok bound parse s") (fastforce simp: good_step_def)+
  have "stream_inv ds (LNext, ds)" using assms by (simp add: stream_inv_def)
  from c_loop_total [OF wf_rank_rel step this] obtain s' where
    "c_loop (parse_step malloc_ok bound parse) (LNext, ds) = Some (Ok s')" "stream_inv ds s'" by blast
  then show ?thesis by (cases s') (auto simp: parse_stream_def stream_inv_def)
qed

end

section \<open>Streams of the probe\<close>

interpretation pgsql: frame_parser pgsql_find_frame_boundary "pgsql_parse_frame malloc_ok start0 msg0" for malloc_ok start0 msg0
proof
  show "p \<le> data_len r" if "raw_ok r" "pgsql_find_frame_boundary r = Some p" for r p
    using boundary_moves(2) [OF that] by simp
  show "yields (\<lambda>(st, f, s). moved r s) (pgsql_parse_frame malloc_ok start0 msg0 r)" if "raw_ok r" for r
    using frame_moved [OF that] by (rule yields_mono) auto
qed

text \<open>The dispatch keeps the contract of the parsers it dispatches to.\<close>

lemma dispatch_frame_parser:
  assumes "ty = PROTO_HTTP \<Longrightarrow> frame_parser (http_boundary env mt) (http_parse env mt)"
  shows "frame_parser (proto_find_frame_boundary env ty mt) (proto_parse_frame env ty mt)"
proof (cases "ty = PROTO_HTTP")
  case True
  then have "proto_find_frame_boundary env ty mt = http_boundary env mt" "proto_parse_frame env ty mt = http_parse env mt"
    by (auto simp: proto_find_frame_boundary_def proto_parse_frame_def fun_eq_iff)
  then show ?thesis using assms True by simp
next
  case False
  show ?thesis
  proof
    show "p \<le> data_len r" if "raw_ok r" "proto_find_frame_boundary env ty mt r = Some p" for r p
      using that False pgsql.bound_in [OF that(1)] by (cases ty) (auto simp: proto_find_frame_boundary_def)
    show "yields (\<lambda>(st, f, s). moved r s) (proto_parse_frame env ty mt r)" if "raw_ok r" for r
      using that False pgsql.parse_moves [OF that, of "env_malloc env" "env_startup env" "env_regular env"]
      by (cases ty) (auto simp: proto_parse_frame_def intro!: yields_bnd elim!: yields_mono)
  qed
qed

text \<open>C14. Parsing the frames of a PostgreSQL stream, or of a stream whose protocol has no parser, ends on any bytes: the stream stays well-formed, its queue of buffers does not grow, the
  frames that were held stay in front and at most 1024 are held (\<open>stream_ok\<close>). Of HTTP streams nothing is claimed: the boundary and the frames of HTTP are a parameter of this theory, and
  the functions of \<open>http_parser.c\<close> that the code calls there write the frame through a null pointer and the second header past its array.\<close>

theorem stream_parse_total:
  assumes "stream_ok ds" "stream_type ds \<noteq> PROTO_HTTP"
  shows "\<exists>ds'. data_stream_parse_frames env mt ds = Ok ds' \<and> stream_ok ds' \<and> length (queue ds') \<le> length (queue ds)
    \<and> take (length (held ds)) (held ds') = held ds \<and> length (held ds') \<le> FRAME_BUF_SIZE"
proof -
  obtain ds' where d: "data_stream_parse_frames env mt ds = Ok ds'" "stream_ok ds'" "length (queue ds') \<le> length (queue ds)" "take (length (held ds)) (held ds') = held ds"
    using frame_parser.parse_stream_total [OF dispatch_frame_parser [of "stream_type ds" env mt] assms(1), of "env_malloc env"] assms(2)
    unfolding data_stream_parse_frames_def by blast
  moreover have "length (held ds') \<le> FRAME_BUF_SIZE" using d(2) by (simp add: stream_ok_def held_def)
  ultimately show ?thesis by blast
qed

lemma init_ok: "stream_ok init_data_stream"
  by (simp add: stream_ok_def init_data_stream_def queue_def)

lemma demo_stream_ok: "stream_ok demo_stream"
  unfolding demo_stream_def by (rule push_ok) (simp_all add: stream_ok_def init_data_stream_def queue_def raw_of_def raw_ok_def)

theorem stream_parse_total_witness:
  "\<exists>ds'. data_stream_parse_frames demo_env MESSAGE_REQUEST demo_stream = Ok ds' \<and> stream_ok ds'"
proof -
  have "stream_type demo_stream = PROTO_PGSQL"
    by (simp add: demo_stream_def init_data_stream_def push_raw_data_def Let_def RAW_BUF_SIZE_def)
  then show ?thesis using stream_parse_total [OF demo_stream_ok, of demo_env MESSAGE_REQUEST] by auto
qed

text \<open>A stream starts well-formed and empty, and captured data is queued behind what is there: with its bytes, its time and position 0
  while fewer than 50 buffers are queued, and otherwise, or without memory, it is dropped with -1 and nothing changes.\<close>

theorem stream_add_raw:
  assumes "stream_ok ds" "n \<le> length bytes"
  shows "stream_ok (init_data_stream :: 'f data_stream_s) \<and> queue (init_data_stream :: 'f data_stream_s) = []
    \<and> (\<exists>ret ds'. data_stream_add_raw_data malloc_ok (ds :: 'f data_stream_s) bytes n ts = Ok (ret, ds') \<and> stream_ok ds' \<and> held ds' = held ds
      \<and> (if malloc_ok n \<and> length (queue ds) < RAW_BUF_SIZE
         then ret = 0 \<and> queue ds' = queue ds @ [Some \<lparr>flags = 0, timestamp_ns = ts, current_pos = 0, data = take n bytes\<rparr>]
         else ret = - 1 \<and> ds' = ds))"
proof -
  let ?r = "\<lparr>flags = 0, timestamp_ns = ts, current_pos = 0, data = take n bytes\<rparr>"
  have rd: "rd bytes 0 n = Ok (take n bytes)" using assms(2) by (simp add: rd_def)
  have len: "length (queue ds) = raw_buf_size (raw_bufs ds)" by (rule queue_length [OF assms(1)])
  have "stream_ok (snd (push_raw_data ds ?r)) \<and> held (snd (push_raw_data ds ?r)) = held ds"
    using push_ok [OF assms(1), of ?r] by (simp add: push_raw_data_def Let_def held_def raw_ok_def)
  moreover have "fst (push_raw_data ds ?r) = (if raw_buf_size (raw_bufs ds) < RAW_BUF_SIZE then 0 else - 1)"
    "\<not> raw_buf_size (raw_bufs ds) < RAW_BUF_SIZE \<Longrightarrow> snd (push_raw_data ds ?r) = ds"
    by (auto simp: push_raw_data_def Let_def)
  ultimately have "\<exists>ret ds'. data_stream_add_raw_data malloc_ok ds bytes n ts = Ok (ret, ds') \<and> stream_ok ds' \<and> held ds' = held ds
      \<and> (if malloc_ok n \<and> length (queue ds) < RAW_BUF_SIZE then ret = 0 \<and> queue ds' = queue ds @ [Some ?r] else ret = - 1 \<and> ds' = ds)"
    using queue_push [OF assms(1), of ?r] assms(1) len
    by (cases "push_raw_data ds ?r") (auto simp: data_stream_add_raw_data_def rd)
  then show ?thesis using init_ok by (simp add: queue_def init_data_stream_def)
qed

theorem stream_add_raw_witness:
  "\<exists>ret ds'. data_stream_add_raw_data (\<lambda>_. True) (init_data_stream :: nat data_stream_s) [1, 2, 3] 2 5 = Ok (ret, ds')
     \<and> ret = 0 \<and> queue ds' = [Some \<lparr>flags = 0, timestamp_ns = 5, current_pos = 0, data = [1, 2]\<rparr>]"
proof -
  have q: "queue (init_data_stream :: nat data_stream_s) = []" by (simp add: queue_def init_data_stream_def)
  show ?thesis using stream_add_raw [OF init_ok, of 2 "[1, 2, 3]" "\<lambda>_. True" 5, where 'f = nat]
    by (auto simp: q RAW_BUF_SIZE_def)
qed

section \<open>Popping frames\<close>

lemma clear_frames_Suc: "clear_frames (Suc n) xs = (clear_frames n xs)[n := None]"
  by (simp add: clear_frames_def)

lemma length_clear_frames [simp]: "length (clear_frames n xs) = length xs"
  by (induction n) (simp_all add: clear_frames_Suc, simp add: clear_frames_def)

lemma clear_frames_nth: "j < length xs \<Longrightarrow> clear_frames n xs ! j = (if j < n then None else xs ! j)"
proof (induction n)
  case (Suc n)
  then show ?case by (cases "n = j") (auto simp: clear_frames_Suc)
qed (simp add: clear_frames_def)

lemma pop_effect:
  assumes "stream_ok ds" "frame_current_pos (frame_bufs ds) = pos" "frame_buf_size (frame_bufs ds) = n" "0 < pos"
  defines "ds1 \<equiv> snd (data_stream_pop_frames ds)"
  shows "fst (data_stream_pop_frames ds) = List.map_filter id (take pos (held ds))" "take (n - pos) (held ds1) = drop pos (held ds)"
    "stream_ok ds1" "frame_buf_size (frame_bufs ds1) = n"
    "\<And>j. n - pos \<le> j \<Longrightarrow> j < n \<Longrightarrow> held ds1 ! j = (if j < pos then None else held ds ! j)"
proof -
  let ?b = "frame_bufs ds"
  have len: "length (frames ?b) = FRAME_BUF_SIZE" "n \<le> FRAME_BUF_SIZE" "pos \<le> n"
    using assms(1-4) by (simp_all add: stream_ok_def)
  let ?xs = "move_frames pos n (clear_frames pos (frames ?b))"
  have pop: "data_stream_pop_frames ds = (List.map_filter id (take pos (frames ?b)), ds\<lparr>frame_bufs := ?b\<lparr>frames := ?xs, frame_current_pos := 0\<rparr>\<rparr>)"
    using assms(2-4) len by (simp add: data_stream_pop_frames_def do_pop_frames_def Let_def min_absorb1)
  have nth: "?xs ! j = (if j + pos < n then frames ?b ! (j + pos) else if j < pos then None else frames ?b ! j)" if "j < n" for j
    using that len assms(4) by (simp add: move_frames_nth clear_frames_nth)
  have t: "take (n - pos) (take n ?xs) = drop pos (take n (frames ?b))"
    using len assms(4) by (intro nth_equalityI) (auto simp: nth add.commute less_diff_conv)
  show "fst (data_stream_pop_frames ds) = List.map_filter id (take pos (held ds))" "frame_buf_size (frame_bufs ds1) = n"
    "take (n - pos) (held ds1) = drop pos (held ds)"
    using assms(3) len(3) t by (simp_all add: ds1_def pop held_def min_absorb1)
  show "stream_ok ds1" using assms(1) by (simp add: ds1_def pop stream_ok_def queue_def)
  show "held ds1 ! j = (if j < pos then None else held ds ! j)" if "n - pos \<le> j" "j < n" for j
    using nth [OF that(2)] that assms(3) le_diff_conv [of n pos j] by (simp add: ds1_def pop held_def not_less)
qed

text \<open>Popping destroys exactly the frames in front of the position, in order, and moves the others to the front; but the number of
  frames is kept, so that the entries behind the moved ones, NULL or frames that have been moved, still count as frames.\<close>

theorem stream_pop_frames:
  assumes "stream_ok ds" "frame_current_pos (frame_bufs ds) = pos" "frame_buf_size (frame_bufs ds) = n" "0 < pos"
  shows "fst (data_stream_pop_frames ds) = List.map_filter id (take pos (held ds))
    \<and> take (n - pos) (held (snd (data_stream_pop_frames ds))) = drop pos (held ds)
    \<and> stream_ok (snd (data_stream_pop_frames ds))
    \<and> frame_buf_size (frame_bufs (snd (data_stream_pop_frames ds))) = n
    \<and> (\<forall>j. n - pos \<le> j \<and> j < n \<longrightarrow> held (snd (data_stream_pop_frames ds)) ! j = (if j < pos then None else held ds ! j))"
  using pop_effect [OF assms] by simp

lemma frames_stream_ok: "length fs \<le> FRAME_BUF_SIZE \<Longrightarrow> pos \<le> length fs \<Longrightarrow> stream_ok (frames_stream fs pos)"
  by (simp add: frames_stream_def stream_ok_def init_data_stream_def queue_def)

lemma frames_stream_held: "held (frames_stream fs pos) = map Some fs"
    "frame_current_pos (frame_bufs (frames_stream fs pos)) = pos" "frame_buf_size (frame_bufs (frames_stream fs pos)) = length fs"
  by (simp_all add: held_def frames_stream_def)

theorem stream_pop_frames_witness:
  "stream_ok (frames_stream [7, 8, 9] 1) \<and> fst (data_stream_pop_frames (frames_stream [7, 8, 9] 1)) = [7]
   \<and> take 2 (held (snd (data_stream_pop_frames (frames_stream [7, 8, 9] 1)))) = [Some 8, Some 9]"
proof -
  have ok: "stream_ok (frames_stream [7, 8, 9] 1)" by (rule frames_stream_ok) (simp_all add: FRAME_BUF_SIZE_def)
  show ?thesis using stream_pop_frames [OF ok, of 1 3] ok
    by (simp add: frames_stream_held List.map_filter_simps numeral_2_eq_2)
qed

lemma map_filter_twice:
  assumes "i < j" "j < length xs" "xs ! i = Some x" "xs ! j = Some x"
  shows "2 \<le> count_list (List.map_filter id xs) x"
proof -
  have e: "xs = take j xs @ Some x # drop (Suc j) xs" using id_take_nth_drop [OF assms(2)] assms(4) by simp
  have "List.map_filter id xs = List.map_filter id (take j xs) @ x # List.map_filter id (drop (Suc j) xs)"
    by (subst e) (simp add: List.map_filter_def)
  moreover have "Some x \<in> set (take j xs)" using assms(1,2,3) by (metis in_set_conv_nth length_take min_less_iff_conj nth_take order.strict_trans)
  then have "x \<in> set (List.map_filter id (take j xs))" by (force simp: List.map_filter_def)
  then have "count_list (List.map_filter id (take j xs)) x \<noteq> 0" by (simp add: count_list_0_iff)
  ultimately show ?thesis by simp
qed

text \<open>Because the number of frames is kept, closing a stream after a pop that left a frame behind destroys its last frame twice.\<close>

theorem stream_double_destroy:
  assumes "stream_ok ds" "frame_current_pos (frame_bufs ds) = pos" "frame_buf_size (frame_bufs ds) = n" "0 < pos" "pos < n"
    "held ds = map Some fs"
  shows "\<exists>raws destroyed ds'. deinit_data_stream (snd (data_stream_pop_frames ds)) = (raws, destroyed, ds')
    \<and> 2 \<le> count_list destroyed (last fs)"
proof -
  let ?ds1 = "snd (data_stream_pop_frames ds)"
  note pop = pop_effect [OF assms(1-4)]
  have fs: "length fs = n" "fs \<noteq> []" using assms(3,5,6) held_length [OF assms(1)] by auto
  have l: "held ds ! (n - 1) = Some (last fs)" using fs assms(5,6) by (simp add: last_conv_nth)
  have "held ?ds1 ! (n - pos - 1) = take (n - pos) (held ?ds1) ! (n - pos - 1)" using assms(5) by simp
  also have "\<dots> = held ds ! (n - 1)" using pop(2) fs assms(4-6) by simp
  finally have a: "held ?ds1 ! (n - pos - 1) = Some (last fs)" using l by simp
  have b: "held ?ds1 ! (n - 1) = Some (last fs)" using pop(5) [of "n - 1"] l assms(4,5) by simp
  have len: "length (held ?ds1) = n" using held_length [OF pop(3)] pop(4) by simp
  have "2 \<le> count_list (List.map_filter id (held ?ds1)) (last fs)"
    by (rule map_filter_twice [OF _ _ a b]) (use assms(4,5) len in auto)
  moreover have "frame_buf_size (frame_bufs ?ds1) \<le> FRAME_BUF_SIZE" using pop(3) by (simp add: stream_ok_def)
  ultimately show ?thesis by (simp add: deinit_data_stream_def Let_def held_def min_absorb1)
qed

theorem stream_double_destroy_witness:
  "\<exists>raws destroyed ds'. deinit_data_stream (snd (data_stream_pop_frames (frames_stream [7, 8, 9] 1))) = (raws, destroyed, ds')
    \<and> 2 \<le> count_list destroyed 9"
proof -
  have ok: "stream_ok (frames_stream [7, 8, 9] 1)" by (rule frames_stream_ok) (simp_all add: FRAME_BUF_SIZE_def)
  show ?thesis using stream_double_destroy [OF ok, of 1 3 "[7, 8, 9]"] by (simp add: frames_stream_held)
qed

section \<open>Incomplete frames and unknown protocols\<close>

text \<open>When a frame is incomplete and another buffer is queued, the two become one buffer with the bytes of both; reading goes on where the
  parser stopped, not where the frame began, so that what the parser had consumed of the frame is lost. When no other buffer is queued
  the position is put back and the stream is as it was before.\<close>

theorem stream_incomplete_frame:
  assumes "stream_ok ds" "queue ds = Some r # q" "parse r = Ok (STATE_NEEDS_MORE_DATA, f, s)" "moved r s" "\<forall>n. malloc_ok n"
  shows "\<exists>ds'. queue ds' = (case q of
        Some y # q' \<Rightarrow> Some \<lparr>flags = 0, timestamp_ns = timestamp_ns r, current_pos = current_pos s, data = data r @ data y\<rparr> # q'
      | _ \<Rightarrow> [Some r])
    \<and> held ds' = held ds \<and> stream_ok ds' \<and> parse_step malloc_ok bound parse (LRepeat, ds) = Ok (q = [], LNext, ds')"
proof -
  have ok: "raw_ok s" and same: "data s = data r" "timestamp_ns s = timestamp_ns r" "s\<lparr>current_pos := current_pos r\<rparr> = r" "raw_ok r"
    using moved_ok [OF assms(4)] moved_same [OF assms(4)] assms(1,2,4)
    by (auto simp: moved_def stream_ok_def buffer_ok_def)
  note top = set_top_queue [OF assms(1,2) ok]
  have peek: "peek_raw_data ds = Some r" using peek_queue [OF assms(1)] assms(2) by simp
  have d: "do_parse_frames malloc_ok parse ds r
      = Ok (if fst (overlay_raw_data malloc_ok (set_top s ds)) \<noteq> 0 then PARSE_STOP else PARSE_OVERLAY, snd (overlay_raw_data malloc_ok (set_top s ds)))"
    using assms(3) by (simp add: do_parse_frames_def Let_def split: prod.splits)
  show ?thesis
  proof (cases q)
    case Nil
    then have n: "fst (overlay_raw_data malloc_ok (set_top s ds)) \<noteq> 0" using overlay_success [OF top(2,1)] by auto
    note e = overlay_fails [OF top(2) n]
    note bk = set_top_queue [OF top(2,1) same(4)]
    have "parse_step malloc_ok bound parse (LRepeat, ds) = Ok (True, LNext, set_top r (set_top s ds))"
      using e peek peek_queue [OF top(2)] top(1) same(3) by (simp add: d)
    then show ?thesis using bk held_frames [OF bk(3)] held_frames [OF top(3)] Nil by (intro exI [of _ "set_top r (set_top s ds)"]) simp
  next
    case (Cons x q')
    then obtain y where y: "x = Some y" using assms(1,2) by (auto simp: stream_ok_def buffer_ok_def split: option.splits)
    have m: "malloc_ok (data_len s + data_len y)" using assms(5) by simp
    note o = overlay_queue [where malloc_ok = malloc_ok, OF top(2) top(1) [unfolded Cons y] m]
    have "parse_step malloc_ok bound parse (LRepeat, ds) = Ok (False, LNext, snd (overlay_raw_data malloc_ok (set_top s ds)))"
      using peek o(1) by (simp add: d)
    then show ?thesis using o held_frames [OF o(4)] held_frames [OF top(3)] Cons y same
      by (intro exI [of _ "snd (overlay_raw_data malloc_ok (set_top s ds))"]) simp
  qed
qed

theorem stream_incomplete_frame_witness:
  "\<exists>ds'. queue ds' = [Some (raw_of [81, 0, 0, 0, 6, 49, 0])] \<and> held ds' = held demo_stream \<and> stream_ok ds'
    \<and> parse_step (\<lambda>_. True) pgsql_find_frame_boundary (\<lambda>r. Ok (STATE_NEEDS_MORE_DATA, None, r)) (LRepeat, demo_stream) = Ok (True, LNext, ds')"
proof -
  have q: "queue demo_stream = [Some (raw_of [81, 0, 0, 0, 6, 49, 0])]"
    using queue_push [of "init_data_stream\<lparr>stream_type := PROTO_PGSQL\<rparr>"] 
    by (simp add: demo_stream_def stream_ok_def queue_def init_data_stream_def RAW_BUF_SIZE_def)
  have "moved (raw_of [81, 0, 0, 0, 6, 49, 0]) (raw_of [81, 0, 0, 0, 6, 49, 0])" by (simp add: raw_of_def raw_ok_def)
  from stream_incomplete_frame [OF demo_stream_ok q, of "\<lambda>r. Ok (STATE_NEEDS_MORE_DATA, None, r)" None _ "\<lambda>_. True" pgsql_find_frame_boundary, OF refl this]
  show ?thesis by simp
qed

text \<open>A stream of a protocol without a parser keeps what it was given: parsing neither makes frames nor takes anything from the queue,
  so that after 50 buffers every further one is dropped. A stream has such a type, unknown, from its initialisation on.\<close>

theorem stream_without_parser:
  assumes "stream_ok (ds :: 'f data_stream_s)" "queue ds = Some r # q" "stream_type ds \<noteq> PROTO_PGSQL" "stream_type ds \<noteq> PROTO_HTTP"
  shows "\<exists>ds'. data_stream_parse_frames env mt ds = Ok ds' \<and> queue ds' = Some (r\<lparr>current_pos := 0\<rparr>) # q \<and> held ds' = held ds
    \<and> stream_type (init_data_stream :: 'f data_stream_s) = PROTO_UNKNOW"
proof -
  have ok: "raw_ok (r\<lparr>current_pos := 0\<rparr>)" by (simp add: raw_ok_def)
  let ?ds1 = "set_top (r\<lparr>current_pos := 0\<rparr>) ds"
  note top = set_top_queue [OF assms(1,2) ok]
  have peek: "peek_raw_data ds = Some r" "peek_raw_data ?ds1 = Some (r\<lparr>current_pos := 0\<rparr>)"
    using peek_queue [OF assms(1)] peek_queue [OF top(2)] assms(2) top(1) by simp_all
  let ?step = "parse_step (env_malloc env) (proto_find_frame_boundary env (stream_type ds) mt) (proto_parse_frame env (stream_type ds) mt)"
  have b: "proto_find_frame_boundary env (stream_type ds) mt r = Some 0" "proto_parse_frame env (stream_type ds) mt s = Ok (STATE_UNKNOWN, None, s)" for s
    using assms(3,4) by (cases "stream_type ds"; simp add: proto_find_frame_boundary_def proto_parse_frame_def)+
  have "c_loop ?step (LNext, ds) = c_loop ?step (LRebound, ds)" by (rule c_loop_step) (simp add: peek)
  also have "\<dots> = c_loop ?step (LRepeat, ?ds1)" by (rule c_loop_step) (simp add: peek b)
  also have "\<dots> = Some (Ok (LNext, set_top (r\<lparr>current_pos := 0\<rparr>) ?ds1))"
    by (rule c_loop_stop) (simp add: peek b do_parse_frames_def Let_def)
  finally have "data_stream_parse_frames env mt ds = Ok ?ds1"
    by (simp add: data_stream_parse_frames_def parse_stream_def set_top_twice)
  then show ?thesis using top(1) held_frames [OF top(3)] by (simp add: init_data_stream_def)
qed

theorem stream_without_parser_witness:
  "\<exists>ds'. data_stream_parse_frames demo_env MESSAGE_REQUEST (snd (push_raw_data init_data_stream (raw_of [81, 0, 0, 0, 6, 49, 0]))) = Ok ds'
    \<and> queue ds' = [Some (raw_of [81, 0, 0, 0, 6, 49, 0])]"
proof -
  let ?ds = "snd (push_raw_data (init_data_stream :: pgsql_frame_data_s data_stream_s) (raw_of [81, 0, 0, 0, 6, 49, 0]))"
  have ok: "stream_ok ?ds" by (rule push_ok [OF init_ok]) (simp add: raw_of_def raw_ok_def)
  have q: "queue ?ds = [Some (raw_of [81, 0, 0, 0, 6, 49, 0])]"
    using queue_push [OF init_ok] by (simp add: queue_def init_data_stream_def RAW_BUF_SIZE_def)
  have "stream_type ?ds = PROTO_UNKNOW" by (simp add: init_data_stream_def push_raw_data_def Let_def)
  then show ?thesis using stream_without_parser [OF ok q, of demo_env MESSAGE_REQUEST] by (simp add: raw_of_0) blast
qed

end
