(* ===== verification/Pgsql_Matcher.thy ===== *)
theory Pgsql_Matcher
  imports Data_Stream
begin

text \<open>
  The matching of PostgreSQL requests with their responses: \<open>pgsql_matcher.c\<close> and the constructors of \<open>pgsql_msg_format.c\<close> it uses.
  The first part holds the definitions; then come the pairing of simple queries with their answers (\<open>holds\<close> to
  \<open>pgsql_match_queries\<close>), the safety of every handler on whatever a connection brings (\<open>kept\<close> to \<open>pgsql_match_safe\<close>), and what
  happens in the round after the frames were popped.
\<close>


section \<open>Structures\<close>

text \<open>The tags of \<open>enum pgsql_tag_t\<close> the matcher looks at; a client and a server tag can be the same character.\<close>

definition PGSQL_PASSWD :: byte where "PGSQL_PASSWD = 112"
definition PGSQL_SIMPLE_QUERY :: byte where "PGSQL_SIMPLE_QUERY = 81"
definition PGSQL_EXTENDED_QUERY_PARSE :: byte where "PGSQL_EXTENDED_QUERY_PARSE = 80"
definition PGSQL_EXTENDED_QUERY_BIND :: byte where "PGSQL_EXTENDED_QUERY_BIND = 66"
definition PGSQL_EXTENDED_QUERY_EXECUTE :: byte where "PGSQL_EXTENDED_QUERY_EXECUTE = 69"
definition PGSQL_EXTENDED_QUERY_DESCRIBE :: byte where "PGSQL_EXTENDED_QUERY_DESCRIBE = 68"
definition PGSQL_CLOSE :: byte where "PGSQL_CLOSE = 67"
definition PGSQL_SYNC :: byte where "PGSQL_SYNC = 83"
definition PGSQL_COPY_FAIL :: byte where "PGSQL_COPY_FAIL = 102"
definition PGSQL_CMD_COMPLETE :: byte where "PGSQL_CMD_COMPLETE = 67"
definition PGSQL_ERR_RETURN :: byte where "PGSQL_ERR_RETURN = 69"
definition PGSQL_READY_FOR_QUERY :: byte where "PGSQL_READY_FOR_QUERY = 90"
definition PGSQL_EMPTY_QUERY_RESP :: byte where "PGSQL_EMPTY_QUERY_RESP = 73"
definition PGSQL_PARSE_COMPLETE :: byte where "PGSQL_PARSE_COMPLETE = 49"
definition PGSQL_BIND_COMPLETE :: byte where "PGSQL_BIND_COMPLETE = 50"
definition PGSQL_ROW_DESCRIPTION :: byte where "PGSQL_ROW_DESCRIPTION = 84"
definition PGSQL_NO_DATA :: byte where "PGSQL_NO_DATA = 110"
definition PGSQL_PARAMETER_DESCRIPTION :: byte where "PGSQL_PARAMETER_DESCRIPTION = 116"
definition PGSQL_DATA_ROW :: byte where "PGSQL_DATA_ROW = 68"
definition PGSQL_DESCRIBE_TYPE_STATEMENT :: byte where "PGSQL_DESCRIBE_TYPE_STATEMENT = 83"
definition PGSQL_DESCRIBE_TYPE_PORTAL :: byte where "PGSQL_DESCRIBE_TYPE_PORTAL = 80"

text \<open>Responses as the matcher fills them; members it never touches are left out.\<close>

record pgsql_query_resp_s =
  qr_timestamp_ns :: u64
  qr_cmd_cmpl :: pgsql_cmd_complete_s
  qr_err_resp :: pgsql_err_resp_s

datatype pgsql_combo_msg = CMD_CMPL_MSG pgsql_cmd_complete_s | ERR_RESP_MSG pgsql_err_resp_s

record pgsql_combo_resp_s =
  cr_timestamp_ns :: u64
  cr_msg :: "pgsql_combo_msg option"

record pgsql_describe_resp_s =
  dr_timestamp_ns :: u64
  dr_is_no_data :: bool
  dr_param_desc :: pgsql_param_description_s
  dr_row_desc :: pgsql_row_description_s
  dr_err_resp :: pgsql_err_resp_s
  dr_is_err_resp :: bool

text \<open>
  A record of a matched pair. \<open>pgsql_record_s\<close> points to the message of the request, which is given by its
  index in the request buffer, and to a new message of which only the time is set.
\<close>

definition RECORD_BUF_SIZE :: nat where "RECORD_BUF_SIZE = 1024"

record record_data_s =
  rec_req :: nat
  rec_resp_ns :: u64
  latency :: u64

record record_buf_s =
  records :: "record_data_s option list"
  record_buf_size :: nat
  err_count :: nat
  req_count :: nat
  resp_count :: nat

type_synonym pg_frames = "pgsql_frame_data_s frame_buf_s"

text \<open>The two frame buffers and the records of one call.\<close>

record match_state =
  ms_req :: pg_frames
  ms_rsp :: pg_frames
  ms_rec :: record_buf_s

text \<open>
  Allocation by size, and what \<open>malloc\<close> leaves in members the code does not set: a time stamp, the fields of a
  row description and of its columns.
\<close>

record mt_env =
  me_malloc :: "nat \<Rightarrow> bool"
  me_ts :: u64
  me_row :: pgsql_row_description_s
  me_field :: pgsql_row_desc_field_s
  me_bool :: bool

definition init_pgsql_cmd_complete :: "mt_env \<Rightarrow> pgsql_cmd_complete_s option" where
  "init_pgsql_cmd_complete env = (if me_malloc env 16 then Some \<lparr>cmd_timestamp_ns = me_ts env, cmd_tag = None\<rparr> else None)"

definition init_pgsql_err_resp :: "mt_env \<Rightarrow> pgsql_err_resp_s option" where
  "init_pgsql_err_resp env = (if me_malloc env 16 then Some \<lparr>err_timestamp_ns = me_ts env, pgsql_err_code = None\<rparr> else None)"

definition init_pgsql_query_resp :: "mt_env \<Rightarrow> pgsql_query_resp_s option" where
  "init_pgsql_query_resp env =
     (if \<not> (me_malloc env 8240 \<and> me_malloc env 8208) then None
      else case (init_pgsql_cmd_complete env, init_pgsql_err_resp env) of
        (Some c, Some e) \<Rightarrow> Some \<lparr>qr_timestamp_ns = me_ts env, qr_cmd_cmpl = c, qr_err_resp = e\<rparr> | _ \<Rightarrow> None)"

text \<open>The request halves hold nothing that is read later; both query and execute requests take 16 bytes.\<close>

definition init_pgsql_query_req_resp :: "mt_env \<Rightarrow> pgsql_query_resp_s option" where
  "init_pgsql_query_req_resp env = (if me_malloc env 16 then init_pgsql_query_resp env else None)"

definition init_pgsql_execute_req_resp :: "mt_env \<Rightarrow> pgsql_query_resp_s option" where
  "init_pgsql_execute_req_resp env = (if me_malloc env 16 then init_pgsql_query_resp env else None)"

definition init_pgsql_parse_req :: "mt_env \<Rightarrow> pgsql_parse_req_s option" where
  "init_pgsql_parse_req env =
     (if me_malloc env 8224 then Some \<lparr>parse_timestamp_ns = me_ts env, stmt_name = None, query = None\<rparr> else None)"

definition init_pgsql_bind_req :: "mt_env \<Rightarrow> pgsql_bind_req_s option" where
  "init_pgsql_bind_req env =
     (if me_malloc env 16424 then Some \<lparr>bind_timestamp_ns = me_ts env, dest_portal_name = None, src_prepared_stat_name = None\<rparr>
      else None)"

definition init_pgsql_combo_resp :: "mt_env \<Rightarrow> pgsql_combo_resp_s option" where
  "init_pgsql_combo_resp env = (if me_malloc env 24 then Some \<lparr>cr_timestamp_ns = me_ts env, cr_msg = None\<rparr> else None)"

definition init_pgsql_parse_req_resp :: "mt_env \<Rightarrow> pgsql_combo_resp_s option" where
  "init_pgsql_parse_req_resp env =
     (if me_malloc env 16 \<and> init_pgsql_parse_req env \<noteq> None then init_pgsql_combo_resp env else None)"

definition init_pgsql_bind_req_resp :: "mt_env \<Rightarrow> pgsql_combo_resp_s option" where
  "init_pgsql_bind_req_resp env =
     (if me_malloc env 16 \<and> init_pgsql_bind_req env \<noteq> None then init_pgsql_combo_resp env else None)"

definition init_pgsql_describe_req :: "mt_env \<Rightarrow> pgsql_describe_req_s option" where
  "init_pgsql_describe_req env =
     (if me_malloc env 24 then Some \<lparr>desc_timestamp_ns = me_ts env, desc_type = 0, desc_name = None\<rparr> else None)"

definition init_pgsql_describe_resp :: "mt_env \<Rightarrow> pgsql_describe_resp_s option" where
  "init_pgsql_describe_resp env =
     (if \<not> (me_malloc env 48 \<and> me_malloc env 8 \<and> me_malloc env 8208) then None
      else case init_pgsql_err_resp env of None \<Rightarrow> None
        | Some e \<Rightarrow> Some \<lparr>dr_timestamp_ns = me_ts env, dr_is_no_data = me_bool env, dr_param_desc = \<lparr>param_timestamp_ns = me_ts env\<rparr>,
            dr_row_desc = me_row env, dr_err_resp = e, dr_is_err_resp = me_bool env\<rparr>)"

definition init_pgsql_describe_req_resp :: "mt_env \<Rightarrow> (pgsql_describe_req_s \<times> pgsql_describe_resp_s) option" where
  "init_pgsql_describe_req_resp env =
     (if \<not> me_malloc env 16 then None
      else case (init_pgsql_describe_req env, init_pgsql_describe_resp env) of
        (Some q, Some r) \<Rightarrow> Some (q, r) | _ \<Rightarrow> None)"

section \<open>Frames\<close>

definition pgsql_get_frame_from_buf :: "pg_frames \<Rightarrow> nat \<Rightarrow> pgsql_regular_msg_s outc" where
  "pgsql_get_frame_from_buf b i =
     (if i < length (frames b) then (case frames b ! i of None \<Rightarrow> UB | Some f \<Rightarrow> Ok (frame f)) else UB)"

definition put_msg :: "pg_frames \<Rightarrow> nat \<Rightarrow> pgsql_regular_msg_s \<Rightarrow> pg_frames" where
  "put_msg b i m = b\<lparr>frames := (frames b)[i := Some \<lparr>frame = m\<rparr>]\<rparr>"

text \<open>\<open>rsp_msg->consumed = true\<close>\<close>

definition consume :: "pg_frames \<Rightarrow> nat \<Rightarrow> pgsql_regular_msg_s \<Rightarrow> pg_frames" where
  "consume b i m = put_msg b i (m\<lparr>consumed := True\<rparr>)"

section \<open>Responses to queries\<close>

text \<open>
  The loop of \<open>pgsql_handle_query\<close> over the response frames that are left. It ends with the state the function returns at
  once, if it does, the index at which it was left by \<open>break\<close>, \<open>found_rsp\<close>, the response and the frames.
\<close>

fun query_loop :: "mt_env \<Rightarrow> nat list \<Rightarrow> bool \<Rightarrow> pgsql_query_resp_s \<Rightarrow> pg_frames
    \<Rightarrow> (parse_state_t option \<times> nat option \<times> bool \<times> pgsql_query_resp_s \<times> pg_frames) outc" where
  "query_loop env [] found resp b = Ok (None, None, found, resp, b)"
| "query_loop env (i # is) found resp b =
     bnd (pgsql_get_frame_from_buf b i) (\<lambda>m.
       (let stamped = resp\<lparr>qr_timestamp_ns := msg_timestamp_ns m\<rparr> in
        if tag m = PGSQL_EMPTY_QUERY_RESP then Ok (None, Some i, True, stamped, consume b i m)
        else if tag m = PGSQL_CMD_COMPLETE then
          bnd (pgsql_parse_cmd_complete (me_malloc env) m (qr_cmd_cmpl resp)) (\<lambda>(st, c).
            let resp = stamped\<lparr>qr_cmd_cmpl := c\<rparr> in
            if st \<noteq> STATE_SUCCESS then Ok (Some st, Some i, True, resp, b)
            else Ok (None, Some i, True, resp, consume b i m))
        else if tag m = PGSQL_ERR_RETURN then
          bnd (pgsql_parse_err_resp (me_malloc env) m (qr_err_resp resp)) (\<lambda>(st, e, m).
            let resp = stamped\<lparr>qr_err_resp := e\<rparr> in
            if st \<noteq> STATE_SUCCESS then Ok (Some st, Some i, True, resp, put_msg b i m)
            else Ok (None, Some i, True, resp, consume b i m))
        else if tag m = PGSQL_ROW_DESCRIPTION \<or> tag m = PGSQL_DATA_ROW then
          query_loop env is True stamped (consume b i m)
        else query_loop env is found resp b))"

text \<open>The new position behind the frame at which a loop was left, or at the end.\<close>

definition move_pos :: "nat option \<Rightarrow> pg_frames \<Rightarrow> pg_frames" where
  "move_pos brk b =
     (let rsp_index = (case brk of Some i \<Rightarrow> i | None \<Rightarrow> max (frame_current_pos b) (frame_buf_size b)) in
      b\<lparr>frame_current_pos := (if rsp_index \<noteq> frame_buf_size b then rsp_index + 1 else rsp_index)\<rparr>)"

definition pgsql_handle_query :: "mt_env \<Rightarrow> pg_frames \<Rightarrow> pgsql_query_resp_s \<Rightarrow> (parse_state_t \<times> pgsql_query_resp_s \<times> pg_frames) outc" where
  "pgsql_handle_query env rsp resp =
     bnd (query_loop env [frame_current_pos rsp..<frame_buf_size rsp] False resp rsp) (\<lambda>(ret, brk, found, resp, rsp).
       case ret of Some st \<Rightarrow> Ok (st, resp, rsp)
       | None \<Rightarrow> Ok (if found then STATE_SUCCESS else STATE_INVALID, resp, move_pos brk rsp))"

text \<open>
  \<open>pgsql_fill_query_resp\<close>, for an execute request: here the flags are whether a row description and whether a command
  completion or an error was found.
\<close>

fun fill_loop :: "mt_env \<Rightarrow> nat list \<Rightarrow> bool \<Rightarrow> pgsql_query_resp_s \<Rightarrow> pg_frames
    \<Rightarrow> (parse_state_t option \<times> nat option \<times> bool \<times> bool \<times> pgsql_query_resp_s \<times> pg_frames) outc" where
  "fill_loop env [] row resp b = Ok (None, None, row, False, resp, b)"
| "fill_loop env (i # is) row resp b =
     bnd (pgsql_get_frame_from_buf b i) (\<lambda>m.
       (let stamped = resp\<lparr>qr_timestamp_ns := msg_timestamp_ns m\<rparr> in
        if tag m = PGSQL_CMD_COMPLETE then
          bnd (pgsql_parse_cmd_complete (me_malloc env) m (qr_cmd_cmpl resp)) (\<lambda>(st, c).
            let resp = stamped\<lparr>qr_cmd_cmpl := c\<rparr> in
            if st \<noteq> STATE_SUCCESS then Ok (Some st, Some i, row, True, resp, b)
            else Ok (None, Some i, row, True, resp, consume b i m))
        else if tag m = PGSQL_ERR_RETURN then
          bnd (pgsql_parse_err_resp (me_malloc env) m (qr_err_resp resp)) (\<lambda>(st, e, m).
            let resp = stamped\<lparr>qr_err_resp := e\<rparr> in
            if st \<noteq> STATE_SUCCESS then Ok (Some st, Some i, row, True, resp, put_msg b i m)
            else Ok (None, Some i, row, True, resp, consume b i m))
        else if tag m = PGSQL_ROW_DESCRIPTION then fill_loop env is True stamped (consume b i m)
        else if tag m = PGSQL_DATA_ROW then fill_loop env is row resp (consume b i m)
        else fill_loop env is row resp b))"

definition pgsql_fill_query_resp :: "mt_env \<Rightarrow> pg_frames \<Rightarrow> pgsql_query_resp_s \<Rightarrow> (parse_state_t \<times> pgsql_query_resp_s \<times> pg_frames) outc" where
  "pgsql_fill_query_resp env rsp resp =
     bnd (fill_loop env [frame_current_pos rsp..<frame_buf_size rsp] False resp rsp) (\<lambda>(ret, brk, row, fin, resp, rsp).
       case ret of Some st \<Rightarrow> Ok (st, resp, rsp)
       | None \<Rightarrow> Ok (if \<not> row \<and> \<not> fin then STATE_INVALID else STATE_SUCCESS, resp, move_pos brk rsp))"

definition pgsql_handle_execute :: "mt_env \<Rightarrow> pg_frames \<Rightarrow> pgsql_query_resp_s \<Rightarrow> (parse_state_t \<times> pgsql_query_resp_s \<times> pg_frames) outc" where
  "pgsql_handle_execute env rsp resp = pgsql_fill_query_resp env rsp resp"


section \<open>Prepared statements\<close>

text \<open>The completion message that is made up for a parse or bind request; the texts are 14 and 13 characters long.\<close>

definition pgsql_parse_complete_text :: "byte list" where
  "pgsql_parse_complete_text = [80, 65, 82, 83, 69, 32, 67, 79, 77, 80, 76, 69, 84, 69]"

definition pgsql_bind_complete_text :: "byte list" where
  "pgsql_bind_complete_text = [66, 73, 78, 68, 32, 67, 79, 77, 80, 76, 69, 84, 69]"

definition set_cmd_cmpl_msg :: "mt_env \<Rightarrow> pgsql_combo_resp_s \<Rightarrow> byte \<Rightarrow> byte list \<Rightarrow> parse_state_t \<times> pgsql_combo_resp_s" where
  "set_cmd_cmpl_msg env resp ty cmpl_text =
     (case init_pgsql_cmd_complete env of None \<Rightarrow> (STATE_INVALID, resp)
      | Some c \<Rightarrow>
          if \<not> me_malloc env (length cmpl_text + 1) then (STATE_INVALID, resp)
          else if ty = PGSQL_PARSE_COMPLETE \<or> ty = PGSQL_BIND_COMPLETE then
            (STATE_SUCCESS, resp\<lparr>cr_msg := Some (CMD_CMPL_MSG (c\<lparr>cmd_tag := Some (cmpl_text @ [0]), cmd_timestamp_ns := cr_timestamp_ns resp\<rparr>))\<rparr>)
          else (STATE_INVALID, resp))"

definition set_error_msg :: "mt_env \<Rightarrow> pgsql_combo_resp_s \<Rightarrow> byte \<Rightarrow> pgsql_regular_msg_s
    \<Rightarrow> (parse_state_t \<times> pgsql_combo_resp_s \<times> pgsql_regular_msg_s) outc" where
  "set_error_msg env resp ty m =
     (case init_pgsql_err_resp env of None \<Rightarrow> Ok (STATE_INVALID, resp, m)
      | Some e \<Rightarrow>
          bnd (pgsql_parse_err_resp (me_malloc env) m e) (\<lambda>(st, e, m).
            if st \<noteq> STATE_SUCCESS then Ok (st, resp, m)
            else if ty = PGSQL_PARSE_COMPLETE \<or> ty = PGSQL_BIND_COMPLETE
              then Ok (STATE_SUCCESS, resp\<lparr>cr_msg := Some (ERR_RESP_MSG e)\<rparr>, m)
            else Ok (STATE_INVALID, resp, m)))"

text \<open>The first frame from the current position with one of the tags; the buffer size when there is none.\<close>

fun first_tag :: "byte list \<Rightarrow> pg_frames \<Rightarrow> nat list \<Rightarrow> nat option outc" where
  "first_tag tags b [] = Ok None"
| "first_tag tags b (i # is) =
     bnd (pgsql_get_frame_from_buf b i) (\<lambda>m. if tag m \<in> set tags then Ok (Some i) else first_tag tags b is)"

definition pgsql_find_first_tag :: "pg_frames \<Rightarrow> byte list \<Rightarrow> nat outc" where
  "pgsql_find_first_tag b tags =
     bnd (first_tag tags b [frame_current_pos b..<frame_buf_size b]) (\<lambda>r.
       Ok (case r of Some i \<Rightarrow> i | None \<Rightarrow> max (frame_current_pos b) (frame_buf_size b)))"

text \<open>
  What parse and bind requests share once their own message has been read: the completion or the error is looked for, and the
  response is filled. \<open>resp\<close> is None for the null pointer \<open>req_rsp\<close>, which is dereferenced only when a frame was found.
\<close>

definition combo_response :: "mt_env \<Rightarrow> byte \<Rightarrow> byte list \<Rightarrow> pg_frames \<Rightarrow> pgsql_combo_resp_s option
    \<Rightarrow> (parse_state_t \<times> pgsql_combo_resp_s option \<times> pg_frames) outc" where
  "combo_response env ty cmpl_text rsp resp =
     bnd (pgsql_find_first_tag rsp [ty, PGSQL_ERR_RETURN]) (\<lambda>rsp_index.
       if rsp_index = frame_buf_size rsp then Ok (STATE_NOT_FOUND, resp, rsp)
       else bnd (pgsql_get_frame_from_buf rsp rsp_index) (\<lambda>m.
         (let rsp = rsp\<lparr>frame_current_pos := rsp_index + 1\<rparr> in
          case resp of None \<Rightarrow> UB
          | Some r \<Rightarrow>
             (let r = r\<lparr>cr_timestamp_ns := msg_timestamp_ns m\<rparr> in
              if tag m = ty then
                (case set_cmd_cmpl_msg env r ty cmpl_text of (st, r) \<Rightarrow>
                   if st \<noteq> STATE_SUCCESS then Ok (st, Some r, rsp) else Ok (STATE_SUCCESS, Some r, consume rsp rsp_index m))
              else bnd (set_error_msg env r ty m) (\<lambda>(st, r, m).
                   if st \<noteq> STATE_SUCCESS then Ok (st, Some r, put_msg rsp rsp_index m)
                   else Ok (STATE_SUCCESS, Some r, consume rsp rsp_index m))))))"

definition pgsql_handle_parse :: "mt_env \<Rightarrow> pgsql_regular_msg_s \<Rightarrow> pg_frames \<Rightarrow> pgsql_combo_resp_s option
    \<Rightarrow> (parse_state_t \<times> pgsql_regular_msg_s \<times> pgsql_combo_resp_s option \<times> pg_frames) outc" where
  "pgsql_handle_parse env msg rsp resp =
     (case init_pgsql_parse_req env of None \<Rightarrow> Ok (STATE_INVALID, msg, resp, rsp)
      | Some q \<Rightarrow>
          bnd (pgsql_parse_parse_msg (me_malloc env) msg q) (\<lambda>(st, q, msg).
            if st \<noteq> STATE_SUCCESS then Ok (st, msg, resp, rsp)
            else bnd (combo_response env PGSQL_PARSE_COMPLETE pgsql_parse_complete_text rsp resp) (\<lambda>(st, resp, rsp).
              Ok (st, msg, resp, rsp))))"

definition pgsql_handle_bind :: "mt_env \<Rightarrow> pgsql_regular_msg_s \<Rightarrow> pg_frames \<Rightarrow> pgsql_combo_resp_s option
    \<Rightarrow> (parse_state_t \<times> pgsql_regular_msg_s \<times> pgsql_combo_resp_s option \<times> pg_frames) outc" where
  "pgsql_handle_bind env msg rsp resp =
     (case init_pgsql_bind_req env of None \<Rightarrow> UB
      | Some q \<Rightarrow>
          bnd (pgsql_parse_bind_req (me_malloc env) msg q) (\<lambda>(st, q, msg).
            if st \<noteq> STATE_SUCCESS then Ok (st, msg, resp, rsp)
            else bnd (combo_response env PGSQL_BIND_COMPLETE pgsql_bind_complete_text rsp resp) (\<lambda>(st, resp, rsp).
              Ok (st, msg, resp, rsp))))"

text \<open>The description of a statement: the parameters, then the rows or \<open>NO_DATA\<close> in the frame behind.\<close>

definition pgsql_fill_stmt_desc_resp :: "mt_env \<Rightarrow> pg_frames \<Rightarrow> pgsql_describe_resp_s \<Rightarrow> (parse_state_t \<times> pgsql_describe_resp_s \<times> pg_frames) outc" where
  "pgsql_fill_stmt_desc_resp env rsp d =
     bnd (pgsql_find_first_tag rsp [PGSQL_PARAMETER_DESCRIPTION, PGSQL_ERR_RETURN]) (\<lambda>i.
       if i = frame_buf_size rsp then Ok (STATE_NOT_FOUND, d, rsp)
       else bnd (pgsql_get_frame_from_buf rsp i) (\<lambda>m.
         (let rsp = rsp\<lparr>frame_current_pos := i + 1\<rparr>; d = d\<lparr>dr_timestamp_ns := msg_timestamp_ns m\<rparr> in
          if tag m = PGSQL_ERR_RETURN then
            bnd (pgsql_parse_err_resp (me_malloc env) m (dr_err_resp d)) (\<lambda>(st, e, m).
              let d = d\<lparr>dr_is_err_resp := True, dr_err_resp := e\<rparr> in
              if st \<noteq> STATE_SUCCESS then Ok (st, d, put_msg rsp i m) else Ok (STATE_SUCCESS, d, consume rsp i m))
          else bnd (pgsql_parse_param_desc m (dr_param_desc d)) (\<lambda>(st, pd, m).
            let d = d\<lparr>dr_param_desc := pd\<rparr>; rsp = put_msg rsp i m in
            if st \<noteq> STATE_SUCCESS then Ok (st, d, rsp)
            else if i + 1 = frame_buf_size rsp then Ok (STATE_INVALID, d, rsp)
            else let rsp = rsp\<lparr>frame_current_pos := i + 2\<rparr> in
              bnd (pgsql_get_frame_from_buf rsp (i + 1)) (\<lambda>row.
                if tag row = PGSQL_ROW_DESCRIPTION then
                  bnd (pgsql_parse_row_desc (me_malloc env) (me_field env) row (dr_row_desc d)) (\<lambda>(st, rd, row).
                    Ok (st, d\<lparr>dr_row_desc := rd\<rparr>, if st = STATE_SUCCESS then consume rsp (i + 1) row else put_msg rsp (i + 1) row))
                else if tag row = PGSQL_NO_DATA then
                  Ok (STATE_SUCCESS, d\<lparr>dr_is_no_data := True\<rparr>, consume rsp (i + 1) row)
                else Ok (STATE_INVALID, d, rsp))))))"

definition pgsql_fill_portal_desc_resp :: "mt_env \<Rightarrow> pg_frames \<Rightarrow> pgsql_describe_resp_s \<Rightarrow> (parse_state_t \<times> pgsql_describe_resp_s \<times> pg_frames) outc" where
  "pgsql_fill_portal_desc_resp env rsp d =
     bnd (pgsql_find_first_tag rsp [PGSQL_PARAMETER_DESCRIPTION, PGSQL_ERR_RETURN]) (\<lambda>i.
       if i = frame_buf_size rsp then Ok (STATE_NOT_FOUND, d, rsp)
       else bnd (pgsql_get_frame_from_buf rsp i) (\<lambda>m.
         (let rsp = rsp\<lparr>frame_current_pos := i + 1\<rparr> in
          if tag m = PGSQL_ERR_RETURN then
            bnd (pgsql_parse_err_resp (me_malloc env) m (dr_err_resp d)) (\<lambda>(st, e, m).
              Ok (st, d\<lparr>dr_is_err_resp := True, dr_err_resp := e\<rparr>, put_msg rsp i m))
          else bnd (pgsql_parse_row_desc (me_malloc env) (me_field env) m (dr_row_desc d)) (\<lambda>(st, rd, m).
              Ok (st, d\<lparr>dr_row_desc := rd\<rparr>, put_msg rsp i m)))))"

definition pgsql_handle_describe :: "mt_env \<Rightarrow> pgsql_regular_msg_s \<Rightarrow> pg_frames \<Rightarrow> pgsql_describe_req_s \<times> pgsql_describe_resp_s
    \<Rightarrow> (parse_state_t \<times> pgsql_regular_msg_s \<times> pgsql_describe_resp_s \<times> pg_frames) outc" where
  "pgsql_handle_describe env msg rsp qr =
     bnd (pgsql_parse_describe (me_malloc env) msg (fst qr)) (\<lambda>(st, q, msg).
       if st \<noteq> STATE_SUCCESS then Ok (st, msg, snd qr, rsp)
       else if desc_type q = PGSQL_DESCRIBE_TYPE_STATEMENT then
         bnd (pgsql_fill_stmt_desc_resp env rsp (snd qr)) (\<lambda>(st, d, rsp). Ok (st, msg, d, rsp))
       else if desc_type q = PGSQL_DESCRIBE_TYPE_PORTAL then
         bnd (pgsql_fill_portal_desc_resp env rsp (snd qr)) (\<lambda>(st, d, rsp). Ok (st, msg, d, rsp))
       else Ok (STATE_INVALID, msg, snd qr, rsp))"

section \<open>Records\<close>

text \<open>\<open>k\<close> is the index of the request. The buffer is taken to be full only when its size exceeds the array.\<close>

definition pgsql_matcher_add_record :: "mt_env \<Rightarrow> nat \<Rightarrow> pgsql_regular_msg_s \<Rightarrow> u64 \<Rightarrow> record_buf_s
    \<Rightarrow> (pgsql_regular_msg_s \<times> record_buf_s) outc" where
  "pgsql_matcher_add_record env k req ts rb =
     (if record_buf_size rb > RECORD_BUF_SIZE then Ok (req, rb\<lparr>err_count := err_count rb + 1\<rparr>)
      else let req = req\<lparr>consumed := True\<rparr> in
        if \<not> (me_malloc env 32 \<and> me_malloc env 16) then Ok (req, rb)
        else if record_buf_size rb < RECORD_BUF_SIZE then
          Ok (req, rb\<lparr>records := (records rb)[record_buf_size rb :=
                        Some \<lparr>rec_req = k, rec_resp_ns = ts, latency = ts - msg_timestamp_ns req\<rparr>],
                      record_buf_size := record_buf_size rb + 1\<rparr>)
        else UB)"

text \<open>
  The five handlers have one shape: a result other than success counts as an error, otherwise the pair is recorded with the time
  of the response.
\<close>

definition finish_request :: "mt_env \<Rightarrow> nat \<Rightarrow> parse_state_t \<Rightarrow> pgsql_regular_msg_s \<Rightarrow> u64 \<Rightarrow> pg_frames \<Rightarrow> match_state \<Rightarrow> match_state outc" where
  "finish_request env k st req ts rsp ms =
     (if st \<noteq> STATE_SUCCESS then
        Ok (ms\<lparr>ms_req := put_msg (ms_req ms) k req, ms_rsp := rsp, ms_rec := (ms_rec ms)\<lparr>err_count := err_count (ms_rec ms) + 1\<rparr>\<rparr>)
      else bnd (pgsql_matcher_add_record env k req ts (ms_rec ms)) (\<lambda>(req, rb).
        Ok (ms\<lparr>ms_req := put_msg (ms_req ms) k req, ms_rsp := rsp, ms_rec := rb\<rparr>)))"

definition handle_simple_query :: "mt_env \<Rightarrow> nat \<Rightarrow> pgsql_regular_msg_s \<Rightarrow> match_state \<Rightarrow> match_state outc" where
  "handle_simple_query env k req ms =
     (case init_pgsql_query_req_resp env of None \<Rightarrow> UB
      | Some r \<Rightarrow> bnd (pgsql_handle_query env (ms_rsp ms) r) (\<lambda>(st, r, rsp).
          finish_request env k st req (qr_timestamp_ns r) rsp ms))"

definition handle_parse_req :: "mt_env \<Rightarrow> nat \<Rightarrow> pgsql_regular_msg_s \<Rightarrow> match_state \<Rightarrow> match_state outc" where
  "handle_parse_req env k req ms =
     bnd (pgsql_handle_parse env req (ms_rsp ms) (init_pgsql_parse_req_resp env)) (\<lambda>(st, req, r, rsp).
       if st = STATE_SUCCESS \<and> r = None then UB
       else finish_request env k st req (cr_timestamp_ns (the r)) rsp ms)"

definition handle_bind_req :: "mt_env \<Rightarrow> nat \<Rightarrow> pgsql_regular_msg_s \<Rightarrow> match_state \<Rightarrow> match_state outc" where
  "handle_bind_req env k req ms =
     bnd (pgsql_handle_bind env req (ms_rsp ms) (init_pgsql_bind_req_resp env)) (\<lambda>(st, req, r, rsp).
       if st = STATE_SUCCESS \<and> r = None then UB
       else finish_request env k st req (cr_timestamp_ns (the r)) rsp ms)"

definition handle_describe_req :: "mt_env \<Rightarrow> nat \<Rightarrow> pgsql_regular_msg_s \<Rightarrow> match_state \<Rightarrow> match_state outc" where
  "handle_describe_req env k req ms =
     (case init_pgsql_describe_req_resp env of None \<Rightarrow> UB
      | Some qr \<Rightarrow> bnd (pgsql_handle_describe env req (ms_rsp ms) qr) (\<lambda>(st, req, d, rsp).
          finish_request env k st req (dr_timestamp_ns d) rsp ms))"

definition handle_execute_req :: "mt_env \<Rightarrow> nat \<Rightarrow> pgsql_regular_msg_s \<Rightarrow> match_state \<Rightarrow> match_state outc" where
  "handle_execute_req env k req ms =
     (case init_pgsql_execute_req_resp env of None \<Rightarrow> UB
      | Some r \<Rightarrow> bnd (pgsql_handle_execute env (ms_rsp ms) r) (\<lambda>(st, r, rsp).
          finish_request env k st req (qr_timestamp_ns r) rsp ms))"

section \<open>Matching\<close>

definition match_one :: "mt_env \<Rightarrow> nat \<Rightarrow> match_state \<Rightarrow> match_state outc" where
  "match_one env k ms =
     bnd (pgsql_get_frame_from_buf (ms_req ms) k) (\<lambda>req.
       (let t = tag req in
        if t \<in> {PGSQL_READY_FOR_QUERY, PGSQL_SYNC, PGSQL_COPY_FAIL, PGSQL_CLOSE, PGSQL_PASSWD} then Ok ms
        else if t = PGSQL_SIMPLE_QUERY then handle_simple_query env k req ms
        else if t = PGSQL_EXTENDED_QUERY_PARSE then handle_parse_req env k req ms
        else if t = PGSQL_EXTENDED_QUERY_BIND then handle_bind_req env k req ms
        else if t = PGSQL_EXTENDED_QUERY_DESCRIBE then handle_describe_req env k req ms
        else if t = PGSQL_EXTENDED_QUERY_EXECUTE then handle_execute_req env k req ms
        else Ok ms))"

fun match_loop :: "mt_env \<Rightarrow> nat list \<Rightarrow> match_state \<Rightarrow> match_state outc" where
  "match_loop env [] ms = Ok ms"
| "match_loop env (k # ks) ms = bnd (match_one env k ms) (match_loop env ks)"

text \<open>The first request from \<open>i\<close> on that has not been consumed.\<close>

function unconsumed_index :: "pg_frames \<Rightarrow> nat \<Rightarrow> nat outc" where
  "unconsumed_index b i =
     (if i = frame_buf_size b then Ok i
      else if i < length (frames b) then
        bnd (pgsql_get_frame_from_buf b i) (\<lambda>m. if \<not> consumed m then Ok i else unconsumed_index b (i + 1))
      else UB)"
  by pat_completeness auto
termination by (relation "measure (\<lambda>(b, i). length (frames b) - i)") auto

declare unconsumed_index.simps [simp del]

definition pgsql_match_frames :: "mt_env \<Rightarrow> match_state \<Rightarrow> match_state outc" where
  "pgsql_match_frames env ms =
     (let rq = ms_req ms; rs = ms_rsp ms;
          ms = ms\<lparr>ms_rec := (ms_rec ms)\<lparr>err_count := 0, record_buf_size := 0, req_count := frame_buf_size rq, resp_count := frame_buf_size rs\<rparr>\<rparr> in
      bnd (if frame_current_pos rs < frame_buf_size rs
           then match_loop env [frame_current_pos rq..<frame_buf_size rq] ms else Ok ms) (\<lambda>ms.
        bnd (unconsumed_index (ms_req ms) (frame_current_pos (ms_req ms))) (\<lambda>u.
          if u \<noteq> frame_current_pos (ms_req ms)
          then Ok (ms\<lparr>ms_req := (ms_req ms)\<lparr>frame_current_pos := u\<rparr>,
                      ms_rsp := (ms_rsp ms)\<lparr>frame_current_pos := frame_buf_size (ms_rsp ms)\<rparr>\<rparr>)
          else Ok ms)))"


text \<open>A buffer that holds exactly these messages.\<close>

definition holds :: "pg_frames \<Rightarrow> pgsql_regular_msg_s list \<Rightarrow> bool" where
  "holds b ms \<longleftrightarrow> length (frames b) = FRAME_BUF_SIZE \<and> frame_buf_size b = length ms \<and> length ms \<le> FRAME_BUF_SIZE \<and>
     (\<forall>i < length ms. frames b ! i = Some \<lparr>frame = ms ! i\<rparr>)"

text \<open>From index \<open>n\<close> on, and in its size and position, a buffer is as another.\<close>

definition same_from :: "nat \<Rightarrow> pg_frames \<Rightarrow> pg_frames \<Rightarrow> bool" where
  "same_from n b b' \<longleftrightarrow> length (frames b') = length (frames b) \<and> frame_buf_size b' = frame_buf_size b \<and>
     frame_current_pos b' = frame_current_pos b \<and> (\<forall>j \<ge> n. frames b' ! j = frames b ! j)"

text \<open>
  What a server answers to a simple query: messages that do not end the answer (row descriptions, rows, notices,
  the ready message of the query before), then one that does.
\<close>

type_synonym answer = "pgsql_regular_msg_s list \<times> pgsql_regular_msg_s"

definition ends_answer :: "mt_env \<Rightarrow> pgsql_regular_msg_s \<Rightarrow> bool" where
  "ends_answer env d \<longleftrightarrow> tag d = PGSQL_EMPTY_QUERY_RESP \<or>
     tag d = PGSQL_CMD_COMPLETE \<and> (\<exists>p. payload_data d = Some p \<and> 0 \<in> set (data p)) \<or>
     tag d = PGSQL_ERR_RETURN \<and> (\<forall>e. \<exists>e' m'. pgsql_parse_err_resp (me_malloc env) d e = Ok (STATE_SUCCESS, e', m'))"

definition is_answer :: "mt_env \<Rightarrow> answer \<Rightarrow> bool" where
  "is_answer env a \<longleftrightarrow> ends_answer env (snd a) \<and>
     (\<forall>m \<in> set (fst a). tag m \<noteq> PGSQL_EMPTY_QUERY_RESP \<and> tag m \<noteq> PGSQL_CMD_COMPLETE \<and> tag m \<noteq> PGSQL_ERR_RETURN)"

definition answer_msgs :: "answer \<Rightarrow> pgsql_regular_msg_s list" where
  "answer_msgs a = fst a @ [snd a]"

text \<open>The pairs in order: query \<open>k + i\<close> with answer \<open>i\<close>, and the time between them.\<close>

fun pairing :: "nat \<Rightarrow> pgsql_regular_msg_s list \<Rightarrow> answer list \<Rightarrow> record_data_s list" where
  "pairing k (q # qs) (a # as) =
     \<lparr>rec_req = k, rec_resp_ns = msg_timestamp_ns (snd a), latency = msg_timestamp_ns (snd a) - msg_timestamp_ns q\<rparr> # pairing (k + 1) qs as"
| "pairing k _ _ = []"

lemma pairing_length [simp]: "length (pairing k qs as) = min (length qs) (length as)"
  by (induction k qs as rule: pairing.induct) auto

named_theorems tag_defs \<open>the characters of the tags\<close>

declare PGSQL_PASSWD_def [tag_defs] PGSQL_SIMPLE_QUERY_def [tag_defs] PGSQL_EXTENDED_QUERY_PARSE_def [tag_defs]
  PGSQL_EXTENDED_QUERY_BIND_def [tag_defs] PGSQL_EXTENDED_QUERY_EXECUTE_def [tag_defs] PGSQL_EXTENDED_QUERY_DESCRIBE_def [tag_defs]
  PGSQL_CLOSE_def [tag_defs] PGSQL_SYNC_def [tag_defs] PGSQL_COPY_FAIL_def [tag_defs] PGSQL_CMD_COMPLETE_def [tag_defs]
  PGSQL_ERR_RETURN_def [tag_defs] PGSQL_READY_FOR_QUERY_def [tag_defs] PGSQL_EMPTY_QUERY_RESP_def [tag_defs]
  PGSQL_PARSE_COMPLETE_def [tag_defs] PGSQL_BIND_COMPLETE_def [tag_defs] PGSQL_ROW_DESCRIPTION_def [tag_defs] PGSQL_NO_DATA_def [tag_defs]
  PGSQL_PARAMETER_DESCRIPTION_def [tag_defs] PGSQL_DATA_ROW_def [tag_defs]

lemma get_frame: "i < length (frames b) \<Longrightarrow> frames b ! i = Some \<lparr>frame = m\<rparr> \<Longrightarrow> pgsql_get_frame_from_buf b i = Ok m"
  by (simp add: pgsql_get_frame_from_buf_def)

lemma put_msg_simps [simp]:
  "frame_buf_size (put_msg b i m) = frame_buf_size b" "frame_current_pos (put_msg b i m) = frame_current_pos b"
  "length (frames (put_msg b i m)) = length (frames b)"
  "j \<noteq> i \<Longrightarrow> frames (put_msg b i m) ! j = frames b ! j"
  "i < length (frames b) \<Longrightarrow> frames (put_msg b i m) ! i = Some \<lparr>frame = m\<rparr>"
  by (simp_all add: put_msg_def)

lemma consume_simps [simp]:
  "frame_buf_size (consume b i m) = frame_buf_size b" "frame_current_pos (consume b i m) = frame_current_pos b"
  "length (frames (consume b i m)) = length (frames b)" "j \<noteq> i \<Longrightarrow> frames (consume b i m) ! j = frames b ! j"
  by (simp_all add: consume_def)

lemma same_from_refl [simp]: "same_from n b b" by (simp add: same_from_def)

lemma same_from_consume: "i < n \<Longrightarrow> same_from n b (consume b i m)" "i < n \<Longrightarrow> same_from n b (put_msg b i m)"
  by (auto simp: same_from_def)

lemma same_from_trans: "same_from n a b \<Longrightarrow> same_from n b c \<Longrightarrow> same_from n a c"
  by (simp add: same_from_def)

lemma query_loop_end:
  assumes "ends_answer env d" "i < length (frames b)" "frames b ! i = Some \<lparr>frame = d\<rparr>" "\<And>n. me_malloc env n"
  shows "\<exists>resp' b'. query_loop env (i # is) found resp b = Ok (None, Some i, True, resp', b') \<and>
    qr_timestamp_ns resp' = msg_timestamp_ns d \<and> same_from (i + 1) b b'"
proof -
  note g = get_frame [OF assms(2,3)]
  from assms(1) consider "tag d = PGSQL_EMPTY_QUERY_RESP"
    | p where "tag d = PGSQL_CMD_COMPLETE" "payload_data d = Some p" "0 \<in> set (data p)"
    | "tag d = PGSQL_ERR_RETURN" "\<And>e. \<exists>e' m'. pgsql_parse_err_resp (me_malloc env) d e = Ok (STATE_SUCCESS, e', m')"
    unfolding ends_answer_def by blast
  then show ?thesis
  proof cases
    case 1 then show ?thesis by (simp add: g same_from_consume)
  next
    case 2 then show ?thesis by (simp add: g same_from_consume assms(4) pgsql_parse_cmd_complete_def strlen_def tag_defs Let_def)
  next
    case 3
    from 3(2) [of "qr_err_resp resp"] obtain e' m' where "pgsql_parse_err_resp (me_malloc env) d (qr_err_resp resp) = Ok (STATE_SUCCESS, e', m')"
      by blast
    with 3(1) show ?thesis by (simp add: g same_from_consume tag_defs Let_def)
  qed
qed

lemma query_loop_answer:
  assumes "is_answer env (rows, d)" "\<And>n. me_malloc env n" "i + length rows < length (frames b)"
    and "\<And>j. j \<le> length rows \<Longrightarrow> frames b ! (i + j) = Some \<lparr>frame = (rows @ [d]) ! j\<rparr>" "i + length rows < n"
  shows "\<exists>resp' b'. query_loop env [i..<n] found resp b = Ok (None, Some (i + length rows), True, resp', b') \<and>
    qr_timestamp_ns resp' = msg_timestamp_ns d \<and> same_from (i + length rows + 1) b b'"
  using assms
proof (induction rows arbitrary: i found resp b)
  case Nil
  then have "[i..<n] = i # [i + 1..<n]" by (simp add: upt_conv_Cons)
  then show ?case using query_loop_end [of env d i b "[i + 1..<n]" found resp] Nil(1-3) Nil(4) [of 0] by (simp add: is_answer_def)
next
  case (Cons m rows)
  have up: "[i..<n] = i # [i + 1..<n]" using Cons.prems(5) by (simp add: upt_conv_Cons)
  have g: "pgsql_get_frame_from_buf b i = Ok m" using Cons.prems(3) Cons.prems(4) [of 0] by (simp add: get_frame)
  have t: "tag m \<noteq> PGSQL_EMPTY_QUERY_RESP" "tag m \<noteq> PGSQL_CMD_COMPLETE" "tag m \<noteq> PGSQL_ERR_RETURN" "is_answer env (rows, d)"
    using Cons.prems(1) by (auto simp: is_answer_def)
  let ?b = "if tag m = PGSQL_ROW_DESCRIPTION \<or> tag m = PGSQL_DATA_ROW then consume b i m else b"
  have fr: "frames ?b ! ((i + 1) + j) = Some \<lparr>frame = (rows @ [d]) ! j\<rparr>" if "j \<le> length rows" for j
    using Cons.prems(4) [of "Suc j"] that by simp
  have step: "\<exists>found' resp'. query_loop env [i..<n] found resp b = query_loop env [i + 1..<n] found' resp' ?b"
    using t by (auto simp: up g Let_def)
  then obtain found' resp' where s: "query_loop env [i..<n] found resp b = query_loop env [i + 1..<n] found' resp' ?b" by blast
  have "length (frames ?b) = length (frames b)" by simp
  then obtain resp2 b2 where "query_loop env [i + 1..<n] found' resp' ?b = Ok (None, Some (i + 1 + length rows), True, resp2, b2)"
    "qr_timestamp_ns resp2 = msg_timestamp_ns d" "same_from (i + 1 + length rows + 1) ?b b2"
    using Cons.IH [of "i + 1" ?b found' resp', OF t(4) Cons.prems(2) _ fr] Cons.prems(3,5) by auto
  moreover have "same_from (i + 1 + length rows + 1) b ?b" by (simp add: same_from_consume)
  ultimately show ?case using s by (auto intro: same_from_trans)
qed

lemma handle_query_answer:
  assumes "is_answer env (rows, d)" "\<And>n. me_malloc env n" "frame_buf_size b \<le> length (frames b)"
    and "frame_current_pos b + length rows < frame_buf_size b"
    and "\<And>j. j \<le> length rows \<Longrightarrow> frames b ! (frame_current_pos b + j) = Some \<lparr>frame = (rows @ [d]) ! j\<rparr>"
  shows "\<exists>resp' b'. pgsql_handle_query env b resp = Ok (STATE_SUCCESS, resp', b'\<lparr>frame_current_pos := frame_current_pos b + length rows + 1\<rparr>) \<and>
    qr_timestamp_ns resp' = msg_timestamp_ns d \<and> same_from (frame_current_pos b + length rows + 1) b b'"
  using query_loop_answer [OF assms(1,2) _ assms(5), of "frame_buf_size b" False resp] assms(3,4)
  by (force simp: pgsql_handle_query_def move_pos_def Let_def same_from_def)


text \<open>What the loop needs of the frames: the queries from \<open>k\<close> on, and the answers from the position of the responses on.\<close>

definition queries_at :: "nat \<Rightarrow> pgsql_regular_msg_s list \<Rightarrow> pg_frames \<Rightarrow> bool" where
  "queries_at k qs b \<longleftrightarrow> k + length qs \<le> length (frames b) \<and>
     (\<forall>i < length qs. frames b ! (k + i) = Some \<lparr>frame = qs ! i\<rparr> \<and> tag (qs ! i) = PGSQL_SIMPLE_QUERY)"

definition answers_at :: "mt_env \<Rightarrow> answer list \<Rightarrow> pg_frames \<Rightarrow> bool" where
  "answers_at env as b \<longleftrightarrow>
     (let all = concat (map answer_msgs as); p = frame_current_pos b in
      frame_buf_size b \<le> length (frames b) \<and> p + length all \<le> frame_buf_size b \<and> list_all (is_answer env) as \<and>
      (\<forall>j < length all. frames b ! (p + j) = Some \<lparr>frame = all ! j\<rparr>))"

definition all_consumed :: "nat \<Rightarrow> nat \<Rightarrow> pg_frames \<Rightarrow> bool" where
  "all_consumed k n b \<longleftrightarrow> (\<forall>i. k \<le> i \<and> i < n \<longrightarrow> (\<exists>m. frames b ! i = Some \<lparr>frame = m\<rparr> \<and> consumed m))"

lemma queries_at_Cons:
  assumes "queries_at k (q # qs) b"
  shows "pgsql_get_frame_from_buf b k = Ok q" "tag q = PGSQL_SIMPLE_QUERY" "k < length (frames b)" "queries_at (k + 1) qs (put_msg b k m)"
proof -
  from assms have a: "\<And>i. i < Suc (length qs) \<Longrightarrow> frames b ! (k + i) = Some \<lparr>frame = (q # qs) ! i\<rparr> \<and> tag ((q # qs) ! i) = PGSQL_SIMPLE_QUERY"
    and l: "k + length (q # qs) \<le> length (frames b)" by (auto simp: queries_at_def)
  show "k < length (frames b)" "tag q = PGSQL_SIMPLE_QUERY" "pgsql_get_frame_from_buf b k = Ok q"
    using l a [of 0] by (auto simp: get_frame)
  have "frames b ! (k + 1 + i) = Some \<lparr>frame = qs ! i\<rparr> \<and> tag (qs ! i) = PGSQL_SIMPLE_QUERY" if "i < length qs" for i
    using a [of "Suc i"] that by simp
  then show "queries_at (k + 1) qs (put_msg b k m)" using l by (simp add: queries_at_def)
qed

lemma answers_at_Cons:
  assumes "answers_at env ((rows, d) # as) b"
  shows "is_answer env (rows, d)" "frame_current_pos b + length rows < frame_buf_size b" "frame_buf_size b \<le> length (frames b)"
    "j \<le> length rows \<Longrightarrow> frames b ! (frame_current_pos b + j) = Some \<lparr>frame = (rows @ [d]) ! j\<rparr>"
    "same_from (frame_current_pos b + length rows + 1) b b' \<Longrightarrow>
       answers_at env as (b'\<lparr>frame_current_pos := frame_current_pos b + length rows + 1\<rparr>)"
proof -
  let ?rest = "concat (map answer_msgs as)" and ?p = "frame_current_pos b"
  have a: "\<And>j. j < length ((rows @ [d]) @ ?rest) \<Longrightarrow> frames b ! (?p + j) = Some \<lparr>frame = ((rows @ [d]) @ ?rest) ! j\<rparr>"
    and l: "?p + length ((rows @ [d]) @ ?rest) \<le> frame_buf_size b" "frame_buf_size b \<le> length (frames b)"
    and o: "is_answer env (rows, d)" "list_all (is_answer env) as"
    using assms by (auto simp: answers_at_def answer_msgs_def Let_def)
  show "is_answer env (rows, d)" "?p + length rows < frame_buf_size b" "frame_buf_size b \<le> length (frames b)" using l o by simp_all
  show "frames b ! (?p + j) = Some \<lparr>frame = (rows @ [d]) ! j\<rparr>" if "j \<le> length rows" for j
    using a [of j] that by (simp add: nth_append)
  show "answers_at env as (b'\<lparr>frame_current_pos := ?p + length rows + 1\<rparr>)" if s: "same_from (?p + length rows + 1) b b'"
  proof -
    have "frames b' ! (?p + length rows + 1 + j) = Some \<lparr>frame = ?rest ! j\<rparr>" if "j < length ?rest" for j
      using a [of "length rows + 1 + j"] that s by (auto simp: same_from_def nth_append add.assoc)
    then show ?thesis using l o(2) s by (simp add: answers_at_def Let_def same_from_def)
  qed
qed

lemma init_query_ok: "(\<And>n. me_malloc env n) \<Longrightarrow> \<exists>r. init_pgsql_query_req_resp env = Some r"
  by (simp add: init_pgsql_query_req_resp_def init_pgsql_query_resp_def init_pgsql_cmd_complete_def init_pgsql_err_resp_def)

lemma match_one_query:
  assumes "\<And>n. me_malloc env n" "queries_at k (q # qs) (ms_req ms)" "answers_at env (a # as) (ms_rsp ms)"
    and "record_buf_size (ms_rec ms) < RECORD_BUF_SIZE"
  shows "\<exists>rsp. match_one env k ms = Ok (ms\<lparr>ms_req := consume (ms_req ms) k q, ms_rsp := rsp,
      ms_rec := (ms_rec ms)\<lparr>records := (records (ms_rec ms))[record_buf_size (ms_rec ms) := Some (hd (pairing k [q] [a]))],
                            record_buf_size := record_buf_size (ms_rec ms) + 1\<rparr>\<rparr>) \<and>
    answers_at env as rsp \<and> frame_buf_size rsp = frame_buf_size (ms_rsp ms)"
proof -
  obtain rows d where a: "a = (rows, d)" by (cases a)
  obtain r where r: "init_pgsql_query_req_resp env = Some r" using init_query_ok [of env] assms(1) by blast
  note an = answers_at_Cons [OF assms(3) [unfolded a]]
  obtain resp' b' where q: "pgsql_handle_query env (ms_rsp ms) r =
      Ok (STATE_SUCCESS, resp', b'\<lparr>frame_current_pos := frame_current_pos (ms_rsp ms) + length rows + 1\<rparr>)"
    "qr_timestamp_ns resp' = msg_timestamp_ns d" "same_from (frame_current_pos (ms_rsp ms) + length rows + 1) (ms_rsp ms) b'"
    using handle_query_answer [OF an(1) assms(1) an(3,2) an(4)] by blast
  have "answers_at env as (b'\<lparr>frame_current_pos := frame_current_pos (ms_rsp ms) + length rows + 1\<rparr>)" using q(3) by (rule an(5))
  then show ?thesis
    using queries_at_Cons(1,2) [OF assms(2)] assms(4) q
    by (intro exI [of _ "b'\<lparr>frame_current_pos := frame_current_pos (ms_rsp ms) + length rows + 1\<rparr>"])
      (simp add: match_one_def tag_defs handle_simple_query_def r finish_request_def pgsql_matcher_add_record_def assms(1) Let_def a
        consume_def same_from_def)
qed

lemma match_queries_loop:
  assumes "\<And>n. me_malloc env n" "queries_at k qs (ms_req ms)" "answers_at env as (ms_rsp ms)" "length as = length qs"
    and "record_buf_size (ms_rec ms) + length qs \<le> RECORD_BUF_SIZE" "length (records (ms_rec ms)) = RECORD_BUF_SIZE"
  shows "\<exists>ms'. match_loop env [k..<k + length qs] ms = Ok ms' \<and>
     take (record_buf_size (ms_rec ms')) (records (ms_rec ms')) =
       take (record_buf_size (ms_rec ms)) (records (ms_rec ms)) @ map Some (pairing k qs as) \<and>
     ms_rec ms' = (ms_rec ms)\<lparr>records := records (ms_rec ms'), record_buf_size := record_buf_size (ms_rec ms) + length qs\<rparr> \<and>
     frame_buf_size (ms_rsp ms') = frame_buf_size (ms_rsp ms) \<and> length (frames (ms_req ms')) = length (frames (ms_req ms)) \<and>
     frame_buf_size (ms_req ms') = frame_buf_size (ms_req ms) \<and> frame_current_pos (ms_req ms') = frame_current_pos (ms_req ms) \<and>
     (\<forall>i < k. frames (ms_req ms') ! i = frames (ms_req ms) ! i) \<and> all_consumed k (k + length qs) (ms_req ms')"
  using assms
proof (induction qs arbitrary: k as ms)
  case Nil
  then show ?case by (intro exI [of _ ms]) (auto simp: all_consumed_def)
next
  case (Cons q qs)
  from Cons.prems(4) obtain a as' where as: "as = a # as'" "length as' = length qs" by (cases as) auto
  let ?s = "record_buf_size (ms_rec ms)"
  let ?rb = "(ms_rec ms)\<lparr>records := (records (ms_rec ms))[?s := Some (hd (pairing k [q] [a]))], record_buf_size := ?s + 1\<rparr>"
  note qa = queries_at_Cons [OF Cons.prems(2)]
  obtain rsp where one: "match_one env k ms = Ok (ms\<lparr>ms_req := consume (ms_req ms) k q, ms_rsp := rsp, ms_rec := ?rb\<rparr>)"
    "answers_at env as' rsp" "frame_buf_size rsp = frame_buf_size (ms_rsp ms)"
    using match_one_query [OF Cons.prems(1,2) Cons.prems(3) [unfolded as]] Cons.prems(5) by auto
  let ?ms = "ms\<lparr>ms_req := consume (ms_req ms) k q, ms_rsp := rsp, ms_rec := ?rb\<rparr>"
  obtain ms' where l: "match_loop env [k + 1..<k + 1 + length qs] ?ms = Ok ms'"
    and t: "take (record_buf_size (ms_rec ms')) (records (ms_rec ms')) = take (?s + 1) (records ?rb) @ map Some (pairing (k + 1) qs as')"
    and rb: "ms_rec ms' = ?rb\<lparr>records := records (ms_rec ms'), record_buf_size := ?s + 1 + length qs\<rparr>"
    and f: "frame_buf_size (ms_rsp ms') = frame_buf_size rsp" "length (frames (ms_req ms')) = length (frames (ms_req ms))"
      "frame_buf_size (ms_req ms') = frame_buf_size (ms_req ms)" "frame_current_pos (ms_req ms') = frame_current_pos (ms_req ms)"
    and u: "\<forall>i < k + 1. frames (ms_req ms') ! i = frames (consume (ms_req ms) k q) ! i" "all_consumed (k + 1) (k + 1 + length qs) (ms_req ms')"
    using Cons.IH [of "k + 1" ?ms as', OF Cons.prems(1)] one(2) qa(4) [of "q\<lparr>consumed := True\<rparr>"] as(2) Cons.prems(5,6)
    by (auto simp: consume_def)
  have "[k..<k + length (q # qs)] = k # [k + 1..<k + 1 + length qs]" by (subst upt_conv_Cons) simp_all
  then have "match_loop env [k..<k + length (q # qs)] ms = Ok ms'" using one(1) l by simp
  moreover have "take (?s + 1) (records ?rb) = take ?s (records (ms_rec ms)) @ [Some (hd (pairing k [q] [a]))]"
    using Cons.prems(5,6) by (simp add: take_Suc_conv_app_nth)
  moreover have "all_consumed k (k + length (q # qs)) (ms_req ms')"
    unfolding all_consumed_def
  proof (intro allI impI)
    fix i assume i: "k \<le> i \<and> i < k + length (q # qs)"
    show "\<exists>m. frames (ms_req ms') ! i = Some \<lparr>frame = m\<rparr> \<and> consumed m"
      using i u qa(3) by (cases "i = k") (auto simp: all_consumed_def consume_def)
  qed
  ultimately show ?case using t rb f u one(3) by (intro exI [of _ ms']) (auto simp: as(1) consume_def intro: less_imp_neq)
qed

lemma unconsumed_index_all:
  assumes "all_consumed i (frame_buf_size b) b" "frame_buf_size b \<le> length (frames b)" "i \<le> frame_buf_size b"
  shows "unconsumed_index b i = Ok (frame_buf_size b)"
  using assms
proof (induction "frame_buf_size b - i" arbitrary: i)
  case 0 then show ?case by (simp add: unconsumed_index.simps)
next
  case (Suc n)
  then obtain m where "frames b ! i = Some \<lparr>frame = m\<rparr>" "consumed m" by (force simp: all_consumed_def)
  moreover have "unconsumed_index b (i + 1) = Ok (frame_buf_size b)" using Suc by (auto simp: all_consumed_def)
  moreover have "i < frame_buf_size b" "i < length (frames b)" using Suc.hyps(2) Suc.prems(2) by simp_all
  ultimately show ?case by (subst unconsumed_index.simps) (simp add: get_frame)
qed

text \<open>C15. A batch of simple queries and their answers is matched in order: one record per query, with the time of the message
  that ends its answer and the time between the two, whatever other messages the answers hold; no error is counted, all queries are
  consumed, and both buffers are left at their end.\<close>

theorem pgsql_match_queries:
  assumes "\<And>n. me_malloc env n" "qs \<noteq> []" "\<forall>q \<in> set qs. tag q = PGSQL_SIMPLE_QUERY"
    and "holds (ms_req ms) qs" "frame_current_pos (ms_req ms) = 0"
    and "holds (ms_rsp ms) (concat (map answer_msgs as) @ tail)" "frame_current_pos (ms_rsp ms) = 0"
    and "list_all (is_answer env) as" "length as = length qs" "length (records (ms_rec ms)) = RECORD_BUF_SIZE"
  shows "\<exists>ms'. pgsql_match_frames env ms = Ok ms' \<and>
     take (record_buf_size (ms_rec ms')) (records (ms_rec ms')) = map Some (pairing 0 qs as) \<and>
     record_buf_size (ms_rec ms') = length qs \<and> err_count (ms_rec ms') = 0 \<and>
     req_count (ms_rec ms') = length qs \<and> resp_count (ms_rec ms') = frame_buf_size (ms_rsp ms) \<and>
     frame_current_pos (ms_req ms') = length qs \<and> frame_current_pos (ms_rsp ms') = frame_buf_size (ms_rsp ms)"
proof -
  let ?rb = "(ms_rec ms)\<lparr>err_count := 0, record_buf_size := 0, req_count := frame_buf_size (ms_req ms), resp_count := frame_buf_size (ms_rsp ms)\<rparr>"
  let ?ms = "ms\<lparr>ms_rec := ?rb\<rparr>"
  have n: "frame_buf_size (ms_req ms) = length qs" "length qs \<le> FRAME_BUF_SIZE" "length (frames (ms_req ms)) = FRAME_BUF_SIZE"
    using assms(4) by (auto simp: holds_def)
  have "queries_at 0 qs (ms_req ?ms)" using assms(3,4) by (auto simp: queries_at_def holds_def)
  moreover have at: "answers_at env as (ms_rsp ?ms)" using assms(6-8) by (auto simp: answers_at_def holds_def Let_def nth_append)
  moreover have "record_buf_size (ms_rec ?ms) + length qs \<le> RECORD_BUF_SIZE" using n(2) by (simp add: RECORD_BUF_SIZE_def FRAME_BUF_SIZE_def)
  ultimately obtain ms' where l: "match_loop env [0..<length qs] ?ms = Ok ms'"
    and r: "take (record_buf_size (ms_rec ms')) (records (ms_rec ms')) = map Some (pairing 0 qs as)"
      "ms_rec ms' = ?rb\<lparr>records := records (ms_rec ms'), record_buf_size := length qs\<rparr>"
    and f: "frame_buf_size (ms_rsp ms') = frame_buf_size (ms_rsp ms)" "length (frames (ms_req ms')) = length (frames (ms_req ms))"
      "frame_buf_size (ms_req ms') = frame_buf_size (ms_req ms)" "frame_current_pos (ms_req ms') = frame_current_pos (ms_req ms)"
      "all_consumed 0 (length qs) (ms_req ms')"
    using match_queries_loop [of env 0 qs ?ms as] assms(1,9,10) by auto
  have "0 < frame_buf_size (ms_rsp ms)"
    using at assms(2,9) by (cases as) (auto simp: answers_at_def Let_def answer_msgs_def)
  moreover have "unconsumed_index (ms_req ms') 0 = Ok (length qs)"
    using unconsumed_index_all [of 0 "ms_req ms'"] f n by simp
  moreover have "record_buf_size (ms_rec ms') = length qs" "err_count (ms_rec ms') = 0" "req_count (ms_rec ms') = length qs"
    "resp_count (ms_rec ms') = frame_buf_size (ms_rsp ms)" using n(1) by (subst r(2); simp)+
  ultimately show ?thesis
    using l f n r(1) assms(2,5,7) by (simp add: pgsql_match_frames_def Let_def)
qed


section \<open>Safety of the message parsers\<close>

text \<open>A message after a parser has read it: only the position inside its payload differs.\<close>

definition kept :: "pgsql_regular_msg_s \<Rightarrow> pgsql_regular_msg_s \<Rightarrow> bool" where
  "kept m m' \<longleftrightarrow> m' = m\<lparr>payload_data := payload_data m'\<rparr> \<and> map_option data (payload_data m') = map_option data (payload_data m)"

text \<open>
  The messages the matcher can read: with a payload, a terminated text in a completion, and at most 1024 columns where the
  payload is read as a row description.
\<close>

definition cols_ok :: "byte list \<Rightarrow> bool" where
  "cols_ok bs \<longleftrightarrow> nat (sint (big_endian_bytes_to (take 2 bs) :: u16)) \<le> PGSQL_ROW_DESC_SIZE"

definition readable :: "pgsql_regular_msg_s \<Rightarrow> bool" where
  "readable m \<longleftrightarrow> (\<exists>p. payload_data m = Some p \<and> (tag m = PGSQL_CMD_COMPLETE \<longrightarrow> 0 \<in> set (data p)) \<and>
     (tag m = PGSQL_ROW_DESCRIPTION \<or> tag m = PGSQL_PARAMETER_DESCRIPTION \<longrightarrow> cols_ok (data p)))"

definition keeps_msg :: "pgsql_regular_msg_s \<Rightarrow> parse_state_t \<times> 'a \<times> pgsql_regular_msg_s \<Rightarrow> bool" where
  "keeps_msg m x = (case x of (st, out, m') \<Rightarrow> kept m m')"

lemma kept_refl [simp]: "kept m m" by (simp add: kept_def)

lemma kept_trans: "kept a b \<Longrightarrow> kept b c \<Longrightarrow> kept a c"
  unfolding kept_def by (metis pgsql_regular_msg_s.surjective pgsql_regular_msg_s.update_convs(4))

lemma kept_simps: "kept m m' \<Longrightarrow> tag m' = tag m \<and> consumed m' = consumed m \<and> msg_timestamp_ns m' = msg_timestamp_ns m"
  unfolding kept_def by (metis pgsql_regular_msg_s.select_convs pgsql_regular_msg_s.surjective pgsql_regular_msg_s.update_convs(4))

lemma readable_kept: "readable m \<Longrightarrow> kept m m' \<Longrightarrow> readable m'"
  using kept_simps [of m m'] by (auto simp: readable_def kept_def)

lemma moved_data: "moved r s \<Longrightarrow> data s = data r"
  unfolding moved_def by (metis raw_data_s.select_convs(4) raw_data_s.surjective raw_data_s.update_convs(3))

lemma keeps_returns: "payload_data m = Some p \<Longrightarrow> data p' = data p \<Longrightarrow> yields (keeps_msg m) (returns m st out p')"
  by (simp add: returns_def keeps_msg_def kept_def)

lemma keeps_with_payload:
  "(\<And>p. payload_data m = Some p \<Longrightarrow> yields (keeps_msg m) (f (p\<lparr>current_pos := 0\<rparr>))) \<Longrightarrow> yields (keeps_msg m) (with_payload m out f)"
  by (simp add: with_payload_def keeps_msg_def split: option.split)

lemma raw_ok_start [simp]: "raw_ok (p\<lparr>current_pos := 0\<rparr>)" by (simp add: raw_ok_def)

lemma keeps_dec:
  assumes "decode_safe r x" "raw_ok r" "payload_data m = Some p" "data r = data p"
    and "\<And>a s. raw_ok s \<Longrightarrow> data s = data p \<Longrightarrow> x = Ok (STATE_SUCCESS, Some a, s) \<Longrightarrow> yields (keeps_msg m) (f a s)"
  shows "yields (keeps_msg m) (dec x (\<lambda>st p. returns m st out p) f)"
  using assms(4) by (intro yields_dec [OF assms(1,2)]) (auto intro: keeps_returns [OF assms(3)] assms(5) simp: moved_data)

lemmas keeps_decs = keeps_dec [OF decode_safe_char] keeps_dec [OF decode_safe_until] keeps_dec [OF decode_safe_ints(2)]
  keeps_dec [OF decode_safe_ints(3)]

lemma skip_int16_data: "raw_ok r \<Longrightarrow> data r = D \<Longrightarrow> yields (\<lambda>(st, s). data s = D) (skip_int16 n r)"
proof (induction n arbitrary: r D)
  case (Suc n)
  show ?case unfolding skip_int16.simps
    using Suc.prems by (intro yields_dec [OF decode_safe_ints(2)]) (auto intro!: Suc.IH simp: moved_data)
qed simp

lemma skip_int32_data: "raw_ok r \<Longrightarrow> data r = D \<Longrightarrow> yields (\<lambda>(st, s). data s = D) (skip_int32 n r)"
proof (induction n arbitrary: r D)
  case (Suc n)
  show ?case unfolding skip_int32.simps
    using Suc.prems by (intro yields_dec [OF decode_safe_ints(3)]) (auto intro!: Suc.IH simp: moved_data)
qed simp

lemma keeps_after_skip:
  "payload_data m = Some p \<Longrightarrow> yields (\<lambda>(st, s). data s = data p) x \<Longrightarrow> yields (keeps_msg m) (after_skip m out x)"
  unfolding after_skip_def
  by (rule yields_bnd, erule yields_mono) (auto split: prod.split intro!: keeps_returns [of m p])

lemma err_fields_keeps: "raw_ok r \<Longrightarrow> payload_data m = Some p \<Longrightarrow> data r = data p \<Longrightarrow> yields (keeps_msg m) (err_fields malloc_ok m e r)"
proof (induction malloc_ok m e r rule: err_fields.induct)
  case (1 malloc_ok m e r)
  show ?case
  proof (cases "current_pos r < data_len r")
    case True
    show ?thesis unfolding err_fields.simps [of malloc_ok m e r] if_P [OF True]
    proof (rule keeps_dec [OF decode_safe_char [OF 1(2)] 1(2-4)])
      fix code r1 assume c: "raw_ok r1" "data r1 = data p" "decoder_extract_char r = Ok (STATE_SUCCESS, Some code, r1)"
      show "yields (keeps_msg m) (if code = 0
          then returns m (if current_pos r1 = data_len r1 then STATE_SUCCESS else STATE_INVALID) e (r1\<lparr>current_pos := 0\<rparr>)
          else dec (decoder_extract_str_until_char malloc_ok r1 0) (\<lambda>st p. returns m st e p) (\<lambda>val p2.
            err_fields malloc_ok m (if code = PGSQL_CODE then e\<lparr>pgsql_err_code := Some val\<rparr> else e) p2))"
        using c by (auto intro!: keeps_returns [OF 1(3)] keeps_dec [OF decode_safe_until [OF c(1)] c(1) 1(3) c(2)] 1(1) [OF True _ _ _ _ 1(3)])
    qed
  next
    case False
    then show ?thesis using 1(4) by (simp add: err_fields.simps [of malloc_ok m e r] keeps_returns [OF 1(3)])
  qed
qed

lemma err_resp_keeps: "yields (keeps_msg m) (pgsql_parse_err_resp malloc_ok m e)"
  unfolding pgsql_parse_err_resp_def Let_def by (rule keeps_with_payload, rule err_fields_keeps) auto

lemma param_desc_keeps: "yields (keeps_msg m) (pgsql_parse_param_desc m d)"
  unfolding pgsql_parse_param_desc_def Let_def
  by (rule keeps_with_payload, rule keeps_dec, rule decode_safe_ints) (auto intro!: keeps_after_skip skip_int32_data)


lemma parse_msg_keeps: "yields (keeps_msg m) (pgsql_parse_parse_msg malloc_ok m q)"
  unfolding pgsql_parse_parse_msg_def Let_def
  by (rule keeps_with_payload, intro keeps_decs keeps_after_skip; (assumption | simp | (rule skip_int32_data, assumption, assumption))?)

lemma bind_req_keeps: "yields (keeps_msg m) (pgsql_parse_bind_req malloc_ok m q)"
  unfolding pgsql_parse_bind_req_def Let_def
  by (rule keeps_with_payload, intro keeps_decs keeps_after_skip; (assumption | simp | (rule skip_int16_data, assumption, assumption))?)

lemma describe_keeps: "yields (keeps_msg m) (pgsql_parse_describe malloc_ok m q)"
  unfolding pgsql_parse_describe_def Let_def
  by (rule keeps_with_payload, intro keeps_decs; (assumption | simp | (rule keeps_returns, assumption, simp))?)

lemma row_field_data:
  assumes "raw_ok r" shows "yields (\<lambda>(st, f, s). raw_ok s \<and> data s = data r) (pgsql_extract_row_desc_field malloc_ok r f)"
  unfolding pgsql_extract_row_desc_field_def Let_def
  using assms by (intro yields_dec [OF decode_safe_until] yields_dec [OF decode_safe_ints(2)] yields_dec [OF decode_safe_ints(3)]) (auto simp: moved_data)

lemma row_desc_loop_keeps:
  "raw_ok r \<Longrightarrow> payload_data m = Some p \<Longrightarrow> data r = data p \<Longrightarrow> i + n \<le> PGSQL_ROW_DESC_SIZE \<Longrightarrow>
   yields (keeps_msg m) (row_desc_loop malloc_ok f0 m n i desc r)"
proof (induction n arbitrary: i desc r)
  case 0 then show ?case by (simp add: keeps_returns [of m p])
next
  case (Suc n)
  have "yields (keeps_msg m) (bnd (pgsql_extract_row_desc_field malloc_ok r (f0\<lparr>field_name := None\<rparr>)) (\<lambda>(st, f, p1).
        if st \<noteq> STATE_SUCCESS then returns m st desc p1
        else if i < PGSQL_ROW_DESC_SIZE
        then row_desc_loop malloc_ok f0 m n (i + 1)
          (desc\<lparr>row_desc_fields := (row_desc_fields desc)[i := Some f], row_desc_field_size := row_desc_field_size desc + 1\<rparr>) p1
        else UB))"
    by (rule yields_bnd, rule yields_mono [OF row_field_data [OF Suc.prems(1)]])
      (use Suc.prems in \<open>auto intro!: keeps_returns [of m p] Suc.IH\<close>)
  then show ?case using Suc.prems by (simp add: keeps_returns [of m p])
qed

lemma int16_start:
  "decoder_extract_int16_t (p\<lparr>current_pos := 0\<rparr>) = Ok (STATE_SUCCESS, Some c, r) \<Longrightarrow> c = big_endian_bytes_to (take 2 (data p))"
  by (auto simp: decoder_extract_int16_t_def decoder_extract_int_def rd_def split: if_splits)

lemma row_desc_keeps: "payload_data m = Some p \<Longrightarrow> cols_ok (data p) \<Longrightarrow> yields (keeps_msg m) (pgsql_parse_row_desc malloc_ok f0 m d)"
  unfolding pgsql_parse_row_desc_def Let_def
  by (rule keeps_with_payload, intro keeps_decs)
    (auto intro!: row_desc_loop_keeps simp: cols_ok_def dest!: int16_start)


section \<open>Safety of the matcher\<close>

text \<open>A buffer whose frames below its size are there and have the property.\<close>

definition buf_ok :: "(pgsql_regular_msg_s \<Rightarrow> bool) \<Rightarrow> pg_frames \<Rightarrow> bool" where
  "buf_ok P b \<longleftrightarrow> length (frames b) = FRAME_BUF_SIZE \<and> frame_buf_size b \<le> FRAME_BUF_SIZE \<and> frame_current_pos b \<le> frame_buf_size b \<and>
     (\<forall>i < frame_buf_size b. \<exists>m. frames b ! i = Some \<lparr>frame = m\<rparr> \<and> P m)"

text \<open>What every handler does to the responses: the position moves forward inside the buffer.\<close>

definition rsp_step :: "pg_frames \<Rightarrow> pg_frames \<Rightarrow> bool" where
  "rsp_step b b' \<longleftrightarrow> buf_ok readable b' \<and> frame_buf_size b' = frame_buf_size b \<and> frame_current_pos b \<le> frame_current_pos b'"

definition rsp_same :: "pg_frames \<Rightarrow> pg_frames \<Rightarrow> bool" where
  "rsp_same b b' \<longleftrightarrow> rsp_step b b' \<and> frame_current_pos b' = frame_current_pos b"

lemma readable_consumed [simp]: "readable (m\<lparr>consumed := c\<rparr>) \<longleftrightarrow> readable m" by (simp add: readable_def)

lemma buf_get:
  assumes "buf_ok P b" "i < frame_buf_size b"
  obtains m where "pgsql_get_frame_from_buf b i = Ok m" "P m" "i < length (frames b)"
proof -
  from assms obtain m where "frames b ! i = Some \<lparr>frame = m\<rparr>" "P m" by (auto simp: buf_ok_def)
  moreover have "i < length (frames b)" using assms by (auto simp: buf_ok_def)
  ultimately show ?thesis by (intro that [of m]) (simp_all add: get_frame)
qed

lemma buf_ok_put:
  assumes "buf_ok P b" "P m" shows "buf_ok P (put_msg b i m)"
proof -
  have "\<exists>m'. frames (put_msg b i m) ! j = Some \<lparr>frame = m'\<rparr> \<and> P m'" if "j < frame_buf_size b" for j
    using assms that by (cases "j = i") (auto simp: buf_ok_def)
  then show ?thesis using assms(1) by (simp add: buf_ok_def)
qed

lemma rsp_same_put: "buf_ok readable b \<Longrightarrow> readable m \<Longrightarrow> rsp_same b (put_msg b i m)"
  by (simp add: rsp_same_def rsp_step_def buf_ok_put)

lemma rsp_same_consume: "buf_ok readable b \<Longrightarrow> readable m \<Longrightarrow> rsp_same b (consume b i m)"
  by (simp add: consume_def rsp_same_put)

lemma rsp_same_trans: "rsp_same a b \<Longrightarrow> rsp_same b c \<Longrightarrow> rsp_same a c" by (simp add: rsp_same_def rsp_step_def)

lemma rsp_same_refl: "buf_ok readable b \<Longrightarrow> rsp_same b b" by (simp add: rsp_same_def rsp_step_def)

lemma rsp_same_step: "rsp_same b b' \<Longrightarrow> rsp_step b b'" by (simp add: rsp_same_def)

lemma rsp_same_pos: "rsp_same b b' \<Longrightarrow> frame_current_pos b \<le> n \<Longrightarrow> n \<le> frame_buf_size b \<Longrightarrow> rsp_step b (b'\<lparr>frame_current_pos := n\<rparr>)"
  by (simp add: rsp_same_def rsp_step_def buf_ok_def)

lemma keeps_Ok: "yields (keeps_msg m) x \<Longrightarrow> readable m \<Longrightarrow> \<exists>st out m'. x = Ok (st, out, m') \<and> readable m'"
  by (cases x) (auto simp: keeps_msg_def intro: readable_kept)

lemmas err_resp_Ok = keeps_Ok [OF err_resp_keeps]

lemma cmd_complete_Ok:
  "readable m \<Longrightarrow> tag m = PGSQL_CMD_COMPLETE \<Longrightarrow> (\<And>n. malloc_ok n) \<Longrightarrow> \<exists>st c'. pgsql_parse_cmd_complete malloc_ok m c = Ok (st, c')"
  by (auto simp: readable_def pgsql_parse_cmd_complete_def strlen_def)

lemma query_loop_safe:
  assumes "\<And>n. me_malloc env n" "buf_ok readable b" "\<forall>i \<in> set is. frame_current_pos b \<le> i \<and> i < frame_buf_size b"
  shows "yields (\<lambda>(ret, brk, found, resp, b'). rsp_same b b' \<and> (\<forall>i. brk = Some i \<longrightarrow> i \<in> set is)) (query_loop env is found resp b)"
  using assms(2,3)
proof (induction "is" arbitrary: found resp b)
  case Nil then show ?case by (simp add: rsp_same_refl)
next
  case (Cons i "is")
  obtain m where g: "pgsql_get_frame_from_buf b i = Ok m" "readable m" using buf_get [OF Cons.prems(1), of i] Cons.prems(2) by auto
  note same = rsp_same_refl [OF Cons.prems(1)] rsp_same_consume [OF Cons.prems(1)] rsp_same_put [OF Cons.prems(1)]
  have IH: "yields (\<lambda>(ret, brk, found, resp, b2). rsp_same b b2 \<and> (\<forall>j. brk = Some j \<longrightarrow> j \<in> set (i # is))) (query_loop env is found' resp' b')"
    if "rsp_same b b'" for found' resp' b'
    using that Cons.prems(2)
    by (intro yields_mono [OF Cons.IH [of b' found' resp']]) (auto simp: rsp_same_def rsp_step_def)
  show ?case
  proof (cases "tag m = PGSQL_CMD_COMPLETE")
    case True
    then show ?thesis using cmd_complete_Ok [where malloc_ok = "me_malloc env" and c = "qr_cmd_cmpl resp", OF g(2) True assms(1)] g same by (auto simp: tag_defs Let_def)
  next
    case False
    show ?thesis
    proof (cases "tag m = PGSQL_ERR_RETURN")
      case True
      then show ?thesis using err_resp_Ok [OF g(2), of "me_malloc env" "qr_err_resp resp"] g same by (auto simp: tag_defs Let_def)
    next
      case err: False
      show ?thesis using g(1) False err IH [OF same(1)] IH [OF same(2) [OF g(2)]] same(2) [OF g(2)] by (simp add: Let_def)
    qed
  qed
qed

lemma fill_loop_safe:
  assumes "\<And>n. me_malloc env n" "buf_ok readable b" "\<forall>i \<in> set is. frame_current_pos b \<le> i \<and> i < frame_buf_size b"
  shows "yields (\<lambda>(ret, brk, row, fin, resp, b'). rsp_same b b' \<and> (\<forall>i. brk = Some i \<longrightarrow> i \<in> set is)) (fill_loop env is row resp b)"
  using assms(2,3)
proof (induction "is" arbitrary: row resp b)
  case Nil then show ?case by (simp add: rsp_same_refl)
next
  case (Cons i "is")
  obtain m where g: "pgsql_get_frame_from_buf b i = Ok m" "readable m" using buf_get [OF Cons.prems(1), of i] Cons.prems(2) by auto
  note same = rsp_same_refl [OF Cons.prems(1)] rsp_same_consume [OF Cons.prems(1)] rsp_same_put [OF Cons.prems(1)]
  have IH: "yields (\<lambda>(ret, brk, row, fin, resp, b2). rsp_same b b2 \<and> (\<forall>j. brk = Some j \<longrightarrow> j \<in> set (i # is))) (fill_loop env is row' resp' b')"
    if "rsp_same b b'" for row' resp' b'
    using that Cons.prems(2)
    by (intro yields_mono [OF Cons.IH [of b' row' resp']]) (auto simp: rsp_same_def rsp_step_def)
  show ?case
  proof (cases "tag m = PGSQL_CMD_COMPLETE")
    case True
    then show ?thesis using cmd_complete_Ok [where malloc_ok = "me_malloc env" and c = "qr_cmd_cmpl resp", OF g(2) True assms(1)] g same by (auto simp: tag_defs Let_def)
  next
    case False
    show ?thesis
    proof (cases "tag m = PGSQL_ERR_RETURN")
      case True
      then show ?thesis using err_resp_Ok [OF g(2), of "me_malloc env" "qr_err_resp resp"] g same by (auto simp: tag_defs Let_def)
    next
      case err: False
      show ?thesis using g(1) False err IH [OF same(1)] IH [OF same(2) [OF g(2)]] by (simp add: Let_def)
    qed
  qed
qed

lemma move_pos_step:
  assumes "rsp_same b b'" "buf_ok readable b" "\<forall>i. brk = Some i \<longrightarrow> frame_current_pos b \<le> i \<and> i < frame_buf_size b"
  shows "rsp_step b (move_pos brk b')"
proof -
  have "frame_current_pos b \<le> frame_buf_size b" using assms(2) by (simp add: buf_ok_def)
  then show ?thesis
    using assms(1,3) unfolding move_pos_def Let_def
    by (intro rsp_same_pos [OF assms(1)]) (auto simp: rsp_same_def rsp_step_def split: option.split)
qed

lemma handle_query_safe:
  assumes "\<And>n. me_malloc env n" "buf_ok readable b"
  shows "yields (\<lambda>(st, resp, b'). rsp_step b b') (pgsql_handle_query env b resp)"
  unfolding pgsql_handle_query_def
  by (rule yields_bnd, rule yields_mono [OF query_loop_safe [of env b "[frame_current_pos b..<frame_buf_size b]", OF assms]])
    (use assms(2) in \<open>auto intro: move_pos_step rsp_same_step split: option.split\<close>)

lemma fill_query_safe:
  assumes "\<And>n. me_malloc env n" "buf_ok readable b"
  shows "yields (\<lambda>(st, resp, b'). rsp_step b b') (pgsql_fill_query_resp env b resp)"
  unfolding pgsql_fill_query_resp_def
  by (rule yields_bnd, rule yields_mono [OF fill_loop_safe [of env b "[frame_current_pos b..<frame_buf_size b]", OF assms]])
    (use assms(2) in \<open>auto intro: move_pos_step rsp_same_step split: option.split\<close>)

lemma first_tag_safe:
  assumes "buf_ok readable b" "\<forall>i \<in> set is. i < frame_buf_size b"
  shows "yields (\<lambda>r. \<forall>i. r = Some i \<longrightarrow> i \<in> set is \<and> (\<forall>m. pgsql_get_frame_from_buf b i = Ok m \<longrightarrow> tag m \<in> set tags)) (first_tag tags b is)"
  using assms(2)
proof (induction "is")
  case (Cons i "is")
  obtain m where "pgsql_get_frame_from_buf b i = Ok m" using buf_get [OF assms(1), of i] Cons.prems by auto
  then show ?case using Cons.prems by (auto intro: yields_mono [OF Cons.IH])
qed simp

text \<open>The search ends at the end of the buffer or at a frame that is there and has one of the tags.\<close>

lemma find_first_tag_safe:
  assumes "buf_ok readable b"
  shows "\<exists>i. pgsql_find_first_tag b tags = Ok i \<and> frame_current_pos b \<le> i \<and> i \<le> frame_buf_size b \<and>
     (i \<noteq> frame_buf_size b \<longrightarrow> (\<exists>m. pgsql_get_frame_from_buf b i = Ok m \<and> readable m \<and> tag m \<in> set tags))"
proof -
  have p: "frame_current_pos b \<le> frame_buf_size b" using assms by (simp add: buf_ok_def)
  obtain r where r: "first_tag tags b [frame_current_pos b..<frame_buf_size b] = Ok r"
    "\<forall>i. r = Some i \<longrightarrow> frame_current_pos b \<le> i \<and> i < frame_buf_size b \<and> (\<forall>m. pgsql_get_frame_from_buf b i = Ok m \<longrightarrow> tag m \<in> set tags)"
    using first_tag_safe [OF assms, of "[frame_current_pos b..<frame_buf_size b]" tags]
    by (cases "first_tag tags b [frame_current_pos b..<frame_buf_size b]") auto
  show ?thesis
  proof (cases r)
    case None then show ?thesis using r p by (simp add: pgsql_find_first_tag_def)
  next
    case (Some i)
    then obtain m where "pgsql_get_frame_from_buf b i = Ok m" "readable m" using r(2) by (auto elim: buf_get [OF assms])
    then show ?thesis using r Some by (auto simp: pgsql_find_first_tag_def)
  qed
qed


lemma rsp_step_put: "rsp_step b b' \<Longrightarrow> readable m \<Longrightarrow> rsp_step b (put_msg b' i m)"
  by (simp add: rsp_step_def buf_ok_put)

lemma rsp_step_consume: "rsp_step b b' \<Longrightarrow> readable m \<Longrightarrow> rsp_step b (consume b' i m)"
  by (simp add: consume_def rsp_step_put)

lemma rsp_step_pos: "rsp_step b b' \<Longrightarrow> frame_current_pos b \<le> n \<Longrightarrow> n \<le> frame_buf_size b \<Longrightarrow> rsp_step b (b'\<lparr>frame_current_pos := n\<rparr>)"
  by (simp add: rsp_step_def buf_ok_def)

lemma rsp_step_refl: "buf_ok readable b \<Longrightarrow> rsp_step b b" by (simp add: rsp_step_def)

lemmas rsp_steps = rsp_step_put rsp_step_consume rsp_step_pos rsp_step_refl

lemma set_error_msg_Ok: "readable m \<Longrightarrow> \<exists>st r' m'. set_error_msg env r ty m = Ok (st, r', m') \<and> readable m'"
proof (cases "init_pgsql_err_resp env")
  case (Some e)
  assume "readable m"
  then obtain st e' m' where "pgsql_parse_err_resp (me_malloc env) m e = Ok (st, e', m')" "readable m'" using err_resp_Ok by blast
  then show ?thesis using Some by (simp add: set_error_msg_def)
qed (simp add: set_error_msg_def)

lemma find_tag_cases:
  assumes "buf_ok readable b"
  obtains (none) "pgsql_find_first_tag b tags = Ok (frame_buf_size b)"
  | (found) i m where "pgsql_find_first_tag b tags = Ok i" "i < frame_buf_size b" "frame_current_pos b \<le> i" "pgsql_get_frame_from_buf b i = Ok m"
      "readable m" "tag m \<in> set tags" "rsp_step b (b\<lparr>frame_current_pos := i + 1\<rparr>)"
proof -
  obtain i where i: "pgsql_find_first_tag b tags = Ok i" "frame_current_pos b \<le> i" "i \<le> frame_buf_size b"
    "i \<noteq> frame_buf_size b \<longrightarrow> (\<exists>m. pgsql_get_frame_from_buf b i = Ok m \<and> readable m \<and> tag m \<in> set tags)"
    using find_first_tag_safe [OF assms, of tags] by blast
  show thesis
  proof (cases "i = frame_buf_size b")
    case True then show thesis using i(1) none by simp
  next
    case False
    then obtain m where "pgsql_get_frame_from_buf b i = Ok m" "readable m" "tag m \<in> set tags" using i(4) by blast
    moreover have "rsp_step b (b\<lparr>frame_current_pos := i + 1\<rparr>)" using i(2,3) False by (intro rsp_steps assms) simp_all
    ultimately show thesis using found i False by force
  qed
qed

lemma combo_response_safe:
  assumes "\<And>n. me_malloc env n" "buf_ok readable b"
  shows "yields (\<lambda>(st, r, b'). rsp_step b b' \<and> r \<noteq> None) (combo_response env ty text b (Some r0))"
  using assms(2)
proof (cases rule: find_tag_cases [where tags = "[ty, PGSQL_ERR_RETURN]"])
  case none then show ?thesis using rsp_step_refl [OF assms(2)] by (simp add: combo_response_def)
next
  case (found i m)
  obtain st r' m' where e: "set_error_msg env (r0\<lparr>cr_timestamp_ns := msg_timestamp_ns m\<rparr>) ty m = Ok (st, r', m')" "readable m'"
    using set_error_msg_Ok [OF found(5)] by blast
  show ?thesis using rsp_step_consume [OF found(7)] rsp_step_put [OF found(7)] found e by (simp add: combo_response_def Let_def split: prod.split)
qed

lemma portal_desc_safe:
  assumes "buf_ok readable b"
  shows "yields (\<lambda>(st, d, b'). rsp_step b b') (pgsql_fill_portal_desc_resp env b d)"
  using assms
proof (cases rule: find_tag_cases [where tags = "[PGSQL_PARAMETER_DESCRIPTION, PGSQL_ERR_RETURN]"])
  case none then show ?thesis using rsp_step_refl [OF assms] by (simp add: pgsql_fill_portal_desc_resp_def)
next
  case (found i m)
  show ?thesis
  proof (cases "tag m = PGSQL_ERR_RETURN")
    case True
    then show ?thesis using err_resp_Ok [OF found(5), of "me_malloc env" "dr_err_resp d"] found(1,2,4) rsp_step_put [OF found(7)]
      by (auto simp: pgsql_fill_portal_desc_resp_def Let_def)
  next
    case row: False
    then have "tag m = PGSQL_PARAMETER_DESCRIPTION" using found(6) by simp
    then obtain p where "payload_data m = Some p" "cols_ok (data p)" using found(5) by (auto simp: readable_def)
    then show ?thesis using keeps_Ok [OF row_desc_keeps found(5), of p "me_malloc env" "me_field env" "dr_row_desc d"] found(1,2,4) row
        rsp_step_put [OF found(7)]
      by (auto simp: pgsql_fill_portal_desc_resp_def Let_def)
  qed
qed

text \<open>The frame behind a parameter description.\<close>

lemma stmt_rows_safe:
  assumes "rsp_step b b'" "j < frame_buf_size b" "frame_current_pos b \<le> j"
  shows "yields (\<lambda>(st, d, b'). rsp_step b b') (let rsp = b'\<lparr>frame_current_pos := j + 1\<rparr> in
      bnd (pgsql_get_frame_from_buf rsp j) (\<lambda>row.
        if tag row = PGSQL_ROW_DESCRIPTION then
          bnd (pgsql_parse_row_desc (me_malloc env) (me_field env) row (dr_row_desc d)) (\<lambda>(st, rd, row).
            Ok (st, d\<lparr>dr_row_desc := rd\<rparr>, if st = STATE_SUCCESS then consume rsp j row else put_msg rsp j row))
        else if tag row = PGSQL_NO_DATA then
          Ok (STATE_SUCCESS, d\<lparr>dr_is_no_data := True\<rparr>, consume rsp j row)
        else Ok (STATE_INVALID, d, rsp)))"
proof -
  let ?rsp = "b'\<lparr>frame_current_pos := j + 1\<rparr>"
  have s: "rsp_step b ?rsp" using assms by (intro rsp_steps) simp_all
  then have "buf_ok readable ?rsp" "j < frame_buf_size ?rsp" using assms(2) by (auto simp: rsp_step_def)
  then obtain m where m: "pgsql_get_frame_from_buf ?rsp j = Ok m" "readable m" by (rule buf_get)
  show ?thesis
  proof (cases "tag m = PGSQL_ROW_DESCRIPTION")
    case True
    then obtain p where "payload_data m = Some p" "cols_ok (data p)" using m(2) by (auto simp: readable_def)
    then show ?thesis using keeps_Ok [OF row_desc_keeps m(2), of p "me_malloc env" "me_field env" "dr_row_desc d"] m(1) True
        rsp_step_put [OF s] rsp_step_consume [OF s] by (auto simp: Let_def)
  next
    case False
    then show ?thesis using m s rsp_step_consume [OF s m(2)] by (simp add: Let_def)
  qed
qed

lemma stmt_desc_safe:
  assumes "buf_ok readable b"
  shows "yields (\<lambda>(st, d, b'). rsp_step b b') (pgsql_fill_stmt_desc_resp env b d)"
  using assms
proof (cases rule: find_tag_cases [where tags = "[PGSQL_PARAMETER_DESCRIPTION, PGSQL_ERR_RETURN]"])
  case none then show ?thesis using rsp_step_refl [OF assms] by (simp add: pgsql_fill_stmt_desc_resp_def)
next
  case (found i m)
  show ?thesis
  proof (cases "tag m = PGSQL_ERR_RETURN")
    case True
    then show ?thesis using err_resp_Ok [OF found(5), of "me_malloc env" "dr_err_resp d"] found(1,2,4) rsp_step_put [OF found(7)]
        rsp_step_consume [OF found(7)]
      by (auto simp: pgsql_fill_stmt_desc_resp_def Let_def)
  next
    case param: False
    obtain st pd m' where p: "pgsql_parse_param_desc m (dr_param_desc d) = Ok (st, pd, m')" "readable m'"
      using keeps_Ok [OF param_desc_keeps found(5)] by blast
    have s: "rsp_step b (put_msg (b\<lparr>frame_current_pos := i + 1\<rparr>) i m')" using found(7) p(2) by (rule rsp_step_put)
    show ?thesis
    proof (cases "st = STATE_SUCCESS \<and> i + 1 \<noteq> frame_buf_size b")
      case True
      then have "i + 1 < frame_buf_size b" using found(2) by simp
      from stmt_rows_safe [OF s this] show ?thesis
        using True found(1-4) param p by (simp add: pgsql_fill_stmt_desc_resp_def Let_def)
    next
      case False
      then show ?thesis using found(1,2,4) param p s by (auto simp: pgsql_fill_stmt_desc_resp_def Let_def)
    qed
  qed
qed


text \<open>
  The records of one call: at most one per request, in the order of the requests; \<open>k\<close> is the request the loop is at.
\<close>

definition recs_ok :: "nat \<Rightarrow> nat \<Rightarrow> record_buf_s \<Rightarrow> bool" where
  "recs_ok lo k rb \<longleftrightarrow> length (records rb) = RECORD_BUF_SIZE \<and> record_buf_size rb + err_count rb \<le> k - lo \<and>
     (\<exists>rs. take (record_buf_size rb) (records rb) = map Some rs \<and> sorted_wrt (<) (map rec_req rs) \<and> (\<forall>r \<in> set rs. lo \<le> rec_req r \<and> rec_req r < k))"

definition match_ok :: "nat \<Rightarrow> nat \<Rightarrow> match_state \<Rightarrow> match_state \<Rightarrow> bool" where
  "match_ok lo k ms ms' \<longleftrightarrow> buf_ok (\<lambda>_. True) (ms_req ms') \<and> frame_buf_size (ms_req ms') = frame_buf_size (ms_req ms) \<and>
     frame_current_pos (ms_req ms') = frame_current_pos (ms_req ms) \<and> rsp_step (ms_rsp ms) (ms_rsp ms') \<and> recs_ok lo k (ms_rec ms')"

lemma recs_ok_mono: "recs_ok lo k rb \<Longrightarrow> k \<le> k' \<Longrightarrow> recs_ok lo k' rb"
  unfolding recs_ok_def by (meson diff_le_mono dual_order.trans order_less_le_trans)

lemma recs_ok_err: "recs_ok lo k rb \<Longrightarrow> lo \<le> k \<Longrightarrow> recs_ok lo (k + 1) (rb\<lparr>err_count := err_count rb + 1\<rparr>)"
  using recs_ok_mono [of lo k rb "k + 1"] unfolding recs_ok_def by fastforce

lemma recs_ok_add:
  assumes "recs_ok lo k rb" "lo \<le> k" "record_buf_size rb < RECORD_BUF_SIZE" "rec_req r = k"
  shows "recs_ok lo (k + 1) (rb\<lparr>records := (records rb)[record_buf_size rb := Some r], record_buf_size := record_buf_size rb + 1\<rparr>)"
proof -
  obtain rs where rs: "take (record_buf_size rb) (records rb) = map Some rs" "sorted_wrt (<) (map rec_req rs)"
    "\<forall>r \<in> set rs. lo \<le> rec_req r \<and> rec_req r < k" and l: "length (records rb) = RECORD_BUF_SIZE" "record_buf_size rb + err_count rb \<le> k - lo"
    using assms(1) by (auto simp: recs_ok_def)
  have "take (record_buf_size rb + 1) ((records rb)[record_buf_size rb := Some r]) = map Some (rs @ [r])"
    using rs(1) l assms(3) by (simp add: take_Suc_conv_app_nth)
  then show ?thesis
    using rs l assms(2,4) by (auto simp: recs_ok_def sorted_wrt_append less_Suc_eq intro!: exI [of _ "rs @ [r]"])
qed

lemma finish_safe:
  assumes "\<And>n. me_malloc env n" "match_ok lo k ms0 ms" "lo \<le> k" "k < FRAME_BUF_SIZE" "rsp_step (ms_rsp ms) rsp"
  shows "yields (match_ok lo (k + 1) ms0) (finish_request env k st req ts rsp ms)"
proof -
  have r: "recs_ok lo k (ms_rec ms)" and s: "rsp_step (ms_rsp ms0) rsp" and b: "buf_ok (\<lambda>_. True) (ms_req ms)"
    using assms(2,5) by (auto simp: match_ok_def rsp_step_def)
  have "record_buf_size (ms_rec ms) < RECORD_BUF_SIZE"
    using r assms(4) by (auto simp: recs_ok_def FRAME_BUF_SIZE_def RECORD_BUF_SIZE_def)
  then show ?thesis
    using recs_ok_add [OF r assms(3)] recs_ok_err [OF r assms(3)] s b assms(2)
    by (simp add: finish_request_def pgsql_matcher_add_record_def assms(1) Let_def match_ok_def buf_ok_put)
qed

lemma init_all:
  assumes "\<And>n. me_malloc env n"
  shows "\<exists>r. init_pgsql_query_req_resp env = Some r" "\<exists>r. init_pgsql_execute_req_resp env = Some r" "\<exists>r. init_pgsql_parse_req_resp env = Some r"
    "\<exists>r. init_pgsql_bind_req_resp env = Some r" "\<exists>q r. init_pgsql_describe_req_resp env = Some (q, r)"
    "\<exists>r. init_pgsql_parse_req env = Some r" "\<exists>r. init_pgsql_bind_req env = Some r"
  by (simp_all add: assms init_pgsql_query_req_resp_def init_pgsql_query_resp_def init_pgsql_cmd_complete_def init_pgsql_err_resp_def
      init_pgsql_execute_req_resp_def init_pgsql_parse_req_resp_def init_pgsql_parse_req_def init_pgsql_combo_resp_def
      init_pgsql_bind_req_resp_def init_pgsql_bind_req_def init_pgsql_describe_req_resp_def init_pgsql_describe_req_def init_pgsql_describe_resp_def)

lemma yields_then: "yields P m \<Longrightarrow> (\<And>x. P x \<Longrightarrow> yields Q (f x)) \<Longrightarrow> yields Q (bnd m f)"
  by (cases m) simp_all

text \<open>A handler whose response step is safe, for the five kinds of requests.\<close>

lemma handlers_safe:
  assumes "\<And>n. me_malloc env n" "match_ok lo k ms0 ms" "lo \<le> k" "k < FRAME_BUF_SIZE" "buf_ok readable (ms_rsp ms)"
  shows "yields (match_ok lo (k + 1) ms0) (handle_simple_query env k req ms)"
    "yields (match_ok lo (k + 1) ms0) (handle_execute_req env k req ms)"
    "yields (match_ok lo (k + 1) ms0) (handle_parse_req env k req ms)"
    "yields (match_ok lo (k + 1) ms0) (handle_bind_req env k req ms)"
    "yields (match_ok lo (k + 1) ms0) (handle_describe_req env k req ms)"
proof -
  note M = assms(1) and fin = finish_safe [OF assms(1-4), simplified] and rsp = assms(5)
  obtain q x p b dq dr pr br where init: "init_pgsql_query_req_resp env = Some q" "init_pgsql_execute_req_resp env = Some x"
    "init_pgsql_parse_req_resp env = Some p" "init_pgsql_bind_req_resp env = Some b" "init_pgsql_describe_req_resp env = Some (dq, dr)"
    "init_pgsql_parse_req env = Some pr" "init_pgsql_bind_req env = Some br"
    using init_all [OF M] by blast
  show "yields (match_ok lo (k + 1) ms0) (handle_simple_query env k req ms)"
    unfolding handle_simple_query_def init option.case by (rule yields_then [OF handle_query_safe [OF M rsp]]) (auto intro: fin)
  show "yields (match_ok lo (k + 1) ms0) (handle_execute_req env k req ms)"
    unfolding handle_execute_req_def pgsql_handle_execute_def init option.case
    by (rule yields_then [OF fill_query_safe [OF M rsp]]) (auto intro: fin)
  have combo: "yields (\<lambda>(st, m, r, b'). rsp_step (ms_rsp ms) b' \<and> r \<noteq> None) (bnd (combo_response env ty ct (ms_rsp ms) (Some c)) (\<lambda>(st, resp, rsp). Ok (st, m, resp, rsp)))"
    for ty ct c and m :: pgsql_regular_msg_s by (rule yields_then [OF combo_response_safe [OF M rsp]]) auto
  have parse: "yields (\<lambda>(st, m, r, b'). rsp_step (ms_rsp ms) b' \<and> r \<noteq> None) (pgsql_handle_parse env req (ms_rsp ms) (Some p))"
    unfolding pgsql_handle_parse_def init option.case
    by (rule yields_then [OF parse_msg_keeps]) (use combo in \<open>simp add: rsp_step_refl [OF rsp] split: prod.split\<close>)
  then show "yields (match_ok lo (k + 1) ms0) (handle_parse_req env k req ms)"
    unfolding handle_parse_req_def init by (rule yields_then) (auto intro: fin)
  have bind: "yields (\<lambda>(st, m, r, b'). rsp_step (ms_rsp ms) b' \<and> r \<noteq> None) (pgsql_handle_bind env req (ms_rsp ms) (Some b))"
    unfolding pgsql_handle_bind_def init option.case
    by (rule yields_then [OF bind_req_keeps]) (use combo in \<open>simp add: rsp_step_refl [OF rsp] split: prod.split\<close>)
  then show "yields (match_ok lo (k + 1) ms0) (handle_bind_req env k req ms)"
    unfolding handle_bind_req_def init by (rule yields_then) (auto intro: fin)
  have "yields (\<lambda>(st, m, d, b'). rsp_step (ms_rsp ms) b') (bnd (pgsql_fill_stmt_desc_resp env (ms_rsp ms) d) (\<lambda>(st, d, rsp). Ok (st, m, d, rsp)))"
    "yields (\<lambda>(st, m, d, b'). rsp_step (ms_rsp ms) b') (bnd (pgsql_fill_portal_desc_resp env (ms_rsp ms) d) (\<lambda>(st, d, rsp). Ok (st, m, d, rsp)))"
    for d and m :: pgsql_regular_msg_s
    by (rule yields_then [OF stmt_desc_safe [OF rsp]], auto) (rule yields_then [OF portal_desc_safe [OF rsp]], auto)
  then have "yields (\<lambda>(st, m, d, b'). rsp_step (ms_rsp ms) b') (pgsql_handle_describe env req (ms_rsp ms) (dq, dr))"
    unfolding pgsql_handle_describe_def
    by (intro yields_then [OF describe_keeps]) (simp add: rsp_step_refl [OF rsp] split: prod.split)
  then show "yields (match_ok lo (k + 1) ms0) (handle_describe_req env k req ms)"
    unfolding handle_describe_req_def init option.case by (rule yields_then) (auto intro: fin)
qed

lemma match_one_safe:
  assumes "\<And>n. me_malloc env n" "match_ok lo k ms0 ms" "lo \<le> k" "k < frame_buf_size (ms_req ms0)"
  shows "yields (match_ok lo (k + 1) ms0) (match_one env k ms)"
proof -
  have b: "buf_ok (\<lambda>_. True) (ms_req ms)" "k < frame_buf_size (ms_req ms)" and rsp: "buf_ok readable (ms_rsp ms)"
    using assms(2,4) by (auto simp: match_ok_def rsp_step_def)
  have "k < FRAME_BUF_SIZE" using b by (auto simp: buf_ok_def)
  note h = handlers_safe [OF assms(1-3) this rsp]
  obtain req where g: "pgsql_get_frame_from_buf (ms_req ms) k = Ok req" using buf_get [OF b] by blast
  have stay: "match_ok lo (k + 1) ms0 ms" using assms(2) recs_ok_mono [of lo k "ms_rec ms" "k + 1"] by (simp add: match_ok_def)
  show ?thesis using h [of req] stay by (simp add: match_one_def g Let_def)
qed

lemma match_loop_safe:
  assumes "\<And>n. me_malloc env n" "match_ok lo k ms0 ms" "lo \<le> k" "k \<le> frame_buf_size (ms_req ms0)"
  shows "yields (match_ok lo (frame_buf_size (ms_req ms0)) ms0) (match_loop env [k..<frame_buf_size (ms_req ms0)] ms)"
  using assms(2-4)
proof (induction "frame_buf_size (ms_req ms0) - k" arbitrary: k ms)
  case 0 then show ?case by simp
next
  case (Suc n)
  then have u: "[k..<frame_buf_size (ms_req ms0)] = k # [k + 1..<frame_buf_size (ms_req ms0)]" by (simp add: upt_conv_Cons)
  show ?case unfolding u match_loop.simps
    by (rule yields_then [OF match_one_safe [OF assms(1) Suc.prems(1,2)]]) (use Suc in auto)
qed

lemma unconsumed_index_safe:
  assumes "buf_ok P b" "i \<le> frame_buf_size b"
  shows "yields (\<lambda>u. i \<le> u \<and> u \<le> frame_buf_size b) (unconsumed_index b i)"
  using assms(2)
proof (induction "frame_buf_size b - i" arbitrary: i)
  case 0 then show ?case by (simp add: unconsumed_index.simps)
next
  case (Suc n)
  then have i: "i < frame_buf_size b" by simp
  then obtain m where "pgsql_get_frame_from_buf b i = Ok m" "i < length (frames b)" using buf_get [OF assms(1)] by blast
  moreover have "yields (\<lambda>u. i \<le> u \<and> u \<le> frame_buf_size b) (unconsumed_index b (i + 1))"
    using Suc by (intro yields_mono [OF Suc.hyps(1)]) auto
  ultimately show ?case using i by (subst unconsumed_index.simps) simp
qed

text \<open>Matching is safe on any frames a connection can bring: with memory to allocate, requests of whatever content, and responses with a
  payload that is terminated where the code takes it for a string and names at most 1024 columns, \<open>pgsql_match_frames\<close> returns without
  leaving any array, the record array included although its test for room is off by one; it makes at most one record or one error
  per request, the records in the order of the requests, and the positions move forward inside the buffers.\<close>

theorem pgsql_match_safe:
  assumes "\<And>n. me_malloc env n" "buf_ok (\<lambda>_. True) (ms_req ms)" "buf_ok readable (ms_rsp ms)" "length (records (ms_rec ms)) = RECORD_BUF_SIZE"
  shows "\<exists>ms'. pgsql_match_frames env ms = Ok ms' \<and>
     recs_ok (frame_current_pos (ms_req ms)) (frame_buf_size (ms_req ms)) (ms_rec ms') \<and>
     buf_ok (\<lambda>_. True) (ms_req ms') \<and> frame_buf_size (ms_req ms') = frame_buf_size (ms_req ms) \<and>
     frame_current_pos (ms_req ms) \<le> frame_current_pos (ms_req ms') \<and> rsp_step (ms_rsp ms) (ms_rsp ms')"
proof -
  let ?ms = "ms\<lparr>ms_rec := (ms_rec ms)\<lparr>err_count := 0, record_buf_size := 0, req_count := frame_buf_size (ms_req ms), resp_count := frame_buf_size (ms_rsp ms)\<rparr>\<rparr>"
  let ?p = "frame_current_pos (ms_req ms)" and ?n = "frame_buf_size (ms_req ms)"
  have p: "?p \<le> ?n" using assms(2) by (simp add: buf_ok_def)
  have i: "match_ok ?p ?p ?ms ?ms" using assms(2-4) by (simp add: match_ok_def recs_ok_def rsp_step_refl)
  then have "yields (match_ok ?p ?n ?ms) (if frame_current_pos (ms_rsp ms) < frame_buf_size (ms_rsp ms) then match_loop env [?p..<?n] ?ms else Ok ?ms)"
    using match_loop_safe [OF assms(1) i] p recs_ok_mono [OF _ p] by (auto simp: match_ok_def)
  then have "yields (\<lambda>ms'. recs_ok ?p ?n (ms_rec ms') \<and> buf_ok (\<lambda>_. True) (ms_req ms') \<and> frame_buf_size (ms_req ms') = ?n \<and>
     ?p \<le> frame_current_pos (ms_req ms') \<and> rsp_step (ms_rsp ms) (ms_rsp ms')) (pgsql_match_frames env ms)"
    unfolding pgsql_match_frames_def Let_def
  proof (rule yields_then)
    fix ms' assume m: "match_ok ?p ?n ?ms ms'"
    then have "yields (\<lambda>u. ?p \<le> u \<and> u \<le> ?n) (unconsumed_index (ms_req ms') (frame_current_pos (ms_req ms')))"
      using unconsumed_index_safe [of "\<lambda>_. True" "ms_req ms'"] p by (auto simp: match_ok_def)
    then show "yields (\<lambda>ms'. recs_ok ?p ?n (ms_rec ms') \<and> buf_ok (\<lambda>_. True) (ms_req ms') \<and> frame_buf_size (ms_req ms') = ?n \<and>
        ?p \<le> frame_current_pos (ms_req ms') \<and> rsp_step (ms_rsp ms) (ms_rsp ms'))
      (bnd (unconsumed_index (ms_req ms') (frame_current_pos (ms_req ms'))) (\<lambda>u.
          if u \<noteq> frame_current_pos (ms_req ms')
          then Ok (ms'\<lparr>ms_req := (ms_req ms')\<lparr>frame_current_pos := u\<rparr>, ms_rsp := (ms_rsp ms')\<lparr>frame_current_pos := frame_buf_size (ms_rsp ms')\<rparr>\<rparr>)
          else Ok ms'))"
      by (rule yields_then) (use m p in \<open>auto simp: match_ok_def buf_ok_def rsp_step_def\<close>)
  qed
  then show ?thesis by (cases "pgsql_match_frames env ms") auto
qed


definition demo_pg_env :: mt_env where
  "demo_pg_env = \<lparr>me_malloc = (\<lambda>_. True), me_ts = 7, me_row = \<lparr>row_timestamp_ns = 7, row_desc_fields = [], row_desc_field_size = 0\<rparr>,
     me_field = \<lparr>field_name = None, table_oid = 0, attr_num = 0, type_oid = 0, type_size = 0, type_modifier = 0, fmt_code = 0\<rparr>, me_bool = False\<rparr>"

definition demo_pg_msg :: "u64 \<Rightarrow> byte \<Rightarrow> byte list \<Rightarrow> pgsql_regular_msg_s" where
  "demo_pg_msg ts t bs = \<lparr>msg_timestamp_ns = ts, tag = t, msg_len = 4 + of_nat (length bs),
     payload_data = Some \<lparr>flags = 0, timestamp_ns = ts, current_pos = 0, data = bs\<rparr>, consumed = False\<rparr>"

definition demo_pg_buf :: "pgsql_regular_msg_s list \<Rightarrow> pg_frames" where
  "demo_pg_buf ms = \<lparr>frames = map (\<lambda>m. Some \<lparr>frame = m\<rparr>) ms @ replicate (FRAME_BUF_SIZE - length ms) None,
     frame_buf_size = length ms, frame_current_pos = 0\<rparr>"

definition demo_pg_state :: match_state where
  "demo_pg_state = \<lparr>ms_req = demo_pg_buf [demo_pg_msg 10 81 [65, 0], demo_pg_msg 12 81 [66, 0]],
     ms_rsp = demo_pg_buf [demo_pg_msg 20 68 [0, 0], demo_pg_msg 21 67 [65, 0], demo_pg_msg 22 90 [73], demo_pg_msg 25 73 []],
     ms_rec = \<lparr>records = replicate RECORD_BUF_SIZE None, record_buf_size = 0, err_count = 0, req_count = 0, resp_count = 0\<rparr>\<rparr>"

lemma demo_holds: "length ms \<le> FRAME_BUF_SIZE \<Longrightarrow> holds (demo_pg_buf ms) ms"
  by (simp add: holds_def demo_pg_buf_def nth_append)

lemma demo_buf_ok: "length ms \<le> FRAME_BUF_SIZE \<Longrightarrow> \<forall>m \<in> set ms. P m \<Longrightarrow> buf_ok P (demo_pg_buf ms)"
  by (simp add: buf_ok_def demo_pg_buf_def nth_append)

theorem pgsql_match_queries_witness:
  "\<exists>ms'. pgsql_match_frames demo_pg_env demo_pg_state = Ok ms' \<and>
     take (record_buf_size (ms_rec ms')) (records (ms_rec ms')) =
       [Some \<lparr>rec_req = 0, rec_resp_ns = 21, latency = 11\<rparr>, Some \<lparr>rec_req = 1, rec_resp_ns = 25, latency = 13\<rparr>] \<and>
     frame_current_pos (ms_req ms') = 2 \<and> frame_current_pos (ms_rsp ms') = 4"
proof -
  let ?qs = "[demo_pg_msg 10 81 [65, 0], demo_pg_msg 12 81 [66, 0]]"
  let ?as = "[([demo_pg_msg 20 68 [0, 0]], demo_pg_msg 21 67 [65, 0]), ([demo_pg_msg 22 90 [73]], demo_pg_msg 25 73 [])]"
  have "holds (ms_req demo_pg_state) ?qs" "holds (ms_rsp demo_pg_state) (concat (map answer_msgs ?as) @ [])"
    using demo_holds [of ?qs] demo_holds [of "[demo_pg_msg 20 68 [0, 0], demo_pg_msg 21 67 [65, 0], demo_pg_msg 22 90 [73], demo_pg_msg 25 73 []]"]
    by (simp_all add: demo_pg_state_def answer_msgs_def FRAME_BUF_SIZE_def)
  moreover have "list_all (is_answer demo_pg_env) ?as" by (simp add: is_answer_def ends_answer_def demo_pg_msg_def tag_defs)
  ultimately obtain ms' where "pgsql_match_frames demo_pg_env demo_pg_state = Ok ms'"
     "take (record_buf_size (ms_rec ms')) (records (ms_rec ms')) = map Some (pairing 0 ?qs ?as)"
     "frame_current_pos (ms_req ms') = 2" "frame_current_pos (ms_rsp ms') = frame_buf_size (ms_rsp demo_pg_state)"
    using pgsql_match_queries [of demo_pg_env ?qs demo_pg_state ?as "[]"]
    by (force simp: demo_pg_env_def demo_pg_state_def demo_pg_msg_def demo_pg_buf_def tag_defs)
  then show ?thesis by (intro exI [of _ ms']) (simp add: demo_pg_msg_def demo_pg_state_def demo_pg_buf_def)
qed

theorem pgsql_match_safe_witness:
  "\<exists>ms'. pgsql_match_frames demo_pg_env demo_pg_state = Ok ms' \<and> recs_ok 0 2 (ms_rec ms') \<and> buf_ok (\<lambda>_. True) (ms_req ms') \<and>
     frame_buf_size (ms_req ms') = 2"
proof -
  have "buf_ok readable (ms_rsp demo_pg_state)" "buf_ok (\<lambda>_. True) (ms_req demo_pg_state)"
    by (simp_all add: demo_pg_state_def demo_buf_ok FRAME_BUF_SIZE_def readable_def demo_pg_msg_def tag_defs)
  then have "\<exists>ms'. pgsql_match_frames demo_pg_env demo_pg_state = Ok ms' \<and> recs_ok (frame_current_pos (ms_req demo_pg_state)) (frame_buf_size (ms_req demo_pg_state)) (ms_rec ms') \<and>
      buf_ok (\<lambda>_. True) (ms_req ms') \<and> frame_buf_size (ms_req ms') = frame_buf_size (ms_req demo_pg_state)"
    using pgsql_match_safe [of demo_pg_env demo_pg_state] by (auto simp: demo_pg_env_def demo_pg_state_def)
  then show ?thesis by (simp add: demo_pg_state_def demo_pg_buf_def numeral_2_eq_2)
qed

lemma move_frames_end: "move_frames n n xs = xs" by (simp add: move_frames_def)

lemma clear_frames_first: "0 < n \<Longrightarrow> 0 < length xs \<Longrightarrow> clear_frames n xs ! 0 = None"
  by (simp add: clear_frames_nth)

lemma push_frame_first:
  assumes "frames (frame_bufs ds) ! 0 = None" "0 < frame_buf_size (frame_bufs ds)" "frame_current_pos (frame_bufs ds) = 0"
  shows "frames (frame_bufs (snd (push_frame_data ds f))) ! 0 = None \<and> 0 < frame_buf_size (frame_bufs (snd (push_frame_data ds f))) \<and>
    frame_current_pos (frame_bufs (snd (push_frame_data ds f))) = 0"
  using assms by (simp add: push_frame_data_def Let_def)

lemma push_frames_first:
  assumes "frames (frame_bufs ds) ! 0 = None" "0 < frame_buf_size (frame_bufs ds)" "frame_current_pos (frame_bufs ds) = 0"
  shows "let b = frame_bufs (foldl (\<lambda>ds f. snd (push_frame_data ds f)) ds fs) in frames b ! 0 = None \<and> 0 < frame_buf_size b \<and> frame_current_pos b = 0"
  using assms by (induction fs arbitrary: ds) (simp_all add: push_frame_first Let_def)

lemma match_missing_frame:
  assumes "frames (ms_req ms) ! 0 = None" "0 < frame_buf_size (ms_req ms)" "frame_current_pos (ms_req ms) = 0"
  shows "pgsql_match_frames env ms = UB"
proof -
  have g: "pgsql_get_frame_from_buf (ms_req ms) 0 = UB" using assms(1) by (simp add: pgsql_get_frame_from_buf_def)
  then have "unconsumed_index (ms_req ms) 0 = UB" using assms(2) by (subst unconsumed_index.simps) simp
  then show ?thesis using g assms(2,3) by (simp add: pgsql_match_frames_def Let_def upt_conv_Cons match_one_def)
qed

text \<open>A connection is matched once at most: when all requests of a round were consumed, as they are after
  a batch of simple queries, popping them leaves null pointers below the frame count, which is not reduced; the next round dereferences the first of them,
  whatever frames have been parsed in between.\<close>

theorem pgsql_second_round_crashes:
  assumes "length (frames (frame_bufs ds)) = FRAME_BUF_SIZE" "0 < frame_buf_size (frame_bufs ds)"
    and "frame_buf_size (frame_bufs ds) \<le> FRAME_BUF_SIZE" "frame_current_pos (frame_bufs ds) = frame_buf_size (frame_bufs ds)"
    and "ms_req ms = frame_bufs (foldl (\<lambda>ds f. snd (push_frame_data ds f)) (snd (data_stream_pop_frames ds)) fs)"
  shows "pgsql_match_frames env ms = UB"
proof -
  have "frames (frame_bufs (snd (data_stream_pop_frames ds))) ! 0 = None" "0 < frame_buf_size (frame_bufs (snd (data_stream_pop_frames ds)))"
    "frame_current_pos (frame_bufs (snd (data_stream_pop_frames ds))) = 0"
    using assms(1-4) by (simp_all add: data_stream_pop_frames_def do_pop_frames_def Let_def min_absorb1 move_frames_end clear_frames_first)
  from push_frames_first [OF this, of fs] show ?thesis
    by (intro match_missing_frame) (simp_all add: assms(5) Let_def)
qed

definition demo_pg_stream :: "pgsql_frame_data_s data_stream_s" where
  "demo_pg_stream = init_data_stream\<lparr>frame_bufs := (demo_pg_buf [demo_pg_msg 10 81 [65, 0]])\<lparr>frame_current_pos := 1\<rparr>\<rparr>"

theorem pgsql_second_round_crashes_witness:
  "pgsql_match_frames demo_pg_env (demo_pg_state\<lparr>ms_req :=
     frame_bufs (snd (push_frame_data (snd (data_stream_pop_frames demo_pg_stream)) \<lparr>frame = demo_pg_msg 30 81 [67, 0]\<rparr>))\<rparr>) = UB"
  by (rule pgsql_second_round_crashes [where ds = demo_pg_stream and fs = "[\<lparr>frame = demo_pg_msg 30 81 [67, 0]\<rparr>]"])
    (simp_all add: demo_pg_stream_def demo_pg_buf_def FRAME_BUF_SIZE_def)

end
