(* ===== verification/L7_Proto.thy ===== *)
theory L7_Proto
  imports Data_Stream
begin

unbundle bit_operations_syntax

text \<open>
  The detection of the protocol of a connection from its first bytes, \<open>l7probe/include/l7.h\<close>, and the roles derived from it,
  \<open>l7probe/include/connect.h\<close>. Every read of the message is bounds-checked. The functions and macros with leading
  underscores are named without them.
\<close>

section \<open>Reading the buffer\<close>

text \<open>\<open>buf[i]\<close>, and a chain of comparisons \<open>buf[i] == c && ...\<close>, which stops at the first that fails.\<close>

definition buf_at :: "byte list \<Rightarrow> nat \<Rightarrow> byte outc" where
  "buf_at b i = (if i < length b then Ok (b ! i) else UB)"

fun all_eq :: "byte list \<Rightarrow> (nat \<times> byte) list \<Rightarrow> bool outc" where
  "all_eq b [] = Ok True"
| "all_eq b ((i, c) # xs) = bnd (buf_at b i) (\<lambda>x. if x = c then all_eq b xs else Ok False)"

definition at0 :: "string \<Rightarrow> (nat \<times> byte) list" where
  "at0 s = enumerate 0 (map of_char s)"

text \<open>A sequence of such tests with the type each stands for, and a sequence of calls of which the first known type counts.\<close>

fun first_match :: "byte list \<Rightarrow> ((nat \<times> byte) list \<times> message_type_t) list \<Rightarrow> message_type_t outc" where
  "first_match b [] = Ok MESSAGE_UNKNOW"
| "first_match b ((p, t) # ps) = bnd (all_eq b p) (\<lambda>m. if m then Ok t else first_match b ps)"

fun first_known :: "message_type_t outc list \<Rightarrow> message_type_t outc" where
  "first_known [] = Ok MESSAGE_UNKNOW"
| "first_known (m # ms) = bnd m (\<lambda>t. if t \<noteq> MESSAGE_UNKNOW then Ok t else first_known ms)"

section \<open>The protocols\<close>

definition HTTP_MIN_SIZE :: nat where "HTTP_MIN_SIZE = 16"

definition get_http_type :: "byte list \<Rightarrow> nat \<Rightarrow> message_type_t outc" where
  "get_http_type buf count =
     (if count < HTTP_MIN_SIZE then Ok MESSAGE_UNKNOW
      else first_match buf
        [(at0 ''GET'', MESSAGE_REQUEST), (at0 ''HEAD'', MESSAGE_REQUEST), (at0 ''POST'', MESSAGE_REQUEST),
         (at0 ''PUT'', MESSAGE_REQUEST), (at0 ''DELETE'', MESSAGE_REQUEST), (at0 ''HTTP'', MESSAGE_RESPONSE)])"

definition REDIS_MIN_SIZE :: nat where "REDIS_MIN_SIZE = 6"

definition is_redis_command :: "byte \<Rightarrow> bool" where
  "is_redis_command c \<longleftrightarrow> c \<in> {0x2B, 0x2D, 0x3A, 0x24, 0x2A}"

definition get_redis_type :: "byte list \<Rightarrow> nat \<Rightarrow> message_type_t outc" where
  "get_redis_type buf count =
     (if count < REDIS_MIN_SIZE then Ok MESSAGE_UNKNOW
      else bnd (buf_at buf 0) (\<lambda>c. Ok (if is_redis_command c then MESSAGE_REQUEST else MESSAGE_UNKNOW)))"

definition DNS_HEADER_MINSIZE :: nat where "DNS_HEADER_MINSIZE = 12"
definition DNS_MESSAGE_MAXSIZE :: nat where "DNS_MESSAGE_MAXSIZE = 512"
definition DNS_RR_MAXSIZE :: u16 where "DNS_RR_MAXSIZE = 25"

text \<open>The counters are read in the byte order of the host, and their sum is cut to 16 bits.\<close>

definition get_dns_type :: "byte list \<Rightarrow> nat \<Rightarrow> message_type_t outc" where
  "get_dns_type buf count =
     (if count < DNS_HEADER_MINSIZE \<or> count > DNS_MESSAGE_MAXSIZE then Ok MESSAGE_UNKNOW
      else bnd (buf_at buf 2) (\<lambda>b2. bnd (buf_at buf 3) (\<lambda>b3.
        bnd (rd16 buf 4) (\<lambda>c2. bnd (rd16 buf 6) (\<lambda>c3. bnd (rd16 buf 8) (\<lambda>c4. bnd (rd16 buf 10) (\<lambda>c5.
          Ok (if b3 AND 0x70 \<noteq> 0 then MESSAGE_UNKNOW
              else if c2 + c3 + c4 + c5 > DNS_RR_MAXSIZE then MESSAGE_UNKNOW
              else if b2 AND 0x80 = 0 then MESSAGE_REQUEST else MESSAGE_RESPONSE))))))))"

definition NATS_MINSIZE :: nat where "NATS_MINSIZE = 3"

text \<open>The macros \<open>__NATS_*\<close>: a length, the keyword in capitals and in small letters.\<close>

definition nats_test :: "nat \<Rightarrow> (nat \<times> byte) list \<Rightarrow> (nat \<times> byte) list \<Rightarrow> message_type_t \<Rightarrow> byte list \<Rightarrow> nat \<Rightarrow> message_type_t outc" where
  "nats_test n up low t buf count = (if count \<ge> n then first_match buf [(up, t), (low, t)] else Ok MESSAGE_UNKNOW)"

definition NATS_CONNECT :: "byte list \<Rightarrow> nat \<Rightarrow> message_type_t outc" where
  "NATS_CONNECT = nats_test 7 (at0 ''CONNECT'') (at0 ''connect'') MESSAGE_REQUEST"

definition NATS_INFO :: "byte list \<Rightarrow> nat \<Rightarrow> message_type_t outc" where
  "NATS_INFO = nats_test 4 (at0 ''INFO'') (at0 ''info'') MESSAGE_RESPONSE"

definition NATS_SUB :: "byte list \<Rightarrow> nat \<Rightarrow> message_type_t outc" where
  "NATS_SUB = nats_test 3 (at0 ''SUB'') (at0 ''sub'') MESSAGE_REQUEST"

definition NATS_UNSUB :: "byte list \<Rightarrow> nat \<Rightarrow> message_type_t outc" where
  "NATS_UNSUB = nats_test 5 (at0 ''UNSUB'') (at0 ''unsub'') MESSAGE_RESPONSE"

definition NATS_PUB :: "byte list \<Rightarrow> nat \<Rightarrow> message_type_t outc" where
  "NATS_PUB = nats_test 3 (at0 ''PUB'') (at0 ''pub'') MESSAGE_REQUEST"

definition NATS_HPUB :: "byte list \<Rightarrow> nat \<Rightarrow> message_type_t outc" where
  "NATS_HPUB = nats_test 4 (at0 ''HPUB'') (at0 ''hpub'') MESSAGE_REQUEST"

definition NATS_MSG :: "byte list \<Rightarrow> nat \<Rightarrow> message_type_t outc" where
  "NATS_MSG = nats_test 3 (at0 ''MSG'') (at0 ''msg'') MESSAGE_RESPONSE"

text \<open>The last comparison of this macro repeats index 2.\<close>

definition NATS_HMSG :: "byte list \<Rightarrow> nat \<Rightarrow> message_type_t outc" where
  "NATS_HMSG = nats_test 4 (at0 ''HMS'' @ [(2, of_char CHR ''G'')]) (at0 ''hms'' @ [(2, of_char CHR ''g'')]) MESSAGE_RESPONSE"

definition get_nats_type :: "byte list \<Rightarrow> nat \<Rightarrow> message_type_t outc" where
  "get_nats_type buf count =
     (if count < NATS_MINSIZE then Ok MESSAGE_UNKNOW
      else first_known [NATS_CONNECT buf count, NATS_INFO buf count, NATS_SUB buf count, NATS_UNSUB buf count,
        NATS_PUB buf count, NATS_HPUB buf count, NATS_MSG buf count, NATS_HMSG buf count])"

definition CQL_MINSIZE :: nat where "CQL_MINSIZE = 9"

definition cql_request_ops :: "byte list" where
  "cql_request_ops = [0x0B, 0x0D, 0x0F, 0x01, 0x05, 0x07, 0x09, 0x0A]"

definition cql_response_ops :: "byte list" where
  "cql_response_ops = [0x02, 0x00, 0x06, 0x08, 0x0C, 0x03, 0x0E, 0x10]"

definition get_cql_type :: "byte list \<Rightarrow> nat \<Rightarrow> message_type_t outc" where
  "get_cql_type buf count =
     (if count < CQL_MINSIZE then Ok MESSAGE_UNKNOW
      else bnd (buf_at buf 0) (\<lambda>b0. bnd (buf_at buf 1) (\<lambda>flags. bnd (buf_at buf 4) (\<lambda>opcode.
        let version = b0 AND 0x7f; request = (b0 AND 0x80 = 0) in
        Ok (if version < 3 \<or> version > 5 then MESSAGE_UNKNOW
            else if flags AND 0xf0 \<noteq> 0 then MESSAGE_UNKNOW
            else if opcode \<in> set cql_request_ops then (if request then MESSAGE_REQUEST else MESSAGE_UNKNOW)
            else if opcode \<in> set cql_response_ops then (if \<not> request then MESSAGE_RESPONSE else MESSAGE_UNKNOW)
            else MESSAGE_UNKNOW)))))"

definition MONGO_MINSIZE :: nat where "MONGO_MINSIZE = 16"

definition mongo_ops :: "u32 list" where
  "mongo_ops = [2001, 2002, 2003, 2004, 2005, 2006, 2007, 2012, 2013]"

definition get_mongo_type :: "byte list \<Rightarrow> nat \<Rightarrow> message_type_t outc" where
  "get_mongo_type buf count =
     (if count < MONGO_MINSIZE then Ok MESSAGE_UNKNOW
      else bnd (rd32 buf 4) (\<lambda>request_id. bnd (rd32 buf 8) (\<lambda>response_to. bnd (rd32 buf 12) (\<lambda>opcode.
        Ok (if sint request_id < 0 then MESSAGE_UNKNOW
            else if opcode \<in> set mongo_ops then (if response_to = 0 then MESSAGE_REQUEST else MESSAGE_RESPONSE)
            else MESSAGE_UNKNOW)))))"

definition MYSQL_MINSIZE :: nat where "MYSQL_MINSIZE = 5"
definition MYSQL_MAXSIZE :: u32 where "MYSQL_MAXSIZE = 16 * 1024 * 1024"

definition mysql_coms :: "byte list" where
  "mysql_coms = [0x03, 0x0b, 0x16, 0x17, 0x19]"

definition get_mysql_type :: "byte list \<Rightarrow> nat \<Rightarrow> message_type_t outc" where
  "get_mysql_type buf count =
     (if count < MYSQL_MINSIZE then Ok MESSAGE_UNKNOW
      else bnd (rd32 buf 0) (\<lambda>w. bnd (buf_at buf 3) (\<lambda>seq. bnd (buf_at buf 4) (\<lambda>com.
        let len = w AND 0x00ffffff in
        Ok (if len = 0 \<or> len > MYSQL_MAXSIZE then MESSAGE_UNKNOW
            else if com \<in> set mysql_coms then (if seq \<noteq> 0 then MESSAGE_RESPONSE else MESSAGE_REQUEST)
            else MESSAGE_UNKNOW)))))"

section \<open>Detection\<close>

definition L7_DATA_BUFFER_MAXSIZE :: nat where "L7_DATA_BUFFER_MAXSIZE = 1024"

definition HTTP_ENABLE :: u32 where "HTTP_ENABLE = 0x0001"
definition DNS_ENABLE :: u32 where "DNS_ENABLE = 0x0002"
definition REDIS_ENABLE :: u32 where "REDIS_ENABLE = 0x0004"
definition MYSQL_ENABLE :: u32 where "MYSQL_ENABLE = 0x0008"
definition PGSQL_ENABLE :: u32 where "PGSQL_ENABLE = 0x0010"
definition KAFKA_ENABLE :: u32 where "KAFKA_ENABLE = 0x0012"
definition MONGO_ENABLE :: u32 where "MONGO_ENABLE = 0x0014"
definition CQL_ENABLE :: u32 where "CQL_ENABLE = 0x0018"
definition NATS_ENABLE :: u32 where "NATS_ENABLE = 0x0020"
definition PROTO_ALL_ENABLE :: u32 where "PROTO_ALL_ENABLE = 0xFFFF"

record l7_proto_s =
  proto :: proto_type_t
  l7_type :: message_type_t

text \<open>The detectors in the order of the calls, each with the flag that enables it.\<close>

fun detect :: "(u32 \<times> (byte list \<Rightarrow> nat \<Rightarrow> message_type_t outc) \<times> proto_type_t) list \<Rightarrow> byte list \<Rightarrow> nat \<Rightarrow> u32 \<Rightarrow> l7_proto_s
    \<Rightarrow> (int \<times> l7_proto_s) outc" where
  "detect [] buf count en_flags l7pro = Ok (- 1, l7pro)"
| "detect ((en, f, p) # ds) buf count en_flags l7pro =
     (if en_flags AND en \<noteq> 0 then
        bnd (f buf count) (\<lambda>t. if t \<noteq> MESSAGE_UNKNOW then Ok (0, l7pro\<lparr>proto := p, l7_type := t\<rparr>)
          else detect ds buf count en_flags l7pro)
      else detect ds buf count en_flags l7pro)"

definition l7_detectors :: "(u32 \<times> (byte list \<Rightarrow> nat \<Rightarrow> message_type_t outc) \<times> proto_type_t) list" where
  "l7_detectors = [(HTTP_ENABLE, get_http_type, PROTO_HTTP), (DNS_ENABLE, get_dns_type, PROTO_DNS), (REDIS_ENABLE, get_redis_type, PROTO_REDIS),
     (NATS_ENABLE, get_nats_type, PROTO_NATS), (CQL_ENABLE, get_cql_type, PROTO_CQL), (MONGO_ENABLE, get_mongo_type, PROTO_MONGO)]"

definition get_l7_protocol :: "byte list option \<Rightarrow> nat \<Rightarrow> u32 \<Rightarrow> l7_proto_s \<Rightarrow> (int \<times> l7_proto_s) outc" where
  "get_l7_protocol buf count en_flags l7pro =
     (case buf of None \<Rightarrow> Ok (- 1, l7pro)
      | Some b \<Rightarrow> if count \<ge> L7_DATA_BUFFER_MAXSIZE then Ok (- 1, l7pro) else detect l7_detectors b count en_flags l7pro)"

section \<open>Roles\<close>

datatype l7_direction_t = L7_EGRESS | L7_INGRESS | L7_DIRECT_UNKNOW

datatype l4_role_t = L4_UNKNOW | L4_CLIENT | L4_SERVER

datatype l7_role_t = L7_UNKNOW | L7_CLIENT | L7_SERVER

definition get_message_type :: "l7_role_t \<Rightarrow> l7_direction_t \<Rightarrow> message_type_t" where
  "get_message_type l7_role direction =
     (if l7_role = L7_CLIENT then (if direction = L7_INGRESS then MESSAGE_RESPONSE else MESSAGE_REQUEST)
      else (if direction = L7_INGRESS then MESSAGE_REQUEST else MESSAGE_RESPONSE))"

definition get_l7_role :: "message_type_t \<Rightarrow> l7_direction_t \<Rightarrow> l7_role_t" where
  "get_l7_role msg_type direction = (if (direction = L7_EGRESS) \<noteq> (msg_type = MESSAGE_RESPONSE) then L7_CLIENT else L7_SERVER)"

record conn_proto_s =
  ci_protocol :: proto_type_t
  ci_l7_role :: l7_role_t

definition update_sock_conn_proto :: "conn_proto_s \<Rightarrow> l7_direction_t \<Rightarrow> byte list option \<Rightarrow> nat \<Rightarrow> (int \<times> conn_proto_s) outc" where
  "update_sock_conn_proto c direction buf count =
     (if ci_protocol c \<noteq> PROTO_UNKNOW then Ok (0, c)
      else bnd (get_l7_protocol buf count PROTO_ALL_ENABLE \<lparr>proto = PROTO_UNKNOW, l7_type = MESSAGE_UNKNOW\<rparr>) (\<lambda>(r, l7pro).
        Ok (if r \<noteq> 0 then (- 1, c) else if proto l7pro = PROTO_UNKNOW then (- 1, c)
            else (0, c\<lparr>ci_protocol := proto l7pro, ci_l7_role := get_l7_role (l7_type l7pro) direction\<rparr>))))"


text \<open>The protocols that can be detected.\<close>

definition known_protos :: "proto_type_t list" where
  "known_protos = [PROTO_HTTP, PROTO_DNS, PROTO_REDIS, PROTO_NATS, PROTO_CQL, PROTO_MONGO]"

section \<open>Reads stay inside the message\<close>

lemma buf_at_ok [simp]: "i < length b \<Longrightarrow> buf_at b i = Ok (b ! i)" by (simp add: buf_at_def)

lemma rd_ok [simp]: "a + 2 \<le> length b \<Longrightarrow> rd16 b a = Ok (of_nat (le_val (take 2 (drop a b))))"
  "a + 4 \<le> length b \<Longrightarrow> rd32 b a = Ok (of_nat (le_val (take 4 (drop a b))))"
  by (simp_all add: rd16_def rd32_def rd_def)

lemma all_eq_ok: "\<forall>(i, c) \<in> set xs. i < length b \<Longrightarrow> all_eq b xs = Ok (\<forall>(i, c) \<in> set xs. b ! i = c)"
  by (induction xs) auto

lemma first_match_ok:
  "\<forall>(p, t) \<in> set ps. \<forall>(i, c) \<in> set p. i < length b \<Longrightarrow> \<exists>t. first_match b ps = Ok t \<and> (t = MESSAGE_UNKNOW \<or> t \<in> snd ` set ps)"
proof (induction ps)
  case (Cons pt ps)
  obtain p t where pt: "pt = (p, t)" by (cases pt)
  have "all_eq b p = Ok (\<forall>(i, c) \<in> set p. b ! i = c)" using Cons.prems by (intro all_eq_ok) (simp add: pt)
  then show ?case using Cons by (auto simp: pt)
qed simp

lemma at0_bound: "length s \<le> n \<Longrightarrow> \<forall>(i, c) \<in> set (at0 s). i < n"
  by (auto simp: at0_def in_set_enumerate_eq)

lemma at0_prefix: "all_eq b (at0 s) = Ok (take (length s) b = map of_char s)" if "length s \<le> length b"
proof -
  have "all_eq b (at0 s) = Ok (\<forall>(i, c) \<in> set (at0 s). b ! i = c)" using at0_bound [OF that] by (rule all_eq_ok)
  moreover have "(\<forall>(i, c) \<in> set (at0 s). b ! i = c) \<longleftrightarrow> (\<forall>i < length s. b ! i = map of_char s ! i)"
    by (simp add: at0_def all_set_conv_all_nth nth_enumerate_eq)
  moreover have "(\<forall>i < length s. b ! i = map of_char s ! i) \<longleftrightarrow> take (length s) b = map of_char s"
    using that by (auto simp: list_eq_iff_nth_eq min_absorb2)
  ultimately show ?thesis by simp
qed

lemma nats_test_ok:
  assumes "count \<le> length b" "\<forall>(i, c) \<in> set up. i < n" "\<forall>(i, c) \<in> set low. i < n"
  shows "\<exists>t. nats_test n up low ty b count = Ok t"
proof (cases "n \<le> count")
  case True
  with assms have "\<forall>(p, t) \<in> set [(up, ty), (low, ty)]. \<forall>(i, c) \<in> set p. i < length b" by fastforce
  then show ?thesis using first_match_ok [of "[(up, ty), (low, ty)]" b] True by (auto simp: nats_test_def)
qed (simp add: nats_test_def)

lemma first_known_ok: "\<forall>m \<in> set ms. \<exists>t. m = Ok t \<Longrightarrow> \<exists>t. first_known ms = Ok t"
  by (induction ms) auto

lemma nats_ok:
  assumes "count \<le> length b"
  shows "\<exists>t. get_nats_type b count = Ok t"
proof -
  have t: "\<exists>t. nats_test n (at0 u) (at0 l) ty b count = Ok t" if "length u \<le> n" "length l \<le> n" for n u l ty
    using assms at0_bound [OF that(1)] at0_bound [OF that(2)] by (rule nats_test_ok)
  moreover have "\<exists>t. NATS_HMSG b count = Ok t"
    unfolding NATS_HMSG_def using assms by (rule nats_test_ok) (simp_all add: at0_def)
  ultimately show ?thesis
    by (auto intro!: first_known_ok simp: get_nats_type_def NATS_CONNECT_def NATS_INFO_def NATS_SUB_def NATS_UNSUB_def NATS_PUB_def
        NATS_HPUB_def NATS_MSG_def simp del: first_known.simps)
qed

lemma detectors_ok:
  assumes "count \<le> length b" "(en, f, p) \<in> set l7_detectors"
  shows "\<exists>t. f b count = Ok t"
proof -
  have h: "\<exists>t. get_http_type b count = Ok t"
  proof (cases "count < HTTP_MIN_SIZE")
    case False
    then have "16 \<le> length b" using assms(1) by (simp add: HTTP_MIN_SIZE_def)
    then show ?thesis by (simp add: get_http_type_def at0_prefix)
  qed (simp add: get_http_type_def)
  show ?thesis
    using assms h nats_ok [OF assms(1)]
    by (cases "b = []") (auto simp: l7_detectors_def get_dns_type_def get_redis_type_def get_cql_type_def get_mongo_type_def DNS_HEADER_MINSIZE_def
        REDIS_MIN_SIZE_def CQL_MINSIZE_def MONGO_MINSIZE_def Let_def)
qed

lemma detect_ok:
  assumes "\<And>en f p. (en, f, p) \<in> set ds \<Longrightarrow> \<exists>t. f b count = Ok t"
  shows "detect ds b count fl l7 = Ok (- 1, l7) \<or>
    (\<exists>(en, f, p) \<in> set ds. \<exists>t. fl AND en \<noteq> 0 \<and> f b count = Ok t \<and> t \<noteq> MESSAGE_UNKNOW \<and> detect ds b count fl l7 = Ok (0, l7\<lparr>proto := p, l7_type := t\<rparr>))"
  using assms
proof (induction ds)
  case (Cons d ds)
  obtain en f p where d: "d = (en, f, p)" by (cases d)
  obtain t where "f b count = Ok t" using Cons.prems [of en f p] by (auto simp: d)
  with Cons show ?case by (auto simp: d)
qed simp

lemma detect_protocol:
  assumes "count \<le> length b"
  shows "get_l7_protocol (Some b) count fl l7 = Ok (- 1, l7) \<or>
    (\<exists>p t. get_l7_protocol (Some b) count fl l7 = Ok (0, l7\<lparr>proto := p, l7_type := t\<rparr>) \<and> t \<noteq> MESSAGE_UNKNOW \<and> p \<in> set known_protos)"
proof -
  have "detect l7_detectors b count fl l7 = Ok (- 1, l7) \<or>
    (\<exists>(en, f, p) \<in> set l7_detectors. \<exists>t. fl AND en \<noteq> 0 \<and> f b count = Ok t \<and> t \<noteq> MESSAGE_UNKNOW \<and>
      detect l7_detectors b count fl l7 = Ok (0, l7\<lparr>proto := p, l7_type := t\<rparr>))"
    by (rule detect_ok) (rule detectors_ok [OF assms])
  moreover have "p \<in> set known_protos" if "(en, f, p) \<in> set l7_detectors" for en f p
    using that by (auto simp: l7_detectors_def known_protos_def)
  ultimately show ?thesis unfolding get_l7_protocol_def by fastforce
qed

lemma role_of_type: "d \<noteq> L7_DIRECT_UNKNOW \<Longrightarrow> t \<noteq> MESSAGE_UNKNOW \<Longrightarrow> get_message_type (get_l7_role t d) d = t"
  by (cases d; cases t) (simp_all add: get_message_type_def get_l7_role_def)

text \<open>The protocol of a connection is set once: for a message of \<open>count\<close> bytes the detection reads nothing outside it, a connection that
  has a protocol is left alone, and otherwise the connection is unchanged or gets one of six protocols together with the role
  under which the message has the type that was detected. PostgreSQL, MySQL, HTTP/2 and Kafka are never detected, so that their
  parsers see no data.\<close>

theorem sock_conn_proto:
  assumes "count \<le> length b" "d \<noteq> L7_DIRECT_UNKNOW"
  shows "\<exists>r c'. update_sock_conn_proto c d (Some b) count = Ok (r, c') \<and>
    (ci_protocol c \<noteq> PROTO_UNKNOW \<longrightarrow> r = 0 \<and> c' = c) \<and>
    (ci_protocol c = PROTO_UNKNOW \<longrightarrow>
       (r = - 1 \<and> c' = c) \<or>
       (\<exists>q. r = 0 \<and> get_l7_protocol (Some b) count PROTO_ALL_ENABLE \<lparr>proto = PROTO_UNKNOW, l7_type = MESSAGE_UNKNOW\<rparr> = Ok (0, q) \<and>
          ci_protocol c' = proto q \<and> proto q \<in> set known_protos \<and> get_message_type (ci_l7_role c') d = l7_type q))"
proof (cases "ci_protocol c = PROTO_UNKNOW")
  case True
  have "PROTO_UNKNOW \<notin> set known_protos" by (simp add: known_protos_def)
  with True detect_protocol [OF assms(1), of PROTO_ALL_ENABLE "\<lparr>proto = PROTO_UNKNOW, l7_type = MESSAGE_UNKNOW\<rparr>"] show ?thesis
    by (elim disjE exE conjE) (auto simp: update_sock_conn_proto_def role_of_type [OF assms(2)])
qed (simp add: update_sock_conn_proto_def)


section \<open>What is detected\<close>

lemma http_type:
  assumes "16 \<le> count" "count \<le> length b"
  shows "get_http_type b count = Ok (
    if \<exists>m \<in> {''GET'', ''HEAD'', ''POST'', ''PUT'', ''DELETE''}. take (length m) b = map of_char m then MESSAGE_REQUEST
    else if take (length ''HTTP'') b = map of_char ''HTTP'' then MESSAGE_RESPONSE else MESSAGE_UNKNOW)"
  using assms by (simp add: get_http_type_def HTTP_MIN_SIZE_def at0_prefix)

text \<open>The keyword of a message with headers is never recognised.\<close>

lemma nats_hmsg:
  assumes "4 \<le> length b"
  shows "NATS_HMSG b count = Ok MESSAGE_UNKNOW"
proof -
  have "all_eq b (at0 [x, y, z] @ [(2, c)]) = Ok False" if "of_char z \<noteq> c" for x y z c
    using assms that by (subst all_eq_ok) (auto simp: at0_def numeral_2_eq_2)
  then show ?thesis by (simp add: NATS_HMSG_def nats_test_def del: all_eq.simps)
qed

text \<open>A counter of the DNS header, in network byte order: questions at 4, then the three kinds of records.\<close>

definition dns_count :: "byte list \<Rightarrow> nat \<Rightarrow> nat" where
  "dns_count b i = 256 * unat (b ! i) + unat (b ! (i + 1))"

definition dns_total :: "byte list \<Rightarrow> nat" where
  "dns_total b = dns_count b 4 + dns_count b 6 + dns_count b 8 + dns_count b 10"

lemma le_val_two: "i + 2 \<le> length b \<Longrightarrow> le_val (take 2 (drop i b)) = unat (b ! i) + 256 * unat (b ! (i + 1))"
  by (simp add: Cons_nth_drop_Suc [symmetric] take_Suc_conv_app_nth numeral_2_eq_2)

lemma dns_sum:
  assumes "12 \<le> length b" "dns_total b < 256"
  shows "le_val (take 2 (drop 4 b)) + le_val (take 2 (drop 6 b)) + le_val (take 2 (drop 8 b)) + le_val (take 2 (drop 10 b)) = 256 * dns_total b"
proof -
  have "unat (b ! 4) = 0" "unat (b ! 6) = 0" "unat (b ! 8) = 0" "unat (b ! 10) = 0"
    using assms(2) unfolding dns_total_def dns_count_def by linarith+
  then show ?thesis using assms(1) by (simp add: le_val_two dns_total_def dns_count_def)
qed

lemma dns_unknown:
  assumes "count \<le> length b" "1 \<le> dns_total b" "dns_total b < 256"
  shows "get_dns_type b count = Ok MESSAGE_UNKNOW"
proof (cases "count < DNS_HEADER_MINSIZE \<or> count > DNS_MESSAGE_MAXSIZE")
  case False
  then have l: "12 \<le> length b" using assms(1) by (simp add: DNS_HEADER_MINSIZE_def)
  let ?w = "\<lambda>i. of_nat (le_val (take 2 (drop i b))) :: u16"
  have "?w 4 + ?w 6 + ?w 8 + ?w 10 = of_nat (256 * dns_total b)"
    using dns_sum [OF l assms(3)] by (metis of_nat_add)
  moreover have "unat (of_nat (256 * dns_total b) :: u16) = 256 * dns_total b"
    using assms(3) by (subst unat_of_nat) simp
  ultimately have "DNS_RR_MAXSIZE < ?w 4 + ?w 6 + ?w 8 + ?w 10"
    using assms(2) by (simp only: word_less_nat_alt DNS_RR_MAXSIZE_def) simp
  then show ?thesis using l False by (simp add: get_dns_type_def)
qed (simp add: get_dns_type_def)

lemma detected_dns:
  assumes "count \<le> length b" "get_l7_protocol (Some b) count fl l7 = Ok (0, q)" "proto q = PROTO_DNS"
  shows "get_dns_type b count \<noteq> Ok MESSAGE_UNKNOW"
proof -
  have "detect l7_detectors b count fl l7 = Ok (- 1, l7) \<or>
    (\<exists>(en, f, p) \<in> set l7_detectors. \<exists>t. fl AND en \<noteq> 0 \<and> f b count = Ok t \<and> t \<noteq> MESSAGE_UNKNOW \<and>
      detect l7_detectors b count fl l7 = Ok (0, l7\<lparr>proto := p, l7_type := t\<rparr>))"
    by (rule detect_ok) (rule detectors_ok [OF assms(1)])
  moreover have "detect l7_detectors b count fl l7 = Ok (0, q)" using assms(2) by (simp add: get_l7_protocol_def split: if_splits)
  moreover have "f = get_dns_type" if "(en, f, PROTO_DNS) \<in> set l7_detectors" for en f
    using that by (auto simp: l7_detectors_def)
  ultimately show ?thesis using assms(3) by fastforce
qed

text \<open>The counters of a DNS header are read in the byte order of the host: every DNS message that has between 1 and 255
  entries in all, such as any query with a question, is not recognised as DNS.\<close>

theorem dns_not_recognised:
  assumes "count \<le> length b" "1 \<le> dns_total b" "dns_total b < 256" "ci_protocol c = PROTO_UNKNOW"
  shows "get_dns_type b count = Ok MESSAGE_UNKNOW \<and>
    (\<exists>r c'. update_sock_conn_proto c d (Some b) count = Ok (r, c') \<and> ci_protocol c' \<noteq> PROTO_DNS)"
proof -
  let ?l7 = "\<lparr>proto = PROTO_UNKNOW, l7_type = MESSAGE_UNKNOW\<rparr>"
  have "get_l7_protocol (Some b) count PROTO_ALL_ENABLE ?l7 \<noteq> Ok (0, \<lparr>proto = PROTO_DNS, l7_type = t\<rparr>)" for t
    using detected_dns [OF assms(1)] dns_unknown [OF assms(1-3)] by fastforce
  then show ?thesis
    using dns_unknown [OF assms(1-3)] detect_protocol [OF assms(1), of PROTO_ALL_ENABLE ?l7] assms(4)
    by (elim disjE exE conjE) (auto simp: update_sock_conn_proto_def)
qed

text \<open>A query for one name, as a resolver sends it.\<close>

definition demo_dns :: "byte list" where
  "demo_dns = [0x12, 0x34, 0x01, 0x00, 0, 1, 0, 0, 0, 0, 0, 0, 1, 0x61, 0, 0, 1, 0, 1]"

theorem dns_not_recognised_witness:
  "get_dns_type demo_dns 19 = Ok MESSAGE_UNKNOW"
  using dns_not_recognised [of 19 demo_dns "\<lparr>ci_protocol = PROTO_UNKNOW, ci_l7_role = L7_UNKNOW\<rparr>"]
  by (simp add: demo_dns_def dns_total_def dns_count_def)

theorem sock_conn_proto_witness:
  "\<exists>c'. update_sock_conn_proto \<lparr>ci_protocol = PROTO_UNKNOW, ci_l7_role = L7_UNKNOW\<rparr> L7_INGRESS (Some (map of_char ''GET /index.html HTTP/1.1'')) 24 = Ok (0, c') \<and>
     ci_protocol c' = PROTO_HTTP \<and> ci_l7_role c' = L7_SERVER \<and> get_message_type (ci_l7_role c') L7_INGRESS = MESSAGE_REQUEST"
proof -
  let ?b = "map of_char ''GET /index.html HTTP/1.1'' :: byte list"
  have "get_l7_protocol (Some ?b) 24 PROTO_ALL_ENABLE \<lparr>proto = PROTO_UNKNOW, l7_type = MESSAGE_UNKNOW\<rparr> =
      Ok (0, \<lparr>proto = PROTO_HTTP, l7_type = MESSAGE_REQUEST\<rparr>)"
    by (simp add: get_l7_protocol_def l7_detectors_def L7_DATA_BUFFER_MAXSIZE_def http_type PROTO_ALL_ENABLE_def HTTP_ENABLE_def)
  then show ?thesis
    using sock_conn_proto [of 24 ?b L7_INGRESS "\<lparr>ci_protocol = PROTO_UNKNOW, ci_l7_role = L7_UNKNOW\<rparr>"]
    by (simp add: update_sock_conn_proto_def get_l7_role_def get_message_type_def)
qed

end
