(* ===== verification/Histogram.thy ===== *)
theory Histogram
  imports Complex_Main Gopher_Prelude
begin

text \<open>
  The latency histograms, \<open>probes/extends/ebpf.probe/src/lib/histogram.c\<close>: counting, the search for the bucket of a rank, and the
  interpolated percentiles. Single-precision arithmetic is exact arithmetic on rationals followed by the rounding \<open>rnd\<close> of
  the implementation, an argument of which \<open>rounding\<close> states what is used.
\<close>

section \<open>Floating point\<close>

text \<open>
  The values of a \<open>float\<close> that occur here. A finite value is a rational number; \<open>rnd\<close> is the rounding of the
  implementation, which every operation applies to its exact result.
\<close>

datatype flt = Fin rat | PInf | NaN

definition f_div :: "(rat \<Rightarrow> rat) \<Rightarrow> rat \<Rightarrow> rat \<Rightarrow> flt" where
  "f_div rnd a b = (if b = 0 then (if a = 0 then NaN else PInf) else Fin (rnd (a / b)))"

fun f_mul :: "(rat \<Rightarrow> rat) \<Rightarrow> rat \<Rightarrow> flt \<Rightarrow> flt" where
  "f_mul rnd a (Fin b) = Fin (rnd (a * b))"
| "f_mul rnd a PInf = (if a = 0 then NaN else PInf)"
| "f_mul rnd a NaN = NaN"

fun f_add :: "(rat \<Rightarrow> rat) \<Rightarrow> flt \<Rightarrow> rat \<Rightarrow> flt" where
  "f_add rnd (Fin a) b = Fin (rnd (a + b))"
| "f_add rnd PInf b = PInf"
| "f_add rnd NaN b = NaN"

text \<open>\<open>(float)n\<close> of an unsigned integer.\<close>

definition to_float :: "(rat \<Rightarrow> rat) \<Rightarrow> u64 \<Rightarrow> rat" where
  "to_float rnd n = rnd (of_nat (unat n))"

text \<open>What the code relies on: rounding is monotone and integers up to \<open>2 ^ 24\<close> are exact.\<close>

definition rounding :: "(rat \<Rightarrow> rat) \<Rightarrow> bool" where
  "rounding rnd \<longleftrightarrow> mono rnd \<and> (\<forall>n \<le> 2 ^ 24. rnd (of_nat n) = of_nat n)"

section \<open>Buckets\<close>

record histo_bucket_s =
  h_min :: u64
  h_max :: u64
  h_count :: u64

datatype histo_type_t = HISTO_P50 | HISTO_P90 | HISTO_P99

fun histo_p :: "histo_type_t \<Rightarrow> rat" where
  "histo_p HISTO_P50 = 5 / 10"
| "histo_p HISTO_P90 = 9 / 10"
| "histo_p HISTO_P99 = 99 / 100"

definition get_histo_bucket_sum :: "histo_bucket_s list \<Rightarrow> u64" where
  "get_histo_bucket_sum bucket = foldl (\<lambda>s b. s + h_count b) 0 bucket"

text \<open>The bucket a rank falls into, and the value left in \<open>offset\<close>, which is not written when there is none.\<close>

fun find_histo_bucket :: "histo_bucket_s list \<Rightarrow> u64 \<Rightarrow> u64 \<Rightarrow> histo_bucket_s option \<times> u64" where
  "find_histo_bucket [] remain offset = (None, offset)"
| "find_histo_bucket (b # bucket) remain offset =
     (if remain > h_count b then find_histo_bucket bucket (remain - h_count b) offset else (Some b, h_count b - remain))"

definition init_histo_bucket :: "histo_bucket_s \<Rightarrow> u64 \<Rightarrow> u64 \<Rightarrow> int \<times> histo_bucket_s" where
  "init_histo_bucket b mn mx = (if mn \<ge> mx then (- 1, b) else (0, \<lparr>h_min = mn, h_max = mx, h_count = 0\<rparr>))"

fun histo_bucket_add_value :: "histo_bucket_s list \<Rightarrow> u64 \<Rightarrow> int \<times> histo_bucket_s list" where
  "histo_bucket_add_value [] v = (- 1, [])"
| "histo_bucket_add_value (b # bucket) v =
     (if v > h_min b \<and> v \<le> h_max b then (0, b\<lparr>h_count := h_count b + 1\<rparr> # bucket)
      else case histo_bucket_add_value bucket v of (r, bs) \<Rightarrow> (r, b # bs))"

definition histo_bucket_reset :: "histo_bucket_s list \<Rightarrow> histo_bucket_s list" where
  "histo_bucket_reset bucket = map (\<lambda>b. b\<lparr>h_count := 0\<rparr>) bucket"

text \<open>The rank of a percentile: the product is rounded, then cut to an integer.\<close>

definition histo_count :: "(rat \<Rightarrow> rat) \<Rightarrow> histo_type_t \<Rightarrow> u64 \<Rightarrow> u64" where
  "histo_count rnd ty bsum = of_int \<lfloor>rnd (to_float rnd bsum * rnd (histo_p ty))\<rfloor>"

definition bucket_value :: "(rat \<Rightarrow> rat) \<Rightarrow> histo_bucket_s \<Rightarrow> u64 \<Rightarrow> flt" where
  "bucket_value rnd b offset =
     f_add rnd (f_mul rnd (to_float rnd (h_max b - h_min b)) (f_div rnd (to_float rnd offset) (to_float rnd (h_count b))))
       (to_float rnd (h_min b))"

definition histo_bucket_value :: "(rat \<Rightarrow> rat) \<Rightarrow> histo_bucket_s list \<Rightarrow> histo_type_t \<Rightarrow> flt \<Rightarrow> int \<times> flt" where
  "histo_bucket_value rnd bucket ty value =
     (case find_histo_bucket bucket (histo_count rnd ty (get_histo_bucket_sum bucket)) 0 of (found, offset) \<Rightarrow>
        let offset = (if offset = 0 then offset + 1 else offset) in
        case found of None \<Rightarrow> (- 1, value) | Some b \<Rightarrow> (0, bucket_value rnd b offset))"

section \<open>Counting\<close>

text \<open>Buckets with bounds in order, so that they do not overlap.\<close>

fun in_order :: "u64 \<Rightarrow> histo_bucket_s list \<Rightarrow> bool" where
  "in_order lo [] \<longleftrightarrow> True"
| "in_order lo (b # bs) \<longleftrightarrow> lo \<le> h_min b \<and> h_min b < h_max b \<and> in_order (h_max b) bs"

definition in_bucket :: "histo_bucket_s \<Rightarrow> u64 \<Rightarrow> bool" where
  "in_bucket b v \<longleftrightarrow> h_min b < v \<and> v \<le> h_max b"

definition add_values :: "histo_bucket_s list \<Rightarrow> u64 list \<Rightarrow> histo_bucket_s list" where
  "add_values = foldl (\<lambda>bs v. snd (histo_bucket_add_value bs v))"

text \<open>The histogram the values have: each bucket counts those inside its bounds.\<close>

definition histogram_of :: "histo_bucket_s list \<Rightarrow> u64 list \<Rightarrow> histo_bucket_s list" where
  "histogram_of bs vs = map (\<lambda>b. b\<lparr>h_count := h_count b + of_nat (length (filter (in_bucket b) vs))\<rparr>) bs"

lemma above: "in_order lo bs \<Longrightarrow> v \<le> lo \<Longrightarrow> b \<in> set bs \<Longrightarrow> \<not> in_bucket b v"
proof (induction bs arbitrary: lo)
  case (Cons a bs)
  then have "v \<le> h_max a" "v \<le> h_min a" by auto
  with Cons show ?case by (auto simp: in_bucket_def)
qed simp

lemma add_value:
  "in_order lo bs \<Longrightarrow> histo_bucket_add_value bs v =
     (if \<exists>b \<in> set bs. in_bucket b v then 0 else - 1, map (\<lambda>b. if in_bucket b v then b\<lparr>h_count := h_count b + 1\<rparr> else b) bs)"
proof (induction bs arbitrary: lo)
  case (Cons b bs)
  show ?case
  proof (cases "in_bucket b v")
    case True
    then have "\<forall>c \<in> set bs. \<not> in_bucket c v" using above [of "h_max b" bs v] Cons.prems by (auto simp: in_bucket_def)
    then have "map (\<lambda>b. if in_bucket b v then b\<lparr>h_count := h_count b + 1\<rparr> else b) bs = bs" by (intro map_idI) auto
    then show ?thesis using True by (simp add: in_bucket_def)
  next
    case False
    then show ?thesis using Cons.IH [of "h_max b"] Cons.prems by (auto simp: in_bucket_def)
  qed
qed simp

lemma in_bucket_count [simp]: "in_bucket (b\<lparr>h_count := n\<rparr>) = in_bucket b" by (simp add: in_bucket_def fun_eq_iff)

lemma in_order_counts: "in_order lo (map (\<lambda>b. b\<lparr>h_count := f b\<rparr>) bs) \<longleftrightarrow> in_order lo bs"
  by (induction bs arbitrary: lo) auto

lemma add_values_histogram: "in_order lo bs \<Longrightarrow> add_values bs vs = histogram_of bs vs"
proof (induction vs arbitrary: bs)
  case (Cons v vs)
  let ?one = "\<lambda>b. b\<lparr>h_count := h_count b + (if in_bucket b v then 1 else 0)\<rparr>"
  have a: "snd (histo_bucket_add_value bs v) = map ?one bs" using add_value [OF Cons.prems, of v] by simp
  have "add_values (map ?one bs) vs = histogram_of (map ?one bs) vs"
    using Cons.prems by (intro Cons.IH) (simp add: in_order_counts)
  then show ?case unfolding add_values_def foldl_Cons a by (simp add: histogram_of_def comp_def algebra_simps)
qed (simp add: add_values_def histogram_of_def)

text \<open>The histogram counts exactly: starting from any counts, values added one after the other leave every bucket with the
  number of values inside its bounds added to it, and a value is refused exactly when no bucket contains it.\<close>

theorem histo_counts_exact:
  assumes "in_order lo bs"
  shows "add_values bs vs = histogram_of bs vs \<and>
    (fst (histo_bucket_add_value bs v) = - 1 \<longleftrightarrow> (\<forall>b \<in> set bs. \<not> (h_min b < v \<and> v \<le> h_max b)))"
  using add_values_histogram [OF assms] add_value [OF assms, of v] by (simp add: in_bucket_def)


section \<open>Percentiles\<close>

text \<open>The counts as numbers, without wrapping.\<close>

definition counts :: "histo_bucket_s list \<Rightarrow> nat" where
  "counts bs = sum_list (map (\<lambda>b. unat (h_count b)) bs)"

lemma counts_simps [simp]: "counts [] = 0" "counts (b # bs) = unat (h_count b) + counts bs" "counts (xs @ ys) = counts xs + counts ys"
  by (simp_all add: counts_def)

lemma bucket_sum: "counts bs < 2 ^ 64 \<Longrightarrow> unat (get_histo_bucket_sum bs) = counts bs"
proof -
  have "foldl (\<lambda>s b. s + h_count b) a bs = a + of_nat (counts bs)" for a
    by (induction bs arbitrary: a) (simp_all add: add.assoc)
  then have "get_histo_bucket_sum bs = of_nat (counts bs)" by (simp add: get_histo_bucket_sum_def)
  then show "counts bs < 2 ^ 64 \<Longrightarrow> unat (get_histo_bucket_sum bs) = counts bs" by (simp add: unat_of_nat)
qed

lemma find_bucket:
  assumes "unat n \<le> counts bs" "bs \<noteq> []"
  shows "\<exists>pre b post. bs = pre @ b # post \<and> find_histo_bucket bs n off = (Some b, of_nat (counts pre + unat (h_count b) - unat n)) \<and>
    (counts pre < unat n \<or> pre = []) \<and> unat n \<le> counts pre + unat (h_count b)"
  using assms
proof (induction bs arbitrary: n)
  case (Cons b bs)
  show ?case
  proof (cases "h_count b < n")
    case True
    then have u: "unat (n - h_count b) = unat n - unat (h_count b)" by (simp add: unat_sub less_imp_le)
    have lt: "unat (h_count b) < unat n" using True by (simp add: word_less_nat_alt)
    then have "unat (n - h_count b) \<le> counts bs" "bs \<noteq> []" using Cons.prems(1) u by auto
    then obtain pre c post where IH: "bs = pre @ c # post"
      "find_histo_bucket bs (n - h_count b) off = (Some c, of_nat (counts pre + unat (h_count c) - unat (n - h_count b)))"
      "counts pre < unat (n - h_count b) \<or> pre = []" "unat (n - h_count b) \<le> counts pre + unat (h_count c)"
      using Cons.IH [of "n - h_count b"] by blast
    then show ?thesis
      using True lt u by (intro exI [of _ "b # pre"] exI [of _ c] exI [of _ post]) (auto simp: algebra_simps)
  next
    case False
    then have "unat n \<le> unat (h_count b)" by (simp add: word_le_nat_alt not_less)
    moreover from this have "h_count b - n = of_nat (unat (h_count b) - unat n)"
      by (simp add: of_nat_diff)
    ultimately show ?thesis
      using False by (intro exI [of _ "[]"] exI [of _ b] exI [of _ bs]) simp
  qed
qed simp

text \<open>Rounding of the values that occur.\<close>

lemma rounding_mono: "rounding rnd \<Longrightarrow> x \<le> y \<Longrightarrow> rnd x \<le> rnd y" by (simp add: rounding_def mono_def)

lemma rounding_nat: "rounding rnd \<Longrightarrow> n \<le> 2 ^ 24 \<Longrightarrow> rnd (of_nat n) = of_nat n" by (simp add: rounding_def)

lemma rounding_01: "rounding rnd \<Longrightarrow> rnd 0 = 0" "rounding rnd \<Longrightarrow> rnd 1 = 1"
  using rounding_nat [of rnd 0] rounding_nat [of rnd 1] by simp_all

lemma to_float_pos: "rounding rnd \<Longrightarrow> 0 < n \<Longrightarrow> 1 \<le> to_float rnd n"
proof -
  assume r: "rounding rnd" and "0 < n"
  then have "1 \<le> unat n" by (simp add: unat_gt_0 Suc_leI)
  then have "(1 :: rat) \<le> of_nat (unat n)" by (simp del: of_nat_unat)
  then show ?thesis using rounding_mono [OF r, of 1 "of_nat (unat n)"] rounding_01 [OF r] by (simp add: to_float_def del: of_nat_unat)
qed

lemma to_float_mono: "rounding rnd \<Longrightarrow> m \<le> n \<Longrightarrow> to_float rnd m \<le> to_float rnd n"
  by (simp add: to_float_def rounding_mono word_le_nat_alt del: of_nat_unat)

lemma bucket_value_finite:
  assumes "rounding rnd" "0 < h_count b"
  shows "bucket_value rnd b o1 = Fin (rnd (rnd (to_float rnd (h_max b - h_min b) * rnd (to_float rnd o1 / to_float rnd (h_count b))) + to_float rnd (h_min b)))"
  using to_float_pos [OF assms] by (simp add: bucket_value_def f_div_def)

lemma bucket_value_mono:
  assumes "rounding rnd" "0 < h_count b" "o1 \<le> o2" "bucket_value rnd b o1 = Fin x" "bucket_value rnd b o2 = Fin y"
  shows "x \<le> y"
proof -
  note m = rounding_mono [OF assms(1)] and c = to_float_pos [OF assms(1,2)]
  have "0 \<le> to_float rnd (h_max b - h_min b)"
    using to_float_mono [OF assms(1), of 0] rounding_01 [OF assms(1)] by (simp add: to_float_def)
  moreover have "to_float rnd o1 / to_float rnd (h_count b) \<le> to_float rnd o2 / to_float rnd (h_count b)"
    using c to_float_mono [OF assms(1,3)] by (intro divide_right_mono) auto
  ultimately show ?thesis
    using assms(4,5) unfolding bucket_value_finite [OF assms(1,2)] by (auto intro!: m add_right_mono mult_left_mono)
qed

lemma rounding_between:
  assumes r: "rounding rnd" and "0 \<le> q" "q \<le> 1" "lo \<le> hi" "hi \<le> 2 ^ 24"
  shows "of_nat lo \<le> rnd (rnd (of_nat (hi - lo) * q) + of_nat lo)" "rnd (rnd (of_nat (hi - lo) * q) + of_nat lo) \<le> of_nat hi"
proof -
  let ?w = "of_nat (hi - lo) :: rat"
  have n: "rnd ?w = ?w" "rnd (of_nat lo) = of_nat lo" "rnd (of_nat hi) = of_nat hi" using assms by (intro rounding_nat [OF r]; simp)+
  have p: "0 \<le> rnd (?w * q)" "rnd (?w * q) \<le> ?w"
    using rounding_mono [OF r, of 0 "?w * q"] rounding_mono [OF r, of "?w * q" ?w] assms(2,3) rounding_01 [OF r] n(1)
    by (auto simp: mult_left_le simp del: of_nat_diff)
  show "of_nat lo \<le> rnd (rnd (?w * q) + of_nat lo)"
    using rounding_mono [OF r, of "of_nat lo" "rnd (?w * q) + of_nat lo"] p(1) n(2) by simp
  have "rnd (?w * q) + of_nat lo \<le> of_nat hi" using p(2) assms(4) by simp
  then show "rnd (rnd (?w * q) + of_nat lo) \<le> of_nat hi"
    using rounding_mono [OF r, of "rnd (?w * q) + of_nat lo" "of_nat hi"] n(3) by simp
qed

lemma bucket_value_bounds:
  assumes r: "rounding rnd" and "0 < o1" "o1 \<le> h_count b" "h_min b < h_max b" "unat (h_max b) \<le> 2 ^ 24"
  shows "\<exists>x. bucket_value rnd b o1 = Fin x \<and> of_nat (unat (h_min b)) \<le> x \<and> x \<le> of_nat (unat (h_max b))"
proof -
  have pos: "0 < h_count b" using assms(2,3) by (simp add: word_less_nat_alt word_le_nat_alt)
  note c = to_float_pos [OF r pos]
  have mm: "unat (h_min b) < unat (h_max b)" using assms(4) by (simp add: word_less_nat_alt)
  have w: "to_float rnd (h_max b - h_min b) = of_nat (unat (h_max b) - unat (h_min b))" "to_float rnd (h_min b) = of_nat (unat (h_min b))"
    using mm assms(4,5) by (simp_all add: to_float_def unat_sub less_imp_le rounding_nat [OF r] del: of_nat_unat of_nat_diff)
  let ?x = "to_float rnd o1 / to_float rnd (h_count b)"
  have q: "0 \<le> rnd ?x" "rnd ?x \<le> 1"
    using rounding_mono [OF r, of 0 ?x] rounding_mono [OF r, of ?x 1]
      rounding_01 [OF r] c to_float_pos [OF r assms(2)] to_float_mono [OF r assms(3)] by (auto simp: divide_le_eq_1)
  show ?thesis
    using bucket_value_finite [OF r pos, of o1] rounding_between [OF r q less_imp_le [OF mm] assms(5)]
    by (simp add: w del: of_nat_unat of_nat_diff)
qed


lemma find_in:
  assumes "counts pre < unat n" "unat n \<le> counts pre + unat (h_count b)"
  shows "find_histo_bucket (pre @ b # post) n off = (Some b, of_nat (counts pre + unat (h_count b) - unat n))"
  using assms
proof (induction pre arbitrary: n)
  case Nil
  then show ?case by (simp add: word_le_nat_alt not_less [symmetric] word_less_nat_alt of_nat_diff)
next
  case (Cons c pre)
  have lt: "h_count c < n" using Cons.prems(1) by (simp add: word_less_nat_alt)
  then have u: "unat (n - h_count c) = unat n - unat (h_count c)" by (simp add: unat_sub less_imp_le)
  then have "counts pre + unat (h_count b) - unat (n - h_count c) = counts (c # pre) + unat (h_count b) - unat n"
    using Cons.prems by simp
  then show ?case using Cons.IH [of "n - h_count c"] Cons.prems lt u by (simp del: of_nat_diff of_nat_add)
qed

lemma rank_bound:
  assumes r: "rounding rnd" and "unat total_n \<le> 2 ^ 24"
  shows "unat (histo_count rnd ty total_n) \<le> unat total_n"
proof -
  let ?n = "unat total_n" and ?x = "rnd (of_nat (unat total_n) * rnd (histo_p ty))"
  have f: "to_float rnd total_n = of_nat ?n" using assms by (simp add: to_float_def rounding_nat del: of_nat_unat)
  have p: "0 \<le> rnd (histo_p ty)" "rnd (histo_p ty) \<le> 1"
    using rounding_mono [OF r, of 0 "histo_p ty"] rounding_mono [OF r, of "histo_p ty" 1] rounding_01 [OF r] by (cases ty; simp)+
  have "0 \<le> ?x" "?x \<le> of_nat ?n"
    using rounding_mono [OF r, of 0 "of_nat ?n * rnd (histo_p ty)"] rounding_mono [OF r, of "of_nat ?n * rnd (histo_p ty)" "of_nat ?n"]
      rounding_01 [OF r] rounding_nat [OF r assms(2)] p by (auto simp: mult_left_le simp del: of_nat_unat)
  then have "0 \<le> \<lfloor>?x\<rfloor>" "\<lfloor>?x\<rfloor> \<le> int ?n" by (simp_all add: floor_le_iff le_floor_iff del: of_nat_unat)
  then obtain k where k: "\<lfloor>?x\<rfloor> = int k" "k \<le> ?n" by (metis nonneg_int_cases of_nat_le_iff)
  have "histo_count rnd ty total_n = of_nat k" by (simp add: histo_count_def f k(1) del: of_nat_unat)
  then show ?thesis using k(2) le_unat_uoi [of k total_n] by simp
qed

text \<open>The offset the value is computed with, for rank \<open>n\<close> in a bucket with \<open>k\<close> values behind \<open>c\<close> others.\<close>

definition offset_of :: "nat \<Rightarrow> u64 \<Rightarrow> nat \<Rightarrow> u64" where
  "offset_of c k n = (if n = c + unat k then 1 else of_nat (c + unat k - n))"

lemma offset_unat: "c < n \<Longrightarrow> n \<le> c + unat k \<Longrightarrow> unat (offset_of c k n) = (if n = c + unat k then 1 else c + unat k - n)"
  using le_unat_uoi [of "c + unat k - n" k] by (simp add: offset_of_def del: of_nat_diff of_nat_add)

lemma offset_range:
  assumes "c < n" "n \<le> c + unat k"
  shows "0 < offset_of c k n" "offset_of c k n \<le> k"
  using assms offset_unat [OF assms] by (auto simp: word_less_nat_alt word_le_nat_alt)

lemma value_in:
  assumes "counts pre < n" "n \<le> counts pre + unat (h_count b)" "n = unat (histo_count rnd ty (get_histo_bucket_sum (pre @ b # post)))"
  shows "histo_bucket_value rnd (pre @ b # post) ty v = (0, bucket_value rnd b (offset_of (counts pre) (h_count b) n))"
proof -
  let ?k = "counts pre + unat (h_count b) - n"
  have "?k \<le> unat (h_count b)" using assms(1) by simp
  then have "unat (of_nat ?k :: u64) = ?k" by (rule le_unat_uoi)
  then have "(if of_nat ?k = (0 :: u64) then of_nat ?k + 1 else of_nat ?k) = offset_of (counts pre) (h_count b) n"
    using assms(2) by (cases "?k = 0") (auto simp: offset_of_def unat_eq_0 simp del: of_nat_diff of_nat_add)
  then show ?thesis
    unfolding histo_bucket_value_def find_in [OF assms(1,2) [unfolded assms(3)]] prod.case option.case Let_def assms(3) by simp
qed

text \<open>A percentile lies in the right bucket: when the rank is positive, the bucket it is taken from is the first at which the cumulated
  counts reach the rank, and the value is finite and inside the bounds of that bucket, whatever the rounding.\<close>

theorem histo_percentile_bucket:
  assumes "rounding rnd" "in_order lo bs" "\<forall>b \<in> set bs. unat (h_max b) \<le> 2 ^ 24" "counts bs \<le> 2 ^ 24"
    and "n = unat (histo_count rnd ty (get_histo_bucket_sum bs))" "0 < n"
  shows "\<exists>pre b post x. bs = pre @ b # post \<and> counts pre < n \<and> n \<le> counts pre + unat (h_count b) \<and>
    histo_bucket_value rnd bs ty v = (0, Fin x) \<and> of_nat (unat (h_min b)) \<le> x \<and> x \<le> of_nat (unat (h_max b))"
proof -
  let ?w = "histo_count rnd ty (get_histo_bucket_sum bs)"
  have s: "unat (get_histo_bucket_sum bs) = counts bs" using assms(4) by (intro bucket_sum) simp
  then have le: "unat ?w \<le> counts bs" using rank_bound [OF assms(1), of "get_histo_bucket_sum bs" ty] assms(4) by simp
  have "bs \<noteq> []" using le assms(5,6) by auto
  then obtain pre b post where bs: "bs = pre @ b # post" and w: "counts pre < unat ?w \<or> pre = []" "unat ?w \<le> counts pre + unat (h_count b)"
    using find_bucket [OF le, of 0] by blast
  then have n: "counts pre < n" "n \<le> counts pre + unat (h_count b)" using assms(5,6) by auto
  have o: "h_min b < h_max b" using assms(2) unfolding bs by (induction pre arbitrary: lo) auto
  have m: "unat (h_max b) \<le> 2 ^ 24" using assms(3) bs by simp
  let ?o = "offset_of (counts pre) (h_count b) n"
  obtain x where x: "bucket_value rnd b ?o = Fin x" "of_nat (unat (h_min b)) \<le> x" "x \<le> of_nat (unat (h_max b))"
    using bucket_value_bounds [OF assms(1) offset_range [OF n] o] m by blast
  have "histo_bucket_value rnd bs ty v = (0, bucket_value rnd b ?o)"
    unfolding bs by (rule value_in [OF n]) (simp only: assms(5) bs)
  then have "histo_bucket_value rnd bs ty v = (0, Fin x)" by (simp only: x(1))
  with bs n x(2,3) show ?thesis by metis
qed

text \<open>Inside a bucket the interpolation runs backwards: of two percentiles that fall into the same bucket the higher one gets the
  lower value, because the distance to the end of the bucket is taken for the distance from its beginning.\<close>

theorem histo_interpolation_reversed:
  assumes "rounding rnd" "n1 = unat (histo_count rnd ty1 (get_histo_bucket_sum (pre @ b # post)))"
    and "n2 = unat (histo_count rnd ty2 (get_histo_bucket_sum (pre @ b # post)))"
    and "counts pre < n1" "n1 < n2" "n2 \<le> counts pre + unat (h_count b)"
  shows "\<exists>x1 x2. histo_bucket_value rnd (pre @ b # post) ty1 v = (0, Fin x1) \<and> histo_bucket_value rnd (pre @ b # post) ty2 v = (0, Fin x2) \<and> x2 \<le> x1"
proof -
  let ?o = "offset_of (counts pre) (h_count b)"
  have c: "0 < h_count b" using assms(4-6) by (simp add: word_less_nat_alt)
  have n: "counts pre < n2" "n1 \<le> counts pre + unat (h_count b)" using assms(4-6) by simp_all
  have "?o n2 \<le> ?o n1" using offset_unat [OF assms(4) n(2)] offset_unat [OF n(1) assms(6)] assms(5,6) by (auto simp: word_le_nat_alt)
  then have "\<exists>x1 x2. bucket_value rnd b (?o n1) = Fin x1 \<and> bucket_value rnd b (?o n2) = Fin x2 \<and> x2 \<le> x1"
    using bucket_value_mono [OF assms(1) c] bucket_value_finite [OF assms(1) c] by metis
  then show ?thesis
    using value_in [OF assms(4) n(2) assms(2), of v] value_in [OF n(1) assms(6,3), of v] by simp
qed

lemma histo_empty:
  assumes "rounding rnd" "in_order lo (b # bs)" "counts (b # bs) = 0"
  shows "histo_bucket_value rnd (b # bs) ty v = (0, PInf)"
proof -
  have "unat (get_histo_bucket_sum (b # bs)) = 0" using bucket_sum [of "b # bs"] assms(3) by simp
  then have s: "get_histo_bucket_sum (b # bs) = 0" by (simp add: unat_eq_0)
  have "histo_count rnd ty 0 = 0" using rounding_01 [OF assms(1)] by (simp add: histo_count_def to_float_def)
  moreover have "h_count b = 0" using assms(3) by (simp add: unat_eq_0)
  moreover have "0 < h_max b - h_min b" using assms(2) by (simp add: word_less_nat_alt unat_sub less_imp_le)
  ultimately show ?thesis
    using to_float_pos [OF assms(1), of "h_max b - h_min b"] rounding_01 [OF assms(1)]
    by (simp add: histo_bucket_value_def s bucket_value_def f_div_def to_float_def)
qed

section \<open>Examples\<close>

lemma exact_rounding: "rounding id" by (simp add: rounding_def mono_def)

definition demo_buckets :: "u64 \<Rightarrow> u64 \<Rightarrow> histo_bucket_s list" where
  "demo_buckets m n = [\<lparr>h_min = 0, h_max = 10, h_count = m\<rparr>, \<lparr>h_min = 10, h_max = 30, h_count = n\<rparr>]"

theorem histo_counts_exact_witness:
  "add_values (demo_buckets 0 0) [20, 10, 30, 70] = demo_buckets 1 2 \<and> fst (histo_bucket_add_value (demo_buckets 0 0) 70) = - 1"
  using histo_counts_exact [of 0 "demo_buckets 0 0" "[20, 10, 30, 70]" 70] by (simp add: demo_buckets_def histogram_of_def in_bucket_def)

theorem histo_percentile_bucket_witness:
  "\<exists>x. histo_bucket_value id (demo_buckets 40 60) HISTO_P90 NaN = (0, Fin x) \<and> 10 \<le> x \<and> x \<le> 30"
proof -
  have n: "unat (histo_count id HISTO_P90 (get_histo_bucket_sum (demo_buckets 40 60))) = 90"
    by (simp add: histo_count_def get_histo_bucket_sum_def demo_buckets_def to_float_def)
  obtain pre b post x where s: "demo_buckets 40 60 = pre @ b # post" "counts pre < 90" "90 \<le> counts pre + unat (h_count b)"
    "histo_bucket_value id (demo_buckets 40 60) HISTO_P90 NaN = (0, Fin x)" "of_nat (unat (h_min b)) \<le> x" "x \<le> of_nat (unat (h_max b))"
    using histo_percentile_bucket [OF exact_rounding, of 0 "demo_buckets 40 60" 90 HISTO_P90 NaN] n by (auto simp: demo_buckets_def)
  then have "b = \<lparr>h_min = 10, h_max = 30, h_count = 60\<rparr>"
    by (cases pre) (auto simp: demo_buckets_def Cons_eq_append_conv)
  then show ?thesis using s(4-6) by auto
qed

theorem histo_interpolation_reversed_witness:
  "histo_bucket_value id (demo_buckets 100 0) HISTO_P50 NaN = (0, Fin 5) \<and> histo_bucket_value id (demo_buckets 100 0) HISTO_P90 NaN = (0, Fin 1)"
proof -
  let ?b = "\<lparr>h_min = 0, h_max = 10, h_count = 100\<rparr> :: histo_bucket_s" and ?p = "[\<lparr>h_min = 10, h_max = 30, h_count = 0\<rparr>] :: histo_bucket_s list"
  have n: "50 = unat (histo_count id HISTO_P50 (get_histo_bucket_sum ([] @ ?b # ?p)))" "90 = unat (histo_count id HISTO_P90 (get_histo_bucket_sum ([] @ ?b # ?p)))"
    by (simp_all add: histo_count_def get_histo_bucket_sum_def to_float_def)
  have "\<exists>x1 x2. histo_bucket_value id ([] @ ?b # ?p) HISTO_P50 NaN = (0, Fin x1) \<and> histo_bucket_value id ([] @ ?b # ?p) HISTO_P90 NaN = (0, Fin x2) \<and> x2 \<le> x1"
    using histo_interpolation_reversed [OF exact_rounding n] by simp
  then show ?thesis
    by (simp add: demo_buckets_def histo_bucket_value_def histo_count_def get_histo_bucket_sum_def to_float_def bucket_value_def f_div_def)
qed

end
