(* ===== verification/Http_Headers.thy ===== *)
theory Http_Headers
  imports Raw_Data "HOL-Library.Sublist"
begin

text \<open>
  The parser of request and response lines and headers, \<open>protocol/http1.x/parser/http_parse_wrapper.c\<close>, as built without the vector
  instructions. A read behind the end of the buffer and a write behind the array of headers are undefined behaviour. The predicate
  \<open>good\<close> says what an incremental parser is; the locale \<open>incremental\<close> is what its callers rely on, interpreted by the parsers of
  requests and of responses.
\<close>

section \<open>Results\<close>

text \<open>
  A parser returns the position behind what it read, or stores -1 (malformed) or -2 (more data is needed) in \<open>ret\<close> and returns a null
  pointer. The bytes from a position to \<open>buf_end\<close> stand for the position.
\<close>

datatype 'a hp = HErr int | HOk 'a

definition hbnd :: "'a hp outc \<Rightarrow> ('a \<Rightarrow> 'b hp outc) \<Rightarrow> 'b hp outc" where
  "hbnd m f = bnd m (\<lambda>r. case r of HErr e \<Rightarrow> Ok (HErr e) | HOk x \<Rightarrow> f x)"

text \<open>\<open>CHECK_EOF\<close>, \<open>EXPECT_CHAR_NO_CHECK\<close> and \<open>EXPECT_CHAR\<close>.\<close>

definition CHECK_EOF :: "byte list \<Rightarrow> 'a hp outc \<Rightarrow> 'a hp outc" where
  "CHECK_EOF buf k = (if buf = [] then Ok (HErr (- 2)) else k)"

fun EXPECT_CHAR_NO_CHECK :: "byte \<Rightarrow> byte list \<Rightarrow> byte list hp outc" where
  "EXPECT_CHAR_NO_CHECK ch [] = UB"
| "EXPECT_CHAR_NO_CHECK ch (b # buf) = Ok (if b \<noteq> ch then HErr (- 1) else HOk buf)"

definition EXPECT_CHAR :: "byte \<Rightarrow> byte list \<Rightarrow> byte list hp outc" where
  "EXPECT_CHAR ch buf = CHECK_EOF buf (EXPECT_CHAR_NO_CHECK ch buf)"

definition IS_PRINTABLE_ASCII :: "byte \<Rightarrow> bool" where
  "IS_PRINTABLE_ASCII c \<longleftrightarrow> (ucast c :: u32) - 32 < 95"

section \<open>Tokens\<close>

definition token_char_map :: "bool list" where
  "token_char_map =
     replicate 32 False @
     [False, True, False, True, True, True, True, True, False, False, True, True, False, True, True, False,
      True, True, True, True, True, True, True, True, True, True, False, False, False, False, False, False] @
     [False] @ replicate 26 True @ [False, False, False, True, True] @
     replicate 27 True @ [False, True, False, True, False] @ replicate 128 False"

fun token_loop :: "byte \<Rightarrow> byte list \<Rightarrow> (byte list \<times> byte list) hp" where
  "token_loop next_char [] = HErr (- 2)"
| "token_loop next_char (b # buf) =
     (if b = next_char then HOk ([], b # buf)
      else if \<not> token_char_map ! unat b then HErr (- 1)
      else case token_loop next_char buf of HErr e \<Rightarrow> HErr e | HOk (tok, rest) \<Rightarrow> HOk (b # tok, rest))"

text \<open>Without the vector instructions \<open>find_char_fast\<close> returns its argument and finds nothing.\<close>

definition parse_token :: "byte \<Rightarrow> byte list \<Rightarrow> (byte list \<times> byte list) hp outc" where
  "parse_token next_char buf = CHECK_EOF buf (Ok (token_loop next_char buf))"

fun uri_loop :: "byte list \<Rightarrow> (byte list \<times> byte list) hp" where
  "uri_loop [] = HErr (- 2)"
| "uri_loop (b # buf) =
     (if b = 32 then HOk ([], b # buf)
      else if \<not> IS_PRINTABLE_ASCII b \<and> (b < 32 \<or> b = 127) then HErr (- 1)
      else case uri_loop buf of HErr e \<Rightarrow> HErr e | HOk (tok, rest) \<Rightarrow> HOk (b # tok, rest))"

definition ADVANCE_TOKEN :: "byte list \<Rightarrow> (byte list \<times> byte list) hp outc" where
  "ADVANCE_TOKEN buf = CHECK_EOF buf (Ok (uri_loop buf))"

text \<open>A control character that ends a line; the tab does not.\<close>

definition is_ctl :: "byte \<Rightarrow> bool" where
  "is_ctl b \<longleftrightarrow> (b < 32 \<and> b \<noteq> 9) \<or> b = 127"

text \<open>
  The scan for it: eight characters at a time while there are eight, leaving the block at a character that is not printable; what is left, one by
  one. \<open>doit n\<close> is \<open>n\<close> times the macro \<open>DOIT\<close> and says whether it jumped.
\<close>

fun doit :: "nat \<Rightarrow> byte list \<Rightarrow> bool \<times> byte list" where
  "doit (Suc n) (b # buf) = (if \<not> IS_PRINTABLE_ASCII b then (True, b # buf) else doit n buf)"
| "doit n buf = (False, buf)"

lemma doit_length: "length (snd (doit n buf)) \<le> length buf"
  "\<not> fst (doit n buf) \<Longrightarrow> n \<le> length buf \<Longrightarrow> length (snd (doit n buf)) = length buf - n"
  "fst (doit n buf) \<Longrightarrow> snd (doit n buf) \<noteq> []"
  by (induction n buf rule: doit.induct) auto

function eol_fast :: "byte list \<Rightarrow> byte list + byte list" where
  "eol_fast buf =
     (if length buf \<ge> 8 then
        (case doit 8 buf of (jumped, buf') \<Rightarrow>
           if jumped then (if is_ctl (hd buf') then Inl buf' else eol_fast (tl buf')) else eol_fast buf')
      else Inr buf)"
  by pat_completeness auto
termination
proof (relation "measure length", goal_cases)
  case (2 buf x y)
  then have "y \<noteq> []" "length y \<le> length buf" using doit_length(1,3) [of 8 buf] by (auto simp: prod_eq_iff)
  then show ?case by (cases y) auto
next
  case (3 buf x y)
  then show ?case using doit_length(2) [of 8 buf] by (simp add: prod_eq_iff)
qed simp

declare eol_fast.simps [simp del]

fun eol_slow :: "byte list \<Rightarrow> byte list option" where
  "eol_slow [] = None"
| "eol_slow (b # buf) = (if \<not> IS_PRINTABLE_ASCII b \<and> is_ctl b then Some (b # buf) else eol_slow buf)"

definition eol_find :: "byte list \<Rightarrow> byte list option" where
  "eol_find buf = (case eol_fast buf of Inl r \<Rightarrow> Some r | Inr r \<Rightarrow> eol_slow r)"

definition get_token_to_eol :: "byte list \<Rightarrow> (byte list \<times> byte list) hp outc" where
  "get_token_to_eol buf =
     (case eol_find buf of
        None \<Rightarrow> Ok (HErr (- 2))
      | Some [] \<Rightarrow> UB
      | Some (c # r) \<Rightarrow>
          let tok = take (length buf - length (c # r)) buf in
          if c = 13 then hbnd (EXPECT_CHAR 10 r) (\<lambda>r. Ok (HOk (tok, r)))
          else if c = 10 then Ok (HOk (tok, r))
          else Ok (HErr (- 1)))"

section \<open>Lines\<close>

definition PARSE_INT :: "byte list \<Rightarrow> (int \<times> byte list) hp outc" where
  "PARSE_INT buf = (case buf of [] \<Rightarrow> UB | b # r \<Rightarrow> Ok (if b < 48 \<or> 57 < b then HErr (- 1) else HOk (uint b - 48, r)))"

fun expect_all :: "byte list \<Rightarrow> byte list \<Rightarrow> byte list hp outc" where
  "expect_all [] buf = Ok (HOk buf)"
| "expect_all (c # cs) buf = hbnd (EXPECT_CHAR_NO_CHECK c buf) (expect_all cs)"

definition parse_http_version :: "byte list \<Rightarrow> (int \<times> byte list) hp outc" where
  "parse_http_version buf =
     (if length buf < 9 then Ok (HErr (- 2))
      else hbnd (expect_all (map of_char ''HTTP/1.'') buf) PARSE_INT)"

text \<open>Spaces, and spaces and tabs, that are skipped with a check for the end after each.\<close>

fun skip_while :: "byte set \<Rightarrow> byte list \<Rightarrow> byte list hp" where
  "skip_while S [] = HErr (- 2)"
| "skip_while S (b # buf) = (if b \<in> S then skip_while S buf else HOk (b # buf))"

record http_header =
  hh_name :: "byte list option"
  hh_value :: "byte list"

definition K_MAX_NUM_HEADERS :: nat where "K_MAX_NUM_HEADERS = 50"

text \<open>An entry of the array \<open>headers\<close>, whose length is what was allocated for it.\<close>

definition set_header :: "http_header list \<Rightarrow> nat \<Rightarrow> (http_header \<Rightarrow> http_header) \<Rightarrow> http_header list outc" where
  "set_header hs i f = (if i < length hs then Ok (hs[i := f (hs ! i)]) else UB)"

definition trim_ws :: "byte list \<Rightarrow> byte list" where
  "trim_ws v = rev (dropWhile (\<lambda>c. c = 32 \<or> c = 9) (rev v))"

text \<open>One header: its name, unless the line continues the header before, and its value.\<close>

definition header_name :: "http_header list \<Rightarrow> nat \<Rightarrow> byte list \<Rightarrow> (http_header list \<times> byte list) hp outc" where
  "header_name hs num buf =
     (if \<not> (num \<noteq> 0 \<and> (hd buf = 32 \<or> hd buf = 9)) then
        hbnd (parse_token 58 buf) (\<lambda>(name, buf).
          bnd (set_header hs num (\<lambda>h. h\<lparr>hh_name := Some name\<rparr>)) (\<lambda>hs.
            if name = [] then Ok (HErr (- 1))
            else hbnd (Ok (skip_while {32, 9} (tl buf))) (\<lambda>buf. Ok (HOk (hs, buf)))))
      else bnd (set_header hs num (\<lambda>h. h\<lparr>hh_name := None\<rparr>)) (\<lambda>hs. Ok (HOk (hs, buf))))"

definition parse_header :: "http_header list \<Rightarrow> nat \<Rightarrow> byte list \<Rightarrow> (http_header list \<times> byte list) hp outc" where
  "parse_header hs num buf =
     hbnd (header_name hs num buf) (\<lambda>(hs, buf).
       hbnd (get_token_to_eol buf) (\<lambda>(v, buf).
         bnd (set_header hs num (\<lambda>h. h\<lparr>hh_value := trim_ws v\<rparr>)) (\<lambda>hs. Ok (HOk (hs, buf)))))"


section \<open>The scan for the end of a line\<close>

lemma doit_slow: "eol_slow buf = eol_slow (snd (doit n buf))"
proof (induction n buf rule: doit.induct)
  case (1 n b buf)
  then show ?case by (cases "IS_PRINTABLE_ASCII b") simp_all
qed simp_all

lemma doit_jumped: "fst (doit n buf) \<Longrightarrow> \<exists>b r. snd (doit n buf) = b # r \<and> \<not> IS_PRINTABLE_ASCII b"
  by (induction n buf rule: doit.induct) auto

lemma eol_find_slow: "eol_find buf = eol_slow buf"
proof (induction buf rule: eol_fast.induct)
  case (1 buf)
  show ?case
  proof (cases "length buf \<ge> 8")
    case True
    obtain j r where d: "doit 8 buf = (j, r)" by (cases "doit 8 buf")
    have s: "eol_slow buf = eol_slow r" using doit_slow [of buf 8] by (simp add: d)
    show ?thesis
    proof (cases j)
      case True
      then obtain b r' where r: "r = b # r'" "\<not> IS_PRINTABLE_ASCII b" using doit_jumped [of 8 buf] by (auto simp: d)
      show ?thesis
      proof (cases "is_ctl b")
        case True
        then show ?thesis using \<open>j\<close> \<open>length buf \<ge> 8\<close> d r s by (subst eol_find_def, subst eol_fast.simps) simp
      next
        case False
        then have "eol_find r' = eol_slow r'" using 1(1) [OF \<open>length buf \<ge> 8\<close>] \<open>j\<close> d r by auto
        then show ?thesis using False \<open>j\<close> \<open>length buf \<ge> 8\<close> d r s by (subst eol_find_def, subst eol_fast.simps) (simp add: eol_find_def)
      qed
    next
      case False
      then have "eol_find r = eol_slow r" using 1(2) [OF \<open>length buf \<ge> 8\<close>] d by auto
      then show ?thesis using False \<open>length buf \<ge> 8\<close> d s by (subst eol_find_def, subst eol_fast.simps) (simp add: eol_find_def)
    qed
  qed (simp add: eol_find_def eol_fast.simps)
qed

section \<open>Incremental parsers\<close>

text \<open>What the parsers have in common, at one input: they return, with a suffix of the input or one of the two errors, and more input does not
  change an answer other than the request for more.\<close>

definition append_rest :: "byte list \<Rightarrow> ('a \<times> byte list) hp \<Rightarrow> ('a \<times> byte list) hp" where
  "append_rest e r = (case r of HErr x \<Rightarrow> HErr x | HOk (a, rest) \<Rightarrow> HOk (a, rest @ e))"

definition within :: "byte list \<Rightarrow> ('a \<times> byte list) hp \<Rightarrow> bool" where
  "within buf r = (case r of HErr x \<Rightarrow> x = - 1 \<or> x = - 2 | HOk (a, rest) \<Rightarrow> suffix rest buf)"

definition good :: "(byte list \<Rightarrow> ('a \<times> byte list) hp outc) \<Rightarrow> byte list \<Rightarrow> bool" where
  "good p buf \<longleftrightarrow> (\<exists>r. p buf = Ok r \<and> within buf r \<and> (r \<noteq> HErr (- 2) \<longrightarrow> (\<forall>e. p (buf @ e) = Ok (append_rest e r))))"

lemma append_rest_simps [simp]: "append_rest e (HErr x) = HErr x" "append_rest e (HOk (a, rest)) = HOk (a, rest @ e)"
  by (simp_all add: append_rest_def)

lemma within_simps [simp]: "within buf (HErr x) \<longleftrightarrow> x = - 1 \<or> x = - 2" "within buf (HOk (a, rest)) \<longleftrightarrow> suffix rest buf"
  by (simp_all add: within_def)

lemma hbnd_simps [simp]: "hbnd (Ok (HErr e)) f = Ok (HErr e)" "hbnd (Ok (HOk x)) f = f x" "hbnd UB f = UB"
  by (simp_all add: hbnd_def)

lemma good_cases:
  assumes "good p buf"
  obtains "p buf = Ok (HErr (- 2))"
    | "p buf = Ok (HErr (- 1))" "\<And>e. p (buf @ e) = Ok (HErr (- 1))"
    | x rest where "p buf = Ok (HOk (x, rest))" "suffix rest buf" "\<And>e. p (buf @ e) = Ok (HOk (x, rest @ e))"
proof -
  obtain r where r: "p buf = Ok r" "within buf r" "r \<noteq> HErr (- 2) \<longrightarrow> (\<forall>e. p (buf @ e) = Ok (append_rest e r))"
    using assms by (auto simp: good_def)
  show ?thesis
  proof (cases r)
    case (HErr x)
    then show ?thesis using that(1,2) r by auto
  next
    case (HOk y)
    then show ?thesis using that(3) [of "fst y" "snd y"] r by (cases y) auto
  qed
qed

lemma good_needs: "p buf = Ok (HErr (- 2)) \<Longrightarrow> good p buf" by (simp add: good_def)

lemma good_refused: "p buf = Ok (HErr (- 1)) \<Longrightarrow> (\<And>e. p (buf @ e) = Ok (HErr (- 1))) \<Longrightarrow> good p buf" by (simp add: good_def)

lemma good_done:
  "p buf = Ok (HOk (x, rest)) \<Longrightarrow> suffix rest buf \<Longrightarrow> (\<And>e. p (buf @ e) = Ok (HOk (x, rest @ e))) \<Longrightarrow> good p buf"
  by (simp add: good_def)

text \<open>One parser after the other.\<close>

lemma good_then:
  assumes "good p buf" "\<And>x rest. p buf = Ok (HOk (x, rest)) \<Longrightarrow> suffix rest buf \<Longrightarrow> good (f x) rest"
  shows "good (\<lambda>buf. hbnd (p buf) (\<lambda>(x, rest). f x rest)) buf"
  using assms(1)
proof (cases rule: good_cases)
  case 1 then show ?thesis by (simp add: good_needs)
next
  case 2 then show ?thesis by (simp add: good_refused)
next
  case (3 x rest)
  from assms(2) [OF 3(1,2)] show ?thesis
  proof (cases rule: good_cases)
    case 1 then show ?thesis using 3 by (simp add: good_needs)
  next
    case 2 then show ?thesis using 3 by (simp add: good_refused)
  next
    case (3 y rest')
    then show ?thesis using \<open>p buf = _\<close> \<open>suffix rest buf\<close> \<open>\<And>e. p (buf @ e) = _\<close> by (intro good_done) (auto intro: suffix_order.trans)
  qed
qed

lemma good_cong: "good p buf \<Longrightarrow> q = p \<Longrightarrow> good q buf" by simp

lemma good_return: "good (\<lambda>buf. Ok (HOk (x, buf))) buf" by (simp add: good_def)

section \<open>The single parsers\<close>

lemma good_expect: "(\<And>rest. suffix rest buf \<Longrightarrow> good f rest) \<Longrightarrow> good (\<lambda>buf. hbnd (EXPECT_CHAR c buf) f) buf"
proof (cases buf)
  case (Cons b r)
  assume f: "\<And>rest. suffix rest buf \<Longrightarrow> good f rest"
  show ?thesis
  proof (cases "b = c")
    case True
    have "suffix r buf" by (simp add: Cons suffix_ConsI)
    from f [OF this] show ?thesis
    proof (cases rule: good_cases)
      case 1 then show ?thesis using True Cons by (intro good_needs) (simp add: EXPECT_CHAR_def CHECK_EOF_def)
    next
      case 2 then show ?thesis using True Cons by (intro good_refused) (simp_all add: EXPECT_CHAR_def CHECK_EOF_def)
    next
      case (3 x rest) then show ?thesis using True Cons by (intro good_done) (auto simp: EXPECT_CHAR_def CHECK_EOF_def suffix_ConsI)
    qed
  next
    case False then show ?thesis using Cons by (intro good_refused) (simp_all add: EXPECT_CHAR_def CHECK_EOF_def)
  qed
qed (simp add: good_needs EXPECT_CHAR_def CHECK_EOF_def)

lemma token_loop_good: "good (\<lambda>buf. Ok (token_loop c buf)) buf"
proof (induction buf)
  case (Cons b buf)
  show ?case
  proof (cases "b = c \<or> \<not> token_char_map ! unat b")
    case True then show ?thesis by (auto simp: good_def)
  next
    case False
    from Cons show ?thesis
    proof (cases rule: good_cases)
      case 1 then show ?thesis using False by (intro good_needs) simp
    next
      case 2 then show ?thesis using False by (intro good_refused) simp_all
    next
      case (3 x rest) then show ?thesis using False by (intro good_done [where x = "b # x" and rest = rest]) (auto simp: suffix_ConsI)
    qed
  qed
qed (simp add: good_needs)

lemma uri_loop_good: "good (\<lambda>buf. Ok (uri_loop buf)) buf"
proof (induction buf)
  case (Cons b buf)
  show ?case
  proof (cases "b = 32 \<or> \<not> IS_PRINTABLE_ASCII b \<and> (b < 32 \<or> b = 127)")
    case True then show ?thesis by (auto simp: good_def)
  next
    case False
    from Cons show ?thesis
    proof (cases rule: good_cases)
      case 1 then show ?thesis using False by (intro good_needs) auto
    next
      case 2 then show ?thesis using False by (intro good_refused) auto
    next
      case (3 x rest) then show ?thesis using False by (intro good_done [where x = "b # x" and rest = rest]) (auto simp: suffix_ConsI)
    qed
  qed
qed (simp add: good_needs)

lemma check_eof_good: "good p buf \<Longrightarrow> good (\<lambda>buf. CHECK_EOF buf (p buf)) buf" if "p [] = Ok (HErr (- 2))"
proof -
  have "CHECK_EOF b (p b) = p b" for b using that by (simp add: CHECK_EOF_def)
  then show "good p buf \<Longrightarrow> good (\<lambda>buf. CHECK_EOF buf (p buf)) buf" by simp
qed

lemma parse_token_good: "good (parse_token c) buf"
  using check_eof_good [OF _ token_loop_good, of c buf] by (simp add: parse_token_def [abs_def])

lemma advance_token_good: "good ADVANCE_TOKEN buf"
  using check_eof_good [OF _ uri_loop_good, of buf] by (simp add: ADVANCE_TOKEN_def [abs_def])

lemma skip_good: "(\<And>rest. suffix rest buf \<Longrightarrow> good f rest) \<Longrightarrow> good (\<lambda>buf. hbnd (Ok (skip_while S buf)) f) buf"
proof (induction buf)
  case (Cons b buf)
  show ?case
  proof (cases "b \<in> S")
    case True
    then have "(\<lambda>buf. hbnd (Ok (skip_while S (b # buf))) f) = (\<lambda>buf. hbnd (Ok (skip_while S buf)) f)" by simp
    moreover have g: "good (\<lambda>buf. hbnd (Ok (skip_while S buf)) f) buf" using Cons by (simp add: suffix_ConsI)
    ultimately show ?thesis using True by (cases rule: good_cases [OF g]) (auto intro: good_needs good_refused good_done simp: suffix_ConsI)
  next
    case False
    have "good f (b # buf)" using Cons.prems by simp
    then show ?thesis using False by (cases rule: good_cases) (auto intro: good_needs good_refused good_done)
  qed
qed (simp add: good_needs)


lemma eol_slow_split: "eol_slow buf = Some s \<Longrightarrow> \<exists>tok c r. s = c # r \<and> buf = tok @ c # r \<and> (\<forall>e. eol_slow (buf @ e) = Some (c # r @ e))"
proof (induction buf)
  case (Cons b buf)
  show ?case
  proof (cases "\<not> IS_PRINTABLE_ASCII b \<and> is_ctl b")
    case True then show ?thesis using Cons.prems by auto
  next
    case False
    then have "eol_slow buf = Some s" using Cons.prems by auto
    from Cons.IH [OF this] obtain tok c r where "s = c # r" "buf = tok @ c # r" "\<And>e. eol_slow (buf @ e) = Some (c # r @ e)" by blast
    then show ?thesis using False by (intro exI [of _ "b # tok"] exI [of _ c] exI [of _ r]) auto
  qed
qed simp

lemma get_token_good: "good get_token_to_eol buf"
proof (cases "eol_slow buf")
  case None
  then show ?thesis by (intro good_needs) (simp add: get_token_to_eol_def eol_find_slow)
next
  case (Some s)
  from eol_slow_split [OF this] obtain tok c r where s: "s = c # r" "buf = tok @ c # r" "\<And>e. eol_slow (buf @ e) = Some (c # r @ e)" by blast
  have t: "get_token_to_eol (buf @ e) = (if c = 13 then hbnd (EXPECT_CHAR 10 (r @ e)) (\<lambda>r. Ok (HOk (tok, r)))
      else if c = 10 then Ok (HOk (tok, r @ e)) else Ok (HErr (- 1)))" for e
    using s(3) [of e] by (simp add: get_token_to_eol_def eol_find_slow s(2) Let_def)
  have t0: "get_token_to_eol buf = (if c = 13 then hbnd (EXPECT_CHAR 10 r) (\<lambda>r. Ok (HOk (tok, r)))
      else if c = 10 then Ok (HOk (tok, r)) else Ok (HErr (- 1)))" using t [of "[]"] by simp
  have suf: "suffix r buf" by (simp add: s(2) suffix_def)
  show ?thesis
  proof (cases "c = 13")
    case True
    have "good (\<lambda>buf. hbnd (EXPECT_CHAR 10 buf) (\<lambda>r. Ok (HOk (tok, r)))) r" by (rule good_expect) (rule good_return)
    then show ?thesis
      by (cases rule: good_cases) (use True t t0 suf in \<open>auto simp: good_def intro: suffix_order.trans\<close>)
  next
    case False then show ?thesis using t t0 suf by (auto simp: good_def)
  qed
qed

lemma get_token_shorter: "get_token_to_eol buf = Ok (HOk (v, rest)) \<Longrightarrow> length rest < length buf"
proof -
  assume a: "get_token_to_eol buf = Ok (HOk (v, rest))"
  then obtain s where "eol_slow buf = Some s" by (cases "eol_slow buf") (auto simp: get_token_to_eol_def eol_find_slow)
  from this eol_slow_split [OF this] obtain tok c r where "eol_slow buf = Some (c # r)" "buf = tok @ c # r" by blast
  then show ?thesis using a by (cases r) (auto simp: get_token_to_eol_def eol_find_slow Let_def EXPECT_CHAR_def CHECK_EOF_def split: if_splits)
qed

lemma token_loop_rest: "token_loop c buf = HOk (tok, rest) \<Longrightarrow> buf = tok @ rest \<and> rest \<noteq> [] \<and> hd rest = c"
  by (induction buf arbitrary: tok) (auto split: if_splits hp.splits)

lemma skip_length: "skip_while S buf = HOk rest \<Longrightarrow> length rest \<le> length buf"
  by (induction buf) (auto split: if_splits)

lemma hbnd_eq_OkD: "hbnd m f = Ok (HOk y) \<Longrightarrow> \<exists>x. m = Ok (HOk x) \<and> f x = Ok (HOk y)"
  by (auto simp: hbnd_def split: hp.splits dest!: bnd_eq_OkD)

lemma header_name_length: "header_name hs num buf = Ok (HOk (hs', rest)) \<Longrightarrow> length rest \<le> length buf"
  by (auto simp: header_name_def parse_token_def CHECK_EOF_def split: if_splits dest!: hbnd_eq_OkD bnd_eq_OkD token_loop_rest skip_length)

lemma parse_header_shorter: "parse_header hs num buf = Ok (HOk (hs', rest)) \<Longrightarrow> length rest < length buf"
  unfolding parse_header_def
  by (auto split: prod.splits dest!: hbnd_eq_OkD bnd_eq_OkD) (metis get_token_shorter header_name_length less_le_trans)

section \<open>Headers and first lines\<close>

function parse_headers :: "http_header list \<Rightarrow> nat \<Rightarrow> byte list \<Rightarrow> ((http_header list \<times> nat) \<times> byte list) hp outc" where
  "parse_headers hs num buf =
     (case buf of [] \<Rightarrow> Ok (HErr (- 2))
      | b # r \<Rightarrow>
          if b = 13 then hbnd (EXPECT_CHAR 10 r) (\<lambda>r. Ok (HOk ((hs, num), r)))
          else if b = 10 then Ok (HOk ((hs, num), r))
          else if num = K_MAX_NUM_HEADERS then Ok (HErr (- 1))
          else (case parse_header hs num buf of UB \<Rightarrow> UB | NoRet \<Rightarrow> NoRet | Ok (HErr e) \<Rightarrow> Ok (HErr e)
            | Ok (HOk (hs, rest)) \<Rightarrow> parse_headers hs (num + 1) rest))"
  by pat_completeness auto
termination by (relation "measure (\<lambda>(hs, num, buf). length buf)") (auto dest: parse_header_shorter)

declare parse_headers.simps [simp del]

record http_request =
  rq_method :: "byte list"
  rq_path :: "byte list"
  rq_minor_version :: int
  rq_headers :: "http_header list"
  rq_num_headers :: nat

record http_response =
  rs_msg :: "byte list"
  rs_status :: int
  rs_minor_version :: int
  rs_headers :: "http_header list"
  rs_num_headers :: nat

text \<open>An empty line in front of a request, and the end of the first line.\<close>

definition skip_empty_line :: "byte list \<Rightarrow> (unit \<times> byte list) hp outc" where
  "skip_empty_line buf = CHECK_EOF buf
     (if hd buf = 13 then hbnd (EXPECT_CHAR 10 (tl buf)) (\<lambda>buf. Ok (HOk ((), buf)))
      else if hd buf = 10 then Ok (HOk ((), tl buf)) else Ok (HOk ((), buf)))"

fun end_of_line :: "byte list \<Rightarrow> (unit \<times> byte list) hp outc" where
  "end_of_line [] = UB"
| "end_of_line (b # r) =
     (if b = 13 then hbnd (EXPECT_CHAR 10 r) (\<lambda>r. Ok (HOk ((), r)))
      else if b = 10 then Ok (HOk ((), r)) else Ok (HErr (- 1)))"

definition parse_request_line :: "http_header list \<Rightarrow> byte list \<Rightarrow> (http_request \<times> byte list) hp outc" where
  "parse_request_line hs buf =
     hbnd (skip_empty_line buf) (\<lambda>(_, buf).
     hbnd (parse_token 32 buf) (\<lambda>(method, buf).
     hbnd (Ok (skip_while {32} (tl buf))) (\<lambda>buf.
     hbnd (ADVANCE_TOKEN buf) (\<lambda>(path, buf).
     hbnd (Ok (skip_while {32} (tl buf))) (\<lambda>buf.
       if method = [] \<or> path = [] then Ok (HErr (- 1))
       else hbnd (parse_http_version buf) (\<lambda>(minor, buf).
       hbnd (end_of_line buf) (\<lambda>(_, buf).
       hbnd (parse_headers hs 0 buf) (\<lambda>((hs, num), buf).
         Ok (HOk (\<lparr>rq_method = method, rq_path = path, rq_minor_version = minor, rq_headers = hs, rq_num_headers = num\<rparr>, buf))))))))))"

definition parse_status :: "byte list \<Rightarrow> (int \<times> byte list) hp outc" where
  "parse_status buf =
     hbnd (PARSE_INT buf) (\<lambda>(h, buf). hbnd (PARSE_INT buf) (\<lambda>(t, buf). hbnd (PARSE_INT buf) (\<lambda>(u, buf).
       Ok (HOk (100 * h + 10 * t + u, buf)))))"

definition parse_response_line :: "http_header list \<Rightarrow> byte list \<Rightarrow> (http_response \<times> byte list) hp outc" where
  "parse_response_line hs buf =
     hbnd (parse_http_version buf) (\<lambda>(minor, buf).
       case buf of [] \<Rightarrow> UB
       | b # r \<Rightarrow>
          if b \<noteq> 32 then Ok (HErr (- 1))
          else hbnd (Ok (skip_while {32} r)) (\<lambda>buf.
            if length buf < 4 then Ok (HErr (- 2))
            else hbnd (parse_status buf) (\<lambda>(status, buf).
            hbnd (get_token_to_eol buf) (\<lambda>(msg, buf).
              if msg \<noteq> [] \<and> hd msg \<noteq> 32 then Ok (HErr (- 1))
              else hbnd (parse_headers hs 0 buf) (\<lambda>((hs, num), buf).
                Ok (HOk (\<lparr>rs_msg = dropWhile (\<lambda>c. c = 32) msg, rs_status = status, rs_minor_version = minor, rs_headers = hs, rs_num_headers = num\<rparr>, buf)))))))"

text \<open>\<open>init_http_header\<close> allocates one header.\<close>

definition init_http_header :: "http_header list" where
  "init_http_header = [\<lparr>hh_name = Some [], hh_value = []\<rparr>]"

text \<open>The length of what was parsed, cast to \<open>int\<close> and then to \<open>size_t\<close>: an error is a huge number.\<close>

definition header_offset :: "byte list \<Rightarrow> ('a \<times> byte list) hp \<Rightarrow> u64 \<times> 'a option" where
  "header_offset buf r = (case r of HErr e \<Rightarrow> (of_int e, None) | HOk (x, rest) \<Rightarrow> (scast (of_nat (length buf - length rest) :: 32 word), Some x))"

definition http_parse_request_headers :: "raw_data_s \<Rightarrow> http_header list \<Rightarrow> (u64 \<times> http_request option) outc" where
  "http_parse_request_headers raw hs =
     (let buf = drop (current_pos raw) (data raw) in bnd (parse_request_line hs buf) (\<lambda>r. Ok (header_offset buf r)))"

definition http_parse_response_headers :: "raw_data_s \<Rightarrow> http_header list \<Rightarrow> (u64 \<times> http_response option) outc" where
  "http_parse_response_headers raw hs =
     (let buf = drop (current_pos raw) (data raw) in bnd (parse_response_line hs buf) (\<lambda>r. Ok (header_offset buf r)))"


section \<open>The header parsers are incremental\<close>

lemma good_shift: "good p r \<Longrightarrow> (\<And>s. q (b # s) = p s) \<Longrightarrow> good q (b # r)"
  by (cases rule: good_cases [of p r]) (auto simp: good_def suffix_ConsI)

lemma within_Cons: "within r x \<Longrightarrow> within (b # r) x" by (auto simp: within_def suffix_ConsI split: hp.splits)

lemma good_const: "good (\<lambda>_. Ok (HErr (- 1))) buf" "good (\<lambda>_. Ok (HErr (- 2))) buf" by (simp_all add: good_def)

lemma header_name_good:
  assumes "num < length hs" "buf \<noteq> []"
  shows "good (header_name hs num) buf"
proof (cases "num \<noteq> 0 \<and> (hd buf = 32 \<or> hd buf = 9)")
  case True
  then show ?thesis using assms by (intro good_done [where x = "hs[num := (hs ! num)\<lparr>hh_name := None\<rparr>]" and rest = buf]) (auto simp: header_name_def set_header_def)
next
  case False
  let ?q = "\<lambda>buf. hbnd (parse_token 58 buf) (\<lambda>(name, buf).
          bnd (set_header hs num (\<lambda>h. h\<lparr>hh_name := Some name\<rparr>)) (\<lambda>hs.
            if name = [] then Ok (HErr (- 1))
            else hbnd (Ok (skip_while {32, 9} (tl buf))) (\<lambda>buf. Ok (HOk (hs, buf)))))"
  have "good ?q buf"
  proof (rule good_then [OF parse_token_good])
    fix name rest assume "parse_token 58 buf = Ok (HOk (name, rest))" "suffix rest buf"
    then obtain c r where r: "rest = c # r" by (cases rest) (auto simp: parse_token_def CHECK_EOF_def split: if_splits dest!: token_loop_rest)
    let ?hs = "hs[num := (hs ! num)\<lparr>hh_name := Some name\<rparr>]"
    have "good (\<lambda>buf. if name = [] then Ok (HErr (- 1)) else hbnd (Ok (skip_while {32, 9} buf)) (\<lambda>buf. Ok (HOk (?hs, buf)))) r"
      using skip_good [of r "\<lambda>buf. Ok (HOk (?hs, buf))" "{32, 9}"] by (cases "name = []") (auto simp: good_const good_return)
    then show "good (\<lambda>buf. bnd (set_header hs num (\<lambda>h. h\<lparr>hh_name := Some name\<rparr>)) (\<lambda>hs.
            if name = [] then Ok (HErr (- 1)) else hbnd (Ok (skip_while {32, 9} (tl buf))) (\<lambda>buf. Ok (HOk (hs, buf))))) rest"
      unfolding r by (rule good_shift) (use assms(1) in \<open>simp add: set_header_def\<close>)
  qed
  moreover have eq: "header_name hs num (buf @ e) = ?q (buf @ e)" for e
    using False assms(2) by (auto simp: header_name_def)
  ultimately show ?thesis using eq [of "[]"] by (simp add: good_def)
qed

lemma header_name_size: "header_name hs num buf = Ok (HOk (hs', rest)) \<Longrightarrow> length hs' = length hs"
  by (auto simp: header_name_def set_header_def split: if_splits dest!: hbnd_eq_OkD bnd_eq_OkD)

lemma parse_header_size: "parse_header hs num buf = Ok (HOk (hs', rest)) \<Longrightarrow> length hs' = length hs"
  by (auto simp: parse_header_def set_header_def split: if_splits dest!: hbnd_eq_OkD bnd_eq_OkD header_name_size)

lemma parse_header_good:
  assumes "num < length hs" "buf \<noteq> []"
  shows "good (parse_header hs num) buf"
  unfolding parse_header_def
proof (rule good_then [OF header_name_good [OF assms]])
  fix hs1 rest assume "header_name hs num buf = Ok (HOk (hs1, rest))"
  then have n: "num < length hs1" using assms(1) header_name_size by simp
  show "good (\<lambda>buf. hbnd (get_token_to_eol buf) (\<lambda>(v, buf). bnd (set_header hs1 num (\<lambda>h. h\<lparr>hh_value := trim_ws v\<rparr>)) (\<lambda>hs. Ok (HOk (hs, buf))))) rest"
    by (rule good_then [OF get_token_good]) (simp add: set_header_def n good_return)
qed

lemma parse_headers_step:
  "b \<noteq> 13 \<Longrightarrow> b \<noteq> 10 \<Longrightarrow> num \<noteq> K_MAX_NUM_HEADERS \<Longrightarrow> parse_headers hs num (b # r) = hbnd (parse_header hs num (b # r)) (\<lambda>(hs, rest). parse_headers hs (num + 1) rest)"
  by (subst parse_headers.simps) (auto simp: hbnd_def bnd_def split: outc.splits hp.splits)

lemma parse_headers_simps [simp]:
  "parse_headers hs num [] = Ok (HErr (- 2))"
  "parse_headers hs num (13 # r) = hbnd (EXPECT_CHAR 10 r) (\<lambda>r. Ok (HOk ((hs, num), r)))"
  "parse_headers hs num (10 # r) = Ok (HOk ((hs, num), r))"
  "b \<noteq> 13 \<Longrightarrow> b \<noteq> 10 \<Longrightarrow> parse_headers hs K_MAX_NUM_HEADERS (b # r) = Ok (HErr (- 1))"
  by (simp_all add: parse_headers.simps)

lemma parse_headers_good:
  assumes "K_MAX_NUM_HEADERS \<le> length hs" "num \<le> K_MAX_NUM_HEADERS"
  shows "good (parse_headers hs num) buf"
  using assms
proof (induction "length buf" arbitrary: buf hs num rule: less_induct)
  case less
  show ?case
  proof (cases buf)
    case Nil then show ?thesis by (simp add: good_needs)
  next
    case (Cons b r)
    consider "b = 13" | "b = 10" | "b \<noteq> 13" "b \<noteq> 10" "num = K_MAX_NUM_HEADERS" | "b \<noteq> 13" "b \<noteq> 10" "num < K_MAX_NUM_HEADERS"
      using less.prems(2) by linarith
    then show ?thesis
    proof cases
      case 1
      have "good (\<lambda>buf. hbnd (EXPECT_CHAR 10 buf) (\<lambda>r. Ok (HOk ((hs, num), r)))) r" by (rule good_expect) (rule good_return)
      then show ?thesis unfolding Cons 1 by (rule good_shift) simp
    next
      case 2 then show ?thesis unfolding Cons 2 by (intro good_shift [OF good_return]) simp
    next
      case 3 then show ?thesis unfolding Cons by (intro good_shift [OF good_const(1)]) simp
    next
      case 4
      have "good (\<lambda>buf. hbnd (parse_header hs num buf) (\<lambda>(hs, rest). parse_headers hs (num + 1) rest)) buf"
      proof (rule good_then)
        show "good (parse_header hs num) buf" using 4 less.prems(1) Cons by (intro parse_header_good) auto
        fix hs1 rest assume p: "parse_header hs num buf = Ok (HOk (hs1, rest))"
        then show "good (parse_headers hs1 (num + 1)) rest"
          using less.prems 4(3) parse_header_shorter [OF p] parse_header_size [OF p] by (intro less.hyps) auto
      qed
      moreover have eq: "parse_headers hs num (buf @ e) = hbnd (parse_header hs num (buf @ e)) (\<lambda>(hs, rest). parse_headers hs (num + 1) rest)" for e
        using 4 by (simp add: Cons parse_headers_step)
      ultimately show ?thesis using eq [of "[]"] by (simp add: good_def)
    qed
  qed
qed

lemma skip_empty_line_good: "good skip_empty_line buf"
proof (cases buf)
  case (Cons b r)
  have "good (\<lambda>buf. hbnd (EXPECT_CHAR 10 buf) (\<lambda>r. Ok (HOk ((), r)))) r" by (rule good_expect) (rule good_return)
  moreover have "good (\<lambda>buf. Ok (HOk ((), buf))) r" by (rule good_return)
  ultimately show ?thesis
    unfolding Cons by (cases "b = 13"; cases "b = 10") (auto simp: good_def skip_empty_line_def CHECK_EOF_def suffix_ConsI within_Cons)
qed (simp add: good_needs skip_empty_line_def CHECK_EOF_def)

lemma end_of_line_good: "buf \<noteq> [] \<Longrightarrow> good end_of_line buf"
proof (cases buf)
  case (Cons b r)
  have "good (\<lambda>buf. hbnd (EXPECT_CHAR 10 buf) (\<lambda>r. Ok (HOk ((), r)))) r" by (rule good_expect) (rule good_return)
  then show ?thesis unfolding Cons by (cases "b = 13"; cases "b = 10") (auto simp: good_def suffix_ConsI within_Cons)
qed simp

lemma expect_all_cases:
  "length cs \<le> length buf \<Longrightarrow> (\<exists>r. buf = cs @ r \<and> (\<forall>e. expect_all cs (buf @ e) = Ok (HOk (r @ e)))) \<or> (\<forall>e. expect_all cs (buf @ e) = Ok (HErr (- 1)))"
proof (induction cs arbitrary: buf)
  case (Cons c cs)
  then obtain b r where "buf = b # r" by (cases buf) auto
  then show ?case using Cons.IH [of r] Cons.prems by auto
qed simp

lemma parse_http_version_good: "good parse_http_version buf"
  and parse_http_version_rest: "parse_http_version buf = Ok (HOk (v, rest)) \<Longrightarrow> rest \<noteq> []"
proof -
  let ?cs = "map of_char ''HTTP/1.'' :: byte list"
  have "good parse_http_version buf \<and> (\<forall>v rest. parse_http_version buf = Ok (HOk (v, rest)) \<longrightarrow> rest \<noteq> [])"
  proof (cases "length buf < 9")
    case True then show ?thesis by (auto intro: good_needs simp: parse_http_version_def)
  next
    case False
    then have l: "length ?cs \<le> length buf" by simp
    from expect_all_cases [OF l] consider r where "buf = ?cs @ r" "\<And>e. expect_all ?cs (buf @ e) = Ok (HOk (r @ e))"
      | "\<And>e. expect_all ?cs (buf @ e) = Ok (HErr (- 1))" by blast
    then show ?thesis
    proof cases
      case 1
      then obtain d s where r: "r = d # s" "s \<noteq> []" using False by (cases r; cases "tl r") auto
      have "parse_http_version (buf @ e) = PARSE_INT (r @ e)" for e using False 1(2) [of e] by (simp add: parse_http_version_def)
      then show ?thesis
        using r 1(1) parse_http_version_def [of buf] 1(2) [of "[]"] False
        by (auto simp: good_def PARSE_INT_def suffix_def)
    next
      case 2
      have "parse_http_version (buf @ e) = Ok (HErr (- 1))" for e using False 2 [of e] by (simp add: parse_http_version_def)
      from this [of "[]"] this show ?thesis by (simp add: good_def)
    qed
  qed
  then show "good parse_http_version buf" "parse_http_version buf = Ok (HOk (v, rest)) \<Longrightarrow> rest \<noteq> []" by blast+
qed


lemma skip_tl_good:
  assumes "rest \<noteq> []" "\<And>s. good f s"
  shows "good (\<lambda>buf. hbnd (Ok (skip_while S (tl buf))) f) rest"
proof -
  obtain b r where "rest = b # r" using assms(1) by (cases rest) auto
  then show ?thesis using skip_good [of r f S] assms(2) by (auto intro!: good_shift [where p = "\<lambda>buf. hbnd (Ok (skip_while S buf)) f"])
qed

lemma uri_loop_rest: "uri_loop buf = HOk (tok, rest) \<Longrightarrow> rest \<noteq> []"
  by (induction buf arbitrary: tok) (auto split: if_splits hp.splits)

lemma token_rest: "parse_token c buf = Ok (HOk (tok, rest)) \<Longrightarrow> rest \<noteq> []" "ADVANCE_TOKEN buf = Ok (HOk (tok, rest)) \<Longrightarrow> rest \<noteq> []"
  by (auto simp: parse_token_def ADVANCE_TOKEN_def CHECK_EOF_def split: if_splits dest: token_loop_rest uri_loop_rest)

lemma good_if: "(c \<Longrightarrow> good p buf) \<Longrightarrow> (\<not> c \<Longrightarrow> good q buf) \<Longrightarrow> good (\<lambda>buf. if c then p buf else q buf) buf"
  by (cases c) simp_all

lemma headers_then_good:
  assumes "K_MAX_NUM_HEADERS \<le> length hs"
  shows "good (\<lambda>buf. hbnd (parse_headers hs 0 buf) (\<lambda>((hs, num), buf). Ok (HOk (f hs num, buf)))) buf"
proof -
  have "good (\<lambda>buf. hbnd (parse_headers hs 0 buf) (\<lambda>(x, buf). Ok (HOk (f (fst x) (snd x), buf)))) buf"
    by (rule good_then [OF parse_headers_good [OF assms]]) (simp_all add: good_return)
  then show ?thesis by (simp add: case_prod_beta')
qed

lemma parse_request_line_good:
  assumes "K_MAX_NUM_HEADERS \<le> length hs"
  shows "good (parse_request_line hs) buf"
  unfolding parse_request_line_def
  apply (rule good_then [OF skip_empty_line_good])
  apply (rule good_then [OF parse_token_good])
  apply (rule skip_tl_good, erule token_rest)
  apply (rule good_then [OF advance_token_good])
  apply (rule skip_tl_good, erule token_rest)
  apply (rule good_if, rule good_const)
  apply (rule good_then [OF parse_http_version_good])
  apply (rule good_then [OF end_of_line_good], erule parse_http_version_rest)
  apply (rule headers_then_good [OF assms])
  done

lemma parse_status_good: "3 \<le> length buf \<Longrightarrow> good parse_status buf"
proof -
  assume "3 \<le> length buf"
  then obtain a b c r where "buf = a # b # c # r" by (auto simp: Suc_le_length_iff numeral_3_eq_3)
  then show ?thesis by (auto simp: good_def parse_status_def PARSE_INT_def suffix_ConsI)
qed

lemma good_long: "good q buf \<Longrightarrow> (\<And>e. length buf \<ge> n \<Longrightarrow> p (buf @ e) = q (buf @ e)) \<Longrightarrow> length buf \<ge> n \<Longrightarrow> good p buf"
  using append_Nil2 [of buf] by (metis good_def)

lemma after_spaces_good:
  assumes "K_MAX_NUM_HEADERS \<le> length hs"
  shows "good (\<lambda>buf. if length buf < 4 then Ok (HErr (- 2))
            else hbnd (parse_status buf) (\<lambda>(status, buf).
            hbnd (get_token_to_eol buf) (\<lambda>(msg, buf).
              if msg \<noteq> [] \<and> hd msg \<noteq> 32 then Ok (HErr (- 1))
              else hbnd (parse_headers hs 0 buf) (\<lambda>((hs, num), buf).
                Ok (HOk (\<lparr>rs_msg = dropWhile (\<lambda>c. c = 32) msg, rs_status = status, rs_minor_version = minor, rs_headers = hs, rs_num_headers = num\<rparr>, buf)))))) buf"
    (is "good ?p buf")
proof (cases "length buf < 4")
  case False
  let ?q = "\<lambda>buf. hbnd (parse_status buf) (\<lambda>(status, buf). hbnd (get_token_to_eol buf) (\<lambda>(msg, buf).
      if msg \<noteq> [] \<and> hd msg \<noteq> 32 then Ok (HErr (- 1))
      else hbnd (parse_headers hs 0 buf) (\<lambda>((hs, num), buf).
        Ok (HOk (\<lparr>rs_msg = dropWhile (\<lambda>c. c = 32) msg, rs_status = status, rs_minor_version = minor, rs_headers = hs, rs_num_headers = num\<rparr>, buf)))))"
  have "good ?q buf"
    apply (rule good_then [OF parse_status_good])
    using False apply simp
    apply (rule good_then [OF get_token_good])
    apply (rule good_if, rule good_const, rule headers_then_good [OF assms])
    done
  then show ?thesis by (rule good_long [where n = 4]) (use False in auto)
qed (simp add: good_needs)

lemma parse_response_line_good:
  assumes "K_MAX_NUM_HEADERS \<le> length hs"
  shows "good (parse_response_line hs) buf"
  unfolding parse_response_line_def
proof (rule good_then [OF parse_http_version_good])
  fix minor rest assume "parse_http_version buf = Ok (HOk (minor, rest))"
  then obtain b r where r: "rest = b # r" using parse_http_version_rest by (cases rest) auto
  show "good (\<lambda>buf. case buf of [] \<Rightarrow> UB
       | b # r \<Rightarrow>
          if b \<noteq> 32 then Ok (HErr (- 1))
          else hbnd (Ok (skip_while {32} r)) (\<lambda>buf.
            if length buf < 4 then Ok (HErr (- 2))
            else hbnd (parse_status buf) (\<lambda>(status, buf).
            hbnd (get_token_to_eol buf) (\<lambda>(msg, buf).
              if msg \<noteq> [] \<and> hd msg \<noteq> 32 then Ok (HErr (- 1))
              else hbnd (parse_headers hs 0 buf) (\<lambda>((hs, num), buf).
                Ok (HOk (\<lparr>rs_msg = dropWhile (\<lambda>c. c = 32) msg, rs_status = status, rs_minor_version = minor, rs_headers = hs, rs_num_headers = num\<rparr>, buf))))))) rest"
  proof (cases "b = 32")
    case True
    show ?thesis unfolding r by (rule good_shift [OF skip_good [OF after_spaces_good [OF assms], where S = "{32}"]]) (simp add: True)
  next
    case False
    then show ?thesis unfolding r by (intro good_shift [OF good_const(1)]) simp
  qed
qed

section \<open>Incremental parsing as an interface\<close>

text \<open>What the caller relies on when bytes arrive in pieces.\<close>

locale incremental =
  fixes parse :: "byte list \<Rightarrow> ('a \<times> byte list) hp outc"
  assumes good: "good parse buf"
begin

lemma answers: "\<exists>r. parse buf = Ok r \<and> within buf r"
  using good [of buf] by (auto simp: good_def)

lemma stable: "parse buf = Ok (HOk (x, rest)) \<Longrightarrow> parse (buf @ ext) = Ok (HOk (x, rest @ ext))"
  by (cases rule: good_cases [OF good [of buf]]) auto

lemma refused_stable: "parse buf = Ok (HErr (- 1)) \<Longrightarrow> parse (buf @ ext) = Ok (HErr (- 1))"
  by (cases rule: good_cases [OF good [of buf]]) auto

text \<open>A piece that ends before the parsed part does asks for more.\<close>

lemma piece_needs_more:
  assumes "parse (buf @ e) = Ok (HOk (x, rest))" "length rest < length e"
  shows "parse buf = Ok (HErr (- 2))"
  by (cases rule: good_cases [OF good [of buf]]) (use assms in auto)

end

interpretation request_line: incremental "parse_request_line (replicate K_MAX_NUM_HEADERS h)" for h
  by unfold_locales (simp add: parse_request_line_good)

interpretation response_line: incremental "parse_response_line (replicate K_MAX_NUM_HEADERS h)" for h
  by unfold_locales (simp add: parse_response_line_good)


section \<open>The end of a line, by a reference definition\<close>

lemma is_ctl_not_printable: "is_ctl b \<Longrightarrow> \<not> IS_PRINTABLE_ASCII b"
proof -
  assume "is_ctl b"
  then have "unat b < 32 \<or> unat b = 127" by (auto simp: is_ctl_def word_less_nat_alt)
  then show ?thesis
  proof
    assume "unat b < 32"
    moreover have "unat (ucast b :: u32) = unat b" using \<open>unat b < 32\<close> by (simp add: unsigned_ucast_eq take_bit_nat_eq_self_iff)
    ultimately show ?thesis by (auto simp: IS_PRINTABLE_ASCII_def word_less_nat_alt unat_sub_if_size word_size)
  next
    assume "unat b = 127"
    then have "b = 127" by (simp add: word_unat_eq_iff)
    then show ?thesis by (simp add: IS_PRINTABLE_ASCII_def)
  qed
qed

lemma eol_slow_dropWhile: "eol_slow buf = (case dropWhile (\<lambda>b. \<not> is_ctl b) buf of [] \<Rightarrow> None | c # r \<Rightarrow> Some (c # r))"
  by (induction buf) (auto simp: is_ctl_not_printable)

lemma take_dropWhile: "take (length xs - length (dropWhile P xs)) xs = takeWhile P xs"
  by (metis append_eq_conv_conj diff_add_inverse2 length_append takeWhile_dropWhile_id)

text \<open>The text up to the first control character other than the tab, which has to be a line feed, or a carriage return and a line feed.\<close>

definition line_spec :: "byte list \<Rightarrow> (byte list \<times> byte list) hp" where
  "line_spec buf =
     (let tok = takeWhile (\<lambda>b. \<not> is_ctl b) buf; rest = dropWhile (\<lambda>b. \<not> is_ctl b) buf in
      if rest = [] \<or> rest = [13] then HErr (- 2)
      else if hd rest = 10 then HOk (tok, tl rest)
      else if take 2 rest = [13, 10] then HOk (tok, drop 2 rest)
      else HErr (- 1))"

text \<open>C37. The end of a line: the scan of \<open>get_token_to_eol\<close>, which looks at blocks of eight characters and leaves a block with a jump, stays in the
  buffer and gives the text up to the first control character other than the tab, however the blocks fall.\<close>

theorem http_line_end: "get_token_to_eol buf = Ok (line_spec buf)"
proof (cases "dropWhile (\<lambda>b. \<not> is_ctl b) buf")
  case Nil
  then have "eol_find buf = None" by (simp only: eol_find_slow eol_slow_dropWhile list.case)
  then show ?thesis using Nil by (simp only: get_token_to_eol_def line_spec_def Let_def) simp
next
  case (Cons c r)
  then have "get_token_to_eol buf =
      (if c = 13 then hbnd (EXPECT_CHAR 10 r) (\<lambda>r. Ok (HOk (takeWhile (\<lambda>b. \<not> is_ctl b) buf, r)))
       else if c = 10 then Ok (HOk (takeWhile (\<lambda>b. \<not> is_ctl b) buf, r)) else Ok (HErr (- 1)))"
    using take_dropWhile [of buf "\<lambda>b. \<not> is_ctl b"] by (simp add: get_token_to_eol_def eol_find_slow eol_slow_dropWhile)
  then show ?thesis using Cons by (cases r) (auto simp: line_spec_def Let_def EXPECT_CHAR_def CHECK_EOF_def)
qed


section \<open>Printed requests parse back\<close>

definition crlf :: "byte list" where "crlf = [13, 10]"

text \<open>What a client may send: tokens, request targets and field values without control characters and surrounding white space.\<close>

definition field_token :: "byte list \<Rightarrow> bool" where
  "field_token t \<longleftrightarrow> t \<noteq> [] \<and> (\<forall>b \<in> set t. token_char_map ! unat b)"

definition path_ok :: "byte list \<Rightarrow> bool" where
  "path_ok p \<longleftrightarrow> p \<noteq> [] \<and> (\<forall>b \<in> set p. 32 < b \<and> b \<noteq> 127)"

definition value_ok :: "byte list \<Rightarrow> bool" where
  "value_ok v \<longleftrightarrow> (\<forall>b \<in> set v. \<not> is_ctl b) \<and> (v \<noteq> [] \<longrightarrow> hd v \<notin> {32, 9} \<and> last v \<notin> {32, 9})"

definition header_ok :: "byte list \<times> byte list \<Rightarrow> bool" where
  "header_ok h \<longleftrightarrow> field_token (fst h) \<and> value_ok (snd h)"

definition print_header :: "byte list \<times> byte list \<Rightarrow> byte list" where
  "print_header h = fst h @ [58, 32] @ snd h @ crlf"

definition print_request :: "byte list \<Rightarrow> byte list \<Rightarrow> nat \<Rightarrow> (byte list \<times> byte list) list \<Rightarrow> byte list" where
  "print_request m p v hdrs =
     m @ [32] @ p @ [32] @ map of_char ''HTTP/1.'' @ [48 + of_nat v] @ crlf @ concat (map print_header hdrs) @ crlf"

definition to_header :: "byte list \<times> byte list \<Rightarrow> http_header" where
  "to_header h = \<lparr>hh_name = Some (fst h), hh_value = snd h\<rparr>"

lemma token_char_map_special [simp]:
  "\<not> token_char_map ! 32" "\<not> token_char_map ! 9" "\<not> token_char_map ! 58" "\<not> token_char_map ! 13" "\<not> token_char_map ! 10"
  by code_simp+

lemma token_loop_token:
  "\<forall>b \<in> set t. token_char_map ! unat b \<Longrightarrow> \<not> token_char_map ! unat c \<Longrightarrow> token_loop c (t @ c # r) = HOk (t, c # r)"
  by (induction t) auto

lemma field_token_parse: "field_token t \<Longrightarrow> \<not> token_char_map ! unat c \<Longrightarrow> parse_token c (t @ c # r) = Ok (HOk (t, c # r))"
  by (auto simp: parse_token_def CHECK_EOF_def field_token_def token_loop_token)

lemma field_token_hd: "field_token t \<Longrightarrow> hd (t @ s) \<notin> {32, 9, 13, 10}"
  by (cases t) (auto simp: field_token_def)

lemma path_ok_parse: "path_ok p \<Longrightarrow> ADVANCE_TOKEN (p @ 32 # r) = Ok (HOk (p, 32 # r))"
proof -
  have "\<forall>b \<in> set p. 32 < b \<and> b \<noteq> 127 \<Longrightarrow> uri_loop (p @ 32 # r) = HOk (p, 32 # r)"
    by (induction p) auto
  then show "path_ok p \<Longrightarrow> ?thesis" by (auto simp: ADVANCE_TOKEN_def CHECK_EOF_def path_ok_def)
qed

lemma skip_stop: "s \<noteq> [] \<Longrightarrow> hd s \<notin> S \<Longrightarrow> skip_while S s = HOk s"
  by (cases s) auto

lemma get_token_line: "\<forall>b \<in> set v. \<not> is_ctl b \<Longrightarrow> get_token_to_eol (v @ 13 # 10 # r) = Ok (HOk (v, r))"
proof -
  assume "\<forall>b \<in> set v. \<not> is_ctl b"
  then have "eol_slow (v @ 13 # 10 # r) = Some (13 # 10 # r)"
    by (induction v) (auto simp: is_ctl_def IS_PRINTABLE_ASCII_def)
  then show ?thesis by (simp add: get_token_to_eol_def eol_find_slow EXPECT_CHAR_def CHECK_EOF_def)
qed

lemma trim_ws_id: "value_ok v \<Longrightarrow> trim_ws v = v"
  by (cases v rule: rev_cases) (auto simp: trim_ws_def value_ok_def)

lemma header_value_ok: "value_ok v \<Longrightarrow> hd (v @ 13 # r) \<notin> {32, 9}"
  by (cases v) (auto simp: value_ok_def)

lemma header_parse:
  assumes "header_ok h" "num < length hs"
  shows "parse_header hs num (print_header h @ r) = Ok (HOk (hs[num := to_header h], r))"
proof -
  obtain n v where h: "h = (n, v)" by (cases h)
  have ok: "field_token n" "value_ok v" using assms(1) by (auto simp: header_ok_def h)
  let ?v = "v @ 13 # 10 # r"
  have s: "skip_while {32, 9} (32 # ?v) = HOk ?v" using header_value_ok [OF ok(2), of "10 # r"] by (simp add: skip_stop)
  have p: "parse_token 58 (n @ 58 # 32 # ?v) = Ok (HOk (n, 58 # 32 # ?v))" using ok(1) by (simp add: field_token_parse)
  have n: "n \<noteq> []" using ok(1) by (simp add: field_token_def)
  have g: "get_token_to_eol ?v = Ok (HOk (v, r))" using ok(2) by (intro get_token_line) (simp add: value_ok_def)
  have n_parsed: "header_name hs num (n @ 58 # 32 # ?v) = Ok (HOk (hs[num := (hs ! num)\<lparr>hh_name := Some n\<rparr>], ?v))"
    using field_token_hd [OF ok(1), of "58 # 32 # ?v"] assms(2) n s by (simp add: header_name_def p set_header_def)
  have eq: "(hs ! num)\<lparr>hh_name := Some n, hh_value := v\<rparr> = \<lparr>hh_name = Some n, hh_value = v\<rparr>" by (cases "hs ! num") simp
  from n_parsed show ?thesis
    using assms(2) g by (simp add: h print_header_def crlf_def parse_header_def set_header_def to_header_def trim_ws_id [OF ok(2)]) (simp only: eq)
qed

lemma headers_step:
  assumes "header_ok h" "num \<noteq> K_MAX_NUM_HEADERS"
  shows "parse_headers hs num (print_header h @ r) = hbnd (parse_header hs num (print_header h @ r)) (\<lambda>(hs, rest). parse_headers hs (num + 1) rest)"
proof -
  obtain b s where b: "print_header h @ r = b # s" by (cases "print_header h @ r") (auto simp: print_header_def)
  have "b \<noteq> 13" "b \<noteq> 10"
    using assms(1) field_token_hd [of "fst h" "58 # 32 # snd h @ crlf @ r"] b by (auto simp: print_header_def header_ok_def)
  then show ?thesis unfolding b by (rule parse_headers_step) (rule assms(2))
qed

lemma headers_parse:
  assumes "list_all header_ok hdrs" "num + length hdrs \<le> K_MAX_NUM_HEADERS" "num + length hdrs \<le> length hs"
  shows "parse_headers hs num (concat (map print_header hdrs) @ 13 # 10 # body)
    = Ok (HOk ((take num hs @ map to_header hdrs @ drop (num + length hdrs) hs, num + length hdrs), body))"
  using assms
proof (induction hdrs arbitrary: hs num)
  case Nil
  then show ?case by (simp add: EXPECT_CHAR_def CHECK_EOF_def)
next
  case (Cons h hdrs)
  have "parse_headers hs num (print_header h @ r) = parse_headers (hs[num := to_header h]) (num + 1) r" for r
    using Cons.prems by (simp add: headers_step header_parse)
  then show ?case
    using Cons.IH [of "num + 1" "hs[num := to_header h]"] Cons.prems
    by (simp add: take_Suc_conv_app_nth)
qed

lemma version_parse: "v < 10 \<Longrightarrow> parse_http_version (map of_char ''HTTP/1.'' @ (48 + of_nat v) # 13 # 10 # r) = Ok (HOk (int v, 13 # 10 # r))"
proof -
  assume "v < 10"
  then have "v \<in> {0, 1, 2, 3, 4, 5, 6, 7, 8, 9}" by auto
  then have "PARSE_INT ((48 + of_nat v) # 13 # 10 # r) = Ok (HOk (int v, 13 # 10 # r))" by (auto simp: PARSE_INT_def)
  then show ?thesis by (simp add: parse_http_version_def)
qed

text \<open>The first line of a printed request leads to its headers.\<close>

lemma request_first_line:
  assumes "field_token m" "path_ok p" "v < 10"
  shows "parse_request_line hs (print_request m p v hdrs @ body) =
    hbnd (parse_headers hs 0 (concat (map print_header hdrs) @ 13 # 10 # body)) (\<lambda>((hs, num), buf).
      Ok (HOk (\<lparr>rq_method = m, rq_path = p, rq_minor_version = int v, rq_headers = hs, rq_num_headers = num\<rparr>, buf)))"
proof -
  let ?h = "concat (map print_header hdrs) @ 13 # 10 # body"
  define line where "line = map of_char ''HTTP/1.'' @ (48 + of_nat v) # 13 # 10 # ?h"
  have t: "print_request m p v hdrs @ body = m @ 32 # p @ 32 # line" by (simp add: print_request_def crlf_def line_def)
  have ne: "m \<noteq> []" "p \<noteq> []" using assms(1,2) by (auto simp: field_token_def path_ok_def)
  have "skip_empty_line (m @ 32 # p @ 32 # line) = Ok (HOk ((), m @ 32 # p @ 32 # line))"
    using field_token_hd [OF assms(1), of "32 # p @ 32 # line"] by (simp add: skip_empty_line_def CHECK_EOF_def)
  moreover have "parse_token 32 (m @ 32 # p @ 32 # line) = Ok (HOk (m, 32 # p @ 32 # line))" by (rule field_token_parse [OF assms(1)]) simp
  moreover have "skip_while {32} (p @ 32 # line) = HOk (p @ 32 # line)" using assms(2) by (cases p) (auto simp: path_ok_def)
  moreover have "skip_while {32} line = HOk line" by (simp add: line_def)
  moreover have "parse_http_version line = Ok (HOk (int v, 13 # 10 # ?h))" unfolding line_def by (rule version_parse [OF assms(3)])
  ultimately show ?thesis
    unfolding t using ne by (simp add: parse_request_line_def path_ok_parse [OF assms(2)] EXPECT_CHAR_def CHECK_EOF_def)
qed

lemma header_overflow: "header_ok h \<Longrightarrow> num = length hs \<Longrightarrow> parse_header hs num (print_header h @ r) = UB"
  using field_token_hd [of "fst h" "58 # 32 # snd h @ crlf @ r"] field_token_parse [of "fst h" 58 "32 # snd h @ crlf @ r"]
  by (auto simp: print_header_def header_ok_def parse_header_def header_name_def set_header_def hbnd_def bnd_def)

lemma headers_overflow:
  assumes "list_all header_ok hdrs" "num + length hdrs \<le> K_MAX_NUM_HEADERS" "num \<le> length hs" "length hs < num + length hdrs"
  shows "parse_headers hs num (concat (map print_header hdrs) @ r) = UB"
  using assms
proof (induction hdrs arbitrary: hs num)
  case (Cons h hdrs)
  show ?case
  proof (cases "num = length hs")
    case True
    then show ?thesis using Cons.prems by (simp add: headers_step header_overflow)
  next
    case False
    have "parse_headers hs num (print_header h @ r) = parse_headers (hs[num := to_header h]) (num + 1) r" for r
      using Cons.prems False by (simp add: headers_step header_parse)
    then show ?thesis using Cons.IH [of "num + 1" "hs[num := to_header h]"] Cons.prems False by simp
  qed
qed simp

text \<open>C16. Round trip: a request printed from a method, a target, a minor version and at most 50 headers, parsed into an array of headers that has room for them, gives back exactly these,
  whatever follows it, and the position behind it is where the body starts; into an array with less room the parser writes past its end. The array that the
  code allocates (\<open>init_http_header\<close>) has room for one header.\<close>

theorem http_request_roundtrip:
  assumes "field_token m" "path_ok p" "v < 10" "list_all header_ok hdrs" "length hdrs \<le> K_MAX_NUM_HEADERS"
  shows "parse_request_line hs (print_request m p v hdrs @ body)
    = (if length hdrs \<le> length hs
       then Ok (HOk (\<lparr>rq_method = m, rq_path = p, rq_minor_version = int v,
                rq_headers = map to_header hdrs @ drop (length hdrs) hs, rq_num_headers = length hdrs\<rparr>, body))
       else UB) \<and> length init_http_header = 1"
  using headers_parse [of hdrs 0 hs body] headers_overflow [of hdrs 0 hs "13 # 10 # body"] assms(4,5)
  by (simp add: request_first_line [OF assms(1-3)] init_http_header_def)

section \<open>Pieces of a request, and one header too many\<close>

text \<open>C19. Incremental parsing: with room for 50 headers the request parser returns, within the buffer or with one of the two errors; a parsed request
  stays what it is when more bytes arrive; a piece that ends before the parsed part does asks for more.\<close>

theorem http_request_incremental:
  "(\<exists>r. parse_request_line (replicate K_MAX_NUM_HEADERS h) buf = Ok r \<and> within buf r)
   \<and> (\<forall>req rest. parse_request_line (replicate K_MAX_NUM_HEADERS h) buf = Ok (HOk (req, rest)) \<longrightarrow>
        parse_request_line (replicate K_MAX_NUM_HEADERS h) (buf @ e) = Ok (HOk (req, rest @ e)))
   \<and> (\<forall>req rest. parse_request_line (replicate K_MAX_NUM_HEADERS h) (buf @ e) = Ok (HOk (req, rest)) \<and> length rest < length e \<longrightarrow>
        parse_request_line (replicate K_MAX_NUM_HEADERS h) buf = Ok (HErr (- 2)))"
  using request_line.answers request_line.stable request_line.piece_needs_more by blast

text \<open>The same for responses.\<close>

theorem http_response_incremental:
  "(\<exists>r. parse_response_line (replicate K_MAX_NUM_HEADERS h) buf = Ok r \<and> within buf r)
   \<and> (\<forall>resp rest. parse_response_line (replicate K_MAX_NUM_HEADERS h) buf = Ok (HOk (resp, rest)) \<longrightarrow>
        parse_response_line (replicate K_MAX_NUM_HEADERS h) (buf @ e) = Ok (HOk (resp, rest @ e)))
   \<and> (\<forall>resp rest. parse_response_line (replicate K_MAX_NUM_HEADERS h) (buf @ e) = Ok (HOk (resp, rest)) \<and> length rest < length e \<longrightarrow>
        parse_response_line (replicate K_MAX_NUM_HEADERS h) buf = Ok (HErr (- 2)))"
  using response_line.answers response_line.stable response_line.piece_needs_more by blast

text \<open>One header too many: \<open>init_http_header\<close> allocates a single header, so the second header of any request is written past the array.\<close>

theorem http_second_header_overflows:
  assumes "field_token m" "path_ok p" "v < 10" "header_ok h1" "header_ok h2"
  shows "parse_request_line init_http_header (print_request m p v (h1 # h2 # hdrs) @ body) = UB"
proof -
  let ?r = "concat (map print_header hdrs) @ 13 # 10 # body"
  have l: "length init_http_header = 1" by (simp add: init_http_header_def)
  have "parse_headers init_http_header 0 (print_header h1 @ print_header h2 @ ?r) = parse_headers (init_http_header[0 := to_header h1]) 1 (print_header h2 @ ?r)"
    using assms(4) by (simp add: headers_step header_parse l K_MAX_NUM_HEADERS_def)
  also have "\<dots> = UB" using assms(5) by (simp add: headers_step header_overflow l K_MAX_NUM_HEADERS_def)
  finally show ?thesis unfolding request_first_line [OF assms(1-3)] by simp
qed

text \<open>A request with two headers and a body of two bytes.\<close>

definition demo_headers :: "(byte list \<times> byte list) list" where
  "demo_headers = [(map of_char ''Host'', map of_char ''x''), (map of_char ''Accept'', [])]"

theorem http_request_roundtrip_witness:
  "parse_request_line (replicate 50 (to_header ([], []))) (print_request (map of_char ''GET'') (map of_char ''/a'') 1 demo_headers @ [1, 2])
    = Ok (HOk (\<lparr>rq_method = map of_char ''GET'', rq_path = map of_char ''/a'', rq_minor_version = 1,
        rq_headers = map to_header demo_headers @ replicate 48 (to_header ([], [])), rq_num_headers = 2\<rparr>, [1, 2]))"
proof -
  have "field_token (map of_char ''GET'')" "path_ok (map of_char ''/a'')" "list_all header_ok demo_headers" by code_simp+
  moreover have "length demo_headers = 2" by (simp add: demo_headers_def)
  ultimately show ?thesis
    using http_request_roundtrip [of "map of_char ''GET''" "map of_char ''/a''" 1 demo_headers "replicate 50 (to_header ([], []))" "[1, 2]"]
    by (simp add: K_MAX_NUM_HEADERS_def)
qed

theorem http_second_header_overflows_witness:
  "parse_request_line init_http_header (print_request (map of_char ''GET'') (map of_char ''/a'') 1 demo_headers @ []) = UB"
proof -
  have "field_token (map of_char ''GET'')" "path_ok (map of_char ''/a'')"
    "header_ok (map of_char ''Host'', map of_char ''x'')" "header_ok (map of_char ''Accept'', [])" by code_simp+
  then show ?thesis unfolding demo_headers_def by (intro http_second_header_overflows) simp_all
qed

theorem http_request_incremental_witness:
  "parse_request_line (replicate K_MAX_NUM_HEADERS (to_header ([], []))) (take 20 (print_request (map of_char ''GET'') (map of_char ''/a'') 1 demo_headers)) = Ok (HErr (- 2))"
proof -
  let ?q = "print_request (map of_char ''GET'') (map of_char ''/a'') 1 demo_headers"
  have "case parse_request_line (replicate K_MAX_NUM_HEADERS (to_header ([], []))) (take 20 ?q @ drop 20 ?q) of Ok (HOk (req, rest)) \<Rightarrow> length rest < length (drop 20 ?q) | _ \<Rightarrow> False"
    by code_simp
  then show ?thesis
    using http_request_incremental [of "to_header ([], [])" "take 20 ?q" "drop 20 ?q"] by (auto split: outc.splits hp.splits)
qed

end
