(* ===== verification/Http_Matcher.thy ===== *)
theory Http_Matcher
  imports Pgsql_Matcher
begin

text \<open>
  The matching of HTTP requests with responses, \<open>protocol/http1.x/matcher/http_matcher.c\<close>. Frames and records are those of
  the other matcher; a record under construction is memory from \<open>malloc\<close>, whose members the code does not initialise.
\<close>

section \<open>Messages and records\<close>

text \<open>What the matcher reads of an \<open>http_message\<close>.\<close>

record http_message =
  http_timestamp_ns :: u64
  resp_status :: int

record http_frame_data_s =
  http_frame :: http_message

type_synonym http_frames = "http_frame_data_s frame_buf_s"

definition INT64_MAX :: u64 where "INT64_MAX = 2 ^ 63 - 1"

definition placeholder_msg :: http_message where
  "placeholder_msg = \<lparr>http_timestamp_ns = INT64_MAX, resp_status = 0\<rparr>"

text \<open>The message at the current position, the placeholder at the end of the frames.\<close>

definition http_msg_at :: "http_frames \<Rightarrow> http_message outc" where
  "http_msg_at b =
     (if frame_current_pos b = frame_buf_size b then Ok placeholder_msg
      else if frame_current_pos b < length (frames b) then
        (case frames b ! frame_current_pos b of None \<Rightarrow> UB | Some f \<Rightarrow> Ok (http_frame f))
      else UB)"

definition http_advance :: "http_frames \<Rightarrow> http_frames" where
  "http_advance b = b\<lparr>frame_current_pos := frame_current_pos b + 1\<rparr>"

text \<open>The request is given by its index and its message; \<open>malloc\<close> of a record is the environment's for its 16 bytes.\<close>

definition add_http_record_into_buf :: "mt_env \<Rightarrow> nat \<times> http_message \<Rightarrow> http_message \<Rightarrow> record_buf_s \<Rightarrow> record_buf_s outc" where
  "add_http_record_into_buf env req resp rb =
     (if \<not> me_malloc env 16 then Ok rb
      else let rb = (if resp_status resp \<ge> 400 then rb\<lparr>err_count := err_count rb + 1\<rparr> else rb) in
        if record_buf_size rb < length (records rb) then
          Ok (rb\<lparr>records := (records rb)[record_buf_size rb :=
                   Some \<lparr>rec_req = fst req, rec_resp_ns = http_timestamp_ns resp, latency = http_timestamp_ns resp - http_timestamp_ns (snd req)\<rparr>],
                 record_buf_size := record_buf_size rb + 1\<rparr>)
        else UB)"

section \<open>The loop\<close>

record http_match_state =
  hs_req :: http_frames
  hs_rsp :: http_frames
  hs_rec :: record_buf_s

text \<open>
  \<open>cur\<close> is the request stored in the record under construction. A new record comes from \<open>malloc\<close>, so its request is an
  uninitialised pointer until one is stored: None.
\<close>

function http_match_loop :: "mt_env \<Rightarrow> (nat \<times> http_message) option \<Rightarrow> http_match_state \<Rightarrow> http_match_state outc" where
  "http_match_loop env cur s =
     (if frame_current_pos (hs_rsp s) < frame_buf_size (hs_rsp s) then
        (case http_msg_at (hs_req s) of UB \<Rightarrow> UB | NoRet \<Rightarrow> NoRet | Ok req_msg \<Rightarrow>
         (case http_msg_at (hs_rsp s) of UB \<Rightarrow> UB | NoRet \<Rightarrow> NoRet | Ok resp_msg \<Rightarrow>
          if http_timestamp_ns req_msg < http_timestamp_ns resp_msg then
            http_match_loop env (Some (frame_current_pos (hs_req s), req_msg)) (s\<lparr>hs_req := http_advance (hs_req s)\<rparr>)
          else (case cur of None \<Rightarrow> UB
            | Some req \<Rightarrow>
                let s1 = s\<lparr>hs_rsp := http_advance (hs_rsp s)\<rparr> in
                if http_timestamp_ns (snd req) \<noteq> 0 then
                  (case add_http_record_into_buf env req resp_msg (hs_rec s1) of UB \<Rightarrow> UB | NoRet \<Rightarrow> NoRet | Ok rb \<Rightarrow>
                     if \<not> me_malloc env 16 then Ok (s1\<lparr>hs_rec := rb\<rparr>)
                     else http_match_loop env None (s1\<lparr>hs_rec := rb\<rparr>))
                else http_match_loop env (Some req) s1)))
      else Ok s)"
  by pat_completeness auto
termination
proof (relation "measure (\<lambda>(env, cur, s). (frame_buf_size (hs_rsp s) - frame_current_pos (hs_rsp s)) +
    (Suc (frame_buf_size (hs_req s)) + length (frames (hs_req s)) - frame_current_pos (hs_req s)))", goal_cases)
  case (2 env cur s req_msg resp_msg)
  then show ?case by (auto simp: http_advance_def http_msg_at_def split: if_splits)
qed (auto simp: http_advance_def)

declare http_match_loop.simps [simp del]

definition http_match_frames :: "mt_env \<Rightarrow> http_match_state \<Rightarrow> http_match_state outc" where
  "http_match_frames env s =
     (let s = s\<lparr>hs_rec := (hs_rec s)\<lparr>err_count := 0, record_buf_size := 0, req_count := frame_buf_size (hs_req s),
                resp_count := frame_buf_size (hs_rsp s)\<rparr>\<rparr> in
      if \<not> me_malloc env 16 then Ok s else http_match_loop env None s)"

section \<open>Requests answered one after the other\<close>

definition http_holds :: "http_frames \<Rightarrow> http_message list \<Rightarrow> bool" where
  "http_holds b ms \<longleftrightarrow> length (frames b) = FRAME_BUF_SIZE \<and> frame_buf_size b = length ms \<and> length ms \<le> FRAME_BUF_SIZE \<and>
     (\<forall>i < length ms. frames b ! i = Some \<lparr>http_frame = ms ! i\<rparr>)"

text \<open>Every response is later than its request and not later than the next one.\<close>

fun in_turn :: "http_message list \<Rightarrow> http_message list \<Rightarrow> bool" where
  "in_turn [] [] \<longleftrightarrow> True"
| "in_turn (q # qs) (r # rs) \<longleftrightarrow> 0 < http_timestamp_ns q \<and> http_timestamp_ns q < http_timestamp_ns r \<and> http_timestamp_ns r \<le> INT64_MAX \<and>
     (case qs of [] \<Rightarrow> True | q' # _ \<Rightarrow> http_timestamp_ns r \<le> http_timestamp_ns q') \<and> in_turn qs rs"
| "in_turn _ _ \<longleftrightarrow> False"

definition http_pair :: "nat \<Rightarrow> http_message \<Rightarrow> http_message \<Rightarrow> record_data_s" where
  "http_pair k q r = \<lparr>rec_req = k, rec_resp_ns = http_timestamp_ns r, latency = http_timestamp_ns r - http_timestamp_ns q\<rparr>"

lemma in_turn_nth:
  "in_turn qs rs \<Longrightarrow> k < length qs \<Longrightarrow> length rs = length qs \<and> 0 < http_timestamp_ns (qs ! k) \<and> http_timestamp_ns (qs ! k) < http_timestamp_ns (rs ! k) \<and>
     http_timestamp_ns (rs ! k) \<le> INT64_MAX \<and> (k + 1 < length qs \<longrightarrow> http_timestamp_ns (rs ! k) \<le> http_timestamp_ns (qs ! (k + 1)))"
proof (induction qs rs arbitrary: k rule: in_turn.induct)
  case (2 q qs r rs)
  then show ?case by (cases k; cases qs) (auto simp: in_turn.simps(1) elim: in_turn.elims)
qed auto


lemma msg_at: "http_holds b ms \<Longrightarrow> frame_current_pos b = k \<Longrightarrow> k < length ms \<Longrightarrow> http_msg_at b = Ok (ms ! k)"
  by (simp add: http_msg_at_def http_holds_def)

lemma msg_at_end: "frame_current_pos b = frame_buf_size b \<Longrightarrow> http_msg_at b = Ok placeholder_msg"
  by (simp add: http_msg_at_def)

lemma holds_pos [simp]: "http_holds (b\<lparr>frame_current_pos := n\<rparr>) ms \<longleftrightarrow> http_holds b ms" by (simp add: http_holds_def)

lemma holds_advance [simp]: "http_holds (http_advance b) ms \<longleftrightarrow> http_holds b ms" by (simp add: http_holds_def http_advance_def)

lemma advance_pos [simp]: "frame_current_pos (http_advance b) = frame_current_pos b + 1" "frame_buf_size (http_advance b) = frame_buf_size b"
  by (simp_all add: http_advance_def)

lemma match_response:
  assumes "http_holds (hs_req s) qs" "http_holds (hs_rsp s) rs" "k < length rs" "frame_current_pos (hs_rsp s) = k" "frame_current_pos (hs_req s) = j"
    and "j \<le> length qs" "http_timestamp_ns (rs ! k) \<le> INT64_MAX" "j < length qs \<longrightarrow> http_timestamp_ns (rs ! k) \<le> http_timestamp_ns (qs ! j)"
  shows "\<exists>m. http_msg_at (hs_req s) = Ok m \<and> \<not> http_timestamp_ns m < http_timestamp_ns (rs ! k)"
proof (cases "j < length qs")
  case True
  then show ?thesis using msg_at [OF assms(1,5) True] assms(8) by (auto simp: not_less)
next
  case False
  then have "http_msg_at (hs_req s) = Ok placeholder_msg" using assms(1,5,6) by (intro msg_at_end) (simp add: http_holds_def)
  then show ?thesis using assms(7) by (simp add: placeholder_msg_def not_less)
qed

definition turn_state :: "http_message list \<Rightarrow> http_message list \<Rightarrow> nat \<Rightarrow> http_match_state \<Rightarrow> bool" where
  "turn_state qs rs k s \<longleftrightarrow> http_holds (hs_req s) qs \<and> http_holds (hs_rsp s) rs \<and> frame_current_pos (hs_req s) = k \<and> frame_current_pos (hs_rsp s) = k \<and>
     length (records (hs_rec s)) = RECORD_BUF_SIZE \<and> record_buf_size (hs_rec s) = k \<and>
     take k (records (hs_rec s)) = map (\<lambda>i. Some (http_pair i (qs ! i) (rs ! i))) [0..<k] \<and>
     err_count (hs_rec s) = length (filter (\<lambda>r. resp_status r \<ge> 400) (take k rs))"

lemma http_round:
  assumes "\<And>n. me_malloc env n" "in_turn qs rs" "k < length qs" "turn_state qs rs k s"
  shows "\<exists>s'. http_match_loop env None s = http_match_loop env None s' \<and> turn_state qs rs (k + 1) s' \<and>
    req_count (hs_rec s') = req_count (hs_rec s) \<and> resp_count (hs_rec s') = resp_count (hs_rec s)"
proof -
  note t = in_turn_nth [OF assms(2,3)]
  have s: "http_holds (hs_req s) qs" "http_holds (hs_rsp s) rs" "frame_current_pos (hs_req s) = k" "frame_current_pos (hs_rsp s) = k"
    "frame_buf_size (hs_rsp s) = length rs" "k < length rs" using assms(3,4) t by (auto simp: turn_state_def http_holds_def)
  have k: "k < RECORD_BUF_SIZE" using s(2,6) by (simp add: http_holds_def FRAME_BUF_SIZE_def RECORD_BUF_SIZE_def)
  let ?s1 = "s\<lparr>hs_req := http_advance (hs_req s)\<rparr>"
  have 1: "http_match_loop env None s = http_match_loop env (Some (k, qs ! k)) ?s1"
    using t s msg_at [OF s(1,3) assms(3)] msg_at [OF s(2,4,6)] by (subst http_match_loop.simps) simp
  obtain m where m: "http_msg_at (hs_req ?s1) = Ok m" "\<not> http_timestamp_ns m < http_timestamp_ns (rs ! k)"
    using match_response [of ?s1 qs rs k "k + 1"] s t assms(3) by auto
  let ?rb = "hs_rec s"
  let ?rb1 = "if resp_status (rs ! k) \<ge> 400 then ?rb\<lparr>err_count := err_count ?rb + 1\<rparr> else ?rb"
  let ?rb2 = "?rb1\<lparr>records := (records ?rb)[k := Some (http_pair k (qs ! k) (rs ! k))], record_buf_size := k + 1\<rparr>"
  have add: "add_http_record_into_buf env (k, qs ! k) (rs ! k) ?rb = Ok ?rb2"
    using assms(1,4) k by (simp add: add_http_record_into_buf_def turn_state_def http_pair_def Let_def)
  let ?s2 = "s\<lparr>hs_req := http_advance (hs_req s), hs_rsp := http_advance (hs_rsp s), hs_rec := ?rb2\<rparr>"
  have "http_match_loop env (Some (k, qs ! k)) ?s1 = http_match_loop env None ?s2"
    using t s m add assms(1) msg_at [OF s(2,4,6)] by (subst http_match_loop.simps) (auto simp: Let_def)
  moreover have "turn_state qs rs (k + 1) ?s2"
    using assms(4) s k by (auto simp: turn_state_def take_Suc_conv_app_nth)
  ultimately show ?thesis using 1 by (intro exI [of _ ?s2]) simp
qed

lemma http_rounds:
  assumes "\<And>n. me_malloc env n" "in_turn qs rs" "k \<le> length qs" "turn_state qs rs k s"
  shows "\<exists>s'. http_match_loop env None s = Ok s' \<and> turn_state qs rs (length qs) s' \<and>
    req_count (hs_rec s') = req_count (hs_rec s) \<and> resp_count (hs_rec s') = resp_count (hs_rec s)"
  using assms(3,4)
proof (induction "length qs - k" arbitrary: k s)
  case 0
  then have "k = length qs" by simp
  moreover have "length rs = length qs" using assms(2) by (induction qs rs rule: in_turn.induct) auto
  ultimately show ?case using 0 by (subst http_match_loop.simps) (auto simp: turn_state_def http_holds_def)
next
  case (Suc n)
  then have "k < length qs" by simp
  from http_round [OF assms(1,2) this Suc.prems(2)] obtain s' where s': "http_match_loop env None s = http_match_loop env None s'"
    "turn_state qs rs (k + 1) s'" "req_count (hs_rec s') = req_count (hs_rec s)" "resp_count (hs_rec s') = resp_count (hs_rec s)" by blast
  then show ?case using Suc.hyps(1) [of "k + 1" s'] Suc.hyps(2) by auto
qed

text \<open>C36. Requests that are answered one after the other are matched one to one: record \<open>i\<close> joins request \<open>i\<close> with response \<open>i\<close> and the time
  between them, the errors are the responses of status 400 and above, and both buffers are left at their end.\<close>

theorem http_match_in_turn:
  assumes "\<And>n. me_malloc env n" "in_turn qs rs" "http_holds (hs_req s) qs" "http_holds (hs_rsp s) rs"
    and "frame_current_pos (hs_req s) = 0" "frame_current_pos (hs_rsp s) = 0" "length (records (hs_rec s)) = RECORD_BUF_SIZE"
  shows "\<exists>s'. http_match_frames env s = Ok s' \<and> record_buf_size (hs_rec s') = length qs \<and>
    take (length qs) (records (hs_rec s')) = map (\<lambda>i. Some (http_pair i (qs ! i) (rs ! i))) [0..<length qs] \<and>
    err_count (hs_rec s') = length (filter (\<lambda>r. resp_status r \<ge> 400) rs) \<and> req_count (hs_rec s') = length qs \<and> resp_count (hs_rec s') = length rs \<and>
    frame_current_pos (hs_req s') = length qs \<and> frame_current_pos (hs_rsp s') = length rs"
proof -
  let ?s = "s\<lparr>hs_rec := (hs_rec s)\<lparr>err_count := 0, record_buf_size := 0, req_count := frame_buf_size (hs_req s), resp_count := frame_buf_size (hs_rsp s)\<rparr>\<rparr>"
  have l: "length rs = length qs" using assms(2) by (induction qs rs rule: in_turn.induct) auto
  have "turn_state qs rs 0 ?s" using assms(3-7) by (simp add: turn_state_def)
  from http_rounds [OF assms(1,2) _ this] obtain s' where "http_match_loop env None ?s = Ok s'" "turn_state qs rs (length qs) s'"
    "req_count (hs_rec s') = frame_buf_size (hs_req s)" "resp_count (hs_rec s') = frame_buf_size (hs_rsp s)" by auto
  then show ?thesis
    using assms(1,3,4) l by (intro exI [of _ s']) (simp add: http_match_frames_def turn_state_def http_holds_def Let_def)
qed

section \<open>Pipelined requests\<close>

lemma two_responses:
  assumes "\<And>n. me_malloc env n" "http_holds (hs_req s) qs" "http_holds (hs_rsp s) rs" "frame_current_pos (hs_req s) = length qs"
    and "frame_current_pos (hs_rsp s) = k" "k + 1 < length rs" "http_timestamp_ns (rs ! k) \<le> INT64_MAX" "http_timestamp_ns (rs ! (k + 1)) \<le> INT64_MAX"
    and "http_timestamp_ns (snd req) \<noteq> 0" "record_buf_size (hs_rec s) < length (records (hs_rec s))"
  shows "http_match_loop env (Some req) s = UB"
proof -
  have q: "http_msg_at (hs_req s) = Ok placeholder_msg" using assms(2,4) by (intro msg_at_end) (simp add: http_holds_def)
  have p: "\<not> http_timestamp_ns placeholder_msg < http_timestamp_ns (rs ! k)" "\<not> http_timestamp_ns placeholder_msg < http_timestamp_ns (rs ! (k + 1))"
    using assms(7,8) by (simp_all add: placeholder_msg_def not_less)
  have n: "frame_buf_size (hs_rsp s) = length rs" using assms(3) by (simp add: http_holds_def)
  have "\<exists>rb. add_http_record_into_buf env req (rs ! k) (hs_rec s) = Ok rb"
    using assms(1,10) by (simp add: add_http_record_into_buf_def Let_def)
  then obtain rb where rb: "add_http_record_into_buf env req (rs ! k) (hs_rec s) = Ok rb" by blast
  let ?s1 = "s\<lparr>hs_rsp := http_advance (hs_rsp s), hs_rec := rb\<rparr>"
  have "http_match_loop env (Some req) s = http_match_loop env None ?s1"
    using q p n rb assms(1,5,6,9) msg_at [OF assms(3,5)] by (subst http_match_loop.simps) (simp add: Let_def)
  also have "\<dots> = UB"
    using q p n assms(3,5,6) msg_at [of "http_advance (hs_rsp s)" rs "k + 1"] by (subst http_match_loop.simps) simp
  finally show ?thesis .
qed

lemma requests_first:
  assumes "http_holds (hs_req s) qs" "http_holds (hs_rsp s) rs" "rs \<noteq> []" "\<forall>q \<in> set qs. http_timestamp_ns q < http_timestamp_ns (rs ! 0)"
    and "frame_current_pos (hs_rsp s) = 0" "frame_current_pos (hs_req s) = j" "j < length qs"
  shows "http_match_loop env cur s =
    http_match_loop env (Some (length qs - 1, last qs)) (s\<lparr>hs_req := (hs_req s)\<lparr>frame_current_pos := length qs\<rparr>\<rparr>)"
  using assms(1,2,5-7)
proof (induction "length qs - j" arbitrary: j cur s)
  case (Suc n)
  let ?s1 = "s\<lparr>hs_req := http_advance (hs_req s)\<rparr>"
  have "http_timestamp_ns (qs ! j) < http_timestamp_ns (rs ! 0)" using assms(4) Suc.prems(5) by simp
  then have 1: "http_match_loop env cur s = http_match_loop env (Some (j, qs ! j)) ?s1"
    using Suc.prems assms(3) msg_at [OF Suc.prems(1,4,5)] msg_at [OF Suc.prems(2,3)]
    by (subst http_match_loop.simps) (simp add: http_holds_def)
  show ?case
  proof (cases "j + 1 < length qs")
    case True
    then show ?thesis using 1 Suc.hyps(1) [of "j + 1" ?s1] Suc.hyps(2) Suc.prems by (simp add: http_advance_def)
  next
    case False
    then have "j = length qs - 1" "qs \<noteq> []" using Suc.prems(5) by auto
    then show ?thesis using 1 Suc.prems(4) by (simp add: http_advance_def last_conv_nth)
  qed
qed simp

text \<open>Pipelined requests crash the matcher: when all requests are earlier than the first of several responses, the first response
  is recorded with the last request, and for the second the request is read from a record of uninitialised memory.\<close>

theorem http_pipelined_crashes:
  assumes "\<And>n. me_malloc env n" "http_holds (hs_req s) qs" "http_holds (hs_rsp s) rs" "frame_current_pos (hs_req s) = 0"
    and "frame_current_pos (hs_rsp s) = 0" "length (records (hs_rec s)) = RECORD_BUF_SIZE" "qs \<noteq> []" "2 \<le> length rs"
    and "\<forall>q \<in> set qs. 0 < http_timestamp_ns q \<and> http_timestamp_ns q < http_timestamp_ns (rs ! 0)" "\<forall>r \<in> set rs. http_timestamp_ns r \<le> INT64_MAX"
  shows "http_match_frames env s = UB"
proof -
  let ?s = "s\<lparr>hs_rec := (hs_rec s)\<lparr>err_count := 0, record_buf_size := 0, req_count := frame_buf_size (hs_req s), resp_count := frame_buf_size (hs_rsp s)\<rparr>\<rparr>"
  let ?s1 = "?s\<lparr>hs_req := (hs_req s)\<lparr>frame_current_pos := length qs\<rparr>\<rparr>"
  have r: "rs ! 0 \<in> set rs" "rs ! 1 \<in> set rs" using assms(8) by (intro nth_mem; linarith)+
  have "rs \<noteq> []" using assms(8) by auto
  then have "http_match_loop env None ?s = http_match_loop env (Some (length qs - 1, last qs)) ?s1"
    using requests_first [of ?s qs rs 0 env None] assms(2-5,7-9) by auto
  moreover have "http_timestamp_ns (rs ! 0) \<le> INT64_MAX" "http_timestamp_ns (rs ! 1) \<le> INT64_MAX" "http_timestamp_ns (last qs) \<noteq> 0"
    using assms(9,10) last_in_set [OF assms(7)] r by (auto simp del: last_in_set)
  moreover have "http_match_loop env (Some (length qs - 1, last qs)) ?s1 = UB"
    using assms calculation(2-4) two_responses [of env ?s1 qs rs 0 "(length qs - 1, last qs)"]
    by (auto simp: http_holds_def RECORD_BUF_SIZE_def)
  ultimately show ?thesis using assms(1) by (simp add: http_match_frames_def Let_def)
qed

section \<open>Examples\<close>

definition demo_http_buf :: "http_message list \<Rightarrow> http_frames" where
  "demo_http_buf ms = \<lparr>frames = map (\<lambda>m. Some \<lparr>http_frame = m\<rparr>) ms @ replicate (FRAME_BUF_SIZE - length ms) None,
     frame_buf_size = length ms, frame_current_pos = 0\<rparr>"

definition demo_http_msg :: "u64 \<Rightarrow> int \<Rightarrow> http_message" where
  "demo_http_msg ts st = \<lparr>http_timestamp_ns = ts, resp_status = st\<rparr>"

definition demo_http_state :: "http_message list \<Rightarrow> http_message list \<Rightarrow> http_match_state" where
  "demo_http_state qs rs = \<lparr>hs_req = demo_http_buf qs, hs_rsp = demo_http_buf rs,
     hs_rec = \<lparr>records = replicate RECORD_BUF_SIZE None, record_buf_size = 0, err_count = 0, req_count = 0, resp_count = 0\<rparr>\<rparr>"

lemma demo_http_holds: "length ms \<le> FRAME_BUF_SIZE \<Longrightarrow> http_holds (demo_http_buf ms) ms"
  by (simp add: http_holds_def demo_http_buf_def nth_append)

theorem http_match_in_turn_witness:
  "\<exists>s'. http_match_frames demo_pg_env (demo_http_state [demo_http_msg 10 0, demo_http_msg 40 0] [demo_http_msg 25 200, demo_http_msg 60 404]) = Ok s' \<and>
     take 2 (records (hs_rec s')) = [Some \<lparr>rec_req = 0, rec_resp_ns = 25, latency = 15\<rparr>, Some \<lparr>rec_req = 1, rec_resp_ns = 60, latency = 20\<rparr>] \<and>
     err_count (hs_rec s') = 1"
proof -
  let ?qs = "[demo_http_msg 10 0, demo_http_msg 40 0]" and ?rs = "[demo_http_msg 25 200, demo_http_msg 60 404]"
  have t: "in_turn ?qs ?rs" by (simp add: demo_http_msg_def INT64_MAX_def)
  have h: "http_holds (hs_req (demo_http_state ?qs ?rs)) ?qs" "http_holds (hs_rsp (demo_http_state ?qs ?rs)) ?rs"
    by (simp_all add: demo_http_state_def demo_http_holds FRAME_BUF_SIZE_def)
  obtain s' where "http_match_frames demo_pg_env (demo_http_state ?qs ?rs) = Ok s'"
    "take (length ?qs) (records (hs_rec s')) = map (\<lambda>i. Some (http_pair i (?qs ! i) (?rs ! i))) [0..<length ?qs]"
    "err_count (hs_rec s') = length (filter (\<lambda>r. resp_status r \<ge> 400) ?rs)"
    using http_match_in_turn [OF _ t h] by (force simp: demo_pg_env_def demo_http_state_def demo_http_buf_def)
  then show ?thesis by (intro exI [of _ s']) (simp add: http_pair_def demo_http_msg_def numeral_2_eq_2)
qed

theorem http_pipelined_crashes_witness:
  "http_match_frames demo_pg_env (demo_http_state [demo_http_msg 10 0, demo_http_msg 12 0] [demo_http_msg 25 200, demo_http_msg 60 200]) = UB"
  by (rule http_pipelined_crashes [where qs = "[demo_http_msg 10 0, demo_http_msg 12 0]" and rs = "[demo_http_msg 25 200, demo_http_msg 60 200]"])
    (simp_all add: demo_pg_env_def demo_http_state_def demo_http_holds demo_http_msg_def FRAME_BUF_SIZE_def INT64_MAX_def demo_http_buf_def http_holds_def
      nth_append less_Suc_eq)

end
