(* ===== verification/Conn_Tracker.thy ===== *)
theory Conn_Tracker
  imports Http_Matcher L7_Proto Histogram Uthash
begin

text \<open>
  The layer-7 probe in user space, \<open>l7probe/conn_tracker.c\<close>: connections (trackers) with their two streams and their records, the links they
  are counted for, the messages of the kernel, the parsing and matching of all trackers, and the periodic report; and
  \<open>proto_match_frames\<close> of \<open>protocol/expose/protocol_parser.c\<close>. The two hash tables are an argument that meets \<open>uthash_ok\<close>; the
  texts of the report are not modelled, it gives the links it prints.
\<close>

section \<open>Structures\<close>

datatype l7_stats_t = BYTES_SENT | BYTES_RECV | LAST_BYTES_SENT | LAST_BYTES_RECV | DATA_EVT_SENT | DATA_EVT_RECV
  | OPEN_EVT | CLOSE_EVT | REQ_COUNT | RSP_COUNT | ERR_COUNT

record tracker_id_s =
  t_tgid :: u32
  t_fd :: u32

record conn_addr_s =
  family :: u16
  port :: u16
  ip :: "byte list"

record l7_link_id_s =
  k_tgid :: u32
  k_remote_addr :: conn_addr_s
  k_l4_role :: l4_role_t
  k_l7_role :: l7_role_t
  k_protocol :: proto_type_t

text \<open>A frame of a stream is a pointer to a message of its protocol.\<close>

datatype l7_frame = PgFrame pgsql_frame_data_s | HttpFrame http_frame_data_s

text \<open>\<open>throughput\<close>, \<open>latency\<close> and \<open>err_ratio\<close> as the tuple of the values computed for a report.\<close>

record l7_rates =
  throughput_req :: flt
  throughput_resp :: flt
  latency_p50 :: flt
  latency_p90 :: flt
  latency_p99 :: flt
  err_ratio :: flt

record conn_tracker_s =
  tr_id :: tracker_id_s
  tr_is_ssl :: bool
  tr_l4_role :: l4_role_t
  tr_l7_role :: l7_role_t
  tr_protocol :: proto_type_t
  tr_open_ns :: u64
  tr_remote_addr :: conn_addr_s
  tr_stats :: "l7_stats_t \<Rightarrow> u64"
  tr_buckets :: "histo_bucket_s list"
  tr_latency_sum :: u64
  tr_rates :: l7_rates
  send_stream :: "l7_frame data_stream_s"
  recv_stream :: "l7_frame data_stream_s"
  tr_records :: record_buf_s

record l7_info_s =
  li_comm :: string
  li_container_id :: string
  li_pod_id :: string
  li_pod_ip :: string
  li_is_ssl :: bool

record l7_link_s =
  lk_id :: l7_link_id_s
  lk_info :: l7_info_s
  lk_stats :: "l7_stats_t \<Rightarrow> u64"
  lk_buckets :: "histo_bucket_s list"
  lk_rates :: l7_rates
  lk_latency_sum :: u64

record ('t, 'l) l7_mng_s =
  trackers :: 't
  l7_links :: 'l
  last_report :: int
  period :: u32

text \<open>
  The tables, the allocations of a tracker and of a link, and the environments of the components below.
\<close>

record ('t, 'l) ct_env =
  ce_trackers :: "(tracker_id_s, conn_tracker_s, 't) uthash"
  ce_links :: "(l7_link_id_s, l7_link_s, 'l) uthash"
  ce_tracker_alloc :: bool
  ce_link_alloc :: bool
  ce_stream :: "l7_frame l7_env"
  ce_match :: mt_env
  ce_rnd :: "rat \<Rightarrow> rat"

section \<open>Trackers\<close>

definition latency_histios :: "(u64 \<times> u64) list" where
  "latency_histios = [(0, 1), (1, 3), (3, 10), (10, 20), (20, 50), (50, 100), (100, 300), (300, 500), (500, 1000), (1000, 10000)]"

definition zero_bucket :: histo_bucket_s where
  "zero_bucket = \<lparr>h_min = 0, h_max = 0, h_count = 0\<rparr>"

definition init_latency_buckets :: "histo_bucket_s list \<Rightarrow> histo_bucket_s list" where
  "init_latency_buckets bs = map2 (\<lambda>b (mn, mx). snd (init_histo_bucket b mn mx)) bs latency_histios"

definition zero_rates :: l7_rates where
  "zero_rates = \<lparr>throughput_req = Fin 0, throughput_resp = Fin 0, latency_p50 = Fin 0, latency_p90 = Fin 0, latency_p99 = Fin 0, err_ratio = Fin 0\<rparr>"

definition zero_addr :: conn_addr_s where
  "zero_addr = \<lparr>family = 0, port = 0, ip = replicate 16 0\<rparr>"

definition zero_records :: record_buf_s where
  "zero_records = \<lparr>records = replicate RECORD_BUF_SIZE None, record_buf_size = 0, err_count = 0, req_count = 0, resp_count = 0\<rparr>"

definition create_conn_tracker :: "('t, 'l) ct_env \<Rightarrow> tracker_id_s \<Rightarrow> conn_tracker_s option" where
  "create_conn_tracker env tid =
     (if \<not> ce_tracker_alloc env then None
      else Some \<lparr>tr_id = tid, tr_is_ssl = False, tr_l4_role = L4_UNKNOW, tr_l7_role = L7_UNKNOW, tr_protocol = PROTO_UNKNOW,
        tr_open_ns = 0, tr_remote_addr = zero_addr, tr_stats = (\<lambda>_. 0),
        tr_buckets = init_latency_buckets (replicate 10 zero_bucket), tr_latency_sum = 0, tr_rates = zero_rates,
        send_stream = init_data_stream, recv_stream = init_data_stream, tr_records = zero_records\<rparr>)"

text \<open>
  \<open>free_record_data\<close> hands the record data itself to the destructor of its protocol, which reads the two pointers in it as the messages of
  a record and follows the first beyond the end of its object; other protocols only free the record data.
\<close>

definition free_record_data :: "proto_type_t \<Rightarrow> record_data_s \<Rightarrow> unit outc" where
  "free_record_data ty r = (if ty \<in> {PROTO_PGSQL, PROTO_HTTP} then UB else Ok ())"

fun free_records :: "proto_type_t \<Rightarrow> record_data_s option list \<Rightarrow> unit outc" where
  "free_records ty [] = Ok ()"
| "free_records ty (r # rs) = bnd (case r of None \<Rightarrow> Ok () | Some d \<Rightarrow> free_record_data ty d) (\<lambda>_. free_records ty rs)"

definition destroy_tracker_record :: "conn_tracker_s \<Rightarrow> conn_tracker_s outc" where
  "destroy_tracker_record t =
     (let rb = tr_records t; n = min (record_buf_size rb) RECORD_BUF_SIZE in
      bnd (free_records (tr_protocol t) (take n (records rb))) (\<lambda>_.
        Ok (t\<lparr>tr_records := rb\<lparr>records := clear_frames n (records rb), record_buf_size := 0, err_count := 0, req_count := 0, resp_count := 0\<rparr>\<rparr>)))"

definition lkup_conn_tracker :: "('t, 'l) ct_env \<Rightarrow> ('t, 'l) l7_mng_s \<Rightarrow> tracker_id_s \<Rightarrow> conn_tracker_s option" where
  "lkup_conn_tracker env mng tid = ut_find (ce_trackers env) tid (trackers mng)"

text \<open>A changed tracker, or link, in the table.\<close>

definition put_tracker :: "('t, 'l) ct_env \<Rightarrow> conn_tracker_s \<Rightarrow> ('t, 'l) l7_mng_s \<Rightarrow> ('t, 'l) l7_mng_s" where
  "put_tracker env t mng = mng\<lparr>trackers := ut_write (ce_trackers env) (tr_id t) t (trackers mng)\<rparr>"

definition put_link :: "('t, 'l) ct_env \<Rightarrow> l7_link_s \<Rightarrow> ('t, 'l) l7_mng_s \<Rightarrow> ('t, 'l) l7_mng_s" where
  "put_link env k mng = mng\<lparr>l7_links := ut_write (ce_links env) (lk_id k) k (l7_links mng)\<rparr>"

definition add_conn_tracker :: "('t, 'l) ct_env \<Rightarrow> ('t, 'l) l7_mng_s \<Rightarrow> tracker_id_s \<Rightarrow> conn_tracker_s option \<times> ('t, 'l) l7_mng_s" where
  "add_conn_tracker env mng tid =
     (case lkup_conn_tracker env mng tid of Some t \<Rightarrow> (Some t, mng)
      | None \<Rightarrow> (case create_conn_tracker env tid of None \<Rightarrow> (None, mng)
          | Some t \<Rightarrow> (Some t, mng\<lparr>trackers := ut_add (ce_trackers env) tid t (trackers mng)\<rparr>)))"

text \<open>Closing a stream destroys its frames; what is destroyed twice there is the subject of the streams.\<close>

definition del_conn_tracker :: "('t, 'l) ct_env \<Rightarrow> ('t, 'l) l7_mng_s \<Rightarrow> tracker_id_s \<Rightarrow> ('t, 'l) l7_mng_s outc" where
  "del_conn_tracker env mng tid =
     (case lkup_conn_tracker env mng tid of None \<Rightarrow> Ok mng
      | Some t \<Rightarrow> bnd (destroy_tracker_record t) (\<lambda>_. Ok (mng\<lparr>trackers := ut_del (ce_trackers env) tid (trackers mng)\<rparr>)))"

definition link_id_of :: "conn_tracker_s \<Rightarrow> l7_link_id_s" where
  "link_id_of t = \<lparr>k_tgid = t_tgid (tr_id t), k_remote_addr = tr_remote_addr t, k_l4_role = tr_l4_role t, k_l7_role = tr_l7_role t, k_protocol = tr_protocol t\<rparr>"

definition find_conn_tracker :: "('t, 'l) ct_env \<Rightarrow> ('t, 'l) l7_mng_s \<Rightarrow> l7_link_id_s \<Rightarrow> conn_tracker_s option" where
  "find_conn_tracker env mng lid = find (\<lambda>t. link_id_of t = lid) (map snd (ut_iter (ce_trackers env) (trackers mng)))"

section \<open>Links\<close>

definition create_l7_link :: "('t, 'l) ct_env \<Rightarrow> l7_link_id_s \<Rightarrow> l7_link_s option" where
  "create_l7_link env lid =
     (if \<not> ce_link_alloc env then None
      else Some \<lparr>lk_id = lid, lk_info = \<lparr>li_comm = [], li_container_id = [], li_pod_id = [], li_pod_ip = [], li_is_ssl = False\<rparr>,
        lk_stats = (\<lambda>_. 0), lk_buckets = init_latency_buckets (replicate 10 zero_bucket), lk_rates = zero_rates, lk_latency_sum = 0\<rparr>)"

definition lkup_l7_link :: "('t, 'l) ct_env \<Rightarrow> ('t, 'l) l7_mng_s \<Rightarrow> l7_link_id_s \<Rightarrow> l7_link_s option" where
  "lkup_l7_link env mng lid = ut_find (ce_links env) lid (l7_links mng)"

definition incr :: "l7_stats_t \<Rightarrow> u64 \<Rightarrow> (l7_stats_t \<Rightarrow> u64) \<Rightarrow> l7_stats_t \<Rightarrow> u64" where
  "incr k n st = st(k := st k + n)"

text \<open>
  A link that exists counts the event. For a new one the counter is set through \<open>link\<close>, which is the null pointer of the failed lookup,
  before the table is reached.
\<close>

definition add_l7_link :: "('t, 'l) ct_env \<Rightarrow> ('t, 'l) l7_mng_s \<Rightarrow> l7_link_id_s \<Rightarrow> conn_tracker_s \<Rightarrow> ('t, 'l) l7_mng_s outc" where
  "add_l7_link env mng lid t =
     (case lkup_l7_link env mng lid of
        Some k \<Rightarrow> Ok (put_link env (k\<lparr>lk_stats := incr OPEN_EVT 1 (lk_stats k)\<rparr>) mng)
      | None \<Rightarrow> (case create_l7_link env lid of None \<Rightarrow> Ok mng | Some _ \<Rightarrow> UB))"

definition del_l7_link :: "('t, 'l) ct_env \<Rightarrow> ('t, 'l) l7_mng_s \<Rightarrow> l7_link_id_s \<Rightarrow> int \<times> ('t, 'l) l7_mng_s" where
  "del_l7_link env mng lid =
     (case lkup_l7_link env mng lid of None \<Rightarrow> (- 1, mng)
      | Some k \<Rightarrow> (case find_conn_tracker env mng lid of
          Some _ \<Rightarrow> (0, put_link env (k\<lparr>lk_stats := incr CLOSE_EVT 1 (lk_stats k)\<rparr>) mng)
        | None \<Rightarrow> (0, mng\<lparr>l7_links := ut_del (ce_links env) lid (l7_links mng)\<rparr>)))"

definition find_l7_link :: "('t, 'l) ct_env \<Rightarrow> ('t, 'l) l7_mng_s \<Rightarrow> conn_tracker_s \<Rightarrow> l7_link_s option" where
  "find_l7_link env mng t = lkup_l7_link env mng (link_id_of t)"

section \<open>Messages of the kernel\<close>

datatype conn_evt_e = CONN_EVT_OPEN conn_addr_s l4_role_t bool | CONN_EVT_CLOSE | CONN_EVT_OTHER

record conn_ctl_s =
  ctl_id :: tracker_id_s
  ctl_timestamp_ns :: u64
  ctl_evt :: conn_evt_e

definition proc_conn_ctl_msg :: "('t, 'l) ct_env \<Rightarrow> ('t, 'l) l7_mng_s \<Rightarrow> conn_ctl_s \<Rightarrow> (int \<times> ('t, 'l) l7_mng_s) outc" where
  "proc_conn_ctl_msg env mng msg =
     (case ctl_evt msg of
        CONN_EVT_OPEN addr role ssl \<Rightarrow>
          (case add_conn_tracker env mng (ctl_id msg) of
             (None, mng) \<Rightarrow> Ok (0, mng)
           | (Some t, mng) \<Rightarrow>
               let t = t\<lparr>tr_is_ssl := ssl, tr_l4_role := role, tr_open_ns := ctl_timestamp_ns msg, tr_remote_addr := addr\<rparr> in
               bnd (add_l7_link env (put_tracker env t mng) (link_id_of t) t) (\<lambda>mng. Ok (0, mng)))
      | CONN_EVT_CLOSE \<Rightarrow>
          (let mng = (case lkup_conn_tracker env mng (ctl_id msg) of None \<Rightarrow> mng
                      | Some t \<Rightarrow> snd (del_l7_link env mng (link_id_of t))) in
           bnd (del_conn_tracker env mng (ctl_id msg)) (\<lambda>mng. Ok (0, mng)))
      | CONN_EVT_OTHER \<Rightarrow> Ok (- 1, mng))"

record conn_stats_s =
  cs_id :: tracker_id_s
  wr_bytes :: u64
  rd_bytes :: u64

definition count_bytes :: "conn_stats_s \<Rightarrow> (l7_stats_t \<Rightarrow> u64) \<Rightarrow> l7_stats_t \<Rightarrow> u64" where
  "count_bytes m st = (incr BYTES_RECV (rd_bytes m) (incr BYTES_SENT (wr_bytes m) st))(LAST_BYTES_SENT := wr_bytes m, LAST_BYTES_RECV := rd_bytes m)"

definition proc_conn_stats_msg :: "('t, 'l) ct_env \<Rightarrow> ('t, 'l) l7_mng_s \<Rightarrow> conn_stats_s \<Rightarrow> int \<times> ('t, 'l) l7_mng_s" where
  "proc_conn_stats_msg env mng m =
     (case lkup_conn_tracker env mng (cs_id m) of None \<Rightarrow> (- 1, mng)
      | Some t \<Rightarrow>
          let mng = put_tracker env (t\<lparr>tr_stats := count_bytes m (tr_stats t)\<rparr>) mng in
          (case find_l7_link env mng t of None \<Rightarrow> (0, mng)
           | Some k \<Rightarrow> (0, put_link env (k\<lparr>lk_stats := count_bytes m (lk_stats k)\<rparr>) mng)))"

record conn_data_s =
  cd_id :: tracker_id_s
  cd_timestamp_ns :: u64
  cd_proto :: proto_type_t
  cd_l7_role :: l7_role_t
  cd_direction :: l7_direction_t
  cd_data_size :: nat
  cd_data :: "byte list"

definition proc_conn_data_msg :: "('t, 'l) ct_env \<Rightarrow> ('t, 'l) l7_mng_s \<Rightarrow> conn_data_s \<Rightarrow> (int \<times> ('t, 'l) l7_mng_s) outc" where
  "proc_conn_data_msg env mng m =
     (case lkup_conn_tracker env mng (cd_id m) of None \<Rightarrow> Ok (- 1, mng)
      | Some t \<Rightarrow> (case find_l7_link env mng t of None \<Rightarrow> Ok (- 1, mng)
        | Some k \<Rightarrow>
            let t = t\<lparr>tr_protocol := cd_proto m, tr_l7_role := cd_l7_role m\<rparr> in
            (case cd_direction m of
               L7_EGRESS \<Rightarrow>
                 bnd (data_stream_add_raw_data (env_malloc (ce_stream env)) (send_stream t) (cd_data m) (cd_data_size m) (cd_timestamp_ns m)) (\<lambda>(r, ds).
                   Ok (r, put_tracker env (t\<lparr>send_stream := ds\<rparr>) (put_link env (k\<lparr>lk_stats := incr DATA_EVT_SENT 1 (lk_stats k)\<rparr>) mng)))
             | L7_INGRESS \<Rightarrow>
                 bnd (data_stream_add_raw_data (env_malloc (ce_stream env)) (recv_stream t) (cd_data m) (cd_data_size m) (cd_timestamp_ns m)) (\<lambda>(r, ds).
                   Ok (r, put_tracker env (t\<lparr>recv_stream := ds\<rparr>) (put_link env (k\<lparr>lk_stats := incr DATA_EVT_RECV 1 (lk_stats k)\<rparr>) mng)))
             | L7_DIRECT_UNKNOW \<Rightarrow> Ok (- 1, put_tracker env t mng))))"


section \<open>Parsing and matching\<close>

text \<open>
  The frames as a matcher sees them: a message of the other protocol is not one it can read. What the matcher wrote is put back.
\<close>

definition pg_view :: "l7_frame frame_buf_s \<Rightarrow> pg_frames" where
  "pg_view b = \<lparr>frames = map (\<lambda>x. case x of Some (PgFrame f) \<Rightarrow> Some f | _ \<Rightarrow> None) (frames b),
     frame_buf_size = frame_buf_size b, frame_current_pos = frame_current_pos b\<rparr>"

definition pg_back :: "l7_frame frame_buf_s \<Rightarrow> pg_frames \<Rightarrow> l7_frame frame_buf_s" where
  "pg_back b v = b\<lparr>frames := map2 (\<lambda>x y. case y of Some f \<Rightarrow> Some (PgFrame f) | None \<Rightarrow> x) (frames b) (frames v),
     frame_current_pos := frame_current_pos v\<rparr>"

definition http_view :: "l7_frame frame_buf_s \<Rightarrow> http_frames" where
  "http_view b = \<lparr>frames = map (\<lambda>x. case x of Some (HttpFrame f) \<Rightarrow> Some f | _ \<Rightarrow> None) (frames b),
     frame_buf_size = frame_buf_size b, frame_current_pos = frame_current_pos b\<rparr>"

definition http_back :: "l7_frame frame_buf_s \<Rightarrow> http_frames \<Rightarrow> l7_frame frame_buf_s" where
  "http_back b v = b\<lparr>frame_current_pos := frame_current_pos v\<rparr>"

definition proto_match_frames :: "mt_env \<Rightarrow> proto_type_t \<Rightarrow> l7_frame frame_buf_s \<Rightarrow> l7_frame frame_buf_s \<Rightarrow> record_buf_s
    \<Rightarrow> (l7_frame frame_buf_s \<times> l7_frame frame_buf_s \<times> record_buf_s) outc" where
  "proto_match_frames env ty req rsp rb =
     (case ty of
        PROTO_PGSQL \<Rightarrow> bnd (pgsql_match_frames env \<lparr>ms_req = pg_view req, ms_rsp = pg_view rsp, ms_rec = rb\<rparr>) (\<lambda>ms.
          Ok (pg_back req (ms_req ms), pg_back rsp (ms_rsp ms), ms_rec ms))
      | PROTO_HTTP \<Rightarrow> bnd (http_match_frames env \<lparr>hs_req = http_view req, hs_rsp = http_view rsp, hs_rec = rb\<rparr>) (\<lambda>hs.
          Ok (http_back req (hs_req hs), http_back rsp (hs_rsp hs), hs_rec hs))
      | _ \<Rightarrow> Ok (req, rsp, rb))"

text \<open>
  \<open>get_req_frames\<close> and \<open>get_resp_frames\<close> give no buffer when the role is not known, and the matchers dereference what they get.
\<close>

definition match_tracker :: "mt_env \<Rightarrow> conn_tracker_s \<Rightarrow> conn_tracker_s outc" where
  "match_tracker env t =
     (case tr_l7_role t of
        L7_CLIENT \<Rightarrow> bnd (proto_match_frames env (tr_protocol t) (frame_bufs (send_stream t)) (frame_bufs (recv_stream t)) (tr_records t))
          (\<lambda>(rq, rs, rb). Ok (t\<lparr>send_stream := (send_stream t)\<lparr>frame_bufs := rq\<rparr>, recv_stream := (recv_stream t)\<lparr>frame_bufs := rs\<rparr>, tr_records := rb\<rparr>))
      | L7_SERVER \<Rightarrow> bnd (proto_match_frames env (tr_protocol t) (frame_bufs (recv_stream t)) (frame_bufs (send_stream t)) (tr_records t))
          (\<lambda>(rq, rs, rb). Ok (t\<lparr>recv_stream := (recv_stream t)\<lparr>frame_bufs := rq\<rparr>, send_stream := (send_stream t)\<lparr>frame_bufs := rs\<rparr>, tr_records := rb\<rparr>))
      | L7_UNKNOW \<Rightarrow> if tr_protocol t \<in> {PROTO_PGSQL, PROTO_HTTP} then UB else Ok t)"

text \<open>The latencies of the records there are, as the loop visits them.\<close>

definition record_latencies :: "record_buf_s \<Rightarrow> u64 list" where
  "record_latencies rb = map latency (List.map_filter id (take (min (record_buf_size rb) RECORD_BUF_SIZE) (records rb)))"

definition add_counts :: "record_buf_s \<Rightarrow> (l7_stats_t \<Rightarrow> u64) \<Rightarrow> l7_stats_t \<Rightarrow> u64" where
  "add_counts rb st = incr ERR_COUNT (of_nat (err_count rb)) (incr RSP_COUNT (of_nat (resp_count rb)) (incr REQ_COUNT (of_nat (req_count rb)) st))"

definition add_latency :: "u64 \<times> histo_bucket_s list \<Rightarrow> u64 \<Rightarrow> u64 \<times> histo_bucket_s list" where
  "add_latency acc v = (case acc of (s, bs) \<Rightarrow> (s + v, snd (histo_bucket_add_value bs v)))"

definition add_tracker_stats :: "('t, 'l) ct_env \<Rightarrow> ('t, 'l) l7_mng_s \<Rightarrow> conn_tracker_s \<Rightarrow> conn_tracker_s \<times> ('t, 'l) l7_mng_s" where
  "add_tracker_stats env mng t =
     (let rb = tr_records t;
          (ts, tb) = foldl add_latency (tr_latency_sum t, tr_buckets t) (record_latencies rb);
          t' = t\<lparr>tr_stats := add_counts rb (tr_stats t), tr_latency_sum := ts, tr_buckets := tb\<rparr> in
      case find_l7_link env mng t of None \<Rightarrow> (t', mng)
      | Some k \<Rightarrow>
          let (ks, kb) = foldl add_latency (lk_latency_sum k, lk_buckets k) (record_latencies rb) in
          (t', put_link env (k\<lparr>lk_stats := add_counts rb (lk_stats k), lk_latency_sum := ks, lk_buckets := kb\<rparr>) mng))"

definition l7_parser_tracker :: "('t, 'l) ct_env \<Rightarrow> ('t, 'l) l7_mng_s \<Rightarrow> conn_tracker_s \<Rightarrow> ('t, 'l) l7_mng_s outc" where
  "l7_parser_tracker env mng t =
     bnd (data_stream_parse_frames (ce_stream env) (get_message_type (tr_l7_role t) L7_EGRESS) (send_stream t)) (\<lambda>snd_ds.
     bnd (data_stream_parse_frames (ce_stream env) (get_message_type (tr_l7_role t) L7_INGRESS) (recv_stream t)) (\<lambda>rcv_ds.
     bnd (match_tracker (ce_match env) (t\<lparr>send_stream := snd_ds, recv_stream := rcv_ds\<rparr>)) (\<lambda>t.
       (case add_tracker_stats env mng t of (t, mng) \<Rightarrow>
          bnd (destroy_tracker_record t) (\<lambda>t.
            Ok (put_tracker env (t\<lparr>send_stream := snd (data_stream_pop_frames (send_stream t)),
                                   recv_stream := snd (data_stream_pop_frames (recv_stream t))\<rparr>) mng))))))"

text \<open>All trackers, in the order of the table.\<close>

fun parse_trackers :: "('t, 'l) ct_env \<Rightarrow> tracker_id_s list \<Rightarrow> ('t, 'l) l7_mng_s \<Rightarrow> ('t, 'l) l7_mng_s outc" where
  "parse_trackers env [] mng = Ok mng"
| "parse_trackers env (i # is) mng =
     (case lkup_conn_tracker env mng i of None \<Rightarrow> parse_trackers env is mng
      | Some t \<Rightarrow> bnd (l7_parser_tracker env mng t) (parse_trackers env is))"

definition l7_parser :: "('t, 'l) ct_env \<Rightarrow> ('t, 'l) l7_mng_s \<Rightarrow> ('t, 'l) l7_mng_s outc" where
  "l7_parser env mng = parse_trackers env (map fst (ut_iter (ce_trackers env) (trackers mng))) mng"

section \<open>Reports\<close>

definition reset_tracker_stats :: "conn_tracker_s \<Rightarrow> conn_tracker_s" where
  "reset_tracker_stats t = t\<lparr>tr_buckets := histo_bucket_reset (tr_buckets t), tr_latency_sum := 0, tr_rates := zero_rates, tr_stats := (\<lambda>_. 0)\<rparr>"

definition reset_link_stats :: "l7_link_s \<Rightarrow> l7_link_s" where
  "reset_link_stats k = k\<lparr>lk_buckets := histo_bucket_reset (lk_buckets k), lk_latency_sum := 0, lk_rates := zero_rates, lk_stats := (\<lambda>_. 0)\<rparr>"

text \<open>The percentile is left as it was when there is no bucket.\<close>

definition calc_rates :: "(rat \<Rightarrow> rat) \<Rightarrow> u32 \<Rightarrow> (l7_stats_t \<Rightarrow> u64) \<Rightarrow> histo_bucket_s list \<Rightarrow> l7_rates \<Rightarrow> l7_rates" where
  "calc_rates rnd per st bs r =
     (let q = to_float rnd (st REQ_COUNT); p = rnd (of_nat (unat per)) in
      \<lparr>throughput_req = f_div rnd q p, throughput_resp = f_div rnd q p,
       latency_p50 = snd (histo_bucket_value rnd bs HISTO_P50 (latency_p50 r)),
       latency_p90 = snd (histo_bucket_value rnd bs HISTO_P90 (latency_p90 r)),
       latency_p99 = snd (histo_bucket_value rnd bs HISTO_P99 (latency_p99 r)),
       err_ratio = f_div rnd (to_float rnd (st ERR_COUNT)) q\<rparr>)"

definition calc_tracker_stats :: "(rat \<Rightarrow> rat) \<Rightarrow> u32 \<Rightarrow> conn_tracker_s \<Rightarrow> conn_tracker_s" where
  "calc_tracker_stats rnd per t = t\<lparr>tr_rates := calc_rates rnd per (tr_stats t) (tr_buckets t) (tr_rates t)\<rparr>"

definition calc_link_stats :: "(rat \<Rightarrow> rat) \<Rightarrow> u32 \<Rightarrow> l7_link_s \<Rightarrow> l7_link_s" where
  "calc_link_stats rnd per k = k\<lparr>lk_rates := calc_rates rnd per (lk_stats k) (lk_buckets k) (lk_rates k)\<rparr>"

text \<open>A function applied to every item of a table.\<close>

definition each :: "('k, 'v, 'h) uthash \<Rightarrow> ('v \<Rightarrow> 'v) \<Rightarrow> 'h \<Rightarrow> 'h" where
  "each ops f h = foldl (\<lambda>h (k, v). ut_write ops k (f v) h) h (ut_iter ops h)"

definition calc_l7_stats :: "('t, 'l) ct_env \<Rightarrow> ('t, 'l) l7_mng_s \<Rightarrow> ('t, 'l) l7_mng_s" where
  "calc_l7_stats env mng = mng\<lparr>trackers := each (ce_trackers env) (calc_tracker_stats (ce_rnd env) (period mng)) (trackers mng),
     l7_links := each (ce_links env) (calc_link_stats (ce_rnd env) (period mng)) (l7_links mng)\<rparr>"

definition reset_l7_stats :: "('t, 'l) ct_env \<Rightarrow> ('t, 'l) l7_mng_s \<Rightarrow> ('t, 'l) l7_mng_s" where
  "reset_l7_stats env mng = mng\<lparr>trackers := each (ce_trackers env) reset_tracker_stats (trackers mng),
     l7_links := each (ce_links env) reset_link_stats (l7_links mng)\<rparr>"

text \<open>The links for which the two lines are printed, in order.\<close>

definition report_l7_stats :: "('t, 'l) ct_env \<Rightarrow> ('t, 'l) l7_mng_s \<Rightarrow> l7_link_s list" where
  "report_l7_stats env mng = map snd (ut_iter (ce_links env) (l7_links mng))"

definition is_report_tmout :: "int \<Rightarrow> ('t, 'l) l7_mng_s \<Rightarrow> bool \<times> ('t, 'l) l7_mng_s" where
  "is_report_tmout current mng =
     (if current > last_report mng \<and> current - last_report mng \<ge> uint (period mng) then (True, mng\<lparr>last_report := current\<rparr>) else (False, mng))"

definition report_l7 :: "('t, 'l) ct_env \<Rightarrow> int \<Rightarrow> ('t, 'l) l7_mng_s \<Rightarrow> l7_link_s list \<times> ('t, 'l) l7_mng_s" where
  "report_l7 env now mng =
     (case is_report_tmout now mng of
        (False, mng) \<Rightarrow> ([], mng)
      | (True, mng) \<Rightarrow> let mng = calc_l7_stats env mng in (report_l7_stats env mng, reset_l7_stats env mng))"

definition destroy_links :: "('t, 'l) ct_env \<Rightarrow> ('t, 'l) l7_mng_s \<Rightarrow> ('t, 'l) l7_mng_s" where
  "destroy_links env mng = mng\<lparr>l7_links := foldl (\<lambda>h k. ut_del (ce_links env) k h) (l7_links mng) (map fst (ut_iter (ce_links env) (l7_links mng)))\<rparr>"


section \<open>The probe as a state machine\<close>

text \<open>The callbacks of the perf or ring buffers, the parsing of all trackers and the report, each with what it prints.\<close>

datatype l7_event = EvCtl conn_ctl_s | EvStats conn_stats_s | EvData conn_data_s | EvParse | EvReport int

fun l7_event_step :: "('t, 'l) ct_env \<Rightarrow> ('t, 'l) l7_mng_s \<Rightarrow> l7_event \<Rightarrow> (l7_link_s list \<times> ('t, 'l) l7_mng_s) outc" where
  "l7_event_step env mng (EvCtl m) = bnd (proc_conn_ctl_msg env mng m) (\<lambda>(r, mng). Ok ([], mng))"
| "l7_event_step env mng (EvStats m) = Ok ([], snd (proc_conn_stats_msg env mng m))"
| "l7_event_step env mng (EvData m) = bnd (proc_conn_data_msg env mng m) (\<lambda>(r, mng). Ok ([], mng))"
| "l7_event_step env mng EvParse = bnd (l7_parser env mng) (\<lambda>mng. Ok ([], mng))"
| "l7_event_step env mng (EvReport now) = Ok (report_l7 env now mng)"

inductive l7_reachable :: "(tracker_id_s, conn_tracker_s, 't) uthash \<Rightarrow> (l7_link_id_s, l7_link_s, 'l) uthash \<Rightarrow> ('t, 'l) l7_mng_s \<Rightarrow> bool"
  for tops lops where
  start: "trackers mng = ut_empty tops \<Longrightarrow> l7_links mng = ut_empty lops \<Longrightarrow> l7_reachable tops lops mng"
| event: "l7_reachable tops lops mng \<Longrightarrow> ce_trackers env = tops \<Longrightarrow> ce_links env = lops \<Longrightarrow>
    l7_event_step env mng ev = Ok (out, mng') \<Longrightarrow> l7_reachable tops lops mng'"

section \<open>No link is ever made\<close>

definition no_links :: "('t, 'l) ct_env \<Rightarrow> ('t, 'l) l7_mng_s \<Rightarrow> bool" where
  "no_links env mng \<longleftrightarrow> ut_iter (ce_links env) (l7_links mng) = []"

lemma no_links_lkup: "uthash_ok (ce_links env) \<Longrightarrow> no_links env mng \<Longrightarrow> lkup_l7_link env mng lid = None"
  by (simp add: no_links_def lkup_l7_link_def ut_find_map_of)

lemma no_links_put [simp]: "l7_links (put_tracker env t mng) = l7_links mng" "no_links env (mng\<lparr>trackers := h\<rparr>) = no_links env mng"
  "no_links env (put_tracker env t mng) = no_links env mng"
  by (simp_all add: put_tracker_def no_links_def)

lemma add_conn_tracker_links: "add_conn_tracker env mng tid = (x, mng') \<Longrightarrow> l7_links mng' = l7_links mng"
  by (auto simp: add_conn_tracker_def split: option.splits)

lemma del_conn_tracker_links: "del_conn_tracker env mng tid = Ok mng' \<Longrightarrow> l7_links mng' = l7_links mng"
  by (auto simp: del_conn_tracker_def split: option.splits dest!: bnd_eq_OkD)

lemma ctl_no_links:
  assumes "uthash_ok (ce_links env)" "no_links env mng" "proc_conn_ctl_msg env mng m = Ok (r, mng')"
  shows "no_links env mng'"
proof (cases "ctl_evt m")
  case (CONN_EVT_OPEN addr role ssl)
  obtain x mng1 where a: "add_conn_tracker env mng (ctl_id m) = (x, mng1)" by (cases "add_conn_tracker env mng (ctl_id m)")
  then have n: "no_links env mng1" using assms(2) add_conn_tracker_links [OF a] by (simp add: no_links_def)
  then have "lkup_l7_link env (put_tracker env t mng1) lid = None" for t lid using no_links_lkup [OF assms(1)] by simp
  then show ?thesis using assms(3) CONN_EVT_OPEN a n
    by (auto simp: proc_conn_ctl_msg_def add_l7_link_def Let_def split: option.splits dest!: bnd_eq_OkD)
next
  case CONN_EVT_CLOSE
  have "snd (del_l7_link env mng lid) = mng" for lid using no_links_lkup [OF assms(1,2)] by (simp add: del_l7_link_def)
  then show ?thesis
    using assms(2,3) CONN_EVT_CLOSE
    by (auto simp: proc_conn_ctl_msg_def Let_def no_links_def dest!: bnd_eq_OkD del_conn_tracker_links split: option.splits)
qed (use assms(2,3) in \<open>simp add: proc_conn_ctl_msg_def\<close>)

lemma parse_no_links:
  "uthash_ok (ce_links env) \<Longrightarrow> no_links env mng \<Longrightarrow> parse_trackers env is mng = Ok mng' \<Longrightarrow> no_links env mng'"
proof (induction "is" arbitrary: mng)
  case (Cons i "is")
  have "snd (add_tracker_stats env mng t) = mng" for t
    using no_links_lkup [OF Cons.prems(1,2)] by (simp add: add_tracker_stats_def find_l7_link_def Let_def split: prod.splits)
  then have one: "no_links env mng1" if "l7_parser_tracker env mng t = Ok mng1" for t mng1
    using that Cons.prems(2) unfolding l7_parser_tracker_def
    by (auto dest!: bnd_eq_OkD split: prod.splits) (metis snd_conv)
  show ?case using Cons one by (auto split: option.splits dest!: bnd_eq_OkD)
qed simp

lemma each_empty [simp]: "ut_iter ops h = [] \<Longrightarrow> each ops f h = h" by (simp add: each_def)

lemma report_no_links:
  assumes "no_links env mng"
  shows "fst (report_l7 env now mng) = []" "no_links env (snd (report_l7 env now mng))"
  using assms by (auto simp: report_l7_def is_report_tmout_def Let_def calc_l7_stats_def reset_l7_stats_def report_l7_stats_def no_links_def)

lemma data_no_links: "uthash_ok (ce_links env) \<Longrightarrow> no_links env mng \<Longrightarrow> proc_conn_data_msg env mng m = Ok (- 1, mng)"
  by (simp add: proc_conn_data_msg_def find_l7_link_def no_links_lkup split: option.splits)

lemma step_no_links:
  assumes "uthash_ok (ce_links env)" "no_links env mng" "l7_event_step env mng ev = Ok (out, mng')"
  shows "no_links env mng' \<and> out = []"
proof (cases ev)
  case (EvCtl m)
  then show ?thesis using ctl_no_links [OF assms(1,2)] assms(3) by (auto dest!: bnd_eq_OkD)
next
  case (EvStats m)
  have "find_l7_link env (put_tracker env t' mng) t = None" for t t' using assms(1,2) by (simp add: find_l7_link_def no_links_lkup)
  then show ?thesis using EvStats assms(2,3) by (auto simp: proc_conn_stats_msg_def Let_def split: option.splits)
next
  case (EvData m)
  then show ?thesis using data_no_links [OF assms(1,2)] assms(2,3) by simp
next
  case EvParse
  then show ?thesis using parse_no_links [OF assms(1,2)] assms(3) by (auto simp: l7_parser_def dest!: bnd_eq_OkD)
next
  case (EvReport now)
  then show ?thesis using report_no_links [OF assms(2), of now] assms(3) by auto
qed

lemma open_no_links:
  assumes "uthash_ok (ce_links env)" "no_links env mng" "ce_tracker_alloc env" "ce_link_alloc env" "ctl_evt m = CONN_EVT_OPEN addr role ssl"
  shows "proc_conn_ctl_msg env mng m = UB"
proof -
  have "\<exists>t mng1. add_conn_tracker env mng (ctl_id m) = (Some t, mng1)"
    using assms(3) by (cases "lkup_conn_tracker env mng (ctl_id m)") (simp_all add: add_conn_tracker_def create_conn_tracker_def)
  then obtain t mng1 where a: "add_conn_tracker env mng (ctl_id m) = (Some t, mng1)" by blast
  then have "no_links env mng1" using assms(2) add_conn_tracker_links [OF a] by (simp add: no_links_def)
  then have "lkup_l7_link env (put_tracker env t' mng1) lid = None" for t' lid using no_links_lkup [OF assms(1)] by simp
  then show ?thesis using a assms(4,5) by (simp add: proc_conn_ctl_msg_def add_l7_link_def create_l7_link_def Let_def)
qed

text \<open>C20. The layer-7 probe observes nothing: in every state that messages of the kernel, parsing and reports lead to there is no link, because
  making the first one writes through a null pointer; so as long as memory is available the opening of any connection is
  undefined behaviour, every captured message is refused, and a report prints no line.\<close>

theorem l7_observes_nothing:
  assumes "l7_reachable tops lops mng" "uthash_ok lops" "ce_links env = lops"
  shows "ut_iter lops (l7_links mng) = [] \<and> proc_conn_data_msg env mng d = Ok (- 1, mng) \<and> fst (report_l7 env now mng) = [] \<and>
    (ce_tracker_alloc env \<and> ce_link_alloc env \<and> ctl_evt m = CONN_EVT_OPEN addr role ssl \<longrightarrow> proc_conn_ctl_msg env mng m = UB)"
proof -
  have "ut_iter lops (l7_links mng) = []"
    using assms(1)
  proof induction
    case (start mng)
    then show ?case using assms(2) by (simp add: uthash_okD)
  next
    case (event mng env ev out mng')
    then show ?case using step_no_links [of env mng ev out mng'] assms(2) by (simp add: no_links_def)
  qed
  then have "no_links env mng" by (simp add: no_links_def assms(3))
  then show ?thesis
    using data_no_links [of env mng d] report_no_links(1) [of env mng now] open_no_links [of env mng m addr role ssl] assms(2,3)
    by (auto simp: no_links_def)
qed


section \<open>Statistics\<close>

lemma add_latency_foldl: "foldl add_latency (s, bs) vs = (s + sum_list vs, add_values bs vs)"
  by (induction vs arbitrary: s bs) (simp_all add: add_latency_def add_values_def add.assoc)

text \<open>What a round adds: the counters, the sum of the latencies and their histogram.\<close>

definition counted :: "record_buf_s \<Rightarrow> (l7_stats_t \<Rightarrow> u64) \<Rightarrow> (l7_stats_t \<Rightarrow> u64) \<Rightarrow> bool" where
  "counted rb st st' \<longleftrightarrow> st' REQ_COUNT = st REQ_COUNT + of_nat (req_count rb) \<and> st' RSP_COUNT = st RSP_COUNT + of_nat (resp_count rb) \<and>
     st' ERR_COUNT = st ERR_COUNT + of_nat (err_count rb) \<and> (\<forall>k. k \<notin> {REQ_COUNT, RSP_COUNT, ERR_COUNT} \<longrightarrow> st' k = st k)"

lemma counted_add: "counted rb st (add_counts rb st)" by (simp add: counted_def add_counts_def incr_def)

lemma put_link_lkup:
  assumes "uthash_ok (ce_links env)" "keyed (ce_links env) (l7_links mng)" "lkup_l7_link env mng (lk_id k) \<noteq> None"
  shows "lkup_l7_link env (put_link env k mng) lid = (if lid = lk_id k then Some k else lkup_l7_link env mng lid)"
    "keyed (ce_links env) (l7_links (put_link env k mng))"
  using keyed_write [OF assms(1,2), of "lk_id k" k] assms(3) find_tbl [OF assms(1)] assms(2) by (auto simp: lkup_l7_link_def put_link_def)

text \<open>The statistics of a round are exact, and a connection and its link are counted alike: to both are added the numbers of requests,
  responses and errors, the sum of the latencies of the records, and their histogram; other links keep theirs.\<close>

theorem tracker_stats_exact:
  assumes "uthash_ok (ce_links env)" "keyed (ce_links env) (l7_links mng)" "find_l7_link env mng t = Some k" "lk_id k = link_id_of t"
    and "in_order lo (tr_buckets t)" "in_order lo' (lk_buckets k)" "vs = record_latencies (tr_records t)"
  shows "\<exists>t' mng' k'. add_tracker_stats env mng t = (t', mng') \<and> find_l7_link env mng' t = Some k' \<and>
    counted (tr_records t) (tr_stats t) (tr_stats t') \<and> counted (tr_records t) (lk_stats k) (lk_stats k') \<and>
    tr_latency_sum t' = tr_latency_sum t + sum_list vs \<and> lk_latency_sum k' = lk_latency_sum k + sum_list vs \<and>
    tr_buckets t' = histogram_of (tr_buckets t) vs \<and> lk_buckets k' = histogram_of (lk_buckets k) vs \<and>
    (\<forall>lid. lid \<noteq> link_id_of t \<longrightarrow> lkup_l7_link env mng' lid = lkup_l7_link env mng lid)"
proof -
  let ?k = "k\<lparr>lk_stats := add_counts (tr_records t) (lk_stats k), lk_latency_sum := lk_latency_sum k + sum_list vs, lk_buckets := histogram_of (lk_buckets k) vs\<rparr>"
  have "lkup_l7_link env (put_link env ?k mng) lid = (if lid = link_id_of t then Some ?k else lkup_l7_link env mng lid)" for lid
    using put_link_lkup(1) [OF assms(1,2), of ?k lid] assms(3,4) by (simp add: find_l7_link_def)
  then show ?thesis
    using assms(3) counted_add add_values_histogram [OF assms(5)] add_values_histogram [OF assms(6)]
    by (simp add: add_tracker_stats_def add_latency_foldl assms(7) [symmetric] find_l7_link_def Let_def)
qed

text \<open>The bounds of the latency buckets are meant as milliseconds, while the latencies are differences of nanosecond times: one above ten
  microseconds is counted in no bucket.\<close>

lemma buckets_in_order: "in_order 0 (init_latency_buckets (replicate 10 zero_bucket))"
  by code_simp

lemma buckets_max: "list_all (\<lambda>b. h_max b \<le> 10000) (init_latency_buckets (replicate 10 zero_bucket))"
  by code_simp

lemma long_latencies_dropped:
  assumes "\<forall>v \<in> set vs. 10000 < v"
  shows "histogram_of (init_latency_buckets (replicate 10 zero_bucket)) vs = init_latency_buckets (replicate 10 zero_bucket)"
proof -
  have "h_max b \<le> 10000" if "b \<in> set (init_latency_buckets (replicate 10 zero_bucket))" for b
    using that buckets_max by (simp add: list_all_iff)
  then have "filter (in_bucket b) vs = []" if "b \<in> set (init_latency_buckets (replicate 10 zero_bucket))" for b
    using assms that by (auto simp: in_bucket_def filter_empty_conv) (meson leD order_trans)
  then show ?thesis by (auto simp: histogram_of_def intro!: map_idI)
qed

section \<open>Links and connections\<close>

text \<open>Closing a connection does not remove its link: the search for another tracker of the link finds the one being closed.\<close>

lemma close_keeps_link:
  assumes "lkup_conn_tracker env mng (ctl_id m) = Some t" "uthash_ok (ce_trackers env)" "keyed (ce_trackers env) (trackers mng)"
  shows "fst (del_l7_link env mng (link_id_of t)) = 0 \<longrightarrow>
    (\<exists>k. lkup_l7_link env mng (link_id_of t) = Some k \<and>
      snd (del_l7_link env mng (link_id_of t)) = put_link env (k\<lparr>lk_stats := incr CLOSE_EVT 1 (lk_stats k)\<rparr>) mng)"
proof -
  have "tbl (ce_trackers env) (trackers mng) (ctl_id m) = Some t"
    using assms find_tbl [OF assms(2,3)] by (simp add: lkup_conn_tracker_def)
  then have "(ctl_id m, t) \<in> set (ut_iter (ce_trackers env) (trackers mng))" using tbl_iter [OF assms(3)] by simp
  then have "find_conn_tracker env mng (link_id_of t) \<noteq> None" unfolding find_conn_tracker_def find_None_iff by force
  then show ?thesis by (auto simp: del_l7_link_def split: option.splits)
qed

lemma free_records_crash: "Some r \<in> set rs \<Longrightarrow> ty \<in> {PROTO_PGSQL, PROTO_HTTP} \<Longrightarrow> free_records ty rs = UB"
  by (induction rs) (auto simp: free_record_data_def split: option.splits)

text \<open>A round in which a request was matched is undefined behaviour: the record is handed to its destructor as if it were the pair of
  messages it points to.\<close>

theorem matched_round_crashes:
  assumes "data_stream_parse_frames (ce_stream env) (get_message_type (tr_l7_role t) L7_EGRESS) (send_stream t) = Ok ds1"
    and "data_stream_parse_frames (ce_stream env) (get_message_type (tr_l7_role t) L7_INGRESS) (recv_stream t) = Ok ds2"
    and "match_tracker (ce_match env) (t\<lparr>send_stream := ds1, recv_stream := ds2\<rparr>) = Ok t'"
    and "tr_protocol t \<in> {PROTO_PGSQL, PROTO_HTTP}" "Some r \<in> set (take (min (record_buf_size (tr_records t')) RECORD_BUF_SIZE) (records (tr_records t')))"
  shows "l7_parser_tracker env mng t = UB"
proof -
  have p: "tr_protocol t' = tr_protocol t"
    using assms(3) by (auto simp: match_tracker_def split: l7_role_t.splits if_splits dest!: bnd_eq_OkD)
  obtain t2 mng2 where a: "add_tracker_stats env mng t' = (t2, mng2)" by (cases "add_tracker_stats env mng t'")
  then have "tr_records t2 = tr_records t'" "tr_protocol t2 = tr_protocol t'"
    by (auto simp: add_tracker_stats_def Let_def split: prod.splits option.splits)
  then have "destroy_tracker_record t2 = UB" using assms(4,5) p by (simp add: destroy_tracker_record_def Let_def free_records_crash)
  then show ?thesis using assms(1-3) a by (simp add: l7_parser_tracker_def)
qed


section \<open>Examples\<close>

lemma parse_empty_stream: "raw_buf_size (raw_bufs ds) = 0 \<Longrightarrow> data_stream_parse_frames env mt ds = Ok ds"
proof -
  assume "raw_buf_size (raw_bufs ds) = 0"
  then have "c_loop (parse_step m b p) (LNext, ds) = Some (Ok (LNext, ds))" for m b p
    by (intro c_loop_stop) (simp add: peek_raw_data_def)
  then show ?thesis by (simp add: data_stream_parse_frames_def parse_stream_def)
qed

definition demo_ct_env :: "((tracker_id_s \<times> conn_tracker_s) list, (l7_link_id_s \<times> l7_link_s) list) ct_env" where
  "demo_ct_env = \<lparr>ce_trackers = alist_ops, ce_links = alist_ops, ce_tracker_alloc = True, ce_link_alloc = True,
     ce_stream = \<lparr>env_malloc = (\<lambda>_. True), env_startup = demo_start, env_regular = demo_msg, env_wrap = PgFrame,
       http_boundary = (\<lambda>_ r. Some (current_pos r)), http_parse = (\<lambda>_ r. Ok (STATE_NEEDS_MORE_DATA, None, r))\<rparr>,
     ce_match = demo_pg_env, ce_rnd = id\<rparr>"

definition demo_conn :: tracker_id_s where "demo_conn = \<lparr>t_tgid = 7, t_fd = 3\<rparr>"

definition demo_tracker :: conn_tracker_s where
  "demo_tracker = (the (create_conn_tracker demo_ct_env demo_conn))\<lparr>tr_l7_role := L7_CLIENT, tr_protocol := PROTO_HTTP\<rparr>"

definition demo_link :: l7_link_s where
  "demo_link = the (create_l7_link demo_ct_env (link_id_of demo_tracker))"

definition demo_mng :: "((tracker_id_s \<times> conn_tracker_s) list, (l7_link_id_s \<times> l7_link_s) list) l7_mng_s" where
  "demo_mng = \<lparr>trackers = [], l7_links = [], last_report = 0, period = 5\<rparr>"

theorem l7_observes_nothing_witness:
  "proc_conn_ctl_msg demo_ct_env demo_mng \<lparr>ctl_id = demo_conn, ctl_timestamp_ns = 1, ctl_evt = CONN_EVT_OPEN zero_addr L4_CLIENT False\<rparr> = UB"
proof -
  have "l7_reachable alist_ops alist_ops demo_mng" by (rule l7_reachable.start) (simp_all add: demo_mng_def)
  from l7_observes_nothing [OF this alist_ops_ok, of demo_ct_env _ _ "\<lparr>ctl_id = demo_conn, ctl_timestamp_ns = 1, ctl_evt = CONN_EVT_OPEN zero_addr L4_CLIENT False\<rparr>" zero_addr L4_CLIENT False]
  show ?thesis by (simp add: demo_ct_env_def)
qed

definition demo_counted :: conn_tracker_s where
  "demo_counted = demo_tracker\<lparr>tr_records := zero_records\<lparr>records := Some \<lparr>rec_req = 0, rec_resp_ns = 25, latency = 15\<rparr> # replicate 1023 None,
     record_buf_size := 1, req_count := 1, resp_count := 1\<rparr>\<rparr>"

theorem tracker_stats_exact_witness:
  "\<exists>t' mng' k'. add_tracker_stats demo_ct_env (demo_mng\<lparr>l7_links := [(link_id_of demo_tracker, demo_link)]\<rparr>) demo_counted = (t', mng') \<and>
     find_l7_link demo_ct_env mng' demo_counted = Some k' \<and> tr_stats t' REQ_COUNT = 1 \<and> lk_stats k' REQ_COUNT = 1 \<and>
     tr_latency_sum t' = 15 \<and> lk_latency_sum k' = 15 \<and> h_count (tr_buckets t' ! 3) = 1"
proof -
  let ?mng = "demo_mng\<lparr>l7_links := [(link_id_of demo_tracker, demo_link)]\<rparr>"
  have t: "tr_buckets demo_counted = init_latency_buckets (replicate 10 zero_bucket)" "lk_buckets demo_link = init_latency_buckets (replicate 10 zero_bucket)"
    "link_id_of demo_counted = link_id_of demo_tracker" "lk_id demo_link = link_id_of demo_tracker"
    by (simp_all add: demo_counted_def demo_tracker_def demo_link_def create_conn_tracker_def create_l7_link_def demo_ct_env_def link_id_of_def)
  have f: "find_l7_link demo_ct_env ?mng demo_counted = Some demo_link" "uthash_ok (ce_links demo_ct_env)" "keyed (ce_links demo_ct_env) (l7_links ?mng)"
    by (simp_all add: find_l7_link_def lkup_l7_link_def demo_ct_env_def t(3) alist_ops_ok keyed_def)
  have v: "record_latencies (tr_records demo_counted) = [15]"
    by (simp add: record_latencies_def demo_counted_def RECORD_BUF_SIZE_def List.map_filter_def zero_records_def)
  have h: "h_count (histogram_of (init_latency_buckets (replicate 10 zero_bucket)) [15] ! 3) = 1" by code_simp
  have z: "tr_stats demo_counted REQ_COUNT = 0" "lk_stats demo_link REQ_COUNT = 0" "tr_latency_sum demo_counted = 0" "lk_latency_sum demo_link = 0"
    "req_count (tr_records demo_counted) = 1"
    by (simp_all add: demo_counted_def demo_tracker_def demo_link_def create_conn_tracker_def create_l7_link_def demo_ct_env_def)
  show ?thesis
    using tracker_stats_exact [OF f(2,3) f(1), of 0 0 "[15]"] t v h z buckets_in_order by (auto simp: counted_def)
qed

definition demo_http_stream :: "http_message list \<Rightarrow> l7_frame data_stream_s" where
  "demo_http_stream ms = init_data_stream\<lparr>frame_bufs := \<lparr>frames = map (\<lambda>m. Some (HttpFrame \<lparr>http_frame = m\<rparr>)) ms @ replicate (FRAME_BUF_SIZE - length ms) None,
     frame_buf_size = length ms, frame_current_pos = 0\<rparr>\<rparr>"

lemma demo_http_view: "http_view (frame_bufs (demo_http_stream ms)) = demo_http_buf ms"
  by (simp add: http_view_def demo_http_stream_def demo_http_buf_def comp_def map_replicate_const)

theorem matched_round_crashes_witness:
  "l7_parser_tracker demo_ct_env demo_mng (demo_tracker\<lparr>send_stream := demo_http_stream [demo_http_msg 10 0], recv_stream := demo_http_stream [demo_http_msg 25 200]\<rparr>) = UB"
proof -
  let ?qs = "[demo_http_msg 10 0]" and ?rs = "[demo_http_msg 25 200]"
  let ?t = "demo_tracker\<lparr>send_stream := demo_http_stream ?qs, recv_stream := demo_http_stream ?rs\<rparr>"
  have t: "in_turn ?qs ?rs" by (simp add: demo_http_msg_def INT64_MAX_def)
  let ?s = "\<lparr>hs_req = demo_http_buf ?qs, hs_rsp = demo_http_buf ?rs, hs_rec = zero_records\<lparr>req_count := 1, resp_count := 1\<rparr>\<rparr>"
  have s: "turn_state ?qs ?rs 0 ?s"
    using demo_http_holds [of ?qs] demo_http_holds [of ?rs] by (simp add: turn_state_def zero_records_def FRAME_BUF_SIZE_def demo_http_buf_def)
  have env: "me_malloc demo_pg_env n" for n by (simp add: demo_pg_env_def)
  obtain s' where r: "http_match_loop demo_pg_env None ?s = Ok s'" "turn_state ?qs ?rs 1 s'" using http_rounds [OF env t _ s] by auto
  then have m: "http_match_frames demo_pg_env \<lparr>hs_req = demo_http_buf ?qs, hs_rsp = demo_http_buf ?rs, hs_rec = zero_records\<rparr> = Ok s'"
    by (simp add: http_match_frames_def env Let_def zero_records_def demo_http_buf_def)
  have d: "tr_l7_role demo_tracker = L7_CLIENT" "tr_protocol demo_tracker = PROTO_HTTP" "tr_records demo_tracker = zero_records" "ce_match demo_ct_env = demo_pg_env"
    by (simp_all add: demo_tracker_def create_conn_tracker_def demo_ct_env_def)
  obtain t' where "match_tracker demo_pg_env ?t = Ok t'" "tr_records t' = hs_rec s'"
    using m by (auto simp: match_tracker_def d proto_match_frames_def demo_http_view)
  moreover have "Some (http_pair 0 (?qs ! 0) (?rs ! 0)) \<in> set (take (min (record_buf_size (hs_rec s')) RECORD_BUF_SIZE) (records (hs_rec s')))"
    using r(2) by (simp add: turn_state_def RECORD_BUF_SIZE_def)
  ultimately show ?thesis
    using matched_round_crashes [of demo_ct_env ?t "demo_http_stream ?qs" "demo_http_stream ?rs" t' "http_pair 0 (?qs ! 0) (?rs ! 0)" demo_mng] d
    by (simp add: parse_empty_stream demo_http_stream_def init_data_stream_def)
qed

end
