(* ===== verification/Probe_Params.thy ===== *)
theory Probe_Params
  imports C_Strings
begin

unbundle bit_operations_syntax

text \<open>
  The parameters of a probe and the parser of the \<open>params\<close> object of a REST request:
  \<open>struct probe_params\<close> (src/src/common/args.h), the table \<open>param_keys\<close> with one parser and
  one defaulter per key, \<open>set_default_params\<close> and \<open>parse_params\<close>
  (src/src/lib/probe/probe_params_parser.c).

  The JSON library is not part of the repository. Its nodes are an abstract type, and the
  accessors the code uses (\<open>type\<close>, \<open>valueint\<close>, \<open>valuestring\<close>, \<open>cJSON_GetArraySize\<close>,
  \<open>cJSON_GetArrayItem\<close>, \<open>cJSON_GetObjectItem\<close>) are an argument of every parser. What the code
  relies on is \<open>cjson_ok\<close>: an item below the size of an array exists, and a node of type string
  has a string.

  A parser returns \<open>Inr ()\<close> where the code returns 0 and \<open>Inl m\<close> where it returns -1; \<open>m\<close> is the
  message it left in \<open>g_parse_json_err\<close>, if it wrote one. The parameters are returned in both cases,
  because a parser that fails can have changed them. Array fields of type \<open>char\<close> hold the
  string up to its terminator.
\<close>

section \<open>The JSON library\<close>

record 'j cjson =
  cJSON_Number :: int
  cJSON_String :: int
  cJSON_Array :: int
  node_type :: "'j \<Rightarrow> int"
  node_valueint :: "'j \<Rightarrow> int"
  node_valuestring :: "'j \<Rightarrow> string option"
  cJSON_GetArraySize :: "'j \<Rightarrow> nat"
  cJSON_GetArrayItem :: "'j \<Rightarrow> nat \<Rightarrow> 'j option"
  cJSON_GetObjectItem :: "'j \<Rightarrow> string \<Rightarrow> 'j option"

definition cjson_ok :: "'j cjson \<Rightarrow> bool" where
  "cjson_ok api \<longleftrightarrow>
     (\<forall>a i. i < cJSON_GetArraySize api a \<longrightarrow> cJSON_GetArrayItem api a i \<noteq> None) \<and>
     (\<forall>a. node_type api a = cJSON_String api \<longrightarrow> node_valuestring api a \<noteq> None)"

section \<open>Data\<close>

definition DEFAULT_PERIOD :: int where "DEFAULT_PERIOD = 5"
definition DEFAULT_SAMPLE_PERIOD :: int where "DEFAULT_SAMPLE_PERIOD = 100"
definition DEFAULT_KAFKA_PORT :: int where "DEFAULT_KAFKA_PORT = 9092"
definition MAX_PATH_LEN :: nat where "MAX_PATH_LEN = 512"
definition MAX_COMM_LEN :: nat where "MAX_COMM_LEN = 17"
definition DEV_NAME :: nat where "DEV_NAME = 32"
definition MAX_IP_LEN :: nat where "MAX_IP_LEN = 20"
definition MAX_IP_NUM :: nat where "MAX_IP_NUM = 8"
definition MAX_TGIDS_LEN :: nat where "MAX_TGIDS_LEN = 64"
definition PYSCOPE_SERVER_URL_LEN :: nat where "PYSCOPE_SERVER_URL_LEN = 256"
definition PATH_LEN :: nat where "PATH_LEN = 256"

lemmas size_consts = MAX_PATH_LEN_def MAX_COMM_LEN_def DEV_NAME_def MAX_IP_LEN_def MAX_IP_NUM_def
  MAX_TGIDS_LEN_def PYSCOPE_SERVER_URL_LEN_def PATH_LEN_def

record probe_params =
  period :: u32
  sample_period :: u32
  latency_thr :: u32
  jitter_thr :: u32
  offline_thr :: u32
  drops_count_thr :: u32
  filter_pid :: u32
  load_probe :: u32
  kafka_port :: u32
  logs :: byte
  metrics_flags :: byte
  env_flags :: byte
  support_ssl :: byte
  filter_task_probe :: byte
  res_percent_upper :: byte
  res_percent_lower :: byte
  cport_flag :: byte
  continuous_sampling_flag :: byte
  target_dev :: string
  elf_path :: string
  task_whitelist :: string
  netcard_list :: string
  target_comm :: string
  host_ip_list :: "string list"
  tgids :: string
  l7_probe_proto_flags :: u32
  enable_all_thrds :: u32
  sys_debuging_dir :: string
  svg_period :: u32
  perf_sample_period :: u32
  pyroscope_server :: string
  svg_dir :: string
  flame_dir :: string

text \<open>The structure after \<open>memset(params, 0, sizeof(struct probe_params))\<close>.\<close>

definition zero_params :: probe_params where
  "zero_params = \<lparr>period = 0, sample_period = 0, latency_thr = 0, jitter_thr = 0, offline_thr = 0,
     drops_count_thr = 0, filter_pid = 0, load_probe = 0, kafka_port = 0, logs = 0, metrics_flags = 0,
     env_flags = 0, support_ssl = 0, filter_task_probe = 0, res_percent_upper = 0,
     res_percent_lower = 0, cport_flag = 0, continuous_sampling_flag = 0, target_dev = [],
     elf_path = [], task_whitelist = [], netcard_list = [], target_comm = [],
     host_ip_list = replicate MAX_IP_NUM [], tgids = [], l7_probe_proto_flags = 0,
     enable_all_thrds = 0, sys_debuging_dir = [], svg_period = 0, perf_sample_period = 0,
     pyroscope_server = [], svg_dir = [], flame_dir = []\<rparr>"

text \<open>The messages \<open>PARSE_ERR\<close> writes.\<close>

datatype parse_err = Range_err string int int | Value_err string string | Type_err string

type_synonym parse_ret = "parse_err option + unit"

record param_val_s =
  default_int :: int
  min_val :: int
  max_val :: int
  default_string :: string

type_synonym param_flags_s = "(string \<times> u32) list"

definition param_l7pro_flags :: param_flags_s where
  "param_l7pro_flags = [(''http'', 0x0001), (''dns'', 0x0002), (''redis'', 0x0004),
     (''mysql'', 0x0008), (''pgsql'', 0x0010), (''kafka'', 0x0012), (''mongo'', 0x0014)]"

definition param_metrics_flags :: param_flags_s where
  "param_metrics_flags = [(''raw'', 0x01), (''telemetry'', 0x02)]"

definition param_env_flags :: param_flags_s where
  "param_env_flags = [(''node'', 0x01), (''container'', 0x02), (''kubenet'', 0x04)]"

section \<open>Parsers\<close>

fun get_params_flags :: "param_flags_s \<Rightarrow> string \<Rightarrow> u32" where
  "get_params_flags [] target = 0"
| "get_params_flags ((desc, flags) # rest) target =
     (if strcaseeq desc target then flags else get_params_flags rest target)"

text \<open>
  The table's parsers take the JSON accessors, the key and its values (\<open>struct param_key_s\<close> without
  the function pointers), the item and the parameters of the probe.
\<close>

type_synonym 'j parser_param_key =
  "'j cjson \<Rightarrow> string \<Rightarrow> param_val_s \<Rightarrow> 'j \<Rightarrow> probe_params \<Rightarrow> (parse_ret \<times> probe_params) outc"

definition out_of_range :: "param_val_s \<Rightarrow> int \<Rightarrow> bool" where
  "out_of_range v value \<longleftrightarrow> value < min_val v \<or> value > max_val v"

definition range_err :: "string \<Rightarrow> param_val_s \<Rightarrow> parse_ret" where
  "range_err key v = Inl (Some (Range_err key (min_val v) (max_val v)))"

definition parser_sample_peirod :: "'j parser_param_key" where
  "parser_sample_peirod api key v item p =
     (let value = node_valueint api item in
      if out_of_range v value then Ok (range_err key v, p)
      else Ok (Inr (), p\<lparr>sample_period := word_of_int value\<rparr>))"

definition parser_report_peirod :: "'j parser_param_key" where
  "parser_report_peirod api key v item p =
     (let value = node_valueint api item in
      if out_of_range v value then Ok (range_err key v, p)
      else Ok (Inr (), p\<lparr>period := word_of_int value\<rparr>))"

definition parser_latency_thr :: "'j parser_param_key" where
  "parser_latency_thr api key v item p =
     (let value = node_valueint api item in
      if out_of_range v value then Ok (range_err key v, p)
      else Ok (Inr (), p\<lparr>latency_thr := word_of_int value\<rparr>))"

definition parser_drops_thr :: "'j parser_param_key" where
  "parser_drops_thr api key v item p =
     (let value = node_valueint api item in
      if out_of_range v value then Ok (range_err key v, p)
      else Ok (Inr (), p\<lparr>drops_count_thr := word_of_int value\<rparr>))"

definition parser_res_lower_thr :: "'j parser_param_key" where
  "parser_res_lower_thr api key v item p =
     (let value = node_valueint api item in
      if out_of_range v value then Ok (range_err key v, p)
      else Ok (Inr (), p\<lparr>res_percent_lower := word_of_int value\<rparr>))"

definition parser_res_upper_thr :: "'j parser_param_key" where
  "parser_res_upper_thr api key v item p =
     (let value = node_valueint api item in
      if out_of_range v value then Ok (range_err key v, p)
      else Ok (Inr (), p\<lparr>res_percent_upper := word_of_int value\<rparr>))"

text \<open>The tokens beyond the eighth are dropped, entries behind the last token keep what they held.\<close>

definition parse_host_ip_fields :: "'j parser_param_key" where
  "parse_host_ip_fields api key v item p =
     (if node_type api item \<noteq> cJSON_String api then Ok (Inl None, p)
      else case node_valuestring api item of None \<Rightarrow> UB
        | Some value \<Rightarrow>
            (let toks = take MAX_IP_NUM (strtok_all CHR '','' [] value)
             in Ok (Inr (), p\<lparr>host_ip_list :=
                  map (snprintf_s MAX_IP_LEN) toks @ drop (length toks) (host_ip_list p)\<rparr>)))"

definition parser_report_event :: "'j parser_param_key" where
  "parser_report_event api key v item p =
     (let value = node_valueint api item in
      if out_of_range v value then Ok (range_err key v, p)
      else Ok (Inr (), p\<lparr>logs := word_of_int value\<rparr>))"

text \<open>
  The loop over the items of an array of flag names, shared by \<open>parser_metrics_type\<close>,
  \<open>parser_work_env\<close> and \<open>parser_l7pro\<close>: \<open>upd\<close> is the assignment at its end. A bad item ends it
  with the flags of the items before it set.
\<close>

fun array_flags :: "'j cjson \<Rightarrow> param_flags_s \<Rightarrow> string \<Rightarrow> (u32 \<Rightarrow> probe_params \<Rightarrow> probe_params) \<Rightarrow> 'j
    \<Rightarrow> nat list \<Rightarrow> probe_params \<Rightarrow> (parse_ret \<times> probe_params) outc" where
  "array_flags api tbl key upd item [] p = Ok (Inr (), p)"
| "array_flags api tbl key upd item (i # is) p =
     (case cJSON_GetArrayItem api item i of None \<Rightarrow> UB
      | Some obj \<Rightarrow>
          if node_type api obj \<noteq> cJSON_String api then Ok (Inl None, p)
          else case node_valuestring api obj of None \<Rightarrow> UB
            | Some value \<Rightarrow>
                (let fl = get_params_flags tbl value in
                 if fl = 0 then Ok (Inl (Some (Value_err key value)), p)
                 else array_flags api tbl key upd item is (upd fl p)))"

definition parser_metrics_type :: "'j parser_param_key" where
  "parser_metrics_type api key v item p =
     array_flags api param_metrics_flags key (\<lambda>fl p. p\<lparr>metrics_flags := metrics_flags p OR ucast fl\<rparr>)
       item [0..<cJSON_GetArraySize api item] p"

definition parser_work_env :: "'j parser_param_key" where
  "parser_work_env api key v item p =
     array_flags api param_env_flags key (\<lambda>fl p. p\<lparr>env_flags := env_flags p OR ucast fl\<rparr>)
       item [0..<cJSON_GetArraySize api item] p"

definition parser_l7pro :: "'j parser_param_key" where
  "parser_l7pro api key v item p =
     array_flags api param_l7pro_flags key (\<lambda>fl p. p\<lparr>l7_probe_proto_flags := l7_probe_proto_flags p OR fl\<rparr>)
       item [0..<cJSON_GetArraySize api item] p"

definition parser_report_tcpsport :: "'j parser_param_key" where
  "parser_report_tcpsport api key v item p =
     (let value = node_valueint api item in
      if out_of_range v value then Ok (range_err key v, p)
      else Ok (Inr (), p\<lparr>cport_flag := word_of_int value\<rparr>))"

definition parser_support_ssl :: "'j parser_param_key" where
  "parser_support_ssl api key v item p =
     (let value = node_valueint api item in
      if out_of_range v value then Ok (range_err key v, p)
      else Ok (Inr (), p\<lparr>support_ssl := word_of_int value\<rparr>))"

definition parser_svg_dir :: "'j parser_param_key" where
  "parser_svg_dir api key v item p =
     (if node_type api item \<noteq> cJSON_String api then Ok (Inl None, p)
      else case node_valuestring api item of None \<Rightarrow> UB
        | Some value \<Rightarrow> Ok (Inr (), p\<lparr>svg_dir := snprintf_s PATH_LEN value\<rparr>))"

definition parser_flame_dir :: "'j parser_param_key" where
  "parser_flame_dir api key v item p =
     (if node_type api item \<noteq> cJSON_String api then Ok (Inl None, p)
      else case node_valuestring api item of None \<Rightarrow> UB
        | Some value \<Rightarrow> Ok (Inr (), p\<lparr>flame_dir := snprintf_s PATH_LEN value\<rparr>))"

definition parser_pyscope_server :: "'j parser_param_key" where
  "parser_pyscope_server api key v item p =
     (if node_type api item \<noteq> cJSON_String api then Ok (Inl None, p)
      else (let value = (case node_valuestring api item of None \<Rightarrow> default_string v | Some s \<Rightarrow> s)
            in Ok (Inr (), p\<lparr>pyroscope_server := snprintf_s PYSCOPE_SERVER_URL_LEN value\<rparr>)))"

definition parser_svg_period :: "'j parser_param_key" where
  "parser_svg_period api key v item p =
     (let value = node_valueint api item in
      if value = 0 then Ok (Inr (), p\<lparr>svg_period := word_of_int (default_int v)\<rparr>)
      else if out_of_range v value then Ok (range_err key v, p)
      else Ok (Inr (), p\<lparr>svg_period := word_of_int value\<rparr>))"

definition parser_perf_sample_period :: "'j parser_param_key" where
  "parser_perf_sample_period api key v item p =
     (let value = node_valueint api item in
      if value = 0 then Ok (Inr (), p\<lparr>perf_sample_period := word_of_int (default_int v)\<rparr>)
      else if out_of_range v value then Ok (range_err key v, p)
      else Ok (Inr (), p\<lparr>perf_sample_period := word_of_int value\<rparr>))"

definition parser_sysdebuging_dir :: "'j parser_param_key" where
  "parser_sysdebuging_dir api key v item p =
     (if node_type api item \<noteq> cJSON_String api then Ok (Inl None, p)
      else case node_valuestring api item of None \<Rightarrow> UB
        | Some value \<Rightarrow> Ok (Inr (), p\<lparr>sys_debuging_dir := snprintf_s MAX_PATH_LEN value\<rparr>))"

definition parser_dev_name :: "'j parser_param_key" where
  "parser_dev_name api key v item p =
     (if node_type api item \<noteq> cJSON_String api then Ok (Inl None, p)
      else case node_valuestring api item of None \<Rightarrow> UB
        | Some value \<Rightarrow> Ok (Inr (), p\<lparr>target_dev := snprintf_s DEV_NAME value,
                                      netcard_list := snprintf_s MAX_PATH_LEN value\<rparr>))"

definition parser_kafka_port :: "'j parser_param_key" where
  "parser_kafka_port api key v item p =
     (let value = node_valueint api item in
      if out_of_range v value then Ok (range_err key v, p)
      else Ok (Inr (), p\<lparr>kafka_port := word_of_int value\<rparr>))"

definition parser_profiling_all_threads :: "'j parser_param_key" where
  "parser_profiling_all_threads api key v item p =
     (let value = node_valueint api item in
      if out_of_range v value then Ok (range_err key v, p)
      else Ok (Inr (), p\<lparr>enable_all_thrds := word_of_int value\<rparr>))"

definition parser_continuous_sampling :: "'j parser_param_key" where
  "parser_continuous_sampling api key v item p =
     (let value = node_valueint api item in
      if out_of_range v value then Ok (range_err key v, p)
      else Ok (Inr (), p\<lparr>continuous_sampling_flag := word_of_int value\<rparr>))"

definition parser_elf_path :: "'j parser_param_key" where
  "parser_elf_path api key v item p =
     (if node_type api item \<noteq> cJSON_String api then Ok (Inl None, p)
      else case node_valuestring api item of None \<Rightarrow> UB
        | Some value \<Rightarrow> Ok (Inr (), p\<lparr>elf_path := snprintf_s MAX_PATH_LEN value\<rparr>))"

section \<open>The table of keys\<close>

text \<open>
  \<open>struct param_key_s\<close>. The defaulters are generated by three macros; here each entry gives the
  assignment of its macro, \<open>(u32)default_int\<close>, \<open>(char)default_int\<close> or the copied default string.
\<close>

datatype json_kind = K_Number | K_String | K_Array

definition kind_code :: "'j cjson \<Rightarrow> json_kind \<Rightarrow> int" where
  "kind_code api k = (case k of K_Number \<Rightarrow> cJSON_Number api | K_String \<Rightarrow> cJSON_String api
                       | K_Array \<Rightarrow> cJSON_Array api)"

record 'j param_key_s =
  pkey :: string
  pval :: param_val_s
  parser :: "'j parser_param_key"
  defaulter :: "(param_val_s \<Rightarrow> probe_params \<Rightarrow> probe_params) option"
  key_type :: json_kind

definition pv :: "int \<Rightarrow> int \<Rightarrow> int \<Rightarrow> string \<Rightarrow> param_val_s" where
  "pv d lo hi s = \<lparr>default_int = d, min_val = lo, max_val = hi, default_string = s\<rparr>"

definition pk :: "string \<Rightarrow> param_val_s \<Rightarrow> 'j parser_param_key
    \<Rightarrow> (param_val_s \<Rightarrow> probe_params \<Rightarrow> probe_params) option \<Rightarrow> json_kind \<Rightarrow> 'j param_key_s" where
  "pk k v f d t = \<lparr>pkey = k, pval = v, parser = f, defaulter = d, key_type = t\<rparr>"

definition param_keys :: "'j param_key_s list" where
  "param_keys = [
   pk ''sample_period'' (pv DEFAULT_SAMPLE_PERIOD 100 10000 '''') parser_sample_peirod
     (Some (\<lambda>v p. p\<lparr>sample_period := word_of_int (default_int v)\<rparr>)) K_Number,
   pk ''report_period'' (pv DEFAULT_PERIOD 5 600 '''') parser_report_peirod
     (Some (\<lambda>v p. p\<lparr>period := word_of_int (default_int v)\<rparr>)) K_Number,
   pk ''latency_thr'' (pv 0 10 100000 '''') parser_latency_thr
     (Some (\<lambda>v p. p\<lparr>latency_thr := word_of_int (default_int v)\<rparr>)) K_Number,
   pk ''drops_thr'' (pv 0 10 100000 '''') parser_drops_thr
     (Some (\<lambda>v p. p\<lparr>drops_count_thr := word_of_int (default_int v)\<rparr>)) K_Number,
   pk ''res_lower_thr'' (pv 0 0 100 '''') parser_res_lower_thr
     (Some (\<lambda>v p. p\<lparr>res_percent_lower := word_of_int (default_int v)\<rparr>)) K_Number,
   pk ''res_upper_thr'' (pv 0 0 100 '''') parser_res_upper_thr
     (Some (\<lambda>v p. p\<lparr>res_percent_upper := word_of_int (default_int v)\<rparr>)) K_Number,
   pk ''report_event'' (pv 0 0 1 '''') parser_report_event
     (Some (\<lambda>v p. p\<lparr>logs := word_of_int (default_int v)\<rparr>)) K_Number,
   pk ''metrics_type'' (pv (0x01 OR 0x02) 0 0 ''raw'') parser_metrics_type
     (Some (\<lambda>v p. p\<lparr>metrics_flags := word_of_int (default_int v)\<rparr>)) K_Array,
   pk ''env'' (pv 0x01 0 0 ''node'') parser_work_env
     (Some (\<lambda>v p. p\<lparr>env_flags := word_of_int (default_int v)\<rparr>)) K_Array,
   pk ''report_source_port'' (pv 0 0 1 '''') parser_report_tcpsport
     (Some (\<lambda>v p. p\<lparr>cport_flag := word_of_int (default_int v)\<rparr>)) K_Number,
   pk ''l7_protocol'' (pv 0 0 0 ''http'') parser_l7pro
     (Some (\<lambda>v p. p\<lparr>l7_probe_proto_flags := word_of_int (default_int v)\<rparr>)) K_Array,
   pk ''support_ssl'' (pv 0 0 1 '''') parser_support_ssl
     (Some (\<lambda>v p. p\<lparr>support_ssl := word_of_int (default_int v)\<rparr>)) K_Number,
   pk ''pyroscope_server'' (pv 0 0 0 ''localhost:4040'') parser_pyscope_server
     (Some (\<lambda>v p. p\<lparr>pyroscope_server := snprintf_s PYSCOPE_SERVER_URL_LEN (default_string v)\<rparr>)) K_String,
   pk ''svg_period'' (pv 180 30 600 '''') parser_svg_period
     (Some (\<lambda>v p. p\<lparr>svg_period := word_of_int (default_int v)\<rparr>)) K_Number,
   pk ''perf_sample_period'' (pv 10 10 1000 '''') parser_perf_sample_period
     (Some (\<lambda>v p. p\<lparr>perf_sample_period := word_of_int (default_int v)\<rparr>)) K_Number,
   pk ''svg_dir'' (pv 0 0 0 ''/var/log/gala-gopher/stacktrace'') parser_svg_dir
     (Some (\<lambda>v p. p\<lparr>svg_dir := snprintf_s PATH_LEN (default_string v)\<rparr>)) K_String,
   pk ''flame_dir'' (pv 0 0 0 ''/var/log/gala-gopher/flamegraph'') parser_flame_dir
     (Some (\<lambda>v p. p\<lparr>flame_dir := snprintf_s PATH_LEN (default_string v)\<rparr>)) K_String,
   pk ''debugging_dir'' (pv 0 0 0 '''') parser_sysdebuging_dir
     (Some (\<lambda>v p. p\<lparr>sys_debuging_dir := snprintf_s MAX_PATH_LEN (default_string v)\<rparr>)) K_String,
   pk ''host_ip_fields'' (pv 0 0 0 '''') parse_host_ip_fields None K_String,
   pk ''dev_name'' (pv 0 0 0 '''') parser_dev_name None K_String,
   pk ''profiling_all_threads'' (pv 0 0 1 '''') parser_profiling_all_threads
     (Some (\<lambda>v p. p\<lparr>enable_all_thrds := word_of_int (default_int v)\<rparr>)) K_Number,
   pk ''continuous_sampling'' (pv 0 0 1 '''') parser_continuous_sampling
     (Some (\<lambda>v p. p\<lparr>continuous_sampling_flag := word_of_int (default_int v)\<rparr>)) K_Number,
   pk ''elf_path'' (pv 0 0 0 '''') parser_elf_path None K_String,
   pk ''kafka_port'' (pv DEFAULT_KAFKA_PORT 1 65535 '''') parser_kafka_port
     (Some (\<lambda>v p. p\<lparr>kafka_port := word_of_int (default_int v)\<rparr>)) K_Number]"

fun default_loop :: "'j param_key_s list \<Rightarrow> probe_params \<Rightarrow> probe_params" where
  "default_loop [] p = p"
| "default_loop (k # ks) p =
     default_loop ks (case defaulter k of None \<Rightarrow> p | Some d \<Rightarrow> d (pval k) p)"

definition set_default_params :: "probe_params \<Rightarrow> probe_params" where
  "set_default_params p = default_loop (param_keys :: unit param_key_s list) zero_params"

text \<open>
  The loop of \<open>parse_params\<close>; \<open>ret\<close> is the variable of that name. A key of the wrong type leaves
  the loop with -1, a failing parser with its own result.
\<close>

fun parse_loop :: "'j cjson \<Rightarrow> 'j \<Rightarrow> 'j param_key_s list \<Rightarrow> parse_ret \<Rightarrow> probe_params
    \<Rightarrow> (parse_ret \<times> probe_params) outc" where
  "parse_loop api json [] ret p = Ok (ret, p)"
| "parse_loop api json (k # ks) ret p =
     (case cJSON_GetObjectItem api json (pkey k) of
        None \<Rightarrow> parse_loop api json ks ret p
      | Some item \<Rightarrow>
          if node_type api item \<noteq> kind_code api (key_type k)
          then Ok (Inl (Some (Type_err (pkey k))), p)
          else bnd (parser k api (pkey k) (pval k) item p) (\<lambda>(ret, p).
            case ret of Inl m \<Rightarrow> Ok (Inl m, p) | Inr u \<Rightarrow> parse_loop api json ks (Inr u) p))"

definition parse_params :: "'j cjson \<Rightarrow> 'j \<Rightarrow> probe_params \<Rightarrow> (parse_ret \<times> probe_params) outc" where
  "parse_params api json p = parse_loop api json param_keys (Inl None) p"

text \<open>The ranges every parameter is meant to keep; fields no key sets stay zero.\<close>

definition params_ok :: "probe_params \<Rightarrow> bool" where
  "params_ok p \<longleftrightarrow>
     100 \<le> uint (sample_period p) \<and> uint (sample_period p) \<le> 10000 \<and>
     5 \<le> uint (period p) \<and> uint (period p) \<le> 600 \<and>
     (latency_thr p = 0 \<or> 10 \<le> uint (latency_thr p) \<and> uint (latency_thr p) \<le> 100000) \<and>
     (drops_count_thr p = 0 \<or> 10 \<le> uint (drops_count_thr p) \<and> uint (drops_count_thr p) \<le> 100000) \<and>
     uint (res_percent_lower p) \<le> 100 \<and> uint (res_percent_upper p) \<le> 100 \<and>
     uint (logs p) \<le> 1 \<and> metrics_flags p = 3 \<and> env_flags p \<in> {1, 3, 5, 7} \<and>
     uint (cport_flag p) \<le> 1 \<and> l7_probe_proto_flags p AND NOT 0x1F = 0 \<and> uint (support_ssl p) \<le> 1 \<and>
     30 \<le> uint (svg_period p) \<and> uint (svg_period p) \<le> 600 \<and>
     10 \<le> uint (perf_sample_period p) \<and> uint (perf_sample_period p) \<le> 1000 \<and>
     uint (enable_all_thrds p) \<le> 1 \<and> uint (continuous_sampling_flag p) \<le> 1 \<and>
     1 \<le> uint (kafka_port p) \<and> uint (kafka_port p) \<le> 65535 \<and>
     length (pyroscope_server p) < PYSCOPE_SERVER_URL_LEN \<and> length (svg_dir p) < PATH_LEN \<and>
     length (flame_dir p) < PATH_LEN \<and> length (sys_debuging_dir p) < MAX_PATH_LEN \<and>
     length (target_dev p) < DEV_NAME \<and> length (netcard_list p) < MAX_PATH_LEN \<and>
     length (elf_path p) < MAX_PATH_LEN \<and> length (host_ip_list p) = MAX_IP_NUM \<and>
     (\<forall>ip \<in> set (host_ip_list p). length ip < MAX_IP_LEN) \<and>
     jitter_thr p = 0 \<and> offline_thr p = 0 \<and> filter_pid p = 0 \<and> load_probe p = 0 \<and>
     filter_task_probe p = 0 \<and> task_whitelist p = [] \<and> target_comm p = [] \<and> tgids p = []"

text \<open>The parameters a probe can have: those of a new probe, changed by requests, accepted or not.\<close>

inductive params_reach :: "'j cjson \<Rightarrow> probe_params \<Rightarrow> bool" for api :: "'j cjson" where
  new: "params_reach api (set_default_params p)"
| request: "params_reach api p \<Longrightarrow> parse_params api json p = Ok (r, p') \<Longrightarrow> params_reach api p'"

definition keeps :: "'j cjson \<Rightarrow> (probe_params \<Rightarrow> probe_params \<Rightarrow> bool) \<Rightarrow> 'j param_key_s \<Rightarrow> bool" where
  "keeps api R k \<longleftrightarrow> (\<forall>item p. node_type api item = kind_code api (key_type k) \<longrightarrow>
     (\<exists>r q. parser k api (pkey k) (pval k) item p = Ok (r, q) \<and> R p q))"

abbreviation okrel :: "probe_params \<Rightarrow> probe_params \<Rightarrow> bool" where
  "okrel p q \<equiv> params_ok p \<longrightarrow> params_ok q"

text \<open>What each key stands for: the fields it owns, as the equality of those fields.\<close>

definition owned :: "(string \<times> (probe_params \<Rightarrow> probe_params \<Rightarrow> bool)) list" where
  "owned = [
   (''sample_period'', \<lambda>p q. sample_period q = sample_period p),
   (''report_period'', \<lambda>p q. period q = period p),
   (''latency_thr'', \<lambda>p q. latency_thr q = latency_thr p),
   (''drops_thr'', \<lambda>p q. drops_count_thr q = drops_count_thr p),
   (''res_lower_thr'', \<lambda>p q. res_percent_lower q = res_percent_lower p),
   (''res_upper_thr'', \<lambda>p q. res_percent_upper q = res_percent_upper p),
   (''report_event'', \<lambda>p q. logs q = logs p),
   (''metrics_type'', \<lambda>p q. metrics_flags q = metrics_flags p),
   (''env'', \<lambda>p q. env_flags q = env_flags p),
   (''report_source_port'', \<lambda>p q. cport_flag q = cport_flag p),
   (''l7_protocol'', \<lambda>p q. l7_probe_proto_flags q = l7_probe_proto_flags p),
   (''support_ssl'', \<lambda>p q. support_ssl q = support_ssl p),
   (''pyroscope_server'', \<lambda>p q. pyroscope_server q = pyroscope_server p),
   (''svg_period'', \<lambda>p q. svg_period q = svg_period p),
   (''perf_sample_period'', \<lambda>p q. perf_sample_period q = perf_sample_period p),
   (''svg_dir'', \<lambda>p q. svg_dir q = svg_dir p),
   (''flame_dir'', \<lambda>p q. flame_dir q = flame_dir p),
   (''debugging_dir'', \<lambda>p q. sys_debuging_dir q = sys_debuging_dir p),
   (''host_ip_fields'', \<lambda>p q. host_ip_list q = host_ip_list p),
   (''dev_name'', \<lambda>p q. target_dev q = target_dev p \<and> netcard_list q = netcard_list p),
   (''profiling_all_threads'', \<lambda>p q. enable_all_thrds q = enable_all_thrds p),
   (''continuous_sampling'', \<lambda>p q. continuous_sampling_flag q = continuous_sampling_flag p),
   (''elf_path'', \<lambda>p q. elf_path q = elf_path p),
   (''kafka_port'', \<lambda>p q. kafka_port q = kafka_port p)]"

text \<open>The parameters agree on everything but the fields of \<open>key\<close>.\<close>

definition only :: "string \<Rightarrow> probe_params \<Rightarrow> probe_params \<Rightarrow> bool" where
  "only key p q \<longleftrightarrow> list_all (\<lambda>(k, e). k = key \<or> e p q) owned"

text \<open>
  The specification of a request: the entries that are there have the type of their key, numbers
  are in range (or zero, where zero stands for the default), arrays hold known names.
\<close>

definition flag_table :: "string \<Rightarrow> param_flags_s" where
  "flag_table key = (if key = ''metrics_type'' then param_metrics_flags
     else if key = ''env'' then param_env_flags else param_l7pro_flags)"

definition item_valid :: "'j cjson \<Rightarrow> 'j param_key_s \<Rightarrow> 'j \<Rightarrow> bool" where
  "item_valid api k item \<longleftrightarrow> node_type api item = kind_code api (key_type k) \<and>
     (case key_type k of
        K_Number \<Rightarrow> min_val (pval k) \<le> node_valueint api item \<and> node_valueint api item \<le> max_val (pval k)
          \<or> node_valueint api item = 0 \<and> pkey k \<in> {''svg_period'', ''perf_sample_period''}
      | K_String \<Rightarrow> True
      | K_Array \<Rightarrow> (\<forall>i < cJSON_GetArraySize api item. \<exists>obj s. cJSON_GetArrayItem api item i = Some obj \<and>
          node_type api obj = cJSON_String api \<and> node_valuestring api obj = Some s \<and>
          get_params_flags (flag_table (pkey k)) s \<noteq> 0))"

definition request_valid :: "'j cjson \<Rightarrow> 'j \<Rightarrow> 'j param_key_s list \<Rightarrow> bool" where
  "request_valid api json ks \<longleftrightarrow>
     (\<forall>k \<in> set ks. \<forall>item. cJSON_GetObjectItem api json (pkey k) = Some item \<longrightarrow> item_valid api k item)"

text \<open>The fields of the numbers, and what a request for zero is replaced by.\<close>

definition number_fields :: "(string \<times> (probe_params \<Rightarrow> int) \<times> int) list" where
  "number_fields = [
   (''sample_period'', \<lambda>p. uint (sample_period p), 0), (''report_period'', \<lambda>p. uint (period p), 0),
   (''latency_thr'', \<lambda>p. uint (latency_thr p), 0), (''drops_thr'', \<lambda>p. uint (drops_count_thr p), 0),
   (''res_lower_thr'', \<lambda>p. uint (res_percent_lower p), 0),
   (''res_upper_thr'', \<lambda>p. uint (res_percent_upper p), 0),
   (''report_event'', \<lambda>p. uint (logs p), 0), (''report_source_port'', \<lambda>p. uint (cport_flag p), 0),
   (''support_ssl'', \<lambda>p. uint (support_ssl p), 0), (''svg_period'', \<lambda>p. uint (svg_period p), 180),
   (''perf_sample_period'', \<lambda>p. uint (perf_sample_period p), 10),
   (''profiling_all_threads'', \<lambda>p. uint (enable_all_thrds p), 0),
   (''continuous_sampling'', \<lambda>p. uint (continuous_sampling_flag p), 0),
   (''kafka_port'', \<lambda>p. uint (kafka_port p), 0)]"

text \<open>A JSON value as the library builds it, for the concrete requests below.\<close>

datatype json = JNum int | JStr string | JArr "json list" | JObj "(string \<times> json) list"

definition json_api :: "json cjson" where
  "json_api = \<lparr>cJSON_Number = 8, cJSON_String = 16, cJSON_Array = 32,
     node_type = (\<lambda>j. case j of JNum _ \<Rightarrow> 8 | JStr _ \<Rightarrow> 16 | JArr _ \<Rightarrow> 32 | JObj _ \<Rightarrow> 64),
     node_valueint = (\<lambda>j. case j of JNum n \<Rightarrow> n | _ \<Rightarrow> 0),
     node_valuestring = (\<lambda>j. case j of JStr s \<Rightarrow> Some s | _ \<Rightarrow> None),
     cJSON_GetArraySize = (\<lambda>j. case j of JArr l \<Rightarrow> length l | JObj l \<Rightarrow> length l | _ \<Rightarrow> 0),
     cJSON_GetArrayItem = (\<lambda>j i. case j of JArr l \<Rightarrow> (if i < length l then Some (l ! i) else None)
       | JObj l \<Rightarrow> (if i < length l then Some (snd (l ! i)) else None) | _ \<Rightarrow> None),
     cJSON_GetObjectItem = (\<lambda>j k. case j of JObj l \<Rightarrow> map_of l k | _ \<Rightarrow> None)\<rparr>"

definition demo_request :: json where
  "demo_request = JObj [(''report_period'', JNum 60), (''svg_period'', JNum 0),
     (''metrics_type'', JArr [JStr ''RAW'']), (''env'', JArr [JStr ''node'', JStr ''kubenet'']),
     (''dev_name'', JStr ''eth0'')]"

section \<open>Contract of the table\<close>

text \<open>
  A relation between the parameters before and after that every parser of the table establishes
  holds across the whole of \<open>parse_params\<close>, whatever the result.
\<close>

locale param_table =
  fixes keys :: "'j param_key_s list" and R :: "probe_params \<Rightarrow> probe_params \<Rightarrow> bool"
  assumes R_refl: "R p p"
    and R_trans: "R p q \<Longrightarrow> R q s \<Longrightarrow> R p s"
    and R_step: "cjson_ok api \<Longrightarrow> k \<in> set keys \<Longrightarrow> node_type api item = kind_code api (key_type k) \<Longrightarrow>
      \<exists>r q. parser k api (pkey k) (pval k) item p = Ok (r, q) \<and> R p q"
begin

lemma loop_rel:
  "cjson_ok api \<Longrightarrow> set ks \<subseteq> set keys \<Longrightarrow> \<exists>r q. parse_loop api json ks ret p = Ok (r, q) \<and> R p q"
proof (induction ks arbitrary: ret p)
  case Nil
  then show ?case by (simp add: R_refl)
next
  case (Cons k ks)
  show ?case
  proof (cases "cJSON_GetObjectItem api json (pkey k)")
    case None
    then show ?thesis using Cons by simp
  next
    case (Some item)
    show ?thesis
    proof (cases "node_type api item = kind_code api (key_type k)")
      case True
      with R_step Cons.prems obtain r q
        where q: "parser k api (pkey k) (pval k) item p = Ok (r, q)" "R p q" by (meson list.set_intros(1) subsetD)
      show ?thesis
      proof (cases r)
        case (Inl m)
        with Some True q show ?thesis by simp
      next
        case (Inr u)
        with Some True q Cons show ?thesis
          by (simp, metis R_trans)
      qed
    qed (simp add: Some R_refl)
  qed
qed

end

section \<open>The parsers one by one\<close>

lemmas number_parsers = parser_sample_peirod_def parser_report_peirod_def parser_latency_thr_def
  parser_drops_thr_def parser_res_lower_thr_def parser_res_upper_thr_def parser_report_event_def
  parser_report_tcpsport_def parser_support_ssl_def parser_svg_period_def parser_perf_sample_period_def
  parser_kafka_port_def parser_profiling_all_threads_def parser_continuous_sampling_def

lemmas string_parsers = parser_svg_dir_def parser_flame_dir_def parser_pyscope_server_def
  parser_sysdebuging_dir_def parser_dev_name_def parser_elf_path_def parse_host_ip_fields_def

lemmas array_parsers = parser_metrics_type_def parser_work_env_def parser_l7pro_def

lemmas key_simps = param_keys_def pk_def pv_def kind_code_def out_of_range_def range_err_def

lemma uint_of_int_u32: "0 \<le> x \<Longrightarrow> x < 4294967296 \<Longrightarrow> uint (word_of_int x :: u32) = x"
  by (simp add: uint_word_of_int)

lemma uint_of_int_u8: "0 \<le> x \<Longrightarrow> x < 256 \<Longrightarrow> uint (word_of_int x :: byte) = x"
  by (simp add: uint_word_of_int)

lemma cjson_string: "cjson_ok api \<Longrightarrow> node_type api a = cJSON_String api \<Longrightarrow> \<exists>s. node_valuestring api a = Some s"
  by (auto simp: cjson_ok_def)

lemma cjson_item: "cjson_ok api \<Longrightarrow> i < cJSON_GetArraySize api a \<Longrightarrow> \<exists>b. cJSON_GetArrayItem api a i = Some b"
  by (auto simp: cjson_ok_def)

lemma get_params_flags_in: "get_params_flags tbl s \<noteq> 0 \<Longrightarrow> get_params_flags tbl s \<in> snd ` set tbl"
  by (induction tbl s rule: get_params_flags.induct) auto

lemma array_flags_rel:
  assumes "cjson_ok api" "\<And>p. R p p" "\<And>p q s. R p q \<Longrightarrow> R q s \<Longrightarrow> R p s"
    and upd: "\<And>fl p. fl \<in> snd ` set tbl \<Longrightarrow> R p (upd fl p)"
  shows "set is \<subseteq> {0..<cJSON_GetArraySize api item} \<Longrightarrow>
    \<exists>r q. array_flags api tbl key upd item is p = Ok (r, q) \<and> R p q"
proof (induction "is" arbitrary: p)
  case Nil
  then show ?case by (simp add: assms)
next
  case (Cons i "is")
  then obtain obj where obj: "cJSON_GetArrayItem api item i = Some obj"
    using cjson_item [OF assms(1)] by fastforce
  show ?case
  proof (cases "node_type api obj = cJSON_String api")
    case True
    then obtain s where s: "node_valuestring api obj = Some s" using cjson_string [OF assms(1)] by blast
    show ?thesis
    proof (cases "get_params_flags tbl s = 0")
      case False
      then have "R p (upd (get_params_flags tbl s) p)" using upd get_params_flags_in by blast
      with False Cons obj True s show ?thesis by (simp add: Let_def) (metis assms(3))
    qed (simp add: obj True s assms(2))
  qed (simp add: obj assms(2))
qed

lemma keeps_number:
  "key_type k = K_Number \<Longrightarrow>
   (\<And>item p. \<exists>r q. parser k api (pkey k) (pval k) item p = Ok (r, q) \<and> R p q) \<Longrightarrow> keeps api R k"
  by (simp add: keeps_def)

lemma keeps_string:
  assumes "cjson_ok api" "key_type k = K_String"
    and "\<And>item s p. node_type api item = cJSON_String api \<Longrightarrow> node_valuestring api item = Some s \<Longrightarrow>
      \<exists>r q. parser k api (pkey k) (pval k) item p = Ok (r, q) \<and> R p q"
  shows "keeps api R k"
  unfolding keeps_def
proof (intro allI impI)
  fix item p
  assume "node_type api item = kind_code api (key_type k)"
  then have "node_type api item = cJSON_String api" using assms(2) by (simp add: kind_code_def)
  then show "\<exists>r q. parser k api (pkey k) (pval k) item p = Ok (r, q) \<and> R p q"
    using assms(3) cjson_string [OF assms(1)] by blast
qed

lemma keeps_array:
  assumes "cjson_ok api" "\<And>p. R p p" "\<And>p q s. R p q \<Longrightarrow> R q s \<Longrightarrow> R p s"
    and "\<And>fl p. fl \<in> snd ` set tbl \<Longrightarrow> R p (upd fl p)"
    and "\<And>item p. parser k api (pkey k) (pval k) item p =
      array_flags api tbl (pkey k) upd item [0..<cJSON_GetArraySize api item] p"
  shows "keeps api R k"
  using array_flags_rel [where R = R, OF assms(1-4)] assms(5) by (simp add: keeps_def)

lemma params_ok_number:
  assumes "params_ok p"
  shows "100 \<le> x \<Longrightarrow> x \<le> 10000 \<Longrightarrow> params_ok (p\<lparr>sample_period := word_of_int x\<rparr>)"
    and "5 \<le> x \<Longrightarrow> x \<le> 600 \<Longrightarrow> params_ok (p\<lparr>period := word_of_int x\<rparr>)"
    and "10 \<le> x \<Longrightarrow> x \<le> 100000 \<Longrightarrow> params_ok (p\<lparr>latency_thr := word_of_int x\<rparr>)"
    and "10 \<le> x \<Longrightarrow> x \<le> 100000 \<Longrightarrow> params_ok (p\<lparr>drops_count_thr := word_of_int x\<rparr>)"
    and "0 \<le> x \<Longrightarrow> x \<le> 100 \<Longrightarrow> params_ok (p\<lparr>res_percent_lower := word_of_int x\<rparr>)"
    and "0 \<le> x \<Longrightarrow> x \<le> 100 \<Longrightarrow> params_ok (p\<lparr>res_percent_upper := word_of_int x\<rparr>)"
    and "0 \<le> x \<Longrightarrow> x \<le> 1 \<Longrightarrow> params_ok (p\<lparr>logs := word_of_int x\<rparr>)"
    and "0 \<le> x \<Longrightarrow> x \<le> 1 \<Longrightarrow> params_ok (p\<lparr>cport_flag := word_of_int x\<rparr>)"
    and "0 \<le> x \<Longrightarrow> x \<le> 1 \<Longrightarrow> params_ok (p\<lparr>support_ssl := word_of_int x\<rparr>)"
    and "30 \<le> x \<Longrightarrow> x \<le> 600 \<Longrightarrow> params_ok (p\<lparr>svg_period := word_of_int x\<rparr>)"
    and "10 \<le> x \<Longrightarrow> x \<le> 1000 \<Longrightarrow> params_ok (p\<lparr>perf_sample_period := word_of_int x\<rparr>)"
    and "0 \<le> x \<Longrightarrow> x \<le> 1 \<Longrightarrow> params_ok (p\<lparr>enable_all_thrds := word_of_int x\<rparr>)"
    and "0 \<le> x \<Longrightarrow> x \<le> 1 \<Longrightarrow> params_ok (p\<lparr>continuous_sampling_flag := word_of_int x\<rparr>)"
    and "1 \<le> x \<Longrightarrow> x \<le> 65535 \<Longrightarrow> params_ok (p\<lparr>kafka_port := word_of_int x\<rparr>)"
  using assms by (simp_all add: params_ok_def uint_of_int_u32 uint_of_int_u8)

lemma params_ok_string:
  assumes "params_ok p"
  shows "params_ok (p\<lparr>svg_dir := snprintf_s PATH_LEN s\<rparr>)"
    and "params_ok (p\<lparr>flame_dir := snprintf_s PATH_LEN s\<rparr>)"
    and "params_ok (p\<lparr>pyroscope_server := snprintf_s PYSCOPE_SERVER_URL_LEN s\<rparr>)"
    and "params_ok (p\<lparr>sys_debuging_dir := snprintf_s MAX_PATH_LEN s\<rparr>)"
    and "params_ok (p\<lparr>target_dev := snprintf_s DEV_NAME s, netcard_list := snprintf_s MAX_PATH_LEN s\<rparr>)"
    and "params_ok (p\<lparr>elf_path := snprintf_s MAX_PATH_LEN s\<rparr>)"
  using assms by (simp_all add: params_ok_def length_snprintf_s size_consts)

lemma params_ok_host_ips:
  assumes "params_ok p"
  shows "params_ok (p\<lparr>host_ip_list := map (snprintf_s MAX_IP_LEN) (take MAX_IP_NUM ts) @
           drop (min (length ts) MAX_IP_NUM) (host_ip_list p)\<rparr>)"
proof -
  let ?toks = "take MAX_IP_NUM ts"
  have "\<forall>ip \<in> set (map (snprintf_s MAX_IP_LEN) ?toks @ drop (length ?toks) (host_ip_list p)). length ip < MAX_IP_LEN"
    using assms by (auto simp: params_ok_def length_snprintf_s size_consts dest: in_set_dropD)
  with assms show ?thesis by (simp add: params_ok_def min.commute)
qed

lemma params_ok_flags:
  assumes "params_ok p"
  shows "fl \<in> snd ` set param_metrics_flags \<Longrightarrow> params_ok (p\<lparr>metrics_flags := metrics_flags p OR ucast fl\<rparr>)"
    and "fl \<in> snd ` set param_env_flags \<Longrightarrow> params_ok (p\<lparr>env_flags := env_flags p OR ucast fl\<rparr>)"
    and "fl \<in> snd ` set param_l7pro_flags \<Longrightarrow>
      params_ok (p\<lparr>l7_probe_proto_flags := l7_probe_proto_flags p OR fl\<rparr>)"
proof -
  assume "fl \<in> snd ` set param_metrics_flags"
  then have "(3 :: byte) OR ucast fl = 3" by (auto simp: param_metrics_flags_def)
  with assms show "params_ok (p\<lparr>metrics_flags := metrics_flags p OR ucast fl\<rparr>)"
    by (simp add: params_ok_def)
next
  assume "fl \<in> snd ` set param_env_flags"
  then have "x \<in> {1, 3, 5, 7} \<Longrightarrow> x OR ucast fl \<in> {1, 3, 5, 7}" for x :: byte
    by (auto simp: param_env_flags_def)
  with assms show "params_ok (p\<lparr>env_flags := env_flags p OR ucast fl\<rparr>)"
    by (simp add: params_ok_def del: insert_iff)
next
  assume "fl \<in> snd ` set param_l7pro_flags"
  then have "fl AND NOT 0x1F = 0" by (auto simp: param_l7pro_flags_def)
  with assms show "params_ok (p\<lparr>l7_probe_proto_flags := l7_probe_proto_flags p OR fl\<rparr>)"
    by (simp add: params_ok_def bit.conj_disj_distrib2)
qed

lemma okrel_number:
  assumes "k \<in> set param_keys" "key_type k = K_Number"
  shows "keeps api okrel k"
proof (rule keeps_number [OF assms(2)])
  fix item :: 'a and p
  show "\<exists>r q. parser k api (pkey k) (pval k) item p = Ok (r, q) \<and> okrel p q"
    using assms
    by (auto simp: key_simps number_parsers Let_def params_ok_number
          params_ok_number(10) [of p 180, simplified] params_ok_number(11) [of p 10, simplified])
qed

lemma okrel_string:
  assumes "cjson_ok api" "k \<in> set param_keys" "key_type k = K_String"
  shows "keeps api okrel k"
proof (rule keeps_string [OF assms(1,3)])
  fix item :: 'a and s p
  assume "node_type api item = cJSON_String api" "node_valuestring api item = Some s"
  then show "\<exists>r q. parser k api (pkey k) (pval k) item p = Ok (r, q) \<and> okrel p q"
    using assms(2,3)
    by (auto simp: key_simps string_parsers Let_def params_ok_string params_ok_host_ips)
qed

lemma okrel_array:
  assumes "cjson_ok api" "k \<in> set param_keys" "key_type k = K_Array"
  shows "keeps api okrel k"
proof -
  consider "parser k = parser_metrics_type" | "parser k = parser_work_env" | "parser k = parser_l7pro"
    using assms(2,3) by (auto simp: key_simps)
  then show ?thesis
    by cases (rule keeps_array [OF assms(1)], auto simp: array_parsers params_ok_flags)+
qed

lemma okrel_keeps: "cjson_ok api \<Longrightarrow> k \<in> set param_keys \<Longrightarrow> keeps api okrel k"
  using okrel_number okrel_string okrel_array by (cases "key_type k") blast+

lemma keepsD:
  "keeps api R k \<Longrightarrow> node_type api item = kind_code api (key_type k) \<Longrightarrow>
   \<exists>r q. parser k api (pkey k) (pval k) item p = Ok (r, q) \<and> R p q"
  by (simp add: keeps_def)

interpretation ok_table: param_table param_keys okrel
  by unfold_locales (simp_all add: keepsD [OF okrel_keeps])

lemma default_params_ok: "params_ok (set_default_params p)"
  by (simp add: set_default_params_def key_simps zero_params_def params_ok_def snprintf_s_def size_consts
        DEFAULT_PERIOD_def DEFAULT_SAMPLE_PERIOD_def DEFAULT_KAFKA_PORT_def)

lemma only_refl: "only key p p"
  by (simp add: only_def owned_def)

lemma owned_equiv: "list_all (\<lambda>(k, e). (\<forall>p. e p p) \<and> (\<forall>p q s. e p q \<longrightarrow> e q s \<longrightarrow> e p s)) owned"
  by (simp add: owned_def)

lemma owned_refl: "(k, e) \<in> set owned \<Longrightarrow> e p p"
  using owned_equiv by (auto simp: list_all_iff)

lemma owned_trans: "(k, e) \<in> set owned \<Longrightarrow> e p q \<Longrightarrow> e q s \<Longrightarrow> e p s"
  using owned_equiv by (fastforce simp: list_all_iff)

lemma only_trans: "only key p q \<Longrightarrow> only key q s \<Longrightarrow> only key p s"
  using owned_trans by (fastforce simp: only_def list_all_iff)

lemma only_number:
  assumes "k \<in> set param_keys" "key_type k = K_Number"
  shows "keeps api (only (pkey k)) k"
proof (rule keeps_number [OF assms(2)])
  fix item :: 'a and p
  show "\<exists>r q. parser k api (pkey k) (pval k) item p = Ok (r, q) \<and> only (pkey k) p q"
    using assms by (auto simp: key_simps number_parsers Let_def only_def owned_def)
qed

lemma only_string:
  assumes "cjson_ok api" "k \<in> set param_keys" "key_type k = K_String"
  shows "keeps api (only (pkey k)) k"
proof (rule keeps_string [OF assms(1,3)])
  fix item :: 'a and s p
  assume "node_type api item = cJSON_String api" "node_valuestring api item = Some s"
  then show "\<exists>r q. parser k api (pkey k) (pval k) item p = Ok (r, q) \<and> only (pkey k) p q"
    using assms(2,3) by (auto simp: key_simps string_parsers Let_def only_def owned_def)
qed

lemma only_array:
  assumes "cjson_ok api" "k \<in> set param_keys" "key_type k = K_Array"
  shows "keeps api (only (pkey k)) k"
proof -
  consider "parser k = parser_metrics_type" "pkey k = ''metrics_type''"
    | "parser k = parser_work_env" "pkey k = ''env''"
    | "parser k = parser_l7pro" "pkey k = ''l7_protocol''"
    using assms(2,3) by (auto simp: key_simps)
  then show ?thesis
  proof cases
    case 1
    then show ?thesis
      by (intro keeps_array [OF assms(1) only_refl only_trans, where tbl = param_metrics_flags])
        (simp_all add: array_parsers only_def owned_def)
  next
    case 2
    then show ?thesis
      by (intro keeps_array [OF assms(1) only_refl only_trans, where tbl = param_env_flags])
        (simp_all add: array_parsers only_def owned_def)
  next
    case 3
    then show ?thesis
      by (intro keeps_array [OF assms(1) only_refl only_trans, where tbl = param_l7pro_flags])
        (simp_all add: array_parsers only_def owned_def)
  qed
qed

lemma only_keeps: "cjson_ok api \<Longrightarrow> k \<in> set param_keys \<Longrightarrow> keeps api (only (pkey k)) k"
  using only_number only_string only_array by (cases "key_type k") blast+

text \<open>So the entries of all other keys form a table that keeps the fields of a key.\<close>

lemma keeps_mono: "keeps api R k \<Longrightarrow> (\<And>p q. R p q \<Longrightarrow> S p q) \<Longrightarrow> keeps api S k"
  unfolding keeps_def by blast

lemma other_keys_table:
  fixes ks :: "'a param_key_s list"
  assumes "(key, e) \<in> set owned" "set ks \<subseteq> set param_keys" "\<forall>k \<in> set ks. pkey k \<noteq> key"
  shows "param_table ks e"
proof (rule param_table.intro)
  show "e p p" for p by (rule owned_refl [OF assms(1)])
  show "e p q \<Longrightarrow> e q s \<Longrightarrow> e p s" for p q s by (rule owned_trans [OF assms(1)])
next
  fix api :: "'a cjson" and k item p
  assume a: "cjson_ok api" "k \<in> set ks" "node_type api item = kind_code api (key_type k)"
  then have "keeps api (only (pkey k)) k" using assms(2) only_keeps by blast
  then have "keeps api e k"
    by (rule keeps_mono) (use assms(1,3) a(2) in \<open>fastforce simp: only_def list_all_iff\<close>)
  then show "\<exists>r q. parser k api (pkey k) (pval k) item p = Ok (r, q) \<and> e p q"
    using a(3) by (rule keepsD)
qed

lemma parse_loop_absent:
  "cJSON_GetObjectItem api json key = None \<Longrightarrow>
   parse_loop api json ks ret p = parse_loop api json (filter (\<lambda>k. pkey k \<noteq> key) ks) ret p"
  by (induction ks arbitrary: ret p) (simp_all split: option.split cong: sum.case_cong)

lemma array_accepts:
  assumes "cjson_ok api"
  shows "set ixs \<subseteq> {0..<cJSON_GetArraySize api item} \<Longrightarrow>
    (\<exists>q. array_flags api tbl key upd item ixs p = Ok (Inr (), q)) \<longleftrightarrow>
    (\<forall>i \<in> set ixs. \<exists>obj s. cJSON_GetArrayItem api item i = Some obj \<and> node_type api obj = cJSON_String api \<and>
       node_valuestring api obj = Some s \<and> get_params_flags tbl s \<noteq> 0)"
proof (induction ixs arbitrary: p)
  case (Cons i ixs)
  then obtain obj where obj: "cJSON_GetArrayItem api item i = Some obj"
    using cjson_item [OF assms] by fastforce
  show ?case
  proof (cases "node_type api obj = cJSON_String api")
    case True
    then obtain s where "node_valuestring api obj = Some s" using cjson_string [OF assms] by blast
    with True obj Cons show ?thesis by (auto simp: Let_def)
  qed (simp add: obj)
qed simp

lemma range_accepts:
  "(\<exists>q. (if out_of_range v x then Ok (range_err key v, p) else Ok (Inr (), u)) = Ok (Inr (), q)) \<longleftrightarrow>
     min_val v \<le> x \<and> x \<le> max_val v"
  "(\<exists>q. (if x = 0 then Ok (Inr (), u') else if out_of_range v x then Ok (range_err key v, p)
          else Ok (Inr (), u)) = Ok (Inr (), q)) \<longleftrightarrow> min_val v \<le> x \<and> x \<le> max_val v \<or> x = 0"
  by (auto simp: out_of_range_def range_err_def)

lemma number_accepts:
  "list_all (\<lambda>k. key_type k = K_Number \<longrightarrow>
     (\<exists>q. parser k api (pkey k) (pval k) item p = Ok (Inr (), q)) =
     (min_val (pval k) \<le> node_valueint api item \<and> node_valueint api item \<le> max_val (pval k)
          \<or> node_valueint api item = 0 \<and> pkey k \<in> {''svg_period'', ''perf_sample_period''})) param_keys"
  by (simp add: param_keys_def pk_def number_parsers Let_def range_accepts)

lemma string_accepts:
  "node_type api item = cJSON_String api \<Longrightarrow> node_valuestring api item = Some s \<Longrightarrow>
   list_all (\<lambda>k. key_type k = K_String \<longrightarrow>
     (\<exists>q. parser k api (pkey k) (pval k) item p = Ok (Inr (), q))) param_keys"
  by (simp add: param_keys_def pk_def string_parsers Let_def)

lemma parser_accepts:
  assumes "cjson_ok api" "k \<in> set param_keys" "node_type api item = kind_code api (key_type k)"
  shows "(\<exists>q. parser k api (pkey k) (pval k) item p = Ok (Inr (), q)) \<longleftrightarrow> item_valid api k item"
proof (cases "key_type k")
  case K_Number
  with number_accepts [of api item p] assms(2,3) show ?thesis
    by (simp add: item_valid_def list_all_iff)
next
  case K_String
  then obtain s where s: "node_valuestring api item = Some s"
    using cjson_string [OF assms(1), of item] assms(3) by (auto simp: kind_code_def)
  with string_accepts [of api item s p] K_String assms(2,3) show ?thesis
    by (simp add: item_valid_def list_all_iff kind_code_def)
next
  case K_Array
  note arr = array_accepts [OF assms(1), where ixs = "[0..<cJSON_GetArraySize api item]" and item = item]
  consider "parser k = parser_metrics_type" "pkey k = ''metrics_type''"
    | "parser k = parser_work_env" "pkey k = ''env''"
    | "parser k = parser_l7pro" "pkey k = ''l7_protocol''"
    using assms(2) K_Array by (auto simp: key_simps)
  then show ?thesis
    using K_Array assms(3) by cases (simp_all add: item_valid_def array_parsers arr flag_table_def Ball_def)
qed

lemma parser_returns:
  assumes "cjson_ok api" "k \<in> set param_keys" "node_type api item = kind_code api (key_type k)"
  shows "\<exists>r q. parser k api (pkey k) (pval k) item p = Ok (r, q)"
  using keepsD [OF only_keeps [OF assms(1,2)] assms(3)] by blast

lemma parse_loop_accepts:
  assumes "cjson_ok api"
  shows "set ks \<subseteq> set param_keys \<Longrightarrow>
    (\<exists>q. parse_loop api json ks ret p = Ok (Inr (), q)) \<longleftrightarrow>
    request_valid api json ks \<and> (ret = Inr () \<or> (\<exists>k \<in> set ks. cJSON_GetObjectItem api json (pkey k) \<noteq> None))"
proof (induction ks arbitrary: ret p)
  case (Cons k ks)
  show ?case
  proof (cases "cJSON_GetObjectItem api json (pkey k)")
    case None
    with Cons show ?thesis by (simp add: request_valid_def)
  next
    case (Some item)
    show ?thesis
    proof (cases "node_type api item = kind_code api (key_type k)")
      case True
      have k: "k \<in> set param_keys" using Cons.prems by simp
      obtain r q where q: "parser k api (pkey k) (pval k) item p = Ok (r, q)"
        using parser_returns [OF assms k True] by blast
      have "r = Inr () \<longleftrightarrow> item_valid api k item"
        using parser_accepts [OF assms k True, of p] q by auto
      then show ?thesis
        using Cons.IH [of "Inr ()" q] Cons.prems Some True q
        by (cases r) (auto simp: request_valid_def)
    next
      case False
      with Some show ?thesis by (auto simp: request_valid_def item_valid_def)
    qed
  qed
qed (simp add: request_valid_def)

lemma parse_loop_split:
  assumes "cjson_ok api" "parse_loop api json (ks @ ks') ret p = Ok (Inr u, q)" "set ks \<subseteq> set param_keys"
  shows "\<exists>r s. parse_loop api json ks ret p = Ok (r, s) \<and> parse_loop api json ks' r s = Ok (Inr u, q)"
  using assms(2,3)
proof (induction ks arbitrary: ret p)
  case (Cons k ks)
  show ?case
  proof (cases "cJSON_GetObjectItem api json (pkey k)")
    case None
    with Cons show ?thesis by simp
  next
    case (Some item)
    show ?thesis
    proof (cases "node_type api item = kind_code api (key_type k)")
      case True
      then obtain r s where rs: "parser k api (pkey k) (pval k) item p = Ok (r, s)"
        using parser_returns [OF assms(1) _ True] Cons.prems by fastforce
      with Cons Some True show ?thesis by (cases r) simp_all
    qed (use Cons Some in simp)
  qed
qed simp

lemma number_stores:
  assumes "(key, f, z) \<in> set number_fields" "k \<in> set param_keys" "pkey k = key"
    and "parser k api (pkey k) (pval k) item p = Ok (Inr (), q)"
  shows "f q = (if node_valueint api item = 0 then z else node_valueint api item)"
proof -
  have "list_all (\<lambda>(key, f, z). list_all (\<lambda>k. pkey k = key \<longrightarrow>
      parser k api (pkey k) (pval k) item p = Ok (Inr (), q) \<longrightarrow>
      f q = (if node_valueint api item = 0 then z else node_valueint api item)) param_keys) number_fields"
    unfolding number_fields_def param_keys_def pk_def
    by (auto simp: number_parsers Let_def out_of_range_def range_err_def pv_def uint_of_int_u32 uint_of_int_u8
          DEFAULT_PERIOD_def DEFAULT_SAMPLE_PERIOD_def DEFAULT_KAFKA_PORT_def split: if_splits)
  with assms show ?thesis by (auto simp: list_all_iff)
qed

lemma param_keys_split:
  assumes "k \<in> set (param_keys :: 'j param_key_s list)"
  obtains ks ks' where "param_keys = ks @ k # ks'" "\<forall>k' \<in> set (ks @ ks'). pkey k' \<noteq> pkey k"
    "set ks \<subseteq> set param_keys" "set ks' \<subseteq> set param_keys"
proof -
  obtain ks ks' where s: "param_keys = ks @ k # ks'" using assms by (meson split_list)
  have "distinct (map pkey (param_keys :: 'j param_key_s list))" by (simp add: param_keys_def pk_def)
  then have "pkey k \<notin> pkey ` set (ks @ ks')" by (simp add: s image_Un)
  then have "\<forall>k' \<in> set (ks @ ks'). pkey k' \<noteq> pkey k" by (metis imageI)
  with s show thesis by (intro that [of ks ks']) (auto simp: s)
qed

lemma number_owned:
  "(key, f, z) \<in> set number_fields \<Longrightarrow> \<exists>e. (key, e) \<in> set owned \<and> (\<forall>p q. e p q \<longrightarrow> f q = f p)"
proof -
  have "list_all (\<lambda>(key, f, z). list_ex (\<lambda>(k, e). k = key \<and> (\<forall>p q. e p q \<longrightarrow> f q = f p)) owned) number_fields"
    by (simp add: number_fields_def owned_def)
  then show "(key, f, z) \<in> set number_fields \<Longrightarrow> ?thesis" by (fastforce simp: list_all_iff list_ex_iff)
qed

lemma number_key:
  "(key, f, z) \<in> set number_fields \<Longrightarrow> \<exists>k \<in> set (param_keys :: 'j param_key_s list). pkey k = key"
  by (auto simp: number_fields_def param_keys_def pk_def)

lemma parse_params_number:
  fixes api :: "'j cjson"
  assumes "cjson_ok api" "parse_params api json p = Ok (Inr (), q)" "(key, f, z) \<in> set number_fields"
  shows "f q = (case cJSON_GetObjectItem api json key of None \<Rightarrow> f p
     | Some item \<Rightarrow> if node_valueint api item = 0 then z else node_valueint api item)"
proof -
  obtain k where k: "k \<in> set (param_keys :: 'j param_key_s list)" "pkey k = key"
    using number_key [OF assms(3)] by blast
  obtain e where e: "(key, e) \<in> set owned" "\<And>p q. e p q \<Longrightarrow> f q = f p"
    using number_owned [OF assms(3)] by blast
  obtain ks ks' where s: "param_keys = ks @ k # ks'" "\<forall>k' \<in> set (ks @ ks'). pkey k' \<noteq> pkey k"
    "set ks \<subseteq> set param_keys" "set ks' \<subseteq> set param_keys" using param_keys_split [OF k(1)] .
  have frame: "f q' = f p'" if "parse_loop api json l r p' = Ok (r', q')" "l = ks \<or> l = ks'" for l r p' r' q'
  proof -
    have "param_table l e" using that(2) s k(2) by (intro other_keys_table [OF e(1)]) auto
    from param_table.loop_rel [OF this assms(1) subset_refl, of json r p'] that(1) have "e p' q'" by simp
    then show ?thesis by (rule e(2))
  qed
  obtain r1 s1 where 1: "parse_loop api json ks (Inl None) p = Ok (r1, s1)"
    "parse_loop api json (k # ks') r1 s1 = Ok (Inr (), q)"
    using parse_loop_split [OF assms(1)] assms(2) s(1,3) by (metis parse_params_def)
  show ?thesis
  proof (cases "cJSON_GetObjectItem api json key")
    case None
    then show ?thesis using 1 k(2) frame [of ks] frame [of ks'] by auto
  next
    case (Some item)
    have t: "node_type api item = kind_code api (key_type k)"
      using 1(2) Some k(2) by (auto split: if_splits)
    obtain r2 s2 where 2: "parser k api (pkey k) (pval k) item s1 = Ok (r2, s2)"
      using parser_returns [OF assms(1) k(1) t] by blast
    then have 3: "r2 = Inr ()" "parse_loop api json ks' (Inr ()) s2 = Ok (Inr (), q)"
      using 1(2) Some k(2) t by (auto split: sum.splits)
    show ?thesis using number_stores [OF assms(3) k 2 [unfolded 3(1)]] frame [OF 3(2)] Some by simp
  qed
qed

section \<open>Properties\<close>

lemma json_api_ok: "cjson_ok json_api"
  by (auto simp: cjson_ok_def json_api_def split: json.splits)

lemma reach_params_ok: "params_reach api p \<Longrightarrow> cjson_ok api \<Longrightarrow> params_ok p"
proof (induction rule: params_reach.induct)
  case (new p)
  show ?case by (rule default_params_ok)
next
  case (request p json r p')
  then show ?case
    using ok_table.loop_rel [OF request.prems subset_refl, of json "Inl None" p]
    by (simp add: parse_params_def)
qed

text \<open>C21. Whatever requests a probe receives, accepted or refused half-way, its parameters stay
  inside the ranges of the table: the periods, thresholds and ports in their intervals, the flags
  inside their masks, every string shorter than its array; and the parser of the next request
  returns. In particular no request can take the raw or the telemetry metrics away:
  \<open>metrics_flags\<close> is 3 in every reachable state.\<close>

theorem probe_params_typed:
  assumes "cjson_ok api" "params_reach api p"
  shows "params_ok p \<and> metrics_flags p = 3 \<and>
         (\<exists>r q. parse_params api json p = Ok (r, q) \<and> params_ok q)"
proof -
  have "params_ok p" using reach_params_ok assms by blast
  moreover from this have "metrics_flags p = 3" by (simp add: params_ok_def)
  ultimately show ?thesis
    using ok_table.loop_rel [OF assms(1) subset_refl, of json "Inl None" p]
    by (auto simp: parse_params_def)
qed

theorem probe_params_typed_witness:
  "params_ok (set_default_params zero_params) \<and> metrics_flags (set_default_params zero_params) = 3 \<and>
   (\<exists>r q. parse_params json_api demo_request (set_default_params zero_params) = Ok (r, q) \<and> params_ok q)"
  using probe_params_typed [OF json_api_ok params_reach.new [of json_api zero_params], of demo_request] .

text \<open>The flags of the L7 protocols overlap: asking for Kafka is asking for DNS and PostgreSQL.\<close>

lemma l7_names:
  "get_params_flags param_l7pro_flags ''kafka'' = 0x12" "get_params_flags param_l7pro_flags ''dns'' = 2"
  "get_params_flags param_l7pro_flags ''pgsql'' = 0x10"
  by code_simp+

lemma l7_kafka_is_dns_pgsql:
  assumes "cJSON_GetArraySize api a = 1" "cJSON_GetArrayItem api a 0 = Some k" "node_type api k = cJSON_String api"
    "node_valuestring api k = Some ''kafka''"
    and "cJSON_GetArraySize api b = 2" "cJSON_GetArrayItem api b 0 = Some d" "cJSON_GetArrayItem api b 1 = Some g"
    "node_type api d = cJSON_String api" "node_valuestring api d = Some ''dns''"
    "node_type api g = cJSON_String api" "node_valuestring api g = Some ''pgsql''"
  shows "parser_l7pro api key v a p = parser_l7pro api key v b p"
proof -
  have "(x OR 2) OR 0x10 = x OR 0x12" for x :: u32 by (simp add: or.assoc)
  moreover have "[0..<1] = [0 :: nat]" "[0..<2] = [0 :: nat, 1]" by (simp_all add: upt_rec)
  ultimately show ?thesis using assms by (simp add: parser_l7pro_def l7_names Let_def)
qed


lemma demo_flags:
  "get_params_flags param_metrics_flags ''RAW'' = 1"
  "get_params_flags param_env_flags ''node'' = 1" "get_params_flags param_env_flags ''kubenet'' = 4"
  by code_simp+

lemma demo_request_run:
  "parse_params json_api demo_request p = Ok (Inr (), p\<lparr>period := 60,
     metrics_flags := metrics_flags p OR 1, env_flags := (env_flags p OR 1) OR 4, svg_period := 180,
     target_dev := ''eth0'', netcard_list := ''eth0''\<rparr>)"
  by (simp add: parse_params_def key_simps demo_request_def json_api_def Let_def parser_report_peirod_def
        parser_svg_period_def array_parsers parser_dev_name_def snprintf_s_def size_consts
        demo_flags upt_rec)


end
