(* ===== verification/Probe_Args.thy ===== *)
theory Probe_Args
  imports Imdb_Export Probe_Params
begin

text \<open>
  The command line of the native probes and its parameters, \<open>common/args.c\<close>.
\<close>

section \<open>The options\<close>

definition OUT_PUT_PERIOD_MAX :: u32 where "OUT_PUT_PERIOD_MAX = 120"
definition OUT_PUT_PERIOD_MIN :: u32 where "OUT_PUT_PERIOD_MIN = 1"
definition MAX_PARAM_LEN :: nat where "MAX_PARAM_LEN = 128"
definition MAX_PORT_NUM :: u32 where "MAX_PORT_NUM = 65535"
definition DEFAULT_LOAD_PROBE :: u32 where "DEFAULT_LOAD_PROBE = 0xFFFFFFFF"

definition args_default_params :: probe_params where
  "args_default_params = zero_params\<lparr>period := of_int DEFAULT_PERIOD, sample_period := of_int DEFAULT_SAMPLE_PERIOD,
     load_probe := DEFAULT_LOAD_PROBE, kafka_port := of_int DEFAULT_KAFKA_PORT, metrics_flags := 3, env_flags := 1\<rparr>"

definition parse_host_ip_fields_arg :: "string \<Rightarrow> probe_params \<Rightarrow> probe_params" where
  "parse_host_ip_fields_arg ip_str p =
     (let toks = take MAX_IP_NUM (strtok_all CHR '','' [] ip_str) in
      p\<lparr>host_ip_list := map (snprintf_s MAX_IP_LEN) toks @ drop (length toks) (host_ip_list p)\<rparr>)"

definition is_digit_str :: "string \<Rightarrow> bool" where
  "is_digit_str s = list_all is_digit s"

definition filter_arg_parse :: "string \<Rightarrow> probe_params \<Rightarrow> probe_params" where
  "filter_arg_parse arg p =
     (if arg = ''task'' then p\<lparr>filter_task_probe := 1\<rparr>
      else if is_digit_str arg then p\<lparr>filter_pid := of_int (atoi arg)\<rparr>
      else p\<lparr>target_comm := snprintf_s MAX_COMM_LEN arg\<rparr>)"

text \<open>The three statements an option falls through to: \<open>U\<close> to \<open>e\<close>, \<open>e\<close> to \<open>m\<close>.\<close>

definition set_metrics_flags :: "int \<Rightarrow> probe_params \<Rightarrow> probe_params" where
  "set_metrics_flags n p = (let f = (of_int n :: byte) in p\<lparr>metrics_flags := (if f = 0 then 3 else f)\<rparr>)"

definition set_env_flags :: "int \<Rightarrow> probe_params \<Rightarrow> probe_params" where
  "set_env_flags n p = (let f = (of_int n :: byte) in p\<lparr>env_flags := (if f = 0 then 1 else f)\<rparr>)"

text \<open>The number of an option; an option without an argument has the null pointer.\<close>

definition with_arg :: "string option \<Rightarrow> (string \<Rightarrow> (int \<times> probe_params) outc) \<Rightarrow> (int \<times> probe_params) outc" where
  "with_arg arg k = (case arg of None \<Rightarrow> UB | Some a \<Rightarrow> k a)"

definition period_arg_parse :: "char \<Rightarrow> string option \<Rightarrow> probe_params \<Rightarrow> (int \<times> probe_params) outc" where
  "period_arg_parse opt arg p =
    (if opt = CHR ''t'' then with_arg arg (\<lambda>a. let interval = (of_int (atoi a) :: u32) in
        if interval < OUT_PUT_PERIOD_MIN \<or> interval > OUT_PUT_PERIOD_MAX then Ok (- 1, p) else Ok (0, p\<lparr>period := interval\<rparr>))
     else if opt = CHR ''s'' then with_arg arg (\<lambda>a. Ok (0, p\<lparr>sample_period := of_int (atoi a)\<rparr>))
     else if opt = CHR ''p'' then Ok (0, case arg of None \<Rightarrow> p | Some a \<Rightarrow> p\<lparr>elf_path := snprintf_s MAX_PATH_LEN a\<rparr>)
     else if opt = CHR ''w'' then Ok (0, case arg of None \<Rightarrow> p | Some a \<Rightarrow> p\<lparr>task_whitelist := snprintf_s MAX_PATH_LEN a\<rparr>)
     else if opt = CHR ''c'' then with_arg arg (\<lambda>a. let f = (of_int (atoi a) :: u32) in
        if f \<noteq> 0 \<and> f \<noteq> 1 then Ok (- 1, p) else Ok (0, p\<lparr>cport_flag := ucast f\<rparr>))
     else if opt = CHR ''T'' then with_arg arg (\<lambda>a. Ok (0, p\<lparr>latency_thr := of_int (atoi a)\<rparr>))
     else if opt = CHR ''J'' then with_arg arg (\<lambda>a. Ok (0, p\<lparr>jitter_thr := of_int (atoi a)\<rparr>))
     else if opt = CHR ''O'' then with_arg arg (\<lambda>a. Ok (0, p\<lparr>offline_thr := of_int (atoi a)\<rparr>))
     else if opt = CHR ''D'' then with_arg arg (\<lambda>a. Ok (0, p\<lparr>drops_count_thr := of_int (atoi a)\<rparr>))
     else if opt = CHR ''U'' then with_arg arg (\<lambda>a. Ok (0, set_metrics_flags (atoi a) (set_env_flags (atoi a) (p\<lparr>res_percent_upper := of_int (atoi a)\<rparr>))))
     else if opt = CHR ''e'' then with_arg arg (\<lambda>a. Ok (0, set_metrics_flags (atoi a) (set_env_flags (atoi a) p)))
     else if opt = CHR ''m'' then with_arg arg (\<lambda>a. Ok (0, set_metrics_flags (atoi a) p))
     else if opt = CHR ''L'' then with_arg arg (\<lambda>a. Ok (0, p\<lparr>res_percent_lower := of_int (atoi a)\<rparr>))
     else if opt = CHR ''F'' then with_arg arg (\<lambda>a. Ok (0, filter_arg_parse a p))
     else if opt = CHR ''l'' then Ok (0, p\<lparr>logs := 1\<rparr>)
     else if opt = CHR ''d'' then Ok (0, case arg of None \<Rightarrow> p
        | Some a \<Rightarrow> p\<lparr>netcard_list := snprintf_s MAX_PATH_LEN a, target_dev := snprintf_s DEV_NAME a\<rparr>)
     else if opt = CHR ''P'' then with_arg arg (\<lambda>a. let v = of_int (atoi a) in
        Ok (0, p\<lparr>load_probe := (if v = 0 then DEFAULT_LOAD_PROBE else v), l7_probe_proto_flags := v\<rparr>))
     else if opt = CHR ''C'' then Ok (0, p\<lparr>continuous_sampling_flag := 1\<rparr>)
     else if opt = CHR ''k'' then with_arg arg (\<lambda>a. let v = of_int (atoi a) in
        Ok (if v > MAX_PORT_NUM then - 1 else 0, p\<lparr>kafka_port := v\<rparr>))
     else if opt = CHR ''i'' then Ok (0, case arg of None \<Rightarrow> p | Some a \<Rightarrow> parse_host_ip_fields_arg a p)
     else if opt = CHR ''f'' then Ok (0, case arg of None \<Rightarrow> p | Some a \<Rightarrow> p\<lparr>probe_params.tgids := snprintf_s MAX_TGIDS_LEN a\<rparr>)
     else if opt = CHR ''A'' then Ok (0, p\<lparr>enable_all_thrds := 1\<rparr>)
     else Ok (- 1, p))"

text \<open>The options one after the other, up to the first that is refused.\<close>

fun parse_options :: "(char \<times> string option) list \<Rightarrow> probe_params \<Rightarrow> (int \<times> probe_params) outc" where
  "parse_options [] p = Ok (0, p)"
| "parse_options ((opt, arg) # os) p = bnd (period_arg_parse opt arg p) (\<lambda>(r, p). if r \<noteq> 0 then Ok (- 1, p) else parse_options os p)"

text \<open>The command line, as \<open>getopt\<close> takes it apart.\<close>

definition args_parse :: "(char \<times> string option) list \<Rightarrow> (int \<times> probe_params) outc" where
  "args_parse opts = parse_options opts args_default_params"

section \<open>Options in a configuration file\<close>

text \<open>\<open>temp\<close> begins with the option; its value is the rest without spaces. With 127 characters at most it fits.\<close>

definition params_val_parse :: "string \<Rightarrow> string" where
  "params_val_parse temp = filter (\<lambda>c. c \<noteq> CHR '' '') (tl temp)"

text \<open>The part up to \<open>j\<close>, printed into an array of 128 with a limit of \<open>j - start\<close> bytes, which the terminator counts for.\<close>

definition option_at :: "string \<Rightarrow> nat \<Rightarrow> nat \<Rightarrow> (char \<times> string option) outc" where
  "option_at s start j =
     (if j < start \<or> j - start > MAX_PARAM_LEN then UB
      else let temp = (if j = start then [] else take (j - start - 1) (drop start s)) in
        Ok (if temp = [] then CHR 0x00 else hd temp, Some (params_val_parse temp)))"

function params_loop :: "string \<Rightarrow> nat \<Rightarrow> nat \<Rightarrow> probe_params \<Rightarrow> (int \<times> probe_params) outc" where
  "params_loop s start j p =
     (if j > length s then Ok (0, p)
      else if take 2 (drop j s) = '' -'' \<or> j = length s then
        bnd (option_at s start j) (\<lambda>(opt, v).
          bnd (period_arg_parse opt v p) (\<lambda>(r, p). if r \<noteq> 0 then Ok (- 1, p) else params_loop s (j + 2) (j + 1) p))
      else params_loop s start (j + 1) p)"
  by pat_completeness auto
termination by (relation "measure (\<lambda>(s, start, j, p). Suc (length s) - j)") auto

declare params_loop.simps [simp del]

definition params_parse :: "string \<Rightarrow> (int \<times> probe_params) outc" where
  "params_parse s = (let start = length (takeWhile (\<lambda>c. c \<noteq> CHR ''-'') s) + 1 in params_loop s start start args_default_params)"

section \<open>Every value loses its last character\<close>

definition opt_ok :: "char \<times> string \<Rightarrow> bool" where
  "opt_ok x \<longleftrightarrow> fst x \<noteq> CHR '' '' \<and> snd x \<noteq> [] \<and> CHR '' '' \<notin> set (snd x) \<and> hd (snd x) \<noteq> CHR ''-'' \<and> length (snd x) \<le> 126"

definition opt_text :: "char \<times> string \<Rightarrow> string" where
  "opt_text x = fst x # CHR '' '' # snd x"

fun opts_text :: "(char \<times> string) list \<Rightarrow> string" where
  "opts_text [] = []"
| "opts_text [x] = opt_text x"
| "opts_text (x # y # xs) = opt_text x @ '' -'' @ opts_text (y # xs)"

lemma take2_nth:
  assumes "take 2 (drop k s) = [a, b]"
  shows "s ! k = a" "s ! Suc k = b"
proof -
  have l: "length (take 2 (drop k s)) = 2" by (simp add: assms)
  then have "take 2 (drop k s) ! 0 = s ! k" "take 2 (drop k s) ! 1 = s ! Suc k" by simp_all
  then show "s ! k = a" "s ! Suc k = b" by (simp_all add: assms)
qed

lemma no_split_inside:
  assumes "opt_ok x" "k < length (opt_text x)"
  shows "take 2 (drop k (opt_text x @ rest)) \<noteq> '' -''"
proof
  assume "take 2 (drop k (opt_text x @ rest)) = '' -''"
  note n = take2_nth [OF this]
  obtain c d where x: "x = (c, d)" by (cases x)
  have d: "c \<noteq> CHR '' ''" "d \<noteq> []" "CHR '' '' \<notin> set d" "hd d \<noteq> CHR ''-''" using assms(1) by (auto simp: opt_ok_def x)
  consider "k = 0" | "k = 1" | m where "k = Suc (Suc m)" "m < length d" using assms(2) by (cases k; cases "k - 1") (auto simp: opt_text_def x)
  then show False
  proof cases
    case 1 then show ?thesis using n d by (simp add: opt_text_def x)
  next
    case 2 then show ?thesis using n d by (cases d) (simp_all add: opt_text_def x)
  next
    case 3 then show ?thesis using n(1) d(3) nth_mem [of m d] by (simp add: opt_text_def x nth_append)
  qed
qed

lemma params_loop_skip:
  assumes "opt_ok x" "s = pre @ opt_text x @ rest" "k \<le> length (opt_text x)"
  shows "params_loop s (length pre) (length pre) p = params_loop s (length pre) (length pre + k) p"
  using assms(3)
proof (induction k)
  case (Suc k)
  have "drop (length pre + k) s = drop k (opt_text x @ rest)" by (simp add: assms(2))
  then have "take 2 (drop (length pre + k) s) \<noteq> '' -''" using no_split_inside [OF assms(1), of k rest] Suc.prems by simp
  moreover have "length pre + k < length s" using Suc.prems by (simp add: assms(2))
  ultimately show ?case using Suc by (simp add: params_loop.simps [of s _ "length pre + k"])
qed simp

lemma option_at_segment:
  assumes "opt_ok x" "s = pre @ opt_text x @ rest"
  shows "option_at s (length pre) (length pre + length (opt_text x)) = Ok (fst x, Some (butlast (snd x)))"
proof -
  obtain c d where x: "x = (c, d)" by (cases x)
  have d: "d \<noteq> []" "CHR '' '' \<notin> set d" "length d \<le> 126" using assms(1) by (auto simp: opt_ok_def x)
  have "take (length d - 1) (d @ rest) = butlast d" by (simp add: butlast_conv_take)
  then have "take (length (opt_text x) - 1) (drop (length pre) s) = c # CHR '' '' # butlast d"
    using d(1) by (simp add: assms(2) opt_text_def x take_Cons')
  moreover have "filter (\<lambda>a. a \<noteq> CHR '' '') (butlast d) = butlast d" using d(2) by (auto intro!: filter_True dest: in_set_butlastD)
  ultimately show ?thesis using d by (simp add: option_at_def opt_text_def x MAX_PARAM_LEN_def Let_def params_val_parse_def)
qed

lemma params_loop_segment:
  assumes "opt_ok x" "s = pre @ opt_text x @ rest" "rest = [] \<or> (\<exists>r. rest = '' -'' @ r)"
  shows "params_loop s (length pre) (length pre) p =
    bnd (period_arg_parse (fst x) (Some (butlast (snd x))) p) (\<lambda>(r, p). if r \<noteq> 0 then Ok (- 1, p)
      else params_loop s (length pre + length (opt_text x) + 2) (length pre + length (opt_text x) + 1) p)"
proof -
  let ?j = "length pre + length (opt_text x)"
  have "take 2 (drop ?j s) = '' -'' \<or> ?j = length s" "?j \<le> length s" using assms(3) by (auto simp: assms(2))
  then have "params_loop s (length pre) ?j p = bnd (option_at s (length pre) ?j) (\<lambda>(opt, v).
      bnd (period_arg_parse opt v p) (\<lambda>(r, p). if r \<noteq> 0 then Ok (- 1, p) else params_loop s (?j + 2) (?j + 1) p))"
    by (subst params_loop.simps) simp
  then show ?thesis using params_loop_skip [OF assms(1,2), of "length (opt_text x)" p] option_at_segment [OF assms(1,2)] by simp
qed

lemma params_loop_dash:
  assumes "s = pre @ '' -'' @ r" "r \<noteq> []"
  shows "params_loop s (length pre + 2) (length pre + 1) p = params_loop s (length pre + 2) (length pre + 2) p"
  using assms by (subst params_loop.simps) simp

lemma opts_text_ne: "xs \<noteq> [] \<Longrightarrow> opts_text xs \<noteq> []"
  by (cases xs rule: opts_text.cases) (auto simp: opt_text_def)

lemma params_loop_opts:
  assumes "list_all opt_ok xs" "xs \<noteq> []" "s = pre @ opts_text xs"
  shows "params_loop s (length pre) (length pre) p = parse_options (map (\<lambda>(c, v). (c, Some (butlast v))) xs) p"
  using assms
proof (induction xs arbitrary: pre p rule: opts_text.induct)
  case (2 x)
  have l: "length s = length pre + length (opt_text x)" using 2 by simp
  have e: "params_loop s (length pre + length (opt_text x) + 2) (length pre + length (opt_text x) + 1) q = Ok (0, q)" for q
    unfolding l [symmetric] by (subst params_loop.simps) simp
  obtain c v where x: "x = (c, v)" by (cases x)
  show ?case using params_loop_segment [of x s pre "[]" p] 2 unfolding e by (simp add: x cong: if_cong)
next
  case (3 x y xs)
  let ?pre = "pre @ opt_text x"
  have "params_loop s (length ?pre + 2) (length ?pre + 1) q = params_loop s (length (?pre @ '' -'')) (length (?pre @ '' -'')) q" for q
    using params_loop_dash [of s ?pre "opts_text (y # xs)" q] "3.prems" opts_text_ne [of "y # xs"] by simp
  moreover have "params_loop s (length (?pre @ '' -'')) (length (?pre @ '' -'')) q = parse_options (map (\<lambda>(c, v). (c, Some (butlast v))) (y # xs)) q" for q
    using 3 by (intro "3.IH") auto
  ultimately have r: "params_loop s (length pre + length (opt_text x) + 2) (length pre + length (opt_text x) + 1) q = parse_options (map (\<lambda>(c, v). (c, Some (butlast v))) (y # xs)) q" for q
    by (metis length_append)
  show ?case
    using params_loop_segment [of x s pre "'' -'' @ opts_text (y # xs)" p] "3.prems" unfolding r by (cases x) (simp del: opts_text.simps add: opts_text.simps(3) cong: if_cong)
qed simp

text \<open>The options of a probe in a configuration file: a text of well-formed options is parsed as these options in order, except that
  every value has lost its last character, because the terminator counts for the limit of \<open>snprintf\<close>.\<close>

theorem params_parse_cut:
  assumes "list_all opt_ok xs" "xs \<noteq> []"
  shows "params_parse (CHR ''-'' # opts_text xs) = parse_options (map (\<lambda>(c, v). (c, Some (butlast v))) xs) args_default_params"
  using params_loop_opts [OF assms, of "CHR ''-'' # opts_text xs" "''-''"] by (simp add: params_parse_def)

theorem params_parse_cut_witness:
  "params_parse ''-t 60 -s 200'' = Ok (0, args_default_params\<lparr>period := 6, sample_period := 20\<rparr>)"
proof -
  have o: "list_all opt_ok [(CHR ''t'', ''60''), (CHR ''s'', ''200'')]" by (simp add: opt_ok_def)
  have a: "atoi ''6'' = 6" "atoi ''20'' = 20" by code_simp+
  have "params_parse ''-t 60 -s 200'' = parse_options [(CHR ''t'', Some ''6''), (CHR ''s'', Some ''20'')] args_default_params"
    using params_parse_cut [OF o] by (simp add: opt_text_def)
  also have "\<dots> = Ok (0, args_default_params\<lparr>period := 6, sample_period := 20\<rparr>)"
    by (simp add: period_arg_parse_def with_arg_def a Let_def OUT_PUT_PERIOD_MIN_def OUT_PUT_PERIOD_MAX_def)
  finally show ?thesis .
qed

text \<open>The upper limit of resources also sets the flags of the metrics, for want of a break.\<close>

lemma upper_sets_metrics:
  "period_arg_parse CHR ''U'' (Some ''80'') p = Ok (0, p\<lparr>res_percent_upper := 80, env_flags := 80, metrics_flags := 80\<rparr>)"
proof -
  have "atoi ''80'' = 80" by code_simp
  then show ?thesis by (simp add: period_arg_parse_def with_arg_def set_metrics_flags_def set_env_flags_def Let_def)
qed

text \<open>Parts of more than 128 characters are written past the array.\<close>

lemma params_overflow: "j - start > MAX_PARAM_LEN \<Longrightarrow> option_at s start j = UB"
  by (simp add: option_at_def)

end
