(* ===== verification/Libconfig.thy ===== *)
theory Libconfig
  imports Gopher_Prelude
begin

text \<open>
  The configuration library that the daemon and the probes read their files with, as an argument of the definitions that use it, and a concrete
  instance for the examples.
\<close>

text \<open>
  libconfig, a library outside the repository: reading a file, a group of it, a member of a setting, the number of the
  elements of a list and its elements, strings and 32-bit integers. What it does with the null pointer of a missing list is up to it.
\<close>

record 'c libconfig =
  config_read_file :: "string \<Rightarrow> 'c option"
  config_lookup :: "'c \<Rightarrow> string \<Rightarrow> 'c option"
  config_lookup_string :: "'c \<Rightarrow> string \<Rightarrow> string option"
  config_setting_lookup :: "'c \<Rightarrow> string \<Rightarrow> 'c option"
  config_setting_length :: "'c option \<Rightarrow> nat outc"
  config_setting_get_elem :: "'c option \<Rightarrow> nat \<Rightarrow> 'c"
  config_setting_lookup_string :: "'c \<Rightarrow> string \<Rightarrow> string option"
  config_setting_lookup_int :: "'c \<Rightarrow> string \<Rightarrow> int option"

text \<open>An instance for the concrete examples: configurations as trees, in files that are given.\<close>

datatype conf_tree = CText string | CInt int | CList "conf_tree list" | CGroup "(string \<times> conf_tree) list"

fun conf_member :: "conf_tree \<Rightarrow> string \<Rightarrow> conf_tree option" where
  "conf_member (CGroup ms) name = map_of ms name"
| "conf_member _ name = None"

definition conf_text :: "conf_tree \<Rightarrow> string \<Rightarrow> string option" where
  "conf_text c name = (case conf_member c name of Some (CText s) \<Rightarrow> Some s | _ \<Rightarrow> None)"

definition conf_int :: "conf_tree \<Rightarrow> string \<Rightarrow> int option" where
  "conf_int c name = (case conf_member c name of Some (CInt i) \<Rightarrow> Some i | _ \<Rightarrow> None)"

fun conf_elems :: "conf_tree \<Rightarrow> conf_tree list" where
  "conf_elems (CList cs) = cs"
| "conf_elems (CGroup ms) = map snd ms"
| "conf_elems (CText s) = []"
| "conf_elems (CInt i) = []"

definition tree_config :: "(string \<rightharpoonup> conf_tree) \<Rightarrow> conf_tree libconfig" where
  "tree_config files = \<lparr>config_read_file = files, config_lookup = conf_member, config_lookup_string = conf_text, config_setting_lookup = conf_member,
     config_setting_length = (\<lambda>c. case c of None \<Rightarrow> UB | Some c \<Rightarrow> Ok (length (conf_elems c))),
     config_setting_get_elem = (\<lambda>c i. conf_elems (the c) ! i), config_setting_lookup_string = conf_text,
     config_setting_lookup_int = conf_int\<rparr>"

end
