(* ===== verification/Config.thy ===== *)
theory Config
  imports C_Strings Gopher_Prelude Libconfig
begin

text \<open>
  The configuration of the daemon, \<open>lib/config/config.c\<close>: the sections of the file, their handlers, and which of them must be there. A file that loads leaves every text within its
  array; one without a required section or setting is refused.
\<close>

section \<open>The configuration\<close>

definition CONF_PATH_LEN :: nat where "CONF_PATH_LEN = 256"
definition MAX_PIN_PATH_LEN :: nat where "MAX_PIN_PATH_LEN = 128"
definition MAX_KAFKA_BROKER_LEN :: nat where "MAX_KAFKA_BROKER_LEN = 32"
definition MAX_KAFKA_TOPIC_LEN :: nat where "MAX_KAFKA_TOPIC_LEN = 32"
definition KAFKA_COMPRESSION_CODEC_LEN :: nat where "KAFKA_COMPRESSION_CODEC_LEN = 32"
definition KAFKA_USERNAME_LEN :: nat where "KAFKA_USERNAME_LEN = 64"
definition KAFKA_PASSWORD_LEN :: nat where "KAFKA_PASSWORD_LEN = 64"
definition MAX_LANGUAGE_TYPE_LEN :: nat where "MAX_LANGUAGE_TYPE_LEN = 32"

lemmas conf_len_defs = CONF_PATH_LEN_def MAX_PIN_PATH_LEN_def MAX_KAFKA_BROKER_LEN_def MAX_KAFKA_TOPIC_LEN_def KAFKA_COMPRESSION_CODEC_LEN_def
  KAFKA_USERNAME_LEN_def KAFKA_PASSWORD_LEN_def MAX_LANGUAGE_TYPE_LEN_def

text \<open>The channels; \<open>OUT_CHNL_INVALID\<close> is the value -1 that a name outside the list gets.\<close>

datatype OutChannelType = OUT_CHNL_LOGS | OUT_CHNL_KAFKA | OUT_CHNL_WEB_SERVER | OUT_CHNL_MAX | OUT_CHNL_INVALID

record GlobalConfig =
  logFileName :: string
  logLevel :: string
  bpfPinPath :: string

record IngressConfig =
  in_interval :: u32

record EgressConfig =
  eg_interval :: u32
  eg_timeRange :: u32

record KafkaConfig =
  k_broker :: string
  k_batchNumMessages :: u32
  k_compressionCodec :: string
  k_queueBufferingMaxMessages :: u32
  k_queueBufferingMaxKbytes :: u32
  k_queueBufferingMaxMs :: u32
  k_username :: string
  k_password :: string

record IMDBConfig =
  maxTablesNum :: u32
  maxRecordsNum :: u32
  maxMetricsNum :: u32
  recordTimeout :: u32

record WebServerConfig =
  ws_port :: "16 word"

record RestServerConfig =
  rs_port :: "16 word"
  rs_sslAuth :: bool
  rs_privateKey :: string
  rs_certFile :: string
  rs_caFile :: string

record LogsConfig =
  metricDir :: string
  eventDir :: string
  metaDir :: string
  debugDir :: string

record OutConfig =
  outChnl :: OutChannelType
  kafka_topic :: string
  out_timeout :: u32
  lang_type :: string

record ConfigMgr =
  globalConfig :: GlobalConfig
  ingressConfig :: IngressConfig
  egressConfig :: EgressConfig
  kafkaConfig :: KafkaConfig
  imdbConfig :: IMDBConfig
  webServerConfig :: WebServerConfig
  restServerConfig :: RestServerConfig
  logsConfig :: LogsConfig
  metricOutConfig :: OutConfig
  eventOutConfig :: OutConfig
  metaOutConfig :: OutConfig

text \<open>Twelve allocations, each of them cleared; \<open>alloc i\<close>: the memory of allocation \<open>i\<close> is available.\<close>

definition zero_out :: OutConfig where
  "zero_out = \<lparr>outChnl = OUT_CHNL_LOGS, kafka_topic = [], out_timeout = 0, lang_type = []\<rparr>"

definition zero_config :: ConfigMgr where
  "zero_config = \<lparr>globalConfig = \<lparr>logFileName = [], logLevel = [], bpfPinPath = []\<rparr>, ingressConfig = \<lparr>in_interval = 0\<rparr>,
     egressConfig = \<lparr>eg_interval = 0, eg_timeRange = 0\<rparr>,
     kafkaConfig = \<lparr>k_broker = [], k_batchNumMessages = 0, k_compressionCodec = [], k_queueBufferingMaxMessages = 0, k_queueBufferingMaxKbytes = 0,
       k_queueBufferingMaxMs = 0, k_username = [], k_password = []\<rparr>,
     imdbConfig = \<lparr>maxTablesNum = 0, maxRecordsNum = 0, maxMetricsNum = 0, recordTimeout = 0\<rparr>, webServerConfig = \<lparr>ws_port = 0\<rparr>,
     restServerConfig = \<lparr>rs_port = 0, rs_sslAuth = False, rs_privateKey = [], rs_certFile = [], rs_caFile = []\<rparr>,
     logsConfig = \<lparr>metricDir = [], eventDir = [], metaDir = [], debugDir = []\<rparr>, metricOutConfig = zero_out, eventOutConfig = zero_out, metaOutConfig = zero_out\<rparr>"

definition ConfigMgrCreate :: "(nat \<Rightarrow> bool) \<Rightarrow> ConfigMgr option" where
  "ConfigMgrCreate alloc = (if list_all alloc [0..<12] then Some zero_config else None)"

section \<open>The sections of the file\<close>

text \<open>
  A loader is a sequence of steps on a part of the configuration, up to the first that fails: a setting that must be there and is stored, or one that
  may be missing.
\<close>

definition need_string :: "'c libconfig \<Rightarrow> 'c \<Rightarrow> string \<Rightarrow> (string \<Rightarrow> 'a \<Rightarrow> 'a) \<Rightarrow> 'a \<Rightarrow> int \<times> 'a" where
  "need_string lc settings name store a = (case config_setting_lookup_string lc settings name of None \<Rightarrow> (- 1, a) | Some v \<Rightarrow> (0, store v a))"

definition need_int :: "'c libconfig \<Rightarrow> 'c \<Rightarrow> string \<Rightarrow> (int \<Rightarrow> 'a \<Rightarrow> 'a) \<Rightarrow> 'a \<Rightarrow> int \<times> 'a" where
  "need_int lc settings name store a = (case config_setting_lookup_int lc settings name of None \<Rightarrow> (- 1, a) | Some v \<Rightarrow> (0, store v a))"

definition may_string :: "'c libconfig \<Rightarrow> 'c \<Rightarrow> string \<Rightarrow> (string \<Rightarrow> 'a \<Rightarrow> 'a) \<Rightarrow> 'a \<Rightarrow> int \<times> 'a" where
  "may_string lc settings name store a = (case config_setting_lookup_string lc settings name of None \<Rightarrow> (0, a) | Some v \<Rightarrow> (0, store v a))"

definition may_int :: "'c libconfig \<Rightarrow> 'c \<Rightarrow> string \<Rightarrow> (int \<Rightarrow> 'a \<Rightarrow> 'a) \<Rightarrow> 'a \<Rightarrow> int \<times> 'a" where
  "may_int lc settings name store a = (case config_setting_lookup_int lc settings name of None \<Rightarrow> (0, a) | Some v \<Rightarrow> (0, store v a))"

fun run_steps :: "('a \<Rightarrow> int \<times> 'a) list \<Rightarrow> 'a \<Rightarrow> int \<times> 'a" where
  "run_steps [] a = (0, a)"
| "run_steps (f # fs) a = (case f a of (ret, a) \<Rightarrow> if ret \<noteq> 0 then (- 1, a) else run_steps fs a)"

definition ConfigMgrLoadGlobalConfig :: "'c libconfig \<Rightarrow> 'c \<Rightarrow> GlobalConfig \<Rightarrow> int \<times> GlobalConfig" where
  "ConfigMgrLoadGlobalConfig lc st = run_steps
     [need_string lc st ''log_file_name'' (\<lambda>v g. g\<lparr>logFileName := snprintf_s CONF_PATH_LEN v\<rparr>),
      need_string lc st ''log_level'' (\<lambda>v g. g\<lparr>logLevel := snprintf_s CONF_PATH_LEN v\<rparr>),
      need_string lc st ''pin_path'' (\<lambda>v g. g\<lparr>bpfPinPath := snprintf_s MAX_PIN_PATH_LEN v\<rparr>)]"

definition ConfigMgrLoadIngressConfig :: "'c libconfig \<Rightarrow> 'c \<Rightarrow> IngressConfig \<Rightarrow> int \<times> IngressConfig" where
  "ConfigMgrLoadIngressConfig lc st = run_steps [need_int lc st ''interval'' (\<lambda>v g. g\<lparr>in_interval := of_int v\<rparr>)]"

definition ConfigMgrLoadEgressConfig :: "'c libconfig \<Rightarrow> 'c \<Rightarrow> EgressConfig \<Rightarrow> int \<times> EgressConfig" where
  "ConfigMgrLoadEgressConfig lc st = run_steps
     [need_int lc st ''interval'' (\<lambda>v g. g\<lparr>eg_interval := of_int v\<rparr>), need_int lc st ''time_range'' (\<lambda>v g. g\<lparr>eg_timeRange := of_int v\<rparr>)]"

definition ConfigMgrLoadKafkaConfig :: "'c libconfig \<Rightarrow> 'c \<Rightarrow> KafkaConfig \<Rightarrow> int \<times> KafkaConfig" where
  "ConfigMgrLoadKafkaConfig lc st = run_steps
     [need_string lc st ''kafka_broker'' (\<lambda>v g. g\<lparr>k_broker := snprintf_s MAX_KAFKA_BROKER_LEN v\<rparr>),
      need_int lc st ''batch_num_messages'' (\<lambda>v g. g\<lparr>k_batchNumMessages := of_int v\<rparr>),
      need_string lc st ''compression_codec'' (\<lambda>v g. g\<lparr>k_compressionCodec := snprintf_s KAFKA_COMPRESSION_CODEC_LEN v\<rparr>),
      need_int lc st ''queue_buffering_max_messages'' (\<lambda>v g. g\<lparr>k_queueBufferingMaxMessages := of_int v\<rparr>),
      need_int lc st ''queue_buffering_max_kbytes'' (\<lambda>v g. g\<lparr>k_queueBufferingMaxKbytes := of_int v\<rparr>),
      need_int lc st ''queue_buffering_max_ms'' (\<lambda>v g. g\<lparr>k_queueBufferingMaxMs := of_int v\<rparr>),
      need_string lc st ''username'' (\<lambda>v g. g\<lparr>k_username := snprintf_s KAFKA_USERNAME_LEN v\<rparr>),
      need_string lc st ''password'' (\<lambda>v g. g\<lparr>k_password := snprintf_s KAFKA_PASSWORD_LEN v\<rparr>)]"

definition ConfigMgrLoadIMDBConfig :: "'c libconfig \<Rightarrow> 'c \<Rightarrow> IMDBConfig \<Rightarrow> int \<times> IMDBConfig" where
  "ConfigMgrLoadIMDBConfig lc st = run_steps
     [need_int lc st ''max_tables_num'' (\<lambda>v g. g\<lparr>maxTablesNum := of_int v\<rparr>), need_int lc st ''max_records_num'' (\<lambda>v g. g\<lparr>maxRecordsNum := of_int v\<rparr>),
      need_int lc st ''max_metrics_num'' (\<lambda>v g. g\<lparr>maxMetricsNum := of_int v\<rparr>), may_int lc st ''record_timeout'' (\<lambda>v g. g\<lparr>recordTimeout := of_int v\<rparr>)]"

definition ConfigMgrLoadWebServerConfig :: "'c libconfig \<Rightarrow> 'c \<Rightarrow> WebServerConfig \<Rightarrow> int \<times> WebServerConfig" where
  "ConfigMgrLoadWebServerConfig lc st = run_steps [need_int lc st ''port'' (\<lambda>v g. g\<lparr>ws_port := of_int v\<rparr>)]"

definition ConfigMgrLoadRestServerConfig :: "'c libconfig \<Rightarrow> 'c \<Rightarrow> RestServerConfig \<Rightarrow> int \<times> RestServerConfig" where
  "ConfigMgrLoadRestServerConfig lc st = run_steps
     [need_int lc st ''port'' (\<lambda>v g. g\<lparr>rs_port := of_int v\<rparr>),
      need_string lc st ''ssl_auth'' (\<lambda>v g. if v = ''on'' then g\<lparr>rs_sslAuth := True\<rparr> else g),
      need_string lc st ''private_key'' (\<lambda>v g. g\<lparr>rs_privateKey := snprintf_s CONF_PATH_LEN v\<rparr>),
      need_string lc st ''cert_file'' (\<lambda>v g. g\<lparr>rs_certFile := snprintf_s CONF_PATH_LEN v\<rparr>),
      need_string lc st ''ca_file'' (\<lambda>v g. g\<lparr>rs_caFile := snprintf_s CONF_PATH_LEN v\<rparr>)]"

definition ConfigMgrLoadLogsConfig :: "'c libconfig \<Rightarrow> 'c \<Rightarrow> LogsConfig \<Rightarrow> int \<times> LogsConfig" where
  "ConfigMgrLoadLogsConfig lc st = run_steps
     [need_string lc st ''metric_dir'' (\<lambda>v g. g\<lparr>metricDir := snprintf_s CONF_PATH_LEN v\<rparr>),
      need_string lc st ''event_dir'' (\<lambda>v g. g\<lparr>eventDir := snprintf_s CONF_PATH_LEN v\<rparr>),
      need_string lc st ''meta_dir'' (\<lambda>v g. g\<lparr>metaDir := snprintf_s CONF_PATH_LEN v\<rparr>),
      need_string lc st ''debug_dir'' (\<lambda>v g. g\<lparr>debugDir := snprintf_s CONF_PATH_LEN v\<rparr>)]"

definition out_channel_of :: "string \<Rightarrow> OutChannelType" where
  "out_channel_of v = (if v = ''logs'' then OUT_CHNL_LOGS else if v = ''kafka'' then OUT_CHNL_KAFKA
     else if v = ''web_server'' then OUT_CHNL_WEB_SERVER else OUT_CHNL_INVALID)"

definition ConfigMgrLoadOutConfig :: "'c libconfig \<Rightarrow> 'c \<Rightarrow> OutConfig \<Rightarrow> int \<times> OutConfig" where
  "ConfigMgrLoadOutConfig lc st = run_steps
     [need_string lc st ''out_channel'' (\<lambda>v g. g\<lparr>outChnl := out_channel_of v\<rparr>),
      need_string lc st ''kafka_topic'' (\<lambda>v g. g\<lparr>kafka_topic := snprintf_s MAX_KAFKA_TOPIC_LEN v\<rparr>),
      may_int lc st ''timeout'' (\<lambda>v g. g\<lparr>out_timeout := of_int v\<rparr>),
      may_string lc st ''desc_language'' (\<lambda>v g. g\<lparr>lang_type := snprintf_s MAX_LANGUAGE_TYPE_LEN v\<rparr>)]"

text \<open>The table of the sections, each loader working on its part of the configuration; and the loop over it.\<close>

definition on_part :: "('m \<Rightarrow> 'p) \<Rightarrow> (('p \<Rightarrow> 'p) \<Rightarrow> 'm \<Rightarrow> 'm) \<Rightarrow> ('p \<Rightarrow> int \<times> 'p) \<Rightarrow> 'm \<Rightarrow> int \<times> 'm" where
  "on_part get upd f mgr = (case f (get mgr) of (ret, p) \<Rightarrow> (ret, upd (\<lambda>_. p) mgr))"

definition configLoadHandles :: "'c libconfig \<Rightarrow> (string \<times> ('c \<Rightarrow> ConfigMgr \<Rightarrow> int \<times> ConfigMgr)) list" where
  "configLoadHandles lc =
     [(''global'', \<lambda>st. on_part globalConfig globalConfig_update (ConfigMgrLoadGlobalConfig lc st)),
      (''ingress'', \<lambda>st. on_part ingressConfig ingressConfig_update (ConfigMgrLoadIngressConfig lc st)),
      (''egress'', \<lambda>st. on_part egressConfig egressConfig_update (ConfigMgrLoadEgressConfig lc st)),
      (''kafka'', \<lambda>st. on_part kafkaConfig kafkaConfig_update (ConfigMgrLoadKafkaConfig lc st)),
      (''imdb'', \<lambda>st. on_part imdbConfig imdbConfig_update (ConfigMgrLoadIMDBConfig lc st)),
      (''web_server'', \<lambda>st. on_part webServerConfig webServerConfig_update (ConfigMgrLoadWebServerConfig lc st)),
      (''rest_api_server'', \<lambda>st. on_part restServerConfig restServerConfig_update (ConfigMgrLoadRestServerConfig lc st)),
      (''logs'', \<lambda>st. on_part logsConfig logsConfig_update (ConfigMgrLoadLogsConfig lc st)),
      (''metric'', \<lambda>st. on_part metricOutConfig metricOutConfig_update (ConfigMgrLoadOutConfig lc st)),
      (''event'', \<lambda>st. on_part eventOutConfig eventOutConfig_update (ConfigMgrLoadOutConfig lc st)),
      (''meta'', \<lambda>st. on_part metaOutConfig metaOutConfig_update (ConfigMgrLoadOutConfig lc st))]"

fun load_sections :: "'c libconfig \<Rightarrow> 'c \<Rightarrow> (string \<times> ('c \<Rightarrow> ConfigMgr \<Rightarrow> int \<times> ConfigMgr)) list \<Rightarrow> ConfigMgr \<Rightarrow> int \<times> ConfigMgr" where
  "load_sections lc cfg [] mgr = (0, mgr)"
| "load_sections lc cfg ((name, f) # hs) mgr =
     (case config_lookup lc cfg name of None \<Rightarrow> (- 1, mgr)
      | Some settings \<Rightarrow> (case f settings mgr of (ret, mgr) \<Rightarrow> if ret \<noteq> 0 then (- 1, mgr) else load_sections lc cfg hs mgr))"

definition ConfigMgrLoad :: "'c libconfig \<Rightarrow> string \<Rightarrow> ConfigMgr \<Rightarrow> int \<times> ConfigMgr" where
  "ConfigMgrLoad lc confPath mgr =
     (case config_read_file lc confPath of None \<Rightarrow> (- 1, mgr) | Some cfg \<Rightarrow> load_sections lc cfg (configLoadHandles lc) mgr)"


section \<open>When a configuration is accepted\<close>

text \<open>The settings a section must have, texts and integers.\<close>

definition required_settings :: "(string \<times> string list \<times> string list) list" where
  "required_settings =
     [(''global'', [''log_file_name'', ''log_level'', ''pin_path''], []), (''ingress'', [], [''interval'']), (''egress'', [], [''interval'', ''time_range'']),
      (''kafka'', [''kafka_broker'', ''compression_codec'', ''username'', ''password''],
         [''batch_num_messages'', ''queue_buffering_max_messages'', ''queue_buffering_max_kbytes'', ''queue_buffering_max_ms'']),
      (''imdb'', [], [''max_tables_num'', ''max_records_num'', ''max_metrics_num'']), (''web_server'', [], [''port'']),
      (''rest_api_server'', [''ssl_auth'', ''private_key'', ''cert_file'', ''ca_file''], [''port'']),
      (''logs'', [''metric_dir'', ''event_dir'', ''meta_dir'', ''debug_dir''], []),
      (''metric'', [''out_channel'', ''kafka_topic''], []), (''event'', [''out_channel'', ''kafka_topic''], []), (''meta'', [''out_channel'', ''kafka_topic''], [])]"

definition present :: "'c libconfig \<Rightarrow> string list \<Rightarrow> string list \<Rightarrow> 'c \<Rightarrow> bool" where
  "present lc strs ints st \<longleftrightarrow> list_all (\<lambda>n. config_setting_lookup_string lc st n \<noteq> None) strs \<and> list_all (\<lambda>n. config_setting_lookup_int lc st n \<noteq> None) ints"

definition complete_config :: "'c libconfig \<Rightarrow> 'c \<Rightarrow> bool" where
  "complete_config lc cfg \<longleftrightarrow> list_all (\<lambda>(sec, strs, ints). \<exists>st. config_lookup lc cfg sec = Some st \<and> present lc strs ints st) required_settings"

text \<open>The texts are shorter than their arrays.\<close>

definition global_bounded :: "GlobalConfig \<Rightarrow> bool" where
  "global_bounded g \<longleftrightarrow> length (logFileName g) < 256 \<and> length (logLevel g) < 256 \<and> length (bpfPinPath g) < 128"

definition kafka_bounded :: "KafkaConfig \<Rightarrow> bool" where
  "kafka_bounded k \<longleftrightarrow> length (k_broker k) < 32 \<and> length (k_compressionCodec k) < 32 \<and> length (k_username k) < 64 \<and> length (k_password k) < 64"

definition rest_bounded :: "RestServerConfig \<Rightarrow> bool" where
  "rest_bounded r \<longleftrightarrow> length (rs_privateKey r) < 256 \<and> length (rs_certFile r) < 256 \<and> length (rs_caFile r) < 256"

definition logs_bounded :: "LogsConfig \<Rightarrow> bool" where
  "logs_bounded l \<longleftrightarrow> length (metricDir l) < 256 \<and> length (eventDir l) < 256 \<and> length (metaDir l) < 256 \<and> length (debugDir l) < 256"

definition out_bounded :: "OutConfig \<Rightarrow> bool" where
  "out_bounded g \<longleftrightarrow> length (kafka_topic g) < 32 \<and> length (lang_type g) < 32"

lemmas part_bounded_defs = global_bounded_def kafka_bounded_def rest_bounded_def logs_bounded_def out_bounded_def

definition config_bounded :: "ConfigMgr \<Rightarrow> bool" where
  "config_bounded mgr \<longleftrightarrow> global_bounded (globalConfig mgr) \<and> kafka_bounded (kafkaConfig mgr) \<and> rest_bounded (restServerConfig mgr) \<and> logs_bounded (logsConfig mgr)
     \<and> out_bounded (metricOutConfig mgr) \<and> out_bounded (eventOutConfig mgr) \<and> out_bounded (metaOutConfig mgr)"

named_theorems loader_defs

declare ConfigMgrLoadGlobalConfig_def [loader_defs] ConfigMgrLoadIngressConfig_def [loader_defs] ConfigMgrLoadEgressConfig_def [loader_defs]
  ConfigMgrLoadKafkaConfig_def [loader_defs] ConfigMgrLoadIMDBConfig_def [loader_defs] ConfigMgrLoadWebServerConfig_def [loader_defs]
  ConfigMgrLoadRestServerConfig_def [loader_defs] ConfigMgrLoadLogsConfig_def [loader_defs] ConfigMgrLoadOutConfig_def [loader_defs]

text \<open>The result of a step does not depend on what is stored.\<close>

lemma fst_steps [simp]:
  "fst (need_string lc st n f a) = (if config_setting_lookup_string lc st n = None then - 1 else 0)"
  "fst (need_int lc st n h a) = (if config_setting_lookup_int lc st n = None then - 1 else 0)"
  "fst (may_string lc st n f a) = 0" "fst (may_int lc st n h a) = 0"
  by (auto simp: need_string_def need_int_def may_string_def may_int_def split: option.splits)

lemma fst_run_steps:
  "fst (run_steps (f # fs) a) = (if fst (f a) \<noteq> 0 then - 1 else fst (run_steps fs (snd (f a))))" "fst (run_steps [] a) = 0"
  by (simp_all split: prod.split)

lemma loader_status:
  "fst (ConfigMgrLoadGlobalConfig lc st a1) = (if present lc [''log_file_name'', ''log_level'', ''pin_path''] [] st then 0 else - 1)"
  "fst (ConfigMgrLoadIngressConfig lc st a2) = (if present lc [] [''interval''] st then 0 else - 1)"
  "fst (ConfigMgrLoadEgressConfig lc st a3) = (if present lc [] [''interval'', ''time_range''] st then 0 else - 1)"
  "fst (ConfigMgrLoadKafkaConfig lc st a4) = (if present lc [''kafka_broker'', ''compression_codec'', ''username'', ''password'']
     [''batch_num_messages'', ''queue_buffering_max_messages'', ''queue_buffering_max_kbytes'', ''queue_buffering_max_ms''] st then 0 else - 1)"
  "fst (ConfigMgrLoadIMDBConfig lc st a5) = (if present lc [] [''max_tables_num'', ''max_records_num'', ''max_metrics_num''] st then 0 else - 1)"
  "fst (ConfigMgrLoadWebServerConfig lc st a6) = (if present lc [] [''port''] st then 0 else - 1)"
  "fst (ConfigMgrLoadRestServerConfig lc st a7) = (if present lc [''ssl_auth'', ''private_key'', ''cert_file'', ''ca_file''] [''port''] st then 0 else - 1)"
  "fst (ConfigMgrLoadLogsConfig lc st a8) = (if present lc [''metric_dir'', ''event_dir'', ''meta_dir'', ''debug_dir''] [] st then 0 else - 1)"
  "fst (ConfigMgrLoadOutConfig lc st a9) = (if present lc [''out_channel'', ''kafka_topic''] [] st then 0 else - 1)"
  unfolding loader_defs fst_run_steps by (simp_all add: present_def)

lemma fst_on_part [simp]: "fst (on_part get upd f mgr) = fst (f (get mgr))"
  by (simp add: on_part_def split: prod.split)

lemma load_sections_status:
  assumes "list_all2 (\<lambda>(n, f) (sec, strs, ints). n = sec \<and> (\<forall>st mgr. fst (f st mgr) = (if present lc strs ints st then 0 else - 1))) hs reqs"
  shows "fst (load_sections lc cfg hs mgr) =
    (if list_all (\<lambda>(sec, strs, ints). \<exists>st. config_lookup lc cfg sec = Some st \<and> present lc strs ints st) reqs then 0 else - 1)"
  using assms
proof (induction hs reqs arbitrary: mgr rule: list_all2_induct)
  case (Cons h hs q reqs)
  obtain n f where h: "h = (n, f)" by (cases h)
  obtain strs ints where q: "q = (n, strs, ints)" using Cons.hyps(1) by (cases q) (auto simp: h)
  have f: "fst (f st m) = (if present lc strs ints st then 0 else - 1)" for st m using Cons.hyps(1) by (auto simp: h q)
  show ?case
  proof (cases "config_lookup lc cfg n")
    case (Some st)
    then show ?thesis using f [of st mgr] Cons.IH [of "snd (f st mgr)"] by (cases "f st mgr") (auto simp: h q)
  qed (simp add: h q)
qed simp

lemma config_handles_status:
  "list_all2 (\<lambda>(n, f) (sec, strs, ints). n = sec \<and> (\<forall>st mgr. fst (f st mgr) = (if present lc strs ints st then 0 else - 1))) (configLoadHandles lc) required_settings"
  unfolding configLoadHandles_def required_settings_def by (simp add: loader_status del: if_split_asm)

lemma run_steps_keep: "list_all (\<lambda>f. \<forall>a. P a \<longrightarrow> P (snd (f a))) fs \<Longrightarrow> P a \<Longrightarrow> P (snd (run_steps fs a))"
proof (induction fs arbitrary: a)
  case (Cons f fs)
  then have "P (snd (f a))" by simp
  then show ?case using Cons.IH [of "snd (f a)"] Cons.prems(1) by (cases "f a") simp
qed simp

lemma load_sections_keep: "list_all (\<lambda>(n, f). \<forall>st a. P a \<longrightarrow> P (snd (f st a))) hs \<Longrightarrow> P a \<Longrightarrow> P (snd (load_sections lc cfg hs a))"
proof (induction hs arbitrary: a)
  case (Cons h hs)
  obtain n f where h: "h = (n, f)" by (cases h)
  show ?case
  proof (cases "config_lookup lc cfg n")
    case (Some st)
    have "P (snd (f st a))" using Cons.prems by (simp add: h)
    then show ?thesis using Cons.IH [of "snd (f st a)"] Cons.prems(1) Some by (cases "f st a") (simp add: h)
  qed (use Cons.prems in \<open>simp add: h\<close>)
qed simp

lemma snd_steps:
  "snd (need_string lc st n f a) = (case config_setting_lookup_string lc st n of None \<Rightarrow> a | Some v \<Rightarrow> f v a)"
  "snd (need_int lc st n h a) = (case config_setting_lookup_int lc st n of None \<Rightarrow> a | Some v \<Rightarrow> h v a)"
  "snd (may_string lc st n f a) = (case config_setting_lookup_string lc st n of None \<Rightarrow> a | Some v \<Rightarrow> f v a)"
  "snd (may_int lc st n h a) = (case config_setting_lookup_int lc st n of None \<Rightarrow> a | Some v \<Rightarrow> h v a)"
  by (simp_all add: need_string_def need_int_def may_string_def may_int_def split: option.split)

lemma snprintf_short: "0 < n \<Longrightarrow> n \<le> m \<Longrightarrow> length (snprintf_s n s) < m"
  using length_snprintf_s [of n s] by simp

lemma loaders_bounded:
  "global_bounded g \<Longrightarrow> global_bounded (snd (ConfigMgrLoadGlobalConfig lc st g))"
  "kafka_bounded k \<Longrightarrow> kafka_bounded (snd (ConfigMgrLoadKafkaConfig lc st k))"
  "rest_bounded r \<Longrightarrow> rest_bounded (snd (ConfigMgrLoadRestServerConfig lc st r))"
  "logs_bounded l \<Longrightarrow> logs_bounded (snd (ConfigMgrLoadLogsConfig lc st l))"
  "out_bounded w \<Longrightarrow> out_bounded (snd (ConfigMgrLoadOutConfig lc st w))"
  unfolding loader_defs
  by (erule run_steps_keep [rotated]; simp add: part_bounded_defs conf_len_defs snprintf_short snd_steps split: option.split)+

lemma snd_on_part: "snd (on_part get upd f mgr) = upd (\<lambda>_. snd (f (get mgr))) mgr"
  by (simp add: on_part_def split: prod.split)

lemma config_create_bounded: "ConfigMgrCreate alloc = Some mgr \<Longrightarrow> config_bounded mgr"
proof -
  assume "ConfigMgrCreate alloc = Some mgr"
  then have "mgr = zero_config" by (simp add: ConfigMgrCreate_def split: if_splits)
  then show ?thesis by (simp add: zero_config_def zero_out_def config_bounded_def part_bounded_defs)
qed

lemma config_load_bounded: "config_bounded mgr \<Longrightarrow> config_bounded (snd (ConfigMgrLoad lc path mgr))"
proof -
  assume z: "config_bounded mgr"
  have "list_all (\<lambda>(n, f). \<forall>st a. config_bounded a \<longrightarrow> config_bounded (snd (f st a))) (configLoadHandles lc)"
    by (simp add: configLoadHandles_def snd_on_part config_bounded_def loaders_bounded)
  then show ?thesis using z by (auto simp: ConfigMgrLoad_def intro: load_sections_keep split: option.split)
qed

text \<open>C27. Loading the configuration (\<open>ConfigMgrLoad\<close> into what \<open>ConfigMgrCreate\<close> made): it succeeds exactly when the file can be read and every one of the eleven
  sections is there with all its required settings, of the right type, and returns -1 otherwise. Also when it fails half-way, every text of the configuration is
  terminated within its array. (What the code requires is more than the example of \<open>conf_introduction.md\<close> has: that one lacks the section \<open>rest_api_server\<close> and two settings of
  \<open>kafka\<close> and is refused.)\<close>

theorem config_load:
  assumes "ConfigMgrCreate alloc = Some mgr"
  shows "fst (ConfigMgrLoad lc path mgr) = (if \<exists>cfg. config_read_file lc path = Some cfg \<and> complete_config lc cfg then 0 else - 1)
    \<and> config_bounded (snd (ConfigMgrLoad lc path mgr))"
proof
  show "fst (ConfigMgrLoad lc path mgr) = (if \<exists>cfg. config_read_file lc path = Some cfg \<and> complete_config lc cfg then 0 else - 1)"
    by (simp add: ConfigMgrLoad_def complete_config_def load_sections_status [OF config_handles_status] split: option.split)
  show "config_bounded (snd (ConfigMgrLoad lc path mgr))" by (rule config_load_bounded [OF config_create_bounded [OF assms]])
qed

text \<open>A complete configuration, and what becomes of it: the broker is cut to 31 characters and the port of the web server to 16 bits.\<close>

definition demo_out_section :: "string \<Rightarrow> conf_tree" where
  "demo_out_section chnl = CGroup [(''out_channel'', CText chnl), (''kafka_topic'', CText ''gala'')]"

definition demo_config_file :: conf_tree where
  "demo_config_file = CGroup
     [(''global'', CGroup [(''log_file_name'', CText ''gopher.log''), (''log_level'', CText ''info''), (''pin_path'', CText ''/sys/fs/bpf/gala-gopher'')]),
      (''ingress'', CGroup [(''interval'', CInt 5)]), (''egress'', CGroup [(''interval'', CInt 5), (''time_range'', CInt 5)]),
      (''kafka'', CGroup [(''kafka_broker'', CText ''192.168.100.100:9092,192.168.100.101:9092''), (''batch_num_messages'', CInt 10000), (''compression_codec'', CText ''none''),
        (''queue_buffering_max_messages'', CInt 100000), (''queue_buffering_max_kbytes'', CInt 2147483647), (''queue_buffering_max_ms'', CInt 5),
        (''username'', CText []), (''password'', CText [])]),
      (''imdb'', CGroup [(''max_tables_num'', CInt 1024), (''max_records_num'', CInt 1024), (''max_metrics_num'', CInt 1024)]),
      (''web_server'', CGroup [(''port'', CInt 74424)]),
      (''rest_api_server'', CGroup [(''port'', CInt 9999), (''ssl_auth'', CText ''off''), (''private_key'', CText []), (''cert_file'', CText []), (''ca_file'', CText [])]),
      (''logs'', CGroup [(''metric_dir'', CText ''/var/log/metrics''), (''event_dir'', CText ''/var/log/event''), (''meta_dir'', CText ''/var/log/meta''), (''debug_dir'', CText [])]),
      (''metric'', demo_out_section ''web_server''), (''event'', demo_out_section ''kafka''), (''meta'', demo_out_section ''nothing'')]"

lemma demo_config_complete: "complete_config (tree_config fs) demo_config_file"
  by (simp add: complete_config_def required_settings_def demo_config_file_def demo_out_section_def tree_config_def present_def conf_text_def conf_int_def)

definition demo_conf :: ConfigMgr where
  "demo_conf = \<lparr>globalConfig = \<lparr>logFileName = ''gopher.log'', logLevel = ''info'', bpfPinPath = ''/sys/fs/bpf/gala-gopher''\<rparr>, ingressConfig = \<lparr>in_interval = 5\<rparr>,
     egressConfig = \<lparr>eg_interval = 5, eg_timeRange = 5\<rparr>,
     kafkaConfig = \<lparr>k_broker = ''192.168.100.100:9092,192.168.10'', k_batchNumMessages = 10000, k_compressionCodec = ''none'', k_queueBufferingMaxMessages = 100000,
       k_queueBufferingMaxKbytes = 2147483647, k_queueBufferingMaxMs = 5, k_username = [], k_password = []\<rparr>,
     imdbConfig = \<lparr>maxTablesNum = 1024, maxRecordsNum = 1024, maxMetricsNum = 1024, recordTimeout = 0\<rparr>, webServerConfig = \<lparr>ws_port = 8888\<rparr>,
     restServerConfig = \<lparr>rs_port = 9999, rs_sslAuth = False, rs_privateKey = [], rs_certFile = [], rs_caFile = []\<rparr>,
     logsConfig = \<lparr>metricDir = ''/var/log/metrics'', eventDir = ''/var/log/event'', metaDir = ''/var/log/meta'', debugDir = []\<rparr>,
     metricOutConfig = \<lparr>outChnl = OUT_CHNL_WEB_SERVER, kafka_topic = ''gala'', out_timeout = 0, lang_type = []\<rparr>,
     eventOutConfig = \<lparr>outChnl = OUT_CHNL_KAFKA, kafka_topic = ''gala'', out_timeout = 0, lang_type = []\<rparr>,
     metaOutConfig = \<lparr>outChnl = OUT_CHNL_INVALID, kafka_topic = ''gala'', out_timeout = 0, lang_type = []\<rparr>\<rparr>"

lemma demo_conf_loaded: "fs path = Some demo_config_file \<Longrightarrow> ConfigMgrLoad (tree_config fs) path zero_config = (0, demo_conf)"
  by (simp add: ConfigMgrLoad_def configLoadHandles_def on_part_def loader_defs need_string_def need_int_def may_string_def may_int_def tree_config_def
      demo_config_file_def demo_out_section_def conf_text_def conf_int_def snprintf_s_def conf_len_defs zero_config_def zero_out_def out_channel_of_def demo_conf_def)

theorem config_load_witness:
  "ConfigMgrCreate (\<lambda>_. True) = Some zero_config \<and> fst (ConfigMgrLoad (tree_config [''gopher.conf'' \<mapsto> demo_config_file]) ''gopher.conf'' zero_config) = 0
   \<and> fst (ConfigMgrLoad (tree_config [''gopher.conf'' \<mapsto> demo_config_file]) ''other.conf'' zero_config) = - 1 \<and> config_bounded demo_conf"
proof -
  let ?lc = "tree_config [''gopher.conf'' \<mapsto> demo_config_file]"
  have c: "ConfigMgrCreate (\<lambda>_. True) = Some zero_config" by (simp add: ConfigMgrCreate_def list_all_iff)
  have "config_read_file ?lc ''gopher.conf'' = Some demo_config_file" "config_read_file ?lc ''other.conf'' = None" by (simp_all add: tree_config_def)
  then have "fst (ConfigMgrLoad ?lc ''gopher.conf'' zero_config) = 0" "fst (ConfigMgrLoad ?lc ''other.conf'' zero_config) = - 1"
    using config_load [OF c, of ?lc] demo_config_complete by simp_all
  moreover have "config_bounded demo_conf" using config_load [OF c, of ?lc "''gopher.conf''"] demo_conf_loaded [of "[''gopher.conf'' \<mapsto> demo_config_file]" "''gopher.conf''"] by simp
  ultimately show ?thesis using c by simp
qed

end
