(* ===== verification/Meta.thy ===== *)
theory Meta
  imports Imdb_Export Config
begin

text \<open>
  The measurements of the metadata files, \<open>lib/meta/meta.c\<close>: loading them, the report of the metadata, and the tables of the database
  that \<open>resource/resource.c\<close> builds from them. Loading keeps names distinct and every array within its bounds; the tables are those of the measurements.
\<close>

section \<open>Measurements\<close>

definition MAX_FIELD_DESCRIPTION_LEN :: nat where "MAX_FIELD_DESCRIPTION_LEN = 256"
definition MAX_FIELD_TYPE_LEN :: nat where "MAX_FIELD_TYPE_LEN = 64"
definition MAX_FIELD_NAME_LEN :: nat where "MAX_FIELD_NAME_LEN = 64"
definition MAX_MEASUREMENT_NAME_LEN :: nat where "MAX_MEASUREMENT_NAME_LEN = 64"
definition MAX_FIELDS_NUM :: u32 where "MAX_FIELDS_NUM = 128"
definition MAX_META_VERSION_LEN :: nat where "MAX_META_VERSION_LEN = 16"
definition MAX_META_PATH_LEN :: nat where "MAX_META_PATH_LEN = 2048"

record Field =
  f_description :: string
  f_type :: string
  f_name :: string

text \<open>The numbers of fields and of measurements are the lengths of the lists.\<close>

record Measurement =
  m_entity :: string
  m_name :: string
  m_version :: string
  m_fields :: "Field list"

record MeasurementMgr =
  measurementsCapability :: u32
  fields_num_max :: u32
  measurements :: "Measurement list"
  meta_kafkaMgr :: bool
  meta_out_channel :: OutChannelType

definition MeasurementMgrCreate :: "bool \<Rightarrow> u32 \<Rightarrow> u32 \<Rightarrow> MeasurementMgr option" where
  "MeasurementMgrCreate alloc capability fields_max =
     (if \<not> alloc then None
      else Some \<lparr>measurementsCapability = capability, fields_num_max = (if fields_max < MAX_FIELDS_NUM then fields_max else MAX_FIELDS_NUM),
        measurements = [], meta_kafkaMgr = False, meta_out_channel = OUT_CHNL_LOGS\<rparr>)"

definition MeasurementMgrGet :: "MeasurementMgr \<Rightarrow> string \<Rightarrow> Measurement option" where
  "MeasurementMgrGet mgr name = find (\<lambda>m. m_name m = name) (measurements mgr)"

definition MeasurementMgrAdd :: "MeasurementMgr \<Rightarrow> Measurement \<Rightarrow> int \<times> MeasurementMgr" where
  "MeasurementMgrAdd mgr mm =
     (if MeasurementMgrGet mgr (m_name mm) \<noteq> None then (- 1, mgr)
      else if of_nat (length (measurements mgr)) = measurementsCapability mgr then (- 1, mgr)
      else (0, mgr\<lparr>measurements := measurements mgr @ [mm]\<rparr>))"

text \<open>A field is filled up to the first setting that is missing.\<close>

definition FieldLoad :: "'c libconfig \<Rightarrow> 'c \<Rightarrow> int \<times> Field" where
  "FieldLoad lc c =
     (let f = \<lparr>f_description = [], f_type = [], f_name = []\<rparr> in
      case config_setting_lookup_string lc c ''description'' of None \<Rightarrow> (- 1, f)
      | Some d \<Rightarrow> let f = f\<lparr>f_description := take (MAX_FIELD_DESCRIPTION_LEN - 1) d\<rparr> in
        (case config_setting_lookup_string lc c ''type'' of None \<Rightarrow> (- 1, f)
         | Some t \<Rightarrow> let f = f\<lparr>f_type := take (MAX_FIELD_TYPE_LEN - 1) t\<rparr> in
           (case config_setting_lookup_string lc c ''name'' of None \<Rightarrow> (- 1, f)
            | Some n \<Rightarrow> (0, f\<lparr>f_name := take (MAX_FIELD_NAME_LEN - 1) n\<rparr>))))"

text \<open>A field that cannot be loaded is counted as well.\<close>

definition MeasurementLoad :: "'c libconfig \<Rightarrow> MeasurementMgr \<Rightarrow> Measurement \<Rightarrow> 'c \<Rightarrow> Measurement option outc" where
  "MeasurementLoad lc mgr mm c =
     (case config_setting_lookup_string lc c ''table_name'' of None \<Rightarrow> Ok None
      | Some name \<Rightarrow>
        (case config_setting_lookup_string lc c ''entity_name'' of None \<Rightarrow> Ok None
         | Some entity \<Rightarrow>
             let fields = config_setting_lookup lc c ''fields'' in
             bnd (config_setting_length lc fields) (\<lambda>n.
               if n > unat (fields_num_max mgr) then Ok None
               else Ok (Some (mm\<lparr>m_name := snprintf_s MAX_MEASUREMENT_NAME_LEN name, m_entity := snprintf_s MAX_MEASUREMENT_NAME_LEN entity,
                      m_fields := map (\<lambda>i. snd (FieldLoad lc (config_setting_get_elem lc fields i))) [0..<n]\<rparr>)))))"

text \<open>The measurements of a file are added one by one; an error leaves those before it. \<open>alloc i\<close>: memory for measurement \<open>i\<close>.\<close>

fun load_measurements :: "'c libconfig \<Rightarrow> (nat \<Rightarrow> bool) \<Rightarrow> string \<Rightarrow> 'c \<Rightarrow> nat list \<Rightarrow> MeasurementMgr \<Rightarrow> (int \<times> MeasurementMgr) outc" where
  "load_measurements lc alloc version ms [] mgr = Ok (0, mgr)"
| "load_measurements lc alloc version ms (i # is) mgr =
     (if \<not> alloc i then Ok (- 1, mgr)
      else bnd (MeasurementLoad lc mgr \<lparr>m_entity = [], m_name = [], m_version = take (MAX_META_VERSION_LEN - 1) version, m_fields = []\<rparr>
                  (config_setting_get_elem lc (Some ms) i))
        (\<lambda>r. case r of None \<Rightarrow> Ok (- 1, mgr)
         | Some mm \<Rightarrow> (case MeasurementMgrAdd mgr mm of (ret, mgr) \<Rightarrow>
             if ret \<noteq> 0 then Ok (- 1, mgr) else load_measurements lc alloc version ms is mgr)))"

definition MeasurementMgrLoadSingleMeta :: "'c libconfig \<Rightarrow> (nat \<Rightarrow> bool) \<Rightarrow> MeasurementMgr \<Rightarrow> string \<Rightarrow> (int \<times> MeasurementMgr) outc" where
  "MeasurementMgrLoadSingleMeta lc alloc mgr path =
     (case config_read_file lc path of None \<Rightarrow> Ok (- 1, mgr)
      | Some cfg \<Rightarrow>
        (case config_lookup_string lc cfg ''version'' of None \<Rightarrow> Ok (- 1, mgr)
         | Some version \<Rightarrow>
           (case config_lookup lc cfg ''measurements'' of None \<Rightarrow> Ok (- 1, mgr)
            | Some ms \<Rightarrow> bnd (config_setting_length lc (Some ms)) (\<lambda>n. load_measurements lc alloc version ms [0..<n] mgr))))"

text \<open>The files of the directory in the order of \<open>readdir\<close>, none when it cannot be opened; hidden ones are skipped.\<close>

fun load_files :: "'c libconfig \<Rightarrow> (nat \<Rightarrow> bool) \<Rightarrow> string \<Rightarrow> string list \<Rightarrow> MeasurementMgr \<Rightarrow> (int \<times> MeasurementMgr) outc" where
  "load_files lc alloc dir [] mgr = Ok (0, mgr)"
| "load_files lc alloc dir (f # fs) mgr =
     (if take 1 f = ''.'' then load_files lc alloc dir fs mgr
      else bnd (MeasurementMgrLoadSingleMeta lc alloc mgr (snprintf_s (MAX_META_PATH_LEN - 1) (dir @ ''/'' @ f)))
        (\<lambda>(ret, mgr). if ret \<noteq> 0 then Ok (- 1, mgr) else load_files lc alloc dir fs mgr))"

definition MeasurementMgrLoad :: "'c libconfig \<Rightarrow> (nat \<Rightarrow> bool) \<Rightarrow> MeasurementMgr \<Rightarrow> string \<Rightarrow> string list option \<Rightarrow> (int \<times> MeasurementMgr) outc" where
  "MeasurementMgrLoad lc alloc mgr dir files = (case files of None \<Rightarrow> Ok (- 1, mgr) | Some fs \<Rightarrow> load_files lc alloc dir fs mgr)"

section \<open>The report of the metadata\<close>

text \<open>Each builder prints behind the text so far, and fails when there is no room.\<close>

definition quoted :: "string \<Rightarrow> string" where
  "quoted s = CHR 0x22 # s @ [CHR 0x22]"

definition metadata_build_timestamp :: "int \<Rightarrow> string \<times> int \<Rightarrow> (string \<times> int) option" where
  "metadata_build_timestamp now b = snprintf_app b (''{'' @ quoted ''timestamp'' @ '': '' @ show_lld (now * THOUSAND))"

definition metadata_build_metaname :: "Measurement \<Rightarrow> string \<times> int \<Rightarrow> (string \<times> int) option" where
  "metadata_build_metaname mm b = snprintf_app b ('', '' @ quoted ''meta_name'' @ '': '' @ quoted (m_name mm))"

definition metadata_build_entityname :: "Measurement \<Rightarrow> string \<times> int \<Rightarrow> (string \<times> int) option" where
  "metadata_build_entityname mm b = snprintf_app b ('', '' @ quoted ''entity_name'' @ '': '' @ quoted (m_entity mm))"

definition metadata_build_vrsion :: "Measurement \<Rightarrow> string \<times> int \<Rightarrow> (string \<times> int) option" where
  "metadata_build_vrsion mm b = snprintf_app b ('', '' @ quoted ''version'' @ '': '' @ quoted (m_version mm))"

fun app_names :: "string \<Rightarrow> Field list \<Rightarrow> string \<times> int \<Rightarrow> (string \<times> int) option" where
  "app_names ty [] b = Some b"
| "app_names ty (f # fs) b =
     (if f_type f = ty then Option.bind (snprintf_app b ('', '' @ quoted (f_name f))) (app_names ty fs) else app_names ty fs b)"

definition metadata_build_keys :: "Measurement \<Rightarrow> string \<times> int \<Rightarrow> (string \<times> int) option" where
  "metadata_build_keys mm b =
     Option.bind (snprintf_app b ('', '' @ quoted ''keys'' @ '': ['' @ quoted ''machine_id'')) (\<lambda>b.
     Option.bind (app_names ''key'' (m_fields mm) b) (\<lambda>b. snprintf_app b '']''))"

definition metadata_build_labels :: "Measurement \<Rightarrow> string \<times> int \<Rightarrow> (string \<times> int) option" where
  "metadata_build_labels mm b =
     Option.bind (snprintf_app b ('', '' @ quoted ''labels'' @ '': ['' @ quoted ''hostname'')) (\<lambda>b.
     Option.bind (app_names ''label'' (m_fields mm) b) (\<lambda>b. snprintf_app b '']''))"

definition is_filed_type_metric :: "string \<Rightarrow> bool" where
  "is_filed_type_metric ty \<longleftrightarrow> ty \<in> {''counter'', ''gauge''}"

fun app_metrics :: "bool \<Rightarrow> Field list \<Rightarrow> string \<times> int \<Rightarrow> (string \<times> int) option" where
  "app_metrics first_metric [] b = Some b"
| "app_metrics first_metric (f # fs) b =
     (if \<not> is_filed_type_metric (f_type f) then app_metrics first_metric fs b
      else Option.bind (snprintf_app b ((if first_metric then [] else '', '') @ quoted (f_name f))) (app_metrics False fs))"

definition metadata_build_metrics :: "Measurement \<Rightarrow> string \<times> int \<Rightarrow> (string \<times> int) option" where
  "metadata_build_metrics mm b =
     Option.bind (snprintf_app b ('', '' @ quoted ''metrics'' @ '': ['')) (\<lambda>b.
     Option.bind (app_metrics True (m_fields mm) b) (\<lambda>b. snprintf_app b '']}''))"

definition metadata_to_json :: "int \<Rightarrow> Measurement \<Rightarrow> nat \<Rightarrow> string option" where
  "metadata_to_json now mm max_json_len =
     map_option fst
       (Option.bind (metadata_build_timestamp now ([], int max_json_len)) (\<lambda>b.
        Option.bind (metadata_build_metaname mm b) (\<lambda>b.
        Option.bind (metadata_build_entityname mm b) (\<lambda>b.
        Option.bind (metadata_build_vrsion mm b) (\<lambda>b.
        Option.bind (metadata_build_keys mm b) (\<lambda>b.
        Option.bind (metadata_build_labels mm b) (metadata_build_metrics mm)))))))"

text \<open>What is produced to Kafka, and what is written to the log.\<close>

record meta_out =
  mo_kafka :: "string list"
  mo_logs :: "string list"

definition report_one_metadata :: "bool \<Rightarrow> int \<Rightarrow> nat \<Rightarrow> MeasurementMgr \<Rightarrow> Measurement \<Rightarrow> meta_out \<Rightarrow> int \<times> meta_out" where
  "report_one_metadata alloc now size_max mgr mm out =
     (if \<not> alloc then (- 1, out)
      else case metadata_to_json now mm size_max of None \<Rightarrow> (- 1, out)
      | Some js \<Rightarrow>
          if meta_out_channel mgr = OUT_CHNL_KAFKA then (if meta_kafkaMgr mgr then (0, out\<lparr>mo_kafka := mo_kafka out @ [js]\<rparr>) else (- 1, out))
          else if meta_out_channel mgr = OUT_CHNL_LOGS then (0, out\<lparr>mo_logs := mo_logs out @ [js]\<rparr>)
          else (0, out))"

fun report_all :: "bool \<Rightarrow> int \<Rightarrow> nat \<Rightarrow> MeasurementMgr \<Rightarrow> Measurement list \<Rightarrow> meta_out \<Rightarrow> int \<times> meta_out" where
  "report_all alloc now size_max mgr [] out = (0, out)"
| "report_all alloc now size_max mgr (mm # mms) out =
     (case report_one_metadata alloc now size_max mgr mm out of (ret, out) \<Rightarrow> if ret \<noteq> 0 then (- 1, out) else report_all alloc now size_max mgr mms out)"

definition ReportMeteData :: "bool \<Rightarrow> int \<Rightarrow> nat \<Rightarrow> MeasurementMgr \<Rightarrow> meta_out \<Rightarrow> int \<times> meta_out" where
  "ReportMeteData alloc now size_max mgr out = report_all alloc now size_max mgr (measurements mgr) out"

text \<open>The thread reports every ten minutes until a report fails: \<open>nows\<close> are the times of its rounds, and the result is \<open>None\<close> while it runs.\<close>

fun report_rounds :: "bool \<Rightarrow> nat \<Rightarrow> MeasurementMgr \<Rightarrow> int list \<Rightarrow> meta_out \<Rightarrow> int option \<times> meta_out" where
  "report_rounds alloc size_max mgr [] out = (None, out)"
| "report_rounds alloc size_max mgr (now # nows) out =
     (case ReportMeteData alloc now size_max mgr out of (ret, out) \<Rightarrow> if ret < 0 then (Some (- 1), out) else report_rounds alloc size_max mgr nows out)"

definition ReportMetaDataMain :: "bool \<Rightarrow> nat \<Rightarrow> MeasurementMgr \<Rightarrow> int list \<Rightarrow> meta_out \<Rightarrow> int option \<times> meta_out" where
  "ReportMetaDataMain alloc size_max mgr nows out =
     (if meta_out_channel mgr \<notin> {OUT_CHNL_LOGS, OUT_CHNL_KAFKA} then (Some (- 1), out)
      else if meta_out_channel mgr = OUT_CHNL_KAFKA \<and> \<not> meta_kafkaMgr mgr then (Some (- 1), out)
      else report_rounds alloc size_max mgr nows out)"

section \<open>The tables of the database\<close>

fun load_metrics :: "(asite \<Rightarrow> bool) \<Rightarrow> nat \<Rightarrow> Field list \<Rightarrow> IMDB_Record \<Rightarrow> u32 \<Rightarrow> (IMDB_Record \<times> u32) option outc" where
  "load_metrics malloc_ok i [] mt keyNum = Ok (Some (mt, keyNum))"
| "load_metrics malloc_ok i (f # fs) mt keyNum =
     bnd (IMDB_MetricCreate (malloc_ok (AMetric i)) (f_name f) (f_description f) (f_type f)) (\<lambda>m. case m of None \<Rightarrow> Ok None
       | Some metric \<Rightarrow> (case IMDB_RecordAddMetric mt metric of (mt, ret) \<Rightarrow>
           if ret \<noteq> 0 then Ok None
           else load_metrics malloc_ok (i + 1) fs mt (if f_type f = METRIC_TYPE_KEY then keyNum + 1 else keyNum)))"

definition IMDBMgrTableLoad :: "(asite \<Rightarrow> bool) \<Rightarrow> 'h IMDB_Table \<Rightarrow> Measurement \<Rightarrow> 'h IMDB_Table option outc" where
  "IMDBMgrTableLoad malloc_ok t mm =
     (case IMDB_RecordCreate malloc_ok (of_nat (length (m_fields mm))) of None \<Rightarrow> Ok None
      | Some mt \<Rightarrow> bnd (load_metrics malloc_ok 0 (m_fields mm) mt 0) (\<lambda>r. case r of None \<Rightarrow> Ok None
          | Some (mt, keyNum) \<Rightarrow>
              Ok (Some (IMDB_TableSetEntityName (IMDB_TableSetRecordKeySize (IMDB_TableSetMeta t (Some mt)) keyNum) (m_entity mm)))))"

fun IMDBMgrDatabaseLoad :: "'h rec_ops \<Rightarrow> (asite \<Rightarrow> bool) \<Rightarrow> u32 \<Rightarrow> Measurement list \<Rightarrow> ('h, 'g) IMDB_DataBaseMgr \<Rightarrow> (int \<times> ('h, 'g) IMDB_DataBaseMgr) outc" where
  "IMDBMgrDatabaseLoad ops malloc_ok cap [] mgr = Ok (0, mgr)"
| "IMDBMgrDatabaseLoad ops malloc_ok cap (mm # mms) mgr =
     (case IMDB_TableCreate ops malloc_ok (m_name mm) cap of None \<Rightarrow> Ok (- 1, mgr)
      | Some t \<Rightarrow> bnd (IMDBMgrTableLoad malloc_ok t mm) (\<lambda>r. case r of None \<Rightarrow> Ok (- 1, mgr)
          | Some t \<Rightarrow> (case IMDB_DataBaseMgrAddTable mgr t of (mgr, ret) \<Rightarrow>
              if ret \<noteq> 0 then Ok (- 1, mgr) else IMDBMgrDatabaseLoad ops malloc_ok cap mms mgr)))"


section \<open>The measurements that are held\<close>

definition measurements_ok :: "MeasurementMgr \<Rightarrow> bool" where
  "measurements_ok mgr \<longleftrightarrow> distinct (map m_name (measurements mgr)) \<and> length (measurements mgr) \<le> unat (measurementsCapability mgr)
     \<and> list_all (\<lambda>mm. length (m_fields mm) \<le> unat (fields_num_max mgr) \<and> length (m_name mm) < MAX_MEASUREMENT_NAME_LEN) (measurements mgr)
     \<and> unat (fields_num_max mgr) \<le> 128"

lemma create_measurements_ok: "MeasurementMgrCreate alloc cap n = Some mgr \<Longrightarrow> measurements_ok mgr"
  by (auto simp: MeasurementMgrCreate_def measurements_ok_def MAX_FIELDS_NUM_def word_less_nat_alt split: if_splits)

lemma add_measurements_ok:
  assumes "measurements_ok mgr" "length (m_fields mm) \<le> unat (fields_num_max mgr)" "length (m_name mm) < MAX_MEASUREMENT_NAME_LEN" "MeasurementMgrAdd mgr mm = (r, mgr')"
  shows "measurements_ok mgr' \<and> fields_num_max mgr' = fields_num_max mgr"
proof (cases "mgr' = mgr")
  case False
  then have n: "MeasurementMgrGet mgr (m_name mm) = None" "of_nat (length (measurements mgr)) \<noteq> measurementsCapability mgr"
    "mgr' = mgr\<lparr>measurements := measurements mgr @ [mm]\<rparr>" using assms(4) by (auto simp: MeasurementMgrAdd_def split: if_splits)
  then have "m_name mm \<notin> m_name ` set (measurements mgr)" by (auto simp: MeasurementMgrGet_def find_None_iff)
  moreover have "length (measurements mgr) \<noteq> unat (measurementsCapability mgr)" using n(2) by (metis of_nat_unat ucast_id)
  ultimately show ?thesis using assms(1-3) n(3) by (auto simp: measurements_ok_def)
qed (use assms(1) in simp)

lemma measurement_load_bounds:
  "MeasurementLoad lc mgr mm c = Ok (Some mm') \<Longrightarrow> length (m_fields mm') \<le> unat (fields_num_max mgr) \<and> length (m_name mm') < MAX_MEASUREMENT_NAME_LEN"
  by (auto simp: MeasurementLoad_def Let_def length_snprintf_s MAX_MEASUREMENT_NAME_LEN_def snprintf_s_def split: option.splits if_splits dest!: bnd_eq_OkD)

lemma load_measurements_ok:
  "measurements_ok mgr \<Longrightarrow> load_measurements lc alloc version ms is mgr = Ok (r, mgr') \<Longrightarrow> measurements_ok mgr'"
proof (induction "is" arbitrary: mgr)
  case (Cons i "is")
  let ?mm = "\<lparr>m_entity = [], m_name = [], m_version = take (MAX_META_VERSION_LEN - 1) version, m_fields = []\<rparr>"
  show ?case
  proof (cases "alloc i")
    case True
    then obtain x where x: "MeasurementLoad lc mgr ?mm (config_setting_get_elem lc (Some ms) i) = Ok x" using Cons.prems(2) by (auto dest: bnd_eq_OkD)
    show ?thesis
    proof (cases x)
      case (Some mm)
      obtain ret mgr1 where a: "MeasurementMgrAdd mgr mm = (ret, mgr1)" by (cases "MeasurementMgrAdd mgr mm")
      have "measurements_ok mgr1"
        using add_measurements_ok [OF Cons.prems(1) _ _ a] measurement_load_bounds [OF x [unfolded Some]] by blast
      then show ?thesis using Cons.IH [of mgr1] Cons.prems(2) True x Some a by (simp split: if_splits)
    qed (use Cons.prems True x in simp)
  qed (use Cons.prems in simp)
qed simp

lemma load_single_ok: "measurements_ok mgr \<Longrightarrow> MeasurementMgrLoadSingleMeta lc alloc mgr path = Ok (r, mgr') \<Longrightarrow> measurements_ok mgr'"
  by (auto simp: MeasurementMgrLoadSingleMeta_def split: option.splits dest!: bnd_eq_OkD intro: load_measurements_ok)

lemma load_files_ok: "measurements_ok mgr \<Longrightarrow> load_files lc alloc dir fs mgr = Ok (r, mgr') \<Longrightarrow> measurements_ok mgr'"
proof (induction fs arbitrary: mgr)
  case (Cons f fs)
  let ?p = "snprintf_s (MAX_META_PATH_LEN - 1) (dir @ ''/'' @ f)"
  show ?case
  proof (cases "take 1 f = ''.''")
    case False
    then obtain ret mgr1 where l: "MeasurementMgrLoadSingleMeta lc alloc mgr ?p = Ok (ret, mgr1)" using Cons.prems(2) by (auto dest!: bnd_eq_OkD)
    then show ?thesis using load_single_ok [OF Cons.prems(1) l] Cons.IH [of mgr1] Cons.prems(2) False by (simp split: if_splits)
  qed (use Cons in simp)
qed simp

lemma load_mgr_ok: "measurements_ok mgr \<Longrightarrow> MeasurementMgrLoad lc alloc mgr dir files = Ok (r, mgr') \<Longrightarrow> measurements_ok mgr'"
  by (auto simp: MeasurementMgrLoad_def intro: load_files_ok split: option.splits)

text \<open>The measurements loaded from the metadata files (\<open>MeasurementMgrLoad\<close>), whatever the files hold and wherever the load stops, also with an error: measurement names are
  distinct and terminated within their arrays, no more measurements are held than the capacity, and no measurement has more fields than its array of 128
  (\<open>measurements_ok\<close>).\<close>

theorem measurements_loaded:
  assumes "MeasurementMgrCreate True cap n = Some mgr" "MeasurementMgrLoad lc alloc mgr dir files = Ok (r, mgr')"
  shows "measurements_ok mgr'"
  by (rule load_mgr_ok [OF create_measurements_ok [OF assms(1)] assms(2)])

section \<open>From measurements to tables\<close>

definition metric_of :: "Field \<Rightarrow> IMDB_Metric" where
  "metric_of f = \<lparr>mdescription = take 1023 (f_description f), mtype = take 31 (f_type f), mname = take 31 (f_name f), mval = []\<rparr>"

definition meta_of :: "Measurement \<Rightarrow> IMDB_Record" where
  "meta_of mm = \<lparr>keySize = 0, rkey = [], updateTime = 0, metricsCapacity = of_nat (length (m_fields mm)), metrics = map metric_of (m_fields mm)\<rparr>"

definition key_fields :: "Measurement \<Rightarrow> nat" where
  "key_fields mm = length (filter (\<lambda>f. f_type f = ''key'') (m_fields mm))"

definition table_of :: "'h rec_ops \<Rightarrow> u32 \<Rightarrow> Measurement \<Rightarrow> 'h IMDB_Table" where
  "table_of ops cap mm = \<lparr>tname = take 31 (m_name mm), entity_name = take 31 (m_entity mm), meta = Some (meta_of mm), weighting = 0,
     recordsCapability = cap, recordKeySize = of_nat (128 * key_fields mm), records = ut_empty ops\<rparr>"

text \<open>A measurement whose texts are no formats.\<close>

definition measurement_ok :: "Measurement \<Rightarrow> bool" where
  "measurement_ok mm \<longleftrightarrow> m_fields mm \<noteq> [] \<and> length (m_fields mm) \<le> 128
     \<and> list_all (\<lambda>f. plain (f_name f) \<and> plain (f_description f) \<and> plain (f_type f)) (m_fields mm)"

lemma metric_create: "plain (f_name f) \<Longrightarrow> plain (f_description f) \<Longrightarrow> plain (f_type f) \<Longrightarrow>
    IMDB_MetricCreate True (f_name f) (f_description f) (f_type f) = Ok (Some (metric_of f))"
  by (simp add: IMDB_MetricCreate_def snprintf_fmt_def format_text_plain metric_of_def imdb_len_defs)

lemma add_metric_run:
  assumes "length (metrics mt) < unat (metricsCapacity mt)"
  shows "IMDB_RecordAddMetric mt m = (mt\<lparr>metrics := metrics mt @ [m]\<rparr>, 0)"
proof -
  have "of_nat (metricsNum mt) \<noteq> metricsCapacity mt"
  proof
    assume e: "of_nat (metricsNum mt) = metricsCapacity mt"
    have "metricsNum mt < 2 ^ 32" using assms unat_u32_bound [of "metricsCapacity mt"] by (simp add: metricsNum_def)
    then have "unat (of_nat (metricsNum mt) :: u32) = metricsNum mt" by (simp add: unat_of_nat)
    then have "unat (metricsCapacity mt) = metricsNum mt" unfolding e .
    then show False using assms by (simp add: metricsNum_def)
  qed
  then show ?thesis by (simp add: IMDB_RecordAddMetric_def)
qed

lemma load_metrics_run:
  assumes "\<And>x. malloc_ok x" "list_all (\<lambda>f. plain (f_name f) \<and> plain (f_description f) \<and> plain (f_type f)) fs"
    and "length (metrics mt) + length fs \<le> unat (metricsCapacity mt)"
  shows "load_metrics malloc_ok i fs mt k = Ok (Some (mt\<lparr>metrics := metrics mt @ map metric_of fs\<rparr>, k + of_nat (length (filter (\<lambda>f. f_type f = ''key'') fs))))"
  using assms(2,3)
proof (induction fs arbitrary: i mt k)
  case (Cons f fs)
  note add_metric_run [of mt "metric_of f"]
  then show ?case
    using Cons.IH [of "mt\<lparr>metrics := metrics mt @ [metric_of f]\<rparr>"] Cons.prems assms(1) metric_create [of f] by (simp add: METRIC_TYPE_KEY_def)
qed simp


lemma key_type_take: "take 31 ty = ''key'' \<longleftrightarrow> ty = ''key''"
proof
  assume t: "take 31 ty = ''key''"
  then have "length (take 31 ty) = 3" by simp
  then have "length ty = 3" by (simp add: min_def split: if_splits)
  then show "ty = ''key''" using t by simp
qed simp

lemma num_keys_meta_of: "num_keys (metrics (meta_of mm)) = key_fields mm"
  by (simp add: num_keys_def meta_of_def key_fields_def filter_map comp_def metric_of_def METRIC_TYPE_KEY_def key_type_take)

lemma key_fields_bound: "measurement_ok mm \<Longrightarrow> key_fields mm \<le> 128"
  unfolding key_fields_def measurement_ok_def by (meson le_trans length_filter_le)

lemma unat_key_size: "measurement_ok mm \<Longrightarrow> unat (of_nat (128 * key_fields mm) :: u32) = 128 * key_fields mm"
proof -
  assume "measurement_ok mm"
  then have "128 * key_fields mm < 2 ^ 32" using key_fields_bound [of mm] by simp
  then show ?thesis by (simp only: unat_of_nat) simp
qed

lemma unat_fields: "measurement_ok mm \<Longrightarrow> unat (of_nat (length (m_fields mm)) :: u32) = length (m_fields mm)"
  by (simp add: measurement_ok_def unat_of_nat)

lemma of_nat_fields_nonzero: "measurement_ok mm \<Longrightarrow> (of_nat (length (m_fields mm)) :: u32) \<noteq> 0"
  using unat_fields [of mm] by (auto simp: measurement_ok_def)

lemma metric_of_ok: "plain (f_name f) \<and> plain (f_description f) \<and> plain (f_type f) \<Longrightarrow> metric_ok (metric_of f)"
  by (auto simp: metric_ok_def metric_of_def plain_def imdb_len_defs dest: in_set_takeD)

lemma meta_of_ok:
  assumes "measurement_ok mm" "0 < key_fields mm"
  shows "meta_ok (meta_of mm) (recordKeySize (table_of ops cap mm))"
proof -
  have "list_all metric_ok (metrics (meta_of mm))"
    using assms(1) metric_of_ok by (auto simp: meta_of_def measurement_ok_def list_all_iff)
  moreover have "(of_nat (128 * key_fields mm) :: u32) \<noteq> 0" using unat_key_size [OF assms(1)] assms(2) by (metis mult_is_0 not_gr_zero unat_0 zero_neq_numeral)
  moreover have "length (metrics (meta_of mm)) \<le> unat (metricsCapacity (meta_of mm))" "metricsCapacity (meta_of mm) \<noteq> 0"
    using unat_fields [OF assms(1)] of_nat_fields_nonzero [OF assms(1)] by (simp_all add: meta_of_def)
  ultimately show ?thesis using unat_key_size [OF assms(1)] num_keys_meta_of [of mm] unfolding meta_ok_def
    by (simp only: table_of_def IMDB_Table.simps) simp
qed

lemma table_load_run:
  assumes "\<And>x. malloc_ok x" "measurement_ok mm" "IMDB_TableCreate ops malloc_ok (m_name mm) cap = Some t"
  shows "IMDBMgrTableLoad malloc_ok t mm = Ok (Some (table_of ops cap mm))"
proof -
  let ?mt = "\<lparr>keySize = 0, rkey = [], updateTime = 0, metricsCapacity = of_nat (length (m_fields mm)), metrics = []\<rparr>"
  have "IMDB_RecordCreate malloc_ok (of_nat (length (m_fields mm))) = Some ?mt"
    using assms(1) of_nat_fields_nonzero [OF assms(2)] by (simp add: IMDB_RecordCreate_def)
  moreover have "load_metrics malloc_ok 0 (m_fields mm) ?mt 0 = Ok (Some (meta_of mm, of_nat (key_fields mm)))"
    using load_metrics_run [of malloc_ok "m_fields mm" ?mt 0 0] assms(1,2) unat_fields [OF assms(2)]
    by (simp add: meta_of_def key_fields_def measurement_ok_def)
  moreover have "t = \<lparr>tname = take 31 (m_name mm), entity_name = [], meta = None, weighting = 0, recordsCapability = cap, recordKeySize = 0, records = ut_empty ops\<rparr>"
    using assms(1,3) by (simp add: IMDB_TableCreate_def snprintf_s_def imdb_len_defs)
  ultimately show ?thesis
    by (simp add: IMDBMgrTableLoad_def IMDB_TableSetMeta_def IMDB_TableSetRecordKeySize_def IMDB_TableSetEntityName_def table_of_def snprintf_s_def imdb_len_defs mult.commute)
qed

lemma add_table_run:
  assumes "length (tables mgr) < unat (tblsCapability mgr)" "tname t \<notin> tname ` set (tables mgr)"
  shows "IMDB_DataBaseMgrAddTable mgr t = (mgr\<lparr>tables := tables mgr @ [t]\<rparr>, 0)"
proof -
  have "unat (of_nat (length (tables mgr)) :: u32) = length (tables mgr)"
    using assms(1) unat_u32_bound [of "tblsCapability mgr"] by (simp add: unat_of_nat)
  then have "(of_nat (tablesNum mgr) :: u32) \<noteq> tblsCapability mgr" using assms(1) by (auto simp: tablesNum_def)
  moreover have "\<not> list_ex (\<lambda>t'. tname t' = tname t) (tables mgr)" using assms(2) unfolding list_ex_iff by (metis imageI)
  ultimately show ?thesis by (simp add: IMDB_DataBaseMgrAddTable_def)
qed

text \<open>Every table of the database comes from its measurement, in order.\<close>

lemma database_load_run:
  assumes "\<And>x. malloc_ok x"
  shows "list_all measurement_ok mms \<Longrightarrow> distinct (map tname (tables mgr) @ map (take 31 \<circ> m_name) mms)
    \<Longrightarrow> length (tables mgr) + length mms \<le> unat (tblsCapability mgr)
    \<Longrightarrow> IMDBMgrDatabaseLoad ops malloc_ok cap mms mgr = Ok (0, mgr\<lparr>tables := tables mgr @ map (table_of ops cap) mms\<rparr>)"
proof (induction mms arbitrary: mgr)
  case (Cons mm mms)
  obtain t where t: "IMDB_TableCreate ops malloc_ok (m_name mm) cap = Some t" using assms by (simp add: IMDB_TableCreate_def)
  let ?m = "mgr\<lparr>tables := tables mgr @ [table_of ops cap mm]\<rparr>"
  have l: "IMDBMgrTableLoad malloc_ok t mm = Ok (Some (table_of ops cap mm))" using table_load_run [OF assms _ t] Cons.prems(1) by simp
  have "tname (table_of ops cap mm) \<notin> tname ` set (tables mgr)" using Cons.prems(2) by (auto simp: table_of_def)
  then have a: "IMDB_DataBaseMgrAddTable mgr (table_of ops cap mm) = (?m, 0)" using add_table_run [of mgr] Cons.prems(3) by simp
  have "IMDBMgrDatabaseLoad ops malloc_ok cap mms ?m = Ok (0, ?m\<lparr>tables := tables ?m @ map (table_of ops cap) mms\<rparr>)"
    by (rule Cons.IH) (use Cons.prems in \<open>auto simp: table_of_def\<close>)
  then show ?case using t l a by simp
qed simp

text \<open>A description is the format of a \<open>snprintf\<close> without arguments (\<open>imdb.c:43\<close>): with a percent sign that is not doubled, as in ''IUse(%)'' of \<open>system_disk.meta\<close> and
  ''CPU utilization (%)'' of \<open>system_cpu.meta\<close>, loading the measurement is undefined, whatever was loaded before.\<close>

definition shipped_descriptions :: "string list" where
  "shipped_descriptions = [''IUse(%)'', ''disk usage(%)'', ''CPU utilization (%)'', ''Total CPU utilization (%)'']"

lemma shipped_undefined: "d \<in> set shipped_descriptions \<Longrightarrow> format_text d = UB"
  by (auto simp: shipped_descriptions_def)

lemma load_metrics_percent:
  assumes "\<And>x. malloc_ok x" "plain (f_name f)" "format_text (f_description f) = UB"
  shows "list_all (\<lambda>f. plain (f_name f) \<and> plain (f_description f) \<and> plain (f_type f)) fs \<Longrightarrow>
    length (metrics mt) + length (fs @ f # gs) \<le> unat (metricsCapacity mt) \<Longrightarrow> load_metrics malloc_ok i (fs @ f # gs) mt n = UB"
proof (induction fs arbitrary: i mt n)
  case Nil
  then show ?case using assms by (simp add: IMDB_MetricCreate_def snprintf_fmt_def format_text_plain)
next
  case (Cons g fs)
  show ?case using Cons.IH [of "mt\<lparr>metrics := metrics mt @ [metric_of g]\<rparr>"] Cons.prems add_metric_run [of mt "metric_of g"] assms(1) metric_create [of g] by simp
qed

lemma database_percent:
  assumes "\<And>x. malloc_ok x" "list_all measurement_ok mms" "distinct (map tname (tables mgr) @ map (take 31 \<circ> m_name) mms)"
    and "length (tables mgr) + length mms \<le> unat (tblsCapability mgr)"
    and "m_fields mm = fs @ f # gs" "length (m_fields mm) \<le> 128" "list_all (\<lambda>f. plain (f_name f) \<and> plain (f_description f) \<and> plain (f_type f)) fs"
    and "plain (f_name f)" "format_text (f_description f) = UB"
  shows "IMDBMgrDatabaseLoad ops malloc_ok cap (mms @ mm # rest) mgr = UB"
proof -
  have last: "IMDBMgrTableLoad malloc_ok t mm = UB" for t :: "'a IMDB_Table"
  proof -
    have n: "unat (of_nat (length (m_fields mm)) :: u32) = length (m_fields mm)" using assms(6) by (simp add: unat_of_nat)
    then have "(of_nat (length (m_fields mm)) :: u32) \<noteq> 0" using assms(5) by auto
    moreover have "load_metrics malloc_ok 0 (m_fields mm) mt 0 = UB" if "metrics mt = []" "metricsCapacity mt = of_nat (length (m_fields mm))" for mt
      unfolding assms(5) by (rule load_metrics_percent [where malloc_ok = malloc_ok, OF assms(1,8,9,7)]) (use that n assms(5) in simp)
    ultimately show ?thesis using assms(1) by (simp add: IMDBMgrTableLoad_def IMDB_RecordCreate_def)
  qed
  show ?thesis using assms(2-4)
  proof (induction mms arbitrary: mgr)
    case Nil
    obtain t where "IMDB_TableCreate ops malloc_ok (m_name mm) cap = Some t" using assms(1) by (simp add: IMDB_TableCreate_def)
    then show ?case by (simp add: last)
  next
    case (Cons k mms)
    obtain t where t: "IMDB_TableCreate ops malloc_ok (m_name k) cap = Some t" using assms(1) by (simp add: IMDB_TableCreate_def)
    let ?m = "mgr\<lparr>tables := tables mgr @ [table_of ops cap k]\<rparr>"
    have l: "IMDBMgrTableLoad malloc_ok t k = Ok (Some (table_of ops cap k))" using table_load_run [OF assms(1) _ t] Cons.prems(1) by simp
    have "tname (table_of ops cap k) \<notin> tname ` set (tables mgr)" using Cons.prems(2) by (auto simp: table_of_def)
    then have a: "IMDB_DataBaseMgrAddTable mgr (table_of ops cap k) = (?m, 0)" using add_table_run [of mgr] Cons.prems(3) by simp
    have "IMDBMgrDatabaseLoad ops malloc_ok cap (mms @ mm # rest) ?m = UB" by (rule Cons.IH) (use Cons.prems in \<open>auto simp: table_of_def\<close>)
    then show ?case using t l a by simp
  qed
qed

text \<open>C10. The database that the daemon builds from its metadata (\<open>IMDBMgrDatabaseLoad\<close>), for measurements that have at most 128 fields, at least one, and no percent sign in the names,
  types and descriptions of their fields (\<open>measurement_ok\<close>; two of the shipped metadata files have one in a description, and then the load is undefined, \<open>database_percent\<close>), whose names
  stay distinct after the cut to 31 characters, with memory and room for them: the load succeeds, there is exactly one table per
  measurement, in order, named and laid out after it, and no other. The manager is well formed, and every table whose measurement has a key field has a meta record
  under which lines are parsed without overrun (\<open>meta_ok\<close>); of a measurement without a key field only the table is there, and its lines are refused.\<close>

theorem database_from_meta:
  assumes "uthash_ok ops" "\<And>x. malloc_ok x" "list_all measurement_ok (measurements mm_mgr)" "distinct (map (take 31 \<circ> m_name) (measurements mm_mgr))"
    and "length (measurements mm_mgr) \<le> unat (tblsCapability mgr)" "tables mgr = []"
  shows "\<exists>mgr'. IMDBMgrDatabaseLoad ops malloc_ok cap (measurements mm_mgr) mgr = Ok (0, mgr')
     \<and> tables mgr' = map (table_of ops cap) (measurements mm_mgr) \<and> mgr_ok ops mgr'
     \<and> list_all (\<lambda>mm. 0 < key_fields mm \<longrightarrow> (\<exists>t \<in> set (tables mgr'). tname t = take 31 (m_name mm) \<and> meta t = Some (meta_of mm) \<and> meta_ok (meta_of mm) (recordKeySize t)))
          (measurements mm_mgr)"
proof (intro exI conjI)
  let ?mgr = "mgr\<lparr>tables := map (table_of ops cap) (measurements mm_mgr)\<rparr>"
  show "IMDBMgrDatabaseLoad ops malloc_ok cap (measurements mm_mgr) mgr = Ok (0, ?mgr)" using database_load_run [of malloc_ok _ mgr] assms by simp
  show "tables ?mgr = map (table_of ops cap) (measurements mm_mgr)" by simp
  show "mgr_ok ops ?mgr" using assms by (simp add: mgr_ok_def table_ok_def recs_def table_of_def comp_def list_all_iff uthash_ok_def)
  show "list_all (\<lambda>mm. 0 < key_fields mm \<longrightarrow> (\<exists>t \<in> set (tables ?mgr). tname t = take 31 (m_name mm) \<and> meta t = Some (meta_of mm) \<and> meta_ok (meta_of mm) (recordKeySize t)))
      (measurements mm_mgr)"
    unfolding list_all_iff
  proof (intro ballI impI)
    fix mm assume "mm \<in> set (measurements mm_mgr)" "0 < key_fields mm"
    then show "\<exists>t \<in> set (tables ?mgr). tname t = take 31 (m_name mm) \<and> meta t = Some (meta_of mm) \<and> meta_ok (meta_of mm) (recordKeySize t)"
      using meta_of_ok [of mm ops cap] assms(3) by (intro bexI [of _ "table_of ops cap mm"]) (auto simp: table_of_def list_all_iff)
  qed
qed


section \<open>Witnesses and the report\<close>

definition demo_meta_file :: conf_tree where
  "demo_meta_file = CGroup [(''version'', CText ''1.0.0''), (''measurements'', CList [CGroup [(''table_name'', CText ''proc''), (''entity_name'', CText ''process''),
     (''fields'', CList [
        CGroup [(''description'', CText ''process id''), (''type'', CText ''key''), (''name'', CText ''tgid'')],
        CGroup [(''description'', CText ''command''), (''type'', CText ''label''), (''name'', CText ''comm'')],
        CGroup [(''description'', CText ''forks''), (''type'', CText ''counter''), (''name'', CText ''fork_count'')]])]])]"

definition demo_measurement :: Measurement where
  "demo_measurement = \<lparr>m_entity = ''process'', m_name = ''proc'', m_version = ''1.0.0'', m_fields =
     [\<lparr>f_description = ''process id'', f_type = ''key'', f_name = ''tgid''\<rparr>, \<lparr>f_description = ''command'', f_type = ''label'', f_name = ''comm''\<rparr>,
      \<lparr>f_description = ''forks'', f_type = ''counter'', f_name = ''fork_count''\<rparr>]\<rparr>"

definition demo_mm_mgr :: MeasurementMgr where
  "demo_mm_mgr = \<lparr>measurementsCapability = 16, fields_num_max = 128, measurements = [demo_measurement], meta_kafkaMgr = True, meta_out_channel = OUT_CHNL_KAFKA\<rparr>"

definition demo_dbmgr :: "((string \<times> IMDB_Record) list, unit) IMDB_DataBaseMgr" where
  "demo_dbmgr = \<lparr>tblsCapability = 16, tables = [], systemUuid = ''u'', hostIP = [], tgids = ()\<rparr>"

definition empty_mm_mgr :: MeasurementMgr where
  "empty_mm_mgr = \<lparr>measurementsCapability = 16, fields_num_max = 128, measurements = [], meta_kafkaMgr = False, meta_out_channel = OUT_CHNL_LOGS\<rparr>"

lemma demo_meta_loaded:
  "MeasurementMgrLoad (tree_config [''/etc/m/proc.meta'' \<mapsto> demo_meta_file]) (\<lambda>_. True) empty_mm_mgr ''/etc/m'' (Some [''.'', ''proc.meta''])
     = Ok (0, empty_mm_mgr\<lparr>measurements := [demo_measurement]\<rparr>)"
  by (simp add: MeasurementMgrLoad_def MeasurementMgrLoadSingleMeta_def tree_config_def snprintf_s_def MAX_META_PATH_LEN_def demo_meta_file_def conf_text_def
      MeasurementLoad_def FieldLoad_def MeasurementMgrAdd_def MeasurementMgrGet_def empty_mm_mgr_def demo_measurement_def upt_rec
      MAX_META_VERSION_LEN_def MAX_MEASUREMENT_NAME_LEN_def MAX_FIELD_DESCRIPTION_LEN_def MAX_FIELD_TYPE_LEN_def MAX_FIELD_NAME_LEN_def)

theorem measurements_loaded_witness:
  "MeasurementMgrCreate True 16 200 = Some empty_mm_mgr \<and> measurements_ok (empty_mm_mgr\<lparr>measurements := [demo_measurement]\<rparr>)"
proof -
  have c: "MeasurementMgrCreate True 16 200 = Some empty_mm_mgr" by (simp add: MeasurementMgrCreate_def empty_mm_mgr_def MAX_FIELDS_NUM_def)
  show ?thesis using c measurements_loaded [OF c demo_meta_loaded] by simp
qed

lemma demo_measurement_ok: "measurement_ok demo_measurement"
  by (simp add: measurement_ok_def demo_measurement_def plain_def)

theorem database_from_meta_witness:
  "uthash_ok alist_ops \<and> list_all measurement_ok (measurements demo_mm_mgr) \<and> (\<exists>mgr'. IMDBMgrDatabaseLoad alist_ops (\<lambda>_. True) 8 (measurements demo_mm_mgr) demo_dbmgr = Ok (0, mgr')
     \<and> map tname (tables mgr') = [''proc''] \<and> map recordKeySize (tables mgr') = [128] \<and> mgr_ok alist_ops mgr')"
proof -
  have d: "list_all measurement_ok (measurements demo_mm_mgr)" using demo_measurement_ok by (simp add: demo_mm_mgr_def)
  have "distinct (map (take 31 \<circ> m_name) (measurements demo_mm_mgr))" "length (measurements demo_mm_mgr) \<le> unat (tblsCapability demo_dbmgr)" "tables demo_dbmgr = []"
    by (simp_all add: demo_mm_mgr_def demo_dbmgr_def)
  from database_from_meta [OF alist_ops_ok _ d this, of "\<lambda>_. True" 8] obtain mgr' where
    "IMDBMgrDatabaseLoad alist_ops (\<lambda>_. True) 8 (measurements demo_mm_mgr) demo_dbmgr = Ok (0, mgr')"
    and t: "tables mgr' = map (table_of alist_ops 8) (measurements demo_mm_mgr)" and "mgr_ok alist_ops mgr'" by auto
  moreover have "map tname (tables mgr') = [''proc'']" "map recordKeySize (tables mgr') = [128]"
    unfolding t by (simp_all add: demo_mm_mgr_def table_of_def demo_measurement_def key_fields_def)
  ultimately show ?thesis using d alist_ops_ok by (intro conjI exI [of _ mgr'])
qed

text \<open>A printer that writes a fixed text, or fails when the text and its terminator do not fit.\<close>

definition prints :: "(string \<times> int \<Rightarrow> (string \<times> int) option) \<Rightarrow> string \<Rightarrow> bool" where
  "prints p t \<longleftrightarrow> (\<forall>s n. 0 < n \<longrightarrow> p (s, n) = (if int (length t) < n then Some (s @ t, n - int (length t)) else None))"

named_theorems printers

lemma prints_app [printers]: "prints (\<lambda>b. snprintf_app b t) t"
  by (simp add: prints_def snprintf_app_def)

lemma prints_nil [printers]: "prints Some []"
  by (simp add: prints_def)

lemma prints_seq [printers]: "prints p t \<Longrightarrow> prints q u \<Longrightarrow> prints (\<lambda>b. Option.bind (p b) q) (t @ u)"
  by (auto simp: prints_def)

lemma prints_names [printers]: "prints (app_names ty fs) (concat (map (\<lambda>f. '', '' @ quoted (f_name f)) (filter (\<lambda>f. f_type f = ty) fs)))"
proof (induction fs)
  case (Cons f fs)
  have "app_names ty (f # fs) = (if f_type f = ty then (\<lambda>b. Option.bind (snprintf_app b ('', '' @ quoted (f_name f))) (app_names ty fs)) else app_names ty fs)" by auto
  moreover have "concat (map (\<lambda>f. '', '' @ quoted (f_name f)) (filter (\<lambda>f. f_type f = ty) (f # fs))) = (if f_type f = ty then '', '' @ quoted (f_name f) else [])
      @ concat (map (\<lambda>f. '', '' @ quoted (f_name f)) (filter (\<lambda>f. f_type f = ty) fs))" by simp
  ultimately show ?case using prints_seq [OF prints_app [of "'', '' @ quoted (f_name f)"] Cons.IH] Cons.IH by (cases "f_type f = ty") (simp_all only: if_True if_False append_Nil simp_thms)
next
  case Nil
  have "app_names ty [] = Some" by auto
  then show ?case using prints_nil by simp
qed

definition metric_names :: "bool \<Rightarrow> Field list \<Rightarrow> string" where
  "metric_names first fs = (let q = map (quoted \<circ> f_name) (filter (is_filed_type_metric \<circ> f_type) fs) in
     if first then (case q of [] \<Rightarrow> [] | s # ss \<Rightarrow> s @ concat (map (\<lambda>s. '', '' @ s) ss)) else concat (map (\<lambda>s. '', '' @ s) q))"

lemma prints_metrics [printers]: "prints (app_metrics first fs) (metric_names first fs)"
proof (induction fs arbitrary: first)
  case (Cons f fs)
  have e: "app_metrics first (f # fs) = (if \<not> is_filed_type_metric (f_type f) then app_metrics first fs
      else (\<lambda>b. Option.bind (snprintf_app b ((if first then [] else '', '') @ quoted (f_name f))) (app_metrics False fs)))" by auto
  show ?case
  proof (cases "is_filed_type_metric (f_type f)")
    case True
    then have "metric_names first (f # fs) = ((if first then [] else '', '') @ quoted (f_name f)) @ metric_names False fs" by (simp add: metric_names_def)
    then show ?thesis using prints_seq [OF prints_app Cons.IH [of False]] True unfolding e by presburger
  next
    case False
    then show ?thesis using Cons.IH [of first] unfolding e by (simp add: metric_names_def)
  qed
next
  case Nil
  have "app_metrics first [] = Some" by auto
  then show ?case using prints_nil by (simp add: metric_names_def)
qed

text \<open>The metadata line of a measurement.\<close>

definition meta_list :: "string \<Rightarrow> string \<Rightarrow> string \<Rightarrow> Field list \<Rightarrow> string" where
  "meta_list name own ty fs = ('', '' @ quoted name @ '': ['' @ quoted own) @ concat (map (\<lambda>f. '', '' @ quoted (f_name f)) (filter (\<lambda>f. f_type f = ty) fs)) @ '']''"

definition metadata_text :: "int \<Rightarrow> Measurement \<Rightarrow> string" where
  "metadata_text now mm = (''{'' @ quoted ''timestamp'' @ '': '' @ show_lld (now * THOUSAND)) @ ('', '' @ quoted ''meta_name'' @ '': '' @ quoted (m_name mm))
     @ ('', '' @ quoted ''entity_name'' @ '': '' @ quoted (m_entity mm)) @ ('', '' @ quoted ''version'' @ '': '' @ quoted (m_version mm))
     @ meta_list ''keys'' ''machine_id'' ''key'' (m_fields mm) @ meta_list ''labels'' ''hostname'' ''label'' (m_fields mm)
     @ ('', '' @ quoted ''metrics'' @ '': ['') @ metric_names True (m_fields mm) @ '']}''"

lemma prints_builders [printers]:
  "prints (metadata_build_timestamp now) (''{'' @ quoted ''timestamp'' @ '': '' @ show_lld (now * THOUSAND))"
  "prints (metadata_build_metaname mm) ('', '' @ quoted ''meta_name'' @ '': '' @ quoted (m_name mm))"
  "prints (metadata_build_entityname mm) ('', '' @ quoted ''entity_name'' @ '': '' @ quoted (m_entity mm))"
  "prints (metadata_build_vrsion mm) ('', '' @ quoted ''version'' @ '': '' @ quoted (m_version mm))"
  "prints (metadata_build_keys mm) (meta_list ''keys'' ''machine_id'' ''key'' (m_fields mm))"
  "prints (metadata_build_labels mm) (meta_list ''labels'' ''hostname'' ''label'' (m_fields mm))"
  "prints (metadata_build_metrics mm) (('', '' @ quoted ''metrics'' @ '': ['') @ metric_names True (m_fields mm) @ '']}'')"
  unfolding metadata_build_timestamp_def metadata_build_metaname_def metadata_build_entityname_def metadata_build_vrsion_def
    metadata_build_keys_def metadata_build_labels_def metadata_build_metrics_def meta_list_def
  by (rule printers | rule prints_seq)+

lemma metadata_exact:
  assumes "0 < n"
  shows "metadata_to_json now mm n = (if length (metadata_text now mm) < n then Some (metadata_text now mm) else None)"
proof -
  have "prints (\<lambda>b. Option.bind (metadata_build_timestamp now b) (\<lambda>b. Option.bind (metadata_build_metaname mm b) (\<lambda>b. Option.bind (metadata_build_entityname mm b) (\<lambda>b.
      Option.bind (metadata_build_vrsion mm b) (\<lambda>b. Option.bind (metadata_build_keys mm b) (\<lambda>b. Option.bind (metadata_build_labels mm b) (metadata_build_metrics mm)))))))
     (metadata_text now mm)" unfolding metadata_text_def by (intro prints_seq prints_builders)
  then show ?thesis using assms by (simp add: metadata_to_json_def prints_def)
qed

lemma report_one_kafka:
  assumes "0 < n" "meta_out_channel mgr = OUT_CHNL_KAFKA" "meta_kafkaMgr mgr"
  shows "report_one_metadata True now n mgr mm out =
    (if length (metadata_text now mm) < n then (0, out\<lparr>mo_kafka := mo_kafka out @ [metadata_text now mm]\<rparr>) else (- 1, out))"
  using assms by (simp add: report_one_metadata_def metadata_exact)

text \<open>The measurements before the first one whose line does not fit.\<close>

definition reported :: "int \<Rightarrow> nat \<Rightarrow> Measurement list \<Rightarrow> string list" where
  "reported now n mms = map (metadata_text now) (takeWhile (\<lambda>mm. length (metadata_text now mm) < n) mms)"

lemma report_all_kafka:
  assumes "0 < n" "meta_out_channel mgr = OUT_CHNL_KAFKA" "meta_kafkaMgr mgr"
  shows "report_all True now n mgr mms out =
    (if list_all (\<lambda>mm. length (metadata_text now mm) < n) mms then 0 else - 1, out\<lparr>mo_kafka := mo_kafka out @ reported now n mms\<rparr>)"
  by (induction mms arbitrary: out) (simp_all add: report_one_kafka [OF assms] reported_def)

lemma report_rounds_kafka:
  assumes "0 < n" "meta_out_channel mgr = OUT_CHNL_KAFKA" "meta_kafkaMgr mgr"
    and "\<forall>now \<in> set nows. list_all (\<lambda>mm. length (metadata_text now mm) < n) (measurements mgr)"
  shows "report_rounds True n mgr nows out = (None, out\<lparr>mo_kafka := mo_kafka out @ concat (map (\<lambda>now. map (metadata_text now) (measurements mgr)) nows)\<rparr>)"
  using assms(4)
proof (induction nows arbitrary: out)
  case (Cons now nows)
  then have "takeWhile (\<lambda>mm. length (metadata_text now mm) < n) (measurements mgr) = measurements mgr"
    unfolding takeWhile_eq_all_conv by (simp add: list_all_iff)
  then have "reported now n (measurements mgr) = map (metadata_text now) (measurements mgr)" by (simp only: reported_def)
  then show ?case using Cons by (simp add: ReportMeteData_def report_all_kafka [OF assms(1-3)])
qed simp

text \<open>C28. The reports of the metadata thread (\<open>ReportMetaDataMain\<close>, ten-minute rounds at the times \<open>nows\<close>, then one at \<open>now\<close>): as long as the line of every measurement
  is shorter than the buffer, every round produces exactly one line per measurement to Kafka, in order, with all its keys, labels and metrics. In the round in which
  a line does not fit, the lines of the measurements before it are produced, none after it, and the thread returns -1 for good.\<close>

theorem metadata_reports:
  assumes "0 < n" "meta_out_channel mgr = OUT_CHNL_KAFKA" "meta_kafkaMgr mgr"
    and "\<forall>now \<in> set nows. list_all (\<lambda>mm. length (metadata_text now mm) < n) (measurements mgr)"
  shows "ReportMetaDataMain True n mgr (nows @ [now]) out =
    (if list_all (\<lambda>mm. length (metadata_text now mm) < n) (measurements mgr) then None else Some (- 1),
     out\<lparr>mo_kafka := mo_kafka out @ concat (map (\<lambda>now. map (metadata_text now) (measurements mgr)) nows) @ reported now n (measurements mgr)\<rparr>)"
proof -
  have "report_rounds True n mgr (nows @ [now]) out = (case report_rounds True n mgr nows out of (None, out) \<Rightarrow> report_rounds True n mgr [now] out | r \<Rightarrow> r)"
    by (induction nows arbitrary: out) (auto split: prod.split)
  then show ?thesis using assms report_rounds_kafka [OF assms] report_all_kafka [OF assms(1-3), of now]
    by (simp add: ReportMetaDataMain_def ReportMeteData_def)
qed

theorem metadata_reports_witness:
  "length (metadata_text 1655211859 demo_measurement) < 8192 \<and> \<not> length (metadata_text 1655211859 demo_measurement) < 100
   \<and> ReportMetaDataMain True 8192 demo_mm_mgr [1655211859, 1655212459] \<lparr>mo_kafka = [], mo_logs = []\<rparr>
       = (None, \<lparr>mo_kafka = [metadata_text 1655211859 demo_measurement, metadata_text 1655212459 demo_measurement], mo_logs = []\<rparr>)
   \<and> ReportMetaDataMain True 100 demo_mm_mgr [1655211859] \<lparr>mo_kafka = [], mo_logs = []\<rparr> = (Some (- 1), \<lparr>mo_kafka = [], mo_logs = []\<rparr>)"
proof -
  have l: "length (metadata_text 1655211859 demo_measurement) = 186" "length (metadata_text 1655212459 demo_measurement) = 186"
    by (simp_all add: metadata_text_def meta_list_def metric_names_def quoted_def demo_measurement_def is_filed_type_metric_def show_lld_def THOUSAND_def digits_numeral)
  show ?thesis
    using metadata_reports [of 8192 demo_mm_mgr "[1655211859]" 1655212459 "\<lparr>mo_kafka = [], mo_logs = []\<rparr>"]
      metadata_reports [of 100 demo_mm_mgr "[]" 1655211859 "\<lparr>mo_kafka = [], mo_logs = []\<rparr>"] l
    by (simp add: demo_mm_mgr_def reported_def)
qed

end
