(* ===== verification/Objects.thy ===== *)
theory Objects
  imports Imdb_Export C_Strings Uthash
begin

text \<open>
  The objects that the probes keep references to in BPF maps, \<open>common/object.c\<close>, and the lookup of maps by name.
\<close>

section \<open>BPF maps\<close>

definition CGRP_MAP_MAX_ENTRIES :: nat where "CGRP_MAP_MAX_ENTRIES = 100"
definition NM_MAP_MAX_ENTRIES :: nat where "NM_MAP_MAX_ENTRIES = 100"
definition PROC_MAP_MAX_ENTRIES :: nat where "PROC_MAP_MAX_ENTRIES = 1000"

text \<open>
  The maps of the kernel: a lookup, an update and a deletion; errors are negative. \<open>bpf_map_ok\<close> is the documented behaviour of a hash map that was created with
  \<open>max_entries\<close>: an update of a key that is there, or of a new one while there are fewer entries, succeeds, and one that finds the map full changes nothing.
\<close>

record ('k, 'm) bpf_map =
  bm_lookup :: "'k \<Rightarrow> 'm \<Rightarrow> u32 option"
  bm_update :: "'k \<Rightarrow> u32 \<Rightarrow> 'm \<Rightarrow> int \<times> 'm"
  bm_delete :: "'k \<Rightarrow> 'm \<Rightarrow> int \<times> 'm"
  bm_enoent :: int

definition map_keys :: "('k, 'm) bpf_map \<Rightarrow> 'm \<Rightarrow> 'k set" where
  "map_keys ops m = {k. bm_lookup ops k m \<noteq> None}"

definition has_room :: "('k, 'm) bpf_map \<Rightarrow> nat \<Rightarrow> 'k \<Rightarrow> 'm \<Rightarrow> bool" where
  "has_room ops max_entries k m \<longleftrightarrow> k \<in> map_keys ops m \<or> card (map_keys ops m) < max_entries"

definition bpf_map_ok :: "('k, 'm) bpf_map \<Rightarrow> nat \<Rightarrow> bool" where
  "bpf_map_ok ops max_entries \<longleftrightarrow> bm_enoent ops < 0
     \<and> (\<forall>k v m r m'. bm_update ops k v m = (r, m') \<longrightarrow>
          (if has_room ops max_entries k m then r = 0 \<and> (\<forall>k'. bm_lookup ops k' m' = (if k' = k then Some v else bm_lookup ops k' m)) else r < 0 \<and> m' = m))
     \<and> (\<forall>k m. bm_lookup ops k m \<noteq> None \<longrightarrow> fst (bm_delete ops k m) = 0 \<and>
          (\<forall>k'. bm_lookup ops k' (snd (bm_delete ops k m)) = (if k' = k then None else bm_lookup ops k' m)))"

section \<open>Objects\<close>

record proc_s =
  proc_id :: u32

datatype cgp_type_e = CGP_TYPE_CPUACCT | CGP_TYPE_MEM | CGP_TYPE_BLKIO | CGP_TYPE_PIDS | CGP_TYPE_NET | CGP_TYPE_HUGETLB

record cgroup_s =
  knid :: u32
  cgrp_type :: cgp_type_e

datatype nm_type_e = NM_TYPE_CGRP | NM_TYPE_MNT | NM_TYPE_NET | NM_TYPE_PID

record nm_s =
  nm_id :: u32
  nm_type :: nm_type_e

record obj_module =
  om_init :: int
  proc_map_fd :: int
  cgrp_map_fd :: int
  nm_map_fd :: int

text \<open>The bodies the functions for processes, cgroups and namespaces have in common.\<close>

definition obj_put :: "('k, 'm) bpf_map \<Rightarrow> int \<Rightarrow> 'k \<Rightarrow> 'm \<Rightarrow> int \<times> 'm" where
  "obj_put ops fd obj m =
     (if fd \<le> 0 then (- 1, m)
      else case bm_lookup ops obj m of None \<Rightarrow> (bm_enoent ops, m)
      | Some c \<Rightarrow>
          let c = (if 0 < c then c - 1 else c) in
          if c = 0 then bm_delete ops obj m else bm_update ops obj c m)"

definition obj_add :: "('k, 'm) bpf_map \<Rightarrow> int \<Rightarrow> 'k \<Rightarrow> 'm \<Rightarrow> int \<times> 'm" where
  "obj_add ops fd obj m =
     (if fd \<le> 0 then (- 1, m)
      else case bm_lookup ops obj m of Some c \<Rightarrow> bm_update ops obj 1 m
      | None \<Rightarrow> bm_update ops obj (0 + 1) m)"

definition obj_exist :: "('k, 'm) bpf_map \<Rightarrow> int \<Rightarrow> 'k \<Rightarrow> 'm \<Rightarrow> bool" where
  "obj_exist ops fd obj m \<longleftrightarrow> 0 < fd \<and> bm_lookup ops obj m \<noteq> None"

definition proc_put :: "(proc_s, 'm) bpf_map \<Rightarrow> obj_module \<Rightarrow> proc_s \<Rightarrow> 'm \<Rightarrow> int \<times> 'm" where
  "proc_put ops om = obj_put ops (proc_map_fd om)"

definition proc_add :: "(proc_s, 'm) bpf_map \<Rightarrow> obj_module \<Rightarrow> proc_s \<Rightarrow> 'm \<Rightarrow> int \<times> 'm" where
  "proc_add ops om = obj_add ops (proc_map_fd om)"

definition cgrp_put :: "(cgroup_s, 'm) bpf_map \<Rightarrow> obj_module \<Rightarrow> cgroup_s \<Rightarrow> 'm \<Rightarrow> int \<times> 'm" where
  "cgrp_put ops om = obj_put ops (cgrp_map_fd om)"

definition cgrp_add :: "(cgroup_s, 'm) bpf_map \<Rightarrow> obj_module \<Rightarrow> cgroup_s \<Rightarrow> 'm \<Rightarrow> int \<times> 'm" where
  "cgrp_add ops om = obj_add ops (cgrp_map_fd om)"

definition nm_put :: "(nm_s, 'm) bpf_map \<Rightarrow> obj_module \<Rightarrow> nm_s \<Rightarrow> 'm \<Rightarrow> int \<times> 'm" where
  "nm_put ops om = obj_put ops (nm_map_fd om)"

definition nm_add :: "(nm_s, 'm) bpf_map \<Rightarrow> obj_module \<Rightarrow> nm_s \<Rightarrow> 'm \<Rightarrow> int \<times> 'm" where
  "nm_add ops om = obj_add ops (nm_map_fd om)"

definition is_proc_exist :: "(proc_s, 'm) bpf_map \<Rightarrow> obj_module \<Rightarrow> proc_s \<Rightarrow> 'm \<Rightarrow> bool" where
  "is_proc_exist ops om = obj_exist ops (proc_map_fd om)"

definition is_cgrp_exist :: "(cgroup_s, 'm) bpf_map \<Rightarrow> obj_module \<Rightarrow> cgroup_s \<Rightarrow> 'm \<Rightarrow> bool" where
  "is_cgrp_exist ops om = obj_exist ops (cgrp_map_fd om)"

definition is_nm_exist :: "(nm_s, 'm) bpf_map \<Rightarrow> obj_module \<Rightarrow> nm_s \<Rightarrow> 'm \<Rightarrow> bool" where
  "is_nm_exist ops om = obj_exist ops (nm_map_fd om)"

section \<open>The module\<close>

text \<open>The id in front of the colon of a line of \<open>bpftool map list\<close>.\<close>

definition get_id_by_name :: "string \<Rightarrow> string \<Rightarrow> int" where
  "get_id_by_name line map_name =
     (if strstr line map_name = None then 0
      else if CHR '':'' \<notin> set line then 0
      else let ids = takeWhile (\<lambda>c. c \<noteq> CHR '':'') line in
        if ids = [] \<or> length ids \<ge> INT_LEN then 0 else atoi ids)"

text \<open>The lines the command prints; none when it cannot be run.\<close>

fun first_id :: "string \<Rightarrow> string list \<Rightarrow> int \<Rightarrow> int" where
  "first_id map_name [] found = found"
| "first_id map_name (line # ls) found =
     (let found = get_id_by_name line map_name in if found > 0 then found else first_id map_name ls found)"

definition find_map_id_by_name :: "string list option \<Rightarrow> string \<Rightarrow> int" where
  "find_map_id_by_name output map_name = (case output of None \<Rightarrow> 0 | Some ls \<Rightarrow> first_id map_name ls 0)"

record obj_env =
  oe_bpftool :: "string \<Rightarrow> string list option"
  oe_fd_by_id :: "u32 \<Rightarrow> int"

definition get_map_fd_by_name :: "obj_env \<Rightarrow> string \<Rightarrow> int" where
  "get_map_fd_by_name env map_name =
     (let i = (of_int (find_map_id_by_name (oe_bpftool env map_name) map_name) :: u32) in if i = 0 then 0 else oe_fd_by_id env i)"

definition CGRP_MAP_INIT_OK :: int where "CGRP_MAP_INIT_OK = 1"
definition NM_MAP_INIT_OK :: int where "NM_MAP_INIT_OK = 2"
definition PROC_MAP_INIT_OK :: int where "PROC_MAP_INIT_OK = 4"

text \<open>The flags are distinct bits, so that their sum is their disjunction.\<close>

definition obj_module_init_ok :: "obj_module \<Rightarrow> int" where
  "obj_module_init_ok om =
     (if cgrp_map_fd om > 0 then CGRP_MAP_INIT_OK else 0) + (if nm_map_fd om > 0 then NM_MAP_INIT_OK else 0)
     + (if proc_map_fd om > 0 then PROC_MAP_INIT_OK else 0)"

definition obj_module_set_maps_fd :: "obj_env \<Rightarrow> obj_module \<Rightarrow> obj_module" where
  "obj_module_set_maps_fd env om =
     om\<lparr>cgrp_map_fd := (if cgrp_map_fd om = 0 then get_map_fd_by_name env ''cgrp_obj_map'' else cgrp_map_fd om),
        nm_map_fd := (if nm_map_fd om = 0 then get_map_fd_by_name env ''nm_obj_map'' else nm_map_fd om),
        proc_map_fd := (if proc_map_fd om = 0 then get_map_fd_by_name env ''proc_obj_map'' else proc_map_fd om)\<rparr>"

definition obj_module_init :: "obj_env \<Rightarrow> obj_module \<Rightarrow> obj_module" where
  "obj_module_init env om = (obj_module_set_maps_fd env om)\<lparr>om_init := 1\<rparr>"

definition obj_module_exit :: "obj_module \<Rightarrow> obj_module" where
  "obj_module_exit om = \<lparr>om_init = 0, proc_map_fd = 0, cgrp_map_fd = 0, nm_map_fd = 0\<rparr>"

section \<open>References are not counted\<close>

text \<open>A sequence of references taken and given back.\<close>

datatype 'k obj_op = Ref 'k | Unref 'k

fun ref_run :: "('k \<Rightarrow> 'm \<Rightarrow> int \<times> 'm) \<Rightarrow> ('k \<Rightarrow> 'm \<Rightarrow> int \<times> 'm) \<Rightarrow> 'k obj_op list \<Rightarrow> 'm \<Rightarrow> 'm" where
  "ref_run add put [] m = m"
| "ref_run add put (Ref k # xs) m = ref_run add put xs (snd (add k m))"
| "ref_run add put (Unref k # xs) m = ref_run add put xs (snd (put k m))"

text \<open>What holds of the code: the last operation on an object decides.\<close>

fun obj_held :: "'k obj_op list \<Rightarrow> 'k \<Rightarrow> bool \<Rightarrow> bool" where
  "obj_held [] k b = b"
| "obj_held (Ref j # xs) k b = obj_held xs k (if j = k then True else b)"
| "obj_held (Unref j # xs) k b = obj_held xs k (if j = k then False else b)"

text \<open>The processes in a map of at most \<open>n\<close> entries that starts with those of \<open>S\<close>: a new one is taken only while there is room.\<close>

fun refs_kept :: "nat \<Rightarrow> 'k obj_op list \<Rightarrow> 'k set \<Rightarrow> 'k set" where
  "refs_kept n [] S = S"
| "refs_kept n (Ref k # xs) S = refs_kept n xs (if k \<in> S \<or> card S < n then insert k S else S)"
| "refs_kept n (Unref k # xs) S = refs_kept n xs (S - {k})"

fun op_key :: "'k obj_op \<Rightarrow> 'k" where
  "op_key (Ref k) = k"
| "op_key (Unref k) = k"

definition ones :: "('k, 'm) bpf_map \<Rightarrow> 'm \<Rightarrow> bool" where
  "ones ops m \<longleftrightarrow> (\<forall>k c. bm_lookup ops k m = Some c \<longrightarrow> c = 1)"

lemma bpf_updateD:
  assumes "bpf_map_ok ops n"
  shows "bm_lookup ops k' (snd (bm_update ops k v m)) = (if k' = k \<and> has_room ops n k m then Some v else bm_lookup ops k' m)"
proof -
  obtain r m' where u: "bm_update ops k v m = (r, m')" by (cases "bm_update ops k v m")
  then show ?thesis using assms unfolding bpf_map_ok_def by (metis snd_conv)
qed

lemma bpf_deleteD:
  "bpf_map_ok ops n \<Longrightarrow> bm_lookup ops k m \<noteq> None \<Longrightarrow>
    bm_lookup ops k' (snd (bm_delete ops k m)) = (if k' = k then None else bm_lookup ops k' m)"
  unfolding bpf_map_ok_def by blast

lemma add_lookup:
  "bpf_map_ok ops n \<Longrightarrow> 0 < fd \<Longrightarrow> bm_lookup ops k' (snd (obj_add ops fd k m)) = (if k' = k \<and> has_room ops n k m then Some 1 else bm_lookup ops k' m)"
  by (auto simp: obj_add_def bpf_updateD split: option.split)

lemma put_lookup:
  "bpf_map_ok ops n \<Longrightarrow> ones ops m \<Longrightarrow> 0 < fd \<Longrightarrow> bm_lookup ops k' (snd (obj_put ops fd k m)) = (if k' = k then None else bm_lookup ops k' m)"
proof -
  assume a: "bpf_map_ok ops n" "ones ops m" "0 < fd"
  show ?thesis
  proof (cases "bm_lookup ops k m")
    case (Some c)
    then have "c = 1" using a(2) by (simp add: ones_def)
    then show ?thesis using a Some by (simp add: obj_put_def bpf_deleteD)
  qed (use a in \<open>simp add: obj_put_def\<close>)
qed

lemma ones_step:
  assumes "bpf_map_ok ops n" "0 < fd" "ones ops m"
  shows "ones ops (snd (obj_add ops fd k m))" "ones ops (snd (obj_put ops fd k m))"
  using assms(3) unfolding ones_def add_lookup [OF assms(1,2)] put_lookup [OF assms(1,3,2)] by auto

lemma keys_step:
  assumes "bpf_map_ok ops n" "0 < fd" "ones ops m"
  shows "map_keys ops (snd (obj_add ops fd k m)) = (if k \<in> map_keys ops m \<or> card (map_keys ops m) < n then insert k (map_keys ops m) else map_keys ops m)"
    and "map_keys ops (snd (obj_put ops fd k m)) = map_keys ops m - {k}"
  unfolding map_keys_def add_lookup [OF assms(1,2)] put_lookup [OF assms(1,3,2)] has_room_def by auto

lemma run_kept:
  assumes "bpf_map_ok ops n" "0 < fd" "ones ops m"
  shows "ones ops (ref_run (obj_add ops fd) (obj_put ops fd) xs m) \<and> map_keys ops (ref_run (obj_add ops fd) (obj_put ops fd) xs m) = refs_kept n xs (map_keys ops m)"
  using assms(3)
proof (induction xs arbitrary: m)
  case (Cons x xs)
  note s = ones_step [OF assms(1,2) Cons.prems] and k = keys_step [OF assms(1,2) Cons.prems]
  show ?case using Cons.IH [OF s(1)] Cons.IH [OF s(2)] by (cases x) (simp_all only: ref_run.simps refs_kept.simps k)
qed simp

text \<open>While the operations name no more objects than the map has room for, the last one on an object decides.\<close>

lemma refs_kept_room:
  assumes "finite N" "card N \<le> n"
  shows "S \<subseteq> N \<Longrightarrow> op_key ` set xs \<subseteq> N \<Longrightarrow> k \<in> refs_kept n xs S \<longleftrightarrow> obj_held xs k (k \<in> S)"
proof (induction xs arbitrary: S)
  case (Cons x xs)
  show ?case
  proof (cases x)
    case (Ref j)
    have "j \<in> S \<or> card S < n"
    proof (cases "j \<in> S")
      case False
      then have "S \<subset> N" using Cons.prems Ref by auto
      then have "card S < card N" by (rule psubset_card_mono [OF assms(1)])
      then show ?thesis using assms(2) by simp
    qed simp
    then show ?thesis using Cons.IH [of "insert j S"] Cons.prems Ref by auto
  next
    case (Unref j)
    moreover have "S - {j} \<subseteq> N" "op_key ` set xs \<subseteq> N" using Cons.prems by auto
    ultimately show ?thesis using Cons.IH [of "S - {j}"] by auto
  qed
qed simp

text \<open>C40. References to processes are not counted: whatever references were taken and given back, every count in the map of 1000 entries is 1, and a process stays in the map from the first
  reference that finds room until anyone gives one back. So, while at most 1000 processes are named, a process is there exactly when the last operation on it was taking a reference: one
  user giving it back takes it from all others. The maps behave as hash maps of the kernel do (\<open>bpf_map_ok\<close>), and this one starts empty.\<close>

theorem proc_references_not_counted:
  assumes "bpf_map_ok ops PROC_MAP_MAX_ENTRIES" "0 < proc_map_fd om" "\<And>k. bm_lookup ops k m = None"
  shows "ones ops (ref_run (proc_add ops om) (proc_put ops om) xs m) \<and>
    (is_proc_exist ops om p (ref_run (proc_add ops om) (proc_put ops om) xs m) \<longleftrightarrow> p \<in> refs_kept PROC_MAP_MAX_ENTRIES xs {}) \<and>
    (card (op_key ` set xs) \<le> PROC_MAP_MAX_ENTRIES \<longrightarrow>
      (is_proc_exist ops om p (ref_run (proc_add ops om) (proc_put ops om) xs m) \<longleftrightarrow> obj_held xs p False))"
proof -
  have e: "ones ops m" "map_keys ops m = {}" using assms(3) by (simp_all add: ones_def map_keys_def)
  note r = run_kept [OF assms(1,2) e(1), of xs, unfolded e(2)]
  have "p \<in> refs_kept PROC_MAP_MAX_ENTRIES xs {} \<longleftrightarrow> obj_held xs p False" if "card (op_key ` set xs) \<le> PROC_MAP_MAX_ENTRIES"
    using refs_kept_room [OF _ that, of "{}" xs p] by simp
  then show ?thesis using r assms(2) by (auto simp: is_proc_exist_def proc_add_def proc_put_def obj_exist_def map_keys_def)
qed

text \<open>A map of at most \<open>n\<close> entries as an association list.\<close>

definition alist_bpf :: "nat \<Rightarrow> ('k, ('k \<times> u32) list) bpf_map" where
  "alist_bpf n = \<lparr>bm_lookup = (\<lambda>k m. map_of m k),
     bm_update = (\<lambda>k v m. if k \<in> fst ` set m \<or> card (fst ` set m) < n then (0, (k, v) # filter (\<lambda>x. fst x \<noteq> k) m) else (- 7, m)),
     bm_delete = (\<lambda>k m. (if map_of m k = None then - 2 else 0, filter (\<lambda>x. fst x \<noteq> k) m)), bm_enoent = - 2\<rparr>"

lemma alist_bpf_keys: "map_keys (alist_bpf n) m = fst ` set m"
  by (auto simp: map_keys_def alist_bpf_def map_of_eq_None_iff simp flip: not_None_eq)

lemma alist_bpf_ok: "bpf_map_ok (alist_bpf n) n"
  unfolding bpf_map_ok_def has_room_def alist_bpf_keys by (auto simp: alist_bpf_def map_of_filter_key)

theorem proc_references_not_counted_witness:
  "\<not> is_proc_exist (alist_bpf 1000) \<lparr>om_init = 1, proc_map_fd = 3, cgrp_map_fd = 4, nm_map_fd = 5\<rparr> \<lparr>proc_id = 7\<rparr>
     (ref_run (proc_add (alist_bpf 1000) \<lparr>om_init = 1, proc_map_fd = 3, cgrp_map_fd = 4, nm_map_fd = 5\<rparr>)
       (proc_put (alist_bpf 1000) \<lparr>om_init = 1, proc_map_fd = 3, cgrp_map_fd = 4, nm_map_fd = 5\<rparr>) [Ref \<lparr>proc_id = 7\<rparr>, Ref \<lparr>proc_id = 7\<rparr>, Unref \<lparr>proc_id = 7\<rparr>] [])"
proof -
  have "bm_lookup (alist_bpf 1000) k [] = None" for k :: proc_s by (simp add: alist_bpf_def)
  moreover have "bpf_map_ok (alist_bpf 1000 :: (proc_s, (proc_s \<times> u32) list) bpf_map) PROC_MAP_MAX_ENTRIES" by (simp add: PROC_MAP_MAX_ENTRIES_def alist_bpf_ok)
  ultimately show ?thesis
    using proc_references_not_counted [of "alist_bpf 1000" "\<lparr>om_init = 1, proc_map_fd = 3, cgrp_map_fd = 4, nm_map_fd = 5\<rparr>" "[]"
        "[Ref \<lparr>proc_id = 7\<rparr>, Ref \<lparr>proc_id = 7\<rparr>, Unref \<lparr>proc_id = 7\<rparr>]" "\<lparr>proc_id = 7\<rparr>"]
    by (simp add: PROC_MAP_MAX_ENTRIES_def)
qed

end
