(* ===== verification/Pod_Mng.thy ===== *)
theory Pod_Mng
  imports Uthash C_Strings
begin

unbundle bit_operations_syntax

text \<open>
  The map of pods and containers, src/src/lib/probe/pod_mng.c: the parser of cgroup paths, the table
  of pods with a table of containers in each, and the operations on them that cgroup events and
  requests trigger. \<open>malloc_ok\<close> says which allocation succeeds. The functions of
  src/src/common/container.c ask the container engine through a shell; what they answer is an
  argument, \<open>con_env\<close>, as is the result of the cgroup map of the kernel (\<open>cgrp_add\<close>, \<open>cgrp_put\<close>).
  A \<open>pod_info_ptr\<close> is the key of the pod it points into.
\<close>

section \<open>Data\<close>

definition POD_ID_LEN :: nat where "POD_ID_LEN = 36"
definition CONTAINER_ABBR_ID_LEN :: nat where "CONTAINER_ABBR_ID_LEN = 12"
definition KUBEPODS_PREFIX :: string where "KUBEPODS_PREFIX = ''/kubepods/''"
definition DOCKER_PREFIX :: string where "DOCKER_PREFIX = ''/docker/''"
definition PODID_PREFIX :: string where "PODID_PREFIX = ''/pod''"
definition FAKE_POD_ID :: string where "FAKE_POD_ID = ''-no-pod''"
definition FILTER_FLAGS_IGNORE :: u32 where "FILTER_FLAGS_IGNORE = 0x0000"
definition FILTER_FLAGS_NORMAL :: u32 where "FILTER_FLAGS_NORMAL = 0x0001"

lemmas pod_consts = POD_ID_LEN_def CONTAINER_ABBR_ID_LEN_def KUBEPODS_PREFIX_def DOCKER_PREFIX_def
  PODID_PREFIX_def FAKE_POD_ID_def FILTER_FLAGS_IGNORE_def FILTER_FLAGS_NORMAL_def

datatype id_ret_t = ID_FAILED | ID_CON_POD | ID_CON_ONLY | ID_POD_ONLY

datatype filter_op_t = FILTER_OP_ADD | FILTER_OP_RM

datatype cb_rslt_t = CB_CONTINUE | CB_STOP | CB_ERR

record con_info_s =
  ci_flags :: u32
  ci_cpucg_inode :: u32
  ci_pod_info_ptr :: "string option"
  ci_con_id :: string
  ci_container_name :: string
  ci_libc_path :: string
  ci_libssl_path :: string

record containers_hash_t =
  ch_con_id :: string
  ch_con_info :: con_info_s

record 'c pod_info_s =
  pi_pod_id :: string
  pi_pod_ip_str :: string
  pi_con_head :: 'c

record 'c pods_hash_t =
  ph_pod_id :: string
  ph_pod_info :: "'c pod_info_s"

type_synonym 'c con_ops = "(string, containers_hash_t, 'c) uthash"
type_synonym ('p, 'c) pod_ops = "(string, 'c pods_hash_t, 'p) uthash"

text \<open>What the container engine answers, per container or pod id.\<close>

record con_env =
  env_cpucg_inode :: "string \<Rightarrow> u32 option"
  env_container_name :: "string \<Rightarrow> string"
  env_elf_path :: "string \<Rightarrow> string \<Rightarrow> string"
  env_pod_ip :: "string \<Rightarrow> string"
  env_list_containers :: "string \<Rightarrow> string list"
  env_cgrp :: "filter_op_t \<Rightarrow> u32 \<Rightarrow> int"

datatype pod_alloc = A_Pod string | A_Con string

section \<open>Paths of cgroups\<close>

text \<open>
  The two copy loops of \<open>get_pod_container_id\<close>: \<open>rest\<close> is the text at \<open>p + i\<close>, \<open>n\<close> the bound on \<open>i\<close>.
  A slash is replaced by the terminator and counted.
\<close>

fun copy_id :: "nat \<Rightarrow> string \<Rightarrow> nat \<Rightarrow> string \<Rightarrow> (nat \<times> string) outc" where
  "copy_id n [] i buf = Ok (i, buf)"
| "copy_id n (c # rest) i buf =
     (if \<not> i < n then Ok (i, buf)
      else if c = CHR ''/'' then bnd (put_char buf i (CHR 0x00)) (\<lambda>buf. Ok (i + 1, buf))
      else bnd (put_char buf i c) (\<lambda>buf. copy_id n rest (i + 1) buf))"

text \<open>The end of the function: the container id at the text \<open>p\<close>.\<close>

definition get_con_part :: "id_ret_t \<Rightarrow> string \<Rightarrow> string \<Rightarrow> string \<Rightarrow> (id_ret_t \<times> string \<times> string) outc" where
  "get_con_part ret p pod_id con_id =
     bnd (copy_id CONTAINER_ABBR_ID_LEN p 0 con_id) (\<lambda>(j, con_id).
     bnd (put_char con_id CONTAINER_ABBR_ID_LEN (CHR 0x00)) (\<lambda>con_id. Ok (ret, pod_id, con_id)))"

text \<open>\<open>snprintf\<close> into the array: the string, its terminator, and the rest of the array.\<close>

definition put_string :: "string \<Rightarrow> nat \<Rightarrow> string \<Rightarrow> string" where
  "put_string buf n s = (let t = snprintf_s n s @ [CHR 0x00] in t @ drop (length t) buf)"

definition get_pod_container_id :: "string option \<Rightarrow> string \<Rightarrow> string \<Rightarrow> (id_ret_t \<times> string \<times> string) outc" where
  "get_pod_container_id cgrp_path pod_id con_id =
     (case cgrp_path of None \<Rightarrow> Ok (ID_FAILED, pod_id, con_id)
      | Some path \<Rightarrow>
          if strstr path KUBEPODS_PREFIX \<noteq> None then
            (case strstr path PODID_PREFIX of None \<Rightarrow> Ok (ID_FAILED, pod_id, con_id)
             | Some at \<Rightarrow>
                 (let p = drop (at + 4) path in
                  bnd (copy_id POD_ID_LEN p 0 pod_id) (\<lambda>(i, pod_id).
                  bnd (put_char pod_id POD_ID_LEN (CHR 0x00)) (\<lambda>pod_id.
                    if i = length p then Ok (ID_POD_ONLY, pod_id, con_id)
                    else get_con_part ID_CON_POD (drop i p) pod_id con_id))))
          else (case strstr path DOCKER_PREFIX of None \<Rightarrow> Ok (ID_FAILED, pod_id, con_id)
             | Some at \<Rightarrow> get_con_part ID_CON_ONLY (drop (at + 8) path)
                 (put_string pod_id (POD_ID_LEN + 1) FAKE_POD_ID) con_id))"

section \<open>Containers of a pod\<close>

text \<open>The head of a table is \<open>NULL\<close> when the table has no item.\<close>

definition no_items :: "('k, 'v, 'h) uthash \<Rightarrow> 'h \<Rightarrow> bool" where
  "no_items ops h \<longleftrightarrow> ut_iter ops h = []"

definition zero_con_info :: con_info_s where
  "zero_con_info = \<lparr>ci_flags = 0, ci_cpucg_inode = 0, ci_pod_info_ptr = None, ci_con_id = [],
     ci_container_name = [], ci_libc_path = [], ci_libssl_path = []\<rparr>"

text \<open>The key of the new item is its own field, cut to 12 characters by \<open>strncpy\<close>.\<close>

definition add_con_hash :: "'c con_ops \<Rightarrow> (pod_alloc \<Rightarrow> bool) \<Rightarrow> 'c \<Rightarrow> string \<Rightarrow> 'c \<times> int" where
  "add_con_hash cops malloc_ok con_head con_id =
     (if \<not> malloc_ok (A_Con con_id) then (con_head, -1)
      else (let id = take CONTAINER_ABBR_ID_LEN con_id
            in (ut_add cops id \<lparr>ch_con_id = id, ch_con_info = zero_con_info\<rparr> con_head, 0)))"

definition set_con_info :: "con_env \<Rightarrow> string \<Rightarrow> string \<Rightarrow> containers_hash_t \<Rightarrow> containers_hash_t" where
  "set_con_info env pod con_id con =
     (let ci = ch_con_info con;
          ci = ci\<lparr>ci_pod_info_ptr := Some pod\<rparr>;
          ci = (if ci_con_id ci = [] then ci\<lparr>ci_con_id := snprintf_s (CONTAINER_ABBR_ID_LEN + 1) con_id\<rparr> else ci);
          ci = (case env_cpucg_inode env con_id of None \<Rightarrow> ci | Some i \<Rightarrow> ci\<lparr>ci_cpucg_inode := i\<rparr>);
          ci = ci\<lparr>ci_container_name := env_container_name env con_id\<rparr>;
          ci = ci\<lparr>ci_libc_path := env_elf_path env con_id ''libc.so''\<rparr>;
          ci = ci\<lparr>ci_libssl_path := env_elf_path env con_id ''libssl''\<rparr>
      in con\<lparr>ch_con_info := ci\<rparr>)"

text \<open>Returns the pod with its table and the item added, if any.\<close>

definition add_one_con :: "'c con_ops \<Rightarrow> con_env \<Rightarrow> (pod_alloc \<Rightarrow> bool) \<Rightarrow> string \<Rightarrow> 'c pod_info_s \<Rightarrow> string
    \<Rightarrow> 'c pod_info_s \<times> containers_hash_t option" where
  "add_one_con cops env malloc_ok pod pinfo con_id =
     (if con_id = [] then (pinfo, None)
      else case add_con_hash cops malloc_ok (pi_con_head pinfo) con_id of (h, ret) \<Rightarrow>
        if ret \<noteq> 0 then (pinfo, None)
        else case ut_find cops con_id h of
            None \<Rightarrow> (pinfo\<lparr>pi_con_head := h\<rparr>, None)
          | Some con \<Rightarrow> (let con = set_con_info env pod con_id con
                         in (pinfo\<lparr>pi_con_head := ut_write cops con_id con h\<rparr>, Some con)))"

definition del_one_con :: "'c con_ops \<Rightarrow> 'c pod_info_s \<Rightarrow> string \<Rightarrow> 'c pod_info_s" where
  "del_one_con cops pinfo con_id =
     (if no_items cops (pi_con_head pinfo) then pinfo
      else case ut_find cops con_id (pi_con_head pinfo) of None \<Rightarrow> pinfo
        | Some con \<Rightarrow> pinfo\<lparr>pi_con_head := ut_del cops con_id (pi_con_head pinfo)\<rparr>)"

definition del_cons :: "'c con_ops \<Rightarrow> 'c \<Rightarrow> 'c" where
  "del_cons cops h = (if no_items cops h then h else
     (let h = foldl (\<lambda>h x. ut_del cops (fst x) h) h (ut_iter cops h) in ut_empty cops))"

section \<open>Pods\<close>

definition get_pod_info_from_pod_id :: "('p, 'c) pod_ops \<Rightarrow> 'p \<Rightarrow> string option \<Rightarrow> 'c pod_info_s option" where
  "get_pod_info_from_pod_id pops pod_head pod_id =
     (case pod_id of None \<Rightarrow> None
      | Some i \<Rightarrow> if i = [] then None else map_option ph_pod_info (ut_find pops i pod_head))"

definition get_con_info :: "('p, 'c) pod_ops \<Rightarrow> 'c con_ops \<Rightarrow> 'p \<Rightarrow> string option \<Rightarrow> string \<Rightarrow> con_info_s option" where
  "get_con_info pops cops pod_head pod_id con_id =
     (case get_pod_info_from_pod_id pops pod_head pod_id of None \<Rightarrow> None
      | Some pinfo \<Rightarrow> map_option ch_con_info (ut_find cops con_id (pi_con_head pinfo)))"

definition add_pod_hash :: "('p, 'c) pod_ops \<Rightarrow> 'c con_ops \<Rightarrow> (pod_alloc \<Rightarrow> bool) \<Rightarrow> 'p \<Rightarrow> string \<Rightarrow> 'p \<times> int" where
  "add_pod_hash pops cops malloc_ok pod_head pod_id =
     (if \<not> malloc_ok (A_Pod pod_id) then (pod_head, -1)
      else (let id = take POD_ID_LEN pod_id
            in (ut_add pops id \<lparr>ph_pod_id = id, ph_pod_info = \<lparr>pi_pod_id = [], pi_pod_ip_str = [],
                  pi_con_head = ut_empty cops\<rparr>\<rparr> pod_head, 0)))"

definition set_pod_info :: "con_env \<Rightarrow> string \<Rightarrow> string \<Rightarrow> 'c pods_hash_t \<Rightarrow> 'c pods_hash_t" where
  "set_pod_info env pod_id con_id pod =
     (let pi = ph_pod_info pod;
          pi = (if pi_pod_id pi = [] then pi\<lparr>pi_pod_id := snprintf_s (POD_ID_LEN + 1) pod_id\<rparr> else pi);
          pi = (if pi_pod_ip_str pi = [] then pi\<lparr>pi_pod_ip_str := env_pod_ip env con_id\<rparr> else pi)
      in pod\<lparr>ph_pod_info := pi\<rparr>)"

definition add_one_pod :: "('p, 'c) pod_ops \<Rightarrow> 'c con_ops \<Rightarrow> con_env \<Rightarrow> (pod_alloc \<Rightarrow> bool) \<Rightarrow> 'p \<Rightarrow> string
    \<Rightarrow> string \<Rightarrow> id_ret_t \<Rightarrow> 'p \<times> 'c pods_hash_t option" where
  "add_one_pod pops cops env malloc_ok pod_head pod_id con_id id_ret =
     (if pod_id = [] then (pod_head, None)
      else case (case ut_find pops pod_id pod_head of
            Some pod \<Rightarrow> (pod_head, Some pod)
          | None \<Rightarrow> (case add_pod_hash pops cops malloc_ok pod_head pod_id of (h, ret) \<Rightarrow>
              if ret \<noteq> 0 then (pod_head, None) else (h, ut_find pops pod_id h))) of
        (h, None) \<Rightarrow> (h, None)
      | (h, Some pod) \<Rightarrow>
          if con_id \<noteq> [] \<and> id_ret \<noteq> ID_CON_ONLY
          then (let pod = set_pod_info env pod_id con_id pod in (ut_write pops pod_id pod h, Some pod))
          else (h, Some pod))"

definition del_one_pod :: "('p, 'c) pod_ops \<Rightarrow> 'p \<Rightarrow> string \<Rightarrow> 'p" where
  "del_one_pod pops pod_head pod_id =
     (case ut_find pops pod_id pod_head of None \<Rightarrow> pod_head | Some pod \<Rightarrow> ut_del pops pod_id pod_head)"

definition del_pods :: "('p, 'c) pod_ops \<Rightarrow> 'p \<Rightarrow> 'p" where
  "del_pods pops h = (if no_items pops h then h else
     (let h = foldl (\<lambda>h x. ut_del pops (fst x) h) h (ut_iter pops h) in ut_empty pops))"

definition add_pod_con_map :: "('p, 'c) pod_ops \<Rightarrow> 'c con_ops \<Rightarrow> con_env \<Rightarrow> (pod_alloc \<Rightarrow> bool) \<Rightarrow> 'p \<Rightarrow> string
    \<Rightarrow> string \<Rightarrow> id_ret_t \<Rightarrow> 'p" where
  "add_pod_con_map pops cops env malloc_ok pod_head pod_id con_id id_ret =
     (case add_one_pod pops cops env malloc_ok pod_head pod_id con_id id_ret of
        (h, None) \<Rightarrow> h
      | (h, Some pod) \<Rightarrow>
          if id_ret = ID_CON_POD \<or> id_ret = ID_CON_ONLY
          then ut_write pops pod_id (pod\<lparr>ph_pod_info :=
                 fst (add_one_con cops env malloc_ok pod_id (ph_pod_info pod) con_id)\<rparr>) h
          else h)"

definition del_pod_con_map :: "('p, 'c) pod_ops \<Rightarrow> 'c con_ops \<Rightarrow> 'p \<Rightarrow> string \<Rightarrow> string \<Rightarrow> id_ret_t \<Rightarrow> 'p" where
  "del_pod_con_map pops cops pod_head pod_id con_id id_ret =
     (if id_ret = ID_POD_ONLY then del_one_pod pops pod_head pod_id
      else if id_ret = ID_CON_POD \<or> id_ret = ID_CON_ONLY then
        (case ut_find pops pod_id pod_head of None \<Rightarrow> pod_head
         | Some pod \<Rightarrow> ut_write pops pod_id
             (pod\<lparr>ph_pod_info := del_one_con cops (ph_pod_info pod) con_id\<rparr>) pod_head)
      else pod_head)"

definition existing_pod_mk_process :: "('p, 'c) pod_ops \<Rightarrow> 'c con_ops \<Rightarrow> con_env \<Rightarrow> (pod_alloc \<Rightarrow> bool) \<Rightarrow> 'p
    \<Rightarrow> string \<Rightarrow> 'p" where
  "existing_pod_mk_process pops cops env malloc_ok pod_head pod_id =
     foldl (\<lambda>h id. add_pod_con_map pops cops env malloc_ok h pod_id id ID_CON_POD) pod_head
       (env_list_containers env pod_id)"

definition get_and_add_con_info :: "('p, 'c) pod_ops \<Rightarrow> 'c con_ops \<Rightarrow> con_env \<Rightarrow> (pod_alloc \<Rightarrow> bool) \<Rightarrow> 'p
    \<Rightarrow> string \<Rightarrow> string option \<Rightarrow> 'p \<times> con_info_s option" where
  "get_and_add_con_info pops cops env malloc_ok pod_head pod_id container_id =
     (case container_id of None \<Rightarrow> (pod_head, None)
      | Some cid \<Rightarrow>
          (let con_id = snprintf_s (CONTAINER_ABBR_ID_LEN + 1) cid in
           case get_con_info pops cops pod_head (Some pod_id) con_id of
             Some ci \<Rightarrow> (pod_head, Some ci)
           | None \<Rightarrow> (let h = add_pod_con_map pops cops env malloc_ok pod_head pod_id con_id ID_CON_ONLY
                      in (h, get_con_info pops cops h (Some pod_id) con_id))))"

definition get_and_add_pod_info :: "('p, 'c) pod_ops \<Rightarrow> 'c con_ops \<Rightarrow> con_env \<Rightarrow> (pod_alloc \<Rightarrow> bool) \<Rightarrow> 'p
    \<Rightarrow> string option \<Rightarrow> 'p \<times> 'c pod_info_s option" where
  "get_and_add_pod_info pops cops env malloc_ok pod_head pod_id =
     (case pod_id of None \<Rightarrow> (pod_head, None)
      | Some i \<Rightarrow>
          (case get_pod_info_from_pod_id pops pod_head (Some i) of
             Some pi \<Rightarrow> (pod_head, Some pi)
           | None \<Rightarrow> (let h = existing_pod_mk_process pops cops env malloc_ok pod_head i
                      in (h, get_pod_info_from_pod_id pops h (Some i)))))"

section \<open>Filters\<close>

definition is_update_container_filter :: "containers_hash_t \<Rightarrow> filter_op_t \<Rightarrow> bool" where
  "is_update_container_filter con op \<longleftrightarrow>
     ci_flags (ch_con_info con) AND FILTER_FLAGS_IGNORE \<noteq> 0 \<and> op = FILTER_OP_ADD
     \<or> ci_flags (ch_con_info con) AND FILTER_FLAGS_NORMAL \<noteq> 0 \<and> op = FILTER_OP_RM"

definition update_container_filter :: "containers_hash_t \<Rightarrow> filter_op_t \<Rightarrow> containers_hash_t" where
  "update_container_filter con op =
     con\<lparr>ch_con_info := (ch_con_info con)\<lparr>ci_flags :=
       (case op of FILTER_OP_ADD \<Rightarrow> FILTER_FLAGS_NORMAL | FILTER_OP_RM \<Rightarrow> FILTER_FLAGS_IGNORE)\<rparr>\<rparr>"

text \<open>
  A callback: its result, the container after it, and the calls it made of the kernel's cgroup map.
  The two of the source differ in the result only.
\<close>

type_synonym callback = "containers_hash_t \<Rightarrow> filter_op_t \<Rightarrow> cb_rslt_t \<times> containers_hash_t \<times> (filter_op_t \<times> u32) list"

definition filter_op_body :: "con_env \<Rightarrow> cb_rslt_t \<Rightarrow> callback" where
  "filter_op_body env done con op =
     (if \<not> is_update_container_filter con op then (done, con, [])
      else case env_cpucg_inode env (ch_con_id con) of None \<Rightarrow> (CB_ERR, con, [])
        | Some inode \<Rightarrow> (if env_cgrp env op inode < 0 then CB_ERR else done,
                         update_container_filter con op, [(op, inode)]))"

definition container_filter_op :: "con_env \<Rightarrow> callback" where
  "container_filter_op env = filter_op_body env CB_CONTINUE"

definition single_container_filter_op :: "con_env \<Rightarrow> callback" where
  "single_container_filter_op env = filter_op_body env CB_STOP"

text \<open>The walk over the items of a container table; the table is written through the items.\<close>

fun walk_cons :: "'c con_ops \<Rightarrow> callback \<Rightarrow> filter_op_t \<Rightarrow> string option \<Rightarrow> (string \<times> containers_hash_t) list
    \<Rightarrow> 'c \<Rightarrow> cb_rslt_t \<times> 'c \<times> (filter_op_t \<times> u32) list" where
  "walk_cons cops cb op cid [] h = (CB_CONTINUE, h, [])"
| "walk_cons cops cb op cid ((k, con) # rest) h =
     (case cid of
        Some i \<Rightarrow>
          if ch_con_id con = i
          then (case cb con op of (r, con, calls) \<Rightarrow> (r, ut_write cops k con h, calls))
          else walk_cons cops cb op cid rest h
      | None \<Rightarrow>
          (case cb con op of (r, con, calls) \<Rightarrow>
             if r \<noteq> CB_CONTINUE then (r, ut_write cops k con h, calls)
             else (case walk_cons cops cb op cid rest (ut_write cops k con h) of
                     (r, h, calls') \<Rightarrow> (r, h, calls @ calls'))))"

definition walk_container_tbl :: "'c con_ops \<Rightarrow> callback \<Rightarrow> filter_op_t \<Rightarrow> string option \<Rightarrow> 'c
    \<Rightarrow> cb_rslt_t \<times> 'c \<times> (filter_op_t \<times> u32) list" where
  "walk_container_tbl cops cb op cid h =
     (if no_items cops h then (CB_CONTINUE, h, []) else walk_cons cops cb op cid (ut_iter cops h) h)"

fun walk_pods :: "('p, 'c) pod_ops \<Rightarrow> 'c con_ops \<Rightarrow> callback \<Rightarrow> filter_op_t \<Rightarrow> string option \<Rightarrow> string option
    \<Rightarrow> (string \<times> 'c pods_hash_t) list \<Rightarrow> 'p \<Rightarrow> cb_rslt_t \<times> 'p \<times> (filter_op_t \<times> u32) list" where
  "walk_pods pops cops cb op pid cid [] h = (CB_CONTINUE, h, [])"
| "walk_pods pops cops cb op pid cid ((k, pod) # rest) h =
     (if pid = None \<or> pid = Some (ph_pod_id pod) then
        (case walk_container_tbl cops cb op cid (pi_con_head (ph_pod_info pod)) of (r, ch, calls) \<Rightarrow>
           (let h = ut_write pops k (pod\<lparr>ph_pod_info := (ph_pod_info pod)\<lparr>pi_con_head := ch\<rparr>\<rparr>) h in
            if pid \<noteq> None \<or> r \<noteq> CB_CONTINUE then (r, h, calls)
            else (case walk_pods pops cops cb op pid cid rest h of (r, h, calls') \<Rightarrow> (r, h, calls @ calls'))))
      else walk_pods pops cops cb op pid cid rest h)"

definition walk_pod_tbl :: "('p, 'c) pod_ops \<Rightarrow> 'c con_ops \<Rightarrow> callback \<Rightarrow> filter_op_t \<Rightarrow> string option
    \<Rightarrow> string option \<Rightarrow> 'p \<Rightarrow> cb_rslt_t \<times> 'p \<times> (filter_op_t \<times> u32) list" where
  "walk_pod_tbl pops cops cb op pid cid h = walk_pods pops cops cb op pid cid (ut_iter pops h) h"

definition filter_pod_op :: "('p, 'c) pod_ops \<Rightarrow> 'c con_ops \<Rightarrow> con_env \<Rightarrow> string option \<Rightarrow> filter_op_t \<Rightarrow> 'p
    \<Rightarrow> cb_rslt_t \<times> 'p \<times> (filter_op_t \<times> u32) list" where
  "filter_pod_op pops cops env pod_id op h =
     walk_pod_tbl pops cops (container_filter_op env) op pod_id None h"

definition filter_container_op :: "('p, 'c) pod_ops \<Rightarrow> 'c con_ops \<Rightarrow> con_env \<Rightarrow> string option \<Rightarrow> filter_op_t \<Rightarrow> 'p
    \<Rightarrow> cb_rslt_t \<times> 'p \<times> (filter_op_t \<times> u32) list" where
  "filter_container_op pops cops env container_id op h =
     walk_pod_tbl pops cops (single_container_filter_op env) op None container_id h"

text \<open>The arrays of \<open>rcv_snooper_cgrp_evt\<close>, initialised with zero bytes.\<close>

definition pod_buf :: string where "pod_buf = replicate (POD_ID_LEN + 1) (CHR 0x00)"
definition con_buf :: string where "con_buf = replicate (CONTAINER_ABBR_ID_LEN + 1) (CHR 0x00)"

text \<open>
  What the tables promise: distinct keys, items filed under their own id, containers that point to
  the pod whose table holds them, and no filter flag set.
\<close>

definition con_ok :: "string \<Rightarrow> string \<Rightarrow> containers_hash_t \<Rightarrow> bool" where
  "con_ok pod k c \<longleftrightarrow> ch_con_id c = k \<and> k \<noteq> [] \<and> length k \<le> CONTAINER_ABBR_ID_LEN \<and>
     ci_con_id (ch_con_info c) = k \<and> ci_pod_info_ptr (ch_con_info c) = Some pod \<and> ci_flags (ch_con_info c) = 0"

definition cons_ok :: "'c con_ops \<Rightarrow> string \<Rightarrow> 'c \<Rightarrow> bool" where
  "cons_ok cops pod h \<longleftrightarrow> keyed cops h \<and> (\<forall>k c. tbl cops h k = Some c \<longrightarrow> con_ok pod k c)"

definition pod_ok :: "'c con_ops \<Rightarrow> string \<Rightarrow> 'c pods_hash_t \<Rightarrow> bool" where
  "pod_ok cops k p \<longleftrightarrow> ph_pod_id p = k \<and> k \<noteq> [] \<and> length k \<le> POD_ID_LEN \<and> cons_ok cops k (pi_con_head (ph_pod_info p))"

definition pods_ok :: "('p, 'c) pod_ops \<Rightarrow> 'c con_ops \<Rightarrow> 'p \<Rightarrow> bool" where
  "pods_ok pops cops h \<longleftrightarrow> keyed pops h \<and> (\<forall>k p. tbl pops h k = Some p \<longrightarrow> pod_ok cops k p)"

text \<open>The abstract state: the information of each container of each pod.\<close>

definition con_map :: "'c con_ops \<Rightarrow> 'c \<Rightarrow> string \<Rightarrow> con_info_s option" where
  "con_map cops h = (\<lambda>c. map_option ch_con_info (tbl cops h c))"

definition pod_map :: "('p, 'c) pod_ops \<Rightarrow> 'c con_ops \<Rightarrow> 'p \<Rightarrow> string \<Rightarrow> (string \<Rightarrow> con_info_s option) option" where
  "pod_map pops cops h = (\<lambda>k. map_option (\<lambda>p. con_map cops (pi_con_head (ph_pod_info p))) (tbl pops h k))"

definition new_con_info :: "con_env \<Rightarrow> string \<Rightarrow> string \<Rightarrow> con_info_s" where
  "new_con_info env pod con = \<lparr>ci_flags = 0,
     ci_cpucg_inode = (case env_cpucg_inode env con of None \<Rightarrow> 0 | Some i \<Rightarrow> i), ci_pod_info_ptr = Some pod,
     ci_con_id = con, ci_container_name = env_container_name env con,
     ci_libc_path = env_elf_path env con ''libc.so'', ci_libssl_path = env_elf_path env con ''libssl''\<rparr>"

definition pod_cons :: "('p, 'c) pod_ops \<Rightarrow> 'c con_ops \<Rightarrow> 'p \<Rightarrow> string \<Rightarrow> string \<Rightarrow> con_info_s option" where
  "pod_cons pops cops h k = (case pod_map pops cops h k of None \<Rightarrow> Map.empty | Some m \<Rightarrow> m)"

definition demo_con_env :: con_env where
  "demo_con_env = \<lparr>env_cpucg_inode = (\<lambda>c. Some 7), env_container_name = (\<lambda>c. ''web''),
     env_elf_path = (\<lambda>c e. ''/lib/'' @ e), env_pod_ip = (\<lambda>c. ''10.0.0.1''),
     env_list_containers = (\<lambda>p. [''aaaaaaaaaaaa'']), env_cgrp = (\<lambda>op i. 0)\<rparr>"

section \<open>Paths\<close>

lemma put_char_at: "i < length buf \<Longrightarrow> put_char buf i c = Ok (take i buf @ c # drop (Suc i) buf)"
  by (simp add: put_char_def upd_conv_take_nth_drop)

lemma copy_id_run:
  assumes "CHR ''/'' \<notin> set s" "i + length s \<le> n" "n \<le> length buf"
  shows "copy_id n (s @ rest) i buf = copy_id n rest (i + length s) (take i buf @ s @ drop (i + length s) buf)"
  using assms
proof (induction s arbitrary: i buf)
  case (Cons c s)
  then have "i < n" "c \<noteq> CHR ''/''" "i < length buf" by auto
  then have "copy_id n ((c # s) @ rest) i buf = copy_id n (s @ rest) (Suc i) (take i buf @ c # drop (Suc i) buf)"
    by (simp add: put_char_at)
  also have "\<dots> = copy_id n rest (Suc i + length s)
      (take (Suc i) (take i buf @ c # drop (Suc i) buf) @ s @ drop (Suc i + length s) (take i buf @ c # drop (Suc i) buf))"
    using Cons.prems by (intro Cons.IH) auto
  finally show ?case using \<open>i < length buf\<close> by (simp add: min_absorb2 add_ac)
qed simp

lemma copy_id_slash:
  assumes "CHR ''/'' \<notin> set s" "length s \<le> n" "n < length buf"
  shows "copy_id n (s @ CHR ''/'' # rest) 0 buf =
    Ok (if length s = n then (n, s @ drop n buf) else (Suc (length s), s @ CHR 0x00 # drop (Suc (length s)) buf))"
proof -
  have "copy_id n (s @ CHR ''/'' # rest) 0 buf = copy_id n (CHR ''/'' # rest) (length s) (s @ drop (length s) buf)"
    using copy_id_run [of s 0 n buf "CHR ''/'' # rest"] assms by simp
  then show ?thesis
    using assms put_char_at [of "length s" "s @ drop (length s) buf" "CHR 0x00"] by auto
qed

lemma copy_id_end:
  assumes "CHR ''/'' \<notin> set s" "n < length buf"
  shows "copy_id n s 0 buf = Ok (min n (length s), take n s @ drop (min n (length s)) buf)"
proof -
  have "CHR ''/'' \<notin> set (take n s)" using assms(1) by (meson in_set_takeD)
  then have "copy_id n (take n s @ drop n s) 0 buf =
      copy_id n (drop n s) (min n (length s)) (take n s @ drop (min n (length s)) buf)"
    using copy_id_run [of "take n s" 0 n buf "drop n s"] assms by (simp add: min.commute)
  moreover have "copy_id n (drop n s) (min n (length s)) b = Ok (min n (length s), b)" for b
    by (cases "n < length s") (simp_all add: Cons_nth_drop_Suc [symmetric])
  ultimately show ?thesis by simp
qed

lemma chars_string: "CHR 0x00 \<notin> set s \<Longrightarrow> chars (s @ CHR 0x00 # xs) = s"
  by (induction s) (auto simp: chars_def)

lemma replicate_update: "(replicate m x)[i := x] = replicate m x"
  by (cases "i < m") (simp_all add: list_update_same_conv list_update_beyond)

lemma chars_replicate: "chars (replicate m (CHR 0x00)) = []"
  by (cases m) (simp_all add: chars_def)

lemma con_part_value:
  assumes "CHR ''/'' \<notin> set cid" "CHR 0x00 \<notin> set cid"
  shows "\<exists>cb. get_con_part ret cid pb con_buf = Ok (ret, pb, cb) \<and> chars cb = take CONTAINER_ABBR_ID_LEN cid"
proof -
  let ?t = "take CONTAINER_ABBR_ID_LEN cid"
  have l: "length ?t \<le> CONTAINER_ABBR_ID_LEN" by simp
  have "get_con_part ret cid pb con_buf =
      Ok (ret, pb, (?t @ drop (length ?t) con_buf)[CONTAINER_ABBR_ID_LEN := CHR 0x00])"
    using copy_id_end [OF assms(1), of CONTAINER_ABBR_ID_LEN con_buf]
    by (simp add: get_con_part_def con_buf_def put_char_def min.commute)
  moreover have "(?t @ drop (length ?t) con_buf)[CONTAINER_ABBR_ID_LEN := CHR 0x00] =
      ?t @ replicate (Suc CONTAINER_ABBR_ID_LEN - length ?t) (CHR 0x00)"
    using l by (simp add: con_buf_def list_update_append replicate_update del: replicate_Suc)
  moreover have "\<dots> = ?t @ CHR 0x00 # replicate (CONTAINER_ABBR_ID_LEN - length ?t) (CHR 0x00)"
    using l by (simp add: Suc_diff_le)
  moreover have "CHR 0x00 \<notin> set ?t" using assms(2) by (meson in_set_takeD)
  ultimately show ?thesis by (simp add: chars_string)
qed


text \<open>A cgroup path of Kubernetes, \<open>.../pod<pod id>/<container id>\<close>, gives the pod id and the first
  twelve characters of the container id only when the pod id is shorter than 36 characters. A pod id
  of 36 characters, the length of a UUID, fills the array up to its bound, the slash behind it is not
  skipped, and the container id comes back empty: the container is never found.\<close>

theorem pod_path_container_id:
  assumes "strstr path KUBEPODS_PREFIX \<noteq> None" "strstr path PODID_PREFIX = Some at"
    and "drop (at + 4) path = pid @ CHR ''/'' # cid"
    and "CHR ''/'' \<notin> set pid" "CHR ''/'' \<notin> set cid" "CHR 0x00 \<notin> set pid" "CHR 0x00 \<notin> set cid"
    and "length pid \<le> POD_ID_LEN" "cid \<noteq> []"
  shows "\<exists>pb cb. get_pod_container_id (Some path) pod_buf con_buf = Ok (ID_CON_POD, pb, cb) \<and> chars pb = pid \<and>
           chars cb = (if length pid = POD_ID_LEN then [] else take CONTAINER_ABBR_ID_LEN cid)"
proof -
  let ?pb = "pid @ replicate (Suc POD_ID_LEN - length pid) (CHR 0x00)"
  have c: "copy_id POD_ID_LEN (pid @ CHR ''/'' # cid) 0 pod_buf =
      Ok (if length pid = POD_ID_LEN then POD_ID_LEN else Suc (length pid), ?pb)"
    using copy_id_slash [OF assms(4,8), of pod_buf cid] assms(8)
    by (auto simp: pod_buf_def Suc_diff_le simp del: replicate_Suc simp flip: replicate_Suc)
  have u: "put_char ?pb POD_ID_LEN (CHR 0x00) = Ok ?pb"
    using assms(8) by (simp add: put_char_def list_update_append replicate_update)
  have pb: "chars ?pb = pid" using assms(6,8) by (simp add: Suc_diff_le chars_string)
  show ?thesis
  proof (cases "length pid = POD_ID_LEN")
    case True
    then have "get_pod_container_id (Some path) pod_buf con_buf = get_con_part ID_CON_POD (CHR ''/'' # cid) ?pb con_buf"
      using assms(1,2,9) c u by (simp add: get_pod_container_id_def assms(3) Let_def)
    moreover have "\<exists>cb. get_con_part ID_CON_POD (CHR ''/'' # cid) ?pb con_buf = Ok (ID_CON_POD, ?pb, cb) \<and> chars cb = []"
      by (simp add: get_con_part_def con_buf_def put_char_def pod_consts replicate_update chars_replicate)
    ultimately show ?thesis using pb True by auto
  next
    case False
    then have "get_pod_container_id (Some path) pod_buf con_buf = get_con_part ID_CON_POD cid ?pb con_buf"
      using assms(1,2,9) c u by (simp add: get_pod_container_id_def assms(3) Let_def)
    then show ?thesis using con_part_value [OF assms(5,7), of ID_CON_POD ?pb] pb False by auto
  qed
qed

theorem pod_path_container_id_witness:
  "\<exists>pb cb. get_pod_container_id (Some ''/kubepods/besteffort/pod6cfd4235-599f-493a-9880-970f3a3d4c31/50a3732f21659025'')
      pod_buf con_buf = Ok (ID_CON_POD, pb, cb) \<and> chars pb = ''6cfd4235-599f-493a-9880-970f3a3d4c31'' \<and> chars cb = []"
  using pod_path_container_id [of "''/kubepods/besteffort/pod6cfd4235-599f-493a-9880-970f3a3d4c31/50a3732f21659025''"
      20 "''6cfd4235-599f-493a-9880-970f3a3d4c31''" "''50a3732f21659025''"]
  by (simp add: pod_consts)

section \<open>One pod\<close>

lemma set_con_info_new:
  "length con \<le> CONTAINER_ABBR_ID_LEN \<Longrightarrow>
   set_con_info env pod con \<lparr>ch_con_id = con, ch_con_info = zero_con_info\<rparr> =
   \<lparr>ch_con_id = con, ch_con_info = new_con_info env pod con\<rparr>"
  by (simp add: set_con_info_def zero_con_info_def new_con_info_def snprintf_s_def Let_def split: option.split)

lemma add_one_con_spec:
  assumes u: "uthash_ok cops" and h: "cons_ok cops pod (pi_con_head pi)"
    and c: "con \<noteq> []" "length con \<le> CONTAINER_ABBR_ID_LEN" "tbl cops (pi_con_head pi) con = None" "malloc_ok (A_Con con)"
  shows "\<exists>h'. fst (add_one_con cops env malloc_ok pod pi con) = pi\<lparr>pi_con_head := h'\<rparr> \<and> cons_ok cops pod h' \<and>
           con_map cops h' = (con_map cops (pi_con_head pi))(con \<mapsto> new_con_info env pod con)"
proof -
  let ?h = "pi_con_head pi" and ?new = "\<lparr>ch_con_id = con, ch_con_info = new_con_info env pod con\<rparr>"
  let ?h1 = "ut_add cops con \<lparr>ch_con_id = con, ch_con_info = zero_con_info\<rparr> ?h"
  let ?h2 = "ut_write cops con ?new ?h1"
  have k: "keyed cops ?h" using h by (simp add: cons_ok_def)
  have 1: "keyed cops ?h1" "tbl cops ?h1 = (tbl cops ?h)(con \<mapsto> \<lparr>ch_con_id = con, ch_con_info = zero_con_info\<rparr>)"
    using keyed_add [OF u k c(3)] tbl_add [OF u k c(3)] by simp_all
  have 2: "keyed cops ?h2" "tbl cops ?h2 = (tbl cops ?h)(con \<mapsto> ?new)"
    using keyed_write [OF u 1(1), of con ?new] 1(2) by simp_all
  have "fst (add_one_con cops env malloc_ok pod pi con) = pi\<lparr>pi_con_head := ?h2\<rparr>"
    using c 1 by (simp add: add_one_con_def add_con_hash_def Let_def find_tbl [OF u] set_con_info_new)
  moreover have "cons_ok cops pod ?h2"
    using h c 2 by (auto simp: cons_ok_def con_ok_def new_con_info_def)
  moreover have "con_map cops ?h2 = (con_map cops ?h)(con \<mapsto> new_con_info env pod con)"
    by (simp add: con_map_def 2 fun_eq_iff)
  ultimately show ?thesis by blast
qed

lemma del_one_con_spec:
  assumes u: "uthash_ok cops" and h: "cons_ok cops pod (pi_con_head pi)"
  shows "\<exists>h'. del_one_con cops pi con = pi\<lparr>pi_con_head := h'\<rparr> \<and> cons_ok cops pod h' \<and>
           con_map cops h' = (con_map cops (pi_con_head pi))(con := None)"
proof -
  let ?h = "pi_con_head pi"
  have k: "keyed cops ?h" using h by (simp add: cons_ok_def)
  show ?thesis
  proof (cases "tbl cops ?h con")
    case None
    then have "del_one_con cops pi con = pi\<lparr>pi_con_head := ?h\<rparr>"
      by (simp add: del_one_con_def find_tbl [OF u k])
    moreover have "con_map cops ?h = (con_map cops ?h)(con := None)"
      using None by (auto simp: con_map_def)
    ultimately show ?thesis using h by blast
  next
    case (Some c)
    then have "\<not> no_items cops ?h" by (auto simp: no_items_def tbl_def)
    then have "del_one_con cops pi con = pi\<lparr>pi_con_head := ut_del cops con ?h\<rparr>"
      using Some by (simp add: del_one_con_def find_tbl [OF u k])
    moreover note keyed_del [OF u k, of con]
    ultimately show ?thesis using h Some
      by (intro exI [of _ "ut_del cops con ?h"]) (auto simp: cons_ok_def con_map_def fun_eq_iff)
  qed
qed

section \<open>The table of pods\<close>

lemma set_pod_info_con_head: "pi_con_head (ph_pod_info (set_pod_info env pid con p)) = pi_con_head (ph_pod_info p)"
  "ph_pod_id (set_pod_info env pid con p) = ph_pod_id p"
  by (simp_all add: set_pod_info_def Let_def)

lemma pod_ok_set_pod_info: "pod_ok cops k (set_pod_info env pid con p) = pod_ok cops k p"
  by (simp add: pod_ok_def set_pod_info_con_head)

lemma find_or_add_pod:
  assumes u: "uthash_ok pops" "uthash_ok cops" and h: "pods_ok pops cops h"
    and p: "pid \<noteq> []" "length pid \<le> POD_ID_LEN" "malloc_ok (A_Pod pid)"
  shows "\<exists>h1 q. (case ut_find pops pid h of Some q \<Rightarrow> (h, Some q)
          | None \<Rightarrow> (case add_pod_hash pops cops malloc_ok h pid of (h', ret) \<Rightarrow>
              if ret \<noteq> 0 then (h, None) else (h', ut_find pops pid h'))) = (h1, Some q) \<and>
        keyed pops h1 \<and> tbl pops h1 = (tbl pops h)(pid \<mapsto> q) \<and> pod_ok cops pid q \<and>
        con_map cops (pi_con_head (ph_pod_info q)) = pod_cons pops cops h pid"
proof -
  have k: "keyed pops h" using h by (simp add: pods_ok_def)
  show ?thesis
  proof (cases "tbl pops h pid")
    case None
    let ?new = "\<lparr>ph_pod_id = pid, ph_pod_info = \<lparr>pi_pod_id = [], pi_pod_ip_str = [], pi_con_head = ut_empty cops\<rparr>\<rparr>"
    let ?h1 = "ut_add pops pid ?new h"
    have 1: "keyed pops ?h1" "tbl pops ?h1 = (tbl pops h)(pid \<mapsto> ?new)"
      using keyed_add [OF u(1) k None] tbl_add [OF u(1) k None] by simp_all
    have "pod_ok cops pid ?new" using p by (simp add: pod_ok_def cons_ok_def keyed_empty [OF u(2)] tbl_empty [OF u(2)])
    moreover have "con_map cops (ut_empty cops) = Map.empty"
      by (simp add: con_map_def tbl_empty [OF u(2)])
    moreover have "pod_cons pops cops h pid = Map.empty" using None by (simp add: pod_cons_def pod_map_def)
    ultimately show ?thesis using None p 1
      by (intro exI [of _ ?h1] exI [of _ ?new]) (simp add: find_tbl [OF u(1)] k add_pod_hash_def Let_def)
  next
    case (Some q)
    then have "pod_ok cops pid q" using h by (simp add: pods_ok_def)
    then show ?thesis using Some k
      by (intro exI [of _ h] exI [of _ q]) (simp add: find_tbl [OF u(1)] pod_cons_def pod_map_def fun_upd_idem)
  qed
qed

lemma add_one_pod_spec:
  assumes u: "uthash_ok pops" "uthash_ok cops" and h: "pods_ok pops cops h"
    and p: "pid \<noteq> []" "length pid \<le> POD_ID_LEN" "malloc_ok (A_Pod pid)"
  shows "\<exists>h1 q. add_one_pod pops cops env malloc_ok h pid con ret = (h1, Some q) \<and>
        keyed pops h1 \<and> tbl pops h1 = (tbl pops h)(pid \<mapsto> q) \<and> pod_ok cops pid q \<and>
        con_map cops (pi_con_head (ph_pod_info q)) = pod_cons pops cops h pid"
proof -
  obtain h1 q where 1: "(case ut_find pops pid h of Some q \<Rightarrow> (h, Some q)
          | None \<Rightarrow> (case add_pod_hash pops cops malloc_ok h pid of (h', ret) \<Rightarrow>
              if ret \<noteq> 0 then (h, None) else (h', ut_find pops pid h'))) = (h1, Some q)"
      "keyed pops h1" "tbl pops h1 = (tbl pops h)(pid \<mapsto> q)" "pod_ok cops pid q"
      "con_map cops (pi_con_head (ph_pod_info q)) = pod_cons pops cops h pid"
    using find_or_add_pod [where malloc_ok = malloc_ok, OF assms] by blast
  show ?thesis
  proof (cases "con \<noteq> [] \<and> ret \<noteq> ID_CON_ONLY")
    case True
    let ?q = "set_pod_info env pid con q"
    note w = keyed_write [OF u(1) 1(2), of pid ?q]
    show ?thesis using True p(1) 1 w
      by (intro exI [of _ "ut_write pops pid ?q h1"] exI [of _ ?q])
        (simp add: add_one_pod_def Let_def pod_ok_set_pod_info set_pod_info_con_head)
  next
    case False
    then show ?thesis using p(1) 1 by (intro exI [of _ h1] exI [of _ q]) (auto simp: add_one_pod_def)
  qed
qed

lemma pods_ok_write:
  assumes "uthash_ok pops" "pods_ok pops cops h" "keyed pops h1" "tbl pops h1 = (tbl pops h)(pid \<mapsto> q)" "pod_ok cops pid q'"
  shows "pods_ok pops cops (ut_write pops pid q' h1) \<and>
    pod_map pops cops (ut_write pops pid q' h1) = (pod_map pops cops h)(pid \<mapsto> con_map cops (pi_con_head (ph_pod_info q')))"
  using keyed_write [OF assms(1,3), of pid q'] assms(2,4,5) by (auto simp: pods_ok_def pod_map_def fun_eq_iff)

lemma add_pod_con_map_spec:
  assumes u: "uthash_ok pops" "uthash_ok cops" and h: "pods_ok pops cops h"
    and p: "pid \<noteq> []" "length pid \<le> POD_ID_LEN" "malloc_ok (A_Pod pid)"
    and c: "con \<noteq> []" "length con \<le> CONTAINER_ABBR_ID_LEN" "malloc_ok (A_Con con)"
    and new: "pod_cons pops cops h pid con = None" and ret: "ret = ID_CON_POD \<or> ret = ID_CON_ONLY"
  shows "pods_ok pops cops (add_pod_con_map pops cops env malloc_ok h pid con ret) \<and>
    pod_map pops cops (add_pod_con_map pops cops env malloc_ok h pid con ret) =
      (pod_map pops cops h)(pid \<mapsto> (pod_cons pops cops h pid)(con \<mapsto> new_con_info env pid con))"
proof -
  obtain h1 q where 1: "add_one_pod pops cops env malloc_ok h pid con ret = (h1, Some q)"
      "keyed pops h1" "tbl pops h1 = (tbl pops h)(pid \<mapsto> q)" "pod_ok cops pid q"
      "con_map cops (pi_con_head (ph_pod_info q)) = pod_cons pops cops h pid"
    using add_one_pod_spec [where malloc_ok = malloc_ok, OF u h p] by blast
  have "tbl cops (pi_con_head (ph_pod_info q)) con = None"
    using new 1(5) by (metis con_map_def map_option_is_None)
  moreover have "cons_ok cops pid (pi_con_head (ph_pod_info q))" using 1(4) by (simp add: pod_ok_def)
  ultimately obtain ch where 2: "fst (add_one_con cops env malloc_ok pid (ph_pod_info q) con) = (ph_pod_info q)\<lparr>pi_con_head := ch\<rparr>"
      "cons_ok cops pid ch" "con_map cops ch = (con_map cops (pi_con_head (ph_pod_info q)))(con \<mapsto> new_con_info env pid con)"
    using add_one_con_spec [where malloc_ok = malloc_ok, OF u(2) _ c(1,2) _ c(3)] by blast
  let ?q = "q\<lparr>ph_pod_info := (ph_pod_info q)\<lparr>pi_con_head := ch\<rparr>\<rparr>"
  have "pod_ok cops pid ?q" using 1(4) 2(2) by (simp add: pod_ok_def)
  from pods_ok_write [OF u(1) h 1(2,3) this] 1 2 ret show ?thesis by (auto simp: add_pod_con_map_def)
qed

lemma del_con_spec:
  assumes u: "uthash_ok pops" "uthash_ok cops" and h: "pods_ok pops cops h" and ret: "ret = ID_CON_POD \<or> ret = ID_CON_ONLY"
  shows "pods_ok pops cops (del_pod_con_map pops cops h pid con ret) \<and>
    pod_map pops cops (del_pod_con_map pops cops h pid con ret) =
      (pod_map pops cops h)(pid := map_option (\<lambda>m. m(con := None)) (pod_map pops cops h pid))"
proof -
  have k: "keyed pops h" using h by (simp add: pods_ok_def)
  show ?thesis
  proof (cases "tbl pops h pid")
    case None
    then have "del_pod_con_map pops cops h pid con ret = h"
      using ret by (auto simp: del_pod_con_map_def find_tbl [OF u(1) k])
    then show ?thesis using h None by (auto simp: pod_map_def)
  next
    case (Some q)
    then have q: "pod_ok cops pid q" using h by (simp add: pods_ok_def)
    then obtain ch where 1: "del_one_con cops (ph_pod_info q) con = (ph_pod_info q)\<lparr>pi_con_head := ch\<rparr>"
        "cons_ok cops pid ch" "con_map cops ch = (con_map cops (pi_con_head (ph_pod_info q)))(con := None)"
      using del_one_con_spec [OF u(2)] by (metis pod_ok_def)
    let ?q = "q\<lparr>ph_pod_info := (ph_pod_info q)\<lparr>pi_con_head := ch\<rparr>\<rparr>"
    have "pod_ok cops pid ?q" using q 1(2) by (simp add: pod_ok_def)
    moreover have "tbl pops h = (tbl pops h)(pid \<mapsto> q)" using Some by (simp add: fun_upd_idem)
    ultimately have "pods_ok pops cops (ut_write pops pid ?q h) \<and> pod_map pops cops (ut_write pops pid ?q h) =
        (pod_map pops cops h)(pid \<mapsto> con_map cops ch)"
      using pods_ok_write [OF u(1) h k, of pid q ?q] by simp
    then show ?thesis using Some ret 1 by (auto simp: del_pod_con_map_def find_tbl [OF u(1) k] pod_map_def)
  qed
qed

lemma del_pod_spec:
  assumes u: "uthash_ok pops" and h: "pods_ok pops cops h"
  shows "pods_ok pops cops (del_pod_con_map pops cops h pid con ID_POD_ONLY) \<and>
    pod_map pops cops (del_pod_con_map pops cops h pid con ID_POD_ONLY) = (pod_map pops cops h)(pid := None)"
proof -
  have k: "keyed pops h" using h by (simp add: pods_ok_def)
  show ?thesis
  proof (cases "tbl pops h pid")
    case None
    then show ?thesis using h by (auto simp: del_pod_con_map_def del_one_pod_def find_tbl [OF u k] pod_map_def)
  next
    case (Some q)
    with keyed_del [OF u k, of pid] h show ?thesis
      by (auto simp: del_pod_con_map_def del_one_pod_def find_tbl [OF u k] pod_map_def pods_ok_def fun_eq_iff)
  qed
qed

lemma get_con_info_spec:
  assumes "uthash_ok pops" "uthash_ok cops" "pods_ok pops cops h" "pid \<noteq> []"
  shows "get_con_info pops cops h (Some pid) con = pod_cons pops cops h pid con"
proof -
  have k: "keyed pops h" using assms(3) by (simp add: pods_ok_def)
  show ?thesis
  proof (cases "tbl pops h pid")
    case None
    then show ?thesis using assms(4)
      by (simp add: get_con_info_def get_pod_info_from_pod_id_def find_tbl [OF assms(1) k] pod_cons_def pod_map_def)
  next
    case (Some q)
    then have "pod_ok cops pid q" using assms(3) by (simp add: pods_ok_def)
    then have "keyed cops (pi_con_head (ph_pod_info q))" by (simp add: pod_ok_def cons_ok_def)
    then show ?thesis using assms(4) Some
      by (simp add: get_con_info_def get_pod_info_from_pod_id_def find_tbl [OF assms(1) k] pod_cons_def pod_map_def
          find_tbl [OF assms(2)] con_map_def)
  qed
qed

section \<open>Filters\<close>

lemma filter_body_noop: "ci_flags (ch_con_info con) = 0 \<Longrightarrow> filter_op_body env d con op = (d, con, [])"
  by (simp add: filter_op_body_def is_update_container_filter_def)

lemma write_same:
  "uthash_ok ops \<Longrightarrow> keyed ops h \<Longrightarrow> tbl ops h k = Some v \<Longrightarrow> keyed ops (ut_write ops k v h) \<and> tbl ops (ut_write ops k v h) = tbl ops h"
  using keyed_write [of ops h k v] by (simp add: fun_upd_idem)

lemma walk_cons_noop:
  assumes "uthash_ok cops"
  shows "cons_ok cops pod h \<Longrightarrow> \<forall>(k, c) \<in> set l. tbl cops h k = Some c \<Longrightarrow>
    \<exists>r h'. walk_cons cops (filter_op_body env d) op cid l h = (r, h', []) \<and> r \<in> {CB_CONTINUE, d} \<and>
      keyed cops h' \<and> tbl cops h' = tbl cops h"
proof (induction l arbitrary: h)
  case Nil
  then show ?case by (simp add: cons_ok_def)
next
  case (Cons kc l)
  obtain k c where kc: "kc = (k, c)" by (cases kc)
  have tc: "tbl cops h k = Some c" and kh: "keyed cops h" using Cons.prems kc by (auto simp: cons_ok_def)
  then have b: "filter_op_body env d c op = (d, c, [])"
    using Cons.prems(1) by (intro filter_body_noop) (auto simp: cons_ok_def con_ok_def)
  let ?h = "ut_write cops k c h"
  have w: "keyed cops ?h" "tbl cops ?h = tbl cops h" using write_same [OF assms kh tc] by simp_all
  have ok: "cons_ok cops pod ?h" using Cons.prems(1) w by (simp add: cons_ok_def)
  show ?case
  proof (cases "cid = None \<or> cid = Some (ch_con_id c)")
    case True
    obtain r h' where 2: "walk_cons cops (filter_op_body env d) op cid l ?h = (r, h', [])" "r \<in> {CB_CONTINUE, d}"
        "keyed cops h'" "tbl cops h' = tbl cops ?h"
      using Cons.IH [OF ok] Cons.prems(2) w(2) by auto
    with True b w kc show ?thesis by (cases cid) auto
  next
    case False
    then show ?thesis using Cons.IH [OF Cons.prems(1)] Cons.prems(2) kc by (cases cid) auto
  qed
qed

lemma walk_tbl_noop:
  assumes "uthash_ok cops" "cons_ok cops pod h"
  shows "\<exists>r h'. walk_container_tbl cops (filter_op_body env d) op cid h = (r, h', []) \<and> r \<in> {CB_CONTINUE, d} \<and>
      cons_ok cops pod h' \<and> con_map cops h' = con_map cops h"
proof -
  have k: "keyed cops h" using assms(2) by (simp add: cons_ok_def)
  show ?thesis
  proof (cases "no_items cops h")
    case True
    then show ?thesis using assms(2) by (simp add: walk_container_tbl_def)
  next
    case False
    have "\<forall>(k, c) \<in> set (ut_iter cops h). tbl cops h k = Some c" using tbl_iter [OF k] by auto
    from walk_cons_noop [OF assms this, of env d op cid] obtain r h' where
      "walk_cons cops (filter_op_body env d) op cid (ut_iter cops h) h = (r, h', [])" "r \<in> {CB_CONTINUE, d}"
      "keyed cops h'" "tbl cops h' = tbl cops h" by blast
    then show ?thesis using False assms(2) by (simp add: walk_container_tbl_def cons_ok_def con_map_def)
  qed
qed

lemma walk_pods_noop:
  assumes u: "uthash_ok pops" "uthash_ok cops"
  shows "pods_ok pops cops h \<Longrightarrow> distinct (map fst l) \<Longrightarrow> \<forall>(k, p) \<in> set l. tbl pops h k = Some p \<Longrightarrow>
    \<exists>r h'. walk_pods pops cops (filter_op_body env d) op pid cid l h = (r, h', []) \<and>
      pods_ok pops cops h' \<and> pod_map pops cops h' = pod_map pops cops h"
proof (induction l arbitrary: h)
  case (Cons kp l)
  obtain k p where kp: "kp = (k, p)" by (cases kp)
  have tp: "tbl pops h k = Some p" and kh: "keyed pops h" using Cons.prems kp by (auto simp: pods_ok_def)
  then have pk: "pod_ok cops k p" using Cons.prems(1) by (simp add: pods_ok_def)
  have IH: "\<exists>r h'. walk_pods pops cops (filter_op_body env d) op pid cid l h1 = (r, h', []) \<and>
      pods_ok pops cops h' \<and> pod_map pops cops h' = pod_map pops cops h1"
    if "pods_ok pops cops h1" "\<forall>k' \<in> fst ` set l. tbl pops h1 k' = tbl pops h k'" for h1
    using Cons.IH [OF that(1)] that(2) Cons.prems(2,3) kp by fastforce
  show ?case
  proof (cases "pid = None \<or> pid = Some (ph_pod_id p)")
    case True
    obtain r ch where 1: "walk_container_tbl cops (filter_op_body env d) op cid (pi_con_head (ph_pod_info p)) = (r, ch, [])"
        "cons_ok cops k ch" "con_map cops ch = con_map cops (pi_con_head (ph_pod_info p))"
      using walk_tbl_noop [OF u(2)] pk by (metis pod_ok_def)
    let ?p = "p\<lparr>ph_pod_info := (ph_pod_info p)\<lparr>pi_con_head := ch\<rparr>\<rparr>"
    let ?h = "ut_write pops k ?p h"
    have "pod_ok cops k ?p" using pk 1(2) by (simp add: pod_ok_def)
    moreover have "tbl pops h = (tbl pops h)(k \<mapsto> p)" using tp by (simp add: fun_upd_idem)
    ultimately have w: "pods_ok pops cops ?h" "pod_map pops cops ?h = (pod_map pops cops h)(k \<mapsto> con_map cops ch)"
      using pods_ok_write [OF u(1) Cons.prems(1) kh, of k p ?p] by simp_all
    then have "pod_map pops cops ?h = pod_map pops cops h" using 1(3) tp by (simp add: pod_map_def fun_upd_idem)
    moreover have "\<forall>k' \<in> fst ` set l. tbl pops ?h k' = tbl pops h k'"
      using keyed_write [OF u(1) kh, of k ?p] tp Cons.prems(2) kp by auto
    ultimately show ?thesis using IH [OF w(1)] w(1) 1(1) True kp by (auto simp: Let_def)
  next
    case False
    then show ?thesis using IH [OF Cons.prems(1)] kp by auto
  qed
qed simp

lemma walk_pod_tbl_noop:
  assumes u: "uthash_ok pops" "uthash_ok cops" and h: "pods_ok pops cops h"
  shows "\<exists>r h'. walk_pod_tbl pops cops (filter_op_body env d) op pid cid h = (r, h', []) \<and>
      pods_ok pops cops h' \<and> pod_map pops cops h' = pod_map pops cops h"
proof -
  have k: "keyed pops h" using h by (simp add: pods_ok_def)
  then have "distinct (map fst (ut_iter pops h))" by (simp add: keyed_def)
  moreover have "\<forall>(k, p) \<in> set (ut_iter pops h). tbl pops h k = Some p" using tbl_iter [OF k] by auto
  ultimately show ?thesis unfolding walk_pod_tbl_def by (rule walk_pods_noop [OF u h])
qed

section \<open>Properties of the pod tables\<close>

text \<open>C12. The tables of pods and containers refine a map from pod ids to maps from container ids
  to container information, as long as no container is added that is there already: adding one that is not there enters its information under its pod
  (making the pod if needed), removing a container or a pod removes it, looking a container up reads
  the map, and each of these operations keeps the tables well-formed. (\<open>add_one_con\<close> does not look whether the container is there; adding it again puts a second entry under its key,
  of which nothing is claimed here.) The ids are not empty, fit into their arrays, and there is memory.\<close>

theorem pod_tables_refine:
  assumes "uthash_ok pops" "uthash_ok cops" "pods_ok pops cops h"
    and "pid \<noteq> []" "length pid \<le> POD_ID_LEN" "malloc_ok (A_Pod pid)"
    and "con \<noteq> []" "length con \<le> CONTAINER_ABBR_ID_LEN" "malloc_ok (A_Con con)"
    and "ret = ID_CON_POD \<or> ret = ID_CON_ONLY"
  shows "(pod_cons pops cops h pid con = None \<longrightarrow>
           pods_ok pops cops (add_pod_con_map pops cops env malloc_ok h pid con ret) \<and>
           pod_map pops cops (add_pod_con_map pops cops env malloc_ok h pid con ret) =
             (pod_map pops cops h)(pid \<mapsto> (pod_cons pops cops h pid)(con \<mapsto> new_con_info env pid con))) \<and>
         pods_ok pops cops (del_pod_con_map pops cops h pid con ret) \<and>
         pod_map pops cops (del_pod_con_map pops cops h pid con ret) =
           (pod_map pops cops h)(pid := map_option (\<lambda>m. m(con := None)) (pod_map pops cops h pid)) \<and>
         pods_ok pops cops (del_pod_con_map pops cops h pid con ID_POD_ONLY) \<and>
         pod_map pops cops (del_pod_con_map pops cops h pid con ID_POD_ONLY) = (pod_map pops cops h)(pid := None) \<and>
         get_con_info pops cops h (Some pid) con = pod_cons pops cops h pid con"
  using add_pod_con_map_spec [OF assms(1-9) _ assms(10), of env] del_con_spec [OF assms(1-3,10), of pid con]
    del_pod_spec [OF assms(1,3), of pid con] get_con_info_spec [OF assms(1-4), of con] by blast

theorem pod_tables_refine_witness:
  "pod_map alist_ops alist_ops (add_pod_con_map alist_ops alist_ops demo_con_env (\<lambda>_. True) [] ''pod-1'' ''aaaaaaaaaaaa'' ID_CON_POD) =
     [''pod-1'' \<mapsto> [''aaaaaaaaaaaa'' \<mapsto> new_con_info demo_con_env ''pod-1'' ''aaaaaaaaaaaa'']]"
proof -
  have "pods_ok alist_ops alist_ops ([] :: (string \<times> (string \<times> containers_hash_t) list pods_hash_t) list)"
    "pod_map alist_ops alist_ops ([] :: (string \<times> (string \<times> containers_hash_t) list pods_hash_t) list) = Map.empty"
    by (simp_all add: pods_ok_def keyed_def tbl_def pod_map_def)
  with pod_tables_refine [OF alist_ops_ok alist_ops_ok, of "[]" "''pod-1''" "\<lambda>_. True" "''aaaaaaaaaaaa''" ID_CON_POD demo_con_env]
  show ?thesis by (simp add: pod_cons_def pod_consts)
qed

text \<open>The container filters never reach the kernel: the test for an ignored container is a bit test
  against the flag value zero, which is false for every container, so no container is ever marked, and
  adding or removing a filter for a pod or a container changes no container and makes no call.\<close>

theorem pod_filters_do_nothing:
  assumes "uthash_ok pops" "uthash_ok cops" "pods_ok pops cops h"
  shows "(\<exists>r h'. filter_pod_op pops cops env pod_id op h = (r, h', []) \<and> pods_ok pops cops h' \<and>
            pod_map pops cops h' = pod_map pops cops h) \<and>
         (\<exists>r h'. filter_container_op pops cops env con_id op h = (r, h', []) \<and> pods_ok pops cops h' \<and>
            pod_map pops cops h' = pod_map pops cops h)"
  using walk_pod_tbl_noop [OF assms]
  by (simp add: filter_pod_op_def filter_container_op_def container_filter_op_def single_container_filter_op_def)

theorem pod_filters_do_nothing_witness:
  "\<exists>r h'. filter_pod_op alist_ops alist_ops demo_con_env None FILTER_OP_ADD
      (add_pod_con_map alist_ops alist_ops demo_con_env (\<lambda>_. True) [] ''pod-1'' ''aaaaaaaaaaaa'' ID_CON_POD) = (r, h', [])"
proof -
  have "pods_ok alist_ops alist_ops ([] :: (string \<times> (string \<times> containers_hash_t) list pods_hash_t) list)"
    "pod_cons alist_ops alist_ops ([] :: (string \<times> (string \<times> containers_hash_t) list pods_hash_t) list) ''pod-1'' ''aaaaaaaaaaaa'' = None"
    by (simp_all add: pods_ok_def keyed_def tbl_def pod_map_def pod_cons_def)
  then have "pods_ok alist_ops alist_ops
      (add_pod_con_map alist_ops alist_ops demo_con_env (\<lambda>_. True) [] ''pod-1'' ''aaaaaaaaaaaa'' ID_CON_POD)"
    using add_pod_con_map_spec [OF alist_ops_ok alist_ops_ok, of "[]" "''pod-1''" "\<lambda>_. True" "''aaaaaaaaaaaa''" ID_CON_POD demo_con_env]
    by (simp add: pod_consts)
  from pod_filters_do_nothing [OF alist_ops_ok alist_ops_ok this, of demo_con_env None FILTER_OP_ADD None]
  show ?thesis by blast
qed

end
