(* ===== verification/Snooper.thy ===== *)
theory Snooper
  imports Probe_Params Pod_Mng Ipc_Recv
begin

unbundle bit_operations_syntax

text \<open>
  What a probe observes, src/src/lib/probe/snooper.c: the snooper configurations a request sets
  (\<open>snooper_confs\<close>), the objects found for them (\<open>snooper_objs\<close>), the processes and containers that
  come and go, and the message that tells the probe. \<open>struct probe_s\<close> (probe_mng.h) is here
  because every function works on it; \<open>rwlock\<close>, the fifo and the thread handle are left out, their
  only use in this file is none.

  Arguments of the model: the JSON library (Probe\_Params), uthash (Uthash), the container engine
  (Pod\_Mng), and \<open>proc_env\<close>: the directory /proc with the files the code reads there, the regular
  expressions of the C library and the container and pod of a process. \<open>malloc_ok\<close> says which
  allocations succeed.
\<close>

section \<open>Data\<close>

definition TASK_COMM_LEN :: nat where "TASK_COMM_LEN = 16"
definition PROC_CMDLINE_MAX :: nat where "PROC_CMDLINE_MAX = 4096"

definition PROBE_FLAGS_STARTED :: u32 where "PROBE_FLAGS_STARTED = 0x1"
definition PROBE_FLAGS_STOPPED :: u32 where "PROBE_FLAGS_STOPPED = 0x2"
definition PROBE_FLAGS_STOPPING :: u32 where "PROBE_FLAGS_STOPPING = 0x4"
definition PROBE_FLAGS_RUNNING :: u32 where "PROBE_FLAGS_RUNNING = 0x8"

definition IPC_FLAGS_SNOOPER_CHG :: u32 where "IPC_FLAGS_SNOOPER_CHG = 0x1"
definition IPC_FLAGS_PARAMS_CHG :: u32 where "IPC_FLAGS_PARAMS_CHG = 0x2"

lemmas status_flags = PROBE_FLAGS_STARTED_def PROBE_FLAGS_STOPPED_def PROBE_FLAGS_STOPPING_def PROBE_FLAGS_RUNNING_def

text \<open>\<open>struct snooper_conf_s\<close>: the tag and the union it selects. Owned strings are \<open>None\<close> for \<open>NULL\<close>.\<close>

datatype snooper_conf_s =
    CONF_APP string "string option" "string option"
  | CONF_GAUSSDB "string option" "string option" "string option" "string option" u32
  | CONF_PROC_ID u32
  | CONF_POD_ID string
  | CONF_CONTAINER_ID string

datatype probe_cb = Extend_Thread | Native_Thread

record probe_s =
  p_name :: string
  p_bin :: "string option"
  p_chk_cmd :: "string option"
  p_is_extend_probe :: bool
  p_is_params_chg :: bool
  p_is_snooper_chg :: bool
  p_is_restart :: bool
  p_type :: int
  p_range_flags :: u32
  p_entry :: "string option"
  p_cb :: "probe_cb option"
  p_pid :: int
  p_status :: u32
  p_conf_num :: nat
  p_confs :: "snooper_conf_s option list"
  p_objs :: "snooper_obj_s option list"
  p_param :: probe_params

record proc_env =
  proc_dirs :: "string list option"
  proc_comm :: "string \<Rightarrow> string option"
  proc_cmdline :: "string \<Rightarrow> string option"
  proc_container :: "string \<Rightarrow> string"
  proc_pod :: "string \<Rightarrow> string"
  regex_match :: "string \<Rightarrow> string \<Rightarrow> bool"

datatype snp_alloc = A_Conf nat | A_Obj nat

section \<open>Configurations\<close>

text \<open>The common end of the \<open>add_snooper_conf_\<close> functions: the slot behind the last one is overwritten.\<close>

definition put_conf :: "snooper_conf_s \<Rightarrow> probe_s \<Rightarrow> probe_s" where
  "put_conf c p = p\<lparr>p_confs := (p_confs p)[p_conf_num p := Some c], p_conf_num := p_conf_num p + 1\<rparr>"

definition add_snooper_conf_procid :: "(snp_alloc \<Rightarrow> bool) \<Rightarrow> probe_s \<Rightarrow> u32 \<Rightarrow> probe_s \<times> int" where
  "add_snooper_conf_procid malloc_ok p proc_id =
     (if p_conf_num p \<ge> SNOOPER_MAX then (p, -1)
      else if \<not> malloc_ok (A_Conf (p_conf_num p)) then (p, -1)
      else (put_conf (CONF_PROC_ID proc_id) p, 0))"

definition add_snooper_conf_procname :: "(snp_alloc \<Rightarrow> bool) \<Rightarrow> probe_s \<Rightarrow> string \<Rightarrow> string option
    \<Rightarrow> string option \<Rightarrow> probe_s \<times> int" where
  "add_snooper_conf_procname malloc_ok p comm cmdline dbgdir =
     (if p_conf_num p \<ge> SNOOPER_MAX then (p, -1)
      else if comm = [] then (p, 0)
      else if \<not> malloc_ok (A_Conf (p_conf_num p)) then (p, -1)
      else (put_conf (CONF_APP (snprintf_s (TASK_COMM_LEN + 1) comm) cmdline
              (case dbgdir of None \<Rightarrow> None | Some d \<Rightarrow> if d = [] then None else Some d)) p, 0))"

definition add_snooper_conf_pod :: "(snp_alloc \<Rightarrow> bool) \<Rightarrow> probe_s \<Rightarrow> string \<Rightarrow> probe_s \<times> int" where
  "add_snooper_conf_pod malloc_ok p pod =
     (if p_conf_num p \<ge> SNOOPER_MAX then (p, -1)
      else if pod = [] then (p, 0)
      else if \<not> malloc_ok (A_Conf (p_conf_num p)) then (p, -1)
      else (put_conf (CONF_POD_ID (snprintf_s (POD_ID_LEN + 1) pod)) p, 0))"

definition add_snooper_conf_container :: "(snp_alloc \<Rightarrow> bool) \<Rightarrow> probe_s \<Rightarrow> string \<Rightarrow> probe_s \<times> int" where
  "add_snooper_conf_container malloc_ok p con =
     (if p_conf_num p \<ge> SNOOPER_MAX then (p, -1)
      else if con = [] then (p, 0)
      else if \<not> malloc_ok (A_Conf (p_conf_num p)) then (p, -1)
      else (put_conf (CONF_CONTAINER_ID (snprintf_s (CONTAINER_ABBR_ID_LEN + 1) con)) p, 0))"

text \<open>\<open>if (s && !(s[0] != 0)) field = strdup(s)\<close>: only an empty string is kept.\<close>

definition dup_empty :: "string option \<Rightarrow> string option" where
  "dup_empty s = (case s of None \<Rightarrow> None | Some t \<Rightarrow> if t = [] then Some t else None)"

definition add_snooper_conf_gaussdb :: "(snp_alloc \<Rightarrow> bool) \<Rightarrow> probe_s \<Rightarrow> string option \<Rightarrow> string option
    \<Rightarrow> string option \<Rightarrow> string option \<Rightarrow> u32 \<Rightarrow> probe_s \<times> int" where
  "add_snooper_conf_gaussdb malloc_ok p ip db user pw prt =
     (if p_conf_num p \<ge> SNOOPER_MAX then (p, -1)
      else if \<not> malloc_ok (A_Conf (p_conf_num p)) then (p, -1)
      else (put_conf (CONF_GAUSSDB (dup_empty ip) (dup_empty db) (dup_empty user) (dup_empty pw) prt) p, 0))"

section \<open>Parsing a request\<close>

text \<open>
  The loops over the arrays of a request: \<open>step\<close> is the body for one item, which says whether the
  parser goes on (0) or returns -1.
\<close>

fun item_loop :: "'j cjson \<Rightarrow> 'j \<Rightarrow> ('j \<Rightarrow> probe_s \<Rightarrow> (probe_s \<times> int) outc) \<Rightarrow> nat list \<Rightarrow> probe_s
    \<Rightarrow> (probe_s \<times> int) outc" where
  "item_loop api arr step [] p = Ok (p, 0)"
| "item_loop api arr step (i # is) p =
     (case cJSON_GetArrayItem api arr i of None \<Rightarrow> UB
      | Some obj \<Rightarrow> bnd (step obj p) (\<lambda>(p, ret). if ret \<noteq> 0 then Ok (p, -1) else item_loop api arr step is p))"

definition parse_items :: "'j cjson \<Rightarrow> 'j \<Rightarrow> string \<Rightarrow> ('j \<Rightarrow> probe_s \<Rightarrow> (probe_s \<times> int) outc) \<Rightarrow> probe_s
    \<Rightarrow> (probe_s \<times> int) outc" where
  "parse_items api json key step p =
     (case cJSON_GetObjectItem api json key of None \<Rightarrow> Ok (p, 0)
      | Some arr \<Rightarrow> item_loop api arr step [0..<cJSON_GetArraySize api arr] p)"

text \<open>An optional string member: refused when it has another type.\<close>

definition bad_string :: "'j cjson \<Rightarrow> 'j option \<Rightarrow> bool" where
  "bad_string api item \<longleftrightarrow> (case item of None \<Rightarrow> False | Some i \<Rightarrow> node_type api i \<noteq> cJSON_String api)"

definition opt_string :: "'j cjson \<Rightarrow> 'j option \<Rightarrow> string option" where
  "opt_string api item = (case item of None \<Rightarrow> None | Some i \<Rightarrow> node_valuestring api i)"

text \<open>The bodies of the five loops.\<close>

definition procid_item :: "'j cjson \<Rightarrow> (snp_alloc \<Rightarrow> bool) \<Rightarrow> 'j \<Rightarrow> probe_s \<Rightarrow> (probe_s \<times> int) outc" where
  "procid_item api malloc_ok obj p =
     (if node_type api obj \<noteq> cJSON_Number api then Ok (p, -1)
      else Ok (add_snooper_conf_procid malloc_ok p (word_of_int (node_valueint api obj))))"

definition procname_item :: "'j cjson \<Rightarrow> (snp_alloc \<Rightarrow> bool) \<Rightarrow> 'j \<Rightarrow> probe_s \<Rightarrow> (probe_s \<times> int) outc" where
  "procname_item api malloc_ok obj p =
     (let comm_item = cJSON_GetObjectItem api obj ''comm'';
          cmdline_item = cJSON_GetObjectItem api obj ''cmdline'';
          dbgdir_item = cJSON_GetObjectItem api obj ''debugging_dir''
      in if comm_item = None \<or> bad_string api comm_item then Ok (p, -1)
         else if bad_string api cmdline_item then Ok (p, -1)
         else if bad_string api dbgdir_item then Ok (p, -1)
         else case opt_string api comm_item of None \<Rightarrow> UB
           | Some comm \<Rightarrow> Ok (add_snooper_conf_procname malloc_ok p comm (opt_string api cmdline_item)
                             (opt_string api dbgdir_item)))"

definition pod_item :: "'j cjson \<Rightarrow> (snp_alloc \<Rightarrow> bool) \<Rightarrow> 'j \<Rightarrow> probe_s \<Rightarrow> (probe_s \<times> int) outc" where
  "pod_item api malloc_ok obj p =
     (if node_type api obj \<noteq> cJSON_String api then Ok (p, -1)
      else case node_valuestring api obj of None \<Rightarrow> UB | Some s \<Rightarrow> Ok (add_snooper_conf_pod malloc_ok p s))"

definition container_item :: "'j cjson \<Rightarrow> (snp_alloc \<Rightarrow> bool) \<Rightarrow> 'j \<Rightarrow> probe_s \<Rightarrow> (probe_s \<times> int) outc" where
  "container_item api malloc_ok obj p =
     (if node_type api obj \<noteq> cJSON_String api then Ok (p, -1)
      else case node_valuestring api obj of None \<Rightarrow> UB | Some s \<Rightarrow> Ok (add_snooper_conf_container malloc_ok p s))"

definition gaussdb_item :: "'j cjson \<Rightarrow> (snp_alloc \<Rightarrow> bool) \<Rightarrow> 'j \<Rightarrow> probe_s \<Rightarrow> (probe_s \<times> int) outc" where
  "gaussdb_item api malloc_ok obj p =
     (let ip_item = cJSON_GetObjectItem api obj ''dbip'';
          dbname_item = cJSON_GetObjectItem api obj ''dbname'';
          usr_item = cJSON_GetObjectItem api obj ''dbuser'';
          pass_item = cJSON_GetObjectItem api obj ''dbpass'';
          port_item = cJSON_GetObjectItem api obj ''dbport''
      in if ip_item = None \<or> bad_string api ip_item then Ok (p, -1)
         else if dbname_item = None \<or> bad_string api dbname_item then Ok (p, -1)
         else if usr_item = None \<or> bad_string api usr_item then Ok (p, -1)
         else if pass_item = None \<or> bad_string api pass_item then Ok (p, -1)
         else case port_item of None \<Rightarrow> Ok (p, -1)
           | Some pt \<Rightarrow> if node_type api pt \<noteq> cJSON_Number api then Ok (p, -1)
               else Ok (add_snooper_conf_gaussdb malloc_ok p (opt_string api ip_item) (opt_string api dbname_item)
                          (opt_string api usr_item) (opt_string api pass_item)
                          (word_of_int (node_valueint api pt))))"

definition parse_snooper_procid :: "'j cjson \<Rightarrow> (snp_alloc \<Rightarrow> bool) \<Rightarrow> 'j \<Rightarrow> probe_s \<Rightarrow> (probe_s \<times> int) outc" where
  "parse_snooper_procid api malloc_ok json p = parse_items api json ''proc_id'' (procid_item api malloc_ok) p"

definition parse_snooper_procname :: "'j cjson \<Rightarrow> (snp_alloc \<Rightarrow> bool) \<Rightarrow> 'j \<Rightarrow> probe_s \<Rightarrow> (probe_s \<times> int) outc" where
  "parse_snooper_procname api malloc_ok json p = parse_items api json ''proc_name'' (procname_item api malloc_ok) p"

text \<open>One function for two keys: \<open>pod_flag\<close> selects the body.\<close>

definition parse_snooper_pod_container :: "'j cjson \<Rightarrow> (snp_alloc \<Rightarrow> bool) \<Rightarrow> 'j \<Rightarrow> string \<Rightarrow> probe_s
    \<Rightarrow> (probe_s \<times> int) outc" where
  "parse_snooper_pod_container api malloc_ok json item_name p =
     (let pod_flag = strcaseeq item_name ''pod_id'' in
      parse_items api json item_name
        (\<lambda>obj p. if pod_flag then pod_item api malloc_ok obj p else container_item api malloc_ok obj p) p)"

definition parse_snooper_gaussdb :: "'j cjson \<Rightarrow> (snp_alloc \<Rightarrow> bool) \<Rightarrow> 'j \<Rightarrow> probe_s \<Rightarrow> (probe_s \<times> int) outc" where
  "parse_snooper_gaussdb api malloc_ok json p = parse_items api json ''gaussdb'' (gaussdb_item api malloc_ok) p"

section \<open>Objects\<close>

text \<open>\<open>strdup\<close>: the block with the text and its terminator.\<close>

definition cs :: "string \<Rightarrow> byte list" where
  "cs s = map of_char s @ [0]"

fun idle_slot :: "snooper_obj_s option list \<Rightarrow> nat option" where
  "idle_slot [] = None"
| "idle_slot (None # objs) = Some 0"
| "idle_slot (Some x # objs) = map_option Suc (idle_slot objs)"

definition get_snooper_obj_idle :: "probe_s \<Rightarrow> nat \<Rightarrow> nat option" where
  "get_snooper_obj_idle p n = idle_slot (take n (p_objs p))"

text \<open>Common to the \<open>add_snooper_obj_\<close> functions: the first free slot, and the new object in it.\<close>

definition put_obj :: "(snp_alloc \<Rightarrow> bool) \<Rightarrow> probe_s \<Rightarrow> snooper_obj_s \<Rightarrow> probe_s \<times> int" where
  "put_obj malloc_ok p x =
     (case get_snooper_obj_idle p SNOOPER_MAX of None \<Rightarrow> (p, -1)
      | Some pos \<Rightarrow> if \<not> malloc_ok (A_Obj pos) then (p, -1)
                    else (p\<lparr>p_objs := (p_objs p)[pos := Some x]\<rparr>, 0))"

definition add_snooper_obj_procid :: "(snp_alloc \<Rightarrow> bool) \<Rightarrow> probe_s \<Rightarrow> u32 \<Rightarrow> probe_s \<times> int" where
  "add_snooper_obj_procid malloc_ok p proc_id = put_obj malloc_ok p (OBJ_PROC proc_id)"

text \<open>
  The members of \<open>struct con_info_s\<close> are arrays, so that the tests for \<open>NULL\<close> always hold; the pod
  is read through \<open>pod_info_ptr\<close>.
\<close>

definition con_obj :: "con_info_s \<Rightarrow> 'c pod_info_s option \<Rightarrow> snooper_obj_s" where
  "con_obj ci pod = OBJ_CON \<lparr>con_flags = ci_flags ci, cpucg_inode = ci_cpucg_inode ci, con_id = Some (cs (ci_con_id ci)),
     container_name = Some (cs (ci_container_name ci)), libc_path = Some (cs (ci_libc_path ci)),
     libssl_path = Some (cs (ci_libssl_path ci)), pod_id = map_option (\<lambda>p. cs (pi_pod_id p)) pod,
     pod_ip_str = map_option (\<lambda>p. cs (pi_pod_ip_str p)) pod\<rparr>"

definition add_snooper_obj_con_info :: "(snp_alloc \<Rightarrow> bool) \<Rightarrow> ('h, 'c) pod_ops \<Rightarrow> 'h \<Rightarrow> probe_s \<Rightarrow> con_info_s option
    \<Rightarrow> (probe_s \<times> int) outc" where
  "add_snooper_obj_con_info malloc_ok pops h p con_info =
     (case con_info of None \<Rightarrow> Ok (p, -1)
      | Some ci \<Rightarrow>
          (case ci_pod_info_ptr ci of None \<Rightarrow> Ok (put_obj malloc_ok p (con_obj ci (None :: 'c pod_info_s option)))
           | Some k \<Rightarrow> (case ut_find pops k h of None \<Rightarrow> UB
               | Some pod \<Rightarrow> Ok (put_obj malloc_ok p (con_obj ci (Some (ph_pod_info pod)))))))"

definition add_snooper_obj_gaussdb :: "(snp_alloc \<Rightarrow> bool) \<Rightarrow> probe_s \<Rightarrow> string option \<Rightarrow> string option
    \<Rightarrow> string option \<Rightarrow> string option \<Rightarrow> u32 \<Rightarrow> probe_s \<times> int" where
  "add_snooper_obj_gaussdb malloc_ok p ip db user pw prt =
     put_obj malloc_ok p (OBJ_GAUSSDB \<lparr>port = prt, db_ip = map_option cs ip, dbname = map_option cs db,
       usr = map_option cs user, pass = map_option cs pw\<rparr>)"

section \<open>Processes of /proc\<close>

definition chk_snooper_pattern :: "proc_env \<Rightarrow> string \<Rightarrow> string \<Rightarrow> bool" where
  "chk_snooper_pattern env conf_pattern target \<longleftrightarrow>
     target \<noteq> [] \<and> conf_pattern \<noteq> [] \<and> regex_match env conf_pattern target"

text \<open>
  \<open>__read_proc_cmdline\<close> on the contents of the file. \<open>fgetc\<close> returns \<open>EOF\<close> once behind the last
  byte, which is stored, replaced by the terminator and counted; a byte 255 is taken for it.
\<close>

fun read_cmdline_loop :: "nat \<Rightarrow> string \<Rightarrow> nat \<Rightarrow> string \<Rightarrow> (nat \<times> string) outc" where
  "read_cmdline_loop sz [] index buf =
     (if index \<ge> sz - 1 then bnd (put_char buf index (CHR 0x00)) (\<lambda>buf. Ok (index, buf))
      else bnd (put_char buf index (CHR 0x00)) (\<lambda>buf. Ok (index + 1, buf)))"
| "read_cmdline_loop sz (c # rest) index buf =
     (if index \<ge> sz - 1 then bnd (put_char buf index (CHR 0x00)) (\<lambda>buf. Ok (index, buf))
      else if c = CHR 0x22 then
        bnd (put_char buf index (CHR 0x5C)) (\<lambda>buf.
        bnd (put_char buf (index + 1) (CHR 0x22)) (\<lambda>buf. read_cmdline_loop sz rest (index + 2) buf))
      else bnd (put_char buf index (if c = CHR 0x00 then CHR '' '' else if c = CHR 0xFF then CHR 0x00 else c)) (\<lambda>buf.
           read_cmdline_loop sz rest (index + 1) buf))"

definition read_proc_cmdline :: "string \<Rightarrow> nat \<Rightarrow> string \<Rightarrow> string outc" where
  "read_proc_cmdline content sz buf =
     bnd (read_cmdline_loop sz content 0 buf) (\<lambda>(index, buf). put_char buf index (CHR 0x00))"

text \<open>\<open>junk\<close> is what the array on the stack holds.\<close>

definition chk_cmdline_matched :: "proc_env \<Rightarrow> string \<Rightarrow> string option \<Rightarrow> string \<Rightarrow> int outc" where
  "chk_cmdline_matched env junk cmdline pid =
     (case cmdline of None \<Rightarrow> Ok 0
      | Some pat \<Rightarrow>
          (case proc_cmdline env pid of None \<Rightarrow> Ok (-1)
           | Some content \<Rightarrow> bnd (read_proc_cmdline content PROC_CMDLINE_MAX junk) (\<lambda>buf.
               Ok (if strstr (chars buf) pat = None then -1 else 0))))"

fun atoi_acc :: "nat \<Rightarrow> string \<Rightarrow> nat" where
  "atoi_acc n [] = n"
| "atoi_acc n (c # s) = (if CHR ''0'' = c \<or> (of_char c :: nat) \<in> {49..57}
     then atoi_acc (10 * n + (of_char c - 48)) s else n)"

definition atoi_u32 :: "string \<Rightarrow> u32" where
  "atoi_u32 s = of_nat (atoi_acc 0 s)"

text \<open>
  The walk over /proc for a configuration of a process name. The test \<open>!__is_proc_dir(..) == -1\<close> is
  never true, so that no entry is skipped by it.
\<close>

fun gen_procs_by_name :: "proc_env \<Rightarrow> string \<Rightarrow> (snp_alloc \<Rightarrow> bool) \<Rightarrow> string \<Rightarrow> string option \<Rightarrow> string list
    \<Rightarrow> probe_s \<Rightarrow> probe_s outc" where
  "gen_procs_by_name env junk malloc_ok comm cmdline [] p = Ok p"
| "gen_procs_by_name env junk malloc_ok comm cmdline (d # ds) p =
     (case proc_comm env d of None \<Rightarrow> gen_procs_by_name env junk malloc_ok comm cmdline ds p
      | Some c \<Rightarrow>
          if \<not> chk_snooper_pattern env comm c then gen_procs_by_name env junk malloc_ok comm cmdline ds p
          else bnd (chk_cmdline_matched env junk cmdline d) (\<lambda>ret.
            if ret < 0 then gen_procs_by_name env junk malloc_ok comm cmdline ds p
            else gen_procs_by_name env junk malloc_ok comm cmdline ds
                   (fst (add_snooper_obj_procid malloc_ok p (atoi_u32 d)))))"

definition gen_snooper_by_procname :: "proc_env \<Rightarrow> string \<Rightarrow> (snp_alloc \<Rightarrow> bool) \<Rightarrow> string \<Rightarrow> string option \<Rightarrow> probe_s
    \<Rightarrow> (probe_s \<times> int) outc" where
  "gen_snooper_by_procname env junk malloc_ok comm cmdline p =
     (case proc_dirs env of None \<Rightarrow> Ok (p, -1)
      | Some ds \<Rightarrow> bnd (gen_procs_by_name env junk malloc_ok comm cmdline ds p) (\<lambda>p. Ok (p, 0)))"

definition gen_snooper_by_procid :: "(snp_alloc \<Rightarrow> bool) \<Rightarrow> u32 \<Rightarrow> probe_s \<Rightarrow> probe_s \<times> int" where
  "gen_snooper_by_procid malloc_ok proc_id p = add_snooper_obj_procid malloc_ok p proc_id"

text \<open>\<open>__gen_snooper_by_container\<close>: every process of the container.\<close>

definition gen_procs_of_container :: "proc_env \<Rightarrow> (snp_alloc \<Rightarrow> bool) \<Rightarrow> string \<Rightarrow> probe_s \<Rightarrow> probe_s" where
  "gen_procs_of_container env malloc_ok target p =
     (case proc_dirs env of None \<Rightarrow> p
      | Some ds \<Rightarrow> foldl (\<lambda>p d. if proc_container env d = target
          then fst (add_snooper_obj_procid malloc_ok p (atoi_u32 d)) else p) p ds)"

text \<open>The arguments all generators share.\<close>

record ('h, 'c) snp_ctx =
  cx_pops :: "('h, 'c) pod_ops"
  cx_cops :: "'c con_ops"
  cx_con :: con_env
  cx_proc :: proc_env
  cx_pod_alloc :: "pod_alloc \<Rightarrow> bool"
  cx_alloc :: "snp_alloc \<Rightarrow> bool"
  cx_junk :: string

definition gen_snooper_by_container :: "('h, 'c) snp_ctx \<Rightarrow> string \<Rightarrow> 'h \<times> probe_s \<Rightarrow> ('h \<times> probe_s \<times> int) outc" where
  "gen_snooper_by_container cx cid st =
     (case st of (h, p) \<Rightarrow>
       if cid = [] then Ok (h, p, 0)
       else case get_and_add_con_info (cx_pops cx) (cx_cops cx) (cx_con cx) (cx_pod_alloc cx) h FAKE_POD_ID (Some cid) of
           (h, None) \<Rightarrow> Ok (h, p, -1)
         | (h, Some ci) \<Rightarrow>
             (let p = gen_procs_of_container (cx_proc cx) (cx_alloc cx) (ci_con_id ci) p in
              bnd (add_snooper_obj_con_info (cx_alloc cx) (cx_pops cx) h p (Some ci)) (\<lambda>(p, ret). Ok (h, p, ret))))"

fun gen_pod_cons :: "('h, 'c) snp_ctx \<Rightarrow> 'h \<Rightarrow> (string \<times> containers_hash_t) list \<Rightarrow> probe_s \<Rightarrow> probe_s outc" where
  "gen_pod_cons cx h [] p = Ok p"
| "gen_pod_cons cx h ((k, con) # rest) p =
     (let p = gen_procs_of_container (cx_proc cx) (cx_alloc cx) (ci_con_id (ch_con_info con)) p in
      bnd (add_snooper_obj_con_info (cx_alloc cx) (cx_pops cx) h p (Some (ch_con_info con))) (\<lambda>(p, ret).
      gen_pod_cons cx h rest p))"

definition gen_snooper_by_pod :: "('h, 'c) snp_ctx \<Rightarrow> string \<Rightarrow> 'h \<times> probe_s \<Rightarrow> ('h \<times> probe_s \<times> int) outc" where
  "gen_snooper_by_pod cx pid st =
     (case st of (h, p) \<Rightarrow>
       (case get_and_add_pod_info (cx_pops cx) (cx_cops cx) (cx_con cx) (cx_pod_alloc cx) h (Some pid) of
          (h, None) \<Rightarrow> Ok (h, p, -1)
        | (h, Some pinfo) \<Rightarrow>
            if no_items (cx_cops cx) (pi_con_head pinfo) then Ok (h, p, 0)
            else bnd (gen_pod_cons cx h (ut_iter (cx_cops cx) (pi_con_head pinfo)) p) (\<lambda>p. Ok (h, p, 0))))"

definition gen_snooper_by_gaussdb :: "(snp_alloc \<Rightarrow> bool) \<Rightarrow> string option \<Rightarrow> string option \<Rightarrow> string option
    \<Rightarrow> string option \<Rightarrow> u32 \<Rightarrow> probe_s \<Rightarrow> probe_s \<times> int" where
  "gen_snooper_by_gaussdb malloc_ok ip db user pw prt p = add_snooper_obj_gaussdb malloc_ok p ip db user pw prt"

text \<open>The table \<open>snooper_generators\<close>.\<close>

definition snooper_generator :: "('h, 'c) snp_ctx \<Rightarrow> snooper_conf_s \<Rightarrow> 'h \<times> probe_s \<Rightarrow> ('h \<times> probe_s \<times> int) outc" where
  "snooper_generator cx c st =
     (case st of (h, p) \<Rightarrow>
       (case c of
          CONF_APP comm cmdline dbg \<Rightarrow>
            bnd (gen_snooper_by_procname (cx_proc cx) (cx_junk cx) (cx_alloc cx) comm cmdline p) (\<lambda>(p, ret). Ok (h, p, ret))
        | CONF_GAUSSDB ip db user pw prt \<Rightarrow>
            (case gen_snooper_by_gaussdb (cx_alloc cx) ip db user pw prt p of (p, ret) \<Rightarrow> Ok (h, p, ret))
        | CONF_PROC_ID i \<Rightarrow> (case gen_snooper_by_procid (cx_alloc cx) i p of (p, ret) \<Rightarrow> Ok (h, p, ret))
        | CONF_POD_ID pid \<Rightarrow> gen_snooper_by_pod cx pid (h, p)
        | CONF_CONTAINER_ID cid \<Rightarrow> gen_snooper_by_container cx cid (h, p)))"

text \<open>The loop over the configurations; the first generator that fails ends it.\<close>

fun refresh_loop :: "('h, 'c) snp_ctx \<Rightarrow> snooper_conf_s option list \<Rightarrow> 'h \<times> probe_s \<Rightarrow> ('h \<times> probe_s) outc" where
  "refresh_loop cx [] st = Ok st"
| "refresh_loop cx (None # confs) st = UB"
| "refresh_loop cx (Some c # confs) st =
     bnd (snooper_generator cx c st) (\<lambda>(h, p, ret). if ret \<noteq> 0 then Ok (h, p) else refresh_loop cx confs (h, p))"

definition refresh_snooper_obj :: "('h, 'c) snp_ctx \<Rightarrow> 'h \<times> probe_s \<Rightarrow> ('h \<times> probe_s) outc" where
  "refresh_snooper_obj cx st =
     (case st of (h, p) \<Rightarrow>
       refresh_loop cx (take (p_conf_num p) (p_confs p)) (h, p\<lparr>p_objs := replicate SNOOPER_MAX None\<rparr>))"

section \<open>A request's snoopers\<close>

datatype snp_err = Snooper_err string

text \<open>The five parsers in turn; the first that fails ends the request with its name in the message.\<close>

fun parse_stages :: "(string \<times> (probe_s \<Rightarrow> (probe_s \<times> int) outc)) list \<Rightarrow> probe_s
    \<Rightarrow> (probe_s \<times> (snp_err + unit)) outc" where
  "parse_stages [] p = Ok (p, Inr ())"
| "parse_stages ((name, f) # fs) p =
     bnd (f p) (\<lambda>(p, ret). if ret \<noteq> 0 then Ok (p, Inl (Snooper_err name)) else parse_stages fs p)"

definition parse_snooper :: "('h, 'c) snp_ctx \<Rightarrow> 'j cjson \<Rightarrow> 'j \<Rightarrow> 'h \<times> probe_s
    \<Rightarrow> ('h \<times> probe_s \<times> (snp_err + unit)) outc" where
  "parse_snooper cx api json st =
     (case st of (h, p) \<Rightarrow>
       (let p = p\<lparr>p_confs := replicate (p_conf_num p) None @ drop (p_conf_num p) (p_confs p), p_conf_num := 0\<rparr> in
        bnd (parse_stages
               [(''proc_id'', parse_snooper_procid api (cx_alloc cx) json),
                (''proc_name'', parse_snooper_procname api (cx_alloc cx) json),
                (''pod_id'', parse_snooper_pod_container api (cx_alloc cx) json ''pod_id''),
                (''container_id'', parse_snooper_pod_container api (cx_alloc cx) json ''container_id''),
                (''gaussdb'', parse_snooper_gaussdb api (cx_alloc cx) json)] p) (\<lambda>(p, r).
          case r of Inl e \<Rightarrow> Ok (h, p, Inl e)
          | Inr u \<Rightarrow> bnd (refresh_snooper_obj cx (h, p)) (\<lambda>(h, p). Ok (h, p, Inr u)))))"

definition backup_snooper :: "probe_s \<Rightarrow> probe_s \<Rightarrow> probe_s \<times> probe_s" where
  "backup_snooper p b =
     (p\<lparr>p_confs := replicate SNOOPER_MAX None, p_objs := replicate SNOOPER_MAX None\<rparr>,
      b\<lparr>p_conf_num := p_conf_num p, p_confs := p_confs p, p_objs := p_objs p\<rparr>)"

definition rollback_snooper :: "probe_s \<Rightarrow> probe_s \<Rightarrow> probe_s \<times> probe_s" where
  "rollback_snooper p b =
     (p\<lparr>p_confs := p_confs b, p_objs := p_objs b, p_conf_num := p_conf_num b\<rparr>,
      b\<lparr>p_confs := replicate SNOOPER_MAX None, p_objs := replicate SNOOPER_MAX None, p_conf_num := 0\<rparr>)"

section \<open>The message to the probe\<close>

definition IS_STARTED_PROBE :: "probe_s \<Rightarrow> bool" where
  "IS_STARTED_PROBE p \<longleftrightarrow> p_status p AND PROBE_FLAGS_STARTED \<noteq> 0"

text \<open>
  \<open>__build_ipc_body\<close>: the body is a local variable, \<open>junk_objs\<close> is what its array of objects holds
  behind the ones copied. \<open>repr\<close> is the memory of a \<open>struct probe_params\<close>.
\<close>

definition build_ipc_body :: "(probe_params \<Rightarrow> byte list) \<Rightarrow> snooper_obj_s list \<Rightarrow> probe_s \<Rightarrow> ipc_body_s" where
  "build_ipc_body repr junk_objs p =
     (let objs = List.map_filter id (take SNOOPER_MAX (p_objs p)) in
      \<lparr>probe_range_flags = p_range_flags p, snooper_obj_num = of_nat (length objs),
       probe_flags = (if p_is_params_chg p then IPC_FLAGS_PARAMS_CHG else 0) OR
                     (if p_is_snooper_chg p then IPC_FLAGS_SNOOPER_CHG else 0),
       probe_param = repr (p_param p), snooper_objs = objs @ drop (length objs) junk_objs\<rparr>)"

text \<open>The kernel's side of \<open>send_ipc_msg\<close> and the locals of the sender.\<close>

record ipc_env =
  ie_malloc :: "nat \<Rightarrow> bool"
  ie_msgsnd :: "nat \<Rightarrow> bool"
  ie_msq_id :: int
  ie_repr :: "probe_params \<Rightarrow> byte list"
  ie_junk :: "snooper_obj_s list"

definition send_snooper_obj :: "ipc_env \<Rightarrow> probe_s \<Rightarrow> sysv_msg list \<Rightarrow> (int \<times> sysv_msg list) outc" where
  "send_snooper_obj ie p q =
     (if \<not> IS_STARTED_PROBE p then Ok (0, q)
      else send_ipc_msg (ie_malloc ie) (ie_msgsnd ie) (ie_msq_id ie) (p_type p)
             (build_ipc_body (ie_repr ie) (ie_junk ie) p) q)"

section \<open>Processes and containers that come and go\<close>

text \<open>\<open>__rcv_snooper_proc_exec_sub\<close>: one object per configuration that matches.\<close>

fun proc_exec_sub :: "proc_env \<Rightarrow> string \<Rightarrow> (snp_alloc \<Rightarrow> bool) \<Rightarrow> string \<Rightarrow> u32 \<Rightarrow> string \<Rightarrow> string \<Rightarrow> string
    \<Rightarrow> snooper_conf_s option list \<Rightarrow> probe_s \<times> bool \<Rightarrow> (probe_s \<times> bool) outc" where
  "proc_exec_sub env junk malloc_ok comm proc_id pid_str con pod [] st = Ok st"
| "proc_exec_sub env junk malloc_ok comm proc_id pid_str con pod (c # confs) st =
     bnd (case c of
         Some (CONF_APP ac acmd dbg) \<Rightarrow>
           if chk_snooper_pattern env ac comm
           then bnd (chk_cmdline_matched env junk acmd pid_str) (\<lambda>ret. Ok (ret = 0)) else Ok False
       | Some (CONF_CONTAINER_ID cid) \<Rightarrow> Ok (con \<noteq> [] \<and> strcaseeq con cid)
       | Some (CONF_POD_ID pid) \<Rightarrow> Ok (pod \<noteq> [] \<and> strcaseeq pod pid)
       | _ \<Rightarrow> Ok False) (\<lambda>hit.
     proc_exec_sub env junk malloc_ok comm proc_id pid_str con pod confs
       (if hit then (fst (add_snooper_obj_procid malloc_ok (fst st) proc_id), True) else st))"

text \<open>What follows a change: the flags of the message and the message itself; its result is ignored.\<close>

definition notify :: "ipc_env \<Rightarrow> probe_s \<Rightarrow> bool \<Rightarrow> sysv_msg list \<Rightarrow> (probe_s \<times> sysv_msg list) outc" where
  "notify ie p changed q =
     (if \<not> changed then Ok (p, q)
      else (let p = p\<lparr>p_is_params_chg := False, p_is_snooper_chg := True\<rparr>
            in bnd (send_snooper_obj ie p q) (\<lambda>(ret, q). Ok (p, q))))"

text \<open>The loop over the array of probes, a free entry being \<open>None\<close>.\<close>

fun each_probe :: "(probe_s \<Rightarrow> sysv_msg list \<Rightarrow> (probe_s \<times> sysv_msg list) outc) \<Rightarrow> probe_s option list \<Rightarrow> sysv_msg list
    \<Rightarrow> (probe_s option list \<times> sysv_msg list) outc" where
  "each_probe f [] q = Ok ([], q)"
| "each_probe f (None # ps) q = bnd (each_probe f ps q) (\<lambda>(ps, q). Ok (None # ps, q))"
| "each_probe f (Some p # ps) q =
     bnd (f p q) (\<lambda>(p, q). bnd (each_probe f ps q) (\<lambda>(ps, q). Ok (Some p # ps, q)))"

text \<open>\<open>pid_str\<close> is the decimal text of the process id.\<close>

definition rcv_snooper_proc_exec :: "ipc_env \<Rightarrow> proc_env \<Rightarrow> string \<Rightarrow> (snp_alloc \<Rightarrow> bool) \<Rightarrow> string \<Rightarrow> u32 \<Rightarrow> string
    \<Rightarrow> probe_s option list \<Rightarrow> sysv_msg list \<Rightarrow> (probe_s option list \<times> sysv_msg list) outc" where
  "rcv_snooper_proc_exec ie env junk malloc_ok comm proc_id pid_str probes q =
     (let con = proc_container env pid_str;
          pod = (if con \<noteq> [] then proc_pod env con else [])
      in each_probe (\<lambda>p q.
           bnd (proc_exec_sub env junk malloc_ok comm proc_id pid_str con pod
                  (take (min (p_conf_num p) SNOOPER_MAX) (p_confs p)) (p, False)) (\<lambda>(p, added). notify ie p added q)) probes q)"

text \<open>\<open>__rcv_snooper_proc_exit\<close> and \<open>__rcv_snooper_cgrp_exit\<close>: the objects \<open>f\<close> selects are freed.\<close>

definition clear_objs :: "(snooper_obj_s \<Rightarrow> bool) \<Rightarrow> probe_s \<Rightarrow> probe_s \<times> bool" where
  "clear_objs f p =
     (let hit = (\<lambda>x. case x of None \<Rightarrow> False | Some y \<Rightarrow> f y);
          objs = take SNOOPER_MAX (p_objs p)
      in (p\<lparr>p_objs := map (\<lambda>x. if hit x then None else x) objs @ drop SNOOPER_MAX (p_objs p)\<rparr>, list_ex hit objs))"

definition rcv_snooper_proc_exit :: "ipc_env \<Rightarrow> u32 \<Rightarrow> probe_s option list \<Rightarrow> sysv_msg list
    \<Rightarrow> (probe_s option list \<times> sysv_msg list) outc" where
  "rcv_snooper_proc_exit ie proc_id probes q =
     each_probe (\<lambda>p q. case clear_objs (\<lambda>y. y = OBJ_PROC proc_id) p of (p, removed) \<Rightarrow> notify ie p removed q) probes q"

text \<open>The event of the tracepoint: the name is that of the file behind its last slash, cut to 15 characters.\<close>

definition basename_of :: "string \<Rightarrow> string" where
  "basename_of s = rev (takeWhile (\<lambda>c. c \<noteq> CHR ''/'') (rev s))"

datatype proc_event = PROC_EXEC | PROC_EXIT

definition rcv_snooper_proc_evt :: "ipc_env \<Rightarrow> proc_env \<Rightarrow> string \<Rightarrow> (snp_alloc \<Rightarrow> bool) \<Rightarrow> proc_event \<Rightarrow> string \<Rightarrow> u32
    \<Rightarrow> string \<Rightarrow> probe_s option list \<Rightarrow> sysv_msg list \<Rightarrow> (probe_s option list \<times> sysv_msg list) outc" where
  "rcv_snooper_proc_evt ie env junk malloc_ok evt filename proc_id pid_str probes q =
     (let comm = snprintf_s TASK_COMM_LEN (basename_of filename) in
      if evt = PROC_EXEC then rcv_snooper_proc_exec ie env junk malloc_ok comm proc_id pid_str probes q
      else rcv_snooper_proc_exit ie proc_id probes q)"

fun cgrp_exec_sub :: "('h, 'c) snp_ctx \<Rightarrow> 'h \<Rightarrow> con_info_s \<Rightarrow> string \<Rightarrow> snooper_conf_s option list \<Rightarrow> probe_s \<times> bool
    \<Rightarrow> (probe_s \<times> bool) outc" where
  "cgrp_exec_sub cx h ci pod [] st = Ok st"
| "cgrp_exec_sub cx h ci pod (c # confs) st =
     (let hit = (case c of
         Some (CONF_POD_ID pid) \<Rightarrow> pod \<noteq> [] \<and> strcaseeq pod pid
       | Some (CONF_CONTAINER_ID cid) \<Rightarrow> ci_con_id ci \<noteq> [] \<and> strcaseeq (ci_con_id ci) cid
       | _ \<Rightarrow> False)
      in if hit then bnd (add_snooper_obj_con_info (cx_alloc cx) (cx_pops cx) h (fst st) (Some ci)) (\<lambda>(p, ret).
                       cgrp_exec_sub cx h ci pod confs (p, True))
         else cgrp_exec_sub cx h ci pod confs st)"

definition rcv_snooper_cgrp_exec :: "ipc_env \<Rightarrow> ('h, 'c) snp_ctx \<Rightarrow> string \<Rightarrow> string \<Rightarrow> 'h \<Rightarrow> probe_s option list
    \<Rightarrow> sysv_msg list \<Rightarrow> (probe_s option list \<times> sysv_msg list) outc" where
  "rcv_snooper_cgrp_exec ie cx pid cid h probes q =
     (case get_con_info (cx_pops cx) (cx_cops cx) h (Some pid) cid of None \<Rightarrow> Ok (probes, q)
      | Some ci \<Rightarrow>
          (case ci_pod_info_ptr ci of None \<Rightarrow> Ok (probes, q)
           | Some k \<Rightarrow> (case ut_find (cx_pops cx) k h of None \<Rightarrow> UB
               | Some pod \<Rightarrow> each_probe (\<lambda>p q.
                   bnd (cgrp_exec_sub cx h ci (pi_pod_id (ph_pod_info pod))
                          (take (min (p_conf_num p) SNOOPER_MAX) (p_confs p)) (p, False)) (\<lambda>(p, added). notify ie p added q)) probes q)))"

text \<open>The \<open>strcmp\<close> of the exit handler reads \<open>con_id\<close>, which every container object has.\<close>

definition is_con :: "string \<Rightarrow> snooper_obj_s \<Rightarrow> bool" where
  "is_con cid y = (case y of OBJ_CON c \<Rightarrow> con_id c = Some (cs cid) | _ \<Rightarrow> False)"

definition rcv_snooper_cgrp_exit :: "ipc_env \<Rightarrow> string \<Rightarrow> probe_s option list \<Rightarrow> sysv_msg list
    \<Rightarrow> (probe_s option list \<times> sysv_msg list) outc" where
  "rcv_snooper_cgrp_exit ie cid probes q =
     each_probe (\<lambda>p q. case clear_objs (is_con cid) p of (p, removed) \<Rightarrow> notify ie p removed q) probes q"

datatype cgrp_event = CGRP_MK | CGRP_RM

definition rcv_snooper_cgrp_evt :: "ipc_env \<Rightarrow> ('h, 'c) snp_ctx \<Rightarrow> cgrp_event \<Rightarrow> string option \<Rightarrow> 'h \<Rightarrow> probe_s option list
    \<Rightarrow> sysv_msg list \<Rightarrow> ('h \<times> probe_s option list \<times> sysv_msg list) outc" where
  "rcv_snooper_cgrp_evt ie cx evt path h probes q =
     bnd (get_pod_container_id path pod_buf con_buf) (\<lambda>(ret, pb, cb).
       (let pid = chars pb; cid = chars cb in
        if ret = ID_FAILED then Ok (h, probes, q)
        else if evt = CGRP_MK then
          (let h = add_pod_con_map (cx_pops cx) (cx_cops cx) (cx_con cx) (cx_pod_alloc cx) h pid cid ret in
           if ret = ID_CON_POD \<or> ret = ID_CON_ONLY
           then bnd (rcv_snooper_cgrp_exec ie cx pid cid h probes q) (\<lambda>(probes, q). Ok (h, probes, q))
           else Ok (h, probes, q))
        else
          (let h = del_pod_con_map (cx_pops cx) (cx_cops cx) h pid cid ret in
           if ret = ID_CON_POD \<or> ret = ID_CON_ONLY
           then bnd (rcv_snooper_cgrp_exit ie cid probes q) (\<lambda>(probes, q). Ok (h, probes, q))
           else Ok (h, probes, q))))"

text \<open>The space a prefix of the command line takes in the array: a quote is written with a backslash.\<close>

definition cmd_width :: "string \<Rightarrow> nat" where
  "cmd_width s = length s + count_list s (CHR 0x22)"

text \<open>
  The specification of a request's items: what each item asks for, \<open>None\<close> for an item that is
  refused, \<open>Some None\<close> for one that asks for nothing.
\<close>

definition procid_conf :: "'j cjson \<Rightarrow> 'j \<Rightarrow> snooper_conf_s option option" where
  "procid_conf api obj = (if node_type api obj = cJSON_Number api
     then Some (Some (CONF_PROC_ID (word_of_int (node_valueint api obj)))) else None)"

definition string_member :: "'j cjson \<Rightarrow> 'j \<Rightarrow> string \<Rightarrow> string option" where
  "string_member api obj key = (case cJSON_GetObjectItem api obj key of None \<Rightarrow> None
     | Some i \<Rightarrow> if node_type api i = cJSON_String api then node_valuestring api i else None)"

definition procname_conf :: "'j cjson \<Rightarrow> 'j \<Rightarrow> snooper_conf_s option option" where
  "procname_conf api obj = (case string_member api obj ''comm'' of None \<Rightarrow> None
     | Some comm \<Rightarrow>
         if bad_string api (cJSON_GetObjectItem api obj ''cmdline'') \<or> bad_string api (cJSON_GetObjectItem api obj ''debugging_dir'')
         then None
         else if comm = [] then Some None
         else Some (Some (CONF_APP (take TASK_COMM_LEN comm) (string_member api obj ''cmdline'')
                (case string_member api obj ''debugging_dir'' of Some d \<Rightarrow> if d = [] then None else Some d | None \<Rightarrow> None))))"

definition pod_conf :: "'j cjson \<Rightarrow> 'j \<Rightarrow> snooper_conf_s option option" where
  "pod_conf api obj = (if node_type api obj \<noteq> cJSON_String api then None
     else map_option (\<lambda>s. if s = [] then None else Some (CONF_POD_ID (take POD_ID_LEN s))) (node_valuestring api obj))"

definition container_conf :: "'j cjson \<Rightarrow> 'j \<Rightarrow> snooper_conf_s option option" where
  "container_conf api obj = (if node_type api obj \<noteq> cJSON_String api then None
     else map_option (\<lambda>s. if s = [] then None else Some (CONF_CONTAINER_ID (take CONTAINER_ABBR_ID_LEN s))) (node_valuestring api obj))"

definition gaussdb_conf :: "'j cjson \<Rightarrow> 'j \<Rightarrow> snooper_conf_s option option" where
  "gaussdb_conf api obj =
     (case (string_member api obj ''dbip'', string_member api obj ''dbname'', string_member api obj ''dbuser'',
            string_member api obj ''dbpass'', cJSON_GetObjectItem api obj ''dbport'') of
        (Some ip, Some db, Some user, Some pw, Some pt) \<Rightarrow>
          if node_type api pt \<noteq> cJSON_Number api then None
          else Some (Some (CONF_GAUSSDB (dup_empty (Some ip)) (dup_empty (Some db)) (dup_empty (Some user))
                 (dup_empty (Some pw)) (word_of_int (node_valueint api pt))))
      | _ \<Rightarrow> None)"

text \<open>The items of an array, in order.\<close>

definition array_items :: "'j cjson \<Rightarrow> 'j \<Rightarrow> 'j list" where
  "array_items api arr = map (\<lambda>i. the (cJSON_GetArrayItem api arr i)) [0..<cJSON_GetArraySize api arr]"

definition key_items :: "'j cjson \<Rightarrow> 'j \<Rightarrow> string \<Rightarrow> 'j list" where
  "key_items api json key = (case cJSON_GetObjectItem api json key of None \<Rightarrow> [] | Some arr \<Rightarrow> array_items api arr)"

definition append_confs :: "snooper_conf_s list \<Rightarrow> probe_s \<Rightarrow> probe_s" where
  "append_confs l p = p\<lparr>p_confs := take (p_conf_num p) (p_confs p) @ map Some l @ drop (p_conf_num p + length l) (p_confs p),
     p_conf_num := p_conf_num p + length l\<rparr>"

text \<open>What one item does to the probe.\<close>

definition apply_item :: "(snp_alloc \<Rightarrow> bool) \<Rightarrow> snooper_conf_s option option \<Rightarrow> probe_s \<Rightarrow> probe_s \<times> int" where
  "apply_item malloc_ok c p = (case c of None \<Rightarrow> (p, -1)
     | Some oc \<Rightarrow> if p_conf_num p \<ge> SNOOPER_MAX then (p, -1)
         else case oc of None \<Rightarrow> (p, 0)
           | Some conf \<Rightarrow> if malloc_ok (A_Conf (p_conf_num p)) then (put_conf conf p, 0) else (p, -1))"

definition requested :: "'j cjson \<Rightarrow> 'j \<Rightarrow> snooper_conf_s list" where
  "requested api json =
     List.map_filter (\<lambda>obj. the (procid_conf api obj)) (key_items api json ''proc_id'') @
     List.map_filter (\<lambda>obj. the (procname_conf api obj)) (key_items api json ''proc_name'') @
     List.map_filter (\<lambda>obj. the (pod_conf api obj)) (key_items api json ''pod_id'') @
     List.map_filter (\<lambda>obj. the (container_conf api obj)) (key_items api json ''container_id'') @
     List.map_filter (\<lambda>obj. the (gaussdb_conf api obj)) (key_items api json ''gaussdb'')"

text \<open>
  What a request asks for, with the strings it gives, and what the daemon keeps of it: of a database only the port
  and the members that are empty strings.
\<close>

definition gaussdb_asked :: "'j cjson \<Rightarrow> 'j \<Rightarrow> snooper_conf_s option option" where
  "gaussdb_asked api obj =
     (case (string_member api obj ''dbip'', string_member api obj ''dbname'', string_member api obj ''dbuser'',
            string_member api obj ''dbpass'', cJSON_GetObjectItem api obj ''dbport'') of
        (Some ip, Some db, Some user, Some pw, Some pt) \<Rightarrow>
          if node_type api pt \<noteq> cJSON_Number api then None
          else Some (Some (CONF_GAUSSDB (Some ip) (Some db) (Some user) (Some pw) (word_of_int (node_valueint api pt))))
      | _ \<Rightarrow> None)"

definition asked :: "'j cjson \<Rightarrow> 'j \<Rightarrow> snooper_conf_s list" where
  "asked api json =
     List.map_filter (\<lambda>obj. the (procid_conf api obj)) (key_items api json ''proc_id'') @
     List.map_filter (\<lambda>obj. the (procname_conf api obj)) (key_items api json ''proc_name'') @
     List.map_filter (\<lambda>obj. the (pod_conf api obj)) (key_items api json ''pod_id'') @
     List.map_filter (\<lambda>obj. the (container_conf api obj)) (key_items api json ''container_id'') @
     List.map_filter (\<lambda>obj. the (gaussdb_asked api obj)) (key_items api json ''gaussdb'')"

fun kept :: "snooper_conf_s \<Rightarrow> snooper_conf_s" where
  "kept (CONF_GAUSSDB ip db user pw prt) = CONF_GAUSSDB (dup_empty ip) (dup_empty db) (dup_empty user) (dup_empty pw) prt"
| "kept c = c"

definition items_valid :: "'j cjson \<Rightarrow> 'j \<Rightarrow> bool" where
  "items_valid api json \<longleftrightarrow>
     (\<forall>obj \<in> set (key_items api json ''proc_id''). procid_conf api obj \<noteq> None) \<and>
     (\<forall>obj \<in> set (key_items api json ''proc_name''). procname_conf api obj \<noteq> None) \<and>
     (\<forall>obj \<in> set (key_items api json ''pod_id''). pod_conf api obj \<noteq> None) \<and>
     (\<forall>obj \<in> set (key_items api json ''container_id''). container_conf api obj \<noteq> None) \<and>
     (\<forall>obj \<in> set (key_items api json ''gaussdb''). gaussdb_conf api obj \<noteq> None)"

definition items_count :: "'j cjson \<Rightarrow> 'j \<Rightarrow> nat" where
  "items_count api json = sum_list (map (\<lambda>k. length (key_items api json k))
     [''proc_id'', ''proc_name'', ''pod_id'', ''container_id'', ''gaussdb''])"

text \<open>Well-formed objects of a probe, and a sender whose locals have the sizes of their types.\<close>

definition objs_wf :: "probe_s \<Rightarrow> bool" where
  "objs_wf p \<longleftrightarrow> length (p_objs p) = SNOOPER_MAX \<and> (\<forall>ob. Some ob \<in> set (p_objs p) \<longrightarrow> obj_ok ob)"

definition ie_wf :: "ipc_env \<Rightarrow> bool" where
  "ie_wf ie \<longleftrightarrow> length (ie_junk ie) = SNOOPER_MAX \<and> (\<forall>prm. length (ie_repr ie prm) = PARAMS_SIZE)"

text \<open>The probe once process \<open>pid\<close> is gone.\<close>

definition forget_proc :: "u32 \<Rightarrow> probe_s \<Rightarrow> probe_s" where
  "forget_proc pid p = (if Some (OBJ_PROC pid) \<in> set (p_objs p)
     then p\<lparr>p_objs := map (\<lambda>x. if x = Some (OBJ_PROC pid) then None else x) (p_objs p),
            p_is_params_chg := False, p_is_snooper_chg := True\<rparr>
     else p)"

definition new_probe_state :: "int \<Rightarrow> probe_s" where
  "new_probe_state t = \<lparr>p_name = [], p_bin = None, p_chk_cmd = None, p_is_extend_probe = False,
     p_is_params_chg = False, p_is_snooper_chg = False, p_is_restart = False, p_type = t, p_range_flags = 0,
     p_entry = None, p_cb = None, p_pid = -1, p_status = 0, p_conf_num = 0,
     p_confs = replicate SNOOPER_MAX None, p_objs = replicate SNOOPER_MAX None, p_param = set_default_params zero_params\<rparr>"

definition demo_ie :: ipc_env where
  "demo_ie = \<lparr>ie_malloc = (\<lambda>_. True), ie_msgsnd = (\<lambda>_. True), ie_msq_id = 0,
     ie_repr = (\<lambda>_. replicate PARAMS_SIZE 0), ie_junk = replicate SNOOPER_MAX OBJ_MAX\<rparr>"

definition demo_cx :: "((string \<times> (string \<times> containers_hash_t) list pods_hash_t) list, (string \<times> containers_hash_t) list) snp_ctx" where
  "demo_cx = \<lparr>cx_pops = alist_ops, cx_cops = alist_ops, cx_con = demo_con_env,
     cx_proc = \<lparr>proc_dirs = Some [], proc_comm = (\<lambda>_. None), proc_cmdline = (\<lambda>_. None), proc_container = (\<lambda>_. []),
       proc_pod = (\<lambda>_. []), regex_match = (\<lambda>a b. a = b)\<rparr>,
     cx_pod_alloc = (\<lambda>_. True), cx_alloc = (\<lambda>_. True), cx_junk = replicate PROC_CMDLINE_MAX (CHR 0x00)\<rparr>"

definition demo_snoopers :: json where
  "demo_snoopers = JObj [(''proc_id'', JArr [JNum 17, JNum 4242])]"

section \<open>Reading a command line\<close>

lemma put_char_cases: "put_char buf i c = (if i < length buf then Ok (buf[i := c]) else UB)"
  by (simp add: put_char_def)

lemma cmd_width_Cons: "cmd_width (c # s) = (if c = CHR 0x22 then 2 else 1) + cmd_width s"
  by (simp add: cmd_width_def)

lemma ex_less_Suc_split: "(\<exists>k < Suc n. P k) \<longleftrightarrow> P 0 \<or> (\<exists>k < n. P (Suc k))"
  by (metis less_Suc_eq_0_disj)

lemma read_cmdline_loop_spec:
  assumes "2 \<le> sz" "length buf = sz" "index < sz"
  shows "(read_cmdline_loop sz content index buf = UB \<longleftrightarrow>
           (\<exists>k < length content. content ! k = CHR 0x22 \<and> index + cmd_width (take k content) = sz - 2)) \<and>
         (read_cmdline_loop sz content index buf \<noteq> UB \<longrightarrow>
           (\<exists>i b. read_cmdline_loop sz content index buf = Ok (i, b) \<and> i < sz \<and> length b = sz))"
  using assms(2,3)
proof (induction content arbitrary: index buf)
  case Nil
  then show ?case using assms(1) by (auto simp: put_char_cases)
next
  case (Cons c content)
  show ?case
  proof (cases "index \<ge> sz - 1")
    case True
    then have "\<not> (index + x = sz - 2)" for x using assms(1) Cons.prems by arith
    with True Cons.prems show ?thesis by (simp add: put_char_cases)
  next
    case False
    show ?thesis
    proof (cases "c = CHR 0x22")
      case True
      let ?b = "buf[index := CHR 0x5C, index + 1 := CHR 0x22]"
      have r: "read_cmdline_loop sz (c # content) index buf = read_cmdline_loop sz content (index + 2) ?b"
      proof -
        have "Suc index < sz" using False by arith
        with True False Cons.prems show ?thesis by (simp add: put_char_cases)
      qed
      have w: "index + 2 + cmd_width (take k content) = index + cmd_width (take (Suc k) (c # content))" for k
        using True by (simp add: cmd_width_def)
      show ?thesis
      proof (cases "index + 2 < sz")
        case True
        then show ?thesis unfolding r using Cons.IH [of ?b "index + 2"] Cons.prems \<open>c = _\<close>
          by (simp add: ex_less_Suc_split w cmd_width_def) (auto)
      next
        case ge: False
        then have "read_cmdline_loop sz content (index + 2) ?b = UB"
          using False Cons.prems by (cases content) (simp_all add: put_char_cases)
        moreover have "index = sz - 2" using ge False by arith
        ultimately show ?thesis unfolding r using True by (auto intro!: exI [of _ 0] simp: cmd_width_def)
      qed
    next
      case nq: False
      let ?b = "buf[index := (if c = CHR 0x00 then CHR '' '' else if c = CHR 0xFF then CHR 0x00 else c)]"
      have r: "read_cmdline_loop sz (c # content) index buf = read_cmdline_loop sz content (index + 1) ?b"
        using nq False Cons.prems by (simp add: put_char_cases)
      show ?thesis unfolding r using Cons.IH [of ?b "index + 1"] Cons.prems False nq
        by (simp add: ex_less_Suc_split cmd_width_Cons)
    qed
  qed
qed


lemma quote_at_end:
  "CHR 0x22 \<notin> set s \<Longrightarrow>
   \<exists>k < length (s @ [CHR 0x22]). (s @ [CHR 0x22]) ! k = CHR 0x22 \<and> cmd_width (take k (s @ [CHR 0x22])) = length s"
  by (intro exI [of _ "length s"]) (simp add: cmd_width_def)

text \<open>Reading the command line of a process into an array of \<open>size\<close> characters writes past the array
  exactly when the file has a quote at the place where the text so far, quotes counted twice, fills
  all but two characters: the quote takes those two, the index is then \<open>size\<close>, and the terminator
  is stored there. Otherwise the function returns and the array holds a terminated text.\<close>

theorem cmdline_overflow:
  assumes "2 \<le> sz" "length buf = sz"
  shows "(read_proc_cmdline content sz buf = UB \<longleftrightarrow>
           (\<exists>k < length content. content ! k = CHR 0x22 \<and> cmd_width (take k content) = sz - 2)) \<and>
         (read_proc_cmdline content sz buf \<noteq> UB \<longrightarrow>
           (\<exists>b. read_proc_cmdline content sz buf = Ok b \<and> length b = sz \<and> CHR 0x00 \<in> set b))"
proof -
  note spec = read_cmdline_loop_spec [OF assms, of 0 content]
  show ?thesis
  proof (cases "read_cmdline_loop sz content 0 buf = UB")
    case True
    then show ?thesis using spec assms(1) by (simp add: read_proc_cmdline_def)
  next
    case False
    then obtain i b where "read_cmdline_loop sz content 0 buf = Ok (i, b)" "i < sz" "length b = sz"
      using spec assms(1) by auto
    then show ?thesis using spec False assms(1)
      by (auto simp: read_proc_cmdline_def put_char_cases intro: set_update_memI)
  qed
qed

theorem cmdline_overflow_witness:
  "read_proc_cmdline (replicate 4094 (CHR ''x'') @ [CHR 0x22]) PROC_CMDLINE_MAX (replicate 4096 (CHR 0x00)) = UB \<and>
   read_proc_cmdline ''java -jar x'' PROC_CMDLINE_MAX (replicate 4096 (CHR 0x00)) \<noteq> UB"
proof -
  let ?s = "replicate 4094 (CHR ''x'') @ [CHR 0x22]"
  have q: "\<exists>k < length ?s. ?s ! k = CHR 0x22 \<and> cmd_width (take k ?s) = 4096 - 2"
    using quote_at_end [of "replicate 4094 (CHR ''x'')"] by simp
  have "CHR 0x22 \<notin> set ''java -jar x''" by simp
  then have n: "\<not> (\<exists>k < length ''java -jar x''. ''java -jar x'' ! k = CHR 0x22 \<and> cmd_width (take k ''java -jar x'') = 4096 - 2)"
    by (metis nth_mem)
  have sz: "2 \<le> (4096 :: nat)" "length (replicate 4096 (CHR 0x00)) = 4096" by simp_all
  note o = cmdline_overflow [OF sz, THEN conjunct1]
  show ?thesis unfolding PROC_CMDLINE_MAX_def
    using iffD2 [OF o q] contrapos_nn [OF n iffD1 [OF o [of "''java -jar x''"]]] by (rule conjI)
qed

section \<open>Contract of the item parsers\<close>

text \<open>
  A parser of items is faithful to a specification when it refuses, skips or adds what the
  specification says; then its loop appends the configurations of all items.
\<close>

locale item_parser =
  fixes step :: "'j cjson \<Rightarrow> (snp_alloc \<Rightarrow> bool) \<Rightarrow> 'j \<Rightarrow> probe_s \<Rightarrow> (probe_s \<times> int) outc"
    and conf :: "'j cjson \<Rightarrow> 'j \<Rightarrow> snooper_conf_s option option"
  assumes step_conf: "cjson_ok api \<Longrightarrow> step api malloc_ok obj p = Ok (apply_item malloc_ok (conf api obj) p)"
begin

lemma loop_appends:
  assumes "cjson_ok api" "\<And>i. malloc_ok (A_Conf i)"
  shows "\<forall>i \<in> set ixs. i < cJSON_GetArraySize api arr \<Longrightarrow> p_conf_num p + length ixs \<le> SNOOPER_MAX \<Longrightarrow>
    length (p_confs p) = SNOOPER_MAX \<Longrightarrow> \<forall>i \<in> set ixs. conf api (the (cJSON_GetArrayItem api arr i)) \<noteq> None \<Longrightarrow>
    item_loop api arr (step api malloc_ok) ixs p =
      Ok (append_confs (List.map_filter (\<lambda>i. the (conf api (the (cJSON_GetArrayItem api arr i)))) ixs) p, 0)"
proof (induction ixs arbitrary: p)
  case Nil
  then show ?case by (simp add: append_confs_def List.map_filter_def)
next
  case (Cons i ixs)
  obtain obj where obj: "cJSON_GetArrayItem api arr i = Some obj"
    using cjson_item [OF assms(1), of i arr] Cons.prems(1) by auto
  obtain oc where oc: "conf api obj = Some oc" using Cons.prems(4) obj by auto
  have n: "p_conf_num p < SNOOPER_MAX" using Cons.prems(2) by simp
  show ?case
  proof (cases oc)
    case None
    then show ?thesis using Cons.IH [of p] Cons.prems obj oc n
      by (simp add: step_conf [OF assms(1), of malloc_ok obj p] apply_item_def List.map_filter_simps)
  next
    case (Some c)
    have IH: "item_loop api arr (step api malloc_ok) ixs (put_conf c p) =
        Ok (append_confs (List.map_filter (\<lambda>i. the (conf api (the (cJSON_GetArrayItem api arr i)))) ixs) (put_conf c p), 0)"
      using Cons.prems by (intro Cons.IH) (simp_all add: put_conf_def)
    have "append_confs l (put_conf c p) = append_confs (c # l) p" for l
      using n Cons.prems(3)
      by (simp add: append_confs_def put_conf_def take_Suc_conv_app_nth take_update_swap drop_update_swap list_update_append min_absorb2)
    then show ?thesis using IH Some obj oc n
      by (simp add: step_conf [OF assms(1), of malloc_ok obj p] apply_item_def assms(2) List.map_filter_simps)
  qed
qed

lemma parse_appends:
  assumes "cjson_ok api" "\<And>i. malloc_ok (A_Conf i)" "length (p_confs p) = SNOOPER_MAX"
    and "p_conf_num p + length (key_items api json key) \<le> SNOOPER_MAX"
    and "\<forall>obj \<in> set (key_items api json key). conf api obj \<noteq> None"
  shows "parse_items api json key (step api malloc_ok) p =
    Ok (append_confs (List.map_filter (\<lambda>obj. the (conf api obj)) (key_items api json key)) p, 0)"
proof (cases "cJSON_GetObjectItem api json key")
  case None
  then show ?thesis by (simp add: parse_items_def key_items_def append_confs_def List.map_filter_simps)
next
  case (Some arr)
  have "List.map_filter (\<lambda>obj. the (conf api obj)) (array_items api arr) =
      List.map_filter (\<lambda>i. the (conf api (the (cJSON_GetArrayItem api arr i)))) [0..<cJSON_GetArraySize api arr]"
    by (simp add: array_items_def List.map_filter_def filter_map comp_def)
  then show ?thesis using Some assms loop_appends [of api malloc_ok "[0..<cJSON_GetArraySize api arr]" arr p]
    by (simp add: parse_items_def key_items_def array_items_def)
qed

end

section \<open>The five parsers\<close>

lemma member_cases:
  assumes "cjson_ok api"
  shows "string_member api obj key = (if cJSON_GetObjectItem api obj key = None \<or> bad_string api (cJSON_GetObjectItem api obj key)
           then None else opt_string api (cJSON_GetObjectItem api obj key))"
    and "\<not> (cJSON_GetObjectItem api obj key = None \<or> bad_string api (cJSON_GetObjectItem api obj key)) \<Longrightarrow>
           \<exists>s. opt_string api (cJSON_GetObjectItem api obj key) = Some s"
  using cjson_string [OF assms] by (auto simp: string_member_def bad_string_def opt_string_def split: option.splits)

lemma opt_member:
  "cjson_ok api \<Longrightarrow> \<not> bad_string api (cJSON_GetObjectItem api obj key) \<Longrightarrow>
   opt_string api (cJSON_GetObjectItem api obj key) = string_member api obj key"
  by (auto simp: string_member_def bad_string_def opt_string_def split: option.splits)

lemma opt_string_None [simp]: "opt_string api None = None"
  by (simp add: opt_string_def)

interpretation procids: item_parser procid_item procid_conf
  by unfold_locales
    (simp add: procid_item_def procid_conf_def apply_item_def add_snooper_conf_procid_def)

interpretation pods: item_parser pod_item pod_conf
proof
  fix api :: "'a cjson" and malloc_ok obj p
  assume "cjson_ok api"
  then show "pod_item api malloc_ok obj p = Ok (apply_item malloc_ok (pod_conf api obj) p)"
    using cjson_string [of api obj]
    by (auto simp: pod_item_def pod_conf_def apply_item_def add_snooper_conf_pod_def snprintf_s_def)
qed

interpretation containers: item_parser container_item container_conf
proof
  fix api :: "'a cjson" and malloc_ok obj p
  assume "cjson_ok api"
  then show "container_item api malloc_ok obj p = Ok (apply_item malloc_ok (container_conf api obj) p)"
    using cjson_string [of api obj]
    by (auto simp: container_item_def container_conf_def apply_item_def add_snooper_conf_container_def snprintf_s_def)
qed

interpretation procnames: item_parser procname_item procname_conf
proof
  fix api :: "'a cjson" and malloc_ok obj p
  assume ok: "cjson_ok api"
  let ?m = "cJSON_GetObjectItem api obj"
  show "procname_item api malloc_ok obj p = Ok (apply_item malloc_ok (procname_conf api obj) p)"
  proof (cases "?m ''comm'' = None \<or> bad_string api (?m ''comm'')")
    case True
    then show ?thesis by (auto simp: procname_item_def procname_conf_def member_cases [OF ok] apply_item_def)
  next
    case False
    then obtain s where "opt_string api (?m ''comm'') = Some s" using member_cases(2) [OF ok] by blast
    then show ?thesis using False
      by (auto simp: procname_item_def procname_conf_def member_cases(1) [OF ok] apply_item_def Let_def
          add_snooper_conf_procname_def snprintf_s_def opt_member [OF ok] simp flip: opt_member [OF ok])
  qed
qed

interpretation gaussdbs: item_parser gaussdb_item gaussdb_conf
proof
  fix api :: "'a cjson" and malloc_ok obj p
  assume ok: "cjson_ok api"
  let ?bad = "\<lambda>key. cJSON_GetObjectItem api obj key = None \<or> bad_string api (cJSON_GetObjectItem api obj key)"
  note mc = member_cases [OF ok]
  show "gaussdb_item api malloc_ok obj p = Ok (apply_item malloc_ok (gaussdb_conf api obj) p)"
  proof (cases "?bad ''dbip'' \<or> ?bad ''dbname'' \<or> ?bad ''dbuser'' \<or> ?bad ''dbpass''")
    case True
    then have "gaussdb_item api malloc_ok obj p = Ok (p, -1)" by (auto simp: gaussdb_item_def Let_def)
    moreover have "gaussdb_conf api obj = None" using True by (auto simp: gaussdb_conf_def mc(1) split: option.split)
    ultimately show ?thesis by (simp add: apply_item_def)
  next
    case False
    then obtain a b c d where "opt_string api (cJSON_GetObjectItem api obj ''dbip'') = Some a"
      "opt_string api (cJSON_GetObjectItem api obj ''dbname'') = Some b"
      "opt_string api (cJSON_GetObjectItem api obj ''dbuser'') = Some c"
      "opt_string api (cJSON_GetObjectItem api obj ''dbpass'') = Some d" using mc(2) by metis
    then show ?thesis using False
      by (cases "cJSON_GetObjectItem api obj ''dbport''")
        (auto simp: gaussdb_item_def gaussdb_conf_def mc(1) apply_item_def Let_def add_snooper_conf_gaussdb_def)
  qed
qed

lemma append_confs_append: "append_confs l' (append_confs l p) = append_confs (l @ l') p"
  if "p_conf_num p + length l \<le> length (p_confs p)"
  using that by (simp add: append_confs_def min_absorb2 add_ac)

section \<open>A request\<close>

lemma length_map_filter: "length (List.map_filter f xs) \<le> length xs"
  by (simp add: List.map_filter_def)

lemma parse_stages_all:
  assumes ok: "cjson_ok api" "\<And>i. malloc_ok (A_Conf i)" and v: "items_valid api json" "items_count api json \<le> SNOOPER_MAX"
    and p: "length (p_confs p) = SNOOPER_MAX" "p_conf_num p = 0"
  shows "parse_stages
       [(''proc_id'', parse_snooper_procid api malloc_ok json),
        (''proc_name'', parse_snooper_procname api malloc_ok json),
        (''pod_id'', parse_snooper_pod_container api malloc_ok json ''pod_id''),
        (''container_id'', parse_snooper_pod_container api malloc_ok json ''container_id''),
        (''gaussdb'', parse_snooper_gaussdb api malloc_ok json)] p = Ok (append_confs (requested api json) p, Inr ())"
proof -
  let ?f = "\<lambda>conf key. List.map_filter (\<lambda>obj. the (conf api obj)) (key_items api json key)"
  have len: "length (?f conf key) \<le> length (key_items api json key)" for conf key by (rule length_map_filter)
  have num: "p_conf_num (append_confs l p) = p_conf_num p + length l"
    "length (p_confs (append_confs l p)) = length (p_confs p)" if "p_conf_num p + length l \<le> length (p_confs p)" for l p
    using that by (simp_all add: append_confs_def)
  have cnt: "length (key_items api json ''proc_id'') + length (key_items api json ''proc_name'') +
      length (key_items api json ''pod_id'') + length (key_items api json ''container_id'') +
      length (key_items api json ''gaussdb'') \<le> SNOOPER_MAX" using v(2) by (simp add: items_count_def)
  define p1 where "p1 = append_confs (?f procid_conf ''proc_id'') p"
  define p2 where "p2 = append_confs (?f procname_conf ''proc_name'') p1"
  define p3 where "p3 = append_confs (?f pod_conf ''pod_id'') p2"
  define p4 where "p4 = append_confs (?f container_conf ''container_id'') p3"
  define p5 where "p5 = append_confs (?f gaussdb_conf ''gaussdb'') p4"
  note lens = len [of procid_conf "''proc_id''"] len [of procname_conf "''proc_name''"] len [of pod_conf "''pod_id''"]
    len [of container_conf "''container_id''"] len [of gaussdb_conf "''gaussdb''"]
  have n1: "p_conf_num p1 = length (?f procid_conf ''proc_id'')" "length (p_confs p1) = SNOOPER_MAX"
    using num [of p] p lens(1) cnt by (simp_all add: p1_def)
  have n2: "p_conf_num p2 = p_conf_num p1 + length (?f procname_conf ''proc_name'')" "length (p_confs p2) = SNOOPER_MAX"
    using num [of p1] n1 lens cnt by (simp_all add: p2_def)
  have n3: "p_conf_num p3 = p_conf_num p2 + length (?f pod_conf ''pod_id'')" "length (p_confs p3) = SNOOPER_MAX"
    using num [of p2] n1 n2 lens cnt by (simp_all add: p3_def)
  have n4: "p_conf_num p4 = p_conf_num p3 + length (?f container_conf ''container_id'')" "length (p_confs p4) = SNOOPER_MAX"
    using num [of p3] n1 n2 n3 lens cnt by (simp_all add: p4_def)
  have 1: "parse_snooper_procid api malloc_ok json p = Ok (p1, 0)"
    using v(1) p cnt unfolding parse_snooper_procid_def p1_def
    by (intro procids.parse_appends [where malloc_ok = malloc_ok, OF ok]) (simp_all add: items_valid_def)
  have 2: "parse_snooper_procname api malloc_ok json p1 = Ok (p2, 0)"
    using v(1) n1 lens cnt unfolding parse_snooper_procname_def p2_def
    by (intro procnames.parse_appends [where malloc_ok = malloc_ok, OF ok]) (simp_all add: items_valid_def)
  have "strcaseeq ''pod_id'' ''pod_id''" "\<not> strcaseeq ''container_id'' ''pod_id''" by (simp_all add: strcaseeq_def)
  moreover have "parse_items api json ''pod_id'' (pod_item api malloc_ok) p2 = Ok (p3, 0)"
    using v(1) n1 n2 lens cnt unfolding p3_def by (intro pods.parse_appends [where malloc_ok = malloc_ok, OF ok]) (simp_all add: items_valid_def)
  moreover have "parse_items api json ''container_id'' (container_item api malloc_ok) p3 = Ok (p4, 0)"
    using v(1) n1 n2 n3 lens cnt unfolding p4_def
    by (intro containers.parse_appends [where malloc_ok = malloc_ok, OF ok]) (simp_all add: items_valid_def)
  ultimately have 34: "parse_snooper_pod_container api malloc_ok json ''pod_id'' p2 = Ok (p3, 0)"
    "parse_snooper_pod_container api malloc_ok json ''container_id'' p3 = Ok (p4, 0)"
    by (simp_all add: parse_snooper_pod_container_def Let_def)
  have 5: "parse_snooper_gaussdb api malloc_ok json p4 = Ok (p5, 0)"
    using v(1) n1 n2 n3 n4 lens cnt unfolding parse_snooper_gaussdb_def p5_def
    by (intro gaussdbs.parse_appends [where malloc_ok = malloc_ok, OF ok]) (simp_all add: items_valid_def)
  have "p5 = append_confs (requested api json) p"
    unfolding p5_def p4_def p3_def p2_def p1_def requested_def using p lens cnt
    by (simp add: append_confs_append)
  with 1 2 34 5 show ?thesis by simp
qed

lemma parse_snooper_any:
  assumes "cjson_ok api" "\<And>i. cx_alloc cx (A_Conf i)" "items_valid api json" "items_count api json \<le> SNOOPER_MAX"
    and "length (p_confs p) = SNOOPER_MAX" "p_conf_num p \<le> SNOOPER_MAX"
  shows "parse_snooper cx api json (h, p) =
     bnd (refresh_snooper_obj cx (h, p\<lparr>p_confs := map Some (requested api json) @
             drop (length (requested api json)) (replicate (p_conf_num p) None @ drop (p_conf_num p) (p_confs p)), p_conf_num := length (requested api json)\<rparr>))
       (\<lambda>(h, p). Ok (h, p, Inr ()))"
proof -
  let ?p = "p\<lparr>p_confs := replicate (p_conf_num p) None @ drop (p_conf_num p) (p_confs p), p_conf_num := 0\<rparr>"
  have "length (p_confs ?p) = SNOOPER_MAX" using assms(5,6) by simp
  moreover have "append_confs (requested api json) ?p = p\<lparr>p_confs := map Some (requested api json) @
      drop (length (requested api json)) (replicate (p_conf_num p) None @ drop (p_conf_num p) (p_confs p)), p_conf_num := length (requested api json)\<rparr>"
    by (simp add: append_confs_def)
  ultimately show ?thesis using parse_stages_all [where malloc_ok = "cx_alloc cx", OF assms(1-4), of ?p] by (simp add: parse_snooper_def Let_def)
qed

lemma parse_snooper_run:
  assumes "cjson_ok api" "\<And>i. cx_alloc cx (A_Conf i)" "items_valid api json" "items_count api json \<le> SNOOPER_MAX"
    and "p_confs p = replicate SNOOPER_MAX None" "p_conf_num p \<le> SNOOPER_MAX"
  shows "parse_snooper cx api json (h, p) =
     bnd (refresh_snooper_obj cx (h, p\<lparr>p_confs := map Some (requested api json) @
             replicate (SNOOPER_MAX - length (requested api json)) None, p_conf_num := length (requested api json)\<rparr>))
       (\<lambda>(h, p). Ok (h, p, Inr ()))"
proof -
  have "replicate (p_conf_num p) None @ drop (p_conf_num p) (p_confs p) = replicate SNOOPER_MAX None"
    using assms(5,6) by (simp flip: replicate_add)
  then show ?thesis using parse_snooper_any [where cx = cx, OF assms(1-4), of p h] assms(5,6) by simp
qed

text \<open>Configurations that are process ids: their objects, in order.\<close>

lemma idle_slot_prefix: "idle_slot (map Some xs @ None # rest) = Some (length xs)"
  by (induction xs) simp_all

lemma refresh_procids:
  assumes "\<And>i. cx_alloc cx (A_Obj i)"
  shows "length xs + length ids \<le> SNOOPER_MAX \<Longrightarrow> p_objs p = map Some xs @ replicate (SNOOPER_MAX - length xs) None \<Longrightarrow>
    refresh_loop cx (map (\<lambda>i. Some (CONF_PROC_ID i)) ids) (h, p) =
      Ok (h, p\<lparr>p_objs := map Some (xs @ map OBJ_PROC ids) @ replicate (SNOOPER_MAX - (length xs + length ids)) None\<rparr>)"
proof (induction ids arbitrary: xs p)
  case Nil
  then show ?case by simp
next
  case (Cons i ids)
  obtain m where m: "SNOOPER_MAX - length xs = Suc m" using Cons.prems(1) by (cases "SNOOPER_MAX - length xs") auto
  have "idle_slot (take SNOOPER_MAX (p_objs p)) = Some (length xs)"
    using Cons.prems by (simp add: m idle_slot_prefix)
  moreover have "(p_objs p)[length xs := Some (OBJ_PROC i)] =
      map Some (xs @ [OBJ_PROC i]) @ replicate (SNOOPER_MAX - length (xs @ [OBJ_PROC i])) None"
    using Cons.prems(2) m by (simp add: list_update_append)
  ultimately have "snooper_generator cx (CONF_PROC_ID i) (h, p) =
      Ok (h, p\<lparr>p_objs := map Some (xs @ [OBJ_PROC i]) @ replicate (SNOOPER_MAX - length (xs @ [OBJ_PROC i])) None\<rparr>, 0)"
    by (simp add: snooper_generator_def gen_snooper_by_procid_def add_snooper_obj_procid_def put_obj_def
        get_snooper_obj_idle_def assms)
  then show ?case using Cons.IH [of "xs @ [OBJ_PROC i]" "p\<lparr>p_objs := map Some (xs @ [OBJ_PROC i]) @
      replicate (SNOOPER_MAX - length (xs @ [OBJ_PROC i])) None\<rparr>"] Cons.prems(1) by simp
qed

section \<open>Messages\<close>

lemma set_map_filter_id: "set (List.map_filter id xs) = {x. Some x \<in> set xs}"
  by (auto simp: List.map_filter_def image_iff) (metis option.sel option.distinct(1))

lemma build_body_ok:
  assumes "ie_wf ie" "objs_wf p"
  shows "body_ok (build_ipc_body (ie_repr ie) (ie_junk ie) p)"
    "live_objs (build_ipc_body (ie_repr ie) (ie_junk ie) p) = List.map_filter id (p_objs p)"
proof -
  let ?o = "List.map_filter id (p_objs p)"
  have l: "length ?o \<le> SNOOPER_MAX" using length_map_filter [of id "p_objs p"] assms(2) by (simp add: objs_wf_def)
  then have n: "unat (of_nat (length ?o) :: u32) = length ?o" by (simp add: unat_of_nat SNOOPER_MAX_def)
  show live: "live_objs (build_ipc_body (ie_repr ie) (ie_junk ie) p) = ?o"
    using l assms by (simp add: live_objs_def build_ipc_body_def Let_def objs_wf_def n)
  show "body_ok (build_ipc_body (ie_repr ie) (ie_junk ie) p)" unfolding body_ok_def live
    using l assms by (auto simp: build_ipc_body_def Let_def objs_wf_def ie_wf_def set_map_filter_id)
qed

lemma send_ipc_msg_returns:
  assumes "body_ok b"
  shows "\<exists>ret q'. send_ipc_msg malloc_ok msgsnd_ok msqid t b q = Ok (ret, q') \<and> (q' = q \<or> (\<exists>x. q' = q @ [(t, x)]))"
proof -
  have "build_ipc_msg (replicate (length (enc_body b) + IPC_MSG_SLACK) 0) (length (enc_body b)) b =
      Ok (fill (replicate (length (enc_body b) + IPC_MSG_SLACK) 0) 0 (enc_body b), 0)"
    using assms by (intro build_ipc_msg_fill) simp_all
  then have "create_ipc_msg malloc_ok b = Ok None \<or>
      create_ipc_msg malloc_ok b = Ok (Some (length (enc_body b), enc_body b @ replicate IPC_MSG_SLACK 0))"
    using assms by (simp add: create_ipc_msg_def malloc_ipc_msg_def calc_ipc_msg_len_enc fill_def)
  moreover have "rd (enc_body b @ replicate IPC_MSG_SLACK 0) 0 (length (enc_body b)) = Ok (enc_body b)"
    by (simp add: rd_def)
  ultimately show ?thesis by (auto simp: send_ipc_msg_def)
qed

lemma notify_returns:
  assumes "ie_wf ie" "objs_wf p"
  shows "\<exists>q'. notify ie p changed q = Ok (if changed then p\<lparr>p_is_params_chg := False, p_is_snooper_chg := True\<rparr> else p, q') \<and>
     (q' = q \<or> changed \<and> IS_STARTED_PROBE p \<and> (\<exists>x. q' = q @ [(p_type p, x)]))"
proof -
  let ?p = "p\<lparr>p_is_params_chg := False, p_is_snooper_chg := True\<rparr>"
  have "objs_wf ?p" using assms(2) by (simp add: objs_wf_def)
  then have ok: "body_ok (build_ipc_body (ie_repr ie) (ie_junk ie) ?p)" by (rule build_body_ok(1) [OF assms(1)])
  obtain ret q' where s: "send_ipc_msg (ie_malloc ie) (ie_msgsnd ie) (ie_msq_id ie) (p_type ?p)
      (build_ipc_body (ie_repr ie) (ie_junk ie) ?p) q = Ok (ret, q')" "q' = q \<or> (\<exists>x. q' = q @ [(p_type ?p, x)])"
    using send_ipc_msg_returns [OF ok] by blast
  have st: "IS_STARTED_PROBE ?p = IS_STARTED_PROBE p" by (simp add: IS_STARTED_PROBE_def)
  show ?thesis
  proof (cases "changed \<and> IS_STARTED_PROBE p")
    case True
    then show ?thesis using s by (simp add: notify_def send_snooper_obj_def st)
  next
    case False
    then show ?thesis by (auto simp: notify_def send_snooper_obj_def st)
  qed
qed

section \<open>A process that ends\<close>

lemma clear_proc:
  assumes "length (p_objs p) = SNOOPER_MAX"
  shows "clear_objs (\<lambda>y. y = OBJ_PROC pid) p =
    (p\<lparr>p_objs := map (\<lambda>x. if x = Some (OBJ_PROC pid) then None else x) (p_objs p)\<rparr>, Some (OBJ_PROC pid) \<in> set (p_objs p))"
proof -
  have h: "(case x of None \<Rightarrow> False | Some y \<Rightarrow> y = OBJ_PROC pid) = (x = Some (OBJ_PROC pid))" for x
    by (auto split: option.split)
  show ?thesis using assms by (simp add: clear_objs_def Let_def h list_ex_iff)
qed

lemma clear_absent: "Some y \<notin> set xs \<Longrightarrow> map (\<lambda>x. if x = Some y then None else x) xs = xs"
  by (intro map_idI) auto

lemma proc_exit_one:
  assumes "ie_wf ie" "objs_wf p"
  shows "\<exists>q'. (case clear_objs (\<lambda>y. y = OBJ_PROC pid) p of (p, removed) \<Rightarrow> notify ie p removed q) = Ok (forget_proc pid p, q') \<and>
     (q' = q \<or> Some (OBJ_PROC pid) \<in> set (p_objs p) \<and> IS_STARTED_PROBE p \<and> (\<exists>x. q' = q @ [(p_type p, x)]))"
proof -
  let ?c = "p\<lparr>p_objs := map (\<lambda>x. if x = Some (OBJ_PROC pid) then None else x) (p_objs p)\<rparr>"
  have c: "clear_objs (\<lambda>y. y = OBJ_PROC pid) p = (?c, Some (OBJ_PROC pid) \<in> set (p_objs p))"
    using assms(2) by (intro clear_proc) (simp add: objs_wf_def)
  have "objs_wf ?c" using assms(2) by (auto simp: objs_wf_def split: if_splits)
  from notify_returns [OF assms(1) this, of "Some (OBJ_PROC pid) \<in> set (p_objs p)" q] show ?thesis
    by (auto simp: c forget_proc_def clear_absent IS_STARTED_PROBE_def)
qed

lemma each_probe_run:
  assumes "\<And>p q. Some p \<in> set ps \<Longrightarrow> \<exists>q'. f p q = Ok (g p, q') \<and> (q' = q \<or> hit p \<and> (\<exists>x. q' = q @ [(p_type p, x)]))"
  shows "\<exists>msgs. each_probe f ps q = Ok (map (map_option g) ps, q @ msgs) \<and>
     (\<forall>m \<in> set msgs. \<exists>p. Some p \<in> set ps \<and> hit p \<and> fst m = p_type p)"
  using assms
proof (induction ps arbitrary: q)
  case (Cons a ps)
  have IH: "\<exists>msgs. each_probe f ps q = Ok (map (map_option g) ps, q @ msgs) \<and>
      (\<forall>m \<in> set msgs. \<exists>p. Some p \<in> set ps \<and> hit p \<and> fst m = p_type p)" for q
    using Cons.prems by (intro Cons.IH) auto
  show ?case
  proof (cases a)
    case None
    then show ?thesis using IH [of q] by fastforce
  next
    case (Some p)
    obtain q' where 1: "f p q = Ok (g p, q')" "q' = q \<or> hit p \<and> (\<exists>x. q' = q @ [(p_type p, x)])"
      using Cons.prems [of p q] Some by auto
    obtain msgs where 2: "each_probe f ps q' = Ok (map (map_option g) ps, q' @ msgs)"
      "\<forall>m \<in> set msgs. \<exists>p. Some p \<in> set ps \<and> hit p \<and> fst m = p_type p" using IH by blast
    from 1(2) obtain ms where "q' = q @ ms" "\<forall>m \<in> set ms. hit p \<and> fst m = p_type p" by force
    then show ?thesis using 1 2 Some by (intro exI [of _ "ms @ msgs"]) auto
  qed
qed simp

text \<open>When a process ends, every probe forgets exactly the objects of that process: its slots are
  freed, all other slots and all other probes stay as they are, and only a started probe that had the
  process is sent a message. The handler returns whatever the probes hold.\<close>

theorem snooper_proc_exit:
  assumes "ie_wf ie" "\<And>p. Some p \<in> set probes \<Longrightarrow> objs_wf p"
  shows "\<exists>msgs. rcv_snooper_proc_exit ie pid probes q = Ok (map (map_option (forget_proc pid)) probes, q @ msgs) \<and>
     (\<forall>m \<in> set msgs. \<exists>p. Some p \<in> set probes \<and> (Some (OBJ_PROC pid) \<in> set (p_objs p) \<and> IS_STARTED_PROBE p) \<and> fst m = p_type p) \<and>
     (\<forall>p. Some p \<in> set (map (map_option (forget_proc pid)) probes) \<longrightarrow> Some (OBJ_PROC pid) \<notin> set (p_objs p) \<and> objs_wf p)"
proof -
  have "\<exists>q'. (case clear_objs (\<lambda>y. y = OBJ_PROC pid) p of (p, removed) \<Rightarrow> notify ie p removed q) = Ok (forget_proc pid p, q') \<and>
     (q' = q \<or> (Some (OBJ_PROC pid) \<in> set (p_objs p) \<and> IS_STARTED_PROBE p) \<and> (\<exists>x. q' = q @ [(p_type p, x)]))"
    if "Some p \<in> set probes" for p q
    using proc_exit_one [where pid = pid and q = q, OF assms(1) assms(2) [OF that]] by auto
  from each_probe_run [where g = "forget_proc pid", OF this]
  obtain msgs where "rcv_snooper_proc_exit ie pid probes q = Ok (map (map_option (forget_proc pid)) probes, q @ msgs)"
    "\<forall>m \<in> set msgs. \<exists>p. Some p \<in> set probes \<and> (Some (OBJ_PROC pid) \<in> set (p_objs p) \<and> IS_STARTED_PROBE p) \<and> fst m = p_type p"
    unfolding rcv_snooper_proc_exit_def by blast
  moreover have "Some (OBJ_PROC pid) \<notin> set (p_objs (forget_proc pid p)) \<and> objs_wf (forget_proc pid p)" if "objs_wf p" for p
    using that by (auto simp: forget_proc_def objs_wf_def)
  moreover have "\<exists>p0. Some p0 \<in> set probes \<and> p = forget_proc pid p0"
    if "Some p \<in> set (map (map_option (forget_proc pid)) probes)" for p
    using that by (auto simp: map_option_eq_Some dest!: sym [of "Some p"])
  ultimately show ?thesis using assms(2) by (intro exI [of _ msgs] conjI allI impI) (assumption, assumption, metis+)
qed

lemma demo_ie_wf: "ie_wf demo_ie"
  by (simp add: ie_wf_def demo_ie_def)

theorem snooper_proc_exit_witness:
  "\<exists>msgs. rcv_snooper_proc_exit demo_ie 7 [None, Some ((new_probe_state 4)\<lparr>p_status := 1,
      p_objs := Some (OBJ_PROC 7) # replicate 99 None\<rparr>)] [] =
    Ok ([None, Some ((new_probe_state 4)\<lparr>p_status := 1, p_is_snooper_chg := True, p_objs := replicate 100 None\<rparr>)], msgs)"
proof -
  let ?p = "(new_probe_state 4)\<lparr>p_status := 1, p_objs := Some (OBJ_PROC 7) # replicate 99 None\<rparr>"
  have "objs_wf p" if "Some p \<in> set [None, Some ?p]" for p
    using that by (auto simp: objs_wf_def SNOOPER_MAX_def)
  from snooper_proc_exit [OF demo_ie_wf this, where pid = 7 and q = "[]"] obtain msgs where
    "rcv_snooper_proc_exit demo_ie 7 [None, Some ?p] [] = Ok (map (map_option (forget_proc 7)) [None, Some ?p], [] @ msgs)" by blast
  moreover have "replicate 100 None = None # replicate 99 (None :: snooper_obj_s option)"
    by (simp flip: replicate_Suc)
  moreover have "forget_proc 7 ?p = (new_probe_state 4)\<lparr>p_status := 1, p_is_snooper_chg := True, p_objs := None # replicate 99 None\<rparr>"
    by (simp add: forget_proc_def new_probe_state_def)
  ultimately show ?thesis by simp
qed

text \<open>The connection data of a GaussDB snooper is thrown away: of the address, the database, the
  user and the password only empty strings are kept, so that a request with real values yields a
  configuration, and an object for the probe, that has none of them.\<close>

theorem snooper_gaussdb_lost:
  assumes "ip \<noteq> []" "db \<noteq> []" "user \<noteq> []" "pw \<noteq> []" "p_conf_num p < SNOOPER_MAX" "malloc_ok (A_Conf (p_conf_num p))"
    and "add_snooper_conf_gaussdb malloc_ok p (Some ip) (Some db) (Some user) (Some pw) prt = (p', ret)"
  shows "ret = 0 \<and> p' = put_conf (CONF_GAUSSDB None None None None prt) p \<and>
    snooper_generator cx (CONF_GAUSSDB None None None None prt) (h, p') =
      (case put_obj (cx_alloc cx) p' (OBJ_GAUSSDB \<lparr>port = prt, db_ip = None, dbname = None, usr = None, pass = None\<rparr>) of
         (q, r) \<Rightarrow> Ok (h, q, r))"
  using assms by (auto simp: add_snooper_conf_gaussdb_def dup_empty_def snooper_generator_def gen_snooper_by_gaussdb_def
      add_snooper_obj_gaussdb_def)

lemma demo_items:
  "key_items json_api demo_snoopers key = (if key = ''proc_id'' then [JNum 17, JNum 4242] else [])"
  by (simp add: key_items_def demo_snoopers_def json_api_def array_items_def upt_rec)

lemma demo_procid: "procid_conf json_api (JNum n) = Some (Some (CONF_PROC_ID (word_of_int n)))"
  by (simp add: procid_conf_def json_api_def)

lemma demo_requested: "requested json_api demo_snoopers = map CONF_PROC_ID [17, 4242]"
  "items_valid json_api demo_snoopers" "items_count json_api demo_snoopers = 2"
  by (simp_all add: requested_def demo_items items_valid_def items_count_def List.map_filter_simps demo_procid)

theorem snooper_gaussdb_lost_witness:
  "fst (add_snooper_conf_gaussdb (\<lambda>_. True) (new_probe_state 12) (Some ''10.0.0.1'') (Some ''postgres'') (Some ''u'') (Some ''pw'') 5432) =
     put_conf (CONF_GAUSSDB None None None None 5432) (new_probe_state 12)"
proof -
  obtain p' ret where r: "add_snooper_conf_gaussdb (\<lambda>_. True) (new_probe_state 12) (Some ''10.0.0.1'') (Some ''postgres'')
      (Some ''u'') (Some ''pw'') 5432 = (p', ret)" by force
  have "p' = put_conf (CONF_GAUSSDB None None None None 5432) (new_probe_state 12)"
    using snooper_gaussdb_lost [OF _ _ _ _ _ _ r, of demo_cx "[]"] by (simp add: new_probe_state_def SNOOPER_MAX_def)
  with r show ?thesis by simp
qed

lemma requested_length: "length (requested api json) \<le> items_count api json"
  unfolding requested_def items_count_def length_append list.map sum_list.Cons sum_list.Nil
  by (intro add_mono length_map_filter) (simp add: length_map_filter)

lemma parse_snooper_procids:
  assumes "cjson_ok api" "\<And>x. cx_alloc cx x" "items_valid api json" "items_count api json \<le> SNOOPER_MAX"
    and "p_confs p = replicate SNOOPER_MAX None" "p_conf_num p \<le> SNOOPER_MAX" "requested api json = map CONF_PROC_ID ids"
  shows "\<exists>q. parse_snooper cx api json (h, p) = Ok (h, q, Inr ()) \<and>
    q = p\<lparr>p_confs := map Some (requested api json) @ replicate (SNOOPER_MAX - length ids) None, p_conf_num := length ids,
          p_objs := map Some (map OBJ_PROC ids) @ replicate (SNOOPER_MAX - length ids) None\<rparr>"
proof -
  let ?p = "p\<lparr>p_confs := map Some (requested api json) @ replicate (SNOOPER_MAX - length (requested api json)) None,
      p_conf_num := length (requested api json)\<rparr>"
  have l: "length ids \<le> SNOOPER_MAX" using requested_length [of api json] assms(4,7) by simp
  have "take (p_conf_num ?p) (p_confs ?p) = map (\<lambda>i. Some (CONF_PROC_ID i)) ids"
    by (simp add: assms(7))
  then have "refresh_snooper_obj cx (h, ?p) = refresh_loop cx (map (\<lambda>i. Some (CONF_PROC_ID i)) ids)
      (h, ?p\<lparr>p_objs := replicate SNOOPER_MAX None\<rparr>)" by (simp only: refresh_snooper_obj_def prod.case)
  also have "\<dots> = Ok (h, ?p\<lparr>p_objs := replicate SNOOPER_MAX None\<rparr>\<lparr>p_objs := map Some ([] @ map OBJ_PROC ids) @
      replicate (SNOOPER_MAX - (length ([] :: snooper_obj_s list) + length ids)) None\<rparr>)"
    using l assms(2) by (intro refresh_procids) simp_all
  finally show ?thesis
    using parse_snooper_run [where cx = cx, OF assms(1) assms(2) assms(3-6), of h] by (simp add: assms(7))
qed

lemma map_filter_kept:
  assumes "\<forall>obj \<in> set objs. the (f obj) = map_option kept (the (g obj))"
  shows "List.map_filter (\<lambda>obj. the (f obj)) objs = map kept (List.map_filter (\<lambda>obj. the (g obj)) objs)"
  using assms by (induction objs) (auto simp: List.map_filter_simps split: option.split)

lemma kept_items:
  "procid_conf api obj \<noteq> None \<Longrightarrow> the (procid_conf api obj) = map_option kept (the (procid_conf api obj))"
  "procname_conf api obj \<noteq> None \<Longrightarrow> the (procname_conf api obj) = map_option kept (the (procname_conf api obj))"
  "pod_conf api obj \<noteq> None \<Longrightarrow> the (pod_conf api obj) = map_option kept (the (pod_conf api obj))"
  "container_conf api obj \<noteq> None \<Longrightarrow> the (container_conf api obj) = map_option kept (the (container_conf api obj))"
  "gaussdb_conf api obj \<noteq> None \<Longrightarrow> the (gaussdb_conf api obj) = map_option kept (the (gaussdb_asked api obj))"
  by (auto simp: procid_conf_def procname_conf_def pod_conf_def container_conf_def gaussdb_conf_def gaussdb_asked_def split: if_splits option.splits)

lemma requested_asked: "items_valid api json \<Longrightarrow> requested api json = map kept (asked api json)"
  unfolding items_valid_def requested_def asked_def map_append
  by (intro arg_cong2 [where f = append] map_filter_kept) (blast intro: kept_items)+

lemma refresh_new_confs:
  assumes "\<And>x. cx_alloc cx x" "length ids \<le> SNOOPER_MAX" "take (p_conf_num p) (p_confs p) = map (\<lambda>i. Some (CONF_PROC_ID i)) ids"
  shows "refresh_snooper_obj cx (h, p) = Ok (h, p\<lparr>p_objs := map Some (map OBJ_PROC ids) @ replicate (SNOOPER_MAX - length ids) None\<rparr>)"
  using refresh_procids [where cx = cx and xs = "[]" and p = "p\<lparr>p_objs := replicate SNOOPER_MAX None\<rparr>", OF assms(1)] assms(2,3)
  by (simp add: refresh_snooper_obj_def)

text \<open>C24. The snoopers of a request: when all items are well-formed and there are at most 100, the configurations of the probe become those the request asks for, in the order of the
  five keys, whatever it had before, and its objects are generated anew from them; for process ids these are the processes named, one slot each, in order. The names are kept up
  to the length of their fields (16 characters of a process, the widths of the ids of a pod and a container). Of a database the probe keeps the port, but of its
  address, name, user and password only the empty strings: \<open>kept\<close> is what remains of a configuration that is asked for, the identity for every other kind.\<close>

theorem snooper_request:
  assumes "cjson_ok api" "\<And>x. cx_alloc cx x" "items_valid api json" "items_count api json \<le> SNOOPER_MAX"
    and "length (p_confs p) = SNOOPER_MAX" "p_conf_num p \<le> SNOOPER_MAX"
    and "q = p\<lparr>p_confs := map Some (map kept (asked api json)) @ drop (length (asked api json)) (replicate (p_conf_num p) None @ drop (p_conf_num p) (p_confs p)),
               p_conf_num := length (asked api json)\<rparr>"
  shows "parse_snooper cx api json (h, p) = bnd (refresh_snooper_obj cx (h, q)) (\<lambda>(h, p). Ok (h, p, Inr ())) \<and>
     (\<forall>ids. asked api json = map CONF_PROC_ID ids \<longrightarrow>
       parse_snooper cx api json (h, p) = Ok (h, q\<lparr>p_objs := map Some (map OBJ_PROC ids) @ replicate (SNOOPER_MAX - length ids) None\<rparr>, Inr ()))"
proof -
  have r: "parse_snooper cx api json (h, p) = bnd (refresh_snooper_obj cx (h, q)) (\<lambda>(h, p). Ok (h, p, Inr ()))"
    using parse_snooper_any [where cx = cx, OF assms(1) assms(2) assms(3-6), of h] requested_asked [OF assms(3)] assms(7) by simp
  moreover have "refresh_snooper_obj cx (h, q) = Ok (h, q\<lparr>p_objs := map Some (map OBJ_PROC ids) @ replicate (SNOOPER_MAX - length ids) None\<rparr>)"
    if "asked api json = map CONF_PROC_ID ids" for ids
  proof (rule refresh_new_confs [OF assms(2)])
    show "length ids \<le> SNOOPER_MAX" using requested_length [of api json] requested_asked [OF assms(3)] assms(4) that by simp
    show "take (p_conf_num q) (p_confs q) = map (\<lambda>i. Some (CONF_PROC_ID i)) ids" using assms(7) that by simp
  qed
  ultimately show ?thesis by simp
qed

text \<open>A probe that watched a process by its name is given two process ids.\<close>

theorem snooper_request_witness:
  "\<exists>q. parse_snooper demo_cx json_api demo_snoopers ([], put_conf (CONF_APP ''nginx'' None None) (new_probe_state 4)) = Ok ([], q, Inr ()) \<and>
     p_objs q = [Some (OBJ_PROC 17), Some (OBJ_PROC 4242)] @ replicate 98 None \<and> p_conf_num q = 2 \<and>
     take 2 (p_confs q) = [Some (CONF_PROC_ID 17), Some (CONF_PROC_ID 4242)]"
proof -
  let ?p = "put_conf (CONF_APP ''nginx'' None None) (new_probe_state 4)"
  have a: "\<And>x. cx_alloc demo_cx x" by (simp add: demo_cx_def)
  have k: "asked json_api demo_snoopers = map CONF_PROC_ID [17, 4242]" by (simp add: asked_def demo_items List.map_filter_simps demo_procid)
  have "items_count json_api demo_snoopers \<le> SNOOPER_MAX" "length (p_confs ?p) = SNOOPER_MAX"
    "p_conf_num ?p \<le> SNOOPER_MAX" by (simp_all add: demo_requested new_probe_state_def put_conf_def SNOOPER_MAX_def)
  from snooper_request [where cx = demo_cx and h = "[]", OF json_api_ok a demo_requested(2) this refl, THEN conjunct2, rule_format, OF k] show ?thesis
    by (simp add: k SNOOPER_MAX_def)
qed

end
