(* ===== verification/Probe_Mng.thy ===== *)
theory Probe_Mng
  imports Snooper
begin

unbundle bit_operations_syntax

text \<open>
  The probe manager, src/src/lib/probe/probe_mng.c: the probes by type, the request that configures,
  starts and stops one (\<open>parse_probe_json\<close>) with its backup and rollback, and the keep-alive pass.
  A request is applied under the lock of the manager, so that it is one step; the thread of an
  extended probe (src/src/lib/probe/extend_probe.c, \<open>RunExtendProbe\<close>) touches the status flags
  concurrently and is a component of its own in the step relation below.

  Arguments of the model (\<open>pm_env\<close>): the file system (\<open>access\<close>), the answers of the shell commands
  that look for an installed file or test the start condition, the symbols of the program itself
  (\<open>dlsym\<close>), and whether threads can be created and cancelled. The C library's \<open>strdup\<close> is taken to
  succeed.
\<close>

section \<open>Data\<close>

definition MAX_PROBE_NAME_LEN :: nat where "MAX_PROBE_NAME_LEN = 32"

record pm_env =
  pe_access :: "string \<Rightarrow> bool"
  pe_install_dir :: "string \<Rightarrow> string option"
  pe_dlsym :: "string \<Rightarrow> bool"
  pe_check_cmd :: "string \<Rightarrow> int option"
  pe_thread_ok :: bool
  pe_cancel_ok :: bool
  pe_valid_pid :: "int \<Rightarrow> bool"

text \<open>\<open>struct probe_define_s\<close>: the name of a probe, its default program, and its type.\<close>

definition probe_define :: "(string \<times> string \<times> int) list" where
  "probe_define = [
     (''baseinfo'', ''system_infos'', 1), (''virt'', ''virtualized_infos'', 2),
     (''flamegraph'', ''$gala-gopher-dir/stackprobe'', 3), (''l7'', ''$gala-gopher-dir/l7probe'', 4),
     (''tcp'', ''$gala-gopher-dir/tcpprobe'', 5), (''socket'', ''$gala-gopher-dir/endpoint'', 6),
     (''io'', ''$gala-gopher-dir/ioprobe'', 7), (''proc'', ''$gala-gopher-dir/taskprobe'', 8),
     (''jvm'', ''$gala-gopher-dir/jvmprobe'', 9), (''redis_sli'', ''$gala-gopher-dir/redissli'', 10),
     (''postgre_sli'', ''$gala-gopher-dir/pgsliprobe'', 11),
     (''opengauss_sli'', ''$gala-gopher-dir/pg_stat_probe.py'', 12),
     (''dnsmasq'', ''$gala-gopher-dir/rabbitmq_probe.sh'', 13), (''lvs'', ''$gala-gopher-dir/trace_lvs'', 14),
     (''nginx'', ''$gala-gopher-dir/nginx_probe'', 15), (''haproxy'', ''$gala-gopher-dir/trace_haproxy'', 16),
     (''kafka'', ''$gala-gopher-dir/kafkaprobe'', 17), (''tprofiling'', ''$gala-gopher-dir/tprofiling'', 18),
     (''hw'', ''$gala-gopher-dir/hwprobe'', 19), (''ksli'', ''$gala-gopher-dir/ksliprobe'', 20),
     (''sched'', ''$gala-gopher-dir/schedprobe'', 21)]"

definition probe_range_define :: "(int \<times> string \<times> u32) list" where
  "probe_range_define = [
     (3, ''oncpu'', 1), (3, ''offcpu'', 2), (3, ''mem'', 4), (3, ''io'', 8),
     (4, ''l7_bytes_metrics'', 1), (4, ''l7_rpc_metrics'', 2), (4, ''l7_rpc_trace'', 4),
     (5, ''tcp_abnormal'', 1), (5, ''tcp_rtt'', 4), (5, ''tcp_windows'', 2), (5, ''tcp_srtt'', 0x40),
     (5, ''tcp_rate'', 0x20), (5, ''tcp_sockbuf'', 0x10), (5, ''tcp_stats'', 8),
     (6, ''tcp_socket'', 1), (6, ''udp_socket'', 2),
     (7, ''io_trace'', 1), (7, ''io_err'', 2), (7, ''io_count'', 4), (7, ''page_cache'', 8),
     (8, ''proc_syscall'', 1), (8, ''proc_fs'', 2), (8, ''proc_dns'', 4), (8, ''proc_io'', 8),
     (8, ''proc_pagecache'', 0x10), (8, ''proc_net'', 0x20), (8, ''proc_offcpu'', 0x40),
     (1, ''cpu'', 1), (1, ''mem'', 2), (1, ''nic'', 4), (1, ''net'', 8), (1, ''disk'', 0x10),
     (1, ''fs'', 0x20), (1, ''proc'', 0x40), (1, ''host'', 0x80),
     (18, ''oncpu'', 1), (18, ''syscall_file'', 2), (18, ''syscall_net'', 4), (18, ''syscall_lock'', 0x10),
     (18, ''syscall_sched'', 8),
     (19, ''hw_nic'', 1), (19, ''hw_mem'', 2), (21, ''sched_systime'', 1), (21, ''sched_syscall'', 2)]"

fun range_lookup :: "(int \<times> string \<times> u32) list \<Rightarrow> int \<Rightarrow> string \<Rightarrow> u32" where
  "range_lookup [] t rg = 0"
| "range_lookup ((pt, desc, flags) # rest) t rg =
     (if pt = t \<and> strcaseeq desc rg then flags else range_lookup rest t rg)"

definition get_probe_range :: "int \<Rightarrow> string \<Rightarrow> u32" where
  "get_probe_range t rg = range_lookup probe_range_define t rg"

text \<open>The messages of \<open>PARSE_ERR\<close>.\<close>

datatype req_err = Null_binpath | Invalid_binfile | Unknown_entry string | Range_not_string | Start_failed
  | Cancel_failed | No_process | State_not_string | Invalid_state string | Params_err parse_err
  | Snoopers_err snp_err | Send_failed | Bad_request | Invalid_json

type_synonym step_ret = "req_err option + unit"

section \<open>Status flags\<close>

definition set_probe_status_flags :: "probe_s \<Rightarrow> u32 \<Rightarrow> probe_s" where
  "set_probe_status_flags p flags = p\<lparr>p_status := p_status p OR flags\<rparr>"

definition unset_probe_status_flags :: "probe_s \<Rightarrow> u32 \<Rightarrow> probe_s" where
  "unset_probe_status_flags p flags = p\<lparr>p_status := p_status p AND NOT flags\<rparr>"

definition IS_STOPPED_PROBE :: "probe_s \<Rightarrow> bool" where
  "IS_STOPPED_PROBE p \<longleftrightarrow> p_status p AND PROBE_FLAGS_STOPPED \<noteq> 0"

definition IS_STOPPING_PROBE :: "probe_s \<Rightarrow> bool" where
  "IS_STOPPING_PROBE p \<longleftrightarrow> p_status p AND PROBE_FLAGS_STOPPING \<noteq> 0"

definition IS_RUNNING_PROBE :: "probe_s \<Rightarrow> bool" where
  "IS_RUNNING_PROBE p \<longleftrightarrow> p_status p AND PROBE_FLAGS_RUNNING \<noteq> 0"

section \<open>The program of a probe\<close>

definition is_extend_probe :: "pm_env \<Rightarrow> probe_s \<Rightarrow> bool" where
  "is_extend_probe env p = (case p_bin p of None \<Rightarrow> False
     | Some b \<Rightarrow> pe_access env b \<or> CHR ''/'' \<in> set b)"

definition set_probe_entry :: "pm_env \<Rightarrow> probe_s \<Rightarrow> (probe_s \<times> step_ret) outc" where
  "set_probe_entry env p =
     (if p_entry p \<noteq> None then Ok (p, Inr ())
      else case p_bin p of None \<Rightarrow> UB
        | Some b \<Rightarrow>
            (let entry = snprintf_s (MAX_PROBE_NAME_LEN - 1) (''probe_main_'' @ b) in
             if pe_dlsym env entry then Ok (p\<lparr>p_entry := Some entry\<rparr>, Inr ())
             else Ok (p, Inl (Some (Unknown_entry entry)))))"

text \<open>\<open>strrchr(bin, '/')\<close> and the text behind it.\<close>

definition after_last_slash :: "string \<Rightarrow> string option" where
  "after_last_slash s = (if CHR ''/'' \<in> set s then Some (rev (takeWhile (\<lambda>c. c \<noteq> CHR ''/'') (rev s))) else None)"

definition set_probe_bin :: "pm_env \<Rightarrow> probe_s \<Rightarrow> string option \<Rightarrow> (probe_s \<times> step_ret) outc" where
  "set_probe_bin env p bin =
     (case bin of None \<Rightarrow> Ok (p, Inl (Some Null_binpath))
      | Some b \<Rightarrow>
          (let p = p\<lparr>p_bin := None\<rparr>;
               finish = (\<lambda>p. if is_extend_probe env p then Ok (p\<lparr>p_is_extend_probe := True\<rparr>, Inr ())
                             else set_probe_entry env p)
           in if b \<noteq> [] \<and> hd b = CHR ''$'' then
                (case after_last_slash b of
                   Some name \<Rightarrow>
                     if name = [] then Ok (p, Inl (Some Invalid_binfile))
                     else (case pe_install_dir env (snprintf_s PATH_LEN name) of
                             Some d \<Rightarrow> finish (p\<lparr>p_bin := Some d\<rparr>) | None \<Rightarrow> finish p)
                 | None \<Rightarrow> Ok (p, Inl (Some Invalid_binfile)))
              else finish (p\<lparr>p_bin := Some b\<rparr>)))"

definition set_probe_chk_cmd :: "probe_s \<Rightarrow> string \<Rightarrow> probe_s" where
  "set_probe_chk_cmd p cmd = p\<lparr>p_chk_cmd := Some cmd\<rparr>"

definition set_probe_pid :: "probe_s \<Rightarrow> int \<Rightarrow> probe_s" where
  "set_probe_pid p pid = p\<lparr>p_pid := pid\<rparr>"

section \<open>Starting and stopping\<close>

definition check_probe_need_start :: "pm_env \<Rightarrow> string option \<Rightarrow> bool" where
  "check_probe_need_start env cmd =
     (case cmd of None \<Rightarrow> True | Some c \<Rightarrow> if c = [] then True
        else case pe_check_cmd env c of None \<Rightarrow> False | Some n \<Rightarrow> 0 < n)"

text \<open>The fifo of a probe is made with it and never \<open>NULL\<close> here.\<close>

definition is_probe_ready :: "pm_env \<Rightarrow> probe_s \<Rightarrow> bool" where
  "is_probe_ready env p \<longleftrightarrow> p_cb p \<noteq> None \<and>
     (if \<not> p_is_extend_probe p then p_entry p \<noteq> None
      else (case p_bin p of None \<Rightarrow> False | Some b \<Rightarrow> pe_access env b) \<and> check_probe_need_start env (p_chk_cmd p))"

text \<open>\<open>try_start_probe\<close>: the result, and whether a thread was created.\<close>

definition try_start_probe :: "pm_env \<Rightarrow> probe_s \<Rightarrow> int \<times> bool" where
  "try_start_probe env p =
     (if IS_RUNNING_PROBE p then (0, False)
      else if \<not> IS_STARTED_PROBE p then (0, False)
      else if \<not> is_probe_ready env p then (-1, False)
      else if \<not> pe_thread_ok env then (-1, False)
      else (0, True))"

definition start_probe :: "pm_env \<Rightarrow> probe_s \<Rightarrow> probe_s \<times> step_ret \<times> bool" where
  "start_probe env p =
     (if IS_RUNNING_PROBE p then (p, Inr (), False)
      else (let p = p\<lparr>p_is_restart := False\<rparr>;
                p = (if IS_STOPPED_PROBE p \<or> IS_STOPPING_PROBE p then p\<lparr>p_is_restart := True\<rparr> else p);
                p = set_probe_status_flags p PROBE_FLAGS_STARTED;
                p = unset_probe_status_flags p PROBE_FLAGS_STOPPING
            in case try_start_probe env p of (ret, made) \<Rightarrow>
                 (p, if ret \<noteq> 0 then Inl (Some Start_failed) else Inr (), made)))"

text \<open>
  The last actions of an extended probe's thread once its loop has ended: the flags, and the messages
  of its type removed from the queue (\<open>clear_ipc_msg\<close>).
\<close>

definition run_extend_begin :: "probe_s \<Rightarrow> probe_s" where
  "run_extend_begin p = unset_probe_status_flags (set_probe_status_flags p PROBE_FLAGS_RUNNING) PROBE_FLAGS_STOPPED"

definition run_extend_end :: "probe_s \<Rightarrow> probe_s" where
  "run_extend_end p = unset_probe_status_flags (set_probe_status_flags p PROBE_FLAGS_STOPPED) PROBE_FLAGS_RUNNING"

text \<open>
  \<open>stop_probe\<close>. For an extended probe the process is sent \<open>SIGINT\<close> and the thread is joined, so its
  last actions have happened when \<open>pthread_join\<close> returns. The Boolean says that the thread has ended.
\<close>

definition stop_probe :: "pm_env \<Rightarrow> probe_s \<Rightarrow> sysv_msg list \<Rightarrow> probe_s \<times> step_ret \<times> sysv_msg list \<times> bool" where
  "stop_probe env p q =
     (if \<not> IS_RUNNING_PROBE p then (p, Inr (), q, False)
      else (let p = set_probe_status_flags p PROBE_FLAGS_STOPPING;
                p = unset_probe_status_flags p PROBE_FLAGS_STARTED;
                q' = filter (\<lambda>m. fst m \<noteq> p_type p) q
            in if \<not> p_is_extend_probe p then
                 (if \<not> pe_cancel_ok env then (p, Inl (Some Cancel_failed), q, False)
                  else (let p = set_probe_status_flags p PROBE_FLAGS_STOPPED;
                            p = unset_probe_status_flags p PROBE_FLAGS_RUNNING
                        in (set_probe_pid p (-1), Inr (), q', True)))
               else if p_pid p < 0 then (p, Inl (Some No_process), q, False)
               else (set_probe_pid (run_extend_end p) (-1), Inr (), q', True)))"

section \<open>Names and types\<close>

fun type_lookup :: "(string \<times> string \<times> int) list \<Rightarrow> string \<Rightarrow> int" where
  "type_lookup [] name = PROBE_TYPE_MAX"
| "type_lookup ((desc, bin, t) # rest) name = (if strcaseeq desc name then t else type_lookup rest name)"

definition get_probe_type_by_name :: "string option \<Rightarrow> int" where
  "get_probe_type_by_name name = (case name of None \<Rightarrow> PROBE_TYPE_MAX | Some n \<Rightarrow> type_lookup probe_define n)"

text \<open>\<open>new_probe\<close>, for the allocations and the registration of the fifo that succeed.\<close>

definition new_probe :: "string \<Rightarrow> int \<Rightarrow> probe_s" where
  "new_probe name t = (new_probe_state t)\<lparr>p_name := name\<rparr>"

text \<open>The array of probes by type; \<open>ok\<close> says whether a new probe can be made.\<close>

definition get_probe_by_name :: "bool \<Rightarrow> string option \<Rightarrow> probe_s option list \<Rightarrow> probe_s option list \<times> probe_s option" where
  "get_probe_by_name ok name probes =
     (let t = get_probe_type_by_name name in
      if t \<ge> PROBE_TYPE_MAX then (probes, None)
      else case probes ! nat t of Some p \<Rightarrow> (probes, Some p)
        | None \<Rightarrow> if ok then (let p = new_probe (the name) t in (probes[nat t := Some p], Some p))
                  else (probes, None))"

section \<open>The items of a request\<close>

fun range_loop :: "'j cjson \<Rightarrow> 'j \<Rightarrow> nat list \<Rightarrow> probe_s \<Rightarrow> (probe_s \<times> step_ret) outc" where
  "range_loop api item [] p = Ok (p, Inr ())"
| "range_loop api item (i # is) p =
     (case cJSON_GetArrayItem api item i of None \<Rightarrow> UB
      | Some obj \<Rightarrow>
          if node_type api obj \<noteq> cJSON_String api then Ok (p, Inl (Some Range_not_string))
          else case node_valuestring api obj of None \<Rightarrow> UB
            | Some s \<Rightarrow> range_loop api item is (p\<lparr>p_range_flags := p_range_flags p OR get_probe_range (p_type p) s\<rparr>))"

definition probe_parser_range :: "'j cjson \<Rightarrow> 'j \<Rightarrow> probe_s \<Rightarrow> (probe_s \<times> step_ret) outc" where
  "probe_parser_range api item p =
     range_loop api item [0..<cJSON_GetArraySize api item] (p\<lparr>p_range_flags := 0\<rparr>)"

definition cmd_bin :: "'j cjson \<Rightarrow> 'j \<Rightarrow> probe_s \<Rightarrow> string outc" where
  "cmd_bin api item p =
     (let def = fst (snd (probe_define ! nat (p_type p - 1))) in
      case cJSON_GetObjectItem api item ''bin'' of None \<Rightarrow> Ok def
      | Some b \<Rightarrow> if node_type api b \<noteq> cJSON_String api then Ok def
          else case node_valuestring api b of None \<Rightarrow> UB | Some s \<Rightarrow> Ok (if s = [] then def else s))"

definition probe_parser_cmd :: "pm_env \<Rightarrow> 'j cjson \<Rightarrow> 'j \<Rightarrow> probe_s \<Rightarrow> (probe_s \<times> step_ret) outc" where
  "probe_parser_cmd env api item p =
     bnd (cmd_bin api item p) (\<lambda>bin_string.
     bnd (set_probe_bin env p (Some bin_string)) (\<lambda>(p, r).
       case r of Inl e \<Rightarrow> Ok (p, Inl e)
       | Inr _ \<Rightarrow>
           bnd (case cJSON_GetObjectItem api item ''check_cmd'' of None \<Rightarrow> Ok p
                | Some c \<Rightarrow> if node_type api c \<noteq> cJSON_String api then Ok p
                    else case node_valuestring api c of None \<Rightarrow> UB | Some s \<Rightarrow> Ok (set_probe_chk_cmd p s)) (\<lambda>p.
           (let p = p\<lparr>p_cb := Some (if p_is_extend_probe p then Extend_Thread else Native_Thread)\<rparr> in
            case cJSON_GetObjectItem api item ''probe'' of None \<Rightarrow> Ok (p, Inr ())
            | Some r \<Rightarrow> probe_parser_range api r p))))"

definition probe_backup_cmd :: "probe_s \<Rightarrow> probe_s \<Rightarrow> probe_s \<times> probe_s" where
  "probe_backup_cmd p b = (p, b\<lparr>p_bin := p_bin p, p_chk_cmd := p_chk_cmd p, p_is_extend_probe := p_is_extend_probe p,
     p_entry := p_entry p, p_cb := p_cb p, p_range_flags := p_range_flags p\<rparr>)"

definition probe_rollback_cmd :: "probe_s \<Rightarrow> probe_s \<Rightarrow> probe_s \<times> probe_s" where
  "probe_rollback_cmd p b = (p\<lparr>p_bin := p_bin b, p_chk_cmd := p_chk_cmd b, p_is_extend_probe := p_is_extend_probe b,
     p_entry := p_entry b, p_cb := p_cb b, p_range_flags := p_range_flags b\<rparr>, b\<lparr>p_bin := None, p_chk_cmd := None\<rparr>)"

definition probe_backup_params :: "probe_s \<Rightarrow> probe_s \<Rightarrow> probe_s \<times> probe_s" where
  "probe_backup_params p b = (p, b\<lparr>p_param := p_param p\<rparr>)"

definition probe_rollback_params :: "probe_s \<Rightarrow> probe_s \<Rightarrow> probe_s \<times> probe_s" where
  "probe_rollback_params p b = (p\<lparr>p_param := p_param b\<rparr>, b)"

definition probe_parser_state :: "pm_env \<Rightarrow> 'j cjson \<Rightarrow> 'j \<Rightarrow> probe_s \<Rightarrow> sysv_msg list
    \<Rightarrow> (probe_s \<times> step_ret \<times> sysv_msg list) outc" where
  "probe_parser_state env api item p q =
     (if node_type api item \<noteq> cJSON_String api then Ok (p, Inl (Some State_not_string), q)
      else case node_valuestring api item of None \<Rightarrow> UB
        | Some s \<Rightarrow>
            if strcaseeq ''running'' s then (case start_probe env p of (p, r, made) \<Rightarrow> Ok (p, r, q))
            else if strcaseeq ''stopped'' s then (case stop_probe env p q of (p, r, q, ended) \<Rightarrow> Ok (p, r, q))
            else Ok (p, Inl (Some (Invalid_state s)), q))"

text \<open>
  The state a request works on: the probe and its backup, the table of pods, the message queue. An
  entry of \<open>probe_parsers\<close> is a parser with its backup and rollback functions, \<open>None\<close> for \<open>NULL\<close>.
\<close>

record 'h req_state =
  rs_probe :: probe_s
  rs_backup :: probe_s
  rs_pods :: 'h
  rs_queue :: "sysv_msg list"

record ('h, 'j) probe_parser_s =
  pp_item :: string
  pp_parser :: "'j \<Rightarrow> 'h req_state \<Rightarrow> ('h req_state \<times> step_ret) outc"
  pp_backuper :: "(probe_s \<Rightarrow> probe_s \<Rightarrow> probe_s \<times> probe_s) option"
  pp_rollbacker :: "(probe_s \<Rightarrow> probe_s \<Rightarrow> probe_s \<times> probe_s) option"

definition run_cmd :: "pm_env \<Rightarrow> 'j cjson \<Rightarrow> 'j \<Rightarrow> 'h req_state \<Rightarrow> ('h req_state \<times> step_ret) outc" where
  "run_cmd env api item st = bnd (probe_parser_cmd env api item (rs_probe st)) (\<lambda>(p, r). Ok (st\<lparr>rs_probe := p\<rparr>, r))"

definition run_snoopers :: "('h, 'c) snp_ctx \<Rightarrow> 'j cjson \<Rightarrow> 'j \<Rightarrow> 'h req_state \<Rightarrow> ('h req_state \<times> step_ret) outc" where
  "run_snoopers cx api item st =
     bnd (parse_snooper cx api item (rs_pods st, rs_probe st)) (\<lambda>(h, p, r).
       Ok (st\<lparr>rs_probe := p, rs_pods := h\<rparr>, case r of Inl e \<Rightarrow> Inl (Some (Snoopers_err e)) | Inr u \<Rightarrow> Inr u))"

definition run_params :: "'j cjson \<Rightarrow> 'j \<Rightarrow> 'h req_state \<Rightarrow> ('h req_state \<times> step_ret) outc" where
  "run_params api item st =
     bnd (parse_params api item (p_param (rs_probe st))) (\<lambda>(r, prm).
       Ok (st\<lparr>rs_probe := (rs_probe st)\<lparr>p_param := prm\<rparr>\<rparr>,
           case r of Inl e \<Rightarrow> Inl (map_option Params_err e) | Inr u \<Rightarrow> Inr u))"

definition run_state :: "pm_env \<Rightarrow> 'j cjson \<Rightarrow> 'j \<Rightarrow> 'h req_state \<Rightarrow> ('h req_state \<times> step_ret) outc" where
  "run_state env api item st =
     bnd (probe_parser_state env api item (rs_probe st) (rs_queue st)) (\<lambda>(p, r, q).
       Ok (st\<lparr>rs_probe := p, rs_queue := q\<rparr>, r))"

definition probe_parsers :: "pm_env \<Rightarrow> ('h, 'c) snp_ctx \<Rightarrow> 'j cjson \<Rightarrow> ('h, 'j) probe_parser_s list" where
  "probe_parsers env cx api = [
     \<lparr>pp_item = ''cmd'', pp_parser = run_cmd env api, pp_backuper = Some probe_backup_cmd, pp_rollbacker = Some probe_rollback_cmd\<rparr>,
     \<lparr>pp_item = ''snoopers'', pp_parser = run_snoopers cx api, pp_backuper = Some backup_snooper, pp_rollbacker = Some rollback_snooper\<rparr>,
     \<lparr>pp_item = ''params'', pp_parser = run_params api, pp_backuper = Some probe_backup_params, pp_rollbacker = Some probe_rollback_params\<rparr>,
     \<lparr>pp_item = ''state'', pp_parser = run_state env api, pp_backuper = None, pp_rollbacker = None\<rparr>]"

text \<open>
  \<open>rollback_probe\<close>: the rollback functions of the items whose bit is set in \<open>parse_flag\<close>, in the order of
  the table. The loop of \<open>parse_probe_json\<close> sets bit \<open>i\<close> when it meets item \<open>i\<close>.
\<close>

fun rollback_probe :: "(probe_s \<Rightarrow> probe_s \<Rightarrow> probe_s \<times> probe_s) option list \<Rightarrow> probe_s \<times> probe_s \<Rightarrow> u32 \<Rightarrow> nat
    \<Rightarrow> probe_s \<times> probe_s" where
  "rollback_probe [] pb flag i = pb"
| "rollback_probe (f # fs) pb flag i =
     rollback_probe fs (if drop_bit i flag AND 1 \<noteq> 0
       then (case f of None \<Rightarrow> pb | Some g \<Rightarrow> g (fst pb) (snd pb)) else pb) flag (i + 1)"

definition do_backup :: "(probe_s \<Rightarrow> probe_s \<Rightarrow> probe_s \<times> probe_s) option \<Rightarrow> 'h req_state \<Rightarrow> 'h req_state" where
  "do_backup f st = (case f of None \<Rightarrow> st
     | Some g \<Rightarrow> (case g (rs_probe st) (rs_backup st) of (p, b) \<Rightarrow> st\<lparr>rs_probe := p, rs_backup := b\<rparr>))"

fun item_pass :: "'j cjson \<Rightarrow> 'j \<Rightarrow> ('h, 'j) probe_parser_s list \<Rightarrow> ('h, 'j) probe_parser_s list \<Rightarrow> nat \<Rightarrow> u32 \<Rightarrow> step_ret
    \<Rightarrow> 'h req_state \<Rightarrow> ('h req_state \<times> step_ret) outc" where
  "item_pass api json pps0 [] i flag ret st = Ok (st, ret)"
| "item_pass api json pps0 (pp # pps) i flag ret st =
     (case cJSON_GetObjectItem api json (pp_item pp) of
        None \<Rightarrow> item_pass api json pps0 pps (i + 1) flag ret st
      | Some item \<Rightarrow>
          (let flag = flag OR push_bit i 1 in
           bnd (pp_parser pp item (do_backup (pp_backuper pp) st)) (\<lambda>(st, r).
             case r of
               Inl e \<Rightarrow> (case rollback_probe (map pp_rollbacker pps0) (rs_probe st, rs_backup st) flag 0 of
                          (p, b) \<Rightarrow> Ok (st\<lparr>rs_probe := p, rs_backup := b\<rparr>, Inl e))
             | Inr u \<Rightarrow> item_pass api json pps0 pps (i + 1) flag (Inr u) st)))"

section \<open>What has changed\<close>

text \<open>\<open>__COMP_STR_P\<close> on two strings that may be \<open>NULL\<close>.\<close>

definition COMP_STR_P :: "string option \<Rightarrow> string option \<Rightarrow> bool" where
  "COMP_STR_P a b = (case (a, b) of (Some x, Some y) \<Rightarrow> x \<noteq> y | (None, None) \<Rightarrow> False | _ \<Rightarrow> True)"

definition snooper_app_is_modify :: "string \<times> string option \<times> string option \<Rightarrow> string \<times> string option \<times> string option \<Rightarrow> bool" where
  "snooper_app_is_modify conf backup =
     (case (conf, backup) of ((comm, cmdline, dir), (comm', cmdline', dir')) \<Rightarrow>
        if comm \<noteq> comm' then True
        else if COMP_STR_P cmdline cmdline' then True
        else if COMP_STR_P dir dir' then True else False)"

type_synonym gaussdb_conf_t = "string option \<times> string option \<times> string option \<times> string option \<times> u32"

definition snooper_gaussdb_is_modify :: "gaussdb_conf_t \<Rightarrow> gaussdb_conf_t \<Rightarrow> bool" where
  "snooper_gaussdb_is_modify conf backup =
     (case (conf, backup) of ((ip, db, user, pw, prt), (ip', db', user', pw', prt')) \<Rightarrow>
        if prt \<noteq> prt' then True
        else if COMP_STR_P ip ip' then True
        else if COMP_STR_P db db' then True
        else if COMP_STR_P user user' then True
        else if COMP_STR_P pw pw' then True else False)"

definition snooper_proc_is_modify :: "u32 \<Rightarrow> u32 \<Rightarrow> bool" where
  "snooper_proc_is_modify i j \<longleftrightarrow> i \<noteq> j"

definition snooper_pod_is_modify :: "string \<Rightarrow> string \<Rightarrow> bool" where
  "snooper_pod_is_modify x y \<longleftrightarrow> x \<noteq> y"

definition snooper_container_is_modify :: "string \<Rightarrow> string \<Rightarrow> bool" where
  "snooper_container_is_modify x y \<longleftrightarrow> x \<noteq> y"

text \<open>The table \<open>snooper_modifys\<close>, selected by the tag; configurations of different tags differ.\<close>

fun snooper_is_modify :: "snooper_conf_s \<Rightarrow> snooper_conf_s \<Rightarrow> bool" where
  "snooper_is_modify (CONF_APP a b c) (CONF_APP a' b' c') = snooper_app_is_modify (a, b, c) (a', b', c')"
| "snooper_is_modify (CONF_GAUSSDB a b c d e) (CONF_GAUSSDB a' b' c' d' e') =
     snooper_gaussdb_is_modify (a, b, c, d, e) (a', b', c', d', e')"
| "snooper_is_modify (CONF_PROC_ID i) (CONF_PROC_ID j) = snooper_proc_is_modify i j"
| "snooper_is_modify (CONF_POD_ID x) (CONF_POD_ID y) = snooper_pod_is_modify x y"
| "snooper_is_modify (CONF_CONTAINER_ID x) (CONF_CONTAINER_ID y) = snooper_container_is_modify x y"
| "snooper_is_modify _ _ = True"

fun confs_modify :: "snooper_conf_s option list \<Rightarrow> snooper_conf_s option list \<Rightarrow> bool" where
  "confs_modify (Some c # confs) (Some b # olds) = (snooper_is_modify c b \<or> confs_modify confs olds)"
| "confs_modify [] olds = False"
| "confs_modify confs olds = True"

definition set_probe_modify :: "(probe_params \<Rightarrow> byte list) \<Rightarrow> probe_s \<Rightarrow> probe_s \<Rightarrow> probe_s" where
  "set_probe_modify repr p b =
     (let p = p\<lparr>p_is_params_chg := False, p_is_snooper_chg := False\<rparr>;
          p = (if p_range_flags p \<noteq> p_range_flags b then p\<lparr>p_is_params_chg := True\<rparr> else p);
          p = (if repr (p_param p) \<noteq> repr (p_param b) then p\<lparr>p_is_params_chg := True\<rparr> else p);
          n = min (p_conf_num p) SNOOPER_MAX
      in if p_conf_num p \<noteq> p_conf_num b then p\<lparr>p_is_snooper_chg := True\<rparr>
         else if confs_modify (take n (p_confs p)) (take n (p_confs b)) then p\<lparr>p_is_snooper_chg := True\<rparr> else p)"

section \<open>The request\<close>

text \<open>The backup probe after \<open>memset\<close>: all fields zero.\<close>

definition zero_probe :: probe_s where
  "zero_probe = (new_probe_state 0)\<lparr>p_pid := 0, p_param := zero_params\<rparr>"

text \<open>The body of \<open>parse_probe_json\<close> once the probe is found and the text is parsed.\<close>

definition apply_request :: "pm_env \<Rightarrow> ipc_env \<Rightarrow> ('h, 'c) snp_ctx \<Rightarrow> 'j cjson \<Rightarrow> 'j \<Rightarrow> probe_s \<Rightarrow> 'h \<Rightarrow> sysv_msg list
    \<Rightarrow> (probe_s \<times> 'h \<times> sysv_msg list \<times> step_ret) outc" where
  "apply_request env ie cx api json p h q =
     bnd (item_pass api json (probe_parsers env cx api) (probe_parsers env cx api) 0 0 (Inl (Some Bad_request))
            \<lparr>rs_probe = p, rs_backup = zero_probe, rs_pods = h, rs_queue = q\<rparr>) (\<lambda>(st, r).
       case r of Inl e \<Rightarrow> Ok (rs_probe st, rs_pods st, rs_queue st, Inl e)
       | Inr u \<Rightarrow>
           (let p = set_probe_modify (ie_repr ie) (rs_probe st) (rs_backup st) in
            if (IS_STARTED_PROBE p \<or> IS_RUNNING_PROBE p) \<and> (p_is_params_chg p \<or> p_is_snooper_chg p \<or> p_is_restart p)
            then bnd (send_snooper_obj ie p (rs_queue st)) (\<lambda>(ret, q).
                   Ok (p, rs_pods st, q, if ret \<noteq> 0 then Inl (Some Send_failed) else Inr u))
            else Ok (p, rs_pods st, rs_queue st, Inr u)))"

text \<open>\<open>parse\<close> is \<open>cJSON_Parse\<close>; \<open>ok\<close> and \<open>backup_ok\<close> say whether the two probes can be allocated.\<close>

definition parse_probe_json :: "pm_env \<Rightarrow> ipc_env \<Rightarrow> ('h, 'c) snp_ctx \<Rightarrow> 'j cjson \<Rightarrow> (string \<Rightarrow> 'j option) \<Rightarrow> bool \<Rightarrow> bool
    \<Rightarrow> string \<Rightarrow> string \<Rightarrow> probe_s option list \<Rightarrow> 'h \<Rightarrow> sysv_msg list
    \<Rightarrow> (probe_s option list \<times> 'h \<times> sysv_msg list \<times> step_ret) outc" where
  "parse_probe_json env ie cx api parse ok backup_ok name content probes h q =
     (case get_probe_by_name ok (Some name) probes of
        (probes, None) \<Rightarrow> Ok (probes, h, q, Inl None)
      | (probes, Some p) \<Rightarrow>
          (case parse content of None \<Rightarrow> Ok (probes, h, q, Inl (Some Invalid_json))
           | Some json \<Rightarrow>
               if \<not> backup_ok then Ok (probes, h, q, Inl (Some Bad_request))
               else bnd (apply_request env ie cx api json p h q) (\<lambda>(p, h, q, r).
                 Ok (probes[nat (p_type p) := Some p], h, q, r))))"

section \<open>Keep-alive\<close>

text \<open>One pass: the probes for which a thread is created anew.\<close>

definition keeplive_probes :: "pm_env \<Rightarrow> probe_s option list \<Rightarrow> bool list" where
  "keeplive_probes env probes = map (\<lambda>x. case x of None \<Rightarrow> False
     | Some p \<Rightarrow> if p_pid p < 0 then False else if pe_valid_pid env (p_pid p) then False
                 else snd (try_start_probe env p)) (take (nat PROBE_TYPE_MAX) probes)"

definition PROBE_KEEPLIVE_TIMEOUT :: int where "PROBE_KEEPLIVE_TIMEOUT = 120"

definition is_keeplive_tmout :: "int \<Rightarrow> int \<Rightarrow> int \<times> bool" where
  "is_keeplive_tmout current keeplive_ts =
     (if current > keeplive_ts \<and> current - keeplive_ts \<ge> PROBE_KEEPLIVE_TIMEOUT then (current, True)
      else (keeplive_ts, False))"

section \<open>Specifications and threads\<close>

text \<open>
  What each item of a request may change: the fields outside its group stay. A probe with the fields
  of a group blanked stands for ``the rest of the probe''.
\<close>

definition but_cmd :: "probe_s \<Rightarrow> probe_s" where
  "but_cmd p = p\<lparr>p_bin := None, p_chk_cmd := None, p_is_extend_probe := False, p_entry := None, p_cb := None, p_range_flags := 0\<rparr>"

definition but_snoopers :: "probe_s \<Rightarrow> probe_s" where
  "but_snoopers p = p\<lparr>p_conf_num := 0, p_confs := [], p_objs := []\<rparr>"

definition but_params :: "probe_s \<Rightarrow> probe_s" where
  "but_params p = p\<lparr>p_param := zero_params\<rparr>"

definition but_state :: "probe_s \<Rightarrow> probe_s" where
  "but_state p = p\<lparr>p_status := 0, p_is_restart := False, p_pid := 0\<rparr>"

definition keeps_rest :: "(probe_s \<Rightarrow> (probe_s \<times> int) outc) \<Rightarrow> bool" where
  "keeps_rest f \<longleftrightarrow> (\<forall>p p' r. f p = Ok (p', r) \<longrightarrow> but_snoopers p' = but_snoopers p)"

text \<open>The probe a rollback with \<open>flag\<close> gives.\<close>

definition undone :: "u32 \<Rightarrow> probe_s \<Rightarrow> probe_s \<Rightarrow> probe_s" where
  "undone flag p b =
     (let p = (if bit flag 0 then fst (probe_rollback_cmd p b) else p);
          p = (if bit flag 1 then fst (rollback_snooper p b) else p)
      in if bit flag 2 then fst (probe_rollback_params p b) else p)"

definition undoable :: "u32 \<Rightarrow> probe_s \<Rightarrow> 'h req_state \<Rightarrow> bool" where
  "undoable flag p0 st \<longleftrightarrow> undone flag (rs_probe st) (rs_backup st) = p0"

text \<open>An entry of the table whose parser can be undone by its rollback.\<close>

definition entry_ok :: "nat \<Rightarrow> ('h, 'j) probe_parser_s \<Rightarrow> bool" where
  "entry_ok k pp \<longleftrightarrow> (\<forall>item st st1 r flag p0. \<not> bit flag k \<longrightarrow> undoable flag p0 st \<longrightarrow>
     pp_parser pp item (do_backup (pp_backuper pp) st) = Ok (st1, r) \<longrightarrow>
     undoable (flag OR push_bit k 1) p0 st1 \<and> rs_queue st1 = rs_queue st)"

text \<open>The invariant of the loop over the table before entry \<open>k\<close>.\<close>

definition pass_inv :: "nat \<Rightarrow> u32 \<Rightarrow> step_ret \<Rightarrow> probe_s \<Rightarrow> sysv_msg list \<Rightarrow> 'h req_state \<Rightarrow> bool" where
  "pass_inv k flag ret p0 q0 st \<longleftrightarrow> undoable flag p0 st \<and> (\<forall>j \<ge> k. \<not> bit flag j) \<and> rs_queue st = q0 \<and> (isl ret \<longrightarrow> flag = 0)"

definition demo_pm :: pm_env where
  "demo_pm = \<lparr>pe_access = (\<lambda>s. s = ''/opt/tcpprobe''), pe_install_dir = (\<lambda>s. Some (''/opt/'' @ s)), pe_dlsym = (\<lambda>_. False),
     pe_check_cmd = (\<lambda>_. None), pe_thread_ok = True, pe_cancel_ok = True, pe_valid_pid = (\<lambda>_. False)\<rparr>"

definition demo_bad_request :: json where
  "demo_bad_request = JObj [(''cmd'', JObj [(''bin'', JStr ''/opt/tcpprobe''), (''probe'', JArr [JStr ''tcp_rtt''])]),
     (''snoopers'', JObj [(''proc_id'', JArr [JNum 7, JStr ''x''])])]"

text \<open>The part of the backup the comparison reads.\<close>

definition compared :: "probe_s \<Rightarrow> u32 \<times> nat \<times> snooper_conf_s option list \<times> probe_params" where
  "compared b = (p_range_flags b, p_conf_num b, p_confs b, p_param b)"

definition has_item :: "'j cjson \<Rightarrow> 'j \<Rightarrow> string \<Rightarrow> bool" where
  "has_item api json key \<longleftrightarrow> cJSON_GetObjectItem api json key \<noteq> None"

text \<open>The state a request is compared with: the old one for the items it has, zero for the others.\<close>

definition baseline :: "'j cjson \<Rightarrow> 'j \<Rightarrow> probe_s \<Rightarrow> u32 \<times> nat \<times> snooper_conf_s option list \<times> probe_params" where
  "baseline api json p =
     (if has_item api json ''cmd'' then p_range_flags p else 0,
      if has_item api json ''snoopers'' then p_conf_num p else 0,
      if has_item api json ''snoopers'' then p_confs p else replicate SNOOPER_MAX None,
      if has_item api json ''params'' then p_param p else zero_params)"

definition demo_params_only :: json where
  "demo_params_only = JObj [(''params'', demo_request)]"

definition demo_probe :: probe_s where
  "demo_probe = (new_probe ''tcp'' 5)\<lparr>p_conf_num := 1, p_confs := Some (CONF_PROC_ID 7) # replicate 99 None\<rparr>"

text \<open>
  An extended probe with its threads: \<open>pc_made\<close> threads created and not yet past the start of
  \<open>RunExtendProbe\<close>, \<open>pc_live\<close> threads between its two changes of the flags, \<open>pc_tail\<close> threads behind the second one, in \<open>clear_ipc_msg\<close>
  and \<open>pclose\<close>. A stop that ends the thread waits for it (\<open>pthread_join\<close>). The requests and the keep-alive pass exclude each other by the lock of the manager, the threads run at any time.
\<close>

record probe_conc =
  pc_probe :: probe_s
  pc_made :: nat
  pc_live :: nat
  pc_tail :: nat

datatype pm_action = Req_Run | Req_Stop | Keeplive | Thread_Begin | Thread_Pid int | Thread_End | Thread_Exit

definition probe_act :: "pm_env \<Rightarrow> pm_action \<Rightarrow> probe_conc \<Rightarrow> probe_conc option" where
  "probe_act env a c =
     (let p = pc_probe c in
      case a of
        Req_Run \<Rightarrow> (case start_probe env p of (p, r, made) \<Rightarrow>
          Some (c\<lparr>pc_probe := p, pc_made := pc_made c + (if made then 1 else 0)\<rparr>))
      | Req_Stop \<Rightarrow> (case stop_probe env p [] of (p, r, q, ended) \<Rightarrow>
          Some (c\<lparr>pc_probe := p, pc_live := pc_live c - (if ended then 1 else 0)\<rparr>))
      | Keeplive \<Rightarrow> Some (c\<lparr>pc_made := pc_made c + (if keeplive_probes env [Some p] = [True] then 1 else 0)\<rparr>)
      | Thread_Begin \<Rightarrow> if pc_made c = 0 then None
          else Some (c\<lparr>pc_probe := run_extend_begin p, pc_made := pc_made c - 1, pc_live := pc_live c + 1\<rparr>)
      | Thread_Pid n \<Rightarrow> if pc_live c = 0 then None else Some (c\<lparr>pc_probe := set_probe_pid p n\<rparr>)
      | Thread_End \<Rightarrow> if pc_live c = 0 then None
          else Some (c\<lparr>pc_probe := run_extend_end p, pc_live := pc_live c - 1, pc_tail := pc_tail c + 1\<rparr>)
      | Thread_Exit \<Rightarrow> if pc_tail c = 0 then None else Some (c\<lparr>pc_tail := pc_tail c - 1\<rparr>))"

fun probe_acts :: "pm_env \<Rightarrow> pm_action list \<Rightarrow> probe_conc \<Rightarrow> probe_conc option" where
  "probe_acts env [] c = Some c"
| "probe_acts env (a # as) c = (case probe_act env a c of None \<Rightarrow> None | Some c' \<Rightarrow> probe_acts env as c')"

text \<open>A start, by a request or by the keep-alive pass, that finds no thread before its first flags or behind its last ones.\<close>

definition calm :: "pm_action \<Rightarrow> probe_conc \<Rightarrow> bool" where
  "calm a c \<longleftrightarrow> a \<in> {Req_Run, Keeplive} \<longrightarrow> pc_made c = 0 \<and> pc_tail c = 0"

inductive probe_reach :: "pm_env \<Rightarrow> bool \<Rightarrow> probe_conc \<Rightarrow> bool" for env :: pm_env and orderly :: bool where
  new: "p_is_extend_probe p \<Longrightarrow> p_status p = 0 \<Longrightarrow> probe_reach env orderly \<lparr>pc_probe = p, pc_made = 0, pc_live = 0, pc_tail = 0\<rparr>"
| act: "probe_reach env orderly c \<Longrightarrow> (orderly \<Longrightarrow> calm a c) \<Longrightarrow> probe_act env a c = Some c' \<Longrightarrow> probe_reach env orderly c'"

definition one_thread :: "probe_conc \<Rightarrow> bool" where
  "one_thread c \<longleftrightarrow> pc_made c + pc_live c + pc_tail c \<le> 1 \<and> (IS_RUNNING_PROBE (pc_probe c) \<longleftrightarrow> pc_live c = 1) \<and> p_is_extend_probe (pc_probe c)"

definition demo_ext :: probe_s where
  "demo_ext = (new_probe ''tcp'' 5)\<lparr>p_bin := Some ''/opt/tcpprobe'', p_is_extend_probe := True, p_cb := Some Extend_Thread\<rparr>"

definition demo_conc :: probe_conc where
  "demo_conc = \<lparr>pc_probe = demo_ext, pc_made = 0, pc_live = 0, pc_tail = 0\<rparr>"

definition probes_wf :: "probe_s option list \<Rightarrow> bool" where
  "probes_wf probes \<longleftrightarrow> length probes = nat PROBE_TYPE_MAX \<and> (\<forall>i < length probes. \<forall>p. probes ! i = Some p \<longrightarrow> p_type p = int i)"

section \<open>A request that fails is undone\<close>

lemmas but_defs = but_cmd_def but_snoopers_def but_params_def but_state_def

lemma bnd_OkD: "bnd m f = Ok y \<Longrightarrow> \<exists>x. m = Ok x \<and> f x = Ok y"
  by (cases m) simp_all

lemma bnd_pairE: "bnd m (\<lambda>(a, b). f a b) = Ok y \<Longrightarrow> (\<And>a b. m = Ok (a, b) \<Longrightarrow> f a b = Ok y \<Longrightarrow> R) \<Longrightarrow> R"
  by (cases m) auto

lemma but_cmd_cong:
  "but_cmd (p\<lparr>p_bin := a\<rparr>) = but_cmd p" "but_cmd (p\<lparr>p_chk_cmd := b\<rparr>) = but_cmd p"
  "but_cmd (p\<lparr>p_is_extend_probe := c\<rparr>) = but_cmd p" "but_cmd (p\<lparr>p_entry := d\<rparr>) = but_cmd p"
  "but_cmd (p\<lparr>p_cb := e\<rparr>) = but_cmd p" "but_cmd (p\<lparr>p_range_flags := f\<rparr>) = but_cmd p"
  by (simp_all add: but_cmd_def)

lemma set_probe_entry_frame: "set_probe_entry env p = Ok (p', r) \<Longrightarrow> but_cmd p' = but_cmd p"
  by (auto simp: set_probe_entry_def Let_def but_cmd_cong split: if_splits option.splits)

lemma set_probe_bin_frame: "set_probe_bin env p bin = Ok (p', r) \<Longrightarrow> but_cmd p' = but_cmd p"
  by (auto simp: set_probe_bin_def Let_def but_cmd_cong dest!: set_probe_entry_frame split: if_splits option.splits)

lemma range_loop_frame: "range_loop api item is p = Ok (p', r) \<Longrightarrow> but_cmd p' = but_cmd p"
  by (induction api item "is" p rule: range_loop.induct) (auto simp: but_cmd_cong split: if_splits option.splits)

lemma probe_parser_cmd_frame:
  assumes "probe_parser_cmd env api item p = Ok (p', r)"
  shows "but_cmd p' = but_cmd p"
proof -
  obtain bin p1 r1 where b: "set_probe_bin env p bin = Ok (p1, r1)"
    and k: "(case r1 of Inl e \<Rightarrow> Ok (p1, Inl e)
       | Inr _ \<Rightarrow>
           bnd (case cJSON_GetObjectItem api item ''check_cmd'' of None \<Rightarrow> Ok p1
                | Some c \<Rightarrow> if node_type api c \<noteq> cJSON_String api then Ok p1
                    else case node_valuestring api c of None \<Rightarrow> UB | Some s \<Rightarrow> Ok (set_probe_chk_cmd p1 s)) (\<lambda>p.
           (let p = p\<lparr>p_cb := Some (if p_is_extend_probe p then Extend_Thread else Native_Thread)\<rparr> in
            case cJSON_GetObjectItem api item ''probe'' of None \<Rightarrow> Ok (p, Inr ())
            | Some r \<Rightarrow> probe_parser_range api r p))) = Ok (p', r)"
    using assms unfolding probe_parser_cmd_def by (auto dest!: bnd_OkD)
  from k have "but_cmd p' = but_cmd p1"
    by (auto simp: Let_def set_probe_chk_cmd_def probe_parser_range_def but_cmd_cong
        dest!: bnd_OkD range_loop_frame split: sum.splits option.splits if_splits)
  with set_probe_bin_frame [OF b] show ?thesis by simp
qed

lemma but_snoopers_cong:
  "but_snoopers (p\<lparr>p_conf_num := a\<rparr>) = but_snoopers p" "but_snoopers (p\<lparr>p_confs := b\<rparr>) = but_snoopers p"
  "but_snoopers (p\<lparr>p_objs := c\<rparr>) = but_snoopers p"
  by (simp_all add: but_snoopers_def)

text \<open>A step over a pair whose first part is a probe keeps what \<open>but_snoopers\<close> keeps.\<close>

lemma put_conf_frame: "but_snoopers (put_conf c p) = but_snoopers p"
  by (simp add: put_conf_def but_snoopers_cong)

lemma put_obj_frame: "but_snoopers (fst (put_obj malloc_ok p x)) = but_snoopers p"
  by (simp add: put_obj_def but_snoopers_cong split: option.split)

lemma item_frames:
  "procid_item api malloc_ok obj p = Ok (p', r) \<Longrightarrow> but_snoopers p' = but_snoopers p"
  "procname_item api malloc_ok obj p = Ok (p', r) \<Longrightarrow> but_snoopers p' = but_snoopers p"
  "pod_item api malloc_ok obj p = Ok (p', r) \<Longrightarrow> but_snoopers p' = but_snoopers p"
  "container_item api malloc_ok obj p = Ok (p', r) \<Longrightarrow> but_snoopers p' = but_snoopers p"
  "gaussdb_item api malloc_ok obj p = Ok (p', r) \<Longrightarrow> but_snoopers p' = but_snoopers p"
  by (auto simp: procid_item_def procname_item_def pod_item_def container_item_def gaussdb_item_def
      add_snooper_conf_procid_def add_snooper_conf_procname_def add_snooper_conf_pod_def
      add_snooper_conf_container_def add_snooper_conf_gaussdb_def Let_def put_conf_frame
      split: if_splits option.splits)

lemma item_loop_frame:
  assumes "\<And>obj p p' r. step obj p = Ok (p', r) \<Longrightarrow> but_snoopers p' = but_snoopers p"
  shows "item_loop api arr step is p = Ok (p', r) \<Longrightarrow> but_snoopers p' = but_snoopers p"
proof (induction "is" arbitrary: p)
  case (Cons i js)
  then show ?case by (auto dest!: bnd_OkD assms split: option.splits if_splits)
qed simp

lemma parse_items_frame:
  assumes "\<And>obj p p' r. step obj p = Ok (p', r) \<Longrightarrow> but_snoopers p' = but_snoopers p"
    and "parse_items api json key step p = Ok (p', r)"
  shows "but_snoopers p' = but_snoopers p"
  using assms(2) by (auto simp: parse_items_def split: option.splits dest!: item_loop_frame [OF assms(1), rotated])

lemma parse_stages_frame:
  "\<forall>f \<in> snd ` set fs. keeps_rest f \<Longrightarrow> parse_stages fs p = Ok (p', r) \<Longrightarrow> but_snoopers p' = but_snoopers p"
proof (induction fs arbitrary: p)
  case (Cons x fs)
  obtain name f where x: "x = (name, f)" by (cases x)
  from Cons.prems(2) obtain p1 r1 where f: "f p = Ok (p1, r1)"
    and k: "(if r1 \<noteq> 0 then Ok (p1, Inl (Snooper_err name)) else parse_stages fs p1) = Ok (p', r)"
    by (auto simp: x dest!: bnd_OkD)
  have "but_snoopers p' = but_snoopers p1"
    using k Cons.IH [of p1] Cons.prems(1) by (auto split: if_splits)
  with f Cons.prems(1) show ?case by (simp add: x keeps_rest_def)
qed simp

lemma stage_frames:
  "keeps_rest (parse_snooper_procid api malloc_ok json)" "keeps_rest (parse_snooper_procname api malloc_ok json)"
  "keeps_rest (parse_snooper_pod_container api malloc_ok json key)" "keeps_rest (parse_snooper_gaussdb api malloc_ok json)"
  unfolding keeps_rest_def parse_snooper_procid_def parse_snooper_procname_def parse_snooper_pod_container_def
    parse_snooper_gaussdb_def Let_def
  by (auto elim!: parse_items_frame [rotated] dest: item_frames split: if_splits)

lemma gen_procs_by_name_frame:
  "gen_procs_by_name env junk malloc_ok comm cmdline ds p = Ok p' \<Longrightarrow> but_snoopers p' = but_snoopers p"
proof (induction ds arbitrary: p)
  case (Cons d ds)
  then show ?case
    by (auto simp: add_snooper_obj_procid_def put_obj_frame dest!: bnd_OkD split: option.splits if_splits)
qed simp

lemma gen_procs_of_container_frame: "but_snoopers (gen_procs_of_container env malloc_ok target p) = but_snoopers p"
proof -
  have "but_snoopers (foldl (\<lambda>p d. if proc_container env d = target
      then fst (add_snooper_obj_procid malloc_ok p (atoi_u32 d)) else p) p ds) = but_snoopers p" for ds
    by (induction ds arbitrary: p) (simp_all add: add_snooper_obj_procid_def put_obj_frame)
  then show ?thesis by (simp add: gen_procs_of_container_def split: option.split)
qed

lemma add_con_frame:
  "add_snooper_obj_con_info malloc_ok pops h p ci = Ok (p', r) \<Longrightarrow> but_snoopers p' = but_snoopers p"
  by (auto simp: add_snooper_obj_con_info_def put_obj_frame split: option.splits dest!: arg_cong [where f = fst])

lemma gen_pod_cons_frame: "gen_pod_cons cx h cons p = Ok p' \<Longrightarrow> but_snoopers p' = but_snoopers p"
proof (induction cons arbitrary: p)
  case (Cons x cons)
  then show ?case
    by (cases x) (auto simp: Let_def dest!: bnd_OkD add_con_frame simp: gen_procs_of_container_frame)
qed simp

lemma snooper_generator_frame:
  assumes "snooper_generator cx c (h, p) = Ok (h', p', r)"
  shows "but_snoopers p' = but_snoopers p"
proof (cases c)
  case (CONF_APP comm cmdline dbg)
  with assms show ?thesis
    by (auto simp: snooper_generator_def gen_snooper_by_procname_def dest!: bnd_OkD gen_procs_by_name_frame split: option.splits)
next
  case (CONF_GAUSSDB ip db user pw prt)
  with assms show ?thesis
    by (auto simp: snooper_generator_def gen_snooper_by_gaussdb_def add_snooper_obj_gaussdb_def split: prod.splits
        dest!: arg_cong [where f = fst] simp: put_obj_frame)
next
  case (CONF_PROC_ID i)
  with assms show ?thesis
    by (auto simp: snooper_generator_def gen_snooper_by_procid_def add_snooper_obj_procid_def split: prod.splits
        dest!: arg_cong [where f = fst] simp: put_obj_frame)
next
  case (CONF_POD_ID x)
  with assms show ?thesis
    by (auto simp: snooper_generator_def gen_snooper_by_pod_def dest!: bnd_OkD gen_pod_cons_frame
        split: prod.splits option.splits if_splits)
next
  case (CONF_CONTAINER_ID x)
  with assms show ?thesis
    by (auto simp: snooper_generator_def gen_snooper_by_container_def Let_def gen_procs_of_container_frame
        dest!: bnd_OkD add_con_frame split: prod.splits option.splits if_splits)
qed

lemma refresh_loop_frame: "refresh_loop cx confs (h, p) = Ok (h', p') \<Longrightarrow> but_snoopers p' = but_snoopers p"
proof (induction confs arbitrary: h p)
  case (Cons c confs)
  then show ?case
    by (cases c) (auto dest!: bnd_OkD snooper_generator_frame split: if_splits)
qed simp

lemma parse_snooper_frame:
  assumes "parse_snooper cx api json (h, p) = Ok (h', p', r)"
  shows "but_snoopers p' = but_snoopers p"
proof -
  let ?p = "p\<lparr>p_confs := replicate (p_conf_num p) None @ drop (p_conf_num p) (p_confs p), p_conf_num := 0\<rparr>"
  let ?fs = "[(''proc_id'', parse_snooper_procid api (cx_alloc cx) json),
     (''proc_name'', parse_snooper_procname api (cx_alloc cx) json),
     (''pod_id'', parse_snooper_pod_container api (cx_alloc cx) json ''pod_id''),
     (''container_id'', parse_snooper_pod_container api (cx_alloc cx) json ''container_id''),
     (''gaussdb'', parse_snooper_gaussdb api (cx_alloc cx) json)]"
  have fs: "\<forall>f \<in> snd ` set ?fs. keeps_rest f" by (simp add: stage_frames)
  obtain p1 r1 where st: "parse_stages ?fs ?p = Ok (p1, r1)"
    and k: "(case r1 of Inl e \<Rightarrow> Ok (h, p1, Inl e)
          | Inr u \<Rightarrow> bnd (refresh_snooper_obj cx (h, p1)) (\<lambda>(h, p). Ok (h, p, Inr u))) = Ok (h', p', r)"
    using assms unfolding parse_snooper_def Let_def prod.case by (rule bnd_pairE) (rule that)
  from k have "but_snoopers p' = but_snoopers p1"
    by (auto simp: refresh_snooper_obj_def but_snoopers_cong dest!: bnd_OkD refresh_loop_frame split: sum.splits)
  with parse_stages_frame [OF fs st] show ?thesis by (simp add: but_snoopers_cong)
qed

lemma but_state_cong:
  "but_state (p\<lparr>p_status := a\<rparr>) = but_state p" "but_state (p\<lparr>p_is_restart := b\<rparr>) = but_state p"
  "but_state (p\<lparr>p_pid := c\<rparr>) = but_state p"
  by (simp_all add: but_state_def)

lemmas probe_flag_defs = set_probe_status_flags_def unset_probe_status_flags_def set_probe_pid_def
  run_extend_begin_def run_extend_end_def

lemma start_probe_frame: "start_probe env p = (p', r, made) \<Longrightarrow> but_state p' = but_state p"
  by (auto simp: start_probe_def Let_def probe_flag_defs but_state_cong split: if_splits prod.splits)

lemma stop_probe_frame: "stop_probe env p q = (p', r, q', ended) \<Longrightarrow> but_state p' = but_state p"
  by (auto simp: stop_probe_def Let_def probe_flag_defs but_state_cong split: if_splits)

lemma run_cmd_frame:
  "run_cmd env api item st = Ok (st', r) \<Longrightarrow>
     but_cmd (rs_probe st') = but_cmd (rs_probe st) \<and> rs_backup st' = rs_backup st \<and> rs_queue st' = rs_queue st"
  by (auto simp: run_cmd_def elim!: bnd_pairE dest: probe_parser_cmd_frame)

lemma run_snoopers_frame:
  "run_snoopers cx api item st = Ok (st', r) \<Longrightarrow>
     but_snoopers (rs_probe st') = but_snoopers (rs_probe st) \<and> rs_backup st' = rs_backup st \<and> rs_queue st' = rs_queue st"
  by (auto simp: run_snoopers_def dest!: bnd_OkD parse_snooper_frame)

lemma run_params_frame:
  "run_params api item st = Ok (st', r) \<Longrightarrow>
     but_params (rs_probe st') = but_params (rs_probe st) \<and> rs_backup st' = rs_backup st \<and> rs_queue st' = rs_queue st"
  by (auto simp: run_params_def but_params_def elim!: bnd_pairE)

lemma run_state_frame:
  "run_state env api item st = Ok (st', r) \<Longrightarrow> but_state (rs_probe st') = but_state (rs_probe st) \<and> rs_backup st' = rs_backup st"
  by (auto simp: run_state_def probe_parser_state_def dest!: bnd_OkD dest: start_probe_frame stop_probe_frame
      split: if_splits option.splits prod.splits)

text \<open>A probe agrees with another outside a group when it is that one with the group's own fields.\<close>

lemma but_cmd_ex: "but_cmd p' = but_cmd p \<Longrightarrow> \<exists>a b c d e f. p' = p\<lparr>p_bin := a, p_chk_cmd := b,
    p_is_extend_probe := c, p_entry := d, p_cb := e, p_range_flags := f\<rparr>"
  by (cases p, cases p') (simp add: but_cmd_def)

lemma but_snoopers_ex: "but_snoopers p' = but_snoopers p \<Longrightarrow> \<exists>a b c. p' = p\<lparr>p_conf_num := a, p_confs := b, p_objs := c\<rparr>"
  by (cases p, cases p') (simp add: but_snoopers_def)

lemma but_params_ex: "but_params p' = but_params p \<Longrightarrow> \<exists>a. p' = p\<lparr>p_param := a\<rparr>"
  by (cases p, cases p') (simp add: but_params_def)

lemma but_state_ex: "but_state p' = but_state p \<Longrightarrow> \<exists>a b c. p' = p\<lparr>p_status := a, p_is_restart := b, p_pid := c\<rparr>"
  by (cases p, cases p') (simp add: but_state_def)

lemmas rollback_defs = probe_rollback_cmd_def rollback_snooper_def probe_rollback_params_def

lemma drop_bit_and_one: "drop_bit i (w :: u32) AND 1 \<noteq> 0 \<longleftrightarrow> bit w i"
  by (simp add: and_one_eq odd_iff_mod_2_eq_one bit_iff_odd_drop_bit)

lemma fst_rollback_probe:
  "fst (rollback_probe (map pp_rollbacker (probe_parsers env cx api)) (p, b) flag 0) = undone flag p b"
  by (simp add: probe_parsers_def drop_bit_and_one drop_bit_and_one [of 0, simplified] undone_def Let_def rollback_defs
      bit_drop_bit_eq numeral_2_eq_2)

lemma bit_flag_or: "k < 32 \<Longrightarrow> bit ((flag :: u32) OR push_bit k 1) j \<longleftrightarrow> bit flag j \<or> j = k"
  by (auto simp: bit_or_iff bit_exp_iff)

lemma cmd_entry_ok: "entry_ok 0 (probe_parsers env cx api ! 0)"
  unfolding entry_ok_def
proof (intro allI impI)
  fix item and st st1 :: "'a req_state" and r flag p0
  assume a: "\<not> bit flag 0" "undoable flag p0 st"
    "pp_parser (probe_parsers env cx api ! 0) item (do_backup (pp_backuper (probe_parsers env cx api ! 0)) st) = Ok (st1, r)"
  let ?b = "snd (probe_backup_cmd (rs_probe st) (rs_backup st))"
  have f: "but_cmd (rs_probe st1) = but_cmd (rs_probe st)" "rs_backup st1 = ?b" "rs_queue st1 = rs_queue st"
    using a(3) by (auto simp: probe_parsers_def do_backup_def probe_backup_cmd_def dest!: run_cmd_frame)
  have bits: "bit (flag OR push_bit 0 1) j \<longleftrightarrow> bit flag j \<or> j = 0" for j by (rule bit_flag_or) simp
  have "undone (flag OR push_bit 0 1) (rs_probe st1) ?b = undone flag (rs_probe st) (rs_backup st)"
    using a(1) but_cmd_ex [OF f(1)] unfolding undone_def bits by (auto simp: Let_def rollback_defs probe_backup_cmd_def)
  then show "undoable (flag OR push_bit 0 1) p0 st1 \<and> rs_queue st1 = rs_queue st"
    using a(2) f by (simp add: undoable_def)
qed

lemma snoopers_entry_ok: "entry_ok 1 (probe_parsers env cx api ! 1)"
  unfolding entry_ok_def
proof (intro allI impI)
  fix item and st st1 :: "'a req_state" and r flag p0
  assume a: "\<not> bit flag 1" "undoable flag p0 st"
    "pp_parser (probe_parsers env cx api ! 1) item (do_backup (pp_backuper (probe_parsers env cx api ! 1)) st) = Ok (st1, r)"
  let ?b = "snd (backup_snooper (rs_probe st) (rs_backup st))"
  have f: "but_snoopers (rs_probe st1) = but_snoopers (rs_probe st)" "rs_backup st1 = ?b" "rs_queue st1 = rs_queue st"
    using a(3) by (auto simp: probe_parsers_def do_backup_def backup_snooper_def but_snoopers_cong dest!: run_snoopers_frame)
  have bits: "bit (flag OR push_bit 1 1) j \<longleftrightarrow> bit flag j \<or> j = 1" for j by (rule bit_flag_or) simp
  have "undone (flag OR push_bit 1 1) (rs_probe st1) ?b = undone flag (rs_probe st) (rs_backup st)"
    using a(1) but_snoopers_ex [OF f(1)] unfolding undone_def bits by (auto simp: Let_def rollback_defs backup_snooper_def)
  then show "undoable (flag OR push_bit 1 1) p0 st1 \<and> rs_queue st1 = rs_queue st"
    using a(2) f by (simp add: undoable_def)
qed

lemma params_entry_ok: "entry_ok 2 (probe_parsers env cx api ! 2)"
  unfolding entry_ok_def
proof (intro allI impI)
  fix item and st st1 :: "'a req_state" and r flag p0
  assume a: "\<not> bit flag 2" "undoable flag p0 st"
    "pp_parser (probe_parsers env cx api ! 2) item (do_backup (pp_backuper (probe_parsers env cx api ! 2)) st) = Ok (st1, r)"
  let ?b = "snd (probe_backup_params (rs_probe st) (rs_backup st))"
  have f: "but_params (rs_probe st1) = but_params (rs_probe st)" "rs_backup st1 = ?b" "rs_queue st1 = rs_queue st"
    using a(3) by (auto simp: probe_parsers_def do_backup_def probe_backup_params_def dest!: run_params_frame)
  have bits: "bit (flag OR push_bit 2 1) j \<longleftrightarrow> bit flag j \<or> j = 2" for j by (rule bit_flag_or) simp
  have "undone (flag OR push_bit 2 1) (rs_probe st1) ?b = undone flag (rs_probe st) (rs_backup st)"
    using a(1) but_params_ex [OF f(1)] unfolding undone_def bits by (auto simp: Let_def rollback_defs probe_backup_params_def)
  then show "undoable (flag OR push_bit 2 1) p0 st1 \<and> rs_queue st1 = rs_queue st"
    using a(2) f by (simp add: undoable_def)
qed

lemma undone_zero: "undone 0 p b = p"
  by (simp add: undone_def)

text \<open>An entry whose item is in the request: either its parser fails and everything is undone, or the loop goes on.\<close>

lemma present_step:
  assumes "item_pass api json (probe_parsers env cx api) (pp # pps) k flag ret st = Ok (st', r')"
    and "cJSON_GetObjectItem api json (pp_item pp) = Some item"
  shows "\<exists>st1 r. pp_parser pp item (do_backup (pp_backuper pp) st) = Ok (st1, r) \<and>
     (case r of Inl e \<Rightarrow> rs_probe st' = undone (flag OR push_bit k 1) (rs_probe st1) (rs_backup st1) \<and> rs_queue st' = rs_queue st1 \<and> r' = Inl e
      | Inr u \<Rightarrow> item_pass api json (probe_parsers env cx api) pps (k + 1) (flag OR push_bit k 1) (Inr u) st1 = Ok (st', r'))"
proof -
  let ?flag = "flag OR push_bit k 1"
  obtain st1 r where pr: "pp_parser pp item (do_backup (pp_backuper pp) st) = Ok (st1, r)"
    and k: "(case r of
               Inl e \<Rightarrow> (case rollback_probe (map pp_rollbacker (probe_parsers env cx api)) (rs_probe st1, rs_backup st1) ?flag 0 of
                          (p, b) \<Rightarrow> Ok (st1\<lparr>rs_probe := p, rs_backup := b\<rparr>, Inl e))
             | Inr u \<Rightarrow> item_pass api json (probe_parsers env cx api) pps (k + 1) ?flag (Inr u) st1) = Ok (st', r')"
    using assms(1) unfolding item_pass.simps assms(2) option.case Let_def by (rule bnd_pairE) (rule that)
  obtain p b where rb: "rollback_probe (map pp_rollbacker (probe_parsers env cx api)) (rs_probe st1, rs_backup st1) ?flag 0 = (p, b)"
    by fastforce
  then have "p = undone ?flag (rs_probe st1) (rs_backup st1)" by (metis fst_conv fst_rollback_probe)
  then show ?thesis using pr k rb by (cases r) auto
qed

lemma pass_step:
  assumes "item_pass api json (probe_parsers env cx api) (pp # pps) k flag ret st = Ok (st', Inl e)"
    and "pass_inv k flag ret p0 q0 st" "entry_ok k pp" "k < 32"
  shows "rs_probe st' = p0 \<and> rs_queue st' = q0 \<or>
     (\<exists>flag' ret' st1. pass_inv (k + 1) flag' ret' p0 q0 st1 \<and>
        item_pass api json (probe_parsers env cx api) pps (k + 1) flag' ret' st1 = Ok (st', Inl e))"
proof (cases "cJSON_GetObjectItem api json (pp_item pp)")
  case None
  then have "pass_inv (k + 1) flag ret p0 q0 st \<and>
      item_pass api json (probe_parsers env cx api) pps (k + 1) flag ret st = Ok (st', Inl e)"
    using assms(1,2) by (simp add: pass_inv_def)
  then show ?thesis by blast
next
  case (Some item)
  let ?flag = "flag OR push_bit k 1"
  obtain st1 r where pr: "pp_parser pp item (do_backup (pp_backuper pp) st) = Ok (st1, r)"
    and k: "case r of Inl e' \<Rightarrow> rs_probe st' = undone ?flag (rs_probe st1) (rs_backup st1) \<and> rs_queue st' = rs_queue st1 \<and> Inl e = (Inl e' :: step_ret)
      | Inr u \<Rightarrow> item_pass api json (probe_parsers env cx api) pps (k + 1) ?flag (Inr u) st1 = Ok (st', Inl e)"
    using present_step [OF assms(1) Some] by blast
  have u: "undoable ?flag p0 st1" "rs_queue st1 = q0"
    using assms(2,3) pr unfolding entry_ok_def pass_inv_def by blast+
  have "pass_inv (k + 1) ?flag (Inr v) p0 q0 st1" for v
    using u assms(2) unfolding pass_inv_def bit_flag_or [OF assms(4)] by auto
  then show ?thesis using k u by (cases r) (auto simp: undoable_def)
qed

lemma state_step:
  assumes "item_pass api json (probe_parsers env cx api) [probe_parsers env cx api ! 3] 3 flag ret st = Ok (st', Inl e)"
    and "pass_inv 3 flag ret p0 q0 st"
  shows "but_state (rs_probe st') = but_state p0 \<and>
     (cJSON_GetObjectItem api json ''state'' = None \<longrightarrow> rs_probe st' = p0 \<and> rs_queue st' = q0)"
proof (cases "cJSON_GetObjectItem api json ''state''")
  case None
  then have "st' = st" "isl ret" using assms(1) by (auto simp: probe_parsers_def)
  then show ?thesis using assms(2) by (auto simp: pass_inv_def undoable_def undone_zero)
next
  case (Some item)
  let ?flag = "flag OR push_bit 3 1"
  have pp: "pp_item (probe_parsers env cx api ! 3) = ''state''" "pp_backuper (probe_parsers env cx api ! 3) = None"
    "pp_parser (probe_parsers env cx api ! 3) = run_state env api"
    by (simp_all add: probe_parsers_def)
  obtain st1 r where pr: "run_state env api item st = Ok (st1, r)"
    and c: "case r of Inl e' \<Rightarrow> rs_probe st' = undone ?flag (rs_probe st1) (rs_backup st1) \<and> rs_queue st' = rs_queue st1 \<and> Inl e = (Inl e' :: step_ret)
      | Inr u \<Rightarrow> item_pass api json (probe_parsers env cx api) [] (3 + 1) ?flag (Inr u) st1 = Ok (st', Inl e)"
    using present_step [OF assms(1), unfolded pp, OF Some] unfolding do_backup_def option.case by blast
  then have k: "rs_probe st' = undone ?flag (rs_probe st1) (rs_backup st1)" by (cases r) simp_all
  have f: "but_state (rs_probe st1) = but_state (rs_probe st)" "rs_backup st1 = rs_backup st"
    using run_state_frame [OF pr] by auto
  have bits: "bit ?flag j \<longleftrightarrow> bit flag j \<or> j = 3" for j by (rule bit_flag_or) simp
  have "but_state (undone ?flag (rs_probe st1) (rs_backup st)) = but_state (undone flag (rs_probe st) (rs_backup st))"
    using but_state_ex [OF f(1)] unfolding undone_def bits by (auto simp: Let_def rollback_defs but_state_def)
  then show ?thesis using Some k f assms(2) by (simp add: pass_inv_def undoable_def)
qed

lemma item_pass_undone:
  assumes "item_pass api json (probe_parsers env cx api) (probe_parsers env cx api) 0 0 ret st = Ok (st', Inl e)"
  shows "but_state (rs_probe st') = but_state (rs_probe st) \<and>
     (cJSON_GetObjectItem api json ''state'' = None \<longrightarrow> rs_probe st' = rs_probe st \<and> rs_queue st' = rs_queue st)"
    (is "?Q st'")
proof -
  let ?P = "probe_parsers env cx api"
  have P: "?P = [?P ! 0, ?P ! 1, ?P ! 2, ?P ! 3]" by (simp add: probe_parsers_def numeral_2_eq_2 numeral_3_eq_3)
  let ?I = "\<lambda>k flag r s. pass_inv k flag r (rs_probe st) (rs_queue st) s"
  let ?run = "\<lambda>pps k flag r s. item_pass api json ?P pps k flag r s = Ok (st', Inl e)"
  have i: "?I 0 0 ret st" by (simp add: pass_inv_def undoable_def undone_zero)
  let ?D = "rs_probe st' = rs_probe st \<and> rs_queue st' = rs_queue st"
  from assms have r0: "?run (?P ! 0 # [?P ! 1, ?P ! 2, ?P ! 3]) 0 0 ret st" by (subst (asm) (2) P)
  have "?D \<or> (\<exists>f r s. ?I 1 f r s \<and> ?run [?P ! 1, ?P ! 2, ?P ! 3] 1 f r s)"
    using pass_step [OF r0 i cmd_entry_ok] by simp
  moreover have "?D \<or> (\<exists>f r s. ?I 2 f r s \<and> ?run [?P ! 2, ?P ! 3] 2 f r s)"
    if "?I 1 f r s" "?run [?P ! 1, ?P ! 2, ?P ! 3] 1 f r s" for f r s
    using pass_step [OF that(2,1) snoopers_entry_ok] by (simp add: numeral_2_eq_2)
  moreover have "?D \<or> (\<exists>f r s. ?I 3 f r s \<and> ?run [?P ! 3] 3 f r s)"
    if "?I 2 f r s" "?run [?P ! 2, ?P ! 3] 2 f r s" for f r s
    using pass_step [OF that(2,1) params_entry_ok] by simp
  moreover have "?Q st'" if "?I 3 f r s" "?run [?P ! 3] 3 f r s" for f r s
    using state_step [OF that(2,1)] .
  moreover have "?Q st'" if ?D using that by simp
  ultimately show ?thesis by blast
qed

text \<open>C4. A request that fails before its message is sent leaves no trace in the configuration of the
  probe: program, check command, thread function, ranges, snoopers, their objects and the parameters
  are what they were, whatever items came before the one that failed. A request without a
  \<open>state\<close> leaves the whole probe and the message queue as they were.\<close>

theorem request_rolled_back:
  assumes "apply_request env ie cx api json p h q = Ok (p', h', q', Inl e)" "e \<noteq> Some Send_failed"
  shows "but_state p' = but_state p \<and> (cJSON_GetObjectItem api json ''state'' = None \<longrightarrow> p' = p \<and> q' = q)"
proof -
  let ?st = "\<lparr>rs_probe = p, rs_backup = zero_probe, rs_pods = h, rs_queue = q\<rparr>"
  from assms(1) obtain st r where ip: "item_pass api json (probe_parsers env cx api) (probe_parsers env cx api) 0 0
      (Inl (Some Bad_request)) ?st = Ok (st, r)"
    by (auto simp: apply_request_def elim: bnd_pairE)
  with assms have "r = Inl e" "p' = rs_probe st" "q' = rs_queue st"
    by (auto simp: apply_request_def Let_def split: sum.split_asm if_split_asm elim!: bnd_pairE)
  with item_pass_undone [of api json env cx _ ?st st e] ip show ?thesis by simp
qed

text \<open>The probe and the answer of a request.\<close>

lemma demo_bad_run: "\<exists>p' h' q'. apply_request demo_pm demo_ie demo_cx json_api demo_bad_request (new_probe ''tcp'' 5) [] [] =
     Ok (p', h', q', Inl (Some (Snoopers_err (Snooper_err ''proc_id''))))"
  by (simp add: apply_request_def probe_parsers_def demo_bad_request_def json_api_def do_backup_def run_cmd_def probe_parser_cmd_def
      cmd_bin_def set_probe_bin_def Let_def is_extend_probe_def probe_parser_range_def upt_rec run_snoopers_def parse_snooper_def
      parse_snooper_procid_def parse_items_def procid_item_def add_snooper_conf_procid_def new_probe_def new_probe_state_def
      probe_backup_cmd_def backup_snooper_def SNOOPER_MAX_def demo_cx_def put_conf_def split: prod.split)

theorem request_rolled_back_witness:
  "\<exists>h'. apply_request demo_pm demo_ie demo_cx json_api demo_bad_request (new_probe ''tcp'' 5) [] [] =
     Ok (new_probe ''tcp'' 5, h', [], Inl (Some (Snoopers_err (Snooper_err ''proc_id''))))"
proof -
  obtain p' h' q' where r: "apply_request demo_pm demo_ie demo_cx json_api demo_bad_request (new_probe ''tcp'' 5) [] [] =
     Ok (p', h', q', Inl (Some (Snoopers_err (Snooper_err ''proc_id''))))" using demo_bad_run by blast
  have "cJSON_GetObjectItem json_api demo_bad_request ''state'' = None" by (simp add: json_api_def demo_bad_request_def)
  with request_rolled_back [OF r] r show ?thesis by simp
qed

section \<open>The change flags\<close>

lemma COMP_STR_P_iff: "COMP_STR_P a b \<longleftrightarrow> a \<noteq> b"
  by (simp add: COMP_STR_P_def split: option.split)

text \<open>The five comparisons together are inequality of configurations.\<close>

lemma snooper_is_modify_iff: "snooper_is_modify c b \<longleftrightarrow> c \<noteq> b"
  by (cases c; cases b) (auto simp: snooper_app_is_modify_def snooper_gaussdb_is_modify_def snooper_proc_is_modify_def
      snooper_pod_is_modify_def snooper_container_is_modify_def COMP_STR_P_iff)

lemma confs_modify_iff:
  "length xs = length ys \<Longrightarrow> confs_modify xs ys \<longleftrightarrow> None \<in> set xs \<or> xs \<noteq> ys"
proof (induction xs ys rule: list_induct2)
  case (Cons x xs y ys)
  then show ?case by (cases x; cases y) (auto simp: snooper_is_modify_iff)
qed simp

lemma set_probe_modify_flags:
  "p_is_params_chg (set_probe_modify repr p b) \<longleftrightarrow>
     p_range_flags p \<noteq> p_range_flags b \<or> repr (p_param p) \<noteq> repr (p_param b)"
  "p_is_snooper_chg (set_probe_modify repr p b) \<longleftrightarrow> p_conf_num p \<noteq> p_conf_num b \<or>
     confs_modify (take (min (p_conf_num p) SNOOPER_MAX) (p_confs p)) (take (min (p_conf_num p) SNOOPER_MAX) (p_confs b))"
  by (simp_all add: set_probe_modify_def Let_def)

lemma set_probe_modify_keeps:
  "p_range_flags (set_probe_modify repr p b) = p_range_flags p" "p_param (set_probe_modify repr p b) = p_param p"
  "p_conf_num (set_probe_modify repr p b) = p_conf_num p" "p_confs (set_probe_modify repr p b) = p_confs p"
  "p_objs (set_probe_modify repr p b) = p_objs p" "p_status (set_probe_modify repr p b) = p_status p"
  "p_type (set_probe_modify repr p b) = p_type p" "p_is_restart (set_probe_modify repr p b) = p_is_restart p"
  by (simp_all add: set_probe_modify_def Let_def)

text \<open>One entry of the table on the way of a request that succeeds.\<close>

lemma success_step:
  assumes "item_pass api json (probe_parsers env cx api) (pp # pps) k flag ret st = Ok (st', Inr u)"
  shows "\<exists>flag' ret' st1. item_pass api json (probe_parsers env cx api) pps (k + 1) flag' ret' st1 = Ok (st', Inr u) \<and>
     (case cJSON_GetObjectItem api json (pp_item pp) of None \<Rightarrow> st1 = st
      | Some item \<Rightarrow> \<exists>v. pp_parser pp item (do_backup (pp_backuper pp) st) = Ok (st1, Inr v))"
proof (cases "cJSON_GetObjectItem api json (pp_item pp)")
  case None
  then show ?thesis using assms by auto
next
  case (Some item)
  obtain st1 r where "pp_parser pp item (do_backup (pp_backuper pp) st) = Ok (st1, r)"
    and "case r of Inl e \<Rightarrow> rs_probe st' = undone (flag OR push_bit k 1) (rs_probe st1) (rs_backup st1) \<and> rs_queue st' = rs_queue st1 \<and> Inr u = (Inl e :: step_ret)
      | Inr u' \<Rightarrow> item_pass api json (probe_parsers env cx api) pps (k + 1) (flag OR push_bit k 1) (Inr u') st1 = Ok (st', Inr u)"
    using present_step [OF assms Some] by blast
  then show ?thesis using Some by (cases r) auto
qed

lemma but_cmd_fields: "but_cmd p' = but_cmd p \<Longrightarrow> p_conf_num p' = p_conf_num p \<and> p_confs p' = p_confs p \<and> p_param p' = p_param p"
  by (auto dest: but_cmd_ex)

lemma but_snoopers_fields: "but_snoopers p' = but_snoopers p \<Longrightarrow> p_range_flags p' = p_range_flags p \<and> p_param p' = p_param p"
  by (auto dest: but_snoopers_ex)

lemma parser_entries:
  "pp_item (probe_parsers env cx api ! 0) = ''cmd''" "pp_parser (probe_parsers env cx api ! 0) = run_cmd env api"
  "pp_backuper (probe_parsers env cx api ! 0) = Some probe_backup_cmd"
  "pp_item (probe_parsers env cx api ! 1) = ''snoopers''" "pp_parser (probe_parsers env cx api ! 1) = run_snoopers cx api"
  "pp_backuper (probe_parsers env cx api ! 1) = Some backup_snooper"
  "pp_item (probe_parsers env cx api ! 2) = ''params''" "pp_parser (probe_parsers env cx api ! 2) = run_params api"
  "pp_backuper (probe_parsers env cx api ! 2) = Some probe_backup_params"
  "pp_item (probe_parsers env cx api ! 3) = ''state''" "pp_parser (probe_parsers env cx api ! 3) = run_state env api"
  "pp_backuper (probe_parsers env cx api ! 3) = None"
  by (simp_all add: probe_parsers_def)

text \<open>The stages of a request that succeeds.\<close>

lemma request_stages:
  assumes "item_pass api json (probe_parsers env cx api) (probe_parsers env cx api) 0 0 ret st = Ok (st', Inr u)"
  shows "\<exists>s1 s2 s3.
    (case cJSON_GetObjectItem api json ''cmd'' of None \<Rightarrow> s1 = st
      | Some item \<Rightarrow> \<exists>v. run_cmd env api item (do_backup (Some probe_backup_cmd) st) = Ok (s1, Inr v)) \<and>
    (case cJSON_GetObjectItem api json ''snoopers'' of None \<Rightarrow> s2 = s1
      | Some item \<Rightarrow> \<exists>v. run_snoopers cx api item (do_backup (Some backup_snooper) s1) = Ok (s2, Inr v)) \<and>
    (case cJSON_GetObjectItem api json ''params'' of None \<Rightarrow> s3 = s2
      | Some item \<Rightarrow> \<exists>v. run_params api item (do_backup (Some probe_backup_params) s2) = Ok (s3, Inr v)) \<and>
    (case cJSON_GetObjectItem api json ''state'' of None \<Rightarrow> st' = s3
      | Some item \<Rightarrow> \<exists>v. run_state env api item s3 = Ok (st', Inr v))"
proof -
  let ?P = "probe_parsers env cx api"
  have P: "?P = [?P ! 0, ?P ! 1, ?P ! 2, ?P ! 3]" by (simp add: probe_parsers_def numeral_2_eq_2 numeral_3_eq_3)
  let ?run = "\<lambda>pps k flag r s. item_pass api json ?P pps k flag r s = Ok (st', Inr u)"
  from assms have "?run (?P ! 0 # [?P ! 1, ?P ! 2, ?P ! 3]) 0 0 ret st" by (subst (asm) (2) P)
  from success_step [OF this] obtain f1 r1 s1 where "?run [?P ! 1, ?P ! 2, ?P ! 3] (0 + 1) f1 r1 s1"
    and c1: "case cJSON_GetObjectItem api json ''cmd'' of None \<Rightarrow> s1 = st
      | Some item \<Rightarrow> \<exists>v. run_cmd env api item (do_backup (Some probe_backup_cmd) st) = Ok (s1, Inr v)"
    unfolding parser_entries by blast
  from success_step [OF this(1)] obtain f2 r2 s2 where "?run [?P ! 2, ?P ! 3] (0 + 1 + 1) f2 r2 s2"
    and c2: "case cJSON_GetObjectItem api json ''snoopers'' of None \<Rightarrow> s2 = s1
      | Some item \<Rightarrow> \<exists>v. run_snoopers cx api item (do_backup (Some backup_snooper) s1) = Ok (s2, Inr v)"
    unfolding parser_entries by blast
  from success_step [OF this(1)] obtain f3 r3 s3 where "?run [?P ! 3] (0 + 1 + 1 + 1) f3 r3 s3"
    and c3: "case cJSON_GetObjectItem api json ''params'' of None \<Rightarrow> s3 = s2
      | Some item \<Rightarrow> \<exists>v. run_params api item (do_backup (Some probe_backup_params) s2) = Ok (s3, Inr v)"
    unfolding parser_entries by blast
  from success_step [OF this(1)] obtain f4 r4 s4 where "?run [] (0 + 1 + 1 + 1 + 1) f4 r4 s4"
    and c4: "case cJSON_GetObjectItem api json ''state'' of None \<Rightarrow> s4 = s3
      | Some item \<Rightarrow> \<exists>v. run_state env api item (do_backup None s3) = Ok (s4, Inr v)"
    unfolding parser_entries by blast
  moreover from this(1) have "s4 = st'" by simp
  ultimately have "case cJSON_GetObjectItem api json ''state'' of None \<Rightarrow> st' = s3
      | Some item \<Rightarrow> \<exists>v. run_state env api item s3 = Ok (st', Inr v)" by (simp add: do_backup_def split: option.splits)
  then show ?thesis using c1 c2 c3 by blast
qed

lemma item_pass_baseline:
  assumes "item_pass api json (probe_parsers env cx api) (probe_parsers env cx api) 0 0 ret st = Ok (st', Inr u)"
    and "rs_backup st = zero_probe"
  shows "compared (rs_backup st') = baseline api json (rs_probe st)"
proof -
  obtain s1 s2 s3 where c1: "case cJSON_GetObjectItem api json ''cmd'' of None \<Rightarrow> s1 = st
      | Some item \<Rightarrow> \<exists>v. run_cmd env api item (do_backup (Some probe_backup_cmd) st) = Ok (s1, Inr v)"
    and c2: "case cJSON_GetObjectItem api json ''snoopers'' of None \<Rightarrow> s2 = s1
      | Some item \<Rightarrow> \<exists>v. run_snoopers cx api item (do_backup (Some backup_snooper) s1) = Ok (s2, Inr v)"
    and c3: "case cJSON_GetObjectItem api json ''params'' of None \<Rightarrow> s3 = s2
      | Some item \<Rightarrow> \<exists>v. run_params api item (do_backup (Some probe_backup_params) s2) = Ok (s3, Inr v)"
    and c4: "case cJSON_GetObjectItem api json ''state'' of None \<Rightarrow> st' = s3
      | Some item \<Rightarrow> \<exists>v. run_state env api item s3 = Ok (st', Inr v)"
    using request_stages [OF assms(1)] by blast
  have b1: "compared (rs_backup s1) = (if has_item api json ''cmd'' then p_range_flags (rs_probe st) else 0, 0, replicate SNOOPER_MAX None, zero_params)"
    and p1: "but_cmd (rs_probe s1) = but_cmd (rs_probe st)"
    using c1 assms(2) by (auto simp: compared_def has_item_def do_backup_def probe_backup_cmd_def zero_probe_def new_probe_state_def
        dest!: run_cmd_frame split: option.splits)
  have b2: "compared (rs_backup s2) = (if has_item api json ''cmd'' then p_range_flags (rs_probe st) else 0,
      if has_item api json ''snoopers'' then p_conf_num (rs_probe st) else 0,
      if has_item api json ''snoopers'' then p_confs (rs_probe st) else replicate SNOOPER_MAX None, zero_params)"
    and p2: "but_snoopers (rs_probe s2) = but_snoopers (rs_probe s1)"
    using c2 b1 but_cmd_fields [OF p1] by (auto simp: compared_def has_item_def do_backup_def backup_snooper_def but_snoopers_cong
        dest!: run_snoopers_frame split: option.splits)
  have b3: "compared (rs_backup s3) = baseline api json (rs_probe st)"
    using c3 b2 but_cmd_fields [OF p1] but_snoopers_fields [OF p2]
    by (auto simp: compared_def baseline_def has_item_def do_backup_def probe_backup_params_def
        dest!: run_params_frame split: option.splits)
  have "rs_backup st' = rs_backup s3" using c4 by (auto dest!: run_state_frame split: option.splits)
  then show ?thesis using b3 by simp
qed

text \<open>A request that is accepted: all items, the change flags, and the message if there is one.\<close>

lemma apply_request_accepted:
  assumes "apply_request env ie cx api json p h q = Ok (p', h', q', Inr u)"
  obtains st where "item_pass api json (probe_parsers env cx api) (probe_parsers env cx api) 0 0 (Inl (Some Bad_request))
      \<lparr>rs_probe = p, rs_backup = zero_probe, rs_pods = h, rs_queue = q\<rparr> = Ok (st, Inr ())"
    and "p' = set_probe_modify (ie_repr ie) (rs_probe st) (rs_backup st)" "h' = rs_pods st"
    and "if (IS_STARTED_PROBE p' \<or> IS_RUNNING_PROBE p') \<and> (p_is_params_chg p' \<or> p_is_snooper_chg p' \<or> p_is_restart p')
         then send_snooper_obj ie p' (rs_queue st) = Ok (0, q') else q' = rs_queue st"
proof -
  from assms obtain st r where ip: "item_pass api json (probe_parsers env cx api) (probe_parsers env cx api) 0 0
      (Inl (Some Bad_request)) \<lparr>rs_probe = p, rs_backup = zero_probe, rs_pods = h, rs_queue = q\<rparr> = Ok (st, r)"
    by (auto simp: apply_request_def elim: bnd_pairE)
  with assms have "r = Inr ()" by (auto simp: apply_request_def split: sum.split_asm)
  with ip assms show ?thesis
    by (intro that [of st]) (auto simp: apply_request_def Let_def split: if_split_asm elim!: bnd_pairE)
qed

text \<open>What a successful request reports as changed. The comparison is with the old value only for
  the items the request has: the other parts of the backup are zero. So the flags are exact for a
  request with \<open>cmd\<close>, \<open>snoopers\<close> and \<open>params\<close>, and a request with \<open>params\<close> alone reports the
  snoopers as changed whenever the probe has any.\<close>

theorem request_change_flags:
  assumes "apply_request env ie cx api json p h q = Ok (p', h', q', Inr u)"
  shows "case baseline api json p of (range0, num0, confs0, params0) \<Rightarrow>
     (p_is_params_chg p' \<longleftrightarrow> p_range_flags p' \<noteq> range0 \<or> ie_repr ie (p_param p') \<noteq> ie_repr ie params0) \<and>
     (p_is_snooper_chg p' \<longleftrightarrow> p_conf_num p' \<noteq> num0 \<or>
        confs_modify (take (min (p_conf_num p') SNOOPER_MAX) (p_confs p')) (take (min (p_conf_num p') SNOOPER_MAX) confs0))"
proof -
  obtain st where ip: "item_pass api json (probe_parsers env cx api) (probe_parsers env cx api) 0 0 (Inl (Some Bad_request))
      \<lparr>rs_probe = p, rs_backup = zero_probe, rs_pods = h, rs_queue = q\<rparr> = Ok (st, Inr ())"
    and p': "p' = set_probe_modify (ie_repr ie) (rs_probe st) (rs_backup st)"
    using assms by (rule apply_request_accepted)
  have "compared (rs_backup st) = baseline api json p" using item_pass_baseline [OF ip] by simp
  then show ?thesis by (auto simp: p' set_probe_modify_flags set_probe_modify_keeps compared_def split: prod.split)
qed

theorem request_change_flags_witness:
  "\<exists>p' h' q'. apply_request demo_pm demo_ie demo_cx json_api demo_params_only demo_probe [] [] = Ok (p', h', q', Inr ()) \<and>
     p_is_snooper_chg p' \<and> p_conf_num p' = p_conf_num demo_probe \<and> p_confs p' = p_confs demo_probe"
proof -
  obtain p' h' q' where r: "apply_request demo_pm demo_ie demo_cx json_api demo_params_only demo_probe [] [] = Ok (p', h', q', Inr ())"
    and k: "p_conf_num p' = p_conf_num demo_probe" "p_confs p' = p_confs demo_probe"
    by (simp add: apply_request_def probe_parsers_def demo_params_only_def json_api_def do_backup_def run_params_def
        probe_backup_params_def demo_request_run [unfolded json_api_def] IS_STARTED_PROBE_def IS_RUNNING_PROBE_def
        set_probe_modify_keeps demo_probe_def new_probe_def new_probe_state_def Let_def)
  have "p_conf_num p' \<noteq> fst (snd (baseline json_api demo_params_only demo_probe))"
    by (simp add: k baseline_def has_item_def json_api_def demo_params_only_def demo_probe_def)
  then show ?thesis using request_change_flags [OF r] r k by (auto split: prod.splits)
qed

section \<open>The threads of a probe\<close>

lemma flag_bits:
  "IS_STARTED_PROBE p \<longleftrightarrow> bit (p_status p) 0" "IS_STOPPED_PROBE p \<longleftrightarrow> bit (p_status p) 1"
  "IS_STOPPING_PROBE p \<longleftrightarrow> bit (p_status p) 2" "IS_RUNNING_PROBE p \<longleftrightarrow> bit (p_status p) 3"
  using and_exp_eq_0_iff_not_bit [of "p_status p" 0] and_exp_eq_0_iff_not_bit [of "p_status p" 1]
    and_exp_eq_0_iff_not_bit [of "p_status p" 2] and_exp_eq_0_iff_not_bit [of "p_status p" 3]
  by (simp_all add: IS_STARTED_PROBE_def IS_STOPPED_PROBE_def IS_STOPPING_PROBE_def IS_RUNNING_PROBE_def status_flags)

lemma flag_masks: "bit PROBE_FLAGS_STARTED j \<longleftrightarrow> j = 0" "bit PROBE_FLAGS_STOPPED j \<longleftrightarrow> j = 1"
  "bit PROBE_FLAGS_STOPPING j \<longleftrightarrow> j = 2" "bit PROBE_FLAGS_RUNNING j \<longleftrightarrow> j = 3"
  using bit_exp_iff [where 'a = u32, of 0 j] bit_exp_iff [where 'a = u32, of 1 j]
    bit_exp_iff [where 'a = u32, of 2 j] bit_exp_iff [where 'a = u32, of 3 j]
  by (auto simp: status_flags)

lemma set_flags_bit: "bit (p_status (set_probe_status_flags p f)) j \<longleftrightarrow> bit (p_status p) j \<or> bit f j"
  by (simp add: set_probe_status_flags_def bit_or_iff)

lemma unset_flags_bit: "bit (p_status (unset_probe_status_flags p f)) j \<longleftrightarrow> bit (p_status p) j \<and> \<not> bit f j"
  by (auto simp: unset_probe_status_flags_def bit_and_iff bit_not_iff dest: bit_imp_le_length)

lemma flag_updates_keep:
  "p_is_extend_probe (set_probe_status_flags p f) = p_is_extend_probe p"
  "p_is_extend_probe (unset_probe_status_flags p f) = p_is_extend_probe p"
  "p_is_extend_probe (set_probe_pid p n) = p_is_extend_probe p" "p_status (set_probe_pid p n) = p_status p"
  "p_pid (set_probe_status_flags p f) = p_pid p" "p_pid (unset_probe_status_flags p f) = p_pid p"
  "p_pid (set_probe_pid p n) = n"
  by (simp_all add: probe_flag_defs)

lemmas flag_simps = flag_bits flag_masks set_flags_bit unset_flags_bit flag_updates_keep

lemma run_extend_bits:
  "bit (p_status (run_extend_begin p)) j \<longleftrightarrow> j = 3 \<or> bit (p_status p) j \<and> j \<noteq> 1"
  "bit (p_status (run_extend_end p)) j \<longleftrightarrow> j = 1 \<or> bit (p_status p) j \<and> j \<noteq> 3"
  "p_is_extend_probe (run_extend_begin p) = p_is_extend_probe p" "p_is_extend_probe (run_extend_end p) = p_is_extend_probe p"
  "p_pid (run_extend_begin p) = p_pid p" "p_pid (run_extend_end p) = p_pid p"
  by (auto simp: run_extend_begin_def run_extend_end_def flag_simps)

text \<open>What the two requests do to the flags of an extended probe.\<close>

lemma start_probe_cases:
  assumes "start_probe env p = (p', r, made)"
  shows "p_is_extend_probe p' = p_is_extend_probe p" "p_pid p' = p_pid p"
    "IS_RUNNING_PROBE p' \<longleftrightarrow> IS_RUNNING_PROBE p" "made \<Longrightarrow> \<not> IS_RUNNING_PROBE p"
    "\<not> IS_RUNNING_PROBE p \<Longrightarrow> IS_STARTED_PROBE p' \<and> \<not> IS_STOPPING_PROBE p'"
  using assms by (auto simp: start_probe_def Let_def flag_simps split: if_splits prod.splits)

lemma stop_probe_cases:
  assumes "stop_probe env p q = (p', r, q', ended)" "p_is_extend_probe p"
  shows "p_is_extend_probe p'" "ended \<longleftrightarrow> IS_RUNNING_PROBE p \<and> 0 \<le> p_pid p"
    "IS_RUNNING_PROBE p' \<longleftrightarrow> IS_RUNNING_PROBE p \<and> p_pid p < 0"
    "\<not> IS_RUNNING_PROBE p \<Longrightarrow> p' = p \<and> r = Inr ()" "ended \<Longrightarrow> IS_STOPPED_PROBE p' \<and> r = Inr ()"
  using assms by (auto simp: stop_probe_def Let_def flag_simps run_extend_bits split: if_splits)

lemma keeplive_one: "keeplive_probes env [Some p] = [True] \<Longrightarrow> \<not> IS_RUNNING_PROBE p"
  by (auto simp: keeplive_probes_def try_start_probe_def PROBE_TYPE_MAX_def split: if_splits)

lemma one_thread_step:
  assumes "probe_act env a c = Some c'" "calm a c" "one_thread c"
  shows "one_thread c'"
proof (cases a)
  case Req_Run
  then show ?thesis using assms
    by (auto simp: probe_act_def calm_def one_thread_def Let_def start_probe_cases split: prod.splits if_splits
        dest: start_probe_cases(4))
next
  case Req_Stop
  obtain p r q e where s: "stop_probe env (pc_probe c) [] = (p, r, q, e)" by (metis prod_cases4)
  note x = stop_probe_cases [OF s]
  from s Req_Stop assms(1) have "c' = c\<lparr>pc_probe := p, pc_live := pc_live c - (if e then 1 else 0)\<rparr>" by (simp add: probe_act_def)
  then show ?thesis using assms(3) x by (auto simp: one_thread_def)
next
  case Keeplive
  then show ?thesis using assms
    by (auto simp: probe_act_def calm_def one_thread_def Let_def dest: keeplive_one split: if_splits)
qed (use assms in \<open>auto simp: probe_act_def one_thread_def flag_simps run_extend_bits split: if_splits\<close>)

text \<open>C34. As long as no start, by a request or by the keep-alive pass, comes while a thread of the probe is between its creation and its setting of RUNNING, or
  between its clearing of RUNNING and its end (\<open>clear_ipc_msg\<close>, \<open>pclose\<close>), an extended probe has at most one thread, created, running or ending,
  and it is marked as running exactly while that thread is between the two. Stop requests may come at any time.\<close>

theorem probe_one_thread:
  assumes "probe_reach env True c"
  shows "one_thread c"
  using assms
proof induction
  case (new p)
  then show ?case by (simp add: one_thread_def flag_simps)
next
  case (act c a c')
  then show ?case by (blast intro: one_thread_step)
qed

lemma ready_cong:
  "is_probe_ready env (set_probe_status_flags p f) = is_probe_ready env p"
  "is_probe_ready env (unset_probe_status_flags p f) = is_probe_ready env p"
  "is_probe_ready env (p\<lparr>p_is_restart := b\<rparr>) = is_probe_ready env p"
  "is_probe_ready env (set_probe_pid p n) = is_probe_ready env p"
  "is_probe_ready env (run_extend_begin p) = is_probe_ready env p"
  "is_probe_ready env (run_extend_end p) = is_probe_ready env p"
  by (simp_all add: is_probe_ready_def probe_flag_defs)

text \<open>A start request on a probe that is ready and not running creates a thread, whatever was asked before.\<close>

lemma start_ready:
  assumes "is_probe_ready env p" "pe_thread_ok env" "\<not> IS_RUNNING_PROBE p"
  shows "\<exists>p'. start_probe env p = (p', Inr (), True) \<and> is_probe_ready env p' \<and> \<not> IS_RUNNING_PROBE p' \<and> IS_STARTED_PROBE p' \<and>
     p_is_extend_probe p' = p_is_extend_probe p"
  using assms by (auto simp: start_probe_def Let_def try_start_probe_def flag_simps ready_cong)

theorem probe_one_thread_witness:
  "\<exists>c. probe_acts demo_pm [Req_Run, Thread_Begin] demo_conc = Some c \<and> pc_live c = 1 \<and> one_thread c"
proof -
  have ready: "is_probe_ready demo_pm demo_ext" "pe_thread_ok demo_pm" "\<not> IS_RUNNING_PROBE demo_ext"
    "p_is_extend_probe demo_ext" "p_status demo_ext = 0"
    by (simp_all add: demo_pm_def demo_ext_def new_probe_def new_probe_state_def is_probe_ready_def check_probe_need_start_def flag_simps)
  obtain c1 where a: "probe_act demo_pm Req_Run demo_conc = Some c1" "pc_made c1 = 1" "pc_live c1 = 0"
    using start_ready [OF ready(1-3)] by (auto simp: probe_act_def demo_conc_def)
  obtain c2 where b: "probe_act demo_pm Thread_Begin c1 = Some c2" "pc_live c2 = 1"
    using a by (simp add: probe_act_def)
  have "probe_reach demo_pm True demo_conc"
    using probe_reach.new [of demo_ext] ready by (simp add: demo_conc_def)
  then have "probe_reach demo_pm True c1" by (rule probe_reach.act [OF _ _ a(1)]) (simp add: calm_def demo_conc_def)
  then have "probe_reach demo_pm True c2" by (rule probe_reach.act [OF _ _ b(1)]) (simp add: calm_def)
  then show ?thesis using a(1) b probe_one_thread [of demo_pm c2] by simp
qed

text \<open>Nothing remembers a thread that was created but has not set its flags yet. Two start
  requests in a row create two threads, and the stop request that follows joins one: the probe counts
  as stopped while the other thread and its process go on.\<close>

theorem probe_double_start:
  assumes "is_probe_ready env p" "pe_thread_ok env" "p_is_extend_probe p" "\<not> IS_RUNNING_PROBE p" "0 \<le> n"
  shows "\<exists>c. probe_acts env [Req_Run, Req_Run, Thread_Begin, Thread_Begin, Thread_Pid n, Req_Stop]
       \<lparr>pc_probe = p, pc_made = 0, pc_live = 0, pc_tail = 0\<rparr> = Some c \<and>
     pc_live c = 1 \<and> IS_STOPPED_PROBE (pc_probe c) \<and> \<not> IS_RUNNING_PROBE (pc_probe c)"
proof -
  obtain p1 where 1: "start_probe env p = (p1, Inr (), True)" "is_probe_ready env p1" "\<not> IS_RUNNING_PROBE p1" "p_is_extend_probe p1"
    using start_ready [OF assms(1,2,4)] assms(3) by auto
  obtain p2 where 2: "start_probe env p1 = (p2, Inr (), True)" "p_is_extend_probe p2"
    using start_ready [OF 1(2) assms(2) 1(3)] 1(4) by auto
  let ?p = "set_probe_pid (run_extend_begin (run_extend_begin p2)) n"
  have r: "IS_RUNNING_PROBE ?p" "p_pid ?p = n" "p_is_extend_probe ?p" using 2(2) by (simp_all add: flag_simps run_extend_bits)
  obtain p3 s q e where s: "stop_probe env ?p [] = (p3, s, q, e)" by (metis prod_cases4)
  have "e" "IS_STOPPED_PROBE p3" "\<not> IS_RUNNING_PROBE p3"
    using stop_probe_cases [OF s r(3)] r assms(5) by auto
  then show ?thesis using 1(1) 2(1) s by (simp add: probe_act_def)
qed

theorem probe_double_start_witness:
  "\<exists>c. probe_acts demo_pm [Req_Run, Req_Run, Thread_Begin, Thread_Begin, Thread_Pid 300, Req_Stop] demo_conc = Some c \<and>
     pc_live c = 1 \<and> IS_STOPPED_PROBE (pc_probe c) \<and> \<not> IS_RUNNING_PROBE (pc_probe c)"
  using probe_double_start [of demo_pm demo_ext 300]
  by (simp add: demo_conc_def demo_pm_def demo_ext_def new_probe_def new_probe_state_def is_probe_ready_def
      check_probe_need_start_def flag_simps)

text \<open>A stop request that comes before the thread has set its flags answers success and does
  nothing: the probe runs afterwards.\<close>

theorem probe_stop_lost:
  assumes "is_probe_ready env p" "pe_thread_ok env" "p_is_extend_probe p" "\<not> IS_RUNNING_PROBE p"
  shows "\<exists>p1 c. start_probe env p = (p1, Inr (), True) \<and> stop_probe env p1 q = (p1, Inr (), q, False) \<and>
     probe_acts env [Req_Run, Req_Stop, Thread_Begin] \<lparr>pc_probe = p, pc_made = 0, pc_live = 0, pc_tail = 0\<rparr> = Some c \<and>
     pc_live c = 1 \<and> IS_RUNNING_PROBE (pc_probe c) \<and> IS_STARTED_PROBE (pc_probe c)"
proof -
  obtain p1 where 1: "start_probe env p = (p1, Inr (), True)" "\<not> IS_RUNNING_PROBE p1" "IS_STARTED_PROBE p1"
    using start_ready [OF assms(1,2,4)] by auto
  have s: "stop_probe env p1 q = (p1, Inr (), q, False)" for q using 1(2) by (simp add: stop_probe_def)
  then show ?thesis using 1 by (simp add: probe_act_def flag_bits run_extend_bits)
qed

theorem probe_stop_lost_witness:
  "\<exists>c. probe_acts demo_pm [Req_Run, Req_Stop, Thread_Begin] demo_conc = Some c \<and> pc_live c = 1 \<and> IS_RUNNING_PROBE (pc_probe c)"
  using probe_stop_lost [of demo_pm demo_ext]
  by (simp add: demo_conc_def demo_pm_def demo_ext_def new_probe_def new_probe_state_def is_probe_ready_def
      check_probe_need_start_def flag_simps) blast

text \<open>A start request that comes while the last thread is ending makes a second one, whose messages the first then removes from the queue.\<close>

theorem probe_start_while_ending:
  assumes "pc_live c = 1" "pc_made c = 0" "is_probe_ready env (pc_probe c)" "pe_thread_ok env"
  shows "\<exists>c'. probe_acts env [Thread_End, Req_Run, Thread_Begin] c = Some c' \<and> pc_live c' = 1 \<and> pc_tail c' = pc_tail c + 1 \<and> IS_RUNNING_PROBE (pc_probe c')"
proof -
  have "is_probe_ready env (run_extend_end (pc_probe c))" "\<not> IS_RUNNING_PROBE (run_extend_end (pc_probe c))" using assms(3) by (simp_all add: ready_cong flag_bits run_extend_bits)
  from start_ready [OF this(1) assms(4) this(2)] obtain p1 where "start_probe env (run_extend_end (pc_probe c)) = (p1, Inr (), True)" by blast
  then show ?thesis using assms by (simp add: probe_act_def flag_bits run_extend_bits)
qed

text \<open>C38. The keep-alive pass after the thread of an extended probe has ended: it creates a thread, and only one, exactly when the probe is still meant to run (STARTED), the id of its
  process had been found and is no longer in /proc, the probe is ready (it has a callback and an accessible binary, and its check command agrees) and the system can create a thread;
  when that thread then begins, the probe runs again. So a probe whose process id was never found (-1) is not restarted.\<close>

theorem keeplive_restarts:
  assumes "pc_live c = 1" "pc_made c = 0" "pc_tail c = 0"
  shows "\<exists>c'. probe_acts env [Thread_End, Thread_Exit, Keeplive] c = Some c' \<and> pc_live c' = 0 \<and> pc_tail c' = 0 \<and>
     pc_made c' = (if IS_STARTED_PROBE (pc_probe c) \<and> 0 \<le> p_pid (pc_probe c) \<and> \<not> pe_valid_pid env (p_pid (pc_probe c)) \<and> is_probe_ready env (pc_probe c) \<and> pe_thread_ok env
                   then 1 else 0) \<and>
     (pc_made c' = 1 \<longrightarrow> (\<exists>c''. probe_act env Thread_Begin c' = Some c'' \<and> pc_live c'' = 1 \<and> pc_made c'' = 0 \<and>
        IS_RUNNING_PROBE (pc_probe c'') \<and> IS_STARTED_PROBE (pc_probe c'')))"
proof -
  let ?p = "run_extend_end (pc_probe c)"
  let ?again = "IS_STARTED_PROBE (pc_probe c) \<and> 0 \<le> p_pid (pc_probe c) \<and> \<not> pe_valid_pid env (p_pid (pc_probe c)) \<and> is_probe_ready env (pc_probe c) \<and> pe_thread_ok env"
  have "keeplive_probes env [Some ?p] = [?again]" by (auto simp: keeplive_probes_def try_start_probe_def PROBE_TYPE_MAX_def flag_bits run_extend_bits ready_cong)
  then show ?thesis using assms by (auto simp: probe_act_def flag_bits run_extend_bits)
qed

theorem keeplive_restarts_witness:
  "\<exists>c' c''. probe_acts demo_pm [Thread_End, Thread_Exit, Keeplive]
       \<lparr>pc_probe = demo_ext\<lparr>p_status := 9, p_pid := 300\<rparr>, pc_made = 0, pc_live = 1, pc_tail = 0\<rparr> = Some c' \<and>
     probe_act demo_pm Thread_Begin c' = Some c'' \<and> pc_live c'' = 1 \<and> IS_RUNNING_PROBE (pc_probe c'')"
proof -
  let ?c = "\<lparr>pc_probe = demo_ext\<lparr>p_status := 9, p_pid := 300\<rparr>, pc_made = 0, pc_live = 1, pc_tail = 0\<rparr>"
  have "IS_STARTED_PROBE (pc_probe ?c) \<and> 0 \<le> p_pid (pc_probe ?c) \<and> \<not> pe_valid_pid demo_pm (p_pid (pc_probe ?c)) \<and> is_probe_ready demo_pm (pc_probe ?c) \<and> pe_thread_ok demo_pm"
    by (simp add: demo_pm_def demo_ext_def new_probe_def new_probe_state_def is_probe_ready_def check_probe_need_start_def flag_simps)
  with keeplive_restarts [of ?c demo_pm] show ?thesis by auto
qed

section \<open>The array of probes\<close>

lemma but_types: "p_type (but_cmd p) = p_type p" "p_type (but_snoopers p) = p_type p" "p_type (but_params p) = p_type p"
  "p_type (but_state p) = p_type p"
  by (simp_all add: but_defs)

lemma frame_type:
  "but_cmd p' = but_cmd p \<Longrightarrow> p_type p' = p_type p" "but_snoopers p' = but_snoopers p \<Longrightarrow> p_type p' = p_type p"
  "but_params p' = but_params p \<Longrightarrow> p_type p' = p_type p" "but_state p' = but_state p \<Longrightarrow> p_type p' = p_type p"
  by (metis but_types)+

lemma item_pass_type:
  assumes "item_pass api json (probe_parsers env cx api) (probe_parsers env cx api) 0 0 ret st = Ok (st', r)"
  shows "p_type (rs_probe st') = p_type (rs_probe st)"
proof (cases r)
  case (Inl e)
  then show ?thesis using item_pass_undone [OF assms [unfolded Inl]] frame_type(4) by blast
next
  case (Inr u)
  obtain s1 s2 s3 where c: "case cJSON_GetObjectItem api json ''cmd'' of None \<Rightarrow> s1 = st
      | Some item \<Rightarrow> \<exists>v. run_cmd env api item (do_backup (Some probe_backup_cmd) st) = Ok (s1, Inr v)"
    "case cJSON_GetObjectItem api json ''snoopers'' of None \<Rightarrow> s2 = s1
      | Some item \<Rightarrow> \<exists>v. run_snoopers cx api item (do_backup (Some backup_snooper) s1) = Ok (s2, Inr v)"
    "case cJSON_GetObjectItem api json ''params'' of None \<Rightarrow> s3 = s2
      | Some item \<Rightarrow> \<exists>v. run_params api item (do_backup (Some probe_backup_params) s2) = Ok (s3, Inr v)"
    "case cJSON_GetObjectItem api json ''state'' of None \<Rightarrow> st' = s3
      | Some item \<Rightarrow> \<exists>v. run_state env api item s3 = Ok (st', Inr v)"
    using request_stages [OF assms [unfolded Inr]] by blast
  have "p_type (rs_probe s1) = p_type (rs_probe st)"
    using c(1) by (auto simp: do_backup_def probe_backup_cmd_def dest!: run_cmd_frame frame_type(1) split: option.splits)
  moreover have "p_type (rs_probe s2) = p_type (rs_probe s1)"
    using c(2) by (auto simp: do_backup_def backup_snooper_def dest!: run_snoopers_frame frame_type(2) split: option.splits)
  moreover have "p_type (rs_probe s3) = p_type (rs_probe s2)"
    using c(3) by (auto simp: do_backup_def probe_backup_params_def dest!: run_params_frame frame_type(3) split: option.splits)
  moreover have "p_type (rs_probe st') = p_type (rs_probe s3)"
    using c(4) by (auto dest!: run_state_frame frame_type(4) split: option.splits)
  ultimately show ?thesis by simp
qed

lemma apply_request_type:
  assumes "apply_request env ie cx api json p h q = Ok (p', h', q', r)"
  shows "p_type p' = p_type p"
  using assms unfolding apply_request_def
  by (auto simp: Let_def set_probe_modify_keeps dest!: item_pass_type elim!: bnd_pairE split: sum.splits if_splits)

lemma type_by_name: "get_probe_type_by_name name < PROBE_TYPE_MAX \<Longrightarrow> 1 \<le> get_probe_type_by_name name"
proof -
  have "type_lookup l n = PROBE_TYPE_MAX \<or> type_lookup l n \<in> set (map (snd \<circ> snd) l)" for l n
    by (induction l n rule: type_lookup.induct) auto
  moreover have "\<forall>t \<in> set (map (snd \<circ> snd) probe_define). 1 \<le> t" by code_simp
  ultimately have "type_lookup probe_define n = PROBE_TYPE_MAX \<or> 1 \<le> type_lookup probe_define n" for n by blast
  then show "get_probe_type_by_name name < PROBE_TYPE_MAX \<Longrightarrow> 1 \<le> get_probe_type_by_name name"
    unfolding get_probe_type_by_name_def by (cases name) (simp, metis less_irrefl option.simps(5))
qed

lemma get_probe_by_name_wf:
  assumes "probes_wf probes" "get_probe_by_name ok name probes = (probes', r)"
  shows "probes_wf probes'" "i \<noteq> nat (get_probe_type_by_name name) \<Longrightarrow> probes' ! i = probes ! i"
    "r = Some p \<Longrightarrow> p_type p = get_probe_type_by_name name \<and> 1 \<le> p_type p \<and> p_type p < PROBE_TYPE_MAX \<and> probes' ! nat (p_type p) = Some p"
proof -
  let ?t = "get_probe_type_by_name name"
  have len: "length probes = nat PROBE_TYPE_MAX" using assms(1) by (simp add: probes_wf_def)
  have t: "?t < PROBE_TYPE_MAX \<Longrightarrow> 1 \<le> ?t \<and> nat ?t < length probes \<and> int (nat ?t) = ?t"
    using type_by_name [of name] len by (simp add: PROBE_TYPE_MAX_def)
  have ty: "p_type (new_probe n ?t) = ?t" for n by (simp add: new_probe_def new_probe_state_def)
  have old: "?t < PROBE_TYPE_MAX \<Longrightarrow> probes ! nat ?t = Some p' \<Longrightarrow> p_type p' = ?t" for p'
    using assms(1) t unfolding probes_wf_def by metis
  show "probes_wf probes'" "i \<noteq> nat ?t \<Longrightarrow> probes' ! i = probes ! i"
    "r = Some p \<Longrightarrow> p_type p = ?t \<and> 1 \<le> p_type p \<and> p_type p < PROBE_TYPE_MAX \<and> probes' ! nat (p_type p) = Some p"
    using assms t ty old by (auto simp: get_probe_by_name_def Let_def probes_wf_def nth_list_update split: if_splits option.splits)
qed

text \<open>The array of probes keeps its shape under every request, accepted or refused: each entry
  holds the probe of its own type, and the request touches no entry but the one its name selects.\<close>

theorem request_isolated:
  assumes "probes_wf probes" "parse_probe_json env ie cx api parse ok backup_ok name content probes h q = Ok (probes', h', q', r)"
  shows "probes_wf probes' \<and> (\<forall>i. i \<noteq> nat (get_probe_type_by_name (Some name)) \<longrightarrow> probes' ! i = probes ! i)"
proof -
  obtain ps po where g: "get_probe_by_name ok (Some name) probes = (ps, po)" by fastforce
  note w = get_probe_by_name_wf [OF assms(1) g]
  have "probes' = ps \<or> (\<exists>p p' h1 q1 r1 json. po = Some p \<and> apply_request env ie cx api json p h q = Ok (p', h1, q1, r1) \<and>
      probes' = ps[nat (p_type p') := Some p'])"
    using assms(2) g by (fastforce simp: parse_probe_json_def split: option.splits if_splits dest!: bnd_OkD)
  then show ?thesis
  proof (elim disjE exE conjE)
    fix p p' h1 q1 r1 json
    assume a: "po = Some p" "apply_request env ie cx api json p h q = Ok (p', h1, q1, r1)" "probes' = ps[nat (p_type p') := Some p']"
    have "p_type p' = p_type p" using a(2) by (rule apply_request_type)
    with w a show ?thesis by (auto simp: probes_wf_def nth_list_update)
  qed (use w in blast)
qed

theorem request_isolated_witness:
  "\<exists>probes' h' q' r. parse_probe_json demo_pm demo_ie demo_cx json_api (\<lambda>_. Some demo_params_only) True True ''tcp'' ''''
       (replicate 22 None) [] [] = Ok (probes', h', q', r) \<and> probes_wf probes' \<and> probes' ! 4 = None"
proof -
  have wf: "probes_wf (replicate 22 None)" by (simp add: probes_wf_def PROBE_TYPE_MAX_def)
  have t: "get_probe_type_by_name (Some ''tcp'') = 5" by code_simp
  obtain probes' h' q' r where run: "parse_probe_json demo_pm demo_ie demo_cx json_api (\<lambda>_. Some demo_params_only) True True ''tcp'' ''''
       (replicate 22 None) [] [] = Ok (probes', h', q', r)"
    by (simp add: parse_probe_json_def get_probe_by_name_def t apply_request_def probe_parsers_def demo_params_only_def json_api_def do_backup_def run_params_def
        probe_backup_params_def demo_request_run [unfolded json_api_def] IS_STARTED_PROBE_def IS_RUNNING_PROBE_def
        set_probe_modify_keeps new_probe_def new_probe_state_def Let_def PROBE_TYPE_MAX_def)
  then show ?thesis using request_isolated [OF wf run] t by auto
qed

end
