(* ===== verification/Event2json.thy ===== *)
theory Event2json
  imports Imdb_Export C_Strings
begin

text \<open>
  The conversion of log and event lines into JSON, src/src/ingress/event2json.c, with the buffer
  functions of src/src/common/strbuf.h. A \<open>strbuf_t\<close> that is written to is the text written so far
  and the bytes left in the array, \<open>size\<close>; a write past the end is \<open>UB\<close>. A \<open>strbuf_t\<close> that is read
  (\<open>buf\<close> and \<open>len\<close>) is the string it delimits. The functions that return -1 give \<open>None\<close>; the texts stay
  far below \<open>2 ^ 31\<close>, so that lengths are integers without wrap-around.

  The theorems: neither conversion writes past its buffer, and each gives exactly the JSON object
  written down as its specification, or fails when that object does not fit.
\<close>

section \<open>Buffers\<close>

type_synonym strbuf_t = "string \<times> int"

definition strbuf_update_offset :: "strbuf_t \<Rightarrow> string \<Rightarrow> strbuf_t" where
  "strbuf_update_offset dest s = (fst dest @ s, snd dest - int (length s))"

definition strbuf_append_str :: "strbuf_t \<Rightarrow> string \<Rightarrow> strbuf_t outc" where
  "strbuf_append_str dest s = (if int (length s) \<le> snd dest then Ok (strbuf_update_offset dest s) else UB)"

definition strbuf_append_chr :: "strbuf_t \<Rightarrow> char \<Rightarrow> strbuf_t outc" where
  "strbuf_append_chr dest c = (if 1 \<le> snd dest then Ok (strbuf_update_offset dest [c]) else UB)"

definition strbuf_append_chr_with_check :: "strbuf_t \<Rightarrow> char \<Rightarrow> strbuf_t option outc" where
  "strbuf_append_chr_with_check dest c =
     (if snd dest \<le> 0 then Ok None else bnd (strbuf_append_chr dest c) (\<lambda>d. Ok (Some d)))"

definition strbuf_append_str_with_check :: "strbuf_t \<Rightarrow> string \<Rightarrow> strbuf_t option outc" where
  "strbuf_append_str_with_check dest s =
     (if snd dest < int (length s) then Ok None else bnd (strbuf_append_str dest s) (\<lambda>d. Ok (Some d)))"

text \<open>\<open>snprintf(dest->buf, dest->size, ...)\<close> with the test of its result that follows, on the formatted text.\<close>

definition strbuf_printf :: "strbuf_t \<Rightarrow> string \<Rightarrow> strbuf_t option outc" where
  "strbuf_printf dest s = (if snd dest < 0 then UB else if int (length s) \<ge> snd dest then Ok None
     else Ok (Some (strbuf_update_offset dest s)))"

text \<open>One call after the other, the first failure ends the function.\<close>

definition andthen :: "(strbuf_t \<Rightarrow> strbuf_t option outc) \<Rightarrow> (strbuf_t \<Rightarrow> strbuf_t option outc) \<Rightarrow> strbuf_t \<Rightarrow> strbuf_t option outc" where
  "andthen f g d = bnd (f d) (\<lambda>r. case r of None \<Rightarrow> Ok None | Some d \<Rightarrow> g d)"

section \<open>Logs\<close>

text \<open>The part of \<open>IngressMgr\<close> that is read: \<open>nodeInfo\<close>. Nothing in the program sets \<open>hostName\<close>.\<close>

record node_info =
  ni_uuid :: string
  ni_hostName :: string
  ni_hostIP :: string

definition nodeInfo :: "('h, 'g) IMDB_DataBaseMgr \<Rightarrow> node_info" where
  "nodeInfo mgr = \<lparr>ni_uuid = systemUuid mgr, ni_hostName = [], ni_hostIP = hostIP mgr\<rparr>"

definition fill_log_field_simple :: "string \<Rightarrow> string \<Rightarrow> bool \<Rightarrow> strbuf_t \<Rightarrow> strbuf_t option outc" where
  "fill_log_field_simple val name fillQuote dest =
     (let requiredSize = int (length name) + int (length val) + 3 + (if fillQuote then 2 else 0) in
      if requiredSize \<ge> snd dest then Ok None
      else bnd (strbuf_append_chr dest (CHR 0x22)) (\<lambda>d.
           bnd (strbuf_append_str d name) (\<lambda>d.
           bnd (strbuf_append_chr d (CHR 0x22)) (\<lambda>d.
           bnd (strbuf_append_chr d (CHR '':'')) (\<lambda>d.
           bnd (if fillQuote then strbuf_append_chr d (CHR 0x22) else Ok d) (\<lambda>d.
           bnd (strbuf_append_str d val) (\<lambda>d.
           bnd (if fillQuote then strbuf_append_chr d (CHR 0x22) else Ok d) (\<lambda>d. Ok (Some d)))))))))"

definition host_text :: "node_info \<Rightarrow> string" where
  "host_text ni = '',\"host.id\":\"'' @ ni_uuid ni @ ''\",\"host.name\":\"'' @ ni_hostName ni @ ''\"''"

definition enrich_resource_with_host_info :: "node_info \<Rightarrow> strbuf_t \<Rightarrow> strbuf_t option outc" where
  "enrich_resource_with_host_info ni dest = strbuf_printf dest (host_text ni)"

definition fill_log_field_resource :: "node_info \<Rightarrow> string \<Rightarrow> strbuf_t \<Rightarrow> strbuf_t option outc" where
  "fill_log_field_resource ni field dest =
     (if length field < 2 \<or> hd field \<noteq> CHR ''{'' \<or> last field \<noteq> CHR ''}'' then Ok None
      else bnd (fill_log_field_simple field ''Resource'' False dest) (\<lambda>r. case r of None \<Rightarrow> Ok None
        | Some d \<Rightarrow>
            (let d = (butlast (fst d), snd d + 1) in
             andthen (enrich_resource_with_host_info ni) (\<lambda>d. strbuf_append_chr_with_check d (CHR ''}'')) d)))"

definition gLogField :: "string list" where
  "gLogField = [''Timestamp'', ''SeverityText'', ''SeverityNumber'', ''Resource'', ''Attributes'', ''Body'']"

definition LOG_FIELD_RESOURCE :: nat where "LOG_FIELD_RESOURCE = 3"
definition LOG_FIELD_MAX :: nat where "LOG_FIELD_MAX = 6"

definition fill_log_field :: "node_info \<Rightarrow> string \<Rightarrow> nat \<Rightarrow> strbuf_t \<Rightarrow> strbuf_t option outc" where
  "fill_log_field ni field fieldNumber dest =
     (if fieldNumber = LOG_FIELD_RESOURCE then fill_log_field_resource ni field dest
      else if fieldNumber < LOG_FIELD_MAX then fill_log_field_simple field (gLogField ! fieldNumber) False dest
      else Ok None)"

text \<open>\<open>strchr(barNow + 1, bar)\<close>: the field up to the next bar and the text from that bar on.\<close>

definition next_field :: "string \<Rightarrow> (string \<times> string) option" where
  "next_field barNow = (let s = tl barNow in
     if CHR ''|'' \<in> set s then Some (takeWhile (\<lambda>c. c \<noteq> CHR ''|'') s, dropWhile (\<lambda>c. c \<noteq> CHR ''|'') s) else None)"

fun log_fields :: "node_info \<Rightarrow> nat list \<Rightarrow> string \<Rightarrow> strbuf_t \<Rightarrow> strbuf_t option outc" where
  "log_fields ni [] barNow dest = Ok (Some dest)"
| "log_fields ni (i # is) barNow dest =
     (case next_field barNow of None \<Rightarrow> Ok None
      | Some (field, barNext) \<Rightarrow>
          andthen (fill_log_field ni field i)
            (andthen (\<lambda>d. if i \<noteq> LOG_FIELD_MAX - 1 then strbuf_append_chr_with_check d (CHR '','') else Ok (Some d))
               (log_fields ni is barNext)) dest)"

text \<open>The text in \<open>jsonFmt\<close> up to its terminator when the call returns 0.\<close>

definition LogData2Json :: "node_info \<Rightarrow> string \<Rightarrow> nat \<Rightarrow> string option outc" where
  "LogData2Json ni logData jsonSize =
     (if logData = [] \<or> hd logData \<noteq> CHR ''|'' then Ok None
      else bnd (andthen (\<lambda>d. strbuf_append_chr_with_check d (CHR ''{''))
                (andthen (log_fields ni [0..<LOG_FIELD_MAX] logData)
                  (\<lambda>d. strbuf_append_str_with_check d (''}'' @ [CHR 0x00]))) ([], int jsonSize))
           (\<lambda>r. Ok (map_option (\<lambda>d. chars (fst d)) r)))"

section \<open>Events\<close>

definition EVT_ORIG_FIELD_MAX :: nat where "EVT_ORIG_FIELD_MAX = 12"
definition ENTITY_ID_LEN :: nat where "ENTITY_ID_LEN = 256"
definition EVENT_ID_LEN :: nat where "EVENT_ID_LEN = 384"
definition METRIC_ID_LEN :: nat where "METRIC_ID_LEN = 64"
definition LINE_BUF_LEN :: nat where "LINE_BUF_LEN = 512"

fun take_fields :: "nat \<Rightarrow> string \<Rightarrow> string list option" where
  "take_fields 0 barNow = Some []"
| "take_fields (Suc n) barNow = (case next_field barNow of None \<Rightarrow> None
     | Some (field, barNext) \<Rightarrow> map_option ((#) field) (take_fields n barNext))"

definition get_event_fields :: "nat \<Rightarrow> string \<Rightarrow> string list option" where
  "get_event_fields num evtData =
     (if evtData = [] \<or> hd evtData \<noteq> CHR ''|'' then None
      else case take_fields num evtData of None \<Rightarrow> None
        | Some fs \<Rightarrow> if fs ! 0 = [] \<or> fs ! 1 = [] \<or> fs ! 2 = [] then None else Some fs)"

definition transfer_entityId :: "string \<Rightarrow> string" where
  "transfer_entityId s = map (\<lambda>c. if c = CHR ''/'' then CHR '':'' else c) s"

definition get_curr_timestamp_ms :: "sys_env \<Rightarrow> int" where
  "get_curr_timestamp_ms env = env_now env * THOUSAND"

definition get_entityId :: "nat \<Rightarrow> string \<Rightarrow> string \<Rightarrow> string \<Rightarrow> string option outc" where
  "get_entityId sz machineId entityName origEntityId =
     (if int sz < int (length machineId + length entityName + length origEntityId + 3) then Ok None
      else bnd (strbuf_append_str ([], int sz) machineId) (\<lambda>d.
           bnd (strbuf_append_chr d (CHR ''_'')) (\<lambda>d.
           bnd (strbuf_append_str d entityName) (\<lambda>d.
           bnd (strbuf_append_chr d (CHR ''_'')) (\<lambda>d0.
           bnd (strbuf_append_str d0 origEntityId) (\<lambda>d.
           bnd (strbuf_append_chr d (CHR 0x00)) (\<lambda>d.
             Ok (Some (chars (fst d0 @ transfer_entityId (drop (length (fst d0)) (fst d)))))))))))) "

definition get_eventId :: "nat \<Rightarrow> int \<Rightarrow> string \<Rightarrow> string option outc" where
  "get_eventId sz timestamp entityId =
     bnd (strbuf_printf ([], int sz) (show_lld timestamp @ ''_'' @ entityId)) (\<lambda>r. case r of None \<Rightarrow> Ok None
       | Some d \<Rightarrow> bnd (strbuf_append_chr d (CHR 0x00)) (\<lambda>d. Ok (Some (chars (fst d)))))"

definition get_metricId :: "nat \<Rightarrow> string \<Rightarrow> string \<Rightarrow> string option outc" where
  "get_metricId sz entityName metricName =
     (if int sz < int (length ''gala_gopher'' + length entityName + length metricName + 3) then Ok None
      else bnd (strbuf_append_str ([], int sz) ''gala_gopher'') (\<lambda>d.
           bnd (strbuf_append_chr d (CHR ''_'')) (\<lambda>d.
           bnd (strbuf_append_str d entityName) (\<lambda>d.
           bnd (strbuf_append_chr d (CHR ''_'')) (\<lambda>d.
           bnd (strbuf_append_str d metricName) (\<lambda>d.
           bnd (strbuf_append_chr d (CHR 0x00)) (\<lambda>d. Ok (Some (chars (fst d)))))))))) "

definition fill_evt_field_timestamp :: "int \<Rightarrow> strbuf_t \<Rightarrow> strbuf_t option outc" where
  "fill_evt_field_timestamp timestamp = fill_log_field_simple (snprintf_s 16 (show_lld timestamp)) ''Timestamp'' False"

definition fill_evt_field_eventId :: "string \<Rightarrow> strbuf_t \<Rightarrow> strbuf_t option outc" where
  "fill_evt_field_eventId eventId = fill_log_field_simple eventId ''event_id'' True"

definition attrs_text :: "string \<Rightarrow> string \<Rightarrow> string" where
  "attrs_text entityId eventId =
     ''\"Attributes\":{\"entity_id\":\"'' @ entityId @ ''\",\"event_id\":\"'' @ eventId @ ''\",\"event_type\":\"sys\"}''"

definition fill_evt_field_attrs :: "string \<Rightarrow> string \<Rightarrow> strbuf_t \<Rightarrow> strbuf_t option outc" where
  "fill_evt_field_attrs entityId eventId dest = strbuf_printf dest (attrs_text entityId eventId)"

definition labelNames :: "(nat \<times> string) list" where
  "labelNames = [(3, ''PID''), (4, ''COMM''), (5, ''IP''), (6, ''ContainerID''), (7, ''POD''), (8, ''Device'')]"

fun fill_labels :: "string list \<Rightarrow> (nat \<times> string) list \<Rightarrow> strbuf_t \<Rightarrow> strbuf_t option outc" where
  "fill_labels fs [] dest = Ok (Some dest)"
| "fill_labels fs ((i, name) # ls) dest =
     andthen (\<lambda>d. strbuf_append_chr_with_check d (CHR '',''))
       (andthen (fill_log_field_simple (fs ! i) name True) (fill_labels fs ls)) dest"

definition fill_evt_field_labels :: "node_info \<Rightarrow> string list \<Rightarrow> strbuf_t \<Rightarrow> strbuf_t option outc" where
  "fill_evt_field_labels ni fs =
     (let hostVal = snprintf_s LINE_BUF_LEN (ni_uuid ni @ ''-'' @ ni_hostIP ni) in
      andthen (\<lambda>d. strbuf_append_str_with_check d ''\"labels\":{'')
        (andthen (fill_log_field_simple hostVal ''Host'' True)
          (andthen (fill_labels fs labelNames) (\<lambda>d. strbuf_append_chr_with_check d (CHR ''}'')))))"

definition fill_evt_field_resource :: "node_info \<Rightarrow> string \<Rightarrow> string list \<Rightarrow> strbuf_t \<Rightarrow> strbuf_t option outc" where
  "fill_evt_field_resource ni metricId fs =
     andthen (\<lambda>d. strbuf_printf d (''\"Resource\":{\"metric\":\"'' @ metricId @ ''\",''))
       (andthen (fill_evt_field_labels ni fs) (\<lambda>d. strbuf_append_chr_with_check d (CHR ''}'')))"

text \<open>The loop over the seven fields of the object, with a comma behind all but the last.\<close>

fun fill_all :: "(strbuf_t \<Rightarrow> strbuf_t option outc) list \<Rightarrow> strbuf_t \<Rightarrow> strbuf_t option outc" where
  "fill_all [] d = Ok (Some d)"
| "fill_all [f] d = f d"
| "fill_all (f # g # fs) d = andthen f (andthen (\<lambda>d. strbuf_append_chr_with_check d (CHR '','')) (fill_all (g # fs))) d"

definition EventData2Json :: "node_info \<Rightarrow> sys_env \<Rightarrow> string \<Rightarrow> nat \<Rightarrow> string option outc" where
  "EventData2Json ni env evtData jsonSize =
     (case get_event_fields EVT_ORIG_FIELD_MAX evtData of None \<Rightarrow> Ok None
      | Some fs \<Rightarrow>
          (let timestamp = get_curr_timestamp_ms env in
           bnd (get_entityId ENTITY_ID_LEN (ni_uuid ni) (fs ! 0) (fs ! 1)) (\<lambda>r1. case r1 of None \<Rightarrow> Ok None
           | Some entityId \<Rightarrow>
             bnd (get_eventId EVENT_ID_LEN timestamp entityId) (\<lambda>r2. case r2 of None \<Rightarrow> Ok None
             | Some eventId \<Rightarrow>
               bnd (get_metricId METRIC_ID_LEN (fs ! 0) (fs ! 2)) (\<lambda>r3. case r3 of None \<Rightarrow> Ok None
               | Some metricId \<Rightarrow>
                 bnd (andthen (\<lambda>d. strbuf_append_chr_with_check d (CHR ''{''))
                   (andthen (fill_all [fill_evt_field_timestamp timestamp, fill_evt_field_eventId eventId,
                        fill_evt_field_attrs entityId eventId, fill_evt_field_resource ni metricId fs,
                        fill_log_field_simple (fs ! 9) ''SeverityText'' True,
                        fill_log_field_simple (fs ! 10) ''SeverityNumber'' False,
                        fill_log_field_simple (fs ! 11) ''Body'' True])
                     (\<lambda>d. strbuf_append_str_with_check d (''}'' @ [CHR 0x00]))) ([], int jsonSize))
                   (\<lambda>r. Ok (map_option (\<lambda>d. chars (fst d)) r)))))))"

section \<open>Specifications\<close>

text \<open>A JSON member, and the pieces of an object joined by commas.\<close>

definition json_member :: "string \<Rightarrow> string \<Rightarrow> bool \<Rightarrow> string" where
  "json_member name val quoted = ''\"'' @ name @ ''\":'' @ (if quoted then ''\"'' @ val @ ''\"'' else val)"

fun joinc :: "string list \<Rightarrow> string" where
  "joinc [] = []"
| "joinc [x] = x"
| "joinc (x # y # xs) = x @ '','' @ joinc (y # xs)"

definition resource_ok :: "string \<Rightarrow> bool" where
  "resource_ok f \<longleftrightarrow> 2 \<le> length f \<and> hd f = CHR ''{'' \<and> last f = CHR ''}''"

text \<open>What a log line means: \<open>None\<close> for a malformed one.\<close>

definition log_member :: "node_info \<Rightarrow> nat \<Rightarrow> string \<Rightarrow> string" where
  "log_member ni i f = (if i = LOG_FIELD_RESOURCE then json_member ''Resource'' (butlast f @ host_text ni @ ''}'') False
     else json_member (gLogField ! i) f False)"

definition log_object :: "node_info \<Rightarrow> string \<Rightarrow> string option" where
  "log_object ni logData =
     (if logData = [] \<or> hd logData \<noteq> CHR ''|'' then None
      else case take_fields LOG_FIELD_MAX logData of None \<Rightarrow> None
        | Some fs \<Rightarrow> if resource_ok (fs ! LOG_FIELD_RESOURCE)
            then Some (''{'' @ joinc (map2 (log_member ni) [0..<LOG_FIELD_MAX] fs) @ ''}'') else None)"

text \<open>
  The contract of the functions that fill the buffer: such a function adds its text or fails, it fails
  only when the text with a terminator does not fit, and it writes nothing past the end.
\<close>

definition writes :: "(strbuf_t \<Rightarrow> strbuf_t option outc) \<Rightarrow> string \<Rightarrow> bool" where
  "writes f t \<longleftrightarrow> (\<forall>d. 0 \<le> snd d \<longrightarrow>
     f d = Ok None \<and> snd d \<le> int (length t) \<or> f d = Ok (Some (strbuf_update_offset d t)) \<and> int (length t) \<le> snd d)"

definition fails :: "(strbuf_t \<Rightarrow> strbuf_t option outc) \<Rightarrow> bool" where
  "fails f \<longleftrightarrow> (\<forall>d. 0 \<le> snd d \<longrightarrow> f d = Ok None)"

definition no_nul :: "string \<Rightarrow> bool" where
  "no_nul s \<longleftrightarrow> CHR 0x00 \<notin> set s"

definition node_ok :: "node_info \<Rightarrow> bool" where
  "node_ok ni \<longleftrightarrow> no_nul (ni_uuid ni) \<and> no_nul (ni_hostName ni) \<and> no_nul (ni_hostIP ni)"

definition demo_node :: node_info where
  "demo_node = \<lparr>ni_uuid = ''u1'', ni_hostName = [], ni_hostIP = ''10.0.0.1''\<rparr>"

definition entity_id_text :: "node_info \<Rightarrow> string list \<Rightarrow> string" where
  "entity_id_text ni fs = ni_uuid ni @ ''_'' @ fs ! 0 @ ''_'' @ transfer_entityId (fs ! 1)"

definition event_id_text :: "node_info \<Rightarrow> sys_env \<Rightarrow> string list \<Rightarrow> string" where
  "event_id_text ni env fs = show_lld (get_curr_timestamp_ms env) @ ''_'' @ entity_id_text ni fs"

definition metric_id_text :: "string list \<Rightarrow> string" where
  "metric_id_text fs = ''gala_gopher_'' @ fs ! 0 @ ''_'' @ fs ! 2"

definition labels_text :: "node_info \<Rightarrow> string list \<Rightarrow> string" where
  "labels_text ni fs = ''\"labels\":{'' @ json_member ''Host'' (snprintf_s LINE_BUF_LEN (ni_uuid ni @ ''-'' @ ni_hostIP ni)) True @
     concat (map (\<lambda>(i, name). '','' @ json_member name (fs ! i) True) labelNames) @ ''}''"

definition event_members :: "node_info \<Rightarrow> sys_env \<Rightarrow> string list \<Rightarrow> string list" where
  "event_members ni env fs =
     [json_member ''Timestamp'' (snprintf_s 16 (show_lld (get_curr_timestamp_ms env))) False,
      json_member ''event_id'' (event_id_text ni env fs) True,
      attrs_text (entity_id_text ni fs) (event_id_text ni env fs),
      ''\"Resource\":{\"metric\":\"'' @ metric_id_text fs @ ''\",'' @ labels_text ni fs @ ''}'',
      json_member ''SeverityText'' (fs ! 9) True, json_member ''SeverityNumber'' (fs ! 10) False,
      json_member ''Body'' (fs ! 11) True]"

text \<open>What an event line means: \<open>None\<close> for a malformed one or one whose names are too long.\<close>

definition event_object :: "node_info \<Rightarrow> sys_env \<Rightarrow> string \<Rightarrow> string option" where
  "event_object ni env evtData = (case get_event_fields EVT_ORIG_FIELD_MAX evtData of None \<Rightarrow> None
     | Some fs \<Rightarrow>
         if length (entity_id_text ni fs) < ENTITY_ID_LEN \<and> length (event_id_text ni env fs) < EVENT_ID_LEN \<and>
            length (metric_id_text fs) < METRIC_ID_LEN
         then Some (''{'' @ joinc (event_members ni env fs) @ ''}'') else None)"

definition demo_event :: "string list" where
  "demo_event = [''tcp_link'', ''/a'', ''rx'', ''7'', ''sh'', ''ip'', [], [], ''eth0'', ''WARN'', ''13'', ''slow'']"

section \<open>Writing into a buffer\<close>

lemma offset_append: "strbuf_update_offset (strbuf_update_offset d t) u = strbuf_update_offset d (t @ u)"
  by (simp add: strbuf_update_offset_def)

lemma offset_size: "snd (strbuf_update_offset d t) = snd d - int (length t)"
  by (simp add: strbuf_update_offset_def)

lemma writesD: "writes f t \<Longrightarrow> 0 \<le> snd d \<Longrightarrow>
    f d = Ok None \<and> snd d \<le> int (length t) \<or> f d = Ok (Some (strbuf_update_offset d t)) \<and> int (length t) \<le> snd d"
  unfolding writes_def by blast

lemma writes_andthen:
  assumes "writes f t" "writes g u"
  shows "writes (andthen f g) (t @ u)"
  unfolding writes_def
proof (intro allI impI)
  fix d :: strbuf_t
  assume d: "0 \<le> snd d"
  from writesD [OF assms(1) d] writesD [OF assms(2), of "strbuf_update_offset d t"]
  show "andthen f g d = Ok None \<and> snd d \<le> int (length (t @ u)) \<or>
      andthen f g d = Ok (Some (strbuf_update_offset d (t @ u))) \<and> int (length (t @ u)) \<le> snd d"
    by (auto simp: andthen_def offset_size offset_append)
qed

lemma fails_first: "fails f \<Longrightarrow> fails (andthen f g)"
  by (simp add: fails_def andthen_def)

lemma fails_second:
  assumes "writes f t" "fails g"
  shows "fails (andthen f g)"
  unfolding fails_def
proof (intro allI impI)
  fix d :: strbuf_t
  assume d: "0 \<le> snd d"
  have "0 \<le> snd (strbuf_update_offset d t) \<Longrightarrow> g (strbuf_update_offset d t) = Ok None"
    using assms(2) unfolding fails_def by blast
  with writesD [OF assms(1) d] show "andthen f g d = Ok None" by (auto simp: andthen_def offset_size)
qed

lemma writes_skip: "writes (\<lambda>d. Ok (Some d)) []"
  by (simp add: writes_def strbuf_update_offset_def)

lemma writes_chr: "writes (\<lambda>d. strbuf_append_chr_with_check d c) [c]"
  by (auto simp: writes_def strbuf_append_chr_with_check_def strbuf_append_chr_def)

lemma writes_str: "writes (\<lambda>d. strbuf_append_str_with_check d s) s"
  by (auto simp: writes_def strbuf_append_str_with_check_def strbuf_append_str_def)

lemma writes_printf: "writes (\<lambda>d. strbuf_printf d s) s"
  by (auto simp: writes_def strbuf_printf_def)

lemma writes_simple: "writes (fill_log_field_simple val name q) (json_member name val q)"
  by (auto simp: writes_def fill_log_field_simple_def json_member_def Let_def strbuf_append_chr_def strbuf_append_str_def
      offset_append offset_size)

lemma writes_resource:
  assumes "resource_ok f"
  shows "writes (fill_log_field_resource ni f) (log_member ni LOG_FIELD_RESOURCE f)"
  unfolding writes_def
proof (intro allI impI)
  fix d :: strbuf_t
  assume d: "0 \<le> snd d"
  let ?m = "json_member ''Resource'' f False" and ?h = "host_text ni @ ''}''"
  have f: "f \<noteq> []" using assms unfolding resource_ok_def by fastforce
  then have m: "?m = butlast ?m @ [CHR ''}'']" "butlast ?m = json_member ''Resource'' (butlast f) False"
    using assms f append_butlast_last_id [OF f] by (simp_all add: json_member_def resource_ok_def butlast_append)
  have t: "log_member ni LOG_FIELD_RESOURCE f = butlast ?m @ ?h" unfolding m(2) by (simp add: log_member_def json_member_def)
  have w: "writes (andthen (enrich_resource_with_host_info ni) (\<lambda>d. strbuf_append_chr_with_check d (CHR ''}''))) ?h"
    unfolding enrich_resource_with_host_info_def by (intro writes_andthen writes_printf writes_chr)
  have le: "length ?m \<le> length (butlast ?m @ ?h)" "length (butlast ?m) \<le> length ?m" by simp_all
  have cut: "(butlast (fst (strbuf_update_offset d ?m)), snd (strbuf_update_offset d ?m) + 1) = strbuf_update_offset d (butlast ?m)"
    using f by (simp add: strbuf_update_offset_def json_member_def butlast_append)
  have run: "fill_log_field_resource ni f d = (case fill_log_field_simple f ''Resource'' False d of
      Ok (Some d') \<Rightarrow> andthen (enrich_resource_with_host_info ni) (\<lambda>d. strbuf_append_chr_with_check d (CHR ''}'')) (butlast (fst d'), snd d' + 1)
    | Ok None \<Rightarrow> Ok None | UB \<Rightarrow> UB | NoRet \<Rightarrow> NoRet)"
    using assms by (auto simp: fill_log_field_resource_def resource_ok_def not_le Let_def split: outc.split option.split)
  show "fill_log_field_resource ni f d = Ok None \<and> snd d \<le> int (length (log_member ni LOG_FIELD_RESOURCE f)) \<or>
      fill_log_field_resource ni f d = Ok (Some (strbuf_update_offset d (log_member ni LOG_FIELD_RESOURCE f))) \<and>
      int (length (log_member ni LOG_FIELD_RESOURCE f)) \<le> snd d"
  proof (cases "fill_log_field_simple f ''Resource'' False d = Ok None")
    case True
    then have "snd d \<le> int (length ?m)" using writesD [OF writes_simple d, of f "''Resource''" False] by auto
    then show ?thesis unfolding t run True using le(1) by simp
  next
    case False
    then have s: "fill_log_field_simple f ''Resource'' False d = Ok (Some (strbuf_update_offset d ?m))" "int (length ?m) \<le> snd d"
      using writesD [OF writes_simple d, of f "''Resource''" False] by blast+
    then have "0 \<le> snd (strbuf_update_offset d (butlast ?m))" using le(2) unfolding offset_size by linarith
    then show ?thesis unfolding t run s(1) outc.case option.case cut
      using writesD [OF w] by (fastforce simp: offset_size offset_append)
  qed
qed

lemma field_total:
  assumes "i < LOG_FIELD_MAX"
  shows "(if i = LOG_FIELD_RESOURCE then resource_ok f else True) \<Longrightarrow> writes (fill_log_field ni f i) (log_member ni i f)"
    "i = LOG_FIELD_RESOURCE \<Longrightarrow> \<not> resource_ok f \<Longrightarrow> fails (fill_log_field ni f i)"
proof -
  have "fill_log_field ni f i = (if i = LOG_FIELD_RESOURCE then fill_log_field_resource ni f
      else fill_log_field_simple f (gLogField ! i) False)"
    using assms by (auto simp: fill_log_field_def)
  then show "(if i = LOG_FIELD_RESOURCE then resource_ok f else True) \<Longrightarrow> writes (fill_log_field ni f i) (log_member ni i f)"
    "i = LOG_FIELD_RESOURCE \<Longrightarrow> \<not> resource_ok f \<Longrightarrow> fails (fill_log_field ni f i)"
    using writes_resource [of f ni] writes_simple [of f "gLogField ! i" False]
    by (auto simp: log_member_def fails_def fill_log_field_resource_def resource_ok_def not_le split: if_splits)
qed

lemma fill_all_steps: "fill_all [f] = f"
  "fill_all (f # g # fs) = andthen f (andthen (\<lambda>d. strbuf_append_chr_with_check d (CHR '','')) (fill_all (g # fs)))"
  by (rule ext, simp)+

lemma writes_all: "list_all2 writes fs ts \<Longrightarrow> writes (fill_all fs) (joinc ts)"
proof (induction ts arbitrary: fs rule: joinc.induct)
  case 1
  then show ?case using writes_skip by (simp add: writes_def)
next
  case (2 t)
  then show ?case by (auto simp: list_all2_Cons2 fill_all_steps)
next
  case (3 t u ts)
  then obtain f g gs where "fs = f # g # gs" "writes f t" "writes (fill_all (g # gs)) (joinc (u # ts))"
    by (auto simp: list_all2_Cons2)
  then show ?case using writes_andthen [OF _ writes_andthen [OF writes_chr], of f t "fill_all (g # gs)" "joinc (u # ts)" "CHR '',''"]
    by (simp add: fill_all_steps)
qed

lemma fails_all: "list_all2 writes fs ts \<Longrightarrow> fails g \<Longrightarrow> fails (fill_all (fs @ g # gs))"
proof (induction fs arbitrary: ts)
  case Nil
  then show ?case by (cases gs) (simp_all add: fill_all_steps fails_first del: fill_all.simps)
next
  case (Cons f fs)
  obtain h hs where h: "fs @ g # gs = h # hs" by (cases fs) auto
  then show ?case using Cons by (auto simp: list_all2_Cons1 fill_all_steps simp del: fill_all.simps intro!: fails_second writes_chr)
qed

section \<open>Log lines\<close>

lemma take_fields_length: "take_fields n b = Some fs \<Longrightarrow> length fs = n"
  by (induction n arbitrary: b fs) (auto split: option.splits)

lemma next_field_set: "next_field b = Some (f, b') \<Longrightarrow> set f \<subseteq> set b \<and> set b' \<subseteq> set b"
  by (cases b) (auto simp: next_field_def Let_def split: if_splits dest: set_takeWhileD set_dropWhileD)

lemma take_fields_set: "take_fields n b = Some fs \<Longrightarrow> f \<in> set fs \<Longrightarrow> set f \<subseteq> set b"
proof (induction n arbitrary: b fs)
  case (Suc n)
  obtain g b' gs where g: "next_field b = Some (g, b')" "take_fields n b' = Some gs" "fs = g # gs"
    using Suc.prems(1) by (auto split: option.splits)
  then show ?case using Suc.prems(2) Suc.IH [OF g(2)] next_field_set [OF g(1)] by auto
qed simp

lemma log_fields_step: "next_field b = Some (f, b') \<Longrightarrow> log_fields ni (i # js) b = andthen (fill_log_field ni f i)
    (andthen (\<lambda>d. if i \<noteq> LOG_FIELD_MAX - 1 then strbuf_append_chr_with_check d (CHR '','') else Ok (Some d)) (log_fields ni js b'))"
  by (intro ext) simp

lemma log_fields_some:
  "take_fields (length is) b = Some fs \<Longrightarrow> is = [k..<LOG_FIELD_MAX] \<Longrightarrow> k < LOG_FIELD_MAX \<Longrightarrow>
   log_fields ni is b = fill_all (map2 (\<lambda>i f. fill_log_field ni f i) is fs)"
proof (induction "is" arbitrary: k b fs)
  case Nil
  then have "[k..<LOG_FIELD_MAX] = []" by simp
  then show ?case using Nil(3) by (simp add: upt_eq_Nil_conv)
next
  case (Cons i js)
  obtain f b' gs where f: "next_field b = Some (f, b')" "take_fields (length js) b' = Some gs" "fs = f # gs"
    using Cons.prems(1) by (auto split: option.splits)
  have i: "i = k" "js = [Suc k..<LOG_FIELD_MAX]" using Cons.prems(2,3) by (simp_all add: upt_conv_Cons)
  show ?case
  proof (cases "Suc k < LOG_FIELD_MAX")
    case True
    then obtain j ks where j: "js = j # ks" by (cases js) (simp_all add: i)
    obtain g hs where g: "gs = g # hs" using take_fields_length [OF f(2)] j by (cases gs) auto
    have "log_fields ni js b' = fill_all (map2 (\<lambda>i f. fill_log_field ni f i) js gs)" using Cons.IH f(2) i(2) True by blast
    moreover have "i \<noteq> LOG_FIELD_MAX - 1" using True i(1) by simp
    ultimately show ?thesis using f(3) unfolding log_fields_step [OF f(1)] by (simp add: j g fill_all_steps del: fill_all.simps log_fields.simps)
  next
    case False
    then have "js = []" "gs = []" using i take_fields_length [OF f(2)] by auto
    then show ?thesis using False Cons.prems(3) f i
      by (intro ext) (auto simp: LOG_FIELD_MAX_def fill_all_steps andthen_def bnd_def split: outc.split option.split)
  qed
qed

lemma log_fields_none:
  "take_fields (length is) b = None \<Longrightarrow> set is \<subseteq> {0..<LOG_FIELD_MAX} \<Longrightarrow> fails (log_fields ni is b)"
proof (induction "is" arbitrary: b)
  case (Cons i js)
  show ?case
  proof (cases "next_field b")
    case None
    then show ?thesis by (simp add: fails_def)
  next
    case (Some x)
    obtain f b' where x: "x = (f, b')" by (cases x)
    have rest: "fails (log_fields ni js b')" using Cons Some x by (auto split: option.splits)
    have "writes (\<lambda>d. if i \<noteq> LOG_FIELD_MAX - 1 then strbuf_append_chr_with_check d (CHR '','') else Ok (Some d))
        (if i \<noteq> LOG_FIELD_MAX - 1 then '','' else [])"
      using writes_chr writes_skip by simp
    then have tail: "fails (andthen (\<lambda>d. if i \<noteq> LOG_FIELD_MAX - 1 then strbuf_append_chr_with_check d (CHR '','') else Ok (Some d)) (log_fields ni js b'))"
      by (rule fails_second [OF _ rest])
    have i: "i < LOG_FIELD_MAX" using Cons.prems(2) by simp
    have "fails (fill_log_field ni f i) \<or> writes (fill_log_field ni f i) (log_member ni i f)"
      using field_total [OF i, of f ni] by (cases "i = LOG_FIELD_RESOURCE"; cases "resource_ok f") simp_all
    then show ?thesis unfolding log_fields_step [OF Some [unfolded x]]
      using fails_first fails_second [OF _ tail] by blast
  qed
qed simp

text \<open>The end of both conversions: the closing brace with the terminator.\<close>

lemma finish_object:
  assumes "writes f t" "CHR 0x00 \<notin> set t"
  shows "bnd (andthen f (\<lambda>d. strbuf_append_str_with_check d (''}'' @ [CHR 0x00])) ([], int n)) (\<lambda>r. Ok (map_option (\<lambda>d. chars (fst d)) r)) =
     Ok (if length (t @ ''}'') < n then Some (t @ ''}'') else None)"
proof -
  have "chars (t @ ''}'' @ [CHR 0x00]) = t @ ''}''" using assms(2) by (subst chars_def, subst takeWhile_append2) auto
  then show ?thesis using writesD [OF assms(1), of "([], int n)"]
    by (auto simp: andthen_def strbuf_append_str_with_check_def strbuf_append_str_def strbuf_update_offset_def)
qed

lemma finish_fails:
  assumes "fails f"
  shows "bnd (andthen f g ([], int n)) h = bnd (Ok None) h"
  using assms by (simp add: fails_def andthen_def)

lemma andthen_assoc: "andthen f (andthen g h) = andthen (andthen f g) h"
  by (intro ext) (auto simp: andthen_def bnd_def split: outc.splits option.splits)

lemma joinc_set: "set (joinc ts) \<subseteq> {CHR '',''} \<union> (\<Union>t \<in> set ts. set t)"
  by (induction ts rule: joinc.induct) auto

lemma no_nul_append [simp]: "no_nul (s @ t) \<longleftrightarrow> no_nul s \<and> no_nul t"
  by (simp add: no_nul_def)

lemma no_nul_Cons [simp]: "no_nul (c # t) \<longleftrightarrow> c \<noteq> CHR 0x00 \<and> no_nul t"
  by (auto simp: no_nul_def)

lemma no_nul_Nil [simp]: "no_nul []"
  by (simp add: no_nul_def)

lemma no_nul_joinc: "(\<forall>t \<in> set ts. no_nul t) \<Longrightarrow> no_nul (joinc ts)"
  by (induction ts rule: joinc.induct) auto

lemma no_nul_butlast: "no_nul s \<Longrightarrow> no_nul (butlast s)"
  by (auto simp: no_nul_def dest: in_set_butlastD)

lemma no_nul_member: "no_nul name \<Longrightarrow> no_nul val \<Longrightarrow> no_nul (json_member name val q)"
  by (simp add: json_member_def)

lemma log_names: "i < LOG_FIELD_MAX \<Longrightarrow> no_nul (gLogField ! i)"
proof -
  have "list_all no_nul gLogField" by (simp add: gLogField_def)
  moreover assume "i < LOG_FIELD_MAX"
  ultimately show ?thesis by (simp add: list_all_length gLogField_def LOG_FIELD_MAX_def)
qed

lemma no_nul_fields: "take_fields n b = Some fs \<Longrightarrow> no_nul b \<Longrightarrow> f \<in> set fs \<Longrightarrow> no_nul f"
  using take_fields_set unfolding no_nul_def by blast

lemma log_members_fit:
  assumes "take_fields LOG_FIELD_MAX b = Some fs" "resource_ok (fs ! LOG_FIELD_RESOURCE)"
  shows "list_all2 writes (map2 (\<lambda>i f. fill_log_field ni f i) [0..<LOG_FIELD_MAX] fs) (map2 (log_member ni) [0..<LOG_FIELD_MAX] fs)"
  using assms(2) take_fields_length [OF assms(1)] field_total(1)
  by (auto simp: list_all2_conv_all_nth)

lemma log_members_refused:
  assumes "take_fields LOG_FIELD_MAX b = Some fs" "\<not> resource_ok (fs ! LOG_FIELD_RESOURCE)"
  shows "fails (fill_all (map2 (\<lambda>i f. fill_log_field ni f i) [0..<LOG_FIELD_MAX] fs))"
proof -
  let ?ws = "map2 (\<lambda>i f. fill_log_field ni f i) [0..<LOG_FIELD_MAX] fs"
  have len: "length fs = LOG_FIELD_MAX" using take_fields_length [OF assms(1)] .
  have three: "LOG_FIELD_RESOURCE < LOG_FIELD_MAX" by (simp add: LOG_FIELD_MAX_def LOG_FIELD_RESOURCE_def)
  have ws: "?ws = take LOG_FIELD_RESOURCE ?ws @ ?ws ! LOG_FIELD_RESOURCE # drop (Suc LOG_FIELD_RESOURCE) ?ws"
    using id_take_nth_drop [of LOG_FIELD_RESOURCE ?ws] len three by simp
  have "list_all2 writes (take LOG_FIELD_RESOURCE ?ws) (take LOG_FIELD_RESOURCE (map2 (log_member ni) [0..<LOG_FIELD_MAX] fs))"
  proof (rule list_all2_all_nthI)
    fix j assume "j < length (take LOG_FIELD_RESOURCE ?ws)"
    then have "j < LOG_FIELD_RESOURCE" "j < LOG_FIELD_MAX" using three by simp_all
    then show "writes (take LOG_FIELD_RESOURCE ?ws ! j) (take LOG_FIELD_RESOURCE (map2 (log_member ni) [0..<LOG_FIELD_MAX] fs) ! j)"
      using field_total(1) [of j "fs ! j" ni] len by simp
  qed simp
  moreover have "fails (?ws ! LOG_FIELD_RESOURCE)"
    using field_total(2) [OF three, of "fs ! LOG_FIELD_RESOURCE" ni] assms(2) len three by simp
  ultimately show ?thesis by (subst ws) (rule fails_all)
qed

text \<open>C22. The conversion of a log line never writes past its buffer and is the JSON object of the
  line's six fields, in order, with the host added to the resource; it fails exactly when the line has
  fewer than six fields, its resource is not in braces, or the object does not fit.\<close>

theorem log_json_exact:
  assumes "no_nul logData" "node_ok ni"
  shows "LogData2Json ni logData n =
     Ok (case log_object ni logData of None \<Rightarrow> None | Some t \<Rightarrow> if length t < n then Some t else None)"
proof (cases "logData = [] \<or> hd logData \<noteq> CHR ''|''")
  case True
  then show ?thesis by (auto simp: LogData2Json_def log_object_def)
next
  case False
  let ?open = "\<lambda>d. strbuf_append_chr_with_check d (CHR ''{'')"
  let ?lf = "log_fields ni [0..<LOG_FIELD_MAX] logData"
  have run: "LogData2Json ni logData n = bnd (andthen (andthen ?open ?lf) (\<lambda>d. strbuf_append_str_with_check d (''}'' @ [CHR 0x00]))
      ([], int n)) (\<lambda>r. Ok (map_option (\<lambda>d. chars (fst d)) r))"
    using False by (simp add: LogData2Json_def andthen_assoc)
  have refused: "fails ?lf \<Longrightarrow> LogData2Json ni logData n = Ok None"
    unfolding run by (subst finish_fails) (simp_all add: fails_second [OF writes_chr])
  show ?thesis
  proof (cases "take_fields LOG_FIELD_MAX logData")
    case None
    then show ?thesis using refused log_fields_none [of "[0..<LOG_FIELD_MAX]" logData ni] False by (simp add: log_object_def)
  next
    case (Some fs)
    have lf: "?lf = fill_all (map2 (\<lambda>i f. fill_log_field ni f i) [0..<LOG_FIELD_MAX] fs)"
      by (rule log_fields_some) (simp_all add: Some LOG_FIELD_MAX_def [symmetric], simp add: LOG_FIELD_MAX_def)
    show ?thesis
    proof (cases "resource_ok (fs ! LOG_FIELD_RESOURCE)")
      case True
      let ?t = "''{'' @ joinc (map2 (log_member ni) [0..<LOG_FIELD_MAX] fs)"
      have "writes (andthen ?open ?lf) ?t"
        unfolding lf by (intro writes_andthen writes_chr writes_all log_members_fit [OF Some True])
      moreover have "no_nul (log_member ni i f)" if "i < LOG_FIELD_MAX" "f \<in> set fs" for i f
        using that no_nul_fields [OF Some assms(1)] assms(2) log_names
        by (simp add: log_member_def host_text_def node_ok_def no_nul_member no_nul_butlast)
      then have "no_nul ?t" by (auto intro!: no_nul_joinc elim!: in_set_zipE)
      ultimately show ?thesis unfolding run
        using finish_object [of _ ?t n] Some True False by (simp add: no_nul_def log_object_def)
    next
      case 2: False
      then show ?thesis using refused log_members_refused [OF Some] False by (simp add: lf log_object_def Some)
    qed
  qed
qed

theorem log_json_exact_witness:
  "LogData2Json demo_node ''|17|INFO|9|{\"pid\":3}|{}|hello|'' 8192 =
     Ok (Some ''{\"Timestamp\":17,\"SeverityText\":INFO,\"SeverityNumber\":9,\"Resource\":{\"pid\":3,\"host.id\":\"u1\",\"host.name\":\"\"},\"Attributes\":{},\"Body\":hello}'')"
proof -
  have a: "no_nul ''|17|INFO|9|{\"pid\":3}|{}|hello|''" "node_ok demo_node" by (simp_all add: node_ok_def demo_node_def)
  have o: "log_object demo_node ''|17|INFO|9|{\"pid\":3}|{}|hello|'' =
      Some ''{\"Timestamp\":17,\"SeverityText\":INFO,\"SeverityNumber\":9,\"Resource\":{\"pid\":3,\"host.id\":\"u1\",\"host.name\":\"\"},\"Attributes\":{},\"Body\":hello}''"
    by code_simp
  show ?thesis using log_json_exact [OF a, of 8192] unfolding o by simp
qed

section \<open>Event lines\<close>

lemma chars_nul: "no_nul s \<Longrightarrow> chars (s @ [CHR 0x00]) = s"
  by (subst chars_def, subst takeWhile_append2) (auto simp: no_nul_def)

lemma length_transfer [simp]: "length (transfer_entityId s) = length s"
  by (simp add: transfer_entityId_def)

lemma no_nul_transfer: "no_nul s \<Longrightarrow> no_nul (transfer_entityId s)"
  by (auto simp: no_nul_def transfer_entityId_def)

lemma transfer_append: "transfer_entityId (s @ t) = transfer_entityId s @ transfer_entityId t"
  by (simp add: transfer_entityId_def)

lemma entity_id:
  assumes "no_nul u" "no_nul a" "no_nul b"
  shows "get_entityId sz u a b = Ok (if length (u @ ''_'' @ a @ ''_'' @ transfer_entityId b) < sz
     then Some (u @ ''_'' @ a @ ''_'' @ transfer_entityId b) else None)"
proof -
  have "chars ((u @ ''_'' @ a @ ''_'' @ transfer_entityId b) @ [CHR 0x00]) = u @ ''_'' @ a @ ''_'' @ transfer_entityId b"
    by (rule chars_nul) (simp add: assms no_nul_transfer)
  moreover have "transfer_entityId [CHR 0x00] = [CHR 0x00]" by (simp add: transfer_entityId_def)
  ultimately show ?thesis
    by (auto simp: get_entityId_def strbuf_append_str_def strbuf_append_chr_def strbuf_update_offset_def transfer_append)
qed

lemma event_id:
  assumes "no_nul (show_lld ts @ ''_'' @ e)"
  shows "get_eventId sz ts e = Ok (if length (show_lld ts @ ''_'' @ e) < sz then Some (show_lld ts @ ''_'' @ e) else None)"
  using chars_nul [OF assms]
  by (auto simp: get_eventId_def strbuf_printf_def strbuf_append_chr_def strbuf_update_offset_def)

lemma metric_id:
  assumes "no_nul a" "no_nul b"
  shows "get_metricId sz a b = Ok (if length (''gala_gopher_'' @ a @ ''_'' @ b) < sz then Some (''gala_gopher_'' @ a @ ''_'' @ b) else None)"
proof -
  have "chars ((''gala_gopher_'' @ a @ ''_'' @ b) @ [CHR 0x00]) = ''gala_gopher_'' @ a @ ''_'' @ b"
    by (rule chars_nul) (simp add: assms)
  then show ?thesis
    by (auto simp: get_metricId_def strbuf_append_str_def strbuf_append_chr_def strbuf_update_offset_def)
qed

lemma no_nul_digit: "char_of (48 + n mod 10 :: nat) \<noteq> CHR 0x00"
proof
  assume "char_of (48 + n mod 10 :: nat) = CHR 0x00"
  then have "(of_char (char_of (48 + n mod 10 :: nat)) :: nat) = of_char (CHR 0x00)" by simp
  then have "(48 + n mod 10) mod 256 = (0 :: nat)" by simp
  moreover have "48 + n mod 10 < (256 :: nat)" by simp
  ultimately show False by simp
qed

lemma no_nul_digits: "no_nul (digits fuel n)"
proof (induction fuel n rule: digits.induct)
  case (2 fuel n)
  moreover have "n < 10 \<Longrightarrow> char_of (48 + n) \<noteq> CHR 0x00" using no_nul_digit [of n] by simp
  ultimately show ?case using no_nul_digit [of n] by auto
qed simp

lemma no_nul_lld: "no_nul (show_lld i)"
  by (simp add: show_lld_def no_nul_digits)

lemma writes_labels: "writes (fill_labels fs ls) (concat (map (\<lambda>(i, name). '','' @ json_member name (fs ! i) True) ls))"
proof (induction ls)
  case Nil
  then show ?case using writes_skip by (simp add: writes_def)
next
  case (Cons l ls)
  obtain i name where l: "l = (i, name)" by (cases l)
  have "fill_labels fs (l # ls) = andthen (\<lambda>d. strbuf_append_chr_with_check d (CHR '',''))
       (andthen (fill_log_field_simple (fs ! i) name True) (fill_labels fs ls))" by (intro ext) (simp add: l)
  moreover have "writes \<dots> ('','' @ json_member name (fs ! i) True @ concat (map (\<lambda>(i, name). '','' @ json_member name (fs ! i) True) ls))"
    by (intro writes_andthen writes_chr writes_simple Cons.IH)
  ultimately show ?case by (simp add: l)
qed

lemma writes_label_object: "writes (fill_evt_field_labels ni fs) (labels_text ni fs)"
  unfolding fill_evt_field_labels_def labels_text_def Let_def
  by (intro writes_andthen writes_str writes_simple writes_labels writes_chr)

lemma writes_event_resource:
  "writes (fill_evt_field_resource ni m fs) (''\"Resource\":{\"metric\":\"'' @ m @ ''\",'' @ labels_text ni fs @ ''}'')"
proof -
  have "writes (fill_evt_field_resource ni m fs) ((''\"Resource\":{\"metric\":\"'' @ m @ ''\",'') @ labels_text ni fs @ ''}'')"
    unfolding fill_evt_field_resource_def by (intro writes_andthen writes_printf writes_label_object writes_chr)
  then show ?thesis by simp
qed

lemma no_nul_nth: "take_fields n b = Some fs \<Longrightarrow> no_nul b \<Longrightarrow> i < n \<Longrightarrow> no_nul (fs ! i)"
  using no_nul_fields take_fields_length nth_mem by metis

lemma no_nul_take: "no_nul s \<Longrightarrow> no_nul (take k s)"
  by (auto simp: no_nul_def dest: in_set_takeD)

lemma no_nul_labels:
  assumes "node_ok ni" "\<And>i. i < EVT_ORIG_FIELD_MAX \<Longrightarrow> no_nul (fs ! i)"
  shows "no_nul (labels_text ni fs)"
  using assms by (simp add: labels_text_def labelNames_def no_nul_member node_ok_def snprintf_s_def no_nul_take EVT_ORIG_FIELD_MAX_def)

lemma event_writers:
  "list_all2 writes [fill_evt_field_timestamp (get_curr_timestamp_ms env), fill_evt_field_eventId (event_id_text ni env fs),
      fill_evt_field_attrs (entity_id_text ni fs) (event_id_text ni env fs), fill_evt_field_resource ni (metric_id_text fs) fs,
      fill_log_field_simple (fs ! 9) ''SeverityText'' True, fill_log_field_simple (fs ! 10) ''SeverityNumber'' False,
      fill_log_field_simple (fs ! 11) ''Body'' True] (event_members ni env fs)"
proof -
  have "writes (fill_evt_field_attrs e i) (attrs_text e i)" for e i
    using writes_printf [of "attrs_text e i"] by (simp add: writes_def fill_evt_field_attrs_def)
  then show ?thesis
    unfolding event_members_def fill_evt_field_timestamp_def fill_evt_field_eventId_def
    by (simp only: list_all2_Cons list_all2_Nil writes_simple writes_event_resource simp_thms)
qed

lemma no_nul_event:
  assumes "node_ok ni" "\<And>i. i < EVT_ORIG_FIELD_MAX \<Longrightarrow> no_nul (fs ! i)"
  shows "no_nul (joinc (event_members ni env fs))" "no_nul (entity_id_text ni fs)" "no_nul (event_id_text ni env fs)"
proof -
  have fs: "no_nul (fs ! 0)" "no_nul (fs ! 1)" "no_nul (fs ! 2)" "no_nul (fs ! 9)" "no_nul (fs ! 10)" "no_nul (fs ! 11)"
    using assms(2) by (simp_all add: EVT_ORIG_FIELD_MAX_def)
  show e: "no_nul (entity_id_text ni fs)" using assms(1) fs by (simp add: entity_id_text_def node_ok_def no_nul_transfer)
  then show i: "no_nul (event_id_text ni env fs)" by (simp add: event_id_text_def no_nul_lld)
  have "no_nul (metric_id_text fs)" using fs by (simp add: metric_id_text_def)
  then have "\<forall>t \<in> set (event_members ni env fs). no_nul t"
    using e i fs no_nul_labels [OF assms]
    by (simp add: event_members_def no_nul_member snprintf_s_def no_nul_take no_nul_lld attrs_text_def)
  then show "no_nul (joinc (event_members ni env fs))" by (rule no_nul_joinc)
qed

lemma event_json_run:
  assumes "no_nul evtData" "node_ok ni"
  shows "EventData2Json ni env evtData n =
     Ok (case event_object ni env evtData of None \<Rightarrow> None | Some t \<Rightarrow> if length t < n then Some t else None)"
proof (cases "get_event_fields EVT_ORIG_FIELD_MAX evtData")
  case None
  then show ?thesis by (simp add: EventData2Json_def event_object_def)
next
  case (Some fs)
  then have "take_fields EVT_ORIG_FIELD_MAX evtData = Some fs"
    by (auto simp: get_event_fields_def split: if_splits option.splits)
  then have fs: "\<And>i. i < EVT_ORIG_FIELD_MAX \<Longrightarrow> no_nul (fs ! i)" using no_nul_nth assms(1) by blast
  note nn = no_nul_event [OF assms(2) fs]
  have "no_nul (fs ! 0)" "no_nul (fs ! 1)" "no_nul (fs ! 2)" using fs by (simp_all add: EVT_ORIG_FIELD_MAX_def)
  then have ids: "get_entityId ENTITY_ID_LEN (ni_uuid ni) (fs ! 0) (fs ! 1) =
      Ok (if length (entity_id_text ni fs) < ENTITY_ID_LEN then Some (entity_id_text ni fs) else None)"
    "get_eventId EVENT_ID_LEN (get_curr_timestamp_ms env) (entity_id_text ni fs) =
      Ok (if length (event_id_text ni env fs) < EVENT_ID_LEN then Some (event_id_text ni env fs) else None)"
    "get_metricId METRIC_ID_LEN (fs ! 0) (fs ! 2) =
      Ok (if length (metric_id_text fs) < METRIC_ID_LEN then Some (metric_id_text fs) else None)"
    using entity_id [of "ni_uuid ni" "fs ! 0" "fs ! 1"] event_id nn(3) metric_id assms(2)
    unfolding entity_id_text_def event_id_text_def metric_id_text_def node_ok_def by simp_all
  let ?fill = "fill_all [fill_evt_field_timestamp (get_curr_timestamp_ms env), fill_evt_field_eventId (event_id_text ni env fs),
      fill_evt_field_attrs (entity_id_text ni fs) (event_id_text ni env fs), fill_evt_field_resource ni (metric_id_text fs) fs,
      fill_log_field_simple (fs ! 9) ''SeverityText'' True, fill_log_field_simple (fs ! 10) ''SeverityNumber'' False,
      fill_log_field_simple (fs ! 11) ''Body'' True]"
  let ?t = "''{'' @ joinc (event_members ni env fs)"
  have "writes (andthen (\<lambda>d. strbuf_append_chr_with_check d (CHR ''{'')) ?fill) ?t"
    by (intro writes_andthen writes_chr writes_all event_writers)
  from finish_object [OF this, of n] nn(1)
  have f: "bnd (andthen (\<lambda>d. strbuf_append_chr_with_check d (CHR ''{'')) (andthen ?fill (\<lambda>d. strbuf_append_str_with_check d (''}'' @ [CHR 0x00]))) ([], int n))
      (\<lambda>r. Ok (map_option (\<lambda>d. chars (fst d)) r)) = Ok (if length (?t @ ''}'') < n then Some (?t @ ''}'') else None)"
    unfolding andthen_assoc by (simp add: no_nul_def)
  show ?thesis
    unfolding EventData2Json_def event_object_def Some option.case Let_def ids(1)
    using ids(2,3) f by (simp only: bnd_simps option.case if_True if_False split: if_split) auto
qed

text \<open>C25. The conversion of an event line never writes past any of its four buffers and gives exactly the object \<open>event_object\<close>, the one that the code writes from the line's
  twelve fields and the host, entity, event and metric names; it fails exactly
  when one of the first three fields is empty, a field is missing, one of the names is too long for its
  array, or the object does not fit. (The document \<open>api_doc.md\<close> describes another object: its resource has a key ''metrics'', every punctuation character of an id is
  replaced and an entity id has 1 to 254 characters; the code names the key ''metric'', replaces the slash alone and has its own lengths.)\<close>

theorem event_json_exact:
  assumes "no_nul evtData" "node_ok ni"
  shows "EventData2Json ni env evtData n =
     Ok (case event_object ni env evtData of None \<Rightarrow> None | Some t \<Rightarrow> if length t < n then Some t else None)"
  by (rule event_json_run [OF assms])

lemma length_lld: "length (show_lld i) \<le> 21"
proof -
  have "length (digits k n) \<le> k" for k n by (induction k n rule: digits.induct) auto
  then have "length (digits 20 n) \<le> 20" for n by blast
  then show ?thesis by (simp add: show_lld_def le_SucI order_trans [OF _ le_SucI, of _ 20 20, simplified])
qed

theorem event_json_exact_witness:
  "EventData2Json demo_node demo_env ''|tcp_link|/a|rx|7|sh|ip|||eth0|WARN|13|slow|'' 8192 =
     Ok (Some (''{'' @ joinc (event_members demo_node demo_env demo_event) @ ''}''))"
proof -
  have a: "no_nul ''|tcp_link|/a|rx|7|sh|ip|||eth0|WARN|13|slow|''" "node_ok demo_node" by (simp_all add: node_ok_def demo_node_def)
  have f: "get_event_fields EVT_ORIG_FIELD_MAX ''|tcp_link|/a|rx|7|sh|ip|||eth0|WARN|13|slow|'' = Some demo_event" by code_simp
  note len = length_lld [of "get_curr_timestamp_ms demo_env"]
  have ids: "length (entity_id_text demo_node demo_event) < ENTITY_ID_LEN" "length (event_id_text demo_node demo_env demo_event) < EVENT_ID_LEN"
    "length (metric_id_text demo_event) < METRIC_ID_LEN"
    using len by (simp_all add: entity_id_text_def event_id_text_def metric_id_text_def demo_node_def demo_event_def
        ENTITY_ID_LEN_def EVENT_ID_LEN_def METRIC_ID_LEN_def)
  have l: "length (''{'' @ joinc (event_members demo_node demo_env demo_event) @ ''}'') < 8192"
    using len by (simp add: event_members_def json_member_def attrs_text_def labels_text_def labelNames_def snprintf_s_def
        entity_id_text_def event_id_text_def metric_id_text_def demo_node_def demo_event_def)
  show ?thesis using event_json_exact [OF a, of demo_env 8192] l ids by (simp add: event_object_def f)
qed

end
