(* ===== verification/Event_Report.thy ===== *)
theory Event_Report
  imports Event2json Uthash Libconfig
begin

text \<open>
  The events that the probes report, \<open>common/event.c\<close> and \<open>common/event_config.c\<close>: the texts of the configuration, the throttling of repeated events, and the line
  on standard output, which the daemon reads back.
\<close>

section \<open>The texts of the events\<close>

definition MAX_EVENT_NUM :: nat where "MAX_EVENT_NUM = 512"
definition MAX_ENTITY_NAME_LEN :: nat where "MAX_ENTITY_NAME_LEN = 128"
definition MAX_METRIC_NAME_LEN :: nat where "MAX_METRIC_NAME_LEN = 64"
definition MAX_EVT_BODY_LEN :: nat where "MAX_EVT_BODY_LEN = 512"
definition MAX_EVT_GRP_NAME_LEN :: nat where "MAX_EVT_GRP_NAME_LEN = 64"
definition MAX_EVT_NUM :: nat where "MAX_EVT_NUM = 1000"

record jsonfieldsConfig =
  jf_metric :: string
  jf_desc :: string

text \<open>The numbers of events and of fields are the lengths of the lists.\<close>

record eventConfig =
  ec_entity_name :: string
  ec_json_fields :: "jsonfieldsConfig list"

record EventsConfig =
  ec_events :: "eventConfig list"

definition field_load :: "'c libconfig \<Rightarrow> 'c \<Rightarrow> int \<times> jsonfieldsConfig" where
  "field_load lc c =
     (case config_setting_lookup_string lc c ''metric'' of
        None \<Rightarrow> (- 1, \<lparr>jf_metric = [], jf_desc = []\<rparr>)
      | Some m \<Rightarrow>
          (case config_setting_lookup_string lc c ''description'' of
             None \<Rightarrow> (- 1, \<lparr>jf_metric = take (MAX_METRIC_NAME_LEN - 1) m, jf_desc = []\<rparr>)
           | Some d \<Rightarrow> (0, \<lparr>jf_metric = take (MAX_METRIC_NAME_LEN - 1) m, jf_desc = take (MAX_EVT_BODY_LEN - 1) d\<rparr>)))"

text \<open>A field that cannot be loaded is counted as well.\<close>

definition event_config_load :: "'c libconfig \<Rightarrow> 'c \<Rightarrow> eventConfig option outc" where
  "event_config_load lc c =
     (case config_setting_lookup_string lc c ''entity_name'' of
        None \<Rightarrow> Ok None
      | Some entity \<Rightarrow>
          let fields = config_setting_lookup lc c ''fields'' in
          bnd (config_setting_length lc fields) (\<lambda>n.
            if n > MAX_EVENT_NUM then Ok None
            else Ok (Some \<lparr>ec_entity_name = snprintf_s MAX_ENTITY_NAME_LEN entity,
                           ec_json_fields = map (\<lambda>i. snd (field_load lc (config_setting_get_elem lc fields i))) [0..<n]\<rparr>)))"

definition event_config_add :: "EventsConfig \<Rightarrow> eventConfig \<Rightarrow> EventsConfig option" where
  "event_config_add conf evt =
     (if length (ec_events conf) \<ge> MAX_EVENT_NUM then None else Some (conf\<lparr>ec_events := ec_events conf @ [evt]\<rparr>))"

text \<open>\<open>alloc i\<close>: memory for event \<open>i\<close> is available.\<close>

fun load_events :: "'c libconfig \<Rightarrow> (nat \<Rightarrow> bool) \<Rightarrow> 'c option \<Rightarrow> nat list \<Rightarrow> EventsConfig \<Rightarrow> EventsConfig option outc" where
  "load_events lc alloc settings [] conf = Ok (Some conf)"
| "load_events lc alloc settings (i # is) conf =
     (if \<not> alloc i then Ok None
      else bnd (event_config_load lc (config_setting_get_elem lc settings i)) (\<lambda>r. case r of None \<Rightarrow> Ok None
        | Some evt \<Rightarrow> (case event_config_add conf evt of None \<Rightarrow> Ok None | Some conf \<Rightarrow> load_events lc alloc settings is conf)))"

definition events_config_load :: "'c libconfig \<Rightarrow> (nat \<Rightarrow> bool) \<Rightarrow> EventsConfig \<Rightarrow> string \<Rightarrow> string \<Rightarrow> EventsConfig option outc" where
  "events_config_load lc alloc conf path grp =
     (case config_read_file lc path of None \<Rightarrow> Ok None
      | Some cfg \<Rightarrow> (case config_lookup lc cfg grp of None \<Rightarrow> Ok None
        | Some settings \<Rightarrow> bnd (config_setting_length lc (Some settings)) (\<lambda>n. load_events lc alloc (Some settings) [0..<n] conf)))"

text \<open>The configuration, none when it cannot be loaded; \<open>alloc0\<close> is the memory for the whole.\<close>

definition events_config_init :: "'c libconfig \<Rightarrow> bool \<Rightarrow> bool \<Rightarrow> (nat \<Rightarrow> bool) \<Rightarrow> string \<Rightarrow> EventsConfig option outc" where
  "events_config_init lc accessible alloc0 alloc lang =
     (if \<not> accessible \<or> \<not> alloc0 then Ok None
      else events_config_load lc alloc \<lparr>ec_events = []\<rparr> ''/etc/gala-gopher/res/event_multy_language.rc''
        (snprintf_s (MAX_EVT_GRP_NAME_LEN - 1) (''events_'' @ lang)))"

definition get_event_field :: "EventsConfig \<Rightarrow> string \<Rightarrow> string \<Rightarrow> string \<Rightarrow> int \<times> string" where
  "get_event_field conf entity metric desc_fmt =
     (case find (\<lambda>f. jf_metric f = metric) (concat (map ec_json_fields (filter (\<lambda>e. ec_entity_name e = entity) (ec_events conf)))) of
        None \<Rightarrow> (0, desc_fmt) | Some f \<Rightarrow> (1, snprintf_s MAX_EVT_BODY_LEN (jf_desc f)))"

section \<open>The events reported lately\<close>

text \<open>The times of the last reports by entity, the period, and the configuration of the texts.\<close>

record 'h evt_mgr =
  g_evt_head :: 'h
  g_evt_period :: u32
  g_evt_conf :: "EventsConfig option"
  g_lang_type :: string

definition evt_key :: "string \<Rightarrow> string" where
  "evt_key entityId = snprintf_s MAX_ENTITY_NAME_LEN entityId"

definition hash_find_evt :: "(string, int, 'h) uthash \<Rightarrow> string \<Rightarrow> 'h \<Rightarrow> int option" where
  "hash_find_evt ops entityId h = ut_find ops (evt_key entityId) h"

definition hash_clear_older_evt :: "(string, int, 'h) uthash \<Rightarrow> u32 \<Rightarrow> int \<Rightarrow> 'h \<Rightarrow> 'h" where
  "hash_clear_older_evt ops per cur_time h =
     foldl (\<lambda>h (k, ts). if cur_time - ts \<le> uint per then h else ut_del ops k h) h (ut_iter ops h)"

definition hash_add_evt :: "(string, int, 'h) uthash \<Rightarrow> bool \<Rightarrow> u32 \<Rightarrow> string \<Rightarrow> int \<Rightarrow> 'h \<Rightarrow> 'h" where
  "hash_add_evt ops alloc per entityId cur_time h =
     (let h = (if ut_count ops h \<ge> MAX_EVT_NUM then hash_clear_older_evt ops per cur_time h else h) in
      if \<not> alloc then h else ut_add ops (evt_key entityId) cur_time h)"

definition is_evt_need_report :: "(string, int, 'h) uthash \<Rightarrow> bool \<Rightarrow> u32 \<Rightarrow> string \<Rightarrow> int \<Rightarrow> 'h \<Rightarrow> bool \<times> 'h" where
  "is_evt_need_report ops alloc per entityId cur_time h =
     (case hash_find_evt ops entityId h of
        None \<Rightarrow> (let h = hash_add_evt ops alloc per entityId cur_time h in (hash_find_evt ops entityId h \<noteq> None, h))
      | Some ts \<Rightarrow>
          if cur_time > ts \<and> cur_time - ts \<ge> uint per then (True, ut_write ops (evt_key entityId) cur_time h) else (False, h))"

definition init_event_mgr :: "u32 \<Rightarrow> string option \<Rightarrow> 'h evt_mgr \<Rightarrow> 'h evt_mgr" where
  "init_event_mgr time_out lang_type mgr =
     mgr\<lparr>g_evt_period := time_out, g_lang_type := (case lang_type of None \<Rightarrow> [] | Some l \<Rightarrow> snprintf_s MAX_EVT_GRP_NAME_LEN l)\<rparr>"

section \<open>Reports\<close>

datatype evt_sec_e = EVT_SEC_INFO | EVT_SEC_WARN | EVT_SEC_ERROR | EVT_SEC_FATAL

fun secs :: "evt_sec_e \<Rightarrow> int \<times> string" where
  "secs EVT_SEC_INFO = (9, ''INFO'')"
| "secs EVT_SEC_WARN = (13, ''WARN'')"
| "secs EVT_SEC_ERROR = (17, ''ERROR'')"
| "secs EVT_SEC_FATAL = (21, ''FATAL'')"

record event_info_s =
  entityName :: string
  entityId :: string
  ei_metrics :: string
  ei_dev :: "string option"
  ei_ip :: string
  ei_pid :: int

text \<open>The tables, the memory, the file of the texts, the clock and its text, and /proc.\<close>

record ('h, 'c) evt_env =
  ee_ops :: "(string, int, 'h) uthash"
  ee_alloc :: bool
  ee_libconfig :: "'c libconfig"
  ee_accessible :: bool
  ee_conf_alloc :: bool
  ee_evt_alloc :: "nat \<Rightarrow> bool"
  ee_now :: int
  ee_time_text :: string
  ee_sys :: sys_env

definition replace_desc_fmt :: "('h, 'c) evt_env \<Rightarrow> string \<Rightarrow> string \<Rightarrow> string \<Rightarrow> 'h evt_mgr \<Rightarrow> (string \<times> 'h evt_mgr) outc" where
  "replace_desc_fmt env name metric fmt mgr =
     (let new_fmt = snprintf_s MAX_EVT_BODY_LEN fmt in
      if g_lang_type mgr = [] then Ok (new_fmt, mgr)
      else bnd (case g_evt_conf mgr of Some c \<Rightarrow> Ok (Some c)
                | None \<Rightarrow> events_config_init (ee_libconfig env) (ee_accessible env) (ee_conf_alloc env) (ee_evt_alloc env) (g_lang_type mgr))
        (\<lambda>conf. case conf of None \<Rightarrow> Ok (new_fmt, mgr\<lparr>g_evt_conf := None\<rparr>)
          | Some c \<Rightarrow> Ok (snd (get_event_field c name metric new_fmt), mgr\<lparr>g_evt_conf := Some c\<rparr>)))"

text \<open>\<open>snprintf\<close> behind the text that is in \<open>body\<close>.\<close>

definition add_text :: "string \<Rightarrow> string \<Rightarrow> string" where
  "add_text body t = body @ snprintf_s (MAX_EVT_BODY_LEN - length body) t"

text \<open>The twelve fields of the line, and the line.\<close>

definition event_fields :: "('h, 'c) evt_env \<Rightarrow> event_info_s \<Rightarrow> evt_sec_e \<Rightarrow> string \<Rightarrow> string list" where
  "event_fields env evt sec body =
     (let pid = (if ei_pid evt \<noteq> 0 then show_lld (ei_pid evt) else []);
          cid = (if ei_pid evt \<noteq> 0 then (case env_container (ee_sys env) pid of None \<Rightarrow> [] | Some c \<Rightarrow> c) else []);
          comm = (if ei_pid evt \<noteq> 0 then (case env_comm (ee_sys env) (ei_pid evt) of None \<Rightarrow> [] | Some c \<Rightarrow> c) else []);
          pod = (if cid \<noteq> [] then env_pod (ee_sys env) cid else []) in
      [entityName evt, entityId evt, ei_metrics evt, pid, comm, ei_ip evt, cid, pod,
       (case ei_dev evt of None \<Rightarrow> [] | Some d \<Rightarrow> d), snd (secs sec), show_lld (fst (secs sec)), body])"

definition bar_text :: "string list \<Rightarrow> string" where
  "bar_text fs = concat (map (\<lambda>f. CHR ''|'' # f) fs) @ ''|''"

text \<open>\<open>render fmt\<close> is the text \<open>vsnprintf\<close> makes of the format and the arguments of the caller. No line is printed within the period.\<close>

definition report_logs :: "('h, 'c) evt_env \<Rightarrow> event_info_s \<Rightarrow> evt_sec_e \<Rightarrow> string \<Rightarrow> (string \<Rightarrow> string) \<Rightarrow> 'h evt_mgr \<Rightarrow> (string option \<times> 'h evt_mgr) outc" where
  "report_logs env evt sec fmt render mgr =
     (let (need, h) = (if 0 < g_evt_period mgr then is_evt_need_report (ee_ops env) (ee_alloc env) (g_evt_period mgr) (entityId evt) (ee_now env) (g_evt_head mgr)
                       else (True, g_evt_head mgr));
          mgr = mgr\<lparr>g_evt_head := h\<rparr> in
      if \<not> need then Ok (None, mgr)
      else bnd (replace_desc_fmt env (entityName evt) (ei_metrics evt) fmt mgr) (\<lambda>(fmt2, mgr).
        let body = add_text (add_text (snprintf_s MAX_EVT_BODY_LEN (ee_time_text env)) ('' '' @ snd (secs sec) @ '' Entity('' @ entityId evt @ '') '')) (render fmt2)
        in Ok (Some (''|event'' @ bar_text (event_fields env evt sec body) @ ''\<newline>''), mgr)))"

record otel_log =
  ol_timestamp :: u64
  ol_sec :: evt_sec_e
  ol_resource :: string
  ol_attrs :: string
  ol_body :: string

definition emit_otel_log :: "otel_log \<Rightarrow> string" where
  "emit_otel_log l =
     ''|log'' @ bar_text [show_lld (uint (ol_timestamp l)), CHR 0x22 # snd (secs (ol_sec l)) @ [CHR 0x22], show_lld (fst (secs (ol_sec l))),
       ol_resource l, ol_attrs l, CHR 0x22 # ol_body l @ [CHR 0x22]] @ ''\<newline>''"


section \<open>One report per period\<close>

text \<open>What the table is for: an entity is reported when it was not within the last period.\<close>

fun throttle_spec :: "int \<Rightarrow> (string \<Rightarrow> int option) \<Rightarrow> (string \<times> int) list \<Rightarrow> bool list" where
  "throttle_spec per last_at [] = []"
| "throttle_spec per last_at ((e, t) # calls) =
     (let r = (case last_at (evt_key e) of None \<Rightarrow> True | Some l \<Rightarrow> l < t \<and> per \<le> t - l) in
      r # throttle_spec per (if r then last_at(evt_key e \<mapsto> t) else last_at) calls)"

fun evt_run :: "(string, int, 'h) uthash \<Rightarrow> u32 \<Rightarrow> (string \<times> int) list \<Rightarrow> 'h \<Rightarrow> bool list" where
  "evt_run ops per [] h = []"
| "evt_run ops per ((e, t) # calls) h = (case is_evt_need_report ops True per e t h of (r, h) \<Rightarrow> r # evt_run ops per calls h)"

lemma foldl_del_older:
  assumes "uthash_ok ops" "keyed ops h" "\<forall>(k, v) \<in> set xs. tbl ops h k = Some v" "distinct (map fst xs)"
  shows "keyed ops (foldl (\<lambda>h (k, v). if Q v then h else ut_del ops k h) h xs)
    \<and> tbl ops (foldl (\<lambda>h (k, v). if Q v then h else ut_del ops k h) h xs) = (\<lambda>k. if \<exists>v. (k, v) \<in> set xs \<and> \<not> Q v then None else tbl ops h k)"
  using assms(2-4)
proof (induction xs arbitrary: h)
  case (Cons x xs)
  obtain k v where x: "x = (k, v)" by (cases x)
  show ?case
  proof (cases "Q v")
    case True
    then show ?thesis using Cons.IH [of h] Cons.prems x by (auto simp: fun_eq_iff)
  next
    case False
    have k: "tbl ops h k = Some v" "k \<notin> fst ` set xs" using Cons.prems x by auto
    then have d: "keyed ops (ut_del ops k h)" "tbl ops (ut_del ops k h) = (tbl ops h)(k := None)"
      using keyed_del [OF assms(1) Cons.prems(1), of k] by auto
    have "\<forall>(k', v') \<in> set xs. tbl ops (ut_del ops k h) k' = Some v'" using Cons.prems(2) k(2) x d(2) by force
    from Cons.IH [OF d(1) this] Cons.prems(3) x False d(2) k(2) show ?thesis by (auto simp: fun_eq_iff)
  qed
qed simp

lemma clear_older:
  assumes "uthash_ok ops" "keyed ops h"
  shows "keyed ops (hash_clear_older_evt ops per t h)"
    "tbl ops (hash_clear_older_evt ops per t h) k = (case tbl ops h k of Some ts \<Rightarrow> if t - ts \<le> uint per then Some ts else None | None \<Rightarrow> None)"
proof -
  have i: "\<forall>(k, v) \<in> set (ut_iter ops h). tbl ops h k = Some v" using tbl_iter [OF assms(2)] by auto
  have d: "distinct (map fst (ut_iter ops h))" using assms(2) by (simp add: keyed_def)
  note f = foldl_del_older [OF assms i d, of "\<lambda>ts. t - ts \<le> uint per", folded hash_clear_older_evt_def]
  show "keyed ops (hash_clear_older_evt ops per t h)" using f by blast
  show "tbl ops (hash_clear_older_evt ops per t h) k = (case tbl ops h k of Some ts \<Rightarrow> if t - ts \<le> uint per then Some ts else None | None \<Rightarrow> None)"
    using f tbl_iter [OF assms(2)] by (auto split: option.split)
qed

text \<open>How the table stands for the last reports: what it forgot is older than the period.\<close>

fun stands_for :: "int \<Rightarrow> int \<Rightarrow> int option \<Rightarrow> int option \<Rightarrow> bool" where
  "stands_for per now (Some ts) l \<longleftrightarrow> l = Some ts"
| "stands_for per now None None \<longleftrightarrow> True"
| "stands_for per now None (Some l) \<longleftrightarrow> per < now - l"

definition throttled :: "(string, int, 'h) uthash \<Rightarrow> u32 \<Rightarrow> int \<Rightarrow> (string \<Rightarrow> int option) \<Rightarrow> 'h \<Rightarrow> bool" where
  "throttled ops per now last_at h \<longleftrightarrow> keyed ops h \<and> (\<forall>k. stands_for (uint per) now (tbl ops h k) (last_at k))"

lemma stands_for_later: "stands_for per now x l \<Longrightarrow> now \<le> t \<Longrightarrow> stands_for per t x l"
  by (cases "(per, now, x, l)" rule: stands_for.cases) auto

lemma throttled_later: "throttled ops per now last_at h \<Longrightarrow> now \<le> t \<Longrightarrow> throttled ops per t last_at h"
  unfolding throttled_def by (metis stands_for_later)

lemma throttled_clear:
  assumes "uthash_ok ops" "throttled ops per t last_at h"
  shows "throttled ops per t last_at (hash_clear_older_evt ops per t h)"
proof -
  have h: "keyed ops h" "stands_for (uint per) t (tbl ops h k) (last_at k)" for k using assms(2) by (auto simp: throttled_def)
  have "stands_for (uint per) t (tbl ops (hash_clear_older_evt ops per t h) k) (last_at k)" for k
    using h(2) [of k] clear_older(2) [OF assms(1) h(1)] by (cases "tbl ops h k") auto
  then show ?thesis using clear_older(1) [OF assms(1) h(1)] by (simp add: throttled_def)
qed

lemma throttled_add:
  assumes "uthash_ok ops" "throttled ops per t last_at h" "tbl ops h (evt_key e) = None"
  shows "throttled ops per t (last_at(evt_key e \<mapsto> t)) (hash_add_evt ops True per e t h)"
    "hash_find_evt ops e (hash_add_evt ops True per e t h) = Some t"
proof -
  define h1 where "h1 = (if ut_count ops h \<ge> MAX_EVT_NUM then hash_clear_older_evt ops per t h else h)"
  have 1: "throttled ops per t last_at h1" using assms(1,2) by (simp add: h1_def throttled_clear)
  then have k: "keyed ops h1" by (simp add: throttled_def)
  have n: "tbl ops h1 (evt_key e) = None" using clear_older(2) [OF assms(1)] assms(2,3) by (simp add: h1_def throttled_def)
  note add = keyed_add [OF assms(1) k n, of t] tbl_add [OF assms(1) k n, of t]
  have h: "hash_add_evt ops True per e t h = ut_add ops (evt_key e) t h1" by (simp add: hash_add_evt_def h1_def Let_def)
  show "throttled ops per t (last_at(evt_key e \<mapsto> t)) (hash_add_evt ops True per e t h)"
    using 1 add unfolding h by (auto simp: throttled_def)
  show "hash_find_evt ops e (hash_add_evt ops True per e t h) = Some t"
    unfolding h hash_find_evt_def using find_tbl [OF assms(1) add(1)] add(2) by simp
qed

text \<open>One call does what the specification says.\<close>

lemma throttled_step:
  assumes "uthash_ok ops" "throttled ops per t last_at h" "is_evt_need_report ops True per e t h = (r, h')"
  shows "r = (case last_at (evt_key e) of None \<Rightarrow> True | Some l \<Rightarrow> l < t \<and> uint per \<le> t - l)"
    "throttled ops per t (if r then last_at(evt_key e \<mapsto> t) else last_at) h'"
proof -
  have k: "keyed ops h" using assms(2) by (simp add: throttled_def)
  have f: "hash_find_evt ops e h = tbl ops h (evt_key e)" using find_tbl [OF assms(1) k] by (simp add: hash_find_evt_def)
  have "r = (case last_at (evt_key e) of None \<Rightarrow> True | Some l \<Rightarrow> l < t \<and> uint per \<le> t - l)
    \<and> throttled ops per t (if r then last_at(evt_key e \<mapsto> t) else last_at) h'"
  proof (cases "tbl ops h (evt_key e)")
    case None
    have later: "a < t" if "uint per < t - a" for a using that unsigned_greater_eq [of per, where 'a = int] by linarith
    from None have "r" "h' = hash_add_evt ops True per e t h"
      using assms(3) throttled_add(2) [OF assms(1,2) None] by (auto simp: is_evt_need_report_def f Let_def)
    moreover have "stands_for (uint per) t None (last_at (evt_key e))" using assms(2) None unfolding throttled_def by metis
    ultimately show ?thesis using throttled_add(1) [OF assms(1,2) None] by (cases "last_at (evt_key e)") (auto dest: later)
  next
    case (Some ts)
    have l: "last_at (evt_key e) = Some ts" using assms(2) Some unfolding throttled_def by (metis stands_for.simps(1))
    have w: "keyed ops (ut_write ops (evt_key e) t h)" "tbl ops (ut_write ops (evt_key e) t h) = (tbl ops h)(evt_key e \<mapsto> t)"
      using keyed_write [OF assms(1) k, of "evt_key e" t] Some by auto
    have "throttled ops per t (last_at(evt_key e \<mapsto> t)) (ut_write ops (evt_key e) t h)" using assms(2) w by (auto simp: throttled_def)
    then show ?thesis using assms(2,3) Some l by (auto simp: is_evt_need_report_def f split: if_splits)
  qed
  then show "r = (case last_at (evt_key e) of None \<Rightarrow> True | Some l \<Rightarrow> l < t \<and> uint per \<le> t - l)"
    "throttled ops per t (if r then last_at(evt_key e \<mapsto> t) else last_at) h'" by blast+
qed

lemma throttle_run:
  assumes "uthash_ok ops" "throttled ops per now last_at h" "sorted (map snd calls)" "\<forall>c \<in> set calls. now \<le> snd c"
  shows "evt_run ops per calls h = throttle_spec (uint per) last_at calls"
  using assms(2-4)
proof (induction calls arbitrary: now last_at h)
  case (Cons c calls)
  obtain e t where c: "c = (e, t)" by (cases c)
  have h: "throttled ops per t last_at h" using Cons.prems c throttled_later by auto
  obtain r h' where n: "is_evt_need_report ops True per e t h = (r, h')" by (cases "is_evt_need_report ops True per e t h")
  note s = throttled_step [OF assms(1) h n]
  show ?case using Cons.IH [OF s(2)] Cons.prems s(1) c n by (simp add: Let_def)
qed simp

text \<open>Two reports of an entity are a period apart.\<close>

lemma throttle_spaced:
  assumes "i < j" "j < length calls" "evt_key (fst (calls ! i)) = evt_key (fst (calls ! j))"
    and "throttle_spec per last_at calls ! i" "throttle_spec per last_at calls ! j" "sorted (map snd calls)" "0 \<le> per"
  shows "per \<le> snd (calls ! j) - snd (calls ! i)"
proof -
  have first: "per \<le> snd (calls ! j) - l" if "last_at (evt_key (fst (calls ! j))) = Some l" "throttle_spec per last_at calls ! j" "j < length calls" "sorted (map snd calls)" "0 \<le> per"
    for calls :: "(string \<times> int) list" and last_at l j
    using that
  proof (induction calls arbitrary: last_at l j)
    case (Cons c calls)
    obtain e t where c: "c = (e, t)" by (cases c)
    let ?r = "case last_at (evt_key e) of None \<Rightarrow> True | Some l \<Rightarrow> l < t \<and> per \<le> t - l"
    show ?case
    proof (cases j)
      case 0 then show ?thesis using Cons.prems c by (simp add: Let_def)
    next
      case (Suc m)
      let ?l = "if ?r \<and> evt_key e = evt_key (fst (calls ! m)) then t else l"
      have "(if ?r then last_at(evt_key e \<mapsto> t) else last_at) (evt_key (fst (calls ! m))) = Some ?l" using Cons.prems Suc by auto
      moreover have "throttle_spec per (if ?r then last_at(evt_key e \<mapsto> t) else last_at) calls ! m" using Cons.prems(2) Suc c by (simp add: Let_def)
      ultimately have "per \<le> snd (calls ! m) - ?l" using Cons.IH [of _ m ?l] Cons.prems Suc by simp
      moreover have "l \<le> ?l" using Cons.prems(1,5) Suc by (auto split: option.splits)
      ultimately show ?thesis using Suc by simp
    qed
  qed simp
  show ?thesis
    using assms
  proof (induction calls arbitrary: last_at i j)
    case (Cons c calls)
    obtain e t where c: "c = (e, t)" by (cases c)
    let ?r = "case last_at (evt_key e) of None \<Rightarrow> True | Some l \<Rightarrow> l < t \<and> per \<le> t - l"
    obtain m where j: "j = Suc m" using Cons.prems(1) by (cases j) auto
    have m: "throttle_spec per (if ?r then last_at(evt_key e \<mapsto> t) else last_at) calls ! m" "m < length calls" using Cons.prems(2,5) j c by (auto simp: Let_def)
    show ?case
    proof (cases i)
      case 0
      then have "(if ?r then last_at(evt_key e \<mapsto> t) else last_at) (evt_key (fst (calls ! m))) = Some t"
        using Cons.prems(3,4) j c by (simp add: Let_def)
      from first [OF this m] show ?thesis using Cons.prems(6,7) 0 j c by simp
    next
      case (Suc n)
      then show ?thesis using Cons.IH [of n m "if ?r then last_at(evt_key e \<mapsto> t) else last_at"] Cons.prems j c m by (simp add: Let_def)
    qed
  qed simp
qed

text \<open>C18. Events are throttled by entity: as long as memory is available and the clock does not run backwards, the calls that report are exactly those
  without a report of the same entity (its first 127 characters) within the period before, although the table forgets entities when it has 1000; so
  two reports of an entity are at least a period apart.\<close>

theorem events_throttled:
  assumes "uthash_ok ops" "sorted (map snd calls)"
  shows "evt_run ops per calls (ut_empty ops) = throttle_spec (uint per) Map.empty calls
    \<and> (\<forall>i j. i < j \<and> j < length calls \<and> evt_key (fst (calls ! i)) = evt_key (fst (calls ! j)) \<and> evt_run ops per calls (ut_empty ops) ! i \<and>
        evt_run ops per calls (ut_empty ops) ! j \<longrightarrow> uint per \<le> snd (calls ! j) - snd (calls ! i))"
proof -
  have "throttled ops per t Map.empty (ut_empty ops)" for t using keyed_empty [OF assms(1)] tbl_empty [OF assms(1)] by (simp add: throttled_def)
  from throttle_run [OF assms(1) this [of "case calls of [] \<Rightarrow> 0 | c # _ \<Rightarrow> snd c"] assms(2)] assms(2)
  have "evt_run ops per calls (ut_empty ops) = throttle_spec (uint per) Map.empty calls" by (cases calls) auto
  then show ?thesis using throttle_spaced [OF _ _ _ _ _ assms(2), of _ _ "uint per" Map.empty] by simp
qed

theorem events_throttled_witness:
  "evt_run alist_ops 600 [(''a'', 1000), (''b'', 1200), (''a'', 1599), (''a'', 1600)] [] = [True, True, False, True]"
proof -
  have "evt_key ''a'' = ''a''" "evt_key ''b'' = ''b''" by (simp_all add: evt_key_def snprintf_s_def MAX_ENTITY_NAME_LEN_def)
  then show ?thesis
    using events_throttled [OF alist_ops_ok, of "[(''a'', 1000), (''b'', 1200), (''a'', 1599), (''a'', 1600)]" 600] by (simp add: Let_def)
qed


section \<open>Event lines are read back\<close>

definition clean :: "string \<Rightarrow> bool" where
  "clean s \<longleftrightarrow> CHR ''|'' \<notin> set s \<and> CHR 0x0A \<notin> set s \<and> no_nul s"

lemma takeWhile_bar: "CHR ''|'' \<notin> set f \<Longrightarrow> takeWhile (\<lambda>c. c \<noteq> CHR ''|'') (f @ CHR ''|'' # r) = f"
  "CHR ''|'' \<notin> set f \<Longrightarrow> dropWhile (\<lambda>c. c \<noteq> CHR ''|'') (f @ CHR ''|'' # r) = CHR ''|'' # r"
  by (induction f) auto

lemma bar_text_Cons: "bar_text (f # fs) = CHR ''|'' # f @ bar_text fs" by (simp add: bar_text_def)

lemma bar_text_head: "\<exists>r. bar_text fs = CHR ''|'' # r" by (cases fs) (auto simp: bar_text_def)

lemma take_fields_bar_text: "\<forall>f \<in> set fs. CHR ''|'' \<notin> set f \<Longrightarrow> take_fields (length fs) (bar_text fs) = Some fs"
proof (induction fs)
  case (Cons f fs)
  obtain r where "bar_text fs = CHR ''|'' # r" using bar_text_head by blast
  then show ?case using Cons takeWhile_bar [of f r] by (auto simp: bar_text_Cons next_field_def Let_def)
qed simp

lemma clean_simps [simp]:
  "clean []" "clean (a @ b) \<longleftrightarrow> clean a \<and> clean b"
  "clean (c # s) \<longleftrightarrow> c \<noteq> CHR ''|'' \<and> c \<noteq> CHR 0x0A \<and> c \<noteq> CHR 0x00 \<and> clean s"
  by (auto simp: clean_def no_nul_def)

lemma clean_take: "clean s \<Longrightarrow> clean (snprintf_s n s)"
  by (auto simp: clean_def snprintf_s_def no_nul_take dest: in_set_takeD)

lemma clean_digit: "clean [char_of (48 + n mod 10 :: nat)]"
proof -
  have "char_of (48 + n mod 10 :: nat) \<noteq> c" if "of_char c < (48 :: nat) \<or> 57 < (of_char c :: nat)" for c
  proof
    assume "char_of (48 + n mod 10 :: nat) = c"
    then have "(48 + n mod 10) mod 256 = (of_char c :: nat)" by (metis of_char_of)
    then show False using that by simp
  qed
  then show ?thesis by simp
qed

lemma clean_digits: "clean (digits fuel n)"
proof (induction fuel n rule: digits.induct)
  case (2 fuel n)
  then show ?case using clean_digit [of n] by (cases "n < 10") simp_all
qed simp

lemma clean_lld: "clean (show_lld i)" by (simp add: show_lld_def clean_digits)

lemma clean_secs: "clean (snd (secs sec))" by (cases sec) simp_all

text \<open>/proc and the container engine return texts without bars and line feeds.\<close>

definition sys_clean :: "sys_env \<Rightarrow> bool" where
  "sys_clean sys \<longleftrightarrow> (\<forall>i c. env_comm sys i = Some c \<longrightarrow> clean c) \<and> (\<forall>p c. env_container sys p = Some c \<longrightarrow> clean c) \<and> (\<forall>c. clean (env_pod sys c))"

definition event_clean :: "event_info_s \<Rightarrow> bool" where
  "event_clean evt \<longleftrightarrow> clean (entityName evt) \<and> clean (entityId evt) \<and> clean (ei_metrics evt) \<and> clean (ei_ip evt) \<and>
     (case ei_dev evt of None \<Rightarrow> True | Some d \<Rightarrow> clean d)"

lemma event_fields_clean:
  assumes "sys_clean (ee_sys env)" "event_clean evt" "clean body"
  shows "\<forall>f \<in> set (event_fields env evt sec body). clean f"
  using assms clean_lld clean_secs by (auto simp: event_fields_def Let_def sys_clean_def event_clean_def split: option.splits)

lemma report_line:
  assumes "report_logs env evt sec fmt render mgr = Ok (Some line, mgr')"
  obtains body where "line = ''|event'' @ bar_text (event_fields env evt sec body) @ ''\<newline>''"
    "clean (ee_time_text env) \<Longrightarrow> event_clean evt \<Longrightarrow> \<forall>f. clean (render f) \<Longrightarrow> clean body"
proof -
  obtain fmt2 where l: "line = ''|event'' @ bar_text (event_fields env evt sec
      (add_text (add_text (snprintf_s MAX_EVT_BODY_LEN (ee_time_text env)) ('' '' @ snd (secs sec) @ '' Entity('' @ entityId evt @ '') '')) (render fmt2))) @ ''\<newline>''"
    using assms(1) by (auto simp: report_logs_def Let_def split: prod.splits if_splits dest!: bnd_eq_OkD)
  show ?thesis
    by (rule that [OF l]) (use clean_secs in \<open>auto simp: add_text_def clean_take event_clean_def\<close>)
qed

lemma take_fields_no_bar: "take_fields n s = Some fs \<Longrightarrow> \<forall>f \<in> set fs. CHR ''|'' \<notin> set f"
proof (induction n arbitrary: s fs)
  case (Suc n)
  then show ?case by (auto simp: next_field_def Let_def split: option.splits if_splits dest: set_takeWhileD)
qed simp

text \<open>C26. An event on its way from a probe: what is printed for it is the twelve fields, each behind a bar. The ingress reads back from it the twelve fields that were printed exactly when none of
  them has a bar in it, and it is one line exactly when none has a line feed: nothing is escaped. So it is, in particular, when the texts of the event, its message, the
  time, and the names of the process, container and pod hold no bar, line feed or zero byte. (The name, the id and the metric of the event are not empty.)\<close>

theorem event_line_read_back:
  assumes "report_logs env evt sec fmt render mgr = Ok (Some line, mgr')" "entityName evt \<noteq> []" "entityId evt \<noteq> []" "ei_metrics evt \<noteq> []"
  shows "\<exists>content body. line = ''|event'' @ content @ ''\<newline>'' \<and> content = bar_text (event_fields env evt sec body) \<and>
    (get_event_fields EVT_ORIG_FIELD_MAX content = Some (event_fields env evt sec body) \<longleftrightarrow> (\<forall>f \<in> set (event_fields env evt sec body). CHR ''|'' \<notin> set f)) \<and>
    (CHR 0x0A \<notin> set content \<longleftrightarrow> (\<forall>f \<in> set (event_fields env evt sec body). CHR 0x0A \<notin> set f)) \<and>
    (clean (ee_time_text env) \<and> event_clean evt \<and> (\<forall>f. clean (render f)) \<and> sys_clean (ee_sys env) \<longrightarrow>
      get_event_fields EVT_ORIG_FIELD_MAX content = Some (event_fields env evt sec body) \<and> CHR 0x0A \<notin> set content)"
proof -
  obtain body where l: "line = ''|event'' @ bar_text (event_fields env evt sec body) @ ''\<newline>''"
    and b: "clean (ee_time_text env) \<Longrightarrow> event_clean evt \<Longrightarrow> \<forall>f. clean (render f) \<Longrightarrow> clean body"
    using report_line [OF assms(1)] by blast
  let ?fs = "event_fields env evt sec body" and ?c = "bar_text (event_fields env evt sec body)"
  have n: "length ?fs = EVT_ORIG_FIELD_MAX" by (simp add: event_fields_def Let_def EVT_ORIG_FIELD_MAX_def)
  have e: "?fs ! 0 \<noteq> []" "?fs ! 1 \<noteq> []" "?fs ! 2 \<noteq> []" using assms(2-4) by (simp_all add: event_fields_def Let_def)
  have r: "get_event_fields EVT_ORIG_FIELD_MAX ?c = Some ?fs \<longleftrightarrow> (\<forall>f \<in> set ?fs. CHR ''|'' \<notin> set f)"
  proof
    assume "get_event_fields EVT_ORIG_FIELD_MAX ?c = Some ?fs"
    then have "take_fields EVT_ORIG_FIELD_MAX ?c = Some ?fs" by (auto simp: get_event_fields_def split: if_splits option.splits)
    then show "\<forall>f \<in> set ?fs. CHR ''|'' \<notin> set f" by (rule take_fields_no_bar)
  next
    assume "\<forall>f \<in> set ?fs. CHR ''|'' \<notin> set f"
    then have "take_fields EVT_ORIG_FIELD_MAX ?c = Some ?fs" using take_fields_bar_text [of ?fs] unfolding n by blast
    then show "get_event_fields EVT_ORIG_FIELD_MAX ?c = Some ?fs" using bar_text_head [of ?fs] e by (auto simp: get_event_fields_def)
  qed
  have f: "CHR 0x0A \<notin> set ?c \<longleftrightarrow> (\<forall>f \<in> set ?fs. CHR 0x0A \<notin> set f)" by (auto simp: bar_text_def)
  have "\<forall>f \<in> set ?fs. CHR ''|'' \<notin> set f \<and> CHR 0x0A \<notin> set f"
    if "clean (ee_time_text env)" "event_clean evt" "\<forall>f. clean (render f)" "sys_clean (ee_sys env)"
    using event_fields_clean [OF that(4,2) b [OF that(1-3)]] unfolding clean_def by blast
  then show ?thesis using l r f by blast
qed

definition demo_evt_env :: "((string \<times> int) list, unit) evt_env" where
  "demo_evt_env = \<lparr>ee_ops = alist_ops, ee_alloc = True,
     ee_libconfig = \<lparr>config_read_file = (\<lambda>_. None), config_lookup = (\<lambda>_ _. None), config_lookup_string = (\<lambda>_ _. None), config_setting_lookup = (\<lambda>_ _. None),
       config_setting_length = (\<lambda>_. Ok 0), config_setting_get_elem = (\<lambda>_ _. ()), config_setting_lookup_string = (\<lambda>_ _. None), config_setting_lookup_int = (\<lambda>_ _. None)\<rparr>,
     ee_accessible = True, ee_conf_alloc = True, ee_evt_alloc = (\<lambda>_. True), ee_now = 1000, ee_time_text = ''Thu Jan  1 00:16:40 1970'',
     ee_sys = \<lparr>env_comm = (\<lambda>_. Some ''sh''), env_startup = (\<lambda>_. 0), env_container = (\<lambda>_. None), env_pod = (\<lambda>_. []), env_ip = None, env_now = 1000\<rparr>\<rparr>"

definition demo_evt :: event_info_s where
  "demo_evt = \<lparr>entityName = ''tcp_link'', entityId = ''/a'', ei_metrics = ''rx'', ei_dev = None, ei_ip = [], ei_pid = 7\<rparr>"

definition demo_evt_mgr :: "(string \<times> int) list evt_mgr" where
  "demo_evt_mgr = \<lparr>g_evt_head = [], g_evt_period = 600, g_evt_conf = None, g_lang_type = ''zh_CN''\<rparr>"

theorem event_line_read_back_witness:
  "\<exists>line mgr' content body. report_logs demo_evt_env demo_evt EVT_SEC_WARN ''slow'' (\<lambda>f. ''slow'') demo_evt_mgr = Ok (Some line, mgr') \<and>
     line = ''|event'' @ content @ ''\<newline>'' \<and> get_event_fields EVT_ORIG_FIELD_MAX content = Some (event_fields demo_evt_env demo_evt EVT_SEC_WARN body)"
proof -
  have "case report_logs demo_evt_env demo_evt EVT_SEC_WARN ''slow'' (\<lambda>f. ''slow'') demo_evt_mgr of Ok (Some line, mgr') \<Rightarrow> True | _ \<Rightarrow> False"
    by code_simp
  then obtain line mgr' where r: "report_logs demo_evt_env demo_evt EVT_SEC_WARN ''slow'' (\<lambda>f. ''slow'') demo_evt_mgr = Ok (Some line, mgr')"
    by (auto split: outc.splits option.splits prod.splits)
  have c: "clean (ee_time_text demo_evt_env)" "event_clean demo_evt" "clean ''slow''" "sys_clean (ee_sys demo_evt_env)"
    "entityName demo_evt \<noteq> []" "entityId demo_evt \<noteq> []" "ei_metrics demo_evt \<noteq> []"
    by (simp_all add: demo_evt_env_def demo_evt_def event_clean_def sys_clean_def)
  show ?thesis using event_line_read_back [OF r c(5-7)] c(1-4) r by blast
qed

end
