(* ===== verification/Ingress.thy ===== *)
theory Ingress
  imports Event2json Fifo
begin

text \<open>
  The way of a line through the program: the output of an extended probe is read, cut into lines and
  queued (src/src/lib/probe/extend_probe.c), the ingress thread takes the lines from the queue and
  hands them to the database, the event log or the egress queues (src/src/ingress/ingress.c), and the
  egress thread sends what it finds there to Kafka (src/src/egress/egress.c). Kafka itself is the
  list of messages produced per topic. The results of allocations, of the writes to event
  descriptors and to the log files are arguments (\<open>ig_env\<close>).

  The queues are those of theory Fifo, the database that of theory Imdb, the conversions those of
  theory Event2json.
\<close>

section \<open>Data\<close>

definition MAX_DATA_STR_LEN :: nat where "MAX_DATA_STR_LEN = 8192"

text \<open>A pointer in an egress queue: to a message, or to memory that has been freed.\<close>

datatype msg = Msg string | Freed

text \<open>\<open>EgressMgr\<close> and \<open>IngressMgr\<close>; a Boolean says whether the Kafka manager or channel is configured.\<close>

record EgressMgr =
  metric_kafkaMgr :: bool
  event_kafkaMgr :: bool
  metric_fifo :: "msg Fifo"
  event_fifo :: "msg Fifo"

record ('h, 'g) IngressMgr =
  imdbMgr :: "('h, 'g) IMDB_DataBaseMgr"
  writeLogsOn :: bool
  out_chnl_logs :: bool
  egressMgr :: "EgressMgr option"
  event_logs :: "string list"

record 'h ig_env =
  ge_malloc :: bool
  ge_trigger :: bool
  ge_wr_logs :: "string \<Rightarrow> bool"
  ge_sys :: sys_env
  ge_imdb_malloc :: "asite \<Rightarrow> bool"
  ge_ops :: "'h rec_ops"

section \<open>The output of an extended probe\<close>

text \<open>
  \<open>sendOutputToIngresss\<close> from position \<open>i\<close> on: \<open>dataStr\<close> is the line being collected, with its \<open>index\<close>
  characters. The queue when the function returns, and a line that was allocated and not queued.
\<close>

fun sendOutputToIngresss :: "(nat \<Rightarrow> bool) \<Rightarrow> (nat \<Rightarrow> bool) \<Rightarrow> nat \<Rightarrow> string \<Rightarrow> string option \<Rightarrow> string Fifo
    \<Rightarrow> (string Fifo \<times> string option) outc" where
  "sendOutputToIngresss malloc_ok write_ok i [] dataStr f = Ok (f, dataStr)"
| "sendOutputToIngresss malloc_ok write_ok i (c # buffer) dataStr f =
     (if dataStr = None \<and> \<not> malloc_ok i then Ok (f, None)
      else let s = (case dataStr of None \<Rightarrow> [] | Some s \<Rightarrow> s) in
        if length s \<ge> MAX_DATA_STR_LEN then UB
        else if c = CHR 0x0A then
          (case FifoPut f s of (f, ret) \<Rightarrow>
             if ret \<noteq> 0 then Ok (f, None)
             else if \<not> write_ok i then Ok (f, None)
             else sendOutputToIngresss malloc_ok write_ok (i + 1) buffer None f)
        else sendOutputToIngresss malloc_ok write_ok (i + 1) buffer (Some (s @ [c])) f)"

text \<open>
  \<open>parseExtendProbeOutput\<close>: each turn of the loop, with the value of \<open>IS_STOPPING_PROBE\<close> and the
  result of \<open>fgets\<close> (\<open>None\<close> for \<open>NULL\<close>); a turn that logs the line changes nothing here.
\<close>

fun parseExtendProbeOutput :: "(nat \<Rightarrow> bool) \<Rightarrow> (nat \<Rightarrow> bool) \<Rightarrow> (bool \<times> string option) list \<Rightarrow> string Fifo
    \<Rightarrow> string Fifo outc" where
  "parseExtendProbeOutput malloc_ok write_ok [] f = Ok f"
| "parseExtendProbeOutput malloc_ok write_ok ((stopping, line) # turns) f =
     (if stopping then Ok f
      else case line of None \<Rightarrow> parseExtendProbeOutput malloc_ok write_ok turns f
        | Some buffer \<Rightarrow>
            if buffer = [] \<or> hd buffer \<noteq> CHR ''|'' then parseExtendProbeOutput malloc_ok write_ok turns f
            else if length buffer \<ge> MAX_DATA_STR_LEN then parseExtendProbeOutput malloc_ok write_ok turns f
            else bnd (sendOutputToIngresss malloc_ok write_ok 0 buffer None f) (\<lambda>(f, lost).
                   parseExtendProbeOutput malloc_ok write_ok turns f))"

section \<open>Ingress\<close>

text \<open>The name and the content, from the bar behind the name on.\<close>

definition GetTableNameAndContent :: "string \<Rightarrow> nat \<Rightarrow> (string \<times> string) option" where
  "GetTableNameAndContent buf sz =
     (if buf = [] \<or> hd buf \<noteq> CHR ''|'' then None
      else let p1 = tl buf; name = takeWhile (\<lambda>c. c \<noteq> CHR ''|'') p1 in
        if CHR ''|'' \<notin> set p1 then None
        else if name = [] then None
        else if length name \<ge> sz then None
        else Some (name, drop (length name) p1))"

text \<open>
  A message into an egress queue, and the write to its event descriptor. When that write fails
  \<open>LogData2Egress\<close> frees the message it has queued (\<open>free_it\<close>), the two others do not.
\<close>

definition queue_msg :: "bool \<Rightarrow> bool \<Rightarrow> msg Fifo \<Rightarrow> string \<Rightarrow> msg Fifo \<times> int" where
  "queue_msg trigger free_it f json =
     (case FifoPut f (Msg json) of (f', ret) \<Rightarrow>
        if ret \<noteq> 0 then (f', -1)
        else if \<not> trigger then (if free_it then fst (FifoPut f Freed) else f', -1)
        else (f', 0))"

definition LogData2Egress :: "'h ig_env \<Rightarrow> node_info \<Rightarrow> EgressMgr \<Rightarrow> string \<Rightarrow> (EgressMgr \<times> int) outc" where
  "LogData2Egress env ni eg logData =
     (if \<not> ge_malloc env then Ok (eg, -1)
      else bnd (LogData2Json ni logData MAX_DATA_STR_LEN) (\<lambda>r. case r of None \<Rightarrow> Ok (eg, -1)
        | Some json \<Rightarrow> (case queue_msg (ge_trigger env) True (event_fifo eg) json of (f, ret) \<Rightarrow>
            Ok (eg\<lparr>event_fifo := f\<rparr>, ret))))"

definition EventData2Egress :: "'h ig_env \<Rightarrow> node_info \<Rightarrow> EgressMgr \<Rightarrow> string \<Rightarrow> (EgressMgr \<times> int) outc" where
  "EventData2Egress env ni eg content =
     (if \<not> ge_malloc env then Ok (eg, -1)
      else bnd (EventData2Json ni (ge_sys env) content MAX_DATA_STR_LEN) (\<lambda>r. case r of None \<Rightarrow> Ok (eg, -1)
        | Some json \<Rightarrow> (case queue_msg (ge_trigger env) False (event_fifo eg) json of (f, ret) \<Rightarrow>
            Ok (eg\<lparr>event_fifo := f\<rparr>, ret))))"

text \<open>\<open>rec\<close> is \<open>None\<close> for the null pointer, which \<open>IMDB_Record2Json\<close> dereferences.\<close>

definition MetricData2Egress :: "'h ig_env \<Rightarrow> ('h, 'g) IMDB_DataBaseMgr \<Rightarrow> EgressMgr \<Rightarrow> 'h IMDB_Table \<Rightarrow> IMDB_Record option
    \<Rightarrow> (EgressMgr \<times> int) outc" where
  "MetricData2Egress env mgr eg table rec =
     (if \<not> ge_malloc env then Ok (eg, -1)
      else case rec of None \<Rightarrow> UB
        | Some r \<Rightarrow> (case IMDB_Record2Json (ge_sys env) mgr table r MAX_DATA_STR_LEN of None \<Rightarrow> Ok (eg, -1)
            | Some json \<Rightarrow> (case queue_msg (ge_trigger env) False (metric_fifo eg) json of (f, ret) \<Rightarrow>
                Ok (eg\<lparr>metric_fifo := f\<rparr>, ret))))"

definition IngressEventWrite2Logs :: "'h ig_env \<Rightarrow> ('h, 'g) IngressMgr \<Rightarrow> string \<Rightarrow> (('h, 'g) IngressMgr \<times> int) outc" where
  "IngressEventWrite2Logs env mgr content =
     (if \<not> ge_malloc env then Ok (mgr, -1)
      else bnd (EventData2Json (nodeInfo (imdbMgr mgr)) (ge_sys env) content MAX_DATA_STR_LEN) (\<lambda>r. case r of None \<Rightarrow> Ok (mgr, -1)
        | Some json \<Rightarrow> if ge_wr_logs env json then Ok (mgr\<lparr>event_logs := event_logs mgr @ [json]\<rparr>, 0) else Ok (mgr, -1)))"

definition ProcessOtelLogData :: "'h ig_env \<Rightarrow> ('h, 'g) IngressMgr \<Rightarrow> string \<Rightarrow> (('h, 'g) IngressMgr \<times> int) outc" where
  "ProcessOtelLogData env mgr content =
     (case egressMgr mgr of None \<Rightarrow> Ok (mgr, 0)
      | Some eg \<Rightarrow> if \<not> event_kafkaMgr eg then Ok (mgr, 0)
          else bnd (LogData2Egress env (nodeInfo (imdbMgr mgr)) eg content) (\<lambda>(eg, ret).
                 Ok (mgr\<lparr>egressMgr := Some eg\<rparr>, if ret \<noteq> 0 then -1 else 0)))"

definition ProcessEventData :: "'h ig_env \<Rightarrow> ('h, 'g) IngressMgr \<Rightarrow> string \<Rightarrow> (('h, 'g) IngressMgr \<times> int) outc" where
  "ProcessEventData env mgr content =
     bnd (if out_chnl_logs mgr then IngressEventWrite2Logs env mgr content else Ok (mgr, 0)) (\<lambda>(mgr, ret).
       if ret \<noteq> 0 then Ok (mgr, -1)
       else case egressMgr mgr of None \<Rightarrow> Ok (mgr, 0)
         | Some eg \<Rightarrow> if \<not> event_kafkaMgr eg then Ok (mgr, 0)
             else bnd (EventData2Egress env (nodeInfo (imdbMgr mgr)) eg content) (\<lambda>(eg, ret).
                    Ok (mgr\<lparr>egressMgr := Some eg\<rparr>, if ret \<noteq> 0 then -1 else 0)))"

definition ProcessMetricData :: "'h ig_env \<Rightarrow> ('h, 'g) IngressMgr \<Rightarrow> string \<Rightarrow> string \<Rightarrow> (('h, 'g) IngressMgr \<times> int) outc" where
  "ProcessMetricData env mgr content tblName =
     (case IMDB_DataBaseMgrFindTable (imdbMgr mgr) tblName of None \<Rightarrow> Ok (mgr, -1)
      | Some ti \<Rightarrow>
          (let db = imdbMgr mgr; table = tables db ! ti in
           if recordKeySize table = 0 then Ok (mgr, -1)
           else bnd (if \<not> writeLogsOn mgr then Ok (table, None, 0 :: int)
                     else bnd (IMDB_DataBaseMgrCreateRec (ge_ops env) (ge_imdb_malloc env) (env_now (ge_sys env)) table content)
                            (\<lambda>(table, rec). Ok (table, rec, if rec = None then -1 else 0))) (\<lambda>(table, rec, ret).
             (let db = db\<lparr>tables := (tables db)[ti := table]\<rparr>; mgr = mgr\<lparr>imdbMgr := db\<rparr> in
              if ret \<noteq> 0 then Ok (mgr, -1)
              else case egressMgr mgr of None \<Rightarrow> Ok (mgr, 0)
                | Some eg \<Rightarrow> if \<not> metric_kafkaMgr eg then Ok (mgr, 0)
                    else bnd (MetricData2Egress env db eg table rec) (\<lambda>(eg, ret).
                           Ok (mgr\<lparr>egressMgr := Some eg\<rparr>, if ret \<noteq> 0 then -1 else 0))))))"

text \<open>What the loop of \<open>IngressDataProcesssInput\<close> does with one line; the results of the handlers are ignored.\<close>

definition process_line :: "'h ig_env \<Rightarrow> string \<Rightarrow> ('h, 'g) IngressMgr \<Rightarrow> ('h, 'g) IngressMgr outc" where
  "process_line env dataStr mgr =
     (case GetTableNameAndContent dataStr MAX_IMDB_TABLE_NAME_LEN of None \<Rightarrow> Ok mgr
      | Some (tblName, content) \<Rightarrow>
          bnd (if tblName = ''log'' then ProcessOtelLogData env mgr content
               else if tblName = ''event'' then ProcessEventData env mgr content
               else ProcessMetricData env mgr content tblName) (\<lambda>(mgr, ret). Ok mgr))"

definition input_step :: "'h ig_env \<Rightarrow> string Fifo \<times> ('h, 'g) IngressMgr \<Rightarrow> (bool \<times> string Fifo \<times> ('h, 'g) IngressMgr) outc" where
  "input_step env st =
     (case st of (f, mgr) \<Rightarrow>
       (case FifoGet f None of (f, v, ret) \<Rightarrow>
          if ret \<noteq> 0 then Ok (True, f, mgr)
          else case v of None \<Rightarrow> Ok (False, f, mgr)
            | Some dataStr \<Rightarrow> bnd (process_line env dataStr mgr) (\<lambda>mgr. Ok (False, f, mgr))))"

text \<open>\<open>read_ok\<close> is the result of reading the event descriptor.\<close>

definition IngressDataProcesssInput :: "'h ig_env \<Rightarrow> bool \<Rightarrow> string Fifo \<Rightarrow> ('h, 'g) IngressMgr
    \<Rightarrow> (string Fifo \<times> ('h, 'g) IngressMgr \<times> int) outc" where
  "IngressDataProcesssInput env read_ok f mgr =
     (if \<not> read_ok then Ok (f, mgr, -1)
      else bnd (loop_result (c_loop (input_step env) (f, mgr))) (\<lambda>(f, mgr). Ok (f, mgr, 0)))"

text \<open>The events of one \<open>epoll_wait\<close>: whether it is exactly \<open>EPOLLIN\<close>, and the queue it belongs to.\<close>

fun IngressDataProcesss :: "'h ig_env \<Rightarrow> (nat \<Rightarrow> bool) \<Rightarrow> (bool \<times> nat option) list \<Rightarrow> string Fifo list \<Rightarrow> ('h, 'g) IngressMgr
    \<Rightarrow> (string Fifo list \<times> ('h, 'g) IngressMgr \<times> int) outc" where
  "IngressDataProcesss env read_ok [] fs mgr = Ok (fs, mgr, 0)"
| "IngressDataProcesss env read_ok ((epollin, q) # evs) fs mgr =
     (if \<not> epollin then IngressDataProcesss env read_ok evs fs mgr
      else case q of None \<Rightarrow> IngressDataProcesss env read_ok evs fs mgr
        | Some i \<Rightarrow> bnd (IngressDataProcesssInput env (read_ok i) (fs ! i) mgr) (\<lambda>(f, mgr, ret).
            if ret \<noteq> 0 then Ok (fs[i := f], mgr, -1) else IngressDataProcesss env read_ok evs (fs[i := f]) mgr))"

section \<open>Egress\<close>

text \<open>The messages produced to the two topics.\<close>

record kafka =
  metric_topic :: "string list"
  event_topic :: "string list"

text \<open>\<open>strlen(dataStr)\<close> reads the message: memory that has been freed is \<open>UB\<close>, as is the null pointer.\<close>

definition egress_step :: "EgressMgr \<Rightarrow> msg Fifo \<times> kafka \<Rightarrow> (bool \<times> msg Fifo \<times> kafka) outc" where
  "egress_step eg st =
     (case st of (f, k) \<Rightarrow>
       (let m = metric_kafkaMgr eg \<and> triggerFd f = triggerFd (metric_fifo eg);
            e = event_kafkaMgr eg \<and> triggerFd f = triggerFd (event_fifo eg)
        in case FifoGet f None of (f, v, ret) \<Rightarrow>
          if ret \<noteq> 0 then Ok (True, f, k)
          else if \<not> m \<and> \<not> e then Ok (False, f, k)
          else case v of Some (Msg s) \<Rightarrow>
              Ok (False, f, k\<lparr>metric_topic := metric_topic k @ (if m then [s] else []),
                             event_topic := event_topic k @ (if e then [s] else [])\<rparr>)
            | _ \<Rightarrow> UB))"

definition EgressDataProcesssInput :: "EgressMgr \<Rightarrow> bool \<Rightarrow> msg Fifo \<Rightarrow> kafka \<Rightarrow> (msg Fifo \<times> kafka \<times> int) outc" where
  "EgressDataProcesssInput eg read_ok f k =
     (if \<not> read_ok then Ok (f, k, -1)
      else bnd (loop_result (c_loop (egress_step eg) (f, k))) (\<lambda>(f, k). Ok (f, k, 0)))"

section \<open>Specifications\<close>

text \<open>A handler applied to the elements of a list, in order.\<close>

fun handle_all :: "('e \<Rightarrow> 's \<Rightarrow> 's outc) \<Rightarrow> 'e list \<Rightarrow> 's \<Rightarrow> 's outc" where
  "handle_all h [] s = Ok s"
| "handle_all h (x # xs) s = bnd (h x s) (handle_all h xs)"

text \<open>What the egress thread does with one message, depending on the queue it comes from.\<close>

definition produce :: "bool \<Rightarrow> bool \<Rightarrow> msg \<Rightarrow> kafka \<Rightarrow> kafka outc" where
  "produce m e x k = (if \<not> m \<and> \<not> e then Ok k
     else case x of Freed \<Rightarrow> UB
       | Msg s \<Rightarrow> Ok (k\<lparr>metric_topic := metric_topic k @ (if m then [s] else []),
                       event_topic := event_topic k @ (if e then [s] else [])\<rparr>))"

text \<open>A line a probe may print: it starts with a bar, has no newline and fits the buffers.\<close>

definition probe_line :: "string \<Rightarrow> bool" where
  "probe_line l \<longleftrightarrow> l \<noteq> [] \<and> hd l = CHR ''|'' \<and> CHR 0x0A \<notin> set l \<and> length l + 1 < MAX_DATA_STR_LEN"

definition line_turns :: "string list \<Rightarrow> (bool \<times> string option) list" where
  "line_turns ls = map (\<lambda>l. (False, Some (l @ [CHR 0x0A]))) ls"

definition demo_fifo :: "'e Fifo" where
  "demo_fifo = \<lparr>fifo_buffer = replicate 2 None, fifo_size = 2, fifo_in = 0, fifo_out = 0, triggerFd = 7\<rparr>"

definition demo_ig_env :: "(string \<times> IMDB_Record) list ig_env" where
  "demo_ig_env = \<lparr>ge_malloc = True, ge_trigger = True, ge_wr_logs = (\<lambda>_. True), ge_sys = demo_env,
     ge_imdb_malloc = (\<lambda>_. True), ge_ops = alist_ops\<rparr>"

definition demo_ingress :: "((string \<times> IMDB_Record) list, unit) IngressMgr" where
  "demo_ingress = \<lparr>imdbMgr = demo_mgr (), writeLogsOn = True, out_chnl_logs = False,
     egressMgr = Some \<lparr>metric_kafkaMgr = False, event_kafkaMgr = True, metric_fifo = demo_fifo, event_fifo = demo_fifo\<lparr>triggerFd := 8\<rparr>\<rparr>,
     event_logs = []\<rparr>"

text \<open>The line of an extended probe behind the table name, as it arrives: the newline is gone.\<close>

definition bare_line :: "string list \<Rightarrow> string" where
  "bare_line vs = concat (map (\<lambda>f. CHR ''|'' # f) vs) @ ''|''"

section \<open>Emptying a queue\<close>

lemma get_nothing: "fifo_wf f \<Longrightarrow> fifo_contents f = [] \<Longrightarrow> FifoGet f v = (f, v, -1)"
  using length_fifo_list [of f] by (simp add: fifo_wf_def FifoGet_eq fifo_contents_def del: length_fifo_list)

lemma get_next:
  assumes "fifo_wf f" "fifo_contents f = x # xs"
  shows "FifoGet f v = (fifo_pop f, Some x, 0)" "fifo_wf (fifo_pop f)" "fifo_contents (fifo_pop f) = xs"
proof -
  have c: "fifo_count f \<noteq> 0" using assms(2) length_fifo_list [of f] by (auto simp: fifo_contents_def simp del: length_fifo_list)
  have l: "fifo_list f = fifo_buffer f ! slot (fifo_out f) f # fifo_list (fifo_pop f)" by (rule list_pop [OF c])
  then have "fifo_buffer f ! slot (fifo_out f) f \<noteq> None" using assms(1) unfolding fifo_wf_def by (metis list.set_intros(1))
  then have "fifo_buffer f ! slot (fifo_out f) f = Some x" using assms(2) l by (auto simp: fifo_contents_def)
  then show "FifoGet f v = (fifo_pop f, Some x, 0)" using assms(1) c by (simp add: fifo_wf_def FifoGet_eq)
  show "fifo_wf (fifo_pop f)" by (rule wf_pop [OF assms(1) c])
  show "fifo_contents (fifo_pop f) = xs" using assms(2) l by (simp add: fifo_contents_def)
qed

text \<open>
  The two consumer threads have the same loop: take elements until the queue is empty and hand each to
  a handler. The contract of the body of such a loop, for the queues with property \<open>P\<close>.
\<close>

locale queue_drain =
  fixes body :: "'e Fifo \<times> 's \<Rightarrow> (bool \<times> 'e Fifo \<times> 's) outc"
    and handle :: "'e \<Rightarrow> 's \<Rightarrow> 's outc"
    and P :: "'e Fifo \<Rightarrow> bool"
  assumes body_empty: "fifo_wf f \<Longrightarrow> fifo_contents f = [] \<Longrightarrow> P f \<Longrightarrow> body (f, s) = Ok (True, f, s)"
    and body_next: "fifo_wf f \<Longrightarrow> fifo_contents f = x # xs \<Longrightarrow> P f \<Longrightarrow>
      P (fifo_pop f) \<and> body (f, s) = bnd (handle x s) (\<lambda>s. Ok (False, fifo_pop f, s))"
begin

text \<open>The loop ends, and the handler has seen every element once, in the order of the queue.\<close>

lemma drain:
  "fifo_wf f \<Longrightarrow> P f \<Longrightarrow> \<exists>f'. fifo_wf f' \<and> fifo_contents f' = [] \<and> P f' \<and> fifo_size f' = fifo_size f \<and>
     loop_result (c_loop body (f, s)) = bnd (handle_all handle (fifo_contents f) s) (\<lambda>s. Ok (f', s))"
proof (induction "fifo_contents f" arbitrary: f s)
  case Nil
  then have "c_loop body (f, s) = Some (Ok (f, s))" using body_empty by (intro c_loop_stop) simp
  then show ?case using Nil by (intro exI [of _ f]) simp
next
  case (Cons x xs)
  note nx = get_next [OF Cons.prems(1) Cons.hyps(2) [symmetric]]
  note b = body_next [OF Cons.prems(1) Cons.hyps(2) [symmetric] Cons.prems(2)]
  show ?case
  proof (cases "handle x s")
    case (Ok s1)
    then have "c_loop body (f, s) = c_loop body (fifo_pop f, s1)" using b by (intro c_loop_step) simp
    moreover obtain f' where "fifo_wf f' \<and> fifo_contents f' = [] \<and> P f' \<and> fifo_size f' = fifo_size (fifo_pop f) \<and>
        loop_result (c_loop body (fifo_pop f, s1)) = bnd (handle_all handle (fifo_contents (fifo_pop f)) s1) (\<lambda>s. Ok (f', s))"
      using Cons.hyps(1) [of "fifo_pop f" s1] nx b by auto
    ultimately show ?thesis using Ok Cons.hyps(2) nx(3) by (intro exI [of _ f']) (simp flip: Cons.hyps(2))
  next
    case UB
    then have "c_loop body (f, s) = Some UB" using b by (subst c_loop.simps) simp
    then show ?thesis using UB Cons.hyps(1) [of "fifo_pop f" s] nx b by (auto simp flip: Cons.hyps(2))
  next
    case NoRet
    then have "c_loop body (f, s) = Some NoRet" using b by (subst c_loop.simps) simp
    then show ?thesis using NoRet Cons.hyps(1) [of "fifo_pop f" s] nx b by (auto simp flip: Cons.hyps(2))
  qed
qed

end

interpretation ingress_loop: queue_drain "input_step env" "process_line env" "\<lambda>_. True"
  by unfold_locales (simp_all add: input_step_def get_nothing get_next)

interpretation egress_loop: queue_drain "egress_step eg"
    "produce (metric_kafkaMgr eg \<and> fd = triggerFd (metric_fifo eg)) (event_kafkaMgr eg \<and> fd = triggerFd (event_fifo eg))"
    "\<lambda>f. triggerFd f = fd"
proof unfold_locales
  fix f :: "msg Fifo" and s :: kafka
  assume "fifo_wf f" "fifo_contents f = []" "triggerFd f = fd"
  then show "egress_step eg (f, s) = Ok (True, f, s)" by (simp add: egress_step_def get_nothing Let_def)
next
  fix f :: "msg Fifo" and x xs s
  assume a: "fifo_wf f" "fifo_contents f = x # xs" "triggerFd f = fd"
  have "triggerFd (fifo_pop f) = fd" using a(3) by (simp add: fifo_pop_def)
  then show "triggerFd (fifo_pop f) = fd \<and> egress_step eg (f, s) =
      bnd (produce (metric_kafkaMgr eg \<and> fd = triggerFd (metric_fifo eg)) (event_kafkaMgr eg \<and> fd = triggerFd (event_fifo eg)) x s)
        (\<lambda>s. Ok (False, fifo_pop f, s))"
    using a get_next(1) [OF a(1,2)] by (cases x) (auto simp: egress_step_def produce_def Let_def)
qed

text \<open>The ingress thread empties the queue of a probe: the call returns, the queue is empty
  afterwards, and every line was processed exactly once, in the order in which the probe queued them.\<close>

theorem ingress_drains:
  assumes "fifo_wf f"
  shows "\<exists>f'. fifo_wf f' \<and> fifo_contents f' = [] \<and> fifo_size f' = fifo_size f \<and>
     IngressDataProcesssInput env True f mgr = bnd (handle_all (process_line env) (fifo_contents f) mgr) (\<lambda>mgr'. Ok (f', mgr', 0))"
  using ingress_loop.drain [OF assms TrueI, of env mgr]
  by (auto simp: IngressDataProcesssInput_def bnd_def split: outc.splits intro!: exI)

lemma demo_fifo_wf: "fifo_wf demo_fifo" "fifo_contents demo_fifo = []" "fifo_size demo_fifo = 2" "fifo_count demo_fifo = 0"
  by (simp_all add: fifo_wf_def fifo_ok_def demo_fifo_def IS_POWER_OF_TWO_def fifo_list_def fifo_count_def fifo_contents_def)

lemma contents_push: "fifo_wf f \<Longrightarrow> length (fifo_contents f) < unat (fifo_size f) \<Longrightarrow>
    FifoPut f e = (fifo_push f e, 0) \<and> fifo_wf (fifo_push f e) \<and> fifo_contents (fifo_push f e) = fifo_contents f @ [e]"
  using wf_push [of f e] list_push [of f e] by (simp add: fifo_wf_def FifoPut_eq fifo_contents_def)

theorem ingress_drains_witness:
  "\<exists>f'. fifo_contents f' = [] \<and> IngressDataProcesssInput demo_ig_env True (fifo_push demo_fifo ''dirty'') demo_ingress = Ok (f', demo_ingress, 0)"
proof -
  have "fifo_wf (fifo_push demo_fifo ''dirty'')" "fifo_contents (fifo_push demo_fifo ''dirty'') = [''dirty'']"
    using contents_push [OF demo_fifo_wf(1), of "''dirty''"] by (simp_all add: demo_fifo_wf)
  with ingress_drains [OF this(1), of demo_ig_env demo_ingress] show ?thesis
    by (auto simp: process_line_def GetTableNameAndContent_def)
qed

section \<open>The lines of a probe\<close>

lemma send_prefix:
  "CHR 0x0A \<notin> set l \<Longrightarrow> length (s @ l) \<le> MAX_DATA_STR_LEN \<Longrightarrow>
   sendOutputToIngresss malloc_ok write_ok i (l @ rest) (Some s) f =
   sendOutputToIngresss malloc_ok write_ok (i + length l) rest (Some (s @ l)) f"
proof (induction l arbitrary: i s)
  case (Cons c l)
  have "sendOutputToIngresss malloc_ok write_ok (i + 1) (l @ rest) (Some (s @ [c])) f =
      sendOutputToIngresss malloc_ok write_ok (i + 1 + length l) rest (Some ((s @ [c]) @ l)) f"
    using Cons.prems by (intro Cons.IH) simp_all
  then show ?case using Cons.prems by auto
qed simp

lemma send_first:
  assumes "probe_line l" "malloc_ok 0"
  shows "sendOutputToIngresss malloc_ok write_ok 0 (l @ rest) None f = sendOutputToIngresss malloc_ok write_ok (length l) rest (Some l) f"
proof -
  obtain c l' where l: "l = c # l'" using assms(1) by (cases l) (simp_all add: probe_line_def)
  then have "c \<noteq> CHR 0x0A" "CHR 0x0A \<notin> set l'" "length ([c] @ l') \<le> MAX_DATA_STR_LEN" using assms(1) by (auto simp: probe_line_def)
  with send_prefix [of l' "[c]" malloc_ok write_ok 1 rest f] assms(2) show ?thesis by (simp add: l MAX_DATA_STR_LEN_def)
qed

lemma send_line:
  assumes "probe_line l" "malloc_ok 0" "fifo_wf f"
  shows "sendOutputToIngresss malloc_ok write_ok 0 (l @ [CHR 0x0A]) None f =
     Ok (if length (fifo_contents f) < unat (fifo_size f) then fifo_push f l else f, None)"
proof -
  have len: "length l < MAX_DATA_STR_LEN" using assms(1) by (simp add: probe_line_def)
  have "fifo_count f = length (fifo_contents f)" by (simp add: fifo_contents_def)
  then have p: "FifoPut f l = (if length (fifo_contents f) < unat (fifo_size f) then (fifo_push f l, 0) else (f, -1))"
    using assms(3) by (simp add: fifo_wf_def FifoPut_eq)
  show ?thesis unfolding send_first [where malloc_ok = malloc_ok, OF assms(1,2)] using len p by simp
qed

lemma output_lines:
  assumes "\<forall>l \<in> set ls. probe_line l" "fifo_wf f" "length (fifo_contents f) + length ls \<le> unat (fifo_size f)" "malloc_ok 0"
  shows "\<exists>f'. parseExtendProbeOutput malloc_ok write_ok (line_turns ls) f = Ok f' \<and> fifo_wf f' \<and>
     fifo_contents f' = fifo_contents f @ ls \<and> fifo_size f' = fifo_size f"
  using assms(1-3)
proof (induction ls arbitrary: f)
  case Nil
  then show ?case by (simp add: line_turns_def)
next
  case (Cons l ls)
  have p: "fifo_wf (fifo_push f l)" "fifo_contents (fifo_push f l) = fifo_contents f @ [l]"
    using contents_push [of f l] Cons.prems by auto
  have l: "probe_line l" using Cons.prems by simp
  then have h: "hd (l @ [CHR 0x0A]) = CHR ''|''" "length (l @ [CHR 0x0A]) < MAX_DATA_STR_LEN" by (simp_all add: probe_line_def)
  have "sendOutputToIngresss malloc_ok write_ok 0 (l @ [CHR 0x0A]) None f = Ok (fifo_push f l, None)"
    using send_line [where malloc_ok = malloc_ok, OF l assms(4) Cons.prems(2), of write_ok] Cons.prems(3) by simp
  with h have "parseExtendProbeOutput malloc_ok write_ok (line_turns (l # ls)) f =
      parseExtendProbeOutput malloc_ok write_ok (line_turns ls) (fifo_push f l)"
    by (simp add: line_turns_def)
  with Cons.IH [of "fifo_push f l"] p Cons.prems show ?case by auto
qed

text \<open>C23. From the output of an extended probe to the ingress thread nothing is lost, added or
  reordered as long as the queue has room: the lines the probe prints are the lines that are processed,
  without their newlines.\<close>

theorem probe_output_processed:
  assumes "\<forall>l \<in> set ls. probe_line l" "fifo_wf f" "fifo_contents f = []" "length ls \<le> unat (fifo_size f)" "malloc_ok 0"
  shows "\<exists>f1 f2. parseExtendProbeOutput malloc_ok write_ok (line_turns ls) f = Ok f1 \<and> fifo_contents f2 = [] \<and>
     IngressDataProcesssInput env True f1 mgr = bnd (handle_all (process_line env) ls mgr) (\<lambda>mgr'. Ok (f2, mgr', 0))"
proof -
  obtain f1 where f1: "parseExtendProbeOutput malloc_ok write_ok (line_turns ls) f = Ok f1" "fifo_wf f1" "fifo_contents f1 = ls"
    using output_lines [where malloc_ok = malloc_ok and write_ok = write_ok, OF assms(1,2) _ assms(5)] assms(3,4) by auto
  then show ?thesis using ingress_loop.drain [OF f1(2) TrueI, of env mgr]
    by (auto simp: IngressDataProcesssInput_def bnd_def split: outc.splits)
qed

theorem probe_output_processed_witness:
  "\<exists>f1 f2. parseExtendProbeOutput (\<lambda>_. True) (\<lambda>_. True) (line_turns [''|x|1|'', ''|y|2|'']) demo_fifo = Ok f1 \<and>
     IngressDataProcesssInput demo_ig_env True f1 demo_ingress = Ok (f2, demo_ingress, 0)"
proof -
  have a: "\<forall>l \<in> set [''|x|1|'', ''|y|2|'']. probe_line l" by (simp add: probe_line_def MAX_DATA_STR_LEN_def)
  have h: "handle_all (process_line demo_ig_env) [''|x|1|'', ''|y|2|''] demo_ingress = Ok demo_ingress"
    by (simp add: process_line_def GetTableNameAndContent_def MAX_IMDB_TABLE_NAME_LEN_def ProcessMetricData_def
        IMDB_DataBaseMgrFindTable_def demo_ingress_def demo_mgr_def demo_table_def)
  have "length [''|x|1|'', ''|y|2|''] \<le> unat (fifo_size (demo_fifo :: string Fifo))" by (simp add: demo_fifo_wf)
  from probe_output_processed [where malloc_ok = "\<lambda>_. True" and write_ok = "\<lambda>_. True", OF a demo_fifo_wf(1,2) this TrueI, of demo_ig_env demo_ingress]
  show ?thesis unfolding h by auto
qed

section \<open>Metrics into the database\<close>

lemma strsep_bare:
  assumes "\<forall>v \<in> set vs. CHR ''|'' \<notin> set v"
  shows "strsep_all (bare_line vs) = [] # vs @ [[]]"
proof -
  have "\<forall>v \<in> set vs. CHR ''|'' \<notin> set v \<Longrightarrow> CHR ''|'' \<notin> set f0 \<Longrightarrow> strsep_all (f0 @ bare_line vs) = f0 # vs @ [[]]" for f0
  proof (induction vs arbitrary: f0)
    case Nil
    then show ?case by (simp add: bare_line_def strsep_all_append)
  next
    case (Cons v vs)
    have "bare_line (v # vs) = CHR ''|'' # v @ bare_line vs" by (simp add: bare_line_def)
    with Cons show ?case by (simp add: strsep_all_append)
  qed
  from this [of "[]"] assms show ?thesis by simp
qed

lemma parse_tokens_bare:
  assumes "meta_ok mt (keySize r0)" "metricsCapacity r0 = metricsCapacity mt" "\<forall>i. malloc_ok (AMetric i)"
  shows "\<forall>v \<in> set vs. token_ok v \<Longrightarrow> length us \<le> length (metrics mt) \<Longrightarrow> us = [] \<longrightarrow> vs = [] \<or> hd vs \<noteq> [] \<Longrightarrow>
    parse_tokens malloc_ok mt True (line_rec r0 (metrics mt) us) (of_nat (length (key_values (metrics mt) us))) (length us) vs
       = Ok (line_rec r0 (metrics mt) (us @ vs), 0)"
proof (induction vs arbitrary: us)
  case (Cons v vs)
  show ?case
  proof (cases "length us = length (metrics mt)")
    case True
    with Cons.prems show ?thesis by (auto simp: metricsNum_def line_rec_full token_ok_def)
  next
    case False
    then have i: "length us < length (metrics mt)" using Cons.prems by simp
    have "plain v" "v \<noteq> ''\<newline>''" using Cons.prems by (simp_all add: token_ok_def)
    with fill_metric_line [OF assms(1) i, of v malloc_ok] Cons.IH [of "us @ [v]"] Cons.prems i assms(2,3)
    show ?thesis by (auto simp: metricsNum_def)
  qed
qed simp

lemma create_rec_bare:
  assumes "uthash_ok ops" "table_ok ops t" "meta t = Some mt" "meta_ok mt (recordKeySize t)" "\<forall>a. malloc_ok a"
    and "\<forall>v \<in> set vs. token_ok v" "vs \<noteq> []" "hd vs \<noteq> []"
    and "r = line_record t mt (vs @ [[]])" "kept = filter (\<lambda>x. fst x \<noteq> rkey r) (recs ops t)"
    and "length kept < unat (recordsCapability t)"
  shows "\<exists>h. IMDB_DataBaseMgrCreateRec ops malloc_ok now t (bare_line vs)
        = Ok (t\<lparr>records := h\<rparr>, Some (r\<lparr>updateTime := now\<rparr>))
      \<and> ut_iter ops h = kept @ [(rkey r, r\<lparr>updateTime := now\<rparr>)]"
proof -
  let ?r0 = "\<lparr>keySize = recordKeySize t, rkey = [], updateTime = 0, metricsCapacity = metricsCapacity mt, metrics = []\<rparr>"
  obtain h where h: "ut_iter ops h = kept @ [(rkey r, r\<lparr>updateTime := now\<rparr>)]"
      "IMDB_TableAddRecord ops now t r = (t\<lparr>records := h\<rparr>, 0)"
    by (rule table_add_record_result [OF assms(1,2,10), where now = now]) (use assms(11) in simp)
  have bars: "\<forall>v \<in> set vs. CHR ''|'' \<notin> set v" using assms(6) by (simp add: token_ok_def)
  have "parse_tokens malloc_ok mt True (line_record t mt []) 0 0 (vs @ [[]]) = Ok (r, 0)"
    using parse_tokens_bare [of mt ?r0 malloc_ok "vs @ [[]]" "[]"] assms
    by (simp add: line_record_alt key_values_def token_ok_def plain_def)
  then have "IMDB_DataBaseMgrParseContent malloc_ok t (line_record t mt []) (bare_line vs) True = Ok (r, 0)"
    using strsep_bare [OF bars] assms(3,5) by (simp add: IMDB_DataBaseMgrParseContent_def)
  then show ?thesis
    using h assms(3,5) record_create_line [OF assms(4)]
    by (intro exI [of _ h]) (simp add: IMDB_DataBaseMgrCreateRec_def IMDB_RecordUpdateTime_def)
qed

lemma name_and_content:
  assumes "name \<noteq> []" "CHR ''|'' \<notin> set name" "length name < sz"
  shows "GetTableNameAndContent (CHR ''|'' # name @ CHR ''|'' # rest) sz = Some (name, CHR ''|'' # rest)"
proof -
  have "takeWhile (\<lambda>c. c \<noteq> CHR ''|'') (name @ CHR ''|'' # rest) = name"
    using assms(2) by (subst takeWhile_append2) auto
  then show ?thesis using assms by (simp add: GetTableNameAndContent_def Let_def)
qed

lemma bare_line_bar: "bare_line vs = CHR ''|'' # tl (bare_line vs)"
  by (cases vs) (simp_all add: bare_line_def)

lemma metric_line_run:
  assumes "uthash_ok (ge_ops env)" "mgr_ok (ge_ops env) (imdbMgr mgr)" "ti < length (tables (imdbMgr mgr))" "t = tables (imdbMgr mgr) ! ti"
    and "meta t = Some mt" "meta_ok mt (recordKeySize t)" "\<forall>a. ge_imdb_malloc env a"
    and "tname t \<noteq> []" "CHR ''|'' \<notin> set (tname t)" "length (tname t) < MAX_IMDB_TABLE_NAME_LEN" "tname t \<notin> {''log'', ''event''}"
    and "\<forall>v \<in> set vs. token_ok v" "vs \<noteq> []" "hd vs \<noteq> []"
    and "r = line_record t mt (vs @ [[]])" "kept = filter (\<lambda>x. fst x \<noteq> rkey r) (recs (ge_ops env) t)"
    and "length kept < unat (recordsCapability t)"
    and "writeLogsOn mgr" "\<forall>eg. egressMgr mgr = Some eg \<longrightarrow> \<not> metric_kafkaMgr eg"
  shows "\<exists>h. process_line env (''|'' @ tname t @ bare_line vs) mgr =
        Ok (mgr\<lparr>imdbMgr := (imdbMgr mgr)\<lparr>tables := (tables (imdbMgr mgr))[ti := t\<lparr>records := h\<rparr>]\<rparr>\<rparr>) \<and>
      ut_iter (ge_ops env) h = kept @ [(rkey r, r\<lparr>updateTime := env_now (ge_sys env)\<rparr>)]"
proof -
  have "table_ok (ge_ops env) t" using assms(2-4) by (auto simp: mgr_ok_def list_all_length)
  from create_rec_bare [OF assms(1) this assms(5-7,12-17), of "env_now (ge_sys env)"]
  obtain h where h: "IMDB_DataBaseMgrCreateRec (ge_ops env) (ge_imdb_malloc env) (env_now (ge_sys env)) t (bare_line vs)
        = Ok (t\<lparr>records := h\<rparr>, Some (r\<lparr>updateTime := env_now (ge_sys env)\<rparr>))"
      "ut_iter (ge_ops env) h = kept @ [(rkey r, r\<lparr>updateTime := env_now (ge_sys env)\<rparr>)]" by blast
  have "distinct (map tname (tables (imdbMgr mgr)))" using assms(2) by (simp add: mgr_ok_def)
  from find_table_index [OF this assms(3), of 0]
  have f: "IMDB_DataBaseMgrFindTable (imdbMgr mgr) (tname t) = Some ti" by (simp add: IMDB_DataBaseMgrFindTable_def assms(4))
  have c: "GetTableNameAndContent (''|'' @ tname t @ bare_line vs) MAX_IMDB_TABLE_NAME_LEN = Some (tname t, bare_line vs)"
    using name_and_content [OF assms(8-10), of "tl (bare_line vs)"] bare_line_bar [of vs] by simp
  have k: "recordKeySize t \<noteq> 0" using assms(6) by (simp add: meta_ok_def)
  have "ProcessMetricData env mgr (bare_line vs) (tname t) =
      Ok (mgr\<lparr>imdbMgr := (imdbMgr mgr)\<lparr>tables := (tables (imdbMgr mgr))[ti := t\<lparr>records := h\<rparr>]\<rparr>\<rparr>, 0)"
    using assms(18,19) h(1) k by (auto simp: ProcessMetricData_def f assms(4) [symmetric] Let_def split: option.split)
  then show ?thesis using h(2) assms(11) unfolding process_line_def c by (intro exI [of _ h]) simp
qed

text \<open>Empty values in front of the first one that is not do not reach the database at all.\<close>

definition led :: "string list \<Rightarrow> string list" where
  "led vs = dropWhile (\<lambda>v. v = []) vs"

lemma create_rec_led:
  "IMDB_DataBaseMgrCreateRec ops malloc_ok now t (bare_line vs) = IMDB_DataBaseMgrCreateRec ops malloc_ok now t (bare_line (led vs))"
proof (induction vs)
  case (Cons v vs)
  have "bare_line ([] # vs) = ''||'' @ tl (bare_line vs)" "bare_line vs = ''|'' @ tl (bare_line vs)" using bare_line_bar [of vs] by (simp_all add: bare_line_def)
  then show ?case using Cons imdb_empty_first_field_dropped [of ops malloc_ok now t "tl (bare_line vs)"] by (cases "v = []") (simp_all add: led_def)
qed (simp add: led_def)

lemma process_line_led:
  assumes "name \<noteq> []" "CHR ''|'' \<notin> set name" "length name < MAX_IMDB_TABLE_NAME_LEN" "name \<notin> {''log'', ''event''}"
  shows "process_line env (''|'' @ name @ bare_line vs) mgr = process_line env (''|'' @ name @ bare_line (led vs)) mgr"
proof -
  have c: "GetTableNameAndContent (''|'' @ name @ bare_line us) MAX_IMDB_TABLE_NAME_LEN = Some (name, bare_line us)" for us
    using name_and_content [OF assms(1-3), of "tl (bare_line us)"] bare_line_bar [of us] by simp
  show ?thesis using assms(4) unfolding process_line_def c by (simp add: ProcessMetricData_def Let_def create_rec_led [of _ _ _ _ vs] split: option.split)
qed

text \<open>C5. A metric line of an extended probe becomes the record of its table: the values in the order of
  the table's metrics under the key made of the key metrics, replacing an older record of the same key
  and stamped with the time. Empty values in front of the first one that is not empty are lost (\<open>led\<close>), so that the others
  move to the metrics in front of theirs; the bar at the end of the line counts as one more, empty value: a line
  that is one value short sets the next metric to \<open>(null)\<close>. This is for a table of the database whose name is below 32 characters, has no bar and is
  neither \<open>log\<close> nor \<open>event\<close>; for values that hold no bar and no percent sign (a value is passed to \<open>snprintf\<close> as the format), one of them not empty; with room in the
  table and memory for the record; and when the metrics go to the logs and not to Kafka (with Kafka the thread crashes, \<open>metric_to_kafka_crashes\<close>).\<close>

theorem metric_line_stored:
  assumes "uthash_ok (ge_ops env)" "mgr_ok (ge_ops env) (imdbMgr mgr)" "ti < length (tables (imdbMgr mgr))" "t = tables (imdbMgr mgr) ! ti"
    and "meta t = Some mt" "meta_ok mt (recordKeySize t)" "\<forall>a. ge_imdb_malloc env a"
    and "tname t \<noteq> []" "CHR ''|'' \<notin> set (tname t)" "length (tname t) < MAX_IMDB_TABLE_NAME_LEN" "tname t \<notin> {''log'', ''event''}"
    and "\<forall>v \<in> set vs. token_ok v" "\<exists>v \<in> set vs. v \<noteq> []"
    and "r = line_record t mt (led vs @ [[]])" "kept = filter (\<lambda>x. fst x \<noteq> rkey r) (recs (ge_ops env) t)"
    and "length kept < unat (recordsCapability t)"
    and "writeLogsOn mgr" "\<forall>eg. egressMgr mgr = Some eg \<longrightarrow> \<not> metric_kafkaMgr eg"
  shows "\<exists>h. process_line env (''|'' @ tname t @ bare_line vs) mgr =
        Ok (mgr\<lparr>imdbMgr := (imdbMgr mgr)\<lparr>tables := (tables (imdbMgr mgr))[ti := t\<lparr>records := h\<rparr>]\<rparr>\<rparr>) \<and>
      ut_iter (ge_ops env) h = kept @ [(rkey r, r\<lparr>updateTime := env_now (ge_sys env)\<rparr>)]"
proof -
  have "led vs \<noteq> []" using assms(13) by (simp add: led_def dropWhile_eq_Nil_conv)
  moreover from this have "hd (led vs) \<noteq> []" unfolding led_def by (rule hd_dropWhile)
  moreover have "\<forall>v \<in> set (led vs). token_ok v" using assms(12) by (auto simp: led_def dest: set_dropWhileD)
  ultimately show ?thesis using metric_line_run [OF assms(1-11) _ _ _ assms(14-18)] process_line_led [OF assms(8-11), of env vs mgr] by simp
qed

theorem metric_line_stored_witness:
  "\<exists>h. process_line demo_ig_env ''|tcp|42|7|'' demo_ingress =
      Ok (demo_ingress\<lparr>imdbMgr := (demo_mgr ())\<lparr>tables := [demo_table\<lparr>records := h\<rparr>]\<rparr>\<rparr>) \<and>
    length h = 1 \<and> map mval (metrics (snd (h ! 0))) = [''42'', ''7'']"
proof -
  let ?r = "line_record demo_table demo_meta [''42'', ''7'', []]"
  have v: "\<forall>v \<in> set [''42'', ''7'']. token_ok v" by (simp add: token_ok_def plain_def)
  have d: "imdbMgr demo_ingress = demo_mgr ()" "tables (demo_mgr ()) = [demo_table]" "ge_ops demo_ig_env = alist_ops"
    by (simp_all add: demo_ingress_def demo_mgr_def demo_ig_env_def)
  have "\<exists>h. process_line demo_ig_env (''|'' @ tname demo_table @ bare_line [''42'', ''7'']) demo_ingress =
      Ok (demo_ingress\<lparr>imdbMgr := (imdbMgr demo_ingress)\<lparr>tables := (tables (imdbMgr demo_ingress))[0 := demo_table\<lparr>records := h\<rparr>]\<rparr>\<rparr>) \<and>
    ut_iter (ge_ops demo_ig_env) h = [] @ [(rkey ?r, ?r\<lparr>updateTime := env_now (ge_sys demo_ig_env)\<rparr>)]"
    using v demo_mgr_ok [of "()"] demo_meta_ok alist_ops_ok
    by (intro metric_line_stored [where mt = demo_meta and vs = "[''42'', ''7'']" and ti = 0]) (simp_all add: d,
       simp_all add: demo_table_def demo_ig_env_def demo_ingress_def MAX_IMDB_TABLE_NAME_LEN_def recs_def led_def)
  then show ?thesis by (auto simp: d bare_line_def demo_table_def line_record_def line_metrics_def demo_meta_def field_value_def)
qed

section \<open>Kafka\<close>

text \<open>With Kafka as the channel of the metrics the database is not written, so that there is no
  record: the first metric line of any known table makes the ingress thread dereference a null
  pointer.\<close>

theorem metric_to_kafka_crashes:
  assumes "GetTableNameAndContent line MAX_IMDB_TABLE_NAME_LEN = Some (name, content)" "name \<notin> {''log'', ''event''}"
    and "IMDB_DataBaseMgrFindTable (imdbMgr mgr) name = Some ti" "recordKeySize (tables (imdbMgr mgr) ! ti) \<noteq> 0"
    and "\<not> writeLogsOn mgr" "egressMgr mgr = Some eg" "metric_kafkaMgr eg" "ge_malloc env"
  shows "process_line env line mgr = UB"
  using assms by (simp add: process_line_def ProcessMetricData_def Let_def MetricData2Egress_def)

theorem metric_to_kafka_crashes_witness:
  "process_line demo_ig_env ''|tcp|42|7|'' (demo_ingress\<lparr>writeLogsOn := False,
     egressMgr := Some \<lparr>metric_kafkaMgr = True, event_kafkaMgr = False, metric_fifo = demo_fifo, event_fifo = demo_fifo\<rparr>\<rparr>) = UB"
  by (rule metric_to_kafka_crashes [where name = "''tcp''" and content = "''|42|7|''" and ti = 0 and
      eg = "\<lparr>metric_kafkaMgr = True, event_kafkaMgr = False, metric_fifo = demo_fifo, event_fifo = demo_fifo\<rparr>"])
    (simp_all add: GetTableNameAndContent_def MAX_IMDB_TABLE_NAME_LEN_def IMDB_DataBaseMgrFindTable_def demo_ingress_def
      demo_mgr_def demo_table_def demo_ig_env_def)

lemma event_object_bar: "event_object ni env content = Some t \<Longrightarrow> content = CHR ''|'' # tl content"
  by (cases content) (auto simp: event_object_def get_event_fields_def split: option.splits if_splits)

lemma event_queued:
  assumes "no_nul content" "node_ok (nodeInfo (imdbMgr mgr))" "event_object (nodeInfo (imdbMgr mgr)) (ge_sys env) content = Some t"
    "length t < MAX_DATA_STR_LEN" "egressMgr mgr = Some eg" "event_kafkaMgr eg" "\<not> out_chnl_logs mgr" "ge_malloc env" "ge_trigger env"
    "fifo_wf (event_fifo eg)" "length (fifo_contents (event_fifo eg)) < unat (fifo_size (event_fifo eg))"
  shows "process_line env (''|event'' @ content) mgr =
    Ok (mgr\<lparr>egressMgr := Some (eg\<lparr>event_fifo := fifo_push (event_fifo eg) (Msg t)\<rparr>)\<rparr>)"
proof -
  have "EventData2Json (nodeInfo (imdbMgr mgr)) (ge_sys env) content MAX_DATA_STR_LEN = Ok (Some t)"
    using event_json_run [OF assms(1,2), of "ge_sys env" MAX_DATA_STR_LEN] assms(3,4) by simp
  then have "EventData2Egress env (nodeInfo (imdbMgr mgr)) eg content = Ok (eg\<lparr>event_fifo := fifo_push (event_fifo eg) (Msg t)\<rparr>, 0)"
    using assms contents_push [OF assms(10,11), of "Msg t"] by (simp add: EventData2Egress_def queue_msg_def)
  moreover have "GetTableNameAndContent (''|event'' @ content) MAX_IMDB_TABLE_NAME_LEN = Some (''event'', content)"
    using name_and_content [of "''event''" MAX_IMDB_TABLE_NAME_LEN "tl content"] event_object_bar [OF assms(3)]
    by (simp add: MAX_IMDB_TABLE_NAME_LEN_def)
  ultimately show ?thesis using assms(5-7) by (simp add: process_line_def ProcessEventData_def)
qed

lemma produce_events: "handle_all (produce False True) (map Msg ts) k = Ok (k\<lparr>event_topic := event_topic k @ ts\<rparr>)"
  by (induction ts arbitrary: k) (simp_all add: produce_def)

text \<open>C6. An event through the daemon, from the ingress thread on: a line of an event that \<open>process_line\<close> is given is put as the JSON object of the event (the one that the code
  writes, \<open>event_object\<close>) at the end of the event queue of the egress, and the next turn of the egress thread on that queue produces the events that were waiting, in order, and then
  exactly that object, to the event topic, nothing to the topic of the metrics, and leaves the queue empty. The hypotheses: the line is an event with its object, which is below the
  buffer of 8192 characters; events go to Kafka; there is memory, and room in the queue; and the two queues of the egress have different descriptors.\<close>

theorem event_to_kafka:
  assumes "no_nul content" "node_ok (nodeInfo (imdbMgr mgr))" "event_object (nodeInfo (imdbMgr mgr)) (ge_sys env) content = Some t"
    "length t < MAX_DATA_STR_LEN" "egressMgr mgr = Some eg" "event_kafkaMgr eg" "\<not> out_chnl_logs mgr" "ge_malloc env" "ge_trigger env"
    "fifo_wf (event_fifo eg)" "fifo_contents (event_fifo eg) = map Msg ts" "length ts < unat (fifo_size (event_fifo eg))"
    "triggerFd (event_fifo eg) \<noteq> triggerFd (metric_fifo eg)"
  shows "\<exists>mgr' eg' f'. process_line env (''|event'' @ content) mgr = Ok mgr' \<and> egressMgr mgr' = Some eg' \<and>
     EgressDataProcesssInput eg' True (event_fifo eg') k = Ok (f', k\<lparr>event_topic := event_topic k @ ts @ [t]\<rparr>, 0) \<and> fifo_contents f' = []"
proof -
  let ?f = "fifo_push (event_fifo eg) (Msg t)"
  have room: "length (fifo_contents (event_fifo eg)) < unat (fifo_size (event_fifo eg))"
    using assms(11,12) by simp
  note q = event_queued [OF assms(1-10) room]
  have f: "fifo_wf ?f" "fifo_contents ?f = map Msg (ts @ [t])" using contents_push [OF assms(10) room, of "Msg t"] assms(11) by auto
  have fd: "triggerFd ?f = triggerFd (event_fifo eg)" by (simp add: fifo_push_def)
  let ?eg = "eg\<lparr>event_fifo := ?f\<rparr>"
  obtain f' where "fifo_contents f' = []"
    "loop_result (c_loop (egress_step ?eg) (?f, k)) =
      bnd (handle_all (produce (metric_kafkaMgr ?eg \<and> triggerFd ?f = triggerFd (metric_fifo ?eg))
        (event_kafkaMgr ?eg \<and> triggerFd ?f = triggerFd (event_fifo ?eg))) (map Msg (ts @ [t])) k) (\<lambda>s. Ok (f', s))"
    using egress_loop.drain [OF f(1) refl, of ?eg k] unfolding f(2) by blast
  then have "EgressDataProcesssInput ?eg True (event_fifo ?eg) k = Ok (f', k\<lparr>event_topic := event_topic k @ ts @ [t]\<rparr>, 0)"
    using assms(6,13) fd by (simp add: EgressDataProcesssInput_def produce_events del: map_append)
  with q \<open>fifo_contents f' = []\<close> show ?thesis by fastforce
qed

theorem event_to_kafka_witness:
  "\<exists>mgr' eg' f'. process_line demo_ig_env ''|event|tcp_link|/a|rx|7|sh|ip|||eth0|WARN|13|slow|'' demo_ingress = Ok mgr' \<and> egressMgr mgr' = Some eg' \<and>
     EgressDataProcesssInput eg' True (event_fifo eg') \<lparr>metric_topic = [], event_topic = []\<rparr> =
       Ok (f', \<lparr>metric_topic = [], event_topic = [''{'' @ joinc (event_members (nodeInfo (demo_mgr ())) demo_env demo_event) @ ''}'']\<rparr>, 0)"
proof -
  let ?ni = "nodeInfo (demo_mgr () :: ((string \<times> IMDB_Record) list, unit) IMDB_DataBaseMgr)"
  let ?c = "''|tcp_link|/a|rx|7|sh|ip|||eth0|WARN|13|slow|''"
  have ni: "?ni = \<lparr>ni_uuid = ''u'', ni_hostName = [], ni_hostIP = ''h''\<rparr>" by (simp add: nodeInfo_def demo_mgr_def)
  have f: "get_event_fields EVT_ORIG_FIELD_MAX ?c = Some demo_event" by code_simp
  note len = length_lld [of "get_curr_timestamp_ms demo_env"]
  have o: "event_object ?ni demo_env ?c = Some (''{'' @ joinc (event_members ?ni demo_env demo_event) @ ''}'')"
    using len by (simp add: event_object_def f ni entity_id_text_def event_id_text_def metric_id_text_def demo_event_def
        ENTITY_ID_LEN_def EVENT_ID_LEN_def METRIC_ID_LEN_def)
  have l: "length (''{'' @ joinc (event_members ?ni demo_env demo_event) @ ''}'') < MAX_DATA_STR_LEN"
    using len by (simp add: event_members_def json_member_def attrs_text_def labels_text_def labelNames_def snprintf_s_def
        entity_id_text_def event_id_text_def metric_id_text_def ni demo_event_def MAX_DATA_STR_LEN_def)
  have m: "imdbMgr demo_ingress = demo_mgr ()" "ge_sys demo_ig_env = demo_env" "\<not> out_chnl_logs demo_ingress" "ge_malloc demo_ig_env" "ge_trigger demo_ig_env"
    by (simp_all add: demo_ingress_def demo_ig_env_def)
  have nul: "no_nul ?c" "node_ok (nodeInfo (imdbMgr demo_ingress))" by (simp_all add: m(1) ni node_ok_def)
  obtain eg where eg: "egressMgr demo_ingress = Some eg" "event_kafkaMgr eg" "fifo_wf (event_fifo eg)" "fifo_contents (event_fifo eg) = map Msg []"
    "length ([] :: string list) < unat (fifo_size (event_fifo eg))" "triggerFd (event_fifo eg) \<noteq> triggerFd (metric_fifo eg)"
    by (simp add: demo_ingress_def fifo_wf_def fifo_ok_def demo_fifo_def IS_POWER_OF_TWO_def fifo_list_def fifo_count_def fifo_contents_def)
  from event_to_kafka [OF nul _ l eg(1,2) m(3-5) eg(3-6), of "\<lparr>metric_topic = [], event_topic = []\<rparr>"] o show ?thesis
    by (auto simp: m(1,2))
qed

end
