(* ===== verification/Metric_Logs.thy ===== *)
theory Metric_Logs
  imports Imdb_Export
begin

text \<open>
  The files the daemon writes metrics, events and metadata to, \<open>common/logs.cpp\<close>, the thread that fills them from the database, \<open>lib/imdb/metrics.c\<close>, and the
  web server that serves them, \<open>web_server/web_server.c\<close>. Between them the metrics of the database reach the client once; a write between the reading of the file's name
  and its removal is lost.
\<close>

section \<open>Log files\<close>

definition INVALID_FILE_ID :: int where "INVALID_FILE_ID = - 1"
definition INT_MAX :: int where "INT_MAX = 2 ^ 31 - 1"
definition LOG_PATH_LEN :: nat where "LOG_PATH_LEN = 256"
definition COMMAND_LEN :: nat where "COMMAND_LEN = 256"
definition METRICS_LOGS_FILESIZE :: nat where "METRICS_LOGS_FILESIZE = 104857600"
definition LOGS_MAXNUM :: nat where "LOGS_MAXNUM = 100"
definition LEN_1M :: nat where "LEN_1M = 1048576"

record file_node_s =
  fn_len :: nat
  fn_id :: int

text \<open>\<open>queue\<close> is the array behind the structure; \<open>rear\<close> counts up and is reduced where it is used.\<close>

record files_queue_s =
  next_file_id :: int
  que_size :: nat
  q_front :: nat
  q_rear :: int
  q_current :: file_node_s
  q_nodes :: "file_node_s list"

record log_mgr_s =
  metrics_files :: "files_queue_s option"
  event_files :: "files_queue_s option"
  app_name :: string
  debug_path :: string
  event_path :: string
  metrics_path :: string
  meta_path :: string
  raw_path :: string
  is_metric_out_log :: bool
  is_event_out_log :: bool
  is_meta_out_log :: bool

text \<open>
  What is outside the program: \<open>popen\<close> of a command, the constructor of a log4cplus appender on a file, and a message that a logger hands to the
  appender. The rest of the state of the module: the files, the manager in use, the file each logger appends to, and the two absolute paths.
\<close>

type_synonym files = "string \<rightharpoonup> string"

record log_env =
  le_run :: "string \<Rightarrow> files \<Rightarrow> files"
  le_open :: "string \<Rightarrow> files \<Rightarrow> files"
  le_log :: "string \<Rightarrow> string \<Rightarrow> files \<Rightarrow> files"

record log_state =
  ls_files :: files
  ls_local :: "log_mgr_s option"
  ls_metrics_app :: "string option"
  ls_event_app :: "string option"
  ls_debug_app :: "string option"
  ls_meta_app :: "string option"
  ls_meta_abs_path :: string
  ls_debug_abs_path :: string

definition rm_log_file :: "log_env \<Rightarrow> string \<Rightarrow> log_state \<Rightarrow> log_state" where
  "rm_log_file env full_path st = st\<lparr>ls_files := le_run env (snprintf_s COMMAND_LEN (''/usr/bin/rm -rf '' @ full_path)) (ls_files st)\<rparr>"

definition log_path :: "log_mgr_s \<Rightarrow> bool \<Rightarrow> string" where
  "log_path mgr is_metrics = (if is_metrics then metrics_path mgr else event_path mgr)"

definition get_file_name :: "log_mgr_s \<Rightarrow> bool \<Rightarrow> int \<Rightarrow> nat \<Rightarrow> string option" where
  "get_file_name mgr is_metrics file_id sz =
     (let path = log_path mgr is_metrics; ftype = (if is_metrics then ''metrics'' else ''event'') in
      if path = [] then None
      else Some (snprintf_s sz (path @ (if last path = CHR ''/'' then [] else ''/'') @ ''gopher_'' @ ftype @ ''_'' @ show_lld file_id)))"

section \<open>The queue of files\<close>

definition is_empty_queue :: "files_queue_s \<Rightarrow> bool" where
  "is_empty_queue q \<longleftrightarrow> q_rear q mod int (que_size q) = int (q_front q)"

definition is_full_queue :: "files_queue_s \<Rightarrow> bool" where
  "is_full_queue q \<longleftrightarrow> (q_rear q + 1) mod int (que_size q) = int (q_front q)"

text \<open>Counting \<open>rear\<close> up beyond the largest integer is undefined.\<close>

definition en_queue :: "files_queue_s \<Rightarrow> int \<Rightarrow> nat \<Rightarrow> (int \<times> files_queue_s) outc" where
  "en_queue q file_id len =
     (if q_rear q = INT_MAX then UB
      else if is_full_queue q then Ok (- 1, q)
      else Ok (0, q\<lparr>q_nodes := (q_nodes q)[nat (q_rear q mod int (que_size q)) := \<lparr>fn_len = len, fn_id = file_id\<rparr>], q_rear := q_rear q + 1\<rparr>))"

definition de_queue :: "files_queue_s \<Rightarrow> int \<times> files_queue_s" where
  "de_queue q =
     (if is_empty_queue q then (INVALID_FILE_ID, q)
      else (fn_id (q_nodes q ! q_front q),
            q\<lparr>q_nodes := (q_nodes q)[q_front q := \<lparr>fn_len = 0, fn_id = INVALID_FILE_ID\<rparr>], q_front := (q_front q + 1) mod que_size q\<rparr>))"

definition create_queue :: "bool \<Rightarrow> nat \<Rightarrow> files_queue_s option" where
  "create_queue alloc sz = (if \<not> alloc then None
     else Some \<lparr>next_file_id = 0, que_size = sz, q_front = 0, q_rear = 0, q_current = \<lparr>fn_len = 0, fn_id = INVALID_FILE_ID\<rparr>,
       q_nodes = replicate sz \<lparr>fn_len = 0, fn_id = 0\<rparr>\<rparr>)"

definition que_remove_current :: "files_queue_s \<Rightarrow> int \<times> files_queue_s" where
  "que_remove_current q = (fn_id (q_current q), q\<lparr>q_current := \<lparr>fn_len = 0, fn_id = INVALID_FILE_ID\<rparr>\<rparr>)"

definition que_pop_file :: "files_queue_s \<Rightarrow> int \<times> files_queue_s" where
  "que_pop_file q = (case de_queue q of (file_id, q) \<Rightarrow> if file_id = INVALID_FILE_ID then que_remove_current q else (file_id, q))"

definition que_get_next_file :: "files_queue_s \<Rightarrow> (int \<times> files_queue_s) outc" where
  "que_get_next_file q =
     bnd (if fn_id (q_current q) \<noteq> INVALID_FILE_ID then en_queue q (fn_id (q_current q)) (fn_len (q_current q)) else Ok (0, q)) (\<lambda>(ret, q).
       if ret \<noteq> 0 then Ok (- 1, q)
       else if next_file_id q = INT_MAX then UB
       else Ok (0, q\<lparr>q_current := \<lparr>fn_len = 0, fn_id = next_file_id q\<rparr>, next_file_id := next_file_id q + 1\<rparr>))"

definition que_current_is_invalid :: "log_state \<Rightarrow> log_mgr_s \<Rightarrow> bool \<Rightarrow> files_queue_s \<Rightarrow> bool" where
  "que_current_is_invalid st mgr is_metrics q =
     (case get_file_name mgr is_metrics (fn_id (q_current q)) LOG_PATH_LEN of None \<Rightarrow> True | Some p \<Rightarrow> ls_files st p = None)"

definition que_current_set_size :: "nat \<Rightarrow> files_queue_s \<Rightarrow> files_queue_s" where
  "que_current_set_size n q = q\<lparr>q_current := (q_current q)\<lparr>fn_len := fn_len (q_current q) + n\<rparr>\<rparr>"

section \<open>Writing and reading\<close>

text \<open>The queue of a kind of logs and its logger; the manager has no queue of a kind that is not logged.\<close>

definition files_of :: "bool \<Rightarrow> log_mgr_s \<Rightarrow> files_queue_s option" where
  "files_of is_metrics mgr = (if is_metrics then metrics_files mgr else event_files mgr)"

definition set_files :: "bool \<Rightarrow> files_queue_s \<Rightarrow> log_mgr_s \<Rightarrow> log_mgr_s" where
  "set_files is_metrics q mgr = (if is_metrics then mgr\<lparr>metrics_files := Some q\<rparr> else mgr\<lparr>event_files := Some q\<rparr>)"

definition put_files :: "bool \<Rightarrow> files_queue_s \<Rightarrow> log_mgr_s \<Rightarrow> log_state \<Rightarrow> log_state" where
  "put_files is_metrics q mgr st = st\<lparr>ls_local := Some (set_files is_metrics q mgr)\<rparr>"

text \<open>\<open>append_metrics_logger\<close> and \<open>append_event_logger\<close>: the next file, removed if it is there, is opened by a new appender.\<close>

definition append_logger :: "log_env \<Rightarrow> bool \<Rightarrow> log_mgr_s \<Rightarrow> files_queue_s \<Rightarrow> log_state \<Rightarrow> (int \<times> log_state) outc" where
  "append_logger env is_metrics mgr q st =
     bnd (que_get_next_file q) (\<lambda>(ret, q). let st = put_files is_metrics q mgr st in
       if ret \<noteq> 0 then Ok (- 1, st)
       else case get_file_name mgr is_metrics (fn_id (q_current q)) LOG_PATH_LEN of None \<Rightarrow> Ok (- 1, st)
       | Some p \<Rightarrow> let st = rm_log_file env p st; st = st\<lparr>ls_files := le_open env p (ls_files st)\<rparr> in
           Ok (0, if is_metrics then st\<lparr>ls_metrics_app := Some p\<rparr> else st\<lparr>ls_event_app := Some p\<rparr>))"

text \<open>The first half of a write: a file to write to.\<close>

definition wr_check :: "log_env \<Rightarrow> bool \<Rightarrow> log_state \<Rightarrow> (int \<times> log_state) outc" where
  "wr_check env is_metrics st =
     (case ls_local st of None \<Rightarrow> Ok (- 1, st)
      | Some mgr \<Rightarrow> (case files_of is_metrics mgr of None \<Rightarrow> UB
          | Some q \<Rightarrow> if que_current_is_invalid st mgr is_metrics q then append_logger env is_metrics mgr q st else Ok (0, st)))"

text \<open>The second half: the text is the format of the message, and events end with a newline.\<close>

definition wr_text :: "log_env \<Rightarrow> bool \<Rightarrow> string \<Rightarrow> log_state \<Rightarrow> log_state outc" where
  "wr_text env is_metrics logs st =
     bnd (format_text logs) (\<lambda>t.
       let files = (case if is_metrics then ls_metrics_app st else ls_event_app st of None \<Rightarrow> ls_files st
                    | Some p \<Rightarrow> le_log env p (t @ (if is_metrics then [] else ''\<newline>'')) (ls_files st)) in
       case ls_local st of None \<Rightarrow> UB
       | Some mgr \<Rightarrow> (case files_of is_metrics mgr of None \<Rightarrow> UB
           | Some q \<Rightarrow> Ok (put_files is_metrics (que_current_set_size (length logs) q) mgr (st\<lparr>ls_files := files\<rparr>))))"

definition wr_logs :: "log_env \<Rightarrow> bool \<Rightarrow> string \<Rightarrow> log_state \<Rightarrow> (int \<times> log_state) outc" where
  "wr_logs env is_metrics logs st =
     bnd (wr_check env is_metrics st) (\<lambda>(ret, st). if ret \<noteq> 0 then Ok (- 1, st) else bnd (wr_text env is_metrics logs st) (\<lambda>st. Ok (0, st)))"

definition wr_metrics_logs :: "log_env \<Rightarrow> string \<Rightarrow> log_state \<Rightarrow> (int \<times> log_state) outc" where
  "wr_metrics_logs env = wr_logs env True"

definition wr_event_logs :: "log_env \<Rightarrow> string \<Rightarrow> log_state \<Rightarrow> (int \<times> log_state) outc" where
  "wr_event_logs env = wr_logs env False"

definition read_logs :: "bool \<Rightarrow> nat \<Rightarrow> log_state \<Rightarrow> (string option \<times> log_state) outc" where
  "read_logs is_metrics sz st =
     (case ls_local st of None \<Rightarrow> Ok (None, st)
      | Some mgr \<Rightarrow> (case files_of is_metrics mgr of None \<Rightarrow> UB
          | Some q \<Rightarrow> (case que_pop_file q of (file_id, q) \<Rightarrow> let st = put_files is_metrics q mgr st in
              if file_id = INVALID_FILE_ID then Ok (None, st) else Ok (get_file_name mgr is_metrics file_id sz, st))))"

definition read_metrics_logs :: "nat \<Rightarrow> log_state \<Rightarrow> (string option \<times> log_state) outc" where
  "read_metrics_logs = read_logs True"

definition read_event_logs :: "nat \<Rightarrow> log_state \<Rightarrow> (string option \<times> log_state) outc" where
  "read_event_logs = read_logs False"

section \<open>The manager\<close>

definition dir_file :: "string \<Rightarrow> string \<Rightarrow> string" where
  "dir_file dir name = snprintf_s (2 * LOG_PATH_LEN) (dir @ (if last dir = CHR ''/'' then [] else ''/'') @ name)"

definition append_meta_logger :: "log_env \<Rightarrow> log_mgr_s \<Rightarrow> log_state \<Rightarrow> int \<times> log_state" where
  "append_meta_logger env mgr st =
     (if meta_path mgr = [] then (- 1, st)
      else let p = dir_file (meta_path mgr) ''gopher_meta.log'' in
        (0, st\<lparr>ls_meta_abs_path := p, ls_files := le_open env p (ls_files st), ls_meta_app := Some p\<rparr>))"

definition append_debug_logger :: "log_env \<Rightarrow> log_mgr_s \<Rightarrow> log_state \<Rightarrow> int \<times> log_state" where
  "append_debug_logger env mgr st =
     (if debug_path mgr = [] then (- 1, st)
      else let p = dir_file (debug_path mgr) (if app_name mgr = [] then ''gopher_debug.log'' else app_name mgr) in
        (0, st\<lparr>ls_debug_abs_path := p, ls_files := le_open env p (ls_files st), ls_debug_app := Some p\<rparr>))"

text \<open>\<open>alloc\<close>: memory for the manager and the two queues.\<close>

definition create_log_mgr :: "bool \<times> bool \<times> bool \<Rightarrow> string option \<Rightarrow> bool \<Rightarrow> bool \<Rightarrow> log_mgr_s option" where
  "create_log_mgr alloc name is_metric_out is_event_out =
     (case alloc of (a, am, ae) \<Rightarrow>
      if \<not> a then None
      else if is_metric_out \<and> create_queue am LOGS_MAXNUM = None then None
      else if is_event_out \<and> create_queue ae LOGS_MAXNUM = None then None
      else Some \<lparr>metrics_files = (if is_metric_out then create_queue am LOGS_MAXNUM else None), event_files = (if is_event_out then create_queue ae LOGS_MAXNUM else None),
        app_name = (case name of None \<Rightarrow> [] | Some n \<Rightarrow> snprintf_s LOG_PATH_LEN n), debug_path = [], event_path = [], metrics_path = [], meta_path = [], raw_path = [],
        is_metric_out_log = is_metric_out, is_event_out_log = is_event_out, is_meta_out_log = False\<rparr>)"

text \<open>All loggers are made anew. The raw logs, of stand-alone probes, and the level of the debug log are left out.\<close>

definition init_log_mgr :: "log_env \<Rightarrow> log_mgr_s \<Rightarrow> bool \<Rightarrow> log_state \<Rightarrow> int \<times> log_state" where
  "init_log_mgr env mgr is_meta_out st =
     (let st = st\<lparr>ls_metrics_app := None, ls_event_app := None, ls_debug_app := None, ls_meta_app := None\<rparr>;
          (_, st) = (if debug_path mgr \<noteq> [] then append_debug_logger env mgr st else (0, st));
          mgr = (if is_meta_out then mgr\<lparr>is_meta_out_log := True\<rparr> else mgr);
          (_, st) = (if is_meta_out \<and> meta_path mgr \<noteq> [] then append_meta_logger env mgr st else (0, st)) in
      (0, st\<lparr>ls_local := Some mgr\<rparr>))"

definition destroy_log_mgr :: "log_state \<Rightarrow> log_state" where
  "destroy_log_mgr st = st\<lparr>ls_local := None, ls_metrics_app := None, ls_event_app := None, ls_debug_app := None, ls_meta_app := None\<rparr>"

definition wr_meta_logs :: "log_env \<Rightarrow> string \<Rightarrow> log_state \<Rightarrow> log_state outc" where
  "wr_meta_logs env logs st =
     bnd (if ls_files st (ls_meta_abs_path st) = None then (case ls_local st of None \<Rightarrow> UB | Some mgr \<Rightarrow> Ok (snd (append_meta_logger env mgr st))) else Ok st) (\<lambda>st.
     bnd (format_text logs) (\<lambda>t. Ok (case ls_meta_app st of None \<Rightarrow> st | Some p \<Rightarrow> st\<lparr>ls_files := le_log env p (t @ ''\<newline>'') (ls_files st)\<rparr>)))"

section \<open>The thread that writes the metrics\<close>

definition WriteMetricsLogs :: "'h rec_ops \<Rightarrow> 'g tgid_ops \<Rightarrow> (asite \<Rightarrow> bool) \<Rightarrow> sys_env \<Rightarrow> u32 \<Rightarrow> log_env
    \<Rightarrow> ('h, 'g) IMDB_DataBaseMgr \<Rightarrow> log_state \<Rightarrow> (int \<times> ('h, 'g) IMDB_DataBaseMgr \<times> log_state) outc" where
  "WriteMetricsLogs ops gops malloc_ok sys timeout env mgr st =
     bnd (IMDB_DataBase2Prometheus ops gops malloc_ok sys timeout mgr LEN_1M) (\<lambda>(mgr, r).
       case r of None \<Rightarrow> Ok (- 1, mgr, st)
       | Some buffer \<Rightarrow> if buffer = [] then Ok (0, mgr, st)
           else bnd (wr_metrics_logs env buffer st) (\<lambda>(ret, st). Ok (if ret < 0 then - 1 else 0, mgr, st)))"

text \<open>One round per second until one fails, when it is on; \<open>None\<close> while it runs.\<close>

fun write_rounds :: "'h rec_ops \<Rightarrow> 'g tgid_ops \<Rightarrow> (asite \<Rightarrow> bool) \<Rightarrow> u32 \<Rightarrow> log_env \<Rightarrow> sys_env list
    \<Rightarrow> ('h, 'g) IMDB_DataBaseMgr \<Rightarrow> log_state \<Rightarrow> (unit option \<times> ('h, 'g) IMDB_DataBaseMgr \<times> log_state) outc" where
  "write_rounds ops gops malloc_ok timeout env [] mgr st = Ok (None, mgr, st)"
| "write_rounds ops gops malloc_ok timeout env (sys # rounds) mgr st =
     bnd (WriteMetricsLogs ops gops malloc_ok sys timeout env mgr st) (\<lambda>(ret, mgr, st).
       if ret < 0 then Ok (Some (), mgr, st) else write_rounds ops gops malloc_ok timeout env rounds mgr st)"

definition WriteMetricsLogsMain :: "'h rec_ops \<Rightarrow> 'g tgid_ops \<Rightarrow> (asite \<Rightarrow> bool) \<Rightarrow> u32 \<Rightarrow> log_env \<Rightarrow> bool \<Rightarrow> sys_env list
    \<Rightarrow> ('h, 'g) IMDB_DataBaseMgr \<Rightarrow> log_state \<Rightarrow> (unit option \<times> ('h, 'g) IMDB_DataBaseMgr \<times> log_state) outc" where
  "WriteMetricsLogsMain ops gops malloc_ok timeout env writeLogsOn rounds mgr st =
     (if \<not> writeLogsOn then Ok (Some (), mgr, st) else write_rounds ops gops malloc_ok timeout env rounds mgr st)"

section \<open>The web server\<close>

text \<open>The results of libmicrohttpd: a response from a buffer or a file, its header, and the queue of the connection.\<close>

record mhd =
  mhd_create :: bool
  mhd_header :: bool
  mhd_queue :: bool

datatype web_reply = MHD_NO | MHD_YES_first | Reply_Empty | Reply_File string

definition WebResponseEmptyMetric :: "mhd \<Rightarrow> web_reply" where
  "WebResponseEmptyMetric m = (if mhd_create m \<and> mhd_header m \<and> mhd_queue m then Reply_Empty else MHD_NO)"

text \<open>\<open>seen\<close>: the callback has been called for the request before; \<open>readable\<close>: the file can be opened and is a regular one.\<close>

definition WebRequestCallback :: "log_env \<Rightarrow> mhd \<Rightarrow> (string \<Rightarrow> bool) \<Rightarrow> string \<Rightarrow> bool \<Rightarrow> nat \<Rightarrow> log_state \<Rightarrow> (web_reply \<times> log_state) outc" where
  "WebRequestCallback env m readable http_method seen upload_data_size st =
     (if http_method \<noteq> ''GET'' then Ok (MHD_NO, st)
      else if \<not> seen then Ok (MHD_YES_first, st)
      else if upload_data_size \<noteq> 0 then Ok (MHD_NO, st)
      else bnd (read_metrics_logs LOG_PATH_LEN st) (\<lambda>(name, st).
        case name of None \<Rightarrow> Ok (WebResponseEmptyMetric m, st)
        | Some p \<Rightarrow> (case ls_files st p of None \<Rightarrow> Ok (WebResponseEmptyMetric m, st)
            | Some text \<Rightarrow>
                if \<not> readable p then Ok (WebResponseEmptyMetric m, st)
                else if \<not> mhd_create m then Ok (MHD_NO, st)
                else let st = rm_log_file env p st in
                  if \<not> mhd_header m \<or> \<not> mhd_queue m then Ok (MHD_NO, st) else Ok (Reply_File text, st))))"

record WebServer =
  web_port :: "16 word"
  web_daemon :: bool

definition WebServerCreate :: "bool \<Rightarrow> 16 word \<Rightarrow> WebServer option" where
  "WebServerCreate alloc p = (if \<not> alloc then None else Some \<lparr>web_port = p, web_daemon = False\<rparr>)"

definition WebServerStartDaemon :: "(16 word \<Rightarrow> bool) \<Rightarrow> WebServer \<Rightarrow> int \<times> WebServer" where
  "WebServerStartDaemon start w = (let d = start (web_port w) in (if d then 0 else - 1, w\<lparr>web_daemon := d\<rparr>))"


section \<open>What is written is served\<close>

text \<open>A path that the shell takes as one word, as it is.\<close>

definition shell_word :: "string \<Rightarrow> bool" where
  "shell_word p \<longleftrightarrow> list_all (\<lambda>c. c \<in> set ''abcdefghijklmnopqrstuvwxyzABCDEFGHIJKLMNOPQRSTUVWXYZ0123456789/._-'') p"

text \<open>
  The documented behaviour of the outside: \<open>rm -rf\<close> removes a file that is no directory; an appender creates its file or finds it; a message goes to the end
  of the file while the file is below its limit, and nowhere once the file has been removed.
\<close>

definition log_env_ok :: "log_env \<Rightarrow> bool" where
  "log_env_ok env \<longleftrightarrow>
     (\<forall>p fs. shell_word p \<and> (\<forall>q. fs (p @ CHR ''/'' # q) = None) \<longrightarrow> le_run env (''/usr/bin/rm -rf '' @ p) fs = fs(p := None))
     \<and> (\<forall>p fs. le_open env p fs = (case fs p of None \<Rightarrow> fs(p \<mapsto> []) | Some _ \<Rightarrow> fs))
     \<and> (\<forall>p t fs c. fs p = Some c \<and> length c + length t \<le> METRICS_LOGS_FILESIZE \<longrightarrow> le_log env p t fs = fs(p \<mapsto> c @ t))
     \<and> (\<forall>p t fs. fs p = None \<longrightarrow> le_log env p t fs = fs)"

text \<open>Exports of the database and requests of the metrics, one after the other.\<close>

datatype log_op = LWrite string | LGet

fun serve_run :: "log_env \<Rightarrow> log_op list \<Rightarrow> log_state \<Rightarrow> (web_reply list \<times> log_state) option outc" where
  "serve_run env [] st = Ok (Some ([], st))"
| "serve_run env (LWrite t # xs) st = bnd (wr_metrics_logs env t st) (\<lambda>(ret, st). if ret \<noteq> 0 then Ok None else serve_run env xs st)"
| "serve_run env (LGet # xs) st =
     bnd (WebRequestCallback env \<lparr>mhd_create = True, mhd_header = True, mhd_queue = True\<rparr> (\<lambda>_. True) ''GET'' True 0 st) (\<lambda>(reply, st).
     bnd (serve_run env xs st) (\<lambda>r. Ok (map_option (\<lambda>(rs, st). (reply # rs, st)) r)))"

text \<open>What they should see: every request gets what was written since the one before.\<close>

fun log_served :: "string \<Rightarrow> log_op list \<Rightarrow> web_reply list" where
  "log_served pending [] = []"
| "log_served pending (LWrite t # xs) = log_served (pending @ t) xs"
| "log_served pending (LGet # xs) = (if pending = [] then Reply_Empty else Reply_File pending) # log_served [] xs"

text \<open>The texts are no formats, and what is pending stays below the size of a file.\<close>

fun log_ops_ok :: "nat \<Rightarrow> log_op list \<Rightarrow> bool" where
  "log_ops_ok n [] \<longleftrightarrow> True"
| "log_ops_ok n (LWrite t # xs) \<longleftrightarrow> plain t \<and> t \<noteq> [] \<and> n + length t \<le> METRICS_LOGS_FILESIZE \<and> log_ops_ok (n + length t) xs"
| "log_ops_ok n (LGet # xs) \<longleftrightarrow> log_ops_ok 0 xs"

definition fname :: "string \<Rightarrow> int \<Rightarrow> string" where
  "fname dir n = dir @ (if last dir = CHR ''/'' then [] else ''/'') @ ''gopher_metrics_'' @ show_lld n"

definition log_dir_ok :: "string \<Rightarrow> bool" where
  "log_dir_ok dir \<longleftrightarrow> dir \<noteq> [] \<and> shell_word dir \<and> length dir \<le> 200"

text \<open>\<open>pending\<close> is in the current file; \<open>k\<close> bounds the number of files made so far.\<close>

definition log_inv :: "string \<Rightarrow> nat \<Rightarrow> log_state \<Rightarrow> string \<Rightarrow> bool" where
  "log_inv dir k st pending \<longleftrightarrow> (\<exists>mgr q. ls_local st = Some mgr \<and> metrics_files mgr = Some q \<and> metrics_path mgr = dir
     \<and> q_front q = 0 \<and> q_rear q = 0 \<and> 1 < que_size q \<and> 0 \<le> next_file_id q \<and> next_file_id q \<le> int k
     \<and> (fn_id (q_current q) = - 1 \<and> pending = []
        \<or> 0 \<le> fn_id (q_current q) \<and> pending \<noteq> [] \<and> ls_files st (fname dir (fn_id (q_current q))) = Some pending
          \<and> ls_metrics_app st = Some (fname dir (fn_id (q_current q))))
     \<and> ls_files st (fname dir (- 1)) = None \<and> (\<forall>n q. 0 \<le> n \<longrightarrow> ls_files st (fname dir n @ CHR ''/'' # q) = None))"

subsection \<open>Names\<close>

lemma fname_minus_one: "0 \<le> n \<Longrightarrow> fname dir n \<noteq> fname dir (- 1)"
  using show_lld_nonneg [of n] by (auto simp: fname_def show_lld_minus_one)

lemma file_name_exact:
  assumes "log_dir_ok dir" "metrics_path mgr = dir" "n = - 1 \<or> 0 \<le> n"
  shows "get_file_name mgr True n LOG_PATH_LEN = Some (fname dir n)"
proof -
  have "length (show_lld n) \<le> 20" using assms(3) show_lld_nonneg [of n] by (auto simp: show_lld_minus_one)
  then have "length (fname dir n) \<le> 255" using assms(1) by (auto simp: fname_def log_dir_ok_def)
  then show ?thesis using assms(1,2) by (simp add: get_file_name_def log_path_def Let_def snprintf_s_def LOG_PATH_LEN_def fname_def log_dir_ok_def)
qed

lemma rm_file:
  assumes "log_env_ok env" "log_dir_ok dir" "0 \<le> n" "\<And>q. ls_files st (fname dir n @ CHR ''/'' # q) = None"
  shows "rm_log_file env (fname dir n) st = st\<lparr>ls_files := (ls_files st)(fname dir n := None)\<rparr>"
proof -
  have l: "set (show_lld n) \<subseteq> set ''0123456789''" "length (show_lld n) \<le> 20" using show_lld_nonneg [OF assms(3)] by blast+
  then have "shell_word (fname dir n)" using assms(2) by (fastforce simp: fname_def shell_word_def log_dir_ok_def list_all_iff)
  moreover have "length (fname dir n) \<le> 236" using assms(2) l by (auto simp: fname_def log_dir_ok_def)
  ultimately show ?thesis using assms(1,4) by (simp add: rm_log_file_def log_env_ok_def snprintf_s_def COMMAND_LEN_def)
qed


subsection \<open>One write and one request\<close>

lemma log_env_okD:
  assumes "log_env_ok env"
  shows "le_open env p fs = (case fs p of None \<Rightarrow> fs(p \<mapsto> []) | Some _ \<Rightarrow> fs)"
    and "fs p = Some c \<Longrightarrow> length c + length t \<le> METRICS_LOGS_FILESIZE \<Longrightarrow> le_log env p t fs = fs(p \<mapsto> c @ t)"
    and "fs p = None \<Longrightarrow> le_log env p t fs = fs"
  using assms by (simp_all add: log_env_ok_def)

lemma fname_sub_neq:
  assumes "0 \<le> m" "0 \<le> n"
  shows "fname dir n @ CHR ''/'' # q \<noteq> fname dir m"
proof
  assume "fname dir n @ CHR ''/'' # q = fname dir m"
  then have "show_lld m = show_lld n @ CHR ''/'' # q" by (simp add: fname_def split: if_splits)
  then have "CHR ''/'' \<in> set (show_lld m)" by simp
  then show False using show_lld_nonneg [OF assms(1)] by auto
qed

text \<open>A write of the metrics puts its text behind what is pending.\<close>

lemma write_keeps_inv:
  assumes e: "log_env_ok env" and d: "log_dir_ok dir" and i: "log_inv dir k st pending" and t: "plain t" "t \<noteq> []"
    and s: "length pending + length t \<le> METRICS_LOGS_FILESIZE" and k: "int k < INT_MAX"
  shows "\<exists>st'. wr_metrics_logs env t st = Ok (0, st') \<and> log_inv dir (Suc k) st' (pending @ t)"
proof -
  obtain mgr q where m: "ls_local st = Some mgr" "metrics_files mgr = Some q" "metrics_path mgr = dir" "q_front q = 0" "q_rear q = 0" "1 < que_size q"
      "0 \<le> next_file_id q" "next_file_id q \<le> int k" and n: "ls_files st (fname dir (- 1)) = None" and u: "\<forall>n q. 0 \<le> n \<longrightarrow> ls_files st (fname dir n @ CHR ''/'' # q) = None"
    and c: "fn_id (q_current q) = - 1 \<and> pending = [] \<or> 0 \<le> fn_id (q_current q) \<and> pending \<noteq> [] \<and> ls_files st (fname dir (fn_id (q_current q))) = Some pending
          \<and> ls_metrics_app st = Some (fname dir (fn_id (q_current q)))"
    using i unfolding log_inv_def by blast
  have f: "format_text t = Ok t" using t(1) by (simp add: format_text_plain)
  show ?thesis
  proof (cases "fn_id (q_current q) = - 1")
    case True
    let ?n = "next_file_id q"
    let ?p = "fname dir ?n"
    let ?q = "q\<lparr>q_current := \<lparr>fn_len = 0, fn_id = ?n\<rparr>, next_file_id := ?n + 1\<rparr>"
    let ?fs = "(ls_files st)(?p \<mapsto> [])"
    have p: "pending = []" using c True by simp
    have nx: "que_get_next_file q = Ok (0, ?q)" using True m(7,8) k by (simp add: que_get_next_file_def INVALID_FILE_ID_def)
    have g: "get_file_name mgr True ?n LOG_PATH_LEN = Some ?p" using file_name_exact [OF d m(3)] m(7) by simp
    have iv: "que_current_is_invalid st mgr True q" using file_name_exact [OF d m(3), of "- 1"] n True by (simp add: que_current_is_invalid_def)
    let ?st1 = "put_files True ?q mgr st"
    have r: "rm_log_file env ?p ?st1 = ?st1\<lparr>ls_files := (ls_files st)(?p := None)\<rparr>"
      using rm_file [OF e d m(7), of ?st1] u m(7) by (simp add: put_files_def)
    have o: "le_open env ?p ((ls_files st)(?p := None)) = ?fs" by (simp add: log_env_okD [OF e])
    have ch: "wr_check env True st = Ok (0, ?st1\<lparr>ls_files := ?fs, ls_metrics_app := Some ?p\<rparr>)"
      using m(1,2) iv nx g r o by (simp add: wr_check_def files_of_def append_logger_def)
    have lg: "le_log env ?p t ?fs = (ls_files st)(?p \<mapsto> t)" using log_env_okD(2) [OF e, of ?fs ?p "[]" t] s by simp
    show ?thesis using ch lg f p m(3-8) n u t(2) fname_minus_one [OF m(7), of dir] fname_sub_neq [OF m(7)]
      by (auto simp: wr_metrics_logs_def wr_logs_def wr_text_def put_files_def set_files_def files_of_def que_current_set_size_def log_inv_def)
  next
    case False
    let ?p = "fname dir (fn_id (q_current q))"
    have c': "0 \<le> fn_id (q_current q)" "pending \<noteq> []" "ls_files st ?p = Some pending" "ls_metrics_app st = Some ?p" using c False by blast+
    have "\<not> que_current_is_invalid st mgr True q" using file_name_exact [OF d m(3)] c'(1,3) by (simp add: que_current_is_invalid_def)
    then have ch: "wr_check env True st = Ok (0, st)" using m(1,2) by (simp add: wr_check_def files_of_def)
    have lg: "le_log env ?p t (ls_files st) = (ls_files st)(?p \<mapsto> pending @ t)" using log_env_okD(2) [OF e, of "ls_files st" ?p pending t] c'(3) s by simp
    show ?thesis using ch lg f m c' n u t(2) fname_minus_one [OF c'(1), of dir] fname_sub_neq [OF c'(1)]
      by (auto simp: wr_metrics_logs_def wr_logs_def wr_text_def put_files_def set_files_def files_of_def que_current_set_size_def log_inv_def)
  qed
qed


definition all_ok :: mhd where
  "all_ok = \<lparr>mhd_create = True, mhd_header = True, mhd_queue = True\<rparr>"

text \<open>A request gets what is pending and leaves nothing pending.\<close>

lemma get_keeps_inv:
  assumes e: "log_env_ok env" and d: "log_dir_ok dir" and i: "log_inv dir k st pending"
  shows "\<exists>st'. WebRequestCallback env all_ok (\<lambda>_. True) ''GET'' True 0 st = Ok (if pending = [] then Reply_Empty else Reply_File pending, st')
    \<and> log_inv dir k st' [] \<and> (pending \<noteq> [] \<longrightarrow> (\<exists>p. ls_metrics_app st' = Some p \<and> ls_files st' p = None))"
proof -
  obtain mgr q where m: "ls_local st = Some mgr" "metrics_files mgr = Some q" "metrics_path mgr = dir" "q_front q = 0" "q_rear q = 0" "1 < que_size q"
      "0 \<le> next_file_id q" "next_file_id q \<le> int k" and n: "ls_files st (fname dir (- 1)) = None" and u: "\<forall>n q. 0 \<le> n \<longrightarrow> ls_files st (fname dir n @ CHR ''/'' # q) = None"
    and c: "fn_id (q_current q) = - 1 \<and> pending = [] \<or> 0 \<le> fn_id (q_current q) \<and> pending \<noteq> [] \<and> ls_files st (fname dir (fn_id (q_current q))) = Some pending
          \<and> ls_metrics_app st = Some (fname dir (fn_id (q_current q)))"
    using i unfolding log_inv_def by blast
  let ?q = "q\<lparr>q_current := \<lparr>fn_len = 0, fn_id = - 1\<rparr>\<rparr>"
  let ?st = "put_files True ?q mgr st"
  have pop: "que_pop_file q = (fn_id (q_current q), ?q)"
    using m(4,5,6) by (simp add: que_pop_file_def de_queue_def is_empty_queue_def que_remove_current_def INVALID_FILE_ID_def)
  show ?thesis
  proof (cases "fn_id (q_current q) = - 1")
    case True
    then have "read_metrics_logs LOG_PATH_LEN st = Ok (None, ?st)"
      using m(1,2) pop by (simp add: read_metrics_logs_def read_logs_def files_of_def INVALID_FILE_ID_def)
    then show ?thesis using True c m(3-8) n u
      by (auto simp: WebRequestCallback_def WebResponseEmptyMetric_def all_ok_def log_inv_def put_files_def set_files_def)
  next
    case False
    let ?p = "fname dir (fn_id (q_current q))"
    have c': "0 \<le> fn_id (q_current q)" "pending \<noteq> []" "ls_files st ?p = Some pending" "ls_metrics_app st = Some ?p" using c False by blast+
    have rd: "read_metrics_logs LOG_PATH_LEN st = Ok (Some ?p, ?st)"
      using m(1,2) pop False file_name_exact [OF d m(3), of "fn_id (q_current q)"] c'(1) by (simp add: read_metrics_logs_def read_logs_def files_of_def INVALID_FILE_ID_def)
    have rm: "rm_log_file env ?p ?st = ?st\<lparr>ls_files := (ls_files st)(?p := None)\<rparr>"
      using rm_file [OF e d c'(1), of ?st] u c'(1) by (simp add: put_files_def)
    show ?thesis using rd rm c' m(3-8) n u
      by (auto simp: WebRequestCallback_def all_ok_def log_inv_def put_files_def set_files_def)
  qed
qed

lemma serve_run_served:
  assumes "log_env_ok env" "log_dir_ok dir"
  shows "log_inv dir k st pending \<Longrightarrow> log_ops_ok (length pending) xs \<Longrightarrow> int k + int (length xs) \<le> INT_MAX \<Longrightarrow>
    \<exists>st' pending'. serve_run env xs st = Ok (Some (log_served pending xs, st')) \<and> log_inv dir (k + length xs) st' pending'"
proof (induction xs arbitrary: k st pending)
  case (Cons x xs)
  show ?case
  proof (cases x)
    case (LWrite t)
    then obtain st1 where w: "wr_metrics_logs env t st = Ok (0, st1)" "log_inv dir (Suc k) st1 (pending @ t)"
      using write_keeps_inv [OF assms Cons.prems(1), of t] Cons.prems(2,3) by auto
    then show ?thesis using Cons.IH [OF w(2)] Cons.prems(2,3) LWrite by simp
  next
    case LGet
    obtain st1 where g: "WebRequestCallback env all_ok (\<lambda>_. True) ''GET'' True 0 st = Ok (if pending = [] then Reply_Empty else Reply_File pending, st1)" "log_inv dir k st1 []"
      using get_keeps_inv [OF assms Cons.prems(1)] by blast
    from g(2) have "log_inv dir (Suc k) st1 []" by (auto simp: log_inv_def)
    then show ?thesis using Cons.IH [of "Suc k" st1 "[]"] Cons.prems(2,3) g(1) LGet by (auto simp: all_ok_def)
  qed
qed auto

text \<open>The module after the manager has been made and initialised for metrics in a directory without files of that kind.\<close>

definition log_ready :: "string \<Rightarrow> log_state \<Rightarrow> bool" where
  "log_ready dir st \<longleftrightarrow> (\<exists>mgr q. ls_local st = Some mgr \<and> create_queue True LOGS_MAXNUM = Some q \<and> metrics_files mgr = Some q \<and> metrics_path mgr = dir)
     \<and> ls_files st (fname dir (- 1)) = None \<and> (\<forall>n q. 0 \<le> n \<longrightarrow> ls_files st (fname dir n @ CHR ''/'' # q) = None)"

lemma log_ready_inv: "log_ready dir st \<Longrightarrow> log_inv dir 0 st []"
  by (auto simp: log_ready_def log_inv_def create_queue_def INVALID_FILE_ID_def LOGS_MAXNUM_def)

text \<open>C9. The metrics on their way from the database to the web client (\<open>wr_metrics_logs\<close>, \<open>WebRequestCallback\<close>): over any sequence of exports and requests, one
  after the other, no write fails, and every request is answered with exactly the texts written since the request before it, in order, and with an empty
  response when there are none: nothing is lost, repeated or reordered. The texts hold no percent sign, what is pending stays below the size of a log file, and the file
  numbers do not run out.\<close>

theorem metrics_served_once:
  assumes "log_env_ok env" "log_dir_ok dir" "log_ready dir st" "log_ops_ok 0 xs" "int (length xs) \<le> INT_MAX"
  shows "\<exists>st'. serve_run env xs st = Ok (Some (log_served [] xs, st'))"
  using serve_run_served [OF assms(1,2) log_ready_inv [OF assms(3)], of xs] assms(4,5) by auto

text \<open>An outside for the examples: the files as a map.\<close>

definition demo_log_env :: log_env where
  "demo_log_env = \<lparr>le_run = (\<lambda>c fs. fs(drop 16 c := None)), le_open = (\<lambda>p fs. case fs p of None \<Rightarrow> fs(p \<mapsto> []) | Some _ \<Rightarrow> fs),
     le_log = (\<lambda>p t fs. case fs p of None \<Rightarrow> fs | Some c \<Rightarrow> fs(p \<mapsto> c @ t))\<rparr>"

lemma demo_log_env_ok: "log_env_ok demo_log_env"
  by (simp add: log_env_ok_def demo_log_env_def)

definition demo_log_mgr :: log_mgr_s where
  "demo_log_mgr = (the (create_log_mgr (True, True, True) (Some ''gopher.log'') True False))\<lparr>metrics_path := ''/var/log''\<rparr>"

definition demo_log_state :: log_state where
  "demo_log_state = snd (init_log_mgr demo_log_env demo_log_mgr False
     \<lparr>ls_files = Map.empty, ls_local = None, ls_metrics_app = None, ls_event_app = None, ls_debug_app = None, ls_meta_app = None, ls_meta_abs_path = [], ls_debug_abs_path = []\<rparr>)"

lemma demo_log_ready: "log_dir_ok ''/var/log''" "log_ready ''/var/log'' demo_log_state"
  by (simp_all add: log_dir_ok_def shell_word_def log_ready_def demo_log_state_def demo_log_mgr_def init_log_mgr_def create_log_mgr_def create_queue_def)

theorem metrics_served_once_witness:
  "\<exists>st'. serve_run demo_log_env [LWrite ''a 1'', LWrite ''b 2'', LGet, LGet, LWrite ''a 3'', LGet] demo_log_state
     = Ok (Some ([Reply_File ''a 1b 2'', Reply_Empty, Reply_File ''a 3''], st'))"
  using metrics_served_once [OF demo_log_env_ok demo_log_ready, of "[LWrite ''a 1'', LWrite ''b 2'', LGet, LGet, LWrite ''a 3'', LGet]"]
  by (simp add: plain_def METRICS_LOGS_FILESIZE_def INT_MAX_def)

text \<open>C39. The write of metrics is not atomic: the file is checked first (\<open>que_current_is_invalid\<close>) and written afterwards. When a request is served in between, the check has found
  the file, the request takes and removes it, and the text is written into the removed file: it is in no file and no later request gets it.\<close>

theorem metrics_write_race:
  assumes "log_env_ok env" "log_dir_ok dir" "log_inv dir k st pending" "pending \<noteq> []" "plain t"
  shows "\<exists>st1 st2. wr_check env True st = Ok (0, st) \<and> WebRequestCallback env all_ok (\<lambda>_. True) ''GET'' True 0 st = Ok (Reply_File pending, st1)
    \<and> wr_text env True t st1 = Ok st2 \<and> ls_files st2 = ls_files st1
    \<and> (\<exists>st3. WebRequestCallback env all_ok (\<lambda>_. True) ''GET'' True 0 st2 = Ok (Reply_Empty, st3))"
proof -
  obtain st1 p where g: "WebRequestCallback env all_ok (\<lambda>_. True) ''GET'' True 0 st = Ok (Reply_File pending, st1)" "log_inv dir k st1 []"
      "ls_metrics_app st1 = Some p" "ls_files st1 p = None" using get_keeps_inv [OF assms(1-3)] assms(4) by auto
  have ch: "wr_check env True st = Ok (0, st)"
    using assms(2-4) file_name_exact [OF assms(2)] by (auto simp: log_inv_def wr_check_def files_of_def que_current_is_invalid_def)
  have "format_text t = Ok t" using assms(5) by (simp add: format_text_plain)
  moreover have "le_log env p t (ls_files st1) = ls_files st1" using log_env_okD(3) [OF assms(1), of "ls_files st1" p t] g(4) by simp
  ultimately obtain st2 where w: "wr_text env True t st1 = Ok st2" "ls_files st2 = ls_files st1" "log_inv dir k st2 []"
    using g(2,3) by (auto simp: log_inv_def wr_text_def files_of_def put_files_def set_files_def que_current_set_size_def)
  then show ?thesis using get_keeps_inv [OF assms(1,2) w(3)] g(1) ch by auto
qed

theorem metrics_write_race_witness:
  "\<exists>st0 st1 st2 st3. wr_metrics_logs demo_log_env ''a 1'' demo_log_state = Ok (0, st0) \<and> wr_check demo_log_env True st0 = Ok (0, st0)
    \<and> WebRequestCallback demo_log_env all_ok (\<lambda>_. True) ''GET'' True 0 st0 = Ok (Reply_File ''a 1'', st1) \<and> wr_text demo_log_env True ''b 2'' st1 = Ok st2
    \<and> WebRequestCallback demo_log_env all_ok (\<lambda>_. True) ''GET'' True 0 st2 = Ok (Reply_Empty, st3)"
proof -
  obtain st0 where w: "wr_metrics_logs demo_log_env ''a 1'' demo_log_state = Ok (0, st0)" "log_inv ''/var/log'' 1 st0 ''a 1''"
    using write_keeps_inv [OF demo_log_env_ok demo_log_ready(1) log_ready_inv [OF demo_log_ready(2)], of "''a 1''"]
    by (auto simp: plain_def METRICS_LOGS_FILESIZE_def INT_MAX_def)
  show ?thesis using metrics_write_race [OF demo_log_env_ok demo_log_ready(1) w(2), of "''b 2''"] w(1) by (auto simp: plain_def)
qed

end
