(* ===== verification/Resource.thy ===== *)
theory Resource
  imports Meta Metric_Logs Event_Report Ingress Fifo Config
begin

text \<open>
  The start of the daemon: the managers that \<open>resource/resource.c\<close> builds from the configuration, in the order of its table, the Kafka clients of \<open>lib/kafka/kafka.c\<close>, the
  threads of \<open>daemon/daemon.c\<close> and the command line of \<open>daemon/main.c\<close>. A start that succeeds connects the managers as configured, and no thread starts without what it uses.
\<close>

section \<open>Kafka\<close>

record KafkaMgr =
  kafkaBroker :: string
  kafkaTopic :: string
  batchNumMessages :: u32
  compressionCodec :: string
  queueBufferingMaxMessages :: u32
  queueBufferingMaxKbytes :: u32
  queueBufferingMaxMs :: u32
  kafkaUsername :: string
  kafkaPassword :: string

text \<open>librdkafka: whether it accepts a setting, whether a producer and a topic can be made.\<close>

record rdkafka =
  rd_conf_set :: "string \<Rightarrow> string \<Rightarrow> bool"
  rd_new :: bool
  rd_topic_new :: "string \<Rightarrow> bool"

text \<open>A number printed into an array of ten: nine digits and the terminator.\<close>

definition num_text :: "u32 \<Rightarrow> string" where
  "num_text n = snprintf_s 10 (show_lld (uint n))"

definition kafka_settings :: "KafkaMgr \<Rightarrow> (string \<times> string) list" where
  "kafka_settings mgr =
     [(''bootstrap.servers'', kafkaBroker mgr), (''batch.num.messages'', num_text (batchNumMessages mgr)), (''compression.codec'', compressionCodec mgr),
      (''queue.buffering.max.messages'', num_text (queueBufferingMaxMessages mgr)), (''queue.buffering.max.kbytes'', num_text (queueBufferingMaxKbytes mgr)),
      (''queue.buffering.max.ms'', num_text (queueBufferingMaxMs mgr))]
     @ (if kafkaUsername mgr \<noteq> [] \<and> kafkaPassword mgr \<noteq> [] then
          [(''sasl.username'', kafkaUsername mgr), (''sasl.password'', kafkaPassword mgr), (''sasl.mechanism'', ''PLAIN''), (''security.protocol'', ''SASL_PLAINTEXT'')]
        else [])"

definition topic_of :: "ConfigMgr \<Rightarrow> string \<Rightarrow> string option" where
  "topic_of conf topic_type =
     (if topic_type = ''kafka_topic'' then Some (kafka_topic (metricOutConfig conf))
      else if topic_type = ''metadata_topic'' then Some (kafka_topic (metaOutConfig conf))
      else if topic_type = ''event_topic'' then Some (kafka_topic (eventOutConfig conf))
      else None)"

definition KafkaMgrCreate :: "rdkafka \<Rightarrow> bool \<Rightarrow> ConfigMgr \<Rightarrow> string \<Rightarrow> KafkaMgr option" where
  "KafkaMgrCreate rk alloc conf topic_type =
     (if \<not> alloc then None
      else case topic_of conf topic_type of None \<Rightarrow> None
      | Some topic \<Rightarrow>
          let k = kafkaConfig conf;
              mgr = \<lparr>kafkaBroker = snprintf_s MAX_KAFKA_BROKER_LEN (k_broker k), kafkaTopic = snprintf_s MAX_KAFKA_TOPIC_LEN topic, batchNumMessages = k_batchNumMessages k,
                compressionCodec = snprintf_s KAFKA_COMPRESSION_CODEC_LEN (k_compressionCodec k), queueBufferingMaxMessages = k_queueBufferingMaxMessages k,
                queueBufferingMaxKbytes = k_queueBufferingMaxKbytes k, queueBufferingMaxMs = k_queueBufferingMaxMs k,
                kafkaUsername = snprintf_s KAFKA_USERNAME_LEN (k_username k), kafkaPassword = snprintf_s KAFKA_PASSWORD_LEN (k_password k)\<rparr>
          in if list_all (\<lambda>(name, v). rd_conf_set rk name v) (kafka_settings mgr) \<and> rd_new rk \<and> rd_topic_new rk (kafkaTopic mgr) then Some mgr else None)"

text \<open>
  Producing a message: each attempt of \<open>rd_kafka_produce\<close> is accepted, or refused with the queue full or for another reason; a refused message is freed
  after the last attempt. The result and the attempts made.
\<close>

datatype produce_result = PR_Ok | PR_Queue_Full | PR_Error

definition RETRY_MAX :: nat where "RETRY_MAX = 3"

function produce_from :: "(nat \<Rightarrow> produce_result) \<Rightarrow> nat \<Rightarrow> int \<times> nat" where
  "produce_from attempt retry_index =
     (if attempt retry_index = PR_Ok then (0, retry_index + 1)
      else if retry_index + 1 < RETRY_MAX \<and> attempt retry_index = PR_Queue_Full then produce_from attempt (retry_index + 1)
      else (- 1, retry_index + 1))"
  by pat_completeness auto
termination by (relation "measure (\<lambda>(_, i). RETRY_MAX - i)") auto

declare produce_from.simps [simp del]

definition KafkaMsgProduce :: "(nat \<Rightarrow> produce_result) \<Rightarrow> int \<times> nat" where
  "KafkaMsgProduce attempt = produce_from attempt 0"

section \<open>The managers of the daemon\<close>

record RestServer =
  rest_port :: "16 word"
  rest_sslAuth :: bool

text \<open>The pointers that the ingress manager gets: which of them are set, and the channel of the events.\<close>

record ingress_links =
  il_fifoMgr :: bool
  il_mmMgr :: bool
  il_probsMgr :: bool
  il_imdbMgr :: bool
  il_egressMgr :: bool
  il_event_channel :: OutChannelType

record egress_links =
  el_metric_kafka :: "KafkaMgr option"
  el_event_kafka :: "KafkaMgr option"
  el_interval :: u32
  el_timeRange :: u32
  el_mgr :: EgressMgr

record ('h, 'g, 'e) ResourceMgr =
  r_configMgr :: "ConfigMgr option"
  r_imdbMgr :: "('h, 'g) IMDB_DataBaseMgr option"
  r_writeLogsOn :: bool
  r_recordTimeout :: u32
  r_probe_mng :: bool
  r_mmMgr :: "MeasurementMgr option"
  r_fifoMgr :: "string Fifo FifoMgr option"
  r_metric_kafkaMgr :: "KafkaMgr option"
  r_meta_kafkaMgr :: "KafkaMgr option"
  r_event_kafkaMgr :: "KafkaMgr option"
  r_ingressMgr :: "ingress_links option"
  r_egressMgr :: "egress_links option"
  r_webServer :: "WebServer option"
  r_restServer :: "RestServer option"
  r_logsMgr :: bool
  r_logs :: log_state
  r_evt :: "'e evt_mgr"

text \<open>
  The outside of the start: libconfig, librdkafka, log4cplus, memory by allocation, the files of the metadata directory, the identity of the machine, the lock of the
  database, descriptors, the probe manager (which loads a BPF program and makes the message queue) and the files of the certificates.
\<close>

record ('c, 'h, 'g) start_env =
  se_libconfig :: "'c libconfig"
  se_kafka :: rdkafka
  se_log :: log_env
  se_alloc :: "string \<Rightarrow> nat \<Rightarrow> bool"
  se_meta_files :: "string list option"
  se_imdb_malloc :: "asite \<Rightarrow> bool"
  se_rec_ops :: "'h rec_ops"
  se_no_tgids :: 'g
  se_uuid :: "string option"
  se_ip :: "string option"
  se_lock :: bool
  se_efd :: int
  se_probe_mng :: bool
  se_load_pem :: "string \<Rightarrow> bool"

type_synonym ('c, 'h, 'g, 'e) initor = "('c, 'h, 'g) start_env \<Rightarrow> string \<Rightarrow> ('h, 'g, 'e) ResourceMgr \<Rightarrow> (int \<times> ('h, 'g, 'e) ResourceMgr) outc"

text \<open>A configuration that is not there is a null pointer.\<close>

definition with_config :: "('h, 'g, 'e) ResourceMgr \<Rightarrow> (ConfigMgr \<Rightarrow> 'a outc) \<Rightarrow> 'a outc" where
  "with_config r k = (case r_configMgr r of None \<Rightarrow> UB | Some c \<Rightarrow> k c)"

definition ConfigMgrInit :: "('c, 'h, 'g, 'e) initor" where
  "ConfigMgrInit env path r =
     (case ConfigMgrCreate (se_alloc env ''config'') of None \<Rightarrow> Ok (- 1, r)
      | Some c \<Rightarrow> (case ConfigMgrLoad (se_libconfig env) path c of (ret, c) \<Rightarrow> if ret \<noteq> 0 then Ok (- 1, r) else Ok (0, r\<lparr>r_configMgr := Some c\<rparr>)))"

definition ProbeMngInit :: "('c, 'h, 'g, 'e) initor" where
  "ProbeMngInit env path r = Ok (if se_probe_mng env then (0, r\<lparr>r_probe_mng := True\<rparr>) else (- 1, r))"

definition MeasurementMgrInit :: "('c, 'h, 'g, 'e) initor" where
  "MeasurementMgrInit env path r = with_config r (\<lambda>c.
     case MeasurementMgrCreate (se_alloc env ''mm'' 0) (maxTablesNum (imdbConfig c)) (maxMetricsNum (imdbConfig c)) of None \<Rightarrow> Ok (- 1, r)
     | Some mm \<Rightarrow> bnd (MeasurementMgrLoad (se_libconfig env) (se_alloc env ''meta'') mm ''/opt/gala-gopher/meta'' (se_meta_files env)) (\<lambda>(ret, mm).
         if ret \<noteq> 0 then Ok (- 1, r)
         else Ok (0, r\<lparr>r_mmMgr := Some (mm\<lparr>meta_out_channel := outChnl (metaOutConfig c)\<rparr>)\<rparr>)))"

definition FifoMgrInit :: "('c, 'h, 'g, 'e) initor" where
  "FifoMgrInit env path r =
     (case FifoMgrCreate (se_alloc env ''fifomgr'' 0) (se_alloc env ''fifomgr'' 1) 32 of None \<Rightarrow> Ok (- 1, r) | Some f \<Rightarrow> Ok (0, r\<lparr>r_fifoMgr := Some f\<rparr>))"

text \<open>The Kafka manager of one kind of output, when its channel is Kafka.\<close>

definition kafka_unit :: "('c, 'h, 'g) start_env \<Rightarrow> ConfigMgr \<Rightarrow> OutConfig \<Rightarrow> string \<Rightarrow> KafkaMgr option option" where
  "kafka_unit env c out topic_type =
     (if outChnl out = OUT_CHNL_KAFKA then map_option Some (KafkaMgrCreate (se_kafka env) (se_alloc env topic_type 0) c topic_type) else Some None)"

definition KafkaMgrInit :: "('c, 'h, 'g, 'e) initor" where
  "KafkaMgrInit env path r = with_config r (\<lambda>c.
     case kafka_unit env c (metricOutConfig c) ''kafka_topic'' of None \<Rightarrow> Ok (- 1, r)
     | Some k \<Rightarrow> let r = (if k = None then r else r\<lparr>r_metric_kafkaMgr := k\<rparr>) in
     (case kafka_unit env c (metaOutConfig c) ''metadata_topic'' of None \<Rightarrow> Ok (- 1, r)
      | Some k \<Rightarrow> let r = (if k = None then r else r\<lparr>r_meta_kafkaMgr := k, r_mmMgr := map_option (\<lambda>mm. mm\<lparr>meta_kafkaMgr := True\<rparr>) (r_mmMgr r)\<rparr>) in
      (case kafka_unit env c (eventOutConfig c) ''event_topic'' of None \<Rightarrow> Ok (- 1, r)
       | Some k \<Rightarrow> Ok (0, if k = None then r else r\<lparr>r_event_kafkaMgr := k\<rparr>))))"

definition IMDBMgrInit :: "('c, 'h, 'g, 'e) initor" where
  "IMDBMgrInit env path r = with_config r (\<lambda>c.
     case IMDB_DataBaseMgrCreate (se_no_tgids env) (se_imdb_malloc env) (se_uuid env) (se_ip env) (se_lock env) (maxTablesNum (imdbConfig c)) of None \<Rightarrow> Ok (- 1, r)
     | Some db \<Rightarrow>
         let r = r\<lparr>r_recordTimeout := IMDB_DataBaseMgrSetRecordTimeout (r_recordTimeout r) (recordTimeout (imdbConfig c))\<rparr> in
         (case r_mmMgr r of None \<Rightarrow> UB
          | Some mm \<Rightarrow> bnd (IMDBMgrDatabaseLoad (se_rec_ops env) (se_imdb_malloc env) (maxRecordsNum (imdbConfig c)) (measurements mm) db) (\<lambda>(ret, db).
              if ret \<noteq> 0 then Ok (- 1, r) else Ok (0, r\<lparr>r_imdbMgr := Some db\<rparr>))))"

definition EgressMgrCreate :: "('c, 'h, 'g) start_env \<Rightarrow> EgressMgr option" where
  "EgressMgrCreate env =
     (if \<not> se_alloc env ''egress'' 0 then None
      else case FifoCreate (se_alloc env ''egress'' 1) (se_alloc env ''egress'' 2) (se_efd env) 1024 of None \<Rightarrow> None
      | Some m \<Rightarrow> (case FifoCreate (se_alloc env ''egress'' 3) (se_alloc env ''egress'' 4) (se_efd env) 1024 of None \<Rightarrow> None
          | Some e \<Rightarrow> Some \<lparr>metric_kafkaMgr = False, event_kafkaMgr = False, metric_fifo = m, event_fifo = e\<rparr>))"

definition EgressMgrInit :: "('c, 'h, 'g, 'e) initor" where
  "EgressMgrInit env path r =
     (case EgressMgrCreate env of None \<Rightarrow> Ok (- 1, r)
      | Some e \<Rightarrow> with_config r (\<lambda>c. Ok (0, r\<lparr>r_egressMgr := Some \<lparr>el_metric_kafka = r_metric_kafkaMgr r, el_event_kafka = r_event_kafkaMgr r,
          el_interval = eg_interval (egressConfig c), el_timeRange = eg_timeRange (egressConfig c),
          el_mgr = e\<lparr>metric_kafkaMgr := r_metric_kafkaMgr r \<noteq> None, event_kafkaMgr := r_event_kafkaMgr r \<noteq> None\<rparr>\<rparr>\<rparr>)))"

definition IngressMgrInit :: "('c, 'h, 'g, 'e) initor" where
  "IngressMgrInit env path r =
     (if \<not> se_alloc env ''ingress'' 0 then Ok (- 1, r)
      else with_config r (\<lambda>c. Ok (0, r\<lparr>r_ingressMgr := Some \<lparr>il_fifoMgr = r_fifoMgr r \<noteq> None, il_mmMgr = r_mmMgr r \<noteq> None, il_probsMgr = r_probe_mng r,
          il_imdbMgr = r_imdbMgr r \<noteq> None, il_egressMgr = r_egressMgr r \<noteq> None, il_event_channel = outChnl (eventOutConfig c)\<rparr>\<rparr>)))"

definition WebServerInit :: "('c, 'h, 'g, 'e) initor" where
  "WebServerInit env path r = with_config r (\<lambda>c.
     if outChnl (metricOutConfig c) \<noteq> OUT_CHNL_WEB_SERVER then Ok (0, r)
     else case WebServerCreate (se_alloc env ''web'' 0) (ws_port (webServerConfig c)) of None \<Rightarrow> Ok (- 1, r)
     | Some w \<Rightarrow> Ok (0, r\<lparr>r_webServer := Some w, r_writeLogsOn := (if r_imdbMgr r \<noteq> None then True else r_writeLogsOn r)\<rparr>))"

definition RestServerSslInit :: "(string \<Rightarrow> bool) \<Rightarrow> string \<Rightarrow> string \<Rightarrow> string \<Rightarrow> int" where
  "RestServerSslInit load_pem privKey certFile caFile =
     (if privKey = [] \<or> certFile = [] \<or> caFile = [] then - 1
      else if \<not> load_pem privKey \<or> \<not> load_pem certFile \<or> \<not> load_pem caFile then - 1 else 0)"

definition RestServerInit :: "('c, 'h, 'g, 'e) initor" where
  "RestServerInit env path r = with_config r (\<lambda>c.
     let rc = restServerConfig c in
     if \<not> se_alloc env ''rest'' 0 then Ok (- 1, r)
     else if rs_sslAuth rc \<and> RestServerSslInit (se_load_pem env) (rs_privateKey rc) (rs_certFile rc) (rs_caFile rc) < 0 then Ok (- 1, r)
     else Ok (0, r\<lparr>r_restServer := Some \<lparr>rest_port = rs_port rc, rest_sslAuth = rs_sslAuth rc\<rparr>\<rparr>))"

definition LogsMgrInit :: "('c, 'h, 'g, 'e) initor" where
  "LogsMgrInit env path r = with_config r (\<lambda>c.
     let metric_out = (outChnl (metricOutConfig c) \<in> {OUT_CHNL_WEB_SERVER, OUT_CHNL_LOGS}); event_out = (outChnl (eventOutConfig c) = OUT_CHNL_LOGS);
         meta_out = (outChnl (metaOutConfig c) = OUT_CHNL_LOGS); lc = logsConfig c in
     case create_log_mgr (se_alloc env ''logs'' 0, se_alloc env ''logs'' 1, se_alloc env ''logs'' 2) (Some (logFileName (globalConfig c))) metric_out event_out of
       None \<Rightarrow> Ok (- 1, r)
     | Some lm \<Rightarrow>
         let lm = lm\<lparr>debug_path := snprintf_s LOG_PATH_LEN (debugDir lc), metrics_path := snprintf_s LOG_PATH_LEN (metricDir lc),
               event_path := snprintf_s LOG_PATH_LEN (eventDir lc), meta_path := snprintf_s LOG_PATH_LEN (metaDir lc)\<rparr> in
         (case init_log_mgr (se_log env) lm meta_out (r_logs r) of (ret, ls) \<Rightarrow>
            if ret < 0 then Ok (- 1, r\<lparr>r_logs := ls\<rparr>)
            else Ok (0, r\<lparr>r_logs := ls, r_logsMgr := True, r_writeLogsOn := (if metric_out \<and> r_imdbMgr r \<noteq> None then True else r_writeLogsOn r)\<rparr>)))"

definition EventMgrInit :: "('c, 'h, 'g, 'e) initor" where
  "EventMgrInit env path r = with_config r (\<lambda>c.
     Ok (0, r\<lparr>r_evt := init_event_mgr (out_timeout (eventOutConfig c)) (Some (lang_type (eventOutConfig c))) (r_evt r)\<rparr>))"

definition gSubModuleInitorTbl :: "('c, 'h, 'g, 'e) initor list" where
  "gSubModuleInitorTbl = [ConfigMgrInit, ProbeMngInit, MeasurementMgrInit, FifoMgrInit, KafkaMgrInit, IMDBMgrInit, EgressMgrInit, IngressMgrInit, WebServerInit,
     RestServerInit, LogsMgrInit, EventMgrInit]"

fun init_modules :: "('c, 'h, 'g, 'e) initor list \<Rightarrow> ('c, 'h, 'g, 'e) initor" where
  "init_modules [] env path r = Ok (0, r)"
| "init_modules (f # fs) env path r = bnd (f env path r) (\<lambda>(ret, r). if ret \<noteq> 0 then Ok (- 1, r) else init_modules fs env path r)"

definition ResourceMgrInit :: "('c, 'h, 'g, 'e) initor" where
  "ResourceMgrInit env path r = init_modules gSubModuleInitorTbl env path r"

section \<open>The daemon\<close>

text \<open>The threads and servers that are started; \<open>start\<close> says whether the system starts one.\<close>

datatype daemon_thread = T_INGRESS | T_EGRESS | T_WEB_SERVER | T_METAREPORT | T_PROBEMNG | T_METRICLOG | T_CMD_SERVER | T_REST_SERVER

fun start_all :: "(daemon_thread \<Rightarrow> bool) \<Rightarrow> (daemon_thread \<times> bool) list \<Rightarrow> daemon_thread list \<Rightarrow> (int \<times> daemon_thread list) outc" where
  "start_all start [] done_ts = Ok (0, done_ts)"
| "start_all start ((t, there) # ts) done_ts =
     (if \<not> there then UB else if \<not> start t then Ok (- 1, done_ts) else start_all start ts (done_ts @ [t]))"

definition DaemonRun :: "(daemon_thread \<Rightarrow> bool) \<Rightarrow> ('h, 'g, 'e) ResourceMgr \<Rightarrow> (int \<times> daemon_thread list) outc" where
  "DaemonRun start r = start_all start
     ([(T_INGRESS, r_ingressMgr r \<noteq> None), (T_EGRESS, r_egressMgr r \<noteq> None)] @ (if r_webServer r \<noteq> None then [(T_WEB_SERVER, True)] else [])
      @ [(T_METAREPORT, r_mmMgr r \<noteq> None), (T_PROBEMNG, r_probe_mng r), (T_METRICLOG, r_imdbMgr r \<noteq> None), (T_CMD_SERVER, True), (T_REST_SERVER, r_restServer r \<noteq> None)]) []"

text \<open>The command line: the path of the configuration when it is accepted. \<open>opts\<close> are the options that \<open>getopt_long\<close> returns.\<close>

definition ParseConfigPath :: "(string \<Rightarrow> bool) \<Rightarrow> bool \<Rightarrow> string \<Rightarrow> int \<times> string option" where
  "ParseConfigPath accessible alloc path = (if \<not> accessible path \<or> \<not> alloc then (- 1, None) else (0, Some path))"

fun cmd_options :: "(string \<Rightarrow> bool) \<Rightarrow> bool \<Rightarrow> (char \<times> string) list \<Rightarrow> string option \<Rightarrow> int \<times> string option" where
  "cmd_options accessible alloc [] conf = (- 1, conf)"
| "cmd_options accessible alloc ((opt, optarg) # opts) conf =
     (if opt = CHR ''h'' then (- 1, conf)
      else if opt = CHR ''c'' then
        cmd_options accessible alloc opts (case ParseConfigPath accessible alloc optarg of (_, None) \<Rightarrow> conf | (_, Some p) \<Rightarrow> Some p)
      else (- 1, conf))"

definition CmdProcessing :: "(string \<Rightarrow> bool) \<Rightarrow> bool \<Rightarrow> nat \<Rightarrow> (char \<times> string) list \<Rightarrow> int \<times> string option" where
  "CmdProcessing accessible alloc argc opts =
     (if argc > 3 then (- 1, None)
      else if argc = 1 then ParseConfigPath accessible alloc ''/etc/gala-gopher/gala-gopher.conf''
      else cmd_options accessible alloc opts None)"

text \<open>\<open>main\<close> up to the wait for the threads: what was started, or \<open>None\<close> for the way to \<open>exit\<close>.\<close>

definition gopher_main :: "('c, 'h, 'g) start_env \<Rightarrow> (daemon_thread \<Rightarrow> bool) \<Rightarrow> (string \<Rightarrow> bool) \<Rightarrow> nat \<Rightarrow> (char \<times> string) list \<Rightarrow> ('h, 'g, 'e) ResourceMgr
    \<Rightarrow> (daemon_thread list \<times> ('h, 'g, 'e) ResourceMgr) option outc" where
  "gopher_main env start accessible argc opts r =
     (case CmdProcessing accessible (se_alloc env ''path'' 0) argc opts of (ret, conf) \<Rightarrow>
        if ret \<noteq> 0 \<or> \<not> se_alloc env ''resource'' 0 then Ok None
        else bnd (ResourceMgrInit env (the conf) r) (\<lambda>(ret, r). if ret \<noteq> 0 then Ok None
          else bnd (DaemonRun start r) (\<lambda>(ret, ts). if ret \<noteq> 0 then Ok None else Ok (Some (ts, r)))))"


section \<open>How the managers are wired\<close>

text \<open>What one start-up function does when it succeeds.\<close>

lemma config_init:
  assumes "ConfigMgrInit env path r = Ok (0, r')"
  shows "\<exists>c. r' = r\<lparr>r_configMgr := Some c\<rparr> \<and> config_bounded c"
proof (cases "ConfigMgrCreate (se_alloc env ''config'')")
  case (Some c)
  obtain ret c' where l: "ConfigMgrLoad (se_libconfig env) path c = (ret, c')" by (cases "ConfigMgrLoad (se_libconfig env) path c")
  have "config_bounded c'" using config_load_bounded [OF config_create_bounded [OF Some], of "se_libconfig env" path] l by simp
  then show ?thesis using assms Some l by (auto simp: ConfigMgrInit_def split: if_splits)
qed (use assms in \<open>simp add: ConfigMgrInit_def\<close>)

lemma measurement_init:
  assumes "MeasurementMgrInit env path r = Ok (0, r')" "r_configMgr r = Some c"
  shows "\<exists>mm. r' = r\<lparr>r_mmMgr := Some mm\<rparr> \<and> measurements_ok mm \<and> meta_out_channel mm = outChnl (metaOutConfig c)"
proof -
  obtain m0 where m: "MeasurementMgrCreate (se_alloc env ''mm'' 0) (maxTablesNum (imdbConfig c)) (maxMetricsNum (imdbConfig c)) = Some m0"
    using assms by (auto simp: MeasurementMgrInit_def with_config_def split: option.splits)
  then obtain ret mm where l: "MeasurementMgrLoad (se_libconfig env) (se_alloc env ''meta'') m0 ''/opt/gala-gopher/meta'' (se_meta_files env) = Ok (ret, mm)"
    using assms by (auto simp: MeasurementMgrInit_def with_config_def dest!: bnd_eq_OkD)
  have "measurements_ok mm" by (rule load_mgr_ok [OF create_measurements_ok [OF m] l])
  then have "measurements_ok (mm\<lparr>meta_out_channel := outChnl (metaOutConfig c)\<rparr>)" by (simp add: measurements_ok_def)
  then show ?thesis using assms m l by (auto simp: MeasurementMgrInit_def with_config_def split: if_splits)
qed

definition kafka_ok :: "OutConfig \<Rightarrow> KafkaMgr option \<Rightarrow> bool" where
  "kafka_ok out k \<longleftrightarrow> (if outChnl out = OUT_CHNL_KAFKA then map_option kafkaTopic k = Some (kafka_topic out) else k = None)"

lemma kafka_topic_kept: "config_bounded c \<Longrightarrow> topic_of c ty = Some t \<Longrightarrow> snprintf_s MAX_KAFKA_TOPIC_LEN t = t"
  by (auto simp: config_bounded_def out_bounded_def topic_of_def snprintf_s_def MAX_KAFKA_TOPIC_LEN_def split: if_splits)

lemma kafka_create_topic: "config_bounded c \<Longrightarrow> KafkaMgrCreate rk alloc c ty = Some k \<Longrightarrow> topic_of c ty = Some t \<Longrightarrow> kafkaTopic k = t"
  using kafka_topic_kept [of c ty] by (auto simp: KafkaMgrCreate_def Let_def split: if_splits)

lemma kafka_unit_ok:
  "config_bounded c \<Longrightarrow> kafka_unit env c (metricOutConfig c) ''kafka_topic'' = Some k \<Longrightarrow> kafka_ok (metricOutConfig c) k"
  "config_bounded c \<Longrightarrow> kafka_unit env c (metaOutConfig c) ''metadata_topic'' = Some k \<Longrightarrow> kafka_ok (metaOutConfig c) k"
  "config_bounded c \<Longrightarrow> kafka_unit env c (eventOutConfig c) ''event_topic'' = Some k \<Longrightarrow> kafka_ok (eventOutConfig c) k"
  by (auto simp: kafka_unit_def kafka_ok_def topic_of_def dest: kafka_create_topic split: if_splits)

lemma set_metric_kafka: "r_metric_kafkaMgr r = None \<Longrightarrow> (if k = None then r else r\<lparr>r_metric_kafkaMgr := k\<rparr>) = r\<lparr>r_metric_kafkaMgr := k\<rparr>"
proof -
  assume n: "r_metric_kafkaMgr r = None"
  have "r\<lparr>r_metric_kafkaMgr := r_metric_kafkaMgr r\<rparr> = r" by simp
  then show ?thesis unfolding n by (cases "k = None") (simp_all only: if_True if_False simp_thms)
qed

lemma set_event_kafka: "r_event_kafkaMgr r = None \<Longrightarrow> (if k = None then r else r\<lparr>r_event_kafkaMgr := k\<rparr>) = r\<lparr>r_event_kafkaMgr := k\<rparr>"
proof -
  assume n: "r_event_kafkaMgr r = None"
  have "r\<lparr>r_event_kafkaMgr := r_event_kafkaMgr r\<rparr> = r" by simp
  then show ?thesis unfolding n by (cases "k = None") (simp_all only: if_True if_False simp_thms)
qed

lemma set_meta_kafka: "r_meta_kafkaMgr r = None \<Longrightarrow>
    (if k = None then r else r\<lparr>r_meta_kafkaMgr := k, r_mmMgr := map_option (\<lambda>mm. mm\<lparr>meta_kafkaMgr := True\<rparr>) (r_mmMgr r)\<rparr>)
     = r\<lparr>r_meta_kafkaMgr := k, r_mmMgr := map_option (\<lambda>mm. if k = None then mm else mm\<lparr>meta_kafkaMgr := True\<rparr>) (r_mmMgr r)\<rparr>"
proof -
  assume n: "r_meta_kafkaMgr r = None"
  have "r\<lparr>r_meta_kafkaMgr := r_meta_kafkaMgr r, r_mmMgr := r_mmMgr r\<rparr> = r" by simp
  then show ?thesis unfolding n by (cases "k = None") (simp_all only: if_True if_False simp_thms option.map_ident)
qed

lemma kafka_init:
  assumes "KafkaMgrInit env path r = Ok (0, r')" "r_configMgr r = Some c" "config_bounded c" "r_metric_kafkaMgr r = None" "r_meta_kafkaMgr r = None" "r_event_kafkaMgr r = None"
  shows "\<exists>k1 k2 k3. r' = r\<lparr>r_metric_kafkaMgr := k1, r_meta_kafkaMgr := k2, 
       r_mmMgr := map_option (\<lambda>mm. if k2 = None then mm else mm\<lparr>meta_kafkaMgr := True\<rparr>) (r_mmMgr r), r_event_kafkaMgr := k3\<rparr>
     \<and> kafka_ok (metricOutConfig c) k1 \<and> kafka_ok (metaOutConfig c) k2 \<and> kafka_ok (eventOutConfig c) k3"
proof -
  obtain k1 k2 k3 where k: "kafka_unit env c (metricOutConfig c) ''kafka_topic'' = Some k1" "kafka_unit env c (metaOutConfig c) ''metadata_topic'' = Some k2"
      "kafka_unit env c (eventOutConfig c) ''event_topic'' = Some k3"
    using assms(1,2) by (auto simp: KafkaMgrInit_def with_config_def Let_def split: option.splits)
  have "r' = r\<lparr>r_metric_kafkaMgr := k1, r_meta_kafkaMgr := k2, 
       r_mmMgr := map_option (\<lambda>mm. if k2 = None then mm else mm\<lparr>meta_kafkaMgr := True\<rparr>) (r_mmMgr r), r_event_kafkaMgr := k3\<rparr>"
    using assms(1,2,4-6) k by (simp add: KafkaMgrInit_def with_config_def Let_def set_metric_kafka set_event_kafka set_meta_kafka)
  then show ?thesis using kafka_unit_ok [OF assms(3)] k by blast
qed

lemma table_load_name: "IMDBMgrTableLoad malloc_ok t mm = Ok (Some t') \<Longrightarrow> tname t' = tname t"
  by (auto simp: IMDBMgrTableLoad_def IMDB_TableSetMeta_def IMDB_TableSetRecordKeySize_def IMDB_TableSetEntityName_def split: option.splits dest!: bnd_eq_OkD)

lemma database_load_names:
  "IMDBMgrDatabaseLoad ops malloc_ok cap mms db = Ok (0, db') \<Longrightarrow> map tname (tables db') = map tname (tables db) @ map (take 31 \<circ> m_name) mms"
proof (induction mms arbitrary: db)
  case (Cons mm mms)
  obtain t where t: "IMDB_TableCreate ops malloc_ok (m_name mm) cap = Some t" using Cons.prems by (auto split: option.splits)
  obtain t' where l: "IMDBMgrTableLoad malloc_ok t mm = Ok (Some t')" using Cons.prems t by (auto split: option.splits dest!: bnd_eq_OkD)
  obtain db1 where a: "IMDB_DataBaseMgrAddTable db t' = (db1, 0)" using Cons.prems t l by (auto split: prod.splits if_splits)
  have "tname t = take 31 (m_name mm)" using t by (auto simp: IMDB_TableCreate_def snprintf_s_def imdb_len_defs split: if_splits)
  then have "tname t' = take 31 (m_name mm)" using table_load_name [OF l] by simp
  moreover have "tables db1 = tables db @ [t']" using a by (auto simp: IMDB_DataBaseMgrAddTable_def split: if_splits)
  ultimately show ?case using Cons.IH [of db1] Cons.prems t l a by simp
qed simp

lemma imdb_init:
  fixes r :: "('h, 'g, 'e) ResourceMgr"
  assumes "IMDBMgrInit env path r = Ok (0, r')" "r_configMgr r = Some c" "r_mmMgr r = Some mm"
  shows "\<exists>db t. r' = r\<lparr>r_recordTimeout := t, r_imdbMgr := Some db\<rparr> \<and> map tname (tables db) = map (take 31 \<circ> m_name) (measurements mm)"
proof -
  obtain d0 :: "('h, 'g) IMDB_DataBaseMgr" where
    d: "IMDB_DataBaseMgrCreate (se_no_tgids env) (se_imdb_malloc env) (se_uuid env) (se_ip env) (se_lock env) (maxTablesNum (imdbConfig c)) = Some d0"
    using assms(1,2) by (auto simp: IMDBMgrInit_def with_config_def split: option.splits)
  then have "tables d0 = []" by (auto simp: IMDB_DataBaseMgrCreate_def split: if_splits option.splits)
  moreover obtain ret db where l: "IMDBMgrDatabaseLoad (se_rec_ops env) (se_imdb_malloc env) (maxRecordsNum (imdbConfig c)) (measurements mm) d0 = Ok (ret, db)"
    using assms d by (auto simp: IMDBMgrInit_def with_config_def Let_def dest!: bnd_eq_OkD)
  moreover have "ret = 0" "r' = r\<lparr>r_recordTimeout := r_recordTimeout r', r_imdbMgr := Some db\<rparr>"
    using assms d l by (auto simp: IMDBMgrInit_def with_config_def Let_def split: if_splits)
  ultimately show ?thesis using database_load_names [of "se_rec_ops env" "se_imdb_malloc env" "maxRecordsNum (imdbConfig c)" "measurements mm" d0 db] by auto
qed


lemma egress_init:
  "EgressMgrInit env path r = Ok (0, r') \<Longrightarrow> r_configMgr r = Some c \<Longrightarrow>
    \<exists>el. r' = r\<lparr>r_egressMgr := Some el\<rparr> \<and> el_metric_kafka el = r_metric_kafkaMgr r \<and> el_event_kafka el = r_event_kafkaMgr r
      \<and> (metric_kafkaMgr (el_mgr el) \<longleftrightarrow> r_metric_kafkaMgr r \<noteq> None) \<and> (event_kafkaMgr (el_mgr el) \<longleftrightarrow> r_event_kafkaMgr r \<noteq> None)"
  by (auto simp: EgressMgrInit_def with_config_def split: option.splits)

lemma ingress_init:
  "IngressMgrInit env path r = Ok (0, r') \<Longrightarrow> r_configMgr r = Some c \<Longrightarrow>
    r' = r\<lparr>r_ingressMgr := Some \<lparr>il_fifoMgr = r_fifoMgr r \<noteq> None, il_mmMgr = r_mmMgr r \<noteq> None, il_probsMgr = r_probe_mng r,
          il_imdbMgr = r_imdbMgr r \<noteq> None, il_egressMgr = r_egressMgr r \<noteq> None, il_event_channel = outChnl (eventOutConfig c)\<rparr>\<rparr>"
  by (auto simp: IngressMgrInit_def with_config_def split: if_splits)

lemma web_init:
  assumes "WebServerInit env path r = Ok (0, r')" "r_configMgr r = Some c" "r_imdbMgr r = Some db"
  shows "r' = (if outChnl (metricOutConfig c) = OUT_CHNL_WEB_SERVER
    then r\<lparr>r_webServer := Some \<lparr>web_port = ws_port (webServerConfig c), web_daemon = False\<rparr>, r_writeLogsOn := True\<rparr> else r)"
  using assms by (auto simp: WebServerInit_def WebServerCreate_def with_config_def split: if_splits)

lemma rest_init:
  "RestServerInit env path r = Ok (0, r') \<Longrightarrow> r_configMgr r = Some c \<Longrightarrow>
    r' = r\<lparr>r_restServer := Some \<lparr>rest_port = rs_port (restServerConfig c), rest_sslAuth = rs_sslAuth (restServerConfig c)\<rparr>\<rparr>"
  by (auto simp: RestServerInit_def with_config_def Let_def split: if_splits)

lemma init_log_local: "ls_local (snd (init_log_mgr env lm meta_out st)) = Some (if meta_out then lm\<lparr>is_meta_out_log := True\<rparr> else lm)"
  by (simp add: init_log_mgr_def Let_def split: prod.split)

lemma logs_init:
  assumes "LogsMgrInit env path r = Ok (0, r')" "r_configMgr r = Some c" "r_imdbMgr r = Some db" "config_bounded c"
  shows "\<exists>ls lm. r' = r\<lparr>r_logs := ls, r_logsMgr := True, r_writeLogsOn := (outChnl (metricOutConfig c) \<in> {OUT_CHNL_WEB_SERVER, OUT_CHNL_LOGS} \<or> r_writeLogsOn r)\<rparr>
    \<and> ls_local ls = Some lm \<and> (metrics_files lm \<noteq> None \<longleftrightarrow> outChnl (metricOutConfig c) \<in> {OUT_CHNL_WEB_SERVER, OUT_CHNL_LOGS})
    \<and> (event_files lm \<noteq> None \<longleftrightarrow> outChnl (eventOutConfig c) = OUT_CHNL_LOGS) \<and> metrics_path lm = metricDir (logsConfig c) \<and> event_path lm = eventDir (logsConfig c)"
proof -
  let ?m = "outChnl (metricOutConfig c) \<in> {OUT_CHNL_WEB_SERVER, OUT_CHNL_LOGS}" and ?e = "outChnl (eventOutConfig c) = OUT_CHNL_LOGS" and ?t = "outChnl (metaOutConfig c) = OUT_CHNL_LOGS"
  obtain lm where l: "create_log_mgr (se_alloc env ''logs'' 0, se_alloc env ''logs'' 1, se_alloc env ''logs'' 2) (Some (logFileName (globalConfig c))) ?m ?e = Some lm"
    using assms(1,2) by (auto simp: LogsMgrInit_def with_config_def Let_def split: option.splits)
  have q: "metrics_files lm \<noteq> None \<longleftrightarrow> ?m" "event_files lm \<noteq> None \<longleftrightarrow> ?e" using l by (auto simp: create_log_mgr_def split: if_splits)
  let ?lm = "lm\<lparr>debug_path := snprintf_s LOG_PATH_LEN (debugDir (logsConfig c)), metrics_path := snprintf_s LOG_PATH_LEN (metricDir (logsConfig c)),
     event_path := snprintf_s LOG_PATH_LEN (eventDir (logsConfig c)), meta_path := snprintf_s LOG_PATH_LEN (metaDir (logsConfig c))\<rparr>"
  obtain ret ls where i: "init_log_mgr (se_log env) ?lm ?t (r_logs r) = (ret, ls)" by (cases "init_log_mgr (se_log env) ?lm ?t (r_logs r)")
  have loc: "ls_local ls = Some (if ?t then ?lm\<lparr>is_meta_out_log := True\<rparr> else ?lm)" using init_log_local [of "se_log env" ?lm ?t "r_logs r"] unfolding i by simp
  have p: "snprintf_s LOG_PATH_LEN (metricDir (logsConfig c)) = metricDir (logsConfig c)" "snprintf_s LOG_PATH_LEN (eventDir (logsConfig c)) = eventDir (logsConfig c)"
    using assms(4) by (auto simp: config_bounded_def logs_bounded_def snprintf_s_def LOG_PATH_LEN_def)
  have "r' = r\<lparr>r_logs := ls, r_logsMgr := True, r_writeLogsOn := (?m \<or> r_writeLogsOn r)\<rparr>"
    using assms(1-3) l i by (auto simp: LogsMgrInit_def with_config_def Let_def split: if_splits)
  moreover have "metrics_files (if ?t then ?lm\<lparr>is_meta_out_log := True\<rparr> else ?lm) = metrics_files lm" "event_files (if ?t then ?lm\<lparr>is_meta_out_log := True\<rparr> else ?lm) = event_files lm"
    "metrics_path (if ?t then ?lm\<lparr>is_meta_out_log := True\<rparr> else ?lm) = metricDir (logsConfig c)" "event_path (if ?t then ?lm\<lparr>is_meta_out_log := True\<rparr> else ?lm) = eventDir (logsConfig c)"
    using p by simp_all
  ultimately show ?thesis using loc q by metis
qed

lemma event_init:
  "EventMgrInit env path r = Ok (0, r') \<Longrightarrow> r_configMgr r = Some c \<Longrightarrow>
    r' = r\<lparr>r_evt := init_event_mgr (out_timeout (eventOutConfig c)) (Some (lang_type (eventOutConfig c))) (r_evt r)\<rparr>"
  by (auto simp: EventMgrInit_def with_config_def)

lemma probe_fifo_init:
  "ProbeMngInit env path r = Ok (0, r') \<Longrightarrow> r' = r\<lparr>r_probe_mng := True\<rparr>"
  "FifoMgrInit env path r = Ok (0, r') \<Longrightarrow> \<exists>f. r' = r\<lparr>r_fifoMgr := Some f\<rparr>"
  by (auto simp: ProbeMngInit_def FifoMgrInit_def split: if_splits option.splits)

lemma init_modules_cons:
  "init_modules (f # fs) env path r = Ok (0, r') \<Longrightarrow> \<exists>r1. f env path r = Ok (0, r1) \<and> init_modules fs env path r1 = Ok (0, r')"
  by (auto split: if_splits dest!: bnd_eq_OkD)

text \<open>How the managers depend on the configuration and on each other.\<close>

definition daemon_wired :: "ConfigMgr \<Rightarrow> ('h, 'g, 'e) ResourceMgr \<Rightarrow> bool" where
  "daemon_wired c r \<longleftrightarrow> r_configMgr r = Some c
     \<and> kafka_ok (metricOutConfig c) (r_metric_kafkaMgr r) \<and> kafka_ok (metaOutConfig c) (r_meta_kafkaMgr r) \<and> kafka_ok (eventOutConfig c) (r_event_kafkaMgr r)
     \<and> (\<exists>mm db. r_mmMgr r = Some mm \<and> r_imdbMgr r = Some db \<and> measurements_ok mm \<and> meta_out_channel mm = outChnl (metaOutConfig c)
          \<and> (meta_out_channel mm = OUT_CHNL_KAFKA \<longrightarrow> meta_kafkaMgr mm) \<and> map tname (tables db) = map (take 31 \<circ> m_name) (measurements mm))
     \<and> r_ingressMgr r = Some \<lparr>il_fifoMgr = True, il_mmMgr = True, il_probsMgr = True, il_imdbMgr = True, il_egressMgr = True, il_event_channel = outChnl (eventOutConfig c)\<rparr>
     \<and> (\<exists>el. r_egressMgr r = Some el \<and> el_metric_kafka el = r_metric_kafkaMgr r \<and> el_event_kafka el = r_event_kafkaMgr r
          \<and> (metric_kafkaMgr (el_mgr el) \<longleftrightarrow> outChnl (metricOutConfig c) = OUT_CHNL_KAFKA) \<and> (event_kafkaMgr (el_mgr el) \<longleftrightarrow> outChnl (eventOutConfig c) = OUT_CHNL_KAFKA))
     \<and> map_option web_port (r_webServer r) = (if outChnl (metricOutConfig c) = OUT_CHNL_WEB_SERVER then Some (ws_port (webServerConfig c)) else None)
     \<and> (r_writeLogsOn r \<longleftrightarrow> outChnl (metricOutConfig c) \<in> {OUT_CHNL_WEB_SERVER, OUT_CHNL_LOGS})
     \<and> (\<exists>lm. ls_local (r_logs r) = Some lm \<and> (metrics_files lm \<noteq> None \<longleftrightarrow> r_writeLogsOn r) \<and> (event_files lm \<noteq> None \<longleftrightarrow> outChnl (eventOutConfig c) = OUT_CHNL_LOGS)
          \<and> metrics_path lm = metricDir (logsConfig c))
     \<and> g_evt_period (r_evt r) = out_timeout (eventOutConfig c)"

text \<open>The managers before the start.\<close>

definition no_managers :: "('h, 'g, 'e) ResourceMgr \<Rightarrow> bool" where
  "no_managers r \<longleftrightarrow> r_metric_kafkaMgr r = None \<and> r_meta_kafkaMgr r = None \<and> r_event_kafkaMgr r = None \<and> r_webServer r = None \<and> \<not> r_writeLogsOn r"

definition daemon_threads :: "ConfigMgr \<Rightarrow> daemon_thread list" where
  "daemon_threads c = [T_INGRESS, T_EGRESS] @ (if outChnl (metricOutConfig c) = OUT_CHNL_WEB_SERVER then [T_WEB_SERVER] else [])
     @ [T_METAREPORT, T_PROBEMNG, T_METRICLOG, T_CMD_SERVER, T_REST_SERVER]"

lemma modules_chain:
  assumes "ResourceMgrInit env path r = Ok (0, r')"
  shows "\<exists>r1 r2 r3 r4 r5 r6. ConfigMgrInit env path r = Ok (0, r1) \<and> ProbeMngInit env path r1 = Ok (0, r2) \<and> MeasurementMgrInit env path r2 = Ok (0, r3)
    \<and> FifoMgrInit env path r3 = Ok (0, r4) \<and> KafkaMgrInit env path r4 = Ok (0, r5) \<and> IMDBMgrInit env path r5 = Ok (0, r6)
    \<and> init_modules [EgressMgrInit, IngressMgrInit, WebServerInit, RestServerInit, LogsMgrInit, EventMgrInit] env path r6 = Ok (0, r')"
  using assms unfolding ResourceMgrInit_def gSubModuleInitorTbl_def by (blast dest: init_modules_cons)

lemma output_chain:
  assumes "init_modules [EgressMgrInit, IngressMgrInit, WebServerInit, RestServerInit, LogsMgrInit, EventMgrInit] env path r6 = Ok (0, r')"
  shows "\<exists>r7 r8 r9 r10 r11. EgressMgrInit env path r6 = Ok (0, r7) \<and> IngressMgrInit env path r7 = Ok (0, r8) \<and> WebServerInit env path r8 = Ok (0, r9)
    \<and> RestServerInit env path r9 = Ok (0, r10) \<and> LogsMgrInit env path r10 = Ok (0, r11) \<and> EventMgrInit env path r11 = Ok (0, r')"
proof -
  obtain r12 where "init_modules [] env path r12 = Ok (0, r')"
      "\<exists>r7 r8 r9 r10 r11. EgressMgrInit env path r6 = Ok (0, r7) \<and> IngressMgrInit env path r7 = Ok (0, r8) \<and> WebServerInit env path r8 = Ok (0, r9)
        \<and> RestServerInit env path r9 = Ok (0, r10) \<and> LogsMgrInit env path r10 = Ok (0, r11) \<and> EventMgrInit env path r11 = Ok (0, r12)"
    using assms by (blast dest: init_modules_cons)
  then show ?thesis by simp
qed

text \<open>The six modules before the outputs.\<close>

lemma modules_first:
  fixes r :: "('h, 'g, 'e) ResourceMgr"
  assumes "ConfigMgrInit env path r = Ok (0, r1)" "ProbeMngInit env path r1 = Ok (0, r2)" "MeasurementMgrInit env path r2 = Ok (0, r3)" "FifoMgrInit env path r3 = Ok (0, r4)"
    and "KafkaMgrInit env path r4 = Ok (0, r5)" "IMDBMgrInit env path r5 = Ok (0, r6)" "no_managers r"
  shows "\<exists>c mm f k1 k2 k3 db t. config_bounded c \<and> kafka_ok (metricOutConfig c) k1 \<and> kafka_ok (metaOutConfig c) k2 \<and> kafka_ok (eventOutConfig c) k3
    \<and> measurements_ok mm \<and> meta_out_channel mm = outChnl (metaOutConfig c) \<and> (outChnl (metaOutConfig c) = OUT_CHNL_KAFKA \<longrightarrow> meta_kafkaMgr mm)
    \<and> map tname (tables db) = map (take 31 \<circ> m_name) (measurements mm)
    \<and> r6 = r\<lparr>r_configMgr := Some c, r_probe_mng := True, r_mmMgr := Some mm, r_fifoMgr := Some f, r_metric_kafkaMgr := k1, r_meta_kafkaMgr := k2, r_event_kafkaMgr := k3,
         r_recordTimeout := t, r_imdbMgr := Some db\<rparr>"
proof -
  obtain c where r1: "r1 = r\<lparr>r_configMgr := Some c\<rparr>" and cb: "config_bounded c" using config_init [OF assms(1)] by blast
  have r2: "r2 = r1\<lparr>r_probe_mng := True\<rparr>" by (rule probe_fifo_init(1) [OF assms(2)])
  obtain mm where r3: "r3 = r2\<lparr>r_mmMgr := Some mm\<rparr>" and mm: "measurements_ok mm" "meta_out_channel mm = outChnl (metaOutConfig c)"
    using measurement_init [OF assms(3), of c] r1 r2 by auto
  obtain f where r4: "r4 = r3\<lparr>r_fifoMgr := Some f\<rparr>" using probe_fifo_init(2) [OF assms(4)] by blast
  obtain k1 k2 k3 where r5: "r5 = r4\<lparr>r_metric_kafkaMgr := k1, r_meta_kafkaMgr := k2,
       r_mmMgr := map_option (\<lambda>mm. if k2 = None then mm else mm\<lparr>meta_kafkaMgr := True\<rparr>) (r_mmMgr r4), r_event_kafkaMgr := k3\<rparr>"
    and k: "kafka_ok (metricOutConfig c) k1" "kafka_ok (metaOutConfig c) k2" "kafka_ok (eventOutConfig c) k3"
    using kafka_init [OF assms(5) _ cb] assms(7) r1 r2 r3 r4 by (auto simp: no_managers_def)
  define mm' where "mm' = (if k2 = None then mm else mm\<lparr>meta_kafkaMgr := True\<rparr>)"
  have mm': "measurements_ok mm'" "meta_out_channel mm' = outChnl (metaOutConfig c)" "outChnl (metaOutConfig c) = OUT_CHNL_KAFKA \<longrightarrow> meta_kafkaMgr mm'"
    using mm k(2) by (auto simp: mm'_def measurements_ok_def kafka_ok_def)
  have m5: "r_mmMgr r5 = Some mm'" "r_configMgr r5 = Some c" unfolding r5 r4 r3 r2 r1 by (simp_all add: mm'_def)
  obtain db t where r6: "r6 = r5\<lparr>r_recordTimeout := t, r_imdbMgr := Some db\<rparr>" and db: "map tname (tables db) = map (take 31 \<circ> m_name) (measurements mm')"
    using imdb_init [OF assms(6) m5(2,1)] by blast
  have "r6 = r\<lparr>r_configMgr := Some c, r_probe_mng := True, r_mmMgr := Some mm', r_fifoMgr := Some f, r_metric_kafkaMgr := k1, r_meta_kafkaMgr := k2, r_event_kafkaMgr := k3,
         r_recordTimeout := t, r_imdbMgr := Some db\<rparr>" unfolding r6 r5 r4 r3 r2 r1 by (simp add: mm'_def)
  then show ?thesis using cb k mm' db by blast
qed

text \<open>The six modules of the outputs.\<close>

lemma modules_last:
  fixes r :: "('h, 'g, 'e) ResourceMgr"
  assumes "EgressMgrInit env path r6 = Ok (0, r7)" "IngressMgrInit env path r7 = Ok (0, r8)" "WebServerInit env path r8 = Ok (0, r9)" "RestServerInit env path r9 = Ok (0, r10)"
    and "LogsMgrInit env path r10 = Ok (0, r11)" "EventMgrInit env path r11 = Ok (0, r')"
    and c: "r_configMgr r6 = Some c" "r_imdbMgr r6 = Some db" "config_bounded c" and w: "r_webServer r6 = None" "\<not> r_writeLogsOn r6"
    and g: "r_fifoMgr r6 \<noteq> None" "r_mmMgr r6 \<noteq> None" "r_probe_mng r6"
  shows "\<exists>el ls lm. ls_local ls = Some lm \<and> (metrics_files lm \<noteq> None \<longleftrightarrow> outChnl (metricOutConfig c) \<in> {OUT_CHNL_WEB_SERVER, OUT_CHNL_LOGS})
      \<and> (event_files lm \<noteq> None \<longleftrightarrow> outChnl (eventOutConfig c) = OUT_CHNL_LOGS) \<and> metrics_path lm = metricDir (logsConfig c)
      \<and> el_metric_kafka el = r_metric_kafkaMgr r6 \<and> el_event_kafka el = r_event_kafkaMgr r6
      \<and> (metric_kafkaMgr (el_mgr el) \<longleftrightarrow> r_metric_kafkaMgr r6 \<noteq> None) \<and> (event_kafkaMgr (el_mgr el) \<longleftrightarrow> r_event_kafkaMgr r6 \<noteq> None)
      \<and> r' = r6\<lparr>r_egressMgr := Some el,
           r_ingressMgr := Some \<lparr>il_fifoMgr = True, il_mmMgr = True, il_probsMgr = True, il_imdbMgr = True, il_egressMgr = True, il_event_channel = outChnl (eventOutConfig c)\<rparr>,
           r_webServer := (if outChnl (metricOutConfig c) = OUT_CHNL_WEB_SERVER then Some \<lparr>web_port = ws_port (webServerConfig c), web_daemon = False\<rparr> else None),
           r_restServer := Some \<lparr>rest_port = rs_port (restServerConfig c), rest_sslAuth = rs_sslAuth (restServerConfig c)\<rparr>,
           r_logs := ls, r_logsMgr := True, r_writeLogsOn := outChnl (metricOutConfig c) \<in> {OUT_CHNL_WEB_SERVER, OUT_CHNL_LOGS},
           r_evt := init_event_mgr (out_timeout (eventOutConfig c)) (Some (lang_type (eventOutConfig c))) (r_evt r6)\<rparr>"
proof -
  obtain el where r7: "r7 = r6\<lparr>r_egressMgr := Some el\<rparr>" and el: "el_metric_kafka el = r_metric_kafkaMgr r6" "el_event_kafka el = r_event_kafkaMgr r6"
      "metric_kafkaMgr (el_mgr el) \<longleftrightarrow> r_metric_kafkaMgr r6 \<noteq> None" "event_kafkaMgr (el_mgr el) \<longleftrightarrow> r_event_kafkaMgr r6 \<noteq> None"
    using egress_init [OF assms(1) c(1)] by blast
  have r8: "r8 = r7\<lparr>r_ingressMgr := Some \<lparr>il_fifoMgr = True, il_mmMgr = True, il_probsMgr = True, il_imdbMgr = True, il_egressMgr = True, il_event_channel = outChnl (eventOutConfig c)\<rparr>\<rparr>"
    using ingress_init [OF assms(2), of c] c g unfolding r7 by simp
  have c8: "r_configMgr r8 = Some c" "r_imdbMgr r8 = Some db" using c unfolding r8 r7 by simp_all
  define web where "web = (if outChnl (metricOutConfig c) = OUT_CHNL_WEB_SERVER then Some \<lparr>web_port = ws_port (webServerConfig c), web_daemon = False\<rparr> else None)"
  have "r8\<lparr>r_webServer := r_webServer r8, r_writeLogsOn := r_writeLogsOn r8\<rparr> = r8" by simp
  then have "r8\<lparr>r_webServer := None, r_writeLogsOn := False\<rparr> = r8" using w unfolding r8 r7 by simp
  then have r9: "r9 = r8\<lparr>r_webServer := web, r_writeLogsOn := outChnl (metricOutConfig c) = OUT_CHNL_WEB_SERVER\<rparr>"
    using web_init [OF assms(3) c8] unfolding web_def by (cases "outChnl (metricOutConfig c) = OUT_CHNL_WEB_SERVER") simp_all
  have r10: "r10 = r9\<lparr>r_restServer := Some \<lparr>rest_port = rs_port (restServerConfig c), rest_sslAuth = rs_sslAuth (restServerConfig c)\<rparr>\<rparr>"
    using rest_init [OF assms(4), of c] c8 unfolding r9 by simp
  obtain ls lm where r11: "r11 = r10\<lparr>r_logs := ls, r_logsMgr := True, r_writeLogsOn := (outChnl (metricOutConfig c) \<in> {OUT_CHNL_WEB_SERVER, OUT_CHNL_LOGS} \<or> r_writeLogsOn r10)\<rparr>"
    and lm: "ls_local ls = Some lm" "metrics_files lm \<noteq> None \<longleftrightarrow> outChnl (metricOutConfig c) \<in> {OUT_CHNL_WEB_SERVER, OUT_CHNL_LOGS}"
      "event_files lm \<noteq> None \<longleftrightarrow> outChnl (eventOutConfig c) = OUT_CHNL_LOGS" "metrics_path lm = metricDir (logsConfig c)"
    using logs_init [OF assms(5), of c db] c8 c(3) unfolding r10 r9 by auto
  have "r' = r11\<lparr>r_evt := init_event_mgr (out_timeout (eventOutConfig c)) (Some (lang_type (eventOutConfig c))) (r_evt r6)\<rparr>"
    using event_init [OF assms(6), of c] c8 unfolding r11 r10 r9 r8 r7 by simp
  then show ?thesis using el lm unfolding r11 r10 r9 r8 r7 web_def by (intro exI [of _ el] exI [of _ ls] exI [of _ lm]) auto
qed


lemma start_all_total: "list_all snd ts \<Longrightarrow> \<exists>ret us. start_all start ts ds = Ok (ret, us) \<and> (list_all (start \<circ> fst) ts \<longrightarrow> ret = 0 \<and> us = ds @ map fst ts)"
proof (induction ts arbitrary: ds)
  case (Cons t ts)
  then show ?case using Cons.IH [of "ds @ [fst t]"] by (cases t) auto
qed simp

lemma wired_runs:
  assumes "daemon_wired c r" "r_probe_mng r" "r_restServer r \<noteq> None"
  shows "\<exists>ret ts. DaemonRun start r = Ok (ret, ts) \<and> ((\<forall>t. start t) \<longrightarrow> ret = 0 \<and> ts = daemon_threads c)"
proof -
  have w: "r_webServer r \<noteq> None \<longleftrightarrow> outChnl (metricOutConfig c) = OUT_CHNL_WEB_SERVER" using assms(1) by (cases "r_webServer r") (auto simp: daemon_wired_def split: if_splits)
  have "r_ingressMgr r \<noteq> None" "r_egressMgr r \<noteq> None" "r_mmMgr r \<noteq> None" "r_imdbMgr r \<noteq> None" using assms(1) by (auto simp: daemon_wired_def)
  then have t: "list_all snd ([(T_INGRESS, r_ingressMgr r \<noteq> None), (T_EGRESS, r_egressMgr r \<noteq> None)] @ (if r_webServer r \<noteq> None then [(T_WEB_SERVER, True)] else [])
      @ [(T_METAREPORT, r_mmMgr r \<noteq> None), (T_PROBEMNG, r_probe_mng r), (T_METRICLOG, r_imdbMgr r \<noteq> None), (T_CMD_SERVER, True), (T_REST_SERVER, r_restServer r \<noteq> None)])"
    using assms(2,3) by simp
  then obtain ret us where s: "DaemonRun start r = Ok (ret, us)" and u: "(\<forall>t. start t) \<Longrightarrow> ret = 0 \<and> us = daemon_threads c"
    using start_all_total [OF t, of start "[]"] w unfolding DaemonRun_def daemon_threads_def
    by (cases "outChnl (metricOutConfig c) = OUT_CHNL_WEB_SERVER") (simp_all only: if_True if_False list_all_iff comp_def append.simps list.map fst_conv simp_thms, blast+)
  then show ?thesis by blast
qed

text \<open>C7. A start of the daemon that succeeds (\<open>ResourceMgrInit\<close>) leaves no manager out and connects them as configured: the three Kafka managers exist exactly for the outputs whose channel
  is Kafka, each with its own topic, and egress and the metadata have them; the database has exactly the tables of the measurements; the web server exists, with the
  configured port, exactly when the metrics go to it; metrics are written to log files, with a queue of files, exactly for the web server and the logs; and the ingress has
  every manager it uses. So \<open>DaemonRun\<close> never follows a null pointer, and when the system starts every thread it starts exactly those that are due, in order.\<close>

theorem daemon_start:
  fixes r :: "('h, 'g, 'e) ResourceMgr"
  assumes "ResourceMgrInit env path r = Ok (0, r')" "no_managers r"
  shows "\<exists>c. daemon_wired c r' \<and> (\<exists>ret ts. DaemonRun start r' = Ok (ret, ts) \<and> ((\<forall>t. start t) \<longrightarrow> ret = 0 \<and> ts = daemon_threads c))"
proof -
  obtain r1 r2 r3 r4 r5 r6 where i: "ConfigMgrInit env path r = Ok (0, r1)" "ProbeMngInit env path r1 = Ok (0, r2)" "MeasurementMgrInit env path r2 = Ok (0, r3)"
      "FifoMgrInit env path r3 = Ok (0, r4)" "KafkaMgrInit env path r4 = Ok (0, r5)" "IMDBMgrInit env path r5 = Ok (0, r6)"
    and m: "init_modules [EgressMgrInit, IngressMgrInit, WebServerInit, RestServerInit, LogsMgrInit, EventMgrInit] env path r6 = Ok (0, r')"
    using modules_chain [OF assms(1)] by blast
  obtain r7 r8 r9 r10 r11 where j: "EgressMgrInit env path r6 = Ok (0, r7)" "IngressMgrInit env path r7 = Ok (0, r8)" "WebServerInit env path r8 = Ok (0, r9)"
      "RestServerInit env path r9 = Ok (0, r10)" "LogsMgrInit env path r10 = Ok (0, r11)" "EventMgrInit env path r11 = Ok (0, r')" using output_chain [OF m] by blast
  obtain c mm f k1 k2 k3 db t where a: "config_bounded c" "kafka_ok (metricOutConfig c) k1" "kafka_ok (metaOutConfig c) k2" "kafka_ok (eventOutConfig c) k3"
      "measurements_ok mm" "meta_out_channel mm = outChnl (metaOutConfig c)" "outChnl (metaOutConfig c) = OUT_CHNL_KAFKA \<longrightarrow> meta_kafkaMgr mm"
      "map tname (tables db) = map (take 31 \<circ> m_name) (measurements mm)"
    and r6: "r6 = r\<lparr>r_configMgr := Some c, r_probe_mng := True, r_mmMgr := Some mm, r_fifoMgr := Some f, r_metric_kafkaMgr := k1, r_meta_kafkaMgr := k2, r_event_kafkaMgr := k3,
         r_recordTimeout := t, r_imdbMgr := Some db\<rparr>" using modules_first [OF i assms(2)] by blast
  have k: "k1 \<noteq> None \<longleftrightarrow> outChnl (metricOutConfig c) = OUT_CHNL_KAFKA" "k3 \<noteq> None \<longleftrightarrow> outChnl (eventOutConfig c) = OUT_CHNL_KAFKA"
    using a(2,4) by (auto simp: kafka_ok_def split: if_splits)
  have "r_webServer r6 = None" "\<not> r_writeLogsOn r6" using assms(2) unfolding r6 by (simp_all add: no_managers_def)
  from modules_last [OF j _ _ a(1) this, of db] r6 obtain el ls lm where l: "ls_local ls = Some lm"
      "metrics_files lm \<noteq> None \<longleftrightarrow> outChnl (metricOutConfig c) \<in> {OUT_CHNL_WEB_SERVER, OUT_CHNL_LOGS}" "event_files lm \<noteq> None \<longleftrightarrow> outChnl (eventOutConfig c) = OUT_CHNL_LOGS"
      "metrics_path lm = metricDir (logsConfig c)" "el_metric_kafka el = k1" "el_event_kafka el = k3" "metric_kafkaMgr (el_mgr el) \<longleftrightarrow> k1 \<noteq> None" "event_kafkaMgr (el_mgr el) \<longleftrightarrow> k3 \<noteq> None"
    and e: "r' = r6\<lparr>r_egressMgr := Some el,
           r_ingressMgr := Some \<lparr>il_fifoMgr = True, il_mmMgr = True, il_probsMgr = True, il_imdbMgr = True, il_egressMgr = True, il_event_channel = outChnl (eventOutConfig c)\<rparr>,
           r_webServer := (if outChnl (metricOutConfig c) = OUT_CHNL_WEB_SERVER then Some \<lparr>web_port = ws_port (webServerConfig c), web_daemon = False\<rparr> else None),
           r_restServer := Some \<lparr>rest_port = rs_port (restServerConfig c), rest_sslAuth = rs_sslAuth (restServerConfig c)\<rparr>,
           r_logs := ls, r_logsMgr := True, r_writeLogsOn := outChnl (metricOutConfig c) \<in> {OUT_CHNL_WEB_SERVER, OUT_CHNL_LOGS},
           r_evt := init_event_mgr (out_timeout (eventOutConfig c)) (Some (lang_type (eventOutConfig c))) (r_evt r6)\<rparr>"
    by auto
  have "daemon_wired c r'" unfolding daemon_wired_def e r6 using a l k by (simp add: init_event_mgr_def)
  moreover have "r_probe_mng r'" "r_restServer r' \<noteq> None" unfolding e r6 by simp_all
  ultimately show ?thesis using wired_runs by blast
qed

text \<open>The command line: \<open>gala-gopher\<close> started with any argument stops, also with the documented \<open>-c\<close> and a configuration that exists. The loop over the options has
  no way out but the return of -1, so that only the default configuration can be used, by a start without arguments.\<close>

theorem config_option_refused:
  assumes "argc \<noteq> 1"
  shows "fst (CmdProcessing accessible alloc argc opts) = - 1 \<and> gopher_main env start accessible argc opts r = Ok None"
proof -
  have "fst (cmd_options accessible a opts conf) = - 1" for a conf by (induction accessible a opts conf rule: cmd_options.induct) auto
  then have "fst (CmdProcessing accessible a argc opts) = - 1" for a using assms by (simp add: CmdProcessing_def)
  then show ?thesis by (auto simp: gopher_main_def split: prod.split) (metis fst_conv neg_equal_0_iff_equal one_neq_zero)
qed

theorem config_option_refused_witness:
  "fst (CmdProcessing (\<lambda>_. True) True 3 [(CHR ''c'', ''/etc/gopher.conf'')]) = - 1 \<and> fst (CmdProcessing (\<lambda>_. True) True 1 []) = 0"
  using config_option_refused [of 3 "\<lambda>_. True" True "[(CHR ''c'', ''/etc/gopher.conf'')]"] by (simp add: CmdProcessing_def ParseConfigPath_def)

lemma num_text_exact: "unat n < 10 ^ 9 \<Longrightarrow> num_text n = show_lld (uint n)"
proof -
  assume u: "unat n < 10 ^ 9"
  have "length (digits f m) \<le> k" if "m < 10 ^ k" "0 < k" for f m k
    using that
  proof (induction f arbitrary: m k)
    case (Suc f)
    then show ?case
    proof (cases "m < 10")
      case False
      then obtain j where k: "k = Suc j" "0 < j" using Suc.prems by (cases k; cases "k - 1") auto
      have "m div 10 < 10 ^ j" using Suc.prems(1) unfolding k by simp
      then show ?thesis using Suc.IH [of "m div 10" j] False k by simp
    qed simp
  qed simp
  from this [of "unat n" 9 20] have "length (show_lld (uint n)) \<le> 9" using u by (simp add: show_lld_def)
  then show ?thesis by (simp add: num_text_def snprintf_s_def)
qed

lemma num_text_cut: "num_text 2147483647 = ''214748364''"
  by (simp add: num_text_def snprintf_s_def show_lld_def digits_numeral, code_simp)

text \<open>A message is given up after three attempts, or after the first that fails for another reason than a full queue.\<close>

lemma KafkaMsgProduce_eq:
  "KafkaMsgProduce attempt =
     (if attempt 0 = PR_Ok then (0, 1) else if attempt 0 \<noteq> PR_Queue_Full then (- 1, 1)
      else if attempt 1 = PR_Ok then (0, 2) else if attempt 1 \<noteq> PR_Queue_Full then (- 1, 2)
      else (if attempt 2 = PR_Ok then 0 else - 1, 3))"
proof -
  have p2: "produce_from attempt 2 = (if attempt 2 = PR_Ok then 0 else - 1, 3)" by (subst produce_from.simps) (simp add: RETRY_MAX_def)
  have p1: "produce_from attempt 1 = (if attempt 1 = PR_Ok then (0, 2) else if attempt 1 \<noteq> PR_Queue_Full then (- 1, 2) else produce_from attempt 2)"
    by (subst produce_from.simps) (simp add: RETRY_MAX_def numeral_2_eq_2)
  have "KafkaMsgProduce attempt = (if attempt 0 = PR_Ok then (0, 1) else if attempt 0 \<noteq> PR_Queue_Full then (- 1, 1) else produce_from attempt 1)"
    unfolding KafkaMsgProduce_def by (subst produce_from.simps) (simp add: RETRY_MAX_def)
  then show ?thesis unfolding p1 p2 .
qed

lemma produce_attempts:
  "snd (KafkaMsgProduce attempt) \<le> RETRY_MAX" "fst (KafkaMsgProduce attempt) = 0 \<longleftrightarrow> attempt (snd (KafkaMsgProduce attempt) - 1) = PR_Ok"
  by (simp_all add: KafkaMsgProduce_eq RETRY_MAX_def)


text \<open>A start in which the metrics go to the web server and the events to Kafka.\<close>

definition demo_lc :: "conf_tree libconfig" where
  "demo_lc = tree_config [''/etc/gala-gopher/gala-gopher.conf'' \<mapsto> demo_config_file, ''/opt/gala-gopher/meta/proc.meta'' \<mapsto> demo_meta_file]"

definition demo_start_env :: "(conf_tree, (string \<times> IMDB_Record) list, unit) start_env" where
  "demo_start_env = \<lparr>se_libconfig = demo_lc,
     se_kafka = \<lparr>rd_conf_set = (\<lambda>_ _. True), rd_new = True, rd_topic_new = (\<lambda>_. True)\<rparr>, se_log = demo_log_env, se_alloc = (\<lambda>_ _. True),
     se_meta_files = Some [''.'', ''..'', ''proc.meta''], se_imdb_malloc = (\<lambda>_. True), se_rec_ops = alist_ops, se_no_tgids = (), se_uuid = Some ''uuid'', se_ip = None,
     se_lock = True, se_efd = 7, se_probe_mng = True, se_load_pem = (\<lambda>_. False)\<rparr>"

definition demo_resource :: "((string \<times> IMDB_Record) list, unit, unit) ResourceMgr" where
  "demo_resource = \<lparr>r_configMgr = None, r_imdbMgr = None, r_writeLogsOn = False, r_recordTimeout = 60, r_probe_mng = False, r_mmMgr = None, r_fifoMgr = None,
     r_metric_kafkaMgr = None, r_meta_kafkaMgr = None, r_event_kafkaMgr = None, r_ingressMgr = None, r_egressMgr = None, r_webServer = None, r_restServer = None, r_logsMgr = False,
     r_logs = \<lparr>ls_files = Map.empty, ls_local = None, ls_metrics_app = None, ls_event_app = None, ls_debug_app = None, ls_meta_app = None, ls_meta_abs_path = [], ls_debug_abs_path = []\<rparr>,
     r_evt = \<lparr>g_evt_head = (), g_evt_period = 600, g_evt_conf = None, g_lang_type = ''zh_CN''\<rparr>\<rparr>"

lemma demo_conf_start: "ConfigMgrCreate (\<lambda>_. True) = Some zero_config" "ConfigMgrLoad demo_lc ''/etc/gala-gopher/gala-gopher.conf'' zero_config = (0, demo_conf)"
  using demo_conf_loaded [of "[''/etc/gala-gopher/gala-gopher.conf'' \<mapsto> demo_config_file, ''/opt/gala-gopher/meta/proc.meta'' \<mapsto> demo_meta_file]" "''/etc/gala-gopher/gala-gopher.conf''"]
  by (simp_all add: ConfigMgrCreate_def list_all_iff demo_lc_def)

lemma demo_conf_values:
  "outChnl (metricOutConfig demo_conf) = OUT_CHNL_WEB_SERVER" "outChnl (eventOutConfig demo_conf) = OUT_CHNL_KAFKA" "outChnl (metaOutConfig demo_conf) = OUT_CHNL_INVALID"
  "\<not> rs_sslAuth (restServerConfig demo_conf)" "maxTablesNum (imdbConfig demo_conf) = 1024" "maxMetricsNum (imdbConfig demo_conf) = 1024"
  by (simp_all add: demo_conf_def)

lemma demo_meta_start:
  "MeasurementMgrLoad demo_lc (\<lambda>_. True) (empty_mm_mgr\<lparr>measurementsCapability := 1024\<rparr>) ''/opt/gala-gopher/meta'' (Some [''.'', ''..'', ''proc.meta''])
     = Ok (0, empty_mm_mgr\<lparr>measurementsCapability := 1024, measurements := [demo_measurement]\<rparr>)"
  by (simp add: MeasurementMgrLoad_def MeasurementMgrLoadSingleMeta_def demo_lc_def tree_config_def snprintf_s_def MAX_META_PATH_LEN_def demo_meta_file_def conf_text_def
      MeasurementLoad_def FieldLoad_def MeasurementMgrAdd_def MeasurementMgrGet_def empty_mm_mgr_def demo_measurement_def upt_rec
      MAX_META_VERSION_LEN_def MAX_MEASUREMENT_NAME_LEN_def MAX_FIELD_DESCRIPTION_LEN_def MAX_FIELD_TYPE_LEN_def MAX_FIELD_NAME_LEN_def)

lemma demo_mm_create: "MeasurementMgrCreate True 1024 1024 = Some (empty_mm_mgr\<lparr>measurementsCapability := 1024\<rparr>)"
  by (simp add: MeasurementMgrCreate_def empty_mm_mgr_def MAX_FIELDS_NUM_def)

lemma demo_tables:
  "tables db = [] \<Longrightarrow> tblsCapability db = 1024 \<Longrightarrow> IMDBMgrDatabaseLoad alist_ops (\<lambda>_. True) cap [demo_measurement] db = Ok (0, db\<lparr>tables := [table_of alist_ops cap demo_measurement]\<rparr>)"
  using database_load_run [of "\<lambda>_. True" "[demo_measurement]" db alist_ops cap] demo_measurement_ok by simp

lemma demo_daemon_start:
  "\<exists>r'. ResourceMgrInit demo_start_env ''/etc/gala-gopher/gala-gopher.conf'' demo_resource = Ok (0, r')"
proof -
  have k: "\<exists>k. KafkaMgrCreate \<lparr>rd_conf_set = (\<lambda>_ _. True), rd_new = True, rd_topic_new = (\<lambda>_. True)\<rparr> True demo_conf ''event_topic'' = Some k"
    by (simp add: KafkaMgrCreate_def topic_of_def list_all_iff Let_def)
  have f: "FifoCreate True True 7 1024 = Some \<lparr>fifo_buffer = replicate 1024 None, fifo_size = 1024, fifo_in = 0, fifo_out = 0, triggerFd = 7\<rparr>" for x
    by (simp add: FifoCreate_def IS_POWER_OF_TWO_def)
  show ?thesis using k
    by (auto simp: ResourceMgrInit_def gSubModuleInitorTbl_def ConfigMgrInit_def ProbeMngInit_def MeasurementMgrInit_def FifoMgrInit_def FifoMgrCreate_def KafkaMgrInit_def
        kafka_unit_def IMDBMgrInit_def IMDB_DataBaseMgrCreate_def EgressMgrInit_def EgressMgrCreate_def f IngressMgrInit_def WebServerInit_def WebServerCreate_def RestServerInit_def
        LogsMgrInit_def create_log_mgr_def create_queue_def init_log_mgr_def EventMgrInit_def with_config_def demo_start_env_def demo_resource_def demo_conf_start demo_conf_values
        demo_mm_create demo_meta_start demo_tables Let_def simp del: IMDBMgrDatabaseLoad.simps split: prod.split)
qed

theorem daemon_start_witness:
  "\<exists>r' c. ResourceMgrInit demo_start_env ''/etc/gala-gopher/gala-gopher.conf'' demo_resource = Ok (0, r') \<and> daemon_wired c r' \<and> DaemonRun (\<lambda>_. True) r' = Ok (0, daemon_threads c)"
proof -
  obtain r' where i: "ResourceMgrInit demo_start_env ''/etc/gala-gopher/gala-gopher.conf'' demo_resource = Ok (0, r')" using demo_daemon_start by blast
  have "no_managers demo_resource" by (simp add: no_managers_def demo_resource_def)
  from daemon_start [OF i this, of "\<lambda>_. True"] i show ?thesis by auto
qed

end
