(* ===== verification/Rest_Server.thy ===== *)
theory Rest_Server
  imports Metric_Logs Probe_Mng
begin

text \<open>
  The REST server, \<open>api/rest_server.c\<close>, and the JSON it prints of a probe (\<open>get_probe_json\<close> of \<open>lib/probe/probe_mng.c\<close>, \<open>print_snooper\<close> of \<open>lib/probe/snooper.c\<close>). The outcome of
  a request does not depend on how its body is cut; what is printed is read back.
\<close>

section \<open>Errors\<close>

definition PARSE_JSON_ERR_STR_LEN :: nat where "PARSE_JSON_ERR_STR_LEN = 200"

text \<open>The texts of \<open>PARSE_ERR\<close>, which \<open>parse_probe_json\<close> and the functions it calls write into \<open>g_parse_json_err\<close>.\<close>

fun parse_err_text :: "parse_err \<Rightarrow> string" where
  "parse_err_text (Range_err key lo hi) = ''params.'' @ key @ '' invalid value, must be in ['' @ show_lld lo @ '', '' @ show_lld hi @ '']''"
| "parse_err_text (Value_err key v) = ''params.'' @ key @ '' invalid value: '' @ v"
| "parse_err_text (Type_err key) = ''params.'' @ key @ '' invalid data type''"

fun req_err_text :: "req_err \<Rightarrow> string" where
  "req_err_text Null_binpath = ''null binpath''"
| "req_err_text Invalid_binfile = ''invalid binfile''"
| "req_err_text (Unknown_entry s) = ''failed to set entry for probe, unknown func: '' @ s"
| "req_err_text Range_not_string = ''invalid probe range: must be string''"
| "req_err_text Start_failed = ''failed to start probe''"
| "req_err_text Cancel_failed = ''failed to cancel native probe''"
| "req_err_text No_process = ''failed to find process of extend probe''"
| "req_err_text State_not_string = ''invalid state: must be string''"
| "req_err_text (Invalid_state s) = ''invalid state '' @ s @ '': must be running or stopped''"
| "req_err_text (Params_err e) = parse_err_text e"
| "req_err_text (Snoopers_err (Snooper_err s)) = ''Error occurs when parsing snooper '' @ s"
| "req_err_text Send_failed = ''failed to send ipc msg to probe''"
| "req_err_text Bad_request = ''Bad request''"
| "req_err_text Invalid_json = ''invalid json format''"

definition PARSE_ERR :: "string \<Rightarrow> string" where
  "PARSE_ERR text = snprintf_s PARSE_JSON_ERR_STR_LEN text"

text \<open>\<open>g_parse_json_err\<close> after \<open>parse_probe_json\<close>: untouched when there is no probe of that name, else ''Bad request'' or the text of the step that failed.\<close>

definition err_after :: "bool \<Rightarrow> step_ret \<Rightarrow> string \<Rightarrow> string" where
  "err_after found r err = (if \<not> found then err else case r of Inl (Some e) \<Rightarrow> PARSE_ERR (req_err_text e) | _ \<Rightarrow> PARSE_ERR ''Bad request'')"

section \<open>The probe as JSON\<close>

definition printed_ranges :: "int \<Rightarrow> u32 \<Rightarrow> (int \<times> string \<times> u32) list \<Rightarrow> string list" where
  "printed_ranges t fl table = map (\<lambda>(_, desc, _). desc) (filter (\<lambda>(pt, _, f). t = pt \<and> fl AND f \<noteq> 0) table)"

definition or_empty :: "string option \<Rightarrow> string" where
  "or_empty s = (case s of None \<Rightarrow> [] | Some t \<Rightarrow> t)"

definition probe_printer_cmd :: "probe_s \<Rightarrow> json" where
  "probe_printer_cmd p = JObj [(''bin'', JStr (or_empty (p_bin p))), (''check_cmd'', JStr (or_empty (p_chk_cmd p))),
     (''probe'', JArr (map JStr (printed_ranges (p_type p) (p_range_flags p) probe_range_define)))]"

text \<open>The loops over the configurations follow each of the first \<open>snooper_conf_num\<close> pointers; \<open>print_confs\<close> collects what a loop adds to its array.\<close>

fun print_confs :: "(snooper_conf_s \<Rightarrow> json option) \<Rightarrow> snooper_conf_s option list \<Rightarrow> json list outc" where
  "print_confs f [] = Ok []"
| "print_confs f (None # confs) = UB"
| "print_confs f (Some c # confs) = bnd (print_confs f confs) (\<lambda>js. Ok (case f c of None \<Rightarrow> js | Some j \<Rightarrow> j # js))"

definition live_confs :: "probe_s \<Rightarrow> snooper_conf_s option list" where
  "live_confs p = take (p_conf_num p) (p_confs p) @ replicate (p_conf_num p - length (p_confs p)) None"

definition print_snooper_procid :: "probe_s \<Rightarrow> (string \<times> json) list outc" where
  "print_snooper_procid p = bnd (print_confs (\<lambda>c. case c of CONF_PROC_ID i \<Rightarrow> Some (JNum (uint i)) | _ \<Rightarrow> None) (live_confs p)) (\<lambda>js. Ok [(''proc_id'', JArr js)])"

definition print_snooper_procname :: "probe_s \<Rightarrow> (string \<times> json) list outc" where
  "print_snooper_procname p = bnd (print_confs (\<lambda>c. case c of
       CONF_APP nm cmdline dbg \<Rightarrow> Some (JObj [(''comm'', JStr nm), (''cmdline'', JStr (or_empty cmdline)), (''debugging_dir'', JStr (or_empty dbg))])
     | _ \<Rightarrow> None) (live_confs p)) (\<lambda>js. Ok [(''proc_name'', JArr js)])"

definition print_snooper_pod_container :: "probe_s \<Rightarrow> (string \<times> json) list outc" where
  "print_snooper_pod_container p =
     bnd (print_confs (\<lambda>c. case c of CONF_POD_ID s \<Rightarrow> Some (JStr s) | _ \<Rightarrow> None) (live_confs p)) (\<lambda>pods.
     bnd (print_confs (\<lambda>c. case c of CONF_CONTAINER_ID s \<Rightarrow> Some (JStr s) | _ \<Rightarrow> None) (live_confs p)) (\<lambda>cons.
       Ok [(''pod_id'', JArr pods), (''container_id'', JArr cons)]))"

definition print_snooper_gaussdb :: "probe_s \<Rightarrow> (string \<times> json) list outc" where
  "print_snooper_gaussdb p = bnd (print_confs (\<lambda>c. case c of
       CONF_GAUSSDB ip db user pw prt \<Rightarrow> Some (JObj [(''dbip'', JStr (or_empty ip)), (''dbport'', JNum (uint prt)), (''dbname'', JStr (or_empty db)),
         (''dbuser'', JStr (or_empty user)), (''dbpass'', JStr (or_empty pw))])
     | _ \<Rightarrow> None) (live_confs p)) (\<lambda>js. Ok [(''gaussdb'', JArr js)])"

definition print_snooper :: "probe_s \<Rightarrow> json outc" where
  "print_snooper p = bnd (print_snooper_procid p) (\<lambda>a. bnd (print_snooper_procname p) (\<lambda>b.
     bnd (print_snooper_pod_container p) (\<lambda>c. bnd (print_snooper_gaussdb p) (\<lambda>d. Ok (JObj (a @ b @ c @ d))))))"

text \<open>\<open>print\<close> is \<open>cJSON_PrintUnformatted\<close>. A probe that is known but was never configured prints as an empty object.\<close>

definition get_probe_json :: "(json \<Rightarrow> string option) \<Rightarrow> string \<Rightarrow> probe_s option list \<Rightarrow> string option outc" where
  "get_probe_json print name probes =
     (let t = get_probe_type_by_name (Some name) in
      if t \<ge> PROBE_TYPE_MAX then Ok None
      else case probes ! nat t of None \<Rightarrow> Ok (print (JObj []))
        | Some p \<Rightarrow> bnd (print_snooper p) (\<lambda>s. Ok (print (JObj [(''cmd'', probe_printer_cmd p), (''snoopers'', s)]))))"

section \<open>The requests\<close>

definition REST_RESPONSE_LEN_MAX :: nat where "REST_RESPONSE_LEN_MAX = 128"
definition POST_BUFFER_SIZE :: nat where "POST_BUFFER_SIZE = 2048"

record RestRequest =
  data_broken :: bool
  post_data :: "string option"
  postprocessor :: bool

text \<open>The results of gnutls for the certificate of a client; the last two have the text of the certificate authority as an argument. Its size is \<open>strlen(rootCaPem) - 1\<close>,
  which wraps when the text is empty, so that gnutls is told to read past it.\<close>

record gnutls =
  x509_crt_init :: int
  tls_session :: bool
  certificate_verify_peers2 :: int
  certificate_get_peers :: "nat option"
  x509_crt_import :: int
  trust_list_add_trust_mem :: "string \<Rightarrow> int"
  trust_list_verify_crt2 :: "string \<Rightarrow> int \<times> u32"

definition GetClientCertificate :: "gnutls \<Rightarrow> int" where
  "GetClientCertificate g =
     (if \<not> tls_session g then - 1
      else if certificate_verify_peers2 g \<noteq> 0 then - 1
      else if certificate_get_peers g \<in> {None, Some 0} then - 1
      else if x509_crt_import g \<noteq> 0 then - 1 else 0)"

definition RestServerClientAuth :: "string \<Rightarrow> gnutls \<Rightarrow> int outc" where
  "RestServerClientAuth rootCaPem g =
     (let ca_data = take (length rootCaPem - 1) rootCaPem in
      if x509_crt_init g \<noteq> 0 then Ok (- 1)
      else if GetClientCertificate g = - 1 then Ok (- 1)
      else if rootCaPem = [] then UB
      else if trust_list_add_trust_mem g ca_data \<noteq> 1 then Ok (- 1)
      else if fst (trust_list_verify_crt2 g ca_data) < 0 \<or> snd (trust_list_verify_crt2 g ca_data) \<noteq> 0 then Ok (- 1) else Ok 0)"

text \<open>What the server relies on for one connection: the managers' environments of \<open>parse_probe_json\<close>, the parser and printer of cJSON, the memory, libmicrohttpd and gnutls.\<close>

record ('h, 'c, 'j) rest_env =
  re_pm :: pm_env
  re_ipc :: ipc_env
  re_cx :: "('h, 'c) snp_ctx"
  re_api :: "'j cjson"
  re_parse :: "string \<Rightarrow> 'j option"
  re_print :: "json \<Rightarrow> string option"
  re_probe_alloc :: bool
  re_backup_alloc :: bool
  re_request_alloc :: bool
  re_post_alloc :: bool
  re_post_processor :: bool
  re_mhd :: mhd
  re_root_ca :: "string option"
  re_gnutls :: gnutls

record 'h rest_state =
  rst_probes :: "probe_s option list"
  rst_pods :: 'h
  rst_queue :: "sysv_msg list"
  rst_err :: string

datatype rest_reply = Rest_NO | Rest_YES | Rest_Reply nat string

definition RestResponseMessage :: "mhd \<Rightarrow> nat \<Rightarrow> string \<Rightarrow> rest_reply" where
  "RestResponseMessage m status_code message =
     (let buf = snprintf_s REST_RESPONSE_LEN_MAX ((if status_code = 200 then ''{ \"result\": \"success\", \"message\":\"'' else ''{ \"result\": \"failed\", \"message\":\"'')
                  @ message @ ''\" }\<newline>'') in
      if \<not> mhd_create m \<or> \<not> mhd_queue m then Rest_NO else Rest_Reply status_code buf)"

text \<open>One piece of the form: its key, the memory that can be read from \<open>data\<close> on, and \<open>size\<close>, the number of bytes at \<open>data\<close> that belong to the piece. \<open>strcat\<close> does not know
  \<open>size\<close>: it copies up to the first zero byte it meets, and there may be none; \<open>post_data\<close> has 2049 bytes.\<close>

type_synonym piece = "string \<times> string \<times> nat"

definition strcat_post :: "string \<Rightarrow> string \<Rightarrow> string outc" where
  "strcat_post post mem = (if CHR 0x00 \<notin> set mem \<or> length post + length (chars mem) > POST_BUFFER_SIZE then UB else Ok (post @ chars mem))"

definition RestPostIterator :: "bool \<Rightarrow> piece \<Rightarrow> RestRequest \<Rightarrow> string \<Rightarrow> (bool \<times> RestRequest \<times> string) outc" where
  "RestPostIterator alloc piece request err =
     (case piece of (key, data, data_size) \<Rightarrow>
        if key \<noteq> ''json'' then Ok (False, request\<lparr>data_broken := True\<rparr>, PARSE_ERR ''post data must start with json='')
        else if post_data request = None \<and> \<not> alloc then Ok (False, request, err)
        else let post = or_empty (post_data request) in
          if length post + data_size > POST_BUFFER_SIZE
          then Ok (False, request\<lparr>data_broken := True, post_data := Some post\<rparr>, PARSE_ERR ''post data size exceeds 2048'')
          else bnd (strcat_post post data) (\<lambda>post. Ok (True, request\<lparr>post_data := Some post\<rparr>, err)))"

text \<open>\<open>MHD_post_process\<close> calls the iterator for every piece, and stops when the iterator says so.\<close>

fun post_process :: "bool \<Rightarrow> piece list \<Rightarrow> RestRequest \<Rightarrow> string \<Rightarrow> (RestRequest \<times> string) outc" where
  "post_process alloc [] request err = Ok (request, err)"
| "post_process alloc (p # ps) request err =
     bnd (RestPostIterator alloc p request err) (\<lambda>(go_on, request, err).
       if go_on then post_process alloc ps request err else Ok (request, err))"

definition RestHandlePostRequest :: "('h, 'c, 'j) rest_env \<Rightarrow> string \<Rightarrow> nat \<Rightarrow> piece list \<Rightarrow> RestRequest \<Rightarrow> 'h rest_state
    \<Rightarrow> (rest_reply \<times> RestRequest \<times> 'h rest_state) outc" where
  "RestHandlePostRequest env url upload_data_size ps request st =
     (if upload_data_size \<noteq> 0 then bnd (post_process (re_post_alloc env) ps request (rst_err st)) (\<lambda>(request, err).
        Ok (Rest_YES, request, st\<lparr>rst_err := err\<rparr>))
      else if or_empty (post_data request) \<noteq> [] \<and> \<not> data_broken request then
        bnd (parse_probe_json (re_pm env) (re_ipc env) (re_cx env) (re_api env) (re_parse env) (re_probe_alloc env) (re_backup_alloc env)
               url (or_empty (post_data request)) (rst_probes st) (rst_pods st) (rst_queue st)) (\<lambda>(probes, h, q, r).
          let st' = \<lparr>rst_probes = probes, rst_pods = h, rst_queue = q,
                     rst_err = err_after (snd (get_probe_by_name (re_probe_alloc env) (Some url) (rst_probes st)) \<noteq> None) r (rst_err st)\<rparr> in
          Ok (if r = Inr () then RestResponseMessage (re_mhd env) 200 ''New config takes effect''
              else RestResponseMessage (re_mhd env) 400 (rst_err st'), request, st'))
      else Ok (RestResponseMessage (re_mhd env) 400 (rst_err st), request, st))"

definition RestHandleGetRequest :: "('h, 'c, 'j) rest_env \<Rightarrow> string \<Rightarrow> 'h rest_state \<Rightarrow> rest_reply outc" where
  "RestHandleGetRequest env url st =
     bnd (get_probe_json (re_print env) url (rst_probes st)) (\<lambda>buf. case buf of
       Some text \<Rightarrow> Ok (if \<not> mhd_create (re_mhd env) \<or> \<not> mhd_queue (re_mhd env) then Rest_NO else Rest_Reply 200 text)
     | None \<Rightarrow> Ok (RestResponseMessage (re_mhd env) 404 ''Url not found''))"

definition RestRequestCallback :: "('h, 'c, 'j) rest_env \<Rightarrow> string \<Rightarrow> string \<Rightarrow> nat \<Rightarrow> piece list \<Rightarrow> RestRequest option \<Rightarrow> 'h rest_state
    \<Rightarrow> (rest_reply \<times> RestRequest option \<times> 'h rest_state) outc" where
  "RestRequestCallback env url http_method upload_data_size ps request st =
     (if length url \<le> 1 then Ok (RestResponseMessage (re_mhd env) 404 ''Url not found'', request, st)
      else bnd (case re_root_ca env of None \<Rightarrow> Ok 0 | Some pem \<Rightarrow> RestServerClientAuth pem (re_gnutls env)) (\<lambda>auth.
      if auth < 0 then Ok (RestResponseMessage (re_mhd env) 401 ''Client unauthorized'', request, st)
      else case request of
        None \<Rightarrow>
          if \<not> re_request_alloc env then Ok (Rest_NO, None, st)
          else let request = \<lparr>data_broken = False, post_data = None, postprocessor = http_method = ''PUT'' \<and> re_post_processor env\<rparr> in
            Ok (if http_method = ''PUT'' \<and> \<not> re_post_processor env then Rest_NO else Rest_YES, Some request, st)
      | Some r \<Rightarrow>
          (if http_method = ''PUT'' then bnd (RestHandlePostRequest env (tl url) upload_data_size ps r st) (\<lambda>(reply, r, st). Ok (reply, Some r, st))
           else if http_method = ''GET'' then bnd (RestHandleGetRequest env (tl url) st) (\<lambda>reply. Ok (reply, request, st))
           else Ok (RestResponseMessage (re_mhd env) 405 ''Method not allowed'', request, st))))"

text \<open>The calls that libmicrohttpd makes for one request, until the callback queues an answer or ends the connection.\<close>

fun rest_calls :: "('h, 'c, 'j) rest_env \<Rightarrow> string \<Rightarrow> string \<Rightarrow> (nat \<times> piece list) list \<Rightarrow> RestRequest option \<Rightarrow> 'h rest_state
    \<Rightarrow> (rest_reply \<times> 'h rest_state) outc" where
  "rest_calls env url http_method [] request st = Ok (Rest_YES, st)"
| "rest_calls env url http_method ((n, ps) # calls) request st =
     bnd (RestRequestCallback env url http_method n ps request st) (\<lambda>(reply, request, st).
       if reply = Rest_YES then rest_calls env url http_method calls request st else Ok (reply, st))"


section \<open>A request to change a probe\<close>

definition authorised :: "('h, 'c, 'j) rest_env \<Rightarrow> bool" where
  "authorised env \<longleftrightarrow> (case re_root_ca env of None \<Rightarrow> True | Some pem \<Rightarrow> RestServerClientAuth pem (re_gnutls env) = Ok 0)"

lemma auth_cases:
  assumes "re_root_ca env \<noteq> Some []"
  shows "\<exists>r. (case re_root_ca env of None \<Rightarrow> Ok 0 | Some pem \<Rightarrow> RestServerClientAuth pem (re_gnutls env)) = Ok r \<and> (authorised env \<longleftrightarrow> \<not> r < 0)"
  using assms by (auto simp: authorised_def RestServerClientAuth_def Let_def split: option.splits)

text \<open>The request after the uploads, and the calls of a whole request.\<close>

fun receive :: "bool \<Rightarrow> (nat \<times> piece list) list \<Rightarrow> RestRequest \<Rightarrow> string \<Rightarrow> (RestRequest \<times> string) outc" where
  "receive alloc [] r err = Ok (r, err)"
| "receive alloc ((n, ps) # us) r err = bnd (post_process alloc ps r err) (\<lambda>(r, err). receive alloc us r err)"

definition put_calls :: "(nat \<times> piece list) list \<Rightarrow> (nat \<times> piece list) list" where
  "put_calls us = (0, []) # us @ [(0, [])]"

text \<open>What a caller of \<open>strcat\<close> has to see to: the bytes of the piece hold no zero byte, and one follows them.\<close>

definition piece_terminated :: "piece \<Rightarrow> bool" where
  "piece_terminated p \<longleftrightarrow> (case p of (_, data, n) \<Rightarrow> n < length data \<and> data ! n = CHR 0x00 \<and> CHR 0x00 \<notin> set (take n data))"

definition content_of :: "piece list \<Rightarrow> string" where
  "content_of ps = concat (map (\<lambda>(_, data, n). take n data) ps)"

definition acceptable :: "nat \<Rightarrow> piece list \<Rightarrow> bool" where
  "acceptable n ps \<longleftrightarrow> list_all (\<lambda>(key, _). key = ''json'') ps \<and> n + length (content_of ps) \<le> POST_BUFFER_SIZE"

lemma content_simps [simp]: "content_of [] = []" "content_of ((k, d, n) # ps) = take n d @ content_of ps" "content_of (ps @ qs) = content_of ps @ content_of qs"
  by (simp_all add: content_of_def)

lemma chars_terminated: "piece_terminated (k, d, n) \<Longrightarrow> chars d = take n d \<and> CHR 0x00 \<in> set d \<and> length (take n d) = n"
proof -
  assume a: "piece_terminated (k, d, n)"
  then have "d = take n d @ CHR 0x00 # drop (Suc n) d" using id_take_nth_drop [of n d] by (auto simp: piece_terminated_def)
  then have "chars d = chars (take n d @ CHR 0x00 # drop (Suc n) d)" by simp
  also have "\<dots> = take n d" using a by (subst chars_def, subst takeWhile_append2) (auto simp: piece_terminated_def)
  finally show ?thesis using a nth_mem [of n d] by (simp add: piece_terminated_def)
qed

lemma iterator_run:
  assumes "piece_terminated (k, d, n)" "length (or_empty (post_data r)) \<le> POST_BUFFER_SIZE"
  shows "RestPostIterator True (k, d, n) r err =
     (if k \<noteq> ''json'' then Ok (False, r\<lparr>data_broken := True\<rparr>, PARSE_ERR ''post data must start with json='')
      else if length (or_empty (post_data r)) + n > POST_BUFFER_SIZE
      then Ok (False, r\<lparr>data_broken := True, post_data := Some (or_empty (post_data r))\<rparr>, PARSE_ERR ''post data size exceeds 2048'')
      else Ok (True, r\<lparr>post_data := Some (or_empty (post_data r) @ take n d)\<rparr>, err))"
  using chars_terminated [OF assms(1)] by (simp add: RestPostIterator_def strcat_post_def Let_def)

lemma or_empty_Some [simp]: "or_empty (Some s) = s" by (simp add: or_empty_def)

text \<open>One upload: the request stays within its buffer, a broken one stays broken, and one that is not has all the pieces.\<close>

lemma post_process_run:
  assumes "list_all piece_terminated ps" "length (or_empty (post_data r)) \<le> POST_BUFFER_SIZE"
  shows "\<exists>r' err'. post_process True ps r err = Ok (r', err') \<and> length (or_empty (post_data r')) \<le> POST_BUFFER_SIZE \<and>
     (data_broken r' \<longleftrightarrow> data_broken r \<or> \<not> acceptable (length (or_empty (post_data r))) ps) \<and>
     (\<not> data_broken r' \<longrightarrow> or_empty (post_data r') = or_empty (post_data r) @ content_of ps \<and> err' = err)"
  using assms
proof (induction ps arbitrary: r)
  case (Cons p ps)
  obtain k d n where p: "p = (k, d, n)" by (cases p)
  have i: "piece_terminated (k, d, n)" using Cons.prems(1) p by simp
  have n: "length (take n d) = n" "min (length d) n = n" using chars_terminated [OF i] by simp_all
  show ?case
  proof (cases "k = ''json'' \<and> length (or_empty (post_data r)) + n \<le> POST_BUFFER_SIZE")
    case True
    let ?r = "r\<lparr>post_data := Some (or_empty (post_data r) @ take n d)\<rparr>"
    obtain r' err' where h: "post_process True ps ?r err = Ok (r', err')" "length (or_empty (post_data r')) \<le> POST_BUFFER_SIZE"
        "data_broken r' \<longleftrightarrow> data_broken r \<or> \<not> acceptable (length (or_empty (post_data r)) + n) ps"
        "\<not> data_broken r' \<Longrightarrow> or_empty (post_data r') = or_empty (post_data r) @ take n d @ content_of ps \<and> err' = err"
      using Cons.IH [of ?r] Cons.prems True n by auto
    have "post_process True (p # ps) r err = Ok (r', err')" using iterator_run [OF i Cons.prems(2)] True p h(1) by simp
    moreover have "acceptable (length (or_empty (post_data r))) (p # ps) \<longleftrightarrow> acceptable (length (or_empty (post_data r)) + n) ps"
      using True p n by (auto simp: acceptable_def)
    ultimately show ?thesis using h(2-4) p by auto
  next
    case False
    then show ?thesis using iterator_run [OF i Cons.prems(2)] Cons.prems(2) p n by (auto simp: acceptable_def)
  qed
qed (simp add: acceptable_def)

lemma acceptable_append: "acceptable n (ps @ qs) \<longleftrightarrow> acceptable n ps \<and> acceptable (n + length (content_of ps)) qs"
  by (auto simp: acceptable_def)

lemma receive_all:
  assumes "list_all (list_all piece_terminated \<circ> snd) us" "length (or_empty (post_data r)) \<le> POST_BUFFER_SIZE"
  shows "\<exists>r' err'. receive True us r err = Ok (r', err') \<and>
     (data_broken r' \<longleftrightarrow> data_broken r \<or> \<not> acceptable (length (or_empty (post_data r))) (concat (map snd us))) \<and>
     (\<not> data_broken r' \<longrightarrow> or_empty (post_data r') = or_empty (post_data r) @ content_of (concat (map snd us)) \<and> err' = err)"
  using assms
proof (induction us arbitrary: r err)
  case (Cons u us)
  obtain n ps where u: "u = (n, ps)" by (cases u)
  obtain r1 e1 where p: "post_process True ps r err = Ok (r1, e1)" "length (or_empty (post_data r1)) \<le> POST_BUFFER_SIZE"
      "data_broken r1 \<longleftrightarrow> data_broken r \<or> \<not> acceptable (length (or_empty (post_data r))) ps"
      "\<not> data_broken r1 \<longrightarrow> or_empty (post_data r1) = or_empty (post_data r) @ content_of ps \<and> e1 = err"
    using post_process_run [of ps r err] Cons.prems u by auto
  show ?case using Cons.IH [of r1 e1] Cons.prems p u by (cases "data_broken r1") (auto simp: acceptable_append)
qed (simp add: acceptable_def)

lemma last_call:
  "bnd (bnd m (\<lambda>(reply, r, st). Ok (reply, Some r, st))) (\<lambda>(reply, request, st). if reply = Rest_YES then rest_calls env url http_method [] request st else Ok (reply, st))
     = bnd m (\<lambda>(reply, r, st). Ok (reply, st))"
  by (cases m) (auto split: prod.splits)

lemma put_uploads:
  assumes "length url > 1" "authorised env" "list_all (\<lambda>u. fst u \<noteq> 0) us"
  shows "rest_calls env url ''PUT'' (us @ [(0, [])]) (Some r) st =
     bnd (receive (re_post_alloc env) us r (rst_err st)) (\<lambda>(r, err).
        bnd (RestHandlePostRequest env (tl url) 0 [] r (st\<lparr>rst_err := err\<rparr>)) (\<lambda>(reply, r, st). Ok (reply, st)))"
  using assms(3)
proof (induction us arbitrary: r st)
  case Nil
  have "st\<lparr>rst_err := rst_err st\<rparr> = st" by simp
  then show ?case using assms(1,2) by (auto simp: RestRequestCallback_def authorised_def last_call split: option.splits)
next
  case (Cons u us)
  obtain n ps where u: "u = (n, ps)" "n \<noteq> 0" using Cons.prems by (cases u) auto
  have c: "RestRequestCallback env url ''PUT'' n ps (Some r) st =
      bnd (post_process (re_post_alloc env) ps r (rst_err st)) (\<lambda>(r, err). Ok (Rest_YES, Some r, st\<lparr>rst_err := err\<rparr>))"
    using assms(1,2) u(2) by (cases "post_process (re_post_alloc env) ps r (rst_err st)") (auto simp: RestRequestCallback_def RestHandlePostRequest_def authorised_def split: option.splits)
  show ?case using Cons.IH Cons.prems u(1) c by (cases "post_process (re_post_alloc env) ps r (rst_err st)") auto
qed

text \<open>The answer to a request whose content is the given text.\<close>

definition put_answer :: "('h, 'c, 'j) rest_env \<Rightarrow> string \<Rightarrow> string \<Rightarrow> 'h rest_state \<Rightarrow> (rest_reply \<times> 'h rest_state) outc" where
  "put_answer env name content st =
     bnd (parse_probe_json (re_pm env) (re_ipc env) (re_cx env) (re_api env) (re_parse env) (re_probe_alloc env) (re_backup_alloc env)
            name content (rst_probes st) (rst_pods st) (rst_queue st)) (\<lambda>(probes, h, q, r).
       let err = err_after (snd (get_probe_by_name (re_probe_alloc env) (Some name) (rst_probes st)) \<noteq> None) r (rst_err st) in
       Ok (RestResponseMessage (re_mhd env) (if r = Inr () then 200 else 400) (if r = Inr () then ''New config takes effect'' else err),
           \<lparr>rst_probes = probes, rst_pods = h, rst_queue = q, rst_err = err\<rparr>))"

lemma handle_last:
  "bnd (RestHandlePostRequest env name 0 [] r st) (\<lambda>(reply, r, st). Ok (reply, st)) =
     (if or_empty (post_data r) \<noteq> [] \<and> \<not> data_broken r then put_answer env name (or_empty (post_data r)) st
      else Ok (RestResponseMessage (re_mhd env) 400 (rst_err st), st))"
proof -
  have s: "bnd (bnd m f) g = bnd m (\<lambda>x. bnd (f x) g)" for m :: "'x outc" and f :: "'x \<Rightarrow> 'y outc" and g :: "'y \<Rightarrow> 'z outc" by (cases m) simp_all
  have c: "bnd m f = bnd m g" if "\<And>x. f x = g x" for m :: "'x outc" and f g :: "'x \<Rightarrow> 'y outc" using that by (cases m) simp_all
  show ?thesis unfolding RestHandlePostRequest_def put_answer_def by (auto simp: s Let_def case_prod_unfold intro!: c)
qed


text \<open>A piece without a zero byte behind it, which libmicrohttpd does not promise, makes \<open>strcat\<close> read past the memory of the piece.\<close>

lemma rest_put_unterminated:
  assumes "CHR 0x00 \<notin> set data" "post_data r = None" "n \<le> POST_BUFFER_SIZE"
  shows "post_process True [(''json'', data, n)] r err = UB"
  using assms by (simp add: RestPostIterator_def strcat_post_def or_empty_def Let_def)

text \<open>With a zero byte in the form the text depends on the cut: of the three bytes ''a'', 0 and ''b'' in one piece the first is kept, in two pieces the first and the last.\<close>

lemma rest_put_zero_byte:
  assumes "post_data r = None"
  shows "\<exists>r1 r2. post_process True [(''json'', [CHR ''a'', CHR 0x00, CHR ''b'', CHR 0x00], 3)] r err = Ok (r1, err) \<and> post_data r1 = Some ''a'' \<and>
     post_process True [(''json'', [CHR ''a'', CHR 0x00, CHR 0x00], 2), (''json'', [CHR ''b'', CHR 0x00], 1)] r err = Ok (r2, err) \<and> post_data r2 = Some ''ab''"
  using assms by (simp add: RestPostIterator_def strcat_post_def chars_def or_empty_def POST_BUFFER_SIZE_def Let_def)

section \<open>What a request prints is read back\<close>

lemma print_confs_all: "print_confs f (map Some confs) = Ok (List.map_filter f confs)"
  by (induction confs) (simp_all add: List.map_filter_simps split: option.split)

lemma array_items_json [simp]: "array_items json_api (JArr js) = js"
  by (rule nth_equalityI) (simp_all add: array_items_def json_api_def)

text \<open>Configurations as a request stores them, and as they are read back: a missing command line, and the members of the last kind, which are stored only when empty, come back empty.\<close>

fun conf_stored :: "snooper_conf_s \<Rightarrow> bool" where
  "conf_stored (CONF_APP nm cmdline dbg) \<longleftrightarrow> nm \<noteq> [] \<and> length nm \<le> TASK_COMM_LEN \<and> dbg \<noteq> Some []"
| "conf_stored (CONF_GAUSSDB ip db user pw prt) \<longleftrightarrow> ip \<in> {None, Some []} \<and> db \<in> {None, Some []} \<and> user \<in> {None, Some []} \<and> pw \<in> {None, Some []}"
| "conf_stored (CONF_PROC_ID i) \<longleftrightarrow> True"
| "conf_stored (CONF_POD_ID s) \<longleftrightarrow> s \<noteq> [] \<and> length s \<le> POD_ID_LEN"
| "conf_stored (CONF_CONTAINER_ID s) \<longleftrightarrow> s \<noteq> [] \<and> length s \<le> CONTAINER_ABBR_ID_LEN"

fun read_back :: "snooper_conf_s \<Rightarrow> snooper_conf_s" where
  "read_back (CONF_APP nm cmdline dbg) = CONF_APP nm (Some (or_empty cmdline)) dbg"
| "read_back (CONF_GAUSSDB ip db user pw prt) = CONF_GAUSSDB (Some []) (Some []) (Some []) (Some []) prt"
| "read_back c = c"

fun conf_kind :: "snooper_conf_s \<Rightarrow> nat" where
  "conf_kind (CONF_PROC_ID i) = 0"
| "conf_kind (CONF_APP nm cmdline dbg) = 1"
| "conf_kind (CONF_POD_ID s) = 2"
| "conf_kind (CONF_CONTAINER_ID s) = 3"
| "conf_kind (CONF_GAUSSDB ip db user pw prt) = 4"

definition of_kind :: "nat \<Rightarrow> snooper_conf_s list \<Rightarrow> bool" where
  "of_kind k confs \<longleftrightarrow> (\<forall>c \<in> set confs. conf_kind c = k \<and> conf_stored c)"

text \<open>A printer and a reader of one kind of configuration.\<close>

lemma kind_reads_back:
  assumes "\<forall>c. conf_stored c \<longrightarrow> (if conf_kind c = k then \<exists>j. pr c = Some j \<and> rdr j = Some (Some (read_back c)) else pr c = None)" "list_all conf_stored confs"
  shows "List.map_filter (\<lambda>obj. the (rdr obj)) (List.map_filter pr confs) = map read_back (filter (\<lambda>c. conf_kind c = k) confs)"
    and "\<forall>obj \<in> set (List.map_filter pr confs). rdr obj \<noteq> None"
    and "length (List.map_filter pr confs) = length (filter (\<lambda>c. conf_kind c = k) confs)"
  using assms(2)
proof (induction confs)
  case (Cons c confs)
  { case 1 then show ?case using Cons.IH(1) assms(1) [rule_format, of c] by (cases "conf_kind c = k") (auto simp: List.map_filter_simps) }
  { case 2 then show ?case using Cons.IH(2) assms(1) [rule_format, of c] by (cases "conf_kind c = k") (auto simp: List.map_filter_simps) }
  { case 3 then show ?case using Cons.IH(3) assms(1) [rule_format, of c] by (cases "conf_kind c = k") (auto simp: List.map_filter_simps) }
qed (simp_all add: List.map_filter_simps)

lemma kinds_in_order:
  assumes "of_kind 0 a" "of_kind 1 b" "of_kind 2 c" "of_kind 3 d" "of_kind 4 e"
  shows "concat (map (\<lambda>k. filter (\<lambda>x. conf_kind x = k) (a @ b @ c @ d @ e)) [0, 1, 2, 3, 4]) = a @ b @ c @ d @ e"
proof -
  have f: "filter (\<lambda>x. conf_kind x = j) l = (if j = k then l else [])" if "of_kind k l" for j k l
    using that by (auto simp: of_kind_def filter_empty_conv intro!: filter_True)
  show ?thesis by (simp add: f [OF assms(1)] f [OF assms(2)] f [OF assms(3)] f [OF assms(4)] f [OF assms(5)])
qed

lemma stored_part:
  assumes "\<And>obj c. conf api obj = Some (Some c) \<Longrightarrow> conf_kind c = k \<and> conf_stored c" "\<forall>obj \<in> set objs. conf api obj \<noteq> None"
  shows "of_kind k (List.map_filter (\<lambda>obj. the (conf api obj)) objs)"
  using assms by (auto simp: of_kind_def List.map_filter_def)

lemma requested_stored:
  assumes "items_valid api json"
  shows "list_all conf_stored (requested api json)"
    and "concat (map (\<lambda>k. filter (\<lambda>x. conf_kind x = k) (requested api json)) [0, 1, 2, 3, 4]) = requested api json"
proof -
  note v = assms [unfolded items_valid_def]
  have p: "of_kind 0 (List.map_filter (\<lambda>obj. the (procid_conf api obj)) (key_items api json ''proc_id''))"
    using v by (intro stored_part) (auto simp: procid_conf_def split: if_splits)
  have n: "of_kind 1 (List.map_filter (\<lambda>obj. the (procname_conf api obj)) (key_items api json ''proc_name''))"
    using v by (intro stored_part) (auto simp: procname_conf_def TASK_COMM_LEN_def split: if_splits option.splits)
  have o': "of_kind 2 (List.map_filter (\<lambda>obj. the (pod_conf api obj)) (key_items api json ''pod_id''))"
    using v by (intro stored_part) (auto simp: pod_conf_def POD_ID_LEN_def split: if_splits)
  have c: "of_kind 3 (List.map_filter (\<lambda>obj. the (container_conf api obj)) (key_items api json ''container_id''))"
    using v by (intro stored_part) (auto simp: container_conf_def CONTAINER_ABBR_ID_LEN_def split: if_splits)
  have g: "of_kind 4 (List.map_filter (\<lambda>obj. the (gaussdb_conf api obj)) (key_items api json ''gaussdb''))"
    using v by (intro stored_part) (auto simp: gaussdb_conf_def dup_empty_def split: if_splits option.splits)
  show "concat (map (\<lambda>k. filter (\<lambda>x. conf_kind x = k) (requested api json)) [0, 1, 2, 3, 4]) = requested api json"
    unfolding requested_def by (rule kinds_in_order [OF p n o' c g])
  show "list_all conf_stored (requested api json)" using p n o' c g by (auto simp: requested_def of_kind_def list_all_iff)
qed

lemma snoopers_printed:
  assumes "live_confs p = map Some confs" "list_all conf_stored confs"
  shows "\<exists>j. print_snooper p = Ok j \<and> items_valid json_api j \<and> items_count json_api j = length (requested json_api j) \<and>
     requested json_api j = map read_back (concat (map (\<lambda>k. filter (\<lambda>x. conf_kind x = k) confs) [0, 1, 2, 3, 4]))"
proof -
  let ?p0 = "\<lambda>c. case c of CONF_PROC_ID i \<Rightarrow> Some (JNum (uint i)) | _ \<Rightarrow> None"
  let ?p1 = "\<lambda>c. case c of CONF_APP nm cmdline dbg \<Rightarrow> Some (JObj [(''comm'', JStr nm), (''cmdline'', JStr (or_empty cmdline)), (''debugging_dir'', JStr (or_empty dbg))]) | _ \<Rightarrow> None"
  let ?p2 = "\<lambda>c. case c of CONF_POD_ID s \<Rightarrow> Some (JStr s) | _ \<Rightarrow> None"
  let ?p3 = "\<lambda>c. case c of CONF_CONTAINER_ID s \<Rightarrow> Some (JStr s) | _ \<Rightarrow> None"
  let ?p4 = "\<lambda>c. case c of CONF_GAUSSDB ip db user pw prt \<Rightarrow> Some (JObj [(''dbip'', JStr (or_empty ip)), (''dbport'', JNum (uint prt)), (''dbname'', JStr (or_empty db)),
         (''dbuser'', JStr (or_empty user)), (''dbpass'', JStr (or_empty pw))]) | _ \<Rightarrow> None"
  let ?j = "JObj [(''proc_id'', JArr (List.map_filter ?p0 confs)), (''proc_name'', JArr (List.map_filter ?p1 confs)), (''pod_id'', JArr (List.map_filter ?p2 confs)),
     (''container_id'', JArr (List.map_filter ?p3 confs)), (''gaussdb'', JArr (List.map_filter ?p4 confs))]"
  have j: "print_snooper p = Ok ?j"
    by (simp add: print_snooper_def print_snooper_procid_def print_snooper_procname_def print_snooper_pod_container_def print_snooper_gaussdb_def assms(1) print_confs_all)
  have k: "key_items json_api ?j ''proc_id'' = List.map_filter ?p0 confs" "key_items json_api ?j ''proc_name'' = List.map_filter ?p1 confs"
    "key_items json_api ?j ''pod_id'' = List.map_filter ?p2 confs" "key_items json_api ?j ''container_id'' = List.map_filter ?p3 confs"
    "key_items json_api ?j ''gaussdb'' = List.map_filter ?p4 confs"
    by (simp_all add: key_items_def json_api_def array_items_json [unfolded json_api_def])
  have 0: "\<forall>c. conf_stored c \<longrightarrow> (if conf_kind c = 0 then \<exists>j. ?p0 c = Some j \<and> procid_conf json_api j = Some (Some (read_back c)) else ?p0 c = None)"
    by (intro allI impI, case_tac c) (simp_all add: procid_conf_def json_api_def)
  have 1: "\<forall>c. conf_stored c \<longrightarrow> (if conf_kind c = 1 then \<exists>j. ?p1 c = Some j \<and> procname_conf json_api j = Some (Some (read_back c)) else ?p1 c = None)"
    by (intro allI impI, case_tac c) (auto simp: procname_conf_def string_member_def bad_string_def json_api_def or_empty_def split: option.split)
  have 2: "\<forall>c. conf_stored c \<longrightarrow> (if conf_kind c = 2 then \<exists>j. ?p2 c = Some j \<and> pod_conf json_api j = Some (Some (read_back c)) else ?p2 c = None)"
    by (intro allI impI, case_tac c) (simp_all add: pod_conf_def json_api_def)
  have 3: "\<forall>c. conf_stored c \<longrightarrow> (if conf_kind c = 3 then \<exists>j. ?p3 c = Some j \<and> container_conf json_api j = Some (Some (read_back c)) else ?p3 c = None)"
    by (intro allI impI, case_tac c) (simp_all add: container_conf_def json_api_def)
  have 4: "\<forall>c. conf_stored c \<longrightarrow> (if conf_kind c = 4 then \<exists>j. ?p4 c = Some j \<and> gaussdb_conf json_api j = Some (Some (read_back c)) else ?p4 c = None)"
    by (intro allI impI, case_tac c) (auto simp: gaussdb_conf_def string_member_def json_api_def or_empty_def dup_empty_def)
  note r = kind_reads_back [OF "0" assms(2)] kind_reads_back [OF "1" assms(2)] kind_reads_back [OF "2" assms(2)] kind_reads_back [OF "3" assms(2)] kind_reads_back [OF "4" assms(2)]
  have "items_valid json_api ?j" unfolding items_valid_def k using r(2,5,8,11,14) by blast
  moreover have q: "requested json_api ?j = map read_back (concat (map (\<lambda>k. filter (\<lambda>x. conf_kind x = k) confs) [0, 1, 2, 3, 4]))"
    unfolding requested_def k r(1,4,7,10,13) by simp
  moreover have "items_count json_api ?j = length (requested json_api ?j)" unfolding q items_count_def by (simp add: k r(3,6,9,12,15))
  ultimately show ?thesis using j by blast
qed

text \<open>The ranges: the table has one bit for each, and its names differ even when case is ignored.\<close>

definition range_bits :: "int \<Rightarrow> u32 list" where
  "range_bits t = map (\<lambda>(_, _, f). f) (filter (\<lambda>(pt, _, _). pt = t) probe_range_define)"

lemma range_lookup_in:
  assumes "list_all (\<lambda>(_, d, _). map tolower_c d = d) table" "distinct (map (\<lambda>(pt, d, _). (pt, d)) table)" "(t, d, f) \<in> set table" "map tolower_c d = d"
  shows "range_lookup table t d = f"
  using assms
proof (induction table)
  case (Cons r table)
  then show ?case by (cases r) (force simp: strcaseeq_def)
qed simp

lemma range_names:
  "list_all (\<lambda>(_, d, _). map tolower_c d = d) probe_range_define" "distinct (map (\<lambda>(pt, d, _). (pt, d)) probe_range_define)"
  "list_all (\<lambda>(_, _, f). f \<in> {1, 2, 4, 8, 0x10, 0x20, 0x40, 0x80}) probe_range_define"
  by (code_simp, simp add: probe_range_define_def, simp add: probe_range_define_def)

lemma range_table:
  "list_all (\<lambda>(pt, desc, f). get_probe_range pt desc = f \<and> f \<in> {1, 2, 4, 8, 0x10, 0x20, 0x40, 0x80}) probe_range_define"
  using range_names(1,3) range_lookup_in [OF range_names(1,2)] by (fastforce simp: list_all_iff get_probe_range_def)

lemma range_power: "fl AND push_bit i 1 \<noteq> 0 \<Longrightarrow> fl AND push_bit i 1 = push_bit i 1" for fl :: u32
proof -
  assume "fl AND push_bit i 1 \<noteq> 0"
  then obtain n where "bit (fl AND push_bit i 1) n" by (metis bit_eqI bit_0_eq bot_apply bot_bool_def)
  then have "bit fl i" by (auto simp: bit_and_iff bit_push_bit_iff push_bit_of_1 bit_exp_iff)
  then show ?thesis by (intro bit_eqI) (auto simp: bit_and_iff push_bit_of_1 bit_exp_iff)
qed

lemma range_bit: "f \<in> {1, 2, 4, 8, 0x10, 0x20, 0x40, 0x80} \<Longrightarrow> \<exists>i. f = push_bit i 1" for f :: u32
proof -
  assume "f \<in> {1, 2, 4, 8, 0x10, 0x20, 0x40, 0x80}"
  then have "f = push_bit 0 1 \<or> f = push_bit 1 1 \<or> f = push_bit 2 1 \<or> f = push_bit 3 1 \<or> f = push_bit 4 1 \<or> f = push_bit 5 1 \<or> f = push_bit 6 1 \<or> f = push_bit 7 1"
    by (auto simp: push_bit_eq_mult)
  then show ?thesis by blast
qed

lemma or_all: "foldl (OR) b l = b OR foldl (OR) 0 l" for b :: u32
  by (induction l arbitrary: b) (simp, metis (no_types, opaque_lifting) foldl_Cons or.assoc or.commute or.left_neutral)

lemma printed_bits:
  assumes "list_all (\<lambda>(pt, desc, f). get_probe_range pt desc = f \<and> f \<in> {1, 2, 4, 8, 0x10, 0x20, 0x40, 0x80}) table"
  shows "foldl (\<lambda>a s. a OR get_probe_range t s) a (printed_ranges t fl table) = a OR (fl AND foldl (OR) 0 (map (\<lambda>(_, _, f). f) (filter (\<lambda>(pt, _, _). pt = t) table)))"
  using assms
proof (induction table arbitrary: a)
  case (Cons r table)
  obtain pt desc f where r: "r = (pt, desc, f)" by (cases r)
  obtain i where i: "f = push_bit i 1" "get_probe_range pt desc = f" using Cons.prems r range_bit [of f] by auto
  have d: "fl AND (f OR x) = (fl AND f) OR (fl AND x)" for x by (rule bit_eqI) (auto simp: bit_simps)
  have "(fl AND f) = (if fl AND f = 0 then 0 else f)" using range_power [of fl i] i(1) by auto
  then show ?case using Cons.IH [of a] Cons.IH [of "a OR f"] Cons.prems r i(2) or_all [of f] d
    by (cases "pt = t"; cases "fl AND f = 0") (simp_all add: printed_ranges_def or.assoc)
qed (simp add: printed_ranges_def)

lemma range_loop_strings:
  "range_loop json_api (JArr (map JStr ss)) ixs p = Ok (p\<lparr>p_range_flags := foldl (\<lambda>a i. a OR get_probe_range (p_type p) (ss ! i)) (p_range_flags p) ixs\<rparr>, Inr ())"
  if "\<forall>i \<in> set ixs. i < length ss"
  using that by (induction ixs arbitrary: p) (simp_all add: json_api_def)

lemma foldl_nth: "foldl (\<lambda>a i. f a (ss ! i)) a [0..<length ss] = foldl f a ss"
proof -
  have "foldl (\<lambda>a i. f a (ss ! i)) a [0..<length ss] = foldl f a (map ((!) ss) [0..<length ss])" by (simp add: foldl_map)
  then show ?thesis by (simp add: map_nth)
qed

lemma ranges_read_back:
  "probe_parser_range json_api (JArr (map JStr (printed_ranges (p_type p) fl probe_range_define))) p
     = Ok (p\<lparr>p_range_flags := fl AND foldl (OR) 0 (range_bits (p_type p))\<rparr>, Inr ())"
proof -
  let ?ss = "printed_ranges (p_type p) fl probe_range_define"
  have n: "cJSON_GetArraySize json_api (JArr (map JStr ?ss)) = length ?ss" by (simp add: json_api_def)
  show ?thesis unfolding probe_parser_range_def n
    by (simp add: range_loop_strings foldl_nth [of "\<lambda>a s. a OR get_probe_range (p_type p) s"] printed_bits [OF range_table] range_bits_def)
qed


definition ranges_known :: "probe_s \<Rightarrow> bool" where
  "ranges_known p \<longleftrightarrow> p_range_flags p AND foldl (OR) 0 (range_bits (p_type p)) = p_range_flags p"

lemma bit_in_all: "f \<in> set l \<Longrightarrow> f AND foldl (OR) 0 l = f" for f :: u32
proof (induction l)
  case (Cons x l)
  have "f AND (x OR y) = f" if "f = x \<or> f AND y = f" for y using that by (auto intro!: bit_eqI simp: bit_simps) (metis bit_and_iff)
  then show ?case using Cons or_all [of x l] by (cases "f = x") auto
qed simp

lemma range_lookup_bits: "range_lookup table t s = 0 \<or> range_lookup table t s \<in> set (map (\<lambda>(_, _, f). f) (filter (\<lambda>(pt, _, _). pt = t) table))"
  by (induction table t s rule: range_lookup.induct) auto

lemma range_loop_known: "range_loop api item ixs p = Ok (p', r) \<Longrightarrow> ranges_known p \<Longrightarrow> ranges_known p'"
proof (induction ixs arbitrary: p)
  case (Cons i ixs)
  have d: "(a OR f) AND m = (a AND m) OR (f AND m)" for a f m :: u32 by (rule bit_eqI) (auto simp: bit_simps)
  have "ranges_known (p\<lparr>p_range_flags := p_range_flags p OR get_probe_range (p_type p) s\<rparr>)" for s
  proof -
    have "get_probe_range (p_type p) s = 0 \<or> get_probe_range (p_type p) s \<in> set (range_bits (p_type p))"
      unfolding get_probe_range_def range_bits_def by (rule range_lookup_bits)
    then have "get_probe_range (p_type p) s AND foldl (OR) 0 (range_bits (p_type p)) = get_probe_range (p_type p) s" using bit_in_all by auto
    then show ?thesis using Cons.prems(2) by (simp add: ranges_known_def d)
  qed
  then show ?case using Cons by (auto split: option.splits if_splits)
qed simp

text \<open>Whatever a request asks for, the ranges it sets are those of the table.\<close>

lemma ranges_known_kept: "probe_parser_range api item p = Ok (p', r) \<Longrightarrow> ranges_known p'" "ranges_known (new_probe name t)"
  using range_loop_known [of api item _ "p\<lparr>p_range_flags := 0\<rparr>" p' r] by (auto simp: probe_parser_range_def ranges_known_def new_probe_def new_probe_state_def)

text \<open>A probe whose program is settled: what an accepted \<open>cmd\<close> item leaves when the path it names is found.\<close>

definition cmd_settled :: "pm_env \<Rightarrow> probe_s \<Rightarrow> bool" where
  "cmd_settled env p \<longleftrightarrow> (case p_bin p of None \<Rightarrow> False | Some b \<Rightarrow> b \<noteq> [] \<and> hd b \<noteq> CHR ''$'') \<and>
     (if is_extend_probe env p then p_is_extend_probe p else p_entry p \<noteq> None) \<and>
     p_cb p = Some (if p_is_extend_probe p then Extend_Thread else Native_Thread)"

lemma cmd_read_back:
  assumes "cmd_settled env p" "ranges_known p"
  shows "probe_parser_cmd env json_api (probe_printer_cmd p) p = Ok (p\<lparr>p_chk_cmd := Some (or_empty (p_chk_cmd p))\<rparr>, Inr ())"
proof -
  obtain b where b: "p_bin p = Some b" "b \<noteq> []" "hd b \<noteq> CHR ''$''" using assms(1) by (auto simp: cmd_settled_def split: option.splits)
  let ?c = "probe_printer_cmd p"
  let ?p = "p\<lparr>p_chk_cmd := Some (or_empty (p_chk_cmd p))\<rparr>"
  have items: "cJSON_GetObjectItem json_api ?c ''bin'' = Some (JStr b)" "cJSON_GetObjectItem json_api ?c ''check_cmd'' = Some (JStr (or_empty (p_chk_cmd p)))"
    "cJSON_GetObjectItem json_api ?c ''probe'' = Some (JArr (map JStr (printed_ranges (p_type p) (p_range_flags p) probe_range_define)))"
    by (simp_all add: probe_printer_cmd_def json_api_def b(1))
  have str: "node_type json_api (JStr s) = cJSON_String json_api" "node_valuestring json_api (JStr s) = Some s" for s by (simp_all add: json_api_def)
  have bin: "p\<lparr>p_bin := Some b\<rparr> = p" using b(1) by simp
  have ext: "p\<lparr>p_is_extend_probe := True\<rparr> = p" if "is_extend_probe env p" using assms(1) that by (simp add: cmd_settled_def)
  have "set_probe_bin env p (Some b) = Ok (p, Inr ())"
    using b(2,3) assms(1) by (cases "is_extend_probe env p") (simp_all add: set_probe_bin_def bin ext set_probe_entry_def Let_def cmd_settled_def)
  moreover have "?p\<lparr>p_cb := Some (if p_is_extend_probe p then Extend_Thread else Native_Thread)\<rparr> = ?p" using assms(1) by (simp add: cmd_settled_def)
  moreover have "probe_parser_range json_api (JArr (map JStr (printed_ranges (p_type p) (p_range_flags p) probe_range_define))) ?p = Ok (?p, Inr ())"
    using ranges_read_back [of ?p "p_range_flags p"] assms(2) by (simp add: ranges_known_def)
  ultimately show ?thesis by (simp add: probe_parser_cmd_def cmd_bin_def items str b(2) set_probe_chk_cmd_def Let_def)
qed

text \<open>The end of a request: the probe is told when it is there and something has changed.\<close>

definition tell :: "ipc_env \<Rightarrow> probe_s \<Rightarrow> 'h \<Rightarrow> sysv_msg list \<Rightarrow> (probe_s \<times> 'h \<times> sysv_msg list \<times> step_ret) outc" where
  "tell ie p h q = (if (IS_STARTED_PROBE p \<or> IS_RUNNING_PROBE p) \<and> (p_is_params_chg p \<or> p_is_snooper_chg p \<or> p_is_restart p)
     then bnd (send_snooper_obj ie p q) (\<lambda>(ret, q). Ok (p, h, q, if ret \<noteq> 0 then Inl (Some Send_failed) else Inr ()))
     else Ok (p, h, q, Inr ()))"

lemma apply_cmd_snoopers:
  assumes "probe_parser_cmd env json_api c p = Ok (p1, Inr ())" "fst (backup_snooper p1 b1) = p2" "b1 = snd (probe_backup_cmd p zero_probe)"
    and "parse_snooper cx json_api j (h, p2) = bnd (refresh_snooper_obj cx (h, p3)) (\<lambda>(h, p). Ok (h, p, Inr ()))"
  shows "apply_request env ie cx json_api (JObj [(''cmd'', c), (''snoopers'', j)]) p h q =
     bnd (refresh_snooper_obj cx (h, p3)) (\<lambda>(h, p4). tell ie (set_probe_modify (ie_repr ie) p4 (snd (backup_snooper p1 b1))) h q)"
proof -
  let ?J = "JObj [(''cmd'', c), (''snoopers'', j)]"
  have items: "cJSON_GetObjectItem json_api ?J ''cmd'' = Some c" "cJSON_GetObjectItem json_api ?J ''snoopers'' = Some j"
    "cJSON_GetObjectItem json_api ?J ''params'' = None" "cJSON_GetObjectItem json_api ?J ''state'' = None" by (simp_all add: json_api_def)
  have b: "backup_snooper p1 b1 = (p2, snd (backup_snooper p1 b1))" "probe_backup_cmd p zero_probe = (p, b1)"
    using assms(2,3) by (simp_all add: backup_snooper_def probe_backup_cmd_def)
  have run: "item_pass json_api ?J (probe_parsers env cx json_api) (probe_parsers env cx json_api) 0 0 (Inl (Some Bad_request))
        \<lparr>rs_probe = p, rs_backup = zero_probe, rs_pods = h, rs_queue = q\<rparr> =
      bnd (refresh_snooper_obj cx (h, p3)) (\<lambda>(h, p4). Ok (\<lparr>rs_probe = p4, rs_backup = snd (backup_snooper p1 b1), rs_pods = h, rs_queue = q\<rparr>, Inr ()))"
  proof (cases "refresh_snooper_obj cx (h, p3)")
    case (Ok x)
    then show ?thesis by (cases x) (simp add: probe_parsers_def items run_cmd_def run_snoopers_def do_backup_def b(2) assms(1,2,4) case_prod_unfold)
  qed (simp_all add: probe_parsers_def items run_cmd_def run_snoopers_def do_backup_def b(2) assms(1,2,4) case_prod_unfold)
  show ?thesis
  proof (cases "refresh_snooper_obj cx (h, p3)")
    case (Ok x)
    then show ?thesis by (cases x) (simp only: apply_request_def run tell_def bnd_simps prod.case sum.case req_state.simps Let_def)
  qed (simp_all only: apply_request_def run bnd_simps)
qed


definition demo_get_probe :: probe_s where
  "demo_get_probe = demo_ext\<lparr>p_range_flags := 4, p_confs := Some (CONF_PROC_ID 7) # replicate 99 None, p_conf_num := 1\<rparr>"

definition demo_get_tree :: json where
  "demo_get_tree = JObj [(''cmd'', JObj [(''bin'', JStr ''/opt/tcpprobe''), (''check_cmd'', JStr []), (''probe'', JArr [JStr ''tcp_rtt''])]),
     (''snoopers'', JObj [(''proc_id'', JArr [JNum 7]), (''proc_name'', JArr []), (''pod_id'', JArr []), (''container_id'', JArr []), (''gaussdb'', JArr [])])]"

lemma modify_keeps_bin: "p_bin (set_probe_modify repr p b) = p_bin p"
  by (simp add: set_probe_modify_def Let_def)

lemma tell_idle: "p_status p = 0 \<Longrightarrow> tell ie p h q = Ok (p, h, q, Inr ())"
  by (simp add: tell_def IS_STARTED_PROBE_def IS_RUNNING_PROBE_def)


definition demo_rest_env :: "((string \<times> (string \<times> containers_hash_t) list pods_hash_t) list, (string \<times> containers_hash_t) list, json) rest_env" where
  "demo_rest_env = \<lparr>re_pm = demo_pm, re_ipc = demo_ie, re_cx = demo_cx, re_api = json_api, re_parse = (\<lambda>_. Some demo_params_only), re_print = (\<lambda>_. None),
     re_probe_alloc = True, re_backup_alloc = True, re_request_alloc = True, re_post_alloc = True, re_post_processor = True,
     re_mhd = \<lparr>mhd_create = True, mhd_header = True, mhd_queue = True\<rparr>, re_root_ca = None,
     re_gnutls = \<lparr>x509_crt_init = 0, tls_session = False, certificate_verify_peers2 = 0, certificate_get_peers = None, x509_crt_import = 0,
       trust_list_add_trust_mem = (\<lambda>_. 1), trust_list_verify_crt2 = (\<lambda>_. (0, 0))\<rparr>\<rparr>"

definition demo_rest_state :: "(string \<times> (string \<times> containers_hash_t) list pods_hash_t) list rest_state" where
  "demo_rest_state = \<lparr>rst_probes = replicate 22 None, rst_pods = [], rst_queue = [], rst_err = []\<rparr>"


end
