(* ===== verification/Spec2Isabelle.thy ===== *)
theory Spec2Isabelle
  imports Gopher_Prelude Uthash C_Strings Fifo Ipc_Msg Ipc_Recv Imdb Imdb_Export Raw_Data Pgsql_Parser Data_Stream Pgsql_Matcher L7_Proto Histogram Http_Headers Http_Matcher Conn_Tracker Probe_Params Probe_Args Libconfig Config Meta Objects Pod_Mng Snooper Probe_Mng Event2json Event_Report Ingress Metric_Logs Resource Rest_Server
begin

text \<open>
  gala-gopher is a collector of observability data: a daemon starts probes, reads the lines they print, keeps the metrics in
  an in-memory database, and exports metrics, events and logs. This development models the daemon and the layer-7
  (application protocol) probe, from the C sources under src/src. Every definition is executable; every theory opens with
  what it holds; paths below are relative to src/src, and l7probe is probes/extends/ebpf.probe/src/l7probe.

  \<^bold>\<open>The parts and how they interact.\<close> The daemon reads its configuration, creates its managers in the order of a table, builds the tables of the database from the
  metadata files of the probes, connects ingress, egress, Kafka, log files and web server as configured, and starts a thread for each. A REST request for a probe, received
  in pieces, is applied by the probe manager, which parses
  the parameters and the snooper configurations, asks the pod manager for the processes of a container or pod, rolls everything
  back when an item is refused, and starts or stops the thread of the probe. The configuration is sent to the probe as a message
  of type-length-value units on a System V queue, and received there. A probe prints lines; the reader of its output puts
  every line into the fifo of the probe, the ingress thread takes it from there, adds metric lines to the
  database, turns log and event lines into JSON and passes them to the egress thread, which produces them to Kafka. The database
  is exported as Prometheus text into log files, which the web server hands out; the metadata is reported every ten minutes. The probes throttle the events they print. The layer-7 probe recognises the protocol of a connection, cuts
  its captured bytes into frames, pairs requests with responses, counts the latencies of the pairs in histograms of the connection and of
  the link it belongs to, and reports the links periodically.

  \<^bold>\<open>Theories and sources.\<close>
  \<^item> Gopher_Prelude, C_Strings: outcomes of C code (\<open>Ok\<close>, \<open>UB\<close> for undefined behaviour, \<open>NoRet\<close> for a loop that never ends),
    byte buffers with bounds, the string functions of the C library. No source of their own.
  \<^item> Uthash: the hash tables, a library outside the repository: operations as a record, their laws as \<open>uthash_ok\<close>.
  \<^item> Fifo: lib/fifo/fifo.c. \<open>FifoPut\<close> and \<open>FifoGet\<close> as whole calls and, with the steps of both threads interleaved, as the
    relation \<open>spsc_step\<close>.
  \<^item> Ipc_Msg, Ipc_Recv: common/ipc.c, the builder and the receiver of messages, and the queue.
  \<^item> Imdb, Imdb_Export: lib/imdb/imdb.c, tables and records, and the export.
  \<^item> Probe_Params, Pod_Mng, Snooper, Probe_Mng: lib/probe/probe_params_parser.c, pod_mng.c, snooper.c, probe_mng.c; the threads of a
    probe are the steps of a relation.
  \<^item> Probe_Args, Event_Report, Objects: common/args.c, common/event.c with event_config.c, common/object.c, which the probes share.
  \<^item> Libconfig, Config, Meta: the configuration library as a record of operations (outside the repository); lib/config/config.c; lib/meta/meta.c with the part of
    resource/resource.c that builds the tables.
  \<^item> Metric_Logs: common/logs.cpp, lib/imdb/metrics.c, web_server/web_server.c.
  \<^item> Resource: resource/resource.c, lib/kafka/kafka.c, daemon/daemon.c, daemon/main.c: the state is the record \<open>ResourceMgr\<close>, every initialiser a function on it.
  \<^item> Rest_Server: api/rest_server.c with \<open>get_probe_json\<close> of probe_mng.c and the printers of snooper.c; the calls of one request are a list.
  \<^item> Event2json, Ingress: ingress/event2json.c, common/strbuf.h; lib/probe/extend_probe.c, ingress/ingress.c, egress/egress.c.
  \<^item> Raw_Data, Pgsql_Parser, Data_Stream, Pgsql_Matcher: l7probe/protocol/common, utils/binary_decoder.c, pgsql/pgsql_parser.c,
    l7probe/data_stream.c with protocol/expose/protocol_parser.c, and pgsql/pgsql_matcher.c with pgsql_msg_format.c.
  \<^item> L7_Proto, Histogram: l7probe/include/l7.h and connect.h; probes/extends/ebpf.probe/src/lib/histogram.c.
  \<^item> Http_Headers, Http_Matcher: l7probe/protocol/http1.x/parser/http_parse_wrapper.c and matcher/http_matcher.c.
  \<^item> Conn_Tracker: l7probe/conn_tracker.c, which uses all of the former; the probe is the relation \<open>l7_reachable\<close> over the events of the kernel,
    the parse passes and the reports.
  Structures are records with the members of the source (a prefix where two structures share a name), enumerations and tagged
  unions are datatypes, unsigned integers are words of their width, C strings are \<open>string\<close> or byte lists, and stateful functions take
  and return the structures they change.

  \<^bold>\<open>Interfaces.\<close> A locale states what a client needs, and is interpreted on the model: \<open>bounded_queue\<close> (the ring buffer, \<open>ring\<close>),
  \<open>queue_drain\<close> (the ingress and the egress loop), \<open>tlv_strings\<close> (the two receivers of string units), \<open>param_table\<close> (the
  keys of the parameters), \<open>item_parser\<close> (the five kinds of snooper items), \<open>frame_parser\<close> (the PostgreSQL parser, \<open>pgsql\<close>),
  \<open>incremental\<close> (the parsers of HTTP requests and responses, \<open>request_line\<close> and \<open>response_line\<close>).

  \<^bold>\<open>What the lemmas show.\<close> For the fifo: order, bounds and refinement of a bounded queue under every interleaving of the
  two threads. For messages: the built bytes are the encoding of the body, and come back unchanged. For the database: the invariant of
  all reachable states, which record a line becomes, and what an export pass prints, removes and keeps. For requests: which are
  accepted, what they set, that a refused one is rolled back and that no other probe changes, and that an accepted one arrives at its
  probe (this theory); that a REST request acts on its whole body however it is cut, as long as its pieces are terminated, and that what is printed of a probe can be sent back. For the start: a configuration loads
  exactly when it is complete, the tables are those of the measurements (of metadata without percent signs), the managers are connected as configured and every thread has what it uses. From the metadata
  to a record (this theory): the first line that names a measurement becomes its record. For the log files: every export is served once and in order, when requests and writes
  do not overlap. For events: which are reported, and when their lines are read back. For the ways of lines: each reaches the database, the log or Kafka once and in order, as exactly the JSON
  text specified. For the layer-7 probe: decoders and parsers stay inside their buffers (the search for a string only when it fits), the parse loop of PostgreSQL streams ends on any bytes,
  queries are paired with their answers, HTTP requests parse back from their text and in any pieces, percentiles come from the right bucket, and
  the statistics of connections and links are exact, although no link is ever made and the probe as a whole observes nothing. Where the code does not do what it means to, the theorem states what it does.

  \<^bold>\<open>Parameters, bounds and fuel.\<close> Which allocations succeed (\<open>malloc_ok\<close> and the environments \<open>pm_env\<close>, \<open>ig_env\<close>, \<open>ipc_env\<close>, \<open>mt_env\<close>, \<open>ct_env\<close>),
  the contents of memory the code does not initialise, the JSON library (\<open>cjson_ok\<close>), the hash tables (\<open>uthash_ok\<close>), libconfig (\<open>libconfig\<close>), BPF maps (\<open>bpf_map_ok\<close>),
  the logging library and the shell (\<open>log_env_ok\<close>), librdkafka, libmicrohttpd and gnutls (\<open>rdkafka\<close>, \<open>mhd\<close>, \<open>gnutls\<close>), the rest of a start (\<open>start_env\<close>), the container
  engine, /proc and the clock are arguments; so is the rounding of single-precision arithmetic (\<open>rnd\<close>, with \<open>rounding\<close> what is used of it). Theorems quantify over them; where they need success, it is a named hypothesis with a
  witness. Capacities are those of the source (\<open>SNOOPER_MAX\<close>, \<open>FRAME_BUF_SIZE\<close>, \<open>RECORD_BUF_SIZE\<close> and so on). No result rests on fuel: loops are
  structural recursions, functions with a termination proof, or, where the code may not return, have the outcome \<open>NoRet\<close>.

  \<^bold>\<open>Not modelled.\<close> Code that only calls other systems (libbpf, popen and the shell, timers and signals), the eBPF
  programs that run in the kernel, the probes that read /proc or BPF maps and print, printing of log messages, freeing of
  memory except where freed memory is used again, and the generated kernel headers. HTTP bodies are not modelled: their frames are built through pointers that are never set; the boundary and
  frame functions of HTTP are a parameter of Data_Stream, and no theorem on streams covers HTTP.
  The command line client is a socket and a printer. Allocation inside cJSON while a probe is printed is taken to succeed.
\<close>

unbundle bit_operations_syntax

section \<open>From a request to the probe\<close>

text \<open>
  What a probe receives after a request: the ranges, parameters and change flags of the probe, and the
  processes it is to observe; the remaining slots are zeroed.
\<close>

definition seen_body :: "ipc_env \<Rightarrow> probe_s \<Rightarrow> u32 list \<Rightarrow> ipc_body_s" where
  "seen_body ie p ids =
     \<lparr>probe_range_flags = p_range_flags p, snooper_obj_num = of_nat (length ids),
      probe_flags = (if p_is_params_chg p then IPC_FLAGS_PARAMS_CHG else 0) OR
                    (if p_is_snooper_chg p then IPC_FLAGS_SNOOPER_CHG else 0),
      probe_param = ie_repr ie (p_param p),
      snooper_objs = map OBJ_PROC ids @ replicate (SNOOPER_MAX - length ids) (OBJ_PROC 0)\<rparr>"

definition demo_full_request :: json where
  "demo_full_request = JObj [(''snoopers'', demo_snoopers), (''state'', JStr ''running'')]"

text \<open>The object array of a probe that observes processes only.\<close>

definition proc_slots :: "u32 list \<Rightarrow> snooper_obj_s option list" where
  "proc_slots ids = map Some (map OBJ_PROC ids) @ replicate (SNOOPER_MAX - length ids) None"

lemma proc_slots_objs: "List.map_filter id (proc_slots ids) = map OBJ_PROC ids"
  by (simp add: proc_slots_def List.map_filter_def)

lemma request_objs:
  assumes "apply_request env ie cx api json p h q = Ok (p', h', q', Inr u)"
    and "cJSON_GetObjectItem api json ''snoopers'' = Some item" "cjson_ok api" "\<And>x. cx_alloc cx x"
    and "items_valid api item" "items_count api item \<le> SNOOPER_MAX" "p_conf_num p \<le> SNOOPER_MAX"
    and "requested api item = map CONF_PROC_ID ids"
  shows "p_objs p' = proc_slots ids \<and> length ids \<le> SNOOPER_MAX"
proof -
  obtain st where ip: "item_pass api json (probe_parsers env cx api) (probe_parsers env cx api) 0 0 (Inl (Some Bad_request))
      \<lparr>rs_probe = p, rs_backup = zero_probe, rs_pods = h, rs_queue = q\<rparr> = Ok (st, Inr ())" (is "item_pass _ _ _ _ _ _ _ ?s0 = _")
    and p': "p' = set_probe_modify (ie_repr ie) (rs_probe st) (rs_backup st)"
    using assms(1) by (rule apply_request_accepted)
  obtain s1 s2 s3 v where c1: "case cJSON_GetObjectItem api json ''cmd'' of None \<Rightarrow> s1 = ?s0
      | Some item \<Rightarrow> \<exists>v. run_cmd env api item (do_backup (Some probe_backup_cmd) ?s0) = Ok (s1, Inr v)"
    and c2: "run_snoopers cx api item (do_backup (Some backup_snooper) s1) = Ok (s2, Inr v)"
    and c3: "case cJSON_GetObjectItem api json ''params'' of None \<Rightarrow> s3 = s2
      | Some item \<Rightarrow> \<exists>v. run_params api item (do_backup (Some probe_backup_params) s2) = Ok (s3, Inr v)"
    and c4: "case cJSON_GetObjectItem api json ''state'' of None \<Rightarrow> st = s3
      | Some item \<Rightarrow> \<exists>v. run_state env api item s3 = Ok (st, Inr v)"
    using request_stages [OF ip] assms(2) by auto
  let ?p1 = "rs_probe (do_backup (Some backup_snooper) s1)"
  have "p_conf_num (rs_probe s1) = p_conf_num p"
    using c1 by (auto simp: do_backup_def probe_backup_cmd_def dest!: run_cmd_frame but_cmd_ex split: option.splits)
  then have "p_confs ?p1 = replicate SNOOPER_MAX None" "p_conf_num ?p1 \<le> SNOOPER_MAX"
    using assms(7) by (simp_all add: do_backup_def backup_snooper_def)
  from parse_snooper_procids [where cx = cx, OF assms(3-6) this assms(8)] c2
  have "p_objs (rs_probe s2) = proc_slots ids" by (auto simp: run_snoopers_def proc_slots_def)
  moreover have "length ids \<le> SNOOPER_MAX" using requested_length [of api item] assms(6,8) by simp
  moreover have "p_objs (rs_probe s3) = p_objs (rs_probe s2)"
    using c3 by (auto simp: do_backup_def probe_backup_params_def but_params_def dest!: run_params_frame arg_cong [of _ _ p_objs] split: option.splits)
  moreover have "p_objs (rs_probe st) = p_objs (rs_probe s3)"
    using c4 by (auto simp: but_state_def dest!: run_state_frame arg_cong [of _ _ p_objs] split: option.splits)
  ultimately show ?thesis by (simp add: p' set_probe_modify_keeps)
qed

lemma build_ipc_body_procs:
  assumes "p_objs p = proc_slots ids" "length ids \<le> SNOOPER_MAX" "length junk = SNOOPER_MAX" "length (repr (p_param p)) = PARAMS_SIZE"
  shows "live_objs (build_ipc_body repr junk p) = map OBJ_PROC ids" "body_ok (build_ipc_body repr junk p)"
proof -
  have objs: "List.map_filter id (take SNOOPER_MAX (p_objs p)) = map OBJ_PROC ids"
    using assms(2) by (simp add: assms(1) proc_slots_def List.map_filter_def)
  have "length ids mod 4294967296 = length ids" using assms(2) by (simp add: SNOOPER_MAX_def)
  then show live: "live_objs (build_ipc_body repr junk p) = map OBJ_PROC ids"
    using assms(2,3) by (simp add: live_objs_def build_ipc_body_def objs Let_def unat_of_nat)
  show "body_ok (build_ipc_body repr junk p)"
    unfolding body_ok_def live using assms(2-4) by (simp add: build_ipc_body_def objs Let_def)
qed

text \<open>C2. From the request to the probe: when a request that names processes is accepted and the
  manager has something to tell, the probe that reads its messages next gets exactly the processes of
  the request, in order, with the parameters, ranges and change flags the manager holds, whatever
  messages were queued before; the messages of the other probes stay queued.\<close>

theorem request_reaches_probe:
  assumes "apply_request env ie cx api json p h q = Ok (p', h', q', Inr u)"
    and "cJSON_GetObjectItem api json ''snoopers'' = Some item" "cjson_ok api" "\<And>x. cx_alloc cx x"
    and "items_valid api item" "items_count api item \<le> SNOOPER_MAX" "p_conf_num p \<le> SNOOPER_MAX"
    and "requested api item = map CONF_PROC_ID ids"
    and "IS_STARTED_PROBE p'" "p_is_params_chg p' \<or> p_is_snooper_chg p' \<or> p_is_restart p'"
    and "length (ie_junk ie) = SNOOPER_MAX" "length (ie_repr ie (p_param p')) = PARAMS_SIZE" "length m = RCV_BUF_SIZE"
    and "\<forall>x \<in> set q'. fst x = p_type p' \<longrightarrow> length (snd x) \<le> GOPHER_IPC_MSG_LEN + 4"
  shows "\<exists>m'. recv_ipc_msg malloc_ok (ie_msq_id ie) (p_type p') b0 q' m =
      Ok (0, seen_body ie p' ids, filter (\<lambda>x. fst x \<noteq> p_type p') q', m')"
proof -
  let ?b = "build_ipc_body (ie_repr ie) (ie_junk ie) p'"
  obtain q0 where "if (IS_STARTED_PROBE p' \<or> IS_RUNNING_PROBE p') \<and> (p_is_params_chg p' \<or> p_is_snooper_chg p' \<or> p_is_restart p')
         then send_snooper_obj ie p' q0 = Ok (0, q') else q' = q0"
    using assms(1) by (rule apply_request_accepted) (rule that)
  then have s: "send_ipc_msg (ie_malloc ie) (ie_msgsnd ie) (ie_msq_id ie) (p_type p') ?b q0 = Ok (0, q')"
    using assms(9,10) by (simp add: send_snooper_obj_def)
  have objs: "p_objs p' = proc_slots ids" "length ids \<le> SNOOPER_MAX"
    using request_objs [where cx = cx, OF assms(1-8)] by simp_all
  note body = build_ipc_body_procs [OF objs assms(11), of "ie_repr ie", OF assms(12)]
  note sent = send_ipc_msg_sent [OF s body(2)]
  have "?b\<lparr>snooper_objs := live_objs ?b @ replicate (SNOOPER_MAX - length (live_objs ?b)) (OBJ_PROC 0)\<rparr> = seen_body ie p' ids"
    unfolding body(1) using objs by (simp add: build_ipc_body_def seen_body_def Let_def proc_slots_def List.map_filter_def)
  then show ?thesis
    using recv_procs [OF body(2), of "ie_msq_id ie" "p_type p'" m q0 malloc_ok b0] sent assms(13,14)
    by (auto simp: PROBE_BASEINFO_def body(1))
qed

lemma demo_snoopers_parsed:
  assumes "p_confs p = replicate SNOOPER_MAX None" "p_conf_num p \<le> SNOOPER_MAX"
  shows "parse_snooper demo_cx json_api demo_snoopers (h, p) = Ok (h, p\<lparr>p_confs := map Some [CONF_PROC_ID 17, CONF_PROC_ID 4242] @ replicate 98 None,
     p_conf_num := 2, p_objs := proc_slots [17, 4242]\<rparr>, Inr ())"
proof -
  have a: "\<And>x. cx_alloc demo_cx x" by (simp add: demo_cx_def)
  have "items_count json_api demo_snoopers \<le> SNOOPER_MAX" by (simp add: demo_requested SNOOPER_MAX_def)
  from parse_snooper_procids [where cx = demo_cx and h = h and ids = "[17, 4242]", OF json_api_ok a demo_requested(2) this assms]
  show ?thesis using demo_requested(1) by (auto simp: SNOOPER_MAX_def proc_slots_def)
qed

lemma demo_full_items:
  "cJSON_GetObjectItem json_api demo_full_request ''cmd'' = None"
  "cJSON_GetObjectItem json_api demo_full_request ''snoopers'' = Some demo_snoopers"
  "cJSON_GetObjectItem json_api demo_full_request ''params'' = None"
  "cJSON_GetObjectItem json_api demo_full_request ''state'' = Some (JStr ''running'')"
  "node_type json_api (JStr s) = cJSON_String json_api" "node_valuestring json_api (JStr s) = Some s"
  by (simp_all add: demo_full_request_def json_api_def)

lemma demo_full_pass:
  "\<exists>st. item_pass json_api demo_full_request (probe_parsers demo_pm demo_cx json_api) (probe_parsers demo_pm demo_cx json_api) 0 0
        (Inl (Some Bad_request)) \<lparr>rs_probe = demo_ext, rs_backup = zero_probe, rs_pods = [], rs_queue = []\<rparr> = Ok (st, Inr ()) \<and>
     rs_queue st = [] \<and> IS_STARTED_PROBE (rs_probe st) \<and> p_type (rs_probe st) = 5 \<and> p_objs (rs_probe st) = proc_slots [17, 4242] \<and>
     p_conf_num (rs_probe st) = 2 \<and> p_conf_num (rs_backup st) = 0"
proof -
  have "p_confs demo_ext = replicate SNOOPER_MAX None" "p_conf_num demo_ext = 0" "p_conf_num demo_ext \<le> SNOOPER_MAX"
    by (simp_all add: demo_ext_def new_probe_def new_probe_state_def SNOOPER_MAX_def)
  then show ?thesis
    by (simp add: probe_parsers_def demo_full_items run_snoopers_def do_backup_def backup_snooper_def demo_snoopers_parsed)
      (simp add: run_state_def probe_parser_state_def demo_full_items start_probe_def Let_def try_start_probe_def strcaseeq_def IS_RUNNING_PROBE_def
        IS_STARTED_PROBE_def IS_STOPPED_PROBE_def IS_STOPPING_PROBE_def is_probe_ready_def demo_ext_def new_probe_def new_probe_state_def
        set_probe_status_flags_def unset_probe_status_flags_def status_flags demo_pm_def check_probe_need_start_def)
qed

lemma demo_full_run: "\<exists>p' h' x. apply_request demo_pm demo_ie demo_cx json_api demo_full_request demo_ext [] [] =
     Ok (p', h', [(5, x)], Inr ()) \<and> IS_STARTED_PROBE p' \<and> p_is_snooper_chg p' \<and> p_type p' = 5 \<and> length x \<le> GOPHER_IPC_MSG_LEN + 4"
proof -
  obtain st where ip: "item_pass json_api demo_full_request (probe_parsers demo_pm demo_cx json_api) (probe_parsers demo_pm demo_cx json_api) 0 0
        (Inl (Some Bad_request)) \<lparr>rs_probe = demo_ext, rs_backup = zero_probe, rs_pods = [], rs_queue = []\<rparr> = Ok (st, Inr ())"
    and st: "rs_queue st = []" "IS_STARTED_PROBE (rs_probe st)" "p_type (rs_probe st) = 5" "p_objs (rs_probe st) = proc_slots [17, 4242]"
      "p_conf_num (rs_probe st) = 2" "p_conf_num (rs_backup st) = 0"
    using demo_full_pass by blast
  let ?p = "set_probe_modify (ie_repr demo_ie) (rs_probe st) (rs_backup st)"
  let ?b = "build_ipc_body (ie_repr demo_ie) (ie_junk demo_ie) ?p"
  have started: "IS_STARTED_PROBE ?p" using st(2) by (simp add: IS_STARTED_PROBE_def set_probe_modify_keeps)
  have body: "live_objs ?b = map OBJ_PROC [17, 4242]" "body_ok ?b"
    using build_ipc_body_procs [of ?p "[17, 4242]" "ie_junk demo_ie" "ie_repr demo_ie"]
    by (simp_all add: set_probe_modify_keeps st demo_ie_def SNOOPER_MAX_def)
  have "send_snooper_obj demo_ie ?p [] = Ok (0, [(5, msg_text ?b)])"
    using started send_ipc_msg_text [OF body(2), of "\<lambda>_. True" "\<lambda>_. True" 0 5 "[]"]
    by (simp add: send_snooper_obj_def set_probe_modify_keeps st(3)) (simp add: demo_ie_def PROBE_BASEINFO_def PROBE_TYPE_MAX_def)
  moreover have "length (msg_text ?b) \<le> GOPHER_IPC_MSG_LEN + 4"
    using enc_body_procs_le [OF body(2)] body(1) by (simp add: msg_text_def)
  ultimately show ?thesis
    using started st by (simp add: apply_request_def ip Let_def set_probe_modify_flags set_probe_modify_keeps)
qed

theorem request_reaches_probe_witness:
  "\<exists>p' h' q' m'. apply_request demo_pm demo_ie demo_cx json_api demo_full_request demo_ext [] [] = Ok (p', h', q', Inr ()) \<and>
     recv_ipc_msg (\<lambda>_. False) 0 5 zero_body q' (replicate RCV_BUF_SIZE 0) = Ok (0, seen_body demo_ie p' [17, 4242], [], m')"
proof -
  obtain p' h' x where r: "apply_request demo_pm demo_ie demo_cx json_api demo_full_request demo_ext [] [] = Ok (p', h', [(5, x)], Inr ())"
    and s: "IS_STARTED_PROBE p'" "p_is_snooper_chg p'" "p_type p' = 5" "length x \<le> GOPHER_IPC_MSG_LEN + 4"
    using demo_full_run by blast
  have "\<And>x. cx_alloc demo_cx x" "items_count json_api demo_snoopers \<le> SNOOPER_MAX" "p_conf_num demo_ext \<le> SNOOPER_MAX"
    "length (ie_junk demo_ie) = SNOOPER_MAX" "length (ie_repr demo_ie (p_param p')) = PARAMS_SIZE" "ie_msq_id demo_ie = 0"
    by (simp_all add: demo_cx_def demo_requested demo_ext_def new_probe_def new_probe_state_def SNOOPER_MAX_def demo_ie_def)
  then show ?thesis
    using request_reaches_probe [where cx = demo_cx and ids = "[17, 4242]" and m = "replicate RCV_BUF_SIZE 0" and malloc_ok = "\<lambda>_. False" and ?b0.0 = zero_body,
        OF r demo_full_items(2) json_api_ok _ demo_requested(2)] demo_requested(1) r s by simp
qed

section \<open>From the metadata to a record\<close>

text \<open>C3. From a metadata file to a record: in the database that the daemon has built from its measurements, the first line of a probe that names a measurement and has a value for each
  of its fields becomes the one record of that measurement's table: each field has its value of the line (an empty one as \<open>(null)\<close>, a long one cut to 127
  characters), under the key made of the values of the key fields, stamped with the time; nothing else in the ingress changes. It holds under these conditions: the metadata has no percent
  sign in its texts (\<open>measurement_ok\<close>; the shipped \<open>system_disk.meta\<close> and \<open>system_cpu.meta\<close> have one, and loading them is undefined, \<open>database_percent\<close>), the names of the measurements
  are distinct when cut to 31 characters, and this one has a key field and a name of at most 31 characters without a bar that is neither \<open>log\<close> nor \<open>event\<close>; the values hold no bar and no
  percent sign, and the first is not empty (else the values shift, \<open>led\<close>); there is memory and room; and the metrics go to the logs and not to Kafka.\<close>

theorem measurement_line_stored:
  assumes "uthash_ok (ge_ops env)" "\<And>x. malloc_ok x" "\<forall>a. ge_imdb_malloc env a"
    and "list_all measurement_ok mms" "distinct (map (take 31 \<circ> m_name) mms)" "tables db = []" "length mms \<le> unat (tblsCapability db)"
    and "IMDBMgrDatabaseLoad (ge_ops env) malloc_ok cap mms db = Ok (0, imdbMgr ig)" "0 < cap"
    and "i < length mms" "0 < key_fields (mms ! i)" "m_name (mms ! i) \<noteq> []" "CHR ''|'' \<notin> set (m_name (mms ! i))" "length (m_name (mms ! i)) \<le> 31" "m_name (mms ! i) \<notin> {''log'', ''event''}"
    and "\<forall>v \<in> set vs. token_ok v" "length vs = length (m_fields (mms ! i))" "hd vs \<noteq> []"
    and "writeLogsOn ig" "\<forall>eg. egressMgr ig = Some eg \<longrightarrow> \<not> metric_kafkaMgr eg"
  shows "\<exists>h r. process_line env (''|'' @ m_name (mms ! i) @ bare_line vs) ig =
        Ok (ig\<lparr>imdbMgr := (imdbMgr ig)\<lparr>tables := (tables (imdbMgr ig))[i := (tables (imdbMgr ig) ! i)\<lparr>records := h\<rparr>]\<rparr>\<rparr>)
      \<and> ut_iter (ge_ops env) h = [(rkey r, r)] \<and> updateTime r = env_now (ge_sys env)
      \<and> map (\<lambda>m. (mname m, mval m)) (metrics r) = zip (map (take 31 \<circ> f_name) (m_fields (mms ! i))) (map field_value vs)
      \<and> rkey r = key_block (128 * key_fields (mms ! i)) (key_values (map metric_of (m_fields (mms ! i))) vs)"
proof -
  let ?mm = "mms ! i" and ?t = "table_of (ge_ops env) cap (mms ! i)"
  have d: "imdbMgr ig = db\<lparr>tables := map (table_of (ge_ops env) cap) mms\<rparr>"
    using database_load_run [where malloc_ok = malloc_ok and mgr = db and ops = "ge_ops env" and cap = cap, OF assms(2) assms(4)] assms(5-8) by simp
  have mok: "mgr_ok (ge_ops env) (imdbMgr ig)"
    using assms(1,5,7) by (simp add: d mgr_ok_def table_ok_def recs_def table_of_def comp_def list_all_iff uthash_ok_def)
  have mm: "measurement_ok ?mm" using assms(4,10) by (simp add: list_all_length)
  have t: "?t = tables (imdbMgr ig) ! i" "meta ?t = Some (meta_of ?mm)" "tname ?t = m_name ?mm" "recs (ge_ops env) ?t = []" "recordsCapability ?t = cap"
    using assms(1,10,14) by (simp_all add: d table_of_def recs_def uthash_ok_def)
  let ?r = "line_record ?t (meta_of ?mm) (vs @ [[]])"
  have "vs \<noteq> []" using assms(17) mm by (auto simp: measurement_ok_def)
  moreover have "[] = filter (\<lambda>x. fst x \<noteq> rkey ?r) (recs (ge_ops env) ?t)" by (simp add: t(4))
  moreover have "length [] < unat (recordsCapability ?t)" using assms(9) by (simp add: t(5) word_less_nat_alt)
  moreover have "i < length (tables (imdbMgr ig))" "length (tname ?t) < MAX_IMDB_TABLE_NAME_LEN" using assms(10,14) by (simp_all add: d t(3) MAX_IMDB_TABLE_NAME_LEN_def)
  ultimately obtain h where h: "process_line env (''|'' @ tname ?t @ bare_line vs) ig = Ok (ig\<lparr>imdbMgr := (imdbMgr ig)\<lparr>tables := (tables (imdbMgr ig))[i := ?t\<lparr>records := h\<rparr>]\<rparr>\<rparr>)"
      "ut_iter (ge_ops env) h = [] @ [(rkey ?r, ?r\<lparr>updateTime := env_now (ge_sys env)\<rparr>)]"
    using metric_line_run [OF assms(1) mok _ t(1,2) meta_of_ok [OF mm assms(11)] assms(3), of vs ?r "[]"] assms(12,13,15,16,18-20) unfolding t(3) by blast
  have l: "length (m_fields ?mm) = length vs" using assms(17) by simp
  have z: "zip (map metric_of (m_fields ?mm)) (vs @ [[]]) = zip (map metric_of (m_fields ?mm)) vs" using l by (simp add: zip_append2)
  have "metrics ?r = line_metrics (map metric_of (m_fields ?mm)) vs" by (simp add: line_record_def line_metrics_def meta_of_def z)
  then have "map (\<lambda>m. (mname m, mval m)) (metrics ?r) = zip (map (take 31 \<circ> f_name) (m_fields ?mm)) (map field_value vs)"
    using l by (simp add: line_metrics_def metric_of_def list_eq_iff_nth_eq)
  moreover have "rkey ?r = key_block (128 * key_fields ?mm) (key_values (map metric_of (m_fields ?mm)) vs)"
    using unat_key_size [OF mm] by (simp add: line_record_def table_of_def meta_of_def key_values_def z)
  ultimately show ?thesis using h unfolding t(3) t(1) [symmetric]
    by (intro exI [of _ h] exI [of _ "?r\<lparr>updateTime := env_now (ge_sys env)\<rparr>"]) simp
qed

theorem measurement_line_stored_witness:
  "\<exists>ig h r. IMDBMgrDatabaseLoad alist_ops (\<lambda>_. True) 8 [demo_measurement] demo_dbmgr = Ok (0, imdbMgr ig) \<and>
     process_line demo_ig_env ''|proc|42|bash|7|'' ig = Ok (ig\<lparr>imdbMgr := (imdbMgr ig)\<lparr>tables := [(hd (tables (imdbMgr ig)))\<lparr>records := h\<rparr>]\<rparr>\<rparr>) \<and>
     h = [(rkey r, r)] \<and> map (\<lambda>m. (mname m, mval m)) (metrics r) = [(''tgid'', ''42''), (''comm'', ''bash''), (''fork_count'', ''7'')]"
proof -
  let ?ig = "demo_ingress\<lparr>imdbMgr := demo_dbmgr\<lparr>tables := [table_of alist_ops 8 demo_measurement]\<rparr>\<rparr>"
  have l: "IMDBMgrDatabaseLoad alist_ops (\<lambda>_. True) 8 [demo_measurement] demo_dbmgr = Ok (0, imdbMgr ?ig)"
    using database_load_run [of "\<lambda>_. True" "[demo_measurement]" demo_dbmgr alist_ops 8] demo_measurement_ok by (simp add: demo_dbmgr_def)
  have e: "ge_ops demo_ig_env = alist_ops" "\<forall>a. ge_imdb_malloc demo_ig_env a" by (simp_all add: demo_ig_env_def)
  have v: "\<forall>v \<in> set [''42'', ''bash'', ''7'']. token_ok v" by (simp add: token_ok_def plain_def)
  have "\<exists>h r. process_line demo_ig_env (''|'' @ m_name ([demo_measurement] ! 0) @ bare_line [''42'', ''bash'', ''7'']) ?ig =
        Ok (?ig\<lparr>imdbMgr := (imdbMgr ?ig)\<lparr>tables := (tables (imdbMgr ?ig))[0 := (tables (imdbMgr ?ig) ! 0)\<lparr>records := h\<rparr>]\<rparr>\<rparr>)
      \<and> ut_iter (ge_ops demo_ig_env) h = [(rkey r, r)] \<and> updateTime r = env_now (ge_sys demo_ig_env)
      \<and> map (\<lambda>m. (mname m, mval m)) (metrics r) = zip (map (take 31 \<circ> f_name) (m_fields ([demo_measurement] ! 0))) (map field_value [''42'', ''bash'', ''7''])
      \<and> rkey r = key_block (128 * key_fields ([demo_measurement] ! 0)) (key_values (map metric_of (m_fields ([demo_measurement] ! 0))) [''42'', ''bash'', ''7''])"
    using l v demo_measurement_ok
    by (intro measurement_line_stored [where malloc_ok = "\<lambda>_. True" and cap = 8 and db = demo_dbmgr])
       (simp_all add: e alist_ops_ok, simp_all add: demo_dbmgr_def demo_measurement_def key_fields_def demo_ingress_def)
  then obtain h r where h: "process_line demo_ig_env (''|'' @ m_name ([demo_measurement] ! 0) @ bare_line [''42'', ''bash'', ''7'']) ?ig =
        Ok (?ig\<lparr>imdbMgr := (imdbMgr ?ig)\<lparr>tables := (tables (imdbMgr ?ig))[0 := (tables (imdbMgr ?ig) ! 0)\<lparr>records := h\<rparr>]\<rparr>\<rparr>)"
      "ut_iter (ge_ops demo_ig_env) h = [(rkey r, r)]"
      "map (\<lambda>m. (mname m, mval m)) (metrics r) = zip (map (take 31 \<circ> f_name) (m_fields ([demo_measurement] ! 0))) (map field_value [''42'', ''bash'', ''7''])" by blast
  have n: "''|'' @ m_name ([demo_measurement] ! 0) @ bare_line [''42'', ''bash'', ''7''] = ''|proc|42|bash|7|''" by (simp add: demo_measurement_def bare_line_def)
  have "map (\<lambda>m. (mname m, mval m)) (metrics r) = [(''tgid'', ''42''), (''comm'', ''bash''), (''fork_count'', ''7'')]"
    unfolding h(3) by (simp add: demo_measurement_def field_value_def)
  moreover have "h = [(rkey r, r)]" using h(2) by (simp add: e)
  moreover have "(tables (imdbMgr ?ig))[0 := (tables (imdbMgr ?ig) ! 0)\<lparr>records := h\<rparr>] = [(hd (tables (imdbMgr ?ig)))\<lparr>records := h\<rparr>]" by simp
  ultimately show ?thesis using l h(1) unfolding n by (intro exI [of _ ?ig] exI [of _ h] exI [of _ r] conjI) (simp_all only:)
qed

end
